(* ===== verification/Field_Prelude.thy ===== *)
theory Field_Prelude
  imports Main "HOL-Library.List_Lexorder" "HOL-Library.Char_ord"
begin

text \<open>
  What every component of the development shares: the reading of Python strings, decimal
  numerals with a fixed or a free width, keyed tables (the SQLite tables of the services), and the
  contracts that several services keep, stated as locales.

  A Python \<open>str\<close> is a \<^typ>\<open>string\<close> with one character per code point; a HOL character holds code
  points 0 to 255, so text outside Latin-1 is not modelled. String comparison is by code point,
  as in Python and as in SQLite's BINARY collation; it is the lexicographic order of
  \<open>HOL-Library.List_Lexorder\<close>.
\<close>

named_theorems table_simps \<open>rewrite rules for keyed tables\<close>
named_theorems handler_defs \<open>definitions of the service handlers\<close>

section \<open>Python strings\<close>

definition py_isspace :: "char \<Rightarrow> bool" where
  "py_isspace c = (let n = (of_char c :: nat) in
     (9 \<le> n \<and> n \<le> 13) \<or> (28 \<le> n \<and> n \<le> 32) \<or> n = 133 \<or> n = 160)"

definition py_strip :: "string \<Rightarrow> string" where
  "py_strip s = rev (dropWhile py_isspace (rev (dropWhile py_isspace s)))"

definition lower_char :: "char \<Rightarrow> char" where
  "lower_char c = (let n = (of_char c :: nat) in
     if (65 \<le> n \<and> n \<le> 90) \<or> (192 \<le> n \<and> n \<le> 222 \<and> n \<noteq> 215) then char_of (n + 32) else c)"

definition py_lower :: "string \<Rightarrow> string" where
  "py_lower s = map lower_char s"

lemma py_strip_ends:
  "py_strip s = [] \<or> \<not> py_isspace (hd (py_strip s)) \<and> \<not> py_isspace (last (py_strip s))"
proof -
  define t where "t = dropWhile py_isspace s"
  have t: "t = [] \<or> \<not> py_isspace (hd t)"
    unfolding t_def using hd_dropWhile by blast
  define u where "u = dropWhile py_isspace (rev t)"
  have u: "u = [] \<or> \<not> py_isspace (hd u)"
    unfolding u_def using hd_dropWhile by blast
  have strip: "py_strip s = rev u"
    by (simp add: py_strip_def t_def u_def)
  show ?thesis
  proof (cases "u = []")
    case False
    obtain p where "rev t = p @ u"
      unfolding u_def by (metis takeWhile_dropWhile_id)
    then have "t = rev u @ rev p" by (metis rev_append rev_rev_ident)
    with t False have "\<not> py_isspace (hd (rev u))" by (cases "rev u") auto
    with u False show ?thesis by (simp add: strip last_rev)
  qed (simp add: strip)
qed

lemma py_strip_id:
  assumes "k = [] \<or> \<not> py_isspace (hd k) \<and> \<not> py_isspace (last k)"
  shows "py_strip k = k"
proof -
  have dw: "dropWhile p xs = xs" if "xs = [] \<or> \<not> p (hd xs)" for p and xs :: string
    using that by (cases xs) auto
  have "dropWhile py_isspace k = k" by (rule dw) (use assms in auto)
  moreover have "dropWhile py_isspace (rev k) = rev k"
    by (rule dw) (use assms in \<open>auto simp: hd_rev\<close>)
  ultimately show ?thesis by (simp add: py_strip_def)
qed

text \<open>\<open>t in s\<close> for strings: a contiguous substring.\<close>

fun starts_with :: "string \<Rightarrow> string \<Rightarrow> bool" where
  "starts_with [] s = True"
| "starts_with (t # ts) [] = False"
| "starts_with (t # ts) (c # s) = (t = c \<and> starts_with ts s)"

fun str_in :: "string \<Rightarrow> string \<Rightarrow> bool" where
  "str_in t [] = (t = [])"
| "str_in t (c # s) = (starts_with t (c # s) \<or> str_in t s)"

lemma starts_with_iff: "starts_with t s \<longleftrightarrow> (\<exists>r. s = t @ r)"
  by (induction t s rule: starts_with.induct) auto

lemma str_in_iff: "str_in t s \<longleftrightarrow> (\<exists>p r. s = p @ t @ r)"
proof (induction s)
  case Nil
  then show ?case by auto
next
  case (Cons c s)
  have "(\<exists>p r. c # s = p @ t @ r) \<longleftrightarrow> (\<exists>r. c # s = t @ r) \<or> (\<exists>p r. s = p @ t @ r)"
    by (auto simp: Cons_eq_append_conv)
  with Cons show ?case by (simp add: starts_with_iff)
qed

text \<open>\<open>s.split()\<close>, the words between runs of whitespace, and \<open>" ".join(xs)\<close>.\<close>

fun split_words :: "string \<Rightarrow> string \<Rightarrow> string list" where
  "split_words w [] = (if w = [] then [] else [rev w])"
| "split_words w (c # s) =
     (if py_isspace c then (if w = [] then split_words [] s else rev w # split_words [] s)
      else split_words (c # w) s)"

definition py_split :: "string \<Rightarrow> string list" where
  "py_split s = split_words [] s"

fun join_spaces :: "string list \<Rightarrow> string" where
  "join_spaces [] = []"
| "join_spaces [x] = x"
| "join_spaces (x # xs) = x @ '' '' @ join_spaces xs"

lemma set_join_spaces: "set (join_spaces xs) \<subseteq> {CHR '' ''} \<union> (\<Union>x \<in> set xs. set x)"
  by (induction xs rule: join_spaces.induct) auto

section \<open>Decimal numerals\<close>

definition digit :: "nat \<Rightarrow> char" where
  "digit n = char_of (48 + n)"

definition digit_val :: "char \<Rightarrow> nat" where
  "digit_val c = of_char c - 48"

definition is_digit :: "char \<Rightarrow> bool" where
  "is_digit c = (let n = (of_char c :: nat) in 48 \<le> n \<and> n \<le> 57)"

lemma of_char_digit [simp]: "n < 10 \<Longrightarrow> of_char (digit n) = 48 + n"
  by (simp add: digit_def)

lemma digit_val_digit [simp]: "n < 10 \<Longrightarrow> digit_val (digit n) = n"
  by (simp add: digit_val_def)

lemma is_digit_digit [simp]: "n < 10 \<Longrightarrow> is_digit (digit n)"
  by (simp add: is_digit_def)

lemma digit_less_iff [simp]: "m < 10 \<Longrightarrow> n < 10 \<Longrightarrow> digit m < digit n \<longleftrightarrow> m < n"
  by (simp add: less_char_def)

lemma digit_eq_iff [simp]: "m < 10 \<Longrightarrow> n < 10 \<Longrightarrow> digit m = digit n \<longleftrightarrow> m = n"
  by (metis digit_val_digit)

text \<open>The value of a run of digits, most significant first.\<close>

definition dec_val :: "string \<Rightarrow> nat" where
  "dec_val s = foldl (\<lambda>a c. 10 * a + digit_val c) 0 s"

lemma dec_val_Nil [simp]: "dec_val [] = 0"
  by (simp add: dec_val_def)

lemma dec_val_snoc [simp]: "dec_val (s @ [c]) = 10 * dec_val s + digit_val c"
  by (simp add: dec_val_def)

text \<open>\<open>str(n)\<close> for a natural number, and \<open>f"{n:0wd}"\<close> for one that fits its width.\<close>

fun dec_nat :: "nat \<Rightarrow> string" where
  "dec_nat n = (if n < 10 then [digit n] else dec_nat (n div 10) @ [digit (n mod 10)])"

declare dec_nat.simps [simp del]

fun zpad :: "nat \<Rightarrow> nat \<Rightarrow> string" where
  "zpad 0 n = []"
| "zpad (Suc w) n = zpad w (n div 10) @ [digit (n mod 10)]"

definition dec_int :: "int \<Rightarrow> string" where
  "dec_int i = (if i < 0 then CHR ''-'' # dec_nat (nat (- i)) else dec_nat (nat i))"

lemma dec_val_dec_nat [simp]: "dec_val (dec_nat n) = n"
proof (induction n rule: dec_nat.induct)
  case (1 n)
  show ?case
  proof (cases "n < 10")
    case True
    then show ?thesis by (simp add: dec_nat.simps [of n] dec_val_def)
  next
    case False
    with "1.IH" show ?thesis by (simp add: dec_nat.simps [of n])
  qed
qed

lemma digits_dec_nat: "list_all is_digit (dec_nat n)"
proof (induction n rule: dec_nat.induct)
  case (1 n)
  then show ?case by (subst dec_nat.simps) (auto simp: is_digit_digit)
qed

lemma dec_nat_not_Nil [simp]: "dec_nat n \<noteq> []"
  by (subst dec_nat.simps) simp

lemma dec_nat_inj [simp]: "dec_nat m = dec_nat n \<longleftrightarrow> m = n"
  by (metis dec_val_dec_nat)

lemma length_zpad [simp]: "length (zpad w n) = w"
  by (induction w arbitrary: n) auto

lemma digits_zpad: "list_all is_digit (zpad w n)"
  by (induction w arbitrary: n) auto

lemma dec_val_zpad: "n < 10 ^ w \<Longrightarrow> dec_val (zpad w n) = n"
proof (induction w arbitrary: n)
  case (Suc w)
  then have "n div 10 < 10 ^ w" by auto
  with Suc.IH show ?case by simp
qed simp

text \<open>
  Fixed-width numerals compare as their numbers: the reason ISO timestamps can be compared as
  text. The comparison of two texts with prefixes of equal length is decided by the prefixes first.
\<close>

lemma lex_append:
  fixes a b x y :: "'a::order list"
  assumes "length a = length b"
  shows "a @ x < b @ y \<longleftrightarrow> a < b \<or> a = b \<and> x < y"
  using assms
proof (induction a b rule: list_induct2)
  case (Cons a as b bs)
  then show ?case by auto
qed simp

lemma zpad_eq_iff: "m < 10 ^ w \<Longrightarrow> n < 10 ^ w \<Longrightarrow> zpad w m = zpad w n \<longleftrightarrow> m = n"
  by (metis dec_val_zpad)

lemma zpad_less_iff: "m < 10 ^ w \<Longrightarrow> n < 10 ^ w \<Longrightarrow> zpad w m < zpad w n \<longleftrightarrow> m < n"
proof (induction w arbitrary: m n)
  case (Suc w)
  then have m: "m div 10 < 10 ^ w" and n: "n div 10 < 10 ^ w" by auto
  have less: "zpad w (m div 10) < zpad w (n div 10) \<longleftrightarrow> m div 10 < n div 10"
    by (rule Suc.IH [OF m n])
  have eq: "zpad w (m div 10) = zpad w (n div 10) \<longleftrightarrow> m div 10 = n div 10"
    by (rule zpad_eq_iff [OF m n])
  have split: "m < n \<longleftrightarrow> m div 10 < n div 10 \<or> m div 10 = n div 10 \<and> m mod 10 < n mod 10"
    using div_mult_mod_eq [of m 10] div_mult_mod_eq [of n 10] mod_less_divisor [of 10 m]
      mod_less_divisor [of 10 n] by linarith
  show ?case
    unfolding split by (simp add: lex_append less eq)
qed simp

section \<open>Keyed tables\<close>

text \<open>
  A SQLite table with a primary key is the list of its rows in rowid order. \<open>INSERT OR REPLACE\<close>
  deletes the row with the same key and inserts the new one last; an \<open>UPDATE\<close> rewrites rows in
  place; \<open>INSERT OR IGNORE\<close> keeps the row that is there.
\<close>

definition row_get :: "('r \<Rightarrow> 'k) \<Rightarrow> 'r list \<Rightarrow> 'k \<Rightarrow> 'r option" where
  "row_get key rows k = find (\<lambda>r. key r = k) rows"

definition row_put :: "('r \<Rightarrow> 'k) \<Rightarrow> 'r \<Rightarrow> 'r list \<Rightarrow> 'r list" where
  "row_put key r rows = filter (\<lambda>x. key x \<noteq> key r) rows @ [r]"

definition row_update :: "('r \<Rightarrow> bool) \<Rightarrow> ('r \<Rightarrow> 'r) \<Rightarrow> 'r list \<Rightarrow> 'r list" where
  "row_update p f rows = map (\<lambda>r. if p r then f r else r) rows"

definition row_insert_or_ignore :: "('r \<Rightarrow> 'k) \<Rightarrow> 'r \<Rightarrow> 'r list \<Rightarrow> 'r list" where
  "row_insert_or_ignore key r rows = (if key r \<in> set (map key rows) then rows else rows @ [r])"

lemma find_append: "find p (xs @ ys) = (case find p xs of None \<Rightarrow> find p ys | Some x \<Rightarrow> Some x)"
  by (induction xs) auto

lemma row_get_Nil [simp, table_simps]: "row_get key [] k = None"
  by (simp add: row_get_def)

lemma row_get_key: "row_get key rows k = Some r \<Longrightarrow> key r = k \<and> r \<in> set rows"
  by (auto simp: row_get_def find_Some_iff)

lemma row_get_None_iff: "row_get key rows k = None \<longleftrightarrow> k \<notin> key ` set rows"
  by (auto simp: row_get_def find_None_iff)

lemma row_get_put [table_simps]:
  "row_get key (row_put key r rows) k = (if k = key r then Some r else row_get key rows k)"
proof -
  have "find (\<lambda>x. key x = k) (filter (\<lambda>x. key x \<noteq> key r) rows)
      = (if k = key r then None else find (\<lambda>x. key x = k) rows)"
    by (induction rows) auto
  then show ?thesis
    by (auto simp: row_get_def row_put_def find_append split: option.splits)
qed

lemma row_get_update [table_simps]:
  assumes "\<And>r. key (f r) = key r"
  shows "row_get key (row_update p f rows) k
    = map_option (\<lambda>r. if p r then f r else r) (row_get key rows k)"
  by (induction rows) (auto simp: row_get_def row_update_def assms)

lemma row_get_insert_or_ignore [table_simps]:
  "row_get key (row_insert_or_ignore key r rows) k
    = (case row_get key rows k of Some x \<Rightarrow> Some x | None \<Rightarrow> if k = key r then Some r else None)"
proof (cases "key r \<in> set (map key rows)")
  case True
  then show ?thesis
    by (auto simp: row_insert_or_ignore_def row_get_None_iff split: option.splits)
next
  case False
  then show ?thesis
    by (auto simp: row_get_def row_insert_or_ignore_def find_append split: option.splits)
qed

definition unique_keys :: "('r \<Rightarrow> 'k) \<Rightarrow> 'r list \<Rightarrow> bool" where
  "unique_keys key rows = distinct (map key rows)"

lemma unique_keys_put: "unique_keys key rows \<Longrightarrow> unique_keys key (row_put key r rows)"
  by (auto simp: unique_keys_def row_put_def distinct_map_filter)

lemma unique_keys_update:
  assumes "\<And>r. key (f r) = key r" and "unique_keys key rows"
  shows "unique_keys key (row_update p f rows)"
proof -
  have "map key (row_update p f rows) = map key rows"
    by (simp add: row_update_def assms(1) if_distrib)
  with assms(2) show ?thesis by (simp add: unique_keys_def)
qed

lemma unique_keys_insert_or_ignore:
  "unique_keys key rows \<Longrightarrow> unique_keys key (row_insert_or_ignore key r rows)"
  by (auto simp: unique_keys_def row_insert_or_ignore_def)

lemma unique_keys_get:
  "unique_keys key rows \<Longrightarrow> r \<in> set rows \<Longrightarrow> row_get key rows (key r) = Some r"
  by (induction rows) (auto simp: unique_keys_def row_get_def)

section \<open>Contracts shared by the services\<close>

text \<open>
  A store that keeps one row per key: what a lookup returns after a write. The tables of tokens,
  agents, caps, policies and heartbeats are all used through this contract.
\<close>

locale keyed_store =
  fixes lookup :: "'s \<Rightarrow> 'k \<Rightarrow> 'r option"
    and put :: "'r \<Rightarrow> 's \<Rightarrow> 's"
    and key_of :: "'r \<Rightarrow> 'k"
  assumes lookup_put: "lookup (put r s) k = (if k = key_of r then Some r else lookup s k)"
begin

lemma lookup_put_same: "lookup (put r s) (key_of r) = Some r"
  by (simp add: lookup_put)

lemma lookup_put_other: "k \<noteq> key_of r \<Longrightarrow> lookup (put r s) k = lookup s k"
  by (simp add: lookup_put)

lemma put_put_overwrites:
  "key_of r = key_of q \<Longrightarrow> lookup (put r (put q s)) k = lookup (put r s) k"
  by (simp add: lookup_put)

text \<open>After a run of writes a key holds the last row written under it, or what it held before.\<close>

lemma lookup_writes:
  "lookup (fold put rs s) k =
     (case find (\<lambda>r. key_of r = k) (rev rs) of Some r \<Rightarrow> Some r | None \<Rightarrow> lookup s k)"
proof (induction rs arbitrary: s)
  case (Cons r rs)
  then show ?case by (auto simp: lookup_put find_append split: option.splits)
qed simp

end

text \<open>
  A service: a state and operations that keep its invariant. An operation carries what the outside
  world answered it (the clock, a fresh id, another service's reply); \<open>ok\<close> says which operations can
  meet a state, e.g. that a fresh id is fresh.
\<close>

fun ok_run :: "('o \<Rightarrow> 's \<Rightarrow> bool) \<Rightarrow> ('o \<Rightarrow> 's \<Rightarrow> 's) \<Rightarrow> 'o list \<Rightarrow> 's \<Rightarrow> bool" where
  "ok_run ok step [] s = True"
| "ok_run ok step (x # xs) s = (ok x s \<and> ok_run ok step xs (step x s))"

lemma ok_run_append:
  "ok_run ok step (xs @ ys) s \<longleftrightarrow> ok_run ok step xs s \<and> ok_run ok step ys (fold step xs s)"
  by (induction xs arbitrary: s) auto

locale service =
  fixes step :: "'o \<Rightarrow> 's \<Rightarrow> 's"
    and ok :: "'o \<Rightarrow> 's \<Rightarrow> bool"
    and inv :: "'s \<Rightarrow> bool"
  assumes step_inv: "inv s \<Longrightarrow> ok x s \<Longrightarrow> inv (step x s)"
begin

lemma run_inv: "inv s \<Longrightarrow> ok_run ok step xs s \<Longrightarrow> inv (fold step xs s)"
  by (induction xs arbitrary: s) (auto intro: step_inv)

end

text \<open>
  A service with latches: once a latch reads a value, no operation of the service changes it
  (the revocation id of a token, the resolver of an escalation, a retired status).
\<close>

locale latched_service = service step ok inv
  for step :: "'o \<Rightarrow> 's \<Rightarrow> 's" and ok :: "'o \<Rightarrow> 's \<Rightarrow> bool" and inv :: "'s \<Rightarrow> bool" +
  fixes latch :: "'k \<Rightarrow> 's \<Rightarrow> 'v option"
  assumes step_latch: "inv s \<Longrightarrow> ok x s \<Longrightarrow> latch k s = Some v \<Longrightarrow> latch k (step x s) = Some v"
begin

lemma run_latch: "inv s \<Longrightarrow> ok_run ok step xs s \<Longrightarrow> latch k s = Some v \<Longrightarrow> latch k (fold step xs s) = Some v"
  by (induction xs arbitrary: s) (auto intro: step_inv step_latch)

lemma first_value_wins:
  assumes "inv s" and "ok_run ok step (xs @ ys) s"
    and "latch k (fold step xs s) = Some v" and "latch k (fold step (xs @ ys) s) = Some w"
  shows "w = v"
proof -
  have "inv (fold step xs s)" "ok_run ok step ys (fold step xs s)"
    using assms(1,2) by (auto simp: ok_run_append intro: run_inv)
  then have "latch k (fold step ys (fold step xs s)) = Some v"
    using assms(3) by (rule run_latch)
  with assms(4) show ?thesis by simp
qed

end

text \<open>A service whose log only grows: what was recorded stays recorded, in order.\<close>

locale logging_service =
  fixes step :: "'o \<Rightarrow> 's \<Rightarrow> 's"
    and log_of :: "'s \<Rightarrow> 'e list"
  assumes step_log: "\<exists>new. log_of (step x s) = log_of s @ new"
begin

lemma run_log: "\<exists>new. log_of (fold step xs s) = log_of s @ new"
proof (induction xs arbitrary: s)
  case (Cons x xs)
  from step_log [of x s] obtain a where "log_of (step x s) = log_of s @ a" ..
  moreover from Cons [of "step x s"] obtain b where
    "log_of (fold step xs (step x s)) = log_of (step x s) @ b" ..
  ultimately show ?case by simp
qed simp

lemma logged_stays: "e \<in> set (log_of s) \<Longrightarrow> e \<in> set (log_of (fold step xs s))"
  using run_log [of xs s] by auto

end


section \<open>Results\<close>

text \<open>
  A function that raises is a function into \<open>'e + 'a\<close>: \<open>Inl\<close> the exception, \<open>Inr\<close> the value.
\<close>

definition bindE :: "'e + 'a \<Rightarrow> ('a \<Rightarrow> 'e + 'b) \<Rightarrow> 'e + 'b" where
  "bindE m f = (case m of Inl e \<Rightarrow> Inl e | Inr x \<Rightarrow> f x)"

lemma bindE_simps [simp]: "bindE (Inl e) f = Inl e" "bindE (Inr x) f = f x"
  by (simp_all add: bindE_def)

lemma bindE_Inr_iff: "bindE m f = Inr y \<longleftrightarrow> (\<exists>x. m = Inr x \<and> f x = Inr y)"
  by (cases m) auto

lemma if_Inl_Inr: "(if c then Inl e else m) = Inr y \<longleftrightarrow> \<not> c \<and> m = Inr y"
  by simp

text \<open>A loop over a list that stops at the first exception, with the 1-based index of the element.\<close>

fun loopE :: "(nat \<Rightarrow> 's \<Rightarrow> 'a \<Rightarrow> 'e + 's) \<Rightarrow> nat \<Rightarrow> 's \<Rightarrow> 'a list \<Rightarrow> 'e + 's" where
  "loopE f i s [] = Inr s"
| "loopE f i s (x # xs) = bindE (f i s x) (\<lambda>s'. loopE f (i + 1) s' xs)"

text \<open>An invariant of the body, under the elements it accepts, is an invariant of the loop.\<close>

lemma loopE_inv:
  assumes "loopE f i s xs = Inr t" and "P s"
    and "\<And>j u x v. P u \<Longrightarrow> x \<in> set xs \<Longrightarrow> f j u x = Inr v \<Longrightarrow> P v"
  shows "P t"
  using assms
proof (induction xs arbitrary: i s)
  case (Cons x xs)
  from Cons.prems(1) obtain s' where s': "f i s x = Inr s'" "loopE f (i + 1) s' xs = Inr t"
    by (auto simp: bindE_Inr_iff)
  have "P s'" by (rule Cons.prems(3) [OF Cons.prems(2) _ s'(1)]) simp
  show ?case
  proof (rule Cons.IH [OF s'(2) \<open>P s'\<close>])
    fix j u y v
    assume "P u" "y \<in> set xs" "f j u y = Inr v"
    then show "P v" by (intro Cons.prems(3) [of u y j v]) simp_all
  qed
qed simp

text \<open>The first element a test finds something at.\<close>

fun first_some :: "('a \<Rightarrow> 'b option) \<Rightarrow> 'a list \<Rightarrow> 'b option" where
  "first_some f [] = None"
| "first_some f (x # xs) = (case f x of None \<Rightarrow> first_some f xs | Some y \<Rightarrow> Some y)"

lemma first_some_None_iff: "first_some f xs = None \<longleftrightarrow> (\<forall>x \<in> set xs. f x = None)"
  by (induction xs) (auto split: option.splits)


lemma first_some_guard: "first_some (\<lambda>x. if p x then Some (f x) else None) xs = map_option f (find p xs)"
  by (induction xs) auto

lemma case_or_None_iff: "(case x of None \<Rightarrow> y | Some c \<Rightarrow> Some c) = None \<longleftrightarrow> x = None \<and> y = None"
  by (cases x) auto

end
