(* ===== verification/Canonical_Json.thy ===== *)
theory Canonical_Json
  imports Field_Prelude
begin

text \<open>
  \<open>_canonical_bytes\<close> of \<open>packages/field-core/src/field_core/ledger.py\<close>: the compact \<open>json.dumps\<close>
  with sorted keys, encoded as UTF-8. A JSON value is the Python object \<open>json.loads\<close> gives; an
  object is its items in insertion order. A float is kept as the text \<open>float.__repr__\<close> prints,
  which is what \<open>json.dumps\<close> writes.

  The result is \<open>canonical_bytes_eq_iff\<close>: two values have the same canonical bytes exactly when
  they are equal up to the order of object keys, so a hash over the bytes is a hash of the value.
\<close>

datatype json =
    JNull
  | JBool bool
  | JInt int
  | JFloat string
  | JStr string
  | JArr "json list"
  | JObj "(string \<times> json) list"

text \<open>\<open>sort_keys=True\<close>: every object's items in the order of their keys, at every level.\<close>

fun sort_keys :: "json \<Rightarrow> json" where
  "sort_keys (JArr xs) = JArr (map sort_keys xs)"
| "sort_keys (JObj kvs) = JObj (sort_key fst (map (\<lambda>(k, v). (k, sort_keys v)) kvs))"
| "sort_keys j = j"

section \<open>Text of a value\<close>

definition hex_digit :: "nat \<Rightarrow> char" where
  "hex_digit n = (if n < 10 then char_of (48 + n) else char_of (87 + n))"

text \<open>The escapes of \<open>json.encoder\<close> with \<open>ensure_ascii=False\<close>: quote, backslash and control characters.\<close>

definition escape_char :: "char \<Rightarrow> string" where
  "escape_char c = (let n = (of_char c :: nat) in
     if c = CHR 0x22 then [CHR 0x5C, CHR 0x22]
     else if c = CHR 0x5C then [CHR 0x5C, CHR 0x5C]
     else if n = 10 then [CHR 0x5C, CHR ''n'']
     else if n = 13 then [CHR 0x5C, CHR ''r'']
     else if n = 9 then [CHR 0x5C, CHR ''t'']
     else if n = 12 then [CHR 0x5C, CHR ''f'']
     else if n = 8 then [CHR 0x5C, CHR ''b'']
     else if n < 32 then [CHR 0x5C, CHR ''u'', CHR ''0'', CHR ''0'', hex_digit (n div 16), hex_digit (n mod 16)]
     else [c])"

definition json_string :: "string \<Rightarrow> string" where
  "json_string s = CHR 0x22 # concat (map escape_char s) @ [CHR 0x22]"

fun json_text :: "json \<Rightarrow> string"
  and json_elements :: "json list \<Rightarrow> string"
  and json_members :: "(string \<times> json) list \<Rightarrow> string" where
  "json_text JNull = ''null''"
| "json_text (JBool b) = (if b then ''true'' else ''false'')"
| "json_text (JInt i) = dec_int i"
| "json_text (JFloat r) = r"
| "json_text (JStr s) = json_string s"
| "json_text (JArr xs) = ''['' @ json_elements xs @ '']''"
| "json_text (JObj kvs) = CHR 0x7B # json_members kvs @ [CHR 0x7D]"
| "json_elements [] = []"
| "json_elements [x] = json_text x"
| "json_elements (x # y # xs) = json_text x @ '','' @ json_elements (y # xs)"
| "json_members [] = []"
| "json_members [(k, v)] = json_string k @ '':'' @ json_text v"
| "json_members ((k, v) # kv # kvs) = json_string k @ '':'' @ json_text v @ '','' @ json_members (kv # kvs)"

text \<open>UTF-8 of a code point below 256.\<close>

definition utf8_char :: "char \<Rightarrow> string" where
  "utf8_char c = (let n = (of_char c :: nat) in
     if n < 128 then [c] else [char_of (192 + n div 64), char_of (128 + n mod 64)])"

definition utf8 :: "string \<Rightarrow> string" where
  "utf8 s = concat (map utf8_char s)"

definition canonical_bytes :: "json \<Rightarrow> string" where
  "canonical_bytes j = utf8 (json_text (sort_keys j))"

section \<open>The text determines the value\<close>

text \<open>
  A float's text uses the characters of \<open>float.__repr__\<close> (with \<open>NaN\<close> and \<open>Infinity\<close> as \<open>json\<close>
  prints them) and is never an integer's text.
\<close>

definition number_char :: "char \<Rightarrow> bool" where
  "number_char c = (is_digit c \<or> c \<in> set ''+-.eENaIfinty'')"

definition float_mark :: "char \<Rightarrow> bool" where
  "float_mark c = (c \<in> set ''.eNI'')"

definition float_repr :: "string \<Rightarrow> bool" where
  "float_repr r = (r \<noteq> [] \<and> list_all number_char r \<and> (is_digit (hd r) \<or> hd r \<in> set ''-NI'') \<and> list_ex float_mark r)"

fun wf_json :: "json \<Rightarrow> bool" where
  "wf_json (JFloat r) = float_repr r"
| "wf_json (JArr xs) = list_all wf_json xs"
| "wf_json (JObj kvs) = (distinct (map fst kvs) \<and> list_all (\<lambda>(k, v). wf_json v) kvs)"
| "wf_json _ = True"

text \<open>What may follow a value in a text: nothing, or a separator.\<close>

definition ends :: "string \<Rightarrow> bool" where
  "ends r = (r = [] \<or> hd r \<in> {CHR '','', CHR '']'', CHR 0x7D})"

lemma ends_simps [simp]:
  "ends []" "ends (CHR '','' # r)" "ends (CHR '']'' # r)" "ends (CHR 0x7D # r)"
  by (simp_all add: ends_def)

text \<open>Strings: each escape can be read back, so a quoted string ends where it was closed.\<close>

definition hex_val :: "char \<Rightarrow> nat" where
  "hex_val c = (let n = (of_char c :: nat) in if n < 58 then n - 48 else n - 87)"

fun unescape :: "string \<Rightarrow> (char \<times> string) option" where
  "unescape [] = None"
| "unescape (a # s) = (if a \<noteq> CHR 0x5C then Some (a, s) else
     (case s of [] \<Rightarrow> None | b # s' \<Rightarrow>
       if b = CHR ''n'' then Some (char_of (10 :: nat), s') else if b = CHR ''r'' then Some (char_of (13 :: nat), s')
       else if b = CHR ''t'' then Some (char_of (9 :: nat), s') else if b = CHR ''f'' then Some (char_of (12 :: nat), s')
       else if b = CHR ''b'' then Some (char_of (8 :: nat), s')
       else if b = CHR ''u'' then Some (char_of (16 * hex_val (s' ! 2) + hex_val (s' ! 3)), drop 4 s')
       else Some (b, s')))"

lemma hex_val_digit: "n < 16 \<Longrightarrow> hex_val (hex_digit n) = n"
  by (simp add: hex_val_def hex_digit_def Let_def)

lemma char_of_eqI: "of_char c = (n :: nat) \<Longrightarrow> char_of n = c"
  by (metis char_of_char)

lemma unescape_escape: "unescape (escape_char c @ s) = Some (c, s)"
proof -
  let ?n = "of_char c :: nat"
  have "?n < 32 \<Longrightarrow> hex_val (hex_digit (?n div 16)) = ?n div 16 \<and> hex_val (hex_digit (?n mod 16)) = ?n mod 16"
    by (simp add: hex_val_digit)
  then show ?thesis
    by (auto simp: escape_char_def Let_def char_of_eqI)
qed

lemma escape_not_quote: "escape_char c = a # s \<Longrightarrow> a \<noteq> CHR 0x22"
  by (auto simp: escape_char_def Let_def split: if_splits)

lemma escape_not_Nil: "escape_char c \<noteq> []"
  by (simp add: escape_char_def Let_def)

lemma escaped_inj:
  "concat (map escape_char s) @ CHR 0x22 # r = concat (map escape_char t) @ CHR 0x22 # q \<Longrightarrow> s = t \<and> r = q"
proof (induction s arbitrary: t)
  case Nil
  then show ?case
    by (cases t) (auto simp: Cons_eq_append_conv escape_not_Nil dest: escape_not_quote [OF sym])
next
  case (Cons c s)
  show ?case
  proof (cases t)
    case Nil
    with Cons.prems show ?thesis
      by (auto simp: append_eq_Cons_conv escape_not_Nil dest: escape_not_quote)
  next
    case (Cons d t')
    with Cons.prems have "escape_char c @ (concat (map escape_char s) @ CHR 0x22 # r)
        = escape_char d @ (concat (map escape_char t') @ CHR 0x22 # q)" by simp
    then have "c = d" and rest: "concat (map escape_char s) @ CHR 0x22 # r = concat (map escape_char t') @ CHR 0x22 # q"
      by (metis unescape_escape option.inject prod.inject)+
    with Cons.IH [OF rest] Cons show ?thesis by simp
  qed
qed

lemma json_string_inj: "json_string s @ r = json_string t @ q \<Longrightarrow> s = t \<and> r = q"
  using escaped_inj [of s r t q] by (simp add: json_string_def)

text \<open>Numbers: a numeral ends at the first character no numeral uses.\<close>

lemma ends_number: "ends r \<Longrightarrow> takeWhile number_char r = []"
  by (cases r) (auto simp: ends_def number_char_def is_digit_def)

lemma number_token: "list_all number_char w \<Longrightarrow> ends r \<Longrightarrow> takeWhile number_char (w @ r) = w"
  by (simp add: takeWhile_append2 list_all_iff ends_number)

lemma dec_int_chars: "list_all (\<lambda>c. is_digit c \<or> c = CHR ''-'') (dec_int i)"
  using digits_dec_nat by (auto simp: dec_int_def list_all_iff)

lemma dec_int_number: "list_all number_char (dec_int i)"
  using dec_int_chars [of i] by (auto simp: list_all_iff number_char_def)

lemma dec_int_not_Nil [simp]: "dec_int i \<noteq> []"
  by (simp add: dec_int_def)

lemma minus_not_digits: "CHR ''-'' # s \<noteq> dec_nat n"
proof
  assume "CHR ''-'' # s = dec_nat n"
  then have "is_digit CHR ''-''" using digits_dec_nat [of n] by (metis list.pred_inject(2))
  then show False by (simp add: is_digit_def)
qed

lemma dec_int_inj: "dec_int i = dec_int j \<Longrightarrow> i = j"
  by (auto simp: dec_int_def minus_not_digits minus_not_digits [symmetric] split: if_splits)

lemma float_mark_no_digit: "float_mark c \<Longrightarrow> \<not> (is_digit c \<or> c = CHR ''-'')"
  by (auto simp: float_mark_def is_digit_def)

lemma dec_int_not_float: "\<not> list_ex float_mark (dec_int i)"
  using dec_int_chars [of i] float_mark_no_digit by (auto simp: list_all_iff list_ex_iff)

text \<open>The first character of a text says what kind of value follows.\<close>

definition kind_of_char :: "char \<Rightarrow> nat" where
  "kind_of_char c = (if c = CHR ''n'' then 1 else if c = CHR ''t'' then 2 else if c = CHR ''f'' then 3
     else if c = CHR 0x22 then 4 else if c = CHR ''['' then 5 else if c = CHR 0x7B then 6
     else if is_digit c \<or> c \<in> set ''-NI'' then 0 else 7)"

fun json_kind :: "json \<Rightarrow> nat" where
  "json_kind JNull = 1"
| "json_kind (JBool b) = (if b then 2 else 3)"
| "json_kind (JStr s) = 4"
| "json_kind (JArr xs) = 5"
| "json_kind (JObj kvs) = 6"
| "json_kind _ = 0"

lemma json_text_kind: "wf_json j \<Longrightarrow> \<exists>c s. json_text j = c # s \<and> kind_of_char c = json_kind j"
proof (cases j)
  case (JInt i)
  obtain c s where cs: "dec_int i = c # s" by (cases "dec_int i") auto
  moreover have "is_digit c \<or> c = CHR ''-''" using dec_int_chars [of i] cs by simp
  ultimately show ?thesis using JInt by (auto simp: kind_of_char_def is_digit_def)
next
  case (JFloat r)
  assume "wf_json j"
  with JFloat have "r \<noteq> []" "is_digit (hd r) \<or> hd r \<in> set ''-NI''" by (auto simp: float_repr_def)
  then show ?thesis using JFloat by (cases r) (auto simp: kind_of_char_def is_digit_def)
qed (auto simp: kind_of_char_def json_string_def)

lemma json_text_same_kind:
  assumes "wf_json j" "wf_json j'" "json_text j @ r = json_text j' @ r'"
  shows "json_kind j = json_kind j'"
  using json_text_kind [OF assms(1)] json_text_kind [OF assms(2)] assms(3) by auto

lemma json_text_no_end:
  assumes "wf_json j" "ends (c # s)"
  shows "json_text j @ r \<noteq> c # s"
proof
  assume "json_text j @ r = c # s"
  then obtain s' where "json_text j = c # s'" "kind_of_char c = json_kind j"
    using json_text_kind [OF assms(1)] by auto
  moreover have "kind_of_char c = 7"
    using assms(2) by (auto simp: ends_def kind_of_char_def is_digit_def)
  moreover have "json_kind j < 7" by (cases j) auto
  ultimately show False by simp
qed

lemma number_text_inj:
  assumes "json_kind j = 0" "json_kind j' = 0" "wf_json j" "wf_json j'" "ends r" "ends r'"
    and eq: "json_text j @ r = json_text j' @ r'"
  shows "j = j' \<and> r = r'"
proof -
  have "list_all number_char (json_text j)" "list_all number_char (json_text j')"
    using assms by (cases j; cases j'; auto simp: float_repr_def dec_int_number split: if_splits)+
  then have "json_text j = json_text j'"
    using eq number_token assms(5,6) by metis
  moreover have "r = r'" using eq calculation by simp
  moreover have "j = j'"
    using assms(1-4) calculation(1) dec_int_not_float
    by (cases j; cases j') (auto simp: float_repr_def dec_int_inj split: if_splits)
  ultimately show ?thesis by simp
qed

lemma json_text_inj_aux:
  "wf_json j \<Longrightarrow> wf_json j' \<Longrightarrow> ends r \<Longrightarrow> ends r' \<Longrightarrow> json_text j @ r = json_text j' @ r'
     \<Longrightarrow> j = j' \<and> r = r'"
  "list_all wf_json xs \<Longrightarrow> list_all wf_json ys
     \<Longrightarrow> json_elements xs @ CHR '']'' # q = json_elements ys @ CHR '']'' # q' \<Longrightarrow> xs = ys \<and> q = q'"
  "list_all (\<lambda>(k, v). wf_json v) kvs \<Longrightarrow> list_all (\<lambda>(k, v). wf_json v) kvs'
     \<Longrightarrow> json_members kvs @ CHR 0x7D # p = json_members kvs' @ CHR 0x7D # p' \<Longrightarrow> kvs = kvs' \<and> p = p'"
proof (induction j and xs and kvs arbitrary: j' r r' and ys q q' and kvs' p p'
    rule: json_text_json_elements_json_members.induct)
  case (3 i)
  then show ?case using json_text_same_kind [OF 3(1,2,5)] by (intro number_text_inj) auto
next
  case (4 f)
  then show ?case using json_text_same_kind [OF 4(1,2,5)] by (intro number_text_inj) auto
next
  case (5 s)
  with json_text_same_kind [OF 5(1,2,5)] show ?case
    by (cases j') (auto split: if_splits dest: json_string_inj)
next
  case (6 xs)
  have "json_kind j' = 5" using json_text_same_kind [OF 6(2,3,6)] by simp
  then obtain ys where j': "j' = JArr ys" by (cases j') (auto split: if_splits)
  have "xs = ys \<and> r = r'" by (rule "6.IH") (use 6(2,3,6) j' in simp_all)
  with j' show ?case by simp
next
  case (7 kvs)
  have "json_kind j' = 6" using json_text_same_kind [OF 7(2,3,6)] by simp
  then obtain kvs' where j': "j' = JObj kvs'" by (cases j') (auto split: if_splits)
  have "kvs = kvs' \<and> r = r'" by (rule "7.IH") (use 7(2,3,6) j' in simp_all)
  with j' show ?case by simp
next
  case 8
  have no: "ys = y # zs \<Longrightarrow> json_elements ys @ CHR '']'' # q' \<noteq> CHR '']'' # q" for y zs
    using 8(2) json_text_no_end [of y "CHR '']''" q] by (cases zs) auto
  from 8(3) no show ?case
    by (cases ys) (simp, metis append_Nil json_elements.simps(1))
next
  case (9 x)
  consider (none) "ys = []" | (one) y where "ys = [y]" | (more) y z zs where "ys = y # z # zs"
    by (cases ys rule: json_elements.cases) auto
  then show ?case
  proof cases
    case none
    with 9 show ?thesis by (auto simp: json_text_no_end)
  next
    case one
    then have "x = y \<and> CHR '']'' # q = CHR '']'' # q'" by (intro "9.IH") (use 9 in auto)
    with one show ?thesis by simp
  next
    case more
    then have "x = y \<and> CHR '']'' # q = '','' @ json_elements (z # zs) @ CHR '']'' # q'"
      by (intro "9.IH") (use 9 in auto)
    then show ?thesis by simp
  qed
next
  case (10 x y xs)
  consider (none) "ys = []" | (one) x' where "ys = [x']" | (more) x' z zs where "ys = x' # z # zs"
    by (cases ys rule: json_elements.cases) auto
  then show ?case
  proof cases
    case none
    with 10 show ?thesis by (auto simp: json_text_no_end)
  next
    case one
    then have "x = x' \<and> '','' @ json_elements (y # xs) @ CHR '']'' # q = CHR '']'' # q'"
      by (intro "10.IH"(1)) (use 10(3-5) in auto)
    then show ?thesis by simp
  next
    case more
    then have x: "x = x' \<and> '','' @ json_elements (y # xs) @ CHR '']'' # q
        = '','' @ json_elements (z # zs) @ CHR '']'' # q'"
      by (intro "10.IH"(1)) (use 10(3-5) in auto)
    have "y # xs = z # zs \<and> q = q'" by (rule "10.IH"(2)) (use 10(3-4) x more in auto)
    with x more show ?thesis by simp
  qed
next
  case 11
  then show ?case by (cases kvs' rule: json_members.cases) (auto simp: json_string_def)
next
  case (12 k v)
  consider (none) "kvs' = []" | (one) k' v' where "kvs' = [(k', v')]"
    | (more) k' v' kv kvs2 where "kvs' = (k', v') # kv # kvs2"
    by (cases kvs' rule: json_members.cases) auto
  then show ?case
  proof cases
    case none
    with 12 show ?thesis by (auto simp: json_string_def)
  next
    case one
    with 12(4) have k: "k = k' \<and> CHR '':'' # json_text v @ CHR 0x7D # p = CHR '':'' # json_text v' @ CHR 0x7D # p'"
      by (intro json_string_inj) simp
    have "v = v' \<and> CHR 0x7D # p = CHR 0x7D # p'" by (rule "12.IH") (use 12(2,3) one k in auto)
    with k one show ?thesis by simp
  next
    case more
    let ?s = "'','' @ json_members (kv # kvs2) @ CHR 0x7D # p'"
    from more 12(4) have k: "k = k' \<and> CHR '':'' # json_text v @ CHR 0x7D # p = CHR '':'' # json_text v' @ ?s"
      by (intro json_string_inj) simp
    have "v = v' \<and> CHR 0x7D # p = ?s" by (rule "12.IH") (use 12(2,3) more k in auto)
    then show ?thesis by simp
  qed
next
  case (13 k v kv kvs)
  let ?r = "'','' @ json_members (kv # kvs) @ CHR 0x7D # p"
  consider (none) "kvs' = []" | (one) k' v' where "kvs' = [(k', v')]"
    | (more) k' v' kv' kvs2 where "kvs' = (k', v') # kv' # kvs2"
    by (cases kvs' rule: json_members.cases) auto
  then show ?case
  proof cases
    case none
    with 13 show ?thesis by (auto simp: json_string_def)
  next
    case one
    with 13(5) have k: "k = k' \<and> CHR '':'' # json_text v @ ?r = CHR '':'' # json_text v' @ CHR 0x7D # p'"
      by (intro json_string_inj) simp
    have "v = v' \<and> ?r = CHR 0x7D # p'" by (rule "13.IH"(1)) (use 13(3,4) one k in auto)
    then show ?thesis by simp
  next
    case more
    let ?s = "'','' @ json_members (kv' # kvs2) @ CHR 0x7D # p'"
    from more 13(5) have k: "k = k' \<and> CHR '':'' # json_text v @ ?r = CHR '':'' # json_text v' @ ?s"
      by (intro json_string_inj) simp
    have v: "v = v' \<and> ?r = ?s" by (rule "13.IH"(1)) (use 13(3,4) more k in auto)
    have "kv # kvs = kv' # kvs2 \<and> p = p'" by (rule "13.IH"(2)) (use 13(3,4) more v in auto)
    with k v more show ?thesis by simp
  qed
next
  case 1
  have "json_kind j' = 1" using json_text_same_kind [OF 1(1,2,5)] by simp
  then have "j' = JNull" by (cases j') (auto split: if_splits)
  with 1(5) show ?case by simp
next
  case (2 b)
  have "json_kind j' = (if b then 2 else 3)" using json_text_same_kind [OF 2(1,2,5)] by simp
  then have "j' = JBool b" by (cases j') (auto split: if_splits)
  with 2(5) show ?case by (auto split: if_splits)
qed

lemma json_text_inj: "wf_json j \<Longrightarrow> wf_json j' \<Longrightarrow> json_text j = json_text j' \<Longrightarrow> j = j'"
  using json_text_inj_aux(1) [of j j' "[]" "[]"] by simp

section \<open>The bytes determine the text\<close>

lemma utf8_char_inj:
  assumes "utf8_char c @ x = utf8_char d @ y"
  shows "c = d \<and> x = y"
proof -
  let ?n = "of_char c :: nat" and ?m = "of_char d :: nat"
  have b: "?n < 256" "?m < 256" by simp_all
  have cd: "char_of ?n = c" "char_of ?m = d" by simp_all
  consider "?n < 128" "?m < 128" | "?n < 128" "128 \<le> ?m" | "128 \<le> ?n" "?m < 128" | "128 \<le> ?n" "128 \<le> ?m"
    by linarith
  then show ?thesis
  proof cases
    case 1
    with assms show ?thesis by (simp add: utf8_char_def Let_def)
  next
    case 2
    with assms have "c = char_of (192 + ?m div 64)" by (simp add: utf8_char_def Let_def)
    then have "?n = (192 + ?m div 64) mod 256" by (metis of_char_of)
    moreover have "?m div 64 < 4" using b by (simp add: div_less_iff_less_mult)
    ultimately show ?thesis using 2 by simp
  next
    case 3
    with assms have "d = char_of (192 + ?n div 64)" by (auto simp: utf8_char_def Let_def)
    then have "?m = (192 + ?n div 64) mod 256" by (metis of_char_of)
    moreover have "?n div 64 < 4" using b by (simp add: div_less_iff_less_mult)
    ultimately show ?thesis using 3 by simp
  next
    case 4
    with assms have eq: "char_of (192 + ?n div 64) = (char_of (192 + ?m div 64) :: char)"
      "char_of (128 + ?n mod 64) = (char_of (128 + ?m mod 64) :: char)" and xy: "x = y"
      by (simp_all add: utf8_char_def Let_def)
    have "?n div 64 < 4" "?m div 64 < 4" using b by (simp_all add: div_less_iff_less_mult)
    then have "?n div 64 = ?m div 64"
      using arg_cong [OF eq(1), where f = "of_char :: char \<Rightarrow> nat"] by simp
    moreover have "?n mod 64 = ?m mod 64"
      using arg_cong [OF eq(2), where f = "of_char :: char \<Rightarrow> nat"] mod_less_divisor [of 64 ?n]
        mod_less_divisor [of 64 ?m] by simp
    ultimately have "?n = ?m" by (metis div_mult_mod_eq)
    with cd xy show ?thesis by metis
  qed
qed

lemma utf8_char_not_Nil: "utf8_char c \<noteq> []"
  by (simp add: utf8_char_def Let_def)

lemma utf8_inj: "utf8 s = utf8 t \<Longrightarrow> s = t"
proof (induction s arbitrary: t)
  case Nil
  then show ?case by (cases t) (simp_all add: utf8_def utf8_char_not_Nil)
next
  case (Cons c s)
  show ?case
  proof (cases t)
    case Nil
    with Cons.prems show ?thesis by (simp add: utf8_def utf8_char_not_Nil)
  next
    case (Cons d t')
    with Cons.prems have "utf8_char c @ utf8 s = utf8_char d @ utf8 t'" by (simp add: utf8_def)
    from utf8_char_inj [OF this] Cons.IH [of t'] Cons show ?thesis by simp
  qed
qed

section \<open>Canonical bytes\<close>

lemma wf_sort_keys: "wf_json j \<Longrightarrow> wf_json (sort_keys j)"
proof (induction j rule: sort_keys.induct)
  case (2 kvs)
  have "map fst (map (\<lambda>(k, v). (k, sort_keys v)) kvs) = map fst kvs"
    by (simp add: case_prod_unfold)
  with 2 show ?case
    by (auto simp: list_all_iff distinct_map case_prod_unfold inj_on_def image_iff)
qed (auto simp: list_all_iff)

lemma canonical_bytes_eq_iff:
  "wf_json j \<Longrightarrow> wf_json j' \<Longrightarrow> canonical_bytes j = canonical_bytes j' \<longleftrightarrow> sort_keys j = sort_keys j'"
  by (auto simp: canonical_bytes_def dest!: utf8_inj dest: json_text_inj wf_sort_keys)

text \<open>Looking a key up in an object is not affected by the order of its items.\<close>

lemma map_of_sort_key: "distinct (map fst kvs) \<Longrightarrow> map_of (sort_key fst kvs) = map_of kvs"
  by (rule map_of_inject_set [THEN iffD2]) (simp_all add: distinct_map)

lemma map_of_sort_keys:
  assumes "distinct (map fst kvs)" and "sort_keys (JObj kvs) = JObj kvs'"
  shows "map_of kvs' k = map_option sort_keys (map_of kvs k)"
proof -
  have "map_of (map (\<lambda>(k, v). (k, sort_keys v)) kvs) k = map_option sort_keys (map_of kvs k)"
    by (induction kvs) auto
  moreover have "distinct (map fst (map (\<lambda>(k, v). (k, sort_keys v)) kvs))"
    using assms(1) by (simp add: case_prod_unfold comp_def)
  ultimately show ?thesis using assms(2) by (auto simp: map_of_sort_key)
qed

end
