(* ===== verification/Ledger_Chain.thy ===== *)
theory Ledger_Chain
  imports Canonical_Json
begin

text \<open>
  \<open>packages/field-core/src/field_core/ledger.py\<close>: the ledger event and the sha-256 hash chain.
  SHA-256 with its hexadecimal digest is the argument \<open>H\<close> of every definition, from the canonical
  bytes of a record to the digest's text; no property of \<open>H\<close> is assumed anywhere. The texts of a
  verification's \<open>reason\<close> are the constructors of \<open>chain_break\<close>, with the two hashes they quote.
\<close>

definition GENESIS_HASH :: string where
  "GENESIS_HASH = replicate 64 (CHR ''0'')"

definition HASHED_OPTIONAL_KEYS :: "string list" where
  "HASHED_OPTIONAL_KEYS
     = [''signing_failed'', ''caller_id'', ''caller_ts'', ''caller_signature'', ''caller_unsigned'']"

record ledger_event =
  event_id :: string
  ev_ts :: string
  event_type :: string
  ev_agent_id :: "string option"
  payload :: "(string \<times> json) list"
  prev_hash :: string
  ev_hash :: string
  signature :: "string option"
  signing_failed :: "bool option"
  caller_id :: "string option"
  caller_ts :: "string option"
  caller_signature :: "string option"
  caller_unsigned :: "bool option"

section \<open>Records, hashes and signing bytes\<close>

type_synonym py_dict = "(string \<times> json) list"

definition opt_item :: "string \<Rightarrow> json option \<Rightarrow> py_dict" where
  "opt_item k x = (case x of None \<Rightarrow> [] | Some v \<Rightarrow> [(k, v)])"

definition json_opt :: "('a \<Rightarrow> json) \<Rightarrow> 'a option \<Rightarrow> json" where
  "json_opt f x = (case x of None \<Rightarrow> JNull | Some v \<Rightarrow> f v)"

definition pop_key :: "string \<Rightarrow> py_dict \<Rightarrow> py_dict" where
  "pop_key k d = filter (\<lambda>(k', v). k' \<noteq> k) d"

text \<open>\<open>model_dump()\<close>: the keys of F2 and F2b are left out when None (\<open>_omit_f2_keys_when_none\<close>).\<close>

definition event_dump :: "ledger_event \<Rightarrow> py_dict" where
  "event_dump e =
     [(''event_id'', JStr (event_id e)), (''ts'', JStr (ev_ts e)), (''event_type'', JStr (event_type e)),
      (''agent_id'', json_opt JStr (ev_agent_id e)), (''payload'', JObj (payload e)),
      (''prev_hash'', JStr (prev_hash e)), (''hash'', JStr (ev_hash e))]
     @ opt_item ''signature'' (map_option JStr (signature e))
     @ opt_item ''signing_failed'' (map_option JBool (signing_failed e))
     @ opt_item ''caller_id'' (map_option JStr (caller_id e))
     @ opt_item ''caller_ts'' (map_option JStr (caller_ts e))
     @ opt_item ''caller_signature'' (map_option JStr (caller_signature e))
     @ opt_item ''caller_unsigned'' (map_option JBool (caller_unsigned e))"

definition drop_null_optionals :: "py_dict \<Rightarrow> py_dict" where
  "drop_null_optionals d = filter (\<lambda>(k, v). \<not> (k \<in> set HASHED_OPTIONAL_KEYS \<and> v = JNull)) d"

definition hashed_record :: "py_dict \<Rightarrow> py_dict" where
  "hashed_record d = drop_null_optionals (pop_key ''signature'' (pop_key ''hash'' d))"

definition compute_record_hash :: "(string \<Rightarrow> string) \<Rightarrow> py_dict \<Rightarrow> string" where
  "compute_record_hash H d = H (canonical_bytes (JObj (hashed_record d)))"

definition compute_event_hash :: "(string \<Rightarrow> string) \<Rightarrow> ledger_event \<Rightarrow> string" where
  "compute_event_hash H e = compute_record_hash H (event_dump e)"

definition event_signing_bytes :: "ledger_event \<Rightarrow> string" where
  "event_signing_bytes e = canonical_bytes (JObj (drop_null_optionals (pop_key ''signature'' (event_dump e))))"

text \<open>
  \<open>flag_signing_failed\<close>: the flag goes inside the hash; a signed event is refused (\<open>ValueError\<close>,
  None here).
\<close>

definition flag_signing_failed :: "(string \<Rightarrow> string) \<Rightarrow> ledger_event \<Rightarrow> ledger_event option" where
  "flag_signing_failed H e =
     (if signature e \<noteq> None then None
      else let e' = e\<lparr>signing_failed := Some True\<rparr>
           in Some (e'\<lparr>ev_hash := compute_record_hash H
                (pop_key ''signature'' (pop_key ''hash'' (event_dump e')))\<rparr>))"

text \<open>
  \<open>make_event\<close>: the id and the timestamp fall back to a fresh UUID and the clock, which are
  arguments here; an absent payload is the empty one.
\<close>

definition py_or :: "string option \<Rightarrow> string \<Rightarrow> string" where
  "py_or x d = (case x of None \<Rightarrow> d | Some s \<Rightarrow> if s = [] then d else s)"

definition make_event :: "(string \<Rightarrow> string) \<Rightarrow> string \<Rightarrow> string \<Rightarrow> string \<Rightarrow> py_dict option \<Rightarrow> string
    \<Rightarrow> string option \<Rightarrow> string option \<Rightarrow> string option \<Rightarrow> ledger_event" where
  "make_event H fresh_id clock etype pl prev agent ts_arg id_arg =
     (let eid = py_or id_arg fresh_id; t = py_or ts_arg clock;
          p = (case pl of None \<Rightarrow> [] | Some d \<Rightarrow> d);
          partial = [(''event_id'', JStr eid), (''ts'', JStr t), (''event_type'', JStr etype),
            (''agent_id'', json_opt JStr agent), (''payload'', JObj p), (''prev_hash'', JStr prev)]
      in \<lparr>event_id = eid, ev_ts = t, event_type = etype, ev_agent_id = agent, payload = p,
          prev_hash = prev, ev_hash = compute_record_hash H partial, signature = None,
          signing_failed = None, caller_id = None, caller_ts = None, caller_signature = None,
          caller_unsigned = None\<rparr>)"

section \<open>Verification of a chain\<close>

datatype chain_break = LinkBreak string string | HashMismatch string string

record chain_verification =
  cv_ok :: bool
  cv_length :: nat
  first_break_index :: "nat option"
  cv_reason :: "chain_break option"

text \<open>The loop of \<open>verify_chain\<close>, from event number \<open>i\<close> with the hash the next event must carry.\<close>

fun verify_from :: "(string \<Rightarrow> string) \<Rightarrow> nat \<Rightarrow> string \<Rightarrow> ledger_event list \<Rightarrow> chain_verification" where
  "verify_from H i prev [] = \<lparr>cv_ok = True, cv_length = i, first_break_index = None, cv_reason = None\<rparr>"
| "verify_from H i prev (e # es) =
     (if prev_hash e \<noteq> prev then
        \<lparr>cv_ok = False, cv_length = i + 1, first_break_index = Some i,
         cv_reason = Some (LinkBreak (prev_hash e) prev)\<rparr>
      else let recomputed = compute_event_hash H e in
        if recomputed \<noteq> ev_hash e then
          \<lparr>cv_ok = False, cv_length = i + 1, first_break_index = Some i,
           cv_reason = Some (HashMismatch (ev_hash e) recomputed)\<rparr>
        else verify_from H (i + 1) (ev_hash e) es)"

definition verify_chain :: "(string \<Rightarrow> string) \<Rightarrow> ledger_event list \<Rightarrow> string \<Rightarrow> chain_verification" where
  "verify_chain H es genesis = verify_from H 0 genesis es"

text \<open>
  The specification: event \<open>i\<close> is sound when it carries the hash of the event before it (the
  genesis hash for the first) and its own hash is the hash of its record.
\<close>

definition event_sound :: "(string \<Rightarrow> string) \<Rightarrow> string \<Rightarrow> ledger_event list \<Rightarrow> nat \<Rightarrow> bool" where
  "event_sound H genesis es i =
     (prev_hash (es ! i) = (if i = 0 then genesis else ev_hash (es ! (i - 1)))
      \<and> compute_event_hash H (es ! i) = ev_hash (es ! i))"

lemma event_sound_0: "event_sound H g (e # es) 0 \<longleftrightarrow> prev_hash e = g \<and> compute_event_hash H e = ev_hash e"
  by (simp add: event_sound_def)

lemma event_sound_Suc: "event_sound H g (e # es) (Suc i) = event_sound H (ev_hash e) es i"
  by (cases i) (simp_all add: event_sound_def)

lemma verify_from_spec:
  "(cv_ok (verify_from H k g es) \<longleftrightarrow> (\<forall>i < length es. event_sound H g es i))
   \<and> (cv_ok (verify_from H k g es) \<longrightarrow> cv_length (verify_from H k g es) = k + length es)
   \<and> (\<not> cv_ok (verify_from H k g es) \<longrightarrow>
        (\<exists>i < length es. first_break_index (verify_from H k g es) = Some (k + i)
           \<and> cv_length (verify_from H k g es) = k + i + 1
           \<and> \<not> event_sound H g es i \<and> (\<forall>j < i. event_sound H g es j)))"
proof (induction es arbitrary: k g)
  case (Cons e es)
  show ?case
  proof (cases "event_sound H g (e # es) 0")
    case True
    then have v: "verify_from H k g (e # es) = verify_from H (k + 1) (ev_hash e) es"
      by (simp add: event_sound_0)
    have all: "(\<forall>i < length (e # es). event_sound H g (e # es) i)
        \<longleftrightarrow> (\<forall>i < length es. event_sound H (ev_hash e) es i)"
      using True by (auto simp: less_Suc_eq_0_disj event_sound_Suc)
    note IH = Cons.IH [of "k + 1" "ev_hash e"]
    have "\<not> cv_ok (verify_from H (k + 1) (ev_hash e) es) \<Longrightarrow>
        \<exists>i < length (e # es). first_break_index (verify_from H k g (e # es)) = Some (k + i)
           \<and> cv_length (verify_from H k g (e # es)) = k + i + 1
           \<and> \<not> event_sound H g (e # es) i \<and> (\<forall>j < i. event_sound H g (e # es) j)"
    proof -
      assume "\<not> cv_ok (verify_from H (k + 1) (ev_hash e) es)"
      with IH obtain i where i: "i < length es"
        "first_break_index (verify_from H (k + 1) (ev_hash e) es) = Some (k + 1 + i)"
        "cv_length (verify_from H (k + 1) (ev_hash e) es) = k + 1 + i + 1"
        "\<not> event_sound H (ev_hash e) es i" "\<forall>j < i. event_sound H (ev_hash e) es j" by blast
      have "\<forall>j < Suc i. event_sound H g (e # es) j"
        using True i(5) by (auto simp: less_Suc_eq_0_disj event_sound_Suc)
      with i v show ?thesis by (intro exI [of _ "Suc i"]) (simp add: event_sound_Suc)
    qed
    with IH v all show ?thesis by auto
  next
    case False
    then show ?thesis
      by (auto simp: event_sound_0 Let_def intro!: exI [of _ 0])
  qed
qed simp

text \<open>The index of the reported break is the first unsound event.\<close>

lemma verify_chain_ok_iff:
  "cv_ok (verify_chain H es g) \<longleftrightarrow> (\<forall>i < length es. event_sound H g es i)"
  using verify_from_spec [of H 0 g es] by (simp add: verify_chain_def)

lemma verify_chain_break:
  assumes "\<not> cv_ok (verify_chain H es g)"
  shows "\<exists>i < length es. first_break_index (verify_chain H es g) = Some i
    \<and> cv_length (verify_chain H es g) = i + 1 \<and> \<not> event_sound H g es i \<and> (\<forall>j < i. event_sound H g es j)"
  using verify_from_spec [of H 0 g es] assms by (simp add: verify_chain_def)

definition last_hash :: "string \<Rightarrow> ledger_event list \<Rightarrow> string" where
  "last_hash g es = (if es = [] then g else ev_hash (last es))"

lemma verify_from_append:
  "cv_ok (verify_from H k g (xs @ ys)) \<longleftrightarrow>
     cv_ok (verify_from H k g xs) \<and> cv_ok (verify_from H (k + length xs) (last_hash g xs) ys)"
  by (induction xs arbitrary: k g) (auto simp: last_hash_def Let_def)

lemma verify_chain_index: "cv_ok (verify_from H k g es) = cv_ok (verify_from H k' g es)"
  using verify_from_spec [of H k g es] verify_from_spec [of H k' g es] by simp

lemma verify_chain_append:
  "cv_ok (verify_chain H (xs @ ys) g) \<longleftrightarrow>
     cv_ok (verify_chain H xs g) \<and> cv_ok (verify_chain H ys (last_hash g xs))"
  by (simp add: verify_chain_def verify_from_append) (metis verify_chain_index)

section \<open>What a hash covers\<close>

lemma map_of_opt_item [simp]: "map_of (opt_item k x) k' = (if k' = k then x else None)"
  by (simp add: opt_item_def split: option.splits)

lemma map_of_pop_key [simp]: "map_of (pop_key k d) k' = (if k' = k then None else map_of d k')"
  by (induction d) (auto simp: pop_key_def)

lemma opt_item_keys [simp]: "set (map fst (opt_item k x)) = (if x = None then {} else {k})"
    "distinct (map fst (opt_item k x))"
  by (auto simp: opt_item_def split: option.splits)

lemma distinct_event_dump: "distinct (map fst (event_dump e))"
  unfolding event_dump_def map_append distinct_append opt_item_keys set_append
  by simp

lemma in_opt_item [simp]: "(k', v) \<in> set (opt_item k x) \<longleftrightarrow> k' = k \<and> x = Some v"
  by (auto simp: opt_item_def split: option.splits)

lemma event_dump_optional_not_null:
  "(k, v) \<in> set (event_dump e) \<Longrightarrow> k \<in> set HASHED_OPTIONAL_KEYS \<Longrightarrow> v \<noteq> JNull"
  by (auto simp: event_dump_def HASHED_OPTIONAL_KEYS_def)

lemma drop_null_id:
  "(\<And>k v. (k, v) \<in> set d \<Longrightarrow> k \<in> set HASHED_OPTIONAL_KEYS \<Longrightarrow> v \<noteq> JNull) \<Longrightarrow> drop_null_optionals d = d"
  by (auto simp: drop_null_optionals_def filter_id_conv)

lemma drop_null_event_dump: "drop_null_optionals (pop_key k (event_dump e)) = pop_key k (event_dump e)"
  "drop_null_optionals (pop_key k (pop_key k' (event_dump e))) = pop_key k (pop_key k' (event_dump e))"
  by (rule drop_null_id; auto simp: pop_key_def dest: event_dump_optional_not_null)+

lemma event_dump_optionals:
  "map_of (event_dump e) ''signing_failed'' = map_option JBool (signing_failed e)"
  "map_of (event_dump e) ''caller_id'' = map_option JStr (caller_id e)"
  "map_of (event_dump e) ''caller_ts'' = map_option JStr (caller_ts e)"
  "map_of (event_dump e) ''caller_signature'' = map_option JStr (caller_signature e)"
  "map_of (event_dump e) ''caller_unsigned'' = map_option JBool (caller_unsigned e)"
  by (simp_all add: event_dump_def map_add_def cong: option.case_cong)
    (simp_all split: option.splits)

lemma map_option_JBool_inj:
  "map_option sort_keys (map_option JBool x) = map_option sort_keys (map_option JBool y) \<longleftrightarrow> x = y"
  by (cases x; cases y) auto

lemma map_option_JStr_inj:
  "map_option sort_keys (map_option JStr x) = map_option sort_keys (map_option JStr y) \<longleftrightarrow> x = y"
  by (cases x; cases y) auto

lemma hashed_record_event: "hashed_record (event_dump e) = pop_key ''signature'' (pop_key ''hash'' (event_dump e))"
  by (simp add: hashed_record_def drop_null_event_dump)

lemma distinct_pop_key: "distinct (map fst d) \<Longrightarrow> distinct (map fst (pop_key k d))"
  by (simp add: pop_key_def distinct_map_filter)

text \<open>
  An event as the hash sees it: everything but the hash and the signature, the payload up to the
  order of its keys.
\<close>

definition norm_items :: "py_dict \<Rightarrow> py_dict" where
  "norm_items d = (case sort_keys (JObj d) of JObj q \<Rightarrow> q | _ \<Rightarrow> [])"

definition event_content :: "ledger_event \<Rightarrow> ledger_event" where
  "event_content e = e\<lparr>signature := None, payload := norm_items (payload e)\<rparr>"

definition wf_event :: "ledger_event \<Rightarrow> bool" where
  "wf_event e = wf_json (JObj (payload e))"

definition event_bytes :: "ledger_event \<Rightarrow> string" where
  "event_bytes e = canonical_bytes (JObj (hashed_record (event_dump e)))"

lemma compute_event_hash_bytes: "compute_event_hash H e = H (event_bytes e)"
  by (simp add: compute_event_hash_def compute_record_hash_def event_bytes_def)

lemma wf_hashed_event: "wf_event e \<Longrightarrow> wf_json (JObj (hashed_record (event_dump e)))"
  unfolding hashed_record_event wf_json.simps
  by (rule conjI, intro distinct_pop_key distinct_event_dump)
    (auto simp: wf_event_def pop_key_def list_all_iff event_dump_def opt_item_def json_opt_def
      split: option.splits)

lemma sort_keys_inj_simple [simp]:
  "sort_keys x = JStr s \<longleftrightarrow> x = JStr s" "sort_keys x = JBool b \<longleftrightarrow> x = JBool b" "sort_keys x = JNull \<longleftrightarrow> x = JNull"
  by (cases x; simp)+

lemma json_opt_JStr_inj: "sort_keys (json_opt JStr x) = sort_keys (json_opt JStr y) \<longleftrightarrow> x = y"
  by (cases x; cases y) (auto simp: json_opt_def)

lemma event_bytes_content:
  assumes "wf_event e" "wf_event e'" "event_bytes e = event_bytes e'" "ev_hash e = ev_hash e'"
  shows "event_content e = event_content e'"
proof -
  let ?d = "hashed_record (event_dump e)" and ?d' = "hashed_record (event_dump e')"
  have dist: "distinct (map fst ?d)" "distinct (map fst ?d')"
    unfolding hashed_record_event by (intro distinct_pop_key distinct_event_dump)+
  have "sort_keys (JObj ?d) = sort_keys (JObj ?d')"
    using assms canonical_bytes_eq_iff [OF wf_hashed_event wf_hashed_event] by (simp add: event_bytes_def)
  then have look: "map_option sort_keys (map_of ?d k) = map_option sort_keys (map_of ?d' k)" for k
    using map_of_sort_keys [OF dist(1), of _ k] map_of_sort_keys [OF dist(2), of _ k]
    by (metis sort_keys.simps(2))
  note look = look [unfolded hashed_record_event]
  note evaluate = event_dump_def map_add_def option.map_comp comp_def
  have "event_id e = event_id e'" using look [of "''event_id''"] by (simp add: evaluate)
  moreover have "ev_ts e = ev_ts e'" using look [of "''ts''"] by (simp add: evaluate)
  moreover have "event_type e = event_type e'" using look [of "''event_type''"] by (simp add: evaluate)
  moreover have "ev_agent_id e = ev_agent_id e'"
    using look [of "''agent_id''"] by (simp add: evaluate json_opt_JStr_inj)
  moreover have "norm_items (payload e) = norm_items (payload e')"
    using look [of "''payload''"] by (simp add: evaluate norm_items_def)
  moreover have "prev_hash e = prev_hash e'" using look [of "''prev_hash''"] by (simp add: evaluate)
  moreover have "signing_failed e = signing_failed e'"
    using look [of "''signing_failed''"] by (simp add: event_dump_optionals map_option_JBool_inj)
  moreover have "caller_id e = caller_id e'"
    using look [of "''caller_id''"] by (simp add: event_dump_optionals map_option_JStr_inj)
  moreover have "caller_ts e = caller_ts e'"
    using look [of "''caller_ts''"] by (simp add: event_dump_optionals map_option_JStr_inj)
  moreover have "caller_signature e = caller_signature e'"
    using look [of "''caller_signature''"] by (simp add: event_dump_optionals map_option_JStr_inj)
  moreover have "caller_unsigned e = caller_unsigned e'"
    using look [of "''caller_unsigned''"] by (simp add: event_dump_optionals map_option_JBool_inj)
  ultimately show ?thesis using assms(4) by (simp add: event_content_def)
qed

lemma make_event_hash:
  "compute_event_hash H (make_event H i c t p prev a ts eid) = ev_hash (make_event H i c t p prev a ts eid)"
  by (simp add: make_event_def Let_def compute_event_hash_def compute_record_hash_def event_dump_def
      opt_item_def hashed_record_def pop_key_def)

text \<open>Concrete events, for evaluation: two spellings of one payload, one of them signed.\<close>

definition sample_event :: ledger_event where
  "sample_event = make_event (\<lambda>b. b) ''i'' ''t'' ''k''
     (Some [(''b'', JNull), (''a'', JInt 1)]) ''g'' None None None"

definition sample_twin :: ledger_event where
  "sample_twin = sample_event\<lparr>signature := Some ''s'', payload := rev (payload sample_event)\<rparr>"

section \<open>Tamper evidence\<close>


lemma verify_chain_snoc:
  "cv_ok (verify_chain H (es @ [e]) g) \<longleftrightarrow>
     cv_ok (verify_chain H es g) \<and> prev_hash e = last_hash g es \<and> compute_event_hash H e = ev_hash e"
  by (auto simp: verify_chain_append) (auto simp: verify_chain_def Let_def split: if_splits)

lemma last_hash_snoc [simp]: "last_hash g (es @ [e]) = ev_hash e"
  by (simp add: last_hash_def)

text \<open>
  Two verified chains that end in the same hash hold the same events, or exhibit a collision of the
  hash, or an event that hashes to the genesis value. The chains may have different lengths.
\<close>

definition collision_in :: "(string \<Rightarrow> string) \<Rightarrow> ledger_event list \<Rightarrow> ledger_event list \<Rightarrow> bool" where
  "collision_in H es es' = (\<exists>e \<in> set es. \<exists>e' \<in> set es'.
     event_bytes e \<noteq> event_bytes e' \<and> H (event_bytes e) = H (event_bytes e'))"

definition genesis_preimage_in :: "(string \<Rightarrow> string) \<Rightarrow> string \<Rightarrow> ledger_event list \<Rightarrow> bool" where
  "genesis_preimage_in H g es = (\<exists>e \<in> set es. H (event_bytes e) = g)"

lemma same_head_same_history:
  assumes "cv_ok (verify_chain H es g)" "cv_ok (verify_chain H es' g)"
    and "list_all wf_event es" "list_all wf_event es'" "last_hash g es = last_hash g es'"
  shows "map event_content es = map event_content es' \<or> collision_in H es es'
     \<or> genesis_preimage_in H g (es @ es')"
  using assms
proof (induction es arbitrary: es' rule: rev_induct)
  case Nil
  show ?case
  proof (cases es' rule: rev_cases)
    case (snoc ys e')
    with Nil show ?thesis
      by (auto simp: verify_chain_snoc genesis_preimage_in_def last_hash_def compute_event_hash_bytes)
  qed simp
next
  case (snoc e es)
  show ?case
  proof (cases es' rule: rev_cases)
    case Nil
    with snoc.prems show ?thesis
      by (auto simp: verify_chain_snoc genesis_preimage_in_def last_hash_def compute_event_hash_bytes)
  next
    case (snoc ys e')
    note p = snoc.prems[unfolded snoc]
    have es: "cv_ok (verify_chain H es g)" "prev_hash e = last_hash g es" "H (event_bytes e) = ev_hash e"
      and ys: "cv_ok (verify_chain H ys g)" "prev_hash e' = last_hash g ys" "H (event_bytes e') = ev_hash e'"
      using p(1,2) by (auto simp: verify_chain_snoc compute_event_hash_bytes)
    have h: "ev_hash e = ev_hash e'" using p(5) by simp
    show ?thesis
    proof (cases "event_bytes e = event_bytes e'")
      case False
      with es ys h have "collision_in H (es @ [e]) (ys @ [e'])" by (auto simp: collision_in_def)
      with snoc show ?thesis by simp
    next
      case True
      then have content: "event_content e = event_content e'"
        using p(3,4) h by (intro event_bytes_content) auto
      then have "prev_hash e = prev_hash e'"
        by (auto simp: event_content_def dest: arg_cong [where f = prev_hash])
      then have "last_hash g es = last_hash g ys" using es ys by simp
      from snoc.IH [OF es(1) ys(1) _ _ this] p(3,4) content snoc show ?thesis
        by (auto simp: collision_in_def genesis_preimage_in_def)
    qed
  qed
qed

lemma sample_sealed: "prev_hash sample_event = ''g''" "ev_hash sample_event = event_bytes sample_event"
    "wf_event sample_event"
  using make_event_hash [of "\<lambda>b. b"]
  by (simp_all add: sample_event_def compute_event_hash_bytes wf_event_def) (simp_all add: make_event_def Let_def)

lemma sample_twin_bytes: "event_bytes sample_twin = event_bytes sample_event"
proof -
  have "sort_keys (JObj (hashed_record (event_dump sample_twin)))
      = sort_keys (JObj (hashed_record (event_dump sample_event)))" by code_simp
  then show ?thesis by (simp add: event_bytes_def canonical_bytes_def)
qed

lemma event_bytes_object: "event_bytes e \<noteq> ''g''"
  by (simp add: event_bytes_def canonical_bytes_def utf8_def utf8_char_def Let_def)

lemma sample_facts:
  "cv_ok (verify_chain (\<lambda>b. b) [sample_event] ''g'') \<and> cv_ok (verify_chain (\<lambda>b. b) [sample_twin] ''g'')
   \<and> wf_event sample_event \<and> wf_event sample_twin
   \<and> last_hash ''g'' [sample_event] = last_hash ''g'' [sample_twin]
   \<and> \<not> collision_in (\<lambda>b. b) [sample_event] [sample_twin]
   \<and> \<not> genesis_preimage_in (\<lambda>b. b) ''g'' [sample_event, sample_twin]"
  "\<not> cv_ok (verify_chain (\<lambda>b. b) [sample_event, sample_event] ''g'')
   \<and> event_sound (\<lambda>b. b) ''g'' [sample_event, sample_event] 0"
proof -
  have twin: "prev_hash sample_twin = ''g''" "ev_hash sample_twin = event_bytes sample_event" "wf_event sample_twin"
    using sample_sealed by (auto simp: sample_twin_def wf_event_def rev_map [symmetric] list_all_iff)
  show "cv_ok (verify_chain (\<lambda>b. b) [sample_event] ''g'') \<and> cv_ok (verify_chain (\<lambda>b. b) [sample_twin] ''g'')
   \<and> wf_event sample_event \<and> wf_event sample_twin
   \<and> last_hash ''g'' [sample_event] = last_hash ''g'' [sample_twin]
   \<and> \<not> collision_in (\<lambda>b. b) [sample_event] [sample_twin]
   \<and> \<not> genesis_preimage_in (\<lambda>b. b) ''g'' [sample_event, sample_twin]"
    by (simp add: verify_chain_def compute_event_hash_bytes sample_sealed twin sample_twin_bytes last_hash_def
        collision_in_def genesis_preimage_in_def event_bytes_object)
  show "\<not> cv_ok (verify_chain (\<lambda>b. b) [sample_event, sample_event] ''g'')
   \<and> event_sound (\<lambda>b. b) ''g'' [sample_event, sample_event] 0"
    using event_bytes_object [of sample_event]
    by (simp add: verify_chain_def event_sound_def compute_event_hash_bytes sample_sealed)
qed

text \<open>C6: two ledgers that verify from the same genesis and end in the same head hash hold the same
  sequence of events (payloads up to key order, signatures aside), unless SHA-256 collides on two of
  their records or one record hashes to the genesis value: the head hash commits to the whole history.\<close>

theorem head_commits_to_history:
  assumes "cv_ok (verify_chain H es g)" and "cv_ok (verify_chain H es' g)"
    and "list_all wf_event es" and "list_all wf_event es'"
    and "last_hash g es = last_hash g es'"
    and "\<not> collision_in H es es'" and "\<not> genesis_preimage_in H g (es @ es')"
  shows "map event_content es = map event_content es'"
  using same_head_same_history [OF assms(1-5)] assms(6,7) by blast

text \<open>C7: \<open>verify_chain\<close> answers ok exactly when every event carries its predecessor's hash and the
  hash of its own record; otherwise \<open>first_break_index\<close> is the first event for which that fails and
  \<open>length\<close> counts the events up to and including it.\<close>

theorem verify_chain_reports_first_break:
  "(cv_ok (verify_chain H es g) \<longleftrightarrow> (\<forall>i < length es. event_sound H g es i))
   \<and> (cv_ok (verify_chain H es g) \<or> (\<exists>i < length es.
        first_break_index (verify_chain H es g) = Some i \<and> cv_length (verify_chain H es g) = i + 1
        \<and> \<not> event_sound H g es i \<and> (\<forall>j < i. event_sound H g es j)))"
  using verify_chain_ok_iff [of H es g] verify_chain_break [of H es g] by blast

lemma head_commits_to_history_witness:
  "map event_content [sample_event] = map event_content [sample_twin]"
  by (rule head_commits_to_history [where H = "\<lambda>b. b" and g = "''g''"])
    (simp_all add: sample_facts)

lemma verify_chain_reports_first_break_witness:
  "first_break_index (verify_chain (\<lambda>b. b) [sample_event, sample_event] ''g'') = Some 1"
proof -
  from sample_facts(2) have "\<not> cv_ok (verify_chain (\<lambda>b. b) [sample_event, sample_event] ''g'')"
    "event_sound (\<lambda>b. b) ''g'' [sample_event, sample_event] 0" by simp_all
  then show ?thesis
    using verify_chain_reports_first_break [of "\<lambda>b. b" "[sample_event, sample_event]" "''g''"]
    by (auto simp: less_Suc_eq)
qed

section \<open>Extending and flagging\<close>

text \<open>sealing an event onto the head of a verified chain gives a verified chain whose head is the
  new event, so a ledger that only ever appends \<open>make_event(..., prev_hash=head)\<close> verifies.\<close>

lemma make_event_extends_chain:
  assumes "cv_ok (verify_chain H es g)"
  shows "cv_ok (verify_chain H (es @ [make_event H i c t p (last_hash g es) a ts eid]) g)"
  using assms make_event_hash by (simp add: verify_chain_snoc) (simp add: make_event_def Let_def)

lemma make_event_extends_chain_witness:
  "cv_ok (verify_chain (\<lambda>b. b)
     ([sample_event] @ [make_event (\<lambda>b. b) ''id-2'' ''t'' ''x'' None (last_hash ''g'' [sample_event]) None None None]) ''g'')"
  by (rule make_event_extends_chain) (simp add: sample_facts)

lemma flag_signing_failed_sound:
  assumes "flag_signing_failed H e = Some e'"
  shows "signing_failed e' = Some True \<and> compute_event_hash H e' = ev_hash e' \<and> prev_hash e' = prev_hash e
    \<and> payload e' = payload e \<and> event_type e' = event_type e"
proof -
  let ?f = "e\<lparr>signing_failed := Some True\<rparr>"
  from assms have e': "e' = ?f\<lparr>ev_hash := compute_record_hash H (pop_key ''signature'' (pop_key ''hash'' (event_dump ?f)))\<rparr>"
    by (simp add: flag_signing_failed_def Let_def split: if_splits)
  have dump: "pop_key ''hash'' (event_dump (x\<lparr>ev_hash := h\<rparr>)) = pop_key ''hash'' (event_dump x)" for x h
    by (simp add: event_dump_def pop_key_def)
  have pop: "pop_key ''hash'' (pop_key ''signature'' d) = pop_key ''signature'' (pop_key ''hash'' d)"
    "pop_key k (pop_key k d) = pop_key k d" for d k
    by (auto simp: pop_key_def intro: filter_cong)
  show ?thesis
    unfolding e' by (simp add: compute_event_hash_def compute_record_hash_def hashed_record_def dump pop)
qed

text \<open>\<open>flag_signing_failed\<close> puts the flag inside the hash: a signed event is never flagged, the
  flagged event carries the hash of its own record, and a copy without the flag still carries a sound
  hash only if the hash collides on the two records.\<close>

lemma signing_failed_flag_is_sealed:
  assumes "flag_signing_failed H e = Some e'" and "wf_event e"
  shows "signature e = None \<and> signing_failed e' = Some True \<and> compute_event_hash H e' = ev_hash e'
    \<and> (compute_event_hash H (e'\<lparr>signing_failed := None\<rparr>) = ev_hash e'
        \<longrightarrow> collision_in H [e'\<lparr>signing_failed := None\<rparr>] [e'])"
proof -
  note f = flag_signing_failed_sound [OF assms(1)]
  have "event_bytes (e'\<lparr>signing_failed := None\<rparr>) \<noteq> event_bytes e'"
  proof
    assume "event_bytes (e'\<lparr>signing_failed := None\<rparr>) = event_bytes e'"
    then have "event_content (e'\<lparr>signing_failed := None\<rparr>) = event_content e'"
      using assms(2) f by (intro event_bytes_content) (simp_all add: wf_event_def)
    then show False
      using f by (auto simp: event_content_def dest: arg_cong [where f = signing_failed])
  qed
  then show ?thesis
    using f assms(1) by (auto simp: collision_in_def compute_event_hash_bytes flag_signing_failed_def split: if_splits)
qed

lemma signing_failed_flag_is_sealed_witness:
  "signing_failed (the (flag_signing_failed (\<lambda>b. b) sample_event)) = Some True"
proof -
  have some: "flag_signing_failed (\<lambda>b. b) sample_event = Some (the (flag_signing_failed (\<lambda>b. b) sample_event))"
    by (simp add: flag_signing_failed_def sample_event_def make_event_def Let_def)
  have "wf_event sample_event" by (simp add: wf_event_def sample_event_def make_event_def Let_def)
  from signing_failed_flag_is_sealed [OF some this] show ?thesis by blast
qed

end
