(* ===== verification/Utc_Time.thy ===== *)
theory Utc_Time
  imports Field_Prelude
begin

text \<open>
  The \<open>datetime\<close> values the services use: aware UTC instants with microsecond resolution, printed
  by \<open>isoformat()\<close> and read back by \<open>fromisoformat\<close>. An instant is the number of microseconds
  since 0001-01-01T00:00:00Z. The calendar is CPython's (\<open>_ymd2ord\<close>, \<open>_ord2ymd\<close>).

  The stores keep timestamps as text and compare them as text in SQL. The two results of this
  theory are what makes that sound: printed instants compare as the instants do
  (\<open>iso_utc_less_iff\<close>), and reading a printed instant gives it back (\<open>parse_iso_utc\<close>).
\<close>

section \<open>The calendar\<close>

definition is_leap :: "nat \<Rightarrow> bool" where
  "is_leap y = (y mod 4 = 0 \<and> (y mod 100 \<noteq> 0 \<or> y mod 400 = 0))"

text \<open>Days before 1 January of year \<open>y + 1\<close>.\<close>

definition days_before :: "nat \<Rightarrow> nat" where
  "days_before y = 365 * y + y div 4 - y div 100 + y div 400"

definition month_lengths :: "bool \<Rightarrow> nat list" where
  "month_lengths leap = [31, if leap then 29 else 28, 31, 30, 31, 30, 31, 31, 30, 31, 30, 31]"

fun split_month :: "nat list \<Rightarrow> nat \<Rightarrow> nat \<Rightarrow> nat \<times> nat" where
  "split_month [] k d = (k, d + 1)"
| "split_month (l # ls) k d = (if d < l then (k, d + 1) else split_month ls (k + 1) (d - l))"

definition ymd2ord :: "nat \<Rightarrow> nat \<Rightarrow> nat \<Rightarrow> nat" where
  "ymd2ord y m d = days_before (y - 1) + sum_list (take (m - 1) (month_lengths (is_leap y))) + d"

definition ord2ymd :: "nat \<Rightarrow> nat \<times> nat \<times> nat" where
  "ord2ymd n = (let r0 = n - 1; n400 = r0 div 146097; r1 = r0 mod 146097;
       n100 = r1 div 36524; r2 = r1 mod 36524;
       n4 = r2 div 1461; r3 = r2 mod 1461;
       n1 = r3 div 365; d = r3 mod 365;
       y = n400 * 400 + n100 * 100 + n4 * 4 + n1 + 1
     in if n1 = 4 \<or> n100 = 4 then (y - 1, 12, 31)
        else (y, split_month (month_lengths (is_leap y)) 1 d))"

definition valid_date :: "nat \<Rightarrow> nat \<Rightarrow> nat \<Rightarrow> bool" where
  "valid_date y m d = (1 \<le> y \<and> 1 \<le> m \<and> m \<le> 12 \<and> 1 \<le> d \<and> d \<le> month_lengths (is_leap y) ! (m - 1))"

lemma days_before_parts:
  assumes "b \<le> 3" "c \<le> 24" "e \<le> 3"
  shows "days_before (400 * a + 100 * b + 4 * c + e) = 146097 * a + 36524 * b + 1461 * c + 365 * e"
proof -
  let ?y = "400 * a + 100 * b + 4 * c + e"
  have "?y div 4 = 100 * a + 25 * b + c" using assms by linarith
  moreover have "?y div 100 = 4 * a + b" using assms by linarith
  moreover have "?y div 400 = a" using assms by linarith
  ultimately show ?thesis by (simp add: days_before_def)
qed

lemma days_before_Suc: "days_before (Suc y) = days_before y + (if is_leap (Suc y) then 366 else 365)"
proof -
  have 4: "Suc y div 4 = y div 4 + (if Suc y mod 4 = 0 then 1 else 0)" by (simp add: div_Suc)
  have 100: "Suc y div 100 = y div 100 + (if Suc y mod 100 = 0 then 1 else 0)" by (simp add: div_Suc)
  have 400: "Suc y div 400 = y div 400 + (if Suc y mod 400 = 0 then 1 else 0)" by (simp add: div_Suc)
  have d1: "Suc y mod 400 = 0 \<Longrightarrow> Suc y mod 100 = 0"
    using dvd_trans [of 100 400 "Suc y"] by (simp add: mod_eq_0_iff_dvd)
  have d2: "Suc y mod 100 = 0 \<Longrightarrow> Suc y mod 4 = 0"
    using dvd_trans [of 4 100 "Suc y"] by (simp add: mod_eq_0_iff_dvd)
  have le: "y div 100 \<le> 365 * y + y div 4" by linarith
  show ?thesis
    unfolding days_before_def is_leap_def 4 100 400 using d1 d2 le by (auto simp: ac_simps)
qed

lemma days_before_mono: "x \<le> y \<Longrightarrow> days_before x \<le> days_before y"
  by (induction rule: dec_induct) (auto simp: days_before_Suc)

lemma sum_month_lengths: "sum_list (month_lengths leap) = (if leap then 366 else 365)"
  by (simp add: month_lengths_def)

lemma length_month_lengths [simp]: "length (month_lengths leap) = 12"
  by (simp add: month_lengths_def)

text \<open>Splitting a day of the year into month and day, for any list of month lengths.\<close>

lemma split_month_correct:
  assumes "split_month ls k d = (m, e)" and "d < sum_list ls"
  shows "k \<le> m \<and> m < k + length ls \<and> 1 \<le> e \<and> e \<le> ls ! (m - k) \<and> d + 1 = sum_list (take (m - k) ls) + e"
  using assms
proof (induction ls k d rule: split_month.induct)
  case (2 l ls k d)
  show ?case
  proof (cases "d < l")
    case True
    with "2.prems" show ?thesis by auto
  next
    case False
    with "2.prems" have "split_month ls (k + 1) (d - l) = (m, e)" and "d - l < sum_list ls" by auto
    with False "2.IH" have IH: "k + 1 \<le> m \<and> m < k + 1 + length ls \<and> 1 \<le> e \<and> e \<le> ls ! (m - (k + 1))
        \<and> d - l + 1 = sum_list (take (m - (k + 1)) ls) + e" by blast
    then obtain j where "m - k = Suc j" "m - (k + 1) = j"
      by (metis Suc_diff_le add_leD2 diff_Suc_eq_diff_pred diff_Suc_1 le_add_diff_inverse2 Suc_eq_plus1)
    with IH False show ?thesis by auto
  qed
qed simp

text \<open>Every day number is the day of the date it is converted to.\<close>

lemma leap_of_parts:
  assumes "b \<le> 3" "c \<le> 24" "e \<le> 3"
  shows "is_leap (400 * a + 100 * b + 4 * c + e + 1) \<longleftrightarrow> e = 3 \<and> (c \<noteq> 24 \<or> b = 3)"
proof -
  have small: "0 < r \<Longrightarrow> r \<le> k \<Longrightarrow> (k * q + r) mod k = 0 \<longleftrightarrow> r = k" for k q r :: nat
    by (cases "r = k") (auto simp: mod_less)
  let ?y = "400 * a + 100 * b + 4 * c + e + 1"
  have y: "?y = 4 * (100 * a + 25 * b + c) + (e + 1)" "?y = 100 * (4 * a + b) + (4 * c + e + 1)"
    "?y = 400 * a + (100 * b + 4 * c + e + 1)" by simp_all
  have 4: "?y mod 4 = 0 \<longleftrightarrow> e = 3"
    unfolding y(1) by (subst small) (use assms in auto)
  have 100: "?y mod 100 = 0 \<longleftrightarrow> e = 3 \<and> c = 24"
    unfolding y(2) by (subst small) (use assms in linarith)+
  have 400: "?y mod 400 = 0 \<longleftrightarrow> e = 3 \<and> c = 24 \<and> b = 3"
    unfolding y(3) by (subst small) (use assms in linarith)+
  show ?thesis unfolding is_leap_def 4 100 400 by auto
qed

lemma ord2ymd_correct:
  assumes "1 \<le> n" and "ord2ymd n = (y, m, d)"
  shows "valid_date y m d \<and> ymd2ord y m d = n"
proof -
  define r0 a r1 b r2 c r3 e f where defs: "r0 = n - 1" "a = r0 div 146097" "r1 = r0 mod 146097"
    "b = r1 div 36524" "r2 = r1 mod 36524" "c = r2 div 1461" "r3 = r2 mod 1461"
    "e = r3 div 365" "f = r3 mod 365"
  have n: "n = 146097 * a + 36524 * b + 1461 * c + 365 * e + f + 1"
    using assms(1) unfolding defs by (simp add: algebra_simps)
  have r1: "r1 < 146097" and r2: "r2 < 36524" and r3: "r3 < 1461" and f: "f < 365"
    unfolding defs by simp_all
  have r1e: "r1 = 36524 * b + r2" and r2e: "r2 = 1461 * c + r3" and r3e: "r3 = 365 * e + f"
    unfolding defs by simp_all
  have b4: "b \<le> 4" and c24: "c \<le> 24" and e4: "e \<le> 4" using r1 r1e r2 r2e r3 r3e by linarith+
  have c0: "b = 4 \<Longrightarrow> c = 0 \<and> e = 0 \<and> f = 0" using r1 r1e r2e r3e by linarith
  have f0: "e = 4 \<Longrightarrow> f = 0" using r3 r3e by linarith
  have c23: "e = 4 \<Longrightarrow> c < 24" using r2 r2e r3e by linarith
  let ?y = "a * 400 + b * 100 + c * 4 + e + 1"
  have conv: "ord2ymd n = (if e = 4 \<or> b = 4 then (?y - 1, 12, 31)
      else (?y, split_month (month_lengths (is_leap ?y)) 1 f))"
    unfolding ord2ymd_def Let_def defs ..
  show ?thesis
  proof (cases "e = 4 \<or> b = 4")
    case True
    then have ymd: "y = ?y - 1" "m = 12" "d = 31" using assms(2) conv by auto
    have eleven: "take 11 (month_lengths True) = [31, 29, 31, 30, 31, 30, 31, 31, 30, 31, 30]"
      by (simp add: month_lengths_def)
    have "1 \<le> y" using True ymd(1) by auto
    have "is_leap y \<and> days_before (y - 1) + 366 = n"
    proof (cases "b = 4")
      case True
      then have "y = 400 * a + 100 * 3 + 4 * 24 + 3 + 1" using ymd(1) c0 by simp
      then show ?thesis
        using leap_of_parts [of 3 24 3 a] days_before_parts [of 3 24 3 a] n True c0 by simp
    next
      case False
      then have e: "e = 4" and "b \<le> 3" using True b4 by auto
      then have "y = 400 * a + 100 * b + 4 * c + 3 + 1" "y - 1 = 400 * a + 100 * b + 4 * c + 3"
        using ymd(1) by simp_all
      then show ?thesis
        using leap_of_parts [of b c 3 a] days_before_parts [of b c 3 a] n e f0 c23 c24 \<open>b \<le> 3\<close>
        by (simp only:) simp
    qed
    with \<open>1 \<le> y\<close> ymd(2,3) show ?thesis
      by (simp add: valid_date_def ymd2ord_def eleven) (simp add: month_lengths_def)
  next
    case False
    then have le: "b \<le> 3" "c \<le> 24" "e \<le> 3" using b4 c24 e4 by auto
    have y: "y = 400 * a + 100 * b + 4 * c + e + 1"
      and sp: "split_month (month_lengths (is_leap y)) 1 f = (m, d)"
      using assms(2) conv False by (auto simp: ac_simps)
    have "f < sum_list (month_lengths (is_leap y))" using f by (simp add: sum_month_lengths)
    note sm = split_month_correct [OF sp this]
    have "days_before (y - 1) + f + 1 = n" using y n days_before_parts [OF le, of a] by simp
    with sm show ?thesis unfolding valid_date_def ymd2ord_def using y by auto
  qed
qed

text \<open>Later dates have larger day numbers.\<close>

lemma sum_take_mono_nat: "i \<le> j \<Longrightarrow> sum_list (take i (xs :: nat list)) \<le> sum_list (take j xs)"
  by (metis le_add1 le_add_diff_inverse sum_list_append take_add)

lemma sum_take_Suc: "i < length xs \<Longrightarrow> sum_list (take (Suc i) xs) = sum_list (take i xs) + (xs ! i :: nat)"
  by (simp add: take_Suc_conv_app_nth)

lemma ord_in_year:
  assumes "valid_date y m d"
  shows "days_before (y - 1) < ymd2ord y m d \<and> ymd2ord y m d \<le> days_before y"
proof -
  let ?ls = "month_lengths (is_leap y)"
  from assms have v: "1 \<le> y" "1 \<le> m" "m - 1 < length ?ls" "1 \<le> d" "d \<le> ?ls ! (m - 1)"
    by (auto simp: valid_date_def)
  have "sum_list (take (m - 1) ?ls) + d \<le> sum_list (take (Suc (m - 1)) ?ls)"
    unfolding sum_take_Suc [OF v(3)] using v(5) by simp
  also have "\<dots> \<le> sum_list ?ls"
    using sum_take_mono_nat [of "Suc (m - 1)" 12 ?ls] v by simp
  finally have "sum_list (take (m - 1) ?ls) + d \<le> sum_list ?ls" .
  moreover have "days_before y = days_before (y - 1) + sum_list ?ls"
    using v(1) days_before_Suc [of "y - 1"] by (simp add: sum_month_lengths)
  ultimately show ?thesis using v by (simp add: ymd2ord_def)
qed

lemma ymd2ord_less:
  assumes v: "valid_date y m d" "valid_date y' m' d'"
    and less: "y < y' \<or> y = y' \<and> (m < m' \<or> m = m' \<and> d < d')"
  shows "ymd2ord y m d < ymd2ord y' m' d'"
  using less
proof (elim disjE conjE)
  assume "y < y'"
  then have "days_before y \<le> days_before (y' - 1)" by (intro days_before_mono) simp
  with ord_in_year [OF v(1)] ord_in_year [OF v(2)] show ?thesis by linarith
next
  assume eq: "y = y'" and m: "m < m'"
  let ?ls = "month_lengths (is_leap y)"
  from v eq have w: "1 \<le> m" "m - 1 < length ?ls" "d \<le> ?ls ! (m - 1)" "1 \<le> d'"
    by (auto simp: valid_date_def)
  have "sum_list (take (m - 1) ?ls) + d \<le> sum_list (take (Suc (m - 1)) ?ls)"
    unfolding sum_take_Suc [OF w(2)] using w(3) by simp
  also have "\<dots> \<le> sum_list (take (m' - 1) ?ls)" using m w by (intro sum_take_mono_nat) simp
  finally show ?thesis using w eq by (simp add: ymd2ord_def)
qed (simp add: ymd2ord_def)

section \<open>Instants and their ISO text\<close>

type_synonym instant = int

definition second :: int where "second = 1000000"
definition day_us :: int where "day_us = 86400 * second"

text \<open>\<open>datetime.min\<close> to \<open>datetime.max\<close>; arithmetic that leaves the range raises \<open>OverflowError\<close>.\<close>

definition valid_instant :: "instant \<Rightarrow> bool" where
  "valid_instant t = (0 \<le> t \<and> t < 3652059 * day_us)"

definition epoch :: instant where
  "epoch = 719162 * day_us"

definition iso_date :: "nat \<Rightarrow> string" where
  "iso_date n = (case ord2ymd n of (y, m, d) \<Rightarrow> zpad 4 y @ ''-'' @ zpad 2 m @ ''-'' @ zpad 2 d)"

definition iso_time :: "nat \<Rightarrow> string" where
  "iso_time s = zpad 2 (s div 3600) @ '':'' @ zpad 2 (s mod 3600 div 60) @ '':'' @ zpad 2 (s mod 60)"

definition iso_micro :: "nat \<Rightarrow> string" where
  "iso_micro us = (if us = 0 then [] else ''.'' @ zpad 6 us) @ ''+00:00''"

text \<open>\<open>t.isoformat()\<close> of an aware UTC datetime.\<close>

definition iso_utc :: "instant \<Rightarrow> string" where
  "iso_utc t = iso_date (nat (t div day_us) + 1) @ ''T'' @ iso_time (nat (t mod day_us div second))
     @ iso_micro (nat (t mod second))"

text \<open>
  \<open>datetime.fromisoformat\<close> on the texts \<open>isoformat()\<close> prints for UTC; any other text is None here.
\<close>

definition parse_iso :: "string \<Rightarrow> instant option" where
  "parse_iso s = (let
       n = ymd2ord (dec_val (take 4 s)) (dec_val (take 2 (drop 5 s))) (dec_val (take 2 (drop 8 s)));
       sec = dec_val (take 2 (drop 11 s)) * 3600 + dec_val (take 2 (drop 14 s)) * 60
             + dec_val (take 2 (drop 17 s));
       us = (if take 1 (drop 19 s) = ''.'' then dec_val (take 6 (drop 20 s)) else 0);
       t = (int n - 1) * day_us + int sec * second + int us
     in if valid_instant t \<and> iso_utc t = s then Some t else None)"

text \<open>The parts of an instant, and their bounds.\<close>

lemma instant_parts:
  "t = t div day_us * day_us + t mod day_us div second * second + t mod second"
proof -
  have "t mod day_us mod second = t mod second"
    by (simp add: day_us_def mod_mod_cancel)
  then have "t mod day_us = t mod day_us div second * second + t mod second"
    by (metis div_mult_mod_eq)
  then show ?thesis by (metis add.assoc div_mult_mod_eq)
qed

lemma second_of_day_bound: "0 \<le> t mod day_us div second \<and> t mod day_us div second < 86400"
proof -
  have "0 \<le> t mod day_us" "t mod day_us < 86400 * second"
    by (simp_all add: day_us_def second_def)
  then show ?thesis
    by (simp add: second_def pos_imp_zdiv_nonneg_iff div_less_iff_less_mult)
qed

lemma micro_bound: "0 \<le> t mod second \<and> t mod second < 1000000"
  by (simp add: second_def)

lemma less_iff_of_strict_mono:
  fixes f :: "'a::linorder \<Rightarrow> 'b::linorder"
  assumes "\<And>x y. P x \<Longrightarrow> P y \<Longrightarrow> x < y \<Longrightarrow> f x < f y" and "P x" and "P y"
  shows "f x < f y \<longleftrightarrow> x < y"
  using assms by (metis not_less_iff_gr_or_eq order.asym)

section \<open>Printed instants compare as instants\<close>

lemma ord2ymd_bounds:
  assumes "1 \<le> n" "n \<le> 3652059" "ord2ymd n = (y, m, d)"
  shows "y < 10000 \<and> m < 100 \<and> d < 100"
proof -
  from ord2ymd_correct [OF assms(1,3)] have v: "valid_date y m d" and n: "ymd2ord y m d = n" by auto
  have "days_before (y - 1) < days_before 9999"
    using ord_in_year [OF v] n assms(2) by (simp add: days_before_def)
  then have "y - 1 < 9999" using days_before_mono [of 9999 "y - 1"] by linarith
  moreover have "month_lengths (is_leap y) ! (m - 1) \<le> 31"
    using v by (auto simp: valid_date_def month_lengths_def nth_Cons' )
  ultimately show ?thesis using v by (auto simp: valid_date_def)
qed

lemma length_iso_date [simp]: "length (iso_date n) = 10"
  by (simp add: iso_date_def split: prod.splits)

lemma length_iso_time [simp]: "length (iso_time s) = 8"
  by (simp add: iso_time_def)

lemma iso_date_mono:
  assumes "1 \<le> n" "n < n'" "n' \<le> 3652059"
  shows "iso_date n < iso_date n'"
proof -
  obtain y m d y' m' d' where o: "ord2ymd n = (y, m, d)" "ord2ymd n' = (y', m', d')"
    by (metis prod_cases3)
  note c = ord2ymd_correct [OF assms(1) o(1)] ord2ymd_correct [of n', OF _ o(2)]
  note b = ord2ymd_bounds [of n, OF assms(1) _ o(1)] ord2ymd_bounds [of n', OF _ assms(3) o(2)]
  have "y < y' \<or> y = y' \<and> (m < m' \<or> m = m' \<and> d < d')"
  proof (rule ccontr)
    assume "\<not> ?thesis"
    then have "(y, m, d) = (y', m', d') \<or> y' < y \<or> y' = y \<and> (m' < m \<or> m' = m \<and> d' < d)" by auto
    then have "n' \<le> n"
    proof
      assume "(y, m, d) = (y', m', d')"
      with c assms show ?thesis by simp
    next
      assume "y' < y \<or> y' = y \<and> (m' < m \<or> m' = m \<and> d' < d)"
      from ymd2ord_less [OF _ _ this] c assms show ?thesis by simp
    qed
    with assms show False by simp
  qed
  moreover have "y < 10 ^ 4" "y' < 10 ^ 4" "m < 10 ^ 2" "m' < 10 ^ 2" "d < 10 ^ 2" "d' < 10 ^ 2"
    using b assms by simp_all
  ultimately show ?thesis
    by (simp only: iso_date_def o prod.case lex_append length_zpad zpad_less_iff zpad_eq_iff)
      (auto simp: lex_append zpad_less_iff)
qed

lemma iso_time_mono:
  assumes "s < s'" "s' < 86400"
  shows "iso_time s < iso_time s'"
proof -
  have b: "s div 3600 < 10 ^ 2" "s' div 3600 < 10 ^ 2" "s mod 3600 div 60 < 10 ^ 2"
    "s' mod 3600 div 60 < 10 ^ 2" "s mod 60 < 10 ^ 2" "s' mod 60 < 10 ^ 2"
    using assms by (simp_all add: less_mult_imp_div_less)
  have parts: "x = x div 3600 * 3600 + x mod 3600 div 60 * 60 + x mod 60" for x :: nat
  proof -
    have "x mod 3600 mod 60 = x mod 60" by (simp add: mod_mod_cancel)
    then show ?thesis by (metis add.assoc div_mult_mod_eq)
  qed
  have "s div 3600 < s' div 3600 \<or> s div 3600 = s' div 3600 \<and>
      (s mod 3600 div 60 < s' mod 3600 div 60 \<or> s mod 3600 div 60 = s' mod 3600 div 60 \<and> s mod 60 < s' mod 60)"
  proof (rule ccontr)
    assume "\<not> ?thesis"
    moreover have "s' mod 60 < 60" "s' mod 3600 div 60 < 60"
      by (simp_all add: less_mult_imp_div_less)
    ultimately have "s' div 3600 * 3600 + s' mod 3600 div 60 * 60 + s' mod 60
       \<le> s div 3600 * 3600 + s mod 3600 div 60 * 60 + s mod 60"
      by linarith
    with parts [of s] parts [of s'] assms show False by linarith
  qed
  then show ?thesis
    unfolding iso_time_def
    by (auto simp only: lex_append length_zpad zpad_less_iff [OF b(1,2)] zpad_eq_iff [OF b(1,2)])
      (auto simp: lex_append zpad_less_iff [OF b(3,4)] zpad_eq_iff [OF b(3,4)] zpad_less_iff [OF b(5,6)])
qed

lemma iso_micro_mono:
  assumes "us < us'" "us' < 1000000"
  shows "iso_micro us < iso_micro us'"
proof (cases "us = 0")
  case True
  with assms show ?thesis by (simp add: iso_micro_def less_char_def)
next
  case False
  with assms show ?thesis by (simp add: iso_micro_def lex_append zpad_less_iff)
qed

lemma instant_day_bound: "valid_instant t \<Longrightarrow> 0 \<le> t div day_us \<and> t div day_us < 3652059"
  by (auto simp: valid_instant_def day_us_def second_def pos_imp_zdiv_nonneg_iff div_less_iff_less_mult)

lemma iso_utc_mono:
  assumes "valid_instant t" "valid_instant u" "t < u"
  shows "iso_utc t < iso_utc u"
proof -
  define D S M where "D = (\<lambda>t. t div day_us)" and "S = (\<lambda>t. t mod day_us div second)" and "M = (\<lambda>t. t mod second)"
  have eq: "x = D x * day_us + S x * second + M x" for x
    unfolding D_def S_def M_def by (rule instant_parts)
  have b: "0 \<le> S x" "S x < 86400" "0 \<le> M x" "M x < 1000000" for x
    unfolding S_def M_def using second_of_day_bound [of x] micro_bound [of x] by auto
  have d: "0 \<le> D t" "D t < 3652059" "0 \<le> D u" "D u < 3652059"
    unfolding D_def using instant_day_bound assms(1,2) by auto
  have less: "D t < D u \<or> D t = D u \<and> (S t < S u \<or> S t = S u \<and> M t < M u)"
  proof (rule ccontr)
    assume "\<not> ?thesis"
    then consider "D u < D t" | "D t = D u" "S u < S t" | "D t = D u" "S t = S u" "M u \<le> M t"
      by linarith
    then have "u \<le> t"
      by cases (use b [of t] b [of u] eq [of t] eq [of u] in \<open>simp_all add: day_us_def second_def\<close>)
    with assms(3) show False by simp
  qed
  have iso: "iso_utc x = iso_date (nat (D x) + 1) @ ''T'' @ iso_time (nat (S x)) @ iso_micro (nat (M x))" for x
    by (simp add: iso_utc_def D_def S_def M_def)
  from less consider "D t < D u" | "D t = D u" "S t < S u" | "D t = D u" "S t = S u" "M t < M u"
    by blast
  then show ?thesis
  proof cases
    case 1
    then have "iso_date (nat (D t) + 1) < iso_date (nat (D u) + 1)"
      using d by (intro iso_date_mono) auto
    then show ?thesis unfolding iso by (simp add: lex_append)
  next
    case 2
    then have "iso_time (nat (S t)) < iso_time (nat (S u))"
      using b [of t] b [of u] by (intro iso_time_mono) auto
    with 2 show ?thesis unfolding iso by (simp add: lex_append)
  next
    case 3
    then have "iso_micro (nat (M t)) < iso_micro (nat (M u))"
      using b [of t] b [of u] by (intro iso_micro_mono) auto
    with 3 show ?thesis unfolding iso by (simp add: lex_append)
  qed
qed

lemma iso_utc_less_iff: "valid_instant t \<Longrightarrow> valid_instant u \<Longrightarrow> iso_utc t < iso_utc u \<longleftrightarrow> t < u"
  by (rule less_iff_of_strict_mono [where P = valid_instant]) (auto intro: iso_utc_mono)

lemma iso_utc_le_iff: "valid_instant t \<Longrightarrow> valid_instant u \<Longrightarrow> iso_utc t \<le> iso_utc u \<longleftrightarrow> t \<le> u"
  by (metis iso_utc_less_iff not_less)

section \<open>Reading a printed instant back\<close>

lemma ymd_of_iso_date:
  assumes "1 \<le> n" "n \<le> 3652059"
  shows "ymd2ord (dec_val (take 4 (iso_date n @ s))) (dec_val (take 2 (drop 5 (iso_date n @ s))))
           (dec_val (take 2 (drop 8 (iso_date n @ s)))) = n"
proof -
  obtain y m d where o: "ord2ymd n = (y, m, d)" by (metis prod_cases3)
  have b: "y < 10 ^ 4" "m < 10 ^ 2" "d < 10 ^ 2" using ord2ymd_bounds [OF assms o] by simp_all
  show ?thesis
    using ord2ymd_correct [OF assms(1) o]
    by (simp add: iso_date_def o dec_val_zpad [OF b(1)] dec_val_zpad [OF b(2)] dec_val_zpad [OF b(3)]
        del: zpad.simps)
qed

lemma seconds_of_iso_time:
  assumes "s < 86400"
  shows "dec_val (take 2 (iso_time s @ r)) * 3600 + dec_val (take 2 (drop 3 (iso_time s @ r))) * 60
           + dec_val (take 2 (drop 6 (iso_time s @ r))) = s"
proof -
  have b: "s div 3600 < 10 ^ 2" "s mod 3600 div 60 < 10 ^ 2" "s mod 60 < 10 ^ 2"
    using assms by (simp_all add: less_mult_imp_div_less)
  have "s mod 3600 mod 60 = s mod 60" by (simp add: mod_mod_cancel)
  then have "s div 3600 * 3600 + s mod 3600 div 60 * 60 + s mod 60 = s"
    by (metis add.assoc div_mult_mod_eq)
  then show ?thesis
    by (simp add: iso_time_def dec_val_zpad [OF b(1)] dec_val_zpad [OF b(2)] dec_val_zpad [OF b(3)]
        del: zpad.simps)
qed

lemma micro_of_iso_micro:
  assumes "us < 1000000"
  shows "(if take 1 (iso_micro us) = ''.'' then dec_val (take 6 (drop 1 (iso_micro us))) else 0) = us"
  using assms by (simp add: iso_micro_def dec_val_zpad del: zpad.simps)

lemma parse_iso_utc:
  assumes "valid_instant t"
  shows "parse_iso (iso_utc t) = Some t"
proof -
  define n s us where "n = nat (t div day_us) + 1" and "s = nat (t mod day_us div second)"
    and "us = nat (t mod second)"
  have b: "1 \<le> n" "n \<le> 3652059" "s < 86400" "us < 1000000"
    using instant_day_bound [OF assms] second_of_day_bound [of t] micro_bound [of t]
    by (auto simp: n_def s_def us_def)
  have iso: "iso_utc t = iso_date n @ ''T'' @ iso_time s @ iso_micro us"
    by (simp add: iso_utc_def n_def s_def us_def)
  have drops: "drop 11 (iso_utc t) = iso_time s @ iso_micro us"
    "drop 14 (iso_utc t) = drop 3 (iso_time s @ iso_micro us)"
    "drop 17 (iso_utc t) = drop 6 (iso_time s @ iso_micro us)"
    "drop 19 (iso_utc t) = iso_micro us" "drop 20 (iso_utc t) = drop 1 (iso_micro us)"
    unfolding iso by simp_all
  have "(int n - 1) * day_us + int s * second + int us = t"
    using instant_parts [of t] instant_day_bound [OF assms] second_of_day_bound [of t] micro_bound [of t]
    by (simp add: n_def s_def us_def)
  moreover have "ymd2ord (dec_val (take 4 (iso_utc t))) (dec_val (take 2 (drop 5 (iso_utc t))))
      (dec_val (take 2 (drop 8 (iso_utc t)))) = n"
    unfolding iso by (rule ymd_of_iso_date [OF b(1,2)])
  ultimately show ?thesis
    unfolding parse_iso_def Let_def drops micro_of_iso_micro [OF b(4)] seconds_of_iso_time [OF b(3)]
    using assms by simp
qed

lemma parse_iso_Some: "parse_iso s = Some t \<Longrightarrow> valid_instant t \<and> iso_utc t = s"
  by (auto simp: parse_iso_def Let_def split: if_splits)

end
