(* ===== verification/Append_Policy.thy ===== *)
theory Append_Policy
  imports Ledger_Chain Utc_Time
begin

text \<open>
  What decides whether an append enters the sealed ledger, and what is stamped on it:
  \<open>services/sealed-ledger/src/sealed_ledger/store.py\<close>, the per-event signing policy (\<open>SigningConfig\<close>,
  \<open>_require_appendable\<close>, \<open>_seal\<close>) and the caller signatures (\<open>CallerKeyring\<close>, \<open>CallerPolicy\<close>,
  \<open>stamp_event\<close>); and the event filters of \<open>filters.py\<close>.

  Ed25519 is the package \<open>cryptography\<close>: \<open>ed_sign pem bytes\<close> is the base64 signature, \<open>ed_verify pem
  bytes sig\<close> whether it verifies, \<open>is_public pem\<close> whether a text is an Ed25519 public key and
  \<open>private_fp pem\<close> the fingerprint of a usable private key. What \<open>datetime.fromisoformat\<close> reads of a text
  is the argument \<open>rd\<close>: the instant of its wall clock and its UTC offset, if it has one.
\<close>

section \<open>Stop-type events\<close>

definition STOP_EVENT_TYPES :: "string list" where
  "STOP_EVENT_TYPES = [''delegation.revoke'', ''lifecycle.decommissioned'']"

definition STOP_EVENT_PREFIX :: string where
  "STOP_EVENT_PREFIX = ''kill.''"

definition is_stop_type :: "string \<Rightarrow> bool" where
  "is_stop_type t = (t \<in> set STOP_EVENT_TYPES
     \<or> (starts_with STOP_EVENT_PREFIX t \<and> length STOP_EVENT_PREFIX < length t))"

section \<open>The ledger's own signature\<close>

datatype key_fault = KeyUnreadable | KeyUnusable
datatype signing_state = SigningOn | SigningError | SigningOff

record signing_config =
  sc_private_key :: "string option"
  sc_fingerprint :: "string option"
  sc_key_error :: "key_fault option"
  sc_require :: bool

definition signing_state_of :: "signing_config \<Rightarrow> signing_state" where
  "signing_state_of c = (if sc_private_key c \<noteq> None then SigningOn
     else if sc_key_error c \<noteq> None then SigningError else SigningOff)"

definition appendable :: "signing_config \<Rightarrow> bool" where
  "appendable c = (\<not> (sc_require c \<and> sc_private_key c = None))"

definition SEAL_SIGNED :: string where "SEAL_SIGNED = ''ed25519-signed-chain''"
definition SEAL_UNSIGNED :: string where "SEAL_UNSIGNED = ''sha-256-chain''"

definition seal_algorithm :: "signing_config \<Rightarrow> string" where
  "seal_algorithm c = (if sc_private_key c \<noteq> None then SEAL_SIGNED else SEAL_UNSIGNED)"

text \<open>\<open>load_signing_config\<close>: \<open>read\<close> is the ASCII text of the file at a path, None where it cannot be read.\<close>

definition load_signing_config :: "(string \<Rightarrow> string option) \<Rightarrow> (string \<Rightarrow> string option) \<Rightarrow> string option
    \<Rightarrow> bool \<Rightarrow> signing_config" where
  "load_signing_config read private_fp key_path require =
     (let raw = (case key_path of None \<Rightarrow> [] | Some p \<Rightarrow> py_strip p);
          none = \<lparr>sc_private_key = None, sc_fingerprint = None, sc_key_error = None, sc_require = require\<rparr>
      in if raw = [] then none
         else case read raw of None \<Rightarrow> none\<lparr>sc_key_error := Some KeyUnreadable\<rparr>
         | Some pem \<Rightarrow> (case private_fp pem of None \<Rightarrow> none\<lparr>sc_key_error := Some KeyUnusable\<rparr>
             | Some fp \<Rightarrow> none\<lparr>sc_private_key := Some pem, sc_fingerprint := Some fp\<rparr>))"

datatype append_refused = SigningRequired | CallerRefused caller_fault
  and caller_fault = NoCallerSignature | IncompleteCaller | NoKeyring | UnknownCaller | CallerTsNotText
  | CallerTsNotIso | CallerTsTooOld | CallerTsInFuture | InvalidCallerSignature

definition require_appendable :: "signing_config \<Rightarrow> string \<Rightarrow> append_refused + unit" where
  "require_appendable cfg t = (if appendable cfg \<or> is_stop_type t then Inr () else Inl SigningRequired)"

text \<open>\<open>sign_event\<close>: hash first, sign second.\<close>

definition sign_event :: "(string \<Rightarrow> string \<Rightarrow> string) \<Rightarrow> ledger_event \<Rightarrow> string \<Rightarrow> ledger_event" where
  "sign_event ed_sign e pem = e\<lparr>signature := Some (ed_sign pem (event_signing_bytes e))\<rparr>"

text \<open>\<open>_seal\<close> of a freshly hashed, unsigned event; flagging a signed one raises (None).\<close>

definition seal :: "(string \<Rightarrow> string) \<Rightarrow> (string \<Rightarrow> string \<Rightarrow> string) \<Rightarrow> signing_config \<Rightarrow> ledger_event
    \<Rightarrow> append_refused + ledger_event option" where
  "seal H ed_sign cfg e =
     (case sc_private_key cfg of
        Some pem \<Rightarrow> Inr (Some (sign_event ed_sign e pem))
      | None \<Rightarrow>
        if \<not> sc_require cfg then Inr (Some e)
        else bindE (require_appendable cfg (event_type e)) (\<lambda>_. Inr (flag_signing_failed H e)))"

section \<open>Caller signatures\<close>

definition CALLER_TS_MAX_AGE :: int where "CALLER_TS_MAX_AGE = 300 * second"
definition CALLER_TS_MAX_FUTURE :: int where "CALLER_TS_MAX_FUTURE = 60 * second"

text \<open>
  \<open>_CALLER_ID\<close>: \<open>^[a-z0-9][a-z0-9-]{0,62}$\<close> under \<open>match\<close>. The \<open>$\<close> of Python also matches before a line
  break that ends the text.
\<close>

definition id_char :: "char \<Rightarrow> bool" where
  "id_char c = (is_digit c \<or> (97 \<le> (of_char c :: nat) \<and> (of_char c :: nat) \<le> 122))"

definition id_core :: "string \<Rightarrow> bool" where
  "id_core s = (s \<noteq> [] \<and> id_char (hd s) \<and> length s \<le> 63 \<and> list_all (\<lambda>c. id_char c \<or> c = CHR ''-'') (tl s))"

definition is_caller_id :: "string \<Rightarrow> bool" where
  "is_caller_id s = (id_core s \<or> (\<exists>t \<in> {butlast s}. s = t @ [CHR 0x0A] \<and> id_core t))"

text \<open>The keyring directory: what a file of it holds, if it is there and reads as ASCII text.\<close>

datatype keyring_file = NoFile | NotText | KeyText string

type_synonym keyring = "string \<Rightarrow> keyring_file"

definition path_for :: "string \<Rightarrow> string option" where
  "path_for caller = (if is_caller_id caller then Some (caller @ ''.pub.pem'') else None)"

definition public_pem :: "(string \<Rightarrow> bool) \<Rightarrow> keyring \<Rightarrow> string \<Rightarrow> caller_fault + string" where
  "public_pem is_public ring caller =
     (case path_for caller of None \<Rightarrow> Inl UnknownCaller
      | Some p \<Rightarrow> (case ring p of KeyText pem \<Rightarrow> if is_public pem then Inr pem else Inl UnknownCaller
          | _ \<Rightarrow> Inl UnknownCaller))"

type_synonym iso_reading = "string \<Rightarrow> (instant \<times> int option) option"

definition read_instant :: "iso_reading \<Rightarrow> string \<Rightarrow> instant option" where
  "read_instant rd s = (case rd s of None \<Rightarrow> None
     | Some (t, None) \<Rightarrow> Some t | Some (t, Some off) \<Rightarrow> Some (t - off))"

definition caller_ts_problem :: "iso_reading \<Rightarrow> json \<Rightarrow> instant \<Rightarrow> caller_fault option" where
  "caller_ts_problem rd v now =
     (case v of JStr s \<Rightarrow>
        (case read_instant rd s of None \<Rightarrow> Some CallerTsNotIso
         | Some t \<Rightarrow> let age = now - t in
             if CALLER_TS_MAX_AGE < age then Some CallerTsTooOld
             else if CALLER_TS_MAX_FUTURE < - age then Some CallerTsInFuture else None)
      | _ \<Rightarrow> Some CallerTsNotText)"

definition caller_signing_bytes :: "string \<Rightarrow> string option \<Rightarrow> py_dict \<Rightarrow> string \<Rightarrow> string \<Rightarrow> string" where
  "caller_signing_bytes etype agent pl cid cts = canonical_bytes (JObj
     [(''event_type'', JStr etype), (''agent_id'', json_opt JStr agent), (''payload'', JObj pl),
      (''caller_id'', JStr cid), (''caller_ts'', JStr cts)])"

record caller_policy =
  cp_keyring :: "keyring option"
  cp_require :: bool

text \<open>The claim of a body: its three values, \<open>JNull\<close> where it has none.\<close>

record caller_claim =
  cl_id :: json
  cl_ts :: json
  cl_signature :: json

datatype caller_stamp = NoStamp | Unsigned | Verified string string string

definition claim_text :: "json \<Rightarrow> string option" where
  "claim_text v = (case v of JStr s \<Rightarrow> if s = [] then None else Some s | _ \<Rightarrow> None)"

record crypto =
  cr_sign :: "string \<Rightarrow> string \<Rightarrow> string"
  cr_verify :: "string \<Rightarrow> string \<Rightarrow> string \<Rightarrow> bool"
  cr_public :: "string \<Rightarrow> bool"
  cr_rd :: iso_reading

definition verify_claim :: "crypto \<Rightarrow> caller_policy \<Rightarrow> string \<Rightarrow> py_dict option \<Rightarrow> string option \<Rightarrow> caller_claim
    \<Rightarrow> instant \<Rightarrow> caller_fault + caller_stamp" where
  "verify_claim cr p etype pl agent c now =
     (case (claim_text (cl_id c), claim_text (cl_ts c), claim_text (cl_signature c)) of
        (Some cid, Some cts, Some sig) \<Rightarrow>
          (case cp_keyring p of None \<Rightarrow> Inl NoKeyring
           | Some ring \<Rightarrow> bindE (public_pem (cr_public cr) ring cid) (\<lambda>pem.
              case caller_ts_problem (cr_rd cr) (JStr cts) now of Some f \<Rightarrow> Inl f
              | None \<Rightarrow>
                if cr_verify cr pem
                     (caller_signing_bytes etype agent (case pl of None \<Rightarrow> [] | Some d \<Rightarrow> d) cid cts) sig
                then Inr (Verified cid cts sig) else Inl InvalidCallerSignature))
      | _ \<Rightarrow> Inl IncompleteCaller)"

definition no_claim :: "caller_claim option \<Rightarrow> bool" where
  "no_claim c = (case c of None \<Rightarrow> True
     | Some cl \<Rightarrow> cl_id cl = JNull \<and> cl_ts cl = JNull \<and> cl_signature cl = JNull)"

definition check_caller :: "crypto \<Rightarrow> caller_policy \<Rightarrow> string \<Rightarrow> py_dict option \<Rightarrow> string option
    \<Rightarrow> caller_claim option \<Rightarrow> instant \<Rightarrow> append_refused + caller_stamp" where
  "check_caller cr p etype pl agent claim now =
     (if no_claim claim then
        (if \<not> cp_require p then Inr NoStamp
         else if is_stop_type etype then Inr Unsigned else Inl (CallerRefused NoCallerSignature))
      else case verify_claim cr p etype pl agent (the claim) now of
        Inr st \<Rightarrow> Inr st
      | Inl f \<Rightarrow> if cp_require p \<and> is_stop_type etype then Inr Unsigned else Inl (CallerRefused f))"

text \<open>\<open>stamp_event\<close>: the stamp goes inside the hash; a signed event cannot be stamped (None).\<close>

definition stamp_fields :: "caller_stamp \<Rightarrow> ledger_event \<Rightarrow> ledger_event" where
  "stamp_fields st e = (case st of NoStamp \<Rightarrow> e | Unsigned \<Rightarrow> e\<lparr>caller_unsigned := Some True\<rparr>
     | Verified cid cts sig \<Rightarrow> e\<lparr>caller_id := Some cid, caller_ts := Some cts, caller_signature := Some sig\<rparr>)"

definition stamp_event :: "(string \<Rightarrow> string) \<Rightarrow> ledger_event \<Rightarrow> caller_stamp \<Rightarrow> ledger_event option" where
  "stamp_event H e st =
     (if st = NoStamp then Some e
      else if signature e \<noteq> None then None
      else let e' = stamp_fields st e in
        Some (e'\<lparr>ev_hash := compute_record_hash H (pop_key ''signature'' (pop_key ''hash'' (event_dump e')))\<rparr>))"

section \<open>Event filters\<close>

record event_filter =
  ef_agent :: "string option"
  ef_type :: "string option"
  ef_since :: "instant option"
  ef_until :: "instant option"

datatype time_fault = InvalidTimeBound | EventTimeUnreadable nat

definition parse_bound :: "iso_reading \<Rightarrow> string option \<Rightarrow> time_fault + instant option" where
  "parse_bound rd v = (case v of None \<Rightarrow> Inr None
     | Some s \<Rightarrow> (case read_instant rd s of None \<Rightarrow> Inl InvalidTimeBound | Some t \<Rightarrow> Inr (Some t)))"

definition make_filter :: "iso_reading \<Rightarrow> string option \<Rightarrow> string option \<Rightarrow> string option \<Rightarrow> string option
    \<Rightarrow> time_fault + event_filter" where
  "make_filter rd agent etype since until =
     bindE (parse_bound rd since) (\<lambda>s. bindE (parse_bound rd until) (\<lambda>u.
       Inr \<lparr>ef_agent = agent, ef_type = etype, ef_since = s, ef_until = u\<rparr>))"

definition filter_matches :: "iso_reading \<Rightarrow> event_filter \<Rightarrow> nat \<Rightarrow> ledger_event \<Rightarrow> time_fault + bool" where
  "filter_matches rd f index e =
     (if ef_agent f \<noteq> None \<and> ev_agent_id e \<noteq> ef_agent f then Inr False
      else if ef_type f \<noteq> None \<and> Some (event_type e) \<noteq> ef_type f then Inr False
      else if ef_since f = None \<and> ef_until f = None then Inr True
      else case read_instant rd (ev_ts e) of None \<Rightarrow> Inl (EventTimeUnreadable index)
      | Some t \<Rightarrow>
        if (case ef_since f of None \<Rightarrow> False | Some s \<Rightarrow> t < s) then Inr False
        else if (case ef_until f of None \<Rightarrow> False | Some u \<Rightarrow> u < t) then Inr False
        else Inr True)"


section \<open>The event of an append\<close>

text \<open>
  \<open>append_for_caller\<close> and \<open>_append\<close> up to the write: the caller's claim, the signing policy, then the event
  on the given head, stamped, re-hashed and sealed. A fresh event is unsigned, so the inner None (a
  \<open>ValueError\<close>) does not occur (\<open>build_append_total\<close>).
\<close>

record append_request =
  aq_type :: string
  aq_payload :: "py_dict option"
  aq_agent :: "string option"
  aq_claim :: "caller_claim option"

record append_world =
  aw_now :: instant
  aw_fresh :: string
  aw_clock :: string

definition build_event :: "(string \<Rightarrow> string) \<Rightarrow> crypto \<Rightarrow> signing_config \<Rightarrow> append_world \<Rightarrow> append_request
    \<Rightarrow> caller_stamp \<Rightarrow> string \<Rightarrow> append_refused + ledger_event option" where
  "build_event H cr cfg w q st head =
     (case stamp_event H (make_event H (aw_fresh w) (aw_clock w) (aq_type q) (aq_payload q) head (aq_agent q) None None) st of
        None \<Rightarrow> Inr None | Some e \<Rightarrow> seal H (cr_sign cr) cfg e)"

definition build_append :: "(string \<Rightarrow> string) \<Rightarrow> crypto \<Rightarrow> signing_config \<Rightarrow> caller_policy \<Rightarrow> append_world
    \<Rightarrow> append_request \<Rightarrow> string \<Rightarrow> append_refused + ledger_event option" where
  "build_append H cr cfg p w q head =
     bindE (check_caller cr p (aq_type q) (aq_payload q) (aq_agent q) (aq_claim q) (aw_now w)) (\<lambda>st.
     bindE (require_appendable cfg (aq_type q)) (\<lambda>_. build_event H cr cfg w q st head))"

section \<open>What the policies guarantee\<close>

lemma dump_hash_free [simp]: "pop_key ''hash'' (event_dump (x\<lparr>ev_hash := h\<rparr>)) = pop_key ''hash'' (event_dump x)"
  by (simp add: event_dump_def pop_key_def)

lemma pop_key_twice [simp]: "pop_key k (pop_key k d) = pop_key k d"
  "pop_key ''hash'' (pop_key ''signature'' d) = pop_key ''signature'' (pop_key ''hash'' d)"
  by (auto simp: pop_key_def intro: filter_cong)

lemma hashed_again: "hashed_record (pop_key ''signature'' (pop_key ''hash'' d)) = hashed_record d"
  by (simp add: hashed_record_def)

lemma resealed_hash:
  "compute_event_hash H (e\<lparr>ev_hash := compute_record_hash H (pop_key ''signature'' (pop_key ''hash'' (event_dump e)))\<rparr>)
     = compute_record_hash H (pop_key ''signature'' (pop_key ''hash'' (event_dump e)))"
  by (simp add: compute_event_hash_def compute_record_hash_def hashed_again) (simp add: hashed_record_def)

text \<open>An event hashed over its own record, unsigned, that continues a head.\<close>

definition fresh_on :: "(string \<Rightarrow> string) \<Rightarrow> string \<Rightarrow> ledger_event \<Rightarrow> bool" where
  "fresh_on H head e = (prev_hash e = head \<and> signature e = None \<and> compute_event_hash H e = ev_hash e)"

lemma made_fresh: "fresh_on H head (make_event H i c t p head a ts eid)"
  using make_event_hash [of H i c t p head a ts eid] by (simp add: fresh_on_def) (simp add: make_event_def Let_def)

lemma stamp_event_Some:
  assumes "fresh_on H head e"
  obtains e' where "stamp_event H e st = Some e'" "fresh_on H head e'"
    "event_type e' = event_type e" "payload e' = payload e" "ev_agent_id e' = ev_agent_id e" "signing_failed e' = signing_failed e"
    "st = NoStamp \<Longrightarrow> e' = e"
    "caller_id e' = (case st of Verified cid _ _ \<Rightarrow> Some cid | _ \<Rightarrow> caller_id e)"
    "caller_ts e' = (case st of Verified _ cts _ \<Rightarrow> Some cts | _ \<Rightarrow> caller_ts e)"
    "caller_signature e' = (case st of Verified _ _ sg \<Rightarrow> Some sg | _ \<Rightarrow> caller_signature e)"
    "caller_unsigned e' = (case st of Unsigned \<Rightarrow> Some True | _ \<Rightarrow> caller_unsigned e)"
proof (cases "st = NoStamp")
  case True
  with assms show ?thesis by (intro that [of e]) (simp_all add: stamp_event_def)
next
  case False
  let ?f = "stamp_fields st e"
  let ?e = "?f\<lparr>ev_hash := compute_record_hash H (pop_key ''signature'' (pop_key ''hash'' (event_dump ?f)))\<rparr>"
  have some: "stamp_event H e st = Some ?e"
    using False assms by (simp add: stamp_event_def fresh_on_def Let_def)
  have "fresh_on H head ?e"
    unfolding fresh_on_def
    using resealed_hash [of H ?f] assms by (cases st) (auto simp: stamp_fields_def fresh_on_def)
  then show ?thesis using some False by (intro that [of ?e]) (auto simp: stamp_fields_def split: caller_stamp.split)
qed

text \<open>What sealing does to an event, by the ledger's configuration.\<close>

lemma seal_cases:
  assumes "fresh_on H head e" and "seal H sg cfg e = Inr r"
  obtains e' where "r = Some e'" "prev_hash e' = head" "compute_event_hash H e' = ev_hash e'"
    "event_type e' = event_type e" "payload e' = payload e" "ev_agent_id e' = ev_agent_id e"
    "caller_id e' = caller_id e" "caller_ts e' = caller_ts e" "caller_signature e' = caller_signature e"
    "caller_unsigned e' = caller_unsigned e"
    "signature e' = map_option (\<lambda>pem. sg pem (event_signing_bytes e)) (sc_private_key cfg)"
    "signing_failed e' = (if sc_private_key cfg = None \<and> sc_require cfg then Some True else signing_failed e)"
proof (cases "sc_private_key cfg")
  case (Some pem)
  have "compute_event_hash H (e\<lparr>signature := s\<rparr>) = compute_event_hash H e" for s
    by (simp add: compute_event_hash_bytes event_bytes_def hashed_record_event) (simp add: event_dump_def pop_key_def opt_item_def
        split: option.split)
  with Some assms show ?thesis by (intro that [of "sign_event sg e pem"]) (auto simp: seal_def sign_event_def fresh_on_def)
next
  case None
  show ?thesis
  proof (cases "sc_require cfg")
    case False
    with None assms show ?thesis by (intro that [of e]) (auto simp: seal_def fresh_on_def)
  next
    case True
    let ?f = "e\<lparr>signing_failed := Some True\<rparr>"
    let ?e = "?f\<lparr>ev_hash := compute_record_hash H (pop_key ''signature'' (pop_key ''hash'' (event_dump ?f)))\<rparr>"
    have "r = Some ?e"
      using None True assms
      by (auto simp: seal_def bindE_Inr_iff fresh_on_def flag_signing_failed_def Let_def)
    then show ?thesis
      using resealed_hash [of H ?f] assms(1) None True by (intro that [of ?e]) (auto simp: fresh_on_def)
  qed
qed


lemma check_caller_verified:
  assumes "check_caller cr p t pl a c now = Inr (Verified cid cts sg)"
  obtains ring pem at where "cp_keyring p = Some ring" "is_caller_id cid" "ring (cid @ ''.pub.pem'') = KeyText pem"
    "cr_public cr pem" "cr_verify cr pem (caller_signing_bytes t a (case pl of None \<Rightarrow> [] | Some d \<Rightarrow> d) cid cts) sg"
    "read_instant (cr_rd cr) cts = Some at" "now - CALLER_TS_MAX_AGE \<le> at" "at \<le> now + CALLER_TS_MAX_FUTURE"
proof -
  from assms have v: "verify_claim cr p t pl a (the c) now = Inr (Verified cid cts sg)"
    by (auto simp: check_caller_def split: if_splits sum.splits)
  from v obtain ring pem where r: "cp_keyring p = Some ring" "public_pem (cr_public cr) ring cid = Inr pem"
    "caller_ts_problem (cr_rd cr) (JStr cts) now = None"
    "cr_verify cr pem (caller_signing_bytes t a (case pl of None \<Rightarrow> [] | Some d \<Rightarrow> d) cid cts) sg"
    by (auto simp: verify_claim_def bindE_Inr_iff split: option.splits if_splits)
  from r(2) have "is_caller_id cid" "ring (cid @ ''.pub.pem'') = KeyText pem" "cr_public cr pem"
    by (auto simp: public_pem_def path_for_def split: option.splits keyring_file.splits if_splits)
  moreover from r(3) obtain at where "read_instant (cr_rd cr) cts = Some at" "now - CALLER_TS_MAX_AGE \<le> at"
    "at \<le> now + CALLER_TS_MAX_FUTURE"
    by (auto simp: caller_ts_problem_def Let_def split: option.splits if_splits)
  ultimately show ?thesis using that r(1,4) by blast
qed

lemma build_append_cases:
  assumes "build_append H cr cfg p w q head = Inr r"
  obtains st e where "r = Some e" "check_caller cr p (aq_type q) (aq_payload q) (aq_agent q) (aq_claim q) (aw_now w) = Inr st"
    "require_appendable cfg (aq_type q) = Inr ()"
    "prev_hash e = head" "compute_event_hash H e = ev_hash e" "event_type e = aq_type q"
    "payload e = (case aq_payload q of None \<Rightarrow> [] | Some d \<Rightarrow> d)" "ev_agent_id e = aq_agent q"
    "caller_id e = (case st of Verified cid _ _ \<Rightarrow> Some cid | _ \<Rightarrow> None)"
    "caller_ts e = (case st of Verified _ cts _ \<Rightarrow> Some cts | _ \<Rightarrow> None)"
    "caller_signature e = (case st of Verified _ _ sg \<Rightarrow> Some sg | _ \<Rightarrow> None)"
    "caller_unsigned e = (case st of Unsigned \<Rightarrow> Some True | _ \<Rightarrow> None)"
    "signature e = map_option (\<lambda>pem. cr_sign cr pem (event_signing_bytes e)) (sc_private_key cfg)"
    "signing_failed e = (if sc_private_key cfg = None \<and> sc_require cfg then Some True else None)"
proof -
  from assms obtain st where st: "check_caller cr p (aq_type q) (aq_payload q) (aq_agent q) (aq_claim q) (aw_now w) = Inr st"
    "require_appendable cfg (aq_type q) = Inr ()" and b: "build_event H cr cfg w q st head = Inr r"
    by (auto simp: build_append_def bindE_Inr_iff)
  let ?m = "make_event H (aw_fresh w) (aw_clock w) (aq_type q) (aq_payload q) head (aq_agent q) None None"
  have m: "event_type ?m = aq_type q" "payload ?m = (case aq_payload q of None \<Rightarrow> [] | Some d \<Rightarrow> d)"
    "ev_agent_id ?m = aq_agent q" "caller_id ?m = None" "caller_ts ?m = None" "caller_signature ?m = None"
    "caller_unsigned ?m = None" "signing_failed ?m = None"
    by (simp_all add: make_event_def Let_def)
  obtain s where s: "stamp_event H ?m st = Some s" "fresh_on H head s"
    "event_type s = event_type ?m" "payload s = payload ?m" "ev_agent_id s = ev_agent_id ?m"
    "signing_failed s = signing_failed ?m"
    "caller_id s = (case st of Verified cid _ _ \<Rightarrow> Some cid | _ \<Rightarrow> caller_id ?m)"
    "caller_ts s = (case st of Verified _ cts _ \<Rightarrow> Some cts | _ \<Rightarrow> caller_ts ?m)"
    "caller_signature s = (case st of Verified _ _ sg \<Rightarrow> Some sg | _ \<Rightarrow> caller_signature ?m)"
    "caller_unsigned s = (case st of Unsigned \<Rightarrow> Some True | _ \<Rightarrow> caller_unsigned ?m)"
    using made_fresh by (rule stamp_event_Some)
  from b s(1) have "seal H (cr_sign cr) cfg s = Inr r" by (simp add: build_event_def)
  with s(2) show ?thesis
  proof (rule seal_cases)
    fix e assume e: "r = Some e" "prev_hash e = head" "compute_event_hash H e = ev_hash e"
      "event_type e = event_type s" "payload e = payload s" "ev_agent_id e = ev_agent_id s"
      "caller_id e = caller_id s" "caller_ts e = caller_ts s" "caller_signature e = caller_signature s"
      "caller_unsigned e = caller_unsigned s"
      "signature e = map_option (\<lambda>pem. cr_sign cr pem (event_signing_bytes s)) (sc_private_key cfg)"
      "signing_failed e = (if sc_private_key cfg = None \<and> sc_require cfg then Some True else signing_failed s)"
    have "event_signing_bytes e = event_signing_bytes s" if "sc_private_key cfg = Some pem" for pem
    proof -
      have "e = s\<lparr>signature := signature e\<rparr>"
        using \<open>seal H (cr_sign cr) cfg s = Inr r\<close> e(1) that by (auto simp: seal_def sign_event_def)
      moreover have "event_signing_bytes (s\<lparr>signature := x\<rparr>) = event_signing_bytes s" for x
        by (simp add: event_signing_bytes_def event_dump_def pop_key_def opt_item_def split: option.split)
      ultimately show ?thesis by metis
    qed
    then have "signature e = map_option (\<lambda>pem. cr_sign cr pem (event_signing_bytes e)) (sc_private_key cfg)"
      using e(11) by (cases "sc_private_key cfg") simp_all
    then show ?thesis using e s m st by (intro that [of e st]) (simp_all split: caller_stamp.split)
  qed
qed

lemma build_event_total:
  assumes "require_appendable cfg (aq_type q) = Inr ()"
  shows "\<exists>e. build_event H cr cfg w q st head = Inr (Some e)"
proof -
  let ?m = "make_event H (aw_fresh w) (aw_clock w) (aq_type q) (aq_payload q) head (aq_agent q) None None"
  obtain s where s: "stamp_event H ?m st = Some s" "fresh_on H head s" "event_type s = event_type ?m"
    using made_fresh by (rule stamp_event_Some)
  have "event_type ?m = aq_type q" by (simp add: make_event_def Let_def)
  then show ?thesis
    using assms s by (auto simp: build_event_def seal_def fresh_on_def flag_signing_failed_def Let_def split: option.split)
qed

text \<open>C19: An event that names a caller was proven: the append's signature verifies, under that caller's
  public key in the keyring, over the very type, agent and payload the ledger stores, and its time is within
  the replay window. A claim that is not stored was a stop-type append under the require switch.\<close>

theorem stored_claims_are_verified:
  assumes "build_append H cr cfg p w q head = Inr (Some e)"
  shows "(case caller_id e of
      Some cid \<Rightarrow> (\<exists>ring pem cts sg at. cp_keyring p = Some ring \<and> is_caller_id cid
        \<and> ring (cid @ ''.pub.pem'') = KeyText pem \<and> cr_public cr pem
        \<and> caller_ts e = Some cts \<and> caller_signature e = Some sg
        \<and> cr_verify cr pem (caller_signing_bytes (event_type e) (ev_agent_id e) (payload e) cid cts) sg
        \<and> read_instant (cr_rd cr) cts = Some at
        \<and> aw_now w - CALLER_TS_MAX_AGE \<le> at \<and> at \<le> aw_now w + CALLER_TS_MAX_FUTURE)
    | None \<Rightarrow> no_claim (aq_claim q) \<or> cp_require p \<and> is_stop_type (event_type e) \<and> caller_unsigned e = Some True)"
  using assms
proof (rule build_append_cases)
  fix st e'
  assume e: "Some e = Some e'" and st: "check_caller cr p (aq_type q) (aq_payload q) (aq_agent q) (aq_claim q) (aw_now w) = Inr st"
    and f: "event_type e' = aq_type q" "payload e' = (case aq_payload q of None \<Rightarrow> [] | Some d \<Rightarrow> d)" "ev_agent_id e' = aq_agent q"
    "caller_id e' = (case st of Verified cid _ _ \<Rightarrow> Some cid | _ \<Rightarrow> None)"
    "caller_ts e' = (case st of Verified _ cts _ \<Rightarrow> Some cts | _ \<Rightarrow> None)"
    "caller_signature e' = (case st of Verified _ _ sg \<Rightarrow> Some sg | _ \<Rightarrow> None)"
    "caller_unsigned e' = (case st of Unsigned \<Rightarrow> Some True | _ \<Rightarrow> None)"
  show ?thesis
  proof (cases st)
    case (Verified cid cts sg)
    from check_caller_verified [OF st [unfolded Verified]] show ?thesis
      using e f Verified by simp metis
  next
    case NoStamp
    then show ?thesis using st e f
      by (auto simp: check_caller_def verify_claim_def bindE_Inr_iff split: if_splits sum.splits option.splits)
  next
    case Unsigned
    then show ?thesis using st e f
      by (auto simp: check_caller_def verify_claim_def bindE_Inr_iff split: if_splits sum.splits option.splits)
  qed
qed

text \<open>C20: A stop always gets in: a stop-type append whose claim is absent, or any claim at all under the
  require switch, is never refused for a key, whatever the state of the ledger's own key; without that key
  it is sealed as an event marked \<open>signing_failed\<close>, while every other type is refused.\<close>

theorem stops_are_never_refused:
  assumes "cp_require p \<or> no_claim (aq_claim q)"
  shows "if is_stop_type (aq_type q)
    then \<exists>e. build_append H cr cfg p w q head = Inr (Some e) \<and> event_type e = aq_type q \<and> prev_hash e = head
      \<and> compute_event_hash H e = ev_hash e
      \<and> (signing_failed e = Some True \<longleftrightarrow> \<not> appendable cfg) \<and> (signature e = None \<longleftrightarrow> sc_private_key cfg = None)
    else appendable cfg \<or> (\<exists>f. build_append H cr cfg p w q head = Inl f)"
proof (cases "is_stop_type (aq_type q)")
  case True
  have "\<exists>st. check_caller cr p (aq_type q) (aq_payload q) (aq_agent q) (aq_claim q) (aw_now w) = Inr st"
    using assms True by (auto simp: check_caller_def split: sum.split)
  moreover have r: "require_appendable cfg (aq_type q) = Inr ()" using True by (simp add: require_appendable_def)
  ultimately obtain st e0 where "check_caller cr p (aq_type q) (aq_payload q) (aq_agent q) (aq_claim q) (aw_now w) = Inr st"
    "build_event H cr cfg w q st head = Inr (Some e0)"
    using build_event_total [OF r, of H cr w _ head] by meson
  then have "build_append H cr cfg p w q head = Inr (Some e0)" using r by (simp add: build_append_def)
  then show ?thesis
  proof (rule build_append_cases, goal_cases)
    case (1 st e)
    with True \<open>build_append H cr cfg p w q head = Inr (Some e0)\<close> show ?case
      by (auto simp: appendable_def)
  qed
next
  case False
  then show ?thesis
    by (cases "check_caller cr p (aq_type q) (aq_payload q) (aq_agent q) (aq_claim q) (aw_now w)")
      (auto simp: build_append_def require_appendable_def)
qed


section \<open>The policies at work\<close>

text \<open>A toy signature: the key's text before the signed bytes.\<close>

definition sample_crypto :: crypto where
  "sample_crypto = \<lparr>cr_sign = (\<lambda>pem b. pem @ b), cr_verify = (\<lambda>pem b s. s = pem @ b), cr_public = (\<lambda>pem. pem = ''pub''),
     cr_rd = (\<lambda>s. if s = ''t0'' then Some (epoch, None) else None)\<rparr>"

definition sample_policy :: caller_policy where
  "sample_policy = \<lparr>cp_keyring = Some (\<lambda>f. if f = ''svc.pub.pem'' then KeyText ''pub'' else NoFile), cp_require = True\<rparr>"

definition no_key :: signing_config where
  "no_key = \<lparr>sc_private_key = None, sc_fingerprint = None, sc_key_error = None, sc_require = True\<rparr>"

definition sample_append_world :: append_world where
  "sample_append_world = \<lparr>aw_now = epoch, aw_fresh = ''id'', aw_clock = ''c''\<rparr>"

definition sample_append :: "string \<Rightarrow> append_request" where
  "sample_append t = \<lparr>aq_type = t, aq_payload = None, aq_agent = Some ''a1'', aq_claim = Some
     \<lparr>cl_id = JStr ''svc'', cl_ts = JStr ''t0'',
      cl_signature = JStr (''pub'' @ caller_signing_bytes t (Some ''a1'') [] ''svc'' ''t0'')\<rparr>\<rparr>"

lemma sample_claim_verified:
  "check_caller sample_crypto sample_policy ''kill.done'' None (Some ''a1'') (aq_claim (sample_append ''kill.done'')) epoch
     = Inr (Verified ''svc'' ''t0'' (''pub'' @ caller_signing_bytes ''kill.done'' (Some ''a1'') [] ''svc'' ''t0''))"
  by (simp add: check_caller_def no_claim_def sample_append_def verify_claim_def claim_text_def sample_policy_def
      sample_crypto_def public_pem_def path_for_def is_caller_id_def id_core_def id_char_def is_digit_def
      caller_ts_problem_def read_instant_def CALLER_TS_MAX_AGE_def CALLER_TS_MAX_FUTURE_def second_def)

lemma kill_is_stop: "is_stop_type ''kill.done''" "\<not> is_stop_type ''kill.''" "\<not> is_stop_type ''note''"
  by (simp_all add: is_stop_type_def STOP_EVENT_TYPES_def STOP_EVENT_PREFIX_def)

theorem stored_claims_are_verified_witness:
  "\<exists>e sg. build_append (\<lambda>b. b) sample_crypto no_key sample_policy sample_append_world (sample_append ''kill.done'') GENESIS_HASH
      = Inr (Some e) \<and> caller_signature e = Some sg
    \<and> sg = ''pub'' @ caller_signing_bytes (event_type e) (ev_agent_id e) (payload e) ''svc'' ''t0''"
proof -
  have r: "require_appendable no_key (aq_type (sample_append ''kill.done'')) = Inr ()"
    by (simp add: require_appendable_def sample_append_def kill_is_stop)
  have c: "check_caller sample_crypto sample_policy (aq_type (sample_append ''kill.done'')) (aq_payload (sample_append ''kill.done''))
      (aq_agent (sample_append ''kill.done'')) (aq_claim (sample_append ''kill.done'')) (aw_now sample_append_world)
     = Inr (Verified ''svc'' ''t0'' (''pub'' @ caller_signing_bytes ''kill.done'' (Some ''a1'') [] ''svc'' ''t0''))"
    using sample_claim_verified by (simp add: sample_append_def sample_append_world_def)
  with r build_event_total [OF r] obtain e where e: "build_append (\<lambda>b. b) sample_crypto no_key sample_policy
      sample_append_world (sample_append ''kill.done'') GENESIS_HASH = Inr (Some e)"
    by (simp add: build_append_def) blast
  from e have "caller_id e = Some ''svc''" "caller_ts e = Some ''t0''"
    by (rule build_append_cases, use c in simp)+
  with stored_claims_are_verified [OF e] have "\<exists>sg. caller_signature e = Some sg
      \<and> sg = ''pub'' @ caller_signing_bytes (event_type e) (ev_agent_id e) (payload e) ''svc'' ''t0''"
    by (auto simp: sample_policy_def sample_crypto_def split: if_splits)
  with e show ?thesis by blast
qed

text \<open>The same stop with a claim under a key the keyring does not hold.\<close>

theorem stops_are_never_refused_witness:
  "\<exists>e. build_append (\<lambda>b. b) sample_crypto no_key (sample_policy\<lparr>cp_keyring := None\<rparr>) sample_append_world
      (sample_append ''kill.done'') GENESIS_HASH = Inr (Some e) \<and> signing_failed e = Some True"
proof -
  have "cp_require (sample_policy\<lparr>cp_keyring := None\<rparr>) \<or> no_claim (aq_claim (sample_append ''kill.done''))"
    by (simp add: sample_policy_def)
  from stops_are_never_refused [OF this, of "\<lambda>b. b" sample_crypto no_key sample_append_world GENESIS_HASH] show ?thesis
    by (auto simp: sample_append_def kill_is_stop appendable_def no_key_def)
qed

end
