(* ===== verification/Segment_Journal.thy ===== *)
theory Segment_Journal
  imports Append_Policy
begin

text \<open>
  The layout of a rotated ledger and its verification: \<open>services/sealed-ledger/src/sealed_ledger/store.py\<close>,
  from the segments journal (\<open>parse_journal\<close>) through the segments it describes (\<open>resolve_layout\<close>) to the walk
  over them (\<open>Snapshot.verify\<close>).

  A file is its lines as \<open>json.loads\<close> reads them: the ones that a line break ends, and what follows the last
  break. \<open>LedgerEvent.model_validate\<close> is Pydantic's and is the argument \<open>validate\<close>; the sha-256 of a file's
  bytes is the argument \<open>digest\<close>. The texts of the reasons are the constructors of \<open>store_break\<close>.
\<close>

section \<open>Files\<close>

datatype file_line = Blank | Garbage | Doc json

record text_file =
  tf_lines :: "file_line list"
  tf_tail :: "file_line option"

definition all_lines :: "text_file \<Rightarrow> file_line list" where
  "all_lines f = tf_lines f @ (case tf_tail f of None \<Rightarrow> [] | Some l \<Rightarrow> [l])"

definition empty_file :: text_file where
  "empty_file = \<lparr>tf_lines = [], tf_tail = None\<rparr>"

text \<open>
  Writing one line at the end of a file. What was not ended by a line break becomes one line with it, and
  two JSON documents on one line are not one.
\<close>

definition join_line :: "file_line \<Rightarrow> file_line \<Rightarrow> file_line" where
  "join_line t l = (case t of Blank \<Rightarrow> l | Garbage \<Rightarrow> Garbage | Doc _ \<Rightarrow> if l = Blank then t else Garbage)"

definition add_line :: "file_line \<Rightarrow> text_file \<Rightarrow> text_file" where
  "add_line l f = (case tf_tail f of
     None \<Rightarrow> f\<lparr>tf_lines := tf_lines f @ [l]\<rparr>
   | Some t \<Rightarrow> \<lparr>tf_lines = tf_lines f @ [join_line t l], tf_tail = None\<rparr>)"

text \<open>A write that stopped half way: what is there of a JSON object is not JSON.\<close>

definition tear_line :: "text_file \<Rightarrow> text_file" where
  "tear_line f = f\<lparr>tf_tail := Some Garbage\<rparr>"

type_synonym validator = "json \<Rightarrow> ledger_event option"

text \<open>\<open>_parse_events\<close>: None where a line raises.\<close>

fun events_of_lines :: "validator \<Rightarrow> file_line list \<Rightarrow> ledger_event list option" where
  "events_of_lines validate [] = Some []"
| "events_of_lines validate (Blank # ls) = events_of_lines validate ls"
| "events_of_lines validate (Garbage # ls) = None"
| "events_of_lines validate (Doc j # ls) = (case validate j of None \<Rightarrow> None
     | Some e \<Rightarrow> map_option ((#) e) (events_of_lines validate ls))"

definition parse_events :: "validator \<Rightarrow> text_file \<Rightarrow> ledger_event list option" where
  "parse_events validate f = events_of_lines validate (all_lines f)"

text \<open>\<open>_parse_events_located\<close>: the events before the first line that does not parse, and its index.\<close>

fun locate_lines :: "validator \<Rightarrow> nat \<Rightarrow> file_line list \<Rightarrow> ledger_event list \<times> nat option" where
  "locate_lines validate i [] = ([], None)"
| "locate_lines validate i (Blank # ls) = locate_lines validate i ls"
| "locate_lines validate i (Garbage # ls) = ([], Some i)"
| "locate_lines validate i (Doc j # ls) = (case validate j of None \<Rightarrow> ([], Some i)
     | Some e \<Rightarrow> (case locate_lines validate (Suc i) ls of (es, bad) \<Rightarrow> (e # es, bad)))"

definition parse_events_located :: "validator \<Rightarrow> text_file \<Rightarrow> ledger_event list \<times> nat option" where
  "parse_events_located validate f = locate_lines validate 0 (all_lines f)"

section \<open>Names\<close>

text \<open>\<open>Path.stem\<close> and \<open>Path.suffix\<close> of a plain name: the last dot that is neither first nor last.\<close>

fun last_dot :: "nat \<Rightarrow> string \<Rightarrow> nat option" where
  "last_dot i [] = None"
| "last_dot i (c # s) = (case last_dot (Suc i) s of Some k \<Rightarrow> Some k
     | None \<Rightarrow> if c = CHR ''.'' then Some i else None)"

definition suffix_at :: "string \<Rightarrow> nat" where
  "suffix_at name = (case last_dot 0 name of None \<Rightarrow> length name
     | Some k \<Rightarrow> if 0 < k \<and> Suc k < length name then k else length name)"

definition stem :: "string \<Rightarrow> string" where "stem name = take (suffix_at name) name"
definition suffix :: "string \<Rightarrow> string" where "suffix name = drop (suffix_at name) name"

definition journal_path_for :: "string \<Rightarrow> string" where
  "journal_path_for p = stem p @ ''.segments.journal''"

definition closed_path_for :: "string \<Rightarrow> int \<Rightarrow> string" where
  "closed_path_for p n = stem p @ ''-'' @ dec_int n @ suffix p"

definition rotating_tmp_for :: "string \<Rightarrow> string" where
  "rotating_tmp_for p = ''.'' @ p @ ''.rotating''"

text \<open>A name that is a path of one component: \<open>Path(name).name == name\<close>.\<close>

definition plain_name :: "string \<Rightarrow> bool" where
  "plain_name s = (s \<noteq> [] \<and> CHR ''/'' \<notin> set s \<and> s \<noteq> ''.'')"

section \<open>The journal\<close>

datatype field_kind = KStr | KInt | KDict

definition OP_SCHEMA :: "(string \<times> (string \<times> field_kind) list) list" where
  "OP_SCHEMA =
     [(''rotate-intent'', [(''format'', KStr), (''n'', KInt), (''file'', KStr), (''start_index'', KInt),
        (''end_index'', KInt), (''genesis_prev_hash'', KStr), (''head_hash'', KStr), (''anchor'', KDict),
        (''rotation_event'', KDict)]),
      (''rotate-commit'', [(''n'', KInt), (''rotation_event_hash'', KStr), (''closed_at'', KStr)]),
      (''rotate-abort'', [(''n'', KInt)]),
      (''archive'', [(''n'', KInt), (''file'', KStr), (''archived_to'', KStr), (''sidecar'', KStr),
        (''sha256'', KStr), (''at'', KStr)])]"

definition JOURNAL_FORMAT :: string where "JOURNAL_FORMAT = ''field-ledger-segments/1''"

fun of_kind :: "field_kind \<Rightarrow> json \<Rightarrow> bool" where
  "of_kind KStr (JStr _) = True"
| "of_kind KInt (JInt _) = True"
| "of_kind KDict (JObj _) = True"
| "of_kind _ _ = False"

definition check_record :: "string \<Rightarrow> py_dict \<Rightarrow> bool" where
  "check_record oper rec =
     (case map_of OP_SCHEMA oper of None \<Rightarrow> False
      | Some fs \<Rightarrow>
        list_all (\<lambda>(k, kind). case map_of rec k of None \<Rightarrow> False | Some v \<Rightarrow> of_kind kind v) fs
        \<and> (case map_of rec ''file'' of Some (JStr s) \<Rightarrow> plain_name s | Some _ \<Rightarrow> False | None \<Rightarrow> True)
        \<and> (oper = ''rotate-intent'' \<longrightarrow> (case map_of rec ''rotation_event'' of
              Some (JObj ev) \<Rightarrow> (case map_of ev ''hash'' of Some (JStr _) \<Rightarrow> True | _ \<Rightarrow> False) | _ \<Rightarrow> False)))"

text \<open>Reading a checked field.\<close>

definition str_at :: "string \<Rightarrow> py_dict \<Rightarrow> string" where
  "str_at k d = (case map_of d k of Some (JStr s) \<Rightarrow> s | _ \<Rightarrow> [])"

definition int_at :: "string \<Rightarrow> py_dict \<Rightarrow> int" where
  "int_at k d = (case map_of d k of Some (JInt i) \<Rightarrow> i | _ \<Rightarrow> 0)"

definition dict_at :: "string \<Rightarrow> py_dict \<Rightarrow> py_dict" where
  "dict_at k d = (case map_of d k of Some (JObj q) \<Rightarrow> q | _ \<Rightarrow> [])"

text \<open>
  A journal entry: an intent's fields, and what a commit and an archive record add. A field an operation
  does not check is kept as the record has it: an intent may already carry \<open>archived_to\<close>.
\<close>

record seg_entry =
  en_n :: int
  en_file :: string
  en_start :: int
  en_end :: int
  en_genesis :: string
  en_head :: string
  en_anchor :: py_dict
  en_rotation :: py_dict
  en_closed_at :: "json option"
  en_archived_to :: "json option"
  en_archived_sha :: "json option"

definition rot_hash :: "seg_entry \<Rightarrow> string" where
  "rot_hash e = str_at ''hash'' (en_rotation e)"

fun truthy :: "json \<Rightarrow> bool" where
  "truthy JNull = False"
| "truthy (JBool b) = b"
| "truthy (JInt i) = (i \<noteq> 0)"
| "truthy (JFloat r) = (r \<notin> {''0.0'', ''-0.0''})"
| "truthy (JStr s) = (s \<noteq> [])"
| "truthy (JArr xs) = (xs \<noteq> [])"
| "truthy (JObj d) = (d \<noteq> [])"

definition archived :: "seg_entry \<Rightarrow> bool" where
  "archived e = (case en_archived_to e of None \<Rightarrow> False | Some v \<Rightarrow> truthy v)"

definition intent_entry :: "py_dict \<Rightarrow> seg_entry" where
  "intent_entry rec = \<lparr>en_n = int_at ''n'' rec, en_file = str_at ''file'' rec, en_start = int_at ''start_index'' rec,
     en_end = int_at ''end_index'' rec, en_genesis = str_at ''genesis_prev_hash'' rec, en_head = str_at ''head_hash'' rec,
     en_anchor = dict_at ''anchor'' rec, en_rotation = dict_at ''rotation_event'' rec,
     en_closed_at = map_of rec ''closed_at'', en_archived_to = map_of rec ''archived_to'',
     en_archived_sha = map_of rec ''archived_sha256''\<rparr>"

text \<open>One operation on the closed entries and the pending intent; None is a record that breaks the rules.\<close>

fun archive_first :: "py_dict \<Rightarrow> seg_entry list \<Rightarrow> seg_entry list option" where
  "archive_first rec [] = None"
| "archive_first rec (e # es) =
     (if archived e then map_option ((#) e) (archive_first rec es)
      else if int_at ''n'' rec \<noteq> en_n e \<or> str_at ''file'' rec \<noteq> en_file e then None
      else Some (e\<lparr>en_archived_to := map_of rec ''archived_to'', en_archived_sha := map_of rec ''sha256''\<rparr> # es))"

definition next_start :: "seg_entry list \<Rightarrow> int" where
  "next_start cs = (if cs = [] then 0 else en_end (last cs) + 1)"

definition next_genesis :: "seg_entry list \<Rightarrow> string" where
  "next_genesis cs = (if cs = [] then GENESIS_HASH else en_head (last cs))"

definition next_n :: "seg_entry list \<Rightarrow> int" where
  "next_n cs = (if cs = [] then 1 else en_n (last cs) + 1)"

definition journal_op :: "py_dict \<Rightarrow> seg_entry list \<Rightarrow> seg_entry option
    \<Rightarrow> (seg_entry list \<times> seg_entry option) option" where
  "journal_op rec closed pending =
     (let oper = str_at ''op'' rec in
      if map_of rec ''op'' \<noteq> Some (JStr oper) \<or> \<not> check_record oper rec then None
      else if oper = ''rotate-intent'' then
        let e = intent_entry rec in
        if str_at ''format'' rec \<noteq> JOURNAL_FORMAT \<or> pending \<noteq> None \<or> en_n e \<noteq> next_n closed
           \<or> en_start e \<noteq> next_start closed \<or> en_end e < en_start e \<or> en_genesis e \<noteq> next_genesis closed
        then None else Some (closed, Some e)
      else if oper = ''rotate-commit'' then
        (case pending of None \<Rightarrow> None
         | Some e \<Rightarrow> if int_at ''n'' rec \<noteq> en_n e \<or> str_at ''rotation_event_hash'' rec \<noteq> rot_hash e then None
             else Some (closed @ [e\<lparr>en_closed_at := map_of rec ''closed_at''\<rparr>], None))
      else if oper = ''rotate-abort'' then
        (case pending of None \<Rightarrow> None
         | Some e \<Rightarrow> if int_at ''n'' rec \<noteq> en_n e then None else Some (closed, None))
      else if pending \<noteq> None then None
      else map_option (\<lambda>cs. (cs, None)) (archive_first rec closed))"

record journal_state =
  js_present :: bool
  js_whole :: bool
  js_closed :: "seg_entry list"
  js_pending :: "seg_entry option"
  js_error :: "nat option"

text \<open>
  The complete lines, in order, up to the first that is not a record or breaks the rules (its number is the
  error). \<open>js_whole\<close> is \<open>len(raw) == valid_len\<close>: no error and no torn tail.
\<close>

fun journal_lines :: "nat \<Rightarrow> file_line list \<Rightarrow> seg_entry list \<Rightarrow> seg_entry option
    \<Rightarrow> seg_entry list \<times> seg_entry option \<times> nat option" where
  "journal_lines i [] closed pending = (closed, pending, None)"
| "journal_lines i (Blank # ls) closed pending = journal_lines (Suc i) ls closed pending"
| "journal_lines i (Doc (JObj rec) # ls) closed pending =
     (case journal_op rec closed pending of
        None \<Rightarrow> (closed, pending, Some i)
      | Some (c, p) \<Rightarrow> journal_lines (Suc i) ls c p)"
| "journal_lines i (_ # ls) closed pending = (closed, pending, Some i)"

definition parse_journal :: "text_file option \<Rightarrow> journal_state" where
  "parse_journal raw =
     (case raw of
        None \<Rightarrow> \<lparr>js_present = False, js_whole = True, js_closed = [], js_pending = None, js_error = None\<rparr>
      | Some f \<Rightarrow> (case journal_lines 1 (tf_lines f) [] None of (c, p, err) \<Rightarrow>
          \<lparr>js_present = True, js_whole = (err = None \<and> tf_tail f = None), js_closed = c, js_pending = p, js_error = err\<rparr>))"

section \<open>The layout\<close>

record seg_view =
  sv_number :: int
  sv_closed :: bool
  sv_path :: string
  sv_start :: int
  sv_genesis :: string
  sv_count :: "int option"
  sv_head :: "string option"
  sv_first :: "string option"
  sv_must_exist :: bool
  sv_pred :: "seg_entry option"

record layout =
  ly_segmented :: bool
  ly_segs :: "seg_view list"
  ly_watch :: "string list"
  ly_journal :: journal_state
  ly_error :: "nat option"
  ly_archived :: "seg_entry list"

definition closed_view :: "seg_entry option \<Rightarrow> string \<Rightarrow> seg_entry \<Rightarrow> seg_view" where
  "closed_view prev prev_head e = \<lparr>sv_number = en_n e, sv_closed = True, sv_path = en_file e, sv_start = en_start e,
     sv_genesis = prev_head, sv_count = Some (en_end e - en_start e + 1), sv_head = Some (en_head e),
     sv_first = map_option rot_hash prev, sv_must_exist = True, sv_pred = prev\<rparr>"

text \<open>The loop over the closed entries: their views, and the archived ones, which are not read.\<close>

fun closed_views :: "seg_entry list \<Rightarrow> seg_entry option \<Rightarrow> string \<Rightarrow> seg_view list \<times> seg_entry list" where
  "closed_views [] prev prev_head = ([], [])"
| "closed_views (e # es) prev prev_head =
     (case closed_views es (Some e) (en_head e) of (segs, arch) \<Rightarrow>
        if archived e then (segs, e # arch) else (closed_view prev prev_head e # segs, arch))"

definition last_entry :: "seg_entry list \<Rightarrow> seg_entry option" where
  "last_entry cs = (if cs = [] then None else Some (last cs))"

definition single_view :: "string \<Rightarrow> seg_view" where
  "single_view p = \<lparr>sv_number = 1, sv_closed = False, sv_path = p, sv_start = 0, sv_genesis = GENESIS_HASH,
     sv_count = None, sv_head = None, sv_first = None, sv_must_exist = False, sv_pred = None\<rparr>"

definition resolve_layout :: "string \<Rightarrow> journal_state \<Rightarrow> (string \<Rightarrow> bool) \<Rightarrow> layout" where
  "resolve_layout p js exists =
     (if \<not> js_present js
      then \<lparr>ly_segmented = False, ly_segs = [single_view p], ly_watch = [p], ly_journal = js, ly_error = None, ly_archived = []\<rparr>
      else
        let closed = js_closed js;
            (segs, arch) = closed_views closed None GENESIS_HASH;
            renamed = (case js_pending js of None \<Rightarrow> False | Some e \<Rightarrow> exists (en_file e));
            upto = (if renamed then closed @ [the (js_pending js)] else closed);
            segs' = (if renamed then segs @ [closed_view (last_entry closed) (next_genesis closed) (the (js_pending js))] else segs);
            number = (if segs' \<noteq> [] then sv_number (last segs') + 1 else if arch \<noteq> [] then en_n (last arch) + 1 else 1);
            must = (case js_pending js of None \<Rightarrow> closed \<noteq> [] | Some _ \<Rightarrow> \<not> renamed);
            opened = \<lparr>sv_number = number, sv_closed = False, sv_path = p, sv_start = next_start upto,
              sv_genesis = next_genesis upto, sv_count = None, sv_head = None,
              sv_first = map_option rot_hash (last_entry upto), sv_must_exist = must, sv_pred = last_entry upto\<rparr>
        in \<lparr>ly_segmented = (closed \<noteq> [] \<or> js_error js \<noteq> None \<or> renamed), ly_segs = segs' @ [opened],
            ly_watch = p # (case js_pending js of None \<Rightarrow> [] | Some e \<Rightarrow> [en_file e]),
            ly_journal = js, ly_error = js_error js, ly_archived = arch\<rparr>)"


section \<open>Verification\<close>

datatype store_break =
    ChainBreak chain_break
  | Unparseable
  | FileMissing
  | SegmentEmpty
  | NotTheRotationEvent
  | NotClosing int
  | JournalDisagrees "string list"
  | WrongLength int nat
  | WrongHead
  | JournalLine nat
  | WrongBytes
  | NoEvidence

record store_verification =
  st_ok :: bool
  st_length :: int
  st_break :: "int option"
  st_reason :: "store_break option"
  st_segments :: "nat option"
  st_archived :: "nat option"
  st_walked :: "nat option"
  st_break_segment :: "int option"

text \<open>\<open>_verify_segment\<close>: the local indices of \<open>verify_chain\<close> made global.\<close>

definition verify_segment :: "(string \<Rightarrow> string) \<Rightarrow> ledger_event list \<Rightarrow> string \<Rightarrow> int
    \<Rightarrow> (int \<times> chain_break option) option" where
  "verify_segment H es genesis start =
     (let res = verify_chain H es genesis in
      if cv_ok res then None
      else Some (start + int (case first_break_index res of None \<Rightarrow> 0 | Some i \<Rightarrow> i), cv_reason res))"

text \<open>\<open>_journal_vs_rotation_event\<close>: the fields of an entry that the event closing it repeats.\<close>

definition ROTATION_EVENT_TYPE :: string where "ROTATION_EVENT_TYPE = ''ledger.segment.rotated''"
definition RETENTION_EVENT_TYPE :: string where "RETENTION_EVENT_TYPE = ''ledger.retention.applied''"

definition entry_fields :: "seg_entry \<Rightarrow> (string \<times> json) list" where
  "entry_fields e = [(''start_index'', JInt (en_start e)), (''end_index'', JInt (en_end e)), (''head_hash'', JStr (en_head e)),
     (''genesis_prev_hash'', JStr (en_genesis e)), (''file'', JStr (en_file e)), (''anchor'', JObj (en_anchor e))]"

text \<open>
  Python's \<open>==\<close> on decoded values: \<open>True\<close> is 1 and \<open>1.0\<close> is 1, and the order of keys does not count. (A float
  too large for a plain numeral is compared by its text.)
\<close>

definition whole_float :: "string \<Rightarrow> int option" where
  "whole_float r =
     (let digits = (if r \<noteq> [] \<and> hd r = CHR ''-'' then tl r else r); d = takeWhile is_digit digits in
      if d \<noteq> [] \<and> drop (length d) digits = ''.0''
      then Some (if digits = r then int (dec_val d) else - int (dec_val d)) else None)"

fun py_number :: "json \<Rightarrow> json" where
  "py_number (JBool b) = JInt (if b then 1 else 0)"
| "py_number (JFloat r) = (case whole_float r of Some i \<Rightarrow> JInt i | None \<Rightarrow> JFloat r)"
| "py_number (JArr xs) = JArr (map py_number xs)"
| "py_number (JObj kvs) = JObj (map (\<lambda>(k, v). (k, py_number v)) kvs)"
| "py_number j = j"

definition py_eq :: "json \<Rightarrow> json \<Rightarrow> bool" where
  "py_eq v w = (sort_keys (py_number v) = sort_keys (py_number w))"

definition same_json :: "json \<Rightarrow> json option \<Rightarrow> bool" where
  "same_json v w = (case w of None \<Rightarrow> False | Some u \<Rightarrow> py_eq u v)"

definition journal_vs_rotation_event :: "seg_entry option \<Rightarrow> ledger_event \<Rightarrow> store_break option" where
  "journal_vs_rotation_event entry ev =
     (case entry of None \<Rightarrow> None
      | Some e \<Rightarrow>
        if event_type ev \<noteq> ROTATION_EVENT_TYPE \<or> \<not> same_json (JInt (en_n e)) (map_of (payload ev) ''segment_closed'')
        then Some (NotClosing (en_n e))
        else let bad = map fst (filter (\<lambda>(k, v). \<not> same_json v (map_of (payload ev) k)) (entry_fields e))
             in if bad = [] then None else Some (JournalDisagrees bad))"

text \<open>
  A segment as the walk has it: its view, its events (None where its file is missing) and the index of its
  first line that does not parse. The checks of one segment, in order; the number is the global index.
\<close>

type_synonym seg_read = "seg_view \<times> ledger_event list option \<times> nat option"

definition check_opening :: "seg_view \<Rightarrow> ledger_event list \<Rightarrow> (int \<times> store_break) option" where
  "check_opening seg es =
     (case sv_first seg of None \<Rightarrow> None
      | Some h \<Rightarrow> (case es of
          [] \<Rightarrow> Some (sv_start seg, SegmentEmpty)
        | e # _ \<Rightarrow> if ev_hash e \<noteq> h then Some (sv_start seg, NotTheRotationEvent)
            else map_option (\<lambda>b. (sv_start seg, b)) (journal_vs_rotation_event (sv_pred seg) e)))"

definition check_closed :: "seg_view \<Rightarrow> ledger_event list \<Rightarrow> (int \<times> store_break) option" where
  "check_closed seg es =
     (if \<not> sv_closed seg then None
      else let expected = (case sv_count seg of None \<Rightarrow> 0 | Some n \<Rightarrow> n) in
        if int (length es) \<noteq> expected
        then Some (sv_start seg + min (int (length es)) expected, WrongLength expected (length es))
        else if Some (ev_hash (last es)) \<noteq> sv_head seg
        then Some (sv_start seg + int (length es) - 1, WrongHead) else None)"

definition check_segment :: "(string \<Rightarrow> string) \<Rightarrow> seg_view \<Rightarrow> ledger_event list \<Rightarrow> nat option
    \<Rightarrow> (int \<times> store_break) option" where
  "check_segment H seg es bad =
     (case verify_segment H es (sv_genesis seg) (sv_start seg) of
        Some (i, why) \<Rightarrow> Some (i, ChainBreak (the why))
      | None \<Rightarrow>
        (case bad of
           Some k \<Rightarrow> if k = 0 \<or> sv_first seg = None then Some (sv_start seg + int k, Unparseable)
             else (case check_opening seg es of Some b \<Rightarrow> Some b | None \<Rightarrow> Some (sv_start seg + int k, Unparseable))
         | None \<Rightarrow> (case check_opening seg es of Some b \<Rightarrow> Some b | None \<Rightarrow> check_closed seg es)))"

text \<open>The walk: the events it went through, and the first break with its segment.\<close>

fun walk_segments :: "(string \<Rightarrow> string) \<Rightarrow> nat \<Rightarrow> seg_read list \<Rightarrow> nat \<times> (int \<times> int \<times> store_break) option" where
  "walk_segments H n [] = (n, None)"
| "walk_segments H n ((seg, None, bad) # rest) =
     (if sv_must_exist seg then (n, Some (sv_number seg, sv_start seg, FileMissing)) else walk_segments H n rest)"
| "walk_segments H n ((seg, Some es, bad) # rest) =
     (case check_segment H seg es bad of
        Some (i, why) \<Rightarrow> (n + length es, Some (sv_number seg, i, why))
      | None \<Rightarrow> walk_segments H (n + length es) rest)"

text \<open>A snapshot: what was read of each live segment.\<close>

definition read_segment :: "validator \<Rightarrow> (string \<Rightarrow> text_file option) \<Rightarrow> seg_view \<Rightarrow> seg_read" where
  "read_segment validate read_file seg =
     (case read_file (sv_path seg) of None \<Rightarrow> (seg, None, None)
      | Some f \<Rightarrow> (case parse_events_located validate f of (es, bad) \<Rightarrow> (seg, Some es, bad)))"

definition seg_events :: "seg_read \<Rightarrow> ledger_event list" where
  "seg_events r = (case fst (snd r) of None \<Rightarrow> [] | Some es \<Rightarrow> es)"

definition live_events :: "seg_read list \<Rightarrow> ledger_event list" where
  "live_events rs = concat (map seg_events rs)"

text \<open>\<open>all_events\<close> of a strict snapshot; None where a line does not parse.\<close>

fun all_events :: "validator \<Rightarrow> (string \<Rightarrow> text_file option) \<Rightarrow> seg_view list \<Rightarrow> ledger_event list option" where
  "all_events validate read_file [] = Some []"
| "all_events validate read_file (seg # segs) =
     (case (case read_file (sv_path seg) of None \<Rightarrow> Some [] | Some f \<Rightarrow> parse_events validate f) of None \<Rightarrow> None
      | Some es \<Rightarrow> map_option ((@) es) (all_events validate read_file segs))"

definition grow_length :: "seg_read \<Rightarrow> int \<Rightarrow> int" where
  "grow_length r n = (case fst (snd r) of Some xs \<Rightarrow> max n (sv_start (fst r) + int (length xs))
     | None \<Rightarrow> if sv_closed (fst r) then max n (sv_start (fst r) + (case sv_count (fst r) of None \<Rightarrow> 0 | Some c \<Rightarrow> c)) else n)"

definition global_length :: "layout \<Rightarrow> seg_read list \<Rightarrow> int" where
  "global_length ly rs = fold grow_length rs (if ly_archived ly = [] then 0 else en_end (last (ly_archived ly)) + 1)"

text \<open>The archive evidence of the live chain: the sha-256 digests the retention events name for a segment.\<close>

definition evidence_item :: "json \<Rightarrow> (int \<times> string) option" where
  "evidence_item j = (case j of JObj d \<Rightarrow>
       (case (map_of d ''n'', map_of d ''sha256'') of (Some (JInt n), Some (JStr h)) \<Rightarrow> Some (n, h) | _ \<Rightarrow> None)
     | _ \<Rightarrow> None)"

definition event_evidence :: "ledger_event \<Rightarrow> (int \<times> string) list" where
  "event_evidence e =
     (if event_type e \<noteq> RETENTION_EVENT_TYPE then []
      else case map_of (payload e) ''archive_evidence'' of
        Some (JArr xs) \<Rightarrow> List.map_filter evidence_item xs | _ \<Rightarrow> [])"

definition archive_evidence :: "ledger_event list \<Rightarrow> (int \<times> string) list" where
  "archive_evidence es = concat (map event_evidence es)"

text \<open>
  \<open>event_evidenced_archives\<close> reads \<open>e["archived_sha256"]\<close>, which raises \<open>KeyError\<close> (None) for an entry that has
  \<open>archived_to\<close> without it; a value that cannot be hashed raises when it is looked up in a set.
\<close>

fun event_evidenced :: "(int \<times> string) list \<Rightarrow> seg_entry list \<Rightarrow> (int \<times> string) list option" where
  "event_evidenced named [] = Some []"
| "event_evidenced named (e # es) =
     (case en_archived_sha e of None \<Rightarrow> None
      | Some v \<Rightarrow>
        if en_n e \<in> fst ` set named \<and> (case v of JArr _ \<Rightarrow> True | JObj _ \<Rightarrow> True | _ \<Rightarrow> False) then None
        else map_option (\<lambda>rest. (case v of JStr h \<Rightarrow> if (en_n e, h) \<in> set named then [(en_n e, h)] else [] | _ \<Rightarrow> []) @ rest)
          (event_evidenced named es))"

text \<open>\<open>_closed_bytes_problem\<close>: whether a file is exactly the closed segment an entry describes.\<close>

definition closed_bytes_problem :: "(string \<Rightarrow> string) \<Rightarrow> (text_file \<Rightarrow> string) \<Rightarrow> validator \<Rightarrow> text_file \<Rightarrow> seg_entry
    \<Rightarrow> string \<Rightarrow> json option \<Rightarrow> (int \<times> store_break) option" where
  "closed_bytes_problem H digest validate f e genesis sha =
     (case parse_events validate f of None \<Rightarrow> Some (en_start e, Unparseable)
      | Some es \<Rightarrow>
        (case verify_segment H es genesis (en_start e) of Some (i, why) \<Rightarrow> Some (i, ChainBreak (the why))
         | None \<Rightarrow>
           let expected = en_end e - en_start e + 1 in
           if int (length es) \<noteq> expected
           then Some (en_start e + min (int (length es)) expected, WrongLength expected (length es))
           else if ev_hash (last es) \<noteq> en_head e then Some (en_end e, WrongHead)
           else if sha \<notin> {None, Some JNull} \<and> sha \<noteq> Some (JStr (digest f)) then Some (en_start e, WrongBytes)
           else None))"

definition head_before :: "seg_entry list \<Rightarrow> int \<Rightarrow> string" where
  "head_before cs n = (case find (\<lambda>e. en_n e = n - 1) (rev cs) of None \<Rightarrow> GENESIS_HASH | Some e \<Rightarrow> en_head e)"

text \<open>
  \<open>_verify_archived\<close>: every archived entry by its own evidence. \<open>read_file\<close> reads a name in the ledger
  directory, \<open>read_path\<close> any path; a path that is not text raises (None).
\<close>

fun verify_archived :: "(string \<Rightarrow> string) \<Rightarrow> (text_file \<Rightarrow> string) \<Rightarrow> validator \<Rightarrow> (string \<Rightarrow> text_file option)
    \<Rightarrow> (string \<Rightarrow> text_file option) \<Rightarrow> seg_entry list \<Rightarrow> (int \<times> string) list \<Rightarrow> seg_entry list
    \<Rightarrow> (int \<times> int \<times> store_break) option option" where
  "verify_archived H digest validate read_file read_path all_closed evid [] = Some None"
| "verify_archived H digest validate read_file read_path all_closed evid (e # es) =
     (let evidenced = en_n e \<in> fst ` set evid;
          genesis = head_before all_closed (en_n e);
          judge = (\<lambda>f. map_option (\<lambda>(i, why). (en_n e, i, why))
              (closed_bytes_problem H digest validate f e genesis (en_archived_sha e)));
          onward = verify_archived H digest validate read_file read_path all_closed evid es
      in if \<not> evidenced \<and> (case en_archived_to e of Some (JStr _) \<Rightarrow> False | _ \<Rightarrow> True) then None
         else case read_file (en_file e) of
           Some f \<Rightarrow> (case judge f of Some b \<Rightarrow> Some (Some b) | None \<Rightarrow> onward)
         | None \<Rightarrow>
           if evidenced then onward
           else case (case en_archived_to e of Some (JStr p) \<Rightarrow> read_path p | _ \<Rightarrow> None) of
             Some f \<Rightarrow> (case judge f of Some b \<Rightarrow> Some (Some b) | None \<Rightarrow> onward)
           | None \<Rightarrow> Some (Some (en_n e, en_start e, NoEvidence)))"

definition broken_at :: "layout \<Rightarrow> nat \<Rightarrow> int \<Rightarrow> int \<Rightarrow> store_break \<Rightarrow> store_verification" where
  "broken_at ly walked number index why = \<lparr>st_ok = False, st_length = index + 1, st_break = Some index,
     st_reason = Some why, st_segments = Some (length (ly_segs ly)), st_archived = Some (length (ly_archived ly)),
     st_walked = Some walked, st_break_segment = Some number\<rparr>"

text \<open>The pre-rotation result for a ledger of one file.\<close>

definition verify_single :: "(string \<Rightarrow> string) \<Rightarrow> seg_read list \<Rightarrow> store_verification" where
  "verify_single H rs =
     (let es = (case rs of [] \<Rightarrow> [] | r # _ \<Rightarrow> seg_events r);
          bad = (case rs of [] \<Rightarrow> None | (seg, _, b) # _ \<Rightarrow> b);
          res = verify_chain H es GENESIS_HASH;
          result = (\<lambda>ok n i why. \<lparr>st_ok = ok, st_length = n, st_break = i, st_reason = why, st_segments = None,
             st_archived = None, st_walked = None, st_break_segment = None\<rparr>)
      in case (cv_ok res, bad) of
           (True, Some k) \<Rightarrow> result False (int k + 1) (Some (int k)) (Some Unparseable)
         | _ \<Rightarrow> result (cv_ok res) (int (cv_length res)) (map_option int (first_break_index res))
             (map_option ChainBreak (cv_reason res)))"

text \<open>\<open>Snapshot.verify\<close>; None where it raises.\<close>

definition verify_snapshot :: "(string \<Rightarrow> string) \<Rightarrow> (text_file \<Rightarrow> string) \<Rightarrow> validator \<Rightarrow> (string \<Rightarrow> text_file option)
    \<Rightarrow> (string \<Rightarrow> text_file option) \<Rightarrow> layout \<Rightarrow> seg_read list \<Rightarrow> store_verification option" where
  "verify_snapshot H digest validate read_file read_path ly rs =
     (if \<not> ly_segmented ly then Some (verify_single H rs)
      else
        let (walked, found) = walk_segments H 0 rs; end_seg = last (ly_segs ly) in
        case ly_error ly of
          Some line \<Rightarrow>
            (case found of
               Some (number, i, why) \<Rightarrow>
                 if sv_start end_seg \<le> i
                 then Some (broken_at ly walked (sv_number end_seg) (sv_start end_seg) (JournalLine line))
                 else Some (broken_at ly walked number i why)
             | None \<Rightarrow> Some (broken_at ly walked (sv_number end_seg) (sv_start end_seg) (JournalLine line)))
        | None \<Rightarrow>
            (case found of
               Some (number, i, why) \<Rightarrow> Some (broken_at ly walked number i why)
             | None \<Rightarrow>
               let ok = \<lparr>st_ok = True, st_length = global_length ly rs, st_break = None, st_reason = None,
                 st_segments = Some (length (ly_segs ly)), st_archived = Some (length (ly_archived ly)),
                 st_walked = Some walked, st_break_segment = None\<rparr>
               in if ly_archived ly = [] then Some ok
                  else case event_evidenced (archive_evidence (live_events rs)) (ly_archived ly) of None \<Rightarrow> None
                  | Some evid \<Rightarrow>
                    (case verify_archived H digest validate read_file read_path (js_closed (ly_journal ly)) evid (ly_archived ly) of
                       None \<Rightarrow> None
                     | Some (Some (number, i, why)) \<Rightarrow> Some (broken_at ly walked number i why)
                     | Some None \<Rightarrow> Some ok)))"

text \<open>\<open>LedgerStore.verify\<close> of the files as they are: the snapshot is one consistent read of them.\<close>

definition exists_in :: "(string \<Rightarrow> text_file option) \<Rightarrow> string \<Rightarrow> bool" where
  "exists_in read_file name = (read_file name \<noteq> None)"

definition layout_of :: "string \<Rightarrow> (string \<Rightarrow> text_file option) \<Rightarrow> layout" where
  "layout_of p read_file = resolve_layout p (parse_journal (read_file (journal_path_for p))) (exists_in read_file)"

definition verify_ledger :: "(string \<Rightarrow> string) \<Rightarrow> (text_file \<Rightarrow> string) \<Rightarrow> validator \<Rightarrow> string
    \<Rightarrow> (string \<Rightarrow> text_file option) \<Rightarrow> (string \<Rightarrow> text_file option) \<Rightarrow> store_verification option" where
  "verify_ledger H digest validate p read_file read_path =
     (let ly = layout_of p read_file in
      verify_snapshot H digest validate read_file read_path ly (map (read_segment validate read_file) (ly_segs ly)))"


section \<open>The journal describes one contiguous history\<close>

fun linked :: "int \<Rightarrow> int \<Rightarrow> string \<Rightarrow> seg_entry list \<Rightarrow> bool" where
  "linked n s g [] = True"
| "linked n s g (e # es) = (en_n e = n \<and> en_start e = s \<and> s \<le> en_end e \<and> en_genesis e = g
     \<and> linked (n + 1) (en_end e + 1) (en_head e) es)"

abbreviation sound_entries :: "seg_entry list \<Rightarrow> bool" where
  "sound_entries cs \<equiv> linked 1 0 GENESIS_HASH cs"

definition end_start :: "int \<Rightarrow> seg_entry list \<Rightarrow> int" where
  "end_start s cs = (if cs = [] then s else en_end (last cs) + 1)"

definition end_head :: "string \<Rightarrow> seg_entry list \<Rightarrow> string" where
  "end_head g cs = (if cs = [] then g else en_head (last cs))"

lemma end_simps [simp]:
  "end_start s [] = s" "end_head g [] = g"
  "end_start s (e # es) = end_start (en_end e + 1) es" "end_head g (e # es) = end_head (en_head e) es"
  "end_start s (es @ [e]) = en_end e + 1" "end_head g (es @ [e]) = en_head e"
  by (simp_all add: end_start_def end_head_def)

lemma next_eqs: "next_start cs = end_start 0 cs" "next_genesis cs = end_head GENESIS_HASH cs"
  by (simp_all add: next_start_def next_genesis_def end_start_def end_head_def)

lemma linked_snoc:
  "linked n s g (cs @ [e]) \<longleftrightarrow> linked n s g cs \<and> en_n e = n + int (length cs) \<and> en_start e = end_start s cs
     \<and> en_start e \<le> en_end e \<and> en_genesis e = end_head g cs"
  by (induction cs arbitrary: n s g) auto

lemma linked_last_n: "linked n s g cs \<Longrightarrow> cs \<noteq> [] \<Longrightarrow> en_n (last cs) = n + int (length cs) - 1"
  by (cases cs rule: rev_cases) (auto simp: linked_snoc)

lemma next_n_linked: "linked 1 s g cs \<Longrightarrow> next_n cs = 1 + int (length cs)"
  using linked_last_n [of 1 s g cs] by (auto simp: next_n_def)

lemma linked_cong:
  "map (\<lambda>e. (en_n e, en_start e, en_end e, en_genesis e, en_head e)) es
     = map (\<lambda>e. (en_n e, en_start e, en_end e, en_genesis e, en_head e)) fs \<Longrightarrow> linked n s g es = linked n s g fs"
  by (induction es fs arbitrary: n s g rule: list_induct2') auto

lemma archive_first_fields:
  "archive_first rec es = Some fs \<Longrightarrow> map (\<lambda>e. (en_n e, en_start e, en_end e, en_genesis e, en_head e)) fs
     = map (\<lambda>e. (en_n e, en_start e, en_end e, en_genesis e, en_head e)) es"
  by (induction es arbitrary: fs) (auto split: if_splits)

text \<open>Closed entries and the pending intent, together, are always one contiguous run of segments.\<close>

definition sound_journal :: "seg_entry list \<Rightarrow> seg_entry option \<Rightarrow> bool" where
  "sound_journal closed pending = sound_entries (closed @ (case pending of None \<Rightarrow> [] | Some e \<Rightarrow> [e]))"

lemma journal_op_sound:
  assumes "journal_op rec closed pending = Some (c, p)" and "sound_journal closed pending"
  shows "sound_journal c p"
proof -
  have closed: "sound_entries closed"
    using assms(2) by (auto simp: sound_journal_def linked_snoc split: option.splits)
  consider (intent) e where "pending = None" "p = Some e" "c = closed" "en_n e = next_n closed"
      "en_start e = next_start closed" "en_start e \<le> en_end e" "en_genesis e = next_genesis closed"
    | (commit) e where "pending = Some e" "p = None" "c = closed @ [e\<lparr>en_closed_at := map_of rec ''closed_at''\<rparr>]"
    | (abort) "c = closed" "p = None"
    | (archive) "pending = None" "p = None" "archive_first rec closed = Some c"
    using assms(1) by (auto simp: journal_op_def Let_def split: if_splits option.splits)
  then show ?thesis
  proof cases
    case intent
    then show ?thesis using closed by (simp add: sound_journal_def linked_snoc next_n_linked next_eqs)
  next
    case commit
    then show ?thesis using assms(2) by (simp add: sound_journal_def linked_snoc)
  next
    case abort
    then show ?thesis using closed by (simp add: sound_journal_def)
  next
    case archive
    then show ?thesis using closed linked_cong [OF archive_first_fields] by (auto simp: sound_journal_def)
  qed
qed

lemma journal_lines_sound:
  "journal_lines i ls closed pending = (c, p, err) \<Longrightarrow> sound_journal closed pending \<Longrightarrow> sound_journal c p"
proof (induction i ls closed pending rule: journal_lines.induct)
  case (3 i rec ls closed pending)
  then show ?case
    by (cases "journal_op rec closed pending") (auto dest: journal_op_sound)
qed auto

lemma parse_journal_sound: "sound_journal (js_closed (parse_journal raw)) (js_pending (parse_journal raw))"
  by (auto simp: parse_journal_def sound_journal_def [of "[]" None] split: option.split prod.split
      dest: journal_lines_sound)

section \<open>A verified ledger is one chain\<close>

text \<open>The views of a run of entries, archived or not.\<close>

fun entry_views :: "seg_entry option \<Rightarrow> string \<Rightarrow> seg_entry list \<Rightarrow> seg_view list" where
  "entry_views prev g [] = []"
| "entry_views prev g (e # es) = closed_view prev g e # entry_views (Some e) (en_head e) es"

lemma closed_views_live:
  "list_all (\<lambda>e. \<not> archived e) es \<Longrightarrow> closed_views es prev g = (entry_views prev g es, [])"
  by (induction es arbitrary: prev g) auto

lemma closed_views_archived: "snd (closed_views es prev g) = filter archived es"
proof (induction es arbitrary: prev g)
  case (Cons e es)
  from Cons [of "Some e" "en_head e"] show ?case by (simp add: split_def)
qed simp

lemma entry_views_snoc:
  "entry_views prev g (es @ [e]) = entry_views prev g es
     @ [closed_view (if es = [] then prev else Some (last es)) (end_head g es) e]"
  by (induction es arbitrary: prev g) auto

lemma check_segment_None:
  assumes "check_segment H seg es bad = None"
  shows "cv_ok (verify_chain H es (sv_genesis seg))" "bad = None" "check_opening seg es = None" "check_closed seg es = None"
  using assms by (auto simp: check_segment_def verify_segment_def Let_def split: option.splits if_splits)

lemma locate_strict: "locate_lines validate i ls = (es, None) \<Longrightarrow> events_of_lines validate ls = Some es"
  by (induction validate i ls arbitrary: es rule: locate_lines.induct) (auto split: option.splits prod.splits)

lemma located_strict: "parse_events_located validate f = (es, None) \<Longrightarrow> parse_events validate f = Some es"
  by (auto simp: parse_events_located_def parse_events_def dest: locate_strict)

lemma all_events_append:
  "all_events validate read_file (xs @ ys) = (case all_events validate read_file xs of None \<Rightarrow> None
     | Some es \<Rightarrow> map_option ((@) es) (all_events validate read_file ys))"
proof (induction xs)
  case Nil
  show ?case by (cases "all_events validate read_file ys") simp_all
next
  case (Cons a xs)
  then show ?case
    by (cases "all_events validate read_file ys") (auto split: option.split)
qed

lemma walk_entries:
  assumes "linked n s g es" and "walk_segments H k (map (read_segment validate read_file) (entry_views prev g es) @ rest) = (w, None)"
  shows "\<exists>k'. walk_segments H k' rest = (w, None)
    \<and> all_events validate read_file (entry_views prev g es)
        = Some (live_events (map (read_segment validate read_file) (entry_views prev g es)))
    \<and> fold grow_length (map (read_segment validate read_file) (entry_views prev g es)) s = end_start s es
    \<and> cv_ok (verify_chain H (live_events (map (read_segment validate read_file) (entry_views prev g es))) g)
    \<and> last_hash g (live_events (map (read_segment validate read_file) (entry_views prev g es))) = end_head g es
    \<and> int (length (live_events (map (read_segment validate read_file) (entry_views prev g es)))) = end_start s es - s"
  using assms
proof (induction es arbitrary: n s g k prev)
  case Nil
  then show ?case by (auto simp: live_events_def verify_chain_def last_hash_def)
next
  case (Cons e es)
  let ?read = "read_segment validate read_file" and ?v = "closed_view prev g e"
  have must: "sv_must_exist ?v" "sv_path ?v = en_file e" by (simp_all add: closed_view_def)
  obtain f where f: "read_file (en_file e) = Some f"
    using Cons.prems(2) must by (cases "read_file (en_file e)") (auto simp: read_segment_def)
  obtain xs bad where loc: "parse_events_located validate f = (xs, bad)" by fastforce
  have r: "?read ?v = (?v, Some xs, bad)" by (simp add: read_segment_def must f loc)
  have ok0: "check_segment H ?v xs bad = None"
    and rest: "walk_segments H (k + length xs) (map ?read (entry_views (Some e) (en_head e) es) @ rest) = (w, None)"
    using Cons.prems(2) by (auto simp: r split: option.splits prod.splits)
  have xs: "?read ?v = (?v, Some xs, None)" "check_segment H ?v xs None = None"
    using r ok0 check_segment_None(2) [OF ok0] by simp_all
  note ok = check_segment_None [OF xs(2)]
  from ok(4) have len: "int (length xs) = en_end e - en_start e + 1" and head: "ev_hash (last xs) = en_head e"
    by (auto simp: check_closed_def closed_view_def Let_def split: if_splits)
  have ne: "xs \<noteq> []" using len Cons.prems(1) by auto
  from Cons.prems(1) have "linked (n + 1) (en_end e + 1) (en_head e) es" by simp
  from Cons.IH [OF this rest] obtain k' where IH: "walk_segments H k' rest = (w, None)"
    "cv_ok (verify_chain H (live_events (map ?read (entry_views (Some e) (en_head e) es))) (en_head e))"
    "last_hash (en_head e) (live_events (map ?read (entry_views (Some e) (en_head e) es))) = end_head (en_head e) es"
    "int (length (live_events (map ?read (entry_views (Some e) (en_head e) es)))) = end_start (en_end e + 1) es - (en_end e + 1)"
    "all_events validate read_file (entry_views (Some e) (en_head e) es)
       = Some (live_events (map ?read (entry_views (Some e) (en_head e) es)))"
    "fold grow_length (map ?read (entry_views (Some e) (en_head e) es)) (en_end e + 1) = end_start (en_end e + 1) es"
    by blast
  have strict: "parse_events validate f = Some xs"
    using loc check_segment_None(2) [OF ok0] by (simp add: located_strict)
  have grow: "grow_length (?read ?v) s = en_end e + 1"
    using len Cons.prems(1) by (simp add: grow_length_def xs(1)) (simp add: closed_view_def)
  have live: "live_events (map ?read (entry_views prev g (e # es))) = xs @ live_events (map ?read (entry_views (Some e) (en_head e) es))"
    by (simp add: live_events_def seg_events_def xs(1))
  have "last_hash g xs = en_head e" using ne head by (simp add: last_hash_def)
  moreover have "cv_ok (verify_chain H xs g)" using ok(1) by (simp add: closed_view_def)
  moreover have "last_hash g (xs @ ys) = last_hash (ev_hash (last xs)) ys" for ys using ne by (simp add: last_hash_def)
  ultimately show ?case
    unfolding live using IH len head Cons.prems(1) grow
    by (intro exI [of _ k']) (simp add: verify_chain_append must f strict)
qed


lemma linked_append:
  "linked n s g (as @ bs) \<longleftrightarrow> linked n s g as \<and> linked (n + int (length as)) (end_start s as) (end_head g as) bs"
  by (induction as arbitrary: n s g) (auto simp: add.assoc)

lemma closed_views_split:
  assumes "list_all archived as" and "list_all (\<lambda>e. \<not> archived e) bs"
  shows "closed_views (as @ bs) prev g = (entry_views (if as = [] then prev else Some (last as)) (end_head g as) bs, as)"
  using assms by (induction as arbitrary: prev g) (auto simp: closed_views_live)

lemma walk_all:
  assumes "linked n s g es"
    and "walk_segments H 0 (map (read_segment validate read_file) (entry_views prev g es @ [seg])) = (w, None)"
    and "sv_start seg = end_start s es" and "sv_genesis seg = end_head g es" and "\<not> sv_closed seg"
    and "rs = map (read_segment validate read_file) (entry_views prev g es @ [seg])"
  shows "all_events validate read_file (entry_views prev g es @ [seg]) = Some (live_events rs)
    \<and> cv_ok (verify_chain H (live_events rs) g) \<and> fold grow_length rs s = s + int (length (live_events rs))"
proof -
  let ?read = "read_segment validate read_file" and ?es = "live_events (map (read_segment validate read_file) (entry_views prev g es))"
  have split: "map ?read (entry_views prev g es @ [seg]) = map ?read (entry_views prev g es) @ [?read seg]" by simp
  from walk_entries [OF assms(1) assms(2) [unfolded split]] obtain k' where
    k': "walk_segments H k' [?read seg] = (w, None)" and
    es: "all_events validate read_file (entry_views prev g es) = Some ?es"
      "fold grow_length (map ?read (entry_views prev g es)) s = end_start s es"
      "cv_ok (verify_chain H ?es g)" "last_hash g ?es = end_head g es" "int (length ?es) = end_start s es - s" by blast
  have live: "live_events rs = ?es @ seg_events (?read seg)" by (simp add: assms(6) live_events_def)
  show ?thesis
  proof (cases "read_file (sv_path seg)")
    case None
    then show ?thesis using es assms(5)
      by (simp add: live all_events_append) (simp add: assms(6) read_segment_def seg_events_def grow_length_def)
  next
    case (Some f)
    obtain xs bad where loc: "parse_events_located validate f = (xs, bad)" by fastforce
    have c: "check_segment H seg xs bad = None"
      using k' by (auto simp: read_segment_def Some loc split: option.splits)
    note ok = check_segment_None [OF c]
    have "parse_events validate f = Some xs" using loc ok(2) by (simp add: located_strict)
    moreover have "?read seg = (seg, Some xs, bad)" by (simp add: read_segment_def Some loc)
    ultimately show ?thesis using es ok(1) assms(3,4)
      by (simp add: live all_events_append Some seg_events_def verify_chain_append)
        (simp add: assms(6) grow_length_def)
  qed
qed

lemma verified_single:
  assumes "st_ok (verify_single H [read_segment validate read_file seg])"
  shows "all_events validate read_file [seg] = Some (live_events [read_segment validate read_file seg])
    \<and> cv_ok (verify_chain H (live_events [read_segment validate read_file seg]) GENESIS_HASH)
    \<and> st_length (verify_single H [read_segment validate read_file seg])
        = int (length (live_events [read_segment validate read_file seg]))"
proof (cases "read_file (sv_path seg)")
  case None
  then show ?thesis
    by (simp add: read_segment_def verify_single_def seg_events_def live_events_def verify_chain_def)
next
  case (Some f)
  obtain xs bad where loc: "parse_events_located validate f = (xs, bad)" by fastforce
  have r: "read_segment validate read_file seg = (seg, Some xs, bad)" by (simp add: read_segment_def Some loc)
  have ok: "cv_ok (verify_chain H xs GENESIS_HASH)" "bad = None"
    using assms by (auto simp: r verify_single_def seg_events_def Let_def split: bool.splits option.splits)
  moreover have "cv_length (verify_chain H xs GENESIS_HASH) = length xs"
    using verify_from_spec [of H 0 GENESIS_HASH xs] ok(1) by (simp add: verify_chain_def)
  ultimately show ?thesis using loc
    by (simp add: r Some located_strict verify_single_def seg_events_def live_events_def Let_def)
qed

lemma end_append [simp]:
  "end_start s (as @ bs) = end_start (end_start s as) bs" "end_head g (as @ bs) = end_head (end_head g as) bs"
  by (auto simp: end_start_def end_head_def)

lemma journal_absent: "\<not> js_present (parse_journal raw) \<Longrightarrow> js_closed (parse_journal raw) = []"
  by (auto simp: parse_journal_def split: option.splits prod.splits)

text \<open>The live segments of a layout: the unarchived entries, a pending one whose rename happened, the open one.\<close>

lemma layout_shape:
  assumes "js = parse_journal raw" and "js_closed js = arch @ live"
    and "list_all archived arch" and "list_all (\<lambda>e. \<not> archived e) live" and "ly = resolve_layout p js ex"
  obtains E seg where
    "ly_segs ly = entry_views (last_entry arch) (end_head GENESIS_HASH arch) E @ [seg]"
    "linked (1 + int (length arch)) (end_start 0 arch) (end_head GENESIS_HASH arch) E"
    "sv_start seg = end_start (end_start 0 arch) E" "sv_genesis seg = end_head (end_head GENESIS_HASH arch) E"
    "\<not> sv_closed seg" "sv_path seg = p" "ly_archived ly = arch" "ly_error ly = js_error js" "ly_journal ly = js"
    "ly_segmented ly \<or> E = [] \<and> arch = []"
    "sv_first seg = map_option rot_hash (if E = [] then last_entry arch else Some (last E))"
    "sv_pred seg = (if E = [] then last_entry arch else Some (last E))"
    "sv_must_exist seg \<and> E = live \<or> (\<exists>e. E = live @ [e]) \<or> E = [] \<and> arch = [] \<and> live = []"
proof (cases "js_present js")
  case False
  then have "arch = []" "live = []" "js_error js = None"
    using assms(1,2) by (auto simp: journal_absent parse_journal_def split: option.splits prod.splits)
  then show ?thesis using False assms(5)
    by (intro that [of "[]" "single_view p"]) (simp_all add: resolve_layout_def single_view_def last_entry_def)
next
  case True
  have sound: "sound_journal (arch @ live) (js_pending js)"
    using parse_journal_sound [of raw] by (simp add: assms(1) [symmetric] assms(2))
  note views = closed_views_split [OF assms(3,4), of None GENESIS_HASH]
  define renamed where "renamed = (case js_pending js of None \<Rightarrow> False | Some e \<Rightarrow> ex (en_file e))"
  define E where "E = (if renamed then live @ [the (js_pending js)] else live)"
  have linked: "linked (1 + int (length arch)) (end_start 0 arch) (end_head GENESIS_HASH arch) E"
    using sound by (auto simp: sound_journal_def E_def renamed_def linked_append split: option.splits)
  have prev: "last_entry (arch @ live) = (if live = [] then last_entry arch else Some (last live))"
    by (simp add: last_entry_def)
  have views': "closed_views (arch @ live) None GENESIS_HASH = (entry_views (last_entry arch) (end_head GENESIS_HASH arch) live, arch)"
    using views by (simp add: last_entry_def)
  show ?thesis
  proof (cases renamed)
    case False
    then show ?thesis
      using True linked views' assms(2)
      by (intro that [of E "last (ly_segs ly)"])
        (auto simp: assms(5) resolve_layout_def Let_def E_def next_eqs renamed_def [symmetric] prev split: option.split)
  next
    case r: True
    then show ?thesis
      using True linked views' assms(2)
      by (intro that [of E "last (ly_segs ly)"])
        (auto simp: assms(5) resolve_layout_def Let_def E_def next_eqs renamed_def [symmetric] entry_views_snoc prev
          last_entry_def)
  qed
qed

text \<open>C21: A rotated ledger verifies only if it is one chain: when verification answers ok, the segments read in
  order, with no line skipped, are a single hash chain from the genesis hash (from the last archived head, when
  the oldest segments are archived), exactly as one unrotated file would verify, and the reported length is
  where the last archived segment ended plus the number of events read.\<close>

theorem verified_ledger_is_one_chain:
  assumes "verify_ledger H digest validate p read_file read_path = Some v" and "st_ok v"
    and "js_closed (parse_journal (read_file (journal_path_for p))) = arch @ live"
    and "list_all archived arch" and "list_all (\<lambda>e. \<not> archived e) live"
  shows "\<exists>es. all_events validate read_file (ly_segs (layout_of p read_file)) = Some es
    \<and> cv_ok (verify_chain H es (end_head GENESIS_HASH arch)) \<and> st_length v = end_start 0 arch + int (length es)"
proof -
  define js where "js = parse_journal (read_file (journal_path_for p))"
  define ly where "ly = layout_of p read_file"
  define rs where "rs = map (read_segment validate read_file) (ly_segs ly)"
  have ly: "ly = resolve_layout p js (exists_in read_file)" by (simp add: ly_def layout_of_def js_def)
  have v: "verify_snapshot H digest validate read_file read_path ly rs = Some v"
    using assms(1) by (simp add: verify_ledger_def rs_def ly_def Let_def)
  obtain E seg where segs: "ly_segs ly = entry_views (last_entry arch) (end_head GENESIS_HASH arch) E @ [seg]"
    and linked: "linked (1 + int (length arch)) (end_start 0 arch) (end_head GENESIS_HASH arch) E"
    and seg: "sv_start seg = end_start (end_start 0 arch) E" "sv_genesis seg = end_head (end_head GENESIS_HASH arch) E"
      "\<not> sv_closed seg" "sv_path seg = p" "ly_archived ly = arch" "ly_error ly = js_error js" "ly_journal ly = js"
      "ly_segmented ly \<or> E = [] \<and> arch = []"
      "sv_first seg = map_option rot_hash (if E = [] then last_entry arch else Some (last E))"
      "sv_pred seg = (if E = [] then last_entry arch else Some (last E))"
      "sv_must_exist seg \<and> E = live \<or> (\<exists>e. E = live @ [e]) \<or> E = [] \<and> arch = [] \<and> live = []"
    by (rule layout_shape [OF js_def assms(3) [folded js_def] assms(4,5) ly]) (rule that)
  have "all_events validate read_file (ly_segs ly) = Some (live_events rs)
    \<and> cv_ok (verify_chain H (live_events rs) (end_head GENESIS_HASH arch))
    \<and> st_length v = end_start 0 arch + int (length (live_events rs))"
  proof (cases "ly_segmented ly")
    case False
    with seg(8) have one: "ly_segs ly = [seg]" "arch = []" using segs by simp_all
    from v False have "v = verify_single H rs" by (simp add: verify_snapshot_def)
    then have "st_ok (verify_single H [read_segment validate read_file seg])" using assms(2) one by (simp add: rs_def)
    from verified_single [OF this] show ?thesis using one \<open>v = verify_single H rs\<close>
      by (simp only: rs_def list.map end_simps) simp
  next
    case True
    from v True assms(2) obtain w where w: "walk_segments H 0 rs = (w, None)" and len: "st_length v = global_length ly rs"
      by (auto simp: verify_snapshot_def broken_at_def Let_def split: prod.splits option.splits if_splits)
    note all = walk_all [OF linked, of H validate read_file "last_entry arch" seg w rs]
    have "fold grow_length rs (end_start 0 arch) = global_length ly rs"
      by (simp add: global_length_def seg(5) end_start_def)
    with all w seg segs len show ?thesis by (simp add: rs_def)
  qed
  then show ?thesis unfolding ly_def [symmetric] by blast
qed


section \<open>The journal is pinned by the chain\<close>

text \<open>The journal of segments is one contiguous history: whatever lines it holds, the entries it yields are
  numbered from 1, each starts where the one before it ended and from the head of the one before it (the
  first at 0 from the genesis hash), and a pending rotation continues them.\<close>

lemma journal_is_contiguous:
  "let js = parse_journal raw; es = js_closed js @ (case js_pending js of None \<Rightarrow> [] | Some e \<Rightarrow> [e]) in
   i < length es \<longrightarrow> en_n (es ! i) = int i + 1 \<and> en_start (es ! i) \<le> en_end (es ! i)
     \<and> (if i = 0 then en_start (es ! i) = 0 \<and> en_genesis (es ! i) = GENESIS_HASH
        else en_start (es ! i) = en_end (es ! (i - 1)) + 1 \<and> en_genesis (es ! i) = en_head (es ! (i - 1)))"
proof -
  have nth: "linked n s g es \<Longrightarrow> i < length es \<Longrightarrow> en_n (es ! i) = n + int i \<and> en_start (es ! i) \<le> en_end (es ! i)
      \<and> en_start (es ! i) = (if i = 0 then s else en_end (es ! (i - 1)) + 1)
      \<and> en_genesis (es ! i) = (if i = 0 then g else en_head (es ! (i - 1)))" for n s g es i
  proof (induction es arbitrary: n s g i)
    case (Cons e es)
    show ?case
    proof (cases i)
      case (Suc j)
      with Cons.prems Cons.IH [of "n + 1" "en_end e + 1" "en_head e" j] show ?thesis by (cases j) auto
    qed (use Cons.prems in simp)
  qed simp
  show ?thesis
    using parse_journal_sound [of raw] by (auto simp: sound_journal_def Let_def dest!: nth [of _ _ _ _ i])
qed

lemma opening_pins:
  assumes "check_opening seg xs = None" and "sv_first seg = Some (rot_hash e)" and "sv_pred seg = Some e"
  shows "\<exists>ev \<in> set xs. ev_hash ev = rot_hash e \<and> journal_vs_rotation_event (Some e) ev = None"
  using assms by (auto simp: check_opening_def split: list.splits if_splits)

lemma walk_openings:
  assumes "walk_segments H k (map (read_segment validate read_file) (entry_views prev g es @ [seg])) = (w, None)"
    and "sv_first seg = map_option rot_hash (if es = [] then prev else Some (last es))"
    and "sv_pred seg = (if es = [] then prev else Some (last es))"
    and "e \<in> set (if sv_must_exist seg then es else butlast es) \<or> prev = Some e \<and> (es \<noteq> [] \<or> sv_must_exist seg)"
  shows "\<exists>ev \<in> set (live_events (map (read_segment validate read_file) (entry_views prev g es @ [seg]))).
    ev_hash ev = rot_hash e \<and> journal_vs_rotation_event (Some e) ev = None"
  using assms
proof (induction es arbitrary: prev g k)
  case Nil
  then have must: "sv_must_exist seg" "prev = Some e" by (auto split: if_splits)
  then obtain f where f: "read_file (sv_path seg) = Some f"
    using Nil.prems(1) by (cases "read_file (sv_path seg)") (auto simp: read_segment_def)
  obtain xs bad where loc: "parse_events_located validate f = (xs, bad)" by fastforce
  have "check_segment H seg xs bad = None"
    using Nil.prems(1) by (auto simp: read_segment_def f loc split: option.splits)
  from check_segment_None(3) [OF this] Nil.prems(2,3) must show ?case
    by (auto simp: live_events_def seg_events_def read_segment_def f loc dest!: opening_pins)
next
  case (Cons a es)
  let ?v = "closed_view prev g a"
  have must: "sv_must_exist ?v" "sv_path ?v = en_file a" "sv_first ?v = map_option rot_hash prev" "sv_pred ?v = prev"
    by (simp_all add: closed_view_def)
  then obtain f where f: "read_file (en_file a) = Some f"
    using Cons.prems(1) by (cases "read_file (en_file a)") (auto simp: read_segment_def)
  obtain xs bad where loc: "parse_events_located validate f = (xs, bad)" by fastforce
  have r: "read_segment validate read_file ?v = (?v, Some xs, bad)" by (simp add: read_segment_def must f loc)
  have c: "check_segment H ?v xs bad = None"
    and rest: "walk_segments H (k + length xs) (map (read_segment validate read_file)
        (entry_views (Some a) (en_head a) es @ [seg])) = (w, None)"
    using Cons.prems(1) by (auto simp: r split: option.splits)
  have live: "live_events (map (read_segment validate read_file) (entry_views prev g (a # es) @ [seg]))
      = xs @ live_events (map (read_segment validate read_file) (entry_views (Some a) (en_head a) es @ [seg]))"
    by (simp add: live_events_def seg_events_def r)
  show ?case
  proof (cases "prev = Some e")
    case True
    with check_segment_None(3) [OF c] must show ?thesis unfolding live by (auto dest!: opening_pins)
  next
    case False
    have "e \<in> set (if sv_must_exist seg then es else butlast es) \<or> Some a = Some e \<and> (es \<noteq> [] \<or> sv_must_exist seg)"
      using Cons.prems(4) False by (auto split: if_splits)
    moreover have "sv_first seg = map_option rot_hash (if es = [] then Some a else Some (last es))"
      "sv_pred seg = (if es = [] then Some a else Some (last es))"
      using Cons.prems(2,3) by auto
    ultimately show ?thesis using Cons.IH [OF rest] unfolding live set_append by blast
  qed
qed


text \<open>The journal cannot be edited behind the chain: in a ledger that verifies, every committed segment still
  live, and the last archived one, is named by a rotation event of the live chain that carries the recorded
  hash and agrees with the journal on its number, indices, head, genesis, file name and signed anchor.\<close>

lemma journal_agrees_with_chain:
  assumes "verify_ledger H digest validate p read_file read_path = Some v" and "st_ok v"
    and "js_closed (parse_journal (read_file (journal_path_for p))) = arch @ live"
    and "list_all archived arch" and "list_all (\<lambda>e. \<not> archived e) live"
    and "e \<in> set live \<or> arch \<noteq> [] \<and> e = last arch"
    and "all_events validate read_file (ly_segs (layout_of p read_file)) = Some es"
  shows "\<exists>ev \<in> set es. ev_hash ev = rot_hash e \<and> journal_vs_rotation_event (Some e) ev = None"
proof -
  define js where "js = parse_journal (read_file (journal_path_for p))"
  define ly where "ly = layout_of p read_file"
  define rs where "rs = map (read_segment validate read_file) (ly_segs ly)"
  have ly: "ly = resolve_layout p js (exists_in read_file)" by (simp add: ly_def layout_of_def js_def)
  have v: "verify_snapshot H digest validate read_file read_path ly rs = Some v"
    using assms(1) by (simp add: verify_ledger_def rs_def ly_def Let_def)
  obtain E seg where segs: "ly_segs ly = entry_views (last_entry arch) (end_head GENESIS_HASH arch) E @ [seg]"
    and linked: "linked (1 + int (length arch)) (end_start 0 arch) (end_head GENESIS_HASH arch) E"
    and seg: "sv_start seg = end_start (end_start 0 arch) E" "sv_genesis seg = end_head (end_head GENESIS_HASH arch) E"
      "\<not> sv_closed seg" "sv_path seg = p" "ly_archived ly = arch" "ly_error ly = js_error js" "ly_journal ly = js"
      "ly_segmented ly \<or> E = [] \<and> arch = []"
      "sv_first seg = map_option rot_hash (if E = [] then last_entry arch else Some (last E))"
      "sv_pred seg = (if E = [] then last_entry arch else Some (last E))"
      "sv_must_exist seg \<and> E = live \<or> (\<exists>e. E = live @ [e]) \<or> E = [] \<and> arch = [] \<and> live = []"
    by (rule layout_shape [OF js_def assms(3) [folded js_def] assms(4,5) ly]) (rule that)
  have "live \<noteq> [] \<or> arch \<noteq> []" using assms(6) by auto
  then have "ly_segmented ly" using seg(8,11) by blast
  with v assms(2) obtain w where w: "walk_segments H 0 rs = (w, None)"
    by (auto simp: verify_snapshot_def broken_at_def Let_def split: prod.splits option.splits if_splits)
  have "e \<in> set (if sv_must_exist seg then E else butlast E) \<or> last_entry arch = Some e \<and> (E \<noteq> [] \<or> sv_must_exist seg)"
    using assms(6) seg(11) by (auto simp: last_entry_def)
  from walk_openings [OF w [unfolded rs_def segs] seg(9,10) this]
  have "\<exists>ev \<in> set (live_events rs). ev_hash ev = rot_hash e \<and> journal_vs_rotation_event (Some e) ev = None"
    unfolding rs_def segs .
  moreover have "es = live_events rs"
    using walk_all [OF linked w [unfolded rs_def segs] seg(1,2,3) refl] assms(7)
    unfolding rs_def segs ly_def [symmetric] by simp
  ultimately show ?thesis by simp
qed


section \<open>A rotated ledger\<close>

definition sample_rotation :: py_dict where
  "sample_rotation = [(''segment_closed'', JInt 1), (''start_index'', JInt 0), (''end_index'', JInt 0),
     (''head_hash'', JStr ''h''), (''genesis_prev_hash'', JStr GENESIS_HASH), (''file'', JStr ''audit-1.jsonl''),
     (''anchor'', JObj [])]"

definition sample_first :: ledger_event where
  "sample_first = make_event (\<lambda>b. ''h'') ''id-0'' ''t0'' ''x'' None GENESIS_HASH None None None"

definition sample_second :: ledger_event where
  "sample_second = make_event (\<lambda>b. ''h'') ''id-1'' ''t1'' ROTATION_EVENT_TYPE (Some sample_rotation) ''h'' None None None"

definition sample_intent :: py_dict where
  "sample_intent = [(''op'', JStr ''rotate-intent''), (''format'', JStr JOURNAL_FORMAT), (''n'', JInt 1),
     (''file'', JStr ''audit-1.jsonl''), (''start_index'', JInt 0), (''end_index'', JInt 0),
     (''genesis_prev_hash'', JStr GENESIS_HASH), (''head_hash'', JStr ''h''), (''anchor'', JObj []),
     (''rotation_event'', JObj [(''hash'', JStr ''h'')])]"

definition sample_commit :: py_dict where
  "sample_commit = [(''op'', JStr ''rotate-commit''), (''n'', JInt 1), (''rotation_event_hash'', JStr ''h''),
     (''closed_at'', JStr ''t1'')]"

definition sample_files :: "string \<Rightarrow> text_file option" where
  "sample_files name =
     (if name = ''audit.segments.journal'' then Some \<lparr>tf_lines = [Doc (JObj sample_intent), Doc (JObj sample_commit)], tf_tail = None\<rparr>
      else if name = ''audit-1.jsonl'' then Some \<lparr>tf_lines = [Doc (JStr ''0'')], tf_tail = None\<rparr>
      else if name = ''audit.jsonl'' then Some \<lparr>tf_lines = [Doc (JStr ''1'')], tf_tail = None\<rparr> else None)"

definition sample_validate :: validator where
  "sample_validate j = (case j of JStr s \<Rightarrow> Some (if s = ''0'' then sample_first else sample_second) | _ \<Rightarrow> None)"

definition sample_entry :: seg_entry where
  "sample_entry = (intent_entry sample_intent)\<lparr>en_closed_at := Some (JStr ''t1'')\<rparr>"

lemma sample_journal: "js_closed (parse_journal (sample_files (journal_path_for ''audit.jsonl''))) = [sample_entry]"
  by code_simp

lemma sample_verifies:
  "map_option st_ok (verify_ledger (\<lambda>b. ''h'') (\<lambda>f. ''d'') sample_validate ''audit.jsonl'' sample_files (\<lambda>_. None)) = Some True"
  by code_simp

lemma sample_events:
  "all_events sample_validate sample_files (ly_segs (layout_of ''audit.jsonl'' sample_files)) = Some [sample_first, sample_second]"
  by code_simp


lemma sample_entry_live: "list_all (\<lambda>e. \<not> archived e) [sample_entry]" "list_all archived []"
  by (simp_all add: archived_def sample_entry_def intent_entry_def sample_intent_def)

theorem verified_ledger_is_one_chain_witness:
  "cv_ok (verify_chain (\<lambda>b. ''h'') [sample_first, sample_second] GENESIS_HASH)"
proof -
  obtain v where v: "verify_ledger (\<lambda>b. ''h'') (\<lambda>f. ''d'') sample_validate ''audit.jsonl'' sample_files (\<lambda>_. None) = Some v"
    and ok: "st_ok v" using sample_verifies by auto
  from verified_ledger_is_one_chain [OF v ok, of "[]" "[sample_entry]"] show ?thesis
    by (simp add: sample_journal sample_entry_live [simplified] sample_events)
qed

lemma journal_is_contiguous_witness:
  "en_n (js_closed (parse_journal (sample_files (journal_path_for ''audit.jsonl''))) ! 0) = 1"
proof -
  have "js_pending (parse_journal (sample_files (journal_path_for ''audit.jsonl''))) = None" by code_simp
  then show ?thesis
    using journal_is_contiguous [of "sample_files (journal_path_for ''audit.jsonl'')" 0] by (simp add: sample_journal)
qed

lemma journal_agrees_with_chain_witness:
  "ev_hash sample_first = rot_hash sample_entry \<and> journal_vs_rotation_event (Some sample_entry) sample_first = None
   \<or> ev_hash sample_second = rot_hash sample_entry \<and> journal_vs_rotation_event (Some sample_entry) sample_second = None"
proof -
  obtain v where v: "verify_ledger (\<lambda>b. ''h'') (\<lambda>f. ''d'') sample_validate ''audit.jsonl'' sample_files (\<lambda>_. None) = Some v"
    and ok: "st_ok v" using sample_verifies by auto
  from journal_agrees_with_chain [OF v ok, of "[]" "[sample_entry]" sample_entry] show ?thesis
    by (simp add: sample_journal sample_entry_live [simplified] sample_events)
qed

end
