(* ===== verification/Operator_Registry.thy ===== *)
theory Operator_Registry
  imports Complex_Main Utc_Time Canonical_Json "HOL-Library.AList"
begin

text \<open>
  The operators file of \<open>packages/field-core/src/field_core/operator_auth.py\<close>: the decoded JSON
  document (formats 1 and 2), the rules every row keeps, the identity-collision rules, and the
  memory of retired keys. A decoded value is a \<^typ>\<open>json\<close>; \<open>r.get(k)\<close> is \<open>jget\<close>. Exceptions are
  values of \<open>registry_fault\<close>, one constructor per message of the source; the parts of a row a
  message quotes are its arguments, after the masking the source applies.
\<close>

section \<open>Character classes\<close>

definition is_lower :: "char \<Rightarrow> bool" where
  "is_lower c = (let n = (of_char c :: nat) in 97 \<le> n \<and> n \<le> 122)"

definition is_upper :: "char \<Rightarrow> bool" where
  "is_upper c = (let n = (of_char c :: nat) in 65 \<le> n \<and> n \<le> 90)"

definition is_alnum :: "char \<Rightarrow> bool" where
  "is_alnum c = (is_lower c \<or> is_upper c \<or> is_digit c)"

text \<open>\<open>[A-Za-z0-9<extra>]{lo,hi}\<close>, the whole string.\<close>

definition charset_ok :: "string \<Rightarrow> nat \<Rightarrow> nat \<Rightarrow> string \<Rightarrow> bool" where
  "charset_ok extra lo hi s =
     (lo \<le> length s \<and> length s \<le> hi \<and> list_all (\<lambda>c. is_alnum c \<or> c \<in> set extra) s)"

definition OPERATOR_RE :: "string \<Rightarrow> bool" where
  "OPERATOR_RE s = charset_ok ''._@-'' 1 64 s"

definition KEY_RE :: "string \<Rightarrow> bool" where
  "KEY_RE s = charset_ok ''._~+/=-'' 1 256 s"

definition HEX64 :: "string \<Rightarrow> bool" where
  "HEX64 s = (length s = 64 \<and> list_all (\<lambda>c. is_digit c \<or> c \<in> set ''abcdef'') s)"

definition TOKEN_ID_RE :: "string \<Rightarrow> bool" where
  "TOKEN_ID_RE s = charset_ok ''_-'' 40 (length s) s"

definition KEY_PREFIX :: string where "KEY_PREFIX = ''fok_''"
definition NOT_SHOWN :: string where "NOT_SHOWN = ''(not shown)''"

definition printable_id :: "string \<Rightarrow> bool" where
  "printable_id v = (OPERATOR_RE v \<and> \<not> starts_with KEY_PREFIX v \<and> \<not> TOKEN_ID_RE v)"

definition shown_claim :: "string option \<Rightarrow> string option" where
  "shown_claim v = (case v of None \<Rightarrow> None | Some s \<Rightarrow> Some (if printable_id s then s else NOT_SHOWN))"

definition quoted :: "string \<Rightarrow> string" where
  "quoted s = CHR 0x27 # s @ [CHR 0x27]"

definition shown_name :: "string \<Rightarrow> string" where
  "shown_name v = (if starts_with KEY_PREFIX v \<or> charset_ok ''._~+/=-'' 24 (length v) v
     then NOT_SHOWN else quoted v)"

definition shown_oid :: "string \<Rightarrow> string" where
  "shown_oid v = (if printable_id v then quoted v else NOT_SHOWN)"

section \<open>Vocabulary\<close>

definition ACTIONS :: "string list" where
  "ACTIONS = [''kill'', ''revive'', ''drill'', ''attest'', ''rotate'', ''hold'', ''mint'',
     ''mint_for_others'', ''decommission'', ''revoke'', ''retention'', ''sweep'',
     ''assert_operator'', ''registry_edit'', ''register'', ''caps'', ''federation'',
     ''escalation'', ''export'', ''ledger_attribute'', ''bypass_operator_list'', ''sweep_kill'']"

definition REJECTED_SCOPES :: "string list" where "REJECTED_SCOPES = [''assert_operator'']"
definition STATUSES :: "string list" where "STATUSES = [''active'', ''revoked'']"
definition ROTATIONS :: "string list" where "ROTATIONS = [''auto'', ''sealed'', ''remote'']"
definition SEALED_SCOPES :: "string list" where
  "SEALED_SCOPES = [''kill'', ''revive'', ''bypass_operator_list'']"
definition AUTH_METHODS :: "string list" where "AUTH_METHODS = [''key'', ''session'']"
definition PASSKEY_ALGS :: "string list" where "PASSKEY_ALGS = [''ES256'', ''EdDSA'']"

definition F2_TOP_REQUIRED :: "string list" where
  "F2_TOP_REQUIRED = [''format'', ''generation'', ''operators'']"
definition F2_TOP_FIELDS :: "string list" where
  "F2_TOP_FIELDS = F2_TOP_REQUIRED @ [''issued_at'', ''issued_by'']"
definition F2_ROW_REQUIRED :: "string list" where
  "F2_ROW_REQUIRED = [''operator_id'', ''status'', ''key_sha256'', ''rotation'', ''scopes'']"
definition F2_ROW_FIELDS :: "string list" where
  "F2_ROW_FIELDS = F2_ROW_REQUIRED @ [''names'', ''event_prefixes'', ''created_at'',
     ''key_created_at'', ''key_not_after'', ''next_key'', ''auth'', ''passkeys'']"
definition NEXT_KEY_FIELDS :: "string list" where
  "NEXT_KEY_FIELDS = [''key_sha256'', ''not_before'', ''not_after'']"
definition PASSKEY_FIELDS :: "string list" where
  "PASSKEY_FIELDS = [''credential_id'', ''public_key_spki'', ''alg'', ''enrolled_at'', ''label'', ''hardware'']"
definition F2_ONLY_TOP_FIELDS :: "string list" where
  "F2_ONLY_TOP_FIELDS = [''generation'', ''issued_at'', ''issued_by'']"
definition F2_ONLY_ROW_FIELDS :: "string list" where
  "F2_ONLY_ROW_FIELDS = [''rotation'', ''key_created_at'', ''key_not_after'', ''next_key'', ''auth'', ''passkeys'']"

definition BREAKGLASS_ID :: string where "BREAKGLASS_ID = ''don-breakglass''"
definition LIST_BOUND_PREFIX :: string where "LIST_BOUND_PREFIX = ''svc-verifier-''"
definition VERIFIER_SCOPE_CORE :: "string list" where
  "VERIFIER_SCOPE_CORE = [''kill'', ''revive'', ''revoke'']"
definition VERIFIER_SCOPE_MINT :: "string list" where
  "VERIFIER_SCOPE_MINT = [''mint'', ''mint_for_others'']"
definition MAX_EVENT_PREFIX_LEN :: nat where "MAX_EVENT_PREFIX_LEN = 64"

text \<open>
  \<open>_EVENT_PREFIX_RE\<close> read as the automaton it is: at the start, inside a segment, after a dot.
\<close>

datatype prefix_state = AtStart | InSegment | AfterDot

definition segment_char :: "char \<Rightarrow> bool" where
  "segment_char c = (is_lower c \<or> is_digit c \<or> c \<in> set ''_-'')"

fun event_prefix_from :: "prefix_state \<Rightarrow> string \<Rightarrow> bool" where
  "event_prefix_from st [] = (st = AfterDot)"
| "event_prefix_from st (c # s) =
     (if segment_char c then event_prefix_from InSegment s
      else c = CHR ''.'' \<and> st = InSegment \<and> event_prefix_from AfterDot s)"

definition valid_event_prefix :: "string \<Rightarrow> bool" where
  "valid_event_prefix p = (length p \<le> MAX_EVENT_PREFIX_LEN \<and> event_prefix_from AtStart p
     \<and> \<not> starts_with ''operator.'' p)"

section \<open>Times\<close>

text \<open>\<open>_TIME_RE\<close>: \<open>YYYY-MM-DDTHH:MM:SSZ\<close>; \<open>strptime\<close> then refuses what is not a date and a time.\<close>

fun time_shape :: "string \<Rightarrow> string \<Rightarrow> bool" where
  "time_shape [] [] = True"
| "time_shape (p # ps) (c # cs) = ((if p = CHR ''9'' then is_digit c else c = p) \<and> time_shape ps cs)"
| "time_shape _ _ = False"

definition parse_time :: "string \<Rightarrow> int option" where
  "parse_time s = (if \<not> time_shape ''9999-99-99T99:99:99Z'' s then None
     else let y = dec_val (take 4 s); m = dec_val (take 2 (drop 5 s)); d = dec_val (take 2 (drop 8 s));
              hh = dec_val (take 2 (drop 11 s)); mm = dec_val (take 2 (drop 14 s));
              ss = dec_val (take 2 (drop 17 s))
          in if valid_date y m d \<and> hh < 24 \<and> mm < 60 \<and> ss < 60
             then Some ((int (ymd2ord y m d) - 719163) * 86400 + int (hh * 3600 + mm * 60 + ss))
             else None)"

section \<open>Rows\<close>

record next_slot =
  nk_hash :: string
  nk_not_before :: int
  nk_not_after :: int

text \<open>
  A normalised row. A format 1 row has no \<open>format\<close>, \<open>rotation\<close>, expiry, NEXT slot or \<open>auth\<close> key;
  its \<open>row_format\<close> is 1 and the other fields hold the defaults the readers use.
\<close>

record op_row =
  row_id :: string
  row_key :: string
  row_status :: string
  row_scopes :: "string list"
  row_names :: "string list"
  row_prefixes :: "string list"
  row_format :: nat
  row_rotation :: "string option"
  row_expiry :: "int option"
  row_next :: "next_slot option"
  row_auth :: "string list"
  row_passkeys :: "json list"
  row_refused :: "string list"

record registry_doc =
  doc_format :: nat
  doc_generation :: int
  doc_rows :: "op_row list"
  doc_issued_at :: "int option"
  doc_issued_by :: "string option"

datatype row_fault =
    NotAnObject | IdMissing | BadKeyHash | StatusMissing | BadStatus
  | ScopesNotStrings | ScopeRejected string | BadNames | BadPrefixes
  | NeedsFormat2 | UnknownFields | MissingFields | BadOperatorId | BadRotation | UnknownScope
  | BadTime string | BadAuth
  | PasskeysNotList | PasskeyFields | PasskeyCredential | PasskeySpki | PasskeyAlg | PasskeyEnrolled
  | PasskeyLabel | PasskeyHardware
  | BreakglassNotSealed | BreakglassAlias | SealedHasExpiry | ExpiryMissing | BadExpiry
  | NextKeyFields | NextKeyHash | NextKeyTimes | NextKeyOrder | RevokedHasNext
  | SealedScopes | SealedAuth | SealedNext | SealedPasskeys

datatype collision =
    DuplicateId string | VerifierUnprefixed string | VerifierBypass string
  | AliasStar string | AliasBreakglass string string | AliasIsId string string
  | AliasShared string string string

datatype registry_fault =
    PathUnset | Unreadable | Undecodable | DuplicateJsonKey | BadFormat | TopNeedsFormat2
  | TopUnknown | TopMissing | BadGeneration | BadIssuedAt | BadIssuedBy | NotAList
  | Malformed nat "string option" row_fault
  | HashTwice nat nat | CredentialTwice nat nat | TwoSealed nat nat
  | Ambiguous collision | NoActiveRows

text \<open>\<open>_malformed\<close>: the row number and, when it may be printed, its operator id.\<close>

definition jget :: "json \<Rightarrow> string \<Rightarrow> json option" where
  "jget r k = (case r of JObj kvs \<Rightarrow> map_of kvs k | _ \<Rightarrow> None)"

definition jkeys :: "json \<Rightarrow> string list" where
  "jkeys r = (case r of JObj kvs \<Rightarrow> map fst kvs | _ \<Rightarrow> [])"

definition malformed :: "nat \<Rightarrow> json \<Rightarrow> row_fault \<Rightarrow> registry_fault" where
  "malformed i r what = Malformed i
     (case jget r ''operator_id'' of
        Some (JStr oid) \<Rightarrow> if printable_id oid then Some oid
          else if oid \<noteq> [] then Some NOT_SHOWN else None
      | _ \<Rightarrow> None) what"

fun str_items :: "json list \<Rightarrow> string list option" where
  "str_items [] = Some []"
| "str_items (JStr s # js) = map_option (\<lambda>ss. s # ss) (str_items js)"
| "str_items (_ # js) = None"

text \<open>\<open>r.get(k, [])\<close> as a list of strings, None when it is not one.\<close>

definition jstrings :: "json \<Rightarrow> string \<Rightarrow> string list option" where
  "jstrings r k = (case jget r k of None \<Rightarrow> Some [] | Some (JArr js) \<Rightarrow> str_items js | Some _ \<Rightarrow> None)"

definition jstring :: "json \<Rightarrow> string \<Rightarrow> string option" where
  "jstring r k = (case jget r k of Some (JStr s) \<Rightarrow> Some s | _ \<Rightarrow> None)"

definition jtime :: "json \<Rightarrow> string \<Rightarrow> int option" where
  "jtime r k = (case jstring r k of None \<Rightarrow> None | Some s \<Rightarrow> parse_time s)"

definition list_subset :: "string list \<Rightarrow> string list \<Rightarrow> bool" where
  "list_subset xs ys = list_all (\<lambda>x. x \<in> set ys) xs"

text \<open>\<open>_check_common_lists\<close>, and the same checks of \<open>_parse_format1\<close>.\<close>

definition check_common_lists :: "nat \<Rightarrow> json \<Rightarrow> registry_fault + string list \<times> string list \<times> string list" where
  "check_common_lists i r =
     (case jstrings r ''scopes'' of
        None \<Rightarrow> Inl (malformed i r ScopesNotStrings)
      | Some scopes \<Rightarrow>
     (case sort (filter (\<lambda>s. s \<in> set scopes) REJECTED_SCOPES) of
        s # _ \<Rightarrow> Inl (malformed i r (ScopeRejected s))
      | [] \<Rightarrow>
     (case jstrings r ''names'' of
        None \<Rightarrow> Inl (malformed i r BadNames)
      | Some names \<Rightarrow>
        if \<not> list_all (\<lambda>n. 0 < length n \<and> length n \<le> 128) names then Inl (malformed i r BadNames)
        else
     (case jstrings r ''event_prefixes'' of
        None \<Rightarrow> Inl (malformed i r BadPrefixes)
      | Some prefixes \<Rightarrow>
        if \<not> list_all valid_event_prefix prefixes then Inl (malformed i r BadPrefixes)
        else Inr (scopes, names, prefixes)))))"

definition status_problem :: "json option \<Rightarrow> row_fault" where
  "status_problem st = (case st of None \<Rightarrow> StatusMissing | Some JNull \<Rightarrow> StatusMissing | Some _ \<Rightarrow> BadStatus)"

section \<open>Identity collisions\<close>

definition verifier_scoped_without_prefix :: "op_row \<Rightarrow> bool" where
  "verifier_scoped_without_prefix r =
     (let scopes = row_scopes r in
      if row_status r \<noteq> ''active'' \<or> ''*'' \<in> set scopes then False
      else list_subset VERIFIER_SCOPE_CORE scopes
        \<and> list_ex (\<lambda>s. s \<in> set scopes) VERIFIER_SCOPE_MINT
        \<and> \<not> starts_with LIST_BOUND_PREFIX (row_id r))"

definition verifier_prefixed_with_bypass :: "op_row \<Rightarrow> bool" where
  "verifier_prefixed_with_bypass r =
     (row_status r = ''active'' \<and> ''bypass_operator_list'' \<in> set (row_scopes r)
      \<and> starts_with LIST_BOUND_PREFIX (row_id r))"

fun duplicate_id :: "string list \<Rightarrow> op_row list \<Rightarrow> collision option" where
  "duplicate_id seen [] = None"
| "duplicate_id seen (r # rs) =
     (if row_id r \<in> set seen then Some (DuplicateId (shown_oid (row_id r)))
      else duplicate_id (row_id r # seen) rs)"

text \<open>The aliases of every row in file order, against the ids and the owners so far.\<close>

fun alias_problem :: "string list \<Rightarrow> (string \<times> string) list \<Rightarrow> (string \<times> string) list \<Rightarrow> collision option" where
  "alias_problem seen owner_of [] = None"
| "alias_problem seen owner_of ((n, oid) # rest) =
     (if n = ''*'' then Some (AliasStar (shown_oid oid))
      else if n = BREAKGLASS_ID \<and> oid \<noteq> BREAKGLASS_ID then
        Some (AliasBreakglass (shown_name n) (shown_oid oid))
      else if n \<in> set seen then Some (AliasIsId (shown_name n) (shown_oid oid))
      else case map_of owner_of n of
        Some owner \<Rightarrow> if owner \<noteq> oid then Some (AliasShared (shown_name n) (shown_oid owner) (shown_oid oid))
          else alias_problem seen ((n, oid) # owner_of) rest
      | None \<Rightarrow> alias_problem seen ((n, oid) # owner_of) rest)"

definition row_aliases :: "op_row list \<Rightarrow> (string \<times> string) list" where
  "row_aliases rows = concat (map (\<lambda>r. map (\<lambda>n. (n, row_id r)) (row_names r)) rows)"

definition validate_rows :: "op_row list \<Rightarrow> collision option" where
  "validate_rows rows =
     (case duplicate_id [] rows of Some c \<Rightarrow> Some c | None \<Rightarrow>
     (case first_some (\<lambda>r. if verifier_scoped_without_prefix r
             then Some (VerifierUnprefixed (shown_oid (row_id r))) else None) rows of Some c \<Rightarrow> Some c | None \<Rightarrow>
     (case first_some (\<lambda>r. if verifier_prefixed_with_bypass r
             then Some (VerifierBypass (shown_oid (row_id r))) else None) rows of Some c \<Rightarrow> Some c | None \<Rightarrow>
      alias_problem (map row_id rows) [] (row_aliases rows))))"

section \<open>Format 1\<close>

definition format1_row :: "nat \<Rightarrow> json \<Rightarrow> registry_fault + op_row" where
  "format1_row i r =
     (case r of JObj _ \<Rightarrow>
       (case jstring r ''operator_id'' of None \<Rightarrow> Inl (malformed i r IdMissing) | Some oid \<Rightarrow>
       (case jstring r ''key_sha256'' of None \<Rightarrow> Inl (malformed i r BadKeyHash) | Some key \<Rightarrow>
        if \<not> HEX64 key then Inl (malformed i r BadKeyHash)
        else
       (case jstring r ''status'' of None \<Rightarrow> Inl (malformed i r (status_problem (jget r ''status''))) | Some status \<Rightarrow>
        if status \<notin> set STATUSES then Inl (malformed i r BadStatus)
        else bindE (check_common_lists i r) (\<lambda>(scopes, names, prefixes).
          Inr \<lparr>row_id = oid, row_key = key, row_status = status, row_scopes = scopes, row_names = names,
               row_prefixes = prefixes, row_format = 1, row_rotation = None, row_expiry = None,
               row_next = None, row_auth = [''key''], row_passkeys = [], row_refused = []\<rparr>))))
      | _ \<Rightarrow> Inl (malformed i r NotAnObject))"

definition finish_rows :: "bool \<Rightarrow> op_row list \<Rightarrow> registry_fault + op_row list" where
  "finish_rows require_active rows =
     (case validate_rows rows of Some c \<Rightarrow> Inl (Ambiguous c) | None \<Rightarrow>
      if require_active \<and> \<not> list_ex (\<lambda>r. row_status r = ''active'') rows then Inl NoActiveRows
      else Inr rows)"

definition parse_format1 :: "bool \<Rightarrow> json \<Rightarrow> registry_fault + op_row list" where
  "parse_format1 require_active raw =
     (let rows = (case raw of JObj _ \<Rightarrow> jget raw ''operators'' | _ \<Rightarrow> Some raw) in
      case rows of Some (JArr rs) \<Rightarrow>
        bindE (loopE (\<lambda>i acc r. bindE (format1_row i r) (\<lambda>row. Inr (acc @ [row]))) 1 [] rs)
          (finish_rows require_active)
      | _ \<Rightarrow> Inl NotAList)"

section \<open>Format 2\<close>

definition same_fields :: "string list \<Rightarrow> string list \<Rightarrow> bool" where
  "same_fields xs ys = (list_subset xs ys \<and> list_subset ys xs)"

definition check_passkey :: "nat \<Rightarrow> json \<Rightarrow> json \<Rightarrow> registry_fault + json" where
  "check_passkey i r pk =
     (case pk of JObj _ \<Rightarrow>
        if \<not> same_fields (jkeys pk) PASSKEY_FIELDS then Inl (malformed i r PasskeyFields)
        else if \<not> (case jstring pk ''credential_id'' of Some s \<Rightarrow> charset_ok ''_-'' 16 1366 s | None \<Rightarrow> False)
          then Inl (malformed i r PasskeyCredential)
        else if \<not> (case jstring pk ''public_key_spki'' of Some s \<Rightarrow> charset_ok ''_-'' 40 2048 s | None \<Rightarrow> False)
          then Inl (malformed i r PasskeySpki)
        else if \<not> (case jstring pk ''alg'' of Some s \<Rightarrow> s \<in> set PASSKEY_ALGS | None \<Rightarrow> False)
          then Inl (malformed i r PasskeyAlg)
        else if jtime pk ''enrolled_at'' = None then Inl (malformed i r PasskeyEnrolled)
        else if \<not> (case jstring pk ''label'' of
              Some s \<Rightarrow> charset_ok '' ._@()-'' 1 64 s \<and> \<not> starts_with KEY_PREFIX s | None \<Rightarrow> False)
          then Inl (malformed i r PasskeyLabel)
        else (case jget pk ''hardware'' of Some (JBool _) \<Rightarrow> Inr pk | _ \<Rightarrow> Inl (malformed i r PasskeyHardware))
      | _ \<Rightarrow> Inl (malformed i r PasskeyFields))"

definition parse_passkeys :: "nat \<Rightarrow> json \<Rightarrow> registry_fault + json list" where
  "parse_passkeys i r =
     (case jget r ''passkeys'' of Some (JArr pks) \<Rightarrow>
        loopE (\<lambda>_ out pk. bindE (check_passkey i r pk) (\<lambda>p. Inr (out @ [p]))) 1 [] pks
      | _ \<Rightarrow> Inl (malformed i r PasskeysNotList))"

definition parse_next_key :: "nat \<Rightarrow> json \<Rightarrow> string \<Rightarrow> registry_fault + next_slot option" where
  "parse_next_key i r status =
     (case jget r ''next_key'' of None \<Rightarrow> Inr None
      | Some nk \<Rightarrow>
        if \<not> (case nk of JObj _ \<Rightarrow> same_fields (jkeys nk) NEXT_KEY_FIELDS | _ \<Rightarrow> False)
          then Inl (malformed i r NextKeyFields)
        else (case jstring nk ''key_sha256'' of None \<Rightarrow> Inl (malformed i r NextKeyHash) | Some h \<Rightarrow>
          if \<not> HEX64 h then Inl (malformed i r NextKeyHash)
          else (case (jtime nk ''not_before'', jtime nk ''not_after'') of
              (Some nb, Some na) \<Rightarrow>
                if \<not> nb < na then Inl (malformed i r NextKeyOrder)
                else if status = ''revoked'' then Inl (malformed i r RevokedHasNext)
                else Inr (Some \<lparr>nk_hash = h, nk_not_before = nb, nk_not_after = na\<rparr>)
            | _ \<Rightarrow> Inl (malformed i r NextKeyTimes))))"

definition parse_auth_methods :: "nat \<Rightarrow> json \<Rightarrow> registry_fault + string list" where
  "parse_auth_methods i r =
     (case jget r ''auth'' of None \<Rightarrow> Inr [''key'']
      | Some (JArr js) \<Rightarrow> (case str_items js of
            Some value \<Rightarrow> if value \<noteq> [] \<and> list_subset value AUTH_METHODS \<and> distinct value then Inr value
              else Inl (malformed i r BadAuth)
          | None \<Rightarrow> Inl (malformed i r BadAuth))
      | Some _ \<Rightarrow> Inl (malformed i r BadAuth))"

text \<open>One row of \<open>_parse_format2\<close>, up to the rules that look at other rows.\<close>

definition parse_expiry :: "nat \<Rightarrow> json \<Rightarrow> bool \<Rightarrow> registry_fault + int option" where
  "parse_expiry i r sealed =
     (if sealed then (if jget r ''key_not_after'' \<noteq> None then Inl (malformed i r SealedHasExpiry) else Inr None)
      else if jget r ''key_not_after'' = None then Inl (malformed i r ExpiryMissing)
      else case jtime r ''key_not_after'' of None \<Rightarrow> Inl (malformed i r BadExpiry) | Some t \<Rightarrow> Inr (Some t))"

definition bad_time_field :: "json \<Rightarrow> string option" where
  "bad_time_field r = find (\<lambda>k. jget r k \<noteq> None \<and> jtime r k = None) [''created_at'', ''key_created_at'']"

definition format2_row :: "nat \<Rightarrow> json \<Rightarrow> registry_fault + op_row" where
  "format2_row i r =
     (case r of JObj _ \<Rightarrow>
        if \<not> list_subset (jkeys r) F2_ROW_FIELDS then Inl (malformed i r UnknownFields)
        else if \<not> list_subset F2_ROW_REQUIRED (jkeys r) then Inl (malformed i r MissingFields)
        else
       (case jstring r ''operator_id'' of None \<Rightarrow> Inl (malformed i r BadOperatorId) | Some oid \<Rightarrow>
        if \<not> printable_id oid then Inl (malformed i r BadOperatorId) else
       (case jstring r ''key_sha256'' of None \<Rightarrow> Inl (malformed i r BadKeyHash) | Some key \<Rightarrow>
        if \<not> HEX64 key then Inl (malformed i r BadKeyHash) else
       (case jstring r ''status'' of None \<Rightarrow> Inl (malformed i r (status_problem (jget r ''status''))) | Some status \<Rightarrow>
        if status \<notin> set STATUSES then Inl (malformed i r BadStatus) else
       (case jstring r ''rotation'' of None \<Rightarrow> Inl (malformed i r BadRotation) | Some rotation \<Rightarrow>
        if rotation \<notin> set ROTATIONS then Inl (malformed i r BadRotation) else
        bindE (check_common_lists i r) (\<lambda>(scopes, names, prefixes).
        if \<not> list_all (\<lambda>s. s = ''*'' \<or> s \<in> set ACTIONS) scopes then Inl (malformed i r UnknownScope) else
       (case bad_time_field r of Some k \<Rightarrow> Inl (malformed i r (BadTime k)) | None \<Rightarrow>
        bindE (parse_auth_methods i r) (\<lambda>auth.
        bindE (if jget r ''passkeys'' = None then Inr [] else parse_passkeys i r) (\<lambda>passkeys.
        let sealed = (rotation = ''sealed'') in
        if oid = BREAKGLASS_ID \<and> \<not> sealed then Inl (malformed i r BreakglassNotSealed)
        else if BREAKGLASS_ID \<in> set names \<and> oid \<noteq> BREAKGLASS_ID then Inl (malformed i r BreakglassAlias)
        else
        bindE (parse_expiry i r sealed) (\<lambda>expiry.
        bindE (parse_next_key i r status) (\<lambda>nk.
        if sealed \<and> \<not> list_subset scopes SEALED_SCOPES then Inl (malformed i r SealedScopes)
        else if sealed \<and> auth \<noteq> [''key''] then Inl (malformed i r SealedAuth)
        else if sealed \<and> nk \<noteq> None then Inl (malformed i r SealedNext)
        else if sealed \<and> jget r ''passkeys'' \<noteq> None then Inl (malformed i r SealedPasskeys)
        else Inr \<lparr>row_id = oid, row_key = key, row_status = status, row_scopes = scopes, row_names = names,
               row_prefixes = prefixes, row_format = 2, row_rotation = Some rotation, row_expiry = expiry,
               row_next = nk, row_auth = auth, row_passkeys = passkeys, row_refused = []\<rparr>))))))))))
      | _ \<Rightarrow> Inl (malformed i r NotAnObject))"

text \<open>What the loop of \<open>_parse_format2\<close> keeps: the rows, where each hash and credential was seen,
  and the sealed rows.\<close>

record f2_loop =
  f2_out :: "op_row list"
  hash_row :: "(string \<times> nat) list"
  credential_row :: "(string \<times> nat) list"
  sealed_rows :: "nat list"

definition row_slot_hashes :: "op_row \<Rightarrow> string list" where
  "row_slot_hashes r = row_key r # (case row_next r of Some nk \<Rightarrow> [nk_hash nk] | None \<Rightarrow> [])"

fun note_keys :: "(nat \<Rightarrow> nat \<Rightarrow> registry_fault) \<Rightarrow> nat \<Rightarrow> (string \<times> nat) list \<Rightarrow> string list
    \<Rightarrow> registry_fault + (string \<times> nat) list" where
  "note_keys fault i seen [] = Inr seen"
| "note_keys fault i seen (h # hs) =
     (case map_of seen h of Some first \<Rightarrow> Inl (fault first i)
      | None \<Rightarrow> note_keys fault i ((h, i) # seen) hs)"

definition passkey_credential :: "json \<Rightarrow> string" where
  "passkey_credential pk = (case jstring pk ''credential_id'' of Some s \<Rightarrow> s | None \<Rightarrow> [])"

definition format2_step :: "nat \<Rightarrow> f2_loop \<Rightarrow> json \<Rightarrow> registry_fault + f2_loop" where
  "format2_step i st r =
     bindE (format2_row i r) (\<lambda>row.
     bindE (note_keys HashTwice i (hash_row st) (row_slot_hashes row)) (\<lambda>hashes.
     bindE (note_keys CredentialTwice i (credential_row st) (map passkey_credential (row_passkeys row))) (\<lambda>creds.
     Inr \<lparr>f2_out = f2_out st @ [row], hash_row = hashes, credential_row = creds,
          sealed_rows = sealed_rows st @ (if row_rotation row = Some ''sealed'' then [i] else [])\<rparr>)))"

definition parse_format2 :: "bool \<Rightarrow> json \<Rightarrow> registry_fault + registry_doc" where
  "parse_format2 require_active raw =
     (if \<not> list_subset (jkeys raw) F2_TOP_FIELDS then Inl TopUnknown
      else if \<not> list_subset F2_TOP_REQUIRED (jkeys raw) then Inl TopMissing
      else
     (case jget raw ''generation'' of Some (JInt generation) \<Rightarrow>
        if generation < 1 then Inl BadGeneration
        else if jget raw ''issued_at'' \<noteq> None \<and> jtime raw ''issued_at'' = None then Inl BadIssuedAt
        else if jget raw ''issued_by'' \<noteq> None
          \<and> \<not> (case jstring raw ''issued_by'' of Some s \<Rightarrow> printable_id s | None \<Rightarrow> False) then Inl BadIssuedBy
        else
       (case jget raw ''operators'' of Some (JArr rs) \<Rightarrow>
          bindE (loopE format2_step 1 \<lparr>f2_out = [], hash_row = [], credential_row = [], sealed_rows = []\<rparr> rs) (\<lambda>st.
          if 1 < length (sealed_rows st) then Inl (TwoSealed (sealed_rows st ! 0) (sealed_rows st ! 1))
          else bindE (finish_rows require_active (f2_out st)) (\<lambda>rows.
            Inr \<lparr>doc_format = 2, doc_generation = generation, doc_rows = rows,
                 doc_issued_at = jtime raw ''issued_at'', doc_issued_by = jstring raw ''issued_by''\<rparr>))
        | _ \<Rightarrow> Inl NotAList)
      | _ \<Rightarrow> Inl BadGeneration))"

section \<open>A document\<close>

definition registry_format :: "json \<Rightarrow> registry_fault + nat" where
  "registry_format raw =
     (case jget raw ''format'' of None \<Rightarrow> Inr 1
      | Some (JInt v) \<Rightarrow> if v = 1 then Inr 1 else if v = 2 then Inr 2 else Inl BadFormat
      | Some _ \<Rightarrow> Inl BadFormat)"

definition refuse_format2_fields :: "json \<Rightarrow> registry_fault + unit" where
  "refuse_format2_fields raw =
     (if list_ex (\<lambda>k. k \<in> set F2_ONLY_TOP_FIELDS) (jkeys raw) then Inl TopNeedsFormat2
      else let rows = (case raw of JObj _ \<Rightarrow> jget raw ''operators'' | _ \<Rightarrow> Some raw) in
        case rows of Some (JArr rs) \<Rightarrow>
          loopE (\<lambda>i _ r. if list_ex (\<lambda>k. k \<in> set F2_ONLY_ROW_FIELDS) (jkeys r)
                 then Inl (malformed i r NeedsFormat2) else Inr ()) 1 () rs
        | _ \<Rightarrow> Inr ())"

definition parse_registry_doc :: "bool \<Rightarrow> json \<Rightarrow> registry_fault + registry_doc" where
  "parse_registry_doc require_active raw =
     bindE (registry_format raw) (\<lambda>fmt.
       if fmt = 2 then parse_format2 require_active raw
       else bindE (refuse_format2_fields raw) (\<lambda>_.
            bindE (parse_format1 require_active raw) (\<lambda>rows.
            Inr \<lparr>doc_format = 1, doc_generation = 0, doc_rows = rows, doc_issued_at = None, doc_issued_by = None\<rparr>)))"

text \<open>
  \<open>json.loads\<close> with \<open>_no_duplicate_keys\<close>: the decoder's pairs, refused when an object repeats a
  key at any depth.
\<close>

fun no_duplicate_keys :: "json \<Rightarrow> bool" where
  "no_duplicate_keys (JArr js) = list_all no_duplicate_keys js"
| "no_duplicate_keys (JObj kvs) = (distinct (map fst kvs) \<and> list_all (\<lambda>(k, v). no_duplicate_keys v) kvs)"
| "no_duplicate_keys _ = True"

datatype file_read = ReadFails | NotJson | Decoded json

definition decode_registry_document :: "file_read \<Rightarrow> registry_fault + json" where
  "decode_registry_document f =
     (case f of ReadFails \<Rightarrow> Inl Unreadable | NotJson \<Rightarrow> Inl Undecodable
      | Decoded j \<Rightarrow> if no_duplicate_keys j then Inr j else Inl DuplicateJsonKey)"

section \<open>What an accepted file promises\<close>

text \<open>The identity rules: one row per id, an alias names one operator and is nobody's id.\<close>

definition alias_sound :: "string list \<Rightarrow> string \<times> string \<Rightarrow> bool" where
  "alias_sound ids a = (fst a \<noteq> ''*'' \<and> (fst a = BREAKGLASS_ID \<longrightarrow> snd a = BREAKGLASS_ID) \<and> fst a \<notin> set ids)"

definition one_owner :: "(string \<times> string) list \<Rightarrow> bool" where
  "one_owner as = (\<forall>n x y. (n, x) \<in> set as \<longrightarrow> (n, y) \<in> set as \<longrightarrow> x = y)"

definition identities_sound :: "op_row list \<Rightarrow> bool" where
  "identities_sound rows =
     (distinct (map row_id rows)
      \<and> (\<forall>r \<in> set rows. \<not> verifier_scoped_without_prefix r \<and> \<not> verifier_prefixed_with_bypass r)
      \<and> (\<forall>a \<in> set (row_aliases rows). alias_sound (map row_id rows) a)
      \<and> one_owner (row_aliases rows))"

lemma one_owner_sub: "one_owner bs \<Longrightarrow> set as \<subseteq> set bs \<Longrightarrow> one_owner as"
  unfolding one_owner_def by blast
lemma one_owner_Cons:
  "one_owner ((n, x) # as) \<longleftrightarrow> one_owner as \<and> (\<forall>y. (n, y) \<in> set as \<longrightarrow> x = y)"
proof (intro iffI conjI)
  assume o: "one_owner ((n, x) # as)"
  then show "one_owner as" by (rule one_owner_sub) auto
  from o have "(n, y) \<in> set as \<Longrightarrow> x = y" for y unfolding one_owner_def by (meson list.set_intros)
  then show "\<forall>y. (n, y) \<in> set as \<longrightarrow> x = y" by simp
next
  assume o: "one_owner as \<and> (\<forall>y. (n, y) \<in> set as \<longrightarrow> x = y)"
  show "one_owner ((n, x) # as)"
    unfolding one_owner_def
  proof (intro allI impI)
    fix m y z
    assume "(m, y) \<in> set ((n, x) # as)" "(m, z) \<in> set ((n, x) # as)"
    with o show "y = z" unfolding one_owner_def by (cases "m = n") auto
  qed
qed

lemma one_owner_cong: "set as = set bs \<Longrightarrow> one_owner as = one_owner bs"
  by (simp add: one_owner_def)

lemma one_owner_map_of: "one_owner as \<Longrightarrow> (n, x) \<in> set as \<Longrightarrow> map_of as n = Some x"
proof (induction as)
  case (Cons a as)
  then show ?case by (cases a) (auto simp: one_owner_Cons)
qed simp

lemma duplicate_id_None_iff:
  "duplicate_id seen rows = None \<longleftrightarrow> distinct (map row_id rows) \<and> set (map row_id rows) \<inter> set seen = {}"
  by (induction seen rows rule: duplicate_id.induct) auto

lemma alias_problem_Cons:
  assumes "one_owner owners"
  shows "alias_problem ids owners ((n, x) # as) = None \<longleftrightarrow>
    alias_sound ids (n, x) \<and> one_owner ((n, x) # owners) \<and> alias_problem ids ((n, x) # owners) as = None"
proof (cases "map_of owners n")
  case None
  then have "\<forall>y. (n, y) \<notin> set owners" by (force simp: map_of_eq_None_iff)
  with None assms show ?thesis by (simp add: alias_sound_def one_owner_Cons)
next
  case (Some y)
  then have "(n, y) \<in> set owners" by (rule map_of_SomeD)
  moreover have "y = z" if "(n, z) \<in> set owners" for z
    using one_owner_map_of [OF assms that] Some by simp
  ultimately have owner: "(\<forall>z. (n, z) \<in> set owners \<longrightarrow> x = z) \<longleftrightarrow> y = x" by blast
  show ?thesis
    unfolding one_owner_Cons owner using Some assms by (simp add: alias_sound_def)
qed

lemma alias_problem_None_iff:
  "one_owner owners \<Longrightarrow> alias_problem ids owners as = None \<longleftrightarrow>
    (\<forall>a \<in> set as. alias_sound ids a) \<and> one_owner (as @ owners)"
proof (induction as arbitrary: owners)
  case (Cons a as)
  obtain n x where a: "a = (n, x)" by (cases a)
  have same: "one_owner ((a # as) @ owners) = one_owner (as @ a # owners)"
    by (rule one_owner_cong) auto
  have sub: "one_owner (as @ a # owners) \<Longrightarrow> one_owner (a # owners)"
    by (rule one_owner_sub, assumption, auto)
  show ?case
    unfolding same using alias_problem_Cons [OF Cons.prems, of ids n x as] Cons.IH [of "a # owners"] sub
    by (auto simp: a)
qed simp

lemma validate_rows_None_iff: "validate_rows rows = None \<longleftrightarrow> identities_sound rows"
proof -
  have "validate_rows rows = None \<longleftrightarrow>
      duplicate_id [] rows = None
      \<and> (\<forall>r \<in> set rows. \<not> verifier_scoped_without_prefix r) \<and> (\<forall>r \<in> set rows. \<not> verifier_prefixed_with_bypass r)
      \<and> alias_problem (map row_id rows) [] (row_aliases rows) = None"
    unfolding validate_rows_def case_or_None_iff by (simp add: first_some_None_iff)
  then show ?thesis
    by (auto simp: identities_sound_def duplicate_id_None_iff alias_problem_None_iff one_owner_def)
qed

text \<open>The rules of a row, by format.\<close>

definition row_sound :: "op_row \<Rightarrow> bool" where
  "row_sound r =
     (HEX64 (row_key r) \<and> row_status r \<in> set STATUSES
      \<and> set (row_scopes r) \<inter> set REJECTED_SCOPES = {}
      \<and> (\<forall>n \<in> set (row_names r). 1 \<le> length n \<and> length n \<le> 128)
      \<and> list_all valid_event_prefix (row_prefixes r) \<and> row_refused r = [])"

definition sealed :: "op_row \<Rightarrow> bool" where
  "sealed r = (row_rotation r = Some ''sealed'')"

text \<open>A passkey of a format-2 row: a closed object of public material in the allowed alphabets.\<close>

definition field_is :: "json \<Rightarrow> string \<Rightarrow> (string \<Rightarrow> bool) \<Rightarrow> bool" where
  "field_is j k P = (\<exists>s. jget j k = Some (JStr s) \<and> P s)"

definition passkey_sound :: "json \<Rightarrow> bool" where
  "passkey_sound pk =
     (set (jkeys pk) = set PASSKEY_FIELDS
      \<and> field_is pk ''credential_id'' (charset_ok ''_-'' 16 1366)
      \<and> field_is pk ''public_key_spki'' (charset_ok ''_-'' 40 2048)
      \<and> field_is pk ''alg'' (\<lambda>s. s \<in> set PASSKEY_ALGS)
      \<and> field_is pk ''enrolled_at'' (\<lambda>s. parse_time s \<noteq> None)
      \<and> field_is pk ''label'' (\<lambda>s. charset_ok '' ._@()-'' 1 64 s \<and> \<not> starts_with KEY_PREFIX s)
      \<and> (\<exists>b. jget pk ''hardware'' = Some (JBool b)))"

definition row_sound2 :: "op_row \<Rightarrow> bool" where
  "row_sound2 r =
     (row_sound r \<and> row_format r = 2 \<and> printable_id (row_id r)
      \<and> set (row_scopes r) \<subseteq> insert ''*'' (set ACTIONS)
      \<and> row_rotation r \<in> Some ` set ROTATIONS
      \<and> row_auth r \<noteq> [] \<and> distinct (row_auth r) \<and> set (row_auth r) \<subseteq> set AUTH_METHODS
      \<and> (\<forall>pk \<in> set (row_passkeys r). passkey_sound pk)
      \<and> (row_id r = BREAKGLASS_ID \<longrightarrow> sealed r)
      \<and> (BREAKGLASS_ID \<in> set (row_names r) \<longrightarrow> row_id r = BREAKGLASS_ID)
      \<and> (if sealed r then row_expiry r = None \<and> row_next r = None \<and> row_auth r = [''key'']
           \<and> row_passkeys r = [] \<and> set (row_scopes r) \<subseteq> set SEALED_SCOPES
         else row_expiry r \<noteq> None)
      \<and> (case row_next r of None \<Rightarrow> True
         | Some nk \<Rightarrow> HEX64 (nk_hash nk) \<and> nk_not_before nk < nk_not_after nk \<and> row_status r = ''active''))"

definition row_sound1 :: "op_row \<Rightarrow> bool" where
  "row_sound1 r = (row_format r = 1 \<and> row_rotation r = None \<and> row_expiry r = None \<and> row_next r = None
     \<and> row_auth r = [''key''] \<and> row_passkeys r = [])"

definition row_credentials :: "op_row \<Rightarrow> string list" where
  "row_credentials r = map passkey_credential (row_passkeys r)"

definition doc_sound :: "bool \<Rightarrow> registry_doc \<Rightarrow> bool" where
  "doc_sound require_active d =
     (identities_sound (doc_rows d)
      \<and> (\<forall>r \<in> set (doc_rows d). row_sound r)
      \<and> (require_active \<longrightarrow> (\<exists>r \<in> set (doc_rows d). row_status r = ''active''))
      \<and> (if doc_format d = 2
         then 1 \<le> doc_generation d \<and> (\<forall>r \<in> set (doc_rows d). row_sound2 r)
           \<and> distinct (concat (map row_slot_hashes (doc_rows d)))
           \<and> distinct (concat (map row_credentials (doc_rows d)))
           \<and> length (filter sealed (doc_rows d)) \<le> 1
         else doc_format d = 1 \<and> doc_generation d = 0
           \<and> (\<forall>r \<in> set (doc_rows d). row_sound1 r)))"

text \<open>Nothing of the file is partly honoured: the rows are the file's, one for one and field by
  field, and in format 2 the file's objects have no field outside the closed schema.\<close>

definition row_reads :: "json \<Rightarrow> op_row \<Rightarrow> bool" where
  "row_reads r row =
     (jstring r ''operator_id'' = Some (row_id row) \<and> jstring r ''key_sha256'' = Some (row_key row)
      \<and> jstring r ''status'' = Some (row_status row) \<and> jstrings r ''scopes'' = Some (row_scopes row)
      \<and> jstrings r ''names'' = Some (row_names row) \<and> jstrings r ''event_prefixes'' = Some (row_prefixes row)
      \<and> (row_format row = 2 \<longrightarrow> set (jkeys r) \<subseteq> set F2_ROW_FIELDS \<and> jstring r ''rotation'' = row_rotation row
           \<and> (\<forall>t. row_expiry row = Some t \<longrightarrow> jtime r ''key_not_after'' = Some t)))"

definition file_rows :: "json \<Rightarrow> json list" where
  "file_rows raw = (case raw of JObj _ \<Rightarrow> (case jget raw ''operators'' of Some (JArr rs) \<Rightarrow> rs | _ \<Rightarrow> [])
     | JArr rs \<Rightarrow> rs | _ \<Rightarrow> [])"

definition reads_whole_file :: "json \<Rightarrow> registry_doc \<Rightarrow> bool" where
  "reads_whole_file raw d =
     (list_all2 row_reads (file_rows raw) (doc_rows d)
      \<and> (doc_format d = 2 \<longrightarrow> set (jkeys raw) \<subseteq> set F2_TOP_FIELDS
           \<and> jget raw ''generation'' = Some (JInt (doc_generation d))))"

lemma check_common_lists_sound:
  assumes "check_common_lists i r = Inr (scopes, names, prefixes)"
  shows "set scopes \<inter> set REJECTED_SCOPES = {} \<and> (\<forall>n \<in> set names. 1 \<le> length n \<and> length n \<le> 128)
    \<and> list_all valid_event_prefix prefixes
    \<and> jstrings r ''scopes'' = Some scopes \<and> jstrings r ''names'' = Some names
    \<and> jstrings r ''event_prefixes'' = Some prefixes"
proof -
  have "sort (filter (\<lambda>s. s \<in> set scopes) REJECTED_SCOPES) = [] \<longleftrightarrow> set scopes \<inter> set REJECTED_SCOPES = {}"
    unfolding set_empty [symmetric] set_sort by auto
  with assms show ?thesis
    by (auto simp: check_common_lists_def list_all_iff Suc_le_eq simp del: sort_key_simps
        split: option.splits list.splits if_splits)
qed

lemma format1_row_sound:
  assumes "format1_row i r = Inr row"
  shows "row_sound row \<and> row_sound1 row \<and> row_reads r row"
  using assms
  by (auto simp: format1_row_def row_sound_def row_sound1_def row_reads_def bindE_Inr_iff
      split: json.splits option.splits if_splits dest!: check_common_lists_sound)

text \<open>A loop that appends one result per element pairs the elements with its results.\<close>

lemma loopE_collects:
  assumes "loopE f i s xs = Inr t"
    and "\<And>j u x v. x \<in> set xs \<Longrightarrow> f j u x = Inr v \<Longrightarrow> \<exists>y. out v = out u @ [y] \<and> R x y"
  shows "\<exists>ys. out t = out s @ ys \<and> list_all2 R xs ys"
  using assms
proof (induction xs arbitrary: i s)
  case (Cons x xs)
  from Cons.prems(1) obtain s' where s': "f i s x = Inr s'" "loopE f (i + 1) s' xs = Inr t"
    by (auto simp: bindE_Inr_iff)
  from Cons.prems(2) [OF _ s'(1)] obtain y where y: "out s' = out s @ [y]" "R x y" by auto
  from Cons.IH [OF s'(2)] Cons.prems(2) obtain ys where "out t = out s' @ ys" "list_all2 R xs ys"
    by (metis list.set_intros(2))
  with y show ?case by (intro exI [of _ "y # ys"]) simp
qed simp

lemma finish_rows_sound:
  assumes "finish_rows ra rows = Inr rows'"
  shows "rows' = rows \<and> identities_sound rows \<and> (ra \<longrightarrow> (\<exists>r \<in> set rows. row_status r = ''active''))"
  using assms by (auto simp: finish_rows_def validate_rows_None_iff list_ex_iff split: option.splits if_splits)

lemma parse_format1_sound:
  assumes "parse_format1 ra raw = Inr rows"
  defines "d \<equiv> \<lparr>doc_format = 1, doc_generation = 0, doc_rows = rows, doc_issued_at = None, doc_issued_by = None\<rparr>"
  shows "doc_sound ra d \<and> reads_whole_file raw d"
proof -
  let ?R = "\<lambda>r row. row_sound row \<and> row_sound1 row \<and> row_reads r row"
  let ?f = "\<lambda>i acc r. bindE (format1_row i r) (\<lambda>row. Inr (acc @ [row]))"
  from assms(1) obtain acc where loop: "loopE ?f 1 [] (file_rows raw) = Inr acc"
    and fin: "finish_rows ra acc = Inr rows"
    by (auto simp: parse_format1_def file_rows_def Let_def bindE_Inr_iff split: option.splits json.splits)
  have "\<exists>ys. id acc = id [] @ ys \<and> list_all2 ?R (file_rows raw) ys"
    by (rule loopE_collects [where f = ?f and out = id and R = ?R, OF loop])
      (auto simp: bindE_Inr_iff dest!: format1_row_sound)
  then have all: "list_all2 ?R (file_rows raw) acc" by simp
  then have "list_all2 row_reads (file_rows raw) acc" by (rule list_all2_mono) simp
  moreover from all have "\<forall>r \<in> set acc. row_sound r \<and> row_sound1 r"
    by (metis (no_types, lifting) in_set_conv_nth list_all2_conv_all_nth)
  ultimately show ?thesis using finish_rows_sound [OF fin]
    by (simp add: d_def doc_sound_def reads_whole_file_def)
qed


lemma option_case_Inl_Inr:
  "(case x of None \<Rightarrow> Inl e | Some y \<Rightarrow> f y) = Inr z \<longleftrightarrow> (\<exists>y. x = Some y \<and> f y = Inr z)"
  by (cases x) auto

lemma parse_next_key_sound:
  assumes "parse_next_key i r status = Inr nk" and "status \<in> set STATUSES"
  shows "case nk of None \<Rightarrow> True
    | Some s \<Rightarrow> HEX64 (nk_hash s) \<and> nk_not_before s < nk_not_after s \<and> status = ''active''"
  using assms
  by (auto simp: parse_next_key_def STATUSES_def split: option.splits if_splits)

lemma parse_expiry_sound:
  assumes "parse_expiry i r s = Inr e"
  shows "if s then e = None else e \<noteq> None"
  using assms by (auto simp: parse_expiry_def option_case_Inl_Inr split: if_splits)

lemma list_subset_iff: "list_subset xs ys \<longleftrightarrow> set xs \<subseteq> set ys"
  by (auto simp: list_subset_def list_all_iff)

lemma prod_case_Inr: "(case p of (a, b, c) \<Rightarrow> f a b c) = Inr z \<longleftrightarrow> (\<exists>a b c. p = (a, b, c) \<and> f a b c = Inr z)"
  by (cases p) auto

lemma some_string_iff:
  "(case jstring j k of Some s \<Rightarrow> P s | None \<Rightarrow> False) \<longleftrightarrow> field_is j k P"
  by (auto simp: jstring_def field_is_def split: option.splits json.splits)

lemma jtime_iff: "jtime j k \<noteq> None \<longleftrightarrow> field_is j k (\<lambda>s. parse_time s \<noteq> None)"
  by (auto simp: jtime_def jstring_def field_is_def split: option.splits json.splits)

lemma some_bool_iff:
  "(case v of Some (JBool _) \<Rightarrow> Inr x | _ \<Rightarrow> Inl e) = Inr y \<longleftrightarrow> (\<exists>b. v = Some (JBool b)) \<and> x = y"
  by (auto split: option.splits json.splits)

lemma same_fields_iff: "same_fields xs ys \<longleftrightarrow> set xs = set ys"
  by (auto simp: same_fields_def list_subset_iff)

lemma check_passkey_sound:
  assumes "check_passkey i r pk = Inr p"
  shows "p = pk \<and> passkey_sound pk"
proof (cases pk)
  case (JObj kvs)
  have "check_passkey i r pk = Inr p \<longleftrightarrow> passkey_sound pk \<and> pk = p"
    unfolding check_passkey_def JObj json.case
    unfolding JObj [symmetric] some_string_iff some_bool_iff if_Inl_Inr same_fields_iff passkey_sound_def
      jtime_iff [symmetric]
    by auto
  with assms show ?thesis by blast
qed (use assms in \<open>simp_all add: check_passkey_def\<close>)

lemma parse_passkeys_sound:
  assumes "parse_passkeys i r = Inr pks"
  shows "\<forall>pk \<in> set pks. passkey_sound pk"
proof -
  let ?f = "\<lambda>_ out pk. bindE (check_passkey i r pk) (\<lambda>p. Inr (out @ [p]))"
  from assms obtain js where loop: "loopE ?f 1 [] js = Inr pks"
    by (auto simp: parse_passkeys_def split: option.splits json.splits)
  show ?thesis
    by (rule loopE_inv [where f = ?f and P = "\<lambda>out. \<forall>pk \<in> set out. passkey_sound pk", OF loop])
      (auto simp: bindE_Inr_iff dest!: check_passkey_sound)
qed

lemma parse_auth_methods_sound:
  assumes "parse_auth_methods i r = Inr auth"
  shows "auth \<noteq> [] \<and> distinct auth \<and> set auth \<subseteq> set AUTH_METHODS"
  using assms
  by (auto simp: parse_auth_methods_def AUTH_METHODS_def list_subset_iff split: option.splits json.splits if_splits)

lemma parse_expiry_reads: "parse_expiry i r s = Inr (Some t) \<Longrightarrow> jtime r ''key_not_after'' = Some t"
  by (auto simp: parse_expiry_def option_case_Inl_Inr split: if_splits)

lemma format2_row_sound:
  assumes "format2_row i r = Inr row"
  shows "row_sound2 row \<and> row_reads r row"
proof -
  obtain oid key status rotation scopes names prefixes auth passkeys expiry nk where
    f: "list_subset (jkeys r) F2_ROW_FIELDS"
    and id: "jstring r ''operator_id'' = Some oid" "printable_id oid"
    and key: "jstring r ''key_sha256'' = Some key" "HEX64 key"
    and st: "jstring r ''status'' = Some status" "status \<in> set STATUSES"
    and rot: "jstring r ''rotation'' = Some rotation" "rotation \<in> set ROTATIONS"
    and common: "check_common_lists i r = Inr (scopes, names, prefixes)"
    and scopes: "list_all (\<lambda>s. s = ''*'' \<or> s \<in> set ACTIONS) scopes"
    and auth: "parse_auth_methods i r = Inr auth"
    and pk: "(if jget r ''passkeys'' = None then Inr [] else parse_passkeys i r) = Inr passkeys"
    and bg: "oid = BREAKGLASS_ID \<longrightarrow> rotation = ''sealed''" "BREAKGLASS_ID \<in> set names \<longrightarrow> oid = BREAKGLASS_ID"
    and e: "parse_expiry i r (rotation = ''sealed'') = Inr expiry"
    and nk: "parse_next_key i r status = Inr nk"
    and s: "rotation = ''sealed'' \<longrightarrow> set scopes \<subseteq> set SEALED_SCOPES \<and> auth = [''key''] \<and> nk = None
              \<and> jget r ''passkeys'' = None"
    and row: "row = \<lparr>row_id = oid, row_key = key, row_status = status, row_scopes = scopes, row_names = names,
       row_prefixes = prefixes, row_format = 2, row_rotation = Some rotation, row_expiry = expiry,
       row_next = nk, row_auth = auth, row_passkeys = passkeys, row_refused = []\<rparr>"
    using assms unfolding format2_row_def
    by (cases r) (auto simp: option_case_Inl_Inr if_Inl_Inr bindE_Inr_iff prod_case_Inr Let_def list_subset_iff
        simp del: bindE_simps split: option.splits)
  have pks: "\<forall>p \<in> set passkeys. passkey_sound p" "rotation = ''sealed'' \<longrightarrow> passkeys = []"
    using pk s by (auto dest: parse_passkeys_sound split: if_splits)
  have "row_sound row"
    using check_common_lists_sound [OF common] key st by (simp add: row_sound_def row)
  moreover have "row_sound2 row" if "row_sound row"
    using that id rot scopes bg s pks parse_expiry_sound [OF e] parse_next_key_sound [OF nk st(2)]
      parse_auth_methods_sound [OF auth]
    by (auto simp: row row_sound2_def sealed_def list_all_iff split: option.splits)
  moreover have "row_reads r row"
    using f id key st rot check_common_lists_sound [OF common] parse_expiry_reads [of i r _] e
    by (auto simp: row row_reads_def list_subset_iff)
  ultimately show ?thesis by blast
qed


lemma note_keys_sound:
  "note_keys fault i seen hs = Inr seen' \<Longrightarrow> distinct (map fst seen) \<Longrightarrow>
     map fst seen' = rev hs @ map fst seen \<and> distinct hs \<and> set hs \<inter> set (map fst seen) = {}"
proof (induction hs arbitrary: seen)
  case (Cons h hs)
  then have n: "map_of seen h = None" "note_keys fault i ((h, i) # seen) hs = Inr seen'"
    by (auto split: option.splits)
  from this(1) have "h \<notin> set (map fst seen)" by (simp add: map_of_eq_None_iff)
  with Cons.IH [OF n(2)] Cons.prems(2) show ?case by auto
qed simp

text \<open>The loop keeps: sound rows, their hashes are exactly the noted ones, the sealed rows are counted.\<close>

definition f2_inv :: "f2_loop \<Rightarrow> bool" where
  "f2_inv st = ((\<forall>r \<in> set (f2_out st). row_sound2 r)
     \<and> map fst (hash_row st) = rev (concat (map row_slot_hashes (f2_out st)))
     \<and> distinct (concat (map row_slot_hashes (f2_out st)))
     \<and> map fst (credential_row st) = rev (concat (map row_credentials (f2_out st)))
     \<and> distinct (concat (map row_credentials (f2_out st)))
     \<and> length (sealed_rows st) = length (filter sealed (f2_out st)))"

lemma note_keys_fold:
  assumes "note_keys fault i seen hs = Inr seen'"
    and "map fst seen = rev (concat hss)" and "distinct (concat hss)"
  shows "map fst seen' = rev (concat (hss @ [hs])) \<and> distinct (concat (hss @ [hs]))"
proof -
  from assms(2,3) have "distinct (map fst seen)" by simp
  from note_keys_sound [OF assms(1) this] assms(2,3) show ?thesis by auto
qed

lemma format2_step_inv:
  assumes "f2_inv st" and "format2_step i st r = Inr st'"
  shows "f2_inv st'"
proof -
  from assms(2) obtain row hashes creds where row: "format2_row i r = Inr row"
    and h: "note_keys HashTwice i (hash_row st) (row_slot_hashes row) = Inr hashes"
    and c: "note_keys CredentialTwice i (credential_row st) (row_credentials row) = Inr creds"
    and st': "st' = \<lparr>f2_out = f2_out st @ [row], hash_row = hashes, credential_row = creds,
          sealed_rows = sealed_rows st @ (if row_rotation row = Some ''sealed'' then [i] else [])\<rparr>"
    by (auto simp: format2_step_def row_credentials_def bindE_Inr_iff)
  from assms(1) show ?thesis
    using note_keys_fold [OF h, of "map row_slot_hashes (f2_out st)"]
      note_keys_fold [OF c, of "map row_credentials (f2_out st)"] format2_row_sound [OF row]
    unfolding f2_inv_def by (simp add: st' sealed_def)
qed

lemma format2_step_reads:
  "format2_step i st r = Inr st' \<Longrightarrow> \<exists>row. f2_out st' = f2_out st @ [row] \<and> row_reads r row"
  by (auto simp: format2_step_def bindE_Inr_iff dest!: format2_row_sound)

lemma parse_format2_sound:
  assumes "parse_format2 ra raw = Inr d"
  shows "doc_sound ra d \<and> reads_whole_file raw d"
proof -
  let ?st0 = "\<lparr>f2_out = [], hash_row = [], credential_row = [], sealed_rows = []\<rparr>"
  from assms obtain g rs st rows where
    top: "list_subset (jkeys raw) F2_TOP_FIELDS" "jget raw ''generation'' = Some (JInt g)"
    and ops: "jget raw ''operators'' = Some (JArr rs)"
    and g: "1 \<le> g" and loop: "loopE format2_step 1 ?st0 rs = Inr st"
    and s: "length (sealed_rows st) \<le> 1" and fin: "finish_rows ra (f2_out st) = Inr rows"
    and d: "doc_format d = 2" "doc_generation d = g" "doc_rows d = rows"
    unfolding parse_format2_def
    by (auto simp: bindE_Inr_iff split: option.splits json.splits if_splits)
  have "file_rows raw = rs" using ops by (auto simp: file_rows_def jget_def split: json.splits)
  moreover have "\<exists>ys. f2_out st = f2_out ?st0 @ ys \<and> list_all2 row_reads rs ys"
    by (rule loopE_collects [OF loop]) (rule format2_step_reads)
  ultimately have "reads_whole_file raw d"
    using top d finish_rows_sound [OF fin] by (auto simp: reads_whole_file_def list_subset_iff)
  moreover have "f2_inv ?st0" by (simp add: f2_inv_def)
  with loop have inv: "f2_inv st"
    by (rule loopE_inv) (erule format2_step_inv, assumption)
  with finish_rows_sound [OF fin] g s d have "doc_sound ra d"
    by (auto simp: doc_sound_def f2_inv_def row_sound2_def)
  ultimately show ?thesis by blast
qed

lemma parse_registry_doc_sound: "parse_registry_doc ra raw = Inr d \<Longrightarrow> doc_sound ra d \<and> reads_whole_file raw d"
  by (auto simp: parse_registry_doc_def bindE_Inr_iff parse_format2_sound dest!: parse_format1_sound split: if_splits)


section \<open>Keys\<close>

text \<open>The clock is epoch seconds, a rational here; a slot's window is in whole seconds.\<close>

definition NO_SLOT :: string where "NO_SLOT = replicate 64 (CHR ''0'')"
definition MAX_RETIRED_HASHES :: nat where "MAX_RETIRED_HASHES = 4096"

definition key_matches :: "string \<Rightarrow> op_row \<Rightarrow> rat \<Rightarrow> bool" where
  "key_matches presented r now =
     (let refused = set (row_refused r) in
      if row_format r \<noteq> 2 then presented = row_key r \<and> row_key r \<notin> refused
      else
        let current_eq = (presented = row_key r);
            next_eq = (presented = (case row_next r of Some nk \<Rightarrow> nk_hash nk | None \<Rightarrow> NO_SLOT));
            current_ok = (current_eq \<and> row_key r \<notin> refused
              \<and> (case row_expiry r of None \<Rightarrow> row_rotation r = Some ''sealed'' | Some t \<Rightarrow> now < of_int t));
            next_ok = (case row_next r of None \<Rightarrow> False
              | Some nk \<Rightarrow> next_eq \<and> nk_hash nk \<notin> refused
                  \<and> of_int (nk_not_before nk) \<le> now \<and> now < of_int (nk_not_after nk))
        in (current_ok \<or> next_ok) \<and> ''key'' \<in> set (row_auth r))"

section \<open>Retired keys\<close>

text \<open>
  \<open>_apply_retired_memory\<close>, per process. A set of hashes is a list without regard to order, the
  \<open>retired\<close> dict an association list in insertion order; where the source iterates over a set, the
  order taken here is that of the file.
\<close>

record retired_mem =
  rm_generation :: "int option"
  rm_hashes :: "string list"
  rm_high_generation :: "int option"
  rm_high_hashes :: "string list"
  rm_retired :: "(string \<times> int) list"

record retired_process =
  rp_state :: "(string \<times> retired_mem) list"
  rp_seen :: "(string \<times> string \<times> int) list"
  rp_count :: nat

definition fresh_mem :: retired_mem where
  "fresh_mem = \<lparr>rm_generation = None, rm_hashes = [], rm_high_generation = None, rm_high_hashes = [], rm_retired = []\<rparr>"

definition doc_hashes :: "registry_doc \<Rightarrow> string list" where
  "doc_hashes d = remdups (concat (map row_slot_hashes (doc_rows d)))"

definition above :: "int \<Rightarrow> int option \<Rightarrow> bool" where
  "above g x = (case x of None \<Rightarrow> False | Some h \<Rightarrow> h < g)"

definition removed_hashes :: "retired_mem \<Rightarrow> int \<Rightarrow> string list \<Rightarrow> string list" where
  "removed_hashes st g present =
     (if above g (rm_generation st) then filter (\<lambda>h. h \<notin> set present) (rm_hashes st) else [])
     @ (if above g (rm_high_generation st) then filter (\<lambda>h. h \<notin> set present) (rm_high_hashes st) else [])"

definition retire_hash :: "int \<Rightarrow> string \<Rightarrow> (string \<times> int) list \<Rightarrow> (string \<times> int) list" where
  "retire_hash g h retired = AList.update h (max g (case map_of retired h of None \<Rightarrow> 0 | Some x \<Rightarrow> x)) retired"

definition trim_retired :: "(string \<times> int) list \<Rightarrow> (string \<times> int) list" where
  "trim_retired retired = (if MAX_RETIRED_HASHES < length retired
     then drop (length retired - MAX_RETIRED_HASHES) (sort_key snd retired) else retired)"

definition retire_load :: "retired_mem \<Rightarrow> registry_doc \<Rightarrow> retired_mem \<times> string list" where
  "retire_load st d =
     (let present = doc_hashes d; g = doc_generation d;
          new_high = (rm_high_generation st = None \<or> above g (rm_high_generation st));
          retired = trim_retired (fold (retire_hash g) (removed_hashes st g present) (rm_retired st));
          st1 = (if new_high then st\<lparr>rm_retired := fold AList.delete present retired,
                     rm_high_generation := Some g, rm_high_hashes := present\<rparr>
                 else st\<lparr>rm_retired := retired\<rparr>);
          st2 = st1\<lparr>rm_generation := Some g, rm_hashes := present\<rparr>;
          returned = filter (\<lambda>h. h \<in> fst ` set (rm_retired st2)
              \<or> (case rm_high_generation st2 of Some hi \<Rightarrow> g < hi \<and> h \<notin> set (rm_high_hashes st2) | None \<Rightarrow> False)) present
      in (st2, returned))"

definition note_sighting :: "string \<Rightarrow> int \<Rightarrow> string \<Rightarrow> retired_process \<Rightarrow> retired_process" where
  "note_sighting path g h p =
     (if (path, h, g) \<notin> set (rp_seen p) \<and> length (rp_seen p) < MAX_RETIRED_HASHES
      then p\<lparr>rp_seen := (path, h, g) # rp_seen p, rp_count := rp_count p + 1\<rparr> else p)"

definition refuse_hashes :: "string list \<Rightarrow> op_row \<Rightarrow> op_row" where
  "refuse_hashes returned r = (let refused = filter (\<lambda>h. h \<in> set returned) (row_slot_hashes r) in
     if refused \<noteq> [] then r\<lparr>row_refused := refused\<rparr> else r)"

definition apply_retired_memory :: "retired_process \<Rightarrow> string \<Rightarrow> registry_doc \<Rightarrow> retired_process \<times> op_row list" where
  "apply_retired_memory p path d =
     (let st = (case map_of (rp_state p) path of None \<Rightarrow> fresh_mem | Some st \<Rightarrow> st);
          (st', returned) = retire_load st d;
          p' = fold (note_sighting path (doc_generation d)) returned (p\<lparr>rp_state := AList.update path st' (rp_state p)\<rparr>)
      in (p', if returned = [] then doc_rows d else map (refuse_hashes returned) (doc_rows d)))"

text \<open>The loads of one process, in order, from the start of the process.\<close>

definition start_process :: retired_process where
  "start_process = \<lparr>rp_state = [], rp_seen = [], rp_count = 0\<rparr>"

definition run_loads :: "(string \<times> registry_doc) list \<Rightarrow> retired_process" where
  "run_loads loads = fold (\<lambda>(path, d) p. fst (apply_retired_memory p path d)) loads start_process"

text \<open>The specification: the newest file is the first one of the highest generation.\<close>

fun newest_from :: "registry_doc option \<Rightarrow> registry_doc list \<Rightarrow> registry_doc option" where
  "newest_from best [] = best"
| "newest_from best (d # ds) =
     newest_from (case best of None \<Rightarrow> Some d
        | Some b \<Rightarrow> if doc_generation b < doc_generation d then Some d else Some b) ds"

definition loads_of :: "string \<Rightarrow> (string \<times> registry_doc) list \<Rightarrow> registry_doc list" where
  "loads_of path loads = map snd (filter (\<lambda>l. fst l = path) loads)"

definition newest_load :: "string \<Rightarrow> (string \<times> registry_doc) list \<Rightarrow> registry_doc option" where
  "newest_load path loads = newest_from None (loads_of path loads)"

lemma newest_from_snoc:
  "newest_from best (ds @ [d]) = (case newest_from best ds of None \<Rightarrow> Some d
     | Some b \<Rightarrow> if doc_generation b < doc_generation d then Some d else Some b)"
  by (induction best ds rule: newest_from.induct) auto

definition high_of :: "registry_doc option \<Rightarrow> retired_mem \<Rightarrow> bool" where
  "high_of best st = (case best of None \<Rightarrow> rm_high_generation st = None
     | Some b \<Rightarrow> rm_high_generation st = Some (doc_generation b) \<and> rm_high_hashes st = doc_hashes b)"

lemma retire_load_high:
  assumes "high_of best st"
  shows "high_of (case best of None \<Rightarrow> Some d
     | Some b \<Rightarrow> if doc_generation b < doc_generation d then Some d else Some b) (fst (retire_load st d))"
  using assms by (auto simp: retire_load_def Let_def high_of_def above_def split: option.splits)

definition memory_of :: "retired_process \<Rightarrow> string \<Rightarrow> retired_mem" where
  "memory_of p path = (case map_of (rp_state p) path of None \<Rightarrow> fresh_mem | Some st \<Rightarrow> st)"

lemma rp_state_note_sighting [simp]: "rp_state (fold (note_sighting path g) hs p) = rp_state p"
  by (induction hs arbitrary: p) (simp_all add: note_sighting_def)

lemma memory_apply:
  "memory_of (fst (apply_retired_memory p path d)) q
     = (if q = path then fst (retire_load (memory_of p path) d) else memory_of p q)"
  by (auto simp: apply_retired_memory_def memory_of_def Let_def update_conv' split: prod.splits)

lemma run_loads_high: "high_of (newest_load path loads) (memory_of (run_loads loads) path)"
proof (induction loads rule: rev_induct)
  case Nil
  show ?case by (simp add: newest_load_def loads_of_def run_loads_def start_process_def memory_of_def
        high_of_def fresh_mem_def)
next
  case (snoc l loads)
  obtain q d where l: "l = (q, d)" by (cases l)
  have run: "run_loads (loads @ [l]) = fst (apply_retired_memory (run_loads loads) q d)"
    by (simp add: run_loads_def l)
  show ?case
  proof (cases "q = path")
    case True
    then have "newest_load path (loads @ [l]) = (case newest_load path loads of None \<Rightarrow> Some d
        | Some b \<Rightarrow> if doc_generation b < doc_generation d then Some d else Some b)"
      by (simp add: newest_load_def loads_of_def l newest_from_snoc)
    with retire_load_high [OF snoc.IH, of d] True show ?thesis by (simp add: run memory_apply)
  next
    case False
    then have "memory_of (run_loads (loads @ [l])) path = memory_of (run_loads loads) path"
      unfolding run by (simp add: memory_apply)
    with snoc.IH False show ?thesis by (simp add: newest_load_def loads_of_def l)
  qed
qed

lemma refused_key_never_matches: "h \<in> set (row_refused r) \<Longrightarrow> \<not> key_matches h r now"
  by (auto simp: key_matches_def Let_def split: option.splits)

lemma refuse_hashes_refuses:
  "h \<in> set (row_slot_hashes r) \<Longrightarrow> h \<in> set returned \<Longrightarrow> h \<in> set (row_refused (refuse_hashes returned r))"
  by (auto simp: refuse_hashes_def Let_def filter_empty_conv)


lemma returned_below_high:
  assumes "high_of (Some b) st" and "doc_generation d < doc_generation b"
    and "h \<in> set (doc_hashes d)" and "h \<notin> set (doc_hashes b)"
  shows "h \<in> set (snd (retire_load st d))"
  using assms by (auto simp: retire_load_def Let_def high_of_def above_def)

lemma fold_delete_subset: "set (fold AList.delete hs xs) \<subseteq> set xs"
proof (induction hs arbitrary: xs)
  case (Cons k hs)
  have "set (AList.delete k xs) \<subseteq> set xs" by (auto simp: AList.delete_eq)
  with Cons [of "AList.delete k xs"] show ?case by auto
qed simp

lemma fold_delete_gone: "h \<in> set hs \<Longrightarrow> h \<notin> fst ` set (fold AList.delete hs xs)"
proof (induction hs arbitrary: xs)
  case (Cons k hs)
  have "k \<notin> fst ` set (fold AList.delete hs (AList.delete k xs))"
    using fold_delete_subset [of hs "AList.delete k xs"] by (auto simp: AList.delete_eq)
  with Cons show ?case by auto
qed simp

lemma refuse_hashes_Nil [simp]: "refuse_hashes [] = (\<lambda>r. r)"
  by (rule ext) (simp add: refuse_hashes_def Let_def)

lemma returned_at_new_high:
  assumes "high_of best st" and "case best of None \<Rightarrow> True | Some b \<Rightarrow> doc_generation b < doc_generation d"
  shows "snd (retire_load st d) = []"
proof -
  have high: "rm_high_generation st = None \<or> above (doc_generation d) (rm_high_generation st)"
    using assms by (auto simp: high_of_def above_def split: option.splits)
  show ?thesis
    using high by (auto simp: retire_load_def Let_def filter_empty_conv dest: fold_delete_gone)
qed

text \<open>The rows the verifier gets for the next load, after a history of loads.\<close>

definition rows_after :: "(string \<times> registry_doc) list \<Rightarrow> string \<Rightarrow> registry_doc \<Rightarrow> op_row list" where
  "rows_after loads path d = snd (apply_retired_memory (run_loads loads) path d)"

lemma rows_after_map: "rows_after loads path d
    = map (refuse_hashes (snd (retire_load (memory_of (run_loads loads) path) d))) (doc_rows d)"
  by (auto simp: rows_after_def apply_retired_memory_def memory_of_def Let_def split: prod.splits)

definition demo_row :: "string \<Rightarrow> string \<Rightarrow> op_row" where
  "demo_row oid key = \<lparr>row_id = oid, row_key = key, row_status = ''active'', row_scopes = [''*''], row_names = [],
     row_prefixes = [], row_format = 2, row_rotation = Some ''auto'', row_expiry = Some 100, row_next = None,
     row_auth = [''key''], row_passkeys = [], row_refused = []\<rparr>"

definition demo_doc :: "int \<Rightarrow> string \<Rightarrow> registry_doc" where
  "demo_doc g key = \<lparr>doc_format = 2, doc_generation = g, doc_rows = [demo_row ''don'' key],
     doc_issued_at = None, doc_issued_by = None\<rparr>"

text \<open>after any history of loads, a file older than the newest one seen cannot bring a key back: a
  key the newest file does not hold matches none of the rows the verifier is given, at any time.\<close>

lemma stale_file_keys_refused:
  assumes "newest_load path loads = Some newest" and "doc_generation d < doc_generation newest"
    and "h \<in> set (doc_hashes d)" and "h \<notin> set (doc_hashes newest)"
  shows "\<forall>r \<in> set (rows_after loads path d). \<not> (h \<in> set (row_slot_hashes r) \<and> key_matches h r now)"
proof -
  have "high_of (Some newest) (memory_of (run_loads loads) path)"
    using run_loads_high [of path loads] assms(1) by simp
  note returned = returned_below_high [OF this assms(2-4)]
  have slots: "row_slot_hashes (refuse_hashes hs r) = row_slot_hashes r" for hs r
    by (simp add: refuse_hashes_def row_slot_hashes_def Let_def)
  show ?thesis
    using returned by (auto simp: rows_after_map slots dest!: refuse_hashes_refuses refused_key_never_matches)
qed

lemma stale_file_keys_refused_witness:
  "list_all (\<lambda>r. \<not> (''k1'' \<in> set (row_slot_hashes r) \<and> key_matches ''k1'' r 5))
     (rows_after [(''f'', demo_doc 1 ''k1''), (''f'', demo_doc 2 ''k2'')] ''f'' (demo_doc 1 ''k1''))"
  unfolding list_all_iff
  by (rule stale_file_keys_refused [where newest = "demo_doc 2 ''k2''"])
    (simp_all add: newest_load_def loads_of_def demo_doc_def doc_hashes_def row_slot_hashes_def demo_row_def)

text \<open>a file of a generation above every one seen is taken as it is: no key of it is refused,
  whatever was retired before, so a re-issued key is live again.\<close>

lemma newest_file_taken_whole:
  assumes "case newest_load path loads of None \<Rightarrow> True | Some b \<Rightarrow> doc_generation b < doc_generation d"
  shows "rows_after loads path d = doc_rows d"
  using returned_at_new_high [OF run_loads_high assms]
  by (simp add: rows_after_map)

lemma newest_file_taken_whole_witness:
  "rows_after [(''f'', demo_doc 1 ''k1''), (''f'', demo_doc 2 ''k2'')] ''f'' (demo_doc 3 ''k1'')
     = [demo_row ''don'' ''k1'']"
  using newest_file_taken_whole [where path = "''f''" and d = "demo_doc 3 ''k1''"
      and loads = "[(''f'', demo_doc 1 ''k1''), (''f'', demo_doc 2 ''k2'')]"]
  by (simp add: newest_load_def loads_of_def demo_doc_def)


text \<open>A format-2 file of two rows: an ordinary one, and the sealed break-glass row.\<close>

definition don_json :: json where
  "don_json = JObj [(''operator_id'', JStr ''don''), (''key_sha256'', JStr (replicate 64 (CHR ''a''))),
     (''status'', JStr ''active''), (''rotation'', JStr ''auto''),
     (''scopes'', JArr [JStr ''mint'', JStr ''kill'']), (''names'', JArr [JStr ''Don'']),
     (''key_not_after'', JStr ''2030-01-01T00:00:00Z''), (''auth'', JArr [JStr ''key'', JStr ''session''])]"

definition glass_json :: json where
  "glass_json = JObj [(''operator_id'', JStr BREAKGLASS_ID), (''key_sha256'', JStr (replicate 64 (CHR ''b''))),
     (''status'', JStr ''active''), (''rotation'', JStr ''sealed''), (''scopes'', JArr [JStr ''kill''])]"

definition demo_raw2 :: json where
  "demo_raw2 = JObj [(''format'', JInt 2), (''generation'', JInt 3), (''operators'', JArr [don_json, glass_json])]"

definition don_row :: op_row where
  "don_row = \<lparr>row_id = ''don'', row_key = replicate 64 (CHR ''a''), row_status = ''active'',
     row_scopes = [''mint'', ''kill''], row_names = [''Don''], row_prefixes = [], row_format = 2,
     row_rotation = Some ''auto'', row_expiry = Some 1893456000, row_next = None,
     row_auth = [''key'', ''session''], row_passkeys = [], row_refused = []\<rparr>"

definition glass_row :: op_row where
  "glass_row = \<lparr>row_id = BREAKGLASS_ID, row_key = replicate 64 (CHR ''b''), row_status = ''active'',
     row_scopes = [''kill''], row_names = [], row_prefixes = [], row_format = 2,
     row_rotation = Some ''sealed'', row_expiry = None, row_next = None,
     row_auth = [''key''], row_passkeys = [], row_refused = []\<rparr>"

lemma demo_expiry: "parse_time ''2030-01-01T00:00:00Z'' = Some 1893456000"
  by (simp add: parse_time_def is_digit_def dec_val_def digit_val_def valid_date_def ymd2ord_def days_before_def is_leap_def
      month_lengths_def Let_def)

lemma glass_row: "format2_row i glass_json = Inr glass_row"
  by code_simp

lemma don_row: "format2_row i don_json = Inr don_row"
proof -
  have h: "HEX64 (replicate 64 (CHR ''a''))" by (simp add: HEX64_def list_all_iff)
  have g: "jget don_json ''operator_id'' = Some (JStr ''don'')"
    "jget don_json ''key_sha256'' = Some (JStr (replicate 64 (CHR ''a'')))"
    "jget don_json ''status'' = Some (JStr ''active'')" "jget don_json ''rotation'' = Some (JStr ''auto'')"
    "jget don_json ''scopes'' = Some (JArr [JStr ''mint'', JStr ''kill''])"
    "jget don_json ''names'' = Some (JArr [JStr ''Don''])"
    "jget don_json ''key_not_after'' = Some (JStr ''2030-01-01T00:00:00Z'')"
    "jget don_json ''auth'' = Some (JArr [JStr ''key'', JStr ''session''])"
    "jget don_json ''event_prefixes'' = None" "jget don_json ''created_at'' = None"
    "jget don_json ''key_created_at'' = None" "jget don_json ''next_key'' = None"
    "jget don_json ''passkeys'' = None"
    by (simp_all add: jget_def don_json_def)
  have b: "BREAKGLASS_ID \<noteq> ''Don''" "''don'' \<noteq> BREAKGLASS_ID" by (simp_all add: BREAKGLASS_ID_def)
  have t: "bad_time_field don_json = None" by (simp add: bad_time_field_def g)
  have k: "list_subset (jkeys don_json) F2_ROW_FIELDS" "list_subset F2_ROW_REQUIRED (jkeys don_json)"
    "printable_id ''don''" "list_subset [''key'', ''session''] AUTH_METHODS"
    by code_simp+
  obtain kvs where o: "don_json = JObj kvs" by (simp add: don_json_def)
  have c: "check_common_lists i don_json = Inr ([''mint'', ''kill''], [''Don''], [])"
    by (simp add: check_common_lists_def jstrings_def g REJECTED_SCOPES_def)
  have a: "parse_auth_methods i don_json = Inr [''key'', ''session'']"
    by (simp add: parse_auth_methods_def g k)
  show ?thesis
    unfolding format2_row_def c a t bindE_simps prod.case
    unfolding jstring_def g option.case json.case parse_expiry_def jtime_def demo_expiry parse_next_key_def
    by (simp add: k h g b STATUSES_def ROTATIONS_def ACTIONS_def don_row_def Let_def)
      (simp add: o b)
qed

lemma demo_rows: "identities_sound [don_row, glass_row]"
  unfolding validate_rows_None_iff [symmetric] by code_simp

lemma demo_raw2_parses:
  "parse_registry_doc True demo_raw2 = Inr \<lparr>doc_format = 2, doc_generation = 3, doc_rows = [don_row, glass_row], doc_issued_at = None, doc_issued_by = None\<rparr>"
proof -
  have g: "jget demo_raw2 ''format'' = Some (JInt 2)" "jget demo_raw2 ''generation'' = Some (JInt 3)" "jget demo_raw2 ''operators'' = Some (JArr [don_json, glass_json])" "jget demo_raw2 ''issued_at'' = None" "jget demo_raw2 ''issued_by'' = None"
    by (simp_all add: jget_def demo_raw2_def)
  have k: "list_subset (jkeys demo_raw2) F2_TOP_FIELDS" "list_subset F2_TOP_REQUIRED (jkeys demo_raw2)"
    by code_simp+
  have st: "loopE format2_step 1 \<lparr>f2_out = [], hash_row = [], credential_row = [], sealed_rows = []\<rparr> [don_json, glass_json] = Inr \<lparr>f2_out = [don_row, glass_row], hash_row = [(replicate 64 (CHR ''b''), 2),(replicate 64 (CHR ''a''), 1)], credential_row = [], sealed_rows = [2]\<rparr>"
    by (simp add: format2_step_def don_row glass_row) (simp add: don_row_def glass_row_def row_slot_hashes_def)
  have f: "finish_rows True [don_row, glass_row] = Inr [don_row, glass_row]"
    using demo_rows unfolding validate_rows_None_iff [symmetric]
    by (simp add: finish_rows_def) (simp add: don_row_def)
  show ?thesis
    unfolding parse_registry_doc_def registry_format_def g parse_format2_def option.case json.case st bindE_simps
    by (simp add: k g f jtime_def jstring_def)
qed



text \<open>the identity rules refuse exactly the files that break them: \<open>validate_rows\<close> finds no problem
  if and only if ids are unique, the verifier rules hold and every alias has one owner and is no id,
  no star and not the break-glass identity of another row.\<close>

lemma validate_rows_complete:
  "validate_rows rows = None \<longleftrightarrow> identities_sound rows"
  by (rule validate_rows_None_iff)

end
