(* ===== verification/Manifest.thy ===== *)
theory Manifest
  imports Complex_Main Utc_Time "HOL-Library.AList"
begin

text \<open>
  \<open>packages/field-core/src/field_core/manifest.py\<close>: the FIELD manifest, section by section, with the
  constraints its Pydantic models declare, and \<open>ManifestResolver\<close> of \<open>clients.py\<close>, which loads the
  manifest a registry record points at and caches it by modification time. The JSON-Schema validation
  of a file (\<open>jsonschema\<close>, a package) is part of what a file's content is classified as. A Python
  float is a rational.
\<close>

section \<open>The sections\<close>

record mf_agent =
  ag_name :: string
  ag_description :: "string option"
  ag_version :: "string option"

record allowed_peer =
  peer_agent_id :: string
  peer_org :: "string option"
  trust_basis :: string

record federation_contract =
  contract_peer :: string
  contract_ref :: "string option"
  contract_scope :: string

record federated =
  isolated :: bool
  allowed_peers :: "allowed_peer list option"
  contracts :: "federation_contract list option"

record data_scope =
  may_access :: "string list option"
  may_retain :: "string list option"
  may_transmit :: "string list option"

record mf_identity =
  principal :: string
  id_org :: "string option"
  jurisdiction :: "string list option"
  id_data_scope :: "data_scope option"
  model_provider :: "string option"

record kill_switch =
  ks_endpoint :: string
  ks_method :: string
  authorized_operators :: "string list option"
  local_sentinel :: "string option"
  sentinel_max_age_s :: "int option"

record spend_cap =
  sc_currency :: string
  sc_limit :: rat
  sc_period :: string
  on_breach :: "string option"

record rate_limit =
  rl_action :: string
  rl_max :: int
  rl_period :: string

datatype deny_verdict = DenyVerdict | PolicyVerdict
datatype session_exec = ExecAllow | ExecDeny

record irreversible_actions =
  deny_patterns :: "string list"
  deny_patterns_verdict :: deny_verdict
  session_written_exec :: session_exec
  session_written_exec_allow :: "string list option"

datatype irreversible_policy = Forbid | RequireHumanApproval | AllowWithLedger

record enforcement =
  en_kill_switch :: kill_switch
  en_spend_cap :: "spend_cap option"
  escalation_triggers :: "string list option"
  rate_limits :: "rate_limit list option"
  en_irreversible :: "irreversible_actions option"
  protected_paths :: "string list option"
  irreversible_action_policy :: irreversible_policy

datatype seal_algorithm = Sha256Merkle | Blake3Merkle | Ed25519SignedChain | Sha512Merkle | Sha256Chain

record mf_ledger =
  cryptographic_seal :: bool
  mf_seal_algorithm :: seal_algorithm
  retention_days :: int
  logged_events :: "string list"
  ledger_store :: "string option"

record mf_revocation =
  rv_method :: "string option"
  rv_endpoint :: "string option"

record mf_delegation =
  md_granted_by :: string
  md_scope :: "string list"
  md_expiry :: string
  md_revocation :: "mf_revocation option"

datatype protocol_preset = Analysis | Brainstorm | Draft | Audit

record runtime_protocol =
  rp_name :: string
  rp_version :: "string option"
  rp_preset :: "protocol_preset option"

record field_manifest =
  schema_version :: string
  mf_agent_section :: mf_agent
  mf_federated :: federated
  mf_identity_section :: mf_identity
  mf_enforcement :: enforcement
  mf_ledger_section :: mf_ledger
  mf_delegation_section :: mf_delegation
  mf_runtime_protocol :: "runtime_protocol option"

section \<open>Constraints\<close>

definition SCHEMA_VERSION :: string where
  "SCHEMA_VERSION = ''field.spinstatelabs.ca/v1''"

definition nonempty_opt :: "string option \<Rightarrow> bool" where
  "nonempty_opt x = (case x of None \<Rightarrow> True | Some s \<Rightarrow> s \<noteq> [])"

definition nonempty_items :: "string list option \<Rightarrow> bool" where
  "nonempty_items x = (case x of None \<Rightarrow> True | Some ss \<Rightarrow> list_all (\<lambda>s. s \<noteq> []) ss)"

definition peers_declared :: "federated \<Rightarrow> bool" where
  "peers_declared f = (isolated f \<or> (case allowed_peers f of None \<Rightarrow> False | Some ps \<Rightarrow> ps \<noteq> []))"

definition valid_kill_switch :: "kill_switch \<Rightarrow> bool" where
  "valid_kill_switch k = (ks_endpoint k \<noteq> [] \<and> ks_method k \<noteq> [] \<and> nonempty_opt (local_sentinel k)
     \<and> (case sentinel_max_age_s k of None \<Rightarrow> True | Some n \<Rightarrow> 1 \<le> n))"

definition valid_irreversible :: "irreversible_actions \<Rightarrow> bool" where
  "valid_irreversible i = (list_all (\<lambda>s. s \<noteq> []) (deny_patterns i) \<and> nonempty_items (session_written_exec_allow i))"

definition valid_enforcement :: "enforcement \<Rightarrow> bool" where
  "valid_enforcement e =
     (valid_kill_switch (en_kill_switch e)
      \<and> (case en_spend_cap e of None \<Rightarrow> True | Some c \<Rightarrow> 0 < sc_limit c)
      \<and> (case rate_limits e of None \<Rightarrow> True | Some ls \<Rightarrow> list_all (\<lambda>l. 1 \<le> rl_max l) ls)
      \<and> (case en_irreversible e of None \<Rightarrow> True | Some i \<Rightarrow> valid_irreversible i)
      \<and> nonempty_items (protected_paths e))"

definition valid_ledger_section :: "mf_ledger \<Rightarrow> bool" where
  "valid_ledger_section l = (cryptographic_seal l \<and> 1 \<le> retention_days l \<and> logged_events l \<noteq> [])"

text \<open>
  \<open>EXPIRY_PATTERN\<close>: a date, and optionally a time with optional seconds, fraction and zone. The
  shape 9 stands for a digit; each part hands the rest of the text on. (\<open>\d\<close> of Python also matches
  digits outside Latin-1, which this model's characters exclude.)
\<close>

fun eat_shape :: "string \<Rightarrow> string \<Rightarrow> string option" where
  "eat_shape [] cs = Some cs"
| "eat_shape (p # ps) [] = None"
| "eat_shape (p # ps) (c # cs) =
     (if (if p = CHR ''9'' then is_digit c else c = p) then eat_shape ps cs else None)"

definition eat_optional :: "string \<Rightarrow> string \<Rightarrow> string" where
  "eat_optional shape cs = (case eat_shape shape cs of Some r \<Rightarrow> r | None \<Rightarrow> cs)"

definition eat_fraction :: "string \<Rightarrow> string" where
  "eat_fraction cs = (case cs of [] \<Rightarrow> []
     | c # r \<Rightarrow> if c = CHR ''.'' \<and> takeWhile is_digit r \<noteq> [] then dropWhile is_digit r else cs)"

definition zone_or_end :: "string \<Rightarrow> bool" where
  "zone_or_end cs = (cs = [] \<or> cs = ''Z'' \<or> eat_shape ''+99:99'' cs = Some [] \<or> eat_shape ''-99:99'' cs = Some [])"

definition expiry_shape :: "string \<Rightarrow> bool" where
  "expiry_shape s = (case eat_shape ''9999-99-99'' s of None \<Rightarrow> False
     | Some [] \<Rightarrow> True
     | Some (c # r) \<Rightarrow> (c = CHR ''T'' \<or> c = CHR '' '') \<and>
        (case eat_shape ''99:99'' r of None \<Rightarrow> False
         | Some rest \<Rightarrow> zone_or_end (eat_fraction (eat_optional '':99'' rest))))"

definition valid_delegation_section :: "mf_delegation \<Rightarrow> bool" where
  "valid_delegation_section d = (md_granted_by d \<noteq> [] \<and> md_scope d \<noteq> [] \<and> expiry_shape (md_expiry d))"

definition valid_manifest :: "field_manifest \<Rightarrow> bool" where
  "valid_manifest m =
     (schema_version m = SCHEMA_VERSION \<and> ag_name (mf_agent_section m) \<noteq> [] \<and> peers_declared (mf_federated m)
      \<and> principal (mf_identity_section m) \<noteq> [] \<and> valid_enforcement (mf_enforcement m)
      \<and> valid_ledger_section (mf_ledger_section m) \<and> valid_delegation_section (mf_delegation_section m))"

section \<open>Expiry\<close>

text \<open>
  \<open>parse_expiry\<close> of \<open>validation.py\<close>, on the texts a manifest can hold: those of \<open>expiry_shape\<close>
  (\<open>fromisoformat\<close> also reads other spellings, which no valid manifest has). A date is midnight UTC, a
  time without a zone is UTC, a zone is subtracted; what is not a calendar date or a time of day, or a
  fraction that does not follow seconds, is None. Digits after the sixth of a fraction are dropped.
\<close>

definition hh_mm :: "string \<Rightarrow> nat \<times> nat" where
  "hh_mm s = (dec_val (take 2 s), dec_val (take 2 (drop 3 s)))"

definition fraction_us :: "string \<Rightarrow> nat" where
  "fraction_us ds = dec_val (take 6 (ds @ ''000000''))"

text \<open>The zone offset in microseconds, None when it is a day or more.\<close>

definition zone_offset :: "string \<Rightarrow> int option" where
  "zone_offset z = (if z = [] \<or> z = ''Z'' then Some 0
     else let (h, m) = hh_mm (drop 1 z); off = int (h * 3600 + m * 60) * second in
       if day_us \<le> off then None else Some (if take 1 z = ''-'' then - off else off))"

definition parse_expiry :: "string \<Rightarrow> instant option" where
  "parse_expiry s =
     (if \<not> expiry_shape s then None
      else let y = dec_val (take 4 s); m = dec_val (take 2 (drop 5 s)); d = dec_val (take 2 (drop 8 s));
               t = drop 11 s; (hh, mm) = hh_mm t; after = drop 5 t;
               secs = (take 1 after = '':''); ss = (if secs then dec_val (take 2 (drop 1 after)) else 0);
               rest = (if secs then drop 3 after else after);
               frac = (take 1 rest = ''.''); digits = (if frac then takeWhile is_digit (drop 1 rest) else []);
               zone = (if frac then dropWhile is_digit (drop 1 rest) else rest);
               day = (int (ymd2ord y m d) - 1) * day_us
           in if \<not> valid_date y m d then None
              else if length s = 10 then Some day
              else if \<not> (hh < 24 \<and> mm < 60 \<and> ss < 60) \<or> frac \<and> \<not> secs then None
              else case zone_offset zone of None \<Rightarrow> None
                | Some off \<Rightarrow> Some (day + int (hh * 3600 + mm * 60 + ss) * second + int (fraction_us digits) - off))"

section \<open>The resolver\<close>

text \<open>
  What is behind a path: nothing that can be stat'ed, or a file with its modification time and what
  loading it gives (unparseable, refused by the schema, or a document whose Pydantic model is built).
\<close>

datatype manifest_content = Unparseable | SchemaInvalid | Document field_manifest
datatype manifest_file = NoFile | ManifestFile int manifest_content
datatype resolve_reason = RR_ok | RR_no_ref | RR_missing | RR_invalid

type_synonym manifest_cache = "(string \<times> int \<times> field_manifest) list"

definition manifest_path :: "string \<Rightarrow> string \<Rightarrow> string" where
  "manifest_path dir r = (if starts_with ''/'' r then r else dir @ ''/'' @ r)"

definition load_content :: "manifest_content \<Rightarrow> field_manifest option" where
  "load_content c = (case c of Document m \<Rightarrow> if valid_manifest m then Some m else None | _ \<Rightarrow> None)"

definition resolve_detail :: "(string \<Rightarrow> manifest_file) \<Rightarrow> string \<Rightarrow> string option \<Rightarrow> manifest_cache
    \<Rightarrow> (field_manifest option \<times> resolve_reason) \<times> manifest_cache" where
  "resolve_detail fs dir mref cache =
     (case mref of None \<Rightarrow> ((None, RR_no_ref), cache)
      | Some r \<Rightarrow> if r = [] then ((None, RR_no_ref), cache) else
        let path = manifest_path dir r in
        (case fs path of NoFile \<Rightarrow> ((None, RR_missing), cache)
         | ManifestFile mtime content \<Rightarrow>
            (case map_of cache path of
               Some (t, m) \<Rightarrow> if t = mtime then ((Some m, RR_ok), cache)
                 else (case load_content content of None \<Rightarrow> ((None, RR_invalid), cache)
                   | Some m' \<Rightarrow> ((Some m', RR_ok), AList.update path (mtime, m') cache))
             | None \<Rightarrow> (case load_content content of None \<Rightarrow> ((None, RR_invalid), cache)
                   | Some m' \<Rightarrow> ((Some m', RR_ok), AList.update path (mtime, m') cache)))))"

text \<open>The specification: what the file holds now, without a cache.\<close>

definition resolve_now :: "(string \<Rightarrow> manifest_file) \<Rightarrow> string \<Rightarrow> string option \<Rightarrow> field_manifest option \<times> resolve_reason" where
  "resolve_now fs dir mref =
     (case mref of None \<Rightarrow> (None, RR_no_ref)
      | Some r \<Rightarrow> if r = [] then (None, RR_no_ref) else
        (case fs (manifest_path dir r) of NoFile \<Rightarrow> (None, RR_missing)
         | ManifestFile _ content \<Rightarrow> (case load_content content of None \<Rightarrow> (None, RR_invalid)
              | Some m \<Rightarrow> (Some m, RR_ok))))"

text \<open>A run of resolutions while the files change under the resolver.\<close>

fun resolve_run :: "string \<Rightarrow> ((string \<Rightarrow> manifest_file) \<times> string option) list \<Rightarrow> manifest_cache
    \<Rightarrow> (field_manifest option \<times> resolve_reason) list" where
  "resolve_run dir [] cache = []"
| "resolve_run dir ((fs, mref) # qs) cache =
     (let (ans, cache') = resolve_detail fs dir mref cache in ans # resolve_run dir qs cache')"

text \<open>
  What the cache relies on: a file whose modification time has not changed has not changed, over the
  file systems the run sees.
\<close>

definition mtime_honest :: "(string \<Rightarrow> manifest_file) list \<Rightarrow> bool" where
  "mtime_honest fss = (\<forall>fs \<in> set fss. \<forall>fs' \<in> set fss. \<forall>p t c c'.
     fs p = ManifestFile t c \<longrightarrow> fs' p = ManifestFile t c' \<longrightarrow> c = c')"

definition cache_from :: "(string \<Rightarrow> manifest_file) list \<Rightarrow> manifest_cache \<Rightarrow> bool" where
  "cache_from fss cache = (\<forall>p t m. map_of cache p = Some (t, m) \<longrightarrow>
     (\<exists>fs \<in> set fss. \<exists>c. fs p = ManifestFile t c \<and> load_content c = Some m))"

lemma resolve_detail_cached:
  assumes "mtime_honest fss" "cache_from fss cache" "fs \<in> set fss" "resolve_detail fs dir mref cache = (ans, cache')"
  shows "ans = resolve_now fs dir mref \<and> cache_from fss cache'"
proof (cases "mref = None \<or> mref = Some []")
  case True
  with assms show ?thesis by (auto simp: resolve_detail_def resolve_now_def)
next
  case False
  then obtain r where r: "mref = Some r" "r \<noteq> []" by auto
  let ?p = "manifest_path dir r"
  show ?thesis
  proof (cases "fs ?p")
    case NoFile
    with assms r show ?thesis by (auto simp: resolve_detail_def resolve_now_def Let_def)
  next
    case (ManifestFile t c)
    show ?thesis
    proof (cases "\<exists>m. map_of cache ?p = Some (t, m)")
      case True
      then obtain m where m: "map_of cache ?p = Some (t, m)" ..
      with assms(2) obtain fs' c' where "fs' \<in> set fss" "fs' ?p = ManifestFile t c'" "load_content c' = Some m"
        unfolding cache_from_def by blast
      moreover from this assms(1,3) ManifestFile have "c' = c" unfolding mtime_honest_def by blast
      ultimately show ?thesis
        using assms(2,4) r ManifestFile m by (auto simp: resolve_detail_def resolve_now_def Let_def)
    next
      case False
      then have miss: "resolve_detail fs dir mref cache = (case load_content c of None \<Rightarrow> ((None, RR_invalid), cache)
                   | Some m' \<Rightarrow> ((Some m', RR_ok), AList.update ?p (t, m') cache))"
        using r ManifestFile by (auto simp: resolve_detail_def Let_def split: option.splits)
      show ?thesis
      proof (cases "load_content c")
        case None
        with miss assms(2,4) r ManifestFile show ?thesis by (simp add: resolve_now_def)
      next
        case (Some m)
        have "cache_from fss (AList.update ?p (t, m) cache)"
          using assms(2,3) ManifestFile Some unfolding cache_from_def by (auto simp: update_conv')
        with miss Some assms(4) r ManifestFile show ?thesis by (auto simp: resolve_now_def)
      qed
    qed
  qed
qed

lemma resolve_run_cached:
  assumes "mtime_honest fss" "cache_from fss cache" "\<forall>q \<in> set qs. fst q \<in> set fss"
  shows "resolve_run dir qs cache = map (\<lambda>(fs, mref). resolve_now fs dir mref) qs"
  using assms(2,3)
proof (induction qs arbitrary: cache)
  case (Cons q qs)
  obtain fs mref where q: "q = (fs, mref)" by (cases q)
  obtain ans cache' where d: "resolve_detail fs dir mref cache = (ans, cache')" by fastforce
  from resolve_detail_cached [OF assms(1) Cons.prems(1) _ d] Cons.prems(2) q
  have "ans = resolve_now fs dir mref" "cache_from fss cache'" by auto
  with Cons.IH [of cache'] Cons.prems(2) show ?case by (simp add: q d)
qed simp

text \<open>the modification-time cache is transparent: as long as a file keeps its content while its
  modification time stays, any run of resolutions from an empty cache, with files appearing, changing
  and disappearing in between, answers what the files hold at each moment, with the same reasons.\<close>

lemma resolver_cache_transparent:
  assumes "mtime_honest (map fst qs)"
  shows "resolve_run dir qs [] = map (\<lambda>(fs, mref). resolve_now fs dir mref) qs"
  by (rule resolve_run_cached [OF assms]) (auto simp: cache_from_def)

lemma resolver_cache_transparent_witness:
  "resolve_run ''d'' [(\<lambda>_. ManifestFile 1 Unparseable, Some ''m''), (\<lambda>_. NoFile, Some ''m''),
       (\<lambda>_. ManifestFile 1 Unparseable, None)] []
     = [(None, RR_invalid), (None, RR_missing), (None, RR_no_ref)]"
proof -
  have "mtime_honest (map fst [(\<lambda>_ :: string. ManifestFile 1 Unparseable, Some ''m''), (\<lambda>_. NoFile, Some ''m''),
       (\<lambda>_. ManifestFile 1 Unparseable, None)])"
    by (simp add: mtime_honest_def)
  from resolver_cache_transparent [OF this, of "''d''"] show ?thesis
    by (simp add: resolve_now_def load_content_def)
qed

end
