(* ===== verification/Operator_Auth.thy ===== *)
theory Operator_Auth
  imports Operator_Registry Manifest
begin

text \<open>
  The operator layer of \<open>packages/field-core/src/field_core/operator_auth.py\<close>: the mode, the identity a
  request proves, the checks handlers make with it, and what of it may enter a ledger payload. The
  environment is \<open>op_env\<close> (the stripped variables are computed here), the sha-256 digest of a key is
  the argument \<open>H\<close>, the operators file is what \<open>load_registry\<close> answered, the manifest of a record is
  what \<open>resolve_detail\<close> answered. Log lines are left out.
\<close>

section \<open>Mode\<close>

datatype op_mode = OFF | LOG_ONLY | ENFORCE

record op_env =
  env_require :: string
  env_registry :: string

definition OFF_SPELLINGS :: "string list" where
  "OFF_SPELLINGS = [[], ''0'', ''false'', ''no'', ''off'']"

definition require_flag :: "op_env \<Rightarrow> bool" where
  "require_flag env = (let v = py_lower (py_strip (env_require env)) in v \<notin> set OFF_SPELLINGS)"

definition registry_path :: "op_env \<Rightarrow> string option" where
  "registry_path env = (let v = py_strip (env_registry env) in
     if py_lower v \<in> set OFF_SPELLINGS then None else Some v)"

definition op_mode_of :: "op_env \<Rightarrow> op_mode" where
  "op_mode_of env = (if require_flag env then ENFORCE
     else if registry_path env \<noteq> None then LOG_ONLY else OFF)"

section \<open>Identity\<close>

datatype auth_failure = NoCredential | IncompleteCredential | FileUnavailable | BadCredential | NoScope

record operator_auth =
  oa_mode :: op_mode
  operator_id :: "string option"
  oa_claimed :: "string option"
  oa_key_fp :: "string option"
  oa_scopes :: "string list"
  oa_names :: "string list"
  oa_failure :: "auth_failure option"
  oa_prefixes :: "string list"

datatype refusal_detail =
    UNAUTH_DETAIL | FORBIDDEN_DETAIL | MalformedHeaders | FileUnavailableDetail | ManifestUnresolvable

datatype operator_refused = OperatorRefused nat refusal_detail

definition EXPLICIT_ONLY :: "string list" where
  "EXPLICIT_ONLY = [''mint_for_others'', ''assert_operator'', ''ledger_attribute'', ''bypass_operator_list'',
     ''sweep_kill'']"

definition authenticated :: "operator_auth \<Rightarrow> bool" where
  "authenticated a = (operator_id a \<noteq> None)"

definition has_scope :: "operator_auth \<Rightarrow> string \<Rightarrow> bool" where
  "has_scope a action = (if action \<in> set EXPLICIT_ONLY then action \<in> set (oa_scopes a)
     else ''*'' \<in> set (oa_scopes a) \<or> action \<in> set (oa_scopes a))"

definition unproven :: "op_mode \<Rightarrow> string option \<Rightarrow> auth_failure option \<Rightarrow> operator_auth" where
  "unproven m claimed why = \<lparr>oa_mode = m, operator_id = None, oa_claimed = claimed, oa_key_fp = None,
     oa_scopes = [], oa_names = [], oa_failure = why, oa_prefixes = []\<rparr>"

definition NO_AUTH :: operator_auth where
  "NO_AUTH = unproven OFF None None"

section \<open>Credentials\<close>

text \<open>The request headers in order, as Starlette keeps them; names compare without case.\<close>

type_synonym headers = "(string \<times> string) list"

definition header_one :: "string \<Rightarrow> headers \<Rightarrow> operator_refused + string option" where
  "header_one name hs =
     (case map snd (filter (\<lambda>(k, v). py_lower k = name) hs) of
        [] \<Rightarrow> Inr None
      | [v] \<Rightarrow> if v = [] then Inl (OperatorRefused 400 MalformedHeaders) else Inr (Some v)
      | _ \<Rightarrow> Inl (OperatorRefused 400 MalformedHeaders))"

definition parse_headers :: "headers \<Rightarrow> operator_refused + string option \<times> string option" where
  "parse_headers hs =
     bindE (header_one ''x-field-operator'' hs) (\<lambda>op.
     bindE (header_one ''x-field-operator-key'' hs) (\<lambda>key.
     if (case op of Some s \<Rightarrow> \<not> OPERATOR_RE s | None \<Rightarrow> False) then Inl (OperatorRefused 400 MalformedHeaders)
     else if (case key of Some s \<Rightarrow> \<not> KEY_RE s | None \<Rightarrow> False) then Inl (OperatorRefused 400 MalformedHeaders)
     else Inr (op, key)))"

text \<open>\<open>_verify\<close>: every row is compared; of several matching rows the last one's lists are taken.\<close>

record verified =
  vf_ok :: bool
  vf_scopes :: "string list"
  vf_names :: "string list"
  vf_prefixes :: "string list"

definition no_match :: verified where
  "no_match = \<lparr>vf_ok = False, vf_scopes = [], vf_names = [], vf_prefixes = []\<rparr>"

definition verify_step :: "string \<Rightarrow> string \<Rightarrow> rat \<Rightarrow> verified \<Rightarrow> op_row \<Rightarrow> verified" where
  "verify_step oper presented now acc r =
     (if key_matches presented r now \<and> oper = row_id r \<and> row_status r = ''active''
      then \<lparr>vf_ok = True, vf_scopes = row_scopes r, vf_names = row_names r, vf_prefixes = row_prefixes r\<rparr> else acc)"

definition dummy_row :: op_row where
  "dummy_row = \<lparr>row_id = [], row_key = replicate 64 (CHR ''0''), row_status = ''revoked'', row_scopes = [],
     row_names = [], row_prefixes = [], row_format = 1, row_rotation = None, row_expiry = None, row_next = None,
     row_auth = [''key''], row_passkeys = [], row_refused = []\<rparr>"

definition verify :: "(string \<Rightarrow> string) \<Rightarrow> string \<Rightarrow> string \<Rightarrow> op_row list \<Rightarrow> rat \<Rightarrow> verified" where
  "verify H oper key rows now =
     foldl (verify_step oper (H key) now) no_match (if rows = [] then [dummy_row] else rows)"

definition is_breakglass :: "string option \<Rightarrow> op_row list option \<Rightarrow> bool" where
  "is_breakglass oid rows =
     (case oid of None \<Rightarrow> False
      | Some i \<Rightarrow> i = BREAKGLASS_ID \<or> list_ex (\<lambda>r. row_rotation r = Some ''sealed'' \<and> row_id r = i)
          (case rows of None \<Rightarrow> [] | Some rs \<Rightarrow> rs))"

text \<open>The process counters of break-glass uses and attempts.\<close>

record breakglass =
  breakglass_auth_count :: nat
  breakglass_attempt_count :: nat

definition note_breakglass :: "bool \<Rightarrow> breakglass \<Rightarrow> breakglass" where
  "note_breakglass used c = (if used then c\<lparr>breakglass_auth_count := breakglass_auth_count c + 1\<rparr>
     else c\<lparr>breakglass_attempt_count := breakglass_attempt_count c + 1\<rparr>)"

definition auth_fail :: "op_mode \<Rightarrow> string option \<Rightarrow> op_row list option \<Rightarrow> nat \<Rightarrow> refusal_detail \<Rightarrow> auth_failure
    \<Rightarrow> breakglass \<Rightarrow> breakglass \<times> (operator_refused + operator_auth)" where
  "auth_fail m op rows status detail why c =
     (let c' = (if is_breakglass op rows then note_breakglass False c else c) in
      if m = ENFORCE then (c', Inl (OperatorRefused status detail))
      else (c', Inr (unproven m (shown_claim op) (Some why))))"

definition authenticate :: "op_env \<Rightarrow> (string \<Rightarrow> string) \<Rightarrow> rat \<Rightarrow> (registry_fault + op_row list) \<Rightarrow> headers
    \<Rightarrow> string \<Rightarrow> breakglass \<Rightarrow> breakglass \<times> (operator_refused + operator_auth)" where
  "authenticate env H now loaded hs action c =
     (let m = op_mode_of env in
      if m = OFF then (c, Inr NO_AUTH)
      else case parse_headers hs of Inl e \<Rightarrow> (c, Inl e)
      | Inr (op, key) \<Rightarrow>
        if op = None \<or> key = None then
          auth_fail m op None 401 UNAUTH_DETAIL
            (if op = None \<and> key = None then NoCredential else IncompleteCredential) c
        else case loaded of
          Inl _ \<Rightarrow> auth_fail m op None 503 FileUnavailableDetail FileUnavailable c
        | Inr rows \<Rightarrow>
          let v = verify H (the op) (the key) rows now in
          if \<not> vf_ok v then auth_fail m op (Some rows) 403 FORBIDDEN_DETAIL BadCredential c
          else
            let c' = (if is_breakglass op (Some rows) then note_breakglass True c else c);
                auth = \<lparr>oa_mode = m, operator_id = op, oa_claimed = shown_claim op,
                  oa_key_fp = Some (take 8 (H (the key))), oa_scopes = vf_scopes v, oa_names = vf_names v,
                  oa_failure = None, oa_prefixes = vf_prefixes v\<rparr>
            in if \<not> has_scope auth action then auth_fail m op (Some rows) 403 FORBIDDEN_DETAIL NoScope c'
               else (c', Inr auth))"

section \<open>Checks\<close>

text \<open>\<open>Inr ()\<close> is a check that passes.\<close>

type_synonym check = "operator_refused + unit"

definition check_authorized :: "operator_auth \<Rightarrow> string list option \<Rightarrow> check" where
  "check_authorized a authorized =
     (if oa_mode a \<noteq> ENFORCE then Inr ()
      else case operator_id a of None \<Rightarrow> Inl (OperatorRefused 401 UNAUTH_DETAIL)
      | Some i \<Rightarrow> (case authorized of None \<Rightarrow> Inr () | Some listed \<Rightarrow>
          if listed = [] then Inr ()
          else if i \<notin> set listed \<and> \<not> list_ex (\<lambda>n. n \<in> set listed) (oa_names a)
          then Inl (OperatorRefused 403 FORBIDDEN_DETAIL) else Inr ()))"

definition check_granted_by :: "operator_auth \<Rightarrow> string \<Rightarrow> operator_refused + bool" where
  "check_granted_by a granted_by =
     (if oa_mode a \<noteq> ENFORCE \<or> \<not> authenticated a then Inr False
      else if Some granted_by = operator_id a \<or> has_scope a ''mint_for_others'' then Inr False
      else if granted_by \<in> set (oa_names a) then Inr True
      else Inl (OperatorRefused 403 FORBIDDEN_DETAIL))"

type_synonym resolved = "field_manifest option \<times> resolve_reason"

definition operators_of :: "field_manifest \<Rightarrow> string list option" where
  "operators_of m = authorized_operators (en_kill_switch (mf_enforcement m))"

definition check_explicitly_listed :: "operator_auth \<Rightarrow> resolved \<Rightarrow> check" where
  "check_explicitly_listed a res =
     (if oa_mode a \<noteq> ENFORCE then Inr ()
      else if \<not> authenticated a then Inl (OperatorRefused 401 UNAUTH_DETAIL)
      else case res of
        (None, why) \<Rightarrow> if why = RR_no_ref then Inl (OperatorRefused 403 FORBIDDEN_DETAIL)
          else Inl (OperatorRefused 503 ManifestUnresolvable)
      | (Some m, _) \<Rightarrow> (case operators_of m of
            None \<Rightarrow> Inl (OperatorRefused 403 FORBIDDEN_DETAIL)
          | Some listed \<Rightarrow> if listed = [] then Inl (OperatorRefused 403 FORBIDDEN_DETAIL)
              else check_authorized a (Some listed)))"

definition list_bound :: "operator_auth \<Rightarrow> bool" where
  "list_bound a = (case operator_id a of None \<Rightarrow> False | Some i \<Rightarrow> starts_with LIST_BOUND_PREFIX i)"

definition list_bound_applies :: "operator_auth \<Rightarrow> bool" where
  "list_bound_applies a = (oa_mode a = ENFORCE \<and> list_bound a \<and> \<not> has_scope a ''bypass_operator_list'')"

definition check_list_bound_reach :: "operator_auth \<Rightarrow> resolved \<Rightarrow> check" where
  "check_list_bound_reach a res = (if \<not> list_bound_applies a then Inr () else check_explicitly_listed a res)"

definition check_record_authorized :: "operator_auth \<Rightarrow> resolved \<Rightarrow> check" where
  "check_record_authorized a res =
     (if oa_mode a \<noteq> ENFORCE then Inr ()
      else if authenticated a \<and> has_scope a ''bypass_operator_list'' then Inr ()
      else if list_bound a then check_explicitly_listed a res
      else case res of
        (None, why) \<Rightarrow> if why \<noteq> RR_no_ref then Inl (OperatorRefused 503 ManifestUnresolvable)
          else check_authorized a None
      | (Some m, _) \<Rightarrow> check_authorized a (operators_of m))"

section \<open>Reserved ledger keys\<close>

definition RESERVED_KEYS :: "string list" where
  "RESERVED_KEYS = [''operator_id_authenticated'', ''operator_claimed'', ''operator_key_fp'',
     ''operator_body_claimed'', ''operator_on_behalf_of'']"

text \<open>
  NFKC on Latin-1. Where the normal form leaves Latin-1 (the fraction slash, a combining mark, the
  Greek mu) the original character stands for it: it is outside ASCII as the real one is, which is
  all a comparison with an ASCII key looks at.
\<close>

definition nfkc_char :: "char \<Rightarrow> string" where
  "nfkc_char c = (let n = (of_char c :: nat) in
     if n = 160 then '' '' else if n = 170 then ''a'' else if n = 186 then ''o''
     else if n = 178 then ''2'' else if n = 179 then ''3'' else if n = 185 then ''1''
     else if n = 168 \<or> n = 175 \<or> n = 180 \<or> n = 184 then [CHR '' '', c]
     else if n = 188 then [CHR ''1'', c, CHR ''4''] else if n = 189 then [CHR ''1'', c, CHR ''2'']
     else if n = 190 then [CHR ''3'', c, CHR ''4''] else [c])"

definition nfkc :: "string \<Rightarrow> string" where
  "nfkc s = concat (map nfkc_char s)"

definition casefold :: "string \<Rightarrow> string" where
  "casefold s = concat (map (\<lambda>c. if of_char c = (223 :: nat) then ''ss'' else [lower_char c]) s)"

text \<open>The only Latin-1 character of category Cf, and the only one in \<open>_INVISIBLE\<close>, is the soft hyphen.\<close>

definition drop_invisible :: "string \<Rightarrow> string" where
  "drop_invisible s = filter (\<lambda>c. of_char c \<noteq> (173 :: nat)) s"

definition is_reserved :: "string \<Rightarrow> bool" where
  "is_reserved key = (key \<in> set RESERVED_KEYS
     \<or> casefold (py_strip (drop_invisible (nfkc key))) \<in> set RESERVED_KEYS)"

fun has_reserved :: "json \<Rightarrow> bool" where
  "has_reserved (JObj kvs) = list_ex (\<lambda>(k, v). is_reserved k \<or> has_reserved v) kvs"
| "has_reserved (JArr vs) = list_ex has_reserved vs"
| "has_reserved _ = False"

fun strip_json :: "json \<Rightarrow> json" and strip_reserved :: "(string \<times> json) list \<Rightarrow> (string \<times> json) list" where
  "strip_json (JObj kvs) = JObj (strip_reserved kvs)"
| "strip_json (JArr vs) = JArr (map strip_json vs)"
| "strip_json j = j"
| "strip_reserved [] = []"
| "strip_reserved ((k, v) # kvs) = (if is_reserved k then strip_reserved kvs else (k, strip_json v) # strip_reserved kvs)"

section \<open>What enters a payload\<close>

text \<open>The context variables of a request: the bound identity and the two body claims.\<close>

record op_context =
  cx_auth :: operator_auth
  cx_body_claim :: "string option"
  cx_on_behalf :: "string option"

definition jopt :: "string option \<Rightarrow> json" where
  "jopt x = (case x of None \<Rightarrow> JNull | Some s \<Rightarrow> JStr s)"

definition auth_ledger_fields :: "operator_auth \<Rightarrow> (string \<times> json) list" where
  "auth_ledger_fields a = (if oa_mode a = OFF then [] else
     [(''operator_id_authenticated'', jopt (operator_id a)), (''operator_claimed'', jopt (oa_claimed a)),
      (''operator_key_fp'', if authenticated a then jopt (oa_key_fp a) else JNull)])"

definition acts_for_others :: "operator_auth \<Rightarrow> bool" where
  "acts_for_others a = (oa_mode a \<noteq> OFF \<and> authenticated a \<and> has_scope a ''bypass_operator_list'')"

definition bind_on_behalf_of :: "op_context \<Rightarrow> string \<Rightarrow> op_context \<times> string option" where
  "bind_on_behalf_of cx v = (if \<not> acts_for_others (cx_auth cx) \<or> \<not> printable_id v then (cx, None)
     else (cx\<lparr>cx_on_behalf := Some v\<rparr>, Some v))"

definition bind_body_operator :: "op_context \<Rightarrow> string \<Rightarrow> op_context \<times> string" where
  "bind_body_operator cx v = (case operator_id (cx_auth cx) of None \<Rightarrow> (cx, v)
     | Some i \<Rightarrow> (if v \<noteq> i then cx\<lparr>cx_body_claim := Some v\<rparr> else cx, i))"

definition ledger_fields :: "op_context \<Rightarrow> (string \<times> json) list" where
  "ledger_fields cx =
     (let f = auth_ledger_fields (cx_auth cx);
          f1 = (if f \<noteq> [] \<and> cx_body_claim cx \<noteq> None
                then f @ [(''operator_body_claimed'', jopt (cx_body_claim cx))] else f);
          f2 = (if f1 \<noteq> [] \<and> cx_on_behalf cx \<noteq> None \<and> acts_for_others (cx_auth cx)
                then f1 @ [(''operator_on_behalf_of'', jopt (cx_on_behalf cx))] else f1)
      in f2)"

definition dict_update :: "(string \<times> json) list \<Rightarrow> (string \<times> json) list \<Rightarrow> (string \<times> json) list" where
  "dict_update d f = fold (\<lambda>(k, v). AList.update k v) f d"

definition merge_payload :: "op_env \<Rightarrow> op_context \<Rightarrow> (string \<times> json) list \<Rightarrow> (string \<times> json) list" where
  "merge_payload env cx p = (if op_mode_of env = OFF then p else dict_update (strip_reserved p) (ledger_fields cx))"

section \<open>What the ledger admits\<close>

definition SELF_REPORTABLE_EVENT_TYPES :: "string list" where
  "SELF_REPORTABLE_EVENT_TYPES = [''operator.unauthenticated'', ''operator.refused'']"

definition sealed_prefix_form :: "string \<Rightarrow> string" where
  "sealed_prefix_form t = py_lower (py_strip (drop_invisible (nfkc t)))"

definition may_attribute :: "operator_auth \<Rightarrow> string \<Rightarrow> bool" where
  "may_attribute a etype =
     (if \<not> authenticated a \<or> \<not> has_scope a ''ledger_attribute'' then False
      else if starts_with ''operator.'' (sealed_prefix_form etype) then False
      else list_ex (\<lambda>p. starts_with p etype) (oa_prefixes a))"

definition attributing_caller :: "breakglass \<times> (operator_refused + operator_auth) \<Rightarrow> operator_auth option" where
  "attributing_caller r = (case snd r of Inl _ \<Rightarrow> None | Inr a \<Rightarrow> if authenticated a then Some a else None)"

definition shown_claim_json :: "json \<Rightarrow> json" where
  "shown_claim_json v = (case v of JNull \<Rightarrow> JNull
     | JStr s \<Rightarrow> JStr (if printable_id s then s else NOT_SHOWN) | _ \<Rightarrow> JStr NOT_SHOWN)"

text \<open>\<open>admit_ledger_event\<close>: the payload to store, with the break-glass counters the authentication moved.\<close>

definition admit_ledger_event :: "op_env \<Rightarrow> (string \<Rightarrow> string) \<Rightarrow> rat \<Rightarrow> (registry_fault + op_row list) \<Rightarrow> headers
    \<Rightarrow> string \<Rightarrow> (string \<times> json) list \<Rightarrow> breakglass \<Rightarrow> breakglass \<times> (operator_refused + (string \<times> json) list)" where
  "admit_ledger_event env H now loaded hs etype p c =
     (if op_mode_of env = OFF then (c, Inr p)
      else let tried = authenticate env H now loaded hs ''ledger_attribute'' c; caller = attributing_caller tried in
      if starts_with ''operator.'' (sealed_prefix_form etype) then
        if etype \<notin> set SELF_REPORTABLE_EVENT_TYPES then (c, Inl (OperatorRefused 403 FORBIDDEN_DETAIL))
        else
          let clean = strip_reserved p;
              clean1 = (case map_of clean ''claimed_id'' of None \<Rightarrow> clean
                 | Some v \<Rightarrow> AList.update ''claimed_id'' (shown_claim_json v) clean)
          in (fst tried, Inr (AList.update ''self_reported'' (JBool (caller = None)) clean1))
      else if \<not> has_reserved (JObj p) then (c, Inr p)
      else if (case caller of None \<Rightarrow> False | Some a \<Rightarrow> may_attribute a etype) then (fst tried, Inr p)
      else (fst tried, Inr (strip_reserved p)))"

section \<open>Lemmas\<close>

lemma auth_fail_Inr: "auth_fail m op rows st d why c = (c', Inr a) \<Longrightarrow> m \<noteq> ENFORCE \<and> \<not> authenticated a"
  by (auto simp: auth_fail_def unproven_def authenticated_def Let_def split: if_splits)

lemma auth_fail_Inl: "auth_fail m op rows st d why c = (c', Inl e) \<Longrightarrow> m = ENFORCE"
  by (auto simp: auth_fail_def Let_def split: if_splits)

definition row_matches :: "string \<Rightarrow> string \<Rightarrow> rat \<Rightarrow> op_row \<Rightarrow> bool" where
  "row_matches oper presented now r =
     (key_matches presented r now \<and> oper = row_id r \<and> row_status r = ''active'')"

lemma verify_fold:
  "foldl (verify_step oper k now) acc rows =
     (case find (row_matches oper k now) (rev rows) of None \<Rightarrow> acc
      | Some r \<Rightarrow> \<lparr>vf_ok = True, vf_scopes = row_scopes r, vf_names = row_names r, vf_prefixes = row_prefixes r\<rparr>)"
proof (induction rows rule: rev_induct)
  case (snoc r rows)
  then show ?case by (auto simp: verify_step_def row_matches_def)
qed simp

lemma find_SomeD: "find p xs = Some x \<Longrightarrow> p x \<and> x \<in> set xs"
  by (auto simp: find_Some_iff)

lemma verify_ok:
  assumes "vf_ok (verify H oper key rows now)"
  obtains r where "r \<in> set rows" "row_matches oper (H key) now r"
    "verify H oper key rows now
       = \<lparr>vf_ok = True, vf_scopes = row_scopes r, vf_names = row_names r, vf_prefixes = row_prefixes r\<rparr>"
proof -
  let ?rows = "if rows = [] then [dummy_row] else rows"
  obtain r where f: "find (row_matches oper (H key) now) (rev ?rows) = Some r"
    using assms unfolding verify_def verify_fold by (auto simp: no_match_def split: option.splits)
  then have "r \<in> set ?rows" "row_matches oper (H key) now r"
    by (auto dest!: find_SomeD)
  moreover have "rows \<noteq> []"
    using f by (auto simp: row_matches_def dummy_row_def split: if_splits)
  ultimately show thesis
    using that f unfolding verify_def verify_fold by simp
qed

text \<open>An identity comes only from an active row whose key matches now.\<close>

lemma authenticated_from_row:
  assumes "authenticate env H now loaded hs action c = (c', Inr a)" and "authenticated a"
  obtains op key rows r where "parse_headers hs = Inr (Some op, Some key)" "loaded = Inr rows" "r \<in> set rows"
    "row_matches op (H key) now r" "operator_id a = Some op" "oa_mode a = op_mode_of env"
    "oa_scopes a = row_scopes r" "oa_names a = row_names r" "oa_prefixes a = row_prefixes r" "has_scope a action"
proof -
  have "op_mode_of env \<noteq> OFF"
    using assms by (auto simp: authenticate_def NO_AUTH_def unproven_def authenticated_def)
  with assms obtain op key where h: "parse_headers hs = Inr (Some op, Some key)"
    by (auto simp: authenticate_def Let_def split: sum.splits option.splits if_splits dest: auth_fail_Inr)
  from \<open>op_mode_of env \<noteq> OFF\<close> assms h obtain rows where rows: "loaded = Inr rows"
    by (auto simp: authenticate_def Let_def split: sum.splits dest: auth_fail_Inr)
  have ok: "vf_ok (verify H op key rows now)"
    using \<open>op_mode_of env \<noteq> OFF\<close> assms h rows
    by (auto simp: authenticate_def Let_def split: if_splits dest: auth_fail_Inr)
  from verify_ok [OF ok] obtain r where r: "r \<in> set rows" "row_matches op (H key) now r"
    "verify H op key rows now
       = \<lparr>vf_ok = True, vf_scopes = row_scopes r, vf_names = row_names r, vf_prefixes = row_prefixes r\<rparr>" by metis
  have "a = \<lparr>oa_mode = op_mode_of env, operator_id = Some op, oa_claimed = shown_claim (Some op),
      oa_key_fp = Some (take 8 (H key)), oa_scopes = row_scopes r, oa_names = row_names r,
      oa_failure = None, oa_prefixes = row_prefixes r\<rparr> \<and> has_scope a action"
    using \<open>op_mode_of env \<noteq> OFF\<close> assms h rows ok r(3)
    by (auto simp: authenticate_def Let_def split: if_splits dest: auth_fail_Inr)
  with that h rows r show thesis by auto
qed

lemma authenticate_enforce_proven:
  "authenticate env H now loaded hs action c = (c', Inr a) \<Longrightarrow> op_mode_of env = ENFORCE \<Longrightarrow> authenticated a"
  by (auto simp: authenticate_def Let_def authenticated_def split: sum.splits if_splits dest!: auth_fail_Inr)


text \<open>Stripping removes every reserved key at every depth, and nothing else at the top.\<close>

lemma strip_json_no_reserved: "\<not> has_reserved (strip_json j)"
  and strip_reserved_no_reserved: "\<not> has_reserved (JObj (strip_reserved kvs))"
  by (induction j and kvs rule: strip_json_strip_reserved.induct) (auto simp: list_ex_iff)

lemma map_of_strip_reserved:
  "map_of (strip_reserved kvs) k = (if is_reserved k then None else map_option strip_json (map_of kvs k))"
  by (induction kvs) auto

lemma has_reserved_obj_iff: "has_reserved (JObj kvs) \<longleftrightarrow> (\<exists>(k, v) \<in> set kvs. is_reserved k \<or> has_reserved v)"
  by (auto simp: list_ex_iff)

lemma set_update_fresh: "set (AList.update k v al) \<subseteq> insert (k, v) (set al)"
  by (induction al) auto

lemma has_reserved_update:
  assumes "\<not> has_reserved (JObj al)" "\<not> is_reserved k" "\<not> has_reserved v"
  shows "\<not> has_reserved (JObj (AList.update k v al))"
  using assms set_update_fresh [of k v al] unfolding has_reserved_obj_iff by blast

lemma not_reserved_keys: "\<not> is_reserved ''claimed_id''" "\<not> is_reserved ''self_reported''"
  by (code_simp, code_simp)

lemma shown_claim_json_plain [simp]: "\<not> has_reserved (shown_claim_json v)"
  by (auto simp: shown_claim_json_def split: json.splits)

lemma strip_reserved_admitted:
  "\<not> has_reserved (JObj (AList.update ''self_reported'' (JBool b)
     (case map_of (strip_reserved p) ''claimed_id'' of None \<Rightarrow> strip_reserved p
      | Some v \<Rightarrow> AList.update ''claimed_id'' (shown_claim_json v) (strip_reserved p))))"
proof -
  have plain: "\<not> has_reserved (JBool b)" by simp
  have clean: "\<not> has_reserved (JObj (case map_of (strip_reserved p) ''claimed_id'' of None \<Rightarrow> strip_reserved p
      | Some v \<Rightarrow> AList.update ''claimed_id'' (shown_claim_json v) (strip_reserved p)))"
    using strip_reserved_no_reserved [of p]
      has_reserved_update [OF strip_reserved_no_reserved [of p] not_reserved_keys(1) shown_claim_json_plain]
    by (auto simp del: has_reserved.simps split: option.split)
  show ?thesis by (rule has_reserved_update [OF clean not_reserved_keys(2) plain])
qed

lemma attributing_callerD:
  assumes "attributing_caller (authenticate env H now loaded hs s c) = Some a"
  shows "\<exists>c'. authenticate env H now loaded hs s c = (c', Inr a) \<and> authenticated a"
  using assms
  by (cases "authenticate env H now loaded hs s c")
    (auto simp: attributing_caller_def split: sum.splits if_splits)


section \<open>Properties\<close>

text \<open>The credential of the properties' witnesses: the digest is the identity function.\<close>

definition demo_operators :: "op_row list" where
  "demo_operators = [(demo_row ''don'' ''key1'')\<lparr>row_scopes := [''*'', ''ledger_attribute''], row_prefixes := [''kill.'']\<rparr>,
     (demo_row ''svc-verifier-gb10'' ''key2'')\<lparr>row_scopes := [''kill''], row_names := [''canary'']\<rparr>]"

definition demo_enforce :: op_env where
  "demo_enforce = \<lparr>env_require = ''1'', env_registry = ''ops.json''\<rparr>"

definition demo_log_only :: op_env where
  "demo_log_only = \<lparr>env_require = [], env_registry = ''ops.json''\<rparr>"

definition no_uses :: breakglass where
  "no_uses = \<lparr>breakglass_auth_count = 0, breakglass_attempt_count = 0\<rparr>"

definition demo_headers :: "string \<Rightarrow> string \<Rightarrow> headers" where
  "demo_headers i k = [(''x-field-operator'', i), (''x-field-operator-key'', k)]"

lemma demo_modes: "op_mode_of demo_enforce = ENFORCE" "op_mode_of demo_log_only = LOG_ONLY"
  by (code_simp, code_simp)

lemma demo_parsed: "parse_headers (demo_headers ''don'' ''key1'') = Inr (Some ''don'', Some ''key1'')"
  "parse_headers (demo_headers ''don'' ''wrong'') = Inr (Some ''don'', Some ''wrong'')"
  by (code_simp, code_simp)

lemma demo_verified:
  "verify (\<lambda>k. k) ''don'' ''key1'' demo_operators 5
     = \<lparr>vf_ok = True, vf_scopes = [''*'', ''ledger_attribute''], vf_names = [], vf_prefixes = [''kill.'']\<rparr>"
  "vf_ok (verify (\<lambda>k. k) ''don'' ''wrong'' demo_operators 5) = False"
  by (simp_all add: verify_def demo_operators_def verify_step_def demo_row_def key_matches_def no_match_def
      NO_SLOT_def)

lemma demo_authenticates:
  "authenticate demo_enforce (\<lambda>k. k) 5 (Inr demo_operators) (demo_headers ''don'' ''key1'') ''kill'' no_uses
     = (no_uses, Inr \<lparr>oa_mode = ENFORCE, operator_id = Some ''don'', oa_claimed = shown_claim (Some ''don''),
         oa_key_fp = Some ''key1'', oa_scopes = [''*'', ''ledger_attribute''], oa_names = [], oa_failure = None,
         oa_prefixes = [''kill.'']\<rparr>)"
  by (simp add: authenticate_def demo_modes demo_parsed demo_verified is_breakglass_def BREAKGLASS_ID_def
      demo_operators_def demo_row_def has_scope_def EXPLICIT_ONLY_def Let_def)
    (simp add: demo_verified [unfolded demo_operators_def demo_row_def, simplified] is_breakglass_def)

text \<open>C4: under ENFORCE a guarded write that goes ahead is proven: exactly one well-formed id and key
  arrived, the file loaded, and an active row of that id matches the key now and grants the action (by
  name, or by \<open>*\<close> when the action is not one of the explicit-only scopes).\<close>

theorem enforce_admits_only_proven:
  assumes "op_mode_of env = ENFORCE"
    and "authenticate env H now loaded hs action c = (c', Inr a)"
  shows "\<exists>op key rows r. parse_headers hs = Inr (Some op, Some key) \<and> loaded = Inr rows \<and> r \<in> set rows
    \<and> row_id r = op \<and> row_status r = ''active'' \<and> key_matches (H key) r now \<and> operator_id a = Some op
    \<and> (action \<in> set (row_scopes r) \<or> action \<notin> set EXPLICIT_ONLY \<and> ''*'' \<in> set (row_scopes r))"
proof -
  from authenticate_enforce_proven [OF assms(2,1)] authenticated_from_row [OF assms(2)]
  obtain op key rows r where f: "parse_headers hs = Inr (Some op, Some key)" "loaded = Inr rows" "r \<in> set rows"
    "row_matches op (H key) now r" "operator_id a = Some op" "oa_scopes a = row_scopes r" "has_scope a action" by metis
  from f(4) have "row_id r = op" "row_status r = ''active''" "key_matches (H key) r now"
    by (simp_all add: row_matches_def)
  moreover from f(6,7) have "action \<in> set (row_scopes r) \<or> action \<notin> set EXPLICIT_ONLY \<and> ''*'' \<in> set (row_scopes r)"
    by (auto simp: has_scope_def split: if_splits)
  ultimately show ?thesis using f by blast
qed

lemma enforce_admits_only_proven_witness:
  "\<exists>op key rows r. parse_headers (demo_headers ''don'' ''key1'') = Inr (Some op, Some key)
    \<and> (Inr demo_operators :: registry_fault + op_row list) = Inr rows \<and> r \<in> set rows \<and> row_id r = op
    \<and> row_status r = ''active'' \<and> key_matches key r 5"
  using enforce_admits_only_proven [OF demo_modes(1) demo_authenticates] by blast


text \<open>LOG-ONLY only watches: with the file named and the flag unset no guarded write is refused for
  its identity (the one refusal left is 400 for malformed credential headers), a credential that fails
  proves nothing, and with both unset nothing is evaluated at all.\<close>

lemma log_only_never_refuses:
  assumes "op_mode_of env = LOG_ONLY \<and> isl (parse_headers hs) = False \<or> op_mode_of env = OFF"
  shows "\<exists>c' a. authenticate env H now loaded hs action c = (c', Inr a)
    \<and> (op_mode_of env = OFF \<longrightarrow> c' = c \<and> a = NO_AUTH)
    \<and> (authenticated a \<longleftrightarrow> oa_failure a = None \<and> op_mode_of env = LOG_ONLY)"
proof (cases "op_mode_of env = OFF")
  case True
  then show ?thesis by (simp add: authenticate_def authenticated_def NO_AUTH_def unproven_def)
next
  case False
  with assms obtain op key where h: "parse_headers hs = Inr (op, key)" and m: "op_mode_of env = LOG_ONLY"
    by (auto simp: isl_def) (metis isl_def obj_sumE surj_pair)
  have failed: "\<exists>c' a. auth_fail LOG_ONLY op rows st d why c0 = (c', Inr a) \<and> \<not> authenticated a \<and> oa_failure a \<noteq> None"
    for rows st d why c0
    by (simp add: auth_fail_def unproven_def authenticated_def Let_def)
  obtain c' a where r: "authenticate env H now loaded hs action c = (c', Inr a)"
    "authenticated a \<longleftrightarrow> oa_failure a = None"
  proof (cases "op = None \<or> key = None")
    case True
    with that m h failed show thesis by (fastforce simp: authenticate_def Let_def)
  next
    case False
    with that m h failed show thesis
      by (cases loaded) (fastforce simp: authenticate_def Let_def authenticated_def split: if_splits)+
  qed
  with m show ?thesis by auto
qed


lemma log_only_never_refuses_witness:
  "\<exists>c' a. authenticate demo_log_only (\<lambda>k. k) 5 (Inr demo_operators) (demo_headers ''don'' ''wrong'') ''kill'' no_uses
      = (c', Inr a)"
proof -
  have "op_mode_of demo_log_only = LOG_ONLY \<and> isl (parse_headers (demo_headers ''don'' ''wrong'')) = False
      \<or> op_mode_of demo_log_only = OFF"
    by (simp add: demo_modes demo_parsed)
  from log_only_never_refuses [OF this] show ?thesis by blast
qed

text \<open>C5: no forged attribution reaches the ledger: with the operator layer armed, an admitted payload
  that still holds a reserved operator key (at any depth, however spelt) came from an active row that
  holds \<open>ledger_attribute\<close> and lists a prefix of this event type, which is not an \<open>operator.*\<close> type;
  and an \<open>operator.*\<close> type, however spelt, is admitted only as one of the two self-reportable ones.\<close>

theorem admitted_attribution_is_proven:
  assumes "op_mode_of env \<noteq> OFF"
    and "admit_ledger_event env H now loaded hs etype p c = (c', Inr q)"
  shows "(has_reserved (JObj q) \<longrightarrow> q = p \<and> \<not> starts_with ''operator.'' (sealed_prefix_form etype)
      \<and> (\<exists>op key rows r. parse_headers hs = Inr (Some op, Some key) \<and> loaded = Inr rows \<and> r \<in> set rows
           \<and> row_id r = op \<and> row_status r = ''active'' \<and> key_matches (H key) r now
           \<and> ''ledger_attribute'' \<in> set (row_scopes r) \<and> (\<exists>pre \<in> set (row_prefixes r). starts_with pre etype)))
    \<and> (starts_with ''operator.'' (sealed_prefix_form etype) \<longrightarrow> etype \<in> set SELF_REPORTABLE_EVENT_TYPES)"
proof (cases "starts_with ''operator.'' (sealed_prefix_form etype)")
  case True
  with assms have "\<not> has_reserved (JObj q)" "etype \<in> set SELF_REPORTABLE_EVENT_TYPES"
    using strip_reserved_admitted [of _ p]
    by (auto simp: admit_ledger_event_def Let_def simp del: has_reserved.simps split: if_splits)
  then show ?thesis by blast
next
  case False
  let ?auth = "authenticate env H now loaded hs ''ledger_attribute'' c"
  show ?thesis
  proof (cases "has_reserved (JObj q)")
    case reserved: True
    have "\<exists>a. attributing_caller ?auth = Some a \<and> may_attribute a etype" "q = p"
      using assms False reserved strip_reserved_no_reserved [of p]
      by (auto simp: admit_ledger_event_def Let_def simp del: has_reserved.simps split: if_splits option.splits)
    then obtain a where a: "attributing_caller ?auth = Some a" "may_attribute a etype" by blast
    from attributing_callerD [OF a(1)] obtain c2 where "?auth = (c2, Inr a)" "authenticated a" by blast
    from authenticated_from_row [OF this] obtain op key rows r where
      f: "parse_headers hs = Inr (Some op, Some key)" "loaded = Inr rows" "r \<in> set rows" "row_matches op (H key) now r"
      "oa_scopes a = row_scopes r" "oa_prefixes a = row_prefixes r" "has_scope a ''ledger_attribute''" by metis
    have "''ledger_attribute'' \<in> set (row_scopes r)" "\<exists>pre \<in> set (row_prefixes r). starts_with pre etype"
      using f(5-7) a(2) by (auto simp: has_scope_def EXPLICIT_ONLY_def may_attribute_def list_ex_iff split: if_splits)
    with f \<open>q = p\<close> False show ?thesis unfolding row_matches_def by blast
  next
    case False
    with \<open>\<not> starts_with ''operator.'' (sealed_prefix_form etype)\<close> show ?thesis by blast
  qed
qed

definition attributed_payload :: "(string \<times> json) list" where
  "attributed_payload = [(''operator_claimed'', JStr ''don'')]"

lemma attributed_event_admitted:
  "admit_ledger_event demo_enforce (\<lambda>k. k) 5 (Inr demo_operators) (demo_headers ''don'' ''key1'') ''kill.done''
     attributed_payload no_uses = (no_uses, Inr attributed_payload) \<and> has_reserved (JObj attributed_payload)"
  by code_simp

lemma admitted_attribution_is_proven_witness:
  "\<exists>op key rows r. parse_headers (demo_headers ''don'' ''key1'') = Inr (Some op, Some key)
     \<and> (Inr demo_operators :: registry_fault + op_row list) = Inr rows \<and> r \<in> set rows \<and> row_id r = op
     \<and> (\<exists>pre \<in> set (row_prefixes r). starts_with pre ''kill.done'')"
proof -
  have "op_mode_of demo_enforce \<noteq> OFF" by (simp add: demo_modes)
  from admitted_attribution_is_proven [OF this conjunct1 [OF attributed_event_admitted]]
    conjunct2 [OF attributed_event_admitted] show ?thesis by blast
qed

text \<open>a machine verifier is bound to the agents that name it: under ENFORCE an identity with the
  verifier prefix and without \<open>bypass_operator_list\<close> passes the record check only for an agent whose
  manifest resolves and lists its id or one of its aliases; an empty list or no manifest refuses it.\<close>

lemma list_bound_needs_naming:
  assumes "list_bound_applies a" and "check_record_authorized a res = Inr ()"
  shows "\<exists>m listed. fst res = Some m \<and> operators_of m = Some listed
    \<and> (the (operator_id a) \<in> set listed \<or> (\<exists>n \<in> set (oa_names a). n \<in> set listed))"
  using assms
  by (auto simp: list_bound_applies_def check_record_authorized_def check_explicitly_listed_def check_authorized_def
      list_ex_iff split: if_splits option.splits prod.splits)


definition demo_manifest :: "string list \<Rightarrow> field_manifest" where
  "demo_manifest operators = \<lparr>schema_version = SCHEMA_VERSION,
     mf_agent_section = \<lparr>ag_name = ''canary'', ag_description = None, ag_version = None\<rparr>,
     mf_federated = \<lparr>isolated = True, allowed_peers = None, contracts = None\<rparr>,
     mf_identity_section = \<lparr>principal = ''don'', id_org = None, jurisdiction = None, id_data_scope = None,
       model_provider = None\<rparr>,
     mf_enforcement = \<lparr>en_kill_switch = \<lparr>ks_endpoint = ''/kill'', ks_method = ''POST'',
         authorized_operators = Some operators, local_sentinel = None, sentinel_max_age_s = None\<rparr>,
       en_spend_cap = None, escalation_triggers = None, rate_limits = None, en_irreversible = None,
       protected_paths = None, irreversible_action_policy = Forbid\<rparr>,
     mf_ledger_section = \<lparr>cryptographic_seal = True, mf_seal_algorithm = Sha256Chain, retention_days = 1,
       logged_events = [''all''], ledger_store = None\<rparr>,
     mf_delegation_section = \<lparr>md_granted_by = ''don'', md_scope = [''read''], md_expiry = ''2027-01-01'',
       md_revocation = None\<rparr>,
     mf_runtime_protocol = None\<rparr>"

definition demo_verifier :: operator_auth where
  "demo_verifier = \<lparr>oa_mode = ENFORCE, operator_id = Some ''svc-verifier-gb10'', oa_claimed = None, oa_key_fp = None,
     oa_scopes = [''kill''], oa_names = [''canary''], oa_failure = None, oa_prefixes = []\<rparr>"

lemma list_bound_needs_naming_witness:
  "\<exists>m listed. fst (Some (demo_manifest [''canary'']), RR_ok) = Some m \<and> operators_of m = Some listed
    \<and> (the (operator_id demo_verifier) \<in> set listed \<or> (\<exists>n \<in> set (oa_names demo_verifier). n \<in> set listed))"
  by (rule list_bound_needs_naming)
    (simp_all add: list_bound_applies_def list_bound_def demo_verifier_def LIST_BOUND_PREFIX_def has_scope_def
      EXPLICIT_ONLY_def check_record_authorized_def check_explicitly_listed_def check_authorized_def authenticated_def
      operators_of_def demo_manifest_def)

lemma map_of_dict_update:
  "distinct (map fst f) \<Longrightarrow> map_of (dict_update d f) k = (case map_of f k of Some v \<Rightarrow> Some v | None \<Rightarrow> map_of d k)"
proof (induction f arbitrary: d)
  case (Cons kv f)
  obtain a b where kv: "kv = (a, b)" by (cases kv)
  with Cons.prems have "map_of f a = None" "distinct (map fst f)" by (simp_all add: map_of_eq_None_iff)
  moreover have "dict_update d (kv # f) = dict_update (AList.update a b d) f" by (simp add: dict_update_def kv)
  ultimately show ?case
    using Cons.IH [of "AList.update a b d"] by (cases "k = a") (simp_all add: kv update_conv' split: option.split)
qed (simp add: dict_update_def)

lemma ledger_fields_keys: "distinct (map fst (ledger_fields cx)) \<and> set (map fst (ledger_fields cx)) \<subseteq> set RESERVED_KEYS"
  by (simp add: ledger_fields_def auth_ledger_fields_def RESERVED_KEYS_def Let_def)

lemma RESERVED_KEYS_reserved: "k \<in> set RESERVED_KEYS \<Longrightarrow> is_reserved k"
  by (simp add: is_reserved_def)

text \<open>the operator fields of a payload come from the request's proven context alone: once armed, a
  merged payload holds under every reserved spelling exactly what \<open>ledger_fields\<close> computed (nothing,
  for a spelling other than the key itself), and under every other key what the caller sent, stripped.\<close>

lemma merged_fields_come_from_context:
  assumes "op_mode_of env \<noteq> OFF"
  shows "map_of (merge_payload env cx p) k =
    (if is_reserved k then map_of (ledger_fields cx) k else map_option strip_json (map_of p k))"
proof -
  have fields: "map_of (ledger_fields cx) k = None" if "\<not> is_reserved k"
    using that ledger_fields_keys [of cx] RESERVED_KEYS_reserved [of k] by (force simp: map_of_eq_None_iff)
  show ?thesis
    using assms fields conjunct1 [OF ledger_fields_keys]
    by (auto simp: merge_payload_def map_of_dict_update map_of_strip_reserved split: option.splits)
qed

lemma merged_fields_come_from_context_witness:
  "map_of (merge_payload demo_enforce \<lparr>cx_auth = demo_verifier, cx_body_claim = None, cx_on_behalf = Some ''don''\<rparr>
     [(''operator_on_behalf_of'', JStr ''don'')]) ''operator_on_behalf_of'' = None"
proof -
  have "op_mode_of demo_enforce \<noteq> OFF" by (simp add: demo_modes)
  moreover have "is_reserved ''operator_on_behalf_of''" by (simp add: is_reserved_def RESERVED_KEYS_def)
  ultimately show ?thesis
    by (simp add: merged_fields_come_from_context)
      (simp add: ledger_fields_def auth_ledger_fields_def demo_verifier_def acts_for_others_def has_scope_def
        EXPLICIT_ONLY_def Let_def)
qed

end
