(* ===== verification/Ledger_Store.thy ===== *)
theory Ledger_Store
  imports Segment_Journal Operator_Auth
begin

text \<open>
  The writes of the ledger store: \<open>services/sealed-ledger/src/sealed_ledger/store.py\<close>, from the writer's cache
  (\<open>_recover_locked\<close>, \<open>_ensure_fresh_locked\<close>) through appends and rotations to the repair of what a crash left
  (\<open>_reconcile_locked\<close>).

  A directory maps names to files. An operation computes the writes it makes, in order, and its result; a crash
  leaves the directory after some of them, the next possibly half done. The writer lock makes an operation's
  reads and writes one step for other writers. \<open>_disk_key\<close> (sizes and inodes) stands for the contents of the two
  files it looks at: under the lock they only grow or are replaced.
\<close>

section \<open>Writes to the ledger directory\<close>

type_synonym directory = "string \<Rightarrow> text_file option"

datatype disk_write =
    AppendOpen ledger_event
  | AppendJournal py_dict
  | WriteTmp ledger_event
  | RenameOpen string
  | InstallTmp
  | RemoveTmp
  | TruncateJournal

text \<open>
  \<open>model_dump_json\<close> writes what \<open>json.loads\<close> reads back, with one exception: JSON has no NaN and no
  infinity, and pydantic writes null for them (\<open>ser_json_inf_nan\<close>), where \<open>json.dumps\<close>, which the
  hash is taken over, writes the words. A \<open>storable\<close> event has no such number in its payload.
\<close>

definition NONFINITE :: "string list" where
  "NONFINITE = [''NaN'', ''Infinity'', ''-Infinity'']"

fun written :: "json \<Rightarrow> json" where
  "written (JFloat r) = (if r \<in> set NONFINITE then JNull else JFloat r)"
| "written (JArr js) = JArr (map written js)"
| "written (JObj kvs) = JObj (map (\<lambda>(k, v). (k, written v)) kvs)"
| "written j = j"

fun finite_json :: "json \<Rightarrow> bool" where
  "finite_json (JFloat r) = (r \<notin> set NONFINITE)"
| "finite_json (JArr js) = list_all finite_json js"
| "finite_json (JObj kvs) = list_all (\<lambda>(k, v). finite_json v) kvs"
| "finite_json _ = True"

definition finite_payload :: "py_dict option \<Rightarrow> bool" where
  "finite_payload p = (case p of None \<Rightarrow> True | Some d \<Rightarrow> finite_json (JObj d))"

definition storable :: "ledger_event \<Rightarrow> bool" where
  "storable e = finite_json (JObj (payload e))"

definition event_line :: "ledger_event \<Rightarrow> file_line" where
  "event_line e = Doc (written (JObj (event_dump e)))"

lemma written_finite: "finite_json j \<Longrightarrow> written j = j"
proof (induction j rule: written.induct)
  case (3 kvs)
  then have "map (\<lambda>(k, v). (k, written v)) kvs = map id kvs"
    by (intro map_cong) (auto simp: list_all_iff)
  then show ?case by simp
qed (auto simp: list_all_iff map_idI)

text \<open>The line of an event is its dump with the payload as it is written; a storable event's line is its dump.\<close>

lemma event_line_payload: "event_line e = Doc (JObj (event_dump (e\<lparr>payload := map (\<lambda>(k, v). (k, written v)) (payload e)\<rparr>)))"
  by (simp add: event_line_def event_dump_def opt_item_def json_opt_def split: option.split)

lemma event_line_storable: "storable e \<Longrightarrow> event_line e = Doc (JObj (event_dump e))"
  using written_finite [of "JObj (payload e)"] by (simp add: event_line_payload storable_def)

definition append_line :: "string \<Rightarrow> file_line \<Rightarrow> directory \<Rightarrow> directory" where
  "append_line name l d = d(name \<mapsto> add_line l (case d name of None \<Rightarrow> empty_file | Some f \<Rightarrow> f))"

definition move_file :: "string \<Rightarrow> string \<Rightarrow> directory \<Rightarrow> directory" where
  "move_file src dst d = d(dst := d src, src := None)"

definition drop_tail :: "text_file \<Rightarrow> text_file" where
  "drop_tail f = f\<lparr>tf_tail := None\<rparr>"

fun apply_write :: "string \<Rightarrow> disk_write \<Rightarrow> directory \<Rightarrow> directory" where
  "apply_write p (AppendOpen e) d = append_line p (event_line e) d"
| "apply_write p (AppendJournal rec) d = append_line (journal_path_for p) (Doc (JObj rec)) d"
| "apply_write p (WriteTmp e) d = d(rotating_tmp_for p \<mapsto> \<lparr>tf_lines = [event_line e], tf_tail = None\<rparr>)"
| "apply_write p (RenameOpen name) d = move_file p name d"
| "apply_write p InstallTmp d = move_file (rotating_tmp_for p) p d"
| "apply_write p RemoveTmp d = d(rotating_tmp_for p := None)"
| "apply_write p TruncateJournal d = d(journal_path_for p := map_option drop_tail (d (journal_path_for p)))"

definition apply_writes :: "string \<Rightarrow> disk_write list \<Rightarrow> directory \<Rightarrow> directory" where
  "apply_writes p ws d = fold (apply_write p) ws d"

text \<open>
  A write the crash interrupted. Renames, removals and the truncation happen or do not; a line may be missing,
  half there, or there without its line break.
\<close>

datatype tear = NoBytes | SomeBytes | AllButBreak

definition tear_onto :: "tear \<Rightarrow> file_line \<Rightarrow> text_file \<Rightarrow> text_file" where
  "tear_onto t l f = (case t of
     NoBytes \<Rightarrow> f
   | SomeBytes \<Rightarrow> tear_line f
   | AllButBreak \<Rightarrow> f\<lparr>tf_tail := Some (case tf_tail f of None \<Rightarrow> l | Some x \<Rightarrow> join_line x l)\<rparr>)"

definition tear_append :: "string \<Rightarrow> tear \<Rightarrow> file_line \<Rightarrow> directory \<Rightarrow> directory" where
  "tear_append name t l d = d(name \<mapsto> tear_onto t l (case d name of None \<Rightarrow> empty_file | Some f \<Rightarrow> f))"

fun torn_write :: "string \<Rightarrow> tear \<Rightarrow> disk_write \<Rightarrow> directory \<Rightarrow> directory" where
  "torn_write p t (AppendOpen e) d = tear_append p t (event_line e) d"
| "torn_write p t (AppendJournal rec) d = tear_append (journal_path_for p) t (Doc (JObj rec)) d"
| "torn_write p t (WriteTmp e) d = d(rotating_tmp_for p \<mapsto> tear_onto t (event_line e) empty_file)"
| "torn_write p t _ d = d"

text \<open>The directory a crash leaves: the first \<open>k\<close> writes, and what of the next one the tear says.\<close>

definition crash_at :: "string \<Rightarrow> disk_write list \<Rightarrow> nat \<Rightarrow> tear option \<Rightarrow> directory \<Rightarrow> directory" where
  "crash_at p ws k t d =
     (let d' = apply_writes p (take k ws) d in
      case t of Some x \<Rightarrow> if k < length ws then torn_write p x (ws ! k) d' else d' | None \<Rightarrow> d')"

section \<open>The writer's cache\<close>

record writer_cache =
  wc_head :: string
  wc_len :: int
  wc_start :: int
  wc_next :: int
  wc_closed_head :: string
  wc_key :: "text_file option \<times> text_file option"
  wc_pending :: bool

definition disk_key :: "string \<Rightarrow> directory \<Rightarrow> text_file option \<times> text_file option" where
  "disk_key p d = (d p, d (journal_path_for p))"

definition or_else :: "string \<Rightarrow> string \<Rightarrow> string" where
  "or_else s t = (if s = [] then t else s)"

text \<open>\<open>_recover_locked\<close>: from the journal and the open segment alone; None where a line of it does not parse.\<close>

definition open_events :: "validator \<Rightarrow> string \<Rightarrow> directory \<Rightarrow> ledger_event list option option" where
  "open_events validate p d = (case d p of None \<Rightarrow> Some None | Some f \<Rightarrow> map_option Some (parse_events validate f))"

definition closed_head_of :: "layout \<Rightarrow> string" where
  "closed_head_of ly =
     (let closed = filter sv_closed (ly_segs ly) in
      if closed \<noteq> [] then or_else (case sv_head (last closed) of None \<Rightarrow> [] | Some h \<Rightarrow> h) GENESIS_HASH
      else if ly_archived ly \<noteq> [] then en_head (last (ly_archived ly)) else GENESIS_HASH)"

definition recover :: "validator \<Rightarrow> string \<Rightarrow> directory \<Rightarrow> writer_cache option" where
  "recover validate p d =
     (case open_events validate p d of None \<Rightarrow> None
      | Some opened \<Rightarrow>
        let ly = layout_of p d; js = ly_journal ly;
            rs = map (\<lambda>seg. (seg, if sv_closed seg then None else opened, None)) (ly_segs ly);
            head = (case opened of Some es \<Rightarrow> if es = [] then [] else ev_hash (last es) | None \<Rightarrow> [])
        in Some \<lparr>wc_head = or_else head (closed_head_of ly), wc_len = global_length ly rs,
             wc_start = sv_start (last (ly_segs ly)), wc_next = sv_number (last (ly_segs ly)),
             wc_closed_head = closed_head_of ly, wc_key = disk_key p d,
             wc_pending = (js_pending js \<noteq> None \<or> js_error js \<noteq> None \<or> \<not> js_whole js)\<rparr>)"

section \<open>Repairing what a crash left\<close>

datatype store_error = LedgerCorrupt | EventInvalid | Refused append_refused | NoAnchorKey | BlankField
  | NothingToRotate | TargetExists | LedgerBusy

datatype repair = Clean | TailDropped | RolledBack | RolledForward

definition abort_record :: "int \<Rightarrow> string \<Rightarrow> string \<Rightarrow> py_dict" where
  "abort_record n now why = [(''op'', JStr ''rotate-abort''), (''n'', JInt n), (''at'', JStr now), (''reason'', JStr why)]"

definition commit_record :: "int \<Rightarrow> string \<Rightarrow> string \<Rightarrow> py_dict" where
  "commit_record n h now = [(''op'', JStr ''rotate-commit''), (''n'', JInt n), (''rotation_event_hash'', JStr h),
     (''closed_at'', JStr now)]"

definition RECOVERED :: string where "RECOVERED = ''recovered: crash before rename''"

text \<open>
  \<open>_reconcile_locked\<close> up to its last recovery: the writes, and the error that stopped it (the writes before it
  have happened) or what was done. The open segment cannot reappear between the rename of the tmp file's
  write and its install: nobody else writes under the lock.
\<close>

definition rotation_matches :: "seg_entry \<Rightarrow> ledger_event list \<Rightarrow> bool" where
  "rotation_matches e es = (int (length es) = en_end e - en_start e + 1 \<and> es \<noteq> [] \<and> ev_hash (last es) = en_head e)"

definition roll_forward :: "validator \<Rightarrow> string \<Rightarrow> string \<Rightarrow> directory \<Rightarrow> seg_entry \<Rightarrow> text_file
    \<Rightarrow> store_error + disk_write list" where
  "roll_forward validate now p d e f =
     (let commit = (\<lambda>rot. AppendJournal (commit_record (en_n e) (ev_hash rot) now @ [(''recovered'', JBool True)])) in
      case parse_events validate f of None \<Rightarrow> Inl LedgerCorrupt
      | Some es \<Rightarrow>
        if \<not> rotation_matches e es then Inl LedgerCorrupt
        else case validate (JObj (en_rotation e)) of None \<Rightarrow> Inl EventInvalid
        | Some rot \<Rightarrow>
          (case d p of
             None \<Rightarrow> Inr [WriteTmp rot, InstallTmp, commit rot]
           | Some g \<Rightarrow> (case parse_events validate g of None \<Rightarrow> Inl LedgerCorrupt
               | Some xs \<Rightarrow> if xs = [] \<or> ev_hash (hd xs) \<noteq> ev_hash rot then Inl LedgerCorrupt else Inr [commit rot])))"

definition reconcile_writes :: "validator \<Rightarrow> string \<Rightarrow> string \<Rightarrow> directory \<Rightarrow> disk_write list \<times> (store_error + repair)" where
  "reconcile_writes validate now p d =
     (let js = parse_journal (d (journal_path_for p)); cut = (if js_whole js then [] else [TruncateJournal]) in
      if js_error js \<noteq> None then ([], Inl LedgerCorrupt)
      else case js_pending js of
        None \<Rightarrow> (cut @ [RemoveTmp], Inr (if js_whole js then Clean else TailDropped))
      | Some e \<Rightarrow>
        (case d (en_file e) of
           None \<Rightarrow> (cut @ [RemoveTmp, AppendJournal (abort_record (en_n e) now RECOVERED)], Inr RolledBack)
         | Some f \<Rightarrow> (case roll_forward validate now p d e f of
             Inl x \<Rightarrow> (cut, Inl x) | Inr ws \<Rightarrow> (cut @ ws, Inr RolledForward))))"

text \<open>\<open>reconcile\<close>: recover, repair, recover.\<close>

definition reconcile :: "validator \<Rightarrow> string \<Rightarrow> string \<Rightarrow> directory \<Rightarrow> directory \<times> (store_error + writer_cache \<times> repair)" where
  "reconcile validate now p d =
     (case recover validate p d of None \<Rightarrow> (d, Inl EventInvalid)
      | Some _ \<Rightarrow>
        (case reconcile_writes validate now p d of (ws, r) \<Rightarrow>
           let d' = apply_writes p ws d in
           (d', case r of Inl x \<Rightarrow> Inl x
             | Inr done \<Rightarrow> (case recover validate p d' of None \<Rightarrow> Inl EventInvalid | Some c \<Rightarrow> Inr (c, done)))))"

text \<open>\<open>_ensure_fresh_locked\<close>: the writes it makes and the cache it ends with.\<close>

definition ensure_fresh :: "validator \<Rightarrow> string \<Rightarrow> string \<Rightarrow> directory \<Rightarrow> writer_cache
    \<Rightarrow> disk_write list \<times> (store_error + writer_cache)" where
  "ensure_fresh validate now p d c =
     (if disk_key p d = wc_key c \<and> \<not> wc_pending c then ([], Inr c)
      else case recover validate p d of None \<Rightarrow> ([], Inl LedgerCorrupt)
      | Some c' \<Rightarrow>
        if \<not> wc_pending c' then ([], Inr c')
        else case reconcile_writes validate now p d of
          (ws, Inl x) \<Rightarrow> (ws, Inl x)
        | (ws, Inr _) \<Rightarrow> (ws, case recover validate p (apply_writes p ws d) of None \<Rightarrow> Inl EventInvalid | Some c'' \<Rightarrow> Inr c''))"

section \<open>Appending\<close>

text \<open>
  \<open>append\<close> (\<open>served\<close> False: the ledger's own events) and \<open>append_for_caller\<close>: the checks before the lock, the
  fresh cache, the event on its head, one line. The cache then holds the write without another read.
\<close>

definition cache_append :: "string \<Rightarrow> directory \<Rightarrow> ledger_event \<Rightarrow> writer_cache \<Rightarrow> writer_cache" where
  "cache_append p d e c = c\<lparr>wc_head := ev_hash e, wc_len := wc_len c + 1,
     wc_key := (apply_write p (AppendOpen e) d p, snd (wc_key c))\<rparr>"

definition append_checks :: "crypto \<Rightarrow> signing_config \<Rightarrow> caller_policy \<Rightarrow> bool \<Rightarrow> append_world \<Rightarrow> append_request
    \<Rightarrow> append_refused + caller_stamp" where
  "append_checks cr cfg pol served w q =
     bindE (if served then check_caller cr pol (aq_type q) (aq_payload q) (aq_agent q) (aq_claim q) (aw_now w) else Inr NoStamp)
       (\<lambda>st. bindE (require_appendable cfg (aq_type q)) (\<lambda>_. Inr st))"

definition append_writes :: "(string \<Rightarrow> string) \<Rightarrow> validator \<Rightarrow> crypto \<Rightarrow> signing_config \<Rightarrow> caller_policy \<Rightarrow> string
    \<Rightarrow> directory \<Rightarrow> writer_cache \<Rightarrow> bool \<Rightarrow> append_world \<Rightarrow> append_request
    \<Rightarrow> disk_write list \<times> (store_error + ledger_event \<times> writer_cache)" where
  "append_writes H validate cr cfg pol p d c served w q =
     (case append_checks cr cfg pol served w q of Inl r \<Rightarrow> ([], Inl (Refused r))
      | Inr st \<Rightarrow>
        (case ensure_fresh validate (aw_clock w) p d c of
           (ws, Inl x) \<Rightarrow> (ws, Inl x)
         | (ws, Inr c') \<Rightarrow>
           (case build_event H cr cfg w q st (wc_head c') of
              Inl r \<Rightarrow> (ws, Inl (Refused r))
            | Inr None \<Rightarrow> (ws, Inl EventInvalid)
            | Inr (Some e) \<Rightarrow> (ws @ [AppendOpen e], Inr (e, cache_append p (apply_writes p ws d) e c')))))"

section \<open>Rotating\<close>

text \<open>
  \<open>_plan_rotation_locked\<close>: the event that closes the segment and the journal's intent. \<open>op_fields\<close> are the
  authenticated operator's (\<open>ledger_fields\<close>), \<open>anchor_sig\<close> the anchor key's signature over the record.
\<close>

record rotation_plan =
  rp_entry :: seg_entry
  rp_event :: ledger_event
  rp_intent :: py_dict

record rotate_request =
  rq_key :: "string option"
  rq_operator :: string
  rq_reason :: string
  rq_fields :: py_dict
  rq_now :: string
  rq_world :: append_world

definition anchor_record :: "string \<Rightarrow> int \<Rightarrow> string \<Rightarrow> int \<Rightarrow> py_dict" where
  "anchor_record now glen head n =
     [(''anchored_at'', JStr now), (''chain_length'', JInt glen), (''head_hash'', JStr head), (''segment'', JInt n)]"

definition rotation_payload :: "string \<Rightarrow> writer_cache \<Rightarrow> py_dict \<Rightarrow> rotate_request \<Rightarrow> py_dict" where
  "rotation_payload p c anchor q = dict_update
     [(''segment_closed'', JInt (wc_next c)), (''file'', JStr (closed_path_for p (wc_next c))),
      (''start_index'', JInt (wc_start c)), (''end_index'', JInt (wc_len c - 1)), (''head_hash'', JStr (wc_head c)),
      (''genesis_prev_hash'', JStr (wc_closed_head c)), (''anchor'', JObj anchor),
      (''operator'', JStr (py_strip (rq_operator q))), (''reason'', JStr (py_strip (rq_reason q)))] (rq_fields q)"

definition intent_record :: "string \<Rightarrow> writer_cache \<Rightarrow> py_dict \<Rightarrow> ledger_event \<Rightarrow> string \<Rightarrow> py_dict" where
  "intent_record p c anchor rot now =
     [(''op'', JStr ''rotate-intent''), (''format'', JStr JOURNAL_FORMAT), (''n'', JInt (wc_next c)),
      (''file'', JStr (closed_path_for p (wc_next c))), (''start_index'', JInt (wc_start c)),
      (''end_index'', JInt (wc_len c - 1)), (''genesis_prev_hash'', JStr (wc_closed_head c)),
      (''head_hash'', JStr (wc_head c)), (''anchor'', JObj anchor), (''rotation_event'', JObj (event_dump rot)),
      (''at'', JStr now)]"

definition plan_rotation :: "(string \<Rightarrow> string) \<Rightarrow> crypto \<Rightarrow> signing_config \<Rightarrow> (string \<Rightarrow> py_dict \<Rightarrow> string) \<Rightarrow> string
    \<Rightarrow> directory \<Rightarrow> writer_cache \<Rightarrow> string \<Rightarrow> rotate_request \<Rightarrow> store_error + rotation_plan" where
  "plan_rotation H cr cfg anchor_sig p d c pem q =
     (if wc_len c - wc_start c \<le> 0 then Inl NothingToRotate
      else if d (closed_path_for p (wc_next c)) \<noteq> None then Inl TargetExists
      else
        let record = anchor_record (rq_now q) (wc_len c) (wc_head c) (wc_next c);
            anchor = record @ [(''signature'', JStr (anchor_sig pem record))];
            event = \<lparr>aq_type = ROTATION_EVENT_TYPE, aq_payload = Some (rotation_payload p c anchor q), aq_agent = None, aq_claim = None\<rparr>
        in case build_event H cr cfg (rq_world q) event NoStamp (wc_head c) of
          Inl r \<Rightarrow> Inl (Refused r)
        | Inr None \<Rightarrow> Inl EventInvalid
        | Inr (Some rot) \<Rightarrow>
            let intent = intent_record p c anchor rot (rq_now q) in
            Inr \<lparr>rp_entry = intent_entry intent, rp_event = rot, rp_intent = intent\<rparr>)"

text \<open>
  \<open>rotate\<close>. \<open>renames\<close> says whether the system renames the open segment; where it does not, after the retries,
  the intent is aborted. The last recovery raises where the open segment does not parse.
\<close>

definition rotation_writes :: "string \<Rightarrow> rotation_plan \<Rightarrow> disk_write list" where
  "rotation_writes now rp =
     [AppendJournal (rp_intent rp), WriteTmp (rp_event rp), RenameOpen (en_file (rp_entry rp)), InstallTmp,
      AppendJournal (commit_record (en_n (rp_entry rp)) (ev_hash (rp_event rp)) now)]"

definition RENAME_REFUSED :: string where "RENAME_REFUSED = ''rename refused''"

definition refused_writes :: "string \<Rightarrow> rotation_plan \<Rightarrow> disk_write list" where
  "refused_writes now rp =
     [AppendJournal (rp_intent rp), WriteTmp (rp_event rp),
      AppendJournal (abort_record (en_n (rp_entry rp)) now RENAME_REFUSED), RemoveTmp]"

definition rotate_writes :: "(string \<Rightarrow> string) \<Rightarrow> validator \<Rightarrow> crypto \<Rightarrow> signing_config
    \<Rightarrow> (string \<Rightarrow> py_dict \<Rightarrow> string) \<Rightarrow> string \<Rightarrow> directory \<Rightarrow> writer_cache \<Rightarrow> bool \<Rightarrow> rotate_request
    \<Rightarrow> disk_write list \<times> (store_error + rotation_plan)" where
  "rotate_writes H validate cr cfg anchor_sig p d c renames q =
     (case rq_key q of None \<Rightarrow> ([], Inl NoAnchorKey)
      | Some pem \<Rightarrow>
        if pem = [] then ([], Inl NoAnchorKey)
        else if py_strip (rq_operator q) = [] \<or> py_strip (rq_reason q) = [] then ([], Inl BlankField)
        else case require_appendable cfg ROTATION_EVENT_TYPE of Inl r \<Rightarrow> ([], Inl (Refused r))
        | Inr _ \<Rightarrow>
          (case ensure_fresh validate (rq_now q) p d c of
             (ws, Inl x) \<Rightarrow> (ws, Inl x)
           | (ws, Inr c') \<Rightarrow>
             (case plan_rotation H cr cfg anchor_sig p (apply_writes p ws d) c' pem q of
                Inl x \<Rightarrow> (ws, Inl x)
              | Inr rp \<Rightarrow>
                  if \<not> renames then (ws @ refused_writes (rq_now q) rp, Inl LedgerBusy)
                  else (ws @ rotation_writes (rq_now q) rp, Inr rp))))"

end
