(* ===== verification/Ledger_Crashes.thy ===== *)
theory Ledger_Crashes
  imports Ledger_Store
begin

text \<open>
  What appends, rotations and repairs keep of the ledger directory, wherever a crash interrupts them: the phases
  a rotation goes through on disk, that a reader sees the whole history in each of them, and that a repair ends
  in a ledger with nothing pending.
\<close>

section \<open>The names a ledger uses\<close>

lemma last_dot_None: "last_dot i s = None \<Longrightarrow> CHR ''.'' \<notin> set s"
  by (induction s arbitrary: i) (auto split: option.splits if_splits)

lemma last_dot_Some: "last_dot i s = Some k \<Longrightarrow> \<exists>a b. s = a @ CHR ''.'' # b \<and> CHR ''.'' \<notin> set b \<and> k = i + length a"
proof (induction s arbitrary: i)
  case (Cons c s)
  show ?case
  proof (cases "last_dot (Suc i) s")
    case None
    with Cons.prems have "c = CHR ''.''" "k = i" by (simp_all split: if_splits)
    then show ?thesis using last_dot_None [OF None] by (intro exI [of _ "[]"] exI [of _ s]) simp
  next
    case (Some k')
    with Cons.IH [of "Suc i"] Cons.prems obtain a b where "s = a @ CHR ''.'' # b" "CHR ''.'' \<notin> set b" "k = Suc i + length a" by auto
    then show ?thesis by (intro exI [of _ "c # a"] exI [of _ b]) simp
  qed
qed simp

lemma stem_suffix: "stem p @ suffix p = p"
  by (simp add: stem_def suffix_def)

lemma suffix_shape: "suffix p = [] \<or> (\<exists>s. suffix p = CHR ''.'' # s \<and> CHR ''.'' \<notin> set s)"
proof (cases "last_dot 0 p")
  case None
  then show ?thesis by (simp add: suffix_def suffix_at_def)
next
  case (Some k)
  from last_dot_Some [OF this] obtain a b where "p = a @ CHR ''.'' # b" "CHR ''.'' \<notin> set b" "k = length a" by auto
  then show ?thesis using Some by (auto simp: suffix_def suffix_at_def)
qed

lemma dec_int_clean: "c \<in> {CHR ''.'', CHR ''/'', CHR ''g''} \<Longrightarrow> c \<notin> set (dec_int n)"
  using dec_int_chars [of n] by (auto simp: list_all_iff is_digit_def)

text \<open>What follows the last dot, backwards.\<close>

lemma after_last_dot: "CHR ''.'' \<notin> set s \<Longrightarrow> takeWhile (\<lambda>c. c \<noteq> CHR ''.'') (rev (a @ CHR ''.'' # s)) = rev s"
  by (simp add: takeWhile_append)

lemma names_apart:
  "journal_path_for p \<noteq> p" "rotating_tmp_for p \<noteq> p" "rotating_tmp_for p \<noteq> journal_path_for p"
  "closed_path_for p n \<noteq> p" "closed_path_for p n \<noteq> journal_path_for p" "closed_path_for p n \<noteq> rotating_tmp_for p"
proof -
  show "journal_path_for p \<noteq> p"
  proof
    assume "journal_path_for p = p"
    then have "suffix p = ''.segments.journal''"
      using stem_suffix [of p] by (metis journal_path_for_def same_append_eq)
    with suffix_shape [of p] show False by auto
  qed
  show "rotating_tmp_for p \<noteq> p"
    by (rule notI, drule arg_cong [of _ _ length]) (simp add: rotating_tmp_for_def)
  show "rotating_tmp_for p \<noteq> journal_path_for p"
    by (rule notI, drule arg_cong [of _ _ last]) (simp add: rotating_tmp_for_def journal_path_for_def)
  show "closed_path_for p n \<noteq> p"
  proof
    assume "closed_path_for p n = p"
    then have "length (closed_path_for p n) = length (stem p @ suffix p)" by (simp add: stem_suffix)
    then show False by (simp add: closed_path_for_def)
  qed
  show "closed_path_for p n \<noteq> journal_path_for p"
    by (simp add: closed_path_for_def journal_path_for_def)
  show "closed_path_for p n \<noteq> rotating_tmp_for p"
  proof
    assume eq: "closed_path_for p n = rotating_tmp_for p"
    have last: "last (dec_int n) \<noteq> CHR ''g''"
      using dec_int_clean [of "CHR ''g''" n] by (metis dec_int_not_Nil insertI1 insert_commute last_in_set)
    have tail: "stem p @ ''-'' @ dec_int n @ suffix p = (''.'' @ stem p @ suffix p) @ ''.rotating''"
      using eq by (simp add: closed_path_for_def rotating_tmp_for_def stem_suffix)
    from suffix_shape [of p] show False
    proof (elim disjE exE conjE)
      assume "suffix p = []"
      with arg_cong [OF tail, of last] last show False by simp
    next
      fix s assume s: "suffix p = CHR ''.'' # s" "CHR ''.'' \<notin> set s"
      have "rev s = takeWhile (\<lambda>c. c \<noteq> CHR ''.'') (rev ((stem p @ ''-'' @ dec_int n) @ CHR ''.'' # s))"
        by (rule after_last_dot [OF s(2), symmetric])
      also have "\<dots> = takeWhile (\<lambda>c. c \<noteq> CHR ''.'') (rev ((''.'' @ stem p @ suffix p) @ ''.rotating''))"
        using tail s by simp
      also have "\<dots> = rev ''rotating''" by simp
      finally have "suffix p = ''.rotating''" using s by simp
      with tail have "(stem p @ ''-'') @ dec_int n = ''.'' @ stem p @ ''.rotating''" by simp
      with arg_cong [OF this, of last] last show False by simp
    qed
  qed
qed

lemma closed_path_inj: "closed_path_for p n = closed_path_for p m \<Longrightarrow> n = m"
  by (simp add: closed_path_for_def dec_int_inj)

lemma closed_path_plain: "CHR ''/'' \<notin> set p \<Longrightarrow> plain_name (closed_path_for p n)"
proof -
  assume "CHR ''/'' \<notin> set p"
  then have "CHR ''/'' \<notin> set (stem p)" "CHR ''/'' \<notin> set (suffix p)"
    by (auto simp: stem_def suffix_def dest: in_set_takeD in_set_dropD)
  moreover have "CHR ''-'' \<in> set (closed_path_for p n)" by (simp add: closed_path_for_def)
  then have "closed_path_for p n \<noteq> ''.''" "closed_path_for p n \<noteq> []" by auto
  ultimately show ?thesis
    using dec_int_clean [of "CHR ''/''" n] by (simp add: plain_name_def closed_path_for_def)
qed

section \<open>Appending to the journal\<close>

definition file_of :: "text_file option \<Rightarrow> text_file" where
  "file_of raw = (case raw of None \<Rightarrow> empty_file | Some f \<Rightarrow> f)"

definition journal_clean :: "text_file option \<Rightarrow> seg_entry list \<Rightarrow> seg_entry option \<Rightarrow> bool" where
  "journal_clean raw cs pend = (journal_lines 1 (tf_lines (file_of raw)) [] None = (cs, pend, None))"

lemma journal_clean_parse:
  "journal_clean raw cs pend \<longleftrightarrow>
     js_closed (parse_journal raw) = cs \<and> js_pending (parse_journal raw) = pend \<and> js_error (parse_journal raw) = None"
  by (auto simp: journal_clean_def parse_journal_def file_of_def empty_file_def split: option.split prod.split)

lemma journal_whole: "journal_clean raw cs pend \<Longrightarrow> js_whole (parse_journal raw) \<longleftrightarrow> tf_tail (file_of raw) = None"
  by (auto simp: journal_clean_def parse_journal_def file_of_def empty_file_def split: option.split prod.split)

lemma journal_lines_append:
  "journal_lines i (ls @ ms) c p = (case journal_lines i ls c p of
     (c', p', None) \<Rightarrow> journal_lines (i + length ls) ms c' p' | r \<Rightarrow> r)"
proof (induction i ls c p rule: journal_lines.induct)
  case (3 i rec ls closed pending)
  then show ?case by (cases "journal_op rec closed pending") (auto split: prod.split option.split)
qed (auto split: prod.split option.split)

lemma journal_clean_add:
  assumes "journal_clean raw cs pend" and "tf_tail (file_of raw) = None" and "journal_op rec cs pend = Some (cs', pend')"
  shows "journal_clean (Some (add_line (Doc (JObj rec)) (file_of raw))) cs' pend'"
    "tf_tail (add_line (Doc (JObj rec)) (file_of raw)) = None"
  using assms by (simp_all add: journal_clean_def file_of_def [of "Some _"] add_line_def journal_lines_append)

lemma journal_clean_tear:
  "journal_clean raw cs pend \<Longrightarrow> journal_clean (Some (tear_onto t l (file_of raw))) cs pend"
  by (cases t) (simp_all add: journal_clean_def file_of_def [of "Some _"] tear_onto_def tear_line_def)

lemma journal_clean_cut:
  "journal_clean raw cs pend \<Longrightarrow> journal_clean (map_option drop_tail raw) cs pend"
  "tf_tail (file_of (map_option drop_tail raw)) = None"
  by (auto simp: journal_clean_def file_of_def drop_tail_def empty_file_def split: option.split)

section \<open>What a segment holds\<close>

text \<open>
  The events the walk accepts from one segment; a segment that need not exist may be missing.
\<close>

definition seg_holds :: "(string \<Rightarrow> string) \<Rightarrow> validator \<Rightarrow> directory \<Rightarrow> seg_view \<Rightarrow> ledger_event list \<Rightarrow> bool" where
  "seg_holds H validate d seg es = (case d (sv_path seg) of
     None \<Rightarrow> \<not> sv_must_exist seg \<and> es = []
   | Some f \<Rightarrow> parse_events_located validate f = (es, None) \<and> check_segment H seg es None = None)"

fun entries_hold :: "(string \<Rightarrow> string) \<Rightarrow> validator \<Rightarrow> directory \<Rightarrow> seg_entry option \<Rightarrow> string \<Rightarrow> seg_entry list
    \<Rightarrow> ledger_event list \<Rightarrow> bool" where
  "entries_hold H validate d prev g [] hist = (hist = [])"
| "entries_hold H validate d prev g (e # es) hist = (\<exists>xs ys. hist = xs @ ys
     \<and> seg_holds H validate d (closed_view prev g e) xs \<and> entries_hold H validate d (Some e) (en_head e) es ys)"

lemma entries_hold_snoc:
  "entries_hold H validate d prev g (es @ [e]) hist \<longleftrightarrow> (\<exists>xs ys. hist = xs @ ys \<and> entries_hold H validate d prev g es xs
     \<and> seg_holds H validate d (closed_view (if es = [] then prev else Some (last es)) (end_head g es) e) ys)"
proof (induction es arbitrary: prev g hist)
  case (Cons a es)
  show ?case
    by (simp add: Cons.IH) (metis append.assoc)
qed auto

lemma seg_holds_cong: "d (sv_path seg) = d' (sv_path seg) \<Longrightarrow> seg_holds H validate d seg = seg_holds H validate d' seg"
  by (rule ext) (simp add: seg_holds_def)

lemma entries_hold_cong:
  "(\<And>e. e \<in> set es \<Longrightarrow> d (en_file e) = d' (en_file e)) \<Longrightarrow> entries_hold H validate d prev g es = entries_hold H validate d' prev g es"
proof (induction es arbitrary: prev g)
  case (Cons e es)
  have "seg_holds H validate d (closed_view prev g e) = seg_holds H validate d' (closed_view prev g e)"
    by (rule seg_holds_cong) (simp add: closed_view_def Cons.prems)
  moreover have "entries_hold H validate d (Some e) (en_head e) es = entries_hold H validate d' (Some e) (en_head e) es"
    by (rule Cons.IH) (simp add: Cons.prems)
  ultimately show ?case by (intro ext) simp
qed (simp add: fun_eq_iff)

lemma entries_hold_exist: "entries_hold H validate d prev g es hist \<Longrightarrow> e \<in> set es \<Longrightarrow> d (en_file e) \<noteq> None"
  by (induction es arbitrary: prev g hist) (auto simp: seg_holds_def closed_view_def split: option.splits)

text \<open>A walk without a break, and the strict read of the same segments.\<close>

definition reads_as :: "(string \<Rightarrow> string) \<Rightarrow> validator \<Rightarrow> directory \<Rightarrow> seg_view list \<Rightarrow> ledger_event list \<Rightarrow> bool" where
  "reads_as H validate d segs hist = (snd (walk_segments H 0 (map (read_segment validate d) segs)) = None
     \<and> all_events validate d segs = Some hist)"

lemma walk_counter: "snd (walk_segments H k rs) = snd (walk_segments H j rs)"
proof (induction rs arbitrary: k j)
  case (Cons r rs)
  obtain seg es bad where r: "r = (seg, es, bad)" by (cases r)
  show ?case
  proof (cases es)
    case None
    then show ?thesis using Cons [of k j] by (simp add: r)
  next
    case (Some xs)
    then show ?thesis using Cons [of "k + length xs" "j + length xs"] by (simp add: r split: option.split prod.split)
  qed
qed simp

lemma reads_as_Nil [simp]: "reads_as H validate d [] hist \<longleftrightarrow> hist = []"
  by (auto simp: reads_as_def)

lemma reads_as_Cons:
  "reads_as H validate d (seg # segs) hist \<longleftrightarrow> (\<exists>xs ys. hist = xs @ ys \<and> seg_holds H validate d seg xs \<and> reads_as H validate d segs ys)"
proof (cases "d (sv_path seg)")
  case None
  then show ?thesis
    by (auto simp: reads_as_def seg_holds_def read_segment_def)
next
  case (Some f)
  obtain xs bad where loc: "parse_events_located validate f = (xs, bad)" by fastforce
  have walk: "snd (walk_segments H 0 (map (read_segment validate d) (seg # segs))) = None
      \<longleftrightarrow> check_segment H seg xs bad = None \<and> snd (walk_segments H 0 (map (read_segment validate d) segs)) = None"
    using walk_counter [of H "length xs" _ 0] by (auto simp: read_segment_def Some loc split: option.split)
  show ?thesis
  proof (cases "bad = None \<and> check_segment H seg xs None = None")
    case True
    then have "parse_events validate f = Some xs" using loc by (simp add: located_strict)
    with True walk loc show ?thesis
      by (auto simp: reads_as_def seg_holds_def Some)
  next
    case False
    with check_segment_None(2) [of H seg xs bad] walk loc show ?thesis
      by (auto simp: reads_as_def seg_holds_def Some)
  qed
qed

lemma reads_as_entries:
  "reads_as H validate d (entry_views prev g es @ segs) hist \<longleftrightarrow> (\<exists>xs ys. hist = xs @ ys
     \<and> entries_hold H validate d prev g es xs \<and> reads_as H validate d segs ys)"
proof (induction es arbitrary: prev g hist)
  case (Cons e es)
  show ?case by (simp add: reads_as_Cons Cons.IH) (metis append.assoc)
qed auto

section \<open>The layout by phase\<close>

definition open_view :: "string \<Rightarrow> seg_entry list \<Rightarrow> bool \<Rightarrow> seg_view" where
  "open_view p before must = \<lparr>sv_number = next_n before, sv_closed = False, sv_path = p, sv_start = next_start before,
     sv_genesis = next_genesis before, sv_count = None, sv_head = None, sv_first = map_option rot_hash (last_entry before),
     sv_must_exist = must, sv_pred = last_entry before\<rparr>"

lemma open_view_simps [simp]:
  "sv_path (open_view p cs m) = p" "sv_closed (open_view p cs m) = False" "sv_must_exist (open_view p cs m) = m"
  "sv_start (open_view p cs m) = next_start cs" "sv_genesis (open_view p cs m) = next_genesis cs"
  "sv_first (open_view p cs m) = map_option rot_hash (last_entry cs)" "sv_pred (open_view p cs m) = last_entry cs"
  "sv_number (open_view p cs m) = next_n cs"
  by (simp_all add: open_view_def)

definition renamed_entries :: "directory \<Rightarrow> seg_entry option \<Rightarrow> seg_entry list" where
  "renamed_entries d pend = (case pend of None \<Rightarrow> [] | Some e \<Rightarrow> if d (en_file e) = None then [] else [e])"

definition open_must :: "seg_entry list \<Rightarrow> directory \<Rightarrow> seg_entry option \<Rightarrow> bool" where
  "open_must cs d pend = (case pend of None \<Rightarrow> cs \<noteq> [] | Some _ \<Rightarrow> renamed_entries d pend = [])"

lemma last_view_number: "es \<noteq> [] \<Longrightarrow> sv_number (last (entry_views prev g es)) = en_n (last es)"
  by (cases es rule: rev_cases) (simp_all add: entry_views_snoc closed_view_def)

lemma entry_views_Nil [simp]: "entry_views prev g es = [] \<longleftrightarrow> es = []"
  by (cases es) simp_all

lemma last_entry_append: "last_entry (xs @ ys) = (if ys = [] then last_entry xs else Some (last ys))"
  by (simp add: last_entry_def)

lemma layout_segs:
  assumes "journal_clean (d (journal_path_for p)) (arch @ live) pend"
    and "list_all archived arch" and "list_all (\<lambda>e. \<not> archived e) live" and ren: "ren = renamed_entries d pend"
  shows "ly_segs (layout_of p d) = entry_views (last_entry arch) (end_head GENESIS_HASH arch) (live @ ren)
      @ [open_view p (arch @ live @ ren) (open_must (arch @ live) d pend)]"
    "ly_error (layout_of p d) = None" "ly_archived (layout_of p d) = arch"
proof -
  let ?js = "parse_journal (d (journal_path_for p))"
  have js: "js_closed ?js = arch @ live" "js_pending ?js = pend" "js_error ?js = None"
    using assms(1) by (simp_all add: journal_clean_parse)
  note views = closed_views_split [OF assms(2,3), of None GENESIS_HASH, folded last_entry_def]
  have "ly_segs (layout_of p d) = entry_views (last_entry arch) (end_head GENESIS_HASH arch) (live @ ren)
      @ [open_view p (arch @ live @ ren) (open_must (arch @ live) d pend)]
    \<and> ly_error (layout_of p d) = None \<and> ly_archived (layout_of p d) = arch"
  proof (cases "js_present ?js")
    case False
    then have "arch = []" "live = []" "pend = None"
      using js by (auto simp: journal_absent parse_journal_def split: option.splits prod.splits)
    with False ren show ?thesis
      by (simp add: layout_of_def resolve_layout_def single_view_def open_view_def renamed_entries_def last_entry_def
          next_n_def next_start_def next_genesis_def open_must_def js parse_journal_def split: option.splits prod.splits)
  next
    case True
    show ?thesis
    proof (cases "ren = []")
      case none: True
      then have "\<not> (case pend of None \<Rightarrow> False | Some e \<Rightarrow> exists_in d (en_file e))"
        using ren by (auto simp: renamed_entries_def exists_in_def split: option.splits if_splits)
      then show ?thesis using True none ren views
        by (auto simp: layout_of_def resolve_layout_def Let_def js open_view_def last_view_number next_n_def
            open_must_def last_entry_def split: option.split)
    next
      case False
      then obtain e where e: "pend = Some e" "ren = [e]" "d (en_file e) \<noteq> None"
        using ren by (auto simp: renamed_entries_def split: option.splits if_splits)
      then show ?thesis using True views
        by (auto simp: layout_of_def resolve_layout_def Let_def js open_view_def next_eqs entry_views_snoc exists_in_def
            closed_view_def next_n_def open_must_def renamed_entries_def last_entry_append last_entry_def)
    qed
  qed
  then show "ly_segs (layout_of p d) = entry_views (last_entry arch) (end_head GENESIS_HASH arch) (live @ ren)
      @ [open_view p (arch @ live @ ren) (open_must (arch @ live) d pend)]"
    "ly_error (layout_of p d) = None" "ly_archived (layout_of p d) = arch" by blast+
qed

text \<open>What a reader sees: no break on the walk, and these events.\<close>

definition readable :: "(string \<Rightarrow> string) \<Rightarrow> validator \<Rightarrow> string \<Rightarrow> directory \<Rightarrow> ledger_event list \<Rightarrow> bool" where
  "readable H validate p d hist = (ly_error (layout_of p d) = None \<and> reads_as H validate d (ly_segs (layout_of p d)) hist)"

definition base :: "string \<Rightarrow> directory \<Rightarrow> seg_entry list \<Rightarrow> seg_entry list \<Rightarrow> seg_entry option \<Rightarrow> bool" where
  "base p d arch live pend = (journal_clean (d (journal_path_for p)) (arch @ live) pend
     \<and> list_all archived arch \<and> list_all (\<lambda>e. \<not> archived e) live \<and> (\<forall>e \<in> set_option pend. \<not> archived e)
     \<and> (\<forall>e \<in> set live \<union> set_option pend. en_file e = closed_path_for p (en_n e)))"

lemma base_layout:
  assumes "base p d arch live pend" and "ren = renamed_entries d pend"
  shows "ly_segs (layout_of p d) = entry_views (last_entry arch) (end_head GENESIS_HASH arch) (live @ ren)
      @ [open_view p (arch @ live @ ren) (open_must (arch @ live) d pend)]"
    "ly_error (layout_of p d) = None" "ly_archived (layout_of p d) = arch"
  using assms layout_segs [of d p arch live pend ren] by (simp_all add: base_def)

lemma base_readable:
  assumes "base p d arch live pend" and "ren = renamed_entries d pend"
    and "entries_hold H validate d (last_entry arch) (end_head GENESIS_HASH arch) (live @ ren) xs"
    and "seg_holds H validate d (open_view p (arch @ live @ ren) (open_must (arch @ live) d pend)) ys"
  shows "readable H validate p d (xs @ ys)"
  using base_layout [OF assms(1,2)] assms(3,4)
  by (auto simp: readable_def reads_as_entries reads_as_Cons)

lemma base_sound: "base p d arch live pend \<Longrightarrow> sound_journal (arch @ live) pend"
  using parse_journal_sound [of "d (journal_path_for p)"] by (auto simp: base_def journal_clean_parse)

section \<open>The phases of a rotation on disk\<close>

definition one_line :: "ledger_event \<Rightarrow> text_file" where
  "one_line e = \<lparr>tf_lines = [event_line e], tf_tail = None\<rparr>"

definition ended :: "text_file option \<Rightarrow> bool" where
  "ended raw = (tf_tail (file_of raw) = None)"

definition rot_ready :: "(string \<Rightarrow> string) \<Rightarrow> seg_entry \<Rightarrow> ledger_event \<Rightarrow> bool" where
  "rot_ready H e rot = (en_rotation e = event_dump rot \<and> prev_hash rot = en_head e \<and> compute_event_hash H rot = ev_hash rot
     \<and> journal_vs_rotation_event (Some e) rot = None \<and> storable rot)"

abbreviation live_hold :: "(string \<Rightarrow> string) \<Rightarrow> validator \<Rightarrow> directory \<Rightarrow> seg_entry list \<Rightarrow> seg_entry list
    \<Rightarrow> ledger_event list \<Rightarrow> bool" where
  "live_hold H validate d arch es xs \<equiv> entries_hold H validate d (last_entry arch) (end_head GENESIS_HASH arch) es xs"

definition idle :: "(string \<Rightarrow> string) \<Rightarrow> validator \<Rightarrow> string \<Rightarrow> directory \<Rightarrow> ledger_event list \<Rightarrow> bool" where
  "idle H validate p d hist = (\<exists>arch live xs ys. base p d arch live None \<and> hist = xs @ ys \<and> live_hold H validate d arch live xs
     \<and> seg_holds H validate d (open_view p (arch @ live) (arch @ live \<noteq> [])) ys \<and> ended (d p))"

definition planned :: "(string \<Rightarrow> string) \<Rightarrow> validator \<Rightarrow> string \<Rightarrow> seg_entry \<Rightarrow> directory \<Rightarrow> ledger_event list \<Rightarrow> bool" where
  "planned H validate p e d hist = (\<exists>arch live xs ys. base p d arch live (Some e) \<and> d (en_file e) = None \<and> hist = xs @ ys
     \<and> live_hold H validate d arch live xs \<and> seg_holds H validate d (open_view p (arch @ live) True) ys \<and> ended (d p))"

definition renamed :: "(string \<Rightarrow> string) \<Rightarrow> validator \<Rightarrow> string \<Rightarrow> seg_entry \<Rightarrow> ledger_event \<Rightarrow> directory
    \<Rightarrow> ledger_event list \<Rightarrow> bool" where
  "renamed H validate p e rot d hist = (\<exists>arch live. base p d arch live (Some e) \<and> d p = None
     \<and> live_hold H validate d arch (live @ [e]) hist \<and> rot_ready H e rot)"

definition installed :: "(string \<Rightarrow> string) \<Rightarrow> validator \<Rightarrow> string \<Rightarrow> seg_entry \<Rightarrow> ledger_event \<Rightarrow> directory
    \<Rightarrow> ledger_event list \<Rightarrow> bool" where
  "installed H validate p e rot d hist = (\<exists>arch live xs. base p d arch live (Some e) \<and> d p = Some (one_line rot)
     \<and> live_hold H validate d arch (live @ [e]) xs \<and> rot_ready H e rot \<and> hist = xs @ [rot])"

definition codec :: "(string \<Rightarrow> string) \<Rightarrow> validator \<Rightarrow> bool" where
  "codec H validate = ((\<forall>b. H b \<noteq> []) \<and> (\<forall>e. validate (JObj (event_dump e)) = Some e))"

lemma located_lines: "tf_tail f = None \<Longrightarrow> parse_events_located validate f = locate_lines validate 0 (tf_lines f)"
  by (simp add: parse_events_located_def all_lines_def)

lemma located_one: "codec H validate \<Longrightarrow> storable e \<Longrightarrow> parse_events_located validate (one_line e) = ([e], None)"
  by (simp add: located_lines one_line_def event_line_storable codec_def)

lemma locate_shift: "locate_lines validate (i + k) ls = (case locate_lines validate i ls of (es, b) \<Rightarrow> (es, map_option ((+) k) b))"
  by (induction validate i ls rule: locate_lines.induct) (auto split: option.split prod.splits)

lemma locate_append:
  "locate_lines validate i ls = (es, None) \<Longrightarrow> locate_lines validate i (ls @ ms)
     = (case locate_lines validate (i + length es) ms of (fs, b) \<Rightarrow> (es @ fs, b))"
proof (induction validate i ls arbitrary: es rule: locate_lines.induct)
  case (4 validate i j ls)
  then show ?case by (auto split: option.splits prod.splits)
qed (auto split: prod.split)

lemma located_add:
  assumes "codec H validate" and "ended raw" and "parse_events_located validate (file_of raw) = (es, None)" and "storable e"
  shows "parse_events_located validate (add_line (event_line e) (file_of raw)) = (es @ [e], None)"
  using assms by (simp add: ended_def located_lines add_line_def event_line_storable codec_def locate_append)

lemma rot_ready_hash: "rot_ready H e rot \<Longrightarrow> rot_hash e = ev_hash rot"
  by (simp add: rot_ready_def rot_hash_def str_at_def event_dump_def)

lemma check_open:
  "check_segment H (open_view p cs m) es None = None \<longleftrightarrow> cv_ok (verify_chain H es (next_genesis cs))
     \<and> check_opening (open_view p cs m) es = None"
  by (auto simp: check_segment_def check_closed_def verify_segment_def Let_def split: option.split)


lemma check_opening_cong:
  "sv_first seg = sv_first seg' \<Longrightarrow> sv_pred seg = sv_pred seg' \<Longrightarrow> sv_start seg = sv_start seg'
     \<Longrightarrow> check_opening seg = check_opening seg'"
  by (rule ext) (auto simp: check_opening_def split: option.split list.split)

lemma open_must_irrelevant:
  assumes "seg_holds H validate d (open_view p cs m) ys" and "d p \<noteq> None \<or> \<not> m'" and "d' p = d p"
  shows "seg_holds H validate d' (open_view p cs m') ys"
  using assms check_opening_cong [of "open_view p cs m" "open_view p cs m'"]
  by (auto simp: seg_holds_def check_open split: option.splits)

lemma check_opening_snoc: "check_opening seg es = None \<Longrightarrow> es \<noteq> [] \<or> sv_first seg = None \<Longrightarrow> check_opening seg (es @ [e]) = None"
  by (cases es) (auto simp: check_opening_def split: option.splits)

lemma check_opening_must: "check_opening seg es = None \<Longrightarrow> sv_first seg \<noteq> None \<Longrightarrow> es \<noteq> []"
  by (auto simp: check_opening_def split: list.split)

lemma open_rot:
  assumes "codec H validate" and "rot_ready H e rot" and "d p = Some (one_line rot)"
  shows "seg_holds H validate d (open_view p (cs @ [e]) m) [rot]"
proof -
  have "cv_ok (verify_chain H [rot] (en_head e))"
    using assms(2) by (simp add: verify_chain_def rot_ready_def)
  moreover have "check_opening (open_view p (cs @ [e]) m) [rot] = None"
    using assms(2) rot_ready_hash [OF assms(2)] by (simp add: check_opening_def open_view_def last_entry_def rot_ready_def)
  moreover have "next_genesis (cs @ [e]) = en_head e" by (simp add: next_genesis_def)
  ultimately show ?thesis
    using assms(2,3) located_one [OF assms(1), of rot] by (simp add: seg_holds_def check_open rot_ready_def)
qed

section \<open>Writes that no phase depends on\<close>

text \<open>Everything but the journal's tail and the tmp file is as it was.\<close>

definition quiet :: "string \<Rightarrow> directory \<Rightarrow> directory \<Rightarrow> bool" where
  "quiet p d d' = ((\<forall>n. n \<noteq> journal_path_for p \<longrightarrow> n \<noteq> rotating_tmp_for p \<longrightarrow> d' n = d n)
     \<and> (\<forall>cs pend. journal_clean (d (journal_path_for p)) cs pend \<longrightarrow> journal_clean (d' (journal_path_for p)) cs pend))"

lemma quiet_refl: "quiet p d d" by (simp add: quiet_def)

lemma quiet_trans: "quiet p d d' \<Longrightarrow> quiet p d' d'' \<Longrightarrow> quiet p d d''"
  by (simp add: quiet_def)

lemma quiet_writes:
  "quiet p d (apply_write p RemoveTmp d)" "quiet p d (apply_write p (WriteTmp e) d)"
  "quiet p d (apply_write p TruncateJournal d)" "quiet p d (torn_write p t (AppendJournal rec) d)"
  "quiet p d (torn_write p t (WriteTmp e) d)"
  using names_apart [of p]
  by (simp_all add: quiet_def journal_clean_cut tear_append_def journal_clean_tear [unfolded file_of_def])

lemma quiet_at: "quiet p d d' \<Longrightarrow> d' p = d p" "quiet p d d' \<Longrightarrow> d' (closed_path_for p n) = d (closed_path_for p n)"
  using names_apart(1-3) [of p] names_apart(4-6) [of p n] by (metis quiet_def)+

lemma quiet_base: "quiet p d d' \<Longrightarrow> base p d arch live pend \<Longrightarrow> base p d' arch live pend"
  by (simp add: quiet_def base_def)

lemma quiet_hold:
  assumes "quiet p d d'" and "base p d arch live pend" and "set es \<subseteq> set live \<union> set_option pend"
  shows "entries_hold H validate d' prev g es = entries_hold H validate d prev g es"
proof (rule entries_hold_cong)
  fix e assume "e \<in> set es"
  then have "en_file e = closed_path_for p (en_n e)" using assms(2,3) by (auto simp: base_def)
  then show "d' (en_file e) = d (en_file e)" using quiet_at(2) [OF assms(1)] by simp
qed

lemma quiet_open: "quiet p d d' \<Longrightarrow> seg_holds H validate d' (open_view p cs m) = seg_holds H validate d (open_view p cs m)"
  by (rule seg_holds_cong) (simp add: quiet_at)

definition recoverable :: "(string \<Rightarrow> string) \<Rightarrow> validator \<Rightarrow> string \<Rightarrow> directory \<Rightarrow> ledger_event list \<Rightarrow> bool" where
  "recoverable H validate p d hist = (idle H validate p d hist \<or> (\<exists>e. planned H validate p e d hist)
     \<or> (\<exists>e rot. renamed H validate p e rot d hist \<or> installed H validate p e rot d hist))"

lemma quiet_idle: "quiet p d d' \<Longrightarrow> idle H validate p d hist \<Longrightarrow> idle H validate p d' hist"
  unfolding idle_def by (metis quiet_base quiet_hold [of p d d' _ _ None] quiet_open quiet_at(1) Un_upper1)

lemma quiet_planned: "quiet p d d' \<Longrightarrow> planned H validate p e d hist \<Longrightarrow> planned H validate p e d' hist"
proof -
  assume q: "quiet p d d'" and "planned H validate p e d hist"
  then obtain arch live xs ys where b: "base p d arch live (Some e)" and rest: "d (en_file e) = None" "hist = xs @ ys"
    "live_hold H validate d arch live xs" "seg_holds H validate d (open_view p (arch @ live) True) ys" "ended (d p)"
    by (auto simp: planned_def)
  have "d' (en_file e) = d (en_file e)" using b quiet_at(2) [OF q] by (simp add: base_def)
  with rest show ?thesis unfolding planned_def
    using quiet_base [OF q b] quiet_hold [OF q b Un_upper1] quiet_open [OF q] quiet_at(1) [OF q]
    by - (rule exI [of _ arch], rule exI [of _ live], rule exI [of _ xs], rule exI [of _ ys], simp)
qed

lemma quiet_renamed: "quiet p d d' \<Longrightarrow> renamed H validate p e rot d hist \<Longrightarrow> renamed H validate p e rot d' hist"
proof -
  assume q: "quiet p d d'" and "renamed H validate p e rot d hist"
  then obtain arch live where b: "base p d arch live (Some e)" and rest: "d p = None"
    "live_hold H validate d arch (live @ [e]) hist" "rot_ready H e rot"
    by (auto simp: renamed_def)
  with quiet_hold [OF q b, of "live @ [e]"] show ?thesis unfolding renamed_def
    using quiet_base [OF q b] quiet_at(1) [OF q] by - (rule exI [of _ arch], rule exI [of _ live], simp)
qed

lemma quiet_installed: "quiet p d d' \<Longrightarrow> installed H validate p e rot d hist \<Longrightarrow> installed H validate p e rot d' hist"
proof -
  assume q: "quiet p d d'" and "installed H validate p e rot d hist"
  then obtain arch live xs where b: "base p d arch live (Some e)" and rest: "d p = Some (one_line rot)"
    "live_hold H validate d arch (live @ [e]) xs" "rot_ready H e rot" "hist = xs @ [rot]"
    by (auto simp: installed_def)
  with quiet_hold [OF q b, of "live @ [e]"] show ?thesis unfolding installed_def
    using quiet_base [OF q b] quiet_at(1) [OF q] by - (rule exI [of _ arch], rule exI [of _ live], rule exI [of _ xs], simp)
qed

lemma quiet_recoverable: "quiet p d d' \<Longrightarrow> recoverable H validate p d hist \<Longrightarrow> recoverable H validate p d' hist"
  unfolding recoverable_def by (meson quiet_idle quiet_planned quiet_renamed quiet_installed)

section \<open>What a reader sees in each phase\<close>

lemma renamed_exists:
  assumes "live_hold H validate d arch (live @ [e]) xs"
  shows "renamed_entries d (Some e) = [e]"
  using entries_hold_exist [OF assms, of e] by (simp add: renamed_entries_def)

theorem recoverable_readable:
  assumes "codec H validate" and "recoverable H validate p d hist"
  shows "readable H validate p d hist"
  using assms(2) unfolding recoverable_def
proof (elim disjE exE)
  assume "idle H validate p d hist"
  then obtain arch live xs ys where b: "base p d arch live None" "hist = xs @ ys" "live_hold H validate d arch live xs"
    "seg_holds H validate d (open_view p (arch @ live) (arch @ live \<noteq> [])) ys" by (auto simp: idle_def)
  then show ?thesis using base_readable [OF b(1) refl, of H validate xs ys] by (simp add: renamed_entries_def open_must_def)
next
  fix e assume "planned H validate p e d hist"
  then obtain arch live xs ys where b: "base p d arch live (Some e)" "d (en_file e) = None" "hist = xs @ ys"
    "live_hold H validate d arch live xs" "seg_holds H validate d (open_view p (arch @ live) True) ys" by (auto simp: planned_def)
  then show ?thesis using base_readable [OF b(1) refl, of H validate xs ys] by (simp add: renamed_entries_def open_must_def)
next
  fix e rot assume "renamed H validate p e rot d hist"
  then obtain arch live where b: "base p d arch live (Some e)" "d p = None" "live_hold H validate d arch (live @ [e]) hist"
    by (auto simp: renamed_def)
  then show ?thesis using base_readable [OF b(1) renamed_exists [OF b(3), symmetric], of H validate hist "[]"] renamed_exists [OF b(3)]
    by (simp add: open_must_def seg_holds_def)
next
  fix e rot assume "installed H validate p e rot d hist"
  then obtain arch live xs where b: "base p d arch live (Some e)" "d p = Some (one_line rot)"
    "live_hold H validate d arch (live @ [e]) xs" "rot_ready H e rot" "hist = xs @ [rot]" by (auto simp: installed_def)
  have "seg_holds H validate d (open_view p (arch @ live @ [e]) (open_must (arch @ live) d (Some e))) [rot]"
    using open_rot [OF assms(1) b(4), where p = p and d = d and cs = "arch @ live"] b(2) by simp
  then show ?thesis
    using base_readable [OF b(1) renamed_exists [OF b(3), symmetric], of H validate xs "[rot]"] b(3,5) by simp
qed

section \<open>From phase to phase\<close>

lemma abort_op: "en_n e = n \<Longrightarrow> journal_op (abort_record n now why) cs (Some e) = Some (cs, None)"
  by (simp add: journal_op_def abort_record_def check_record_def OP_SCHEMA_def str_at_def int_at_def)

definition commit_entry :: "string \<Rightarrow> seg_entry \<Rightarrow> seg_entry" where
  "commit_entry now e = e\<lparr>en_closed_at := Some (JStr now)\<rparr>"

lemma commit_op:
  assumes "en_n e = n" and "rot_hash e = h"
  shows "journal_op (commit_record n h now) cs (Some e) = Some (cs @ [commit_entry now e], None)"
    "journal_op (commit_record n h now @ [(''recovered'', JBool True)]) cs (Some e) = Some (cs @ [commit_entry now e], None)"
  using assms
  by (simp_all add: journal_op_def commit_record_def check_record_def OP_SCHEMA_def str_at_def int_at_def commit_entry_def)

lemma commit_entry_same [simp]:
  "en_file (commit_entry now e) = en_file e" "en_n (commit_entry now e) = en_n e" "en_head (commit_entry now e) = en_head e"
  "en_end (commit_entry now e) = en_end e" "rot_hash (commit_entry now e) = rot_hash e" "archived (commit_entry now e) = archived e"
  "closed_view prev g (commit_entry now e) = closed_view prev g e"
  by (simp_all add: commit_entry_def rot_hash_def archived_def closed_view_def)

lemma commit_entry_ready [simp]: "rot_ready H (commit_entry now e) rot = rot_ready H e rot"
  by (simp add: rot_ready_def journal_vs_rotation_event_def commit_entry_def entry_fields_def)

lemma append_line_at:
  "append_line n l d n = Some (add_line l (file_of (d n)))" "m \<noteq> n \<Longrightarrow> append_line n l d m = d m"
  by (simp_all add: append_line_def file_of_def)

lemma journal_step:
  assumes "base p d arch live pend" and "ended (d (journal_path_for p))" and "journal_op rec (arch @ live) pend = Some (cs, pend')"
    and "d' = apply_write p (AppendJournal rec) d"
  shows "journal_clean (d' (journal_path_for p)) cs pend'" "ended (d' (journal_path_for p))"
    "\<And>n. n \<noteq> journal_path_for p \<Longrightarrow> d' n = d n"
  using assms journal_clean_add [of "d (journal_path_for p)" "arch @ live" pend rec cs pend']
  by (simp_all add: base_def ended_def append_line_at file_of_def [of "Some _"])

lemma journal_hold:
  assumes "\<And>n. n \<noteq> journal_path_for p \<Longrightarrow> d' n = d n" and "\<forall>e \<in> set es. en_file e = closed_path_for p (en_n e)"
  shows "entries_hold H validate d' prev g es = entries_hold H validate d prev g es"
  by (rule entries_hold_cong) (simp add: assms names_apart)

lemma base_named:
  "base p d arch live pend \<Longrightarrow> \<forall>e \<in> set live. en_file e = closed_path_for p (en_n e)"
  "base p d arch live (Some e) \<Longrightarrow> \<forall>x \<in> set (live @ [e]). en_file x = closed_path_for p (en_n x)"
  by (simp_all add: base_def)

text \<open>An aborted plan.\<close>

lemma planned_aborts:
  assumes "planned H validate p e d hist" and "ended (d (journal_path_for p))"
  shows "idle H validate p (apply_write p (AppendJournal (abort_record (en_n e) now why)) d) hist"
    "ended (apply_write p (AppendJournal (abort_record (en_n e) now why)) d (journal_path_for p))"
proof -
  let ?d = "apply_write p (AppendJournal (abort_record (en_n e) now why)) d"
  from assms(1) obtain arch live xs ys where b: "base p d arch live (Some e)" and rest: "hist = xs @ ys"
    "live_hold H validate d arch live xs" "seg_holds H validate d (open_view p (arch @ live) True) ys" "ended (d p)"
    by (auto simp: planned_def)
  note step = journal_step [OF b assms(2) abort_op [OF refl, where now = now and why = why] refl]
  show "ended (?d (journal_path_for p))" by (rule step(2))
  have "base p ?d arch live None" using b step(1) by (simp add: base_def)
  moreover have "live_hold H validate ?d arch live xs"
    by (rule iffD2 [OF fun_cong [OF journal_hold [where d' = ?d and d = d and p = p, OF step(3) base_named(1) [OF b]]] rest(2)])
  moreover have "seg_holds H validate ?d (open_view p (arch @ live) (arch @ live \<noteq> [])) ys"
  proof (rule open_must_irrelevant [OF rest(3)])
    show "d p \<noteq> None \<or> \<not> (arch @ live \<noteq> [])" using rest(3) by (auto simp: seg_holds_def split: option.splits)
    show "?d p = d p" by (rule step(3)) (metis names_apart(1))
  qed
  moreover have "ended (?d p)" using rest(4) step(3) [of p] names_apart(1) [of p] by metis
  ultimately show "idle H validate p ?d hist" unfolding idle_def using rest(1) by blast
qed

text \<open>A committed rotation.\<close>

lemma installed_commits:
  assumes codec: "codec H validate" and "installed H validate p e rot d hist" and "ended (d (journal_path_for p))"
    and rec: "rec \<in> {commit_record (en_n e) (ev_hash rot) now, commit_record (en_n e) (ev_hash rot) now @ [(''recovered'', JBool True)]}"
  shows "idle H validate p (apply_write p (AppendJournal rec) d) hist"
    "ended (apply_write p (AppendJournal rec) d (journal_path_for p))"
proof -
  let ?d = "apply_write p (AppendJournal rec) d"
  from assms(2) obtain arch live xs where b: "base p d arch live (Some e)" and opn: "d p = Some (one_line rot)"
    and rest: "live_hold H validate d arch (live @ [e]) xs" "rot_ready H e rot" "hist = xs @ [rot]" by (auto simp: installed_def)
  have "journal_op rec (arch @ live) (Some e) = Some (arch @ (live @ [commit_entry now e]), None)"
    using rec commit_op [OF refl rot_ready_hash [OF rest(2)], of now "arch @ live"] by auto
  note step = journal_step [OF b assms(3) this refl]
  show "ended (?d (journal_path_for p))" by (rule step(2))
  have "live_hold H validate ?d arch (live @ [e]) xs"
    by (rule iffD2 [OF fun_cong [OF journal_hold [where d' = ?d and d = d and p = p, OF step(3) base_named(2) [OF b]]] rest(1)])
  then have "live_hold H validate ?d arch (live @ [commit_entry now e]) xs" by (simp add: entries_hold_snoc)
  moreover have "base p ?d arch (live @ [commit_entry now e]) None" using b step(1) by (auto simp: base_def)
  moreover have "?d p = Some (one_line rot)" using step(3) [of p] names_apart(1) [of p] opn by metis
  moreover have "seg_holds H validate ?d (open_view p (arch @ live @ [commit_entry now e]) True) [rot]"
    using open_rot [OF codec, of "commit_entry now e" rot ?d p "arch @ live"] rest(2) calculation(3) by simp
  ultimately show "idle H validate p ?d hist" unfolding idle_def using rest(3)
    by - (rule exI [of _ arch], rule exI [of _ "live @ [commit_entry now e]"], rule exI [of _ xs], rule exI [of _ "[rot]"],
      simp add: ended_def file_of_def one_line_def)
qed

text \<open>What the writer's plan says of the ledger it was made on.\<close>

definition plan_fits :: "(string \<Rightarrow> string) \<Rightarrow> string \<Rightarrow> directory \<Rightarrow> ledger_event list \<Rightarrow> seg_entry list \<Rightarrow> rotation_plan \<Rightarrow> bool" where
  "plan_fits H p d ys cs rp = (let e = rp_entry rp in
     journal_op (rp_intent rp) cs None = Some (cs, Some e) \<and> en_file e = closed_path_for p (en_n e) \<and> d (en_file e) = None
     \<and> \<not> archived e \<and> ys \<noteq> [] \<and> rotation_matches e ys \<and> en_start e = next_start cs
     \<and> en_genesis e = next_genesis cs \<and> rot_ready H e (rp_event rp))"

lemma idle_plans:
  assumes b: "base p d arch live None" and "ended (d (journal_path_for p))" and hold: "live_hold H validate d arch live xs"
    and opn: "seg_holds H validate d (open_view p (arch @ live) (arch @ live \<noteq> [])) ys" and "ended (d p)"
    and fits: "plan_fits H p d ys (arch @ live) rp"
    and d': "d' = apply_write p (AppendJournal (rp_intent rp)) d"
  shows "base p d' arch live (Some (rp_entry rp))" "live_hold H validate d' arch live xs"
    "seg_holds H validate d' (open_view p (arch @ live) True) ys" "ended (d' p)" "d' (en_file (rp_entry rp)) = None"
    "ended (d' (journal_path_for p))" "d' p \<noteq> None"
proof -
  have fits': "journal_op (rp_intent rp) (arch @ live) None = Some (arch @ live, Some (rp_entry rp))"
    "en_file (rp_entry rp) = closed_path_for p (en_n (rp_entry rp))" "d (en_file (rp_entry rp)) = None"
    "\<not> archived (rp_entry rp)" "ys \<noteq> []" using fits unfolding plan_fits_def Let_def by blast+
  note step = journal_step [OF b assms(2) fits'(1) d']
  have same: "d' p = d p" by (rule step(3)) (metis names_apart(1))
  show "base p d' arch live (Some (rp_entry rp))" using b step(1) fits' by (simp add: base_def)
  show "live_hold H validate d' arch live xs"
    by (rule iffD2 [OF fun_cong [OF journal_hold [where d' = d' and d = d and p = p, OF step(3) base_named(1) [OF b]]] hold])
  have "d p \<noteq> None" using opn fits'(5) by (auto simp: seg_holds_def split: option.splits)
  then show "seg_holds H validate d' (open_view p (arch @ live) True) ys" "d' p \<noteq> None"
    using same by (auto intro: open_must_irrelevant [OF opn])
  show "ended (d' p)" using assms(5) same by simp
  show "ended (d' (journal_path_for p))" by (rule step(2))
  show "d' (en_file (rp_entry rp)) = None" using step(3) fits'(2,3) names_apart(5) by metis
qed

text \<open>The rename of a planned segment closes it as the intent says.\<close>

lemma closed_by_rename:
  assumes "seg_holds H validate d (open_view p cs True) ys" and "d p = Some f" and "d' (en_file e) = Some f"
    and "rotation_matches e ys" and "en_start e = next_start cs" and "en_genesis e = next_genesis cs"
  shows "seg_holds H validate d' (closed_view (last_entry cs) (next_genesis cs) e) ys"
proof -
  let ?v = "closed_view (last_entry cs) (next_genesis cs) e"
  have "check_opening ?v = check_opening (open_view p cs True)"
    by (rule check_opening_cong) (simp_all add: closed_view_def assms(5))
  moreover have "check_closed ?v ys = None"
    using assms(4) by (simp add: check_closed_def closed_view_def rotation_matches_def)
  moreover have "sv_genesis ?v = next_genesis cs" by (simp add: closed_view_def)
  moreover have "cv_ok (verify_chain H ys (next_genesis cs))" "check_opening (open_view p cs True) ys = None"
    using assms(1,2) by (simp_all add: seg_holds_def check_open)
  ultimately have "check_segment H ?v ys None = None" by (simp add: check_segment_def verify_segment_def Let_def)
  moreover have "sv_path ?v = en_file e" by (simp add: closed_view_def)
  ultimately show ?thesis using assms(1-3) by (simp add: seg_holds_def)
qed

lemma planned_renames:
  assumes b: "base p d arch live (Some e)" and hold: "live_hold H validate d arch live xs"
    and opn: "seg_holds H validate d (open_view p (arch @ live) True) ys" and "d p \<noteq> None" and none: "d (en_file e) = None"
    and e: "rotation_matches e ys" "en_start e = next_start (arch @ live)" "en_genesis e = next_genesis (arch @ live)" "rot_ready H e rot"
    and d': "d' = apply_write p (RenameOpen (en_file e)) d"
  shows "renamed H validate p e rot d' (xs @ ys)" "d' (journal_path_for p) = d (journal_path_for p)"
    "d' (rotating_tmp_for p) = d (rotating_tmp_for p)"
proof -
  have name: "en_file e = closed_path_for p (en_n e)" using b by (simp add: base_def)
  obtain f where f: "d p = Some f" using assms(4) by blast
  have at: "d' p = None" "d' (en_file e) = Some f" "\<And>n. n \<noteq> p \<Longrightarrow> n \<noteq> en_file e \<Longrightarrow> d' n = d n"
    using f names_apart(4) [of p "en_n e"] by (auto simp: d' move_file_def name)
  show "d' (journal_path_for p) = d (journal_path_for p)" "d' (rotating_tmp_for p) = d (rotating_tmp_for p)"
    by (rule at(3); metis names_apart name)+
  then have "base p d' arch live (Some e)" using b by (simp add: base_def)
  moreover have "entries_hold H validate d' prev g live = entries_hold H validate d prev g live" if "entries_hold H validate d prev g live xs" for prev g
  proof (rule entries_hold_cong)
    fix a assume a: "a \<in> set live"
    then have "en_file a \<noteq> p" using b names_apart(4) by (simp add: base_def)
    moreover have "en_file a \<noteq> en_file e" using entries_hold_exist [OF that a] none by auto
    ultimately show "d' (en_file a) = d (en_file a)" by (rule at(3))
  qed
  then have "live_hold H validate d' arch live xs" using hold by simp
  moreover have "seg_holds H validate d' (closed_view (last_entry (arch @ live)) (next_genesis (arch @ live)) e) ys"
    by (rule closed_by_rename [where d = d and p = p and f = f and d' = d' and e = e, OF opn f at(2) e(1-3)])
  ultimately show "renamed H validate p e rot d' (xs @ ys)"
    unfolding renamed_def using at(1) e(4)
    by - (rule exI [of _ arch], rule exI [of _ live], auto simp: entries_hold_snoc last_entry_append next_eqs, blast)
qed

text \<open>The new open segment.\<close>

lemma renamed_installs:
  assumes codec: "codec H validate" and "renamed H validate p e rot d hist" and tmp: "d (rotating_tmp_for p) = Some (one_line rot)"
    and d': "d' = apply_write p InstallTmp d"
  shows "installed H validate p e rot d' (hist @ [rot])" "d' (journal_path_for p) = d (journal_path_for p)"
proof -
  from assms(2) obtain arch live where b: "base p d arch live (Some e)" and rest: "d p = None"
    "live_hold H validate d arch (live @ [e]) hist" "rot_ready H e rot" by (auto simp: renamed_def)
  have at: "d' p = Some (one_line rot)" "\<And>n. n \<noteq> p \<Longrightarrow> n \<noteq> rotating_tmp_for p \<Longrightarrow> d' n = d n"
    using tmp names_apart(2) [of p] by (auto simp: d' move_file_def)
  show j: "d' (journal_path_for p) = d (journal_path_for p)" by (rule at(2)) (metis names_apart)+
  have "entries_hold H validate d' prev g (live @ [e]) = entries_hold H validate d prev g (live @ [e])" for prev g
    by (rule entries_hold_cong, rule at(2)) (use base_named(2) [OF b] names_apart(4,6) in metis)+
  then have "live_hold H validate d' arch (live @ [e]) hist" using rest(2) by simp
  moreover have "base p d' arch live (Some e)" using b j by (simp add: base_def)
  ultimately show "installed H validate p e rot d' (hist @ [rot])" unfolding installed_def using at(1) rest(3) by blast
qed

section \<open>Crashes during a run of writes\<close>

text \<open>A predicate that holds before each write, in each half-done form of it, and at the end.\<close>

fun all_crashes :: "(directory \<Rightarrow> bool) \<Rightarrow> string \<Rightarrow> disk_write list \<Rightarrow> directory \<Rightarrow> bool" where
  "all_crashes P p [] d = P d"
| "all_crashes P p (w # ws) d = (P d \<and> (\<forall>t. P (torn_write p t w d)) \<and> all_crashes P p ws (apply_write p w d))"

lemma all_crashes_at: "all_crashes P p ws d \<Longrightarrow> P (crash_at p ws k t d)"
proof (induction ws arbitrary: d k)
  case (Cons w ws)
  then show ?case
  proof (cases k)
    case (Suc j)
    then have "crash_at p (w # ws) k t d = crash_at p ws j t (apply_write p w d)"
      by (cases t) (simp_all add: crash_at_def apply_writes_def Let_def)
    with Cons Suc show ?thesis by simp
  qed (auto simp: crash_at_def apply_writes_def split: option.split)
qed (simp add: crash_at_def apply_writes_def split: option.split)

lemma all_crashes_append:
  "all_crashes P p (ws @ vs) d \<longleftrightarrow> all_crashes P p ws d \<and> all_crashes P p vs (apply_writes p ws d)"
  by (induction ws arbitrary: d) (auto simp: apply_writes_def, (cases vs; auto)+)

lemma all_crashes_mono: "all_crashes P p ws d \<Longrightarrow> (\<And>d. P d \<Longrightarrow> Q d) \<Longrightarrow> all_crashes Q p ws d"
  by (induction ws arbitrary: d) auto

text \<open>A rotation of a clean ledger: whatever write it stops in, the ledger can be read and repaired.\<close>

definition kept :: "(string \<Rightarrow> string) \<Rightarrow> validator \<Rightarrow> string \<Rightarrow> ledger_event list \<Rightarrow> ledger_event \<Rightarrow> directory \<Rightarrow> bool" where
  "kept H validate p hist rot d = (idle H validate p d hist \<or> (\<exists>e. planned H validate p e d hist)
     \<or> (\<exists>e. renamed H validate p e rot d hist) \<or> (\<exists>e. installed H validate p e rot d (hist @ [rot]))
     \<or> idle H validate p d (hist @ [rot]))"

lemma kept_quiet: "kept H validate p hist rot d \<Longrightarrow> quiet p d d' \<Longrightarrow> kept H validate p hist rot d'"
  by (auto simp: kept_def dest: quiet_idle quiet_planned quiet_renamed quiet_installed)

lemma kept_recoverable:
  "kept H validate p hist rot d \<Longrightarrow> recoverable H validate p d hist \<or> recoverable H validate p d (hist @ [rot])"
  by (auto simp: kept_def recoverable_def)

text \<open>A ledger with nothing pending, the journal's last line ended: what a repair leaves.\<close>

definition clean :: "(string \<Rightarrow> string) \<Rightarrow> validator \<Rightarrow> string \<Rightarrow> directory \<Rightarrow> ledger_event list \<Rightarrow> bool" where
  "clean H validate p d hist = (idle H validate p d hist \<and> ended (d (journal_path_for p)))"

lemma clean_recoverable: "clean H validate p d hist \<Longrightarrow> recoverable H validate p d hist"
  by (simp add: clean_def recoverable_def)

definition fitting_plan :: "(string \<Rightarrow> string) \<Rightarrow> validator \<Rightarrow> string \<Rightarrow> directory \<Rightarrow> rotation_plan \<Rightarrow> ledger_event list \<Rightarrow> bool" where
  "fitting_plan H validate p d rp hist = (\<exists>arch live xs ys. base p d arch live None \<and> hist = xs @ ys
     \<and> live_hold H validate d arch live xs \<and> seg_holds H validate d (open_view p (arch @ live) (arch @ live \<noteq> [])) ys
     \<and> ended (d p) \<and> ended (d (journal_path_for p)) \<and> plan_fits H p d ys (arch @ live) rp)"

lemma fitting_idle: "fitting_plan H validate p d rp hist \<Longrightarrow> idle H validate p d hist"
  by (auto simp: fitting_plan_def idle_def)

lemma intent_planned:
  assumes "fitting_plan H validate p d rp hist" and "d' = apply_write p (AppendJournal (rp_intent rp)) d"
  shows "planned H validate p (rp_entry rp) d' hist" "ended (d' (journal_path_for p))"
    "quiet p d' d'' \<Longrightarrow> d3 = apply_write p (RenameOpen (en_file (rp_entry rp))) d''
      \<Longrightarrow> renamed H validate p (rp_entry rp) (rp_event rp) d3 hist \<and> d3 (journal_path_for p) = d'' (journal_path_for p)
        \<and> d3 (rotating_tmp_for p) = d'' (rotating_tmp_for p)"
proof -
  from assms(1) obtain arch live xs ys where b: "base p d arch live None" and hist: "hist = xs @ ys"
    and hold: "live_hold H validate d arch live xs" "seg_holds H validate d (open_view p (arch @ live) (arch @ live \<noteq> [])) ys"
    and ends: "ended (d p)" "ended (d (journal_path_for p))" and fits: "plan_fits H p d ys (arch @ live) rp"
    by (auto simp: fitting_plan_def)
  note plan = idle_plans [OF b ends(2) hold ends(1) fits assms(2)]
  show "planned H validate p (rp_entry rp) d' hist" unfolding planned_def using plan(1-5) hist by blast
  show "ended (d' (journal_path_for p))" by (rule plan(6))
  assume q: "quiet p d' d''" and d3: "d3 = apply_write p (RenameOpen (en_file (rp_entry rp))) d''"
  have fits': "rotation_matches (rp_entry rp) ys" "en_start (rp_entry rp) = next_start (arch @ live)"
    "en_genesis (rp_entry rp) = next_genesis (arch @ live)" "rot_ready H (rp_entry rp) (rp_event rp)"
    "en_file (rp_entry rp) = closed_path_for p (en_n (rp_entry rp))"
    using fits unfolding plan_fits_def Let_def by blast+
  have "live_hold H validate d'' arch live xs"
    by (rule iffD2 [OF fun_cong [OF quiet_hold [OF q plan(1) Un_upper1]] plan(2)])
  moreover have "seg_holds H validate d'' (open_view p (arch @ live) True) ys"
    by (rule iffD2 [OF fun_cong [OF quiet_open [OF q]] plan(3)])
  moreover have "d'' p \<noteq> None" "d'' (en_file (rp_entry rp)) = None"
    using plan(5,7) quiet_at [OF q] fits'(5) by simp_all
  ultimately show "renamed H validate p (rp_entry rp) (rp_event rp) d3 hist \<and> d3 (journal_path_for p) = d'' (journal_path_for p)
      \<and> d3 (rotating_tmp_for p) = d'' (rotating_tmp_for p)"
    using planned_renames [OF quiet_base [OF q plan(1)] _ _ _ _ fits'(1-4) d3] hist by blast
qed

lemma rotation_crashes:
  assumes codec: "codec H validate" and fit: "fitting_plan H validate p d rp hist"
  shows "all_crashes (kept H validate p hist (rp_event rp)) p (rotation_writes now rp) d"
    "clean H validate p (apply_writes p (rotation_writes now rp) d) (hist @ [rp_event rp])"
proof -
  let ?e = "rp_entry rp" and ?rot = "rp_event rp"
  define d1 where "d1 = apply_write p (AppendJournal (rp_intent rp)) d"
  define d2 where "d2 = apply_write p (WriteTmp ?rot) d1"
  define d3 where "d3 = apply_write p (RenameOpen (en_file ?e)) d2"
  define d4 where "d4 = apply_write p InstallTmp d3"
  let ?commit = "commit_record (en_n ?e) (ev_hash ?rot) now"
  define d5 where "d5 = apply_write p (AppendJournal ?commit) d4"
  have q: "quiet p d1 d2" unfolding d2_def by (rule quiet_writes)
  note p1 = intent_planned [OF fit d1_def]
  from p1(3) [OF q d3_def] have p3: "renamed H validate p ?e ?rot d3 hist" "d3 (journal_path_for p) = d2 (journal_path_for p)"
    and tmp: "d3 (rotating_tmp_for p) = Some (one_line ?rot)" by (simp_all add: d2_def one_line_def)
  note p4 = renamed_installs [OF codec p3(1) tmp d4_def]
  have "d2 (journal_path_for p) = d1 (journal_path_for p)" using names_apart(3) [of p] by (simp add: d2_def)
  then have ended4: "ended (d4 (journal_path_for p))" using p4(2) p3(2) p1(2) by simp
  note p5 = installed_commits [OF codec p4(1) ended4, of ?commit now, folded d5_def]
  note phases = fitting_idle [OF fit] p1(1) p3(1) p4(1) p5(1)
  have kept: "kept H validate p hist ?rot d" "kept H validate p hist ?rot d1" "kept H validate p hist ?rot d3"
    "kept H validate p hist ?rot d4" "kept H validate p hist ?rot d5"
    using phases by (auto simp: kept_def)
  have kept2: "kept H validate p hist ?rot d2" by (rule kept_quiet [OF kept(2) q])
  note torn = kept_quiet [OF kept(1) quiet_writes(4)] kept_quiet [OF kept(2) quiet_writes(5)] kept_quiet [OF kept(4) quiet_writes(4)]
  show "all_crashes (kept H validate p hist ?rot) p (rotation_writes now rp) d"
    unfolding rotation_writes_def all_crashes.simps
    unfolding d1_def [symmetric] d2_def [symmetric] d3_def [symmetric] d4_def [symmetric] d5_def [symmetric]
    using kept kept2 torn by (intro conjI allI) simp_all
  show "clean H validate p (apply_writes p (rotation_writes now rp) d) (hist @ [?rot])"
    unfolding rotation_writes_def apply_writes_def fold_simps comp_def id_def
    unfolding d1_def [symmetric] d2_def [symmetric] d3_def [symmetric] d4_def [symmetric] d5_def [symmetric]
    using p5 by (simp add: clean_def)
qed

section \<open>Repairs\<close>

definition cut_writes :: "string \<Rightarrow> directory \<Rightarrow> disk_write list" where
  "cut_writes p d = (if js_whole (parse_journal (d (journal_path_for p))) then [] else [TruncateJournal])"

lemma cut_quiet: "quiet p d (apply_writes p (cut_writes p d) d)"
  by (simp add: cut_writes_def apply_writes_def quiet_refl quiet_writes(3) [unfolded apply_write.simps])

lemma cut_ended:
  assumes "journal_clean (d (journal_path_for p)) cs pend"
  shows "ended (apply_writes p (cut_writes p d) d (journal_path_for p))"
  using journal_whole [OF assms] journal_clean_cut(2) by (auto simp: cut_writes_def apply_writes_def ended_def)

lemma cut_crashes:
  assumes "P d" and "\<And>d'. quiet p d d' \<Longrightarrow> P d'" and "all_crashes P p ws (apply_writes p (cut_writes p d) d)"
  shows "all_crashes P p (cut_writes p d @ ws) d"
  using assms quiet_writes(3) [of p d] by (auto simp: all_crashes_append cut_writes_def apply_writes_def)

text \<open>The closed file of a rotation that got that far is the one the intent describes.\<close>

lemma closed_file_matches:
  assumes b: "base p d arch live (Some e)" and "live_hold H validate d arch (live @ [e]) xs"
  obtains f ys where "d (en_file e) = Some f" "parse_events validate f = Some ys" "rotation_matches e ys"
proof -
  from assms(2) obtain v ys where v: "seg_holds H validate d (closed_view (fst v) (snd v) e) ys"
    by (auto simp: entries_hold_snoc)
  then obtain f where f: "d (en_file e) = Some f" "parse_events_located validate f = (ys, None)"
    "check_segment H (closed_view (fst v) (snd v) e) ys None = None"
    by (auto simp: seg_holds_def closed_view_def split: option.splits)
  have "en_start e \<le> en_end e"
    using base_sound [OF b] by (simp add: sound_journal_def linked_append linked_snoc del: append_assoc)
  with check_segment_None(4) [OF f(3)] have "rotation_matches e ys"
    by (auto simp: check_closed_def closed_view_def rotation_matches_def Let_def split: if_splits)
  with f(1) located_strict [OF f(2)] show ?thesis by (rule that)
qed

lemma idle_clean: "idle H validate p d hist \<Longrightarrow> \<exists>cs. journal_clean (d (journal_path_for p)) cs None"
  by (auto simp: idle_def base_def)

lemma reconcile_idle:
  assumes "idle H validate p d hist"
  shows "\<exists>r. reconcile_writes validate now p d = (cut_writes p d @ [RemoveTmp], Inr r)"
    "all_crashes (\<lambda>d. idle H validate p d hist) p (cut_writes p d @ [RemoveTmp]) d"
    "clean H validate p (apply_writes p (cut_writes p d @ [RemoveTmp]) d) hist"
proof -
  obtain cs where j: "journal_clean (d (journal_path_for p)) cs None" using idle_clean [OF assms] by blast
  then show "\<exists>r. reconcile_writes validate now p d = (cut_writes p d @ [RemoveTmp], Inr r)"
    by (simp add: reconcile_writes_def cut_writes_def journal_clean_parse Let_def)
  let ?d = "apply_writes p (cut_writes p d) d"
  have q: "quiet p d (apply_write p RemoveTmp ?d)" by (rule quiet_trans [OF cut_quiet quiet_writes(1)])
  have cut: "idle H validate p ?d hist" by (rule quiet_idle [OF cut_quiet assms])
  with q show "all_crashes (\<lambda>d. idle H validate p d hist) p (cut_writes p d @ [RemoveTmp]) d"
    by (intro cut_crashes assms) (auto intro: quiet_idle [OF _ assms] simp del: apply_write.simps)
  have "ended (apply_write p RemoveTmp ?d (journal_path_for p))"
    using cut_ended [where d = d and p = p, OF j] names_apart(3) [of p] by simp
  with quiet_idle [OF q assms] show "clean H validate p (apply_writes p (cut_writes p d @ [RemoveTmp]) d) hist"
    by (simp add: clean_def apply_writes_def)
qed

lemma reconcile_planned:
  assumes "planned H validate p e d hist" and ws: "ws = [RemoveTmp, AppendJournal (abort_record (en_n e) now RECOVERED)]"
  shows "reconcile_writes validate now p d = (cut_writes p d @ ws, Inr RolledBack)"
    "all_crashes (\<lambda>d. idle H validate p d hist \<or> planned H validate p e d hist) p (cut_writes p d @ ws) d"
    "clean H validate p (apply_writes p (cut_writes p d @ ws) d) hist"
proof -
  obtain cs where j: "journal_clean (d (journal_path_for p)) cs (Some e)" and none: "d (en_file e) = None"
    using assms(1) by (auto simp: planned_def base_def)
  then show "reconcile_writes validate now p d = (cut_writes p d @ ws, Inr RolledBack)"
    by (simp add: reconcile_writes_def cut_writes_def journal_clean_parse Let_def ws)
  define dc where "dc = apply_writes p (cut_writes p d) d"
  define d1 where "d1 = apply_write p RemoveTmp dc"
  define d2 where "d2 = apply_write p (AppendJournal (abort_record (en_n e) now RECOVERED)) d1"
  have q: "quiet p d dc" "quiet p d d1" unfolding dc_def d1_def
    using cut_quiet quiet_trans [OF cut_quiet quiet_writes(1)] by blast+
  have ended: "ended (d1 (journal_path_for p))"
    using cut_ended [where d = d and p = p, OF j] names_apart(3) [of p] by (simp add: d1_def dc_def)
  note planned = quiet_planned [OF q(1) assms(1)] quiet_planned [OF q(2) assms(1)]
  note aborts = planned_aborts [OF planned(2) ended, of now RECOVERED, folded d2_def]
  have torn: "planned H validate p e (torn_write p t (AppendJournal (abort_record (en_n e) now RECOVERED)) d1) hist" for t
    by (rule quiet_planned [OF quiet_writes(4) planned(2)])
  show "all_crashes (\<lambda>d. idle H validate p d hist \<or> planned H validate p e d hist) p (cut_writes p d @ ws) d"
    using assms(1) planned aborts(1) torn unfolding ws
    by (intro cut_crashes) (auto intro: quiet_planned [OF _ assms(1)] simp del: apply_write.simps
        simp flip: dc_def d1_def d2_def simp: torn_write.simps(4))
  show "clean H validate p (apply_writes p (cut_writes p d @ ws) d) hist"
    using aborts by (simp add: clean_def apply_writes_def ws d2_def d1_def dc_def)
qed

lemma roll_forward_installed:
  assumes codec: "codec H validate" and "installed H validate p e rot d hist"
  shows "\<exists>cs f. journal_clean (d (journal_path_for p)) cs (Some e) \<and> d (en_file e) = Some f
    \<and> roll_forward validate now p d e f = Inr [AppendJournal (commit_record (en_n e) (ev_hash rot) now @ [(''recovered'', JBool True)])]"
proof -
  obtain arch live xs where b: "base p d arch live (Some e)" and opn: "d p = Some (one_line rot)"
    and hold: "live_hold H validate d arch (live @ [e]) xs" and ready: "rot_ready H e rot"
    using assms(2) by (auto simp: installed_def)
  obtain f ys where f: "d (en_file e) = Some f" "parse_events validate f = Some ys" "rotation_matches e ys"
    by (rule closed_file_matches [OF b hold])
  have "parse_events validate (one_line rot) = Some [rot]" 
    by (rule located_strict [OF located_one [OF codec]]) (use ready in \<open>simp add: rot_ready_def\<close>)
  moreover have "validate (JObj (en_rotation e)) = Some rot" using codec ready by (simp add: codec_def rot_ready_def)
  ultimately have "roll_forward validate now p d e f
      = Inr [AppendJournal (commit_record (en_n e) (ev_hash rot) now @ [(''recovered'', JBool True)])]"
    by (simp add: roll_forward_def Let_def f opn)
  then show ?thesis using b f(1) by (auto simp: base_def)
qed

lemma roll_forward_renamed:
  assumes codec: "codec H validate" and "renamed H validate p e rot d hist"
  shows "\<exists>cs f. journal_clean (d (journal_path_for p)) cs (Some e) \<and> d (en_file e) = Some f
    \<and> roll_forward validate now p d e f = Inr [WriteTmp rot, InstallTmp,
        AppendJournal (commit_record (en_n e) (ev_hash rot) now @ [(''recovered'', JBool True)])]"
proof -
  obtain arch live where b: "base p d arch live (Some e)" and opn: "d p = None"
    and hold: "live_hold H validate d arch (live @ [e]) hist" and ready: "rot_ready H e rot"
    using assms(2) by (auto simp: renamed_def)
  obtain f ys where f: "d (en_file e) = Some f" "parse_events validate f = Some ys" "rotation_matches e ys"
    by (rule closed_file_matches [OF b hold])
  have "validate (JObj (en_rotation e)) = Some rot" using codec ready by (simp add: codec_def rot_ready_def)
  then have "roll_forward validate now p d e f = Inr [WriteTmp rot, InstallTmp,
      AppendJournal (commit_record (en_n e) (ev_hash rot) now @ [(''recovered'', JBool True)])]"
    by (simp add: roll_forward_def Let_def f opn)
  then show ?thesis using b f(1) by (auto simp: base_def)
qed

lemma reconcile_forward:
  assumes "journal_clean (d (journal_path_for p)) cs (Some e)" and "d (en_file e) = Some f"
    and "roll_forward validate now p d e f = Inr ws"
  shows "reconcile_writes validate now p d = (cut_writes p d @ ws, Inr RolledForward)"
  using assms by (simp add: reconcile_writes_def cut_writes_def journal_clean_parse Let_def)

lemma commit_crashes:
  assumes codec: "codec H validate" and inst: "installed H validate p e rot d h" and "ended (d (journal_path_for p))"
    and ws: "ws = [AppendJournal (commit_record (en_n e) (ev_hash rot) now @ [(''recovered'', JBool True)])]"
  shows "all_crashes (\<lambda>d. installed H validate p e rot d h \<or> idle H validate p d h) p ws d"
    "clean H validate p (apply_writes p ws d) h"
proof -
  let ?rec = "commit_record (en_n e) (ev_hash rot) now @ [(''recovered'', JBool True)]"
  define d1 where "d1 = apply_write p (AppendJournal ?rec) d"
  note commits = installed_commits [OF codec inst assms(3), of ?rec now, folded d1_def]
  show "all_crashes (\<lambda>d. installed H validate p e rot d h \<or> idle H validate p d h) p ws d"
    unfolding ws all_crashes.simps d1_def [symmetric]
    using inst commits(1) quiet_installed [OF quiet_writes(4) inst] by blast
  show "clean H validate p (apply_writes p ws d) h"
    using commits by (simp add: clean_def apply_writes_def ws d1_def)
qed

lemma reconcile_installed:
  assumes codec: "codec H validate" and inst: "installed H validate p e rot d h"
  shows "\<exists>ws. reconcile_writes validate now p d = (ws, Inr RolledForward)
    \<and> all_crashes (\<lambda>d. installed H validate p e rot d h \<or> idle H validate p d h) p ws d
    \<and> clean H validate p (apply_writes p ws d) h"
proof -
  obtain cs f where j: "journal_clean (d (journal_path_for p)) cs (Some e)" and f: "d (en_file e) = Some f"
    and fwd: "roll_forward validate now p d e f = Inr [AppendJournal (commit_record (en_n e) (ev_hash rot) now @ [(''recovered'', JBool True)])]"
    using roll_forward_installed [OF codec inst] by blast
  let ?dc = "apply_writes p (cut_writes p d) d"
  note crashes = commit_crashes [OF codec quiet_installed [OF cut_quiet inst] cut_ended [where d = d and p = p, OF j] refl]
  show ?thesis
    using reconcile_forward [OF j f fwd] crashes inst
    by (auto simp: apply_writes_def intro!: cut_crashes intro: quiet_installed)
qed

lemma reconcile_renamed:
  assumes codec: "codec H validate" and ren: "renamed H validate p e rot d hist"
  shows "\<exists>ws. reconcile_writes validate now p d = (ws, Inr RolledForward) \<and> all_crashes (kept H validate p hist rot) p ws d
    \<and> clean H validate p (apply_writes p ws d) (hist @ [rot])"
proof -
  let ?commit = "AppendJournal (commit_record (en_n e) (ev_hash rot) now @ [(''recovered'', JBool True)])"
  obtain cs f where j: "journal_clean (d (journal_path_for p)) cs (Some e)" and f: "d (en_file e) = Some f"
    and fwd: "roll_forward validate now p d e f = Inr [WriteTmp rot, InstallTmp, ?commit]"
    using roll_forward_renamed [OF codec ren] by blast
  define dc where "dc = apply_writes p (cut_writes p d) d"
  define d1 where "d1 = apply_write p (WriteTmp rot) dc"
  define d2 where "d2 = apply_write p InstallTmp d1"
  have q: "quiet p d dc" "quiet p dc d1" unfolding dc_def d1_def by (rule cut_quiet quiet_writes)+
  have ren1: "renamed H validate p e rot d1 hist" by (rule quiet_renamed [OF q(2) quiet_renamed [OF q(1) ren]])
  have tmp: "d1 (rotating_tmp_for p) = Some (one_line rot)" by (simp add: d1_def one_line_def)
  note inst = renamed_installs [OF codec ren1 tmp d2_def]
  have "ended (d2 (journal_path_for p))"
    using cut_ended [where d = d and p = p, OF j] inst(2) names_apart(3) [of p] by (simp add: d1_def dc_def)
  note commit = commit_crashes [OF codec inst(1) this refl, of now]
  have crashes: "all_crashes (kept H validate p hist rot) p [?commit] d2" "clean H validate p (apply_writes p [?commit] d2) (hist @ [rot])"
    by (rule all_crashes_mono [OF commit(1)], auto simp: kept_def) (rule commit(2))
  have kept: "kept H validate p hist rot d" "kept H validate p hist rot d1" using ren ren1 by (auto simp: kept_def)
  have kept_dc: "kept H validate p hist rot dc" by (rule kept_quiet [OF kept(1) q(1)])
  have "all_crashes (kept H validate p hist rot) p [WriteTmp rot, InstallTmp, ?commit] dc"
    unfolding all_crashes.simps(2) [of _ _ "WriteTmp rot"] all_crashes.simps(2) [of _ _ InstallTmp]
      d1_def [symmetric] d2_def [symmetric]
    using kept(2) kept_dc kept_quiet [OF kept_dc quiet_writes(5)] crashes(1) by simp
  moreover have "apply_writes p (cut_writes p d @ [WriteTmp rot, InstallTmp, ?commit]) d = apply_writes p [?commit] d2"
    by (simp add: apply_writes_def dc_def d1_def d2_def)
  ultimately show ?thesis
    using reconcile_forward [OF j f fwd] crashes(2) kept(1)
    by (auto simp: dc_def simp del: apply_write.simps intro!: cut_crashes intro: kept_quiet)
qed

text \<open>
  From whatever an interrupted rotation left, the repair succeeds; interrupted in turn it leaves something
  it can repair; and it ends with nothing pending. The history only grows, by a rotation event at most.
\<close>

definition grown :: "(string \<Rightarrow> string) \<Rightarrow> validator \<Rightarrow> string \<Rightarrow> ledger_event list \<Rightarrow> directory \<Rightarrow> bool" where
  "grown H validate p h d = (\<exists>h'. recoverable H validate p d h' \<and> (h' = h \<or> (\<exists>rot. h' = h @ [rot])))"

lemma grownI: "recoverable H validate p d h \<or> recoverable H validate p d (h @ [rot]) \<Longrightarrow> grown H validate p h d"
  by (auto simp: grown_def)

lemma reconcile_recoverable:
  assumes codec: "codec H validate" and "recoverable H validate p d h"
  obtains ws r h' where "reconcile_writes validate now p d = (ws, Inr r)" "all_crashes (grown H validate p h) p ws d"
    "clean H validate p (apply_writes p ws d) h'" "h' = h \<or> (\<exists>rot. h' = h @ [rot])"
  using assms(2) [unfolded recoverable_def]
proof (elim disjE exE)
  assume i: "idle H validate p d h"
  from reconcile_idle(1) [OF i] obtain r where "reconcile_writes validate now p d = (cut_writes p d @ [RemoveTmp], Inr r)" ..
  then show ?thesis
    by (rule that [OF _ all_crashes_mono [OF reconcile_idle(2) [OF i]] reconcile_idle(3) [OF i]])
      (auto simp: grown_def recoverable_def)
next
  fix e assume pl: "planned H validate p e d h"
  note repair = reconcile_planned [OF pl refl, of now]
  show ?thesis
    by (rule that [OF repair(1) all_crashes_mono [OF repair(2)] repair(3)]) (auto simp: grown_def recoverable_def)
next
  fix e rot assume "renamed H validate p e rot d h"
  from reconcile_renamed [OF codec this, of now] obtain ws where ws: "reconcile_writes validate now p d = (ws, Inr RolledForward)"
    "all_crashes (kept H validate p h rot) p ws d" "clean H validate p (apply_writes p ws d) (h @ [rot])" by blast
  show ?thesis
    by (rule that [OF ws(1) all_crashes_mono [OF ws(2)] ws(3)]) (auto intro: grownI dest: kept_recoverable)
next
  fix e rot assume "installed H validate p e rot d h"
  from reconcile_installed [OF codec this, of now] obtain ws where ws: "reconcile_writes validate now p d = (ws, Inr RolledForward)"
    "all_crashes (\<lambda>d. installed H validate p e rot d h \<or> idle H validate p d h) p ws d"
    "clean H validate p (apply_writes p ws d) h" by blast
  show ?thesis
    by (rule that [OF ws(1) all_crashes_mono [OF ws(2)] ws(3)]) (auto simp: grown_def recoverable_def)
qed

end
