(* ===== verification/Step_Systems.thy ===== *)
theory Step_Systems
  imports Field_Prelude
begin

text \<open>
  Services as step relations: what any interleaving of requests, crashes and retries keeps. The states
  reachable from \<open>s\<close> are those \<open>t\<close> with \<open>step\<^sup>*\<^sup>* s t\<close>.
\<close>

locale stepping =
  fixes step :: "'s \<Rightarrow> 's \<Rightarrow> bool"
    and inv :: "'s \<Rightarrow> bool"
  assumes step_keeps: "inv s \<Longrightarrow> step s t \<Longrightarrow> inv t"
begin

lemma reach_keeps: "step\<^sup>*\<^sup>* s t \<Longrightarrow> inv s \<Longrightarrow> inv t"
  by (induction rule: rtranclp_induct) (auto intro: step_keeps)

end

text \<open>A latch: once it reads a value, no step changes it.\<close>

locale latched_stepping = stepping step inv
  for step :: "'s \<Rightarrow> 's \<Rightarrow> bool" and inv :: "'s \<Rightarrow> bool" +
  fixes latch :: "'k \<Rightarrow> 's \<Rightarrow> 'v option"
  assumes step_latches: "inv s \<Longrightarrow> step s t \<Longrightarrow> latch k s = Some v \<Longrightarrow> latch k t = Some v"
begin

lemma reach_latches: "step\<^sup>*\<^sup>* s t \<Longrightarrow> inv s \<Longrightarrow> latch k s = Some v \<Longrightarrow> latch k t = Some v"
proof (induction rule: rtranclp_induct)
  case (step y z)
  then show ?case using reach_keeps step_latches by blast
qed

lemma latched_value_unique:
  assumes "step\<^sup>*\<^sup>* s t" and "step\<^sup>*\<^sup>* t u" and "inv s" and "latch k t = Some v" and "latch k u = Some w"
  shows "w = v"
  using reach_latches [OF assms(2)] reach_keeps [OF assms(1,3)] assms(4,5) by fastforce

end

end
