(* ===== verification/Ledger_Writer.thy ===== *)
theory Ledger_Writer
  imports Ledger_Crashes Step_Systems "HOL-Library.Sublist"
begin

text \<open>
  The writer of the ledger: what its cache says of the directory, what an append and a rotation make of the
  history, and every run of appends, rotations, repairs and crashes together.
\<close>

section \<open>What a recovery reads\<close>

definition closed_reads :: "seg_view list \<Rightarrow> seg_read list" where
  "closed_reads segs = map (\<lambda>seg. (seg, None, None)) segs"

lemma grow_closed: "linked n s g es \<Longrightarrow> fold grow_length (closed_reads (entry_views prev g' es)) s = end_start s es"
  by (induction es arbitrary: n s g g' prev) (auto simp: closed_reads_def grow_length_def closed_view_def)

lemma entry_views_closed: "seg \<in> set (entry_views prev g es) \<Longrightarrow> sv_closed seg"
  by (induction es arbitrary: prev g) (auto simp: closed_view_def)

lemma chain_head_not_Nil:
  assumes "codec H validate" and "cv_ok (verify_chain H es g)" and "es \<noteq> []"
  shows "ev_hash (last es) \<noteq> []"
proof -
  obtain ys e where es: "es = ys @ [e]" using assms(3) by (cases es rule: rev_cases) auto
  then have "compute_event_hash H e = ev_hash e"
    using assms(2) by (simp add: verify_chain_append verify_chain_def [of H "[e]"] Let_def split: if_splits)
  then show ?thesis using assms(1) by (simp add: es codec_def compute_event_hash_def compute_record_hash_def) metis
qed

lemma entry_head_not_Nil:
  assumes codec: "codec H validate" and b: "base p d arch (live @ [e]) pend" and "live_hold H validate d arch (live @ [e]) xs"
  shows "en_head e \<noteq> []"
proof -
  from assms(3) obtain v ys where v: "seg_holds H validate d (closed_view (fst v) (snd v) e) ys"
    by (auto simp: entries_hold_snoc)
  then have c: "check_segment H (closed_view (fst v) (snd v) e) ys None = None"
    by (auto simp: seg_holds_def closed_view_def split: option.splits)
  have "en_start e \<le> en_end e"
    using base_sound [OF b] by (auto simp: sound_journal_def linked_append linked_snoc split: option.splits)
  with check_segment_None(4) [OF c] have "ys \<noteq> []" "ev_hash (last ys) = en_head e"
    by (auto simp: check_closed_def closed_view_def Let_def split: if_splits)
  with chain_head_not_Nil [OF codec check_segment_None(1) [OF c]] show ?thesis by simp
qed

text \<open>The open segment of an idle ledger: where it starts, and the head an append continues.\<close>

definition open_head :: "seg_entry list \<Rightarrow> ledger_event list \<Rightarrow> string" where
  "open_head cs ys = (if ys = [] then next_genesis cs else ev_hash (last ys))"

lemma open_not_empty:
  assumes "seg_holds H validate d (open_view p cs (cs \<noteq> [])) ys" and "cs \<noteq> []"
  shows "ys \<noteq> []"
  using assms by (auto simp: seg_holds_def check_open last_entry_def check_opening_def split: option.splits)

lemma open_parses:
  assumes "seg_holds H validate d (open_view p cs m) ys"
  shows "open_events validate p d = Some (map_option (\<lambda>_. ys) (d p))" "d p = None \<Longrightarrow> ys = []"
    "cv_ok (verify_chain H ys (next_genesis cs))"
  using assms by (auto simp: seg_holds_def open_events_def check_open verify_chain_def dest: located_strict split: option.splits)

definition cache_of :: "string \<Rightarrow> directory \<Rightarrow> seg_entry list \<Rightarrow> ledger_event list \<Rightarrow> writer_cache" where
  "cache_of p d cs ys = \<lparr>wc_head = open_head cs ys, wc_len = next_start cs + int (length ys), wc_start = next_start cs,
     wc_next = next_n cs, wc_closed_head = next_genesis cs, wc_key = disk_key p d,
     wc_pending = (\<not> ended (d (journal_path_for p)))\<rparr>"

lemma recover_idle:
  assumes codec: "codec H validate" and b: "base p d arch live None" and hold: "live_hold H validate d arch live xs"
    and opn: "seg_holds H validate d (open_view p (arch @ live) (arch @ live \<noteq> [])) ys"
  shows "recover validate p d = Some (cache_of p d (arch @ live) ys)"
proof -
  let ?cs = "arch @ live" and ?views = "entry_views (last_entry arch) (end_head GENESIS_HASH arch) live"
  let ?v = "open_view p ?cs (?cs \<noteq> [])" and ?ly = "layout_of p d"
  have layout: "ly_segs ?ly = ?views @ [?v]" "ly_archived ?ly = arch"
    using base_layout [OF b refl] by (simp_all add: renamed_entries_def open_must_def)
  have js: "ly_journal ?ly = parse_journal (d (journal_path_for p))"
    by (simp add: layout_of_def resolve_layout_def Let_def split: prod.split)
  have clean: "journal_clean (d (journal_path_for p)) ?cs None" using b by (simp add: base_def)
  note parse = clean [unfolded journal_clean_parse] journal_whole [OF clean]
  have link: "linked (1 + int (length arch)) (end_start 0 arch) (end_head GENESIS_HASH arch) live"
    using base_sound [OF b] by (simp add: sound_journal_def linked_append)
  have "filter sv_closed (?views @ [?v]) = ?views" by (simp add: filter_id_conv entry_views_closed)
  moreover have "or_else (en_head (last live)) GENESIS_HASH = en_head (last live)" if "live \<noteq> []"
    using entry_head_not_Nil [OF codec, of p d arch "butlast live" "last live"] that b hold by (simp add: or_else_def)
  moreover have "sv_head (last ?views) = Some (en_head (last live))" if "live \<noteq> []"
    using that by (cases live rule: rev_cases) (simp_all add: entry_views_snoc closed_view_def)
  ultimately have closed_head: "closed_head_of ?ly = next_genesis ?cs"
    by (simp add: closed_head_of_def layout next_genesis_def)
  let ?opened = "map_option (\<lambda>_. ys) (d p)"
  have "map (\<lambda>seg. (seg, if sv_closed seg then None else ?opened, None)) (?views @ [?v])
      = closed_reads ?views @ [(?v, ?opened, None)]"
    by (simp add: closed_reads_def entry_views_closed)
  moreover have "grow_length (?v, ?opened, None) (end_start (end_start 0 arch) live) = next_start ?cs + int (length ys)"
    using open_parses(2) [OF opn] by (auto simp: grow_length_def next_eqs split: option.split)
  ultimately have len: "global_length ?ly (map (\<lambda>seg. (seg, if sv_closed seg then None else ?opened, None)) (ly_segs ?ly))
      = next_start ?cs + int (length ys)"
    by (simp only: layout global_length_def fold_append comp_def) (simp add: layout grow_closed [OF link] flip: end_start_def)
  have head: "or_else (case ?opened of Some es \<Rightarrow> if es = [] then [] else ev_hash (last es) | None \<Rightarrow> []) (next_genesis ?cs) = open_head ?cs ys"
    using open_parses(2) [OF opn] chain_head_not_Nil [OF codec open_parses(3) [OF opn]]
    by (auto simp: or_else_def open_head_def split: option.split)
  show ?thesis
    unfolding recover_def open_parses(1) [OF opn] option.case Let_def closed_head len head js
    by (simp add: layout parse ended_def cache_of_def)
qed
section \<open>Appending to an idle ledger\<close>

text \<open>A record with its own hash, on the given head.\<close>

definition continues :: "(string \<Rightarrow> string) \<Rightarrow> string \<Rightarrow> ledger_event \<Rightarrow> bool" where
  "continues H head e = (prev_hash e = head \<and> compute_event_hash H e = ev_hash e)"

lemma append_at:
  assumes codec: "codec H validate" and b: "base p d arch live None" and hold: "live_hold H validate d arch live xs"
    and opn: "seg_holds H validate d (open_view p (arch @ live) (arch @ live \<noteq> [])) ys" and ended: "ended (d p)"
    and e: "continues H (open_head (arch @ live) ys) e" "storable e" and d': "d' = apply_write p (AppendOpen e) d"
  shows "base p d' arch live None" "live_hold H validate d' arch live xs"
    "seg_holds H validate d' (open_view p (arch @ live) (arch @ live \<noteq> [])) (ys @ [e])" "ended (d' p)"
    "d' (journal_path_for p) = d (journal_path_for p)"
proof -
  let ?v = "open_view p (arch @ live) (arch @ live \<noteq> [])"
  have at: "d' p = Some (add_line (event_line e) (file_of (d p)))" "\<And>n. n \<noteq> p \<Longrightarrow> d' n = d n"
    by (simp_all add: d' append_line_at)
  show j: "d' (journal_path_for p) = d (journal_path_for p)" by (rule at(2)) (metis names_apart(1))
  show "base p d' arch live None" using b j by (simp add: base_def)
  have "entries_hold H validate d' prev g live = entries_hold H validate d prev g live" for prev g
    by (rule entries_hold_cong, rule at(2)) (use base_named(1) [OF b] names_apart(4) in metis)
  then show "live_hold H validate d' arch live xs" using hold by simp
  show "ended (d' p)" using ended by (simp add: at(1) ended_def file_of_def [of "Some _"] add_line_def)
  have "parse_events_located validate (file_of (d p)) = (ys, None) \<and> check_opening ?v ys = None
    \<and> cv_ok (verify_chain H ys (next_genesis (arch @ live)))"
  proof (cases "d p")
    case None
    then have "arch = []" "live = []" "ys = []" using opn by (simp_all add: seg_holds_def)
    then show ?thesis
      by (simp add: None file_of_def empty_file_def parse_events_located_def all_lines_def check_opening_def last_entry_def verify_chain_def)
  next
    case (Some f)
    then show ?thesis using opn by (simp add: seg_holds_def check_open file_of_def)
  qed
  then have loc: "parse_events_located validate (file_of (d p)) = (ys, None)" and opns: "check_opening ?v ys = None"
    and chain: "cv_ok (verify_chain H ys (next_genesis (arch @ live)))" by blast+
  have "ys \<noteq> [] \<or> sv_first ?v = None"
    using open_not_empty [OF opn] by (auto simp: last_entry_def)
  then have "check_opening ?v (ys @ [e]) = None" by (rule check_opening_snoc [OF opns])
  moreover have "cv_ok (verify_chain H (ys @ [e]) (next_genesis (arch @ live)))"
    using chain e(1) by (simp add: verify_chain_append last_hash_def open_head_def continues_def verify_chain_def [of H "[e]"] Let_def)
  ultimately show "seg_holds H validate d' ?v (ys @ [e])"
    using located_add [OF codec ended loc e(2)] at(1) by (simp add: seg_holds_def check_open)
qed

lemma idle_head:
  assumes codec: "codec H validate" and "idle H validate p d h" and c: "recover validate p d = Some c"
  obtains arch live xs ys where "base p d arch live None" "live_hold H validate d arch live xs"
    "seg_holds H validate d (open_view p (arch @ live) (arch @ live \<noteq> [])) ys" "ended (d p)" "h = xs @ ys"
    "wc_head c = open_head (arch @ live) ys" "wc_len c = next_start (arch @ live) + int (length ys)"
    "wc_start c = next_start (arch @ live)" "wc_next c = next_n (arch @ live)" "wc_closed_head c = next_genesis (arch @ live)"
    "wc_key c = disk_key p d" "wc_pending c = (\<not> ended (d (journal_path_for p)))"
proof -
  from assms(2) obtain arch live xs ys where b: "base p d arch live None" "live_hold H validate d arch live xs"
    "seg_holds H validate d (open_view p (arch @ live) (arch @ live \<noteq> [])) ys" "ended (d p)" "h = xs @ ys"
    by (auto simp: idle_def)
  from recover_idle [OF codec b(1-3)] c show ?thesis by (intro that [OF b]) (simp_all add: cache_of_def)
qed

text \<open>An append onto the cached head extends the history, and the cache it leaves is what a recovery would read.\<close>

lemma append_clean:
  assumes codec: "codec H validate" and clean: "clean H validate p d h" and c: "recover validate p d = Some c"
    and e: "continues H (wc_head c) e" "storable e" and d': "d' = apply_write p (AppendOpen e) d"
  shows "clean H validate p d' (h @ [e])" "recover validate p d' = Some (cache_append p d e c)"
proof -
  have idle: "idle H validate p d h" using clean by (simp add: clean_def)
  obtain arch live xs ys where b: "base p d arch live None" "live_hold H validate d arch live xs"
    "seg_holds H validate d (open_view p (arch @ live) (arch @ live \<noteq> [])) ys" "ended (d p)" "h = xs @ ys"
    and fields: "wc_head c = open_head (arch @ live) ys" "wc_len c = next_start (arch @ live) + int (length ys)"
    "wc_start c = next_start (arch @ live)" "wc_next c = next_n (arch @ live)" "wc_closed_head c = next_genesis (arch @ live)"
    "wc_key c = disk_key p d" "wc_pending c = (\<not> ended (d (journal_path_for p)))" by (rule idle_head [OF codec idle c])
  note app = append_at [OF codec b(1-4) e(1) [unfolded fields(1)] e(2) d']
  show "clean H validate p d' (h @ [e])"
    unfolding clean_def idle_def using app b(5) clean by (auto simp: clean_def)
  show "recover validate p d' = Some (cache_append p d e c)"
    using recover_idle [OF codec app(1-3)] fields app(5)
    by (simp add: cache_append_def cache_of_def open_head_def disk_key_def d')
qed

section \<open>The plan of a rotation\<close>

lemma built_event:
  assumes "build_event H cr cfg w q NoStamp head = Inr (Some e)"
  shows "continues H head e" "event_type e = aq_type q" "payload e = (case aq_payload q of None \<Rightarrow> [] | Some d \<Rightarrow> d)"
proof -
  let ?m = "make_event H (aw_fresh w) (aw_clock w) (aq_type q) (aq_payload q) head (aq_agent q) None None"
  from assms have sealed: "seal H (cr_sign cr) cfg ?m = Inr (Some e)" by (simp add: build_event_def stamp_event_def)
  obtain e' where "Some e = Some e'" "prev_hash e' = head" "compute_event_hash H e' = ev_hash e'"
    "event_type e' = event_type ?m" "payload e' = payload ?m"
    by (rule seal_cases [OF made_fresh sealed]) blast
  then show "continues H head e" "event_type e = aq_type q" "payload e = (case aq_payload q of None \<Rightarrow> [] | Some d \<Rightarrow> d)"
    by (simp_all add: continues_def) (simp_all add: make_event_def Let_def)
qed

lemma payload_keeps:
  assumes "distinct (map fst fs)" and "set (map fst fs) \<inter> set (map fst ps) = {}" and "k \<in> set (map fst ps)"
  shows "map_of (dict_update ps fs) k = map_of ps k"
proof -
  have "map_of fs k = None" using assms(2,3) by (auto simp: map_of_eq_None_iff)
  then show ?thesis by (simp add: map_of_dict_update [OF assms(1)])
qed

definition outside_payload :: "py_dict \<Rightarrow> bool" where
  "outside_payload fs = (finite_json (JObj fs) \<and> distinct (map fst fs) \<and> set (map fst fs) \<inter> set [''segment_closed'', ''file'', ''start_index'', ''end_index'',
     ''head_hash'', ''genesis_prev_hash'', ''anchor'', ''operator'', ''reason''] = {})"

lemma ledger_fields_outside: "outside_payload (ledger_fields cx)"
  using ledger_fields_keys [of cx]
  by (auto simp: outside_payload_def RESERVED_KEYS_def ledger_fields_def auth_ledger_fields_def jopt_def Let_def
      split: option.splits)

lemma finite_update: "finite_json (JObj d) \<Longrightarrow> finite_json v \<Longrightarrow> finite_json (JObj (AList.update k v d))"
  by (induction d) auto

lemma finite_dict_update: "finite_json (JObj fs) \<Longrightarrow> finite_json (JObj d) \<Longrightarrow> finite_json (JObj (dict_update d fs))"
  unfolding dict_update_def
proof (induction fs arbitrary: d)
  case (Cons f fs)
  then show ?case using finite_update [of d "snd f" "fst f"] by (cases f) simp
qed simp

lemma py_eq_refl [simp]: "py_eq j j" by (simp add: py_eq_def)

lemma plan_rotation_fits:
  assumes codec: "codec H validate" and clean: "clean H validate p d h" and c: "recover validate p d = Some c"
    and plan: "plan_rotation H cr cfg anchor_sig p d c pem q = Inr rp" and "CHR ''/'' \<notin> set p" and "outside_payload (rq_fields q)"
  shows "fitting_plan H validate p d rp h"
proof -
  have idle: "idle H validate p d h" using clean by (simp add: clean_def)
  obtain arch live xs ys where b: "base p d arch live None" "live_hold H validate d arch live xs"
    "seg_holds H validate d (open_view p (arch @ live) (arch @ live \<noteq> [])) ys" "ended (d p)" "h = xs @ ys"
    and fields: "wc_head c = open_head (arch @ live) ys" "wc_len c = next_start (arch @ live) + int (length ys)"
    "wc_start c = next_start (arch @ live)" "wc_next c = next_n (arch @ live)" "wc_closed_head c = next_genesis (arch @ live)"
    "wc_key c = disk_key p d" "wc_pending c = (\<not> ended (d (journal_path_for p)))" by (rule idle_head [OF codec idle c])
  define anchor where "anchor = (let record = anchor_record (rq_now q) (wc_len c) (wc_head c) (wc_next c) in
    record @ [(''signature'', JStr (anchor_sig pem record))])"
  let ?event = "\<lparr>aq_type = ROTATION_EVENT_TYPE, aq_payload = Some (rotation_payload p c anchor q), aq_agent = None, aq_claim = None\<rparr>"
  have ne: "0 < wc_len c - wc_start c" and free: "d (closed_path_for p (wc_next c)) = None"
    using plan by (simp_all add: plan_rotation_def split: if_splits)
  have "(case build_event H cr cfg (rq_world q) ?event NoStamp (wc_head c) of
      Inl r \<Rightarrow> Inl (Refused r) | Inr None \<Rightarrow> Inl EventInvalid
    | Inr (Some rot) \<Rightarrow> Inr \<lparr>rp_entry = intent_entry (intent_record p c anchor rot (rq_now q)), rp_event = rot,
        rp_intent = intent_record p c anchor rot (rq_now q)\<rparr>) = Inr rp"
    using plan ne free unfolding plan_rotation_def Let_def anchor_def by simp
  then obtain rot where rot: "build_event H cr cfg (rq_world q) ?event NoStamp (wc_head c) = Inr (Some rot)"
    and rp: "rp_event rp = rot" "rp_intent rp = intent_record p c anchor rot (rq_now q)" "rp_entry rp = intent_entry (rp_intent rp)"
    by (auto split: sum.splits option.splits)
  note built = built_event [OF rot, simplified]
  have entry: "en_n (rp_entry rp) = wc_next c" "en_file (rp_entry rp) = closed_path_for p (wc_next c)"
    "en_start (rp_entry rp) = wc_start c" "en_end (rp_entry rp) = wc_len c - 1" "en_genesis (rp_entry rp) = wc_closed_head c"
    "en_head (rp_entry rp) = wc_head c" "en_anchor (rp_entry rp) = anchor" "en_rotation (rp_entry rp) = event_dump rot"
    "en_archived_to (rp_entry rp) = None"
    by (simp_all add: rp intent_entry_def intent_record_def int_at_def str_at_def dict_at_def)
  have "map_of (payload rot) k = map_of (rotation_payload p c anchor (q\<lparr>rq_fields := []\<rparr>)) k"
    if "k \<in> set [''segment_closed'', ''file'', ''start_index'', ''end_index'', ''head_hash'', ''genesis_prev_hash'', ''anchor'']" for k
    unfolding built(3) rotation_payload_def
    by (subst payload_keeps) (use assms(6) that in \<open>auto simp: outside_payload_def dict_update_def\<close>)
  then have "journal_vs_rotation_event (Some (rp_entry rp)) rot = None"
    by (simp add: journal_vs_rotation_event_def built(2) entry entry_fields_def same_json_def rotation_payload_def dict_update_def)
  moreover have "storable rot"
    unfolding storable_def built(3) rotation_payload_def option.case
    by (rule finite_dict_update)
      (use assms(6) in \<open>simp_all add: outside_payload_def anchor_def anchor_record_def Let_def\<close>)
  ultimately have ready: "rot_ready H (rp_entry rp) rot" using built(1) by (simp add: rot_ready_def entry continues_def)
  have "journal_op (rp_intent rp) (arch @ live) None = Some (arch @ live, Some (rp_entry rp))"
    using ne closed_path_plain [OF assms(5), of "wc_next c"] entry
    by (simp add: journal_op_def Let_def rp fields)
      (simp add: intent_record_def check_record_def OP_SCHEMA_def str_at_def fields event_dump_def)
  moreover have "ys \<noteq> []" using ne fields by auto
  moreover from this have "rotation_matches (rp_entry rp) ys" by (simp add: rotation_matches_def entry fields open_head_def)
  ultimately have "plan_fits H p d ys (arch @ live) rp"
    using ready free entry by (simp add: plan_fits_def Let_def rp(1) fields archived_def)
  then show ?thesis unfolding fitting_plan_def using b clean by (auto simp: clean_def)
qed

section \<open>A fresh cache\<close>

text \<open>A cache whose key is the disk's, with nothing pending, is what a recovery would read.\<close>

definition coherent :: "validator \<Rightarrow> string \<Rightarrow> directory \<Rightarrow> writer_cache \<Rightarrow> bool" where
  "coherent validate p d c = (disk_key p d = wc_key c \<and> \<not> wc_pending c \<longrightarrow> recover validate p d = Some c)"

lemma recover_fields:
  assumes "recover validate p d = Some c"
  shows "wc_key c = disk_key p d" "wc_pending c = (js_pending (parse_journal (d (journal_path_for p))) \<noteq> None
    \<or> js_error (parse_journal (d (journal_path_for p))) \<noteq> None \<or> \<not> js_whole (parse_journal (d (journal_path_for p))))"
proof -
  have js: "ly_journal (layout_of p d) = parse_journal (d (journal_path_for p))"
    by (simp add: layout_of_def resolve_layout_def Let_def split: prod.split)
  from assms show "wc_key c = disk_key p d" "wc_pending c = (js_pending (parse_journal (d (journal_path_for p))) \<noteq> None
    \<or> js_error (parse_journal (d (journal_path_for p))) \<noteq> None \<or> \<not> js_whole (parse_journal (d (journal_path_for p))))"
    by (auto simp: recover_def Let_def js split: option.splits)
qed

lemma recovered_coherent: "recover validate p d = Some c \<Longrightarrow> coherent validate p d c"
  by (simp add: coherent_def)

lemma recover_exists:
  assumes codec: "codec H validate" and "recoverable H validate p d h"
  shows "recover validate p d \<noteq> None"
proof -
  have "open_events validate p d \<noteq> None"
    using assms(2) located_strict [OF located_one [OF codec]]
    by (auto simp: recoverable_def idle_def planned_def renamed_def installed_def rot_ready_def open_events_def
        dest: open_parses(1) split: option.splits)
  then show ?thesis by (auto simp: recover_def Let_def split: option.split)
qed

lemma nothing_pending_clean:
  assumes "recoverable H validate p d h" and "recover validate p d = Some c" and "\<not> wc_pending c"
  shows "clean H validate p d h"
proof -
  let ?js = "parse_journal (d (journal_path_for p))"
  have js: "js_pending ?js = None" "js_whole ?js" using recover_fields(2) [OF assms(2)] assms(3) by auto
  then have idle: "idle H validate p d h"
    using assms(1) by (auto simp: recoverable_def planned_def renamed_def installed_def base_def journal_clean_parse)
  with idle_clean [OF idle] js(2) show ?thesis by (auto simp: clean_def ended_def journal_whole)
qed

lemma ensure_fresh_clean:
  assumes codec: "codec H validate" and rec: "recoverable H validate p d h" and "coherent validate p d c"
  obtains ws c' h' where "ensure_fresh validate now p d c = (ws, Inr c')" "all_crashes (grown H validate p h) p ws d"
    "clean H validate p (apply_writes p ws d) h'" "recover validate p (apply_writes p ws d) = Some c'"
    "h' = h \<or> (\<exists>rot. h' = h @ [rot])"
proof -
  have now: "all_crashes (grown H validate p h) p [] d" using rec by (auto simp: grown_def)
  obtain c1 where c1: "recover validate p d = Some c1" using recover_exists [OF codec rec] by blast
  show ?thesis
  proof (cases "disk_key p d = wc_key c \<and> \<not> wc_pending c")
    case True
    then have "recover validate p d = Some c" using assms(3) by (simp add: coherent_def)
    with True nothing_pending_clean [OF rec this] now show ?thesis
      by (intro that [of "[]" c h]) (simp_all add: ensure_fresh_def apply_writes_def)
  next
    case False
    show ?thesis
    proof (cases "wc_pending c1")
      case no: False
      with c1 have "ensure_fresh validate now p d c = ([], Inr c1)" unfolding ensure_fresh_def if_not_P [OF False] by simp
      with no c1 nothing_pending_clean [OF rec c1] now show ?thesis
        by (intro that [of "[]" c1 h]) (simp_all add: apply_writes_def)
    next
      case True
      obtain ws r h' where ws: "reconcile_writes validate now p d = (ws, Inr r)" "all_crashes (grown H validate p h) p ws d"
        "clean H validate p (apply_writes p ws d) h'" "h' = h \<or> (\<exists>rot. h' = h @ [rot])"
        by (rule reconcile_recoverable [OF codec rec])
      obtain c' where c': "recover validate p (apply_writes p ws d) = Some c'"
        using recover_exists [OF codec clean_recoverable [OF ws(3)]] by blast
      have "ensure_fresh validate now p d c = (ws, Inr c')"
        unfolding ensure_fresh_def if_not_P [OF False] using True by (simp add: c1 ws(1) c')
      then show ?thesis by (rule that [OF _ ws(2,3) c' ws(4)])
    qed
  qed
qed

section \<open>An event's line half written\<close>

text \<open>
  What a crash inside the write of an event's own line leaves. With no byte of it the directory is as it was
  (the open file may have come into being, empty). With some of its bytes the open segment ends in half a
  line: nothing parses, every recovery is refused, and a reader stops at that line.
\<close>

definition half_line :: "(string \<Rightarrow> string) \<Rightarrow> validator \<Rightarrow> string \<Rightarrow> directory \<Rightarrow> ledger_event list \<Rightarrow> bool" where
  "half_line H validate p d h = (\<exists>d0. clean H validate p d0 h \<and> d = tear_append p SomeBytes Garbage d0)"

definition without_tail :: "string \<Rightarrow> directory \<Rightarrow> directory" where
  "without_tail p d = d(p := map_option drop_tail (d p))"

lemma tear_half: "clean H validate p d h \<Longrightarrow> half_line H validate p (tear_append p SomeBytes l d) h"
  unfolding half_line_def by (intro exI [of _ d]) (simp add: tear_append_def tear_onto_def)

lemma touched_clean:
  assumes "clean H validate p d h"
  shows "clean H validate p (d(p \<mapsto> file_of (d p))) h"
proof (cases "d p")
  case (Some f)
  then have "d(p \<mapsto> file_of (d p)) = d" by (simp add: file_of_def fun_upd_idem)
  with assms show ?thesis by simp
next
  case None
  let ?d = "d(p \<mapsto> file_of (d p))"
  from assms obtain arch live xs ys where b: "base p d arch live None" "h = xs @ ys" "live_hold H validate d arch live xs"
    and o: "seg_holds H validate d (open_view p (arch @ live) (arch @ live \<noteq> [])) ys"
    and e: "ended (d (journal_path_for p))"
    by (auto simp: clean_def idle_def)
  have none: "arch = []" "live = []" "ys = []" using o None by (simp_all add: seg_holds_def)
  have j: "?d (journal_path_for p) = d (journal_path_for p)" by simp (metis names_apart(1))
  have "seg_holds H validate ?d (open_view p [] False) []"
    by (simp add: seg_holds_def check_open None file_of_def empty_file_def parse_events_located_def all_lines_def
        check_opening_def last_entry_def verify_chain_def)
  moreover have "base p ?d [] [] None" using b(1) j by (simp add: base_def none)
  moreover have "ended (?d p)" by (simp add: None file_of_def empty_file_def ended_def)
  moreover have "xs = []" using b(3) by (simp add: none)
  ultimately have "idle H validate p ?d h"
    unfolding idle_def by - (rule exI [of _ "[]"], rule exI [of _ "[]"], simp add: b(2) none)
  with e j show ?thesis by (simp add: clean_def)
qed

lemma tear_nothing: "clean H validate p d h \<Longrightarrow> clean H validate p (tear_append p NoBytes l d) h"
  using touched_clean [of H validate p d h] by (simp add: tear_append_def tear_onto_def file_of_def)

lemma garbage_stops: "Garbage \<in> set ls \<Longrightarrow> events_of_lines validate ls = None"
  by (induction validate ls rule: events_of_lines.induct) (auto split: option.split)

lemma half_line_file: "half_line H validate p d h \<Longrightarrow> \<exists>f. d p = Some f \<and> parse_events validate f = None"
  by (auto simp: half_line_def tear_append_def tear_onto_def tear_line_def parse_events_def all_lines_def
      intro!: garbage_stops)

lemma half_line_refused: "half_line H validate p d h \<Longrightarrow> recover validate p d = None"
  by (auto simp: recover_def open_events_def dest!: half_line_file)

lemma half_line_reads:
  assumes "half_line H validate p d h"
  shows "clean H validate p (without_tail p d) h"
proof -
  from assms obtain d0 where d0: "clean H validate p d0 h" "d = tear_append p SomeBytes Garbage d0"
    by (auto simp: half_line_def)
  have "tf_tail (file_of (d0 p)) = None" using d0(1) by (auto simp: clean_def idle_def ended_def)
  then have "without_tail p d = d0(p \<mapsto> file_of (d0 p))"
    by (simp add: d0(2) without_tail_def tear_append_def tear_onto_def tear_line_def drop_tail_def file_of_def fun_eq_iff
        split: option.splits)
  with touched_clean [OF d0(1)] show ?thesis by simp
qed

text \<open>The reader reports the line: the walk stops at it.\<close>

lemma walk_bad:
  assumes "(seg, Some es, Some k) \<in> set rs"
  shows "snd (walk_segments H n rs) \<noteq> None"
  using assms
proof (induction H n rs rule: walk_segments.induct)
  case (3 H n seg' es' bad rest)
  then show ?case using check_segment_None(2) [of H seg' es' bad] by (auto split: option.split)
qed auto

lemma open_segment: "\<exists>seg \<in> set (ly_segs (layout_of p d)). sv_path seg = p"
  by (auto simp: layout_of_def resolve_layout_def single_view_def Let_def split: prod.split)

lemma whole_ledger: "\<not> ly_segmented (layout_of p d) \<Longrightarrow> \<exists>seg. ly_segs (layout_of p d) = [seg] \<and> sv_path seg = p"
  by (auto simp: layout_of_def resolve_layout_def single_view_def Let_def split: prod.splits if_splits)

lemma unparsed_reported:
  assumes "d p = Some f" and "parse_events validate f = None"
  shows "\<exists>v. verify_ledger H digest validate p d read_path = Some v \<and> \<not> st_ok v"
proof -
  obtain es bad where loc: "parse_events_located validate f = (es, bad)" by fastforce
  with assms(2) located_strict [of validate f es] obtain k where k: "bad = Some k" by (cases bad) auto
  have r: "read_segment validate d seg = (seg, Some es, Some k)" if "sv_path seg = p" for seg
    using that assms(1) loc k by (simp add: read_segment_def)
  let ?ly = "layout_of p d" and ?rs = "map (read_segment validate d) (ly_segs (layout_of p d))"
  have ver: "verify_ledger H digest validate p d read_path = verify_snapshot H digest validate d read_path ?ly ?rs"
    by (simp add: verify_ledger_def Let_def)
  show ?thesis
  proof (cases "ly_segmented ?ly")
    case True
    obtain seg where "seg \<in> set (ly_segs ?ly)" "sv_path seg = p" using open_segment by blast
    then have "(seg, Some es, Some k) \<in> set ?rs" using r by force
    from walk_bad [OF this, of H 0] True show ?thesis
      by (auto simp: ver verify_snapshot_def broken_at_def Let_def split: prod.splits option.splits)
  next
    case False
    then obtain seg where "ly_segs ?ly = [seg]" "sv_path seg = p" using whole_ledger by blast
    with False r show ?thesis
      by (auto simp: ver verify_snapshot_def verify_single_def Let_def split: bool.split)
  qed
qed

section \<open>Every run of the store\<close>

text \<open>
  A crash that leaves the whole of an event's line without its line break is the one nobody notices; it is
  treated apart, below. Every other crash is a step: after any write, or inside any write, an event's own
  line included.
\<close>

definition noticed :: "disk_write list \<Rightarrow> nat \<Rightarrow> tear option \<Rightarrow> bool" where
  "noticed ws k t = (t = Some AllButBreak \<longrightarrow> length ws \<le> k \<or> (case ws ! k of AppendOpen _ \<Rightarrow> False | _ \<Rightarrow> True))"

inductive ledger_step :: "(string \<Rightarrow> string) \<Rightarrow> validator \<Rightarrow> string \<Rightarrow> directory \<times> ledger_event list
    \<Rightarrow> directory \<times> ledger_event list \<Rightarrow> bool" for H validate p where
  appended: "append_writes H validate cr cfg pol p d c served w q = (ws, Inr (e, c')) \<Longrightarrow> coherent validate p d c
    \<Longrightarrow> finite_payload (aq_payload q) \<Longrightarrow> ledger_step H validate p (d, acked) (apply_writes p ws d, acked @ [e])"
| append_stopped: "append_writes H validate cr cfg pol p d c served w q = (ws, r) \<Longrightarrow> coherent validate p d c
    \<Longrightarrow> finite_payload (aq_payload q) \<Longrightarrow> noticed ws k t \<Longrightarrow> ledger_step H validate p (d, acked) (crash_at p ws k t d, acked)"
| rotated: "rotate_writes H validate cr cfg anchor_sig p d c renames q = (ws, Inr rp) \<Longrightarrow> coherent validate p d c
    \<Longrightarrow> outside_payload (rq_fields q) \<Longrightarrow> ledger_step H validate p (d, acked) (apply_writes p ws d, acked @ [rp_event rp])"
| rotate_stopped: "rotate_writes H validate cr cfg anchor_sig p d c renames q = (ws, r) \<Longrightarrow> coherent validate p d c
    \<Longrightarrow> outside_payload (rq_fields q) \<Longrightarrow> ledger_step H validate p (d, acked) (crash_at p ws k t d, acked)"
| repair_stopped: "recover validate p d \<noteq> None \<Longrightarrow> reconcile_writes validate now p d = (ws, r)
    \<Longrightarrow> ledger_step H validate p (d, acked) (crash_at p ws k t d, acked)"

lemma append_writes_cases:
  assumes "append_writes H validate cr cfg pol p d c served w q = (ws, r)"
    and "ensure_fresh validate (aw_clock w) p d c = (vs, Inr c')"
  shows "ws = [] \<and> (\<exists>x. r = Inl x) \<or> ws = vs \<and> (\<exists>x. r = Inl x)
    \<or> (\<exists>e. ws = vs @ [AppendOpen e] \<and> r = Inr (e, cache_append p (apply_writes p vs d) e c') \<and> continues H (wc_head c') e
        \<and> storable e = finite_payload (aq_payload q))"
proof -
  have built: "continues H head e \<and> storable e = finite_payload (aq_payload q)"
    if "build_event H cr cfg w q st head = Inr (Some e)" for st head e
  proof -
    let ?m = "make_event H (aw_fresh w) (aw_clock w) (aq_type q) (aq_payload q) head (aq_agent q) None None"
    obtain m' where m': "stamp_event H ?m st = Some m'" "fresh_on H head m'" "payload m' = payload ?m"
      by (rule stamp_event_Some [OF made_fresh])
    then have "seal H (cr_sign cr) cfg m' = Inr (Some e)" using that by (simp add: build_event_def)
    moreover have "payload ?m = (case aq_payload q of None \<Rightarrow> [] | Some d \<Rightarrow> d)" by (simp add: make_event_def Let_def)
    ultimately show ?thesis
      by (rule_tac seal_cases [OF m'(2)]) (auto simp: continues_def storable_def finite_payload_def m'(3) split: option.splits)
  qed
  show ?thesis
    using assms built
    by (auto simp: append_writes_def split: sum.splits option.splits)
qed

lemma rotate_writes_cases:
  assumes "rotate_writes H validate cr cfg anchor_sig p d c renames q = (ws, r)"
    and "ensure_fresh validate (rq_now q) p d c = (vs, Inr c')"
  shows "ws = [] \<and> (\<exists>x. r = Inl x) \<or> ws = vs \<and> (\<exists>x. r = Inl x)
    \<or> (\<exists>pem rp. plan_rotation H cr cfg anchor_sig p (apply_writes p vs d) c' pem q = Inr rp
        \<and> (ws = vs @ rotation_writes (rq_now q) rp \<and> r = Inr rp \<or> ws = vs @ refused_writes (rq_now q) rp \<and> r = Inl LedgerBusy))"
proof (cases "rq_key q")
  case (Some pem)
  let ?plan = "plan_rotation H cr cfg anchor_sig p (apply_writes p vs d) c' pem q"
  have "(\<exists>x. rotate_writes H validate cr cfg anchor_sig p d c renames q = ([], Inl x))
    \<or> rotate_writes H validate cr cfg anchor_sig p d c renames q = (case ?plan of Inl x \<Rightarrow> (vs, Inl x)
        | Inr rp \<Rightarrow> if \<not> renames then (vs @ refused_writes (rq_now q) rp, Inl LedgerBusy)
            else (vs @ rotation_writes (rq_now q) rp, Inr rp))"
    using assms(2) Some by (cases "require_appendable cfg ROTATION_EVENT_TYPE") (simp_all add: rotate_writes_def)
  then show ?thesis
  proof (elim disjE exE)
    assume "rotate_writes H validate cr cfg anchor_sig p d c renames q = (case ?plan of Inl x \<Rightarrow> (vs, Inl x)
        | Inr rp \<Rightarrow> if \<not> renames then (vs @ refused_writes (rq_now q) rp, Inl LedgerBusy)
            else (vs @ rotation_writes (rq_now q) rp, Inr rp))"
    then show ?thesis using assms(1) by (cases ?plan) (auto split: if_splits)
  qed (use assms(1) in simp)
qed (use assms in \<open>auto simp: rotate_writes_def\<close>)

definition survives :: "(string \<Rightarrow> string) \<Rightarrow> validator \<Rightarrow> string \<Rightarrow> ledger_event list \<Rightarrow> directory \<Rightarrow> bool" where
  "survives H validate p h d = (\<exists>h'. (recoverable H validate p d h' \<or> half_line H validate p d h') \<and> prefix h h')"

lemma grown_survives: "grown H validate p h d \<Longrightarrow> h0 = h \<or> (\<exists>rot. h = h0 @ [rot]) \<Longrightarrow> survives H validate p h0 d"
  by (auto simp: grown_def survives_def)

lemma clean_survives: "clean H validate p d h \<Longrightarrow> prefix h0 h \<Longrightarrow> survives H validate p h0 d"
  by (auto simp: survives_def dest: clean_recoverable)

lemma recoverable_survives: "recoverable H validate p d h \<Longrightarrow> prefix h0 h \<Longrightarrow> survives H validate p h0 d"
  by (auto simp: survives_def)

lemma refused_crashes:
  assumes "fitting_plan H validate p d rp h"
  shows "all_crashes (\<lambda>d. recoverable H validate p d h) p (refused_writes now rp) d"
proof -
  define d1 where "d1 = apply_write p (AppendJournal (rp_intent rp)) d"
  define d2 where "d2 = apply_write p (WriteTmp (rp_event rp)) d1"
  let ?abort = "abort_record (en_n (rp_entry rp)) now RENAME_REFUSED"
  define d3 where "d3 = apply_write p (AppendJournal ?abort) d2"
  define d4 where "d4 = apply_write p RemoveTmp d3"
  note p1 = intent_planned(1,2) [OF assms d1_def]
  have q: "quiet p d1 d2" "quiet p d3 d4" unfolding d2_def d4_def by (rule quiet_writes)+
  have "ended (d2 (journal_path_for p))" using p1(2) names_apart(3) [of p] by (simp add: d2_def)
  note aborts = planned_aborts(1) [OF quiet_planned [OF q(1) p1(1)] this, of now RENAME_REFUSED, folded d3_def]
  have phases: "recoverable H validate p d h" "recoverable H validate p d1 h" "recoverable H validate p d2 h"
    "recoverable H validate p d3 h" "recoverable H validate p d4 h"
    using fitting_idle [OF assms] p1(1) quiet_planned [OF q(1) p1(1)] aborts quiet_idle [OF q(2) aborts]
    by (auto simp: recoverable_def)
  note torn = quiet_recoverable [OF quiet_writes(4) phases(1)] quiet_recoverable [OF quiet_writes(5) phases(2)]
    quiet_recoverable [OF quiet_writes(4) phases(3)]
  show ?thesis
    unfolding refused_writes_def all_crashes.simps
    unfolding d1_def [symmetric] d2_def [symmetric] d3_def [symmetric] d4_def [symmetric]
    using phases torn by (intro conjI allI) simp_all
qed

text \<open>Whatever an append stops in, and what it leaves when it answers.\<close>

lemma append_crash:
  assumes "clean H validate p (apply_writes p ws d) h" and "noticed (ws @ [AppendOpen e]) k t" and "length ws \<le> k"
    and "clean H validate p (apply_writes p (ws @ [AppendOpen e]) d) (h @ [e])"
  shows "survives H validate p h (crash_at p (ws @ [AppendOpen e]) k t d)"
proof (cases "k = length ws")
  case True
  show ?thesis
  proof (cases t)
    case None
    with True clean_survives [OF assms(1)] show ?thesis by (simp add: crash_at_def)
  next
    case (Some x)
    then have at: "crash_at p (ws @ [AppendOpen e]) k t d = tear_append p x (event_line e) (apply_writes p ws d)"
      using True by (simp add: crash_at_def)
    show ?thesis unfolding at
      using Some True assms(2) clean_survives [OF tear_nothing [OF assms(1)]] tear_half [OF assms(1)]
      by (cases x) (auto simp: noticed_def survives_def)
  qed
next
  case False
  with assms(3) have "crash_at p (ws @ [AppendOpen e]) k t d = apply_writes p (ws @ [AppendOpen e]) d"
    by (cases t) (simp_all add: crash_at_def)
  with clean_survives [OF assms(4)] show ?thesis by simp
qed

lemma crash_before: "k < length ws \<Longrightarrow> crash_at p (ws @ vs) k t d = crash_at p ws k t d"
  by (cases t) (simp_all add: crash_at_def nth_append)

lemma survives_prefix: "survives H validate p h d \<Longrightarrow> prefix h0 h \<Longrightarrow> survives H validate p h0 d"
  by (auto simp: survives_def intro: prefix_order.trans)

lemma append_keeps:
  assumes codec: "codec H validate" and rec: "recoverable H validate p d h" and coh: "coherent validate p d c"
    and op: "append_writes H validate cr cfg pol p d c served w q = (ws, r)" and fin: "finite_payload (aq_payload q)"
  shows "noticed ws k t \<Longrightarrow> survives H validate p h (crash_at p ws k t d)"
    "r = Inr (e, c') \<Longrightarrow> \<exists>h'. prefix h h' \<and> clean H validate p (apply_writes p ws d) (h' @ [e])
      \<and> recover validate p (apply_writes p ws d) = Some c'"
proof -
  obtain vs c1 h1 where fresh: "ensure_fresh validate (aw_clock w) p d c = (vs, Inr c1)" "all_crashes (grown H validate p h) p vs d"
    "clean H validate p (apply_writes p vs d) h1" "recover validate p (apply_writes p vs d) = Some c1" "h1 = h \<or> (\<exists>rot. h1 = h @ [rot])"
    by (rule ensure_fresh_clean [OF codec rec coh])
  have crash: "survives H validate p h (crash_at p vs k t d)" for k t
    by (rule grown_survives [OF all_crashes_at [OF fresh(2)]]) simp
  have pre: "prefix h h1" using fresh(5) by auto
  have full: "clean H validate p (apply_writes p (vs @ [AppendOpen e]) d) (h1 @ [e])
      \<and> recover validate p (apply_writes p (vs @ [AppendOpen e]) d) = Some (cache_append p (apply_writes p vs d) e c1)"
    if "continues H (wc_head c1) e" "storable e" for e
    using append_clean [OF codec fresh(3,4) that refl] by (simp add: apply_writes_def)
  note cases = append_writes_cases [OF op fresh(1)]
  show "survives H validate p h (crash_at p ws k t d)" if "noticed ws k t"
    using cases
  proof (elim disjE exE conjE)
    assume "ws = []"
    then show ?thesis using recoverable_survives [OF rec] by (simp add: crash_at_def apply_writes_def split: option.split)
  next
    assume "ws = vs"
    then show ?thesis using crash by simp
  next
    fix e assume e: "ws = vs @ [AppendOpen e]" "continues H (wc_head c1) e" "storable e = finite_payload (aq_payload q)"
    show ?thesis
    proof (cases "k < length vs")
      case True
      with crash show ?thesis by (simp add: e(1) crash_before)
    next
      case False
      with append_crash [OF fresh(3) that [unfolded e(1)]] full [OF e(2)] e(3) fin survives_prefix [OF _ pre]
      show ?thesis by (simp add: e(1))
    qed
  qed
  show "\<exists>h'. prefix h h' \<and> clean H validate p (apply_writes p ws d) (h' @ [e]) \<and> recover validate p (apply_writes p ws d) = Some c'"
    if "r = Inr (e, c')"
    using cases that full pre fin by auto
qed

text \<open>After half an event's line every operation is refused, and writes nothing.\<close>

lemma half_line_unfresh:
  assumes "half_line H validate p d h" and "coherent validate p d c"
  shows "ensure_fresh validate now p d c = ([], Inl LedgerCorrupt)"
  using assms half_line_refused [OF assms(1)] by (auto simp: ensure_fresh_def coherent_def)

lemma half_line_stuck:
  assumes "half_line H validate p d h" and "coherent validate p d c"
  shows "append_writes H validate cr cfg pol p d c served w q = (ws, r) \<Longrightarrow> ws = [] \<and> (\<exists>x. r = Inl x)"
    "rotate_writes H validate cr cfg anchor_sig p d c renames rq = (ws, r') \<Longrightarrow> ws = [] \<and> (\<exists>x. r' = Inl x)"
  using half_line_unfresh [OF assms]
  by (auto simp: append_writes_def rotate_writes_def split: sum.splits option.splits if_splits)

lemma rotate_keeps:
  assumes codec: "codec H validate" and "CHR ''/'' \<notin> set p" and rec: "recoverable H validate p d h" and coh: "coherent validate p d c"
    and out: "outside_payload (rq_fields q)"
    and op: "rotate_writes H validate cr cfg anchor_sig p d c renames q = (ws, r)"
  shows "survives H validate p h (crash_at p ws k t d)"
    "r = Inr rp \<Longrightarrow> \<exists>h'. prefix h h' \<and> clean H validate p (apply_writes p ws d) (h' @ [rp_event rp])"
proof -
  obtain vs c1 h1 where fresh: "ensure_fresh validate (rq_now q) p d c = (vs, Inr c1)" "all_crashes (grown H validate p h) p vs d"
    "clean H validate p (apply_writes p vs d) h1" "recover validate p (apply_writes p vs d) = Some c1" "h1 = h \<or> (\<exists>rot. h1 = h @ [rot])"
    by (rule ensure_fresh_clean [OF codec rec coh])
  have repair: "all_crashes (survives H validate p h) p vs d"
    by (rule all_crashes_mono [OF fresh(2)]) (simp add: grown_survives)
  have pre: "prefix h h1" using fresh(5) by auto
  note fits = plan_rotation_fits [OF codec fresh(3,4) _ assms(2) out]
  have more_crashes: "all_crashes (survives H validate p h) p (vs @ us) d"
    if "all_crashes Q p us (apply_writes p vs d)" and "\<And>d. Q d \<Longrightarrow> survives H validate p h1 d" for Q us
  proof -
    have "survives H validate p h d'" if "Q d'" for d'
      using \<open>Q d' \<Longrightarrow> survives H validate p h1 d'\<close> that pre by (auto simp: survives_def intro: prefix_order.trans)
    with all_crashes_mono [OF \<open>all_crashes Q p us (apply_writes p vs d)\<close>] repair show ?thesis
      by (simp add: all_crashes_append)
  qed
  note cases = rotate_writes_cases [OF op fresh(1)]
  show "survives H validate p h (crash_at p ws k t d)"
    using cases
  proof (elim disjE exE conjE)
    assume "ws = []"
    then show ?thesis using rec by (auto simp: survives_def crash_at_def apply_writes_def split: option.split)
  next
    assume "ws = vs"
    then show ?thesis using all_crashes_at [OF repair] by simp
  next
    fix pem rp assume rp: "plan_rotation H cr cfg anchor_sig p (apply_writes p vs d) c1 pem q = Inr rp" "ws = vs @ rotation_writes (rq_now q) rp"
    have "all_crashes (survives H validate p h) p ws d" unfolding rp(2)
      by (rule more_crashes [OF rotation_crashes(1) [OF codec fits [OF rp(1)]]]) (auto simp: survives_def dest!: kept_recoverable)
    then show ?thesis by (rule all_crashes_at)
  next
    fix pem rp assume rp: "plan_rotation H cr cfg anchor_sig p (apply_writes p vs d) c1 pem q = Inr rp" "ws = vs @ refused_writes (rq_now q) rp"
    have "all_crashes (survives H validate p h) p ws d" unfolding rp(2)
      by (rule more_crashes [OF refused_crashes [OF fits [OF rp(1)]]]) (auto simp: survives_def)
    then show ?thesis by (rule all_crashes_at)
  qed
  show "\<exists>h'. prefix h h' \<and> clean H validate p (apply_writes p ws d) (h' @ [rp_event rp])" if "r = Inr rp"
    using cases that pre rotation_crashes(2) [OF codec fits] by (auto simp: apply_writes_def)
qed

text \<open>What every run of the store keeps: a readable, repairable history that holds every acknowledged event.\<close>

fun ledger_inv :: "(string \<Rightarrow> string) \<Rightarrow> validator \<Rightarrow> string \<Rightarrow> directory \<times> ledger_event list \<Rightarrow> bool" where
  "ledger_inv H validate p (d, acked) = (codec H validate \<and> CHR ''/'' \<notin> set p
     \<and> (\<exists>h. (recoverable H validate p d h \<or> half_line H validate p d h) \<and> subseq acked h))"

lemma survives_inv:
  "survives H validate p h d \<Longrightarrow> subseq acked h \<Longrightarrow> \<exists>h'. (recoverable H validate p d h' \<or> half_line H validate p d h') \<and> subseq acked h'"
  unfolding survives_def by (meson prefix_imp_subseq subseq_order.trans)

lemma crash_nothing [simp]: "crash_at p [] k t d = d"
  by (simp add: crash_at_def apply_writes_def split: option.split)

lemma subseq_snoc: "subseq xs h \<Longrightarrow> prefix h h' \<Longrightarrow> subseq (xs @ [e]) (h' @ [e])"
  by (rule list_emb_append_mono) (meson prefix_imp_subseq subseq_order.trans, simp)

lemma recoverable_steps:
  assumes rec: "recoverable H validate p d h" "subseq acked h" and cp: "codec H validate" "CHR ''/'' \<notin> set p"
    and step: "ledger_step H validate p (d, acked) t"
  shows "ledger_inv H validate p t"
  using step
proof (cases rule: ledger_step.cases)
  case (appended cr cfg pol c served w q ws e c')
  from append_keeps(2) [OF cp(1) rec(1) appended(3,2,4) refl] obtain h' where "prefix h h'"
    "clean H validate p (apply_writes p ws d) (h' @ [e])" by blast
  then show ?thesis using cp appended(1) subseq_snoc [OF rec(2), of h' e] by (auto dest: clean_recoverable)
next
  case (append_stopped cr cfg pol c served w q ws r k t')
  from survives_inv [OF append_keeps(1) [OF cp(1) rec(1) append_stopped(3,2,4,5)] rec(2)] show ?thesis
    using cp append_stopped(1) by simp
next
  case (rotated cr cfg anchor_sig c renames q ws rp)
  from rotate_keeps(2) [OF cp(1,2) rec(1) rotated(3,4,2) refl] obtain h' where "prefix h h'"
    "clean H validate p (apply_writes p ws d) (h' @ [rp_event rp])" by blast
  then show ?thesis using cp rotated(1) subseq_snoc [OF rec(2), of h' "rp_event rp"] by (auto dest: clean_recoverable)
next
  case (rotate_stopped cr cfg anchor_sig c renames q ws r k t')
  from survives_inv [OF rotate_keeps(1) [OF cp(1,2) rec(1) rotate_stopped(3,4,2)] rec(2)] show ?thesis
    using cp rotate_stopped(1) by simp
next
  case (repair_stopped now ws r k t')
  obtain ws' r' h' where "reconcile_writes validate now p d = (ws', Inr r')" "all_crashes (grown H validate p h) p ws' d"
    "clean H validate p (apply_writes p ws' d) h'" "h' = h \<or> (\<exists>rot. h' = h @ [rot])"
    by (rule reconcile_recoverable [OF cp(1) rec(1)])
  then have "survives H validate p h (crash_at p ws k t' d)"
    using repair_stopped(3) by (auto intro: grown_survives [OF all_crashes_at])
  from survives_inv [OF this rec(2)] cp show ?thesis using repair_stopped(1) by simp
qed

lemma half_line_steps:
  assumes "half_line H validate p d h" and "ledger_step H validate p (d, acked) t"
  shows "t = (d, acked)"
  using assms(2)
proof (cases rule: ledger_step.cases)
  case repair_stopped
  with half_line_refused [OF assms(1)] show ?thesis by simp
qed (auto dest: half_line_stuck [OF assms(1)])

lemma inv_keeps:
  assumes inv: "ledger_inv H validate p s" and step: "ledger_step H validate p s t"
  shows "ledger_inv H validate p t"
proof -
  obtain d acked where s: "s = (d, acked)" by (cases s)
  from inv obtain h where h: "recoverable H validate p d h \<or> half_line H validate p d h" "subseq acked h"
    "codec H validate" "CHR ''/'' \<notin> set p" by (auto simp: s)
  from h(1) show ?thesis
  proof
    assume "recoverable H validate p d h"
    from recoverable_steps [OF this h(2-4) step [unfolded s]] show ?thesis .
  next
    assume "half_line H validate p d h"
    from half_line_steps [OF this step [unfolded s]] inv show ?thesis by (simp add: s)
  qed
qed

interpretation ledger_store: stepping "ledger_step H validate p" "ledger_inv H validate p"
  for H :: "string \<Rightarrow> string" and validate :: validator and p :: string
  by unfold_locales (rule inv_keeps)

lemma empty_recoverable: "recoverable H validate p Map.empty []"
proof -
  have "idle H validate p Map.empty []"
    unfolding idle_def
    by (rule exI [of _ "[]"], rule exI [of _ "[]"], rule exI [of _ "[]"], rule exI [of _ "[]"])
      (simp add: base_def journal_clean_def file_of_def empty_file_def seg_holds_def ended_def)
  then show ?thesis by (simp add: recoverable_def)
qed

lemma empty_inv:
  assumes "codec H validate" and "CHR ''/'' \<notin> set p"
  shows "ledger_inv H validate p (Map.empty, [])"
  using assms empty_recoverable by auto

text \<open>A readable ledger none of whose segments is archived verifies.\<close>

lemma readable_verifies:
  assumes r: "readable H validate p d h" and "ly_archived (layout_of p d) = []"
  shows "\<exists>v. verify_ledger H digest validate p d read_path = Some v \<and> st_ok v"
proof -
  define js where "js = parse_journal (d (journal_path_for p))"
  define ly where "ly = layout_of p d"
  define rs where "rs = map (read_segment validate d) (ly_segs ly)"
  have ly: "ly = resolve_layout p js (exists_in d)" by (simp add: ly_def layout_of_def js_def)
  have "filter archived (js_closed js) = []"
    using assms(2) closed_views_archived [of "js_closed js" None GENESIS_HASH]
    by (auto simp: ly_def [symmetric] ly resolve_layout_def Let_def journal_absent js_def split: if_splits prod.splits)
  then have live: "list_all (\<lambda>e. \<not> archived e) (js_closed js)" by (simp add: filter_empty_conv list_all_iff)
  have walk: "snd (walk_segments H 0 rs) = None" and err: "ly_error ly = None"
    using r by (simp_all add: readable_def reads_as_def rs_def ly_def)
  have ver: "verify_ledger H digest validate p d read_path = verify_snapshot H digest validate d read_path ly rs"
    by (simp add: verify_ledger_def rs_def ly_def Let_def)
  show ?thesis
  proof (cases "ly_segmented ly")
    case True
    then show ?thesis using walk err assms(2)
      by (cases "walk_segments H 0 rs") (auto simp: ver verify_snapshot_def Let_def ly_def)
  next
    case False
    have none: "js_closed js = [] @ js_closed js" "list_all archived []" by simp_all
    obtain E seg where shape: "ly_segs ly = entry_views (last_entry []) (end_head GENESIS_HASH []) E @ [seg]"
      "linked (1 + int (length ([] :: seg_entry list))) (end_start 0 []) (end_head GENESIS_HASH []) E"
      "sv_start seg = end_start (end_start 0 []) E" "sv_genesis seg = end_head (end_head GENESIS_HASH []) E"
      "\<not> sv_closed seg" "sv_path seg = p" "ly_archived ly = []" "ly_error ly = js_error js" "ly_journal ly = js"
      "ly_segmented ly \<or> E = [] \<and> [] = ([] :: seg_entry list)"
      "sv_first seg = map_option rot_hash (if E = [] then last_entry [] else Some (last E))"
      "sv_pred seg = (if E = [] then last_entry [] else Some (last E))"
      "sv_must_exist seg \<and> E = js_closed js \<or> (\<exists>e. E = js_closed js @ [e]) \<or> E = [] \<and> [] = ([] :: seg_entry list) \<and> js_closed js = []"
      by (rule layout_shape [OF js_def none live ly]) (rule that)
    then have one: "ly_segs ly = [seg]" "sv_genesis seg = GENESIS_HASH" "sv_first seg = None"
      using False by (simp_all add: last_entry_def)
    have "st_ok (verify_single H rs)"
    proof (cases "d p")
      case None
      then show ?thesis by (simp add: rs_def one read_segment_def shape(6) verify_single_def seg_events_def verify_chain_def)
    next
      case (Some f)
      obtain xs bad where loc: "parse_events_located validate f = (xs, bad)" by fastforce
      have "check_segment H seg xs bad = None"
        using walk by (auto simp: rs_def one read_segment_def shape(6) Some loc split: option.splits)
      note ok = check_segment_None [OF this]
      then show ?thesis
        by (simp add: rs_def one read_segment_def shape(6) Some loc verify_single_def seg_events_def Let_def)
    qed
    then show ?thesis using False by (simp add: ver verify_snapshot_def)
  qed
qed

lemma clean_not_pending:
  assumes "codec H validate" and "clean H validate p d h" and "recover validate p d = Some c"
  shows "\<not> wc_pending c"
proof -
  obtain cs where "journal_clean (d (journal_path_for p)) cs None" using assms(2) idle_clean [of H validate p d h] by (auto simp: clean_def)
  then show ?thesis using recover_fields(2) [OF assms(3)] assms(2) by (auto simp: clean_def ended_def journal_clean_parse journal_whole)
qed

lemma append_head: "append_writes H validate cr cfg pol p d c served w q = (ws, Inr (e, c')) \<Longrightarrow> wc_head c' = ev_hash e"
  by (auto simp: append_writes_def cache_append_def split: sum.splits option.splits prod.splits)

section \<open>What the store promises\<close>

text \<open>C22: No acknowledged event is ever lost: take any run of appends (of payloads without NaN or infinity),
  rotations and repairs by any writers on one directory, each finished or stopped by a crash, between any two
  of its writes or inside one of them, with one exception: the crash that leaves an appended event's whole line
  without its line break (C26 says what that one does). Then either a reader sees an unbroken chain that holds
  every acknowledged event in order, and \<open>verify\<close> answers ok as long as no segment is archived; or the crash
  was inside an appended event's line: then \<open>verify\<close> reports it, and without that half line the reader sees
  such a chain.\<close>

theorem acknowledged_events_survive:
  assumes "codec H validate" and "CHR ''/'' \<notin> set p"
    and "(ledger_step H validate p)\<^sup>*\<^sup>* (Map.empty, []) (d, acked)"
  shows "\<exists>h. subseq acked h \<and>
    (readable H validate p d h
       \<and> (ly_archived (layout_of p d) = [] \<longrightarrow> (\<exists>v. verify_ledger H digest validate p d read_path = Some v \<and> st_ok v))
     \<or> half_line H validate p d h \<and> readable H validate p (without_tail p d) h
       \<and> (\<exists>v. verify_ledger H digest validate p d read_path = Some v \<and> \<not> st_ok v))"
proof -
  from ledger_store.reach_keeps [OF assms(3) empty_inv [OF assms(1,2)]]
  obtain h where h: "recoverable H validate p d h \<or> half_line H validate p d h" "subseq acked h" by auto
  from h(1) show ?thesis
  proof
    assume "recoverable H validate p d h"
    then have "readable H validate p d h" by (rule recoverable_readable [OF assms(1)])
    with h(2) readable_verifies show ?thesis by blast
  next
    assume half: "half_line H validate p d h"
    have "readable H validate p (without_tail p d) h"
      by (rule recoverable_readable [OF assms(1) clean_recoverable [OF half_line_reads [OF half]]])
    with half h(2) half_line_file [OF half] unparsed_reported show ?thesis by blast
  qed
qed

lemma reachable_phase:
  assumes "codec H validate" and "CHR ''/'' \<notin> set p" and "(ledger_step H validate p)\<^sup>*\<^sup>* (Map.empty, []) (d, acked)"
  obtains h where "recoverable H validate p d h" "subseq acked h" | h where "half_line H validate p d h" "subseq acked h"
  using ledger_store.reach_keeps [OF assms(3) empty_inv [OF assms(1,2)]] by auto

text \<open>C23: A repair ends, with nothing pending, in every state such a run can leave (the runs and crashes of C22)
  unless the open segment ends in half an event's line: \<open>reconcile\<close> finishes or undoes the interrupted
  rotation; afterwards the journal has no pending intent and no torn tail, and the history is the one a reader
  saw before, or that one and the rotation event. After half an event's line \<open>reconcile\<close> raises and changes
  nothing, and every acknowledged event is in the lines before it.\<close>

theorem repair_always_ends:
  assumes "codec H validate" and "CHR ''/'' \<notin> set p"
    and "(ledger_step H validate p)\<^sup>*\<^sup>* (Map.empty, []) (d, acked)"
  shows "(\<exists>d' c r h h'. reconcile validate now p d = (d', Inr (c, r)) \<and> \<not> wc_pending c \<and> readable H validate p d h
      \<and> readable H validate p d' h' \<and> (h' = h \<or> (\<exists>rot. h' = h @ [rot])))
    \<or> (\<exists>h. half_line H validate p d h \<and> reconcile validate now p d = (d, Inl EventInvalid)
      \<and> readable H validate p (without_tail p d) h \<and> subseq acked h)"
  using assms
proof (cases rule: reachable_phase)
  case (1 h)
  note h = 1(1)
  obtain ws r h' where ws: "reconcile_writes validate now p d = (ws, Inr r)" "all_crashes (grown H validate p h) p ws d"
    "clean H validate p (apply_writes p ws d) h'" "h' = h \<or> (\<exists>rot. h' = h @ [rot])"
    by (rule reconcile_recoverable [OF assms(1) h])
  obtain c where c: "recover validate p (apply_writes p ws d) = Some c"
    using recover_exists [OF assms(1) clean_recoverable [OF ws(3)]] by blast
  have "reconcile validate now p d = (apply_writes p ws d, Inr (c, r))"
    using recover_exists [OF assms(1) h] by (auto simp: reconcile_def ws(1) c Let_def)
  moreover have "\<not> wc_pending c" using clean_not_pending [OF assms(1) ws(3) c] .
  ultimately show ?thesis
    using recoverable_readable [OF assms(1) h] recoverable_readable [OF assms(1) clean_recoverable [OF ws(3)]] ws(4) by blast
next
  case (2 h)
  have "reconcile validate now p d = (d, Inl EventInvalid)" by (simp add: reconcile_def half_line_refused [OF 2(1)])
  with 2 recoverable_readable [OF assms(1) clean_recoverable [OF half_line_reads [OF 2(1)]]] show ?thesis by blast
qed

text \<open>C24: A rotation is all or nothing for a reader: planned on the fresh cache of a ledger with nothing pending and
  stopped at any of its five writes, torn or not, it leaves a chain that reads as the history before it or
  as that history and the rotation event, and completed it leaves the latter with nothing pending.\<close>

theorem rotation_is_atomic:
  assumes "codec H validate" and "CHR ''/'' \<notin> set p" and "recoverable H validate p d h"
    and "recover validate p d = Some c" and "\<not> wc_pending c" and "outside_payload (rq_fields q)"
    and "plan_rotation H cr cfg anchor_sig p d c pem q = Inr rp"
  shows "(readable H validate p (crash_at p (rotation_writes now rp) k t d) h
      \<or> readable H validate p (crash_at p (rotation_writes now rp) k t d) (h @ [rp_event rp]))
    \<and> clean H validate p (apply_writes p (rotation_writes now rp) d) (h @ [rp_event rp])"
proof -
  note clean = nothing_pending_clean [OF assms(3-5)]
  note fit = plan_rotation_fits [OF assms(1) clean assms(4,7,2,6)]
  from kept_recoverable [OF all_crashes_at [OF rotation_crashes(1) [OF assms(1) fit]]] rotation_crashes(2) [OF assms(1) fit]
  show ?thesis using recoverable_readable [OF assms(1)] by blast
qed

text \<open>C25: Appending is appending to the log: on a directory any run can leave (the runs and crashes of C22: not after
  an event's line without its line break), an append of a payload without NaN or infinity that answers an event
  leaves the history it found (or that one and the event of a rotation it had to finish) and the event at the
  end, and the cache it keeps without reading is what a full recovery would read.\<close>

theorem append_refines_log:
  assumes "codec H validate" and "CHR ''/'' \<notin> set p"
    and "(ledger_step H validate p)\<^sup>*\<^sup>* (Map.empty, []) (d, acked)" and "coherent validate p d c"
    and "append_writes H validate cr cfg pol p d c served w q = (ws, Inr (e, c'))" and "finite_payload (aq_payload q)"
  shows "\<exists>h h'. readable H validate p d h \<and> subseq acked h \<and> prefix h h'
    \<and> readable H validate p (apply_writes p ws d) (h' @ [e])
    \<and> recover validate p (apply_writes p ws d) = Some c' \<and> wc_head c' = ev_hash e \<and> \<not> wc_pending c'"
  using assms(1-3)
proof (cases rule: reachable_phase)
  case (1 h)
  from append_keeps(2) [OF assms(1) 1(1) assms(4-6) refl] obtain h' where h': "prefix h h'"
    "clean H validate p (apply_writes p ws d) (h' @ [e])" "recover validate p (apply_writes p ws d) = Some c'" by blast
  moreover have "wc_head c' = ev_hash e" by (rule append_head [OF assms(5)])
  ultimately show ?thesis
    using recoverable_readable [OF assms(1) 1(1)] recoverable_readable [OF assms(1) clean_recoverable [OF h'(2)]]
      clean_not_pending [OF assms(1) h'(2,3)] 1(2) by blast
next
  case (2 h)
  from half_line_stuck(1) [OF 2(1) assms(4,5)] show ?thesis by simp
qed

section \<open>An event's line without its line break\<close>

lemma unterminated_reads:
  assumes "codec H validate" and "clean H validate p d h" and "recover validate p d = Some c"
    and "continues H (wc_head c) e" and "storable e" and "d' = torn_write p AllButBreak (AppendOpen e) d"
  shows "readable H validate p d' (h @ [e]) \<and> (\<exists>c'. recover validate p d' = Some c' \<and> \<not> wc_pending c')
    \<and> (\<exists>l ls. d' p = Some \<lparr>tf_lines = ls, tf_tail = Some (Doc l)\<rparr>)"
proof -
  have idle: "idle H validate p d h" using assms(2) by (simp add: clean_def)
  obtain arch live xs ys where b: "base p d arch live None" "live_hold H validate d arch live xs"
    "seg_holds H validate d (open_view p (arch @ live) (arch @ live \<noteq> [])) ys" "ended (d p)" "h = xs @ ys"
    and fields: "wc_head c = open_head (arch @ live) ys" "wc_len c = next_start (arch @ live) + int (length ys)"
    "wc_start c = next_start (arch @ live)" "wc_next c = next_n (arch @ live)" "wc_closed_head c = next_genesis (arch @ live)"
    "wc_key c = disk_key p d" "wc_pending c = (\<not> ended (d (journal_path_for p)))" by (rule idle_head [OF assms(1) idle assms(3)])
  note whole = append_at [OF assms(1) b(1-4) assms(4) [unfolded fields(1)] assms(5) refl]
  let ?f = "file_of (d p)" and ?v = "open_view p (arch @ live) (arch @ live \<noteq> [])"
  have tail: "tf_tail ?f = None" using b(4) by (simp add: ended_def)
  have at: "d' p = Some (?f\<lparr>tf_tail := Some (event_line e)\<rparr>)" "\<And>n. n \<noteq> p \<Longrightarrow> d' n = d n"
    using tail by (simp_all add: assms(6) tear_append_def tear_onto_def file_of_def)
  have j: "d' (journal_path_for p) = d (journal_path_for p)" by (rule at(2)) (metis names_apart(1))
  have base: "base p d' arch live None" using b(1) j by (simp add: base_def)
  have "entries_hold H validate d' prev g live = entries_hold H validate d prev g live" for prev g
    by (rule entries_hold_cong, rule at(2)) (use base_named(1) [OF b(1)] names_apart(4) in metis)
  then have hold: "live_hold H validate d' arch live xs" using b(2) by simp
  have "seg_holds H validate d' ?v = seg_holds H validate (apply_write p (AppendOpen e) d) ?v"
    using tail by (simp add: seg_holds_def fun_eq_iff at(1) append_line_at parse_events_located_def all_lines_def add_line_def)
  then have opn: "seg_holds H validate d' ?v (ys @ [e])" using whole(3) by simp
  have "readable H validate p d' (xs @ (ys @ [e]))"
    using base_readable [OF base refl, of H validate xs "ys @ [e]"] hold opn by (simp add: renamed_entries_def open_must_def)
  moreover have "recover validate p d' = Some (cache_of p d' (arch @ live) (ys @ [e]))"
    by (rule recover_idle [OF assms(1) base hold opn])
  moreover have "\<not> wc_pending (cache_of p d' (arch @ live) (ys @ [e]))"
    using assms(2) by (simp add: cache_of_def clean_def j)
  moreover have "\<exists>l ls. d' p = Some \<lparr>tf_lines = ls, tf_tail = Some (Doc l)\<rparr>"
    by (cases ?f) (simp add: at(1) event_line_def)
  ultimately show ?thesis using b(5) by simp
qed

text \<open>The joined line, and every line appended behind it, leave the segment unparsed.\<close>

definition spoilt :: "string \<Rightarrow> directory \<Rightarrow> bool" where
  "spoilt p d = (\<exists>f. d p = Some f \<and> Garbage \<in> set (tf_lines f))"

lemma spoilt_unparsed: "spoilt p d \<Longrightarrow> \<exists>f. d p = Some f \<and> parse_events validate f = None"
  unfolding spoilt_def parse_events_def by (auto simp: all_lines_def intro!: garbage_stops)

lemma spoilt_refused: "spoilt p d \<Longrightarrow> recover validate p d = None"
  using spoilt_unparsed [of p d validate] by (auto simp: recover_def open_events_def)

lemma spoilt_stays: "spoilt p d \<Longrightarrow> spoilt p (apply_write p (AppendOpen e) d)"
  by (auto simp: spoilt_def append_line_def add_line_def split: option.split)

lemma joined_spoilt: "d p = Some \<lparr>tf_lines = ls, tf_tail = Some (Doc l)\<rparr> \<Longrightarrow> spoilt p (apply_write p (AppendOpen e) d)"
  by (auto simp: spoilt_def append_line_def add_line_def join_line_def event_line_def)

lemma build_some:
  assumes "append_checks cr cfg pol served w q = Inr st"
  shows "\<exists>e. build_event H cr cfg w q st head = Inr (Some e)"
proof (rule build_event_total)
  show "require_appendable cfg (aq_type q) = Inr ()"
    using assms by (auto simp: append_checks_def bindE_Inr_iff)
qed

text \<open>C26: An append whose write stopped just before its line break goes unnoticed and then ruins the segment. The
  event is read as written (the chain is unbroken and a recovery has nothing pending), so the next append that
  passes its checks is answered; its line joins the unterminated one on one line, and the open segment
  no longer parses: \<open>verify\<close> reports a break, and every writer whose cache is not the disk's, or that starts,
  is refused. The writer of that append is not: its cache has the disk's key, its next append is answered too, and
  the segment stays unreadable behind it.\<close>

theorem unterminated_line_ruins_segment:
  assumes "codec H validate" and "clean H validate p d h" and "recover validate p d = Some c"
    and "continues H (wc_head c) e" and "storable e" and "d' = torn_write p AllButBreak (AppendOpen e) d"
    and "append_checks cr cfg pol served w q = Inr st"
  shows "readable H validate p d' (h @ [e]) \<and>
    (\<exists>c' e2 c2 d2. recover validate p d' = Some c' \<and> \<not> wc_pending c'
      \<and> append_writes H validate cr cfg pol p d' c' served w q = ([AppendOpen e2], Inr (e2, c2))
      \<and> d2 = apply_write p (AppendOpen e2) d' \<and> recover validate p d2 = None
      \<and> (\<exists>v. verify_ledger H digest validate p d2 read_path = Some v \<and> \<not> st_ok v)
      \<and> (\<forall>c3. wc_key c3 \<noteq> disk_key p d2 \<longrightarrow> ensure_fresh validate now p d2 c3 = ([], Inl LedgerCorrupt))
      \<and> (\<exists>e3 c3. append_writes H validate cr cfg pol p d2 c2 served w q = ([AppendOpen e3], Inr (e3, c3))
           \<and> recover validate p (apply_write p (AppendOpen e3) d2) = None))"
proof -
  note reads = unterminated_reads [OF assms(1-6)]
  obtain c' l ls where c': "recover validate p d' = Some c'" "\<not> wc_pending c'"
    and tail: "d' p = Some \<lparr>tf_lines = ls, tf_tail = Some (Doc l)\<rparr>" using reads by blast
  have fresh: "ensure_fresh validate now' p dd cc = ([], Inr cc)" if "wc_key cc = disk_key p dd" "\<not> wc_pending cc" for now' dd cc
    using that by (simp add: ensure_fresh_def)
  have answers: "\<exists>x. append_writes H validate cr cfg pol p dd cc served w q = ([AppendOpen x], Inr (x, cache_append p dd x cc))"
    if "wc_key cc = disk_key p dd" "\<not> wc_pending cc" for dd cc
    using build_some [OF assms(7), of H "wc_head cc"] by (auto simp: append_writes_def assms(7) fresh [OF that] apply_writes_def)
  obtain e2 where e2: "append_writes H validate cr cfg pol p d' c' served w q = ([AppendOpen e2], Inr (e2, cache_append p d' e2 c'))"
    using answers [OF recover_fields(1) [OF c'(1)] c'(2)] by blast
  let ?d2 = "apply_write p (AppendOpen e2) d'" and ?c2 = "cache_append p d' e2 c'"
  have sp: "spoilt p ?d2" by (rule joined_spoilt, rule tail)
  have key: "wc_key ?c2 = disk_key p ?d2" "\<not> wc_pending ?c2"
    using c'(2) recover_fields(1) [OF c'(1)] names_apart(1) [of p]
    by (simp_all add: cache_append_def disk_key_def append_line_def)
  obtain e3 where e3: "append_writes H validate cr cfg pol p ?d2 ?c2 served w q = ([AppendOpen e3], Inr (e3, cache_append p ?d2 e3 ?c2))"
    using answers [OF key] by blast
  have others: "ensure_fresh validate now p ?d2 c3 = ([], Inl LedgerCorrupt)" if "wc_key c3 \<noteq> disk_key p ?d2" for c3
    using that spoilt_refused [OF sp, of validate] by (auto simp: ensure_fresh_def)
  have report: "\<exists>v. verify_ledger H digest validate p ?d2 read_path = Some v \<and> \<not> st_ok v"
    using spoilt_unparsed [OF sp] unparsed_reported by blast
  have last: "recover validate p (apply_write p (AppendOpen e3) ?d2) = None"
    by (rule spoilt_refused [OF spoilt_stays [OF sp]])
  show ?thesis
    by (intro conjI exI [of _ c'] exI [of _ e2] exI [of _ ?c2] exI [of _ ?d2] exI [of _ e3] exI [of _ "cache_append p ?d2 e3 ?c2"]
        allI impI c' e2 e3 refl spoilt_refused [OF sp] report others last conjunct1 [OF reads])
qed

section \<open>A number JSON cannot write\<close>

text \<open>
  The record that is read back from a line is the appended one with null for every NaN and infinity of
  its payload. Its hash was taken over the words, so unless the two hash alike the chain is broken at it,
  for good, though the append was answered.
\<close>

definition reread :: "ledger_event \<Rightarrow> ledger_event" where
  "reread e = e\<lparr>payload := map (\<lambda>(k, v). (k, written v)) (payload e)\<rparr>"

lemma reread_storable: "storable e \<Longrightarrow> reread e = e"
  using written_finite [of "JObj (payload e)"] by (simp add: reread_def storable_def)

lemma chain_refuses: "compute_event_hash H e \<noteq> ev_hash e \<Longrightarrow> \<not> cv_ok (verify_chain H (es @ [e]) g)"
  by (simp add: verify_chain_append verify_chain_def [of H "[e]"] Let_def)

lemma broken_open_reported:
  assumes "d p = Some f" and "parse_events_located validate f = (es, None)" and "\<And>g. \<not> cv_ok (verify_chain H es g)"
  shows "\<exists>v. verify_ledger H digest validate p d read_path = Some v \<and> \<not> st_ok v"
proof -
  have r: "read_segment validate d seg = (seg, Some es, None)" if "sv_path seg = p" for seg
    using that assms(1,2) by (simp add: read_segment_def)
  let ?ly = "layout_of p d" and ?rs = "map (read_segment validate d) (ly_segs (layout_of p d))"
  have ver: "verify_ledger H digest validate p d read_path = verify_snapshot H digest validate d read_path ?ly ?rs"
    by (simp add: verify_ledger_def Let_def)
  have stops: "snd (walk_segments H n rs) \<noteq> None" if "(seg, Some es, None) \<in> set rs" for n seg rs
    using that
  proof (induction rs arbitrary: n)
    case (Cons r rs)
    obtain seg' opened bad where r: "r = (seg', opened, bad)" by (cases r)
    show ?case
    proof (cases opened)
      case None
      with Cons r show ?thesis by auto
    next
      case (Some xs)
      with Cons r show ?thesis
        using check_segment_None(1) [of H seg' xs bad] assms(3) by (auto split: option.split)
    qed
  qed simp
  show ?thesis
  proof (cases "ly_segmented ?ly")
    case True
    obtain seg where "seg \<in> set (ly_segs ?ly)" "sv_path seg = p" using open_segment by blast
    then have "(seg, Some es, None) \<in> set ?rs" using r by force
    from stops [OF this, of 0] True show ?thesis
      by (auto simp: ver verify_snapshot_def broken_at_def Let_def split: prod.splits option.splits)
  next
    case False
    then obtain seg where "ly_segs ?ly = [seg]" "sv_path seg = p" using whole_ledger by blast
    with False r assms(3) show ?thesis
      by (auto simp: ver verify_snapshot_def verify_single_def seg_events_def Let_def)
  qed
qed

lemma nonfinite_payload_breaks_chain:
  assumes "codec H validate" and "clean H validate p d h"
    and "compute_event_hash H (reread e) \<noteq> ev_hash e"
  shows "\<exists>v. verify_ledger H digest validate p (apply_write p (AppendOpen e) d) read_path = Some v \<and> \<not> st_ok v"
proof -
  from assms(2) obtain arch live ys where o: "seg_holds H validate d (open_view p (arch @ live) (arch @ live \<noteq> [])) ys"
    and ends: "ended (d p)" by (auto simp: clean_def idle_def)
  have loc: "parse_events_located validate (file_of (d p)) = (ys, None)"
    using o by (cases "d p") (auto simp: seg_holds_def file_of_def empty_file_def parse_events_located_def all_lines_def)
  have "apply_write p (AppendOpen e) d p = Some (add_line (Doc (JObj (event_dump (reread e)))) (file_of (d p)))"
    by (simp add: append_line_at event_line_payload reread_def)
  moreover have "parse_events_located validate (add_line (Doc (JObj (event_dump (reread e)))) (file_of (d p))) = (ys @ [reread e], None)"
    using loc ends assms(1) by (simp add: ended_def located_lines add_line_def codec_def locate_append)
  moreover have "\<not> cv_ok (verify_chain H (ys @ [reread e]) g)" for g
    by (rule chain_refuses) (use assms(3) in \<open>simp add: reread_def\<close>)
  ultimately show ?thesis by (rule broken_open_reported)
qed

section \<open>A store in use\<close>

text \<open>A reader of dumped events, and one append to an empty directory.\<close>

definition opt_text :: "string \<Rightarrow> py_dict \<Rightarrow> string option" where
  "opt_text k d = (case map_of d k of Some (JStr s) \<Rightarrow> Some s | _ \<Rightarrow> None)"

definition opt_flag :: "string \<Rightarrow> py_dict \<Rightarrow> bool option" where
  "opt_flag k d = (case map_of d k of Some (JBool b) \<Rightarrow> Some b | _ \<Rightarrow> None)"

definition read_event :: validator where
  "read_event j = (case j of JObj d \<Rightarrow> Some \<lparr>event_id = str_at ''event_id'' d, ev_ts = str_at ''ts'' d,
      event_type = str_at ''event_type'' d, ev_agent_id = opt_text ''agent_id'' d, payload = dict_at ''payload'' d,
      prev_hash = str_at ''prev_hash'' d, ev_hash = str_at ''hash'' d, signature = opt_text ''signature'' d,
      signing_failed = opt_flag ''signing_failed'' d, caller_id = opt_text ''caller_id'' d, caller_ts = opt_text ''caller_ts'' d,
      caller_signature = opt_text ''caller_signature'' d, caller_unsigned = opt_flag ''caller_unsigned'' d\<rparr> | _ \<Rightarrow> None)"

lemma opt_item_lookup: "map_of (opt_item k x) k' = (if k' = k then x else None)"
  by (simp add: opt_item_def split: option.split)

lemma dump_texts:
  "map_of (event_dump e) ''signature'' = map_option JStr (signature e)" "map_of (event_dump e) ''caller_id'' = map_option JStr (caller_id e)"
  "map_of (event_dump e) ''caller_ts'' = map_option JStr (caller_ts e)"
  "map_of (event_dump e) ''caller_signature'' = map_option JStr (caller_signature e)"
  "map_of (event_dump e) ''signing_failed'' = map_option JBool (signing_failed e)"
  "map_of (event_dump e) ''caller_unsigned'' = map_option JBool (caller_unsigned e)"
  by (simp_all add: event_dump_def opt_item_lookup map_add_def split: option.split)

lemma dump_keys:
  "map_of (event_dump e) ''event_id'' = Some (JStr (event_id e))" "map_of (event_dump e) ''ts'' = Some (JStr (ev_ts e))"
  "map_of (event_dump e) ''event_type'' = Some (JStr (event_type e))" "map_of (event_dump e) ''payload'' = Some (JObj (payload e))"
  "map_of (event_dump e) ''prev_hash'' = Some (JStr (prev_hash e))" "map_of (event_dump e) ''hash'' = Some (JStr (ev_hash e))"
  "map_of (event_dump e) ''agent_id'' = Some (json_opt JStr (ev_agent_id e))"
  by (simp_all add: event_dump_def)

lemma opt_text_map: "map_of d k = map_option JStr x \<Longrightarrow> opt_text k d = x" "map_of d k = map_option JBool b \<Longrightarrow> opt_flag k d = b"
  "map_of d k = Some (json_opt JStr x) \<Longrightarrow> opt_text k d = x"
  by (auto simp: opt_text_def opt_flag_def json_opt_def split: option.split)

lemma read_event_dump: "read_event (JObj (event_dump e)) = Some e"
  by (simp add: read_event_def str_at_def dict_at_def dump_keys opt_text_map(1) [OF dump_texts(1)] opt_text_map(1) [OF dump_texts(2)]
      opt_text_map(1) [OF dump_texts(3)] opt_text_map(1) [OF dump_texts(4)] opt_text_map(2) [OF dump_texts(5)]
      opt_text_map(2) [OF dump_texts(6)] opt_text_map(3) [OF dump_keys(7)])

lemma sample_codec: "codec (\<lambda>b. ''h'') read_event"
  by (simp add: codec_def read_event_dump)

lemma append_succeeds:
  assumes "codec H validate" and "recoverable H validate p d h" and "coherent validate p d c"
    and "append_checks cr cfg pol served w q = Inr st"
  shows "\<exists>ws e c'. append_writes H validate cr cfg pol p d c served w q = (ws, Inr (e, c'))"
proof -
  obtain vs c1 h1 where fresh: "ensure_fresh validate (aw_clock w) p d c = (vs, Inr c1)"
    "all_crashes (grown H validate p h) p vs d" "clean H validate p (apply_writes p vs d) h1"
    "recover validate p (apply_writes p vs d) = Some c1" "h1 = h \<or> (\<exists>rot. h1 = h @ [rot])"
    by (rule ensure_fresh_clean [OF assms(1-3)])
  have "require_appendable cfg (aq_type q) = Inr ()"
    using assms(4) by (auto simp: append_checks_def bindE_Inr_iff)
  from build_event_total [OF this, of H cr w st "wc_head c1"] show ?thesis
    by (auto simp: append_writes_def assms(4) fresh(1))
qed

definition free_append :: "append_request" where
  "free_append = \<lparr>aq_type = ''x'', aq_payload = None, aq_agent = None, aq_claim = None\<rparr>"

definition free_config :: signing_config where
  "free_config = no_key\<lparr>sc_require := False\<rparr>"

lemma free_checks: "append_checks cr free_config pol False w free_append = Inr NoStamp"
  by (simp add: append_checks_def require_appendable_def free_config_def no_key_def appendable_def)

lemma plain_ledger_name: "CHR ''/'' \<notin> set ''audit.jsonl''" by simp

text \<open>One append to an empty directory, from the cache of a store that has just been opened.\<close>

lemma free_finite: "finite_payload (aq_payload free_append)"
  by (simp add: free_append_def finite_payload_def)

lemma sample_run:
  obtains c ws e c' where
    "recover read_event ''audit.jsonl'' Map.empty = Some c" "coherent read_event ''audit.jsonl'' Map.empty c"
    "append_writes (\<lambda>b. ''h'') read_event sample_crypto free_config sample_policy ''audit.jsonl'' Map.empty c False
      sample_append_world free_append = (ws, Inr (e, c'))"
    "(ledger_step (\<lambda>b. ''h'') read_event ''audit.jsonl'')\<^sup>*\<^sup>* (Map.empty, []) (apply_writes ''audit.jsonl'' ws Map.empty, [e])"
    "recover read_event ''audit.jsonl'' (apply_writes ''audit.jsonl'' ws Map.empty) = Some c'"
proof -
  note h = empty_recoverable [of "\<lambda>b. ''h''" read_event "''audit.jsonl''"]
  obtain c where c: "recover read_event ''audit.jsonl'' Map.empty = Some c"
    using recover_exists [OF sample_codec h] by blast
  note coh = recovered_coherent [OF c]
  obtain ws e c' where ws: "append_writes (\<lambda>b. ''h'') read_event sample_crypto free_config sample_policy ''audit.jsonl'' Map.empty c
      False sample_append_world free_append = (ws, Inr (e, c'))"
    using append_succeeds [OF sample_codec h coh free_checks] by blast
  from append_keeps(2) [OF sample_codec h coh ws free_finite refl]
  have "recover read_event ''audit.jsonl'' (apply_writes ''audit.jsonl'' ws Map.empty) = Some c'" by blast
  with ledger_step.appended [OF ws coh free_finite, of "[]"] show ?thesis by (intro that [OF c coh ws]) simp_all
qed

theorem acknowledged_events_survive_witness:
  "\<exists>d e h. (ledger_step (\<lambda>b. ''h'') read_event ''audit.jsonl'')\<^sup>*\<^sup>* (Map.empty, []) (d, [e])
    \<and> readable (\<lambda>b. ''h'') read_event ''audit.jsonl'' d h \<and> e \<in> set h"
proof -
  obtain ws e c' where run: "(ledger_step (\<lambda>b. ''h'') read_event ''audit.jsonl'')\<^sup>*\<^sup>* (Map.empty, []) (apply_writes ''audit.jsonl'' ws Map.empty, [e])"
    and c': "recover read_event ''audit.jsonl'' (apply_writes ''audit.jsonl'' ws Map.empty) = Some c'"
    by (rule sample_run)
  let ?d = "apply_writes ''audit.jsonl'' ws Map.empty"
  have no: "\<not> half_line (\<lambda>b. ''h'') read_event ''audit.jsonl'' ?d h" for h
    using c' half_line_refused [of "\<lambda>b. ''h''" read_event "''audit.jsonl''" ?d h] by auto
  obtain h where h: "subseq [e] h" "readable (\<lambda>b. ''h'') read_event ''audit.jsonl'' ?d h"
    using acknowledged_events_survive [OF sample_codec plain_ledger_name run, where digest = "\<lambda>_. []" and read_path = "\<lambda>_. None"] no
    by (elim exE conjE disjE) simp_all
  have "e \<in> set h" using h(1) by (simp add: subseq_singleton_left)
  with run h(2) show ?thesis by (intro exI conjI)
qed

theorem repair_always_ends_witness:
  "\<exists>d' c r. reconcile read_event ''now'' ''audit.jsonl'' Map.empty = (d', Inr (c, r)) \<and> \<not> wc_pending c"
proof -
  have no: "\<not> half_line (\<lambda>b. ''h'') read_event ''audit.jsonl'' Map.empty h" for h
    by (auto dest: half_line_file)
  from repair_always_ends [OF sample_codec plain_ledger_name rtranclp.rtrancl_refl] show ?thesis
  proof
    assume "\<exists>d' c r h h'. reconcile read_event ''now'' ''audit.jsonl'' Map.empty = (d', Inr (c, r)) \<and> \<not> wc_pending c
      \<and> readable (\<lambda>b. ''h'') read_event ''audit.jsonl'' Map.empty h \<and> readable (\<lambda>b. ''h'') read_event ''audit.jsonl'' d' h'
      \<and> (h' = h \<or> (\<exists>rot. h' = h @ [rot]))"
    then show ?thesis by (elim exE conjE) (intro exI conjI)
  qed (use no in blast)
qed

theorem append_refines_log_witness:
  "\<exists>c ws e c'. append_writes (\<lambda>b. ''h'') read_event sample_crypto free_config sample_policy ''audit.jsonl'' Map.empty c False
      sample_append_world free_append = (ws, Inr (e, c')) \<and> recover read_event ''audit.jsonl'' (apply_writes ''audit.jsonl'' ws Map.empty) = Some c'"
proof -
  obtain c ws e c' where run: "recover read_event ''audit.jsonl'' Map.empty = Some c" "coherent read_event ''audit.jsonl'' Map.empty c"
    "append_writes (\<lambda>b. ''h'') read_event sample_crypto free_config sample_policy ''audit.jsonl'' Map.empty c False
      sample_append_world free_append = (ws, Inr (e, c'))"
    by (rule sample_run)
  from append_refines_log [OF sample_codec plain_ledger_name rtranclp.rtrancl_refl run(2,3) free_finite]
  have "recover read_event ''audit.jsonl'' (apply_writes ''audit.jsonl'' ws Map.empty) = Some c'" by blast
  with run(3) show ?thesis by (intro exI conjI)
qed

text \<open>A directory with one event, and its rotation.\<close>

lemma sample_ledger:
  obtains d h c where "clean (\<lambda>b. ''h'') read_event ''audit.jsonl'' d h" "h \<noteq> []" "recover read_event ''audit.jsonl'' d = Some c"
    "\<not> wc_pending c" "wc_len c - wc_start c > 0" "d (closed_path_for ''audit.jsonl'' (wc_next c)) = None"
proof -
  note h0 = empty_recoverable [of "\<lambda>b. ''h''" read_event "''audit.jsonl''"]
  obtain c ws e c' where run: "recover read_event ''audit.jsonl'' Map.empty = Some c" "coherent read_event ''audit.jsonl'' Map.empty c"
    "append_writes (\<lambda>b. ''h'') read_event sample_crypto free_config sample_policy ''audit.jsonl'' Map.empty c False
      sample_append_world free_append = (ws, Inr (e, c'))"
    "(ledger_step (\<lambda>b. ''h'') read_event ''audit.jsonl'')\<^sup>*\<^sup>* (Map.empty, []) (apply_writes ''audit.jsonl'' ws Map.empty, [e])"
    by (rule sample_run)
  let ?d = "apply_writes ''audit.jsonl'' ws Map.empty"
  from append_keeps(2) [OF sample_codec h0 run(2,3) free_finite refl] obtain h' where h': "clean (\<lambda>b. ''h'') read_event ''audit.jsonl'' ?d (h' @ [e])"
    "recover read_event ''audit.jsonl'' ?d = Some c'" by blast
  have key: "disk_key ''audit.jsonl'' Map.empty = wc_key c" using recover_fields(1) [OF run(1)] by simp
  have "\<not> wc_pending c" using recover_fields(2) [OF run(1)] by (simp add: parse_journal_def)
  with key have "ensure_fresh read_event (aw_clock sample_append_world) ''audit.jsonl'' Map.empty c = ([], Inr c)"
    by (simp add: ensure_fresh_def)
  from append_writes_cases [OF run(3) this] have ws: "ws = [AppendOpen e]" "c' = cache_append ''audit.jsonl'' Map.empty e c"
    by (simp_all add: apply_writes_def)
  have c: "wc_len c = 0" "wc_start c = 0"
    using run(1) by (auto simp: recover_def open_events_def Let_def layout_of_def resolve_layout_def parse_journal_def single_view_def
        global_length_def grow_length_def)
  have "?d n = None" if "n \<noteq> ''audit.jsonl''" for n
    using that by (simp add: ws apply_writes_def append_line_def)
  then have "?d (closed_path_for ''audit.jsonl'' (wc_next c')) = None" using names_apart(4) by blast
  moreover have "wc_len c' - wc_start c' > 0" by (simp add: ws(2) cache_append_def c)
  ultimately show ?thesis using that [OF h'(1) _ h'(2) clean_not_pending [OF sample_codec h']] by simp
qed

definition free_rotation :: rotate_request where
  "free_rotation = \<lparr>rq_key = Some ''k'', rq_operator = ''op'', rq_reason = ''why'', rq_fields = [], rq_now = ''t'',
     rq_world = sample_append_world\<rparr>"

theorem rotation_is_atomic_witness:
  "\<exists>d h rp. clean (\<lambda>b. ''h'') read_event ''audit.jsonl'' (apply_writes ''audit.jsonl'' (rotation_writes ''t'' rp) d) (h @ [rp_event rp])"
proof -
  obtain d h c where l: "clean (\<lambda>b. ''h'') read_event ''audit.jsonl'' d h" "h \<noteq> []" "recover read_event ''audit.jsonl'' d = Some c"
    "\<not> wc_pending c" "wc_len c - wc_start c > 0" "d (closed_path_for ''audit.jsonl'' (wc_next c)) = None" by (rule sample_ledger)
  have "require_appendable free_config t = Inr ()" for t
    by (simp add: require_appendable_def free_config_def no_key_def appendable_def)
  then have built: "\<exists>e. build_event (\<lambda>b. ''h'') sample_crypto free_config w q st head = Inr (Some e)" for w q st head
    by (rule build_event_total)
  have "\<exists>rp. plan_rotation (\<lambda>b. ''h'') sample_crypto free_config (\<lambda>k r. ''s'') ''audit.jsonl'' d c ''k'' free_rotation = Inr rp"
  proof -
    obtain rot where "build_event (\<lambda>b. ''h'') sample_crypto free_config (rq_world free_rotation)
      \<lparr>aq_type = ROTATION_EVENT_TYPE, aq_payload = Some (rotation_payload ''audit.jsonl'' c
          (anchor_record (rq_now free_rotation) (wc_len c) (wc_head c) (wc_next c) @ [(''signature'', JStr ''s'')]) free_rotation),
        aq_agent = None, aq_claim = None\<rparr> NoStamp (wc_head c) = Inr (Some rot)" using built by blast
    then show ?thesis using l(5,6) by (simp add: plan_rotation_def Let_def)
  qed
  then obtain rp where rp: "plan_rotation (\<lambda>b. ''h'') sample_crypto free_config (\<lambda>k r. ''s'') ''audit.jsonl'' d c ''k'' free_rotation = Inr rp" ..
  have "outside_payload (rq_fields free_rotation)" by (simp add: outside_payload_def free_rotation_def)
  from rotation_is_atomic [OF sample_codec plain_ledger_name clean_recoverable [OF l(1)] l(3,4) this rp] show ?thesis by blast
qed

theorem unterminated_line_ruins_segment_witness:
  "\<exists>d d' h e e2. d' = torn_write ''audit.jsonl'' AllButBreak (AppendOpen e) d
    \<and> readable (\<lambda>b. ''h'') read_event ''audit.jsonl'' d' (h @ [e])
    \<and> recover read_event ''audit.jsonl'' (apply_write ''audit.jsonl'' (AppendOpen e2) d') = None"
proof -
  obtain d h c where l: "clean (\<lambda>b. ''h'') read_event ''audit.jsonl'' d h" "h \<noteq> []" "recover read_event ''audit.jsonl'' d = Some c"
    "\<not> wc_pending c" "wc_len c - wc_start c > 0" "d (closed_path_for ''audit.jsonl'' (wc_next c)) = None" by (rule sample_ledger)
  let ?e = "make_event (\<lambda>b. ''h'') ''i'' ''t'' ''x'' None (wc_head c) None None None"
  let ?d = "torn_write ''audit.jsonl'' AllButBreak (AppendOpen ?e) d"
  have e: "continues (\<lambda>b. ''h'') (wc_head c) ?e" "storable ?e"
    using made_fresh [of "\<lambda>b. ''h''"] by (simp_all add: fresh_on_def continues_def) (simp add: storable_def make_event_def Let_def)
  note ruins = unterminated_line_ruins_segment [OF sample_codec l(1,3) e refl
      free_checks [of sample_crypto sample_policy sample_append_world],
      where digest = "\<lambda>_. []" and read_path = "\<lambda>_. None" and now = "''now''"]
  from conjunct2 [OF ruins] obtain e2 where
    "recover read_event ''audit.jsonl'' (apply_write ''audit.jsonl'' (AppendOpen e2) ?d) = None"
    by (elim exE conjE) simp
  with conjunct1 [OF ruins] show ?thesis by (intro exI conjI) (rule refl)
qed

end
