(* ===== verification/Ledger_Archive.thy ===== *)
theory Ledger_Archive
  imports Ledger_Writer
begin

text \<open>
  The legal hold and the archiving of old segments: \<open>services/sealed-ledger/src/sealed_ledger/store.py\<close>,
  \<open>place_hold\<close> to \<open>_complete_pending_moves\<close>. An operation is the list of writes it makes and its answer. One process
  archives at a time, so the branches for a journal that another process moved meanwhile only re-plan; a hold another
  process places meanwhile is seen at each look (\<open>av_hold1\<close>, \<open>av_hold2\<close>). SHA-256 of a file is the argument \<open>digest\<close>.
\<close>

section \<open>The disk and the writes to it\<close>

text \<open>
  There is one file system: \<open>ad_dir\<close> holds the ledger directory's files by name, \<open>ad_out\<close> every other file. A path that
  the code opens (an archive path, the journaled \<open>archived_to\<close>) is resolved first, by \<open>se_place\<close> below: it may name a
  file of the ledger directory. Sidecars and the hold marker hold JSON and are kept apart; their inner None is content
  that does not parse.
\<close>

datatype place = LivePath string | OtherPath string

record archive_disk =
  ad_dir :: directory
  ad_out :: directory
  ad_side :: "string \<Rightarrow> json option option"
  ad_hold :: "json option option"

definition file_at :: "archive_disk \<Rightarrow> place \<Rightarrow> text_file option" where
  "file_at k pl = (case pl of LivePath name \<Rightarrow> ad_dir k name | OtherPath path \<Rightarrow> ad_out k path)"

text \<open>\<open>os.rename\<close>: a file renamed to its own name stays.\<close>

definition rename_to :: "string \<Rightarrow> place \<Rightarrow> archive_disk \<Rightarrow> archive_disk" where
  "rename_to src pl k =
     (case pl of LivePath name \<Rightarrow> if name = src then k else k\<lparr>ad_dir := (ad_dir k)(name := ad_dir k src, src := None)\<rparr>
      | OtherPath path \<Rightarrow> k\<lparr>ad_out := (ad_out k)(path := ad_dir k src), ad_dir := (ad_dir k)(src := None)\<rparr>)"

datatype archive_write =
    LedgerWrite disk_write
  | WriteSidecar string py_dict
  | DropSidecar string
  | MoveOut string place
  | DropSource string
  | CreateHold
  | FillHold py_dict
  | DropHold

fun apply_archive :: "string \<Rightarrow> archive_write \<Rightarrow> archive_disk \<Rightarrow> archive_disk" where
  "apply_archive p (LedgerWrite w) k = k\<lparr>ad_dir := apply_write p w (ad_dir k)\<rparr>"
| "apply_archive p (WriteSidecar path d) k = k\<lparr>ad_side := (ad_side k)(path \<mapsto> Some (JObj d))\<rparr>"
| "apply_archive p (DropSidecar path) k = k\<lparr>ad_side := (ad_side k)(path := None)\<rparr>"
| "apply_archive p (MoveOut src dst) k = rename_to src dst k"
| "apply_archive p (DropSource src) k = k\<lparr>ad_dir := (ad_dir k)(src := None)\<rparr>"
| "apply_archive p CreateHold k = k\<lparr>ad_hold := Some None\<rparr>"
| "apply_archive p (FillHold d) k = k\<lparr>ad_hold := Some (Some (JObj d))\<rparr>"
| "apply_archive p DropHold k = k\<lparr>ad_hold := None\<rparr>"

definition apply_archives :: "string \<Rightarrow> archive_write list \<Rightarrow> archive_disk \<Rightarrow> archive_disk" where
  "apply_archives p ws k = fold (apply_archive p) ws k"

section \<open>The legal hold\<close>

datatype hold_error = HoldBlank | HoldRefused append_refused | HoldConflict | HoldFault store_error | HoldMarkerHeld

text \<open>\<open>hold_status\<close>: the record, or a placeholder for a marker that does not parse (\<open>why\<close> names its size).\<close>

definition hold_status :: "string \<Rightarrow> archive_disk \<Rightarrow> py_dict option" where
  "hold_status why k =
     (case ad_hold k of None \<Rightarrow> None
      | Some (Some (JObj d)) \<Rightarrow> Some d
      | Some _ \<Rightarrow> Some [(''placed_at'', JNull), (''placed_by'', JNull), (''reason'', JStr why)])"

definition PLACED :: string where "PLACED = ''ledger.legal_hold.placed''"
definition RELEASED :: string where "RELEASED = ''ledger.legal_hold.released''"

text \<open>What an append of the store itself needs, and how the system resolves a path.\<close>

record store_env =
  se_hash :: "string \<Rightarrow> string"
  se_validate :: validator
  se_crypto :: crypto
  se_config :: signing_config
  se_policy :: caller_policy
  se_path :: string
  se_fields :: py_dict
  se_place :: "string \<Rightarrow> place"

definition own_append :: "store_env \<Rightarrow> directory \<Rightarrow> writer_cache \<Rightarrow> append_world \<Rightarrow> string \<Rightarrow> py_dict
    \<Rightarrow> disk_write list \<times> (store_error + ledger_event \<times> writer_cache)" where
  "own_append env d c w etype pl =
     append_writes (se_hash env) (se_validate env) (se_crypto env) (se_config env) (se_policy env) (se_path env) d c False w
       \<lparr>aq_type = etype, aq_payload = Some pl, aq_agent = None, aq_claim = None\<rparr>"

definition place_hold :: "store_env \<Rightarrow> archive_disk \<Rightarrow> writer_cache \<Rightarrow> append_world \<Rightarrow> string \<Rightarrow> string \<Rightarrow> string
    \<Rightarrow> archive_write list \<times> (hold_error + py_dict)" where
  "place_hold env k c w now who why =
     (if py_strip who = [] \<or> py_strip why = [] then ([], Inl HoldBlank)
      else case require_appendable (se_config env) PLACED of Inl r \<Rightarrow> ([], Inl (HoldRefused r))
      | Inr _ \<Rightarrow>
        if ad_hold k \<noteq> None then ([], Inl HoldConflict)
        else
          let rec = [(''placed_at'', JStr now), (''placed_by'', JStr (py_strip who)), (''reason'', JStr (py_strip why))] in
          case own_append env (ad_dir k) c w PLACED (dict_update rec (se_fields env)) of (ws, r) \<Rightarrow>
            ([CreateHold, FillHold rec] @ map LedgerWrite ws, case r of Inl x \<Rightarrow> Inl (HoldFault x) | Inr _ \<Rightarrow> Inr rec))"

text \<open>\<open>unlinks\<close>: whether the marker can be removed within the attempts.\<close>

definition release_hold :: "store_env \<Rightarrow> archive_disk \<Rightarrow> writer_cache \<Rightarrow> append_world \<Rightarrow> string \<Rightarrow> string \<Rightarrow> string \<Rightarrow> bool
    \<Rightarrow> archive_write list \<times> (hold_error + py_dict)" where
  "release_hold env k c w now why who unlinks =
     (if py_strip who = [] then ([], Inl HoldBlank)
      else case hold_status why k of None \<Rightarrow> ([], Inl HoldConflict)
      | Some held \<Rightarrow>
        let rec = dict_update held [(''released_by'', JStr (py_strip who)), (''released_at'', JStr now)] in
        case own_append env (ad_dir k) c w RELEASED (dict_update rec (se_fields env)) of
          (ws, Inl x) \<Rightarrow> (map LedgerWrite ws, Inl (HoldFault x))
        | (ws, Inr _) \<Rightarrow> if unlinks then (map LedgerWrite ws @ [DropHold], Inr rec) else (map LedgerWrite ws, Inl HoldMarkerHeld))"

section \<open>One segment\<close>

datatype archive_error =
    BlankOperator | NegativeDays | NotAppendable append_refused | InsideLedgerDir | OutsideDataDir | OtherFilesystem
  | HoldActive | NotVerified | OutExists | SidecarExists | ArchiveFault store_error | BadEntry

definition out_path :: "string \<Rightarrow> string \<Rightarrow> string" where "out_path adir name = adir @ ''/'' @ name"
definition sidecar_path :: "string \<Rightarrow> string" where "sidecar_path path = path @ ''.segment.json''"
definition SIDECAR_FORMAT :: string where "SIDECAR_FORMAT = ''field-ledger-segment-sidecar/1''"

text \<open>\<open>_first_event\<close>: the first line of a file, None where there is none that validates.\<close>

definition first_event :: "validator \<Rightarrow> text_file option \<Rightarrow> ledger_event option" where
  "first_event validate f = (case f of None \<Rightarrow> None
     | Some g \<Rightarrow> (case all_lines g of Doc j # _ \<Rightarrow> validate j | _ \<Rightarrow> None))"

record archive_plan =
  pl_entry :: seg_entry
  pl_src :: string
  pl_dst :: string
  pl_digest :: string
  pl_side :: py_dict

definition sidecar_of :: "string \<Rightarrow> string \<Rightarrow> seg_entry \<Rightarrow> string \<Rightarrow> py_dict" where
  "sidecar_of logical operator e sha =
     [(''format'', JStr SIDECAR_FORMAT), (''logical'', JStr logical), (''n'', JInt (en_n e)), (''file'', JStr (en_file e)),
      (''start_index'', JInt (en_start e)), (''end_index'', JInt (en_end e)), (''genesis_prev_hash'', JStr (en_genesis e)),
      (''head_hash'', JStr (en_head e)), (''anchor'', JObj (en_anchor e)),
      (''closed_at'', case en_closed_at e of None \<Rightarrow> JNull | Some j \<Rightarrow> j),
      (''closing_rotation_event_hash'', JStr (rot_hash e)), (''sha256'', JStr sha), (''archived_by'', JStr operator)]"

definition segment_verifies :: "store_env \<Rightarrow> directory \<Rightarrow> seg_view \<Rightarrow> seg_view \<Rightarrow> seg_entry \<Rightarrow> text_file \<Rightarrow> bool" where
  "segment_verifies env d seg succ e f =
     (case parse_events (se_validate env) f of None \<Rightarrow> False
      | Some es \<Rightarrow> verify_segment (se_hash env) es (sv_genesis seg) (sv_start seg) = None
          \<and> sv_count seg = Some (int (length es)) \<and> es \<noteq> [] \<and> sv_head seg = Some (ev_hash (last es))
          \<and> (case first_event (se_validate env) (d (sv_path succ)) of None \<Rightarrow> False
             | Some ev \<Rightarrow> ev_hash ev = rot_hash e \<and> journal_vs_rotation_event (Some e) ev = None))"

text \<open>\<open>_plan_archive\<close>; \<open>Inr None\<close>: nothing (more) to archive.\<close>

definition plan_archive :: "store_env \<Rightarrow> (text_file \<Rightarrow> string) \<Rightarrow> archive_disk \<Rightarrow> string \<Rightarrow> instant \<Rightarrow> string
    \<Rightarrow> archive_error + archive_plan option" where
  "plan_archive env digest k adir cutoff operator =
     (let d = ad_dir k; ly = layout_of (se_path env) d; committed = filter (\<lambda>e. \<not> archived e) (js_closed (ly_journal ly)) in
      if ly_error ly \<noteq> None then Inl NotVerified
      else case ly_segs ly of
        seg # succ # _ \<Rightarrow>
          if \<not> sv_closed seg then Inr None
          else (case find (\<lambda>e. en_n e = sv_number seg) committed of None \<Rightarrow> Inr None
           | Some e \<Rightarrow>
             (case (case en_closed_at e of Some (JStr s) \<Rightarrow> read_instant (cr_rd (se_crypto env)) s | _ \<Rightarrow> None) of
                None \<Rightarrow> Inl NotVerified
              | Some closed_at \<Rightarrow>
                if cutoff \<le> closed_at then Inr None
                else (case d (sv_path seg) of None \<Rightarrow> Inl NotVerified
                 | Some f \<Rightarrow>
                   if \<not> segment_verifies env d seg succ e f then Inl NotVerified
                   else let dst = out_path adir (en_file e); there = file_at k (se_place env dst) in
                     if there \<noteq> None \<and> map_option digest there \<noteq> Some (digest f) then Inl OutExists
                     else Inr (Some \<lparr>pl_entry = e, pl_src = sv_path seg, pl_dst = dst, pl_digest = digest f,
                       pl_side = sidecar_of (se_path env) operator e (digest f)\<rparr>))))
      | _ \<Rightarrow> Inr None)"

text \<open>\<open>_write_sidecar\<close>: an identical one is accepted, another one refused; whether this call created it.\<close>

definition write_sidecar :: "archive_disk \<Rightarrow> string \<Rightarrow> py_dict \<Rightarrow> archive_error + archive_write list \<times> bool" where
  "write_sidecar k path side =
     (case ad_side k path of None \<Rightarrow> Inr ([WriteSidecar path side], True)
      | Some (Some j) \<Rightarrow> if py_eq j (JObj side) then Inr ([], False) else Inl SidecarExists
      | Some None \<Rightarrow> Inl SidecarExists)"

text \<open>
  \<open>_move_one\<close>: what the system answers to the rename or removal of a file, and what comes of it. The code does not ask
  whether the two paths name one file.
\<close>

datatype rename_answer = Renames | HeldOpen | NoSuchPlace
datatype move_outcome = MoveDone | MovePending | MoveConflict | MoveMissing

definition move_one :: "(text_file \<Rightarrow> string) \<Rightarrow> (string \<Rightarrow> rename_answer) \<Rightarrow> archive_disk \<Rightarrow> string \<Rightarrow> place \<Rightarrow> json
    \<Rightarrow> archive_write list \<times> move_outcome" where
  "move_one digest answer k src dst sha =
     (case file_at k dst of
        Some g \<Rightarrow>
          if ad_dir k src = None then ([], MoveDone)
          else if JStr (digest g) \<noteq> sha then ([], MoveConflict)
          else if answer src = HeldOpen then ([], MovePending)
          else ([DropSource src], MoveDone)
      | None \<Rightarrow>
          if ad_dir k src = None then ([], MoveMissing)
          else (case answer src of Renames \<Rightarrow> ([MoveOut src dst], MoveDone) | HeldOpen \<Rightarrow> ([], MovePending)
            | NoSuchPlace \<Rightarrow> ([], MoveMissing)))"

definition archive_record :: "seg_entry \<Rightarrow> string \<Rightarrow> string \<Rightarrow> string \<Rightarrow> string \<Rightarrow> py_dict" where
  "archive_record e dst sha now operator =
     [(''op'', JStr ''archive''), (''n'', JInt (en_n e)), (''file'', JStr (en_file e)), (''archived_to'', JStr dst),
      (''sidecar'', JStr (sidecar_path dst)), (''sha256'', JStr sha), (''at'', JStr now), (''operator'', JStr operator)]"

section \<open>Pending moves\<close>

definition journal_of :: "store_env \<Rightarrow> archive_disk \<Rightarrow> journal_state" where
  "journal_of env k = parse_journal (ad_dir k (journal_path_for (se_path env)))"

definition pending_moves :: "archive_disk \<Rightarrow> journal_state \<Rightarrow> seg_entry list" where
  "pending_moves k js = filter (\<lambda>e. archived e \<and> ad_dir k (en_file e) \<noteq> None) (js_closed js)"

fun complete_moves :: "string \<Rightarrow> (string \<Rightarrow> place) \<Rightarrow> (text_file \<Rightarrow> string) \<Rightarrow> (string \<Rightarrow> rename_answer) \<Rightarrow> seg_entry list \<Rightarrow> archive_disk
    \<Rightarrow> archive_write list \<times> (archive_error + int list)" where
  "complete_moves p resolve digest answer [] k = ([], Inr [])"
| "complete_moves p resolve digest answer (e # es) k =
     (if \<not> (archived e \<and> ad_dir k (en_file e) \<noteq> None) then complete_moves p resolve digest answer es k
      else case (en_archived_to e, en_archived_sha e) of
        (Some (JStr dst), Some sha) \<Rightarrow>
          (case move_one digest answer k (en_file e) (resolve dst) sha of (ws, oc) \<Rightarrow>
            (case complete_moves p resolve digest answer es (apply_archives p ws k) of
               (ws', Inl x) \<Rightarrow> (ws @ ws', Inl x)
             | (ws', Inr ns) \<Rightarrow> (ws @ ws', Inr (if oc = MoveDone then en_n e # ns else ns))))
      | _ \<Rightarrow> ([], Inl BadEntry))"

text \<open>\<open>_refuse_unless_live_verify_ok\<close>: the archived entries a live retention event names, when the ledger verifies.\<close>

definition live_evidence :: "store_env \<Rightarrow> (text_file \<Rightarrow> string) \<Rightarrow> archive_disk \<Rightarrow> archive_error + (int \<times> string) list" where
  "live_evidence env digest k =
     (let ly = layout_of (se_path env) (ad_dir k);
          rs = map (read_segment (se_validate env) (ad_dir k)) (ly_segs ly)
      in case verify_ledger (se_hash env) digest (se_validate env) (se_path env) (ad_dir k)
             (\<lambda>path. file_at k (se_place env path)) of
           None \<Rightarrow> Inl BadEntry
         | Some v \<Rightarrow> if \<not> st_ok v then Inl NotVerified
             else (case event_evidenced (archive_evidence (live_events rs)) (ly_archived ly) of
               None \<Rightarrow> Inl BadEntry | Some ev \<Rightarrow> Inr ev))"

section \<open>A run\<close>

record archive_request =
  ar_operator :: string
  ar_days :: json
  ar_negative :: bool
  ar_cutoff :: instant
  ar_dir :: string
  ar_inside :: bool
  ar_within_data :: bool
  ar_external :: bool
  ar_same_fs :: bool

record archive_view =
  av_hold1 :: "int \<Rightarrow> bool"
  av_hold2 :: "int \<Rightarrow> bool"
  av_answer :: "string \<Rightarrow> rename_answer"
  av_now :: string
  av_world :: append_world

record archive_state =
  as_disk :: archive_disk
  as_writes :: "archive_write list"
  as_cache :: writer_cache
  as_evidence :: "(int \<times> string) list"
  as_verified :: bool
  as_completed :: "int list"
  as_archived :: "int list"

definition wrote :: "string \<Rightarrow> archive_write list \<Rightarrow> archive_state \<Rightarrow> archive_state" where
  "wrote p ws s = s\<lparr>as_disk := apply_archives p ws (as_disk s), as_writes := as_writes s @ ws\<rparr>"

definition add_evidence :: "(int \<times> string) list \<Rightarrow> archive_state \<Rightarrow> archive_state" where
  "add_evidence ev s = s\<lparr>as_evidence := fold (\<lambda>(n, h). AList.update n h) ev (as_evidence s)\<rparr>"

datatype loop_answer = LoopDone | LoopStops archive_error | LoopGoes

text \<open>Verified once, before the run's first commit.\<close>

definition verify_once :: "store_env \<Rightarrow> (text_file \<Rightarrow> string) \<Rightarrow> archive_state \<Rightarrow> archive_error + archive_state" where
  "verify_once env digest s =
     (if as_verified s then Inr s
      else bindE (live_evidence env digest (as_disk s)) (\<lambda>ev. Inr ((add_evidence ev s)\<lparr>as_verified := True\<rparr>)))"

text \<open>The commit under the writer's locks, and the move after it.\<close>

definition commit_archive :: "store_env \<Rightarrow> (text_file \<Rightarrow> string) \<Rightarrow> archive_view \<Rightarrow> archive_request \<Rightarrow> archive_plan \<Rightarrow> bool
    \<Rightarrow> archive_state \<Rightarrow> archive_state \<times> loop_answer" where
  "commit_archive env digest v q pl created s =
     (let p = se_path env; e = pl_entry pl in
      case ensure_fresh (se_validate env) (av_now v) p (ad_dir (as_disk s)) (as_cache s) of
        (ws, Inl x) \<Rightarrow> (wrote p (map LedgerWrite ws) s, LoopStops (ArchiveFault x))
      | (ws, Inr c) \<Rightarrow>
        let s1 = (wrote p (map LedgerWrite ws) s)\<lparr>as_cache := c\<rparr>; js = journal_of env (as_disk s1);
            refusal = (if av_hold2 v (en_n e) then Some HoldActive else if js_error js \<noteq> None then Some (ArchiveFault LedgerCorrupt) else None);
            committed = list_ex (\<lambda>x. en_n x = en_n e \<and> archived x) (js_closed js);
            live = filter (\<lambda>x. \<not> archived x) (js_closed js)
        in case refusal of
          Some r \<Rightarrow> (wrote p (if created \<and> \<not> committed then [DropSidecar (sidecar_path (pl_dst pl))] else []) s1, LoopStops r)
        | None \<Rightarrow>
          if js_pending js \<noteq> None \<or> live = [] \<or> hd live \<noteq> e then (s1, LoopGoes)
          else
            let s2 = wrote p [LedgerWrite (AppendJournal (archive_record e (pl_dst pl) (pl_digest pl) (av_now v) (py_strip (ar_operator q))))] s1 in
            case recover (se_validate env) p (ad_dir (as_disk s2)) of
              None \<Rightarrow> (s2, LoopStops (ArchiveFault EventInvalid))
            | Some c2 \<Rightarrow>
              let s3 = add_evidence [(en_n e, pl_digest pl)]
                    (s2\<lparr>as_cache := c2, as_archived := as_archived s2 @ [en_n e]\<rparr>);
                  moves = move_one digest (av_answer v) (as_disk s3) (pl_src pl) (se_place env (pl_dst pl)) (JStr (pl_digest pl))
              in (wrote p (fst moves) s3, LoopGoes))"

definition archive_one :: "store_env \<Rightarrow> (text_file \<Rightarrow> string) \<Rightarrow> archive_view \<Rightarrow> archive_request \<Rightarrow> archive_state
    \<Rightarrow> archive_state \<times> loop_answer" where
  "archive_one env digest v q s =
     (case plan_archive env digest (as_disk s) (ar_dir q) (ar_cutoff q) (py_strip (ar_operator q)) of
        Inl x \<Rightarrow> (s, LoopStops x)
      | Inr None \<Rightarrow> (s, LoopDone)
      | Inr (Some pl) \<Rightarrow>
        (case verify_once env digest s of Inl x \<Rightarrow> (s, LoopStops x)
         | Inr s1 \<Rightarrow>
           if av_hold1 v (en_n (pl_entry pl)) then (s1, LoopStops HoldActive)
           else case write_sidecar (as_disk s1) (sidecar_path (pl_dst pl)) (pl_side pl) of
             Inl x \<Rightarrow> (s1, LoopStops x)
           | Inr (ws, created) \<Rightarrow> commit_archive env digest v q pl created (wrote (se_path env) ws s1)))"

fun archive_loop :: "nat \<Rightarrow> store_env \<Rightarrow> (text_file \<Rightarrow> string) \<Rightarrow> archive_view \<Rightarrow> archive_request \<Rightarrow> archive_state
    \<Rightarrow> archive_state \<times> archive_error option option" where
  "archive_loop 0 env digest v q s = (s, None)"
| "archive_loop (Suc fuel) env digest v q s =
     (case archive_one env digest v q s of
        (s1, LoopDone) \<Rightarrow> (s1, Some None)
      | (s1, LoopStops x) \<Rightarrow> (s1, Some (Some x))
      | (s1, LoopGoes) \<Rightarrow> archive_loop fuel env digest v q s1)"

text \<open>The pending moves first, when there are any, in a ledger that verifies.\<close>

definition finish_pending :: "store_env \<Rightarrow> (text_file \<Rightarrow> string) \<Rightarrow> archive_view \<Rightarrow> archive_state \<Rightarrow> archive_state \<times> archive_error option" where
  "finish_pending env digest v s =
     (let js = journal_of env (as_disk s) in
      if pending_moves (as_disk s) js = [] then (s, None)
      else case live_evidence env digest (as_disk s) of Inl x \<Rightarrow> (s, Some x)
      | Inr ev \<Rightarrow>
        (case complete_moves (se_path env) (se_place env) digest (av_answer v) (js_closed js) (as_disk s) of
           (ws, Inl x) \<Rightarrow> ((wrote (se_path env) ws s), Some x)
         | (ws, Inr ns) \<Rightarrow> ((add_evidence ev (wrote (se_path env) ws s))\<lparr>as_verified := True, as_completed := ns\<rparr>, None)))"

text \<open>\<open>_retention_event\<close>: what the run did; the text of an error is the argument of the code's \<open>error\<close>.\<close>

definition moves_json :: "archive_disk \<Rightarrow> journal_state \<Rightarrow> json" where
  "moves_json k js = JArr (map (\<lambda>e. JObj [(''n'', JInt (en_n e)), (''file'', JStr (en_file e)),
     (''archived_to'', case en_archived_to e of None \<Rightarrow> JNull | Some j \<Rightarrow> j)]) (pending_moves k js))"

definition retention_payload :: "store_env \<Rightarrow> archive_request \<Rightarrow> string option \<Rightarrow> archive_state \<Rightarrow> py_dict" where
  "retention_payload env q err s =
     [(''older_than_days'', ar_days q), (''archive_dir'', JStr (ar_dir q)),
      (''archived_segments'', JArr (map JInt (as_archived s))), (''completed_moves'', JArr (map JInt (as_completed s))),
      (''pending_moves'', moves_json (as_disk s) (journal_of env (as_disk s))), (''operator'', JStr (py_strip (ar_operator q))),
      (''archive_evidence'', JArr (map (\<lambda>(n, h). JObj [(''n'', JInt n), (''sha256'', JStr h)]) (sort_key fst (as_evidence s))))]
     @ opt_item ''error'' (map_option JStr err)"

definition retention_event :: "store_env \<Rightarrow> archive_view \<Rightarrow> archive_request \<Rightarrow> string option \<Rightarrow> archive_state
    \<Rightarrow> archive_state \<times> (store_error + ledger_event)" where
  "retention_event env v q err s =
     (if as_archived s = [] \<and> as_completed s = [] then (s, Inl NothingToRotate)
      else case own_append env (ad_dir (as_disk s)) (as_cache s) (av_world v) RETENTION_EVENT_TYPE (retention_payload env q err s) of
        (ws, r) \<Rightarrow> (wrote (se_path env) (map LedgerWrite ws) s, map_sum id fst r))"

text \<open>\<open>archive_closed_segments\<close>; \<open>err_text\<close> is the text of a refusal. None: out of fuel.\<close>

definition first_state :: "archive_disk \<Rightarrow> writer_cache \<Rightarrow> archive_state" where
  "first_state k c = \<lparr>as_disk = k, as_writes = [], as_cache = c, as_evidence = [], as_verified = False, as_completed = [], as_archived = []\<rparr>"

definition archive_refusal :: "store_env \<Rightarrow> archive_disk \<Rightarrow> archive_request \<Rightarrow> archive_error option" where
  "archive_refusal env k q =
     (if py_strip (ar_operator q) = [] then Some BlankOperator
      else if ar_negative q then Some NegativeDays
      else case require_appendable (se_config env) RETENTION_EVENT_TYPE of Inl r \<Rightarrow> Some (NotAppendable r)
      | Inr _ \<Rightarrow>
        if ar_inside q then Some InsideLedgerDir
        else if \<not> ar_external q \<and> \<not> ar_within_data q then Some OutsideDataDir
        else if ad_hold k \<noteq> None then Some HoldActive
        else if \<not> ar_same_fs q then Some OtherFilesystem else None)"

definition archive_closed_segments :: "nat \<Rightarrow> store_env \<Rightarrow> (text_file \<Rightarrow> string) \<Rightarrow> (archive_error \<Rightarrow> string) \<Rightarrow> archive_view
    \<Rightarrow> archive_request \<Rightarrow> archive_disk \<Rightarrow> writer_cache \<Rightarrow> archive_state \<times> archive_error option option" where
  "archive_closed_segments fuel env digest err_text v q k c =
     (let s0 = first_state k c in
      case archive_refusal env k q of Some x \<Rightarrow> (s0, Some (Some x))
      | None \<Rightarrow>
        (case (case finish_pending env digest v s0 of (s1, Some x) \<Rightarrow> (s1, Some (Some x))
              | (s1, None) \<Rightarrow> archive_loop fuel env digest v q s1) of
           (s2, None) \<Rightarrow> (s2, None)
         | (s2, Some (Some x)) \<Rightarrow> (fst (retention_event env v q (Some (err_text x)) s2), Some (Some x))
         | (s2, Some None) \<Rightarrow>
           (case retention_event env v q None s2 of
              (s3, Inl x) \<Rightarrow> (s3, Some (if as_archived s2 = [] \<and> as_completed s2 = [] then None else Some (ArchiveFault x)))
            | (s3, Inr e) \<Rightarrow> (s3, Some None))))"

end
