(* ===== verification/Archive_Safety.thy ===== *)
theory Archive_Safety
  imports Ledger_Archive
begin

text \<open>
  What archiving and holds keep, wherever a crash interrupts them: no segment's bytes are ever lost or overwritten, a
  hold stops archiving, and a hold is never lifted without its event.
\<close>

section \<open>Writes that lose nothing\<close>

definition own_names :: "string \<Rightarrow> string set" where
  "own_names p = {p, journal_path_for p, rotating_tmp_for p}"

fun safe_write :: "string \<Rightarrow> (text_file \<Rightarrow> string) \<Rightarrow> archive_disk \<Rightarrow> archive_write \<Rightarrow> bool" where
  "safe_write p digest k (LedgerWrite (RenameOpen name)) = False"
| "safe_write p digest k (MoveOut src dst) = (\<exists>path. dst = OtherPath path \<and> ad_out k path = None)"
| "safe_write p digest k (DropSource src) = (src \<in> own_names p
     \<or> (\<exists>f dst g. ad_dir k src = Some f \<and> ad_out k dst = Some g \<and> digest g = digest f))"
| "safe_write p digest k w = True"

fun all_safe :: "string \<Rightarrow> (text_file \<Rightarrow> string) \<Rightarrow> archive_disk \<Rightarrow> archive_write list \<Rightarrow> bool" where
  "all_safe p digest k [] = True"
| "all_safe p digest k (w # ws) = (safe_write p digest k w \<and> all_safe p digest (apply_archive p w k) ws)"

lemma apply_archives_simps [simp]:
  "apply_archives p [] k = k" "apply_archives p (w # ws) k = apply_archives p ws (apply_archive p w k)"
  "apply_archives p (ws @ ws') k = apply_archives p ws' (apply_archives p ws k)"
  by (simp_all add: apply_archives_def)

lemma all_safe_append: "all_safe p digest k (ws @ ws') \<longleftrightarrow> all_safe p digest k ws \<and> all_safe p digest (apply_archives p ws k) ws'"
  by (induction ws arbitrary: k) auto

lemma all_safe_take: "all_safe p digest k ws \<Longrightarrow> all_safe p digest k (take i ws)"
  by (metis all_safe_append append_take_drop_id)

lemma ledger_write_elsewhere:
  "name \<notin> own_names p \<Longrightarrow> (\<forall>x. w \<noteq> RenameOpen x) \<Longrightarrow> apply_write p w d name = d name"
  by (cases w) (auto simp: own_names_def append_line_def move_file_def)

text \<open>A file is still there, or a file with its digest is in the archive.\<close>

definition still_held :: "(text_file \<Rightarrow> string) \<Rightarrow> archive_disk \<Rightarrow> string \<Rightarrow> text_file \<Rightarrow> bool" where
  "still_held digest k name f = (ad_dir k name = Some f \<or> (\<exists>dst g. ad_out k dst = Some g \<and> digest g = digest f))"

lemmas place_simps = file_at_def rename_to_def

lemma safe_step:
  assumes "safe_write p digest k w" "name \<notin> own_names p" "still_held digest k name f"
  shows "still_held digest (apply_archive p w k) name f \<and> (\<forall>path g. ad_out k path = Some g \<longrightarrow> ad_out (apply_archive p w k) path = Some g)"
proof -
  have out: "\<forall>path g. ad_out k path = Some g \<longrightarrow> ad_out (apply_archive p w k) path = Some g"
    using assms(1) by (cases w) (auto simp: place_simps)
  show ?thesis
  proof (cases "\<exists>dst g. ad_out k dst = Some g \<and> digest g = digest f")
    case True
    then show ?thesis using out unfolding still_held_def by blast
  next
    case False
    then have f: "ad_dir k name = Some f" using assms(3) unfolding still_held_def by blast
    have "still_held digest (apply_archive p w k) name f"
    proof (cases w)
      case (LedgerWrite x)
      then have "\<forall>y. x \<noteq> RenameOpen y" using assms(1) by auto
      then show ?thesis using LedgerWrite f ledger_write_elsewhere [OF assms(2)] by (simp add: still_held_def)
    next
      case (MoveOut src dst)
      then obtain path where path: "dst = OtherPath path" using assms(1) by auto
      show ?thesis
      proof (cases "src = name")
        case True
        then have "ad_out (apply_archive p w k) path = Some f" using MoveOut path f by (simp add: place_simps)
        then show ?thesis unfolding still_held_def by blast
      qed (use MoveOut path f in \<open>simp add: still_held_def place_simps\<close>)
    next
      case (DropSource src)
      then show ?thesis using assms(1,2) f False by (cases "src = name") (auto simp: still_held_def)
    qed (use f in \<open>simp_all add: still_held_def\<close>)
    with out show ?thesis by blast
  qed
qed

lemma safe_run:
  "all_safe p digest k ws \<Longrightarrow> name \<notin> own_names p \<Longrightarrow> still_held digest k name f \<Longrightarrow>
     still_held digest (apply_archives p ws k) name f \<and> (\<forall>path g. ad_out k path = Some g \<longrightarrow> ad_out (apply_archives p ws k) path = Some g)"
proof (induction ws arbitrary: k)
  case (Cons w ws)
  then have 1: "safe_write p digest k w" and 2: "all_safe p digest (apply_archive p w k) ws" by simp_all
  note s = safe_step [OF 1 Cons.prems(2,3)]
  note r = Cons.IH [OF 2 Cons.prems(2)] 
  show ?case using s r by simp
qed simp

section \<open>The writes of a run are such writes\<close>

definition plain :: "disk_write list \<Rightarrow> bool" where
  "plain ws = list_all (\<lambda>w. case w of RenameOpen _ \<Rightarrow> False | _ \<Rightarrow> True) ws"

lemma plain_simps [simp]: "plain []" "plain (w # ws) \<longleftrightarrow> (case w of RenameOpen _ \<Rightarrow> False | _ \<Rightarrow> True) \<and> plain ws"
  "plain (ws @ ws') \<longleftrightarrow> plain ws \<and> plain ws'"
  by (simp_all add: plain_def)

lemma plain_safe: "plain ws \<Longrightarrow> all_safe p digest k (map LedgerWrite ws)"
proof (induction ws arbitrary: k)
  case (Cons w ws)
  then show ?case by (cases w) auto
qed simp

lemma plain_elsewhere:
  "plain ws \<Longrightarrow> name \<notin> own_names p \<Longrightarrow> ad_dir (apply_archives p (map LedgerWrite ws) k) name = ad_dir k name"
proof (induction ws arbitrary: k)
  case (Cons w ws)
  then have "\<forall>x. w \<noteq> RenameOpen x" "plain ws" by (auto split: disk_write.splits)
  with Cons show ?case using ledger_write_elsewhere [of name p w "ad_dir k"] by simp
qed simp

lemma plain_out: "ad_out (apply_archives p (map LedgerWrite ws) k) = ad_out k"
  by (induction ws arbitrary: k) auto

lemma reconcile_plain: "reconcile_writes validate now p d = (ws, r) \<Longrightarrow> plain ws"
  by (auto simp: reconcile_writes_def roll_forward_def Let_def split: if_splits option.splits sum.splits)

lemma fresh_plain: "ensure_fresh validate now p d c = (ws, r) \<Longrightarrow> plain ws"
  by (auto simp: ensure_fresh_def split: if_splits option.splits prod.splits sum.splits dest: reconcile_plain)

lemma own_append_plain: "own_append env d c w t pl = (ws, r) \<Longrightarrow> plain ws"
  by (auto simp: own_append_def append_writes_def split: sum.splits prod.splits option.splits dest: fresh_plain)

text \<open>What a run has written so far, from the disk it began on.\<close>

definition run_ok :: "string \<Rightarrow> (text_file \<Rightarrow> string) \<Rightarrow> archive_disk \<Rightarrow> archive_state \<Rightarrow> bool" where
  "run_ok p digest k s = (as_disk s = apply_archives p (as_writes s) k \<and> all_safe p digest k (as_writes s))"

lemma wrote_ok: "run_ok p digest k s \<Longrightarrow> all_safe p digest (as_disk s) ws \<Longrightarrow> run_ok p digest k (wrote p ws s)"
  by (simp add: run_ok_def wrote_def all_safe_append)

lemma run_ok_cong: "run_ok p digest k s \<Longrightarrow> as_disk t = as_disk s \<Longrightarrow> as_writes t = as_writes s \<Longrightarrow> run_ok p digest k t"
  by (simp add: run_ok_def)

lemma wrote_simps [simp]: "as_disk (wrote p ws s) = apply_archives p ws (as_disk s)" "as_writes (wrote p ws s) = as_writes s @ ws"
  "as_cache (wrote p ws s) = as_cache s" "as_archived (wrote p ws s) = as_archived s" "as_completed (wrote p ws s) = as_completed s"
  by (simp_all add: wrote_def)

lemma evidence_simps [simp]: "as_disk (add_evidence ev s) = as_disk s" "as_writes (add_evidence ev s) = as_writes s"
  "as_cache (add_evidence ev s) = as_cache s" "as_archived (add_evidence ev s) = as_archived s"
  "as_completed (add_evidence ev s) = as_completed s"
  by (simp_all add: add_evidence_def)

lemma verify_once_ok: "verify_once env digest s = Inr t \<Longrightarrow> as_disk t = as_disk s \<and> as_writes t = as_writes s
    \<and> as_archived t = as_archived s \<and> as_completed t = as_completed s"
  by (auto simp: verify_once_def bindE_def split: if_splits sum.splits)

text \<open>
  A move is safe when its destination is no file of the ledger directory and the file it may remove has the digest it is
  checked against.
\<close>

lemma move_safe:
  assumes "move_one digest answer k src dst sha = (ws, oc)"
    and "dst = OtherPath path"
    and "\<And>f. src \<notin> own_names p \<Longrightarrow> ad_dir k src = Some f \<Longrightarrow> (\<exists>h. sha = JStr h) \<Longrightarrow> sha = JStr (digest f)"
  shows "all_safe p digest k ws"
proof (cases "ws = [DropSource src]")
  case True
  then obtain g f where g: "ad_out k path = Some g" "JStr (digest g) = sha" "ad_dir k src = Some f"
    using assms(1,2) by (auto simp: move_one_def file_at_def split: option.splits if_splits rename_answer.splits)
  show ?thesis
  proof (cases "src \<in> own_names p")
    case False
    have "\<exists>h. sha = JStr h" using g(2) by blast
    then have "digest g = digest f" using assms(3) [OF False g(3)] g(2) by simp
    then show ?thesis using True g(1,3) by auto
  qed (use True in simp)
next
  case False
  then have "ws = [] \<or> ws = [MoveOut src dst] \<and> ad_out k path = None"
    using assms(1,2) by (auto simp: move_one_def file_at_def split: option.splits if_splits rename_answer.splits)
  then show ?thesis using assms(2) by auto
qed

lemma sidecar_safe: "write_sidecar k path side = Inr (ws, b) \<Longrightarrow> all_safe p digest k' ws
    \<and> ad_dir (apply_archives p ws k') = ad_dir k' \<and> ad_out (apply_archives p ws k') = ad_out k'"
  by (auto simp: write_sidecar_def split: option.splits if_splits)

lemma plan_file:
  assumes "plan_archive env digest k adir cutoff operator = Inr (Some pl)"
  shows "\<exists>f. ad_dir k (pl_src pl) = Some f \<and> pl_digest pl = digest f"
  using assms by (auto simp: plan_archive_def Let_def split: if_splits list.splits option.splits json.splits)

lemma plan_destination:
  assumes "plan_archive env digest k adir cutoff operator = Inr (Some pl)"
  shows "pl_dst pl = out_path adir (en_file (pl_entry pl))"
  using assms by (auto simp: plan_archive_def Let_def split: if_splits list.splits option.splits json.splits)

text \<open>
  Archive paths that name no file of the ledger directory: those a run makes itself (the code refuses an archive directory
  inside the ledger's), and those an entry of the journal gives, which the code takes as they are.
\<close>

definition archive_apart :: "store_env \<Rightarrow> string \<Rightarrow> bool" where
  "archive_apart env adir = (\<forall>name. \<exists>path. se_place env (out_path adir name) = OtherPath path)"

definition journal_apart :: "(string \<Rightarrow> place) \<Rightarrow> seg_entry list \<Rightarrow> bool" where
  "journal_apart resolve es = list_all (\<lambda>e. case en_archived_to e of
     Some (JStr to) \<Rightarrow> (case resolve to of OtherPath _ \<Rightarrow> True | LivePath _ \<Rightarrow> False) | _ \<Rightarrow> True) es"

lemma journal_apart_cons:
  "journal_apart resolve (e # es) \<Longrightarrow> journal_apart resolve es"
  "journal_apart resolve (e # es) \<Longrightarrow> en_archived_to e = Some (JStr to) \<Longrightarrow> \<exists>path. resolve to = OtherPath path"
  by (auto simp: journal_apart_def split: place.splits)

lemma commit_ok:
  assumes "commit_archive env digest v q pl created s = (t, ans)" "run_ok (se_path env) digest k s"
    and "pl_src pl \<notin> own_names (se_path env) \<Longrightarrow> ad_dir (as_disk s) (pl_src pl) = Some f" "pl_digest pl = digest f"
    and dst: "se_place env (pl_dst pl) = OtherPath path"
  shows "run_ok (se_path env) digest k t"
proof -
  let ?p = "se_path env"
  obtain ws r where fr: "ensure_fresh (se_validate env) (av_now v) ?p (ad_dir (as_disk s)) (as_cache s) = (ws, r)"
    by (cases "ensure_fresh (se_validate env) (av_now v) ?p (ad_dir (as_disk s)) (as_cache s)")
  have plain: "plain ws" by (rule fresh_plain [OF fr])
  have 1: "run_ok ?p digest k (wrote ?p (map LedgerWrite ws) s)" by (rule wrote_ok [OF assms(2) plain_safe [OF plain]])
  show ?thesis
  proof (cases r)
    case (Inl x)
    then have "t = wrote ?p (map LedgerWrite ws) s" using assms(1) fr by (simp add: commit_archive_def Let_def)
    with 1 show ?thesis by simp
  next
    case (Inr c)
    define s1 where "s1 = (wrote ?p (map LedgerWrite ws) s)\<lparr>as_cache := c\<rparr>"
    have s1: "run_ok ?p digest k s1" by (rule run_ok_cong [OF 1]) (simp_all add: s1_def)
    have src: "pl_src pl \<notin> own_names ?p \<Longrightarrow> ad_dir (as_disk s1) (pl_src pl) = Some f"
      using assms(3) plain_elsewhere [OF plain] by (simp add: s1_def)
    let ?rec = "archive_record (pl_entry pl) (pl_dst pl) (pl_digest pl) (av_now v) (py_strip (ar_operator q))"
    define s2 where "s2 = wrote ?p [LedgerWrite (AppendJournal ?rec)] s1"
    have s2: "run_ok ?p digest k s2" unfolding s2_def by (rule wrote_ok [OF s1]) simp
    have src2: "pl_src pl \<notin> own_names ?p \<Longrightarrow> ad_dir (as_disk s2) (pl_src pl) = Some f"
      using src plain_elsewhere [of "[AppendJournal ?rec]" "pl_src pl" ?p "as_disk s1"] by (simp add: s2_def)
    have t: "t = s1 \<or> t = s2 \<or> t = wrote ?p [DropSidecar (sidecar_path (pl_dst pl))] s1 \<or> t = wrote ?p [] s1
      \<or> (\<exists>c2. let s3 = add_evidence [(en_n (pl_entry pl), pl_digest pl)] (s2\<lparr>as_cache := c2, as_archived := as_archived s2 @ [en_n (pl_entry pl)]\<rparr>)
           in t = wrote ?p (fst (move_one digest (av_answer v) (as_disk s3) (pl_src pl) (se_place env (pl_dst pl)) (JStr (pl_digest pl)))) s3)"
      using assms(1) fr Inr unfolding commit_archive_def Let_def s2_def s1_def
      by (auto split: if_split_asm option.split_asm)
    have move: "run_ok ?p digest k (wrote ?p (fst (move_one digest (av_answer v) (as_disk s3) (pl_src pl) (se_place env (pl_dst pl)) (JStr (pl_digest pl)))) s3)"
      if "as_disk s3 = as_disk s2" "as_writes s3 = as_writes s2" for s3
    proof (rule wrote_ok [OF run_ok_cong [OF s2 that]])
      obtain mws oc where m: "move_one digest (av_answer v) (as_disk s3) (pl_src pl) (se_place env (pl_dst pl)) (JStr (pl_digest pl)) = (mws, oc)"
        by (cases "move_one digest (av_answer v) (as_disk s3) (pl_src pl) (se_place env (pl_dst pl)) (JStr (pl_digest pl))")
      have "all_safe ?p digest (as_disk s3) mws"
        by (rule move_safe [OF m dst]) (use src2 that(1) assms(4) in simp)
      then show "all_safe ?p digest (as_disk s3) (fst (move_one digest (av_answer v) (as_disk s3) (pl_src pl) (se_place env (pl_dst pl)) (JStr (pl_digest pl))))"
        by (simp add: m)
    qed
    have "run_ok ?p digest k (wrote ?p [DropSidecar (sidecar_path (pl_dst pl))] s1)" "run_ok ?p digest k (wrote ?p [] s1)"
      by (rule wrote_ok [OF s1], simp)+
    with t s1 s2 move show ?thesis unfolding Let_def by auto
  qed
qed

lemma archive_one_ok:
  assumes "archive_one env digest v q s = (t, ans)" "run_ok (se_path env) digest k s" "archive_apart env (ar_dir q)"
  shows "run_ok (se_path env) digest k t"
proof (cases "plan_archive env digest (as_disk s) (ar_dir q) (ar_cutoff q) (py_strip (ar_operator q))")
  case (Inl x)
  then show ?thesis using assms by (simp add: archive_one_def)
next
  case (Inr o_pl)
  show ?thesis
  proof (cases o_pl)
    case None
    then show ?thesis using assms Inr by (simp add: archive_one_def)
  next
    case (Some pl)
    note plan = Inr [unfolded Some]
    obtain f where f: "ad_dir (as_disk s) (pl_src pl) = Some f" "pl_digest pl = digest f" using plan_file [OF plan] by blast
    obtain path where dst: "se_place env (pl_dst pl) = OtherPath path"
      using plan_destination [OF plan] assms(3) by (auto simp: archive_apart_def)
    show ?thesis
    proof (cases "verify_once env digest s")
      case (Inl x)
      then show ?thesis using assms plan by (simp add: archive_one_def)
    next
      case (Inr s1)
      note same = verify_once_ok [OF Inr]
      have s1: "run_ok (se_path env) digest k s1" by (rule run_ok_cong [OF assms(2)]) (use same in simp_all)
      show ?thesis
      proof (cases "av_hold1 v (en_n (pl_entry pl)) \<or> (\<exists>x. write_sidecar (as_disk s1) (sidecar_path (pl_dst pl)) (pl_side pl) = Inl x)")
        case True
        then have "t = s1" using assms(1) plan Inr by (auto simp: archive_one_def split: if_split_asm)
        with s1 show ?thesis by simp
      next
        case False
        then obtain ws created where w: "write_sidecar (as_disk s1) (sidecar_path (pl_dst pl)) (pl_side pl) = Inr (ws, created)"
          by (cases "write_sidecar (as_disk s1) (sidecar_path (pl_dst pl)) (pl_side pl)") auto
        have c: "commit_archive env digest v q pl created (wrote (se_path env) ws s1) = (t, ans)"
          using assms(1) plan Inr w False by (simp add: archive_one_def)
        have s2: "run_ok (se_path env) digest k (wrote (se_path env) ws s1)"
          by (rule wrote_ok [OF s1]) (use sidecar_safe [OF w] in blast)
        show ?thesis
        proof (rule commit_ok [OF c s2 _ f(2) dst])
          show "ad_dir (as_disk (wrote (se_path env) ws s1)) (pl_src pl) = Some f"
            using sidecar_safe [OF w, where k' = "as_disk s1"] same f(1) by simp
        qed
      qed
    qed
  qed
qed

lemma archive_loop_ok:
  "archive_loop fuel env digest v q s = (t, r) \<Longrightarrow> archive_apart env (ar_dir q) \<Longrightarrow> run_ok (se_path env) digest k s \<Longrightarrow> run_ok (se_path env) digest k t"
proof (induction fuel arbitrary: s)
  case (Suc fuel)
  obtain s1 ans where o: "archive_one env digest v q s = (s1, ans)" by (cases "archive_one env digest v q s")
  note ok = archive_one_ok [OF o Suc.prems(3,2)]
  show ?case using Suc.prems(1,2) o ok Suc.IH [OF _ _ ok] by (cases ans) auto
qed simp

lemma retention_event_ok:
  "retention_event env v q err s = (t, r) \<Longrightarrow> run_ok (se_path env) digest k s \<Longrightarrow> run_ok (se_path env) digest k t"
  by (auto simp: retention_event_def split: if_splits prod.splits intro!: wrote_ok plain_safe dest: own_append_plain)

section \<open>Pending moves in a ledger that verifies\<close>

definition digests_hold :: "(text_file \<Rightarrow> string) \<Rightarrow> archive_disk \<Rightarrow> seg_entry list \<Rightarrow> bool" where
  "digests_hold digest k es = (\<forall>e \<in> set es. archived e \<longrightarrow> (\<forall>f h. ad_dir k (en_file e) = Some f \<longrightarrow>
     en_archived_sha e = Some (JStr h) \<longrightarrow> h = digest f))"

lemma verify_archived_digest:
  assumes "verify_archived H digest validate read_file read_path all_closed evid es = Some None" "e \<in> set es"
    and "read_file (en_file e) = Some f" "en_archived_sha e = Some (JStr h)"
  shows "h = digest f"
  using assms
proof (induction es)
  case (Cons x es)
  show ?case
  proof (cases "e = x")
    case True
    then have "closed_bytes_problem H digest validate f e (head_before all_closed (en_n e)) (en_archived_sha e) = None"
      using Cons.prems by (auto simp: Let_def split: if_splits option.splits)
    then show ?thesis using Cons.prems(4)
      by (auto simp: closed_bytes_problem_def Let_def split: option.splits if_splits)
  next
    case False
    then have "verify_archived H digest validate read_file read_path all_closed evid es = Some None"
      using Cons.prems by (auto simp: Let_def split: if_splits option.splits)
    then show ?thesis using Cons.IH Cons.prems False by simp
  qed
qed simp

lemma layout_archived:
  "js_present js \<Longrightarrow> ly_archived (resolve_layout p js ex) = filter archived (js_closed js)
    \<and> (js_closed js \<noteq> [] \<longrightarrow> ly_segmented (resolve_layout p js ex)) \<and> ly_journal (resolve_layout p js ex) = js"
  using closed_views_archived [of "js_closed js" None GENESIS_HASH]
  by (cases "closed_views (js_closed js) None GENESIS_HASH") (simp add: resolve_layout_def Let_def)

lemma live_evidence_digests:
  assumes "live_evidence env digest k = Inr ev"
  shows "digests_hold digest k (js_closed (journal_of env k))"
proof (cases "js_present (journal_of env k)")
  case False
  then show ?thesis by (simp add: digests_hold_def journal_of_def journal_absent)
next
  case True
  let ?d = "ad_dir k" and ?p = "se_path env"
  let ?ly = "layout_of ?p ?d"
  have ly: "?ly = resolve_layout ?p (journal_of env k) (exists_in ?d)" by (simp add: layout_of_def journal_of_def)
  note arch = layout_archived [OF True, of ?p "exists_in ?d", folded ly]
  obtain w where v: "verify_ledger (se_hash env) digest (se_validate env) ?p ?d (\<lambda>path. file_at k (se_place env path)) = Some w" "st_ok w"
    using assms by (auto simp: live_evidence_def Let_def split: option.splits if_splits)
  show ?thesis
  proof (cases "ly_archived ?ly = []")
    case True
    then show ?thesis using arch by (auto simp: digests_hold_def filter_empty_conv)
  next
    case False
    then have "js_closed (journal_of env k) \<noteq> []" using arch by auto
    then have "ly_segmented ?ly" using arch by blast
    then obtain evid where "verify_archived (se_hash env) digest (se_validate env) ?d (\<lambda>path. file_at k (se_place env path)) (js_closed (ly_journal ?ly)) evid (ly_archived ?ly) = Some None"
      using v arch by (auto simp: verify_ledger_def verify_snapshot_def broken_at_def Let_def
          split: prod.splits option.splits if_splits)
    from verify_archived_digest [OF this] arch show ?thesis by (auto simp: digests_hold_def)
  qed
qed

lemma move_shrinks:
  assumes "move_one digest answer k src dst sha = (ws, oc)" "dst = OtherPath path" "ad_dir (apply_archives p ws k) n = Some f"
  shows "ad_dir k n = Some f"
  using assms by (auto simp: move_one_def place_simps split: option.splits if_splits rename_answer.splits)

lemma digests_shrink:
  "digests_hold digest k es \<Longrightarrow> (\<And>n f. ad_dir k' n = Some f \<Longrightarrow> ad_dir k n = Some f) \<Longrightarrow> digests_hold digest k' es"
  unfolding digests_hold_def by blast

lemma digests_cons:
  "digests_hold digest k (e # es) \<Longrightarrow> digests_hold digest k es"
  "digests_hold digest k (e # es) \<Longrightarrow> archived e \<Longrightarrow> ad_dir k (en_file e) = Some f \<Longrightarrow> en_archived_sha e = Some (JStr h) \<Longrightarrow> h = digest f"
  by (simp_all add: digests_hold_def)

lemma complete_moves_safe:
  "complete_moves p resolve digest answer es k = (ws, r) \<Longrightarrow> digests_hold digest k es \<Longrightarrow> journal_apart resolve es \<Longrightarrow>
     all_safe p digest k ws"
proof (induction es arbitrary: k ws r)
  case (Cons e es)
  note rest = digests_cons(1) [OF Cons.prems(2)] and apart = journal_apart_cons(1) [OF Cons.prems(3)]
  show ?case
  proof (cases "archived e \<and> ad_dir k (en_file e) \<noteq> None \<and> (\<exists>dst sha. en_archived_to e = Some (JStr dst) \<and> en_archived_sha e = Some sha)")
    case False
    then have "complete_moves p resolve digest answer es k = (ws, r) \<or> ws = []"
      using Cons.prems(1) by (auto split: if_splits option.splits json.splits)
    then show ?thesis using Cons.IH [OF _ rest apart] by auto
  next
    case True
    then obtain dst sha where ds: "en_archived_to e = Some (JStr dst)" "en_archived_sha e = Some sha" by blast
    obtain path where path: "resolve dst = OtherPath path" using journal_apart_cons(2) [OF Cons.prems(3) ds(1)] by blast
    obtain ms oc where m: "move_one digest answer k (en_file e) (resolve dst) sha = (ms, oc)"
      by (cases "move_one digest answer k (en_file e) (resolve dst) sha")
    obtain ws' r' where c: "complete_moves p resolve digest answer es (apply_archives p ms k) = (ws', r')"
      by (cases "complete_moves p resolve digest answer es (apply_archives p ms k)")
    have ws: "ws = ms @ ws'" using Cons.prems(1) True ds m c by (cases r') auto
    have "all_safe p digest k ms"
      by (rule move_safe [OF m path]) (use digests_cons(2) [OF Cons.prems(2)] True ds in auto)
    moreover have "all_safe p digest (apply_archives p ms k) ws'"
      by (rule Cons.IH [OF c digests_shrink [OF rest move_shrinks [OF m path]] apart])
    ultimately show ?thesis by (simp add: ws all_safe_append)
  qed
qed simp

lemma finish_pending_ok:
  assumes "finish_pending env digest v s = (t, r)" "run_ok (se_path env) digest k s"
    and "journal_apart (se_place env) (js_closed (journal_of env (as_disk s)))"
  shows "run_ok (se_path env) digest k t"
proof -
  let ?p = "se_path env" and ?es = "js_closed (journal_of env (as_disk s))"
  consider "t = s" | ev ws r' where "live_evidence env digest (as_disk s) = Inr ev"
      "complete_moves ?p (se_place env) digest (av_answer v) ?es (as_disk s) = (ws, r')"
      "as_disk t = as_disk (wrote ?p ws s)" "as_writes t = as_writes (wrote ?p ws s)"
    using assms(1) by (fastforce simp: finish_pending_def Let_def split: if_splits sum.splits prod.splits)
  then show ?thesis
  proof cases
    case (2 ev ws r')
    have "all_safe ?p digest (as_disk s) ws" by (rule complete_moves_safe [OF 2(2) live_evidence_digests [OF 2(1)] assms(3)])
    then show ?thesis by (rule run_ok_cong [OF wrote_ok [OF assms(2)] 2(3,4)])
  qed (use assms(2) in simp)
qed

text \<open>The stages of a run: what each keeps, the run keeps.\<close>

lemma run_keeps:
  assumes "archive_closed_segments fuel env digest err_text v q k c = (s, r)" "P (first_state k c)"
    and "\<And>t x. finish_pending env digest v (first_state k c) = (t, x) \<Longrightarrow> P (first_state k c) \<Longrightarrow> P t"
    and "\<And>s t x. archive_loop fuel env digest v q s = (t, x) \<Longrightarrow> P s \<Longrightarrow> P t"
    and "\<And>err s t x. retention_event env v q err s = (t, x) \<Longrightarrow> P s \<Longrightarrow> P t"
  shows "P s"
proof -
  obtain s1 f where f: "finish_pending env digest v (first_state k c) = (s1, f)"
    by (cases "finish_pending env digest v (first_state k c)")
  obtain s2 l where l: "archive_loop fuel env digest v q s1 = (s2, l)" by (cases "archive_loop fuel env digest v q s1")
  note 1 = assms(3) [OF f assms(2)] and 2 = assms(4) [OF l assms(3) [OF f assms(2)]]
  have r: "P (fst (retention_event env v q err t))" if "P t" for err t
    using assms(5) [of err t "fst (retention_event env v q err t)" "snd (retention_event env v q err t)"] that by simp
  have r': "P s" if "retention_event env v q err t = (s, x)" "P t" for err t x by (rule assms(5) [OF that])
  show ?thesis
    using assms(1,2) f l 1 2 r r'
    by (auto simp: archive_closed_segments_def Let_def split: option.splits prod.splits sum.splits)
qed

lemma archive_run_ok:
  assumes "archive_closed_segments fuel env digest err_text v q k c = (s, r)"
    and "ar_inside q \<or> archive_apart env (ar_dir q)" "journal_apart (se_place env) (js_closed (journal_of env k))"
  shows "run_ok (se_path env) digest k s"
proof (cases "ar_inside q")
  case True
  then have "archive_refusal env k q \<noteq> None" by (auto simp: archive_refusal_def split: sum.split)
  then have "s = first_state k c" using assms(1) by (auto simp: archive_closed_segments_def)
  then show ?thesis by (simp add: run_ok_def first_state_def)
next
  case False
  with assms(2) have apart: "archive_apart env (ar_dir q)" by blast
  have start: "as_disk (first_state k c) = k" by (simp add: first_state_def)
  show ?thesis
    by (rule run_keeps [where P = "run_ok (se_path env) digest k", OF assms(1)])
       (simp add: run_ok_def first_state_def, erule finish_pending_ok, assumption, unfold start, rule assms(3),
        erule archive_loop_ok [OF _ apart], assumption, erule retention_event_ok, assumption)
qed

section \<open>A run ends\<close>

text \<open>
  What the rounds still have to do: the closed segments to archive and the rotation to finish; nothing more once the
  journal is broken. A cache that is not stale stands for a journal without a pending intent.
\<close>

definition settled :: "journal_state \<Rightarrow> bool" where
  "settled js = (js_pending js = None \<and> js_error js = None \<and> js_whole js)"

definition still_live :: "journal_state \<Rightarrow> seg_entry list" where
  "still_live js = filter (\<lambda>e. \<not> archived e) (js_closed js)"

definition journal_size :: "journal_state \<Rightarrow> nat" where
  "journal_size js = (if js_error js \<noteq> None then 0 else Suc (length (still_live js) + (if js_pending js = None then 0 else 2)))"

definition journal_at :: "string \<Rightarrow> directory \<Rightarrow> journal_state" where
  "journal_at p d = parse_journal (d (journal_path_for p))"

definition sane :: "writer_cache \<Rightarrow> bool" where
  "sane c = (wc_pending c \<or> settled (parse_journal (snd (wc_key c))))"

lemma recover_sane: "recover validate p d = Some c \<Longrightarrow> sane c"
  using recover_fields [of validate p d c] by (auto simp: sane_def settled_def disk_key_def)

lemma add_record:
  assumes "journal_clean raw cs pend" "tf_tail (file_of raw) = None"
    and "js = parse_journal (Some (add_line (Doc (JObj rec)) (file_of raw)))"
  shows "js_error js \<noteq> None \<or> js_error js = None \<and> js_whole js \<and> journal_op rec cs pend = Some (js_closed js, js_pending js)"
proof (cases "journal_op rec cs pend")
  case None
  then have "js_error js \<noteq> None"
    using assms by (simp add: parse_journal_def journal_clean_def add_line_def journal_lines_append)
  then show ?thesis ..
next
  case (Some r)
  obtain cs' pend' where r: "r = (cs', pend')" by (cases r)
  note add = journal_clean_add [OF assms(1,2) Some [unfolded r]]
  have "js_closed js = cs'" "js_pending js = pend'" "js_error js = None"
    using add(1) unfolding journal_clean_parse assms(3) [symmetric] by blast+
  moreover have "js_whole js" using journal_whole [OF add(1)] add(2) by (simp add: assms(3) file_of_def)
  ultimately show ?thesis using Some r by simp
qed

lemma settled_clean: "settled (parse_journal raw) \<Longrightarrow> journal_clean raw (js_closed (parse_journal raw)) None \<and> tf_tail (file_of raw) = None"
  using journal_whole [of raw "js_closed (parse_journal raw)" None] by (auto simp: settled_def journal_clean_parse)

text \<open>Repairing leaves a broken journal or a settled one, with at most the pending segment closed.\<close>

lemma cut_journal:
  fixes p d
  defines "js \<equiv> journal_at p d" 
  defines "d' \<equiv> apply_writes p (if js_whole js then [] else [TruncateJournal]) d"
  assumes "js_error js = None"
  shows "journal_clean (d' (journal_path_for p)) (js_closed js) (js_pending js)" "tf_tail (file_of (d' (journal_path_for p))) = None"
    "\<And>n. n \<noteq> journal_path_for p \<Longrightarrow> d' n = d n"
proof -
  have c: "journal_clean (d (journal_path_for p)) (js_closed js) (js_pending js)"
    using assms(3) unfolding js_def journal_at_def journal_clean_parse by simp
  show "journal_clean (d' (journal_path_for p)) (js_closed js) (js_pending js)"
    using c journal_clean_cut(1) [OF c] by (simp add: d'_def apply_writes_def)
  show "tf_tail (file_of (d' (journal_path_for p))) = None"
    using journal_whole [OF c] by (auto simp: d'_def apply_writes_def journal_clean_cut(2) js_def journal_at_def)
  show "\<And>n. n \<noteq> journal_path_for p \<Longrightarrow> d' n = d n" by (simp add: d'_def apply_writes_def)
qed

lemma ending_op:
  assumes "journal_op rec cs (Some e) = Some (cs', pend')" "str_at ''op'' rec \<in> {''rotate-commit'', ''rotate-abort''}"
  shows "pend' = None \<and> (\<exists>rest. cs' = cs @ rest \<and> length rest \<le> 1)"
  using assms by (auto simp: journal_op_def Let_def split: if_splits)

lemma reconcile_shape:
  assumes "reconcile_writes validate now p d = (ws, Inr r)"
  shows "js_error (journal_at p d) = None" "\<exists>xs. ws = (if js_whole (journal_at p d) then [] else [TruncateJournal]) @ xs
    \<and> (\<forall>d'. case js_pending (journal_at p d) of
          None \<Rightarrow> apply_writes p xs d' (journal_path_for p) = d' (journal_path_for p)
        | Some e \<Rightarrow> \<exists>rec. str_at ''op'' rec \<in> {''rotate-commit'', ''rotate-abort''}
            \<and> apply_writes p xs d' (journal_path_for p) = Some (add_line (Doc (JObj rec)) (file_of (d' (journal_path_for p)))))"
proof -
  show "js_error (journal_at p d) = None"
    using assms by (auto simp: reconcile_writes_def journal_at_def Let_def split: if_splits)
  note J = journal_at_def
  show "\<exists>xs. ws = (if js_whole (journal_at p d) then [] else [TruncateJournal]) @ xs
    \<and> (\<forall>d'. case js_pending (journal_at p d) of
          None \<Rightarrow> apply_writes p xs d' (journal_path_for p) = d' (journal_path_for p)
        | Some e \<Rightarrow> \<exists>rec. str_at ''op'' rec \<in> {''rotate-commit'', ''rotate-abort''}
            \<and> apply_writes p xs d' (journal_path_for p) = Some (add_line (Doc (JObj rec)) (file_of (d' (journal_path_for p)))))"
  proof (cases "js_pending (journal_at p d)")
    case None
    then have "ws = (if js_whole (journal_at p d) then [] else [TruncateJournal]) @ [RemoveTmp]"
      using assms by (auto simp: reconcile_writes_def J Let_def split: if_splits)
    with None show ?thesis using names_apart [of p] by (intro exI [of _ "[RemoveTmp]"]) (simp add: apply_writes_def)
  next
    case (Some e)
    then obtain pre rec where ws: "ws = (if js_whole (journal_at p d) then [] else [TruncateJournal]) @ pre @ [AppendJournal rec]"
      "str_at ''op'' rec \<in> {''rotate-commit'', ''rotate-abort''}" "pre \<in> {[RemoveTmp], []} \<or> (\<exists>rot. pre = [WriteTmp rot, InstallTmp])"
    proof (cases "d (en_file e)")
      case None
      with Some assms show ?thesis
        by (intro that [of "[RemoveTmp]" "abort_record (en_n e) now RECOVERED"])
           (auto simp: reconcile_writes_def J Let_def abort_record_def str_at_def split: if_splits)
    next
      case (Some f)
      with \<open>js_pending (journal_at p d) = Some e\<close> assms obtain vs where vs: "roll_forward validate now p d e f = Inr vs"
        "ws = (if js_whole (journal_at p d) then [] else [TruncateJournal]) @ vs"
        by (auto simp: reconcile_writes_def J Let_def split: if_splits sum.splits)
      then obtain pre rot where "vs = pre @ [AppendJournal (commit_record (en_n e) (ev_hash rot) now @ [(''recovered'', JBool True)])]"
        "pre = [] \<or> pre = [WriteTmp rot, InstallTmp]"
        by (auto simp: roll_forward_def Let_def split: option.splits if_splits)
      with vs(2) show ?thesis
        by (intro that [of pre "commit_record (en_n e) (ev_hash rot) now @ [(''recovered'', JBool True)]"])
           (auto simp: commit_record_def str_at_def)
    qed
    then have "apply_writes p (pre @ [AppendJournal rec]) d' (journal_path_for p) = Some (add_line (Doc (JObj rec)) (file_of (d' (journal_path_for p))))" for d'
      using names_apart [of p] by (auto simp: apply_writes_def append_line_at move_file_def)
    with Some ws(1,2) show ?thesis by (intro exI [of _ "pre @ [AppendJournal rec]"]) auto
  qed
qed

lemma reconcile_settles:
  assumes "reconcile_writes validate now p d = (ws, Inr r)"
  shows "js_error (journal_at p (apply_writes p ws d)) \<noteq> None \<or> settled (journal_at p (apply_writes p ws d))
    \<and> (\<exists>rest. js_closed (journal_at p (apply_writes p ws d)) = js_closed (journal_at p d) @ rest
         \<and> length rest \<le> (if js_pending (journal_at p d) = None then 0 else 1))"
proof -
  let ?cut = "if js_whole (journal_at p d) then [] else [TruncateJournal]" and ?j = "journal_path_for p"
  note err = reconcile_shape(1) [OF assms]
  obtain xs where xs: "ws = ?cut @ xs" "\<forall>d'. case js_pending (journal_at p d) of
          None \<Rightarrow> apply_writes p xs d' ?j = d' ?j
        | Some e \<Rightarrow> \<exists>rec. str_at ''op'' rec \<in> {''rotate-commit'', ''rotate-abort''}
            \<and> apply_writes p xs d' ?j = Some (add_line (Doc (JObj rec)) (file_of (d' ?j)))"
    using reconcile_shape(2) [OF assms] by blast
  define d1 where "d1 = apply_writes p ?cut d"
  note cut = cut_journal(1,2) [OF err, folded d1_def]
  have d2: "apply_writes p ws d = apply_writes p xs d1" by (simp add: xs(1) d1_def apply_writes_def)
  show ?thesis
  proof (cases "js_pending (journal_at p d)")
    case None
    then have "apply_writes p ws d ?j = d1 ?j" using spec [OF xs(2), of d1] by (simp add: d2)
    then show ?thesis using cut None journal_whole [OF cut(1)]
      by (simp add: journal_at_def settled_def journal_clean_parse)
  next
    case (Some e)
    obtain rec where rec: "str_at ''op'' rec \<in> {''rotate-commit'', ''rotate-abort''}"
      "apply_writes p ws d ?j = Some (add_line (Doc (JObj rec)) (file_of (d1 ?j)))"
      using spec [OF xs(2), of d1] Some by (auto simp: d2)
    have js: "journal_at p (apply_writes p ws d) = parse_journal (Some (add_line (Doc (JObj rec)) (file_of (d1 ?j))))"
      by (simp add: journal_at_def rec(2))
    from add_record [OF cut this] show ?thesis
      using ending_op [of rec "js_closed (journal_at p d)" e] rec(1) Some by (auto simp: settled_def)
  qed
qed

lemma fresh_settles:
  assumes "ensure_fresh validate now p d c = (ws, Inr c')" "sane c"
  shows "sane c'" "js_error (journal_at p (apply_writes p ws d)) \<noteq> None \<or> settled (journal_at p (apply_writes p ws d))
    \<and> (\<exists>rest. js_closed (journal_at p (apply_writes p ws d)) = js_closed (journal_at p d) @ rest
         \<and> length rest \<le> (if js_pending (journal_at p d) = None then 0 else 1))"
proof -
  consider "ws = []" "c' = c" "disk_key p d = wc_key c" "\<not> wc_pending c"
    | "ws = []" "recover validate p d = Some c'" "\<not> wc_pending c'"
    | r where "reconcile_writes validate now p d = (ws, Inr r)" "recover validate p (apply_writes p ws d) = Some c'"
    using assms(1) by (auto simp: ensure_fresh_def split: if_splits option.splits prod.splits sum.splits)
  then have "sane c' \<and> (js_error (journal_at p (apply_writes p ws d)) \<noteq> None \<or> settled (journal_at p (apply_writes p ws d))
    \<and> (\<exists>rest. js_closed (journal_at p (apply_writes p ws d)) = js_closed (journal_at p d) @ rest
         \<and> length rest \<le> (if js_pending (journal_at p d) = None then 0 else 1)))"
  proof cases
    case 1
    have "wc_key c = disk_key p d" using 1(3) by simp
    then show ?thesis using assms(2) 1(1,2,4) by (simp add: apply_writes_def sane_def journal_at_def disk_key_def)
  next
    case 2
    have "sane c'" by (rule recover_sane [OF 2(2)])
    then show ?thesis using 2(1,3) recover_fields(1) [OF 2(2)] by (auto simp: apply_writes_def sane_def journal_at_def disk_key_def)
  next
    case 3
    have "sane c'" by (rule recover_sane [OF 3(2)])
    with reconcile_settles [OF 3(1)] show ?thesis by blast
  qed
  then show "sane c'" "js_error (journal_at p (apply_writes p ws d)) \<noteq> None \<or> settled (journal_at p (apply_writes p ws d))
    \<and> (\<exists>rest. js_closed (journal_at p (apply_writes p ws d)) = js_closed (journal_at p d) @ rest
         \<and> length rest \<le> (if js_pending (journal_at p d) = None then 0 else 1))" by blast+
qed

lemma ledger_writes_dir: "ad_dir (apply_archives p (map LedgerWrite ws) k) = apply_writes p ws (ad_dir k)"
  by (induction ws arbitrary: k) (auto simp: apply_writes_def)

lemma sidecar_dir: "write_sidecar k path side = Inr (ws, b) \<Longrightarrow> ad_dir (apply_archives p ws k') = ad_dir k'"
  using sidecar_safe by blast

text \<open>The plan names the first closed segment that is still live.\<close>

lemma live_views: "fst (closed_views es prev g) = [] \<longleftrightarrow> filter (\<lambda>e. \<not> archived e) es = []"
  "fst (closed_views es prev g) \<noteq> [] \<Longrightarrow> sv_number (hd (fst (closed_views es prev g))) = en_n (hd (filter (\<lambda>e. \<not> archived e) es))"
  by (induction es arbitrary: prev g) (auto simp: split_def closed_view_def)

lemma find_hd: "xs \<noteq> [] \<Longrightarrow> P (hd xs) \<Longrightarrow> find P xs = Some (hd xs)"
  by (cases xs) auto

lemma plan_entry:
  assumes "plan_archive env digest k adir cutoff operator = Inr (Some pl)"
  shows "still_live (journal_of env k) \<noteq> []" "pl_entry pl = hd (still_live (journal_of env k))" "js_error (journal_of env k) = None"
    "pl_dst pl = out_path adir (en_file (pl_entry pl))"
proof -
  let ?js = "journal_of env k" and ?ly = "layout_of (se_path env) (ad_dir k)"
  have ly: "?ly = resolve_layout (se_path env) ?js (exists_in (ad_dir k))" by (simp add: layout_of_def journal_of_def)
  obtain seg rest e where p: "ly_error ?ly = None" "ly_segs ?ly = seg # rest" "sv_closed seg" "pl_entry pl = e"
    "find (\<lambda>e. en_n e = sv_number seg) (filter (\<lambda>e. \<not> archived e) (js_closed (ly_journal ?ly))) = Some e"
    "pl_dst pl = out_path adir (en_file e)"
    using assms by (auto simp: plan_archive_def Let_def split: if_splits list.splits option.splits json.splits)
  have present: "js_present ?js"
    by (rule ccontr) (use p(2,3) in \<open>auto simp: ly resolve_layout_def single_view_def\<close>)
  have js: "ly_journal ?ly = ?js" using layout_archived [OF present] by (simp add: ly)
  then have live: "filter (\<lambda>e. \<not> archived e) (js_closed (ly_journal ?ly)) = still_live ?js" by (simp add: still_live_def)
  show ne: "still_live ?js \<noteq> []" using p(5) live by auto
  show "js_error ?js = None" using p(1) present by (simp add: ly resolve_layout_def Let_def split: prod.splits)
  let ?cv = "closed_views (js_closed ?js) None GENESIS_HASH"
  have "fst ?cv \<noteq> []" "sv_number (hd (fst ?cv)) = en_n (hd (still_live ?js))"
    using live_views [of "js_closed ?js" None GENESIS_HASH] ne by (auto simp: still_live_def)
  moreover have "seg = hd (fst ?cv)" if "fst ?cv \<noteq> []"
    using p(2) present that by (cases ?cv; cases "fst ?cv") (auto simp: ly resolve_layout_def Let_def split: if_splits)
  ultimately have "sv_number seg = en_n (hd (still_live ?js))" by simp
  with p(5) live find_hd [OF ne, of "\<lambda>e. en_n e = sv_number seg"] show "pl_entry pl = hd (still_live ?js)" using p(4) by simp
  show "pl_dst pl = out_path adir (en_file (pl_entry pl))" using p(4,6) by simp
qed

lemma archive_first_live:
  "archive_first rec es = Some es' \<Longrightarrow> map_of rec ''archived_to'' = Some j \<Longrightarrow> truthy j \<Longrightarrow>
     Suc (length (filter (\<lambda>e. \<not> archived e) es')) = length (filter (\<lambda>e. \<not> archived e) es)"
proof (induction es arbitrary: es')
  case (Cons e es)
  then show ?case by (auto simp: archived_def split: if_splits)
qed simp

lemma archive_op_live:
  assumes "journal_op (archive_record e dst sha now operator) cs None = Some (cs', pend')" "dst \<noteq> []"
  shows "pend' = None \<and> Suc (length (filter (\<lambda>e. \<not> archived e) cs')) = length (filter (\<lambda>e. \<not> archived e) cs)"
proof -
  have op: "str_at ''op'' (archive_record e dst sha now operator) = ''archive''" "map_of (archive_record e dst sha now operator) ''archived_to'' = Some (JStr dst)"
    by (simp_all add: archive_record_def str_at_def)
  then have "archive_first (archive_record e dst sha now operator) cs = Some cs'" "pend' = None"
    using assms(1) by (auto simp: journal_op_def Let_def split: if_splits)
  with archive_first_live [OF this(1) op(2)] assms(2) show ?thesis by simp
qed

lemma size_settled: "settled js \<Longrightarrow> journal_size js = Suc (length (still_live js))"
  by (simp add: settled_def journal_size_def)

lemma absent_size: "journal_size (parse_journal None) = 1"
  by (simp add: parse_journal_def journal_size_def still_live_def)

text \<open>A move leaves the journal alone, or (a journal that names itself) removes it; a file never replaces it.\<close>

lemma move_journal:
  "move_one digest answer k src dst sha = (ws, oc) \<Longrightarrow> dst \<noteq> LivePath (journal_path_for p) \<or> ad_dir k (journal_path_for p) \<noteq> None \<Longrightarrow>
     (let d = ad_dir (apply_archives p ws k) in d (journal_path_for p) = ad_dir k (journal_path_for p) \<or> d (journal_path_for p) = None)"
  by (auto simp: move_one_def place_simps Let_def split: option.splits if_splits rename_answer.splits place.splits)

lemma commit_shrinks:
  assumes "commit_archive env digest v q pl created s = (t, LoopGoes)"
    and "sane (as_cache s)"
    and "pl_entry pl = hd (still_live (journal_of env (as_disk s)))" "still_live (journal_of env (as_disk s)) \<noteq> []"
    and "js_error (journal_of env (as_disk s)) = None" "pl_dst pl \<noteq> []"
  shows "sane (as_cache t) \<and> journal_size (journal_of env (as_disk t)) < journal_size (journal_of env (as_disk s))"
proof -
  let ?p = "se_path env" and ?e = "pl_entry pl"
  let ?rec = "archive_record ?e (pl_dst pl) (pl_digest pl) (av_now v) (py_strip (ar_operator q))"
  obtain ws r where fr: "ensure_fresh (se_validate env) (av_now v) ?p (ad_dir (as_disk s)) (as_cache s) = (ws, r)"
    by (cases "ensure_fresh (se_validate env) (av_now v) ?p (ad_dir (as_disk s)) (as_cache s)")
  obtain c where c: "r = Inr c" using assms(1) fr by (cases r) (auto simp: commit_archive_def Let_def)
  note fr = fr [unfolded c]
  define s1 where "s1 = (wrote ?p (map LedgerWrite ws) s)\<lparr>as_cache := c\<rparr>"
  have d1: "ad_dir (as_disk s1) = apply_writes ?p ws (ad_dir (as_disk s))" by (simp add: s1_def ledger_writes_dir)
  have j: "journal_of env k = journal_at ?p (ad_dir k)" for k by (simp add: journal_of_def journal_at_def)
  let ?js = "journal_of env (as_disk s1)"
  have err: "js_error ?js = None"
    using assms(1) unfolding commit_archive_def Let_def fr prod.case sum.case s1_def [symmetric]
    by (cases "js_error ?js") (simp_all split: if_split_asm)
  obtain rest where rest: "settled ?js" "js_closed ?js = js_closed (journal_of env (as_disk s)) @ rest"
    "length rest \<le> (if js_pending (journal_of env (as_disk s)) = None then 0 else 1)"
    using fresh_settles(2) [OF fr assms(2)] err by (auto simp: j d1)
  have live: "still_live ?js \<noteq> []" "hd (still_live ?js) = ?e"
    using assms(3,4) by (simp_all add: still_live_def rest(2))
  have "length (still_live ?js) \<le> length (still_live (journal_of env (as_disk s))) + length rest"
    by (simp add: still_live_def rest(2))
  then have size: "journal_size ?js \<le> journal_size (journal_of env (as_disk s))"
    using rest(3) assms(5) size_settled [OF rest(1)] by (auto simp: journal_size_def split: if_splits)
  define s2 where "s2 = wrote ?p [LedgerWrite (AppendJournal ?rec)] s1"
  obtain c2 where c2: "recover (se_validate env) ?p (ad_dir (as_disk s2)) = Some c2"
    "as_disk t = apply_archives ?p (fst (move_one digest (av_answer v) (as_disk s2) (pl_src pl) (se_place env (pl_dst pl)) (JStr (pl_digest pl)))) (as_disk s2)"
    "as_cache t = c2"
    using assms(1) rest(1) live(1,2) err unfolding commit_archive_def Let_def fr prod.case sum.case s1_def [symmetric] s2_def [symmetric]
      settled_def still_live_def
    by (simp split: if_split_asm option.split_asm) (use that in auto)
  have js2: "journal_of env (as_disk s2) = parse_journal (Some (add_line (Doc (JObj ?rec)) (file_of (ad_dir (as_disk s1) (journal_path_for ?p)))))"
    by (simp add: journal_of_def s2_def append_line_at)
  have present: "ad_dir (as_disk s2) (journal_path_for ?p) \<noteq> None" by (simp add: s2_def append_line_at)
  note clean = settled_clean [OF rest(1) [unfolded journal_of_def]]
  have size2: "journal_size (journal_of env (as_disk s2)) < journal_size ?js"
    using add_record [OF conjunct1 [OF clean] conjunct2 [OF clean] js2] archive_op_live [OF _ assms(6)] size_settled [OF rest(1)]
    by (fastforce simp: journal_size_def still_live_def journal_of_def)
  obtain ms oc where m: "move_one digest (av_answer v) (as_disk s2) (pl_src pl) (se_place env (pl_dst pl)) (JStr (pl_digest pl)) = (ms, oc)"
    by (cases "move_one digest (av_answer v) (as_disk s2) (pl_src pl) (se_place env (pl_dst pl)) (JStr (pl_digest pl))")
  have t: "as_disk t = apply_archives ?p ms (as_disk s2)" using c2(2) m by simp
  have "sane (as_cache t)" unfolding c2(3) by (rule recover_sane [OF c2(1)])
  moreover have "journal_size (journal_of env (as_disk t)) < journal_size (journal_of env (as_disk s))"
  proof -
    have "1 < journal_size ?js" using live(1) by (simp add: size_settled [OF rest(1)])
    moreover have "journal_size (journal_of env (as_disk t)) \<in> {journal_size (journal_of env (as_disk s2)), 1}"
      using move_journal [OF m, of ?p] present absent_size by (auto simp: Let_def t journal_of_def)
    ultimately show ?thesis using size size2 by auto
  qed
  ultimately show ?thesis ..
qed

lemma archive_one_shrinks:
  assumes "archive_one env digest v q s = (t, LoopGoes)" "sane (as_cache s)"
  shows "sane (as_cache t) \<and> journal_size (journal_of env (as_disk t)) < journal_size (journal_of env (as_disk s))"
proof -
  obtain pl s1 ws created where p: "plan_archive env digest (as_disk s) (ar_dir q) (ar_cutoff q) (py_strip (ar_operator q)) = Inr (Some pl)"
    "verify_once env digest s = Inr s1" "write_sidecar (as_disk s1) (sidecar_path (pl_dst pl)) (pl_side pl) = Inr (ws, created)"
    "commit_archive env digest v q pl created (wrote (se_path env) ws s1) = (t, LoopGoes)"
    using assms(1) by (auto simp: archive_one_def split: sum.splits option.splits prod.splits if_splits)
  have cache: "as_cache s1 = as_cache s" using p(2) by (auto simp: verify_once_def bindE_def split: if_splits sum.splits)
  have j: "journal_of env (as_disk (wrote (se_path env) ws s1)) = journal_of env (as_disk s)"
    using sidecar_dir [OF p(3)] verify_once_ok [OF p(2)] by (simp add: journal_of_def)
  note pe = plan_entry [OF p(1)]
  show ?thesis
    using commit_shrinks [OF p(4)] assms(2) pe cache unfolding j by (simp add: out_path_def)
qed

lemma archive_loop_ends:
  "sane (as_cache s) \<Longrightarrow> journal_size (journal_of env (as_disk s)) < fuel \<Longrightarrow> snd (archive_loop fuel env digest v q s) \<noteq> None"
proof (induction fuel arbitrary: s)
  case (Suc fuel)
  obtain t ans where o: "archive_one env digest v q s = (t, ans)" by (cases "archive_one env digest v q s")
  show ?case
  proof (cases ans)
    case LoopGoes
    with archive_one_shrinks [of env digest v q s t] o Suc.prems have "sane (as_cache t)" "journal_size (journal_of env (as_disk t)) < fuel" by auto
    from Suc.IH [OF this] show ?thesis by (simp add: o LoopGoes)
  qed (simp_all add: o)
qed simp

section \<open>What a hold stops\<close>

definition archive_write_of :: "int \<Rightarrow> archive_write \<Rightarrow> bool" where
  "archive_write_of n w = (\<exists>rec. w = LedgerWrite (AppendJournal rec) \<and> str_at ''op'' rec = ''archive'' \<and> int_at ''n'' rec = n)"

definition untouched :: "int \<Rightarrow> archive_state \<Rightarrow> bool" where
  "untouched n s = (n \<notin> set (as_archived s) \<and> (\<forall>w \<in> set (as_writes s). \<not> archive_write_of n w))"

definition no_archive :: "archive_write list \<Rightarrow> bool" where
  "no_archive ws = (\<forall>n. \<forall>w \<in> set ws. \<not> archive_write_of n w)"

lemma no_archive_simps [simp]: "no_archive []" "no_archive (w # ws) \<longleftrightarrow> (\<forall>n. \<not> archive_write_of n w) \<and> no_archive ws"
  "no_archive (ws @ ws') \<longleftrightarrow> no_archive ws \<and> no_archive ws'"
  by (auto simp: no_archive_def)

lemma archive_write_simps [simp]:
  "\<not> archive_write_of n (WriteSidecar path d)" "\<not> archive_write_of n (DropSidecar path)" "\<not> archive_write_of n (MoveOut src dst)"
  "\<not> archive_write_of n (DropSource src)" "archive_write_of n (LedgerWrite w) \<longleftrightarrow>
     (case w of AppendJournal rec \<Rightarrow> str_at ''op'' rec = ''archive'' \<and> int_at ''n'' rec = n | _ \<Rightarrow> False)"
  by (auto simp: archive_write_of_def split: disk_write.splits)

lemma roll_forward_no_archive: "roll_forward validate now p d e f = Inr ws \<Longrightarrow> no_archive (map LedgerWrite ws)"
  by (auto simp: roll_forward_def Let_def commit_record_def str_at_def split: if_splits option.splits)

lemma reconcile_no_archive: "reconcile_writes validate now p d = (ws, r) \<Longrightarrow> no_archive (map LedgerWrite ws)"
  by (auto simp: reconcile_writes_def Let_def abort_record_def str_at_def split: if_splits option.splits sum.splits
      dest: roll_forward_no_archive)

lemma fresh_no_archive: "ensure_fresh validate now p d c = (ws, r) \<Longrightarrow> no_archive (map LedgerWrite ws)"
  by (auto simp: ensure_fresh_def split: if_splits option.splits prod.splits sum.splits dest: reconcile_no_archive)

lemma own_append_no_archive: "own_append env d c w t pl = (ws, r) \<Longrightarrow> no_archive (map LedgerWrite ws)"
  by (auto simp: own_append_def append_writes_def split: sum.splits prod.splits option.splits dest: fresh_no_archive)

lemma move_no_archive: "move_one digest answer k src dst sha = (ws, oc) \<Longrightarrow> no_archive ws"
  by (auto simp: move_one_def split: option.splits if_splits rename_answer.splits)

lemma complete_no_archive: "complete_moves p resolve digest answer es k = (ws, r) \<Longrightarrow> no_archive ws"
proof (induction es arbitrary: k ws r)
  case (Cons e es)
  then show ?case by (fastforce split: if_splits option.splits json.splits prod.splits sum.splits dest: move_no_archive)
qed simp

lemma untouched_wrote: "untouched n s \<Longrightarrow> no_archive ws \<Longrightarrow> untouched n (wrote p ws s)"
  by (auto simp: untouched_def no_archive_def)

lemma untouched_cong: "untouched n s \<Longrightarrow> as_writes t = as_writes s \<Longrightarrow> as_archived t = as_archived s \<Longrightarrow> untouched n t"
  by (simp add: untouched_def)

lemma commit_untouched:
  assumes "commit_archive env digest v q pl created s = (t, ans)" "untouched n s" "av_hold2 v n \<or> en_n (pl_entry pl) \<noteq> n"
  shows "untouched n t"
proof -
  let ?p = "se_path env" and ?e = "pl_entry pl"
  let ?rec = "archive_record ?e (pl_dst pl) (pl_digest pl) (av_now v) (py_strip (ar_operator q))"
  obtain ws r where fr: "ensure_fresh (se_validate env) (av_now v) ?p (ad_dir (as_disk s)) (as_cache s) = (ws, r)"
    by (cases "ensure_fresh (se_validate env) (av_now v) ?p (ad_dir (as_disk s)) (as_cache s)")
  have 1: "untouched n (wrote ?p (map LedgerWrite ws) s)" by (rule untouched_wrote [OF assms(2) fresh_no_archive [OF fr]])
  show ?thesis
  proof (cases r)
    case (Inl x)
    then show ?thesis using assms(1) 1 by (simp add: commit_archive_def Let_def fr)
  next
    case (Inr c)
    define s1 where "s1 = (wrote ?p (map LedgerWrite ws) s)\<lparr>as_cache := c\<rparr>"
    have s1: "untouched n s1" by (rule untouched_cong [OF 1]) (simp_all add: s1_def)
    define s2 where "s2 = wrote ?p [LedgerWrite (AppendJournal ?rec)] s1"
    have rec: "archive_write_of n (LedgerWrite (AppendJournal ?rec)) \<longleftrightarrow> en_n ?e = n"
      by (simp add: archive_record_def str_at_def int_at_def)
    consider "t = s1" | "t = wrote ?p [DropSidecar (sidecar_path (pl_dst pl))] s1" | "t = wrote ?p [] s1" | "\<not> av_hold2 v (en_n ?e)" "t = s2"
      | ms where "\<not> av_hold2 v (en_n ?e)" "as_writes t = as_writes s2 @ ms" "no_archive ms" "as_archived t = as_archived s2 @ [en_n ?e]"
    proof -
      have "t \<in> {s1, wrote ?p [DropSidecar (sidecar_path (pl_dst pl))] s1, wrote ?p [] s1} \<or> \<not> av_hold2 v (en_n ?e) \<and> (t = s2 \<or>
        (\<exists>ms. as_writes t = as_writes s2 @ ms \<and> no_archive ms \<and> as_archived t = as_archived s2 @ [en_n ?e]))"
        using assms(1) unfolding commit_archive_def Let_def fr Inr prod.case sum.case s1_def [symmetric] s2_def [symmetric]
        by (auto split: if_split_asm option.split_asm intro: move_no_archive [OF prod.collapse [symmetric]])
      with that show ?thesis by blast
    qed
    then show ?thesis
    proof cases
      case 4
      then have "en_n ?e \<noteq> n" using assms(3) by auto
      then show ?thesis using 4 s1 rec by (auto simp: s2_def untouched_def)
    next
      case (5 ms)
      then have "en_n ?e \<noteq> n" using assms(3) by auto
      then show ?thesis using 5 s1 rec by (auto simp: s2_def untouched_def no_archive_def)
    qed (use s1 untouched_wrote [OF s1] in auto)
  qed
qed

lemma archive_one_untouched:
  assumes "archive_one env digest v q s = (t, ans)" "untouched n s" "av_hold1 v n \<or> av_hold2 v n"
  shows "untouched n t"
proof -
  have side: "no_archive ws" if "write_sidecar k path side = Inr (ws, created)" for k path side ws created
    using that by (auto simp: write_sidecar_def split: option.splits if_splits)
  have "t = s \<or> (\<exists>s1. verify_once env digest s = Inr s1 \<and> (t = s1 \<or> (\<exists>pl ws created. \<not> av_hold1 v (en_n (pl_entry pl))
      \<and> write_sidecar (as_disk s1) (sidecar_path (pl_dst pl)) (pl_side pl) = Inr (ws, created)
      \<and> commit_archive env digest v q pl created (wrote (se_path env) ws s1) = (t, ans))))"
    using assms(1) by (simp add: archive_one_def split: sum.split_asm option.split_asm prod.split_asm if_split_asm) blast
  then consider "t = s" | s1 where "verify_once env digest s = Inr s1" "t = s1" | s1 pl ws created where
      "verify_once env digest s = Inr s1" "\<not> av_hold1 v (en_n (pl_entry pl))"
      "write_sidecar (as_disk s1) (sidecar_path (pl_dst pl)) (pl_side pl) = Inr (ws, created)"
      "commit_archive env digest v q pl created (wrote (se_path env) ws s1) = (t, ans)" by blast
  then show ?thesis
  proof cases
    case (2 s1)
    then show ?thesis using untouched_cong [OF assms(2)] verify_once_ok [OF 2(1)] by blast
  next
    case (3 s1 pl ws created)
    have "untouched n s1" by (rule untouched_cong [OF assms(2)]) (use verify_once_ok [OF 3(1)] in blast)+
    from commit_untouched [OF 3(4) untouched_wrote [OF this side [OF 3(3)]]] assms(3) 3(2) show ?thesis by blast
  qed (use assms(2) in simp)
qed

lemma archive_loop_untouched:
  "archive_loop fuel env digest v q s = (t, r) \<Longrightarrow> untouched n s \<Longrightarrow> av_hold1 v n \<or> av_hold2 v n \<Longrightarrow> untouched n t"
proof (induction fuel arbitrary: s)
  case (Suc fuel)
  obtain s1 ans where o: "archive_one env digest v q s = (s1, ans)" by (cases "archive_one env digest v q s")
  note ok = archive_one_untouched [OF o Suc.prems(2,3)]
  show ?case using Suc.prems(1,3) o ok Suc.IH [OF _ ok] by (cases ans) auto
qed simp

lemma finish_untouched: "finish_pending env digest v s = (t, x) \<Longrightarrow> untouched n s \<Longrightarrow> untouched n t"
  by (auto simp: finish_pending_def Let_def untouched_def no_archive_def split: if_splits sum.splits prod.splits
      dest!: complete_no_archive)

lemma retention_untouched: "retention_event env v q err s = (t, x) \<Longrightarrow> untouched n s \<Longrightarrow> untouched n t"
  by (auto simp: retention_event_def split: if_splits prod.splits intro!: untouched_wrote dest: own_append_no_archive)

definition journal_unnamed :: "string \<Rightarrow> (string \<Rightarrow> place) \<Rightarrow> seg_entry list \<Rightarrow> bool" where
  "journal_unnamed p resolve es = list_all (\<lambda>e. case en_archived_to e of
     Some (JStr to) \<Rightarrow> resolve to \<noteq> LivePath (journal_path_for p) | _ \<Rightarrow> True) es"

lemma complete_journal:
  "complete_moves p resolve digest answer es k = (ws, r) \<Longrightarrow> journal_unnamed p resolve es \<Longrightarrow>
     (let d = ad_dir (apply_archives p ws k) in d (journal_path_for p) = ad_dir k (journal_path_for p) \<or> d (journal_path_for p) = None)"
proof (induction es arbitrary: k ws r)
  case (Cons e es)
  have rest: "journal_unnamed p resolve es" using Cons.prems(2) by (simp add: journal_unnamed_def)
  show ?case
  proof (cases "archived e \<and> ad_dir k (en_file e) \<noteq> None \<and> (\<exists>dst sha. en_archived_to e = Some (JStr dst) \<and> en_archived_sha e = Some sha)")
    case False
    then have "complete_moves p resolve digest answer es k = (ws, r) \<or> ws = []"
      using Cons.prems(1) by (auto split: if_splits option.splits json.splits)
    then show ?thesis using Cons.IH rest by auto
  next
    case True
    then obtain dst sha where ds: "en_archived_to e = Some (JStr dst)" "en_archived_sha e = Some sha" by blast
    obtain ms oc where m: "move_one digest answer k (en_file e) (resolve dst) sha = (ms, oc)"
      by (cases "move_one digest answer k (en_file e) (resolve dst) sha")
    obtain ws' r' where c: "complete_moves p resolve digest answer es (apply_archives p ms k) = (ws', r')"
      by (cases "complete_moves p resolve digest answer es (apply_archives p ms k)")
    have ws: "ws = ms @ ws'" using Cons.prems(1) True ds m c by (cases r') auto
    have "resolve dst \<noteq> LivePath (journal_path_for p)" using Cons.prems(2) ds(1) by (simp add: journal_unnamed_def)
    then show ?thesis using move_journal [OF m, of p] Cons.IH [OF c rest] by (auto simp: ws Let_def)
  qed
qed simp

lemma finish_size:
  assumes "finish_pending env digest v s = (t, x)"
  shows "as_cache t = as_cache s"
    and "journal_unnamed (se_path env) (se_place env) (js_closed (journal_of env (as_disk s))) \<Longrightarrow>
      journal_size (journal_of env (as_disk t)) \<le> Suc (journal_size (journal_of env (as_disk s)))"
proof -
  obtain ws r where c: "complete_moves (se_path env) (se_place env) digest (av_answer v) (js_closed (journal_of env (as_disk s))) (as_disk s) = (ws, r)"
    by (cases "complete_moves (se_path env) (se_place env) digest (av_answer v) (js_closed (journal_of env (as_disk s))) (as_disk s)")
  have "as_cache t = as_cache s \<and> as_disk t \<in> {as_disk s, apply_archives (se_path env) ws (as_disk s)}"
    using assms by (auto simp: finish_pending_def Let_def c split: if_splits sum.splits)
  then show "as_cache t = as_cache s" "journal_unnamed (se_path env) (se_place env) (js_closed (journal_of env (as_disk s))) \<Longrightarrow>
      journal_size (journal_of env (as_disk t)) \<le> Suc (journal_size (journal_of env (as_disk s)))"
    using complete_journal [OF c] absent_size by (auto simp: journal_of_def Let_def)
qed

text \<open>
  A destination that names the segment's own file: the file is found at both paths, with the journaled digest, and the only
  copy is removed. The journal's archive line is what the code goes by; nothing refuses such a line.
\<close>

lemma self_move_removes_only_copy:
  assumes "resolve to = LivePath (en_file e)" "en_archived_to e = Some (JStr to)" "truthy (JStr to)"
    and "ad_dir k (en_file e) = Some f" "en_archived_sha e = Some (JStr (digest f))" "answer (en_file e) \<noteq> HeldOpen"
  shows "complete_moves p resolve digest answer [e] k = ([DropSource (en_file e)], Inr [en_n e])"
    and "file_at (apply_archives p [DropSource (en_file e)] k) (resolve to) = None"
  using assms by (simp_all add: archived_def move_one_def place_simps)

section \<open>The properties\<close>

text \<open>C37: wherever a retention run stops, every file of the ledger directory other than the store's own three is still there
  or a file with its digest is outside that directory, and no file outside it was changed or removed: when no path the
  journal gives as an archive destination names a file of the ledger directory, nor does a path in the archive directory
  of a request that is not refused as inside it. (A journaled destination that names the segment's own file loses it:
  \<open>self_move_removes_only_copy\<close>.)\<close>

theorem archive_loses_nothing:
  assumes "archive_closed_segments fuel env digest err_text v q k c = (s, r)"
    and "ar_inside q \<or> archive_apart env (ar_dir q)" "journal_apart (se_place env) (js_closed (journal_of env k))"
    and "name \<notin> own_names (se_path env)" "ad_dir k name = Some f"
  shows "still_held digest (apply_archives (se_path env) (take i (as_writes s)) k) name f
    \<and> (\<forall>path g. ad_out k path = Some g \<longrightarrow> ad_out (apply_archives (se_path env) (take i (as_writes s)) k) path = Some g)"
proof -
  have "all_safe (se_path env) digest k (take i (as_writes s))"
    using archive_run_ok [OF assms(1-3)] by (auto simp: run_ok_def intro: all_safe_take)
  moreover have "still_held digest k name f" using assms(5) by (simp add: still_held_def)
  ultimately show ?thesis by (rule safe_run [OF _ assms(4)])
qed

text \<open>C38: a retention run ends: with a cache that was read from some disk, some number of rounds is enough, and as many as
  the journal has live closed entries, and five more, unless a journaled archive destination names the journal itself.\<close>

theorem archive_run_ends:
  assumes "recover (se_validate env) (se_path env) d = Some c"
  shows "\<exists>rounds. (\<forall>fuel \<ge> rounds. snd (archive_closed_segments fuel env digest err_text v q k c) \<noteq> None)
    \<and> (journal_unnamed (se_path env) (se_place env) (js_closed (journal_of env k)) \<longrightarrow>
       rounds = length (still_live (journal_of env k)) + 5)"
proof -
  obtain s1 x where f: "finish_pending env digest v (first_state k c) = (s1, x)"
    by (cases "finish_pending env digest v (first_state k c)")
  note fin = finish_size [OF f]
  have sane: "sane (as_cache s1)" using fin(1) recover_sane [OF assms(1)] by (simp add: first_state_def)
  have ends: "snd (archive_closed_segments fuel env digest err_text v q k c) \<noteq> None"
    if "journal_size (journal_of env (as_disk s1)) < fuel" for fuel
    using archive_loop_ends [OF sane that, of digest v q] f
    by (auto simp: archive_closed_segments_def Let_def split: option.splits prod.splits sum.splits)
  have "journal_size (journal_of env k) \<le> length (still_live (journal_of env k)) + 3" by (simp add: journal_size_def)
  then have bound: "journal_size (journal_of env (as_disk s1)) < length (still_live (journal_of env k)) + 5"
    if "journal_unnamed (se_path env) (se_place env) (js_closed (journal_of env k))"
    using fin(2) that by (simp add: first_state_def)
  show ?thesis
  proof (cases "journal_unnamed (se_path env) (se_place env) (js_closed (journal_of env k))")
    case True
    then show ?thesis using ends bound by (intro exI [of _ "length (still_live (journal_of env k)) + 5"]) simp
  next
    case False
    then show ?thesis using ends by (intro exI [of _ "Suc (journal_size (journal_of env (as_disk s1)))"]) simp
  qed
qed

text \<open>C39: a run that starts under a hold writes nothing, and a segment for which a look (before its sidecar, or under the
  writer's locks before the journal) saw a hold is not archived: the run appends no archive record for it.\<close>

theorem hold_stops_archival:
  assumes "archive_closed_segments fuel env digest err_text v q k c = (s, r)"
    and "ad_hold k \<noteq> None \<or> av_hold1 v n \<or> av_hold2 v n"
  shows "n \<notin> set (as_archived s) \<and> (ad_hold k \<noteq> None \<longrightarrow> as_writes s = [])
    \<and> (\<forall>rec. LedgerWrite (AppendJournal rec) \<in> set (as_writes s) \<longrightarrow> str_at ''op'' rec = ''archive'' \<longrightarrow> int_at ''n'' rec \<noteq> n)"
proof (cases "ad_hold k \<noteq> None")
  case True
  then have "archive_refusal env k q \<noteq> None" by (auto simp: archive_refusal_def split: sum.split)
  then have "s = first_state k c" using assms(1) by (auto simp: archive_closed_segments_def)
  then show ?thesis by (simp add: first_state_def)
next
  case False
  with assms(2) have h: "av_hold1 v n \<or> av_hold2 v n" by blast
  have 0: "untouched n (first_state k c)" by (simp add: untouched_def first_state_def)
  have "untouched n s"
    by (rule run_keeps [where P = "untouched n", OF assms(1) 0 finish_untouched archive_loop_untouched [OF _ _ h] retention_untouched])
  then show ?thesis using False by (auto simp: untouched_def archive_write_of_def)
qed


text \<open>What a crash leaves of the marker: the writes of an append never touch it.\<close>

lemma ledger_keeps_hold [simp]: "ad_hold (apply_archives p (map LedgerWrite ws) k) = ad_hold k"
  by (induction ws arbitrary: k) auto

lemma take_ledger: "take i (map LedgerWrite ws @ xs) = map LedgerWrite (take i ws) @ take (i - length ws) xs"
  by (simp add: take_map)

lemma own_append_event:
  assumes "own_append env d c w t pl = (ws, Inr (e, c'))"
  shows "\<exists>vs. ws = vs @ [AppendOpen e] \<and> event_type e = t"
proof -
  let ?q = "\<lparr>aq_type = t, aq_payload = Some pl, aq_agent = None, aq_claim = None\<rparr>"
  obtain st where st: "append_checks (se_crypto env) (se_config env) (se_policy env) False w ?q = Inr st"
    using assms by (auto simp: own_append_def append_writes_def split: sum.splits)
  then have "st = NoStamp" by (auto simp: append_checks_def bindE_def split: sum.splits)
  with st assms obtain vs head where "ws = vs @ [AppendOpen e]"
    "build_event (se_hash env) (se_crypto env) (se_config env) w ?q NoStamp head = Inr (Some e)"
    by (auto simp: own_append_def append_writes_def split: sum.splits prod.splits option.splits)
  with built_event(2) [OF this(2)] show ?thesis by simp
qed

lemma hold_stands_before_its_event:
  assumes "place_hold env k c w now who why = (ws, r)" "LedgerWrite (AppendOpen e) \<in> set (take i ws)"
  shows "ad_hold (apply_archives p (take i ws) k) \<noteq> None"
proof -
  obtain rec vs where ws: "ws = CreateHold # FillHold rec # map LedgerWrite vs"
    using assms by (auto simp: place_hold_def Let_def split: if_splits sum.splits prod.splits)
  with assms(2) obtain j where "i = Suc (Suc j)" by (auto simp: take_Cons split: nat.splits)
  then show ?thesis by (simp add: ws take_map)
qed

text \<open>C40: when a release of a legal hold, stopped anywhere, has removed the marker, its released event is already in the ledger
  file; and a release that succeeds has done both.\<close>

theorem hold_release_is_recorded:
  assumes "release_hold env k c w now why who unlinks = (ws, r)" "ad_hold k \<noteq> None"
  shows "(ad_hold (apply_archives (se_path env) (take i ws) k) = None \<longrightarrow>
      (\<exists>e. LedgerWrite (AppendOpen e) \<in> set (take i ws) \<and> event_type e = RELEASED))
    \<and> (r = Inr rec \<longrightarrow> ad_hold (apply_archives (se_path env) ws k) = None
        \<and> (\<exists>e. LedgerWrite (AppendOpen e) \<in> set ws \<and> event_type e = RELEASED))"
proof -
  consider "\<exists>x. r = Inl x" "\<exists>vs. ws = map LedgerWrite vs"
    | pl vs e c' where "own_append env (ad_dir k) c w RELEASED pl = (vs, Inr (e, c'))" "ws = map LedgerWrite vs @ [DropHold]"
    using assms(1) by (fastforce simp: release_hold_def Let_def split: if_splits option.splits prod.splits sum.splits)
  then show ?thesis
  proof cases
    case 1
    then show ?thesis using assms(2) by (auto simp: take_map)
  next
    case (2 pl vs e c')
    obtain us where us: "vs = us @ [AppendOpen e]" "event_type e = RELEASED" using own_append_event [OF 2(1)] by blast
    have e: "LedgerWrite (AppendOpen e) \<in> set ws" by (simp add: 2(2) us(1))
    have gone: "ad_hold (apply_archives (se_path env) ws k) = None" by (simp add: 2(2))
    show ?thesis
    proof (cases "length ws \<le> i")
      case True
      then show ?thesis using e gone us(2) by auto
    next
      case False
      then have "take i ws = map LedgerWrite (take i vs)" by (simp add: 2(2) take_map)
      then show ?thesis using assms(2) e gone us(2) by auto
    qed
  qed
qed

section \<open>A ledger to archive\<close>

text \<open>One closed segment with one event, and the event that closed it in the open one.\<close>

definition demo_hash :: "string \<Rightarrow> string" where "demo_hash b = ''h''"

definition demo_event :: ledger_event where
  "demo_event = make_event demo_hash ''i0'' ''t'' ''x'' None GENESIS_HASH None None None"

definition demo_cache :: writer_cache where
  "demo_cache = \<lparr>wc_head = ''h'', wc_len = 1, wc_start = 0, wc_next = 1, wc_closed_head = GENESIS_HASH,
     wc_key = (None, None), wc_pending = True\<rparr>"

definition demo_rot :: ledger_event where
  "demo_rot = make_event demo_hash ''i1'' ''t'' ROTATION_EVENT_TYPE
     (Some (rotation_payload ''audit.jsonl'' demo_cache [] free_rotation)) ''h'' None None None"

definition demo_disk :: "json option option \<Rightarrow> archive_disk" where
  "demo_disk hold = \<lparr>ad_dir = [''audit-1.jsonl'' \<mapsto> one_line demo_event, ''audit.jsonl'' \<mapsto> one_line demo_rot,
       ''audit.segments.journal'' \<mapsto> \<lparr>tf_lines = [Doc (JObj (intent_record ''audit.jsonl'' demo_cache [] demo_rot ''t0'')),
          Doc (JObj (commit_record 1 ''h'' ''t0''))], tf_tail = None\<rparr>],
     ad_out = Map.empty, ad_side = Map.empty, ad_hold = hold\<rparr>"

definition demo_env :: store_env where
  "demo_env = \<lparr>se_hash = demo_hash, se_validate = read_event, se_crypto = sample_crypto, se_config = free_config,
     se_policy = sample_policy, se_path = ''audit.jsonl'', se_fields = [],
     se_place = OtherPath\<rparr>"

definition demo_request :: archive_request where
  "demo_request = \<lparr>ar_operator = ''op'', ar_days = JInt 30, ar_negative = False, ar_cutoff = 2 * epoch, ar_dir = ''/archive'',
     ar_inside = False, ar_within_data = True, ar_external = False, ar_same_fs = True\<rparr>"

definition demo_view :: "(int \<Rightarrow> bool) \<Rightarrow> archive_view" where
  "demo_view hold = \<lparr>av_hold1 = (\<lambda>_. False), av_hold2 = hold, av_answer = (\<lambda>_. Renames), av_now = ''now'', av_world = sample_append_world\<rparr>"

definition demo_digest :: "text_file \<Rightarrow> string" where
  "demo_digest f = replicate (length (all_lines f)) (CHR ''d'')"

lemma demo_journal_path: "journal_path_for ''audit.jsonl'' = ''audit.segments.journal''" by code_simp

lemma demo_closed_path: "closed_path_for ''audit.jsonl'' 1 = ''audit-1.jsonl''" by code_simp

lemma demo_ops:
  "journal_op (intent_record ''audit.jsonl'' demo_cache [] demo_rot ''t0'') [] None
     = Some ([], Some (intent_entry (intent_record ''audit.jsonl'' demo_cache [] demo_rot ''t0'')))"
  "\<exists>e. journal_op (commit_record 1 ''h'' ''t0'') [] (Some (intent_entry (intent_record ''audit.jsonl'' demo_cache [] demo_rot ''t0''))) = Some ([e], None)
    \<and> en_archived_to e = None"
proof -
  have h: "ev_hash demo_rot = ''h''" by (simp add: demo_rot_def make_event_def compute_record_hash_def demo_hash_def Let_def)
  show "journal_op (intent_record ''audit.jsonl'' demo_cache [] demo_rot ''t0'') [] None
     = Some ([], Some (intent_entry (intent_record ''audit.jsonl'' demo_cache [] demo_rot ''t0'')))"
    by (simp add: journal_op_def intent_record_def str_at_def int_at_def check_record_def OP_SCHEMA_def intent_entry_def next_n_def
        next_start_def next_genesis_def demo_cache_def demo_closed_path plain_name_def dump_keys dict_at_def Let_def)
  show "\<exists>e. journal_op (commit_record 1 ''h'' ''t0'') [] (Some (intent_entry (intent_record ''audit.jsonl'' demo_cache [] demo_rot ''t0''))) = Some ([e], None)
    \<and> en_archived_to e = None"
    by (simp add: journal_op_def intent_record_def commit_record_def str_at_def int_at_def dict_at_def check_record_def OP_SCHEMA_def
        intent_entry_def rot_hash_def demo_cache_def dump_keys h)
qed

lemma demo_journal_closed: "\<exists>e. js_closed (journal_of demo_env (demo_disk hold)) = [e] \<and> en_archived_to e = None"
proof -
  obtain e where e: "journal_op (commit_record 1 ''h'' ''t0'') [] (Some (intent_entry (intent_record ''audit.jsonl'' demo_cache [] demo_rot ''t0'')))
      = Some ([e], None)" "en_archived_to e = None" using demo_ops(2) by blast
  have "js_closed (journal_of demo_env (demo_disk hold)) = [e]"
    by (simp add: journal_of_def demo_env_def demo_disk_def demo_journal_path parse_journal_def demo_ops(1) e(1))
  then show ?thesis using e(2) by blast
qed

lemma demo_journal: "length (still_live (journal_of demo_env (demo_disk hold))) = 1"
  using demo_journal_closed [of hold] by (auto simp: still_live_def archived_def)

definition demo_run :: "json option option \<Rightarrow> (int \<Rightarrow> bool) \<Rightarrow> archive_state \<times> archive_error option option" where
  "demo_run hold hold2 = archive_closed_segments 6 demo_env demo_digest (\<lambda>_. ''refused'') (demo_view hold2) demo_request (demo_disk hold) demo_cache"

lemma demo_run_eq: "archive_closed_segments 6 demo_env demo_digest (\<lambda>_. ''refused'') (demo_view hold2) demo_request (demo_disk hold) demo_cache
    = (fst (demo_run hold hold2), snd (demo_run hold hold2))"
  by (simp add: demo_run_def)

theorem archive_loses_nothing_witness:
  "still_held demo_digest (apply_archives ''audit.jsonl'' (take 3 (as_writes (fst (demo_run None (\<lambda>_. False))))) (demo_disk None))
     ''audit-1.jsonl'' (one_line demo_event)"
proof -
  have p: "se_path demo_env = ''audit.jsonl''" by (simp add: demo_env_def)
  have "rotating_tmp_for ''audit.jsonl'' = ''.audit.jsonl.rotating''" by code_simp
  then have "''audit-1.jsonl'' \<notin> own_names (se_path demo_env)" by (simp add: own_names_def p demo_journal_path)
  moreover have "ad_dir (demo_disk None) ''audit-1.jsonl'' = Some (one_line demo_event)" by (simp add: demo_disk_def)
  moreover have "ar_inside demo_request \<or> archive_apart demo_env (ar_dir demo_request)"
    by (simp add: archive_apart_def demo_env_def)
  moreover have "journal_apart (se_place demo_env) (js_closed (journal_of demo_env (demo_disk None)))"
    using demo_journal_closed [of None] by (auto simp: journal_apart_def)
  ultimately show ?thesis using archive_loses_nothing [OF demo_run_eq] unfolding p by blast
qed

theorem archive_run_ends_witness:
  "\<exists>c. recover read_event ''audit.jsonl'' Map.empty = Some c
    \<and> snd (archive_closed_segments 6 demo_env demo_digest (\<lambda>_. ''refused'') (demo_view (\<lambda>_. False)) demo_request (demo_disk None) c) \<noteq> None"
proof -
  obtain c where c: "recover read_event ''audit.jsonl'' Map.empty = Some c" by (rule sample_run)
  have "recover (se_validate demo_env) (se_path demo_env) Map.empty = Some c" using c by (simp add: demo_env_def)
  from archive_run_ends [OF this, where digest = demo_digest and err_text = "\<lambda>_. ''refused''"
      and v = "demo_view (\<lambda>_. False)" and q = demo_request and k = "demo_disk None"]
  obtain rounds where "\<forall>fuel \<ge> rounds. snd (archive_closed_segments fuel demo_env demo_digest (\<lambda>_. ''refused'')
      (demo_view (\<lambda>_. False)) demo_request (demo_disk None) c) \<noteq> None"
    "journal_unnamed (se_path demo_env) (se_place demo_env) (js_closed (journal_of demo_env (demo_disk None)))
      \<longrightarrow> rounds = length (still_live (journal_of demo_env (demo_disk None))) + 5" by blast
  moreover have "journal_unnamed (se_path demo_env) (se_place demo_env) (js_closed (journal_of demo_env (demo_disk None)))"
    using demo_journal_closed [of None] by (auto simp: journal_unnamed_def)
  ultimately show ?thesis using c by (simp add: demo_journal)
qed

theorem hold_stops_archival_witness:
  "1 \<notin> set (as_archived (fst (demo_run None (\<lambda>n. n = 1)))) \<and> as_writes (fst (demo_run (Some None) (\<lambda>n. False))) = []"
proof
  have "ad_hold (demo_disk None) \<noteq> None \<or> av_hold1 (demo_view (\<lambda>n. n = 1)) 1 \<or> av_hold2 (demo_view (\<lambda>n. n = 1)) 1"
    by (simp add: demo_view_def)
  from hold_stops_archival [OF demo_run_eq this] show "1 \<notin> set (as_archived (fst (demo_run None (\<lambda>n. n = 1))))" by blast
  have h: "ad_hold (demo_disk (Some None)) \<noteq> None" by (simp add: demo_disk_def)
  then have "ad_hold (demo_disk (Some None)) \<noteq> None \<or> av_hold1 (demo_view (\<lambda>n. False)) 1 \<or> av_hold2 (demo_view (\<lambda>n. False)) 1" by blast
  from hold_stops_archival [OF demo_run_eq this] h show "as_writes (fst (demo_run (Some None) (\<lambda>n. False))) = []" by blast
qed

theorem hold_release_is_recorded_witness:
  "\<exists>k c ws rec e. release_hold (demo_env\<lparr>se_hash := \<lambda>b. ''h''\<rparr>) k c sample_append_world ''now'' ''?'' ''op'' True = (ws, Inr rec)
    \<and> ad_hold k \<noteq> None \<and> ad_hold (apply_archives ''audit.jsonl'' ws k) = None \<and> LedgerWrite (AppendOpen e) \<in> set ws"
proof -
  let ?env = "demo_env\<lparr>se_hash := \<lambda>b. ''h''\<rparr>" and ?k = "\<lparr>ad_dir = Map.empty, ad_out = Map.empty, ad_side = Map.empty, ad_hold = Some None\<rparr>"
  obtain h where h: "recoverable (\<lambda>b. ''h'') read_event ''audit.jsonl'' Map.empty h"
    using empty_recoverable by blast
  obtain c where c: "coherent read_event ''audit.jsonl'' Map.empty c" by (rule sample_run)
  have check: "append_checks cr free_config pol False w \<lparr>aq_type = RELEASED, aq_payload = Some pl, aq_agent = None, aq_claim = None\<rparr> = Inr NoStamp"
    for cr pol w pl by (simp add: append_checks_def require_appendable_def free_config_def no_key_def appendable_def)
  have "\<exists>vs e c'. own_append ?env Map.empty c sample_append_world RELEASED pl = (vs, Inr (e, c'))" for pl
    using append_succeeds [OF sample_codec h c check] by (simp add: own_append_def demo_env_def)
  then obtain vs e c' where own: "own_append ?env Map.empty c sample_append_world RELEASED
    (dict_update (dict_update [(''placed_at'', JNull), (''placed_by'', JNull), (''reason'', JStr ''?'')]
      [(''released_by'', JStr ''op''), (''released_at'', JStr ''now'')]) []) = (vs, Inr (e, c'))" by blast
  have op: "py_strip ''op'' = ''op''" by code_simp
  have "se_fields ?env = []" by (simp add: demo_env_def)
  then obtain rec where run: "release_hold ?env ?k c sample_append_world ''now'' ''?'' ''op'' True = (map LedgerWrite vs @ [DropHold], Inr rec)"
    using own by (simp add: release_hold_def hold_status_def op)
  have path: "se_path ?env = ''audit.jsonl''" by (simp add: demo_env_def)
  have "ad_hold ?k \<noteq> None" by simp
  from hold_release_is_recorded [OF run this, where i = 0 and rec = rec]
  obtain e where "ad_hold (apply_archives ''audit.jsonl'' (map LedgerWrite vs @ [DropHold]) ?k) = None"
    "LedgerWrite (AppendOpen e) \<in> set (map LedgerWrite vs @ [DropHold])" unfolding path by blast
  with run \<open>ad_hold ?k \<noteq> None\<close> show ?thesis by (intro exI conjI)
qed

end
