(* ===== verification/Ledger_Anchors.thy ===== *)
theory Ledger_Anchors
  imports Ledger_Store
begin

text \<open>
  Checks of a ledger from outside: \<open>services/sealed-ledger/src/sealed_ledger/anchors.py\<close> (the anchors file) and
  \<open>witness.py\<close> (heads of one estate kept in the ledger of another). A ledger read is a layout with what each live
  segment holds; a public key is the check of a signature over canonical bytes under it, with its fingerprint.
  Failure texts are constructors.
\<close>

section \<open>A snapshot and its positions\<close>

type_synonym ledger_snapshot = "layout \<times> seg_read list"

text \<open>\<open>LedgerStore.snapshot\<close> of the files as they are: a line that does not parse raises (None).\<close>

definition take_snapshot :: "validator \<Rightarrow> string \<Rightarrow> (string \<Rightarrow> text_file option) \<Rightarrow> ledger_snapshot option" where
  "take_snapshot validate p read_file =
     (let ly = layout_of p read_file; rs = map (read_segment validate read_file) (ly_segs ly) in
      if list_all (\<lambda>(seg, es, bad). bad = None) rs then Some (ly, rs) else None)"

definition snap_length :: "ledger_snapshot \<Rightarrow> int" where
  "snap_length sn = global_length (fst sn) (snd sn)"

definition snap_head :: "ledger_snapshot \<Rightarrow> string option" where
  "snap_head sn = (case filter (\<lambda>es. es \<noteq> []) (map seg_events (rev (snd sn))) of [] \<Rightarrow> None | es # _ \<Rightarrow> Some (ev_hash (last es)))"

definition earliest_live_index :: "ledger_snapshot \<Rightarrow> int" where
  "earliest_live_index sn = sv_start (hd (ly_segs (fst sn)))"

fun live_hash :: "int \<Rightarrow> seg_read list \<Rightarrow> string option" where
  "live_hash i [] = None"
| "live_hash i (r # rs) =
     (let es = seg_events r; s = sv_start (fst r) in
      if es \<noteq> [] \<and> s \<le> i \<and> i < s + int (length es) then Some (ev_hash (es ! nat (i - s))) else live_hash i rs)"

definition ARCHIVED :: string where "ARCHIVED = ''archived''"

definition hash_at :: "ledger_snapshot \<Rightarrow> int \<Rightarrow> string option" where
  "hash_at sn i = (if i < earliest_live_index sn then Some ARCHIVED else live_hash i (snd sn))"

section \<open>Anchor records\<close>

record anchor_record =
  an_at :: string
  an_length :: int
  an_head :: string
  an_signature :: "string option"
  an_segment :: "int option"

text \<open>The bytes a signature covers: \<open>segment\<close> is left out when it is None.\<close>

definition signed_view :: "anchor_record \<Rightarrow> py_dict" where
  "signed_view a = [(''anchored_at'', JStr (an_at a)), (''chain_length'', JInt (an_length a)), (''head_hash'', JStr (an_head a))]
     @ opt_item ''segment'' (map_option JInt (an_segment a))"

text \<open>The line \<open>append_anchor_line\<close> writes.\<close>

definition anchor_line :: "anchor_record \<Rightarrow> py_dict" where
  "anchor_line a = [(''anchored_at'', JStr (an_at a)), (''chain_length'', JInt (an_length a)), (''head_hash'', JStr (an_head a)),
     (''signature'', json_opt JStr (an_signature a))] @ opt_item ''segment'' (map_option JInt (an_segment a))"

text \<open>
  \<open>AnchorRecord.model_validate\<close>: no other key, a non-negative integer as written for the length. \<open>lax_int\<close> is
  pydantic's reading of the \<open>segment\<close>, which is not strict.
\<close>

definition text_or_null :: "json option \<Rightarrow> string option option" where
  "text_or_null v = (case v of None \<Rightarrow> Some None | Some JNull \<Rightarrow> Some None | Some (JStr s) \<Rightarrow> Some (Some s) | Some _ \<Rightarrow> None)"

definition int_or_null :: "(json \<Rightarrow> int option) \<Rightarrow> json option \<Rightarrow> int option option" where
  "int_or_null lax_int v = (case v of None \<Rightarrow> Some None | Some JNull \<Rightarrow> Some None | Some j \<Rightarrow> map_option Some (lax_int j))"

definition ANCHOR_FIELDS :: "string list" where
  "ANCHOR_FIELDS = [''anchored_at'', ''chain_length'', ''head_hash'', ''signature'', ''segment'']"

definition read_anchor :: "(json \<Rightarrow> int option) \<Rightarrow> json \<Rightarrow> anchor_record option" where
  "read_anchor lax_int j =
     (case j of JObj kvs \<Rightarrow>
        if \<not> list_all (\<lambda>(k, v). k \<in> set ANCHOR_FIELDS) kvs then None
        else (case (map_of kvs ''anchored_at'', map_of kvs ''chain_length'', map_of kvs ''head_hash'',
            text_or_null (map_of kvs ''signature''), int_or_null lax_int (map_of kvs ''segment'')) of
          (Some (JStr ts), Some (JInt n), Some (JStr h), Some sg, Some segment) \<Rightarrow>
            if n < 0 then None
            else Some \<lparr>an_at = ts, an_length = n, an_head = h, an_signature = sg, an_segment = segment\<rparr>
        | _ \<Rightarrow> None)
      | _ \<Rightarrow> None)"

text \<open>\<open>parse_anchors\<close> of the lines of a file that is UTF-8 (a byte order mark is not part of them).\<close>

fun parse_anchors :: "(json \<Rightarrow> int option) \<Rightarrow> file_line list \<Rightarrow> anchor_record list option" where
  "parse_anchors lax_int [] = Some []"
| "parse_anchors lax_int (Blank # ls) = parse_anchors lax_int ls"
| "parse_anchors lax_int (Garbage # ls) = None"
| "parse_anchors lax_int (Doc j # ls) =
     (case (read_anchor lax_int j, parse_anchors lax_int ls) of (Some a, Some as) \<Rightarrow> Some (a # as) | _ \<Rightarrow> None)"

text \<open>\<open>write_anchor\<close>: the head of one snapshot; None where the ledger has a length and no readable head.\<close>

definition write_anchor :: "(string \<Rightarrow> string) option \<Rightarrow> string \<Rightarrow> ledger_snapshot \<Rightarrow> anchor_record option" where
  "write_anchor sign now sn =
     (if snap_length sn \<noteq> 0 \<and> snap_head sn = None then None
      else let h = (if snap_length sn \<noteq> 0 then the (snap_head sn) else GENESIS_HASH);
               a = \<lparr>an_at = now, an_length = snap_length sn, an_head = h, an_signature = None, an_segment = None\<rparr>
        in Some (a\<lparr>an_signature := map_option (\<lambda>f. f (canonical_bytes (JObj (signed_view a)))) sign\<rparr>))"

section \<open>Verifying anchors\<close>

datatype anchors_source = NoAnchorsFile | AnchorsUnreadable | NotUtf8Anchors | AnchorLines "file_line list"

datatype anchor_failure =
    FileDoesNotExist | CannotBeRead | NotAnAnchorFile | NoRecords | MinBelowOne | MinNeedsKey | OutOfOrder | TwoHashes
  | UnsignedAnchor | SignatureInvalid | NotTheGenesis | ChainShrank | InArchivedSegment | MissingPosition | Rewritten | TooFew

record anchor_verification =
  av_ok :: bool
  av_checked :: nat
  av_signatures :: nat
  av_failure :: "anchor_failure option"
  av_positions :: "nat option"

record anchor_walk =
  aw_previous :: int
  aw_seen :: "(int \<times> string) list"
  aw_counted :: "int set"
  aw_signatures :: nat

definition check_signature :: "(string \<Rightarrow> string \<Rightarrow> bool) option \<Rightarrow> anchor_record \<Rightarrow> nat \<Rightarrow> (anchor_failure \<times> nat) + nat" where
  "check_signature key a n =
     (case key of None \<Rightarrow> Inr n
      | Some holds \<Rightarrow>
        (case an_signature a of None \<Rightarrow> Inl (UnsignedAnchor, n)
         | Some sg \<Rightarrow> if sg = [] then Inl (UnsignedAnchor, n)
             else if \<not> holds (canonical_bytes (JObj (signed_view a))) sg then Inl (SignatureInvalid, n)
             else Inr (n + 1)))"

text \<open>The chain at the anchored position: None when it holds.\<close>

definition position_failure :: "ledger_snapshot \<Rightarrow> int \<Rightarrow> string \<Rightarrow> anchor_failure option" where
  "position_failure sn n h =
     (if n = 0 then (if h = GENESIS_HASH then None else Some NotTheGenesis)
      else if snap_length sn < n then Some ChainShrank
      else case hash_at sn (n - 1) of None \<Rightarrow> Some MissingPosition
      | Some x \<Rightarrow> if x = ARCHIVED then Some InArchivedSegment else if x \<noteq> h then Some Rewritten else None)"

definition anchor_step :: "(string \<Rightarrow> string \<Rightarrow> bool) option \<Rightarrow> ledger_snapshot \<Rightarrow> anchor_walk \<Rightarrow> anchor_record
    \<Rightarrow> (anchor_failure \<times> nat) + anchor_walk" where
  "anchor_step key sn w a =
     (if an_length a < aw_previous w then Inl (OutOfOrder, aw_signatures w)
      else if map_of (aw_seen w) (an_length a) \<notin> {None, Some (an_head a)} then Inl (TwoHashes, aw_signatures w)
      else bindE (check_signature key a (aw_signatures w)) (\<lambda>n.
        case position_failure sn (an_length a) (an_head a) of Some f \<Rightarrow> Inl (f, n)
        | None \<Rightarrow> Inr \<lparr>aw_previous = an_length a,
            aw_seen = (if map_of (aw_seen w) (an_length a) = None then (an_length a, an_head a) # aw_seen w else aw_seen w),
            aw_counted = (if key = None then aw_counted w else insert (an_length a) (aw_counted w)), aw_signatures = n\<rparr>))"

fun walk_anchors :: "(string \<Rightarrow> string \<Rightarrow> bool) option \<Rightarrow> ledger_snapshot \<Rightarrow> nat \<Rightarrow> anchor_walk \<Rightarrow> anchor_record list
    \<Rightarrow> (anchor_failure \<times> nat \<times> nat) + anchor_walk" where
  "walk_anchors key sn i w [] = Inr w"
| "walk_anchors key sn i w (a # as) =
     (case anchor_step key sn w a of Inl (f, n) \<Rightarrow> Inl (f, i, n) | Inr w1 \<Rightarrow> walk_anchors key sn (i + 1) w1 as)"

definition no_anchors :: "anchor_failure \<Rightarrow> anchor_verification" where
  "no_anchors f = \<lparr>av_ok = False, av_checked = 0, av_signatures = 0, av_failure = Some f, av_positions = None\<rparr>"

definition first_walk :: anchor_walk where
  "first_walk = \<lparr>aw_previous = -1, aw_seen = [], aw_counted = {}, aw_signatures = 0\<rparr>"

text \<open>\<open>verify_anchors\<close>; None where the snapshot raises.\<close>

definition verify_anchors :: "(json \<Rightarrow> int option) \<Rightarrow> ledger_snapshot option \<Rightarrow> anchors_source
    \<Rightarrow> (string \<Rightarrow> string \<Rightarrow> bool) option \<Rightarrow> int option \<Rightarrow> anchor_verification option" where
  "verify_anchors lax_int snapshot src key least =
     (case src of NoAnchorsFile \<Rightarrow> Some (no_anchors FileDoesNotExist) | AnchorsUnreadable \<Rightarrow> Some (no_anchors CannotBeRead)
      | NotUtf8Anchors \<Rightarrow> Some (no_anchors NotAnAnchorFile)
      | AnchorLines ls \<Rightarrow>
        (case parse_anchors lax_int ls of None \<Rightarrow> Some (no_anchors NotAnAnchorFile)
         | Some as \<Rightarrow>
           if as = [] then Some (no_anchors NoRecords)
           else case snapshot of None \<Rightarrow> None
           | Some sn \<Rightarrow>
             if least \<noteq> None \<and> the least < 1 then Some (no_anchors MinBelowOne)
             else if least \<noteq> None \<and> key = None then Some (no_anchors MinNeedsKey)
             else case walk_anchors key sn 0 first_walk as of
               Inl (f, i, n) \<Rightarrow> Some \<lparr>av_ok = False, av_checked = i, av_signatures = n, av_failure = Some f, av_positions = None\<rparr>
             | Inr w \<Rightarrow>
               let short = (least \<noteq> None \<and> int (card (aw_counted w)) < the least) in
               Some \<lparr>av_ok = \<not> short, av_checked = length as, av_signatures = aw_signatures w,
                 av_failure = (if short then Some TooFew else None), av_positions = Some (length (aw_seen w))\<rparr>))"

section \<open>Witnessing\<close>

definition ANCHOR_REMOTE :: string where "ANCHOR_REMOTE = ''anchor.remote''"

definition lower_hex :: "char \<Rightarrow> bool" where
  "lower_hex c = (is_digit c \<or> c \<in> {CHR ''a'', CHR ''b'', CHR ''c'', CHR ''d'', CHR ''e'', CHR ''f''})"

text \<open>\<open>_HEX64.match\<close>: \<open>$\<close> also matches before a line feed that ends the text.\<close>

definition hex64 :: "string \<Rightarrow> bool" where
  "hex64 h = (let t = (if h \<noteq> [] \<and> last h = CHR 0x0A then butlast h else h) in length t = 64 \<and> list_all lower_hex t)"

datatype head_fault = HeadNotJson | HeadNotObject | BadEventCount | BadHeadHash

text \<open>\<open>parse_head\<close> of what \<open>strict_json_loads\<close> gave (None: it raised).\<close>

definition parse_head :: "json option \<Rightarrow> head_fault + int \<times> string" where
  "parse_head body =
     (case body of None \<Rightarrow> Inl HeadNotJson
      | Some (JObj kvs) \<Rightarrow>
        (case map_of kvs ''event_count'' of
           Some (JInt n) \<Rightarrow> if n < 0 then Inl BadEventCount
             else (case map_of kvs ''head_hash'' of
                 Some (JStr h) \<Rightarrow> if hex64 h then Inr (n, h) else Inl BadHeadHash
               | _ \<Rightarrow> Inl BadHeadHash)
         | _ \<Rightarrow> Inl BadEventCount)
      | Some _ \<Rightarrow> Inl HeadNotObject)"

definition signing_view :: "py_dict \<Rightarrow> py_dict" where "signing_view d = pop_key ''signature'' d"

definition sign_anchor :: "(string \<Rightarrow> string) \<Rightarrow> py_dict \<Rightarrow> py_dict" where
  "sign_anchor sign d = signing_view d @ [(''signature'', JStr (sign (canonical_bytes (JObj (signing_view d)))))]"

datatype witness_problem =
    MalformedLength | MalformedHead | WitnessUnsigned | WitnessSignature | OtherKey | GenesisExpected | FutureHead
  | WitnessArchived | WitnessMissing | WitnessRewritten

text \<open>A public key: the check under it, and its fingerprint.\<close>

type_synonym public_key = "(string \<Rightarrow> string \<Rightarrow> bool) \<times> string"

definition key_problem :: "public_key option \<Rightarrow> py_dict \<Rightarrow> witness_problem option" where
  "key_problem key pl =
     (case key of None \<Rightarrow> None
      | Some (holds, print) \<Rightarrow>
        (case map_of pl ''signature'' of
           Some (JStr sg) \<Rightarrow> if sg = [] then Some WitnessUnsigned
             else if \<not> holds (canonical_bytes (JObj (signing_view pl))) sg then Some WitnessSignature
             else if map_of pl ''key_fingerprint'' \<noteq> Some (JStr print) then Some OtherKey else None
         | _ \<Rightarrow> Some WitnessUnsigned))"

text \<open>\<open>check_anchor\<close>: None when the anchor holds against the local chain.\<close>

definition check_anchor :: "public_key option \<Rightarrow> ledger_snapshot \<Rightarrow> int \<Rightarrow> py_dict \<Rightarrow> witness_problem option" where
  "check_anchor key sn local_length pl =
     (case map_of pl ''length'' of
        Some (JInt n) \<Rightarrow>
          if n < 0 then Some MalformedLength
          else (case map_of pl ''head_hash'' of
             Some (JStr h) \<Rightarrow>
               if \<not> hex64 h then Some MalformedHead
               else (case key_problem key pl of Some b \<Rightarrow> Some b
                | None \<Rightarrow>
                  if n = 0 then (if h = GENESIS_HASH then None else Some GenesisExpected)
                  else if local_length < n then Some FutureHead
                  else case hash_at sn (n - 1) of None \<Rightarrow> Some WitnessMissing
                  | Some x \<Rightarrow> if x = ARCHIVED then Some WitnessArchived
                      else if x \<noteq> h then Some WitnessRewritten else None)
           | _ \<Rightarrow> Some MalformedHead)
      | _ \<Rightarrow> Some MalformedLength)"

text \<open>\<open>select_anchors\<close>: the payloads of the events of one estate.\<close>

definition anchor_payload :: "string \<Rightarrow> json \<Rightarrow> py_dict option" where
  "anchor_payload estate j =
     (case j of JObj e \<Rightarrow>
        (case (map_of e ''event_type'', map_of e ''payload'') of
           (Some (JStr t), Some (JObj pl)) \<Rightarrow>
             if t = ANCHOR_REMOTE \<and> map_of pl ''estate'' = Some (JStr estate) then Some pl else None
         | _ \<Rightarrow> None)
      | _ \<Rightarrow> None)"

definition select_anchors :: "string \<Rightarrow> json list \<Rightarrow> py_dict list" where
  "select_anchors estate es = List.map_filter (anchor_payload estate) es"

record witness_verification =
  wv_ok :: bool
  wv_checked :: nat
  wv_failed :: nat
  wv_signatures :: nat

definition compares :: "py_dict \<Rightarrow> bool" where
  "compares pl = (case map_of pl ''length'' of Some (JInt n) \<Rightarrow> 1 \<le> n | _ \<Rightarrow> False)"

definition verify_witness :: "public_key option \<Rightarrow> ledger_snapshot \<Rightarrow> int option \<Rightarrow> py_dict list \<Rightarrow> witness_verification" where
  "verify_witness key sn verified_length pls =
     (let n = (case verified_length of None \<Rightarrow> snap_length sn | Some m \<Rightarrow> min (snap_length sn) m);
          good = filter (\<lambda>pl. check_anchor key sn n pl = None) pls;
          failed = length pls - length good;
          sigs = (if key = None then 0 else length good)
      in if pls = [] then \<lparr>wv_ok = False, wv_checked = 0, wv_failed = 0, wv_signatures = 0\<rparr>
         else if failed \<noteq> 0 then \<lparr>wv_ok = False, wv_checked = length pls, wv_failed = failed, wv_signatures = sigs\<rparr>
         else if \<not> list_ex compares good
         then \<lparr>wv_ok = False, wv_checked = length pls, wv_failed = 0, wv_signatures = sigs\<rparr>
         else \<lparr>wv_ok = True, wv_checked = length pls, wv_failed = 0, wv_signatures = sigs\<rparr>)"

section \<open>The witness's tick\<close>

datatype witness_secret = SecretUnset | SecretBad | SecretText string

text \<open>What a tick meets; an answer of a service is a status with its body, None where the call failed.\<close>

record witness_world =
  ww_key :: "((string \<Rightarrow> string) \<times> string) option"
  ww_fly :: "(nat \<times> json option) option"
  ww_local :: "(nat \<times> json option) option"
  ww_now :: string
  ww_later :: string
  ww_append :: "nat option"
  ww_post :: "nat option"
  ww_secret :: witness_secret

record witness_config =
  wc_local :: string
  wc_remote :: string
  wc_observer :: json

datatype witness_call = ReadFly | AppendLocal py_dict | ReadLocal | PostFly py_dict string

datatype direction1 = D1Appended | D1NoKey | D1FlyUnreadable | D1LedgerRefused
datatype direction2 = D2NotLive | D2SecretUnreadable | D2NoKey | D2LocalUnreadable | D2Posted | D2Refused

definition read_health :: "(nat \<times> json option) option \<Rightarrow> (int \<times> string) option" where
  "read_health r = (case r of None \<Rightarrow> None
     | Some (st, body) \<Rightarrow> if st \<noteq> 200 then None else (case parse_head body of Inl _ \<Rightarrow> None | Inr x \<Rightarrow> Some x))"

definition head_payload :: "witness_config \<Rightarrow> string \<Rightarrow> int \<times> string \<Rightarrow> string \<Rightarrow> string \<Rightarrow> py_dict" where
  "head_payload cfg estate nh now print =
     [(''estate'', JStr estate), (''length'', JInt (fst nh)), (''head_hash'', JStr (snd nh)), (''observed_at'', JStr now),
      (''observer'', wc_observer cfg), (''key_fingerprint'', JStr print)]"

definition direction_1 :: "witness_config \<Rightarrow> witness_world \<Rightarrow> (string \<Rightarrow> string) \<times> string \<Rightarrow> direction1 \<times> witness_call list" where
  "direction_1 cfg w k =
     (case read_health (ww_fly w) of None \<Rightarrow> (D1FlyUnreadable, [ReadFly])
      | Some nh \<Rightarrow>
        let pl = sign_anchor (fst k) (head_payload cfg (wc_remote cfg) nh (ww_now w) (snd k)) in
        (if ww_append w = Some 201 then D1Appended else D1LedgerRefused, [ReadFly, AppendLocal pl]))"

definition direction_2 :: "witness_config \<Rightarrow> witness_world \<Rightarrow> ((string \<Rightarrow> string) \<times> string) option
    \<Rightarrow> direction2 \<times> witness_call list" where
  "direction_2 cfg w key =
     (case ww_secret w of SecretUnset \<Rightarrow> (D2NotLive, []) | SecretBad \<Rightarrow> (D2SecretUnreadable, [])
      | SecretText secret \<Rightarrow>
        if secret = [] then (D2SecretUnreadable, [])
        else (case key of None \<Rightarrow> (D2NoKey, [])
         | Some k \<Rightarrow>
           (case read_health (ww_local w) of None \<Rightarrow> (D2LocalUnreadable, [ReadLocal])
            | Some nh \<Rightarrow>
              let pl = sign_anchor (fst k) (head_payload cfg (wc_local cfg) nh (ww_later w) (snd k)) in
              (if ww_post w = Some 201 then D2Posted else D2Refused, [ReadLocal, PostFly pl secret]))))"

definition witness_tick :: "witness_config \<Rightarrow> witness_world \<Rightarrow> direction1 \<times> direction2 \<times> witness_call list" where
  "witness_tick cfg w =
     (case ww_key w of
        None \<Rightarrow> (case direction_2 cfg w None of (d2, calls) \<Rightarrow> (D1NoKey, d2, calls))
      | Some k \<Rightarrow> (case direction_1 cfg w k of (d1, c1) \<Rightarrow>
          (case direction_2 cfg w (Some k) of (d2, c2) \<Rightarrow> (d1, d2, c1 @ c2))))"

end
