(* ===== verification/Anchor_Safety.thy ===== *)
theory Anchor_Safety
  imports Ledger_Anchors
begin

text \<open>
  What anchors and witnesses prove: a position that holds is the position of the one chain the ledger verifies as, so a
  ledger whose head was anchored or witnessed still begins with the history it had then.
\<close>

section \<open>Positions of a verified ledger\<close>

fun placed :: "int \<Rightarrow> seg_read list \<Rightarrow> bool" where
  "placed s [] = True"
| "placed s (r # rs) = (sv_start (fst r) = s \<and> placed (s + int (length (seg_events r))) rs)"

lemma live_hash_placed:
  "placed s rs \<Longrightarrow> live_hash i rs =
     (if s \<le> i \<and> i < s + int (length (live_events rs)) then Some (ev_hash (live_events rs ! nat (i - s))) else None)"
proof (induction rs arbitrary: s)
  case (Cons r rs)
  let ?es = "seg_events r"
  have ih: "live_hash i rs = (if s + int (length ?es) \<le> i \<and> i < s + int (length ?es) + int (length (live_events rs))
      then Some (ev_hash (live_events rs ! nat (i - (s + int (length ?es))))) else None)"
    using Cons by simp
  have live: "live_events (r # rs) = ?es @ live_events rs" by (simp add: live_events_def)
  have start: "sv_start (fst r) = s" using Cons.prems by simp
  show ?case
  proof (cases "s \<le> i \<and> i < s + int (length ?es)")
    case True
    then show ?thesis using start by (auto simp: live nth_append Let_def)
  next
    case False
    then have "live_hash i (r # rs) = live_hash i rs" using start by (auto simp: Let_def)
    moreover have "nat (i - s) - length ?es = nat (i - (s + int (length ?es)))" by simp
    ultimately show ?thesis using False ih by (auto simp: live nth_append)
  qed
qed (simp add: live_events_def)

lemma live_events_simps [simp]:
  "live_events [] = []" "live_events (r # rs) = seg_events r @ live_events rs" "live_events (rs @ rs') = live_events rs @ live_events rs'"
  by (simp_all add: live_events_def)

lemma placed_append:
  "placed s (rs @ rs') \<longleftrightarrow> placed s rs \<and> placed (s + int (length (live_events rs))) rs'"
  by (induction rs arbitrary: s) (auto simp: algebra_simps)

lemma walk_placed:
  assumes "linked n s g es" "walk_segments H k (map (read_segment validate read_file) (entry_views prev g es) @ rest) = (w, None)"
  shows "placed s (map (read_segment validate read_file) (entry_views prev g es))"
  using assms
proof (induction es arbitrary: n s g k prev)
  case (Cons e es)
  let ?read = "read_segment validate read_file" and ?v = "closed_view prev g e"
  have one: "linked n s g [e]" using Cons.prems(1) by simp
  have split: "map ?read (entry_views prev g (e # es)) @ rest
      = map ?read (entry_views prev g [e]) @ (map ?read (entry_views (Some e) (en_head e) es) @ rest)" by simp
  from walk_entries [OF one Cons.prems(2) [unfolded split]] obtain k' where
    k': "walk_segments H k' (map ?read (entry_views (Some e) (en_head e) es) @ rest) = (w, None)"
    and len: "int (length (live_events (map ?read (entry_views prev g [e])))) = end_start s [e] - s" by blast
  have start: "sv_start (fst (?read ?v)) = s"
    using one by (simp add: read_segment_def closed_view_def split: option.splits prod.splits)
  have step: "s + int (length (seg_events (?read ?v))) = en_end e + 1" using len by simp
  have "linked (n + 1) (en_end e + 1) (en_head e) es" using Cons.prems(1) by simp
  from Cons.IH [OF this k'] start step show ?case by simp
qed simp

lemma read_segment_fst [simp]: "fst (read_segment validate read_file seg) = seg"
  by (simp add: read_segment_def split: option.splits prod.splits)

text \<open>A ledger whose segments are all live and which verifies, read as the events \<open>es\<close>.\<close>

definition verified_as :: "(string \<Rightarrow> string) \<Rightarrow> (text_file \<Rightarrow> string) \<Rightarrow> validator \<Rightarrow> string
    \<Rightarrow> (string \<Rightarrow> text_file option) \<Rightarrow> (string \<Rightarrow> text_file option) \<Rightarrow> ledger_event list \<Rightarrow> bool" where
  "verified_as H digest validate p read_file read_path es =
     (list_all (\<lambda>e. \<not> archived e) (js_closed (parse_journal (read_file (journal_path_for p))))
      \<and> (case verify_ledger H digest validate p read_file read_path of Some v \<Rightarrow> st_ok v | None \<Rightarrow> False)
      \<and> all_events validate read_file (ly_segs (layout_of p read_file)) = Some es)"

lemma verified_shape:
  assumes "verified_as H digest validate p read_file read_path es"
    and ly: "ly = layout_of p read_file" and rs: "rs = map (read_segment validate read_file) (ly_segs ly)"
  shows "placed 0 rs \<and> live_events rs = es \<and> global_length ly rs = int (length es) \<and> sv_start (hd (ly_segs ly)) = 0
    \<and> cv_ok (verify_chain H es GENESIS_HASH)"
proof -
  define js where "js = parse_journal (read_file (journal_path_for p))"
  have live: "js_closed js = [] @ js_closed js" "list_all archived []" "list_all (\<lambda>e. \<not> archived e) (js_closed js)"
    using assms(1) by (simp_all add: verified_as_def js_def)
  obtain v where v: "verify_ledger H digest validate p read_file read_path = Some v" "st_ok v"
    using assms(1) by (auto simp: verified_as_def split: option.splits)
  have es: "all_events validate read_file (ly_segs ly) = Some es" using assms(1) by (simp add: verified_as_def ly)
  have ly': "ly = resolve_layout p js (exists_in read_file)" by (simp add: ly layout_of_def js_def)
  have v': "verify_snapshot H digest validate read_file read_path ly rs = Some v"
    using v(1) by (simp add: verify_ledger_def rs ly Let_def)
  obtain E seg where segs: "ly_segs ly = entry_views (last_entry []) (end_head GENESIS_HASH []) E @ [seg]"
    and linked: "linked (1 + int (length ([] :: seg_entry list))) (end_start 0 []) (end_head GENESIS_HASH []) E"
    and seg: "sv_start seg = end_start (end_start 0 []) E" "sv_genesis seg = end_head (end_head GENESIS_HASH []) E"
      "\<not> sv_closed seg" "ly_archived ly = []" "ly_segmented ly \<or> E = [] \<and> ([] :: seg_entry list) = []"
    by (rule layout_shape [OF js_def live ly']) (rule that)
  let ?read = "read_segment validate read_file"
  have first: "sv_start (hd (ly_segs ly)) = 0"
    using segs seg(1) linked by (cases E) (simp_all add: closed_view_def)
  show ?thesis
  proof (cases "ly_segmented ly")
    case False
    with seg(5) have one: "ly_segs ly = [seg]" using segs by simp
    have "st_ok (verify_single H [?read seg])" using v' v(2) False one by (simp add: verify_snapshot_def rs)
    note single = verified_single [OF this]
    have "live_events rs = es" "cv_ok (verify_chain H es GENESIS_HASH)" using single es one by (simp_all add: rs)
    moreover have "sv_start seg = 0" using first one by simp
    ultimately show ?thesis
      using seg(3,4) by (auto simp: rs one global_length_def grow_length_def seg_events_def split: option.splits)
  next
    case True
    from v' True v(2) obtain w where w: "walk_segments H 0 rs = (w, None)"
      by (auto simp: verify_snapshot_def broken_at_def Let_def split: prod.splits option.splits if_splits)
    have split: "rs = map ?read (entry_views (last_entry []) (end_head GENESIS_HASH []) E) @ [?read seg]" by (simp add: rs segs)
    note all = walk_all [OF linked w [unfolded rs segs] seg(1,2,3) rs [unfolded segs]]
    have live_es: "live_events rs = es" using all es segs by simp
    from walk_entries [OF linked w [unfolded split]]
    have "int (length (live_events (map ?read (entry_views (last_entry []) (end_head GENESIS_HASH []) E))))
        = end_start (end_start 0 []) E - end_start 0 []" by blast
    then have "placed 0 rs"
      using walk_placed [OF linked w [unfolded split]] seg(1) unfolding split placed_append by simp
    with all live_es first seg(4) show ?thesis by (simp add: global_length_def)
  qed
qed

lemma last_live:
  "(case filter (\<lambda>es. es \<noteq> []) (map seg_events (rev rs)) of [] \<Rightarrow> None | es # _ \<Rightarrow> Some (ev_hash (last es)))
     = (if live_events rs = [] then None else Some (ev_hash (last (live_events rs))))"
  by (induction rs rule: rev_induct) auto

text \<open>The snapshot of such a ledger, its length, its head and its positions.\<close>

lemma verified_snapshot:
  assumes "verified_as H digest validate p read_file read_path es" "take_snapshot validate p read_file = Some sn"
  shows "snap_length sn = int (length es)" "snap_head sn = (if es = [] then None else Some (ev_hash (last es)))"
    "0 \<le> i \<Longrightarrow> hash_at sn i = (if i < int (length es) then Some (ev_hash (es ! nat i)) else None)"
    "cv_ok (verify_chain H es GENESIS_HASH)"
proof -
  define ly where "ly = layout_of p read_file"
  define rs where "rs = map (read_segment validate read_file) (ly_segs ly)"
  have sn: "sn = (ly, rs)" using assms(2) by (auto simp: take_snapshot_def Let_def ly_def rs_def split: if_splits)
  note sh = verified_shape [OF assms(1) ly_def rs_def]
  show "snap_length sn = int (length es)" using sh by (simp add: snap_length_def sn)
  show "snap_head sn = (if es = [] then None else Some (ev_hash (last es)))"
    unfolding snap_head_def sn snd_conv last_live using sh by simp
  show "0 \<le> i \<Longrightarrow> hash_at sn i = (if i < int (length es) then Some (ev_hash (es ! nat i)) else None)"
    using sh live_hash_placed [of 0 rs i] by (simp add: hash_at_def earliest_live_index_def sn)
  show "cv_ok (verify_chain H es GENESIS_HASH)" using sh by simp
qed


section \<open>The same hash at a position is the same history before it\<close>

lemma last_hash_take: "1 \<le> n \<Longrightarrow> n \<le> length es \<Longrightarrow> last_hash g (take n es) = ev_hash (es ! (n - 1))"
  by (cases "es = []") (simp_all add: last_hash_def last_conv_nth min_def)

lemma verify_take:
  assumes "cv_ok (verify_chain H es g)"
  shows "cv_ok (verify_chain H (take n es) g)"
proof -
  have "cv_ok (verify_chain H (take n es @ drop n es) g)" using assms by simp
  then show ?thesis by (simp only: verify_chain_append)
qed

lemma same_prefix:
  assumes "cv_ok (verify_chain H es g)" "cv_ok (verify_chain H old g)" "list_all wf_event es" "list_all wf_event old"
    and "\<not> collision_in H es old" "\<not> genesis_preimage_in H g (es @ old)"
    and "1 \<le> n" "n \<le> length es" "n \<le> length old" "ev_hash (es ! (n - 1)) = ev_hash (old ! (n - 1))"
  shows "map event_content (take n es) = map event_content (take n old)"
proof -
  have wf: "list_all wf_event (take n es)" "list_all wf_event (take n old)"
    using assms(3,4) by (auto simp: list_all_iff dest: in_set_takeD)
  have "last_hash g (take n es) = last_hash g (take n old)" using assms(7-10) by (simp only: last_hash_take)
  from same_head_same_history [OF verify_take [OF assms(1)] verify_take [OF assms(2)] wf this]
  have "map event_content (take n es) = map event_content (take n old) \<or> collision_in H (take n es) (take n old)
     \<or> genesis_preimage_in H g (take n es @ take n old)" .
  moreover have "collision_in H (take n es) (take n old) \<Longrightarrow> collision_in H es old"
    unfolding collision_in_def by (blast dest: in_set_takeD)
  moreover have "genesis_preimage_in H g (take n es @ take n old) \<Longrightarrow> genesis_preimage_in H g (es @ old)"
    unfolding genesis_preimage_in_def set_append by (blast dest: in_set_takeD)
  ultimately show ?thesis using assms(5,6) by blast
qed

section \<open>When anchors hold\<close>

definition anchor_fine :: "(string \<Rightarrow> string \<Rightarrow> bool) option \<Rightarrow> ledger_snapshot \<Rightarrow> anchor_record \<Rightarrow> bool" where
  "anchor_fine key sn a =
     ((case key of None \<Rightarrow> True | Some holds \<Rightarrow> (case an_signature a of None \<Rightarrow> False
         | Some sg \<Rightarrow> sg \<noteq> [] \<and> holds (canonical_bytes (JObj (signed_view a))) sg))
      \<and> position_failure sn (an_length a) (an_head a) = None)"

definition one_hash_each :: "anchor_record list \<Rightarrow> bool" where
  "one_hash_each as = (\<forall>a \<in> set as. \<forall>b \<in> set as. an_length a = an_length b \<longrightarrow> an_head a = an_head b)"

definition agrees :: "(int \<times> string) list \<Rightarrow> anchor_record \<Rightarrow> bool" where
  "agrees seen a = (map_of seen (an_length a) \<in> {None, Some (an_head a)})"

lemma one_hash_each_Cons:
  "one_hash_each (a # as) \<longleftrightarrow> one_hash_each as \<and> (\<forall>b \<in> set as. an_length b = an_length a \<longrightarrow> an_head b = an_head a)"
proof
  assume "one_hash_each (a # as)"
  then show "one_hash_each as \<and> (\<forall>b \<in> set as. an_length b = an_length a \<longrightarrow> an_head b = an_head a)"
    unfolding one_hash_each_def by (meson list.set_intros)
next
  assume r: "one_hash_each as \<and> (\<forall>b \<in> set as. an_length b = an_length a \<longrightarrow> an_head b = an_head a)"
  show "one_hash_each (a # as)"
    unfolding one_hash_each_def
  proof (intro ballI impI)
    fix x y assume xy: "x \<in> set (a # as)" "y \<in> set (a # as)" and len: "an_length x = an_length y"
    have old: "an_head x = an_head y" if "x \<in> set as" "y \<in> set as"
      using conjunct1 [OF r] len that unfolding one_hash_each_def by blast
    have new: "an_head z = an_head a" if "z \<in> set as" "an_length z = an_length a" for z
      using conjunct2 [OF r] that by blast
    consider "x = a" "y = a" | "x = a" "y \<in> set as" | "x \<in> set as" "y = a" | "x \<in> set as" "y \<in> set as"
      using xy by (simp only: set_simps insert_iff) blast
    then show "an_head x = an_head y"
    proof cases
      case 2
      then show ?thesis using new [of y] len by simp
    next
      case 3
      then show ?thesis using new [of x] len by simp
    qed (use old in simp_all)
  qed
qed

lemma check_signature_Inr:
  "(\<exists>n. check_signature key a k = Inr n) \<longleftrightarrow> (case key of None \<Rightarrow> True | Some holds \<Rightarrow> (case an_signature a of None \<Rightarrow> False
         | Some sg \<Rightarrow> sg \<noteq> [] \<and> holds (canonical_bytes (JObj (signed_view a))) sg))"
  by (auto simp: check_signature_def split: option.splits)

lemma anchor_step_Inr:
  "(\<exists>w'. anchor_step key sn w a = Inr w') \<longleftrightarrow> aw_previous w \<le> an_length a \<and> agrees (aw_seen w) a \<and> anchor_fine key sn a"
proof -
  have "(\<exists>w'. bindE (check_signature key a (aw_signatures w)) (\<lambda>n. case position_failure sn (an_length a) (an_head a) of
        Some f \<Rightarrow> Inl (f, n) | None \<Rightarrow> Inr (W n)) = Inr w') \<longleftrightarrow> anchor_fine key sn a" for W :: "nat \<Rightarrow> anchor_walk"
    using check_signature_Inr [of key a "aw_signatures w"]
    by (cases "check_signature key a (aw_signatures w)"; cases "position_failure sn (an_length a) (an_head a)")
      (auto simp: anchor_fine_def bindE_def)
  then show ?thesis unfolding anchor_step_def agrees_def by auto
qed

lemma anchor_step_eq:
  assumes "anchor_step key sn w a = Inr w'"
  shows "aw_previous w' = an_length a" "map_of (aw_seen w') = (map_of (aw_seen w)) (an_length a \<mapsto> an_head a)"
    "aw_counted w' = (if key = None then aw_counted w else insert (an_length a) (aw_counted w))"
  using assms
  by (auto simp: anchor_step_def bindE_def fun_upd_idem split: if_split_asm sum.split_asm option.split_asm)

lemma walk_anchors_Inr:
  "(\<exists>w'. walk_anchors key sn i w as = Inr w') \<longleftrightarrow>
     sorted (aw_previous w # map an_length as) \<and> list_all (agrees (aw_seen w)) as \<and> one_hash_each as
     \<and> list_all (anchor_fine key sn) as"
proof (induction as arbitrary: i w)
  case (Cons a as)
  show ?case
  proof (cases "anchor_step key sn w a")
    case (Inl x)
    then have "\<not> (aw_previous w \<le> an_length a \<and> agrees (aw_seen w) a \<and> anchor_fine key sn a)"
      using anchor_step_Inr [of key sn w a] by auto
    then show ?thesis using Inl by (cases x) auto
  next
    case (Inr w1)
    then have ok: "aw_previous w \<le> an_length a" "agrees (aw_seen w) a" "anchor_fine key sn a"
      using anchor_step_Inr [of key sn w a] by auto
    note w1 = anchor_step_eq [OF Inr]
    have pt: "agrees (aw_seen w1) b \<longleftrightarrow> (if an_length b = an_length a then an_head b = an_head a else agrees (aw_seen w) b)" for b
      by (simp add: agrees_def w1(2) eq_commute)
    have one: "one_hash_each (a # as) \<longleftrightarrow> one_hash_each as \<and> (\<forall>b \<in> set as. an_length b = an_length a \<longrightarrow> an_head b = an_head a)"
      by (rule one_hash_each_Cons)
    have same: "agrees (aw_seen w) b" if "an_length b = an_length a" "an_head b = an_head a" for b
      using ok(2) that by (simp add: agrees_def)
    have agr: "list_all (agrees (aw_seen w1)) as \<and> one_hash_each as \<longleftrightarrow> list_all (agrees (aw_seen w)) as \<and> one_hash_each (a # as)"
    proof -
      have "(\<forall>b \<in> set as. agrees (aw_seen w1) b) \<longleftrightarrow> (\<forall>b \<in> set as. agrees (aw_seen w) b)
          \<and> (\<forall>b \<in> set as. an_length b = an_length a \<longrightarrow> an_head b = an_head a)"
        unfolding pt using same by metis
      then show ?thesis unfolding one list_all_iff by blast
    qed
    have "(\<exists>w'. walk_anchors key sn i w (a # as) = Inr w') \<longleftrightarrow> (\<exists>w'. walk_anchors key sn (i + 1) w1 as = Inr w')"
      using Inr by simp
    also have "\<dots> \<longleftrightarrow> sorted (an_length a # map an_length as) \<and> (list_all (agrees (aw_seen w1)) as \<and> one_hash_each as)
        \<and> list_all (anchor_fine key sn) as"
      unfolding Cons.IH w1(1) by blast
    also have "\<dots> \<longleftrightarrow> sorted (an_length a # map an_length as) \<and> (list_all (agrees (aw_seen w)) as \<and> one_hash_each (a # as))
        \<and> list_all (anchor_fine key sn) as"
      unfolding agr by blast
    also have "\<dots> \<longleftrightarrow> sorted (aw_previous w # map an_length (a # as)) \<and> list_all (agrees (aw_seen w)) (a # as)
        \<and> one_hash_each (a # as) \<and> list_all (anchor_fine key sn) (a # as)"
      using ok by auto
    finally show ?thesis .
  qed
qed (simp add: one_hash_each_def)

lemma walk_counted:
  "walk_anchors key sn i w as = Inr w' \<Longrightarrow>
     aw_counted w' = (if key = None then aw_counted w else aw_counted w \<union> an_length ` set as)"
proof (induction as arbitrary: i w)
  case (Cons a as)
  from Cons.prems obtain w1 where s: "anchor_step key sn w a = Inr w1" and r: "walk_anchors key sn (i + 1) w1 as = Inr w'"
    by (auto split: sum.split_asm prod.split_asm)
  from Cons.IH [OF r] anchor_step_eq(3) [OF s] show ?case by auto
qed simp

lemma read_anchor_length: "read_anchor lax_int j = Some a \<Longrightarrow> 0 \<le> an_length a"
  by (auto simp: read_anchor_def split: json.splits option.splits if_splits)

lemma parsed_lengths: "parse_anchors lax_int ls = Some as \<Longrightarrow> list_all (\<lambda>a. 0 \<le> an_length a) as"
  by (induction lax_int ls arbitrary: as rule: parse_anchors.induct) (auto split: option.splits dest: read_anchor_length)

lemma anchors_walk_ok:
  assumes "parse_anchors lax_int ls = Some as" "as \<noteq> []"
    "verify_anchors lax_int (Some sn) (AnchorLines ls) key least = Some r"
  shows "av_ok r \<longleftrightarrow> (\<forall>k. least = Some k \<longrightarrow> 1 \<le> k \<and> key \<noteq> None \<and> k \<le> int (card (an_length ` set as)))
    \<and> sorted (map an_length as) \<and> one_hash_each as \<and> list_all (anchor_fine key sn) as"
proof (cases "least \<noteq> None \<and> (the least < 1 \<or> key = None)")
  case True
  then show ?thesis using assms by (auto simp: verify_anchors_def no_anchors_def split: if_splits)
next
  case False
  have walk: "(\<exists>w'. walk_anchors key sn 0 first_walk as = Inr w') \<longleftrightarrow>
     sorted (map an_length as) \<and> one_hash_each as \<and> list_all (anchor_fine key sn) as"
    using parsed_lengths [OF assms(1)] unfolding walk_anchors_Inr
    by (auto simp: first_walk_def agrees_def list_all_iff intro: order_trans [of _ 0])
  show ?thesis
  proof (cases "walk_anchors key sn 0 first_walk as")
    case (Inl x)
    then have "\<not> (sorted (map an_length as) \<and> one_hash_each as \<and> list_all (anchor_fine key sn) as)" using walk by simp
    moreover have "\<not> av_ok r" using assms False Inl by (cases x) (auto simp: verify_anchors_def split: if_splits)
    ultimately show ?thesis by blast
  next
    case (Inr w)
    have c: "aw_counted w = (if key = None then {} else an_length ` set as)"
      using walk_counted [OF Inr] by (simp add: first_walk_def)
    have "av_ok r = (\<not> (least \<noteq> None \<and> int (card (aw_counted w)) < the least))"
      using assms False Inr by (auto simp: verify_anchors_def Let_def split: if_splits)
    moreover have "sorted (map an_length as) \<and> one_hash_each as \<and> list_all (anchor_fine key sn) as" using walk Inr by simp
    ultimately show ?thesis using False c by (cases least) auto
  qed
qed


section \<open>What an anchor proves\<close>

lemma written_anchor:
  assumes "verified_as H digest validate p files paths old" "take_snapshot validate p files = Some sn"
    "write_anchor sign now sn = Some b"
  shows "an_length b = int (length old)" "old \<noteq> [] \<Longrightarrow> an_head b = ev_hash (last old)" "an_segment b = None" "an_at b = now"
    "old = [] \<Longrightarrow> an_head b = GENESIS_HASH"
    "an_signature b = map_option (\<lambda>f. f (canonical_bytes (JObj (signed_view b)))) sign"
  using assms(3) verified_snapshot [OF assms(1,2)]
  by (auto simp: write_anchor_def Let_def signed_view_def split: if_splits)

lemma fine_position:
  assumes "verified_as H digest validate p files paths es" "take_snapshot validate p files = Some sn"
    and "position_failure sn n h = None" "1 \<le> n"
  shows "nat n \<le> length es \<and> ev_hash (es ! (nat n - 1)) = h"
proof -
  note sn = verified_snapshot [OF assms(1,2)]
  have len: "n \<le> int (length es)" using assms(3,4) sn(1) by (auto simp: position_failure_def split: if_splits)
  have "hash_at sn (n - 1) = Some (ev_hash (es ! nat (n - 1)))" using sn(3) [of "n - 1"] assms(4) len by simp
  moreover have "hash_at sn (n - 1) = Some h"
    using assms(3,4) len sn(1) by (auto simp: position_failure_def split: if_splits option.splits)
  moreover have "nat (n - 1) = nat n - 1" using assms(4) by simp
  ultimately show ?thesis using len by simp
qed

text \<open>C36: An anchor defeats the full rewrite of a ledger that verifies: two states of the ledger each verify as a chain
  (\<open>verify\<close> answers ok) with no segment archived, the anchors file verifies against the later one, and an anchor in
  it has the length and head that \<open>anchor\<close> wrote for the earlier one. Then the later state begins with every event of
  the earlier one, in order (payloads up to key order, signatures aside), unless SHA-256 collides on two of their
  records or a record hashes to the genesis value. The anchors check alone does not give this: it compares one stored
  hash, and it is the chain that binds the events before it.\<close>

lemma anchored_history_is_kept:
  assumes "verified_as H digest validate p files paths es" "take_snapshot validate p files = Some sn"
    and "verify_anchors lax_int (Some sn) (AnchorLines ls) key least = Some r" "av_ok r"
    and "parse_anchors lax_int ls = Some as" "a \<in> set as"
    and "verified_as H digest validate p' files' paths' old" "take_snapshot validate p' files' = Some sn'"
    and "write_anchor sign now sn' = Some b" "an_length a = an_length b" "an_head a = an_head b"
    and "list_all wf_event es" "list_all wf_event old"
    and "\<not> collision_in H es old" "\<not> genesis_preimage_in H GENESIS_HASH (es @ old)"
  shows "length old \<le> length es \<and> map event_content (take (length old) es) = map event_content old"
proof (cases "old = []")
  case False
  note wr = written_anchor [OF assms(7-9)]
  have ne: "as \<noteq> []" using assms(6) by auto
  have "anchor_fine key sn a" using anchors_walk_ok [OF assms(5) ne assms(3)] assms(4,6) by (auto simp: list_all_iff)
  then have pos: "position_failure sn (an_length a) (an_head a) = None" by (simp add: anchor_fine_def)
  have n: "1 \<le> an_length a" "nat (an_length a) = length old" using wr(1) assms(10) False by (cases old; simp)+
  note at = fine_position [OF assms(1,2) pos n(1), unfolded n(2)]
  have "ev_hash (es ! (length old - 1)) = ev_hash (old ! (length old - 1))"
    using at wr(2) [OF False] assms(11) False by (simp add: last_conv_nth)
  then have "map event_content (take (length old) es) = map event_content (take (length old) old)"
    using same_prefix [OF verified_snapshot(4) [OF assms(1,2)] verified_snapshot(4) [OF assms(7,8)] assms(12-15), of "length old"]
      at False by (cases old) simp_all
  with at show ?thesis by simp
qed simp

text \<open>What is anchored reads back and holds: the anchor written for a ledger that verifies is read back from its
  line as it was written, and the file that holds it alone verifies against the same ledger, under the key that
  signed it when there is one.\<close>

lemma fresh_anchor_holds:
  assumes "verified_as H digest validate p files paths es" "take_snapshot validate p files = Some sn"
    and "write_anchor sign now sn = Some a"
    and "key = None \<or> (\<exists>f holds. sign = Some f \<and> key = Some holds \<and> (\<forall>m. f m \<noteq> [] \<and> holds m (f m)))"
    and "list_all (\<lambda>e. ev_hash e \<noteq> ARCHIVED) es"
  shows "parse_anchors lax_int [Doc (JObj (anchor_line a))] = Some [a]
    \<and> (\<exists>r. verify_anchors lax_int (Some sn) (AnchorLines [Doc (JObj (anchor_line a))]) key None = Some r \<and> av_ok r
        \<and> av_checked r = 1 \<and> av_positions r = Some 1)"
proof -
  note wr = written_anchor [OF assms(1-3)] and sn = verified_snapshot [OF assms(1,2)]
  have read: "read_anchor lax_int (JObj (anchor_line a)) = Some a"
    using wr(1,3) by (cases a; cases "an_signature a") (simp_all add: read_anchor_def anchor_line_def ANCHOR_FIELDS_def
        text_or_null_def int_or_null_def json_opt_def opt_item_def)
  have pos: "position_failure sn (an_length a) (an_head a) = None"
  proof (cases "es = []")
    case False
    then have "hash_at sn (int (length es) - 1) = Some (ev_hash (last es))"
      using sn(3) [of "int (length es) - 1"] by (cases es rule: rev_cases) (simp_all add: nth_append)
    moreover have "ev_hash (last es) \<noteq> ARCHIVED" using assms(5) False by (simp add: list_all_iff)
    ultimately show ?thesis using wr(1) wr(2) [OF False] sn(1) False by (simp add: position_failure_def)
  qed (use wr(1,5) in \<open>simp add: position_failure_def\<close>)
  have sig: "\<exists>n. check_signature key a 0 = Inr n"
    using assms(4) wr(6) unfolding check_signature_Inr by auto
  then obtain n where n: "check_signature key a 0 = Inr n" by blast
  have "0 \<le> an_length a" using wr(1) by simp
  then have "walk_anchors key sn 0 first_walk [a] = Inr \<lparr>aw_previous = an_length a, aw_seen = [(an_length a, an_head a)],
      aw_counted = (if key = None then {} else {an_length a}), aw_signatures = n\<rparr>"
    by (simp add: anchor_step_def first_walk_def n pos bindE_def)
  then show ?thesis using read by (simp add: verify_anchors_def)
qed

section \<open>What a witness proves\<close>

lemma checked_position:
  assumes "check_anchor key sn m pl = None" "map_of pl ''length'' = Some (JInt n)" "map_of pl ''head_hash'' = Some (JStr h)"
    and "1 \<le> n" "m \<le> snap_length sn"
  shows "position_failure sn n h = None"
  using assms by (auto simp: check_anchor_def position_failure_def split: if_splits option.splits)

lemma all_good:
  assumes "length xs - length (filter P xs) = 0" "x \<in> set xs"
  shows "P x"
proof (rule ccontr)
  assume "\<not> P x"
  with assms(2) have "length (filter P xs) < length xs" by (rule length_filter_less)
  with assms(1) show False by linarith
qed

definition witness_length :: "ledger_snapshot \<Rightarrow> int option \<Rightarrow> int" where
  "witness_length sn len = (case len of None \<Rightarrow> snap_length sn | Some m \<Rightarrow> min (snap_length sn) m)"

lemma verify_witness_eq:
  "verify_witness key sn len pls =
     (let good = filter (\<lambda>pl. check_anchor key sn (witness_length sn len) pl = None) pls; failed = length pls - length good;
          sigs = (if key = None then 0 else length good)
      in if pls = [] then \<lparr>wv_ok = False, wv_checked = 0, wv_failed = 0, wv_signatures = 0\<rparr>
         else if failed \<noteq> 0 then \<lparr>wv_ok = False, wv_checked = length pls, wv_failed = failed, wv_signatures = sigs\<rparr>
         else if \<not> list_ex compares good
         then \<lparr>wv_ok = False, wv_checked = length pls, wv_failed = 0, wv_signatures = sigs\<rparr>
         else \<lparr>wv_ok = True, wv_checked = length pls, wv_failed = 0, wv_signatures = sigs\<rparr>)"
  unfolding verify_witness_def witness_length_def Let_def by (rule refl)

lemma witness_ok_each:
  assumes "wv_ok (verify_witness key sn len pls)" "pl \<in> set pls"
  shows "\<exists>m. m \<le> snap_length sn \<and> check_anchor key sn m pl = None"
proof -
  let ?m = "witness_length sn len"
  have "length pls - length (filter (\<lambda>pl. check_anchor key sn ?m pl = None) pls) = 0"
    using assms(1) unfolding verify_witness_eq Let_def by (simp split: if_split_asm)
  then have "check_anchor key sn ?m pl = None" by (rule all_good) (rule assms(2))
  moreover have "?m \<le> snap_length sn" by (simp add: witness_length_def split: option.split)
  ultimately show ?thesis by blast
qed

text \<open>What another estate saw cannot be taken back: when the witness anchors hold against the ledger as it is, and
  one of them has the length and head of an earlier state of it, the ledger still begins with every event of that
  state, in order, unless SHA-256 collides on two of their records or a record hashes to the genesis value.\<close>

lemma witnessed_history_is_kept:
  assumes "verified_as H digest validate p files paths es" "take_snapshot validate p files = Some sn"
    and "wv_ok (verify_witness key sn len pls)" "pl \<in> set pls"
    and "map_of pl ''length'' = Some (JInt (int (length old)))" "map_of pl ''head_hash'' = Some (JStr (ev_hash (last old)))"
    and "old \<noteq> []" "cv_ok (verify_chain H old GENESIS_HASH)" "list_all wf_event es" "list_all wf_event old"
    and "\<not> collision_in H es old" "\<not> genesis_preimage_in H GENESIS_HASH (es @ old)"
  shows "length old \<le> length es \<and> map event_content (take (length old) es) = map event_content old"
proof -
  obtain m where m: "m \<le> snap_length sn" "check_anchor key sn m pl = None" using witness_ok_each [OF assms(3,4)] by blast
  have n: "1 \<le> int (length old)" using assms(7) by (cases old) simp_all
  have "position_failure sn (int (length old)) (ev_hash (last old)) = None"
    by (rule checked_position [OF m(2) assms(5,6) n m(1)])
  from fine_position [OF assms(1,2) this n]
  have at: "length old \<le> length es" "ev_hash (es ! (length old - 1)) = ev_hash (old ! (length old - 1))"
    using assms(7) by (simp_all add: last_conv_nth)
  have "map event_content (take (length old) es) = map event_content (take (length old) old)"
    by (rule same_prefix [OF verified_snapshot(4) [OF assms(1,2)] assms(8-12) _ at(1) _ at(2)]) (use n in simp_all)
  with at(1) show ?thesis by simp
qed

lemma signed_by_key:
  assumes "map_of d ''key_fingerprint'' = Some (JStr print)" "\<And>m. f m \<noteq> []" "\<And>m. holds m (f m)"
  shows "key_problem (Some (holds, print)) (sign_anchor f d) = None"
proof -
  have off: "map_of (pop_key ''signature'' d) ''signature'' = None" by simp
  then have fresh: "signing_view (sign_anchor f d) = pop_key ''signature'' d"
    by (simp add: sign_anchor_def signing_view_def pop_key_def)
  have "map_of (sign_anchor f d) ''signature'' = Some (JStr (f (canonical_bytes (JObj (pop_key ''signature'' d)))))"
    using off by (simp add: sign_anchor_def signing_view_def map_add_def)
  moreover have "map_of (sign_anchor f d) ''key_fingerprint'' = Some (JStr print)"
    using assms(1) by (simp add: sign_anchor_def signing_view_def map_add_def)
  ultimately show ?thesis using assms(2,3) fresh by (simp add: key_problem_def)
qed

lemma signed_fields: "k \<noteq> ''signature'' \<Longrightarrow> map_of (sign_anchor f d) k = map_of d k"
  by (auto simp: sign_anchor_def signing_view_def map_add_def split: option.split)

text \<open>A witness vouches only for what it read: without a usable key a tick calls nobody; the one anchor it appends
  to the local ledger carries the length and head it read in the answer of the other estate, under that estate's
  name, and passes the key checks of verification under the public half of the key that signed it; nothing is
  appended when that answer is not a ledger head.\<close>

lemma witness_signs_what_it_read:
  assumes "witness_tick cfg w = (d1, d2, calls)" "ww_key w = Some (f, print)" "\<And>m. f m \<noteq> []" "\<And>m. holds m (f m)"
  shows "snd (snd (witness_tick cfg (w\<lparr>ww_key := None\<rparr>))) = []
    \<and> (case read_health (ww_fly w) of
        None \<Rightarrow> d1 = D1FlyUnreadable \<and> list_all (\<lambda>c. case c of AppendLocal _ \<Rightarrow> False | _ \<Rightarrow> True) calls
      | Some (n, h) \<Rightarrow> (\<exists>pl rest. calls = ReadFly # AppendLocal pl # rest
          \<and> list_all (\<lambda>c. case c of AppendLocal _ \<Rightarrow> False | _ \<Rightarrow> True) rest
          \<and> (d1 = D1Appended \<longleftrightarrow> ww_append w = Some 201) \<and> anchor_payload (wc_remote cfg)
              (JObj [(''event_type'', JStr ANCHOR_REMOTE), (''payload'', JObj pl)]) = Some pl
          \<and> map_of pl ''length'' = Some (JInt n) \<and> map_of pl ''head_hash'' = Some (JStr h)
          \<and> key_problem (Some (holds, print)) pl = None))"
proof -
  obtain e2 c2 where d2: "direction_2 cfg w (Some (f, print)) = (e2, c2)" by (cases "direction_2 cfg w (Some (f, print))")
  have rest: "list_all (\<lambda>c. case c of AppendLocal _ \<Rightarrow> False | _ \<Rightarrow> True) c2"
    using d2 by (auto simp: direction_2_def Let_def split: witness_secret.splits if_splits option.splits)
  have silent: "snd (snd (witness_tick cfg (w\<lparr>ww_key := None\<rparr>))) = []"
    by (auto simp: witness_tick_def direction_2_def split: witness_secret.splits if_splits)
  show ?thesis
  proof (cases "read_health (ww_fly w)")
    case None
    then have "d1 = D1FlyUnreadable" "calls = ReadFly # c2"
      using assms(1,2) d2 by (auto simp: witness_tick_def direction_1_def)
    with None rest silent show ?thesis by simp
  next
    case (Some nh)
    let ?pl = "sign_anchor f (head_payload cfg (wc_remote cfg) nh (ww_now w) print)"
    have c: "calls = ReadFly # AppendLocal ?pl # c2" "d1 = D1Appended \<longleftrightarrow> ww_append w = Some 201"
      using assms(1,2) d2 Some by (auto simp: witness_tick_def direction_1_def Let_def split: if_splits)
    have fields: "map_of ?pl ''length'' = Some (JInt (fst nh))" "map_of ?pl ''head_hash'' = Some (JStr (snd nh))"
      "map_of ?pl ''estate'' = Some (JStr (wc_remote cfg))"
      by (simp_all add: signed_fields head_payload_def)
    have key: "key_problem (Some (holds, print)) ?pl = None"
      by (rule signed_by_key) (simp add: head_payload_def, fact+)
    have "anchor_payload (wc_remote cfg) (JObj [(''event_type'', JStr ANCHOR_REMOTE), (''payload'', JObj ?pl)]) = Some ?pl"
      using fields(3) by (simp add: anchor_payload_def)
    with c fields key rest silent Some show ?thesis by (cases nh) simp
  qed
qed

text \<open>A head hash with a line feed at its end passes for 64 hexadecimal digits.\<close>

lemma line_feed_passes: "hex64 h \<Longrightarrow> length h = 64 \<Longrightarrow> hex64 (h @ [CHR 0x0A])"
proof -
  assume h: "hex64 h" "length h = 64"
  then have ne: "h \<noteq> []" by auto
  have "last h \<noteq> CHR 0x0A" using h ne by (auto simp: hex64_def Let_def split: if_splits)
  with h show ?thesis by (simp add: hex64_def Let_def)
qed


section \<open>A ledger of two events, anchored and witnessed after the first\<close>

definition toy_hash :: "string \<Rightarrow> string" where
  "toy_hash b = replicate 64 (if str_in ''second'' b then CHR ''b'' else CHR ''a'')"

definition toy_first :: ledger_event where
  "toy_first = make_event toy_hash ''id-0'' ''t0'' ''first'' None GENESIS_HASH None None None"

definition toy_second :: ledger_event where
  "toy_second = make_event toy_hash ''id-1'' ''t1'' ''second'' None (replicate 64 (CHR ''a'')) None None None"

definition toy_validate :: validator where
  "toy_validate j = (case j of JStr s \<Rightarrow> Some (if s = ''0'' then toy_first else toy_second) | _ \<Rightarrow> None)"

definition toy_files :: "json list \<Rightarrow> string \<Rightarrow> text_file option" where
  "toy_files js name = (if name = ''audit.jsonl'' then Some \<lparr>tf_lines = map Doc js, tf_tail = None\<rparr> else None)"

definition toy_key :: "string \<Rightarrow> string \<Rightarrow> bool" where "toy_key m sg = (sg = CHR ''s'' # m)"

lemma toy_hashes: "ev_hash toy_first = replicate 64 (CHR ''a'')" "ev_hash toy_second = replicate 64 (CHR ''b'')"
  "prev_hash toy_first = GENESIS_HASH" "prev_hash toy_second = replicate 64 (CHR ''a'')"
  by code_simp+

lemma toy_bytes: "toy_hash (event_bytes toy_first) = replicate 64 (CHR ''a'')" "toy_hash (event_bytes toy_second) = replicate 64 (CHR ''b'')"
  by code_simp+

lemma toy_wf: "wf_event toy_first" "wf_event toy_second"
  by (simp_all add: wf_event_def toy_first_def toy_second_def make_event_def Let_def)

lemma toy_verifies:
  "map_option st_ok (verify_ledger toy_hash (\<lambda>f. ''d'') toy_validate ''audit.jsonl'' (toy_files [JStr ''0'', JStr ''1'']) (\<lambda>_. None)) = Some True"
  "map_option st_ok (verify_ledger toy_hash (\<lambda>f. ''d'') toy_validate ''audit.jsonl'' (toy_files [JStr ''0'']) (\<lambda>_. None)) = Some True"
  by code_simp+

lemma toy_layout: "layout_of ''audit.jsonl'' (toy_files js) = \<lparr>ly_segmented = False, ly_segs = [single_view ''audit.jsonl''],
    ly_watch = [''audit.jsonl''], ly_journal = parse_journal None, ly_error = None, ly_archived = []\<rparr>"
  "parse_journal (toy_files js (journal_path_for ''audit.jsonl'')) = parse_journal None" "js_closed (parse_journal None) = []"
proof -
  have path: "journal_path_for ''audit.jsonl'' = ''audit.segments.journal''" by code_simp
  then have none: "toy_files js (journal_path_for ''audit.jsonl'') = None" by (simp add: toy_files_def)
  then show "parse_journal (toy_files js (journal_path_for ''audit.jsonl'')) = parse_journal None" by (rule arg_cong)
  show "js_closed (parse_journal None) = []" by code_simp
  have "\<not> js_present (parse_journal None)" by code_simp
  then show "layout_of ''audit.jsonl'' (toy_files js) = \<lparr>ly_segmented = False, ly_segs = [single_view ''audit.jsonl''],
    ly_watch = [''audit.jsonl''], ly_journal = parse_journal None, ly_error = None, ly_archived = []\<rparr>"
    by (simp add: layout_of_def none resolve_layout_def)
qed

lemma toy_events: "all_events toy_validate (toy_files [JStr ''0'', JStr ''1'']) (ly_segs (layout_of ''audit.jsonl'' (toy_files [JStr ''0'', JStr ''1''])))
    = Some [toy_first, toy_second]"
  "all_events toy_validate (toy_files [JStr ''0'']) (ly_segs (layout_of ''audit.jsonl'' (toy_files [JStr ''0'']))) = Some [toy_first]"
  by (simp_all add: toy_layout single_view_def toy_files_def parse_events_def all_lines_def toy_validate_def)

lemma toy_ledgers:
  "verified_as toy_hash (\<lambda>f. ''d'') toy_validate ''audit.jsonl'' (toy_files [JStr ''0'', JStr ''1'']) (\<lambda>_. None) [toy_first, toy_second]"
  "verified_as toy_hash (\<lambda>f. ''d'') toy_validate ''audit.jsonl'' (toy_files [JStr ''0'']) (\<lambda>_. None) [toy_first]"
  using toy_verifies by (auto simp: verified_as_def toy_events toy_layout(2,3))

lemma toy_snapshots:
  "\<exists>sn. take_snapshot toy_validate ''audit.jsonl'' (toy_files [JStr ''0'', JStr ''1'']) = Some sn"
  "\<exists>sn. take_snapshot toy_validate ''audit.jsonl'' (toy_files [JStr ''0'']) = Some sn"
  by (simp_all add: take_snapshot_def toy_layout single_view_def toy_files_def read_segment_def parse_events_located_def
      all_lines_def toy_validate_def)

lemma toy_sound: "list_all wf_event [toy_first, toy_second]" "list_all wf_event [toy_first]"
  "\<not> collision_in toy_hash [toy_first, toy_second] [toy_first]"
  "\<not> genesis_preimage_in toy_hash GENESIS_HASH ([toy_first, toy_second] @ [toy_first])"
  using toy_bytes by (auto simp: toy_wf collision_in_def genesis_preimage_in_def GENESIS_HASH_def)


lemma toy_anchor:
  assumes "take_snapshot toy_validate ''audit.jsonl'' (toy_files [JStr ''0'']) = Some sn"
  shows "\<exists>b. write_anchor (Some (\<lambda>m. CHR ''s'' # m)) ''now'' sn = Some b \<and> an_length b = 1
    \<and> an_head b = replicate 64 (CHR ''a'') \<and> an_segment b = None
    \<and> an_signature b = Some (CHR ''s'' # canonical_bytes (JObj (signed_view b)))"
  using verified_snapshot(1,2) [OF toy_ledgers(2) assms]
  by (simp add: write_anchor_def Let_def toy_hashes signed_view_def)

lemma toy_position:
  assumes "take_snapshot toy_validate ''audit.jsonl'' (toy_files [JStr ''0'', JStr ''1'']) = Some sn"
  shows "position_failure sn 1 (replicate 64 (CHR ''a'')) = None" "hash_at sn 0 = Some (replicate 64 (CHR ''a''))" "snap_length sn = 2"
proof -
  note sn = verified_snapshot [OF toy_ledgers(1) assms]
  show len: "snap_length sn = 2" using sn(1) by simp
  show at: "hash_at sn 0 = Some (replicate 64 (CHR ''a''))" using sn(3) [of 0] by (simp add: toy_hashes)
  show "position_failure sn 1 (replicate 64 (CHR ''a'')) = None"
    using len at by (simp add: position_failure_def ARCHIVED_def eval_nat_numeral)
qed

lemma anchored_history_is_kept_witness:
  "length [toy_first] \<le> length [toy_first, toy_second]
    \<and> map event_content (take (length [toy_first]) [toy_first, toy_second]) = map event_content [toy_first]"
proof -
  obtain sn where sn: "take_snapshot toy_validate ''audit.jsonl'' (toy_files [JStr ''0'', JStr ''1'']) = Some sn"
    using toy_snapshots(1) by blast
  obtain sn' where sn': "take_snapshot toy_validate ''audit.jsonl'' (toy_files [JStr ''0'']) = Some sn'"
    using toy_snapshots(2) by blast
  obtain b where b: "write_anchor (Some (\<lambda>m. CHR ''s'' # m)) ''now'' sn' = Some b" "an_length b = 1"
    "an_head b = replicate 64 (CHR ''a'')" "an_segment b = None"
    "an_signature b = Some (CHR ''s'' # canonical_bytes (JObj (signed_view b)))"
    using toy_anchor [OF sn'] by blast
  let ?ls = "[Doc (JObj (anchor_line b))]"
  have "read_anchor (\<lambda>j. None) (JObj (anchor_line b)) = Some b"
    using b(2,4,5) by (cases b; cases "an_signature b") (simp_all add: read_anchor_def anchor_line_def ANCHOR_FIELDS_def
        text_or_null_def int_or_null_def json_opt_def opt_item_def)
  then have p: "parse_anchors (\<lambda>j. None) ?ls = Some [b]" by simp
  have f: "anchor_fine (Some toy_key) sn b"
    using b toy_position(1) [OF sn] by (simp add: anchor_fine_def toy_key_def)
  obtain r where r: "verify_anchors (\<lambda>j. None) (Some sn) (AnchorLines ?ls) (Some toy_key) (Some 1) = Some r"
    using p by (cases "walk_anchors (Some toy_key) sn 0 first_walk [b]") (auto simp: verify_anchors_def Let_def)
  have "av_ok r" using anchors_walk_ok [OF p _ r] f by (simp add: one_hash_each_def)
  from anchored_history_is_kept [OF toy_ledgers(1) sn r this p _ toy_ledgers(2) sn' b(1) _ _ toy_sound, of b]
  show ?thesis by simp
qed

lemma fresh_anchor_holds_witness:
  "\<exists>sn a r. write_anchor (Some (\<lambda>m. CHR ''s'' # m)) ''now'' sn = Some a
    \<and> verify_anchors (\<lambda>j. None) (Some sn) (AnchorLines [Doc (JObj (anchor_line a))]) (Some toy_key) None = Some r \<and> av_ok r"
proof -
  obtain sn where sn: "take_snapshot toy_validate ''audit.jsonl'' (toy_files [JStr ''0'']) = Some sn"
    using toy_snapshots(2) by blast
  obtain b where b: "write_anchor (Some (\<lambda>m. CHR ''s'' # m)) ''now'' sn = Some b" using toy_anchor [OF sn] by blast
  have k: "Some toy_key = None \<or> (\<exists>f holds. Some (\<lambda>m. CHR ''s'' # m) = Some f \<and> Some toy_key = Some holds
      \<and> (\<forall>m. f m \<noteq> [] \<and> holds m (f m)))"
    by (rule disjI2, rule exI [of _ "\<lambda>m. CHR ''s'' # m"], rule exI [of _ toy_key]) (simp add: toy_key_def)
  have h: "list_all (\<lambda>e. ev_hash e \<noteq> ARCHIVED) [toy_first]" by (simp add: toy_hashes ARCHIVED_def eval_nat_numeral)
  from fresh_anchor_holds [OF toy_ledgers(2) sn b k h, of "\<lambda>j. None"] b show ?thesis by blast
qed

definition toy_payload :: py_dict where
  "toy_payload = [(''length'', JInt 1), (''head_hash'', JStr (replicate 64 (CHR ''a'')))]"

lemma witnessed_history_is_kept_witness:
  "length [toy_first] \<le> length [toy_first, toy_second]
    \<and> map event_content (take (length [toy_first]) [toy_first, toy_second]) = map event_content [toy_first]"
proof -
  obtain sn where sn: "take_snapshot toy_validate ''audit.jsonl'' (toy_files [JStr ''0'', JStr ''1'']) = Some sn"
    using toy_snapshots(1) by blast
  have hex: "hex64 (replicate 64 (CHR ''a''))" by code_simp
  have "check_anchor None sn 2 toy_payload = None"
    using toy_position(2) [OF sn] hex by (simp add: check_anchor_def toy_payload_def key_problem_def ARCHIVED_def eval_nat_numeral)
  then have ok: "wv_ok (verify_witness None sn None [toy_payload])"
    using toy_position(3) [OF sn] by (simp add: verify_witness_def Let_def) (simp add: compares_def toy_payload_def)
  from witnessed_history_is_kept [OF toy_ledgers(1) sn ok, of toy_payload "[toy_first]"] toy_sound
    verified_snapshot(4) [OF toy_ledgers(2)] toy_snapshots(2)
  show ?thesis by (auto simp: toy_payload_def toy_hashes)
qed

definition toy_world :: witness_world where
  "toy_world = \<lparr>ww_key = Some (\<lambda>m. CHR ''s'' # m, ''print''),
     ww_fly = Some (200, Some (JObj [(''event_count'', JInt 1), (''head_hash'', JStr (replicate 64 (CHR ''a'')))])),
     ww_local = None, ww_now = ''now'', ww_later = ''later'', ww_append = Some 201, ww_post = None, ww_secret = SecretUnset\<rparr>"

definition toy_config :: witness_config where
  "toy_config = \<lparr>wc_local = ''gb10'', wc_remote = ''fly'', wc_observer = JObj []\<rparr>"

lemma witness_signs_what_it_read_witness:
  "\<exists>d2 pl rest. witness_tick toy_config toy_world = (D1Appended, d2, ReadFly # AppendLocal pl # rest)
    \<and> map_of pl ''length'' = Some (JInt 1) \<and> key_problem (Some (toy_key, ''print'')) pl = None"
proof -
  obtain d1 d2 calls where t: "witness_tick toy_config toy_world = (d1, d2, calls)"
    by (cases "witness_tick toy_config toy_world") auto
  have hex: "hex64 (replicate 64 (CHR ''a''))" by code_simp
  have read: "read_health (ww_fly toy_world) = Some (1, replicate 64 (CHR ''a''))"
    by (simp add: read_health_def toy_world_def parse_head_def hex)
  have w: "ww_key toy_world = Some (\<lambda>m. CHR ''s'' # m, ''print'')" "ww_append toy_world = Some 201" by (simp_all add: toy_world_def)
  have "snd (snd (witness_tick toy_config (toy_world\<lparr>ww_key := None\<rparr>))) = []
    \<and> (case read_health (ww_fly toy_world) of
        None \<Rightarrow> d1 = D1FlyUnreadable \<and> list_all (\<lambda>c. case c of AppendLocal _ \<Rightarrow> False | _ \<Rightarrow> True) calls
      | Some (n, h) \<Rightarrow> (\<exists>pl rest. calls = ReadFly # AppendLocal pl # rest
          \<and> list_all (\<lambda>c. case c of AppendLocal _ \<Rightarrow> False | _ \<Rightarrow> True) rest
          \<and> (d1 = D1Appended \<longleftrightarrow> ww_append toy_world = Some 201) \<and> anchor_payload (wc_remote toy_config)
              (JObj [(''event_type'', JStr ANCHOR_REMOTE), (''payload'', JObj pl)]) = Some pl
          \<and> map_of pl ''length'' = Some (JInt n) \<and> map_of pl ''head_hash'' = Some (JStr h)
          \<and> key_problem (Some (toy_key, ''print'')) pl = None))"
    by (rule witness_signs_what_it_read [OF t w(1)]) (simp_all add: toy_key_def)
  then show ?thesis using t w(2) unfolding read option.case prod.case by (elim conjE exE) simp
qed

end
