(* ===== verification/Clients.thy ===== *)
theory Clients
  imports Operator_Auth
begin

text \<open>
  \<open>packages/field-core/src/field_core/clients.py\<close>: what a service gets back from the sealed ledger and
  the agent registry, and the body a signing client sends. The other service's answer to a call is an
  argument. A ledger call that is answered 201 has stored the event; one that is answered otherwise
  has not; one without an answer (a timeout) may have stored it or not.
\<close>

section \<open>The ledger client\<close>

text \<open>The events a service appends are a type of their own in each service's theory.\<close>

datatype ledger_reply = LR_created | LR_status nat | LR_lost bool

text \<open>\<open>LedgerUnreachableError\<close> with its status code, None when nothing answered.\<close>

datatype ledger_error = LedgerUnreachable "nat option"

definition ledger_append :: "ledger_reply \<Rightarrow> 'n \<Rightarrow> 'n list \<Rightarrow> 'n list \<times> (ledger_error + unit)" where
  "ledger_append reply n ledger =
     (case reply of
        LR_created \<Rightarrow> (ledger @ [n], Inr ())
      | LR_status st \<Rightarrow> if st = 201 then (ledger @ [n], Inr ()) else (ledger, Inl (LedgerUnreachable (Some st)))
      | LR_lost stored \<Rightarrow> (if stored then ledger @ [n] else ledger, Inl (LedgerUnreachable None)))"

lemma ledger_append_grows: "\<exists>new. fst (ledger_append reply n ledger) = ledger @ new"
  by (auto simp: ledger_append_def split: ledger_reply.splits)

lemma ledger_append_acked: "ledger_append reply n ledger = (ledger', Inr ()) \<Longrightarrow> ledger' = ledger @ [n]"
  by (auto simp: ledger_append_def split: ledger_reply.splits if_splits)

lemma ledger_append_only: "n' \<in> set (fst (ledger_append reply n ledger)) \<Longrightarrow> n' \<in> set ledger \<or> n' = n"
  by (auto simp: ledger_append_def split: ledger_reply.splits if_splits)

section \<open>The registry client\<close>

record reg_agent =
  ra_status :: "string option"
  ra_manifest_ref :: "string option"

datatype registry_reply = RegistryAgent reg_agent | RegistryStatus nat | RegistryNoAnswer
datatype registry_error = AgentNotRegistered | AgentNotActive string | RegistryUnreachable

definition get_agent :: "registry_reply \<Rightarrow> registry_error + reg_agent" where
  "get_agent reply =
     (case reply of RegistryNoAnswer \<Rightarrow> Inl RegistryUnreachable
      | RegistryStatus st \<Rightarrow> if st = 404 then Inl AgentNotRegistered else Inl RegistryUnreachable
      | RegistryAgent a \<Rightarrow> Inr a)"

definition require_active_agent :: "registry_reply \<Rightarrow> registry_error + reg_agent" where
  "require_active_agent reply = bindE (get_agent reply) (\<lambda>a.
     if ra_status a \<noteq> Some ''active''
     then Inl (AgentNotActive (case ra_status a of Some s \<Rightarrow> s | None \<Rightarrow> ''<unknown>'')) else Inr a)"

text \<open>\<open>_with_extra_headers\<close>: a per-call header never replaces one the client sets; None is the refusal.\<close>

definition with_extra_headers :: "headers \<Rightarrow> headers \<Rightarrow> headers option" where
  "with_extra_headers base extra =
     (let taken = map (\<lambda>(k, v). py_lower k) base in
      if list_ex (\<lambda>(k, v). py_lower k \<in> set taken) extra then None
      else Some (fold (\<lambda>(k, v). AList.update k v) extra base))"

section \<open>Signed appends\<close>

text \<open>
  A signing caller: its id and the signature its key makes of the five signed values (Ed25519, an
  argument). The layer the ledger runs is fixed by its environment, clock and operators file.
\<close>

record caller_signer =
  cs_id :: string
  cs_sign :: "string \<Rightarrow> string option \<Rightarrow> (string \<times> json) list \<Rightarrow> string \<Rightarrow> string \<Rightarrow> string"

record append_body =
  ab_event_type :: string
  ab_payload :: "(string \<times> json) list"
  ab_agent_id :: "string option"
  ab_caller :: "(string \<times> string \<times> string) option"

definition as_the_ledger_stores_it :: "op_env \<Rightarrow> (string \<Rightarrow> string) \<Rightarrow> rat \<Rightarrow> (registry_fault + op_row list)
    \<Rightarrow> string \<Rightarrow> (string \<times> json) list \<Rightarrow> headers \<Rightarrow> breakglass \<Rightarrow> (string \<times> json) list" where
  "as_the_ledger_stores_it env H now loaded etype p sent c =
     (case snd (admit_ledger_event env H now loaded sent etype p c) of Inl _ \<Rightarrow> p | Inr q \<Rightarrow> q)"

definition signed_append_body :: "op_env \<Rightarrow> (string \<Rightarrow> string) \<Rightarrow> rat \<Rightarrow> (registry_fault + op_row list) \<Rightarrow> op_context
    \<Rightarrow> caller_signer option \<Rightarrow> string \<Rightarrow> string \<Rightarrow> (string \<times> json) list \<Rightarrow> string option \<Rightarrow> headers \<Rightarrow> breakglass
    \<Rightarrow> append_body" where
  "signed_append_body env H now loaded cx caller clock etype p agent sent c =
     (let merged = merge_payload env cx p in
      case caller of
        None \<Rightarrow> \<lparr>ab_event_type = etype, ab_payload = merged, ab_agent_id = agent, ab_caller = None\<rparr>
      | Some s \<Rightarrow>
        let q = as_the_ledger_stores_it env H now loaded etype merged sent c in
        \<lparr>ab_event_type = etype, ab_payload = q, ab_agent_id = agent,
         ab_caller = Some (cs_id s, clock, cs_sign s etype agent q (cs_id s) clock)\<rparr>)"

section \<open>The signature covers what is stored\<close>

lemma strip_json_idem: "strip_json (strip_json j) = strip_json j"
  and strip_reserved_idem: "strip_reserved (strip_reserved kvs) = strip_reserved kvs"
  by (induction j and kvs rule: strip_json_strip_reserved.induct) auto

lemma strip_reserved_update:
  "\<not> is_reserved k \<Longrightarrow> strip_reserved (AList.update k v al) = AList.update k (strip_json v) (strip_reserved al)"
  by (induction al rule: strip_json_strip_reserved.induct(2)[where P = "\<lambda>_. True"]) auto

lemma strip_claim [simp]: "strip_json (shown_claim_json v) = shown_claim_json v"
  by (auto simp: shown_claim_json_def split: json.split)

lemma NOT_SHOWN_not_printable: "\<not> printable_id NOT_SHOWN"
  by code_simp

lemma shown_claim_idem [simp]: "shown_claim_json (shown_claim_json v) = shown_claim_json v"
  by (auto simp: shown_claim_json_def NOT_SHOWN_not_printable split: json.splits)

lemma update_idem: "AList.update k v (AList.update k v al) = AList.update k v al"
  by (induction al) auto

lemma update_commute_present:
  "k \<noteq> k' \<Longrightarrow> map_of al k \<noteq> None \<Longrightarrow> AList.update k v (AList.update k' v' al) = AList.update k' v' (AList.update k v al)"
  by (induction al) (auto simp: if_split)

definition mask_claim :: "(string \<times> json) list \<Rightarrow> (string \<times> json) list" where
  "mask_claim d = (case map_of d ''claimed_id'' of None \<Rightarrow> d
     | Some v \<Rightarrow> AList.update ''claimed_id'' (shown_claim_json v) d)"

lemma mask_claim_stamp:
  "mask_claim (AList.update ''self_reported'' b d) = AList.update ''self_reported'' b (mask_claim d)"
  using update_commute_present [of "''claimed_id''" "''self_reported''" d _ b]
  by (cases "map_of d ''claimed_id''") (simp_all add: mask_claim_def update_conv')

lemma mask_claim_idem: "mask_claim (mask_claim d) = mask_claim d"
  by (cases "map_of d ''claimed_id''") (simp_all add: mask_claim_def update_conv' update_idem)

lemma strip_mask: "strip_reserved (mask_claim (strip_reserved d)) = mask_claim (strip_reserved d)"
  by (cases "map_of (strip_reserved d) ''claimed_id''")
    (simp_all add: mask_claim_def strip_reserved_update not_reserved_keys strip_reserved_idem)

lemma admit_self_reported:
  "admit_ledger_event env H now loaded hs etype p c =
     (if op_mode_of env = OFF then (c, Inr p)
      else let tried = authenticate env H now loaded hs ''ledger_attribute'' c; caller = attributing_caller tried in
      if starts_with ''operator.'' (sealed_prefix_form etype) then
        if etype \<notin> set SELF_REPORTABLE_EVENT_TYPES then (c, Inl (OperatorRefused 403 FORBIDDEN_DETAIL))
        else (fst tried, Inr (AList.update ''self_reported'' (JBool (caller = None)) (mask_claim (strip_reserved p))))
      else if \<not> has_reserved (JObj p) then (c, Inr p)
      else if (case caller of None \<Rightarrow> False | Some a \<Rightarrow> may_attribute a etype) then (fst tried, Inr p)
      else (fst tried, Inr (strip_reserved p)))"
  by (simp add: admit_ledger_event_def mask_claim_def Let_def)

lemma authenticate_counter_free:
  "snd (authenticate env H now loaded hs a c) = snd (authenticate env H now loaded hs a c')"
  by (auto simp: authenticate_def auth_fail_def Let_def split: sum.splits)

lemma attributing_caller_counter_free:
  "attributing_caller (authenticate env H now loaded hs a c) = attributing_caller (authenticate env H now loaded hs a c')"
  by (simp add: attributing_caller_def authenticate_counter_free [of env H now loaded hs a c c'])

lemma admit_idem:
  assumes "snd (admit_ledger_event env H now loaded hs etype p c) = Inr q"
  shows "snd (admit_ledger_event env H now loaded hs etype q c') = Inr q"
proof -
  note free = attributing_caller_counter_free [of env H now loaded hs "''ledger_attribute''" c' c]
  show ?thesis
    using assms strip_reserved_no_reserved [of p]
    by (auto simp: admit_self_reported Let_def free strip_reserved_update not_reserved_keys strip_mask
        mask_claim_stamp mask_claim_idem update_idem simp del: has_reserved.simps split: if_splits option.splits)
qed

text \<open>the signature a client sends is over the payload the ledger stores: whenever the ledger admits
  the body a signing client built (same operator layer, same headers), the stored payload is the very
  payload the signature was made of, so admission can never invalidate a caller signature.\<close>

lemma signature_covers_stored_payload:
  assumes "signed_append_body env H now loaded cx (Some s) clock etype p agent sent c = b"
    and "snd (admit_ledger_event env H now loaded sent etype (ab_payload b) c') = Inr stored"
  shows "stored = ab_payload b \<and> ab_caller b = Some (cs_id s, clock, cs_sign s etype agent stored (cs_id s) clock)"
proof -
  let ?m = "merge_payload env cx p"
  have b: "ab_payload b = as_the_ledger_stores_it env H now loaded etype ?m sent c"
    "ab_caller b = Some (cs_id s, clock, cs_sign s etype agent (ab_payload b) (cs_id s) clock)"
    using assms(1) by (auto simp: signed_append_body_def Let_def)
  show ?thesis
  proof (cases "snd (admit_ledger_event env H now loaded sent etype ?m c)")
    case (Inr q)
    with b(1) have "ab_payload b = q" by (simp add: as_the_ledger_stores_it_def)
    with admit_idem [OF Inr, of c'] assms(2) b(2) show ?thesis by simp
  next
    case (Inl e)
    with b(1) have "ab_payload b = ?m" by (simp add: as_the_ledger_stores_it_def)
    with Inl assms(2) have False
      by (auto simp: admit_ledger_event_def Let_def split: if_splits)
    then show ?thesis ..
  qed
qed


definition demo_signer :: caller_signer where
  "demo_signer = \<lparr>cs_id = ''svc-ledger'', cs_sign = (\<lambda>t a p i ts. t @ i @ ts)\<rparr>"

definition demo_body :: append_body where
  "demo_body = signed_append_body demo_log_only (\<lambda>k. k) 5 (Inr demo_operators)
     \<lparr>cx_auth = unproven LOG_ONLY (Some ''don'') (Some NoCredential), cx_body_claim = None, cx_on_behalf = None\<rparr>
     (Some demo_signer) ''t'' ''kill.done'' [(''x'', JNull)] None [] no_uses"

lemma demo_body_admitted:
  "ab_payload demo_body = [(''x'', JNull)]"
  "snd (admit_ledger_event demo_log_only (\<lambda>k. k) 5 (Inr demo_operators) [] ''kill.done'' [(''x'', JNull)] no_uses)
     = Inr [(''x'', JNull)]"
  by (code_simp, code_simp)

lemma signature_covers_stored_payload_witness:
  "ab_caller demo_body = Some (''svc-ledger'', ''t'', cs_sign demo_signer ''kill.done'' None [(''x'', JNull)] ''svc-ledger'' ''t'')"
proof -
  have "snd (admit_ledger_event demo_log_only (\<lambda>k. k) 5 (Inr demo_operators) [] ''kill.done'' (ab_payload demo_body) no_uses)
      = Inr [(''x'', JNull)]"
    by (simp only: demo_body_admitted)
  from signature_covers_stored_payload [OF demo_body_def [symmetric] this] show ?thesis
    by (simp add: demo_signer_def)
qed

end
