(* ===== verification/Ledger_Context.thy ===== *)
theory Ledger_Context
  imports Canonical_Json
begin

text \<open>
  \<open>packages/field-core/src/field_core/ledger_context.py\<close>: what of a caller's free text and of its
  \<open>context\<close> reaches a ledger row. Within Latin-1 the characters of a category \<open>C*\<close> are the controls
  and the soft hyphen.
\<close>

definition CORRELATION_KEYS :: "string list" where
  "CORRELATION_KEYS = [''source'', ''session_id'', ''console_session_id'', ''console_agent_id'',
     ''session_thread_id'', ''event_id'']"

definition MAX_ID_CHARS :: nat where "MAX_ID_CHARS = 200"
definition MAX_NOTE_CHARS :: nat where "MAX_NOTE_CHARS = 300"

definition category_C :: "char \<Rightarrow> bool" where
  "category_C c = (let n = (of_char c :: nat) in n < 32 \<or> (127 \<le> n \<and> n < 160) \<or> n = 173)"

definition clean_text :: "string \<Rightarrow> nat \<Rightarrow> string" where
  "clean_text v limit =
     take limit (join_spaces (filter (\<lambda>w. w \<noteq> []) (map (filter (\<lambda>c. \<not> category_C c)) (py_split v))))"

text \<open>\<open>context\<close> is a JSON value; None is no context at all.\<close>

definition correlation_item :: "(string \<times> json) list \<Rightarrow> string \<Rightarrow> (string \<times> string) option" where
  "correlation_item kvs key =
     (case map_of kvs key of
        Some (JStr v) \<Rightarrow> (let t = clean_text v MAX_ID_CHARS in if t = [] then None else Some (key, t))
      | _ \<Rightarrow> None)"

definition correlation_context :: "json option \<Rightarrow> (string \<times> string) list" where
  "correlation_context ctx =
     (case ctx of Some (JObj kvs) \<Rightarrow> List.map_filter (correlation_item kvs) CORRELATION_KEYS | _ \<Rightarrow> [])"

definition ledger_note :: "string option \<Rightarrow> string option" where
  "ledger_note note = (case note of None \<Rightarrow> None
     | Some v \<Rightarrow> (let t = clean_text v MAX_NOTE_CHARS in if t = [] then None else Some t))"

text \<open>Only printable characters and single spaces are left.\<close>

lemma clean_text_printable: "c \<in> set (clean_text v n) \<Longrightarrow> \<not> category_C c"
proof -
  let ?ws = "filter (\<lambda>w. w \<noteq> []) (map (filter (\<lambda>c. \<not> category_C c)) (py_split v))"
  assume "c \<in> set (clean_text v n)"
  then have "c \<in> set (join_spaces ?ws)"
    unfolding clean_text_def by (rule in_set_takeD)
  then have "c = CHR '' '' \<or> (\<exists>w \<in> set ?ws. c \<in> set w)"
    using set_join_spaces [of ?ws] by blast
  then show ?thesis by (auto simp: category_C_def)
qed

lemma length_clean_text: "length (clean_text v n) \<le> n"
  by (simp add: clean_text_def)

text \<open>Every row of the context is one of the six keys, at most once, and bounded.\<close>

lemma correlation_item_Some:
  assumes "correlation_item kvs key = Some (k, t)"
  shows "k = key \<and> t \<noteq> [] \<and> length t \<le> MAX_ID_CHARS \<and> \<not> list_ex category_C t"
proof -
  obtain v where v: "map_of kvs key = Some (JStr v)"
    using assms by (cases "map_of kvs key") (auto simp: correlation_item_def split: json.splits)
  with assms have "k = key" "t = clean_text v MAX_ID_CHARS" "t \<noteq> []"
    by (simp_all add: correlation_item_def Let_def split: if_splits)
  then show ?thesis by (auto simp: length_clean_text list_ex_iff dest: clean_text_printable)
qed

lemma set_map_filter: "x \<in> set (List.map_filter f xs) \<longleftrightarrow> (\<exists>y \<in> set xs. f y = Some x)"
  by (force simp: List.map_filter_def)

lemma correlation_context_bounded:
  assumes "(k, t) \<in> set (correlation_context ctx)"
  shows "k \<in> set CORRELATION_KEYS \<and> t \<noteq> [] \<and> length t \<le> MAX_ID_CHARS \<and> \<not> list_ex category_C t"
proof -
  obtain kvs where "ctx = Some (JObj kvs)"
    using assms by (cases ctx) (auto simp: correlation_context_def split: json.splits)
  with assms obtain key where "key \<in> set CORRELATION_KEYS" "correlation_item kvs key = Some (k, t)"
    by (auto simp: correlation_context_def set_map_filter)
  with correlation_item_Some show ?thesis by blast
qed

text \<open>A caller's free text reaches a ledger row only bounded, non-empty and free of control and
  format characters; in particular no line break or escape sequence reaches it.\<close>

lemma ledger_note_is_clean:
  "ledger_note note = Some t \<Longrightarrow> t \<noteq> [] \<and> length t \<le> MAX_NOTE_CHARS \<and> \<not> list_ex category_C t"
  by (auto simp: ledger_note_def Let_def length_clean_text list_ex_iff
      dest: clean_text_printable split: option.splits if_splits)

lemma ledger_note_is_clean_witness:
  "ledger_note (Some (''a'' @ [CHR 0x1B] @ ''b  c'' @ [CHR 0x0A])) = Some ''ab c''
   \<and> length ''ab c'' \<le> MAX_NOTE_CHARS \<and> \<not> list_ex category_C ''ab c''"
proof -
  have *: "ledger_note (Some (''a'' @ [CHR 0x1B] @ ''b  c'' @ [CHR 0x0A])) = Some ''ab c''"
    by code_simp
  show ?thesis using ledger_note_is_clean [OF *] * by simp
qed

end
