(* ===== verification/Sentinel.thy ===== *)
theory Sentinel
  imports Clients Ledger_Context
begin

text \<open>
  \<open>services/conformance-sentinel/src/conformance_sentinel\<close>: the operating mode (\<open>mode.py\<close>), the routing
  predicate (\<open>routing.py\<close>), the injection screen (\<open>judge.py\<close>), the decision engine (\<open>engine.py\<close>), the
  ledger gate (\<open>api.py\<close>), and the guard around a wrapped callable (\<open>governed.py\<close>). What the other
  services and the model answer to a check is an argument. The reasons of a verdict are text for
  people and are not modelled; a verdict's decision, clause and context are.
\<close>

section \<open>Clauses and decisions\<close>

datatype decision = ALLOW | BLOCK | ESCALATE

definition CLAUSES :: "string list" where
  "CLAUSES = [''F.isolated'', ''F.peer'', ''I.principal'', ''I.manifest'', ''E.kill_switch'', ''E.spend_cap'',
     ''E.spend_threshold'', ''E.rate_limit'', ''E.irreversible'', ''E.escalation_trigger'', ''L.seal'',
     ''L.unreachable'', ''D.token'', ''D.scope'', ''D.expired'', ''D.revoked'', ''D.semantic'', ''D.grantor'',
     ''R.unregistered'']"

section \<open>Mode\<close>

datatype sentinel_mode = LogOnly | Enforce
datatype mode_error = InvalidSentinelMode

definition env_value :: "string option \<Rightarrow> string" where
  "env_value v = py_lower (py_strip (case v of None \<Rightarrow> [] | Some s \<Rightarrow> s))"

definition resolve_mode :: "string option \<Rightarrow> mode_error + sentinel_mode" where
  "resolve_mode env =
     (let raw = map (\<lambda>c. if c = CHR ''-'' then CHR ''_'' else c) (env_value env) in
      if raw = [] then Inr LogOnly
      else if raw \<in> {''log_only'', ''logonly''} then Inr LogOnly
      else if raw \<in> {''enforce'', ''enforcing'', ''enforced''} then Inr Enforce
      else Inl InvalidSentinelMode)"

datatype judge_kind = MockJudge | AnthropicJudge

definition resolve_judge :: "string option \<Rightarrow> judge_kind option" where
  "resolve_judge env = (let raw = env_value env in
     if raw = ''mock'' then Some MockJudge else if raw = ''anthropic'' then Some AnthropicJudge else None)"

section \<open>The routing predicate\<close>

definition STOPWORDS :: "string list" where
  "STOPWORDS = [''a'', ''an'', ''and'', ''for'', ''from'', ''of'', ''or'', ''the'', ''to'', ''with'']"

definition word_char :: "char \<Rightarrow> bool" where
  "word_char c = (is_digit c \<or> (let n = (of_char c :: nat) in 97 \<le> n \<and> n \<le> 122))"

text \<open>\<open>[a-z0-9]+\<close>, every maximal run.\<close>

fun word_runs :: "string \<Rightarrow> string \<Rightarrow> string list" where
  "word_runs w [] = (if w = [] then [] else [rev w])"
| "word_runs w (c # s) =
     (if word_char c then word_runs (c # w) s else if w = [] then word_runs [] s else rev w # word_runs [] s)"

definition content_tokens :: "string \<Rightarrow> string list" where
  "content_tokens text = filter (\<lambda>t. t \<notin> set STOPWORDS) (word_runs [] (py_lower text))"

definition needs_semantic_judgment :: "string \<Rightarrow> string list \<Rightarrow> bool" where
  "needs_semantic_judgment action scopes =
     (action \<notin> set scopes \<and> content_tokens action \<noteq> []
      \<and> list_ex (\<lambda>entry. list_ex (\<lambda>t. t \<in> set (content_tokens entry)) (content_tokens action)) scopes)"

section \<open>The injection screen\<close>

text \<open>
  The regular expressions the screen is written in, case ignored: \<open>rmatch\<close> gives the positions (the
  text before, reversed, and the text after) at which a match can end.
\<close>

datatype char_class = Lit char | Space | Dot

datatype rx =
    RClass char_class
  | RRep char_class nat "nat option"
  | REmpty
  | RSeq rx rx
  | RAlt rx rx
  | RStart
  | RBoundary

definition class_ok :: "char_class \<Rightarrow> char \<Rightarrow> bool" where
  "class_ok k c = (case k of Lit x \<Rightarrow> lower_char c = x | Space \<Rightarrow> py_isspace c | Dot \<Rightarrow> of_char c \<noteq> (10 :: nat))"

text \<open>\<open>\w\<close>: alphanumeric in Unicode, or an underscore.\<close>

definition word_class :: "char \<Rightarrow> bool" where
  "word_class c = (let n = (of_char c :: nat) in
     (48 \<le> n \<and> n \<le> 57) \<or> (65 \<le> n \<and> n \<le> 90) \<or> (97 \<le> n \<and> n \<le> 122) \<or> n = 95
     \<or> n \<in> {170, 178, 179, 181, 185, 186, 188, 189, 190} \<or> (192 \<le> n \<and> n \<noteq> 215 \<and> n \<noteq> 247))"

definition at_boundary :: "string \<Rightarrow> string \<Rightarrow> bool" where
  "at_boundary p s = ((p \<noteq> [] \<and> word_class (hd p)) \<noteq> (s \<noteq> [] \<and> word_class (hd s)))"

fun rmatch :: "rx \<Rightarrow> string \<times> string \<Rightarrow> (string \<times> string) list" where
  "rmatch (RClass k) (p, s) = (case s of [] \<Rightarrow> [] | c # r \<Rightarrow> if class_ok k c then [(c # p, r)] else [])"
| "rmatch (RRep k lo hi) (p, s) =
     (let run = length (takeWhile (class_ok k) s);
          top = (case hi of None \<Rightarrow> run | Some h \<Rightarrow> min run h)
      in map (\<lambda>i. (rev (take i s) @ p, drop i s)) [lo..<Suc top])"
| "rmatch REmpty x = [x]"
| "rmatch (RSeq a b) x = concat (map (rmatch b) (rmatch a x))"
| "rmatch (RAlt a b) x = rmatch a x @ rmatch b x"
| "rmatch RStart (p, s) = (if p = [] then [(p, s)] else [])"
| "rmatch RBoundary (p, s) = (if at_boundary p s then [(p, s)] else [])"

definition rx_search :: "rx \<Rightarrow> string \<Rightarrow> bool" where
  "rx_search r s = list_ex (\<lambda>i. rmatch r (rev (take i s), drop i s) \<noteq> []) [0..<Suc (length s)]"

definition rlit :: "string \<Rightarrow> rx" where
  "rlit s = foldr (\<lambda>c r. RSeq (RClass (Lit c)) r) s REmpty"

definition rseq :: "rx list \<Rightarrow> rx" where
  "rseq rs = foldr RSeq rs REmpty"

definition ralts :: "rx list \<Rightarrow> rx" where
  "ralts rs = foldr RAlt (butlast rs) (last rs)"

definition spaces1 :: rx where "spaces1 = RRep Space 1 None"
definition spaces0 :: rx where "spaces0 = RRep Space 0 None"

definition SCREEN_PATTERNS :: "(string \<times> rx) list" where
  "SCREEN_PATTERNS =
    [(''ignore-previous'',
      rseq [ralts (map rlit [''ignore'', ''disregard'', ''forget'']), spaces1,
        ralts [rseq [rlit ''all'', spaces1], rseq [rlit ''any'', spaces1], REmpty],
        ralts (map rlit [''previous'', ''prior'', ''above'', ''earlier''])]),
     (''instruction-override'',
      rseq [ralts (map rlit [''new'', ''updated'', ''real'']), spaces1,
        ralts [rlit ''instructions'', rseq [rlit ''system'', spaces0, rlit ''prompt'']]]),
     (''system-prompt'', rseq [rlit ''system'', spaces0, rlit ''prompt'']),
     (''role-tag'',
      ralts [rseq [rlit ''<'', ralts [rlit ''/'', REmpty], spaces0,
               ralts (map rlit [''system'', ''assistant'', ''human'', ''user'']), spaces0, rlit ''>''],
             rseq [RStart, spaces0, ralts (map rlit [''assistant'', ''system'']), spaces0, rlit '':'']]),
     (''you-are-now'', rseq [RBoundary, rlit ''you'', spaces1, rlit ''are'', spaces1, rlit ''now'', RBoundary]),
     (''verdict-coercion'',
      rseq [ralts (map rlit [''respond'', ''answer'', ''reply'', ''output'']), spaces1, RRep Dot 0 (Some 30),
        ralts (map rlit [''conforming'', ''allow'', ''json''])])]"

definition MAX_ACTION_CHARS :: nat where "MAX_ACTION_CHARS = 500"

definition injection_screen :: "string \<Rightarrow> string option" where
  "injection_screen action =
     (if MAX_ACTION_CHARS < length action then Some ''length-cap''
      else if list_ex (\<lambda>c. of_char c < (32 :: nat) \<and> of_char c \<noteq> (9 :: nat)) action then Some ''control-chars''
      else map_option fst (find (\<lambda>(name, r). rx_search r action) SCREEN_PATTERNS))"

section \<open>What the others answer\<close>

datatype 'a reply = NoReply | Status nat | Body 'a

text \<open>A 404 reads as None, any other failure raises.\<close>

datatype call_error = CallFailed

definition or_none :: "'a reply \<Rightarrow> call_error + 'a option" where
  "or_none r = (case r of NoReply \<Rightarrow> Inl CallFailed
     | Status st \<Rightarrow> if st = 404 then Inr None else Inl CallFailed | Body b \<Rightarrow> Inr (Some b))"

text \<open>The ledger's \<open>/health\<close>: a non-200 is a status, a body that is not JSON is None.\<close>

definition ledger_health :: "json option reply \<Rightarrow> bool" where
  "ledger_health r = (case r of
     Body (Some (JObj kvs)) \<Rightarrow> map_of kvs ''ok'' = Some (JBool True)
       \<and> map_of kvs ''appendable'' \<in> {None, Some (JBool True)}
   | _ \<Rightarrow> False)"

text \<open>The ceiling of a token as \<open>Decimal(str(raw))\<close> reads it.\<close>

datatype ceiling = Unreadable | Amount rat

record intro_body =
  ib_active :: bool
  ib_status :: "string option"
  ib_agent :: "string option"
  ib_scope :: "string list"
  ib_ceiling :: "ceiling option"
  ib_issued :: "string option"

record spend_body =
  sb_state :: "string option"
  sb_retry :: "int option"

record totals_body =
  tb_currency :: "string option"
  tb_spent :: int

record judge_verdict =
  jv_conforming :: "bool option"
  jv_confidence :: rat
  jv_model :: string
  jv_in :: int
  jv_out :: int

record check_request =
  cq_agent :: string
  cq_action :: string
  cq_token :: "string option"
  cq_irreversible :: bool
  cq_context :: json

record check_world =
  cw_health :: "json option reply"
  cw_registry :: registry_reply
  cw_manifest :: "string option \<Rightarrow> field_manifest option"
  cw_introspect :: "string \<Rightarrow> intro_body reply"
  cw_spend :: "spend_body reply"
  cw_totals :: "string \<Rightarrow> totals_body reply"
  cw_judge_spend :: "spend_body reply"
  cw_judge :: "judge_verdict option"
  cw_usage :: "unit reply"
  cw_record :: "unit reply"
  cw_judge_append :: ledger_reply
  cw_append :: ledger_reply
  cw_gap_append :: ledger_reply

record sentinel_config =
  sn_mode :: sentinel_mode
  sn_judge :: bool
  sn_floor :: rat

section \<open>The decision\<close>

record refusal =
  rf_decision :: decision
  rf_clause :: string
  rf_retry :: "int option"

definition stop :: "decision \<Rightarrow> string \<Rightarrow> refusal + 'a" where
  "stop d c = Inl \<lparr>rf_decision = d, rf_clause = c, rf_retry = None\<rparr>"

definition step_ledger :: "check_world \<Rightarrow> refusal + unit" where
  "step_ledger w = (if ledger_health (cw_health w) then Inr () else stop BLOCK ''L.unreachable'')"

definition step_registry :: "check_world \<Rightarrow> refusal + reg_agent" where
  "step_registry w = (case get_agent (cw_registry w) of
     Inl _ \<Rightarrow> stop BLOCK ''R.unregistered''
   | Inr a \<Rightarrow> if ra_status a = Some ''killed'' then stop BLOCK ''E.kill_switch''
       else if ra_status a \<noteq> Some ''active'' then stop BLOCK ''R.unregistered'' else Inr a)"

definition step_manifest :: "check_world \<Rightarrow> reg_agent \<Rightarrow> refusal + field_manifest" where
  "step_manifest w a = (case cw_manifest w (ra_manifest_ref a) of
     None \<Rightarrow> stop BLOCK ''I.manifest'' | Some m \<Rightarrow> Inr m)"

definition inactive_clause :: "string option \<Rightarrow> string" where
  "inactive_clause st = (if st = Some ''expired'' then ''D.expired''
     else if st = Some ''revoked'' then ''D.revoked'' else ''D.token'')"

definition step_token :: "check_world \<Rightarrow> check_request \<Rightarrow> refusal + intro_body" where
  "step_token w q = (case cq_token q of
     None \<Rightarrow> stop BLOCK ''D.token''
   | Some [] \<Rightarrow> stop BLOCK ''D.token''
   | Some t \<Rightarrow> (case cw_introspect w t of
       Body i \<Rightarrow>
         if \<not> ib_active i then stop BLOCK (inactive_clause (ib_status i))
         else if ib_agent i \<noteq> Some (cq_agent q) then stop BLOCK ''D.token''
         else Inr i
     | _ \<Rightarrow> stop BLOCK ''D.token''))"

text \<open>
  The judge: whatever cannot be judged within budget and metered goes to a human. The first component
  is the judgment that was made and metered, which goes to the ledger.
\<close>

definition judge_scope :: "sentinel_config \<Rightarrow> check_world \<Rightarrow> string \<Rightarrow> judge_verdict option \<times> (refusal + unit)" where
  "judge_scope cfg w action =
     (if injection_screen action \<noteq> None then (None, stop ESCALATE ''D.semantic'')
      else case or_none (cw_judge_spend w) of
        Inl _ \<Rightarrow> (None, stop ESCALATE ''D.semantic'')
      | Inr None \<Rightarrow> (None, stop ESCALATE ''D.semantic'')
      | Inr (Some b) \<Rightarrow>
        if sb_state b = Some ''BLOCK'' then (None, stop ESCALATE ''D.semantic'')
        else case cw_judge w of None \<Rightarrow> (None, stop ESCALATE ''D.semantic'')
        | Some jv \<Rightarrow> (case cw_usage w of
            Body _ \<Rightarrow>
              (Some jv,
               if jv_conforming jv = Some True \<and> sn_floor cfg \<le> jv_confidence jv then Inr ()
               else if jv_conforming jv = Some False \<and> sn_floor cfg \<le> jv_confidence jv then stop BLOCK ''D.scope''
               else stop ESCALATE ''D.semantic'')
          | _ \<Rightarrow> (None, stop ESCALATE ''D.semantic'')))"

definition effective_scope :: "field_manifest \<Rightarrow> intro_body \<Rightarrow> string list" where
  "effective_scope m i = filter (\<lambda>s. s \<in> set (ib_scope i)) (md_scope (mf_delegation_section m))"

definition in_scope :: "field_manifest \<Rightarrow> intro_body \<Rightarrow> string \<Rightarrow> bool" where
  "in_scope m i action = (action \<in> set (ib_scope i) \<and> action \<in> set (md_scope (mf_delegation_section m)))"

definition step_scope :: "sentinel_config \<Rightarrow> check_world \<Rightarrow> check_request \<Rightarrow> field_manifest \<Rightarrow> intro_body
    \<Rightarrow> judge_verdict option \<times> (refusal + unit)" where
  "step_scope cfg w q m i =
     (if in_scope m i (cq_action q) then (None, Inr ())
      else if sn_judge cfg \<and> needs_semantic_judgment (cq_action q) (effective_scope m i)
      then judge_scope cfg w (cq_action q)
      else (None, stop BLOCK ''D.scope''))"

definition step_irreversible :: "check_request \<Rightarrow> field_manifest \<Rightarrow> refusal + unit" where
  "step_irreversible q m =
     (if \<not> cq_irreversible q then Inr ()
      else case irreversible_action_policy (mf_enforcement m) of
        Forbid \<Rightarrow> stop BLOCK ''E.irreversible''
      | RequireHumanApproval \<Rightarrow> stop ESCALATE ''E.irreversible''
      | AllowWithLedger \<Rightarrow> Inr ())"

definition trigger_matches :: "string \<Rightarrow> string \<Rightarrow> bool" where
  "trigger_matches trigger action =
     (str_in (py_lower trigger) (py_lower action) \<or> str_in (py_lower action) (py_lower trigger))"

definition triggers_of :: "field_manifest \<Rightarrow> string list" where
  "triggers_of m = (case escalation_triggers (mf_enforcement m) of None \<Rightarrow> [] | Some ts \<Rightarrow> ts)"

definition step_triggers :: "check_request \<Rightarrow> field_manifest \<Rightarrow> refusal + unit" where
  "step_triggers q m = (if list_ex (\<lambda>t. trigger_matches t (cq_action q)) (triggers_of m)
     then stop ESCALATE ''E.escalation_trigger'' else Inr ())"

definition ceiling_cents :: "rat \<Rightarrow> int" where
  "ceiling_cents x = floor (x * 100)"

text \<open>\<open>intro.get("issued_at") or "1970-01-01T00:00:00+00:00"\<close>.\<close>

definition ceiling_since :: "intro_body \<Rightarrow> string" where
  "ceiling_since i = (case ib_issued i of None \<Rightarrow> ''1970-01-01T00:00:00+00:00''
     | Some s \<Rightarrow> if s = [] then ''1970-01-01T00:00:00+00:00'' else s)"

definition py_upper_ascii :: "string \<Rightarrow> string" where
  "py_upper_ascii s = map (\<lambda>c. let n = (of_char c :: nat) in if 97 \<le> n \<and> n \<le> 122 then char_of (n - 32) else c) s"

definition is_usd :: "string option \<Rightarrow> bool" where
  "is_usd c = (case c of None \<Rightarrow> False | Some s \<Rightarrow> py_upper_ascii (py_strip s) = ''USD'')"

definition token_ceiling :: "check_world \<Rightarrow> intro_body \<Rightarrow> ceiling \<Rightarrow> refusal + unit" where
  "token_ceiling w i c =
     (case c of Unreadable \<Rightarrow> stop BLOCK ''E.spend_cap''
      | Amount x \<Rightarrow>
        if x < 0 then stop BLOCK ''E.spend_cap''
        else case or_none (cw_totals w (ceiling_since i)) of
          Inl _ \<Rightarrow> stop BLOCK ''E.spend_cap''
        | Inr None \<Rightarrow> stop ESCALATE ''E.spend_cap''
        | Inr (Some t) \<Rightarrow>
          if \<not> is_usd (tb_currency t) then stop BLOCK ''E.spend_cap''
          else if ceiling_cents x \<le> tb_spent t then stop BLOCK ''E.spend_cap'' else Inr ())"

text \<open>What step 8 learned of the governor: nothing, or its status.\<close>

type_synonym probe = "spend_body option option"

definition step_spend :: "check_world \<Rightarrow> field_manifest \<Rightarrow> intro_body \<Rightarrow> probe \<times> (refusal + unit)" where
  "step_spend w m i =
     (case or_none (cw_spend w) of
        Inl _ \<Rightarrow> (None, stop BLOCK ''E.spend_cap'')
      | Inr None \<Rightarrow> (Some None,
          if en_spend_cap (mf_enforcement m) \<noteq> None \<or> ib_ceiling i \<noteq> None then stop ESCALATE ''E.spend_cap'' else Inr ())
      | Inr (Some b) \<Rightarrow> (Some (Some b),
          if sb_state b = Some ''BLOCK'' then stop BLOCK ''E.spend_cap''
          else bindE (case ib_ceiling i of None \<Rightarrow> Inr () | Some c \<Rightarrow> token_ceiling w i c) (\<lambda>_.
            if sb_state b = Some ''THROTTLED''
            then Inl \<lparr>rf_decision = BLOCK, rf_clause = ''E.rate_limit'', rf_retry = sb_retry b\<rparr>
            else if sb_state b = Some ''ESCALATE'' then stop ESCALATE ''E.spend_threshold'' else Inr ())))"

text \<open>The eight steps: the judgment made on the way, what step 8 learned, and the refusal if there is one.\<close>

definition decide :: "sentinel_config \<Rightarrow> check_world \<Rightarrow> check_request
    \<Rightarrow> judge_verdict option \<times> probe \<times> (refusal + unit)" where
  "decide cfg w q =
     (case bindE (step_ledger w) (\<lambda>_. bindE (step_registry w) (\<lambda>a. bindE (step_manifest w a) (\<lambda>m.
            bindE (step_token w q) (\<lambda>i. Inr (m, i))))) of
        Inl r \<Rightarrow> (None, None, Inl r)
      | Inr (m, i) \<Rightarrow>
        (case step_scope cfg w q m i of
           (jv, Inl r) \<Rightarrow> (jv, None, Inl r)
         | (jv, Inr _) \<Rightarrow>
           (case bindE (step_irreversible q m) (\<lambda>_. step_triggers q m) of
              Inl r \<Rightarrow> (jv, None, Inl r)
            | Inr _ \<Rightarrow> (case step_spend w m i of (p, r) \<Rightarrow> (jv, p, r)))))"

section \<open>The verdict and its record\<close>

datatype sentinel_event =
    JudgeRecord string string judge_verdict
  | ShadowRecord decision string string string "int option" "(string \<times> string) list"
  | VerdictRecord decision "string option" string string "int option" "(string \<times> string) list"
  | GapRecord string string bool "(string \<times> string) list"

datatype metering = NotMetered | Metered | NoCap | MeteringGap

record verdict =
  vd_decision :: decision
  vd_agent :: string
  vd_action :: string
  vd_clause :: "string option"
  vd_token :: "string option"
  vd_irreversible :: bool
  vd_retry :: "int option"
  vd_would_be :: "(decision \<times> string) option"
  vd_record_failed :: bool
  vd_metering :: metering

record sentinel =
  sn_ledger :: "sentinel_event list"
  sn_dropped :: nat
  sn_posts :: "(string \<times> string \<times> bool) list"

definition caller_ids :: "check_request \<Rightarrow> (string \<times> string) list" where
  "caller_ids q = correlation_context (Some (cq_context q))"

text \<open>A best-effort append: a record the ledger refused or lost is counted.\<close>

definition append_event :: "ledger_reply \<Rightarrow> sentinel_event \<Rightarrow> sentinel \<Rightarrow> sentinel \<times> bool" where
  "append_event reply e s =
     (case ledger_append reply e (sn_ledger s) of
        (l, Inr _) \<Rightarrow> (s\<lparr>sn_ledger := l\<rparr>, True) | (l, Inl _) \<Rightarrow> (s\<lparr>sn_ledger := l\<rparr>, False))"

definition note_append :: "ledger_reply \<Rightarrow> sentinel_event \<Rightarrow> sentinel \<Rightarrow> sentinel" where
  "note_append reply e s =
     (case append_event reply e s of (s', ok) \<Rightarrow> if ok then s' else s'\<lparr>sn_dropped := sn_dropped s' + 1\<rparr>)"

definition bare_verdict :: "check_request \<Rightarrow> decision \<Rightarrow> string option \<Rightarrow> int option \<Rightarrow> verdict" where
  "bare_verdict q d c retry = \<lparr>vd_decision = d, vd_agent = cq_agent q, vd_action = cq_action q, vd_clause = c,
     vd_token = cq_token q, vd_irreversible = cq_irreversible q, vd_retry = retry, vd_would_be = None,
     vd_record_failed = False, vd_metering = NotMetered\<rparr>"

definition make_verdict :: "sentinel_config \<Rightarrow> check_world \<Rightarrow> check_request \<Rightarrow> refusal + unit \<Rightarrow> sentinel
    \<Rightarrow> sentinel \<times> verdict" where
  "make_verdict cfg w q r s =
     (case r of
        Inl f \<Rightarrow>
          if sn_mode cfg = LogOnly
          then (note_append (cw_append w)
                  (ShadowRecord (rf_decision f) (rf_clause f) (cq_agent q) (cq_action q) (rf_retry f) (caller_ids q)) s,
                (bare_verdict q ALLOW None (rf_retry f))\<lparr>vd_would_be := Some (rf_decision f, rf_clause f)\<rparr>)
          else (fst (append_event (cw_append w)
                  (VerdictRecord (rf_decision f) (Some (rf_clause f)) (cq_agent q) (cq_action q) (rf_retry f) (caller_ids q)) s),
                bare_verdict q (rf_decision f) (Some (rf_clause f)) (rf_retry f))
      | Inr _ \<Rightarrow>
          (case append_event (cw_append w) (VerdictRecord ALLOW None (cq_agent q) (cq_action q) None (caller_ids q)) s of
             (s', recorded) \<Rightarrow>
               (s', if \<not> recorded \<and> sn_mode cfg = Enforce
                    then (bare_verdict q BLOCK (Some ''L.unreachable'') None)\<lparr>vd_record_failed := True\<rparr>
                    else bare_verdict q ALLOW None None)))"

section \<open>Metering\<close>

definition meter :: "check_world \<Rightarrow> check_request \<Rightarrow> probe \<Rightarrow> verdict \<Rightarrow> sentinel \<Rightarrow> sentinel \<times> verdict" where
  "meter w q p v s =
     (let shadowed = (vd_would_be v \<noteq> None) in
      if p = Some None then (s, v\<lparr>vd_metering := NoCap\<rparr>)
      else
        let s1 = s\<lparr>sn_posts := sn_posts s @ [(cq_agent q, cq_action q, shadowed)]\<rparr> in
        (case or_none (cw_record w) of
           Inl _ \<Rightarrow> (note_append (cw_gap_append w) (GapRecord (cq_agent q) (cq_action q) shadowed (caller_ids q)) s1,
                     v\<lparr>vd_metering := MeteringGap\<rparr>)
         | Inr None \<Rightarrow> (s1, v\<lparr>vd_metering := NoCap\<rparr>)
         | Inr (Some _) \<Rightarrow> (s1, v\<lparr>vd_metering := Metered\<rparr>)))"

definition check :: "sentinel_config \<Rightarrow> check_world \<Rightarrow> check_request \<Rightarrow> sentinel \<Rightarrow> sentinel \<times> verdict" where
  "check cfg w q s =
     (case decide cfg w q of (jv, p, r) \<Rightarrow>
        let s0 = (case jv of None \<Rightarrow> s
              | Some j \<Rightarrow> note_append (cw_judge_append w) (JudgeRecord (cq_agent q) (cq_action q) j) s);
            (s1, v) = make_verdict cfg w q r s0
        in if vd_decision v = ALLOW then meter w q p v s1 else (s1, v))"

section \<open>The guard around a callable\<close>

text \<open>The sentinel's answer as the guard reads it: no 2xx JSON answer, or the \<open>decision\<close> of the body.\<close>

datatype guard_answer = GuardNoAnswer | GuardDecision "string option"
datatype guard_error = ActionBlocked | ActionEscalated

definition guard_check :: "guard_answer \<Rightarrow> guard_error + unit" where
  "guard_check a = (case a of GuardNoAnswer \<Rightarrow> Inl ActionBlocked
     | GuardDecision d \<Rightarrow> if d = Some ''BLOCK'' then Inl ActionBlocked
         else if d = Some ''ESCALATE'' then Inl ActionEscalated
         else if d \<noteq> Some ''ALLOW'' then Inl ActionBlocked else Inr ())"

definition governed :: "guard_answer \<Rightarrow> (unit \<Rightarrow> 'a) \<Rightarrow> guard_error + 'a" where
  "governed a f = bindE (guard_check a) (\<lambda>_. Inr (f ()))"


section \<open>What an ALLOW means\<close>

text \<open>The clauses, declaratively: an action is allowed when all of this holds.\<close>

definition judged_conforming :: "sentinel_config \<Rightarrow> check_world \<Rightarrow> field_manifest \<Rightarrow> intro_body \<Rightarrow> string \<Rightarrow> bool" where
  "judged_conforming cfg w m i action =
     (sn_judge cfg \<and> needs_semantic_judgment action (effective_scope m i) \<and> injection_screen action = None
      \<and> (\<exists>b. cw_judge_spend w = Body b \<and> sb_state b \<noteq> Some ''BLOCK'')
      \<and> (\<exists>jv. cw_judge w = Some jv \<and> cw_usage w = Body () \<and> jv_conforming jv = Some True
            \<and> sn_floor cfg \<le> jv_confidence jv))"

definition under_ceiling :: "check_world \<Rightarrow> intro_body \<Rightarrow> bool" where
  "under_ceiling w i = (case ib_ceiling i of None \<Rightarrow> True
     | Some c \<Rightarrow> (\<exists>x t. c = Amount x \<and> 0 \<le> x \<and> cw_totals w (ceiling_since i) = Body t
         \<and> is_usd (tb_currency t) \<and> tb_spent t < ceiling_cents x))"

definition within_budget :: "check_world \<Rightarrow> field_manifest \<Rightarrow> intro_body \<Rightarrow> bool" where
  "within_budget w m i =
     (cw_spend w = Status 404 \<and> en_spend_cap (mf_enforcement m) = None \<and> ib_ceiling i = None
      \<or> (\<exists>b. cw_spend w = Body b \<and> sb_state b \<notin> {Some ''BLOCK'', Some ''THROTTLED'', Some ''ESCALATE''}
            \<and> under_ceiling w i))"

definition all_clauses_hold :: "sentinel_config \<Rightarrow> check_world \<Rightarrow> check_request \<Rightarrow> bool" where
  "all_clauses_hold cfg w q =
     (ledger_health (cw_health w)
      \<and> (\<exists>a m t i. cw_registry w = RegistryAgent a \<and> ra_status a = Some ''active''
          \<and> cw_manifest w (ra_manifest_ref a) = Some m
          \<and> cq_token q = Some t \<and> t \<noteq> [] \<and> cw_introspect w t = Body i \<and> ib_active i \<and> ib_agent i = Some (cq_agent q)
          \<and> (in_scope m i (cq_action q) \<or> judged_conforming cfg w m i (cq_action q))
          \<and> (cq_irreversible q \<longrightarrow> irreversible_action_policy (mf_enforcement m) = AllowWithLedger)
          \<and> (\<forall>tr \<in> set (triggers_of m). \<not> trigger_matches tr (cq_action q))
          \<and> within_budget w m i))"

lemma stop_not_Inr [simp]: "stop d c \<noteq> Inr x"
  by (simp add: stop_def)

lemma step_ledger_Inr [simp]: "step_ledger w = Inr u \<longleftrightarrow> ledger_health (cw_health w)"
  by (simp add: step_ledger_def)

lemma step_registry_Inr [simp]:
  "step_registry w = Inr a \<longleftrightarrow> cw_registry w = RegistryAgent a \<and> ra_status a = Some ''active''"
  by (auto simp: step_registry_def get_agent_def split: registry_reply.split)

lemma step_manifest_Inr [simp]: "step_manifest w a = Inr m \<longleftrightarrow> cw_manifest w (ra_manifest_ref a) = Some m"
  by (auto simp: step_manifest_def split: option.split)

lemma step_token_Inr [simp]:
  "step_token w q = Inr i \<longleftrightarrow> (\<exists>t. cq_token q = Some t \<and> t \<noteq> [] \<and> cw_introspect w t = Body i \<and> ib_active i
     \<and> ib_agent i = Some (cq_agent q))"
  by (auto simp: step_token_def split: option.split list.split reply.split)

lemma or_none_simps [simp]:
  "or_none r = Inr None \<longleftrightarrow> r = Status 404" "or_none r = Inr (Some b) \<longleftrightarrow> r = Body b"
  by (auto simp: or_none_def split: reply.split)

lemma judge_scope_Inr:
  "snd (judge_scope cfg w action) = Inr u \<longleftrightarrow> injection_screen action = None
    \<and> (\<exists>b. cw_judge_spend w = Body b \<and> sb_state b \<noteq> Some ''BLOCK'')
    \<and> (\<exists>jv. cw_judge w = Some jv \<and> cw_usage w = Body () \<and> jv_conforming jv = Some True \<and> sn_floor cfg \<le> jv_confidence jv)"
  by (cases "cw_judge_spend w"; cases "cw_judge w"; cases "cw_usage w")
    (auto simp: judge_scope_def or_none_def)

lemma step_scope_Inr:
  "snd (step_scope cfg w q m i) = Inr u \<longleftrightarrow> in_scope m i (cq_action q) \<or> judged_conforming cfg w m i (cq_action q)"
  by (cases "in_scope m i (cq_action q)";
      cases "sn_judge cfg \<and> needs_semantic_judgment (cq_action q) (effective_scope m i)")
    (auto simp: step_scope_def judged_conforming_def judge_scope_Inr)

lemma step_irreversible_Inr:
  "step_irreversible q m = Inr u
    \<longleftrightarrow> (cq_irreversible q \<longrightarrow> irreversible_action_policy (mf_enforcement m) = AllowWithLedger)"
  by (simp add: step_irreversible_def split: irreversible_policy.split)

lemma step_triggers_Inr:
  "step_triggers q m = Inr u \<longleftrightarrow> (\<forall>tr \<in> set (triggers_of m). \<not> trigger_matches tr (cq_action q))"
  by (simp add: step_triggers_def list_ex_iff)

lemma token_ceiling_Inr:
  "token_ceiling w i c = Inr u \<longleftrightarrow> (\<exists>x t. c = Amount x \<and> 0 \<le> x \<and> cw_totals w (ceiling_since i) = Body t
     \<and> is_usd (tb_currency t) \<and> tb_spent t < ceiling_cents x)"
  by (cases c; cases "cw_totals w (ceiling_since i)") (auto simp: token_ceiling_def or_none_def)

lemma step_spend_Inr: "snd (step_spend w m i) = Inr u \<longleftrightarrow> within_budget w m i"
proof (cases "cw_spend w")
  case (Body b)
  have "(case ib_ceiling i of None \<Rightarrow> Inr () | Some c \<Rightarrow> token_ceiling w i c) = Inr () \<longleftrightarrow> under_ceiling w i"
    by (simp add: under_ceiling_def token_ceiling_Inr split: option.split)
  with Body show ?thesis
    by (auto simp: step_spend_def within_budget_def or_none_def bindE_Inr_iff)
qed (auto simp: step_spend_def within_budget_def or_none_def)

lemma decide_Inr: "snd (snd (decide cfg w q)) = Inr u \<longleftrightarrow> all_clauses_hold cfg w q"
proof -
  define front where "front = bindE (step_ledger w) (\<lambda>_. bindE (step_registry w) (\<lambda>a. bindE (step_manifest w a) (\<lambda>m.
    bindE (step_token w q) (\<lambda>i. Inr (m, i)))))"
  have first: "front = Inr (m, i) \<longleftrightarrow> ledger_health (cw_health w)
      \<and> (\<exists>a. cw_registry w = RegistryAgent a \<and> ra_status a = Some ''active'' \<and> cw_manifest w (ra_manifest_ref a) = Some m)
      \<and> (\<exists>t. cq_token q = Some t \<and> t \<noteq> [] \<and> cw_introspect w t = Body i \<and> ib_active i
          \<and> ib_agent i = Some (cq_agent q))" for m i
    unfolding front_def bindE_Inr_iff by auto
  have rest: "snd (snd (decide cfg w q)) = Inr u \<longleftrightarrow> (\<exists>m i. front = Inr (m, i)
      \<and> snd (step_scope cfg w q m i) = Inr () \<and> step_irreversible q m = Inr () \<and> step_triggers q m = Inr ()
      \<and> snd (step_spend w m i) = Inr ())"
    unfolding decide_def front_def [symmetric]
    by (cases front) (auto split: prod.split sum.split simp: bindE_def)
  show ?thesis
    unfolding rest first step_scope_Inr step_spend_Inr step_irreversible_Inr step_triggers_Inr all_clauses_hold_def
    by blast
qed


lemma append_event_acked:
  "append_event reply e s = (s', True) \<Longrightarrow> reply \<in> {LR_created, LR_status 201} \<and> sn_ledger s' = sn_ledger s @ [e]"
  by (auto simp: append_event_def ledger_append_def split: ledger_reply.splits if_splits)

lemma append_event_ok_iff: "snd (append_event reply e s) \<longleftrightarrow> reply \<in> {LR_created, LR_status 201}"
  by (auto simp: append_event_def ledger_append_def split: ledger_reply.splits if_splits)

lemma append_event_posts [simp]: "sn_posts (fst (append_event reply e s)) = sn_posts s"
  by (auto simp: append_event_def split: prod.split sum.split)

lemma append_event_pair: "append_event reply e s = (s', ok) \<Longrightarrow> sn_posts s' = sn_posts s"
  using append_event_posts [of reply e s] by simp

lemma append_event_grows: "\<exists>new. sn_ledger (fst (append_event reply e s)) = sn_ledger s @ new"
  using ledger_append_grows [of reply e "sn_ledger s"]
  by (auto simp: append_event_def split: prod.split sum.split)

lemma note_append_posts [simp]: "sn_posts (note_append reply e s) = sn_posts s"
  using append_event_posts [of reply e s] by (cases "append_event reply e s") (simp add: note_append_def)

lemma note_append_grows: "\<exists>new. sn_ledger (note_append reply e s) = sn_ledger s @ new"
  using append_event_grows [of reply e s] by (auto simp: note_append_def split: prod.split)

lemma meter_decision [simp]:
  "vd_decision (snd (meter w q p v s)) = vd_decision v" "vd_clause (snd (meter w q p v s)) = vd_clause v"
  "vd_would_be (snd (meter w q p v s)) = vd_would_be v" "vd_record_failed (snd (meter w q p v s)) = vd_record_failed v"
  by (auto simp: meter_def Let_def split: sum.split option.split)

lemma meter_grows: "\<exists>new. sn_ledger (fst (meter w q p v s)) = sn_ledger s @ new"
  using note_append_grows [of "cw_gap_append w" _ "s\<lparr>sn_posts := sn_posts s @ [(cq_agent q, cq_action q, vd_would_be v \<noteq> None)]\<rparr>"]
  by (auto simp: meter_def Let_def split: sum.split option.split)

text \<open>The verdict before metering, which metering only annotates.\<close>

definition judged_state :: "check_world \<Rightarrow> check_request \<Rightarrow> judge_verdict option \<Rightarrow> sentinel \<Rightarrow> sentinel" where
  "judged_state w q jv s = (case jv of None \<Rightarrow> s
     | Some j \<Rightarrow> note_append (cw_judge_append w) (JudgeRecord (cq_agent q) (cq_action q) j) s)"

definition first_verdict :: "sentinel_config \<Rightarrow> check_world \<Rightarrow> check_request \<Rightarrow> sentinel \<Rightarrow> sentinel \<times> verdict" where
  "first_verdict cfg w q s = (case decide cfg w q of (jv, p, r) \<Rightarrow> make_verdict cfg w q r (judged_state w q jv s))"

lemma check_eq:
  "check cfg w q s = (case first_verdict cfg w q s of (s1, v) \<Rightarrow>
     if vd_decision v = ALLOW then meter w q (fst (snd (decide cfg w q))) v s1 else (s1, v))"
  by (auto simp: check_def first_verdict_def judged_state_def Let_def split: prod.split)

lemma check_decision:
  "vd_decision (snd (check cfg w q s)) = vd_decision (snd (first_verdict cfg w q s))"
  "vd_clause (snd (check cfg w q s)) = vd_clause (snd (first_verdict cfg w q s))"
  "vd_would_be (snd (check cfg w q s)) = vd_would_be (snd (first_verdict cfg w q s))"
  "vd_record_failed (snd (check cfg w q s)) = vd_record_failed (snd (first_verdict cfg w q s))"
  by (auto simp: check_eq split: prod.split)

lemma judged_state_grows: "\<exists>new. sn_ledger (judged_state w q jv s) = sn_ledger s @ new"
  using note_append_grows by (auto simp: judged_state_def split: option.split)

lemma judged_state_posts [simp]: "sn_posts (judged_state w q jv s) = sn_posts s"
  by (simp add: judged_state_def split: option.split)

lemma make_verdict_grows: "\<exists>new. sn_ledger (fst (make_verdict cfg w q r s)) = sn_ledger s @ new"
  using append_event_grows note_append_grows
  by (auto simp: make_verdict_def split: sum.split prod.split) (metis fst_conv)+

lemma make_verdict_posts [simp]: "sn_posts (fst (make_verdict cfg w q r s)) = sn_posts s"
  by (auto simp: make_verdict_def dest: append_event_pair split: sum.split prod.split)

lemma first_verdict_posts [simp]: "sn_posts (fst (first_verdict cfg w q s)) = sn_posts s"
  by (simp add: first_verdict_def split: prod.split)

lemma grows_trans: "\<exists>new. b = a @ new \<Longrightarrow> \<exists>new. c = b @ new \<Longrightarrow> \<exists>new. c = a @ new"
  by auto

interpretation sentinel_log: logging_service "\<lambda>(cfg, w, q) s. fst (check cfg w q s)" sn_ledger
proof
  fix x :: "sentinel_config \<times> check_world \<times> check_request" and s
  obtain cfg w q where x: "x = (cfg, w, q)" by (cases x)
  obtain s1 v where f: "first_verdict cfg w q s = (s1, v)" by fastforce
  obtain jv p r where d: "decide cfg w q = (jv, p, r)" by (cases "decide cfg w q")
  have "\<exists>new. sn_ledger s1 = sn_ledger s @ new"
    using grows_trans [OF judged_state_grows [of w q jv s] make_verdict_grows [of cfg w q r]] f
    by (simp add: first_verdict_def d)
  moreover from this have "\<exists>new. sn_ledger (fst (meter w q p v s1)) = sn_ledger s @ new"
    by (rule grows_trans [OF _ meter_grows])
  ultimately have "\<exists>new. sn_ledger (fst (check cfg w q s)) = sn_ledger s @ new"
    by (simp add: check_eq f d)
  then show "\<exists>new. sn_ledger ((case x of (cfg, w, q) \<Rightarrow> \<lambda>s. fst (check cfg w q s)) s) = sn_ledger s @ new"
    by (simp add: x)
qed

text \<open>Every refusal is a BLOCK or an ESCALATE on a clause of the registry.\<close>

definition cited :: "refusal \<Rightarrow> bool" where
  "cited f = (rf_decision f \<noteq> ALLOW \<and> rf_clause f \<in> set CLAUSES)"

lemma stop_cited: "stop d c = Inl f \<Longrightarrow> d \<noteq> ALLOW \<Longrightarrow> c \<in> set CLAUSES \<Longrightarrow> cited f"
  by (auto simp: stop_def cited_def)

lemma clause_members:
  "''L.unreachable'' \<in> set CLAUSES" "''R.unregistered'' \<in> set CLAUSES" "''E.kill_switch'' \<in> set CLAUSES"
  "''I.manifest'' \<in> set CLAUSES" "''D.token'' \<in> set CLAUSES" "''D.expired'' \<in> set CLAUSES" "''D.revoked'' \<in> set CLAUSES"
  "''D.scope'' \<in> set CLAUSES" "''D.semantic'' \<in> set CLAUSES" "''E.irreversible'' \<in> set CLAUSES"
  "''E.escalation_trigger'' \<in> set CLAUSES" "''E.spend_cap'' \<in> set CLAUSES" "''E.rate_limit'' \<in> set CLAUSES"
  "''E.spend_threshold'' \<in> set CLAUSES"
  by (simp_all add: CLAUSES_def)

lemma inactive_clause_member: "inactive_clause st \<in> set CLAUSES"
  by (simp add: inactive_clause_def clause_members)

lemma steps_cited:
  "step_ledger w = Inl f \<Longrightarrow> cited f"
  "step_registry w = Inl f \<Longrightarrow> cited f"
  "step_manifest w a = Inl f \<Longrightarrow> cited f"
  "step_token w q = Inl f \<Longrightarrow> cited f"
  "step_irreversible q m = Inl f \<Longrightarrow> cited f"
  "step_triggers q m = Inl f \<Longrightarrow> cited f"
  "token_ceiling w i c = Inl f \<Longrightarrow> cited f"
  by (auto simp: step_ledger_def step_registry_def step_manifest_def step_token_def step_irreversible_def
      step_triggers_def token_ceiling_def
      dest!: stop_cited simp: clause_members inactive_clause_member
      split: if_splits sum.splits option.splits list.splits reply.splits irreversible_policy.splits ceiling.splits)

lemma judge_cited: "snd (judge_scope cfg w action) = Inl f \<Longrightarrow> cited f"
  by (auto simp: judge_scope_def dest!: stop_cited simp: clause_members
      split: if_splits sum.splits option.splits reply.splits)

lemma scope_cited: "snd (step_scope cfg w q m i) = Inl f \<Longrightarrow> cited f"
  using judge_cited by (auto simp: step_scope_def dest!: stop_cited simp: clause_members split: if_splits)

lemma bindE_Inl_iff: "bindE m f = Inl e \<longleftrightarrow> m = Inl e \<or> (\<exists>x. m = Inr x \<and> f x = Inl e)"
  by (cases m) auto

lemma spend_cited: "snd (step_spend w m i) = Inl f \<Longrightarrow> cited f"
  using steps_cited(7)
  by (auto simp: step_spend_def bindE_Inl_iff cited_def [of "\<lparr>rf_decision = _, rf_clause = _, rf_retry = _\<rparr>"]
      dest!: stop_cited simp: clause_members split: if_splits sum.splits option.splits)

lemma decide_cited:
  assumes "snd (snd (decide cfg w q)) = Inl f" shows "cited f"
proof -
  define front where "front = bindE (step_ledger w) (\<lambda>_. bindE (step_registry w) (\<lambda>a. bindE (step_manifest w a) (\<lambda>m.
    bindE (step_token w q) (\<lambda>i. Inr (m, i)))))"
  have first: "front = Inl f \<Longrightarrow> cited f"
    unfolding front_def bindE_Inl_iff using steps_cited by auto
  show ?thesis
  proof (cases front)
    case (Inl e)
    with assms first show ?thesis by (simp add: decide_def front_def [symmetric])
  next
    case (Inr x)
    obtain m i where x: "x = (m, i)" by (cases x)
    obtain jv r where sc: "step_scope cfg w q m i = (jv, r)" by fastforce
    obtain p u where sp: "step_spend w m i = (p, u)" by fastforce
    have "r = Inl f \<Longrightarrow> cited f" "u = Inl f \<Longrightarrow> cited f"
      using scope_cited [of cfg w q m i f] spend_cited [of w m i f] sc sp by simp_all
    moreover have "bindE (step_irreversible q m) (\<lambda>_. step_triggers q m) = Inl f \<Longrightarrow> cited f"
      unfolding bindE_Inl_iff using steps_cited by auto
    ultimately show ?thesis
      using assms Inr x sc sp unfolding decide_def front_def [symmetric]
      by (auto split: sum.splits)
  qed
qed

lemma first_verdict_enforce:
  assumes "sn_mode cfg = Enforce"
  shows "vd_decision (snd (first_verdict cfg w q s)) = ALLOW
      \<longleftrightarrow> all_clauses_hold cfg w q \<and> cw_append w \<in> {LR_created, LR_status 201}"
    and "vd_decision (snd (first_verdict cfg w q s)) = ALLOW
      \<Longrightarrow> VerdictRecord ALLOW None (cq_agent q) (cq_action q) None (caller_ids q)
          \<in> set (sn_ledger (fst (first_verdict cfg w q s)))"
proof -
  obtain jv p r where d: "decide cfg w q = (jv, p, r)" by (cases "decide cfg w q")
  have r: "r = Inr () \<longleftrightarrow> all_clauses_hold cfg w q" using decide_Inr [of cfg w q "()"] by (simp add: d)
  have ref: "rf_decision f \<noteq> ALLOW" if "r = Inl f" for f
    using decide_cited [of cfg w q f] that by (simp add: d cited_def)
  let ?e = "VerdictRecord ALLOW None (cq_agent q) (cq_action q) None (caller_ids q)"
  obtain s' ok where a: "append_event (cw_append w) ?e (judged_state w q jv s) = (s', ok)" by fastforce
  have ok: "ok \<longleftrightarrow> cw_append w \<in> {LR_created, LR_status 201}"
    using append_event_ok_iff [of "cw_append w" ?e "judged_state w q jv s"] by (simp add: a)
  have v: "first_verdict cfg w q s = make_verdict cfg w q r (judged_state w q jv s)"
    by (simp add: first_verdict_def d)
  show "vd_decision (snd (first_verdict cfg w q s)) = ALLOW
      \<longleftrightarrow> all_clauses_hold cfg w q \<and> cw_append w \<in> {LR_created, LR_status 201}"
    unfolding v r [symmetric] ok [symmetric] using ref
    by (cases r) (auto simp: make_verdict_def assms a bare_verdict_def)
  show "?e \<in> set (sn_ledger (fst (first_verdict cfg w q s)))" if "vd_decision (snd (first_verdict cfg w q s)) = ALLOW"
    using that ref a append_event_acked [of "cw_append w" ?e "judged_state w q jv s" s'] unfolding v
    by (cases r; cases ok) (auto simp: make_verdict_def assms bare_verdict_def)
qed

text \<open>C14: An enforcing sentinel answers ALLOW exactly when every clause holds and the ledger took the record:
  ledger healthy, agent active, manifest there, a live token of this agent, the action in both scopes or
  affirmed by the metered judge, the irreversible and trigger rules, the budget and the token's ceiling;
  and then the record of the ALLOW is on the ledger.\<close>

theorem enforced_allow_iff:
  assumes "sn_mode cfg = Enforce"
  shows "(vd_decision (snd (check cfg w q s)) = ALLOW
        \<longleftrightarrow> all_clauses_hold cfg w q \<and> cw_append w \<in> {LR_created, LR_status 201})
    \<and> (vd_decision (snd (check cfg w q s)) = ALLOW
        \<longrightarrow> VerdictRecord ALLOW None (cq_agent q) (cq_action q) None (caller_ids q)
            \<in> set (sn_ledger (fst (check cfg w q s))))"
proof -
  obtain s1 v where f: "first_verdict cfg w q s = (s1, v)" by fastforce
  obtain new where "sn_ledger (fst (meter w q (fst (snd (decide cfg w q))) v s1)) = sn_ledger s1 @ new"
    using meter_grows by blast
  then show ?thesis
    using first_verdict_enforce [OF assms, of w q s] f by (auto simp: check_decision check_eq)
qed

text \<open>A log-only sentinel never refuses, and what it says it would have done is what an enforcing one
  answers to the same check: the same decision on the same clause.\<close>

lemma log_only_shadows_enforce:
  assumes "sn_mode cfg = LogOnly"
  shows "vd_decision (snd (check cfg w q s)) = ALLOW
    \<and> (vd_would_be (snd (check cfg w q s)) = Some (d, c)
        \<longleftrightarrow> (let e = snd (check (cfg\<lparr>sn_mode := Enforce\<rparr>) w q s)
             in vd_decision e = d \<and> vd_clause e = Some c \<and> \<not> vd_record_failed e))"
proof -
  have sel: "sn_judge (cfg\<lparr>sn_mode := Enforce\<rparr>) = sn_judge cfg" "sn_floor (cfg\<lparr>sn_mode := Enforce\<rparr>) = sn_floor cfg"
    by simp_all
  have sc: "step_scope (cfg\<lparr>sn_mode := Enforce\<rparr>) = step_scope cfg"
    unfolding fun_eq_iff step_scope_def judge_scope_def sel by simp
  have same: "decide (cfg\<lparr>sn_mode := Enforce\<rparr>) w q = decide cfg w q"
    unfolding decide_def sc ..
  obtain jv p r where dec: "decide cfg w q = (jv, p, r)" by (cases "decide cfg w q")
  show ?thesis
    unfolding check_decision Let_def first_verdict_def same dec prod.case
    by (cases r) (auto simp: make_verdict_def assms bare_verdict_def split: prod.split)
qed

text \<open>Every verdict that is not ALLOW cites a clause of the registry, and so does every shadowed one; an
  ALLOW cites none.\<close>

lemma refusals_cite_a_clause:
  "let v = snd (check cfg w q s) in
     (vd_decision v \<noteq> ALLOW \<longrightarrow> (\<exists>c \<in> set CLAUSES. vd_clause v = Some c))
   \<and> (vd_decision v = ALLOW \<longrightarrow> vd_clause v = None)
   \<and> (\<forall>d c. vd_would_be v = Some (d, c) \<longrightarrow> d \<noteq> ALLOW \<and> c \<in> set CLAUSES)"
proof -
  obtain jv p r where dec: "decide cfg w q = (jv, p, r)" by (cases "decide cfg w q")
  have ref: "rf_decision f \<noteq> ALLOW \<and> rf_clause f \<in> set CLAUSES" if "r = Inl f" for f
    using decide_cited [of cfg w q f] that by (simp add: dec cited_def)
  show ?thesis
    unfolding Let_def check_decision first_verdict_def dec prod.case
    by (cases r) (auto simp: make_verdict_def bare_verdict_def clause_members ref split: prod.split)
qed

text \<open>Nothing before metering reads the governor's answer to the post.\<close>

lemma first_verdict_post_free:
  "first_verdict cfg (w\<lparr>cw_record := r, cw_gap_append := l\<rparr>) q s = first_verdict cfg w q s"
proof -
  let ?w = "w\<lparr>cw_record := r, cw_gap_append := l\<rparr>"
  have sel: "cw_health ?w = cw_health w" "cw_registry ?w = cw_registry w" "cw_manifest ?w = cw_manifest w"
    "cw_introspect ?w = cw_introspect w" "cw_judge_spend ?w = cw_judge_spend w" "cw_judge ?w = cw_judge w"
    "cw_usage ?w = cw_usage w" "cw_totals ?w = cw_totals w" "cw_spend ?w = cw_spend w"
    by simp_all
  have apps: "cw_append ?w = cw_append w" "cw_judge_append ?w = cw_judge_append w"
    by simp_all
  have steps: "step_ledger ?w = step_ledger w" "step_registry ?w = step_registry w" "step_manifest ?w = step_manifest w"
    "step_token ?w = step_token w" "judge_scope cfg ?w = judge_scope cfg w" "token_ceiling ?w = token_ceiling w"
    unfolding fun_eq_iff step_ledger_def step_registry_def step_manifest_def step_token_def judge_scope_def
      token_ceiling_def sel by simp_all
  have ss: "step_scope cfg ?w = step_scope cfg w" "step_spend ?w = step_spend w"
    unfolding fun_eq_iff step_scope_def step_spend_def steps sel by simp_all
  have "decide cfg ?w q = decide cfg w q"
    unfolding decide_def steps ss ..
  moreover have "make_verdict cfg ?w q x t = make_verdict cfg w q x t" "judged_state ?w q jv t = judged_state w q jv t" for x t jv
    unfolding make_verdict_def judged_state_def apps by (rule refl)+
  ultimately show ?thesis by (simp add: first_verdict_def)
qed

text \<open>C15: Each check posts at most one action to the governor: one when it answers ALLOW, genuine or shadowed
  and unless the governor was read to hold no cap, marked with whether it was a shadow; none when it refuses.
  What the governor answers to the post changes neither the decision nor the clause.\<close>

theorem every_allow_is_metered_once:
  "sn_posts (fst (check cfg w q s)) = sn_posts s
      @ (if vd_decision (snd (check cfg w q s)) = ALLOW \<and> fst (snd (decide cfg w q)) \<noteq> Some None
         then [(cq_agent q, cq_action q, vd_would_be (snd (check cfg w q s)) \<noteq> None)] else [])
   \<and> vd_decision (snd (check cfg (w\<lparr>cw_record := r, cw_gap_append := l\<rparr>) q s)) = vd_decision (snd (check cfg w q s))
   \<and> vd_clause (snd (check cfg (w\<lparr>cw_record := r, cw_gap_append := l\<rparr>) q s)) = vd_clause (snd (check cfg w q s))"
proof -
  obtain s1 v where f: "first_verdict cfg w q s = (s1, v)" by fastforce
  have posts: "sn_posts s1 = sn_posts s"
    using first_verdict_posts [of cfg w q s] by (simp add: f)
  have "first_verdict cfg (w\<lparr>cw_record := r, cw_gap_append := l\<rparr>) q s = first_verdict cfg w q s"
    by (rule first_verdict_post_free)
  then show ?thesis
    using posts
    by (auto simp: check_decision f check_eq meter_def Let_def split: sum.split option.split)
qed

text \<open>A governed callable runs exactly when the sentinel's answer is an ALLOW; an unreachable sentinel
  and any answer that is not one of the three words refuse it.\<close>

lemma governed_runs_only_on_allow:
  "(governed a f = Inr x \<longleftrightarrow> a = GuardDecision (Some ''ALLOW'') \<and> x = f ())
   \<and> (governed a f = Inl ActionEscalated \<longleftrightarrow> a = GuardDecision (Some ''ESCALATE''))"
  by (cases a) (auto simp: governed_def guard_check_def)

text \<open>A check by an active agent with a live token, and one with no token.\<close>

definition demo_check_manifest :: field_manifest where
  "demo_check_manifest = (demo_manifest [])\<lparr>mf_delegation_section :=
     (mf_delegation_section (demo_manifest []))\<lparr>md_scope := [''read'']\<rparr>,
     mf_enforcement := (mf_enforcement (demo_manifest []))\<lparr>escalation_triggers := Some [''wire'']\<rparr>\<rparr>"

definition demo_check_world :: check_world where
  "demo_check_world = \<lparr>cw_health = Body (Some (JObj [(''ok'', JBool True)])),
     cw_registry = RegistryAgent \<lparr>ra_status = Some ''active'', ra_manifest_ref = Some ''m''\<rparr>,
     cw_manifest = (\<lambda>_. Some demo_check_manifest),
     cw_introspect = (\<lambda>_. Body \<lparr>ib_active = True, ib_status = None, ib_agent = Some ''a1'', ib_scope = [''read''],
        ib_ceiling = None, ib_issued = None\<rparr>),
     cw_spend = Body \<lparr>sb_state = Some ''OK'', sb_retry = None\<rparr>, cw_totals = (\<lambda>_. NoReply),
     cw_judge_spend = NoReply, cw_judge = None, cw_usage = NoReply, cw_record = Body (), cw_judge_append = LR_created,
     cw_append = LR_created, cw_gap_append = LR_created\<rparr>"

definition demo_check_request :: check_request where
  "demo_check_request = \<lparr>cq_agent = ''a1'', cq_action = ''read'', cq_token = Some ''t1'', cq_irreversible = False,
     cq_context = JObj []\<rparr>"

definition demo_sentinel :: sentinel where
  "demo_sentinel = \<lparr>sn_ledger = [], sn_dropped = 0, sn_posts = []\<rparr>"

lemma demo_clauses: "all_clauses_hold \<lparr>sn_mode = md, sn_judge = False, sn_floor = 1\<rparr> demo_check_world demo_check_request"
  by (simp add: all_clauses_hold_def demo_check_world_def demo_check_request_def ledger_health_def in_scope_def
      demo_check_manifest_def triggers_of_def trigger_matches_def py_lower_def lower_char_def within_budget_def
      under_ceiling_def)

theorem enforced_allow_iff_witness:
  "vd_decision (snd (check \<lparr>sn_mode = Enforce, sn_judge = False, sn_floor = 1\<rparr> demo_check_world demo_check_request
      demo_sentinel)) = ALLOW"
proof -
  have "sn_mode \<lparr>sn_mode = Enforce, sn_judge = False, sn_floor = 1\<rparr> = Enforce" by simp
  from enforced_allow_iff [OF this, of demo_check_world demo_check_request demo_sentinel] demo_clauses
  show ?thesis by (simp add: demo_check_world_def)
qed

text \<open>The same check without a token.\<close>

lemma demo_no_token:
  "decide cfg demo_check_world (demo_check_request\<lparr>cq_token := None\<rparr>) = (None, None, stop BLOCK ''D.token'')"
  by (simp add: decide_def step_ledger_def step_registry_def step_manifest_def step_token_def get_agent_def
      demo_check_world_def demo_check_request_def ledger_health_def stop_def)

lemma demo_no_token_check:
  "vd_decision (snd (check \<lparr>sn_mode = Enforce, sn_judge = False, sn_floor = 1\<rparr> demo_check_world
     (demo_check_request\<lparr>cq_token := None\<rparr>) demo_sentinel)) = BLOCK"
  "vd_clause (snd (check \<lparr>sn_mode = Enforce, sn_judge = False, sn_floor = 1\<rparr> demo_check_world
     (demo_check_request\<lparr>cq_token := None\<rparr>) demo_sentinel)) = Some ''D.token''"
  "vd_record_failed (snd (check \<lparr>sn_mode = Enforce, sn_judge = False, sn_floor = 1\<rparr> demo_check_world
     (demo_check_request\<lparr>cq_token := None\<rparr>) demo_sentinel)) = False"
  by (simp_all add: check_def demo_no_token stop_def make_verdict_def bare_verdict_def)

lemma log_only_shadows_enforce_witness:
  "vd_would_be (snd (check \<lparr>sn_mode = LogOnly, sn_judge = False, sn_floor = 1\<rparr> demo_check_world
      (demo_check_request\<lparr>cq_token := None\<rparr>) demo_sentinel)) = Some (BLOCK, ''D.token'')"
proof -
  have "sn_mode \<lparr>sn_mode = LogOnly, sn_judge = False, sn_floor = 1\<rparr> = LogOnly" by simp
  from log_only_shadows_enforce [OF this, of demo_check_world "demo_check_request\<lparr>cq_token := None\<rparr>" demo_sentinel
      BLOCK "''D.token''"]
  show ?thesis by (simp add: demo_no_token_check)
qed

lemma refusals_cite_a_clause_witness:
  "vd_clause (snd (check \<lparr>sn_mode = Enforce, sn_judge = False, sn_floor = 1\<rparr> demo_check_world
     (demo_check_request\<lparr>cq_token := None\<rparr>) demo_sentinel)) = Some ''D.token'' \<and> ''D.token'' \<in> set CLAUSES"
proof -
  obtain c where "c \<in> set CLAUSES" "vd_clause (snd (check \<lparr>sn_mode = Enforce, sn_judge = False, sn_floor = 1\<rparr>
      demo_check_world (demo_check_request\<lparr>cq_token := None\<rparr>) demo_sentinel)) = Some c"
    using refusals_cite_a_clause [of "\<lparr>sn_mode = Enforce, sn_judge = False, sn_floor = 1\<rparr>" demo_check_world
        "demo_check_request\<lparr>cq_token := None\<rparr>" demo_sentinel] demo_no_token_check
    by (auto simp: Let_def)
  then show ?thesis using demo_no_token_check by simp
qed

end
