(* ===== verification/Halt_Endpoint.thy ===== *)
theory Halt_Endpoint
  imports Sentinel Operator_Auth Manifest
begin

text \<open>
  The guards of the outbound halt signal in \<open>services/kill-switch/src/kill_switch/api.py\<close>: how the endpoint of a
  manifest is taken apart (\<open>urllib.parse.urlsplit\<close>, \<open>unquote\<close>), the self-call guard, the host allowlist, the
  method, the headers and the scrubbing of error texts. Texts are Latin-1: a percent-decoded character beyond it, and
  U+FFFD, stand as \<open>OUTSIDE\<close>, one for each byte. Whether a bracketed host is an IP address (\<open>ipaddress\<close>) is the
  argument \<open>ip_ok\<close>. \<open>urlsplit\<close>'s NFKC check of the host never fails on Latin-1.
\<close>

section \<open>Texts\<close>

definition ends_with :: "string \<Rightarrow> string \<Rightarrow> bool" where
  "ends_with t s = starts_with (rev t) (rev s)"

lemma ends_with_iff: "ends_with t s \<longleftrightarrow> (\<exists>r. s = r @ t)"
  by (simp add: ends_with_def starts_with_iff) (metis rev_append rev_rev_ident)

definition before :: "char \<Rightarrow> string \<Rightarrow> string" where
  "before c s = takeWhile (\<lambda>x. x \<noteq> c) s"

text \<open>What follows the first occurrence; nothing where there is none (\<open>partition\<close>).\<close>

definition after :: "char \<Rightarrow> string \<Rightarrow> string" where
  "after c s = tl (dropWhile (\<lambda>x. x \<noteq> c) s)"

text \<open>What follows the last occurrence; everything where there is none (\<open>rpartition\<close>).\<close>

definition after_last :: "char \<Rightarrow> string \<Rightarrow> string" where
  "after_last c s = rev (takeWhile (\<lambda>x. x \<noteq> c) (rev s))"

section \<open>Percent encoding\<close>

definition OUTSIDE :: char where "OUTSIDE = char_of (247 :: nat)"

definition hex_value :: "char \<Rightarrow> nat option" where
  "hex_value c = (let n = (of_char c :: nat) in
     if 48 \<le> n \<and> n \<le> 57 then Some (n - 48) else if 65 \<le> n \<and> n \<le> 70 then Some (n - 55)
     else if 97 \<le> n \<and> n \<le> 102 then Some (n - 87) else None)"

text \<open>A character as it stands, or a byte an escape spelled.\<close>

datatype unit_char = Plain char | Escaped nat

fun unescape_bytes :: "string \<Rightarrow> unit_char list" where
  "unescape_bytes (c # a # b # s) =
     (if c = CHR ''%'' then (case (hex_value a, hex_value b) of
          (Some x, Some y) \<Rightarrow> Escaped (16 * x + y) # unescape_bytes s
        | _ \<Rightarrow> Plain c # unescape_bytes (a # b # s))
      else Plain c # unescape_bytes (a # b # s))"
| "unescape_bytes s = map Plain s"

fun decode_units :: "unit_char list \<Rightarrow> string" where
  "decode_units [] = []"
| "decode_units (Plain c # us) = c # decode_units us"
| "decode_units (Escaped n # us) =
     (if n < 128 then char_of n # decode_units us
      else case us of
        Escaped m # vs \<Rightarrow> if (n = 194 \<or> n = 195) \<and> 128 \<le> m \<and> m \<le> 191
          then char_of ((n - 192) * 64 + (m - 128)) # decode_units vs else OUTSIDE # decode_units us
      | _ \<Rightarrow> OUTSIDE # decode_units us)"

definition unquote :: "string \<Rightarrow> string" where
  "unquote s = decode_units (unescape_bytes s)"

text \<open>\<open>quote(text, safe="")\<close> of a Latin-1 text: UTF-8, everything but letters, digits and \<open>_.-~\<close> escaped.\<close>

definition hex_upper :: "nat \<Rightarrow> char" where
  "hex_upper n = char_of (if n < 10 then n + 48 else n + 55)"

definition escape_byte :: "nat \<Rightarrow> string" where
  "escape_byte n = [CHR ''%'', hex_upper (n div 16), hex_upper (n mod 16)]"

definition unreserved :: "char \<Rightarrow> bool" where
  "unreserved c = (let n = (of_char c :: nat) in (48 \<le> n \<and> n \<le> 57) \<or> (65 \<le> n \<and> n \<le> 90) \<or> (97 \<le> n \<and> n \<le> 122)
     \<or> c \<in> {CHR ''_'', CHR ''.'', CHR ''-'', CHR ''~''})"

definition quote_char :: "char \<Rightarrow> string" where
  "quote_char c = (let n = (of_char c :: nat) in
     if unreserved c then [c]
     else if n < 128 then escape_byte n
     else escape_byte (192 + n div 64) @ escape_byte (128 + n mod 64))"

definition quote_all :: "string \<Rightarrow> string" where
  "quote_all s = concat (map quote_char s)"

section \<open>Splitting an endpoint\<close>

record url_parts =
  up_scheme :: string
  up_netloc :: string
  up_path :: string

definition c0_or_space :: "char \<Rightarrow> bool" where
  "c0_or_space c = (of_char c \<le> (32 :: nat))"

definition is_letter :: "char \<Rightarrow> bool" where
  "is_letter c = (let n = (of_char c :: nat) in (65 \<le> n \<and> n \<le> 90) \<or> (97 \<le> n \<and> n \<le> 122))"

definition scheme_char :: "char \<Rightarrow> bool" where
  "scheme_char c = (is_letter c \<or> is_digit c \<or> c \<in> {CHR ''+'', CHR ''-'', CHR ''.''})"

definition split_scheme :: "string \<Rightarrow> string \<times> string" where
  "split_scheme url =
     (let s = before CHR '':'' url in
      if CHR '':'' \<in> set url \<and> s \<noteq> [] \<and> is_letter (hd s) \<and> list_all scheme_char s
      then (py_lower s, after CHR '':'' url) else ([], url))"

text \<open>None is the \<open>ValueError\<close> of a host with unbalanced or invalid brackets.\<close>

definition urlsplit :: "(string \<Rightarrow> bool) \<Rightarrow> string \<Rightarrow> url_parts option" where
  "urlsplit ip_ok raw =
     (let url = filter (\<lambda>c. c \<notin> {CHR 0x09, CHR 0x0A, CHR 0x0D}) (dropWhile c0_or_space raw);
          (scheme, rest) = split_scheme url;
          has_netloc = starts_with ''//'' rest;
          netloc = (if has_netloc then takeWhile (\<lambda>c. c \<notin> {CHR ''/'', CHR ''?'', CHR ''#''}) (drop 2 rest) else []);
          tail = (if has_netloc then drop (length netloc) (drop 2 rest) else rest);
          path = before CHR ''?'' (before CHR ''#'' tail)
      in if (CHR ''['' \<in> set netloc) \<noteq> (CHR '']'' \<in> set netloc) \<or> (CHR ''['' \<in> set netloc \<and> \<not> ip_ok netloc) then None
         else Some \<lparr>up_scheme = scheme, up_netloc = netloc, up_path = path\<rparr>)"

definition hostname :: "url_parts \<Rightarrow> string option" where
  "hostname u =
     (let info = after_last CHR ''@'' (up_netloc u);
          h = (if CHR ''['' \<in> set info then before CHR '']'' (after CHR ''['' info) else before CHR '':'' info)
      in if h = [] then None
         else Some (if CHR ''%'' \<in> set h then py_lower (before CHR ''%'' h) @ ''%'' @ after CHR ''%'' h else py_lower h))"

section \<open>The guards\<close>

definition SELF_PATH_SHAPES :: "string list" where
  "SELF_PATH_SHAPES = [''/kill/'', ''/revive/'', ''/drill/'', ''/heartbeat/'', ''/liveness'', ''/health'',
     ''/operator/'', ''/docs/'', ''/redoc'', ''/openapi.json'']"

fun split_on :: "char \<Rightarrow> string \<Rightarrow> string list" where
  "split_on c [] = [[]]"
| "split_on c (x # s) = (if x = c then [] # split_on c s
     else (case split_on c s of w # ws \<Rightarrow> (x # w) # ws | [] \<Rightarrow> [[x]]))"

definition join_path :: "string list \<Rightarrow> string" where
  "join_path segs = (case segs of [] \<Rightarrow> ''/'' | _ \<Rightarrow> concat (map (\<lambda>s. CHR ''/'' # s) segs))"

definition control :: "char \<Rightarrow> bool" where
  "control c = (of_char c < (32 :: nat) \<or> of_char c = (127 :: nat))"

definition canonical_path :: "string \<Rightarrow> string option" where
  "canonical_path path =
     (let decoded = unquote path; segs = filter (\<lambda>s. s \<noteq> []) (split_on CHR ''/'' decoded) in
      if CHR ''%'' \<in> set decoded \<or> CHR 0x5C \<in> set decoded \<or> list_ex control decoded then None
      else if list_ex (\<lambda>s. s = ''.'' \<or> s = ''..'') segs then None
      else Some (join_path segs @ (if ends_with ''/'' decoded \<and> segs \<noteq> [] then ''/'' else [])))"

definition strip_slashes :: "string \<Rightarrow> string" where
  "strip_slashes p = (let c = rev (dropWhile (\<lambda>x. x = CHR ''/'') (rev p)) in if c = [] then ''/'' else c)"

definition shape_hit :: "string \<Rightarrow> string \<Rightarrow> bool" where
  "shape_hit clean shape = (if ends_with ''/'' shape then str_in shape (clean @ ''/'') else ends_with shape clean)"

definition is_self_endpoint :: "string \<Rightarrow> string \<Rightarrow> bool" where
  "is_self_endpoint path agent_id =
     (case canonical_path path of None \<Rightarrow> True
      | Some canonical \<Rightarrow>
        let p = casefold canonical; clean = strip_slashes p in
        ends_with (''/kill/'' @ agent_id) clean \<or> str_in ''/kill/domain/'' p \<or> list_ex (shape_hit clean) SELF_PATH_SHAPES)"

definition allowlist :: "string \<Rightarrow> string list" where
  "allowlist raw = filter (\<lambda>p. p \<noteq> []) (map (\<lambda>p. py_lower (py_strip p)) (split_on CHR '','' raw))"

definition KNOWN_METHODS :: "string list" where
  "KNOWN_METHODS = [''POST'', ''GET'', ''PUT'', ''PATCH'', ''DELETE'']"

definition parse_method :: "string option \<Rightarrow> string option" where
  "parse_method raw =
     (case raw of None \<Rightarrow> None
      | Some m \<Rightarrow> if m = [] then None else
        (case filter (\<lambda>t. \<not> starts_with ''HTTP'' t)
            (py_split (map (\<lambda>c. if c = CHR ''/'' then CHR '' '' else c) (py_upper_ascii m))) of
           [t] \<Rightarrow> if t \<in> set KNOWN_METHODS then Some t else None
         | _ \<Rightarrow> None))"

text \<open>\<open>_scrub\<close>: every run of \<open>scheme://\<close> that starts at a word boundary, left to right, then the length limit.\<close>

definition match_url :: "string \<Rightarrow> nat option" where
  "match_url s =
     (if s = [] \<or> \<not> is_letter (hd s) then None
      else let n = length (takeWhile scheme_char s); rest = drop n s; run = takeWhile (\<lambda>c. \<not> py_isspace c) (drop 3 rest) in
        if starts_with ''://'' rest \<and> run \<noteq> [] then Some (n + 3 + length run) else None)"

lemma match_url_pos: "match_url s = Some n \<Longrightarrow> 0 < n"
  by (auto simp: match_url_def Let_def split: if_splits)

definition word_before :: "char \<Rightarrow> bool" where
  "word_before c = (is_alnum c \<or> c = CHR ''_'')"

function scrub_from :: "bool \<Rightarrow> string \<Rightarrow> string" where
  "scrub_from after_word [] = []"
| "scrub_from after_word (c # s) =
     (case (if after_word then None else match_url (c # s)) of
        Some n \<Rightarrow> ''<endpoint>'' @ scrub_from (word_before (last (take n (c # s)))) (drop n (c # s))
      | None \<Rightarrow> c # scrub_from (word_before c) s)"
  by pat_completeness auto
termination
  by (relation "measure (\<lambda>(_, s). length s)") (auto split: if_splits dest: match_url_pos)

definition scrub :: "string \<Rightarrow> string" where
  "scrub t = take 200 (scrub_from False t)"

end
