(* ===== verification/Agent_Registry.thy ===== *)
theory Agent_Registry
  imports Clients Utc_Time Step_Systems
begin

text \<open>
  \<open>services/agent-registry/src/agent_registry\<close>: the record models (\<open>models.py\<close>), the SQLite table and
  its atomic operations (\<open>store.py\<close>), and the handlers that change it (\<open>api.py\<close>). A handler reads the
  table, checks, and writes later, so the step relation at the end splits it there; the ledger note is a
  step of its own. What the operator layer, the manifest resolver and the ledger answer is an argument.
\<close>

section \<open>Records\<close>

datatype agent_status = Active | Killed | Retired

definition status_value :: "agent_status \<Rightarrow> string" where
  "status_value st = (case st of Active \<Rightarrow> ''active'' | Killed \<Rightarrow> ''killed'' | Retired \<Rightarrow> ''retired'')"

definition status_of :: "string \<Rightarrow> agent_status option" where
  "status_of s = (if s = ''active'' then Some Active else if s = ''killed'' then Some Killed
     else if s = ''retired'' then Some Retired else None)"

lemma status_of_value [simp]: "status_of (status_value st) = Some st"
  by (cases st) (simp_all add: status_of_def status_value_def)

record agent_record =
  rc_id :: string
  rc_name :: string
  rc_owner :: string
  rc_domain :: string
  rc_manifest :: "string option"
  rc_status :: agent_status
  rc_created :: instant
  rc_updated :: instant
  rc_attested_at :: "instant option"
  rc_attested_by :: "string option"

text \<open>\<open>^[a-z0-9][a-z0-9._-]*$\<close>\<close>

definition lower_or_digit :: "char \<Rightarrow> bool" where
  "lower_or_digit c = (is_digit c \<or> (let n = (of_char c :: nat) in 97 \<le> n \<and> n \<le> 122))"

definition valid_agent_id :: "string \<Rightarrow> bool" where
  "valid_agent_id s = (case s of [] \<Rightarrow> False
     | c # r \<Rightarrow> lower_or_digit c \<and> list_all (\<lambda>x. lower_or_digit x \<or> x \<in> set ''._-'') r)"

definition valid_record :: "agent_record \<Rightarrow> bool" where
  "valid_record r = (valid_agent_id (rc_id r) \<and> rc_name r \<noteq> [] \<and> rc_owner r \<noteq> [])"

record agent_create =
  ac_id :: string
  ac_name :: string
  ac_owner :: string
  ac_domain :: string
  ac_manifest :: "string option"

definition valid_create :: "agent_create \<Rightarrow> bool" where
  "valid_create q = (valid_agent_id (ac_id q) \<and> ac_name q \<noteq> [] \<and> ac_owner q \<noteq> [])"

record agent_update =
  au_name :: "string option"
  au_owner :: "string option"
  au_domain :: "string option"
  au_manifest :: "string option"
  au_status :: "agent_status option"

definition valid_update :: "agent_update \<Rightarrow> bool" where
  "valid_update p = (au_name p \<noteq> Some [] \<and> au_owner p \<noteq> Some [])"

section \<open>The table\<close>

record agent_row =
  ar_id :: string
  ar_name :: string
  ar_owner :: string
  ar_domain :: string
  ar_manifest :: "string option"
  ar_status :: string
  ar_created :: string
  ar_updated :: string
  ar_attested_at :: "string option"
  ar_attested_by :: "string option"

datatype registry_store_error =
    DuplicateAgentError | AgentNotFoundError | RetiredAgentError | RetiredAttestationError
  | RetiredRecordFrozenError | UnreadableRow

definition maybe_ts :: "string option \<Rightarrow> instant option option" where
  "maybe_ts raw = (case raw of None \<Rightarrow> Some None | Some s \<Rightarrow> if s = [] then Some None else map_option Some (parse_iso s))"

text \<open>None where the conversion raises.\<close>

definition row_to_record :: "agent_row \<Rightarrow> agent_record option" where
  "row_to_record r =
     (case (status_of (ar_status r), parse_iso (ar_created r), parse_iso (ar_updated r), maybe_ts (ar_attested_at r)) of
        (Some st, Some c, Some u, Some a) \<Rightarrow>
          let rc = \<lparr>rc_id = ar_id r, rc_name = ar_name r, rc_owner = ar_owner r, rc_domain = ar_domain r,
            rc_manifest = ar_manifest r, rc_status = st, rc_created = c, rc_updated = u, rc_attested_at = a,
            rc_attested_by = ar_attested_by r\<rparr>
          in if valid_record rc then Some rc else None
      | _ \<Rightarrow> None)"

definition record_to_row :: "agent_record \<Rightarrow> agent_row" where
  "record_to_row r = \<lparr>ar_id = rc_id r, ar_name = rc_name r, ar_owner = rc_owner r, ar_domain = rc_domain r,
     ar_manifest = rc_manifest r, ar_status = status_value (rc_status r), ar_created = iso_utc (rc_created r),
     ar_updated = iso_utc (rc_updated r), ar_attested_at = map_option iso_utc (rc_attested_at r),
     ar_attested_by = rc_attested_by r\<rparr>"

type_synonym agents = "agent_row list"

definition new_record :: "agent_create \<Rightarrow> instant \<Rightarrow> instant \<Rightarrow> agent_record" where
  "new_record q created updated = \<lparr>rc_id = ac_id q, rc_name = ac_name q, rc_owner = ac_owner q,
     rc_domain = ac_domain q, rc_manifest = ac_manifest q, rc_status = Active, rc_created = created,
     rc_updated = updated, rc_attested_at = None, rc_attested_by = None\<rparr>"

definition reg_add :: "agent_create \<Rightarrow> instant \<Rightarrow> instant \<Rightarrow> agents \<Rightarrow> agents \<times> (registry_store_error + agent_record)" where
  "reg_add q created updated rows =
     (let rc = new_record q created updated in
      if rc_id rc \<in> set (map ar_id rows) then (rows, Inl DuplicateAgentError)
      else (rows @ [record_to_row rc], Inr rc))"

definition read_row :: "agents \<Rightarrow> string \<Rightarrow> registry_store_error + agent_record" where
  "read_row rows i = (case row_get ar_id rows i of None \<Rightarrow> Inl AgentNotFoundError
     | Some r \<Rightarrow> (case row_to_record r of None \<Rightarrow> Inl UnreadableRow | Some rc \<Rightarrow> Inr rc))"

definition reg_list :: "agent_status option \<Rightarrow> string option \<Rightarrow> agents \<Rightarrow> agent_record list option" where
  "reg_list st dm rows = those (map row_to_record (sort_key ar_id (filter (\<lambda>r.
      (case st of None \<Rightarrow> True | Some s \<Rightarrow> ar_status r = status_value s)
      \<and> (case dm of None \<Rightarrow> True | Some d \<Rightarrow> ar_domain r = d)) rows)))"

text \<open>\<open>UPDATE agents SET ... updated_at=? WHERE agent_id=?\<close> over the patched columns.\<close>

definition py_or_old :: "'a option \<Rightarrow> 'a \<Rightarrow> 'a" where
  "py_or_old x old = (case x of None \<Rightarrow> old | Some v \<Rightarrow> v)"

definition patch_row :: "agent_update \<Rightarrow> string \<Rightarrow> agent_row \<Rightarrow> agent_row" where
  "patch_row p stamp r = r\<lparr>ar_name := py_or_old (au_name p) (ar_name r), ar_owner := py_or_old (au_owner p) (ar_owner r),
     ar_domain := py_or_old (au_domain p) (ar_domain r),
     ar_manifest := (case au_manifest p of None \<Rightarrow> ar_manifest r | Some m \<Rightarrow> Some m),
     ar_status := (case au_status p of None \<Rightarrow> ar_status r | Some st \<Rightarrow> status_value st), ar_updated := stamp\<rparr>"

definition patched_columns :: "agent_update \<Rightarrow> string list" where
  "patched_columns p =
     (if au_name p \<noteq> None then [''name''] else []) @ (if au_owner p \<noteq> None then [''owner''] else [])
     @ (if au_domain p \<noteq> None then [''domain''] else []) @ (if au_manifest p \<noteq> None then [''manifest_ref''] else [])
     @ (if au_status p \<noteq> None then [''status''] else [])"

definition FROZEN_WHEN_RETIRED :: "string list" where
  "FROZEN_WHEN_RETIRED = [''owner'', ''domain'', ''manifest_ref'']"

definition update_with_previous :: "string \<Rightarrow> agent_update \<Rightarrow> instant \<Rightarrow> agents
    \<Rightarrow> agents \<times> (registry_store_error + agent_record \<times> agent_record)" where
  "update_with_previous i p now rows =
     (case read_row rows i of Inl e \<Rightarrow> (rows, Inl e)
      | Inr before \<Rightarrow>
        if au_status p \<noteq> None \<and> au_status p \<noteq> Some Retired \<and> rc_status before = Retired then (rows, Inl RetiredAgentError)
        else if rc_status before = Retired \<and> list_ex (\<lambda>c. c \<in> set (patched_columns p)) FROZEN_WHEN_RETIRED
        then (rows, Inl RetiredRecordFrozenError)
        else if patched_columns p = [] then (rows, Inr (before, before))
        else
          let rows' = row_update (\<lambda>r. ar_id r = i) (patch_row p (iso_utc now)) rows in
          (case read_row rows' i of Inl e \<Rightarrow> (rows, Inl e) | Inr after \<Rightarrow> (rows', Inr (before, after))))"

definition set_status :: "string \<Rightarrow> agent_status \<Rightarrow> instant \<Rightarrow> agents \<Rightarrow> agents \<times> (registry_store_error + agent_record)" where
  "set_status i st now rows =
     (case update_with_previous i \<lparr>au_name = None, au_owner = None, au_domain = None, au_manifest = None,
        au_status = Some st\<rparr> now rows of
        (rows', Inl e) \<Rightarrow> (rows', Inl e) | (rows', Inr (_, after)) \<Rightarrow> (rows', Inr after))"

definition attest_row :: "string \<Rightarrow> string \<Rightarrow> agent_row \<Rightarrow> agent_row" where
  "attest_row who stamp r = r\<lparr>ar_attested_at := Some stamp, ar_attested_by := Some who, ar_updated := stamp\<rparr>"

definition attest :: "string \<Rightarrow> string \<Rightarrow> instant \<Rightarrow> agents \<Rightarrow> agents \<times> (registry_store_error + agent_record)" where
  "attest i who now rows =
     (case read_row rows i of Inl e \<Rightarrow> (rows, Inl e)
      | Inr before \<Rightarrow>
        if rc_status before = Retired then (rows, Inl RetiredAttestationError)
        else
          let rows' = row_update (\<lambda>r. ar_id r = i) (attest_row who (iso_utc now)) rows in
          (case read_row rows' i of Inl e \<Rightarrow> (rows, Inl e) | Inr rc \<Rightarrow> (rows', Inr rc)))"


section \<open>The handlers\<close>

datatype registry_refusal =
    ManifestRefUnresolved resolve_reason
  | AlreadyRegistered
  | NotRegistered
  | RetiredTerminal
  | RetiredFrozen
  | NoReattestation
  | OperatorRefusal refusal_detail
  | StoreFailed
  | InvalidBody

datatype registry_http = RegHttp nat registry_refusal

datatype registry_event =
    Registered string string string "string option"
  | StatusChanged agent_status agent_status
  | Updated "string list"
  | AttestedEvent string instant

text \<open>A ledger note: the event, the agent, and the operator fields merged into its payload.\<close>

record registry_note =
  rn_event :: registry_event
  rn_agent :: string
  rn_operator :: "(string \<times> json) list"

definition ledger_note_of :: "op_mode \<Rightarrow> op_context \<Rightarrow> registry_event \<Rightarrow> string \<Rightarrow> registry_note" where
  "ledger_note_of m cx e i = \<lparr>rn_event = e, rn_agent = i, rn_operator = (if m = OFF then [] else ledger_fields cx)\<rparr>"

text \<open>What a request meets outside: the mode, what its credential proves for an action, the resolver, the clock.\<close>

record reg_world =
  rw_mode :: op_mode
  rw_auth :: "string \<Rightarrow> operator_refused + operator_auth"
  rw_headers :: headers
  rw_resolve :: "string option \<Rightarrow> resolved"
  rw_now :: instant
  rw_now_updated :: instant

definition operator_step :: "operator_refused + 'a \<Rightarrow> registry_http + 'a" where
  "operator_step c = (case c of Inl (OperatorRefused st d) \<Rightarrow> Inl (RegHttp st (OperatorRefusal d)) | Inr x \<Rightarrow> Inr x)"

definition unresolvable_manifest_ref :: "(string option \<Rightarrow> resolved) \<Rightarrow> string option \<Rightarrow> registry_http + unit" where
  "unresolvable_manifest_ref res r =
     (case res r of (m, why) \<Rightarrow> if m \<noteq> None \<or> why = RR_no_ref then Inr () else Inl (RegHttp 422 (ManifestRefUnresolved why)))"

definition ON_BEHALF_HEADER :: string where
  "ON_BEHALF_HEADER = ''x-field-operator-on-behalf-of''"

definition on_behalf_of :: "headers \<Rightarrow> operator_auth \<Rightarrow> string option" where
  "on_behalf_of hs a =
     (if \<not> authenticated a \<or> \<not> has_scope a ''bypass_operator_list'' then None
      else case map snd (filter (\<lambda>(k, v). py_lower k = ON_BEHALF_HEADER) hs) of
        [v] \<Rightarrow> if printable_id v then Some v else None
      | _ \<Rightarrow> None)"

definition context_of :: "operator_auth \<Rightarrow> op_context" where
  "context_of a = \<lparr>cx_auth = a, cx_body_claim = None, cx_on_behalf = None\<rparr>"

text \<open>\<open>POST /agents\<close>, after the \<open>register\<close> guard bound an identity.\<close>

definition add_agent :: "reg_world \<Rightarrow> agent_create \<Rightarrow> agents
    \<Rightarrow> agents \<times> (registry_http + agent_record \<times> registry_note)" where
  "add_agent w q rows =
     (case operator_step (rw_auth w ''register'') of Inl e \<Rightarrow> (rows, Inl e)
      | Inr a \<Rightarrow>
        (case unresolvable_manifest_ref (rw_resolve w) (ac_manifest q) of Inl e \<Rightarrow> (rows, Inl e)
         | Inr _ \<Rightarrow>
           (case reg_add q (rw_now w) (rw_now_updated w) rows of
              (rows', Inl e) \<Rightarrow> (rows', Inl (RegHttp 409 AlreadyRegistered))
            | (rows', Inr rc) \<Rightarrow> (rows', Inr (rc, ledger_note_of (rw_mode w) (context_of a)
                (Registered (rc_name rc) (rc_owner rc) (rc_domain rc) (rc_manifest rc)) (rc_id rc))))))"

definition read_step :: "registry_store_error + 'a \<Rightarrow> registry_http + 'a" where
  "read_step r = (case r of Inr x \<Rightarrow> Inr x
     | Inl e \<Rightarrow> Inl (case e of AgentNotFoundError \<Rightarrow> RegHttp 404 NotRegistered
         | RetiredRecordFrozenError \<Rightarrow> RegHttp 409 RetiredFrozen
         | RetiredAgentError \<Rightarrow> RegHttp 409 RetiredTerminal
         | RetiredAttestationError \<Rightarrow> RegHttp 409 NoReattestation
         | _ \<Rightarrow> RegHttp 500 StoreFailed))"

definition patch_needs :: "agent_update \<Rightarrow> string list" where
  "patch_needs p =
     (case au_status p of None \<Rightarrow> [] | Some st \<Rightarrow>
        [case st of Killed \<Rightarrow> ''kill'' | Retired \<Rightarrow> ''decommission'' | Active \<Rightarrow> ''revive''])
     @ (if au_manifest p \<noteq> None \<or> au_owner p \<noteq> None \<or> au_domain p \<noteq> None then [''registry_edit''] else [])"

definition terminal_check :: "agent_update \<Rightarrow> agent_record \<Rightarrow> registry_http + unit" where
  "terminal_check p current =
     (if au_status p \<noteq> None \<and> au_status p \<noteq> Some Retired \<and> rc_status current = Retired
      then Inl (RegHttp 409 RetiredTerminal) else Inr ())"

text \<open>The guard of \<open>PATCH /agents/{id}\<close>: what it checked in the table it read, and the context it bound.\<close>

definition bind_named :: "reg_world \<Rightarrow> agent_update \<Rightarrow> operator_auth \<Rightarrow> op_context \<times> bool" where
  "bind_named w p a =
     (if au_status p = None then (context_of a, False)
      else case on_behalf_of (rw_headers w) a of None \<Rightarrow> (context_of a, False)
      | Some who \<Rightarrow> (case bind_on_behalf_of (context_of a) who of (cx, r) \<Rightarrow> (cx, r \<noteq> None)))"

definition patch_guard :: "reg_world \<Rightarrow> string \<Rightarrow> agent_update \<Rightarrow> agents \<Rightarrow> registry_http + op_context" where
  "patch_guard w i p rows =
     (if patch_needs p \<noteq> [] \<and> rw_mode w \<noteq> OFF then
        bindE (operator_step (rw_auth w (hd (patch_needs p)))) (\<lambda>a.
        case bind_named w p a of (cx, named) \<Rightarrow>
        bindE (loopE (\<lambda>_ _ need. operator_step (case rw_auth w need of Inl e \<Rightarrow> Inl e | Inr _ \<Rightarrow> Inr ())) 0 ()
          (tl (patch_needs p))) (\<lambda>_.
        bindE (read_step (read_row rows i)) (\<lambda>current.
        bindE (operator_step (check_record_authorized a (rw_resolve w (rc_manifest current)))) (\<lambda>_.
        bindE (if au_manifest p = None then Inr () else unresolvable_manifest_ref (rw_resolve w) (au_manifest p)) (\<lambda>_.
        bindE (terminal_check p current) (\<lambda>_.
        if au_status p \<noteq> None \<and> rw_mode w = ENFORCE \<and> authenticated a \<and> has_scope a ''bypass_operator_list'' \<and> \<not> named
        then Inl (RegHttp 403 (OperatorRefusal FORBIDDEN_DETAIL)) else Inr cx))))))
      else if au_status p \<noteq> None \<and> au_status p \<noteq> Some Retired then
        bindE (read_step (read_row rows i)) (\<lambda>current. bindE (terminal_check p current) (\<lambda>_. Inr (context_of NO_AUTH)))
      else Inr (context_of NO_AUTH))"

text \<open>The write, which may meet another table than the guard read.\<close>

definition patch_write :: "op_mode \<Rightarrow> op_context \<Rightarrow> string \<Rightarrow> agent_update \<Rightarrow> instant \<Rightarrow> agents
    \<Rightarrow> agents \<times> (registry_http + agent_record \<times> registry_note)" where
  "patch_write m cx i p now rows =
     (case update_with_previous i p now rows of (rows', r) \<Rightarrow>
        (rows', bindE (read_step r) (\<lambda>(before, after). Inr (after, ledger_note_of m cx
          (if rc_status after \<noteq> rc_status before then StatusChanged (rc_status before) (rc_status after)
           else Updated (sort_key id (patched_columns p))) i))))"

definition update_agent :: "reg_world \<Rightarrow> string \<Rightarrow> agent_update \<Rightarrow> agents
    \<Rightarrow> agents \<times> (registry_http + agent_record \<times> registry_note)" where
  "update_agent w i p rows = (case patch_guard w i p rows of Inl e \<Rightarrow> (rows, Inl e)
     | Inr cx \<Rightarrow> patch_write (rw_mode w) cx i p (rw_now w) rows)"

text \<open>\<open>POST /agents/{id}/attest\<close>: the body's name stripped and not blank, the guard, then the write.\<close>

definition attester :: "string \<Rightarrow> string option" where
  "attester raw = (let s = py_strip raw in if raw = [] \<or> s = [] then None else Some s)"

definition attest_guard :: "reg_world \<Rightarrow> string \<Rightarrow> string \<Rightarrow> agents \<Rightarrow> registry_http + op_context \<times> string" where
  "attest_guard w i who rows =
     bindE (operator_step (rw_auth w ''attest'')) (\<lambda>a.
     bindE (if rw_mode w \<noteq> ENFORCE then Inr ()
            else bindE (read_step (read_row rows i)) (\<lambda>current.
              operator_step (check_record_authorized a (rw_resolve w (rc_manifest current))))) (\<lambda>_.
     Inr (bind_body_operator (context_of a) who)))"

definition attest_write :: "op_mode \<Rightarrow> op_context \<Rightarrow> string \<Rightarrow> string \<Rightarrow> instant \<Rightarrow> agents
    \<Rightarrow> agents \<times> (registry_http + agent_record \<times> registry_note)" where
  "attest_write m cx i who now rows =
     (case attest i who now rows of (rows', r) \<Rightarrow>
        (rows', bindE (read_step r) (\<lambda>rc. Inr (rc, ledger_note_of m cx (AttestedEvent who now) i))))"

definition attest_agent :: "reg_world \<Rightarrow> string \<Rightarrow> string \<Rightarrow> agents
    \<Rightarrow> agents \<times> (registry_http + agent_record \<times> registry_note)" where
  "attest_agent w i raw rows =
     (case attester raw of None \<Rightarrow> (rows, Inl (RegHttp 422 InvalidBody))
      | Some who \<Rightarrow> (case attest_guard w i who rows of Inl e \<Rightarrow> (rows, Inl e)
          | Inr (cx, bound) \<Rightarrow> attest_write (rw_mode w) cx i bound (rw_now w) rows))"


section \<open>The service\<close>

record registry =
  rg_agents :: agents
  rg_patching :: "(op_mode \<times> op_context \<times> string \<times> agent_update) list"
  rg_attesting :: "(op_mode \<times> op_context \<times> string \<times> string) list"
  rg_notes :: "registry_note list"
  rg_ledger :: "registry_note list"
  rg_dropped :: nat

definition new_registry :: registry where
  "new_registry = \<lparr>rg_agents = [], rg_patching = [], rg_attesting = [], rg_notes = [], rg_ledger = [], rg_dropped = 0\<rparr>"

text \<open>
  A step: a registration; a patch or an attestation admitted by its guard; its write, later and against
  the table of that moment; a note sent to the ledger, which may refuse or lose it; a process that dies
  with its requests.
\<close>

definition noted :: "registry_http + agent_record \<times> registry_note \<Rightarrow> registry_note list" where
  "noted r = (case r of Inl _ \<Rightarrow> [] | Inr (_, n) \<Rightarrow> [n])"

inductive reg_step :: "registry \<Rightarrow> registry \<Rightarrow> bool" where
  register: "valid_create q \<Longrightarrow> valid_instant (rw_now w) \<Longrightarrow> valid_instant (rw_now_updated w)
    \<Longrightarrow> add_agent w q (rg_agents s) = (rows', r)
    \<Longrightarrow> reg_step s (s\<lparr>rg_agents := rows', rg_notes := rg_notes s @ noted r\<rparr>)"
| patch_admitted: "valid_update p \<Longrightarrow> patch_guard w i p (rg_agents s) = Inr cx
    \<Longrightarrow> reg_step s (s\<lparr>rg_patching := rg_patching s @ [(rw_mode w, cx, i, p)]\<rparr>)"
| patch_written: "(m, cx, i, p) \<in> set (rg_patching s) \<Longrightarrow> valid_instant now
    \<Longrightarrow> patch_write m cx i p now (rg_agents s) = (rows', r)
    \<Longrightarrow> reg_step s (s\<lparr>rg_agents := rows', rg_patching := remove1 (m, cx, i, p) (rg_patching s),
          rg_notes := rg_notes s @ noted r\<rparr>)"
| attest_admitted: "attester raw = Some who \<Longrightarrow> attest_guard w i who (rg_agents s) = Inr (cx, bound)
    \<Longrightarrow> reg_step s (s\<lparr>rg_attesting := rg_attesting s @ [(rw_mode w, cx, i, bound)]\<rparr>)"
| attest_written: "(m, cx, i, bound) \<in> set (rg_attesting s) \<Longrightarrow> valid_instant now
    \<Longrightarrow> attest_write m cx i bound now (rg_agents s) = (rows', r)
    \<Longrightarrow> reg_step s (s\<lparr>rg_agents := rows', rg_attesting := remove1 (m, cx, i, bound) (rg_attesting s),
          rg_notes := rg_notes s @ noted r\<rparr>)"
| note_sent: "n \<in> set (rg_notes s) \<Longrightarrow> ledger_append reply n (rg_ledger s) = (l, r)
    \<Longrightarrow> reg_step s (s\<lparr>rg_notes := remove1 n (rg_notes s), rg_ledger := l,
          rg_dropped := rg_dropped s + (case r of Inl _ \<Rightarrow> 1 | Inr _ \<Rightarrow> 0)\<rparr>)"
| process_died: "reg_step s (s\<lparr>rg_patching := [], rg_attesting := [], rg_notes := [], rg_dropped := 0\<rparr>)"

inductive_cases reg_stepE: "reg_step s t"

section \<open>Every stored agent reads back\<close>

definition agents_ok :: "agents \<Rightarrow> bool" where
  "agents_ok rows = (unique_keys ar_id rows \<and> (\<forall>r \<in> set rows. row_to_record r \<noteq> None))"

lemma row_to_record_Some:
  "row_to_record r = Some rc \<Longrightarrow> rc_id rc = ar_id r \<and> status_of (ar_status r) = Some (rc_status rc)
    \<and> rc_owner rc = ar_owner r \<and> rc_domain rc = ar_domain r \<and> rc_manifest rc = ar_manifest r
    \<and> rc_attested_by rc = ar_attested_by r \<and> maybe_ts (ar_attested_at r) = Some (rc_attested_at rc) \<and> valid_record rc"
  by (auto simp: row_to_record_def Let_def split: option.splits if_splits)

lemma iso_utc_nonempty: "iso_utc t \<noteq> []"
  by (simp add: iso_utc_def)

lemma record_roundtrip:
  assumes "valid_record r" "valid_instant (rc_created r)" "valid_instant (rc_updated r)"
    "\<forall>t. rc_attested_at r = Some t \<longrightarrow> valid_instant t"
  shows "row_to_record (record_to_row r) = Some r"
  using assms
  by (cases "rc_attested_at r")
    (auto simp: row_to_record_def record_to_row_def parse_iso_utc maybe_ts_def iso_utc_nonempty valid_record_def)

lemma read_row_ok:
  "agents_ok rows \<Longrightarrow> read_row rows i = Inl e \<Longrightarrow> e = AgentNotFoundError"
  by (auto simp: read_row_def agents_ok_def dest!: row_get_key split: option.splits)

lemma read_row_Inr:
  "read_row rows i = Inr rc \<longleftrightarrow> (\<exists>r. row_get ar_id rows i = Some r \<and> row_to_record r = Some rc)"
  by (auto simp: read_row_def split: option.splits)

lemma update_in_place_ok:
  assumes "agents_ok rows" and key: "\<And>r. ar_id (f r) = ar_id r"
    and "read_row (row_update (\<lambda>r. ar_id r = i) f rows) i = Inr rc"
  shows "agents_ok (row_update (\<lambda>r. ar_id r = i) f rows)"
proof -
  let ?rows = "row_update (\<lambda>r. ar_id r = i) f rows"
  have u: "unique_keys ar_id ?rows"
    using assms(1) unique_keys_update [of ar_id f, OF key] by (simp add: agents_ok_def)
  have "row_to_record r \<noteq> None" if r: "r \<in> set ?rows" for r
  proof (cases "ar_id r = i")
    case True
    with unique_keys_get [OF u r] assms(3) show ?thesis by (auto simp: read_row_Inr)
  next
    case False
    with r have "r \<in> set rows" by (auto simp: row_update_def key split: if_splits)
    with assms(1) show ?thesis by (simp add: agents_ok_def)
  qed
  with u show ?thesis by (simp add: agents_ok_def)
qed

lemma patch_row_id [simp]: "ar_id (patch_row p t r) = ar_id r"
  by (simp add: patch_row_def)

lemma attest_row_id [simp]: "ar_id (attest_row w t r) = ar_id r"
  by (simp add: attest_row_def)

text \<open>A successful update read the row it changed, kept the rules of a retired agent, and read it back.\<close>

lemma update_with_previous_cases:
  assumes "update_with_previous i p now rows = (rows', r)"
  obtains (refused) e where "r = Inl e" "rows' = rows"
  | (unchanged) b where "r = Inr (b, b)" "rows' = rows" "read_row rows i = Inr b" "patched_columns p = []"
  | (changed) b a where "r = Inr (b, a)" "read_row rows i = Inr b" "read_row rows' i = Inr a"
      "rows' = row_update (\<lambda>r. ar_id r = i) (patch_row p (iso_utc now)) rows"
      "\<not> (au_status p \<noteq> None \<and> au_status p \<noteq> Some Retired \<and> rc_status b = Retired)"
      "\<not> (rc_status b = Retired \<and> list_ex (\<lambda>c. c \<in> set (patched_columns p)) FROZEN_WHEN_RETIRED)"
proof (cases "read_row rows i")
  case (Inl e)
  with assms refused show ?thesis by (auto simp: update_with_previous_def)
next
  case b: (Inr b)
  let ?rows = "row_update (\<lambda>r. ar_id r = i) (patch_row p (iso_utc now)) rows"
  show ?thesis
  proof (cases "read_row ?rows i")
    case (Inl e)
    with b assms refused unchanged show ?thesis by (auto simp: update_with_previous_def Let_def split: if_splits)
  next
    case (Inr a)
    with b assms refused unchanged changed show ?thesis
      by (auto simp: update_with_previous_def Let_def split: if_splits)
  qed
qed

lemma update_ok: "agents_ok rows \<Longrightarrow> agents_ok (fst (update_with_previous i p now rows))"
proof -
  assume ok: "agents_ok rows"
  obtain rows' r where u: "update_with_previous i p now rows = (rows', r)" by fastforce
  then show ?thesis
    by (cases rule: update_with_previous_cases) (use ok u in \<open>auto intro: update_in_place_ok\<close>)
qed

lemma attest_cases:
  assumes "attest i who now rows = (rows', r)"
  obtains (refused) e where "r = Inl e" "rows' = rows"
  | (changed) b a where "r = Inr a" "read_row rows i = Inr b" "read_row rows' i = Inr a" "rc_status b \<noteq> Retired"
      "rows' = row_update (\<lambda>r. ar_id r = i) (attest_row who (iso_utc now)) rows"
proof (cases "read_row rows i")
  case (Inl e)
  then have "r = Inl e" "rows' = rows" using assms by (simp_all add: attest_def)
  then show ?thesis by (rule refused)
next
  case b: (Inr b)
  let ?rows = "row_update (\<lambda>r. ar_id r = i) (attest_row who (iso_utc now)) rows"
  show ?thesis
  proof (cases "read_row ?rows i")
    case (Inl e)
    obtain x where "r = Inl x" "rows' = rows"
      using assms b Inl by (cases "rc_status b = Retired") (simp_all add: attest_def Let_def, blast+)
    then show ?thesis by (rule refused)
  next
    case (Inr a)
    show ?thesis
    proof (cases "rc_status b = Retired")
      case True
      then have "r = Inl RetiredAttestationError" "rows' = rows" using assms b by (simp_all add: attest_def)
      then show ?thesis by (rule refused)
    next
      case False
      then have "r = Inr a" "rows' = ?rows" using assms b Inr by (simp_all add: attest_def Let_def)
      with b Inr False show ?thesis by (intro changed [of a b]) simp_all
    qed
  qed
qed

lemma attest_ok: "agents_ok rows \<Longrightarrow> agents_ok (fst (attest i who now rows))"
proof -
  assume ok: "agents_ok rows"
  obtain rows' r where u: "attest i who now rows = (rows', r)" by fastforce
  then show ?thesis
    by (cases rule: attest_cases) (use ok u in \<open>auto intro: update_in_place_ok\<close>)
qed

lemma reg_add_ok:
  "agents_ok rows \<Longrightarrow> valid_create q \<Longrightarrow> valid_instant c \<Longrightarrow> valid_instant u \<Longrightarrow> agents_ok (fst (reg_add q c u rows))"
  using record_roundtrip [of "new_record q c u"]
  by (auto simp: reg_add_def Let_def agents_ok_def unique_keys_def new_record_def valid_create_def valid_record_def
      record_to_row_def)


definition reg_inv :: "registry \<Rightarrow> bool" where
  "reg_inv s = agents_ok (rg_agents s)"

lemma add_agent_rows:
  "add_agent w q rows = (rows', r) \<Longrightarrow> rows' = rows \<or> rows' = fst (reg_add q (rw_now w) (rw_now_updated w) rows)"
  by (auto simp: add_agent_def split: sum.splits prod.splits)

lemma patch_write_rows: "patch_write m cx i p now rows = (rows', r) \<Longrightarrow> rows' = fst (update_with_previous i p now rows)"
  by (auto simp: patch_write_def split: prod.splits)

lemma attest_write_rows: "attest_write m cx i who now rows = (rows', r) \<Longrightarrow> rows' = fst (attest i who now rows)"
  by (auto simp: attest_write_def split: prod.splits)

lemmas handler_rows = add_agent_rows patch_write_rows attest_write_rows

lemma reg_step_inv: "reg_step s t \<Longrightarrow> reg_inv s \<Longrightarrow> reg_inv t"
  by (induction rule: reg_step.induct)
    (auto simp: reg_inv_def dest!: handler_rows intro: reg_add_ok update_ok attest_ok)

section \<open>A decommission is terminal\<close>

text \<open>What a retired agent keeps: who answers for it, where halts find it, which manifest governs it, and its attestation.\<close>

definition retired_facts :: "string \<Rightarrow> agents \<Rightarrow> (string \<times> string \<times> string option \<times> instant option \<times> string option) option" where
  "retired_facts i rows = (case read_row rows i of Inl _ \<Rightarrow> None
     | Inr rc \<Rightarrow> if rc_status rc = Retired
         then Some (rc_owner rc, rc_domain rc, rc_manifest rc, rc_attested_at rc, rc_attested_by rc) else None)"

lemma retired_facts_Some:
  "retired_facts i rows = Some v \<Longrightarrow> \<exists>rc. read_row rows i = Inr rc \<and> rc_status rc = Retired
     \<and> v = (rc_owner rc, rc_domain rc, rc_manifest rc, rc_attested_at rc, rc_attested_by rc)"
  by (auto simp: retired_facts_def split: sum.splits if_splits)

lemma read_row_other:
  "j \<noteq> i \<Longrightarrow> (\<And>r. ar_id (f r) = ar_id r) \<Longrightarrow> read_row (row_update (\<lambda>r. ar_id r = i) f rows) j = read_row rows j"
  by (auto simp: read_row_def row_get_update dest!: row_get_key split: option.splits)

lemma read_row_same:
  "(\<And>r. ar_id (f r) = ar_id r) \<Longrightarrow> row_get ar_id rows i = Some r \<Longrightarrow>
     read_row (row_update (\<lambda>r. ar_id r = i) f rows) i
       = (case row_to_record (f r) of None \<Rightarrow> Inl UnreadableRow | Some rc \<Rightarrow> Inr rc)"
  by (auto simp: read_row_def row_get_update dest!: row_get_key split: option.splits)

lemma update_keeps_retired:
  assumes v: "retired_facts j rows = Some v" and u: "update_with_previous i p now rows = (rows', r)"
  shows "retired_facts j rows' = Some v"
  using u
proof (cases rule: update_with_previous_cases)
  case (changed b a)
  show ?thesis
  proof (cases "j = i")
    case False
    then show ?thesis using v changed(4) by (simp add: retired_facts_def read_row_other)
  next
    case True
    from retired_facts_Some [OF v] changed(2) True
    have b: "rc_status b = Retired" "v = (rc_owner b, rc_domain b, rc_manifest b, rc_attested_at b, rc_attested_by b)"
      by auto
    then have p: "au_status p = None \<or> au_status p = Some Retired" "au_owner p = None" "au_domain p = None" "au_manifest p = None"
      using changed(5,6) by (auto simp: FROZEN_WHEN_RETIRED_def patched_columns_def split: if_splits)
    obtain x where x: "row_get ar_id rows i = Some x" "row_to_record x = Some b"
      using changed(2) by (auto simp: read_row_Inr)
    have "row_to_record (patch_row p (iso_utc now) x) = Some a"
      using changed(3) x unfolding changed(4) by (simp add: read_row_same split: option.splits)
    with x(2) b p have "rc_status a = Retired"
        "(rc_owner a, rc_domain a, rc_manifest a, rc_attested_at a, rc_attested_by a) = v"
      by (auto dest!: row_to_record_Some simp: patch_row_def py_or_old_def)
    then show ?thesis using changed(3) True by (simp add: retired_facts_def)
  qed
qed (use v in simp_all)

lemma attest_keeps_retired:
  assumes v: "retired_facts j rows = Some v" and u: "attest i who now rows = (rows', r)"
  shows "retired_facts j rows' = Some v"
  using u
proof (cases rule: attest_cases)
  case (changed b a)
  then have "j \<noteq> i" using retired_facts_Some [OF v] by auto
  then show ?thesis using v changed(5) by (simp add: retired_facts_def read_row_other)
qed (use v in simp_all)

lemma add_keeps_row: "read_row rows i = Inr rc \<Longrightarrow> read_row (fst (reg_add q c u rows)) i = Inr rc"
  by (auto simp: reg_add_def Let_def read_row_def row_get_def find_append split: option.splits)

lemma add_keeps_retired: "retired_facts j rows = Some v \<Longrightarrow> retired_facts j (fst (reg_add q c u rows)) = Some v"
  using retired_facts_Some [of j rows v] add_keeps_row [of rows j _ q c u] by (fastforce simp: retired_facts_def)

lemma reg_step_retired:
  assumes "reg_step s t" and "retired_facts j (rg_agents s) = Some v"
  shows "retired_facts j (rg_agents t) = Some v"
  using assms
proof (induction rule: reg_step.induct)
  case (register q w s rows' r)
  from add_agent_rows [OF register(4)] add_keeps_retired [OF register(5)] register(5)
  show ?case by auto
next
  case (patch_written m cx i p s now rows' r)
  obtain x where "update_with_previous i p now (rg_agents s) = (rows', x)"
    using patch_write_rows [OF patch_written(3)] by (metis prod.collapse)
  from update_keeps_retired [OF patch_written(4) this] show ?case by simp
next
  case (attest_written m cx i bound s now rows' r)
  obtain x where "attest i bound now (rg_agents s) = (rows', x)"
    using attest_write_rows [OF attest_written(3)] by (metis prod.collapse)
  from attest_keeps_retired [OF attest_written(4) this] show ?case by simp
qed simp_all

interpretation agent_registry: latched_stepping reg_step reg_inv "\<lambda>i s. retired_facts i (rg_agents s)"
  by unfold_locales (auto intro: reg_step_inv reg_step_retired)


text \<open>Once an agent is retired, no interleaving of registrations, patches, attestations, lost notes and
  crashes brings it back or changes who answers for it, its domain, its manifest or its attestation; a
  guard that read it live before the decommission does not help.\<close>

lemma retired_is_terminal:
  assumes "reg_step\<^sup>*\<^sup>* s t" and "reg_inv s" and "read_row (rg_agents s) i = Inr rc" and "rc_status rc = Retired"
  shows "\<exists>rc'. read_row (rg_agents t) i = Inr rc' \<and> rc_status rc' = Retired \<and> rc_owner rc' = rc_owner rc
    \<and> rc_domain rc' = rc_domain rc \<and> rc_manifest rc' = rc_manifest rc \<and> rc_attested_at rc' = rc_attested_at rc
    \<and> rc_attested_by rc' = rc_attested_by rc"
proof -
  have "retired_facts i (rg_agents s) = Some (rc_owner rc, rc_domain rc, rc_manifest rc, rc_attested_at rc, rc_attested_by rc)"
    using assms(3,4) by (simp add: retired_facts_def)
  from agent_registry.reach_latches [OF assms(1,2) this] show ?thesis
    by (auto dest!: retired_facts_Some)
qed

section \<open>Listings\<close>

lemma those_Some:
  "(\<forall>x \<in> set xs. f x \<noteq> None) \<Longrightarrow> \<exists>ys. those (map f xs) = Some ys \<and> map Some ys = map f xs"
  by (induction xs) auto

lemma new_registry_ok: "reg_inv new_registry"
  by (simp add: reg_inv_def new_registry_def agents_ok_def unique_keys_def)

text \<open>In every reachable state every stored agent reads back as a valid record, so no read of the registry
  fails on a row: a listing answers with the matching agents, in the order of their ids, each once, and a
  lookup finds exactly the listed ones.\<close>

lemma stored_agents_read_back:
  assumes "reg_step\<^sup>*\<^sup>* new_registry s"
  shows "\<exists>rs. reg_list None None (rg_agents s) = Some rs \<and> sorted (map rc_id rs) \<and> distinct (map rc_id rs)
    \<and> (\<forall>rc \<in> set rs. valid_record rc)
    \<and> (\<forall>i rc. read_row (rg_agents s) i = Inr rc \<longleftrightarrow> rc \<in> set rs \<and> rc_id rc = i)"
proof -
  have ok: "agents_ok (rg_agents s)"
    using agent_registry.reach_keeps [OF assms new_registry_ok] by (simp add: reg_inv_def)
  let ?sorted = "sort_key ar_id (rg_agents s)"
  have all: "filter (\<lambda>r. True) (rg_agents s) = rg_agents s" by simp
  have "\<forall>r \<in> set ?sorted. row_to_record r \<noteq> None" using ok by (simp add: agents_ok_def)
  from those_Some [OF this] obtain rs where
    rs: "those (map row_to_record ?sorted) = Some rs" "map Some rs = map row_to_record ?sorted" by blast
  have len: "length rs = length ?sorted" using arg_cong [OF rs(2), of length] by simp
  have nth: "row_to_record (?sorted ! k) = Some (rs ! k)" if "k < length rs" for k
    using arg_cong [OF rs(2), of "\<lambda>xs. xs ! k"] that len by simp
  have ids: "map rc_id rs = map ar_id ?sorted"
    by (rule nth_equalityI) (use len nth row_to_record_Some in auto)
  have mem: "rc \<in> set rs \<longleftrightarrow> (\<exists>r \<in> set (rg_agents s). row_to_record r = Some rc)" for rc
  proof -
    have "Some rc \<in> Some ` set rs \<longleftrightarrow> Some rc \<in> row_to_record ` set (rg_agents s)"
      using arg_cong [OF rs(2), of set] by simp
    moreover have "Some rc \<in> Some ` set rs \<longleftrightarrow> rc \<in> set rs" by auto
    ultimately show ?thesis by (simp only:) (force simp: image_iff)
  qed
  have "read_row (rg_agents s) i = Inr rc \<longleftrightarrow> rc \<in> set rs \<and> rc_id rc = i" for i rc
  proof
    assume "read_row (rg_agents s) i = Inr rc"
    then obtain r where r: "row_get ar_id (rg_agents s) i = Some r" "row_to_record r = Some rc"
      by (auto simp: read_row_Inr)
    with row_get_key [OF r(1)] row_to_record_Some [OF r(2)] mem show "rc \<in> set rs \<and> rc_id rc = i" by auto
  next
    assume "rc \<in> set rs \<and> rc_id rc = i"
    then obtain r where r: "r \<in> set (rg_agents s)" "row_to_record r = Some rc" "rc_id rc = i" using mem by blast
    with unique_keys_get [of ar_id "rg_agents s" r] ok row_to_record_Some [OF r(2)]
    show "read_row (rg_agents s) i = Inr rc" by (auto simp: read_row_Inr agents_ok_def)
  qed
  moreover have "distinct (map rc_id rs)"
    unfolding ids using ok by (simp add: agents_ok_def unique_keys_def distinct_map)
  moreover have "\<forall>rc \<in> set rs. valid_record rc" using mem row_to_record_Some by blast
  ultimately show ?thesis
    using rs(1) by (intro exI [of _ rs]) (simp add: reg_list_def ids)
qed

section \<open>The ledger tells the statuses\<close>

text \<open>The writes of the handlers, each atomic under the store's lock, and the notes they lead to.\<close>

datatype reg_write =
    WRegister reg_world agent_create
  | WPatch op_mode op_context string agent_update instant
  | WAttest op_mode op_context string string instant

fun write_step :: "reg_write \<Rightarrow> agents \<Rightarrow> agents \<times> registry_note list" where
  "write_step (WRegister w q) rows = (case add_agent w q rows of (rows', r) \<Rightarrow> (rows', noted r))"
| "write_step (WPatch m cx i p now) rows = (case patch_write m cx i p now rows of (rows', r) \<Rightarrow> (rows', noted r))"
| "write_step (WAttest m cx i who now) rows = (case attest_write m cx i who now rows of (rows', r) \<Rightarrow> (rows', noted r))"

fun write_ok :: "reg_write \<Rightarrow> bool" where
  "write_ok (WRegister w q) = (valid_create q \<and> valid_instant (rw_now w) \<and> valid_instant (rw_now_updated w))"
| "write_ok (WPatch m cx i p now) = (valid_update p \<and> valid_instant now)"
| "write_ok (WAttest m cx i who now) = valid_instant now"

fun reg_writes :: "reg_write list \<Rightarrow> agents \<Rightarrow> agents \<times> registry_note list" where
  "reg_writes [] rows = (rows, [])"
| "reg_writes (x # xs) rows = (case write_step x rows of (rows', ns) \<Rightarrow>
     (case reg_writes xs rows' of (rows'', ms) \<Rightarrow> (rows'', ns @ ms)))"

text \<open>What an auditor reads off the notes.\<close>

definition replay_note :: "registry_note \<Rightarrow> (string \<Rightarrow> agent_status option) \<Rightarrow> (string \<Rightarrow> agent_status option)" where
  "replay_note n st = (case rn_event n of Registered _ _ _ _ \<Rightarrow> st(rn_agent n \<mapsto> Active)
     | StatusChanged _ new \<Rightarrow> st(rn_agent n \<mapsto> new) | _ \<Rightarrow> st)"

definition statuses :: "agents \<Rightarrow> string \<Rightarrow> agent_status option" where
  "statuses rows i = (case read_row rows i of Inl _ \<Rightarrow> None | Inr rc \<Rightarrow> Some (rc_status rc))"

lemma read_add:
  assumes "agents_ok rows" "valid_create q" "valid_instant c" "valid_instant u"
    and "reg_add q c u rows = (rows', Inr rc)"
  shows "statuses rows' = (statuses rows)(rc_id rc \<mapsto> Active)"
proof -
  from assms(5) have r: "rc = new_record q c u" "rows' = rows @ [record_to_row rc]" "rc_id rc \<notin> set (map ar_id rows)"
    by (auto simp: reg_add_def Let_def split: if_splits)
  have "row_to_record (record_to_row rc) = Some rc"
    using record_roundtrip [of rc] assms(2-4) by (simp add: r(1) new_record_def valid_create_def valid_record_def)
  moreover have "ar_id (record_to_row rc) = rc_id rc" by (simp add: record_to_row_def)
  moreover have "row_get ar_id rows (rc_id rc) = None" using r(3) by (auto simp: row_get_None_iff)
  ultimately show ?thesis
    by (auto simp: fun_eq_iff statuses_def read_row_def r(2) row_get_def find_append r(1) new_record_def
        split: option.splits)
qed

lemma statuses_update:
  assumes "\<And>r. ar_id (f r) = ar_id r" and "read_row (row_update (\<lambda>r. ar_id r = i) f rows) i = Inr a"
  shows "statuses (row_update (\<lambda>r. ar_id r = i) f rows) = (statuses rows)(i \<mapsto> rc_status a)"
  using assms by (auto simp: fun_eq_iff statuses_def read_row_other)

lemma attest_keeps_status:
  assumes "read_row rows i = Inr b" and "read_row (row_update (\<lambda>r. ar_id r = i) (attest_row w t) rows) i = Inr a"
  shows "rc_status a = rc_status b"
proof -
  obtain x where x: "row_get ar_id rows i = Some x" "row_to_record x = Some b" using assms(1) by (auto simp: read_row_Inr)
  have "row_to_record (attest_row w t x) = Some a"
    using assms(2) x by (simp add: read_row_same split: option.splits)
  with x(2) show ?thesis by (auto dest!: row_to_record_Some simp: attest_row_def)
qed

lemma write_replays:
  assumes "agents_ok rows" and "write_ok x" and "write_step x rows = (rows', ns)"
  shows "agents_ok rows' \<and> fold replay_note ns (statuses rows) = statuses rows'"
proof (cases x)
  case (WRegister w q)
  have ok: "agents_ok (fst (reg_add q (rw_now w) (rw_now_updated w) rows))"
    using assms WRegister by (auto intro: reg_add_ok)
  show ?thesis
  proof (cases "snd (add_agent w q rows)")
    case (Inl e)
    with assms WRegister ok show ?thesis
      by (auto simp: noted_def add_agent_def reg_add_def Let_def split: sum.splits prod.splits if_splits)
  next
    case (Inr y)
    then obtain rc a where add: "reg_add q (rw_now w) (rw_now_updated w) rows = (rows', Inr rc)"
      "ns = [ledger_note_of (rw_mode w) (context_of a) (Registered (rc_name rc) (rc_owner rc) (rc_domain rc) (rc_manifest rc)) (rc_id rc)]"
      using assms(3) WRegister by (auto simp: noted_def add_agent_def split: sum.splits prod.splits)
    with read_add [OF assms(1) _ _ _ add(1)] ok assms(2) WRegister show ?thesis
      by (simp add: replay_note_def ledger_note_of_def)
  qed
next
  case (WPatch m cx i p now)
  obtain r where u: "update_with_previous i p now rows = (rows', r)" "ns = noted (bindE (read_step r) (\<lambda>(before, after).
      Inr (after, ledger_note_of m cx (if rc_status after \<noteq> rc_status before
        then StatusChanged (rc_status before) (rc_status after) else Updated (sort_key id (patched_columns p))) i)))"
    using assms(3) WPatch by (auto simp: patch_write_def split: prod.splits)
  have ok: "agents_ok rows'" using update_ok [OF assms(1), of i p now] u by simp
  from u(1) show ?thesis
  proof (cases rule: update_with_previous_cases)
    case (changed b a)
    have "statuses rows i = Some (rc_status b)" using changed(2) by (simp add: statuses_def)
    moreover have "statuses rows' = (statuses rows)(i \<mapsto> rc_status a)"
      using statuses_update [of "patch_row p (iso_utc now)" i rows a] changed(3,4) by simp
    ultimately show ?thesis
      using ok u(2) changed(1) by (auto simp: noted_def read_step_def replay_note_def ledger_note_of_def)
  qed (use ok u in \<open>auto simp: noted_def read_step_def replay_note_def ledger_note_of_def\<close>)
next
  case (WAttest m cx i who now)
  obtain r where u: "attest i who now rows = (rows', r)" "ns = noted (bindE (read_step r) (\<lambda>rc.
      Inr (rc, ledger_note_of m cx (AttestedEvent who now) i)))"
    using assms(3) WAttest by (auto simp: attest_write_def split: prod.splits)
  have ok: "agents_ok rows'" using attest_ok [OF assms(1), of i who now] u by simp
  from u(1) show ?thesis
  proof (cases rule: attest_cases)
    case (changed b a)
    have "rc_status a = rc_status b" using attest_keeps_status changed(2,3,5) by simp
    moreover have "statuses rows i = Some (rc_status b)" using changed(2) by (simp add: statuses_def)
    moreover have "statuses rows' = (statuses rows)(i \<mapsto> rc_status a)"
      using statuses_update [of "attest_row who (iso_utc now)" i rows a] changed(3,5) by simp
    ultimately show ?thesis
      using ok u(2) changed(1) by (auto simp: noted_def read_step_def replay_note_def ledger_note_of_def)
  qed (use ok u in \<open>auto simp: noted_def read_step_def replay_note_def ledger_note_of_def\<close>)
qed

lemma writes_replay:
  assumes "agents_ok rows" and "list_all write_ok xs"
  shows "fold replay_note (snd (reg_writes xs rows)) (statuses rows) = statuses (fst (reg_writes xs rows))"
  using assms
proof (induction xs arbitrary: rows)
  case (Cons x xs)
  obtain rows' ns where x: "write_step x rows = (rows', ns)" by fastforce
  with write_replays [OF Cons.prems(1) _ x] Cons.prems(2)
  have "agents_ok rows'" "fold replay_note ns (statuses rows) = statuses rows'" by auto
  with Cons.IH [of rows'] Cons.prems(2) x show ?case by (auto split: prod.splits)
qed simp

text \<open>C16: The notes the writes lead to, read in the order of the writes, give the status of every agent: the
  fold of \<open>registry.registered\<close> and \<open>registry.status_changed\<close> over an empty map is the table's.\<close>

theorem notes_replay_to_statuses:
  assumes "list_all write_ok xs"
  shows "fold replay_note (snd (reg_writes xs [])) Map.empty = statuses (fst (reg_writes xs []))"
proof -
  have "statuses [] = Map.empty" by (simp add: fun_eq_iff statuses_def read_row_def)
  with writes_replay [of "[]" xs] assms show ?thesis by (simp add: agents_ok_def unique_keys_def)
qed


section \<open>Who may edit a record\<close>

lemma operator_step_Inr: "operator_step c = Inr x \<longleftrightarrow> c = Inr x"
  by (auto simp: operator_step_def split: sum.splits operator_refused.splits)

lemma read_step_Inr [simp]: "read_step r = Inr x \<longleftrightarrow> r = Inr x"
  by (cases r) (auto simp: read_step_def)

text \<open>Under ENFORCE the same credential proves the same identity for every action it is admitted to.\<close>

lemma same_identity:
  assumes "op_mode_of env = ENFORCE"
    and "authenticate env H now loaded hs x c = (c1, Inr a)" and "authenticate env H now loaded hs y c = (c2, Inr b)"
  shows "a = b"
  using assms by (auto simp: authenticate_def Let_def split: sum.splits if_splits dest!: auth_fail_Inr)

lemma has_needed_scope:
  assumes "op_mode_of env = ENFORCE" and "authenticate env H now loaded hs x c = (c1, Inr a)"
  shows "authenticated a \<and> oa_mode a = ENFORCE \<and> has_scope a x"
  using authenticate_enforce_proven [OF assms(2,1)] authenticated_from_row [OF assms(2)] assms(1) by metis

lemma extra_scopes:
  assumes "loopE (\<lambda>_ _ need. operator_step (case auth need of Inl e \<Rightarrow> Inl e | Inr _ \<Rightarrow> Inr ())) k () needs = Inr u"
    and "need \<in> set needs"
  shows "\<exists>a. auth need = Inr a"
  using assms
proof (induction needs arbitrary: k u)
  case (Cons n needs)
  then show ?case by (cases "auth n") (auto simp: bindE_Inr_iff operator_step_Inr)
qed simp

text \<open>What the guard established, in the table it read.\<close>

lemma patch_guard_checked:
  assumes "patch_guard w i p rows = Inr cx" and "patch_needs p \<noteq> []" and "rw_mode w \<noteq> OFF"
  obtains a named current u v x y where "rw_auth w (hd (patch_needs p)) = Inr a" "bind_named w p a = (cx, named)"
    "loopE (\<lambda>_ _ need. operator_step (case rw_auth w need of Inl e \<Rightarrow> Inl e | Inr _ \<Rightarrow> Inr ())) 0 () (tl (patch_needs p)) = Inr u"
    "read_row rows i = Inr current"
    "check_record_authorized a (rw_resolve w (rc_manifest current)) = Inr v"
    "(if au_manifest p = None then Inr () else unresolvable_manifest_ref (rw_resolve w) (au_manifest p)) = Inr x"
    "terminal_check p current = Inr y"
    "\<not> (au_status p \<noteq> None \<and> rw_mode w = ENFORCE \<and> authenticated a \<and> has_scope a ''bypass_operator_list'' \<and> \<not> named)"
proof -
  obtain a where a: "rw_auth w (hd (patch_needs p)) = Inr a"
    using assms unfolding patch_guard_def by (auto simp: bindE_Inr_iff operator_step_Inr)
  obtain cx0 named where b: "bind_named w p a = (cx0, named)" by fastforce
  show thesis
    using assms a b unfolding patch_guard_def
    by (auto simp: bindE_Inr_iff operator_step_Inr split: if_splits intro!: that [of a named])
qed

lemma bind_named_context: "bind_named w p a = (cx, named) \<Longrightarrow> cx_auth cx = a
    \<and> (named \<longrightarrow> (\<exists>who. cx_on_behalf cx = Some who \<and> printable_id who \<and> on_behalf_of (rw_headers w) a = Some who))"
  by (auto simp: bind_named_def context_of_def bind_on_behalf_of_def split: option.splits if_splits prod.splits)

lemma needs_tail: "need \<in> set (patch_needs p) \<Longrightarrow> need = hd (patch_needs p) \<or> need \<in> set (tl (patch_needs p))"
  by (cases "patch_needs p") auto

definition may_edit :: "operator_auth \<Rightarrow> resolved \<Rightarrow> bool" where
  "may_edit a res = (has_scope a ''bypass_operator_list''
     \<or> (case res of (None, why) \<Rightarrow> why = RR_no_ref | (Some m, _) \<Rightarrow>
          (case operators_of m of None \<Rightarrow> True | Some listed \<Rightarrow> listed = [] \<or> the (operator_id a) \<in> set listed
             \<or> (\<exists>n \<in> set (oa_names a). n \<in> set listed))))"

lemma record_check_may_edit:
  "check_record_authorized a res = Inr u \<Longrightarrow> oa_mode a = ENFORCE \<Longrightarrow> authenticated a \<Longrightarrow> may_edit a res"
  by (auto simp: check_record_authorized_def may_edit_def check_explicitly_listed_def check_authorized_def
      authenticated_def list_ex_iff split: if_splits prod.splits option.splits)

text \<open>Under ENFORCE a patch of a status, owner, domain or manifest passes its guard only for an identity
  that the request's credential proves, that holds the scope of the status change and \<open>registry_edit\<close>
  for the rest, that the agent's manifest does not leave out, with a new manifest that resolves and no way
  out of retired; an identity that skips the operator list has named the operator it acts for, and
  that name is what the ledger note will carry.\<close>

lemma edits_are_authorised:
  assumes "op_mode_of env = ENFORCE" and "rw_mode w = ENFORCE"
    and "\<And>x. rw_auth w x = snd (authenticate env H now loaded hs x c)"
    and "patch_needs p \<noteq> []" and "patch_guard w i p rows = Inr cx"
  shows "authenticated (cx_auth cx) \<and> (\<forall>need \<in> set (patch_needs p). has_scope (cx_auth cx) need)
    \<and> (\<exists>current. read_row rows i = Inr current \<and> may_edit (cx_auth cx) (rw_resolve w (rc_manifest current))
        \<and> (au_status p \<in> {None, Some Retired} \<or> rc_status current \<noteq> Retired))
    \<and> (au_manifest p \<noteq> None \<longrightarrow> (case rw_resolve w (au_manifest p) of (m, why) \<Rightarrow> m \<noteq> None \<or> why = RR_no_ref))
    \<and> (au_status p \<noteq> None \<and> has_scope (cx_auth cx) ''bypass_operator_list''
        \<longrightarrow> (\<exists>who. printable_id who \<and> (''operator_on_behalf_of'', JStr who) \<in> set (ledger_fields cx)))"
proof -
  from assms(2) have "rw_mode w \<noteq> OFF" by simp
  from patch_guard_checked [OF assms(5,4) this]
  obtain a named current u v x y where g: "rw_auth w (hd (patch_needs p)) = Inr a" "bind_named w p a = (cx, named)"
    "loopE (\<lambda>_ _ need. operator_step (case rw_auth w need of Inl e \<Rightarrow> Inl e | Inr _ \<Rightarrow> Inr ())) 0 () (tl (patch_needs p)) = Inr u"
    "read_row rows i = Inr current"
    "check_record_authorized a (rw_resolve w (rc_manifest current)) = Inr v"
    "(if au_manifest p = None then Inr () else unresolvable_manifest_ref (rw_resolve w) (au_manifest p)) = Inr x"
    "terminal_check p current = Inr y"
    "\<not> (au_status p \<noteq> None \<and> rw_mode w = ENFORCE \<and> authenticated a \<and> has_scope a ''bypass_operator_list'' \<and> \<not> named)" .
  have auth: "\<exists>c'. authenticate env H now loaded hs (hd (patch_needs p)) c = (c', Inr a)"
    using g(1) by (simp add: assms(3) prod_eq_iff)
  then obtain c' where au: "authenticate env H now loaded hs (hd (patch_needs p)) c = (c', Inr a)" by blast
  have ident: "authenticated a" "oa_mode a = ENFORCE" "has_scope a (hd (patch_needs p))"
    using has_needed_scope [OF assms(1) au] by simp_all
  have cx: "cx_auth cx = a" using bind_named_context [OF g(2)] by simp
  have "has_scope a need" if "need \<in> set (patch_needs p)" for need
  proof (cases "need \<in> set (tl (patch_needs p))")
    case True
    from extra_scopes [OF g(3) this] obtain b c2 where b: "authenticate env H now loaded hs need c = (c2, Inr b)"
      by (auto simp: assms(3)) (metis prod.collapse)
    from same_identity [OF assms(1) au b] has_needed_scope [OF assms(1) b] show ?thesis by simp
  qed (use that needs_tail ident in blast)
  moreover have "may_edit a (rw_resolve w (rc_manifest current))" by (rule record_check_may_edit [OF g(5) ident(2,1)])
  moreover have "au_status p \<in> {None, Some Retired} \<or> rc_status current \<noteq> Retired"
    using g(7) by (auto simp: terminal_check_def split: if_splits)
  moreover have "au_manifest p \<noteq> None \<longrightarrow> (case rw_resolve w (au_manifest p) of (m, why) \<Rightarrow> m \<noteq> None \<or> why = RR_no_ref)"
    using g(6) by (auto simp: unresolvable_manifest_ref_def split: if_splits prod.splits)
  moreover have "\<exists>who. printable_id who \<and> (''operator_on_behalf_of'', JStr who) \<in> set (ledger_fields cx)"
    if "au_status p \<noteq> None" "has_scope a ''bypass_operator_list''"
  proof -
    have "named" using g(8) that ident(1) assms(2) by simp
    with bind_named_context [OF g(2)] obtain who where "cx_on_behalf cx = Some who" "printable_id who" by blast
    then show ?thesis
      using cx ident that(2) by (auto simp: ledger_fields_def auth_ledger_fields_def acts_for_others_def Let_def jopt_def)
  qed
  ultimately show ?thesis using cx ident(1) g(4) by blast
qed


section \<open>Concrete runs\<close>

definition sample_create :: agent_create where
  "sample_create = \<lparr>ac_id = ''a1'', ac_name = ''Bot'', ac_owner = ''don'', ac_domain = ''general'', ac_manifest = None\<rparr>"

definition sample_world :: "op_mode \<Rightarrow> (string \<Rightarrow> operator_refused + operator_auth) \<Rightarrow> reg_world" where
  "sample_world m auth = \<lparr>rw_mode = m, rw_auth = auth, rw_headers = [], rw_resolve = (\<lambda>_. (None, RR_no_ref)),
     rw_now = 63900000000 * second, rw_now_updated = 63900000000 * second\<rparr>"

definition sample_status :: "agent_status \<Rightarrow> agent_update" where
  "sample_status st = \<lparr>au_name = None, au_owner = None, au_domain = None, au_manifest = None, au_status = Some st\<rparr>"

definition sample_record :: "agent_status \<Rightarrow> agent_record" where
  "sample_record st = (new_record sample_create (63900000000 * second) (63900000000 * second))\<lparr>rc_status := st\<rparr>"

lemma sample_instant: "valid_instant (63900000000 * second)"
  by (simp add: valid_instant_def day_us_def second_def)

lemma sample_id: "valid_agent_id ''a1''"
  by (simp add: valid_agent_id_def lower_or_digit_def is_digit_def)

lemma sample_reads: "row_to_record (record_to_row (sample_record st)) = Some (sample_record st)"
  by (rule record_roundtrip)
    (simp_all add: sample_record_def new_record_def sample_create_def valid_record_def sample_id sample_instant)

lemma sample_row_id: "ar_id (record_to_row (sample_record st)) = ''a1''"
  by (simp add: record_to_row_def sample_record_def new_record_def sample_create_def)

lemma sample_read_row: "read_row [record_to_row (sample_record st)] ''a1'' = Inr (sample_record st)"
  by (simp add: read_row_def row_get_def sample_row_id sample_reads)

text \<open>A revive admitted before the decommission, written after it.\<close>

definition sample_retired :: registry where
  "sample_retired = new_registry\<lparr>rg_agents := [record_to_row (sample_record Retired)],
     rg_patching := [(OFF, context_of NO_AUTH, ''a1'', sample_status Active)]\<rparr>"

lemma sample_late_revive: "reg_step sample_retired (sample_retired\<lparr>rg_patching := []\<rparr>)"
proof -
  have w: "patch_write OFF (context_of NO_AUTH) ''a1'' (sample_status Active) (63900000000 * second) (rg_agents sample_retired)
      = (rg_agents sample_retired, Inl (RegHttp 409 RetiredTerminal))"
    by (simp add: patch_write_def update_with_previous_def sample_retired_def sample_read_row sample_status_def
        read_step_def) (simp add: sample_record_def)
  have p: "(OFF, context_of NO_AUTH, ''a1'', sample_status Active) \<in> set (rg_patching sample_retired)"
    by (simp add: sample_retired_def)
  from reg_step.patch_written [OF p sample_instant w] show ?thesis
    by (simp add: sample_retired_def noted_def new_registry_def)
qed

lemma retired_is_terminal_witness:
  "\<exists>rc'. read_row (rg_agents (sample_retired\<lparr>rg_patching := []\<rparr>)) ''a1'' = Inr rc' \<and> rc_status rc' = Retired \<and> rc_owner rc' = ''don''"
proof -
  have reads: "read_row (rg_agents sample_retired) ''a1'' = Inr (sample_record Retired)"
    by (simp add: sample_retired_def sample_read_row)
  have inv: "reg_inv sample_retired"
    by (simp add: reg_inv_def agents_ok_def unique_keys_def sample_retired_def sample_reads)
  from retired_is_terminal [OF r_into_rtranclp [of reg_step, OF sample_late_revive] inv reads]
  show ?thesis by (auto simp: sample_record_def new_record_def sample_create_def)
qed

definition sample_registered :: registry where
  "sample_registered = new_registry\<lparr>rg_agents := [record_to_row (sample_record Active)],
     rg_notes := [ledger_note_of OFF (context_of NO_AUTH) (Registered ''Bot'' ''don'' ''general'' None) ''a1'']\<rparr>"

lemma sample_register: "add_agent (sample_world OFF (\<lambda>_. Inr NO_AUTH)) sample_create []
   = ([record_to_row (sample_record Active)], Inr (sample_record Active,
      ledger_note_of OFF (context_of NO_AUTH) (Registered ''Bot'' ''don'' ''general'' None) ''a1''))"
  by (simp add: add_agent_def operator_step_def sample_world_def unresolvable_manifest_ref_def reg_add_def Let_def
      sample_record_def new_record_def sample_create_def)

lemma sample_create_valid: "valid_create sample_create"
  by (simp add: valid_create_def sample_create_def sample_id)

lemma stored_agents_read_back_witness:
  "\<exists>rs. reg_list None None (rg_agents sample_registered) = Some rs \<and> sample_record Active \<in> set rs"
proof -
  have "reg_step new_registry (new_registry\<lparr>rg_agents := [record_to_row (sample_record Active)], rg_notes :=
      rg_notes new_registry @ noted (Inr (sample_record Active,
        ledger_note_of OFF (context_of NO_AUTH) (Registered ''Bot'' ''don'' ''general'' None) ''a1''))\<rparr>)"
    by (rule reg_step.register [of _ "sample_world OFF (\<lambda>_. Inr NO_AUTH)", OF sample_create_valid])
      (simp_all add: sample_register new_registry_def sample_instant, simp_all add: sample_world_def sample_instant)
  then have "reg_step\<^sup>*\<^sup>* new_registry sample_registered"
    by (simp add: sample_registered_def new_registry_def noted_def r_into_rtranclp)
  from stored_agents_read_back [OF this] obtain rs where
    rs: "reg_list None None (rg_agents sample_registered) = Some rs"
    "\<And>i rc. read_row (rg_agents sample_registered) i = Inr rc \<longleftrightarrow> rc \<in> set rs \<and> rc_id rc = i" by blast
  from rs(2) [of "''a1''" "sample_record Active"] rs(1) show ?thesis
    by (simp add: sample_registered_def sample_read_row)
qed

theorem notes_replay_to_statuses_witness:
  "fold replay_note (snd (reg_writes [WRegister (sample_world OFF (\<lambda>_. Inr NO_AUTH)) sample_create] [])) Map.empty
    = statuses (fst (reg_writes [WRegister (sample_world OFF (\<lambda>_. Inr NO_AUTH)) sample_create] []))"
  by (rule notes_replay_to_statuses) (simp add: sample_create_valid, simp add: sample_world_def sample_instant)

lemma sample_kill_guard:
  "patch_guard (sample_world ENFORCE (\<lambda>x. snd (authenticate demo_enforce (\<lambda>k. k) 5 (Inr demo_operators)
      (demo_headers ''don'' ''key1'') x no_uses))) ''a1'' (sample_status Killed) [record_to_row (sample_record Active)]
    = Inr (context_of \<lparr>oa_mode = ENFORCE, operator_id = Some ''don'', oa_claimed = shown_claim (Some ''don''),
         oa_key_fp = Some ''key1'', oa_scopes = [''*'', ''ledger_attribute''], oa_names = [], oa_failure = None,
         oa_prefixes = [''kill.'']\<rparr>)"
  by (simp add: patch_guard_def patch_needs_def sample_status_def sample_world_def demo_authenticates operator_step_def
      bind_named_def on_behalf_of_def has_scope_def EXPLICIT_ONLY_def sample_read_row check_record_authorized_def
      list_bound_def LIST_BOUND_PREFIX_def check_authorized_def terminal_check_def read_step_def)
    (simp add: sample_record_def)

lemma edits_are_authorised_witness:
  "\<exists>current. read_row [record_to_row (sample_record Active)] ''a1'' = Inr current \<and> rc_status current \<noteq> Retired"
proof -
  let ?w = "sample_world ENFORCE (\<lambda>x. snd (authenticate demo_enforce (\<lambda>k. k) 5 (Inr demo_operators)
      (demo_headers ''don'' ''key1'') x no_uses))"
  have "rw_mode ?w = ENFORCE" "patch_needs (sample_status Killed) \<noteq> []"
    "\<And>x. rw_auth ?w x = snd (authenticate demo_enforce (\<lambda>k. k) 5 (Inr demo_operators) (demo_headers ''don'' ''key1'') x no_uses)"
    by (simp_all add: sample_world_def patch_needs_def sample_status_def)
  from edits_are_authorised [OF demo_modes(1) this(1,3,2) sample_kill_guard]
  show ?thesis by (auto simp: sample_status_def)
qed

end
