(* ===== verification/Kill_Switch.thy ===== *)
theory Kill_Switch
  imports Halt_Endpoint Agent_Registry
begin

text \<open>
  The handlers of \<open>services/kill-switch/src/kill_switch/api.py\<close> and the check-in table of \<open>store.py\<close>. A handler
  makes calls (registry reads and writes, halt signals, ledger notes) that the state keeps in order; what each call
  is answered is a function of the calls made before it, so that anything may happen in between. The record
  \<open>operator_health\<close> writes of a refusal, the log lines and the wording of errors are left out; a duration is the
  text of its rounded milliseconds.
\<close>

section \<open>Calls and answers\<close>

datatype ks_call =
    GetAgent string
  | ListAgents "string option" "string option"
  | SetStatus string string "string option"
  | Signal string string "(string \<times> string) list"
  | LedgerNote string "(string \<times> json) list" "string option"

type_synonym ks_calls = "ks_call list"

text \<open>A transport exception with its text, or an answer with its status code.\<close>

datatype signal_answer = TransportError string | Answered "nat option"

record ks_world =
  kw_env :: op_env
  kw_auth :: "string \<Rightarrow> operator_refused + operator_auth"
  kw_agent :: "ks_calls \<Rightarrow> string \<Rightarrow> registry_reply"
  kw_list :: "ks_calls \<Rightarrow> string option \<Rightarrow> string option \<Rightarrow> (string \<times> reg_agent) list option"
  kw_patch :: "ks_calls \<Rightarrow> string \<Rightarrow> string \<Rightarrow> registry_reply"
  kw_manifest :: "ks_calls \<Rightarrow> string option \<Rightarrow> resolved"
  kw_signal :: "ks_calls \<Rightarrow> string \<Rightarrow> signal_answer"
  kw_ledger :: "ks_calls \<Rightarrow> bool"
  kw_allow :: "ks_calls \<Rightarrow> string"
  kw_ip_ok :: "string \<Rightarrow> bool"
  kw_now :: "ks_calls \<Rightarrow> instant"
  kw_elapsed :: "ks_calls \<Rightarrow> ks_calls \<Rightarrow> string"

section \<open>The check-in table\<close>

record heartbeat_row =
  hb_agent :: string
  hb_seen :: instant
  hb_status :: string
  hb_checkins :: nat

definition hb_record :: "string \<Rightarrow> instant \<Rightarrow> string \<Rightarrow> heartbeat_row list \<Rightarrow> heartbeat_row list" where
  "hb_record i seen st rows =
     (if row_get hb_agent rows i = None
      then rows @ [\<lparr>hb_agent = i, hb_seen = seen, hb_status = st, hb_checkins = 1\<rparr>]
      else row_update (\<lambda>r. hb_agent r = i)
        (\<lambda>r. r\<lparr>hb_seen := seen, hb_status := st, hb_checkins := hb_checkins r + 1\<rparr>) rows)"

definition hb_get :: "heartbeat_row list \<Rightarrow> string \<Rightarrow> heartbeat_row option" where
  "hb_get rows i = row_get hb_agent rows i"

section \<open>The state of the service\<close>

record halt_state =
  kh_calls :: ks_calls
  kh_gaps :: nat
  kh_beats :: "heartbeat_row list"

definition made :: "ks_call \<Rightarrow> halt_state \<Rightarrow> halt_state" where
  "made c s = s\<lparr>kh_calls := kh_calls s @ [c]\<rparr>"

text \<open>\<open>_ledger_note\<close>: whatever becomes of the record, the handler goes on; a lost one is counted.\<close>

definition note_event :: "ks_world \<Rightarrow> op_context \<Rightarrow> string \<Rightarrow> (string \<times> json) list \<Rightarrow> string option \<Rightarrow> halt_state
    \<Rightarrow> halt_state" where
  "note_event w cx etype payload agent s =
     (let s' = made (LedgerNote etype (merge_payload (kw_env w) cx payload) agent) s in
      if kw_ledger w (kh_calls s) then s' else s'\<lparr>kh_gaps := kh_gaps s' + 1\<rparr>)"

definition read_agent :: "ks_world \<Rightarrow> string \<Rightarrow> halt_state \<Rightarrow> halt_state \<times> (registry_error + reg_agent)" where
  "read_agent w i s = (made (GetAgent i) s, get_agent (kw_agent w (kh_calls s) i))"

text \<open>\<open>_set_status\<close>: the caller the guard proved travels with the write.\<close>

definition on_behalf :: "op_context \<Rightarrow> string option" where
  "on_behalf cx = (if oa_mode (cx_auth cx) \<noteq> OFF \<and> authenticated (cx_auth cx) then operator_id (cx_auth cx) else None)"

definition set_status :: "ks_world \<Rightarrow> op_context \<Rightarrow> string \<Rightarrow> string \<Rightarrow> halt_state
    \<Rightarrow> halt_state \<times> (registry_error + unit)" where
  "set_status w cx i st s = (made (SetStatus i st (on_behalf cx)) s,
     (case get_agent (kw_patch w (kh_calls s) i st) of Inl e \<Rightarrow> Inl e | Inr _ \<Rightarrow> Inr ()))"

section \<open>The halt signal\<close>

datatype signal_outcome = Called | Failed | Skipped

record endpoint_result =
  er_outcome :: signal_outcome
  er_reason :: "string option"
  er_host :: "string option"
  er_method :: "string option"
  er_http :: "nat option"
  er_elapsed :: "string option"
  er_error :: "string option"

definition skipped :: "string \<Rightarrow> string option \<Rightarrow> endpoint_result" where
  "skipped why host = \<lparr>er_outcome = Skipped, er_reason = Some why, er_host = host, er_method = None, er_http = None,
     er_elapsed = None, er_error = None\<rparr>"

definition ORIGIN_HEADER :: string where "ORIGIN_HEADER = ''x-field-kill-origin''"
definition ORIGIN_VALUE :: string where "ORIGIN_VALUE = ''kill-switch''"
definition REASON_HEADER :: string where "REASON_HEADER = ''x-field-kill-reason''"
definition REASON_HEADER_MAX :: nat where "REASON_HEADER_MAX = 512"

text \<open>\<open>if origin\<close>: the header is there and not empty.\<close>

definition from_us :: "string option \<Rightarrow> bool" where
  "from_us origin = (origin \<noteq> None \<and> origin \<noteq> Some [])"

record halt_signal =
  sg_method :: string
  sg_url :: string
  sg_host :: string

datatype signal_plan = DoNotCall endpoint_result | CallEndpoint halt_signal | MalformedEndpoint

definition plan_signal :: "(string \<Rightarrow> bool) \<Rightarrow> string \<Rightarrow> string \<Rightarrow> resolved \<Rightarrow> string option \<Rightarrow> signal_plan" where
  "plan_signal ip_ok allow_raw agent_id res origin =
     (if from_us origin then DoNotCall (skipped ''self_endpoint'' None)
      else case res of
        (None, why) \<Rightarrow> DoNotCall (skipped (if why = RR_no_ref then ''no_manifest_ref'' else ''manifest_unresolved'') None)
      | (Some m, _) \<Rightarrow>
        let k = en_kill_switch (mf_enforcement m); endpoint = ks_endpoint k in
        if endpoint = [] then DoNotCall (skipped ''no_endpoint'' None)
        else case urlsplit ip_ok endpoint of None \<Rightarrow> MalformedEndpoint
        | Some parts \<Rightarrow>
          if up_scheme parts \<notin> {''http'', ''https''} then DoNotCall (skipped ''non_http_endpoint'' None)
          else let host = hostname parts in
          if is_self_endpoint (up_path parts) agent_id then DoNotCall (skipped ''self_endpoint'' host)
          else if allowlist allow_raw = [] then DoNotCall (skipped ''allowlist_unset'' host)
          else case host of None \<Rightarrow> DoNotCall (skipped ''host_not_allowlisted'' None)
          | Some h \<Rightarrow>
            if h \<notin> set (allowlist allow_raw) then DoNotCall (skipped ''host_not_allowlisted'' host)
            else case parse_method (Some (ks_method k)) of
              None \<Rightarrow> DoNotCall (skipped ''unsupported_method'' host)
            | Some meth \<Rightarrow> CallEndpoint \<lparr>sg_method = meth, sg_url = endpoint, sg_host = h\<rparr>)"

definition signal_headers :: "string \<Rightarrow> (string \<times> string) list" where
  "signal_headers reason = (ORIGIN_HEADER, ORIGIN_VALUE) #
     (if reason = [] then [] else [(REASON_HEADER, quote_all (take REASON_HEADER_MAX reason))])"

definition signal_result :: "halt_signal \<Rightarrow> signal_answer \<Rightarrow> string \<Rightarrow> endpoint_result" where
  "signal_result g answer elapsed =
     (case answer of
        TransportError text \<Rightarrow> \<lparr>er_outcome = Failed, er_reason = Some ''transport_error'', er_host = Some (sg_host g),
          er_method = Some (sg_method g), er_http = None, er_elapsed = Some elapsed, er_error = Some (scrub text)\<rparr>
      | Answered st \<Rightarrow>
        (case st of Some n \<Rightarrow>
           if 300 \<le> n then \<lparr>er_outcome = Failed, er_reason = Some (if n < 400 then ''http_redirect'' else ''http_error''),
             er_host = Some (sg_host g), er_method = Some (sg_method g), er_http = st, er_elapsed = Some elapsed,
             er_error = None\<rparr>
           else \<lparr>er_outcome = Called, er_reason = None, er_host = Some (sg_host g), er_method = Some (sg_method g),
             er_http = st, er_elapsed = Some elapsed, er_error = None\<rparr>
         | None \<Rightarrow> \<lparr>er_outcome = Called, er_reason = None, er_host = Some (sg_host g), er_method = Some (sg_method g),
             er_http = None, er_elapsed = Some elapsed, er_error = None\<rparr>))"

text \<open>What a handler ends in: an HTTP error with what it cites, or an exception no handler catches (a 500).\<close>

datatype kill_detail =
    KUnregistered string | KUnreachable | KRetired string | KNoAgents string | KRefused refusal_detail
  | KNotPropagated | KStillLive | KBadId | KBadWindow

datatype ks_exception = RegistryRaised registry_error | UrlError | WindowError

definition signal_endpoint :: "ks_world \<Rightarrow> string \<Rightarrow> reg_agent \<Rightarrow> string option \<Rightarrow> string \<Rightarrow> halt_state
    \<Rightarrow> halt_state \<times> (ks_exception + endpoint_result)" where
  "signal_endpoint w agent_id rc origin reason s =
     (case plan_signal (kw_ip_ok w) (kw_allow w (kh_calls s)) agent_id (kw_manifest w (kh_calls s) (ra_manifest_ref rc))
        origin of
        DoNotCall r \<Rightarrow> (s, Inr r)
      | MalformedEndpoint \<Rightarrow> (s, Inl UrlError)
      | CallEndpoint g \<Rightarrow>
        let s' = made (Signal (sg_method g) (sg_url g) (signal_headers reason)) s in
        (s', Inr (signal_result g (kw_signal w (kh_calls s) (sg_url g)) (kw_elapsed w (kh_calls s) (kh_calls s')))))"

definition outcome_text :: "signal_outcome \<Rightarrow> string" where
  "outcome_text r = (case r of Called \<Rightarrow> ''called'' | Failed \<Rightarrow> ''failed'' | Skipped \<Rightarrow> ''skipped'')"

definition opt_field :: "string \<Rightarrow> ('a \<Rightarrow> json) \<Rightarrow> 'a option \<Rightarrow> (string \<times> json) list" where
  "opt_field k f x = (case x of None \<Rightarrow> [] | Some v \<Rightarrow> [(k, f v)])"

definition dump_result :: "endpoint_result \<Rightarrow> (string \<times> json) list" where
  "dump_result r = (''outcome'', JStr (outcome_text (er_outcome r)))
     # opt_field ''reason'' JStr (er_reason r) @ opt_field ''endpoint_host'' JStr (er_host r)
     @ opt_field ''method'' JStr (er_method r) @ opt_field ''http_status'' (\<lambda>n. JInt (int n)) (er_http r)
     @ opt_field ''elapsed_ms'' JFloat (er_elapsed r) @ opt_field ''error'' JStr (er_error r)"

definition signal_and_ledger :: "ks_world \<Rightarrow> op_context \<Rightarrow> string \<Rightarrow> reg_agent \<Rightarrow> string option \<Rightarrow> string
    \<Rightarrow> (string \<times> json) list \<Rightarrow> halt_state \<Rightarrow> halt_state \<times> (ks_exception + endpoint_result)" where
  "signal_and_ledger w cx agent_id rc origin reason base s =
     (case signal_endpoint w agent_id rc origin reason s of
        (s1, Inl e) \<Rightarrow> (s1, Inl e)
      | (s1, Inr r) \<Rightarrow> (note_event w cx (''kill.endpoint_'' @ outcome_text (er_outcome r))
          (dict_update base (dump_result r)) (Some agent_id) s1, Inr r))"

section \<open>The kill\<close>

record kill_report =
  kr_agent :: string
  kr_previous :: string
  kr_status :: string
  kr_elapsed :: string
  kr_operator :: string
  kr_reason :: string
  kr_killed_at :: instant
  kr_endpoint :: endpoint_result

datatype kill_stop = KillHttp nat kill_detail | KillRaised ks_exception

definition refusal_stop :: "operator_refused \<Rightarrow> kill_stop" where
  "refusal_stop e = (case e of OperatorRefused st d \<Rightarrow> KillHttp st (KRefused d))"

definition registry_stop :: "string \<Rightarrow> registry_error \<Rightarrow> kill_stop" where
  "registry_stop i e = (case e of AgentNotRegistered \<Rightarrow> KillHttp 404 (KUnregistered i)
     | RegistryUnreachable \<Rightarrow> KillHttp 502 KUnreachable
     | AgentNotActive _ \<Rightarrow> KillRaised (RegistryRaised e))"

definition write_stop :: "registry_error \<Rightarrow> kill_stop" where
  "write_stop e = (if e = RegistryUnreachable then KillHttp 502 KUnreachable else KillRaised (RegistryRaised e))"

definition status_or :: "string \<Rightarrow> reg_agent \<Rightarrow> string" where
  "status_or d rc = (case ra_status rc of None \<Rightarrow> d | Some st \<Rightarrow> st)"

text \<open>\<open>_check_authorized_operators\<close>, against the manifest of the record as it resolves now.\<close>

definition may_act_on :: "ks_world \<Rightarrow> op_context \<Rightarrow> reg_agent \<Rightarrow> halt_state \<Rightarrow> check" where
  "may_act_on w cx rc s = check_record_authorized (cx_auth cx) (kw_manifest w (kh_calls s) (ra_manifest_ref rc))"

definition flip_to_killed :: "ks_world \<Rightarrow> op_context \<Rightarrow> string \<Rightarrow> string \<Rightarrow> halt_state
    \<Rightarrow> halt_state \<times> (registry_error + unit)" where
  "flip_to_killed w cx i previous s = (if previous = ''killed'' then (s, Inr ()) else set_status w cx i ''killed'' s)"

definition finish_kill :: "ks_world \<Rightarrow> op_context \<Rightarrow> string \<Rightarrow> string \<Rightarrow> string \<Rightarrow> string \<Rightarrow> (string \<times> json) list
    \<Rightarrow> ks_calls \<Rightarrow> endpoint_result \<Rightarrow> halt_state \<Rightarrow> halt_state \<times> kill_report" where
  "finish_kill w cx i oper reason previous extra t0 er s =
     (let elapsed = kw_elapsed w t0 (kh_calls s);
          report = \<lparr>kr_agent = i, kr_previous = previous, kr_status = ''killed'', kr_elapsed = elapsed,
            kr_operator = oper, kr_reason = reason, kr_killed_at = kw_now w (kh_calls s), kr_endpoint = er\<rparr>
      in (note_event w cx ''kill.agent''
            (dict_update [(''operator'', JStr oper), (''reason'', JStr reason), (''previous_status'', JStr previous),
               (''elapsed_ms'', JFloat elapsed)] extra) (Some i) s, report))"

definition kill_one :: "ks_world \<Rightarrow> op_context \<Rightarrow> string \<Rightarrow> string \<Rightarrow> string \<Rightarrow> string option \<Rightarrow> (string \<times> json) list
    \<Rightarrow> halt_state \<Rightarrow> halt_state \<times> (kill_stop + kill_report)" where
  "kill_one w cx i oper reason origin extra s =
     (case read_agent w i s of
        (s1, Inl e) \<Rightarrow> (s1, Inl (registry_stop i e))
      | (s1, Inr rc) \<Rightarrow>
        (case may_act_on w cx rc s1 of Inl e \<Rightarrow> (s1, Inl (refusal_stop e))
         | Inr _ \<Rightarrow>
           let previous = status_or ''<unknown>'' rc in
           if previous = ''retired'' then (s1, Inl (KillHttp 409 (KRetired i)))
           else case flip_to_killed w cx i previous s1 of
             (s2, Inl e) \<Rightarrow> (s2, Inl (write_stop e))
           | (s2, Inr _) \<Rightarrow>
             (case signal_and_ledger w cx i rc origin reason [(''operator'', JStr oper), (''reason'', JStr reason)] s2 of
                (s3, Inl e) \<Rightarrow> (s3, Inl (KillRaised e))
              | (s3, Inr er) \<Rightarrow>
                (case finish_kill w cx i oper reason previous extra (kh_calls s) er s3 of (s4, rep) \<Rightarrow> (s4, Inr rep)))))"

section \<open>The halt of a domain\<close>

datatype domain_outcome = DKilled | DAlreadyKilled | DSkippedRetired | DError

record domain_agent_result =
  da_agent :: string
  da_outcome :: domain_outcome
  da_previous :: "string option"
  da_error :: "(nat \<times> kill_detail) option"
  da_endpoint :: "endpoint_result option"

record domain_tally =
  dt_killed :: "string list"
  dt_already :: "string list"
  dt_retired :: "string list"
  dt_results :: "domain_agent_result list"

definition no_tally :: domain_tally where
  "no_tally = \<lparr>dt_killed = [], dt_already = [], dt_retired = [], dt_results = []\<rparr>"

definition tally_retired :: "string \<Rightarrow> domain_tally \<Rightarrow> domain_tally" where
  "tally_retired i t = t\<lparr>dt_retired := dt_retired t @ [i], dt_results := dt_results t @ [\<lparr>da_agent = i,
     da_outcome = DSkippedRetired, da_previous = Some ''retired'', da_error = None, da_endpoint = None\<rparr>]\<rparr>"

definition tally_error :: "string \<Rightarrow> string option \<Rightarrow> nat \<Rightarrow> kill_detail \<Rightarrow> domain_tally \<Rightarrow> domain_tally" where
  "tally_error i st code d t = t\<lparr>dt_results := dt_results t @ [\<lparr>da_agent = i, da_outcome = DError, da_previous = st,
     da_error = Some (code, d), da_endpoint = None\<rparr>]\<rparr>"

definition tally_kill :: "string \<Rightarrow> bool \<Rightarrow> kill_report \<Rightarrow> domain_tally \<Rightarrow> domain_tally" where
  "tally_kill i was_killed rep t =
     (let t' = (if was_killed then t\<lparr>dt_already := dt_already t @ [i]\<rparr> else t\<lparr>dt_killed := dt_killed t @ [i]\<rparr>) in
      t'\<lparr>dt_results := dt_results t @ [\<lparr>da_agent = i, da_outcome = (if was_killed then DAlreadyKilled else DKilled),
        da_previous = Some (kr_previous rep), da_error = None, da_endpoint = Some (kr_endpoint rep)\<rparr>]\<rparr>)"

text \<open>Only an \<open>HTTPException\<close> is caught: any other exception ends the loop.\<close>

fun kill_each :: "ks_world \<Rightarrow> op_context \<Rightarrow> string \<Rightarrow> string \<Rightarrow> string option \<Rightarrow> string \<Rightarrow> (string \<times> reg_agent) list
    \<Rightarrow> domain_tally \<Rightarrow> halt_state \<Rightarrow> halt_state \<times> (ks_exception + domain_tally)" where
  "kill_each w cx oper reason origin d [] t s = (s, Inr t)"
| "kill_each w cx oper reason origin d ((i, rc) # rest) t s =
     (if ra_status rc = Some ''retired'' then kill_each w cx oper reason origin d rest (tally_retired i t) s
      else case kill_one w cx i oper reason origin [(''domain'', JStr d)] s of
        (s1, Inl (KillHttp code why)) \<Rightarrow>
          kill_each w cx oper reason origin d rest (tally_error i (ra_status rc) code why t) s1
      | (s1, Inl (KillRaised e)) \<Rightarrow> (s1, Inl e)
      | (s1, Inr rep) \<Rightarrow>
          kill_each w cx oper reason origin d rest (tally_kill i (ra_status rc = Some ''killed'') rep t) s1)"

record domain_report =
  dr_domain :: string
  dr_tally :: domain_tally
  dr_elapsed :: string
  dr_operator :: string
  dr_reason :: string

definition all_attempts_failed :: "domain_tally \<Rightarrow> bool" where
  "all_attempts_failed t = (let attempted = filter (\<lambda>r. da_outcome r \<noteq> DSkippedRetired) (dt_results t) in
     attempted \<noteq> [] \<and> list_all (\<lambda>r. da_outcome r = DError) attempted)"

section \<open>The drill\<close>

record drill_report =
  dl_agent :: string
  dl_kill_confirmed :: string
  dl_heartbeat_confirmed :: string
  dl_endpoint_confirmed :: "string option"
  dl_restored :: bool
  dl_restored_status :: string
  dl_total :: string
  dl_endpoint :: endpoint_result

text \<open>A \<open>for\<close> loop of registry reads, until one answers \<open>killed\<close>.\<close>

fun confirm_kill :: "nat \<Rightarrow> ks_world \<Rightarrow> string \<Rightarrow> halt_state \<Rightarrow> halt_state \<times> (registry_error + bool)" where
  "confirm_kill 0 w i s = (s, Inr False)"
| "confirm_kill (Suc n) w i s =
     (case read_agent w i s of
        (s1, Inl e) \<Rightarrow> (s1, Inl e)
      | (s1, Inr rc) \<Rightarrow> if ra_status rc = Some ''killed'' then (s1, Inr True) else confirm_kill n w i s1)"

record heartbeat =
  hx_agent :: string
  hx_status :: string
  hx_killed :: bool
  hx_checked :: instant
  hx_last_seen :: "instant option"

definition heartbeat_for :: "ks_world \<Rightarrow> string \<Rightarrow> halt_state
    \<Rightarrow> halt_state \<times> (registry_error + heartbeat \<times> string)" where
  "heartbeat_for w i s =
     (let checked = kw_now w (kh_calls s) in
      case read_agent w i s of
        (s1, Inl e) \<Rightarrow> (s1, if e = AgentNotRegistered
          then Inr (\<lparr>hx_agent = i, hx_status = ''unregistered'', hx_killed = True, hx_checked = checked,
            hx_last_seen = None\<rparr>, ''unregistered'') else Inl e)
      | (s1, Inr rc) \<Rightarrow>
        let st = status_or ''<unknown>'' rc in
        (s1, Inr (\<lparr>hx_agent = i, hx_status = st, hx_killed = (st \<noteq> ''active''), hx_checked = checked,
          hx_last_seen = None\<rparr>, st)))"

record drill_times =
  dx_kill :: string
  dx_heartbeat :: string
  dx_endpoint :: "string option"
  dx_result :: endpoint_result

text \<open>The body of the \<open>try\<close>: the write, its confirmation, the heartbeat and the signal.\<close>

definition drill_body :: "ks_world \<Rightarrow> op_context \<Rightarrow> string \<Rightarrow> reg_agent \<Rightarrow> string \<Rightarrow> string \<Rightarrow> string option \<Rightarrow> ks_calls
    \<Rightarrow> halt_state \<Rightarrow> halt_state \<times> (kill_stop + drill_times)" where
  "drill_body w cx i rc oper reason origin t0 s =
     (case set_status w cx i ''killed'' s of
        (s1, Inl e) \<Rightarrow> (s1, Inl (KillRaised (RegistryRaised e)))
      | (s1, Inr _) \<Rightarrow>
        (case confirm_kill 100 w i s1 of
           (s2, Inl e) \<Rightarrow> (s2, Inl (KillRaised (RegistryRaised e)))
         | (s2, Inr False) \<Rightarrow> (s2, Inl (KillHttp 500 KNotPropagated))
         | (s2, Inr True) \<Rightarrow>
           (case heartbeat_for w i s2 of
              (s3, Inl e) \<Rightarrow> (s3, Inl (KillRaised (RegistryRaised e)))
            | (s3, Inr (hb, _)) \<Rightarrow>
              if \<not> hx_killed hb then (s3, Inl (KillHttp 500 KStillLive))
              else case signal_and_ledger w cx i rc origin reason
                  [(''operator'', JStr oper), (''reason'', JStr reason), (''drill'', JBool True)] s3 of
                (s4, Inl e) \<Rightarrow> (s4, Inl (KillRaised e))
              | (s4, Inr er) \<Rightarrow> (s4, Inr \<lparr>dx_kill = kw_elapsed w t0 (kh_calls s2),
                  dx_heartbeat = kw_elapsed w t0 (kh_calls s3),
                  dx_endpoint = (if er_outcome er = Called then Some (kw_elapsed w t0 (kh_calls s4)) else None),
                  dx_result = er\<rparr>))))"

text \<open>The \<open>finally\<close>: the status read before the drill is written back, and read again; a failure is noted.\<close>

definition restore_failed :: "ks_world \<Rightarrow> op_context \<Rightarrow> string \<Rightarrow> string \<Rightarrow> string \<Rightarrow> string \<Rightarrow> halt_state
    \<Rightarrow> halt_state \<times> bool \<times> string" where
  "restore_failed w cx i oper previous text s =
     (note_event w cx ''kill.drill.restore_failed'' [(''operator'', JStr oper), (''target_status'', JStr previous),
        (''error'', JStr (scrub text))] (Some i) s, False, ''<restore failed>'')"

definition status_shown :: "reg_agent \<Rightarrow> string" where
  "status_shown rc = (case ra_status rc of None \<Rightarrow> ''<unknown>'' | Some st \<Rightarrow> if st = [] then ''<unknown>'' else st)"

definition restore_status :: "(registry_error \<Rightarrow> string) \<Rightarrow> ks_world \<Rightarrow> op_context \<Rightarrow> string \<Rightarrow> string \<Rightarrow> string \<Rightarrow> halt_state
    \<Rightarrow> halt_state \<times> bool \<times> string" where
  "restore_status text_of w cx i oper previous s =
     (case set_status w cx i previous s of
        (s1, Inl e) \<Rightarrow> restore_failed w cx i oper previous (text_of e) s1
      | (s1, Inr _) \<Rightarrow>
        (case read_agent w i s1 of
           (s2, Inl e) \<Rightarrow> restore_failed w cx i oper previous (text_of e) s2
         | (s2, Inr rc) \<Rightarrow>
           (s2, status_shown rc = previous, status_shown rc)))"

section \<open>Requests\<close>

record kill_request =
  kq_operator :: string
  kq_reason :: string

definition valid_kill_request :: "kill_request \<Rightarrow> bool" where
  "valid_kill_request q = (1 \<le> length (kq_operator q) \<and> length (kq_operator q) \<le> 200 \<and> 1 \<le> length (kq_reason q)
     \<and> length (kq_reason q) \<le> 1000 \<and> py_strip (kq_operator q) \<noteq> [] \<and> py_strip (kq_reason q) \<noteq> [])"

datatype ks_stop = Stopped kill_stop | DomainFailed domain_report | DrillFailed drill_report

text \<open>The guard of a route, and the operator of the body bound to what it proved.\<close>

definition guarded :: "ks_world \<Rightarrow> string \<Rightarrow> kill_request \<Rightarrow> ks_stop + op_context \<times> string" where
  "guarded w action q = (case kw_auth w action of Inl e \<Rightarrow> Inl (Stopped (refusal_stop e))
     | Inr a \<Rightarrow> Inr (bind_body_operator (context_of a) (kq_operator q)))"

definition kill_agent :: "ks_world \<Rightarrow> string \<Rightarrow> kill_request \<Rightarrow> string option \<Rightarrow> halt_state
    \<Rightarrow> halt_state \<times> (ks_stop + kill_report)" where
  "kill_agent w i q origin s =
     (case guarded w ''kill'' q of Inl e \<Rightarrow> (s, Inl e)
      | Inr (cx, oper) \<Rightarrow> (case kill_one w cx i oper (kq_reason q) origin [] s of
          (s', Inl e) \<Rightarrow> (s', Inl (Stopped e)) | (s', Inr rep) \<Rightarrow> (s', Inr rep)))"

definition finish_domain :: "ks_world \<Rightarrow> op_context \<Rightarrow> string \<Rightarrow> string \<Rightarrow> string \<Rightarrow> ks_calls \<Rightarrow> domain_tally \<Rightarrow> halt_state
    \<Rightarrow> halt_state \<times> (ks_stop + domain_report)" where
  "finish_domain w cx oper reason d t0 t s =
     (let elapsed = kw_elapsed w t0 (kh_calls s);
          s' = note_event w cx ''kill.domain'' [(''operator'', JStr oper), (''reason'', JStr reason), (''domain'', JStr d),
            (''killed'', JArr (map JStr (dt_killed t))), (''skipped_retired'', JArr (map JStr (dt_retired t))),
            (''elapsed_ms'', JFloat elapsed)] None s;
          rep = \<lparr>dr_domain = d, dr_tally = t, dr_elapsed = elapsed, dr_operator = oper, dr_reason = reason\<rparr>
      in (s', if all_attempts_failed t then Inl (DomainFailed rep) else Inr rep))"

definition kill_domain :: "ks_world \<Rightarrow> string \<Rightarrow> kill_request \<Rightarrow> string option \<Rightarrow> halt_state
    \<Rightarrow> halt_state \<times> (ks_stop + domain_report)" where
  "kill_domain w d q origin s =
     (case guarded w ''kill'' q of Inl e \<Rightarrow> (s, Inl e)
      | Inr (cx, oper) \<Rightarrow>
        let s1 = made (ListAgents (Some d) None) s in
        (case kw_list w (kh_calls s) (Some d) None of
           None \<Rightarrow> (s1, Inl (Stopped (KillHttp 502 KUnreachable)))
         | Some [] \<Rightarrow> (s1, Inl (Stopped (KillHttp 404 (KNoAgents d))))
         | Some agents \<Rightarrow>
           (case kill_each w cx oper (kq_reason q) origin d agents no_tally s1 of
              (s2, Inl e) \<Rightarrow> (s2, Inl (Stopped (KillRaised e)))
            | (s2, Inr t) \<Rightarrow> finish_domain w cx oper (kq_reason q) d (kh_calls s) t s2)))"

definition revive :: "ks_world \<Rightarrow> string \<Rightarrow> kill_request \<Rightarrow> halt_state \<Rightarrow> halt_state \<times> (ks_stop + heartbeat)" where
  "revive w i q s =
     (case guarded w ''revive'' q of Inl e \<Rightarrow> (s, Inl e)
      | Inr (cx, oper) \<Rightarrow>
        (case read_agent w i s of
           (s1, Inl e) \<Rightarrow> (s1, Inl (Stopped (registry_stop i e)))
         | (s1, Inr rc) \<Rightarrow>
           (case may_act_on w cx rc s1 of Inl e \<Rightarrow> (s1, Inl (Stopped (refusal_stop e)))
            | Inr _ \<Rightarrow>
              if ra_status rc = Some ''retired'' then (s1, Inl (Stopped (KillHttp 409 (KRetired i))))
              else case set_status w cx i ''active'' s1 of
                (s2, Inl e) \<Rightarrow> (s2, Inl (Stopped (registry_stop i e)))
              | (s2, Inr _) \<Rightarrow>
                let s3 = note_event w cx ''kill.revive''
                  [(''operator'', JStr oper), (''reason'', JStr (kq_reason q))] (Some i) s2 in
                (s3, Inr \<lparr>hx_agent = i, hx_status = ''active'', hx_killed = False,
                  hx_checked = kw_now w (kh_calls s3), hx_last_seen = None\<rparr>))))"

text \<open>\<open>GET\<close> and \<open>POST /heartbeat/{agent_id}\<close>; a registry that is not reached is an exception no handler catches.\<close>

definition heartbeat :: "ks_world \<Rightarrow> string \<Rightarrow> halt_state \<Rightarrow> halt_state \<times> (ks_stop + heartbeat)" where
  "heartbeat w i s = (case heartbeat_for w i s of
     (s1, Inl e) \<Rightarrow> (s1, Inl (Stopped (KillRaised (RegistryRaised e)))) | (s1, Inr (hb, _)) \<Rightarrow> (s1, Inr hb))"

definition MAX_HEARTBEAT_ID_LEN :: nat where "MAX_HEARTBEAT_ID_LEN = 128"

definition category_Cc :: "char \<Rightarrow> bool" where
  "category_Cc c = (let n = (of_char c :: nat) in n < 32 \<or> (127 \<le> n \<and> n < 160))"

definition checkin :: "ks_world \<Rightarrow> string \<Rightarrow> halt_state \<Rightarrow> halt_state \<times> (ks_stop + heartbeat)" where
  "checkin w i s =
     (if MAX_HEARTBEAT_ID_LEN < length i \<or> list_ex category_Cc i then (s, Inl (Stopped (KillHttp 422 KBadId)))
      else case heartbeat_for w i s of
        (s1, Inl e) \<Rightarrow> (s1, Inl (Stopped (KillRaised (RegistryRaised e))))
      | (s1, Inr (hb, st)) \<Rightarrow>
        let seen = kw_now w (kh_calls s1) in
        (s1\<lparr>kh_beats := hb_record i seen st (kh_beats s1)\<rparr>, Inr (hb\<lparr>hx_last_seen := Some seen\<rparr>)))"

section \<open>Liveness\<close>

text \<open>The query's float, and \<open>timedelta(seconds=x)\<close> in microseconds (half to even).\<close>

datatype py_float = NaN | PlusInf | MinusInf | Finite rat

definition microseconds :: "rat \<Rightarrow> int" where
  "microseconds x = (let y = x * 1000000; n = \<lfloor>y\<rfloor>; r = y - of_int n in
     if r < 1 / 2 then n else if 1 / 2 < r then n + 1 else if even n then n else n + 1)"

definition not_positive :: "py_float \<Rightarrow> bool" where
  "not_positive x = (case x of NaN \<Rightarrow> False | PlusInf \<Rightarrow> False | MinusInf \<Rightarrow> True | Finite r \<Rightarrow> r \<le> 0)"

text \<open>None where \<open>timedelta\<close> or the subtraction raises.\<close>

definition cutoff_of :: "py_float \<Rightarrow> instant \<Rightarrow> instant option" where
  "cutoff_of x now = (case x of Finite r \<Rightarrow> if valid_instant (now - microseconds r) then Some (now - microseconds r) else None
     | _ \<Rightarrow> None)"

text \<open>Ages are kept in microseconds, not rounded to milliseconds.\<close>

record agent_liveness =
  al_agent :: string
  al_last_seen :: "instant option"
  al_age_us :: "int option"
  al_status :: string

definition liveness_entry :: "instant \<Rightarrow> heartbeat_row list \<Rightarrow> string \<times> reg_agent \<Rightarrow> agent_liveness" where
  "liveness_entry now rows a = (case a of (i, rc) \<Rightarrow>
     (case row_get hb_agent rows i of
        None \<Rightarrow> \<lparr>al_agent = i, al_last_seen = None, al_age_us = None, al_status = status_or ''<unknown>'' rc\<rparr>
      | Some r \<Rightarrow> \<lparr>al_agent = i, al_last_seen = Some (hb_seen r), al_age_us = Some (now - hb_seen r),
          al_status = status_or ''<unknown>'' rc\<rparr>))"

definition is_live :: "instant \<Rightarrow> agent_liveness \<Rightarrow> bool" where
  "is_live cutoff e = (case al_last_seen e of None \<Rightarrow> False | Some t \<Rightarrow> cutoff \<le> t)"

record liveness_report =
  lv_checked :: instant
  lv_stale :: "agent_liveness list"
  lv_live :: "agent_liveness list"

definition liveness :: "ks_world \<Rightarrow> py_float \<Rightarrow> halt_state \<Rightarrow> halt_state \<times> (ks_stop + liveness_report)" where
  "liveness w stale_after s =
     (if not_positive stale_after then (s, Inl (Stopped (KillHttp 422 KBadWindow)))
      else let s1 = made (ListAgents None (Some ''active'')) s in
        (case kw_list w (kh_calls s) None (Some ''active'') of
           None \<Rightarrow> (s1, Inl (Stopped (KillHttp 502 KUnreachable)))
         | Some agents \<Rightarrow>
           let now = kw_now w (kh_calls s1) in
           (case cutoff_of stale_after now of
              None \<Rightarrow> (s1, Inl (Stopped (KillRaised WindowError)))
            | Some cutoff \<Rightarrow>
              let entries = map (liveness_entry now (kh_beats s1)) agents in
              (s1, Inr \<lparr>lv_checked = now, lv_stale = filter (\<lambda>e. \<not> is_live cutoff e) entries,
                lv_live = filter (is_live cutoff) entries\<rparr>))))"

section \<open>The drill's handler\<close>

definition dump_drill :: "drill_report \<Rightarrow> (string \<times> json) list" where
  "dump_drill r = [(''agent_id'', JStr (dl_agent r)), (''kill_confirmed_ms'', JFloat (dl_kill_confirmed r)),
     (''heartbeat_confirmed_ms'', JFloat (dl_heartbeat_confirmed r))]
     @ opt_field ''endpoint_confirmed_ms'' JFloat (dl_endpoint_confirmed r)
     @ [(''restored'', JBool (dl_restored r)), (''restored_status'', JStr (dl_restored_status r)),
        (''total_ms'', JFloat (dl_total r)), (''endpoint_result'', JObj (dump_result (dl_endpoint r)))]"

definition finish_drill :: "ks_world \<Rightarrow> op_context \<Rightarrow> string \<Rightarrow> string \<Rightarrow> ks_calls \<Rightarrow> drill_times \<Rightarrow> bool \<times> string \<Rightarrow> halt_state
    \<Rightarrow> halt_state \<times> (ks_stop + drill_report)" where
  "finish_drill w cx i oper t0 x restored s =
     (let rep = \<lparr>dl_agent = i, dl_kill_confirmed = dx_kill x, dl_heartbeat_confirmed = dx_heartbeat x,
            dl_endpoint_confirmed = dx_endpoint x, dl_restored = fst restored, dl_restored_status = snd restored,
            dl_total = kw_elapsed w t0 (kh_calls s), dl_endpoint = dx_result x\<rparr>;
          s' = note_event w cx ''kill.drill.complete'' ((''operator'', JStr oper) # dump_drill rep) (Some i) s
      in (s', if fst restored then Inr rep else Inl (DrillFailed rep)))"

definition drill :: "(registry_error \<Rightarrow> string) \<Rightarrow> ks_world \<Rightarrow> string \<Rightarrow> kill_request \<Rightarrow> string option \<Rightarrow> halt_state
    \<Rightarrow> halt_state \<times> (ks_stop + drill_report)" where
  "drill text_of w i q origin s =
     (case guarded w ''drill'' q of Inl e \<Rightarrow> (s, Inl e)
      | Inr (cx, oper) \<Rightarrow>
        (case read_agent w i s of
           (s1, Inl e) \<Rightarrow> (s1, Inl (Stopped (if e = AgentNotRegistered then KillHttp 404 (KUnregistered i)
              else KillRaised (RegistryRaised e))))
         | (s1, Inr rc) \<Rightarrow>
           (case may_act_on w cx rc s1 of Inl e \<Rightarrow> (s1, Inl (Stopped (refusal_stop e)))
            | Inr _ \<Rightarrow>
              let previous = status_or ''active'' rc in
              if previous = ''retired'' then (s1, Inl (Stopped (KillHttp 409 (KRetired i))))
              else
                let s2 = note_event w cx ''kill.drill.start''
                  [(''operator'', JStr oper), (''reason'', JStr (kq_reason q))] (Some i) s1 in
                (case drill_body w cx i rc oper (kq_reason q) origin (kh_calls s) s2 of (s3, out) \<Rightarrow>
                 (case restore_status text_of w cx i oper previous s3 of (s4, restored) \<Rightarrow>
                  (case out of Inl e \<Rightarrow> (s4, Inl (Stopped e))
                   | Inr x \<Rightarrow> finish_drill w cx i oper (kh_calls s) x restored s4))))))"

section \<open>The routes\<close>

datatype ks_request =
    KillAgent string kill_request "string option"
  | KillDomain string kill_request "string option"
  | Revive string kill_request
  | Drill string kill_request "string option"
  | Heartbeat string
  | CheckIn string
  | Liveness py_float

datatype ks_answer =
    KillDone kill_report | DomainDone domain_report | DrillDone drill_report | Beat heartbeat | Live liveness_report

definition answer_as :: "('a \<Rightarrow> ks_answer) \<Rightarrow> halt_state \<times> (ks_stop + 'a) \<Rightarrow> halt_state \<times> (ks_stop + ks_answer)" where
  "answer_as f r = (fst r, case snd r of Inl e \<Rightarrow> Inl e | Inr x \<Rightarrow> Inr (f x))"

definition serve_ks :: "(registry_error \<Rightarrow> string) \<Rightarrow> ks_world \<Rightarrow> ks_request \<Rightarrow> halt_state
    \<Rightarrow> halt_state \<times> (ks_stop + ks_answer)" where
  "serve_ks text_of w r s = (case r of
     KillAgent i q origin \<Rightarrow> answer_as KillDone (kill_agent w i q origin s)
   | KillDomain d q origin \<Rightarrow> answer_as DomainDone (kill_domain w d q origin s)
   | Revive i q \<Rightarrow> answer_as Beat (revive w i q s)
   | Drill i q origin \<Rightarrow> answer_as DrillDone (drill text_of w i q origin s)
   | Heartbeat i \<Rightarrow> answer_as Beat (heartbeat w i s)
   | CheckIn i \<Rightarrow> answer_as Beat (checkin w i s)
   | Liveness x \<Rightarrow> answer_as Live (liveness w x s))"

end
