(* ===== verification/Approver_Config.thy ===== *)
theory Approver_Config
  imports Kill_Switch
begin

text \<open>
  \<open>services/claude-approver/src/claude_approver/config.py\<close>: the agent map, the tool map and the action a tool call
  stands for. The decoded JSON of a variable or file is an argument (None where \<open>json.loads\<close> raises), and so is
  whether a bracketed host is an IP address.
\<close>

section \<open>Entries\<close>

definition SANDBOX_ACTION :: string where "SANDBOX_ACTION = ''run commands in sandbox''"
definition SANDBOX_TOOLS :: "string list" where "SANDBOX_TOOLS = [''bash'', ''write'', ''edit'']"

datatype entry_problem =
    NotAnObject | NoFieldAgentId | TokenNotAString | BadActions | BadCustomTools | BaseNotAString
  | BaseWhitespace | BaseNotHttp | BaseCredentials | BaseQuery | BasePort | BasePath | SecretNotAString

record agent_entry =
  ae_console :: string
  ae_field_id :: "string option"
  ae_token :: "string option"
  ae_actions :: "(string \<times> string) list"
  ae_customs :: "(string \<times> string) list"
  ae_base :: "string option"
  ae_secret :: "string option"
  ae_problem :: "entry_problem option"

definition bad_entry :: "string \<Rightarrow> entry_problem \<Rightarrow> agent_entry" where
  "bad_entry cid p = \<lparr>ae_console = cid, ae_field_id = None, ae_token = None, ae_actions = [], ae_customs = [],
     ae_base = None, ae_secret = None, ae_problem = Some p\<rparr>"

fun str_pairs :: "(string \<times> json) list \<Rightarrow> (string \<times> string) list option" where
  "str_pairs [] = Some []"
| "str_pairs ((k, JStr v) # kvs) = (if py_strip v = [] then None
     else (case str_pairs kvs of None \<Rightarrow> None | Some out \<Rightarrow> Some ((k, v) # out)))"
| "str_pairs ((k, _) # kvs) = None"

text \<open>\<open>_str_map\<close>, of a value that may be missing.\<close>

definition str_map :: "json option \<Rightarrow> (string \<times> string) list option" where
  "str_map v = (case v of None \<Rightarrow> Some [] | Some JNull \<Rightarrow> Some [] | Some (JObj kvs) \<Rightarrow> str_pairs kvs | Some _ \<Rightarrow> None)"

text \<open>\<open>base.strip().rstrip("/") or None\<close>\<close>

definition trim_base :: "string \<Rightarrow> string" where
  "trim_base b = rev (dropWhile (\<lambda>c. c = CHR ''/'') (rev (py_strip b)))"

definition prefix_char :: "char \<Rightarrow> bool" where
  "prefix_char c = (is_letter c \<or> is_digit c \<or> c \<in> {CHR ''.'', CHR ''_'', CHR ''~'', CHR ''-''})"

definition plain_prefix :: "string \<Rightarrow> bool" where
  "plain_prefix path = (path = [] \<or> (hd path = CHR ''/''
     \<and> list_all (\<lambda>seg. seg \<noteq> [] \<and> list_all prefix_char seg \<and> seg \<noteq> ''.'' \<and> seg \<noteq> ''..'') (split_on CHR ''/'' (tl path))))"

text \<open>\<open>parts.port\<close> raises unless the port is missing or a decimal number up to 65535.\<close>

definition port_ok :: "url_parts \<Rightarrow> bool" where
  "port_ok u =
     (let info = after_last CHR ''@'' (up_netloc u);
          tail = (if CHR ''['' \<in> set info then after CHR '']'' (after CHR ''['' info) else info);
          port = after CHR '':'' tail
      in port = [] \<or> (list_all is_digit port \<and> dec_val port \<le> 65535))"

text \<open>What stops an entry: a problem it is kept with, or an exception nothing catches.\<close>

datatype entry_stop = Problem entry_problem | EntryRaises

definition check_base :: "(string \<Rightarrow> bool) \<Rightarrow> string \<Rightarrow> entry_stop + unit" where
  "check_base ip_ok base =
     (if list_ex (\<lambda>c. py_isspace c \<or> category_Cc c) base then Inl (Problem BaseWhitespace)
      else case urlsplit ip_ok base of None \<Rightarrow> Inl EntryRaises
      | Some u \<Rightarrow>
        if up_scheme u \<notin> {''http'', ''https''} \<or> hostname u = None then Inl (Problem BaseNotHttp)
        else if CHR ''@'' \<in> set (up_netloc u) then Inl (Problem BaseCredentials)
        else if CHR ''?'' \<in> set base \<or> CHR ''#'' \<in> set base then Inl (Problem BaseQuery)
        else if \<not> port_ok u then Inl (Problem BasePort)
        else if \<not> plain_prefix (up_path u) then Inl (Problem BasePath)
        else Inr ())"

text \<open>A field that is a string, missing or null.\<close>

definition opt_text_field :: "json option \<Rightarrow> entry_problem \<Rightarrow> entry_stop + string option" where
  "opt_text_field v p = (case v of None \<Rightarrow> Inr None | Some JNull \<Rightarrow> Inr None | Some (JStr t) \<Rightarrow> Inr (Some t)
     | Some _ \<Rightarrow> Inl (Problem p))"

definition or_none_text :: "string option \<Rightarrow> string option" where
  "or_none_text x = (if x = Some [] then None else x)"

definition field_id :: "json option \<Rightarrow> entry_stop + string" where
  "field_id v = (case v of Some (JStr t) \<Rightarrow> if py_strip t = [] then Inl (Problem NoFieldAgentId) else Inr (py_strip t)
     | _ \<Rightarrow> Inl (Problem NoFieldAgentId))"

definition need_map :: "json option \<Rightarrow> entry_problem \<Rightarrow> entry_stop + (string \<times> string) list" where
  "need_map v p = (case str_map v of None \<Rightarrow> Inl (Problem p) | Some m \<Rightarrow> Inr m)"

definition parse_fields :: "(string \<Rightarrow> bool) \<Rightarrow> string \<Rightarrow> (string \<times> json) list \<Rightarrow> entry_stop + agent_entry" where
  "parse_fields ip_ok cid kvs =
     bindE (field_id (map_of kvs ''field_agent_id'')) (\<lambda>fid.
     bindE (opt_text_field (map_of kvs ''token_id'') TokenNotAString) (\<lambda>token.
     bindE (need_map (map_of kvs ''actions'') BadActions) (\<lambda>actions.
     bindE (need_map (map_of kvs ''custom_tools'') BadCustomTools) (\<lambda>customs.
     bindE (opt_text_field (map_of kvs ''estate_base_url'') BaseNotAString) (\<lambda>raw_base.
     let base = or_none_text (map_option trim_base raw_base) in
     bindE (case base of None \<Rightarrow> Inr () | Some b \<Rightarrow> check_base ip_ok b) (\<lambda>_.
     bindE (opt_text_field (map_of kvs ''secret_file'') SecretNotAString) (\<lambda>secret.
     Inr \<lparr>ae_console = cid, ae_field_id = Some fid, ae_token = or_none_text token, ae_actions = actions,
       ae_customs = customs, ae_base = base, ae_secret = or_none_text (map_option py_strip secret),
       ae_problem = None\<rparr>)))))))"

text \<open>\<open>_parse_entry\<close>; None is the \<open>ValueError\<close> of \<open>urlsplit\<close>.\<close>

definition parse_entry :: "(string \<Rightarrow> bool) \<Rightarrow> string \<Rightarrow> json \<Rightarrow> agent_entry option" where
  "parse_entry ip_ok cid raw =
     (case raw of JObj kvs \<Rightarrow>
        (case parse_fields ip_ok cid kvs of Inr e \<Rightarrow> Some e | Inl (Problem p) \<Rightarrow> Some (bad_entry cid p) | Inl EntryRaises \<Rightarrow> None)
      | _ \<Rightarrow> Some (bad_entry cid NotAnObject))"

section \<open>The agent map\<close>

datatype map_error = MapNotJson | MapNotAnObject | MapBlankId | MapFileUnreadable

record agent_map =
  am_entries :: "(string \<times> agent_entry) list"
  am_error :: "map_error option"

definition empty_map :: "map_error option \<Rightarrow> agent_map" where
  "empty_map e = \<lparr>am_entries = [], am_error = e\<rparr>"

definition consoles_for :: "agent_map \<Rightarrow> string \<Rightarrow> string list" where
  "consoles_for m fid = map fst (filter (\<lambda>(cid, e). ae_problem e = None \<and> ae_field_id e = Some fid) (am_entries m))"

definition field_ids :: "agent_map \<Rightarrow> string list" where
  "field_ids m = List.map_filter (\<lambda>(cid, e). if ae_problem e = None \<and> ae_field_id e \<noteq> Some [] then ae_field_id e else None)
     (am_entries m)"

datatype map_stop = MapIs map_error | MapRaises

fun parse_entries :: "(string \<Rightarrow> bool) \<Rightarrow> (string \<times> json) list \<Rightarrow> map_stop + (string \<times> agent_entry) list" where
  "parse_entries ip_ok [] = Inr []"
| "parse_entries ip_ok ((k, raw) # kvs) =
     (if starts_with ''_'' k then parse_entries ip_ok kvs
      else if py_strip k = [] then Inl (MapIs MapBlankId)
      else case parse_entry ip_ok k raw of None \<Rightarrow> Inl MapRaises
      | Some e \<Rightarrow> bindE (parse_entries ip_ok kvs) (\<lambda>es. Inr ((k, e) # es)))"

text \<open>\<open>parse_agent_map\<close> of what \<open>json.loads\<close> gave; None where an entry raises.\<close>

definition parse_agent_map :: "(string \<Rightarrow> bool) \<Rightarrow> json option \<Rightarrow> agent_map option" where
  "parse_agent_map ip_ok data =
     (case data of None \<Rightarrow> Some (empty_map (Some MapNotJson))
      | Some (JObj kvs) \<Rightarrow>
        (case parse_entries ip_ok kvs of Inr es \<Rightarrow> Some \<lparr>am_entries = es, am_error = None\<rparr>
         | Inl (MapIs e) \<Rightarrow> Some (empty_map (Some e)) | Inl MapRaises \<Rightarrow> None)
      | Some _ \<Rightarrow> Some (empty_map (Some MapNotAnObject)))"

text \<open>Where the map comes from: nothing is set, a text, or a file that may not be readable.\<close>

datatype map_source = MapUnset | MapText "json option" | MapFile "json option option"

definition load_agent_map :: "(string \<Rightarrow> bool) \<Rightarrow> map_source \<Rightarrow> agent_map option" where
  "load_agent_map ip_ok src =
     (case src of MapUnset \<Rightarrow> Some (empty_map None) | MapText data \<Rightarrow> parse_agent_map ip_ok data
      | MapFile None \<Rightarrow> Some (empty_map (Some MapFileUnreadable)) | MapFile (Some data) \<Rightarrow> parse_agent_map ip_ok data)"

section \<open>The tool map\<close>

datatype tool_map_error = ToolMapNotJson | ToolMapNotAnObject

record tool_map =
  tm_entries :: "(string \<times> string) list"
  tm_error :: "tool_map_error option"

text \<open>The stripped variable: unset or blank, or what \<open>json.loads\<close> gave of it.\<close>

definition load_tool_map :: "json option option \<Rightarrow> tool_map" where
  "load_tool_map src =
     (case src of None \<Rightarrow> \<lparr>tm_entries = [], tm_error = None\<rparr>
      | Some None \<Rightarrow> \<lparr>tm_entries = [], tm_error = Some ToolMapNotJson\<rparr>
      | Some (Some j) \<Rightarrow> (case str_map (Some j) of None \<Rightarrow> \<lparr>tm_entries = [], tm_error = Some ToolMapNotAnObject\<rparr>
          | Some m \<Rightarrow> \<lparr>tm_entries = m, tm_error = None\<rparr>))"

definition resolve_action :: "string \<Rightarrow> agent_entry \<Rightarrow> tool_map \<Rightarrow> string" where
  "resolve_action tool e tm =
     (case map_of (ae_actions e) tool of Some a \<Rightarrow> a
      | None \<Rightarrow> (case map_of (tm_entries tm) tool of Some a \<Rightarrow> a
        | None \<Rightarrow> if tool \<in> set SANDBOX_TOOLS then SANDBOX_ACTION else tool))"

section \<open>Lemmas\<close>

lemma bindE_Inr: "bindE x f = Inr y \<longleftrightarrow> (\<exists>a. x = Inr a \<and> f a = Inr y)"
  by (cases x) (auto simp: bindE_def)

text \<open>A usable entry has a field id that is no blank, and calls only a plain http(s) estate without credentials.\<close>

lemma usable_entry:
  assumes "parse_entry ip_ok cid raw = Some e" "ae_problem e = None"
  shows "ae_console e = cid \<and> (\<exists>fid. ae_field_id e = Some fid \<and> fid \<noteq> [])
    \<and> (case ae_base e of None \<Rightarrow> True | Some b \<Rightarrow> check_base ip_ok b = Inr ())"
proof -
  obtain kvs where r: "raw = JObj kvs" "parse_fields ip_ok cid kvs = Inr e"
    using assms by (auto simp: parse_entry_def bad_entry_def split: json.splits sum.splits entry_stop.splits)
  from r(2) show ?thesis
    by (auto simp: parse_fields_def bindE_Inr Let_def field_id_def split: json.splits option.splits if_splits)
qed

lemma checked_base:
  assumes "check_base ip_ok b = Inr ()"
  shows "\<exists>u. urlsplit ip_ok b = Some u \<and> up_scheme u \<in> {''http'', ''https''} \<and> hostname u \<noteq> None
    \<and> CHR ''@'' \<notin> set (up_netloc u) \<and> CHR ''?'' \<notin> set b \<and> CHR ''#'' \<notin> set b"
  using assms by (auto simp: check_base_def split: if_splits option.splits)

text \<open>One entry whose URL cannot be split raises out of the whole map, though a bad entry is meant to be kept alone.\<close>

lemma one_entry_ruins_the_map:
  assumes "map_of kvs k = Some (JObj [(''field_agent_id'', JStr ''a''), (''estate_base_url'', JStr ''http://[x'')])"
    and "\<forall>(k, raw) \<in> set kvs. py_strip k \<noteq> []" and "\<not> starts_with ''_'' k" and "\<not> ip_ok ''[x''"
  shows "parse_agent_map ip_ok (Some (JObj kvs)) = None"
proof -
  have raises: "parse_entry ip_ok k (JObj [(''field_agent_id'', JStr ''a''), (''estate_base_url'', JStr ''http://[x'')]) = None"
    if "py_strip k \<noteq> []" for k
    by code_simp
  have "parse_entries ip_ok kvs = Inl MapRaises"
    using assms
    by (induction kvs) (auto simp: raises bindE_def split: if_splits option.splits)
  then show ?thesis by (simp add: parse_agent_map_def)
qed

end
