(* ===== verification/Approver.thy ===== *)
theory Approver
  imports Approver_Config
begin

text \<open>
  \<open>services/claude-approver/src/claude_approver/core.py\<close>: the approver's tick. A session's events are read into its
  state, the asks the session is blocked on are checked with the sentinel and answered in one send, and usage is
  posted as deltas; \<open>/halt\<close> interrupts and archives. What the sessions API, the sentinel, the governor, the clocks and
  the disk answer in a tick are fields of \<open>tick_world\<close>. Log lines, latencies and the wording of labels are left out.
\<close>

section \<open>Events and session state\<close>

text \<open>\<open>processed_at\<close>: not a time, a time without a UTC form (the first instants of year 1), or an instant.\<close>

datatype processed = NotATime | NoUtcForm | At instant

record sdk_event =
  ev_id :: string
  ev_type :: string
  ev_ask :: bool
  ev_name :: string
  ev_tool_use :: "string option"
  ev_custom_use :: "string option"
  ev_stop :: "string option"
  ev_stop_ids :: "string list option"
  ev_processed :: "processed option"

definition ASK_TYPES :: "string list" where "ASK_TYPES = [''agent.tool_use'', ''agent.mcp_tool_use'']"

definition CURSOR_FUTURE_SLACK :: int where "CURSOR_FUTURE_SLACK = 60 * second"

record session_state =
  ss_console :: string
  ss_cursor :: "instant option"
  ss_seen :: "string set"
  ss_asks :: "(string \<times> sdk_event) list"
  ss_ask_seq :: "(string \<times> nat) list"
  ss_answered :: "string set"
  ss_stale :: "string set"
  ss_customs :: "(string \<times> sdk_event) list"
  ss_stop :: "string option"
  ss_stop_ids :: "string list option"
  ss_possibly :: "(string \<times> string) list"
  ss_idle_seq :: int
  ss_seq :: nat
  ss_updated :: "string option"
  ss_last_read :: "rat option"

definition new_session :: "string \<Rightarrow> session_state" where
  "new_session cid = \<lparr>ss_console = cid, ss_cursor = None, ss_seen = {}, ss_asks = [], ss_ask_seq = [], ss_answered = {},
     ss_stale = {}, ss_customs = [], ss_stop = None, ss_stop_ids = None, ss_possibly = [], ss_idle_seq = -1, ss_seq = 0,
     ss_updated = None, ss_last_read = None\<rparr>"

definition pop_opt :: "string option \<Rightarrow> (string \<times> 'a) list \<Rightarrow> (string \<times> 'a) list" where
  "pop_opt k al = (case k of None \<Rightarrow> al | Some x \<Rightarrow> AList.delete x al)"

text \<open>What one new event does, by its type.\<close>

definition take_event :: "sdk_event \<Rightarrow> session_state \<Rightarrow> session_state" where
  "take_event e s =
     (if ev_type e \<in> set ASK_TYPES then
        if ev_ask e \<and> ev_id e \<notin> ss_answered s \<and> ev_id e \<notin> ss_stale s
        then s\<lparr>ss_asks := AList.update (ev_id e) e (ss_asks s), ss_ask_seq := AList.update (ev_id e) (ss_seq s) (ss_ask_seq s)\<rparr>
        else s
      else if ev_type e = ''user.tool_confirmation'' then
        (case or_none_text (ev_tool_use e) of None \<Rightarrow> s
         | Some t \<Rightarrow> s\<lparr>ss_answered := insert t (ss_answered s), ss_asks := AList.delete t (ss_asks s),
             ss_possibly := AList.delete t (ss_possibly s)\<rparr>)
      else if ev_type e = ''agent.custom_tool_use'' then
        s\<lparr>ss_customs := AList.update (ev_id e) e (ss_customs s), ss_ask_seq := AList.update (ev_id e) (ss_seq s) (ss_ask_seq s)\<rparr>
      else if ev_type e = ''user.custom_tool_result'' then s\<lparr>ss_customs := pop_opt (ev_custom_use e) (ss_customs s)\<rparr>
      else if ev_type e = ''session.status_idle'' then
        s\<lparr>ss_stop := ev_stop e, ss_stop_ids := ev_stop_ids e, ss_idle_seq := int (ss_seq s)\<rparr>
      else if ev_type e \<in> {''session.status_running'', ''session.status_rescheduled'', ''session.status_terminated''}
      then s\<lparr>ss_stop := None, ss_stop_ids := None\<rparr>
      else s)"

text \<open>The cursor: a real time, not further ahead than the slack, and later than the cursor so far.\<close>

definition move_cursor :: "instant \<Rightarrow> processed option \<Rightarrow> instant option \<Rightarrow> instant option" where
  "move_cursor wall p cur =
     (case p of Some (At t) \<Rightarrow>
        if wall + CURSOR_FUTURE_SLACK < t then cur
        else (case cur of None \<Rightarrow> Some t | Some c \<Rightarrow> if c < t then Some t else cur)
      | _ \<Rightarrow> cur)"

definition read_event :: "instant \<Rightarrow> sdk_event \<Rightarrow> session_state \<Rightarrow> session_state" where
  "read_event wall e s =
     (if ev_id e = [] \<or> ev_id e \<in> ss_seen s then s
      else let s1 = take_event e (s\<lparr>ss_seen := insert (ev_id e) (ss_seen s), ss_seq := ss_seq s + 1\<rparr>) in
        s1\<lparr>ss_cursor := move_cursor wall (ev_processed e) (ss_cursor s1)\<rparr>)"

definition read_events :: "(string \<Rightarrow> instant) \<Rightarrow> sdk_event list \<Rightarrow> session_state \<Rightarrow> session_state" where
  "read_events wall es s = fold (\<lambda>e. read_event (wall (ev_id e)) e) es s"

section \<open>Asks of an earlier turn\<close>

definition asked_before_idle :: "session_state \<Rightarrow> string \<Rightarrow> bool" where
  "asked_before_idle s i =
     ((case map_of (ss_ask_seq s) i of Some n \<Rightarrow> int n | None \<Rightarrow> int (ss_seq s) + 1) < ss_idle_seq s)"

definition superseded :: "session_state \<Rightarrow> (string \<times> 'a) list \<Rightarrow> string list" where
  "superseded s pending = filter (\<lambda>i. i \<notin> set (case ss_stop_ids s of None \<Rightarrow> [] | Some ids \<Rightarrow> ids) \<and> asked_before_idle s i)
     (map fst pending)"

definition drop_ask :: "string \<Rightarrow> session_state \<Rightarrow> session_state" where
  "drop_ask i s = s\<lparr>ss_asks := AList.delete i (ss_asks s), ss_stale := insert i (ss_stale s),
     ss_possibly := AList.delete i (ss_possibly s)\<rparr>"

definition drop_custom :: "string \<Rightarrow> session_state \<Rightarrow> session_state" where
  "drop_custom i s = s\<lparr>ss_customs := AList.delete i (ss_customs s), ss_stale := insert i (ss_stale s),
     ss_possibly := AList.delete i (ss_possibly s)\<rparr>"

definition drop_superseded :: "session_state \<Rightarrow> session_state" where
  "drop_superseded s = (let s1 = fold drop_ask (superseded s (ss_asks s)) s in
     fold drop_custom (superseded s1 (ss_customs s1)) s1)"

section \<open>The sentinel\<close>

datatype check_answer =
    SecretUnreadable | CheckTimedOut | CheckUnreachable | CheckHttp nat | CheckNotJson | CheckJson json

datatype reason_class = SentinelBlock | SentinelEscalate | SentinelError | Unmapped | ConfigError | Allowed

record approver_verdict =
  av_allow :: bool
  av_class :: reason_class
  av_message :: "string option"
  av_decision :: "string option"
  av_clause :: "string option"
  av_shadowed :: bool

definition deny :: "reason_class \<Rightarrow> string \<Rightarrow> approver_verdict" where
  "deny c text = \<lparr>av_allow = False, av_class = c, av_message = Some text, av_decision = None, av_clause = None,
     av_shadowed = False\<rparr>"

definition ESCALATE_PREFIX :: string where "ESCALATE_PREFIX = ''escalated: a human holds this item; ''"

definition clause_of :: "(string \<times> json) list \<Rightarrow> string option" where
  "clause_of kvs = (case map_of kvs ''clause_id'' of Some (JStr c) \<Rightarrow> or_none_text (Some c) | _ \<Rightarrow> None)"

fun join_semis :: "string list \<Rightarrow> string" where
  "join_semis [] = []"
| "join_semis [x] = x"
| "join_semis (x # xs) = x @ ''; '' @ join_semis xs"

definition reasons_text :: "(json \<Rightarrow> string) \<Rightarrow> (string \<times> json) list \<Rightarrow> string" where
  "reasons_text str kvs = (case map_of kvs ''reasons'' of Some (JArr rs) \<Rightarrow> join_semis (map str rs) | _ \<Rightarrow> [])"

definition shadowed_of :: "(string \<times> json) list \<Rightarrow> bool" where
  "shadowed_of kvs = (case map_of kvs ''context'' of Some (JObj c) \<Rightarrow> map_of c ''shadowed'' = Some (JBool True) | _ \<Rightarrow> False)"

definition blocked_text :: "(json \<Rightarrow> string) \<Rightarrow> (string \<times> json) list \<Rightarrow> string" where
  "blocked_text str kvs = (case clause_of kvs of None \<Rightarrow> ''no clause'' | Some c \<Rightarrow> c) @ '': '' @ reasons_text str kvs"

text \<open>\<open>_check\<close>: the only place that produces an allow.\<close>

definition check_with :: "(json \<Rightarrow> string) \<Rightarrow> check_answer \<Rightarrow> approver_verdict" where
  "check_with str ans =
     (case ans of
        SecretUnreadable \<Rightarrow> deny ConfigError ''claude-approver: estate secret unreadable''
      | CheckTimedOut \<Rightarrow> deny SentinelError ''claude-approver: sentinel timed out''
      | CheckUnreachable \<Rightarrow> deny SentinelError ''claude-approver: sentinel unreachable''
      | CheckHttp st \<Rightarrow> deny SentinelError (''claude-approver: sentinel answered HTTP '' @ dec_nat st)
      | CheckNotJson \<Rightarrow> deny SentinelError ''claude-approver: sentinel answered non-JSON''
      | CheckJson (JObj kvs) \<Rightarrow>
        if map_of kvs ''decision'' = Some (JStr ''ALLOW'') then
          \<lparr>av_allow = True, av_class = Allowed, av_message = None, av_decision = Some ''ALLOW'', av_clause = clause_of kvs,
            av_shadowed = shadowed_of kvs\<rparr>
        else if map_of kvs ''decision'' = Some (JStr ''BLOCK'') then
          (deny SentinelBlock (blocked_text str kvs))\<lparr>av_decision := Some ''BLOCK'', av_clause := clause_of kvs\<rparr>
        else if map_of kvs ''decision'' = Some (JStr ''ESCALATE'') then
          (deny SentinelEscalate (ESCALATE_PREFIX @ blocked_text str kvs))\<lparr>av_decision := Some ''ESCALATE'', av_clause := clause_of kvs\<rparr>
        else deny SentinelError ''claude-approver: sentinel answered an unknown decision''
      | CheckJson _ \<Rightarrow> deny SentinelError ''claude-approver: sentinel answered a non-object'')"

section \<open>Answering\<close>

definition DENY_MESSAGE_MAX :: nat where "DENY_MESSAGE_MAX = 1000"
definition POSSIBLY_SENT_MAX :: nat where "POSSIBLY_SENT_MAX = 64"
definition EVENTS_REFRESH_SECONDS :: rat where "EVENTS_REFRESH_SECONDS = 60"

record confirmation =
  cf_event :: string
  cf_allow :: bool
  cf_message :: "string option"

record decision_record =
  dc_event :: string
  dc_tool :: string
  dc_action :: "string option"
  dc_allow :: bool
  dc_class :: reason_class
  dc_sent :: bool
  dc_rejected :: bool
  dc_possibly :: "string option"

datatype send_error = SendStatus nat | SendFailed
datatype send_outcome = Sent | Rejected | Conflict | Retry

definition is_rejection :: "send_error \<Rightarrow> bool" where
  "is_rejection e = (case e of SendFailed \<Rightarrow> False | SendStatus n \<Rightarrow> 400 \<le> n \<and> n < 500 \<and> n \<notin> {408, 429})"

definition rejection_outcome :: "send_error \<Rightarrow> send_outcome" where
  "rejection_outcome e = (case e of SendStatus n \<Rightarrow> if n \<in> {400, 409} then Conflict else Rejected | SendFailed \<Rightarrow> Rejected)"

definition outcome_of :: "send_error option \<Rightarrow> send_outcome" where
  "outcome_of r = (case r of None \<Rightarrow> Sent | Some e \<Rightarrow> if is_rejection e then rejection_outcome e else Retry)"

text \<open>\<open>_send\<close>: the whole batch (call 0), and each alone (calls 1, 2, ...) where the batch was refused; the calls made
  and an outcome for each confirmation.\<close>

definition send_confirmations :: "(nat \<Rightarrow> send_error option) \<Rightarrow> confirmation list
    \<Rightarrow> confirmation list list \<times> send_outcome list" where
  "send_confirmations answer cs =
     (case answer 0 of
        None \<Rightarrow> ([cs], map (\<lambda>_. Sent) cs)
      | Some e \<Rightarrow>
        if \<not> is_rejection e then ([cs], map (\<lambda>_. Retry) cs)
        else if length cs = 1 then ([cs], [rejection_outcome e])
        else (cs # map (\<lambda>c. [c]) cs, map (\<lambda>n. outcome_of (answer (Suc n))) [0..<length cs]))"

text \<open>What a session meets in one tick.\<close>

record session_world =
  sw_events :: "instant option \<Rightarrow> sdk_event list \<times> bool"
  sw_clock :: rat
  sw_wall :: "string \<Rightarrow> instant"
  sw_check :: "string \<Rightarrow> string \<Rightarrow> check_answer"
  sw_send :: "nat \<Rightarrow> send_error option"
  sw_str :: "json \<Rightarrow> string"

definition verdict_for :: "session_world \<Rightarrow> agent_entry \<Rightarrow> tool_map \<Rightarrow> string \<Rightarrow> sdk_event \<Rightarrow> approver_verdict \<times> string option" where
  "verdict_for w entry tm i e =
     (if ae_problem entry \<noteq> None then (deny Unmapped ''claude-approver: unusable map entry'', None)
      else if tm_error tm \<noteq> None then (deny ConfigError ''claude-approver: invalid tool map'', None)
      else if ev_name e = [] then (deny SentinelError ''claude-approver: tool event has no name'', None)
      else let action = resolve_action (ev_name e) entry tm in
        (check_with (sw_str w) (sw_check w i action), Some action))"

definition confirmation_of :: "string \<Rightarrow> approver_verdict \<Rightarrow> confirmation" where
  "confirmation_of i v = \<lparr>cf_event = i, cf_allow = av_allow v,
     cf_message = (if av_allow v then None
       else Some (take DENY_MESSAGE_MAX (case or_none_text (av_message v) of None \<Rightarrow> ''claude-approver: denied'' | Some t \<Rightarrow> t)))\<rparr>"

definition record_of :: "string \<Rightarrow> sdk_event \<Rightarrow> approver_verdict \<times> string option \<Rightarrow> decision_record" where
  "record_of i e va = \<lparr>dc_event = i, dc_tool = ev_name e, dc_action = snd va, dc_allow = av_allow (fst va),
     dc_class = av_class (fst va), dc_sent = False, dc_rejected = False, dc_possibly = None\<rparr>"

definition plan_answer :: "session_world \<Rightarrow> agent_entry \<Rightarrow> tool_map \<Rightarrow> session_state \<Rightarrow> string
    \<Rightarrow> confirmation \<times> decision_record" where
  "plan_answer w entry tm s i =
     (let e = the (map_of (ss_asks s) i); va = verdict_for w entry tm i e in
      (confirmation_of i (fst va), record_of i e va))"

definition result_text :: "bool \<Rightarrow> string" where
  "result_text allow = (if allow then ''allow'' else ''deny'')"

definition remember_possible :: "string \<Rightarrow> string \<Rightarrow> session_state \<Rightarrow> session_state" where
  "remember_possible i r s =
     (let al = AList.update i r (ss_possibly s) in
      s\<lparr>ss_possibly := drop (length al - POSSIBLY_SENT_MAX) al\<rparr>)"

text \<open>What an outcome does to the ask it answers, with the record that is kept of it.\<close>

definition settle :: "confirmation \<times> decision_record \<Rightarrow> send_outcome \<Rightarrow> session_state
    \<Rightarrow> session_state \<times> decision_record" where
  "settle p out s =
     (case p of (c, r) \<Rightarrow> let i = cf_event c; r1 = r\<lparr>dc_sent := (out = Sent), dc_rejected := (out \<in> {Rejected, Conflict})\<rparr> in
      case out of
        Sent \<Rightarrow> (s\<lparr>ss_answered := insert i (ss_answered s), ss_asks := AList.delete i (ss_asks s),
            ss_possibly := AList.delete i (ss_possibly s)\<rparr>, r1)
      | Retry \<Rightarrow> (remember_possible i (result_text (cf_allow c)) s, r1)
      | _ \<Rightarrow>
        let remembered = map_of (ss_possibly s) i;
            s1 = s\<lparr>ss_asks := AList.delete i (ss_asks s), ss_possibly := AList.delete i (ss_possibly s)\<rparr>
        in if remembered \<noteq> None \<and> out = Conflict
           then (s1\<lparr>ss_answered := insert i (ss_answered s1)\<rparr>, r1\<lparr>dc_possibly := remembered\<rparr>)
           else (s1\<lparr>ss_stale := insert i (ss_stale s1)\<rparr>, r1))"

fun settle_all :: "(confirmation \<times> decision_record) list \<Rightarrow> send_outcome list \<Rightarrow> session_state
    \<Rightarrow> session_state \<times> decision_record list" where
  "settle_all (p # ps) (out # outs) s =
     (case settle p out s of (s1, r) \<Rightarrow> (case settle_all ps outs s1 of (s2, rs) \<Rightarrow> (s2, r # rs)))"
| "settle_all _ _ s = (s, [])"

text \<open>What an approval of a session did: the sends, the decisions kept, and the heartbeats.\<close>

record approval =
  ap_sends :: "confirmation list list"
  ap_decisions :: "decision_record list"
  ap_heartbeats :: nat

definition nothing_done :: approval where
  "nothing_done = \<lparr>ap_sends = [], ap_decisions = [], ap_heartbeats = 0\<rparr>"

definition answer_asks :: "session_world \<Rightarrow> agent_entry \<Rightarrow> tool_map \<Rightarrow> string list \<Rightarrow> session_state
    \<Rightarrow> session_state \<times> approval" where
  "answer_asks w entry tm eligible s =
     (let planned = map (plan_answer w entry tm s) eligible;
          (sends, outs) = send_confirmations (sw_send w) (map fst planned);
          (s', rs) = settle_all planned outs s
      in (s', \<lparr>ap_sends = sends, ap_decisions = rs,
        ap_heartbeats = (if ae_problem entry \<noteq> None then 0
          else length (filter (\<lambda>r. dc_sent r \<and> dc_class r \<noteq> Unmapped) rs))\<rparr>))"

definition fresh_enough :: "session_world \<Rightarrow> string option \<Rightarrow> session_state \<Rightarrow> bool" where
  "fresh_enough w updated s =
     (updated \<noteq> None \<and> updated = ss_updated s \<and> ss_asks s = [] \<and> ss_customs s = []
      \<and> (case ss_last_read s of None \<Rightarrow> False | Some t \<Rightarrow> sw_clock w - t < EVENTS_REFRESH_SECONDS))"

text \<open>The events read so far stay read when the listing fails on the way.\<close>

definition refresh :: "session_world \<Rightarrow> string option \<Rightarrow> session_state \<Rightarrow> session_state \<times> bool" where
  "refresh w updated s =
     (if fresh_enough w updated s then (s, True)
      else case sw_events w (ss_cursor s) of (es, failed) \<Rightarrow>
        let s1 = read_events (sw_wall w) es s in
        if failed then (s1, False) else (s1\<lparr>ss_updated := updated, ss_last_read := Some (sw_clock w)\<rparr>, True))"

definition eligible_asks :: "session_state \<Rightarrow> string list" where
  "eligible_asks s = (case ss_stop_ids s of None \<Rightarrow> map fst (ss_asks s)
     | Some ids \<Rightarrow> filter (\<lambda>i. i \<in> set ids) (map fst (ss_asks s)))"

definition approve_session :: "session_world \<Rightarrow> agent_entry \<Rightarrow> tool_map \<Rightarrow> string option \<Rightarrow> session_state
    \<Rightarrow> session_state \<times> approval" where
  "approve_session w entry tm updated s =
     (case refresh w updated s of
        (s1, False) \<Rightarrow> (s1, nothing_done)
      | (s1, True) \<Rightarrow>
        let s2 = (if ss_stop s1 = Some ''requires_action'' \<and> ss_stop_ids s1 \<noteq> None then drop_superseded s1 else s1) in
        if ss_stop s2 \<noteq> Some ''requires_action'' \<or> ss_asks s2 = [] \<or> ss_customs s2 \<noteq> [] \<or> eligible_asks s2 = []
        then (s2, nothing_done)
        else answer_asks w entry tm (eligible_asks s2) s2)"

section \<open>Usage\<close>

record usage_snap =
  us_input :: int
  us_output :: int
  us_cache :: int

definition no_usage :: usage_snap where "no_usage = \<lparr>us_input = 0, us_output = 0, us_cache = 0\<rparr>"

datatype cursor_error = CursorUnreadable | CursorCorrupt

record usage_cursor =
  uc_data :: "(string \<times> usage_snap) list"
  uc_error :: "cursor_error option"
  uc_loaded :: bool

text \<open>\<open>int(snap.get(k, 0))\<close>, with \<open>int()\<close> of a JSON value an argument.\<close>

definition snap_field :: "(json \<Rightarrow> int option) \<Rightarrow> (string \<times> json) list \<Rightarrow> string \<Rightarrow> int option" where
  "snap_field py_int kvs k = (case map_of kvs k of None \<Rightarrow> Some 0 | Some j \<Rightarrow> py_int j)"

definition parse_snap :: "(json \<Rightarrow> int option) \<Rightarrow> json \<Rightarrow> usage_snap option" where
  "parse_snap py_int j =
     (case j of JObj kvs \<Rightarrow>
        (case (snap_field py_int kvs ''input_tokens'', snap_field py_int kvs ''output_tokens'',
               snap_field py_int kvs ''cache_read_tokens'') of
           (Some a, Some b, Some c) \<Rightarrow> Some \<lparr>us_input = a, us_output = b, us_cache = c\<rparr> | _ \<Rightarrow> None)
      | _ \<Rightarrow> None)"

fun parse_snaps :: "(json \<Rightarrow> int option) \<Rightarrow> (string \<times> json) list \<Rightarrow> (string \<times> usage_snap) list option" where
  "parse_snaps py_int [] = Some []"
| "parse_snaps py_int ((k, j) # kvs) =
     (case (parse_snap py_int j, parse_snaps py_int kvs) of (Some x, Some xs) \<Rightarrow> Some ((k, x) # xs) | _ \<Rightarrow> None)"

datatype cursor_file = NoCursorFile | UnreadableCursor | NotUtf8Cursor | CursorText "json option"

text \<open>A file that is not UTF-8 raises an error that is not an \<open>OSError\<close>: it leaves \<open>load\<close>, the cursor marked loaded.\<close>

definition load_raises :: "cursor_file \<Rightarrow> usage_cursor \<Rightarrow> bool" where
  "load_raises f c = (\<not> uc_loaded c \<and> f = NotUtf8Cursor)"

definition load_cursor :: "(json \<Rightarrow> int option) \<Rightarrow> cursor_file \<Rightarrow> usage_cursor \<Rightarrow> usage_cursor" where
  "load_cursor py_int f c =
     (if uc_loaded c then c
      else let c1 = c\<lparr>uc_loaded := True\<rparr> in
        case f of NoCursorFile \<Rightarrow> c1 | NotUtf8Cursor \<Rightarrow> c1 | UnreadableCursor \<Rightarrow> c1\<lparr>uc_error := Some CursorUnreadable\<rparr>
        | CursorText (Some (JObj kvs)) \<Rightarrow> (case parse_snaps py_int kvs of Some d \<Rightarrow> c1\<lparr>uc_data := d\<rparr>
            | None \<Rightarrow> c1\<lparr>uc_error := Some CursorCorrupt\<rparr>)
        | CursorText _ \<Rightarrow> c1\<lparr>uc_error := Some CursorCorrupt\<rparr>)"

definition cursor_get :: "usage_cursor \<Rightarrow> string \<Rightarrow> usage_snap" where
  "cursor_get c sid = (case map_of (uc_data c) sid of None \<Rightarrow> no_usage | Some s \<Rightarrow> s)"

text \<open>The file is written first; memory moves only when that worked.\<close>

definition cursor_set :: "bool \<Rightarrow> string \<Rightarrow> usage_snap \<Rightarrow> usage_cursor \<Rightarrow> usage_cursor" where
  "cursor_set written sid snap c = (if written then c\<lparr>uc_data := AList.update sid snap (uc_data c)\<rparr> else c)"

text \<open>A counter the API sent: a number that is not negative, or anything else.\<close>

definition count_of :: "rat option \<Rightarrow> int" where
  "count_of v = (case v of Some x \<Rightarrow> if 0 \<le> x then \<lfloor>x\<rfloor> else 0 | None \<Rightarrow> 0)"

record usage_counts =
  un_input :: "rat option"
  un_output :: "rat option"
  un_cache :: "rat option"

definition snapshot_of :: "usage_counts \<Rightarrow> usage_snap" where
  "snapshot_of u = \<lparr>us_input = count_of (un_input u), us_output = count_of (un_output u), us_cache = count_of (un_cache u)\<rparr>"

text \<open>\<open>_usage_snapshot\<close>: the session's usage, or its latest \<open>session.usage\<close> event (None: no such event, or the listing failed).\<close>

definition usage_snapshot :: "usage_counts option \<Rightarrow> usage_counts option \<Rightarrow> usage_snap option" where
  "usage_snapshot of_session of_event =
     (case of_session of Some u \<Rightarrow> Some (snapshot_of u) | None \<Rightarrow> map_option snapshot_of of_event)"

definition usage_delta :: "usage_snap \<Rightarrow> usage_snap \<Rightarrow> usage_snap" where
  "usage_delta snap l = \<lparr>us_input = max 0 (us_input snap - us_input l), us_output = max 0 (us_output snap - us_output l),
     us_cache = max 0 (us_cache snap - us_cache l)\<rparr>"

definition usage_max :: "usage_snap \<Rightarrow> usage_snap \<Rightarrow> usage_snap" where
  "usage_max snap l = \<lparr>us_input = max (us_input snap) (us_input l), us_output = max (us_output snap) (us_output l),
     us_cache = max (us_cache snap) (us_cache l)\<rparr>"

definition usage_add :: "usage_snap \<Rightarrow> usage_snap \<Rightarrow> usage_snap" where
  "usage_add a b = \<lparr>us_input = us_input a + us_input b, us_output = us_output a + us_output b, us_cache = us_cache a + us_cache b\<rparr>"

record usage_world =
  uw_event :: "usage_counts option"
  uw_model :: string
  uw_secret :: bool
  uw_answer :: "nat option"
  uw_written :: bool

record usage_post =
  up_session :: string
  up_agent :: "string option"
  up_model :: string
  up_delta :: usage_snap
  up_accepted :: bool

text \<open>\<open>_post_usage\<close>: the cursor after it, the request it made and whether it counts as posted.\<close>

definition post_usage :: "usage_world \<Rightarrow> agent_entry \<Rightarrow> string \<Rightarrow> usage_counts option \<Rightarrow> usage_cursor
    \<Rightarrow> usage_cursor \<times> usage_post option \<times> bool" where
  "post_usage w entry sid of_session c =
     (if uc_error c \<noteq> None then (c, None, False)
      else case usage_snapshot of_session (uw_event w) of None \<Rightarrow> (c, None, False)
      | Some snap \<Rightarrow>
        let l = cursor_get c sid; delta = usage_delta snap l in
        if delta = no_usage then (c, None, False)
        else if \<not> uw_secret w then (c, None, False)
        else let p = \<lparr>up_session = sid, up_agent = ae_field_id entry, up_model = uw_model w, up_delta = delta,
                up_accepted = (uw_answer w = Some 201)\<rparr>
          in if uw_answer w \<noteq> Some 201 then (c, Some p, False)
             else (cursor_set (uw_written w) sid (usage_max snap l) c, Some p, True))"

section \<open>The tick\<close>

record session_view =
  sv_id :: string
  sv_agent :: "string option"
  sv_env :: "string option"
  sv_archived :: bool
  sv_status :: string
  sv_updated :: "string option"
  sv_usage :: "usage_counts option"

record tick_world =
  tk_client :: bool
  tk_map :: "agent_map option"
  tk_tools :: tool_map
  tk_env :: "string option"
  tk_list :: "string \<Rightarrow> session_view list option"
  tk_session :: "string \<Rightarrow> session_world"
  tk_usage :: "string \<Rightarrow> usage_world"
  tk_cursor :: cursor_file
  tk_int :: "json \<Rightarrow> int option"

record approver =
  ap_sessions :: "(string \<times> session_state) list"
  ap_cursor :: usage_cursor

text \<open>What a tick did: the approvals and usage requests of its sessions, the sessions listed, the agents not listed.\<close>

record tick_acts =
  ta_approvals :: "(string \<times> approval) list"
  ta_posts :: "usage_post list"
  ta_listed :: "string list"
  ta_unlisted :: "string list"

definition no_acts :: tick_acts where
  "no_acts = \<lparr>ta_approvals = [], ta_posts = [], ta_listed = [], ta_unlisted = []\<rparr>"

definition ours :: "tick_world \<Rightarrow> string \<Rightarrow> session_view \<Rightarrow> bool" where
  "ours w cid v = (sv_id v \<noteq> [] \<and> sv_agent v = Some cid \<and> (case tk_env w of None \<Rightarrow> True | Some e \<Rightarrow> sv_env v = Some e)
     \<and> \<not> sv_archived v)"

definition tick_approve :: "tick_world \<Rightarrow> agent_entry \<Rightarrow> session_view \<Rightarrow> approver \<times> tick_acts \<Rightarrow> approver \<times> tick_acts" where
  "tick_approve w entry v sa =
     (case sa of (st, acts) \<Rightarrow>
        if sv_status v \<noteq> ''idle'' then (st, acts)
        else let s0 = (case map_of (ap_sessions st) (sv_id v) of Some s \<Rightarrow> s | None \<Rightarrow> new_session (ae_console entry)) in
          (case approve_session (tk_session w (sv_id v)) entry (tk_tools w) (sv_updated v) s0 of (s1, a) \<Rightarrow>
            (st\<lparr>ap_sessions := AList.update (sv_id v) s1 (ap_sessions st)\<rparr>,
             acts\<lparr>ta_approvals := ta_approvals acts @ [(sv_id v, a)]\<rparr>)))"

definition tick_usage :: "tick_world \<Rightarrow> agent_entry \<Rightarrow> session_view \<Rightarrow> approver \<times> tick_acts \<Rightarrow> approver \<times> tick_acts" where
  "tick_usage w entry v sa =
     (case sa of (st, acts) \<Rightarrow>
        if ae_problem entry \<noteq> None then (st, acts)
        else (case post_usage (tk_usage w (sv_id v)) entry (sv_id v) (sv_usage v) (ap_cursor st) of (c, p, ok) \<Rightarrow>
          (st\<lparr>ap_cursor := c\<rparr>, acts\<lparr>ta_posts := ta_posts acts @ (case p of None \<Rightarrow> [] | Some x \<Rightarrow> [x])\<rparr>)))"

definition tick_session :: "tick_world \<Rightarrow> string \<Rightarrow> agent_entry \<Rightarrow> session_view \<Rightarrow> approver \<times> tick_acts \<Rightarrow> approver \<times> tick_acts" where
  "tick_session w cid entry v sa =
     (if \<not> ours w cid v then sa
      else tick_usage w entry v (tick_approve w entry v
        (fst sa, (snd sa)\<lparr>ta_listed := ta_listed (snd sa) @ [sv_id v]\<rparr>)))"

definition tick_agent :: "tick_world \<Rightarrow> string \<times> agent_entry \<Rightarrow> approver \<times> tick_acts \<Rightarrow> approver \<times> tick_acts" where
  "tick_agent w ce sa =
     (case ce of (cid, entry) \<Rightarrow>
        (case tk_list w cid of None \<Rightarrow> (fst sa, (snd sa)\<lparr>ta_unlisted := ta_unlisted (snd sa) @ [cid]\<rparr>)
         | Some vs \<Rightarrow> fold (tick_session w cid entry) vs sa))"

definition forget_sessions :: "tick_acts \<Rightarrow> approver \<Rightarrow> approver" where
  "forget_sessions acts st = st\<lparr>ap_sessions := filter (\<lambda>(sid, s). sid \<in> set (ta_listed acts)
     \<or> ss_console s \<in> set (ta_unlisted acts)) (ap_sessions st)\<rparr>"

text \<open>A map that raises ends the tick before anything is touched; a cursor file that raises, before any session is.\<close>

definition tick :: "tick_world \<Rightarrow> approver \<Rightarrow> approver \<times> tick_acts" where
  "tick w st =
     (case tk_map w of None \<Rightarrow> (st, no_acts)
      | Some m \<Rightarrow>
        if \<not> tk_client w then (st, no_acts)
        else if load_raises (tk_cursor w) (ap_cursor st)
        then (st\<lparr>ap_cursor := load_cursor (tk_int w) (tk_cursor w) (ap_cursor st)\<rparr>, no_acts)
        else case fold (tick_agent w) (am_entries m)
            (st\<lparr>ap_cursor := load_cursor (tk_int w) (tk_cursor w) (ap_cursor st)\<rparr>, no_acts) of
          (st', acts) \<Rightarrow> (forget_sessions acts st', acts))"

section \<open>The halt\<close>

definition ARCHIVABLE :: "string list" where "ARCHIVABLE = [''idle'', ''terminated'']"

text \<open>A retrieved session can lack a status: None, which is in no set of statuses.\<close>

definition archivable :: "string option \<Rightarrow> bool" where
  "archivable st = (case st of None \<Rightarrow> False | Some x \<Rightarrow> x \<in> set ARCHIVABLE)"

record halt_target =
  ht_session :: string
  ht_interrupted :: bool
  ht_archived :: bool
  ht_final :: "string option"
  ht_failed :: bool

text \<open>The answer of the n-th retrieve (None: it failed; the inner None: a session without a status), the clock read after it, and the other answers.\<close>

record halt_world =
  hw_map :: agent_map
  hw_client :: bool
  hw_list :: "string \<Rightarrow> session_view list option"
  hw_interrupt :: "string \<Rightarrow> bool"
  hw_start :: "string \<Rightarrow> rat"
  hw_status :: "string \<Rightarrow> nat \<Rightarrow> string option option"
  hw_clock :: "string \<Rightarrow> nat \<Rightarrow> rat"
  hw_archive :: "string \<Rightarrow> bool"
  hw_wait :: rat

definition halt_target_of :: "session_view \<Rightarrow> halt_target" where
  "halt_target_of v = \<lparr>ht_session = sv_id v, ht_interrupted = False, ht_archived = False, ht_final = Some (sv_status v), ht_failed = False\<rparr>"

definition halt_targets :: "halt_world \<Rightarrow> string list \<Rightarrow> halt_target list" where
  "halt_targets w cids = concat (map (\<lambda>cid. case hw_list w cid of None \<Rightarrow> []
     | Some vs \<Rightarrow> map halt_target_of (filter (\<lambda>v. sv_id v \<noteq> [] \<and> sv_agent v = Some cid \<and> \<not> sv_archived v
         \<and> sv_status v \<noteq> ''terminated'') vs)) cids)"

definition interrupt_target :: "halt_world \<Rightarrow> halt_target \<Rightarrow> halt_target" where
  "interrupt_target w r = (if hw_interrupt w (ht_session r) then r\<lparr>ht_interrupted := True\<rparr> else r\<lparr>ht_failed := True\<rparr>)"

text \<open>The polling loop from its n-th retrieve, with fuel: the last status, and whether a retrieve failed.\<close>

fun poll_status :: "nat \<Rightarrow> halt_world \<Rightarrow> string \<Rightarrow> nat \<Rightarrow> string option \<Rightarrow> (string option \<times> bool) option" where
  "poll_status 0 w sid n st = None"
| "poll_status (Suc fuel) w sid n st =
     (case hw_status w sid n of None \<Rightarrow> Some (st, True)
      | Some st' \<Rightarrow> if archivable st' \<or> hw_start w sid + hw_wait w \<le> hw_clock w sid n then Some (st', False)
          else poll_status fuel w sid (Suc n) st')"

definition finish_target :: "nat \<Rightarrow> halt_world \<Rightarrow> halt_target \<Rightarrow> halt_target option" where
  "finish_target fuel w r =
     (case poll_status fuel w (ht_session r) 0 (ht_final r) of None \<Rightarrow> None
      | Some (st, True) \<Rightarrow> Some (r\<lparr>ht_final := st, ht_failed := True\<rparr>)
      | Some (st, False) \<Rightarrow>
        let r1 = r\<lparr>ht_final := st\<rparr> in
        if \<not> archivable st then Some r1
        else Some (if hw_archive w (ht_session r) then r1\<lparr>ht_archived := True\<rparr> else r1\<lparr>ht_failed := True\<rparr>))"

fun all_some :: "'a option list \<Rightarrow> 'a list option" where
  "all_some [] = Some []"
| "all_some (x # xs) = (case (x, all_some xs) of (Some a, Some r) \<Rightarrow> Some (a # r) | _ \<Rightarrow> None)"

datatype halt_answer = HaltUnknownAgent | HaltNoClient | HaltReport "halt_target list" "string list"

definition halt :: "nat \<Rightarrow> halt_world \<Rightarrow> string \<Rightarrow> halt_answer option" where
  "halt fuel w fid =
     (let cids = consoles_for (hw_map w) fid in
      if cids = [] then Some HaltUnknownAgent
      else if \<not> hw_client w then Some HaltNoClient
      else case all_some (map (finish_target fuel w) (map (interrupt_target w) (halt_targets w cids))) of
        None \<Rightarrow> None | Some rs \<Rightarrow> Some (HaltReport rs (filter (\<lambda>cid. hw_list w cid = None) cids)))"

end
