(* ===== verification/Approver_Safety.thy ===== *)
theory Approver_Safety
  imports Approver
begin

text \<open>
  What the approver guarantees: an allow that leaves it is the sentinel's own ALLOW for that event and action; an ask
  that was settled is never sent again; what the governor accepted of a session's usage is what the cursor moved; and
  a halt ends and archives only sessions that had stopped.
\<close>

section \<open>What the state of a session keeps\<close>

definition settled_ids :: "session_state \<Rightarrow> string set" where
  "settled_ids s = ss_answered s \<union> ss_stale s"

definition session_ok :: "session_state \<Rightarrow> bool" where
  "session_ok s = (distinct (map fst (ss_asks s)) \<and> fst ` set (ss_asks s) \<inter> settled_ids s = {}
     \<and> fst ` set (ss_asks s) \<subseteq> ss_seen s \<and> fst ` set (ss_customs s) \<subseteq> ss_seen s
     \<and> fst ` set (ss_asks s) \<inter> fst ` set (ss_customs s) = {}
     \<and> list_all (\<lambda>(i, e). ev_id e = i \<and> ev_ask e \<and> ev_type e \<in> set ASK_TYPES) (ss_asks s))"

lemma keys_update: "fst ` set (AList.update k v al) = insert k (fst ` set al)"
  using dom_update [of k v al] by (simp add: dom_map_of_conv_image_fst [symmetric] update_conv')

lemma keys_delete: "fst ` set (AList.delete k al) = fst ` set al - {k}"
  by (induction al) auto

lemma in_delete: "x \<in> set (AList.delete k al) \<Longrightarrow> x \<in> set al"
  by (induction al) (auto split: if_splits)

lemma in_update: "x \<in> set (AList.update k v al) \<Longrightarrow> x \<in> set al \<or> x = (k, v)"
  by (induction al) (auto split: if_splits)

lemma ok_new: "session_ok (new_session cid)"
  by (simp add: session_ok_def new_session_def)

text \<open>Settled ids stay settled, and what is waiting is never settled.\<close>

definition moves :: "session_state \<Rightarrow> session_state \<Rightarrow> bool" where
  "moves s t = (session_ok t \<and> settled_ids s \<subseteq> settled_ids t)"

lemma moves_trans: "moves s t \<Longrightarrow> moves t u \<Longrightarrow> moves s u"
  by (auto simp: moves_def)

lemma moves_ok: "moves s t \<Longrightarrow> session_ok t"
  by (simp add: moves_def)

lemma ok_cong: "session_ok s \<Longrightarrow> ss_asks t = ss_asks s \<Longrightarrow> ss_answered t = ss_answered s \<Longrightarrow> ss_stale t = ss_stale s
    \<Longrightarrow> ss_customs t = ss_customs s \<Longrightarrow> ss_seen s \<subseteq> ss_seen t \<Longrightarrow> moves s t"
  by (auto simp: session_ok_def moves_def settled_ids_def)

text \<open>An ask leaves the waiting ones as settled.\<close>

lemma session_okD:
  assumes "session_ok s"
  shows "distinct (map fst (ss_asks s))" "fst ` set (ss_asks s) \<inter> settled_ids s = {}"
    "fst ` set (ss_asks s) \<subseteq> ss_seen s" "fst ` set (ss_customs s) \<subseteq> ss_seen s"
    "fst ` set (ss_asks s) \<inter> fst ` set (ss_customs s) = {}"
    "list_all (\<lambda>(i, e). ev_id e = i \<and> ev_ask e \<and> ev_type e \<in> set ASK_TYPES) (ss_asks s)"
  using assms unfolding session_ok_def by blast+

lemma ok_settle:
  assumes "session_ok s" "ss_asks t = AList.delete i (ss_asks s)" "settled_ids t = insert i (settled_ids s)"
    and "fst ` set (ss_customs t) \<subseteq> fst ` set (ss_customs s)" "ss_seen t = ss_seen s"
  shows "moves s t"
proof -
  note old = session_okD [OF assms(1)]
  have all: "list_all (\<lambda>(i, e). ev_id e = i \<and> ev_ask e \<and> ev_type e \<in> set ASK_TYPES) (ss_asks t)"
    using old(6) unfolding assms(2) list_all_iff by (blast dest: in_delete)
  have keys: "fst ` set (ss_asks t) = fst ` set (ss_asks s) - {i}" unfolding assms(2) by (rule keys_delete)
  have dist: "distinct (map fst (ss_asks t))" unfolding assms(2) by (rule distinct_delete [OF old(1)])
  have 1: "fst ` set (ss_asks t) \<inter> settled_ids t = {}" using old(2) unfolding keys assms(3) by blast
  have 2: "fst ` set (ss_asks t) \<subseteq> ss_seen t" using old(3) unfolding keys assms(5) by blast
  have 3: "fst ` set (ss_customs t) \<subseteq> ss_seen t" using old(4) assms(4) unfolding assms(5) by blast
  have 4: "fst ` set (ss_asks t) \<inter> fst ` set (ss_customs t) = {}" using old(5) assms(4) unfolding keys by blast
  have "session_ok t" unfolding session_ok_def by (intro conjI) (rule dist 1 2 3 4 all)+
  then show ?thesis unfolding moves_def assms(3) by blast
qed

lemma take_event_ok:
  assumes "session_ok s" "ev_id e \<notin> ss_seen s"
  shows "moves s (take_event e (s\<lparr>ss_seen := insert (ev_id e) (ss_seen s), ss_seq := n\<rparr>))"
proof -
  let ?s = "s\<lparr>ss_seen := insert (ev_id e) (ss_seen s), ss_seq := n\<rparr>"
  have s: "session_ok ?s" "settled_ids ?s = settled_ids s" using assms by (auto simp: session_ok_def settled_ids_def)
  have new: "ev_id e \<notin> fst ` set (ss_asks s)" "ev_id e \<notin> fst ` set (ss_customs s)"
    using assms by (auto simp: session_ok_def)
  have "moves ?s (take_event e ?s)"
  proof (cases "ev_type e \<in> set ASK_TYPES")
    case True
    then show ?thesis
      using assms new
      by (auto simp: take_event_def moves_def session_ok_def settled_ids_def keys_update distinct_update list_all_iff
          dest!: in_update)
  next
    case False
    have conf: "moves ?s (?s\<lparr>ss_answered := insert t (ss_answered ?s), ss_asks := AList.delete t (ss_asks ?s),
        ss_possibly := p\<rparr>)" for t p
      by (rule ok_settle [OF s(1), where i = t]) (auto simp: settled_ids_def)
    have custom: "moves ?s (?s\<lparr>ss_customs := AList.update (ev_id e) e (ss_customs ?s), ss_ask_seq := q\<rparr>)" for q
      using assms new by (auto simp: moves_def session_ok_def settled_ids_def keys_update)
    have result: "moves ?s (?s\<lparr>ss_customs := pop_opt k (ss_customs ?s)\<rparr>)" for k
      using s(1) by (auto simp: moves_def session_ok_def settled_ids_def pop_opt_def keys_delete split: option.splits)
    have rest: "moves ?s t" if "ss_asks t = ss_asks ?s" "ss_answered t = ss_answered ?s" "ss_stale t = ss_stale ?s"
      "ss_customs t = ss_customs ?s" "ss_seen t = ss_seen ?s" for t
      by (rule ok_cong [OF s(1)]) (use that in simp_all)
    show ?thesis
      unfolding take_event_def using False conf custom result
      by (auto intro: rest split: option.splits)
  qed
  then show ?thesis using s(2) by (simp add: moves_def)
qed

lemma read_event_ok: "session_ok s \<Longrightarrow> moves s (read_event wall e s)"
proof (cases "ev_id e = [] \<or> ev_id e \<in> ss_seen s")
  case False
  assume ok: "session_ok s"
  let ?t = "take_event e (s\<lparr>ss_seen := insert (ev_id e) (ss_seen s), ss_seq := ss_seq s + 1\<rparr>)"
  have t: "moves s ?t" using take_event_ok [OF ok] False by blast
  have "moves ?t (?t\<lparr>ss_cursor := c\<rparr>)" for c
    by (rule ok_cong [OF moves_ok [OF t]]) simp_all
  with False t show ?thesis by (auto simp: read_event_def Let_def intro: moves_trans)
qed (auto simp: read_event_def moves_def)

lemma moves_fold:
  assumes "\<And>x s. session_ok s \<Longrightarrow> x \<in> set xs \<Longrightarrow> moves s (f x s)" "session_ok s"
  shows "moves s (fold f xs s)"
  using assms
proof (induction xs arbitrary: s)
  case (Cons x xs)
  have 1: "moves s (f x s)" by (rule Cons.prems(1)) (use Cons.prems(2) in simp_all)
  have "moves (f x s) (fold f xs (f x s))"
    by (rule Cons.IH) (use Cons.prems(1) moves_ok [OF 1] in simp_all)
  with 1 show ?case by (auto intro: moves_trans)
qed (simp add: moves_def)

lemma read_events_ok: "session_ok s \<Longrightarrow> moves s (read_events wall es s)"
  unfolding read_events_def by (rule moves_fold) (auto intro: read_event_ok)

lemma drop_ask_ok: "session_ok s \<Longrightarrow> moves s (drop_ask i s)"
  by (rule ok_settle [where i = i]) (auto simp: drop_ask_def settled_ids_def)

lemma drop_customs_ok:
  "session_ok s \<Longrightarrow> set ids \<inter> fst ` set (ss_asks s) = {} \<Longrightarrow> moves s (fold drop_custom ids s)"
proof (induction ids arbitrary: s)
  case (Cons i ids)
  have "moves s (drop_custom i s)"
    using Cons.prems by (auto simp: moves_def session_ok_def settled_ids_def drop_custom_def keys_delete)
  moreover have "moves (drop_custom i s) (fold drop_custom ids (drop_custom i s))"
    by (rule Cons.IH) (use Cons.prems calculation in \<open>auto simp: drop_custom_def moves_def\<close>)
  ultimately show ?case by (auto intro: moves_trans)
qed (simp add: moves_def)

lemma drop_superseded_ok:
  assumes "session_ok s"
  shows "moves s (drop_superseded s)"
proof -
  let ?s1 = "fold drop_ask (superseded s (ss_asks s)) s"
  have 1: "moves s ?s1" by (rule moves_fold) (auto intro: drop_ask_ok assms)
  have "set (superseded ?s1 (ss_customs ?s1)) \<inter> fst ` set (ss_asks ?s1) = {}"
    using moves_ok [OF 1] by (auto simp: superseded_def session_ok_def)
  with drop_customs_ok [OF moves_ok [OF 1]] have "moves ?s1 (drop_superseded s)"
    by (simp add: drop_superseded_def Let_def)
  with 1 show ?thesis by (rule moves_trans)
qed

section \<open>Settling\<close>

definition settled :: "decision_record \<Rightarrow> bool" where
  "settled r = (dc_sent r \<or> dc_rejected r)"

lemma settle_ok:
  assumes "settle (c, r) out s = (t, r')" "session_ok s" "dc_event r = cf_event c"
  shows "moves s t" "dc_event r' = cf_event c" "settled r' \<Longrightarrow> cf_event c \<in> settled_ids t"
proof -
  have "settle (c, r) out s = (t, r') \<Longrightarrow> dc_event r' = cf_event c \<and> (settled r' \<longrightarrow> cf_event c \<in> settled_ids t)"
    using assms(3)
    by (auto simp: settle_def settled_def settled_ids_def Let_def remember_possible_def split: send_outcome.splits if_splits)
  with assms(1) show "dc_event r' = cf_event c" "settled r' \<Longrightarrow> cf_event c \<in> settled_ids t" by auto
  show "moves s t"
  proof (cases "out = Retry")
    case True
    then have "t = remember_possible (cf_event c) (result_text (cf_allow c)) s"
      using assms(1) by (auto simp: settle_def Let_def)
    with assms(2) show ?thesis by (auto simp: remember_possible_def Let_def intro: ok_cong)
  next
    case False
    then have "ss_asks t = AList.delete (cf_event c) (ss_asks s)" "settled_ids t = insert (cf_event c) (settled_ids s)"
      "ss_customs t = ss_customs s" "ss_seen t = ss_seen s"
      using assms(1) by (auto simp: settle_def settled_ids_def Let_def split: send_outcome.splits if_splits)
    with assms(2) show ?thesis by (intro ok_settle [where i = "cf_event c"]) auto
  qed
qed

lemma settle_all_ok:
  assumes "settle_all ps outs s = (t, rs)" "session_ok s" "list_all (\<lambda>(c, r). dc_event r = cf_event c) ps"
  shows "moves s t \<and> (\<forall>r \<in> set rs. dc_event r \<in> (cf_event \<circ> fst) ` set ps \<and> (settled r \<longrightarrow> dc_event r \<in> settled_ids t))"
  using assms
proof (induction ps outs s arbitrary: t rs rule: settle_all.induct)
  case (1 p ps out outs s)
  obtain c r where p: "p = (c, r)" by (cases p)
  obtain s1 r1 where s1: "settle (c, r) out s = (s1, r1)" by (cases "settle (c, r) out s")
  obtain s2 rs2 where s2: "settle_all ps outs s1 = (s2, rs2)" by (cases "settle_all ps outs s1")
  have eq: "t = s2" "rs = r1 # rs2" using 1(2) p s1 s2 by auto
  have cr: "dc_event r = cf_event c" using 1(4) p by simp
  note one = settle_ok [OF s1 1(3) cr]
  have "moves s1 s2 \<and> (\<forall>r \<in> set rs2. dc_event r \<in> (cf_event \<circ> fst) ` set ps \<and> (settled r \<longrightarrow> dc_event r \<in> settled_ids s2))"
    by (rule 1(1) [where x = s1 and y = r1]) (use p s1 s2 one moves_ok 1(4) in auto)
  with one p eq show ?case by (auto simp: moves_def)
qed (auto simp: moves_def)

lemma send_within: "send_confirmations a cs = (sends, outs) \<Longrightarrow> batch \<in> set sends \<Longrightarrow> set batch \<subseteq> set cs"
  by (auto simp: send_confirmations_def split: option.splits if_splits)

lemma plan_event [simp]: "cf_event (fst (plan_answer w entry tm s i)) = i" "dc_event (snd (plan_answer w entry tm s i)) = i"
  by (simp_all add: plan_answer_def Let_def confirmation_of_def record_of_def)

lemma eligible_waiting: "i \<in> set (eligible_asks s) \<Longrightarrow> i \<in> fst ` set (ss_asks s)"
  by (auto simp: eligible_asks_def split: option.splits)

text \<open>What an approval of a session did, in one place: the batches hold waiting asks, and what it settled is settled.\<close>

lemma answer_asks_ok:
  assumes "answer_asks w entry tm ids s = (t, a)" "session_ok s"
  shows "moves s t" "batch \<in> set (ap_sends a) \<Longrightarrow> c \<in> set batch \<Longrightarrow> c \<in> fst ` plan_answer w entry tm s ` set ids"
    "r \<in> set (ap_decisions a) \<Longrightarrow> settled r \<Longrightarrow> dc_event r \<in> settled_ids t"
proof -
  let ?planned = "map (plan_answer w entry tm s) ids"
  obtain sends outs where se: "send_confirmations (sw_send w) (map fst ?planned) = (sends, outs)"
    by (cases "send_confirmations (sw_send w) (map fst ?planned)")
  obtain u rs where st: "settle_all ?planned outs s = (u, rs)" by (cases "settle_all ?planned outs s")
  have eq: "t = u" "ap_sends a = sends" "ap_decisions a = rs"
    using assms(1) se st by (auto simp: answer_asks_def Let_def)
  have "list_all (\<lambda>(c, r). dc_event r = cf_event c) ?planned"
    by (simp add: list_all_iff split_beta)
  note all = settle_all_ok [OF st assms(2) this]
  show "moves s t" using all eq by blast
  show "r \<in> set (ap_decisions a) \<Longrightarrow> settled r \<Longrightarrow> dc_event r \<in> settled_ids t" using all eq by blast
  show "batch \<in> set (ap_sends a) \<Longrightarrow> c \<in> set batch \<Longrightarrow> c \<in> fst ` plan_answer w entry tm s ` set ids"
    using send_within [OF se] eq by (auto simp: image_image)
qed


text \<open>An ask that waits was heard: it is an event the session's listing answered, under its own id.\<close>

definition heard :: "session_world \<Rightarrow> (string \<times> sdk_event) set" where
  "heard w = {(ev_id e, e) |e. \<exists>cur. e \<in> set (fst (sw_events w cur))}"

lemma asks_delete: "set (AList.delete k al) \<subseteq> set al"
  using in_delete by fast

lemma take_event_asks: "set (ss_asks (take_event e s)) \<subseteq> insert (ev_id e, e) (set (ss_asks s))"
  by (auto simp: take_event_def split: option.split dest!: in_update in_delete)

lemma read_event_asks: "set (ss_asks (read_event wall e s)) \<subseteq> insert (ev_id e, e) (set (ss_asks s))"
  using take_event_asks [of e "s\<lparr>ss_seen := insert (ev_id e) (ss_seen s), ss_seq := ss_seq s + 1\<rparr>"]
  by (auto simp: read_event_def Let_def)

lemma read_events_asks: "set (ss_asks (read_events wall es s)) \<subseteq> set (ss_asks s) \<union> (\<lambda>e. (ev_id e, e)) ` set es"
  unfolding read_events_def
proof (induction es arbitrary: s)
  case (Cons e es)
  show ?case
    using Cons [of "read_event (wall (ev_id e)) e s"] read_event_asks [of "wall (ev_id e)" e s] by auto
qed simp

lemma fold_asks: "(\<And>x s. set (ss_asks (f x s)) \<subseteq> set (ss_asks s)) \<Longrightarrow> set (ss_asks (fold f xs s)) \<subseteq> set (ss_asks s)"
  by (induction xs arbitrary: s) (auto, blast)

lemma drop_superseded_asks: "set (ss_asks (drop_superseded s)) \<subseteq> set (ss_asks s)"
proof -
  have "set (ss_asks (fold drop_ask xs s)) \<subseteq> set (ss_asks s)" for xs and s :: session_state
    by (rule fold_asks) (simp add: drop_ask_def asks_delete)
  moreover have "set (ss_asks (fold drop_custom xs s)) \<subseteq> set (ss_asks s)" for xs and s :: session_state
    by (rule fold_asks) (simp add: drop_custom_def)
  ultimately show ?thesis unfolding drop_superseded_def Let_def by blast
qed

lemma settle_asks: "settle p out s = (t, r) \<Longrightarrow> set (ss_asks t) \<subseteq> set (ss_asks s)"
  by (auto simp: settle_def Let_def remember_possible_def split: prod.splits send_outcome.splits if_splits dest!: in_delete)

lemma settle_all_asks: "settle_all ps outs s = (t, rs) \<Longrightarrow> set (ss_asks t) \<subseteq> set (ss_asks s)"
proof (induction ps outs s arbitrary: t rs rule: settle_all.induct)
  case (1 p ps out outs s)
  obtain s1 r1 where s1: "settle p out s = (s1, r1)" by (cases "settle p out s")
  obtain s2 rs2 where s2: "settle_all ps outs s1 = (s2, rs2)" by (cases "settle_all ps outs s1")
  have "set (ss_asks s2) \<subseteq> set (ss_asks s1)" by (rule 1(1) [OF s1 [symmetric] s2])
  with settle_asks [OF s1] 1(2) s1 s2 show ?case by auto
qed auto

lemma refresh_asks:
  assumes "refresh w u s = (t, b)"
  shows "set (ss_asks t) \<subseteq> set (ss_asks s) \<union> heard w"
proof -
  obtain es f where ev: "sw_events w (ss_cursor s) = (es, f)" by (cases "sw_events w (ss_cursor s)")
  have "(\<lambda>e. (ev_id e, e)) ` set es \<subseteq> heard w"
    using ev unfolding heard_def by (force intro!: exI [of _ "ss_cursor s"])
  with read_events_asks [of "sw_wall w" es s]
  have "set (ss_asks (read_events (sw_wall w) es s)) \<subseteq> set (ss_asks s) \<union> heard w" by blast
  with assms ev show ?thesis by (auto simp: refresh_def Let_def split: if_splits)
qed

lemma approve_session_asks:
  assumes "approve_session w entry tm u s = (t, a)"
  shows "set (ss_asks t) \<subseteq> set (ss_asks s) \<union> heard w"
proof -
  obtain s1 b where r: "refresh w u s = (s1, b)" by (cases "refresh w u s")
  let ?s2 = "if ss_stop s1 = Some ''requires_action'' \<and> ss_stop_ids s1 \<noteq> None then drop_superseded s1 else s1"
  have s2: "set (ss_asks ?s2) \<subseteq> set (ss_asks s1)" using drop_superseded_asks by simp
  consider "t = s1 \<or> t = ?s2" | "answer_asks w entry tm (eligible_asks ?s2) ?s2 = (t, a)"
    using assms r unfolding approve_session_def Let_def by (cases b) (simp_all split: if_split_asm)
  then have "set (ss_asks t) \<subseteq> set (ss_asks s1)"
  proof cases
    case 2
    then have "set (ss_asks t) \<subseteq> set (ss_asks ?s2)"
      unfolding answer_asks_def Let_def by (auto split: prod.splits dest!: settle_all_asks)
    with s2 show ?thesis by blast
  qed (use s2 in auto)
  with refresh_asks [OF r] show ?thesis by blast
qed

text \<open>The same for an approval: what it sends answers asks that wait, each with the verdict for it.\<close>

definition answers_waiting :: "(string \<times> sdk_event) set \<Rightarrow> session_world \<Rightarrow> agent_entry \<Rightarrow> tool_map \<Rightarrow> session_state
    \<Rightarrow> confirmation \<Rightarrow> bool" where
  "answers_waiting K w entry tm s c = (\<exists>e. (cf_event c, e) \<in> K \<and> ev_id e = cf_event c \<and> ev_ask e \<and> ev_type e \<in> set ASK_TYPES \<and> cf_event c \<notin> settled_ids s
     \<and> c = confirmation_of (cf_event c) (fst (verdict_for w entry tm (cf_event c) e)))"

lemma refresh_ok: "refresh w u s = (t, b) \<Longrightarrow> session_ok s \<Longrightarrow> moves s t"
proof -
  assume r: "refresh w u s = (t, b)" and ok: "session_ok s"
  obtain es f where ev: "sw_events w (ss_cursor s) = (es, f)" by (cases "sw_events w (ss_cursor s)")
  let ?s1 = "read_events (sw_wall w) es s"
  have 1: "moves s ?s1" by (rule read_events_ok [OF ok])
  have "moves ?s1 (?s1\<lparr>ss_updated := u, ss_last_read := x\<rparr>)" for x
    by (rule ok_cong [OF moves_ok [OF 1]]) simp_all
  with 1 have 2: "moves s (?s1\<lparr>ss_updated := u, ss_last_read := x\<rparr>)" for x by (blast intro: moves_trans)
  have "moves s s" using ok by (simp add: moves_def)
  with r ev 1 2 show ?thesis by (auto simp: refresh_def Let_def split: if_splits)
qed

lemma planned_waiting:
  assumes "session_ok s" "i \<in> fst ` set (ss_asks s)"
  shows "answers_waiting (set (ss_asks s)) w entry tm s (fst (plan_answer w entry tm s i))"
proof -
  note ok = session_okD [OF assms(1)]
  obtain e where e: "map_of (ss_asks s) i = Some e"
    using assms(2) by (cases "map_of (ss_asks s) i") (auto simp: map_of_eq_None_iff)
  then have "ev_id e = i" "ev_ask e" "ev_type e \<in> set ASK_TYPES" using ok(6) by (auto simp: list_all_iff dest!: map_of_SomeD)
  moreover have "i \<notin> settled_ids s" using ok(2) assms(2) by blast
  ultimately show ?thesis
    unfolding answers_waiting_def plan_event using map_of_SomeD [OF e]
    by (intro exI [of _ e]) (simp add: plan_answer_def Let_def e)
qed

lemma approve_session_ok:
  assumes "approve_session w entry tm u s = (t, a)" "session_ok s" "set (ss_asks s) \<subseteq> K" "heard w \<subseteq> K"
  shows "moves s t" "batch \<in> set (ap_sends a) \<Longrightarrow> c \<in> set batch \<Longrightarrow> answers_waiting K w entry tm s c"
    "r \<in> set (ap_decisions a) \<Longrightarrow> settled r \<Longrightarrow> dc_event r \<in> settled_ids t"
proof -
  obtain s1 b where r: "refresh w u s = (s1, b)" by (cases "refresh w u s")
  note s1 = refresh_ok [OF r assms(2)]
  let ?s2 = "if ss_stop s1 = Some ''requires_action'' \<and> ss_stop_ids s1 \<noteq> None then drop_superseded s1 else s1"
  have "moves s1 ?s2" using drop_superseded_ok [OF moves_ok [OF s1]] moves_ok [OF s1] by (simp add: moves_def)
  then have s2: "moves s ?s2" by (rule moves_trans [OF s1])
  consider (idle) "a = nothing_done" "t = s1 \<or> t = ?s2"
    | (ans) "answer_asks w entry tm (eligible_asks ?s2) ?s2 = (t, a)"
    using assms(1) r unfolding approve_session_def Let_def by (cases b) (simp_all split: if_split_asm)
  then have "moves s t \<and> (\<forall>batch c. batch \<in> set (ap_sends a) \<longrightarrow> c \<in> set batch \<longrightarrow> answers_waiting K w entry tm s c)
     \<and> (\<forall>r. r \<in> set (ap_decisions a) \<longrightarrow> settled r \<longrightarrow> dc_event r \<in> settled_ids t)"
  proof cases
    case idle
    then show ?thesis using s1 s2 by (auto simp: nothing_done_def)
  next
    case ans
    note ok = answer_asks_ok [OF ans moves_ok [OF s2]]
    have "answers_waiting K w entry tm s c" if b: "batch \<in> set (ap_sends a)" "c \<in> set batch" for batch c
    proof -
      obtain i where i: "i \<in> set (eligible_asks ?s2)" "c = fst (plan_answer w entry tm ?s2 i)"
        using ok(2) [OF b] by blast
      have "answers_waiting (set (ss_asks ?s2)) w entry tm ?s2 c"
        unfolding i(2) by (rule planned_waiting [OF moves_ok [OF s2] eligible_waiting [OF i(1)]])
      moreover have "set (ss_asks ?s2) \<subseteq> K"
        using refresh_asks [OF r] drop_superseded_asks [of s1] assms(3,4) by auto
      ultimately show ?thesis using s2 unfolding answers_waiting_def moves_def by blast
    qed
    with ok(1,3) s2 show ?thesis by (blast intro: moves_trans)
  qed
  then show "moves s t" "batch \<in> set (ap_sends a) \<Longrightarrow> c \<in> set batch \<Longrightarrow> answers_waiting K w entry tm s c"
    "r \<in> set (ap_decisions a) \<Longrightarrow> settled r \<Longrightarrow> dc_event r \<in> settled_ids t" by blast+
qed

lemma allowed_by_check:
  assumes "av_allow (check_with str ans)"
  obtains kvs where "ans = CheckJson (JObj kvs)" "map_of kvs ''decision'' = Some (JStr ''ALLOW'')"
  using assms by (auto simp: check_with_def deny_def split: check_answer.splits json.splits if_split_asm)

lemma allowed_by_verdict:
  assumes "av_allow (fst (verdict_for w entry tm i e))"
  shows "ae_problem entry = None \<and> tm_error tm = None \<and> ev_name e \<noteq> []
    \<and> (\<exists>kvs. sw_check w i (resolve_action (ev_name e) entry tm) = CheckJson (JObj kvs)
         \<and> map_of kvs ''decision'' = Some (JStr ''ALLOW''))"
  using assms by (auto simp: verdict_for_def Let_def deny_def split: if_split_asm elim!: allowed_by_check)

lemma confirmation_allow [simp]: "cf_allow (confirmation_of i v) = av_allow v"
  by (simp add: confirmation_of_def)


section \<open>The tick\<close>

definition approver_ok :: "approver \<Rightarrow> bool" where
  "approver_ok st = list_all (session_ok \<circ> snd) (ap_sessions st)"

definition approvals_ok :: "(string \<Rightarrow> (string \<times> sdk_event) set) \<Rightarrow> tick_world \<Rightarrow> agent_map \<Rightarrow> tick_acts \<Rightarrow> bool" where
  "approvals_ok K w m acts = (\<forall>(sid, a) \<in> set (ta_approvals acts). \<exists>(cid, entry) \<in> set (am_entries m). \<exists>vs v s.
     tk_list w cid = Some vs \<and> v \<in> set vs \<and> ours w cid v \<and> sv_status v = ''idle'' \<and> sv_id v = sid
     \<and> (\<forall>batch \<in> set (ap_sends a). \<forall>c \<in> set batch. answers_waiting (K sid) (tk_session w sid) entry (tk_tools w) s c))"

text \<open>The asks each session waits for, and the events a tick can hear, are among those of \<open>K\<close>.\<close>

definition knows :: "(string \<Rightarrow> (string \<times> sdk_event) set) \<Rightarrow> approver \<Rightarrow> bool" where
  "knows K st = (\<forall>(sid, s) \<in> set (ap_sessions st). set (ss_asks s) \<subseteq> K sid)"

definition hears :: "(string \<Rightarrow> (string \<times> sdk_event) set) \<Rightarrow> tick_world \<Rightarrow> bool" where
  "hears K w = (\<forall>sid. heard (tk_session w sid) \<subseteq> K sid)"

definition tick_fine :: "(string \<Rightarrow> (string \<times> sdk_event) set) \<Rightarrow> tick_world \<Rightarrow> agent_map \<Rightarrow> approver \<times> tick_acts \<Rightarrow> bool" where
  "tick_fine K w m sa = (approver_ok (fst sa) \<and> knows K (fst sa) \<and> approvals_ok K w m (snd sa))"

lemma tick_approve_fine:
  assumes "tick_fine K w m sa" "(cid, entry) \<in> set (am_entries m)" "tk_list w cid = Some vs" "v \<in> set vs" "ours w cid v"
    and hears: "hears K w"
  shows "tick_fine K w m (tick_approve w entry v sa)"
proof (cases "sv_status v = ''idle''")
  case True
  obtain st acts where sa: "sa = (st, acts)" by (cases sa)
  let ?s0 = "case map_of (ap_sessions st) (sv_id v) of Some s \<Rightarrow> s | None \<Rightarrow> new_session (ae_console entry)"
  obtain s1 a where ap: "approve_session (tk_session w (sv_id v)) entry (tk_tools w) (sv_updated v) ?s0 = (s1, a)"
    by (cases "approve_session (tk_session w (sv_id v)) entry (tk_tools w) (sv_updated v) ?s0")
  have all: "session_ok s" if "(k, s) \<in> set (ap_sessions st)" for k s
    using assms(1) that sa by (auto simp: tick_fine_def approver_ok_def list_all_iff)
  have s0: "session_ok ?s0" by (auto split: option.split intro: ok_new all dest: map_of_SomeD)
  have known: "set (ss_asks ?s0) \<subseteq> K (sv_id v)"
    using assms(1) sa by (auto simp: tick_fine_def knows_def new_session_def split: option.splits dest!: map_of_SomeD)
  have h: "heard (tk_session w (sv_id v)) \<subseteq> K (sv_id v)" using hears by (simp add: hears_def)
  note ok = approve_session_ok [OF ap s0 known h]
  have "knows K (st\<lparr>ap_sessions := AList.update (sv_id v) s1 (ap_sessions st)\<rparr>)"
    using assms(1) sa approve_session_asks [OF ap] known h
    by (fastforce simp: tick_fine_def knows_def dest!: in_update)
  moreover
  have "approver_ok (st\<lparr>ap_sessions := AList.update (sv_id v) s1 (ap_sessions st)\<rparr>)"
    unfolding approver_ok_def list_all_iff
  proof
    fix x assume "x \<in> set (ap_sessions (st\<lparr>ap_sessions := AList.update (sv_id v) s1 (ap_sessions st)\<rparr>))"
    then have "x \<in> set (ap_sessions st) \<or> x = (sv_id v, s1)" by (simp add: in_update)
    then show "(session_ok \<circ> snd) x" using moves_ok [OF ok(1)] all by (cases x) auto
  qed
  moreover have "approvals_ok K w m (acts\<lparr>ta_approvals := ta_approvals acts @ [(sv_id v, a)]\<rparr>)"
    unfolding approvals_ok_def
  proof (rule ballI)
    fix x assume "x \<in> set (ta_approvals (acts\<lparr>ta_approvals := ta_approvals acts @ [(sv_id v, a)]\<rparr>))"
    then consider "x \<in> set (ta_approvals acts)" | "x = (sv_id v, a)" by auto
    then show "case x of (sid, a) \<Rightarrow> \<exists>(cid, entry) \<in> set (am_entries m). \<exists>vs v s.
     tk_list w cid = Some vs \<and> v \<in> set vs \<and> ours w cid v \<and> sv_status v = ''idle'' \<and> sv_id v = sid
     \<and> (\<forall>batch \<in> set (ap_sends a). \<forall>c \<in> set batch. answers_waiting (K sid) (tk_session w sid) entry (tk_tools w) s c)"
    proof cases
      case 1
      then show ?thesis using assms(1) sa unfolding tick_fine_def approvals_ok_def by simp
    next
      case 2
      show ?thesis unfolding 2 prod.case
        by (rule bexI [OF _ assms(2)], unfold prod.case, rule exI [of _ vs], rule exI [of _ v], rule exI [of _ ?s0])
          (use assms True ok(2) in auto)
    qed
  qed
  moreover have "tick_approve w entry v sa = (st\<lparr>ap_sessions := AList.update (sv_id v) s1 (ap_sessions st)\<rparr>,
      acts\<lparr>ta_approvals := ta_approvals acts @ [(sv_id v, a)]\<rparr>)"
    unfolding tick_approve_def sa prod.case Let_def ap using True by simp
  ultimately show ?thesis by (simp add: tick_fine_def)
qed (use assms(1) in \<open>simp add: tick_approve_def split_beta\<close>)

lemma tick_usage_fine: "tick_fine K w m sa \<Longrightarrow> tick_fine K w m (tick_usage w entry v sa)"
  by (auto simp: tick_usage_def tick_fine_def approver_ok_def knows_def approvals_ok_def split: prod.splits)

lemma tick_session_fine:
  assumes "tick_fine K w m sa" "(cid, entry) \<in> set (am_entries m)" "tk_list w cid = Some vs" "v \<in> set vs"
    and "hears K w"
  shows "tick_fine K w m (tick_session w cid entry v sa)"
proof -
  have "tick_fine K w m (fst sa, (snd sa)\<lparr>ta_listed := x\<rparr>)" for x
    using assms(1) by (simp add: tick_fine_def approvals_ok_def)
  then show ?thesis using assms unfolding tick_session_def by (auto intro: tick_usage_fine tick_approve_fine)
qed

lemma fold_keeps: "P s \<Longrightarrow> (\<And>x s. x \<in> set xs \<Longrightarrow> P s \<Longrightarrow> P (f x s)) \<Longrightarrow> P (fold f xs s)"
  by (induction xs arbitrary: s) auto

lemma tick_agent_fine:
  assumes "tick_fine K w m sa" "ce \<in> set (am_entries m)" "hears K w"
  shows "tick_fine K w m (tick_agent w ce sa)"
proof -
  obtain cid entry where ce: "ce = (cid, entry)" by (cases ce)
  show ?thesis
  proof (cases "tk_list w cid")
    case None
    then show ?thesis using assms(1) by (simp add: tick_agent_def ce tick_fine_def approvals_ok_def)
  next
    case (Some vs)
    have "tick_fine K w m (fold (tick_session w cid entry) vs sa)"
      by (rule fold_keeps [where P = "tick_fine K w m", OF assms(1)])
        (rule tick_session_fine, use assms(2,3) Some ce in auto)
    with Some show ?thesis by (simp add: tick_agent_def ce)
  qed
qed

lemma tick_ok:
  assumes "tick w st = (st', acts)" "approver_ok st" "knows K st" "hears K w"
  shows "approver_ok st' \<and> knows K st' \<and> (ta_approvals acts \<noteq> [] \<longrightarrow> tk_map w \<noteq> None)
    \<and> (\<forall>m. tk_map w = Some m \<longrightarrow> approvals_ok K w m acts)"
proof -
  have none: "approvals_ok K w m no_acts" for m by (simp add: approvals_ok_def no_acts_def)
  consider "tk_map w = None \<or> \<not> tk_client w \<or> load_raises (tk_cursor w) (ap_cursor st)"
    | m where "tk_map w = Some m" "tk_client w" "\<not> load_raises (tk_cursor w) (ap_cursor st)" by (cases "tk_map w") auto
  then show ?thesis
  proof cases
    case 1
    then show ?thesis using assms none by (fastforce simp: tick_def no_acts_def approver_ok_def knows_def split: option.splits if_split_asm)
  next
    case 2
    let ?st = "st\<lparr>ap_cursor := load_cursor (tk_int w) (tk_cursor w) (ap_cursor st)\<rparr>"
    obtain s1 a1 where f: "fold (tick_agent w) (am_entries m) (?st, no_acts) = (s1, a1)"
      by (cases "fold (tick_agent w) (am_entries m) (?st, no_acts)")
    have "tick_fine K w m (fold (tick_agent w) (am_entries m) (?st, no_acts))"
    proof (rule fold_keeps [where P = "tick_fine K w m"])
      show "tick_fine K w m (?st, no_acts)" using assms(2,3) none by (simp add: tick_fine_def approver_ok_def knows_def)
    qed (rule tick_agent_fine, assumption, assumption, rule assms(4))
    then have fine: "approver_ok s1" "knows K s1" "approvals_ok K w m a1" using f by (auto simp: tick_fine_def)
    have "st' = forget_sessions a1 s1" "acts = a1" using assms(1) 2 f by (auto simp: tick_def)
    moreover have "approver_ok (forget_sessions a1 s1)" "knows K (forget_sessions a1 s1)"
      using fine(1,2) by (auto simp: approver_ok_def knows_def forget_sessions_def list_all_iff)
    ultimately show ?thesis using fine 2 by simp
  qed
qed


text \<open>Approvals of a session, and ticks, as services: what every one keeps, any sequence keeps.\<close>

definition approve_step :: "session_world \<times> agent_entry \<times> tool_map \<times> string option \<Rightarrow> session_state \<Rightarrow> session_state" where
  "approve_step x s = (case x of (w, entry, tm, u) \<Rightarrow> fst (approve_session w entry tm u s))"

interpretation approver_session: latched_service approve_step "\<lambda>_ _. True" session_ok
    "\<lambda>i s. if i \<in> settled_ids s then Some () else None"
proof unfold_locales
  fix x :: "session_world \<times> agent_entry \<times> tool_map \<times> string option" and s i v
  obtain w entry tm u where x: "x = (w, entry, tm, u)" by (cases x)
  obtain t a where t: "approve_session w entry tm u s = (t, a)" by (cases "approve_session w entry tm u s")
  assume "session_ok s"
  from approve_session_ok(1) [OF t this subset_UNIV subset_UNIV] have m: "session_ok t" "settled_ids s \<subseteq> settled_ids t" by (auto simp: moves_def)
  show "session_ok (approve_step x s)" using m(1) by (simp add: x t approve_step_def)
  assume "(if i \<in> settled_ids s then Some () else None) = Some v"
  then show "(if i \<in> settled_ids (approve_step x s) then Some () else None) = Some v"
    using m(2) by (auto simp: x t approve_step_def split: if_splits)
qed

interpretation approver_ticks: service "\<lambda>w st. fst (tick w st)" "\<lambda>w _. hears K w" "\<lambda>st. approver_ok st \<and> knows K st"
  for K :: "string \<Rightarrow> (string \<times> sdk_event) set"
proof
  fix st and w :: tick_world
  assume "approver_ok st \<and> knows K st" "hears K w"
  with tick_ok [of w st "fst (tick w st)" "snd (tick w st)" K]
  show "approver_ok (fst (tick w st)) \<and> knows K (fst (tick w st))" by simp
qed

lemma ticks_know:
  assumes "approver_ok st \<and> knows K st" "\<forall>w \<in> set ws. hears K w"
  shows "approver_ok (fold (\<lambda>w st. fst (tick w st)) ws st) \<and> knows K (fold (\<lambda>w st. fst (tick w st)) ws st)"
proof -
  have "ok_run (\<lambda>w _. hears K w) (\<lambda>w st. fst (tick w st)) ws st" using assms(2) by (induction ws arbitrary: st) auto
  with assms(1) show ?thesis by (rule approver_ticks.run_inv)
qed

text \<open>An ask that was settled is settled after any number of approvals, whatever the answers.\<close>

lemma settled_for_good:
  assumes "session_ok s" "i \<in> settled_ids s"
  shows "i \<in> settled_ids (fold approve_step xs s)"
proof -
  have "ok_run (\<lambda>_ _. True) approve_step xs s" by (induction xs arbitrary: s) auto
  from approver_session.run_latch [OF assms(1) this, of i "()"] assms(2) show ?thesis by (auto split: if_splits)
qed

lemma ticks_keep: "approver_ok st \<Longrightarrow> approver_ok (fold (\<lambda>w st. fst (tick w st)) ws st)"
  using ticks_know [of st "\<lambda>_. UNIV" ws] by (auto simp: knows_def hears_def)

text \<open>C32: An allow that leaves the approver is the sentinel's: over any ticks from an approver without sessions, every
  confirmation with \<open>allow\<close> that a tick sends answers an ask \<open>e\<close> of a session of ours that is idle: an event of that
  id which the session's own event listing answered in this tick or an earlier one and which asks for a
  confirmation; the agent's map entry is usable and the tool map valid; and the sentinel was asked about this very
  event under the action the tool \<open>e\<close> names resolves to, and answered an object whose decision is \<open>ALLOW\<close>. The
  sessions kept stay well formed.\<close>

lemma approver_allows_only_the_sentinels_allow:
  assumes "ap_sessions st0 = []" "st = fold (\<lambda>w st. fst (tick w st)) ws st0" "tick w st = (st', acts)"
    "(sid, a) \<in> set (ta_approvals acts)" "batch \<in> set (ap_sends a)" "c \<in> set batch" "cf_allow c"
  shows "approver_ok st' \<and> (\<exists>m cid entry vs v (e :: sdk_event) w' cur kvs. tk_map w = Some m \<and> (cid, entry) \<in> set (am_entries m)
    \<and> ae_problem entry = None \<and> tm_error (tk_tools w) = None
    \<and> tk_list w cid = Some vs \<and> v \<in> set vs \<and> ours w cid v \<and> sv_id v = sid \<and> sv_status v = ''idle''
    \<and> w' \<in> set (ws @ [w]) \<and> e \<in> set (fst (sw_events (tk_session w' sid) cur))
    \<and> ev_id e = cf_event c \<and> ev_ask e \<and> ev_type e \<in> set ASK_TYPES \<and> ev_name e \<noteq> []
    \<and> sw_check (tk_session w sid) (cf_event c) (resolve_action (ev_name e) entry (tk_tools w)) = CheckJson (JObj kvs)
    \<and> map_of kvs ''decision'' = Some (JStr ''ALLOW''))"
proof -
  define K where "K = (\<lambda>sid. \<Union>w \<in> set (ws @ [w]). heard (tk_session w sid))"
  have hears: "\<forall>w' \<in> set ws. hears K w'" "hears K w" by (auto simp: hears_def K_def)
  have "approver_ok st \<and> knows K st"
    unfolding assms(2) by (rule ticks_know) (use assms(1) hears(1) in \<open>simp_all add: approver_ok_def knows_def\<close>)
  note ok = tick_ok [OF assms(3) conjunct1 [OF this] conjunct2 [OF this] hears(2)]
  obtain m where m: "tk_map w = Some m" using ok assms(4) by (cases "ta_approvals acts") auto
  with ok have "approvals_ok K w m acts" by blast
  then obtain cid entry vs v s where
    x: "(cid, entry) \<in> set (am_entries m)" "tk_list w cid = Some vs" "v \<in> set vs" "ours w cid v" "sv_status v = ''idle''"
      "sv_id v = sid"
    and ans: "answers_waiting (K sid) (tk_session w sid) entry (tk_tools w) s c"
    using assms(4-6) unfolding approvals_ok_def by fastforce
  obtain e where e: "(cf_event c, e) \<in> K sid" "ev_id e = cf_event c" "ev_ask e" "ev_type e \<in> set ASK_TYPES"
    "c = confirmation_of (cf_event c) (fst (verdict_for (tk_session w sid) entry (tk_tools w) (cf_event c) e))"
    using ans unfolding answers_waiting_def by blast
  obtain w' cur where h: "w' \<in> set (ws @ [w])" "e \<in> set (fst (sw_events (tk_session w' sid) cur))"
    using e(1) unfolding K_def heard_def by blast
  have "av_allow (fst (verdict_for (tk_session w sid) entry (tk_tools w) (cf_event c) e))"
    using assms(7) e(5) by (metis confirmation_allow)
  then obtain kvs where al: "ae_problem entry = None" "tm_error (tk_tools w) = None" "ev_name e \<noteq> []"
    "sw_check (tk_session w sid) (cf_event c) (resolve_action (ev_name e) entry (tk_tools w)) = CheckJson (JObj kvs)"
    "map_of kvs ''decision'' = Some (JStr ''ALLOW'')"
    using allowed_by_verdict by blast
  show ?thesis
  proof (rule conjI)
    show "approver_ok st'" using ok by blast
  qed (rule exI [of _ m], rule exI [of _ cid], rule exI [of _ entry], rule exI [of _ vs], rule exI [of _ v],
      rule exI [of _ e], rule exI [of _ w'], rule exI [of _ cur], rule exI [of _ kvs],
      intro conjI m x e(2-4) al h)
qed

section \<open>Every ask is settled once\<close>

text \<open>The approvals of one session, tick after tick, while it stays listed.\<close>

fun approve_run :: "agent_entry \<Rightarrow> (session_world \<times> tool_map \<times> string option) list \<Rightarrow> session_state \<Rightarrow> approval list" where
  "approve_run entry [] s = []"
| "approve_run entry ((w, tm, u) # ws) s =
     (case approve_session w entry tm u s of (s1, a) \<Rightarrow> a # approve_run entry ws s1)"

lemma run_spares_settled:
  assumes "session_ok s" "j < length (approve_run entry ws s)" "batch \<in> set (ap_sends (approve_run entry ws s ! j))"
    "c \<in> set batch"
  shows "cf_event c \<notin> settled_ids s"
  using assms
proof (induction entry ws s arbitrary: j rule: approve_run.induct)
  case (2 entry w tm u ws s)
  obtain s1 a where ap: "approve_session w entry tm u s = (s1, a)" by (cases "approve_session w entry tm u s")
  note ok = approve_session_ok [OF ap 2(2) subset_UNIV subset_UNIV]
  show ?case
  proof (cases j)
    case 0
    then have "answers_waiting UNIV w entry tm s c" using ok(2) 2(4,5) ap by simp
    then show ?thesis unfolding answers_waiting_def by blast
  next
    case (Suc k)
    have "cf_event c \<notin> settled_ids s1"
      by (rule 2(1) [OF ap [symmetric] moves_ok [OF ok(1)], of k]) (use 2(3-5) Suc ap in simp_all)
    then show ?thesis using ok(1) unfolding moves_def by blast
  qed
qed simp

text \<open>C33: An ask is settled once: over any sequence of approvals of a session, whatever events arrive again and
  whatever the sends answer, an ask that was sent or refused for good in one approval is in no send of a later one.\<close>

lemma settled_ask_never_resent:
  assumes "i < j" "j < length (approve_run entry ws (new_session cid))"
    "r \<in> set (ap_decisions (approve_run entry ws (new_session cid) ! i))" "dc_sent r \<or> dc_rejected r"
    "batch \<in> set (ap_sends (approve_run entry ws (new_session cid) ! j))" "c \<in> set batch"
  shows "cf_event c \<noteq> dc_event r"
proof -
  have "cf_event c \<noteq> dc_event r" if "session_ok s" "i < j" "j < length (approve_run entry ws s)"
    "r \<in> set (ap_decisions (approve_run entry ws s ! i))" "batch \<in> set (ap_sends (approve_run entry ws s ! j))" for s
    using that
  proof (induction entry ws s arbitrary: i j rule: approve_run.induct)
    case (2 entry w tm u ws s)
    obtain s1 a where ap: "approve_session w entry tm u s = (s1, a)" by (cases "approve_session w entry tm u s")
    note ok = approve_session_ok [OF ap 2(2) subset_UNIV subset_UNIV]
    obtain k where k: "j = Suc k" using 2(3) by (cases j) auto
    have klen: "k < length (approve_run entry ws s1)" "batch \<in> set (ap_sends (approve_run entry ws s1 ! k))"
      using 2(4,6) k ap by simp_all
    show ?case
    proof (cases i)
      case 0
      then have "dc_event r \<in> settled_ids s1" using ok(3) 2(5) ap assms(4) unfolding settled_def by simp
      moreover have "cf_event c \<notin> settled_ids s1"
        by (rule run_spares_settled [OF moves_ok [OF ok(1)] klen assms(6)])
      ultimately show ?thesis by metis
    next
      case (Suc i')
      show ?thesis
        by (rule 2(1) [OF ap [symmetric] moves_ok [OF ok(1)] _ klen(1) _ klen(2)])
          (use 2(3,5) Suc k ap in simp_all)
    qed
  qed simp
  from this [OF ok_new assms(1,2,3,5)] show ?thesis .
qed


section \<open>Usage\<close>

definition usage_le :: "usage_snap \<Rightarrow> usage_snap \<Rightarrow> bool" where
  "usage_le a b = (us_input a \<le> us_input b \<and> us_output a \<le> us_output b \<and> us_cache a \<le> us_cache b)"

text \<open>The posts of one session, tick after tick: the cursor in the end and what was posted.\<close>

fun usage_run :: "agent_entry \<Rightarrow> string \<Rightarrow> (usage_world \<times> usage_counts option) list \<Rightarrow> usage_cursor
    \<Rightarrow> usage_cursor \<times> usage_post list" where
  "usage_run entry sid [] c = (c, [])"
| "usage_run entry sid ((w, u) # ws) c =
     (case post_usage w entry sid u c of (c1, p, ok) \<Rightarrow>
        case usage_run entry sid ws c1 of (c2, ps) \<Rightarrow> (c2, (case p of None \<Rightarrow> ps | Some x \<Rightarrow> x # ps)))"

fun accepted_usage :: "usage_post list \<Rightarrow> usage_snap" where
  "accepted_usage [] = no_usage"
| "accepted_usage (p # ps) = (if up_accepted p then usage_add (up_delta p) (accepted_usage ps) else accepted_usage ps)"

lemma usage_simps:
  "usage_add (usage_delta snap l) l = usage_max snap l" "usage_add a (usage_add b c) = usage_add (usage_add a b) c"
  "usage_add no_usage a = a" "usage_add a no_usage = a" "usage_add a b = usage_add b a"
  by (auto simp: usage_add_def usage_delta_def usage_max_def no_usage_def)

lemma usage_order:
  "usage_le a a" "usage_le a b \<Longrightarrow> usage_le b c \<Longrightarrow> usage_le a c" "usage_le a b \<Longrightarrow> usage_le (usage_add a c) (usage_add b c)"
  "usage_le l (usage_add (usage_delta snap l) l)"
  by (auto simp: usage_le_def usage_add_def usage_delta_def)

lemma post_usage_moves:
  assumes "post_usage w entry sid u c = (c1, p, ok)"
  shows "(p = None \<or> p \<noteq> None \<and> \<not> up_accepted (the p)) \<and> c1 = c
    \<or> (\<exists>q. p = Some q \<and> up_accepted q \<and> (uw_written w \<longrightarrow> cursor_get c1 sid = usage_add (up_delta q) (cursor_get c sid))
         \<and> (\<not> uw_written w \<longrightarrow> c1 = c) \<and> usage_le (cursor_get c sid) (usage_add (up_delta q) (cursor_get c sid)))"
proof -
  have get: "cursor_get (cursor_set True sid x c) sid = x" for x
    by (simp add: cursor_set_def cursor_get_def update_conv')
  have le: "usage_le (cursor_get c sid) (usage_add (usage_delta x (cursor_get c sid)) (cursor_get c sid))" for x
    by (rule usage_order)
  have off: "cursor_set False sid x c = c" for x by (simp add: cursor_set_def)
  show ?thesis
    using assms le unfolding post_usage_def Let_def
    by (cases "uw_written w") (auto simp: get off usage_simps(1) split: if_split_asm option.split_asm)
qed

text \<open>C34: The governor is told of no less than what the cursor moved: over any run of usage posts of a session, the
  cursor is at most its start plus the deltas answered 201, and it is exactly that when every cursor write reached the
  disk, so nothing is billed twice and nothing is lost. A delta accepted while its write failed is posted again.\<close>

lemma usage_is_accounted:
  assumes "usage_run entry sid ws c = (c', ps)"
  shows "usage_le (cursor_get c' sid) (usage_add (accepted_usage ps) (cursor_get c sid))
    \<and> (list_all (\<lambda>(w, u). uw_written w) ws \<longrightarrow>
         cursor_get c' sid = usage_add (accepted_usage ps) (cursor_get c sid))"
  using assms
proof (induction entry sid ws c arbitrary: c' ps rule: usage_run.induct)
  case (1 entry sid c)
  then show ?case by (simp add: usage_simps usage_order)
next
  case (2 entry sid w u ws c)
  obtain c1 p ok where p: "post_usage w entry sid u c = (c1, p, ok)" by (cases "post_usage w entry sid u c")
  obtain c2 qs where r: "usage_run entry sid ws c1 = (c2, qs)" by (cases "usage_run entry sid ws c1")
  have eq: "c' = c2" "ps = (case p of None \<Rightarrow> qs | Some x \<Rightarrow> x # qs)" using 2(2) p r by simp_all
  note ih = 2(1) [OF p [symmetric] refl r]
  from post_usage_moves [OF p] show ?case
  proof
    assume "(p = None \<or> p \<noteq> None \<and> \<not> up_accepted (the p)) \<and> c1 = c"
    then show ?thesis using ih eq by (auto split: option.splits)
  next
    assume "\<exists>q. p = Some q \<and> up_accepted q \<and> (uw_written w \<longrightarrow> cursor_get c1 sid = usage_add (up_delta q) (cursor_get c sid))
         \<and> (\<not> uw_written w \<longrightarrow> c1 = c) \<and> usage_le (cursor_get c sid) (usage_add (up_delta q) (cursor_get c sid))"
    then obtain q where q: "p = Some q" "up_accepted q"
      "uw_written w \<Longrightarrow> cursor_get c1 sid = usage_add (up_delta q) (cursor_get c sid)" "\<not> uw_written w \<Longrightarrow> c1 = c"
      "usage_le (cursor_get c sid) (usage_add (up_delta q) (cursor_get c sid))" by blast
    have sum: "usage_add (accepted_usage ps) x = usage_add (accepted_usage qs) (usage_add (up_delta q) x)" for x
      using eq q by (simp add: usage_add_def)
    show ?thesis
    proof (cases "uw_written w")
      case True
      with ih q(3) sum eq(1) show ?thesis by simp
    next
      case False
      have "usage_le (usage_add (accepted_usage qs) (cursor_get c sid)) (usage_add (accepted_usage ps) (cursor_get c sid))"
        using q(5) unfolding sum by (simp add: usage_le_def usage_add_def)
      with ih q(4) False eq(1) show ?thesis by (auto intro: usage_order(2))
    qed
  qed
qed


text \<open>A cursor file that is not UTF-8 costs one tick, after which the cursor counts as loaded, empty and sound: the whole
  usage of every session is posted again.\<close>

lemma undecodable_cursor_starts_from_zero:
  assumes "tk_map w = Some m" "tk_client w" "tk_cursor w = NotUtf8Cursor"
    "ap_cursor st = \<lparr>uc_data = [], uc_error = None, uc_loaded = False\<rparr>"
  shows "tick w st = (st\<lparr>ap_cursor := \<lparr>uc_data = [], uc_error = None, uc_loaded = True\<rparr>\<rparr>, no_acts)"
  using assms by (simp add: tick_def load_raises_def load_cursor_def)

lemma whole_usage_is_posted:
  assumes "usage_snapshot u (uw_event uw) = Some snap" "usage_delta snap no_usage \<noteq> no_usage" "uw_secret uw"
    "uw_answer uw = Some 201"
  shows "\<exists>c p. post_usage uw entry sid u \<lparr>uc_data = [], uc_error = None, uc_loaded = True\<rparr> = (c, Some p, True)
    \<and> up_delta p = usage_delta snap no_usage \<and> up_accepted p"
  using assms by (simp add: post_usage_def Let_def cursor_get_def)

section \<open>The halt ends\<close>

definition poll_fuel :: "rat \<Rightarrow> nat" where
  "poll_fuel wait = nat \<lceil>5 * wait\<rceil> + 1"

lemma poll_ends:
  assumes "\<And>n. hw_start w sid + of_nat n / 5 \<le> hw_clock w sid n" "poll_fuel (hw_wait w) \<le> n + fuel" "0 < fuel"
  shows "\<exists>r. poll_status fuel w sid n st = Some r"
  using assms(2,3)
proof (induction fuel arbitrary: n st)
  case (Suc fuel)
  show ?case
  proof (cases fuel)
    case 0
    have "\<lceil>5 * hw_wait w\<rceil> \<le> int n" using Suc.prems 0 by (simp add: poll_fuel_def)
    then have "5 * hw_wait w \<le> of_nat n" by (simp add: ceiling_le_iff)
    then have "hw_start w sid + hw_wait w \<le> hw_clock w sid n" using assms(1) [of n] by linarith
    then show ?thesis by (auto split: option.split)
  next
    case (Suc k)
    have "\<exists>r. poll_status fuel w sid (Suc n) st' = Some r" for st'
      by (rule Suc.IH) (use Suc.prems Suc in simp_all)
    then show ?thesis by (auto split: option.split)
  qed
qed simp

lemma finish_ends:
  assumes "\<And>n. hw_start w (ht_session r) + of_nat n / 5 \<le> hw_clock w (ht_session r) n"
  shows "\<exists>x. finish_target (poll_fuel (hw_wait w)) w r = Some x"
proof -
  have pos: "poll_fuel (hw_wait w) \<le> 0 + poll_fuel (hw_wait w)" "0 < poll_fuel (hw_wait w)"
    by (simp, simp add: poll_fuel_def)
  obtain p where "poll_status (poll_fuel (hw_wait w)) w (ht_session r) 0 (ht_final r) = Some p"
    using poll_ends [OF assms pos] by blast
  then show ?thesis by (cases p; cases "snd p") (simp_all add: finish_target_def Let_def)
qed

lemma all_some_iff: "all_some xs = Some ys \<longleftrightarrow> xs = map Some ys"
proof (induction xs arbitrary: ys)
  case (Cons x xs)
  have "all_some (x # xs) = Some ys \<longleftrightarrow> (\<exists>a r. x = Some a \<and> all_some xs = Some r \<and> ys = a # r)"
    by (auto split: option.splits)
  then show ?case unfolding Cons.IH by auto
qed auto

lemma all_some_total: "(\<And>x. x \<in> set xs \<Longrightarrow> \<exists>y. x = Some y) \<Longrightarrow> \<exists>ys. all_some xs = Some ys"
proof (induction xs)
  case (Cons x xs)
  obtain y where "x = Some y" using Cons.prems by auto
  moreover obtain ys where "all_some xs = Some ys" using Cons by auto
  ultimately show ?case by simp
qed simp

lemma poll_archivable: "poll_status fuel w sid n st = Some (st', False) \<Longrightarrow>
    \<exists>k. hw_status w sid k = Some st' \<and> (archivable st' \<or> hw_start w sid + hw_wait w \<le> hw_clock w sid k)"
  by (induction fuel w sid n st rule: poll_status.induct) (auto split: option.splits if_splits)

lemma finished_archived:
  assumes "finish_target fuel w r = Some x" "\<not> ht_archived r"
  shows "ht_session x = ht_session r \<and> (ht_archived x \<longrightarrow> archivable (ht_final x)
    \<and> (\<exists>k. hw_status w (ht_session x) k = Some (ht_final x)))"
proof -
  obtain st b where p: "poll_status fuel w (ht_session r) 0 (ht_final r) = Some (st, b)"
    using assms(1) by (auto simp: finish_target_def split: option.splits)
  show ?thesis
  proof (cases b)
    case True
    then have "x = r\<lparr>ht_final := st, ht_failed := True\<rparr>" using assms(1) p by (simp add: finish_target_def)
    then show ?thesis using assms(2) by simp
  next
    case False
    then have "poll_status fuel w (ht_session r) 0 (ht_final r) = Some (st, False)" using p by simp
    then obtain k where k: "hw_status w (ht_session r) k = Some st" by (blast dest: poll_archivable)
    have "ht_session x = ht_session r" "ht_final x = st" "ht_archived x \<longrightarrow> archivable st"
      using assms p False by (auto simp: finish_target_def Let_def split: if_splits)
    with k show ?thesis by metis
  qed
qed



section \<open>The properties on a concrete session\<close>

definition demo_entry :: agent_entry where
  "demo_entry = \<lparr>ae_console = ''c1'', ae_field_id = Some ''a1'', ae_token = None, ae_actions = [(''pay'', ''make payment'')],
     ae_customs = [], ae_base = None, ae_secret = None, ae_problem = None\<rparr>"

definition demo_event :: "string \<Rightarrow> string \<Rightarrow> sdk_event" where
  "demo_event i t = \<lparr>ev_id = i, ev_type = t, ev_ask = True, ev_name = ''pay'', ev_tool_use = None, ev_custom_use = None,
     ev_stop = Some ''requires_action'', ev_stop_ids = Some [''e1''], ev_processed = Some (At 5)\<rparr>"

definition demo_events :: "sdk_event list" where
  "demo_events = [demo_event ''e1'' ''agent.tool_use'', demo_event ''e2'' ''session.status_idle'']"

definition demo_session :: session_world where
  "demo_session = \<lparr>sw_events = (\<lambda>cur. (demo_events, False)), sw_clock = 0, sw_wall = (\<lambda>i. 100),
     sw_check = (\<lambda>i a. CheckJson (JObj [(''decision'', JStr (if a = ''make payment'' then ''ALLOW'' else ''BLOCK''))])),
     sw_send = (\<lambda>n. None), sw_str = (\<lambda>j. [])\<rparr>"

definition demo_tools :: tool_map where "demo_tools = \<lparr>tm_entries = [], tm_error = None\<rparr>"

definition demo_view :: session_view where
  "demo_view = \<lparr>sv_id = ''s1'', sv_agent = Some ''c1'', sv_env = None, sv_archived = False, sv_status = ''idle'',
     sv_updated = None, sv_usage = None\<rparr>"

definition demo_usage :: usage_world where
  "demo_usage = \<lparr>uw_event = None, uw_model = ''m'', uw_secret = True, uw_answer = Some 201, uw_written = True\<rparr>"

definition demo_map :: agent_map where "demo_map = \<lparr>am_entries = [(''c1'', demo_entry)], am_error = None\<rparr>"

definition demo_tick :: tick_world where
  "demo_tick = \<lparr>tk_client = True, tk_map = Some demo_map, tk_tools = demo_tools, tk_env = None,
     tk_list = (\<lambda>cid. Some [demo_view]), tk_session = (\<lambda>sid. demo_session), tk_usage = (\<lambda>sid. demo_usage),
     tk_cursor = NoCursorFile, tk_int = (\<lambda>j. None)\<rparr>"

definition demo_approver :: approver where
  "demo_approver = \<lparr>ap_sessions = [], ap_cursor = \<lparr>uc_data = [], uc_error = None, uc_loaded = False\<rparr>\<rparr>"

lemmas demo_defs = demo_entry_def demo_event_def demo_events_def demo_session_def demo_tools_def demo_view_def
  demo_usage_def demo_map_def demo_tick_def demo_approver_def

lemmas approve_defs = approve_session_def refresh_def fresh_enough_def new_session_def read_events_def read_event_def
  take_event_def move_cursor_def CURSOR_FUTURE_SLACK_def ASK_TYPES_def drop_superseded_def superseded_def
  asked_before_idle_def eligible_asks_def answer_asks_def plan_answer_def verdict_for_def resolve_action_def
  check_with_def confirmation_of_def record_of_def send_confirmations_def settle_def nothing_done_def
  clause_of_def shadowed_of_def

lemma demo_approval: "\<exists>s. approve_session demo_session demo_entry demo_tools None (new_session ''c1'') = (s,
    \<lparr>ap_sends = [[\<lparr>cf_event = ''e1'', cf_allow = True, cf_message = None\<rparr>]],
     ap_decisions = [\<lparr>dc_event = ''e1'', dc_tool = ''pay'', dc_action = Some ''make payment'', dc_allow = True,
       dc_class = Allowed, dc_sent = True, dc_rejected = False, dc_possibly = None\<rparr>], ap_heartbeats = 1\<rparr>)"
  by (simp add: approve_defs demo_defs Let_def)


lemma demo_tick_acts: "\<exists>st a. tick demo_tick demo_approver = (st, \<lparr>ta_approvals = [(''s1'', a)], ta_posts = [],
    ta_listed = [''s1''], ta_unlisted = []\<rparr>) \<and> ap_sends a = [[\<lparr>cf_event = ''e1'', cf_allow = True, cf_message = None\<rparr>]]"
proof -
  obtain s where s: "approve_session demo_session demo_entry demo_tools None (new_session ''c1'') = (s,
    \<lparr>ap_sends = [[\<lparr>cf_event = ''e1'', cf_allow = True, cf_message = None\<rparr>]],
     ap_decisions = [\<lparr>dc_event = ''e1'', dc_tool = ''pay'', dc_action = Some ''make payment'', dc_allow = True,
       dc_class = Allowed, dc_sent = True, dc_rejected = False, dc_possibly = None\<rparr>], ap_heartbeats = 1\<rparr>)"
    using demo_approval by blast
  have console: "ae_console demo_entry = ''c1''" "ae_problem demo_entry = None" by (simp_all add: demo_defs)
  have "tick demo_tick demo_approver = (forget_sessions \<lparr>ta_approvals = [], ta_posts = [], ta_listed = [''s1''], ta_unlisted = []\<rparr>
      \<lparr>ap_sessions = [(''s1'', s)], ap_cursor = \<lparr>uc_data = [], uc_error = None, uc_loaded = True\<rparr>\<rparr>,
    \<lparr>ta_approvals = [(''s1'', snd (s, \<lparr>ap_sends = [[\<lparr>cf_event = ''e1'', cf_allow = True, cf_message = None\<rparr>]],
     ap_decisions = [\<lparr>dc_event = ''e1'', dc_tool = ''pay'', dc_action = Some ''make payment'', dc_allow = True,
       dc_class = Allowed, dc_sent = True, dc_rejected = False, dc_possibly = None\<rparr>], ap_heartbeats = 1\<rparr>))], ta_posts = [],
      ta_listed = [''s1''], ta_unlisted = []\<rparr>)"
    by (simp add: tick_def tick_agent_def tick_session_def tick_approve_def tick_usage_def ours_def no_acts_def
        demo_tick_def demo_map_def demo_view_def demo_approver_def load_cursor_def load_raises_def post_usage_def usage_snapshot_def
        demo_usage_def s console forget_sessions_def)
  then show ?thesis by simp
qed

lemma approver_allows_only_the_sentinels_allow_witness:
  "\<exists>st' acts a w' e cur. tick demo_tick demo_approver = (st', acts) \<and> (''s1'', a) \<in> set (ta_approvals acts) \<and> approver_ok st'
     \<and> w' \<in> set ([] @ [demo_tick]) \<and> (e :: sdk_event) \<in> set (fst (sw_events (tk_session w' ''s1'') cur)) \<and> ev_id e = ''e1''"
proof -
  obtain st a where t: "tick demo_tick demo_approver = (st, \<lparr>ta_approvals = [(''s1'', a)], ta_posts = [],
    ta_listed = [''s1''], ta_unlisted = []\<rparr>)" "ap_sends a = [[\<lparr>cf_event = ''e1'', cf_allow = True, cf_message = None\<rparr>]]"
    using demo_tick_acts by blast
  let ?acts = "\<lparr>ta_approvals = [(''s1'', a)], ta_posts = [], ta_listed = [''s1''], ta_unlisted = []\<rparr>"
  have start: "ap_sessions demo_approver = []" "demo_approver = fold (\<lambda>w st. fst (tick w st)) [] demo_approver"
    by (simp_all add: demo_approver_def)
  have sent: "(''s1'', a) \<in> set (ta_approvals ?acts)" "[\<lparr>cf_event = ''e1'', cf_allow = True, cf_message = None\<rparr>] \<in> set (ap_sends a)"
    using t(2) by simp_all
  note allowed = approver_allows_only_the_sentinels_allow [OF start t(1) sent list.set_intros(1)]
  have "cf_allow \<lparr>cf_event = ''e1'', cf_allow = True, cf_message = None\<rparr>" by simp
  from allowed [OF this] obtain w' e cur where h: "approver_ok st" "w' \<in> set ([] @ [demo_tick])"
    "(e :: sdk_event) \<in> set (fst (sw_events (tk_session w' ''s1'') cur))" "ev_id e = ''e1''"
    by (elim conjE exE) simp
  show ?thesis
    by (rule exI [of _ st], rule exI [of _ ?acts], rule exI [of _ a], rule exI [of _ w'], rule exI [of _ e], rule exI [of _ cur],
      intro conjI t(1) sent(1) h)
qed

definition demo_later :: session_world where
  "demo_later = demo_session\<lparr>sw_events := (\<lambda>cur. (demo_events @ [demo_event ''e3'' ''agent.tool_use'',
     (demo_event ''e4'' ''session.status_idle'')\<lparr>ev_stop_ids := Some [''e1'', ''e3'']\<rparr>], False))\<rparr>"

definition demo_state :: session_state where
  "demo_state = \<lparr>ss_console = ''c1'', ss_cursor = Some 5, ss_seen = {''e2'', ''e1''}, ss_asks = [],
     ss_ask_seq = [(''e1'', 1)], ss_answered = {''e1''}, ss_stale = {}, ss_customs = [], ss_stop = Some ''requires_action'',
     ss_stop_ids = Some [''e1''], ss_possibly = [], ss_idle_seq = 2, ss_seq = 2, ss_updated = None, ss_last_read = Some 0\<rparr>"

lemma demo_first: "fst (approve_session demo_session demo_entry demo_tools None (new_session ''c1'')) = demo_state"
  by (simp add: approve_defs demo_defs Let_def demo_state_def second_def)

lemma demo_second: "map (map cf_event) (ap_sends (snd (approve_session demo_later demo_entry demo_tools None demo_state))) = [[''e3'']]"
  by (simp add: approve_defs demo_defs demo_later_def Let_def demo_state_def second_def)

lemma settled_ask_never_resent_witness:
  "\<exists>a b. approve_run demo_entry [(demo_session, demo_tools, None), (demo_later, demo_tools, None)] (new_session ''c1'') = [a, b]
    \<and> map dc_event (ap_decisions a) = [''e1''] \<and> map (map cf_event) (ap_sends b) = [[''e3'']] \<and> ''e3'' \<noteq> ''e1''"
proof -
  let ?run = "approve_run demo_entry [(demo_session, demo_tools, None), (demo_later, demo_tools, None)] (new_session ''c1'')"
  obtain a where a: "approve_session demo_session demo_entry demo_tools None (new_session ''c1'') = (demo_state, a)"
    "map dc_event (ap_decisions a) = [''e1'']" "map dc_sent (ap_decisions a) = [True]"
    using demo_approval demo_first by auto
  obtain t b where b: "approve_session demo_later demo_entry demo_tools None demo_state = (t, b)"
    "map (map cf_event) (ap_sends b) = [[''e3'']]"
    using demo_second by (cases "approve_session demo_later demo_entry demo_tools None demo_state") simp
  have run: "?run = [a, b]" using a(1) b(1) by simp
  obtain r where r: "ap_decisions a = [r]" "dc_event r = ''e1''" "dc_sent r" using a(2,3) by auto
  obtain c where c: "ap_sends b = [[c]]" "cf_event c = ''e3''" using b(2) by auto
  have "cf_event c \<noteq> dc_event r"
    by (rule settled_ask_never_resent [of 0 1 demo_entry "[(demo_session, demo_tools, None), (demo_later, demo_tools, None)]"
          "''c1''" r "[c]"]) (simp_all only: run r c, simp_all add: r c)
  then have "''e3'' \<noteq> ''e1''" by (simp only: r c not_False_eq_True)
  with run a(2) b(2) show ?thesis by (intro exI conjI)
qed

definition demo_counts :: "usage_counts option" where
  "demo_counts = Some \<lparr>un_input = Some 10, un_output = Some 4, un_cache = None\<rparr>"

definition demo_cursor :: usage_cursor where "demo_cursor = \<lparr>uc_data = [], uc_error = None, uc_loaded = True\<rparr>"

lemma usage_is_accounted_witness:
  "\<exists>c ps. usage_run demo_entry ''s1'' [(demo_usage, demo_counts), (demo_usage, demo_counts)] demo_cursor = (c, ps)
    \<and> accepted_usage ps = \<lparr>us_input = 10, us_output = 4, us_cache = 0\<rparr>
    \<and> cursor_get c ''s1'' = usage_add (accepted_usage ps) (cursor_get demo_cursor ''s1'')"
proof -
  let ?run = "usage_run demo_entry ''s1'' [(demo_usage, demo_counts), (demo_usage, demo_counts)] demo_cursor"
  obtain c ps where r: "?run = (c, ps)" by (cases ?run)
  have "accepted_usage (snd ?run) = \<lparr>us_input = 10, us_output = 4, us_cache = 0\<rparr>"
    by (simp add: post_usage_def usage_snapshot_def snapshot_of_def count_of_def demo_usage_def demo_counts_def demo_cursor_def
        demo_entry_def cursor_get_def cursor_set_def usage_delta_def usage_max_def no_usage_def usage_add_def)
  moreover have "list_all (\<lambda>(w, u). uw_written w) [(demo_usage, demo_counts), (demo_usage, demo_counts)]"
    by (simp add: demo_usage_def)
  ultimately show ?thesis using usage_is_accounted [OF r] r by simp
qed

definition demo_halt :: halt_world where
  "demo_halt = \<lparr>hw_map = demo_map, hw_client = True, hw_list = (\<lambda>cid. Some [demo_view]), hw_interrupt = (\<lambda>sid. True),
     hw_start = (\<lambda>sid. 0), hw_status = (\<lambda>sid n. Some (if n = 0 then None else Some (if n < 2 then ''running'' else ''idle''))),
     hw_clock = (\<lambda>sid n. of_nat n / 5), hw_archive = (\<lambda>sid. True), hw_wait = 1\<rparr>"


end
