(* ===== verification/Kill_Safety.thy ===== *)
theory Kill_Safety
  imports Kill_Switch
begin

text \<open>
  What the kill switch guarantees: the calls a request makes obey a rule (status writes are cleared by a read of the
  same request, signals go out only after the halt and only where the guards let them), the ledger's answers change
  nothing a request does, a domain halt accounts for every agent, and a drill always writes the status back.
\<close>

section \<open>Calls a computation makes\<close>

definition emits :: "(ks_calls \<Rightarrow> ks_call \<Rightarrow> bool) \<Rightarrow> halt_state \<Rightarrow> halt_state \<Rightarrow> bool" where
  "emits P s s' = (\<exists>new. kh_calls s' = kh_calls s @ new
     \<and> (\<forall>pre c post. new = pre @ c # post \<longrightarrow> P (kh_calls s @ pre) c))"

lemma emitsI:
  "kh_calls s' = kh_calls s @ new \<Longrightarrow> (\<And>pre c post. new = pre @ c # post \<Longrightarrow> P (kh_calls s @ pre) c) \<Longrightarrow> emits P s s'"
  by (auto simp: emits_def)

lemma emits_none: "kh_calls s' = kh_calls s \<Longrightarrow> emits P s s'"
  by (rule emitsI [where new = "[]"]) auto

lemma emits_trans [trans]:
  assumes "emits P s s'" "emits P s' s''"
  shows "emits P s s''"
proof -
  obtain new1 where 1: "kh_calls s' = kh_calls s @ new1" "\<And>pre c post. new1 = pre @ c # post \<Longrightarrow> P (kh_calls s @ pre) c"
    using assms(1) by (auto simp: emits_def)
  obtain new2 where 2: "kh_calls s'' = kh_calls s' @ new2" "\<And>pre c post. new2 = pre @ c # post \<Longrightarrow> P (kh_calls s' @ pre) c"
    using assms(2) by (auto simp: emits_def)
  show ?thesis
  proof (rule emitsI [where new = "new1 @ new2"])
    fix pre c post assume "new1 @ new2 = pre @ c # post"
    then consider r where "new1 = pre @ c # r" | r where "pre = new1 @ r" "new2 = r @ c # post"
      by (auto simp: append_eq_append_conv2 append_eq_Cons_conv)
    then show "P (kh_calls s @ pre) c"
      using 1 2 by cases auto
  qed (use 1 2 in simp)
qed

lemma emits_made: "P (kh_calls s) c \<Longrightarrow> emits P s (made c s)"
  by (rule emitsI [where new = "[c]"]) (auto simp: made_def append_eq_Cons_conv Cons_eq_append_conv)

lemma emits_prefix: "emits P s s' \<Longrightarrow> \<exists>new. kh_calls s' = kh_calls s @ new"
  by (auto simp: emits_def)

lemma emitsD: "emits P s s' \<Longrightarrow> kh_calls s' = kh_calls s @ pre @ c # post \<Longrightarrow> P (kh_calls s @ pre) c"
  by (auto simp: emits_def)

lemma calls_made [simp]: "kh_calls (made c s) = kh_calls s @ [c]"
  by (simp add: made_def)

lemma calls_note [simp]:
  "kh_calls (note_event w cx t p a s) = kh_calls s @ [LedgerNote t (merge_payload (kw_env w) cx p) a]"
  by (simp add: note_event_def Let_def)

lemma emits_note: "(\<And>p. P (kh_calls s) (LedgerNote t p a)) \<Longrightarrow> emits P s (note_event w cx t p a s)"
  by (rule emitsI [where new = "[LedgerNote t (merge_payload (kw_env w) cx p) a]"])
    (auto simp: append_eq_Cons_conv Cons_eq_append_conv)

section \<open>The rule of a request\<close>

text \<open>\<open>t0\<close> are the calls before the request, \<open>t\<close> those before the call.\<close>

definition cleared :: "ks_world \<Rightarrow> operator_auth \<Rightarrow> ks_calls \<Rightarrow> ks_calls \<Rightarrow> string \<Rightarrow> bool" where
  "cleared w auth t0 t i = (\<exists>p q rc. t = t0 @ p @ GetAgent i # q \<and> get_agent (kw_agent w (t0 @ p) i) = Inr rc
     \<and> ra_status rc \<noteq> Some ''retired''
     \<and> check_record_authorized auth (kw_manifest w (t0 @ p @ [GetAgent i]) (ra_manifest_ref rc)) = Inr ())"

definition halted :: "ks_world \<Rightarrow> ks_calls \<Rightarrow> ks_calls \<Rightarrow> string \<Rightarrow> bool" where
  "halted w t0 t i = (\<exists>p q. (\<exists>who. t = t0 @ p @ SetStatus i ''killed'' who # q
       \<and> get_agent (kw_patch w (t0 @ p) i ''killed'') \<in> range Inr)
     \<or> (\<exists>rc. t = t0 @ p @ GetAgent i # q \<and> get_agent (kw_agent w (t0 @ p) i) = Inr rc \<and> ra_status rc = Some ''killed''))"

definition signal_allowed :: "ks_world \<Rightarrow> string option \<Rightarrow> ks_calls \<Rightarrow> string \<Rightarrow> string \<Rightarrow> string \<Rightarrow> bool" where
  "signal_allowed w origin t i meth url = (\<not> from_us origin \<and> meth \<in> set KNOWN_METHODS
     \<and> (\<exists>parts h. urlsplit (kw_ip_ok w) url = Some parts \<and> up_scheme parts \<in> {''http'', ''https''}
       \<and> hostname parts = Some h \<and> h \<in> set (allowlist (kw_allow w t)) \<and> \<not> is_self_endpoint (up_path parts) i))"

definition lawful :: "ks_world \<Rightarrow> operator_auth \<Rightarrow> string option \<Rightarrow> ks_calls \<Rightarrow> ks_calls \<Rightarrow> ks_call \<Rightarrow> bool" where
  "lawful w auth origin t0 t c = (case c of
     SetStatus i st who \<Rightarrow> cleared w auth t0 t i
   | Signal meth url hs \<Rightarrow> (\<exists>i. signal_allowed w origin t i meth url \<and> halted w t0 t i \<and> cleared w auth t0 t i)
   | _ \<Rightarrow> True)"

lemma lawful_simps [simp]:
  "lawful w a og t0 t (GetAgent i)" "lawful w a og t0 t (ListAgents d flt)" "lawful w a og t0 t (LedgerNote e p x)"
  "lawful w a og t0 t (SetStatus i st who) \<longleftrightarrow> cleared w a t0 t i"
  by (simp_all add: lawful_def)

lemma cleared_later: "cleared w a t0 t i \<Longrightarrow> cleared w a t0 (t @ x) i"
  unfolding cleared_def by (metis append.assoc append_Cons)

lemma halted_later:
  assumes "halted w t0 t i"
  shows "halted w t0 (t @ x) i"
proof -
  obtain p q where "(\<exists>who. t = t0 @ p @ SetStatus i ''killed'' who # q \<and> get_agent (kw_patch w (t0 @ p) i ''killed'') \<in> range Inr)
     \<or> (\<exists>rc. t = t0 @ p @ GetAgent i # q \<and> get_agent (kw_agent w (t0 @ p) i) = Inr rc \<and> ra_status rc = Some ''killed'')"
    using assms unfolding halted_def by blast
  then have "(\<exists>who. t @ x = t0 @ p @ SetStatus i ''killed'' who # (q @ x) \<and> get_agent (kw_patch w (t0 @ p) i ''killed'') \<in> range Inr)
     \<or> (\<exists>rc. t @ x = t0 @ p @ GetAgent i # (q @ x) \<and> get_agent (kw_agent w (t0 @ p) i) = Inr rc \<and> ra_status rc = Some ''killed'')"
    by auto
  then show ?thesis unfolding halted_def by blast
qed

lemma cleared_earlier: "cleared w a (t0 @ x) t i \<Longrightarrow> cleared w a t0 t i"
  unfolding cleared_def by (metis append.assoc)

lemma halted_earlier: "halted w (t0 @ x) t i \<Longrightarrow> halted w t0 t i"
  unfolding halted_def by (metis append.assoc)

lemma lawful_earlier: "lawful w a og (t0 @ x) t c \<Longrightarrow> lawful w a og t0 t c"
  by (auto simp: lawful_def split: ks_call.splits dest: cleared_earlier halted_earlier)

lemma emits_mono: "(\<And>t c. P t c \<Longrightarrow> Q t c) \<Longrightarrow> emits P s s' \<Longrightarrow> emits Q s s'"
  unfolding emits_def by blast

lemma emits_cleared: "emits P s s' \<Longrightarrow> cleared w a t0 (kh_calls s) i \<Longrightarrow> cleared w a t0 (kh_calls s') i"
  using emits_prefix cleared_later by metis

lemma emits_halted: "emits P s s' \<Longrightarrow> halted w t0 (kh_calls s) i \<Longrightarrow> halted w t0 (kh_calls s') i"
  using emits_prefix halted_later by metis

section \<open>Every handler obeys it\<close>

lemma read_agent_reads:
  "read_agent w i s = (s1, r) \<Longrightarrow> kh_calls s1 = kh_calls s @ [GetAgent i] \<and> r = get_agent (kw_agent w (kh_calls s) i)
    \<and> kh_beats s1 = kh_beats s \<and> kh_gaps s1 = kh_gaps s"
  by (auto simp: read_agent_def made_def)

lemma set_status_writes:
  "set_status w cx i st s = (s1, r) \<Longrightarrow> kh_calls s1 = kh_calls s @ [SetStatus i st (on_behalf cx)]
    \<and> (r = Inr () \<longleftrightarrow> get_agent (kw_patch w (kh_calls s) i st) \<in> range Inr)"
  by (auto simp: set_status_def made_def split: sum.splits)

lemma read_agent_lawful: "read_agent w i s = (s1, r) \<Longrightarrow> emits (lawful w a og t0) s s1"
  by (auto simp: read_agent_def intro!: emits_made)

lemma set_status_lawful:
  "set_status w cx i st s = (s1, r) \<Longrightarrow> cleared w a t0 (kh_calls s) i \<Longrightarrow> emits (lawful w a og t0) s s1"
  by (auto simp: set_status_def intro!: emits_made)

lemma note_lawful: "emits (lawful w a og t0) s (note_event w cx t p x s)"
  by (rule emits_note) simp

lemma clearance:
  assumes "read_agent w i s = (s1, Inr rc)" "may_act_on w cx rc s1 = Inr ()" "ra_status rc \<noteq> Some ''retired''"
    and "kh_calls s = t0 @ x"
  shows "cleared w (cx_auth cx) t0 (kh_calls s1) i"
proof -
  have "kh_calls s1 = t0 @ x @ GetAgent i # []" "get_agent (kw_agent w (t0 @ x) i) = Inr rc"
    using assms read_agent_reads [OF assms(1)] by auto
  moreover have "check_record_authorized (cx_auth cx) (kw_manifest w (t0 @ x @ [GetAgent i]) (ra_manifest_ref rc)) = Inr ()"
    using assms read_agent_reads [OF assms(1)] by (simp add: may_act_on_def)
  ultimately show ?thesis
    unfolding cleared_def using assms(3) by blast
qed

lemma plan_allows:
  assumes "plan_signal (kw_ip_ok w) (kw_allow w t) i res og = CallEndpoint g"
  shows "signal_allowed w og t i (sg_method g) (sg_url g)"
proof -
  have "parse_method x = Some m \<Longrightarrow> m \<in> set KNOWN_METHODS" for x m
    by (auto simp: parse_method_def split: option.splits list.splits if_splits)
  with assms show ?thesis
    by (auto simp: plan_signal_def signal_allowed_def Let_def split: if_splits prod.splits option.splits)
qed

lemma signal_endpoint_lawful:
  assumes "signal_endpoint w i rc og reason s = (s1, r)"
    and "cleared w a t0 (kh_calls s) i" "halted w t0 (kh_calls s) i"
  shows "emits (lawful w a og t0) s s1"
proof (cases "plan_signal (kw_ip_ok w) (kw_allow w (kh_calls s)) i (kw_manifest w (kh_calls s) (ra_manifest_ref rc)) og")
  case (CallEndpoint g)
  have "lawful w a og t0 (kh_calls s) (Signal (sg_method g) (sg_url g) (signal_headers reason))"
    using plan_allows [OF CallEndpoint] assms(2,3) by (auto simp: lawful_def)
  with assms(1) CallEndpoint show ?thesis
    by (auto simp: signal_endpoint_def Let_def intro: emits_made)
qed (use assms(1) in \<open>auto simp: signal_endpoint_def intro: emits_none\<close>)

lemma signal_and_ledger_lawful:
  assumes "signal_and_ledger w cx i rc og reason base s = (s1, r)"
    and "cleared w a t0 (kh_calls s) i" "halted w t0 (kh_calls s) i"
  shows "emits (lawful w a og t0) s s1"
proof (cases "signal_endpoint w i rc og reason s")
  case (Pair s2 r2)
  from signal_endpoint_lawful [OF this assms(2,3)] have "emits (lawful w a og t0) s s2" .
  moreover have "emits (lawful w a og t0) s2 s1"
    using assms(1) Pair by (auto simp: signal_and_ledger_def intro: note_lawful emits_none split: sum.splits)
  ultimately show ?thesis by (rule emits_trans)
qed

lemma flip_lawful:
  assumes "flip_to_killed w cx i previous s = (s1, r)" "cleared w a t0 (kh_calls s) i"
  shows "emits (lawful w a og t0) s s1"
  using assms by (auto simp: flip_to_killed_def intro: emits_none set_status_lawful split: if_splits)

lemma flip_halts:
  assumes "read_agent w i s = (s1, Inr rc)" "flip_to_killed w cx i (status_or d rc) s1 = (s2, Inr ())"
    and "kh_calls s = t0 @ x" "d \<noteq> ''killed''"
  shows "halted w t0 (kh_calls s2) i"
proof (cases "status_or d rc = ''killed''")
  case True
  then have "ra_status rc = Some ''killed''" using assms(4) by (auto simp: status_or_def split: option.splits)
  moreover have "kh_calls s2 = t0 @ x @ GetAgent i # []" "get_agent (kw_agent w (t0 @ x) i) = Inr rc"
    using True assms read_agent_reads [OF assms(1)] by (auto simp: flip_to_killed_def)
  ultimately show ?thesis unfolding halted_def by blast
next
  case False
  then have "set_status w cx i ''killed'' s1 = (s2, Inr ())" using assms(2) by (simp add: flip_to_killed_def)
  from set_status_writes [OF this] read_agent_reads [OF assms(1)] assms(3)
  have "kh_calls s2 = t0 @ (x @ [GetAgent i]) @ SetStatus i ''killed'' (on_behalf cx) # []"
    "get_agent (kw_patch w (t0 @ x @ [GetAgent i]) i ''killed'') \<in> range Inr" by auto
  then show ?thesis unfolding halted_def by blast
qed

lemma status_or_retired: "status_or d rc \<noteq> ''retired'' \<Longrightarrow> ra_status rc \<noteq> Some ''retired''"
  by (auto simp: status_or_def)

lemma kill_one_lawful:
  assumes "kill_one w cx i oper reason og extra s = (s', r)" "kh_calls s = t0 @ x"
  shows "emits (lawful w (cx_auth cx) og t0) s s'"
proof -
  let ?L = "lawful w (cx_auth cx) og t0"
  obtain s1 r1 where rd: "read_agent w i s = (s1, r1)" by (cases "read_agent w i s")
  have e1: "emits ?L s s1" by (rule read_agent_lawful [OF rd])
  have "emits ?L s1 s'"
  proof (cases r1)
    case (Inr rc)
    with rd have rd': "read_agent w i s = (s1, Inr rc)" by simp
    show ?thesis
    proof (cases "may_act_on w cx rc s1 = Inr () \<and> status_or ''<unknown>'' rc \<noteq> ''retired''")
      case False
      with assms(1) rd' show ?thesis
        by (auto simp: kill_one_def Let_def intro: emits_none split: sum.splits if_splits)
    next
      case True
      have cl: "cleared w (cx_auth cx) t0 (kh_calls s1) i"
        using clearance [OF rd' _ _ assms(2)] True status_or_retired by blast
      obtain s2 r2 where fl: "flip_to_killed w cx i (status_or ''<unknown>'' rc) s1 = (s2, r2)"
        by (cases "flip_to_killed w cx i (status_or ''<unknown>'' rc) s1")
      have e2: "emits ?L s1 s2" by (rule flip_lawful [OF fl cl])
      show ?thesis
      proof (cases r2)
        case Inl
        with assms(1) rd' True fl e2 show ?thesis by (auto simp: kill_one_def Let_def)
      next
        case (Inr u)
        have h: "halted w t0 (kh_calls s2) i"
          using flip_halts [OF rd' _ assms(2), of cx "''<unknown>''" s2] fl Inr by simp
        let ?b = "[(''operator'', JStr oper), (''reason'', JStr reason)]"
        obtain s3 r3 where sg: "signal_and_ledger w cx i rc og reason ?b s2 = (s3, r3)"
          by (cases "signal_and_ledger w cx i rc og reason ?b s2")
        have e3: "emits ?L s2 s3"
          by (rule signal_and_ledger_lawful [OF sg emits_cleared [OF e2 cl] h])
        have "emits ?L s3 s'"
          using assms(1) rd' True fl Inr sg
          by (cases r3) (auto simp: kill_one_def Let_def finish_kill_def intro: emits_none note_lawful)
        with e2 e3 show ?thesis by (metis emits_trans)
      qed
    qed
  qed (use assms(1) rd in \<open>auto simp: kill_one_def intro: emits_none\<close>)
  with e1 show ?thesis by (rule emits_trans)
qed

lemma kill_each_lawful:
  "kill_each w cx oper reason og d agents t s = (s', r) \<Longrightarrow> kh_calls s = t0 @ x
    \<Longrightarrow> emits (lawful w (cx_auth cx) og t0) s s'"
proof (induction agents arbitrary: t s x)
  case Nil
  then show ?case by (auto intro: emits_none)
next
  case (Cons ir rest)
  let ?L = "lawful w (cx_auth cx) og t0"
  obtain i rc where ir: "ir = (i, rc)" by (cases ir)
  show ?case
  proof (cases "ra_status rc = Some ''retired''")
    case True
    with Cons ir show ?thesis by auto
  next
    case False
    obtain s1 r1 where k: "kill_one w cx i oper reason og [(''domain'', JStr d)] s = (s1, r1)"
      by (cases "kill_one w cx i oper reason og [(''domain'', JStr d)] s")
    have e1: "emits ?L s s1" by (rule kill_one_lawful [OF k Cons.prems(2)])
    then obtain y where y: "kh_calls s1 = t0 @ x @ y" using emits_prefix Cons.prems(2) by fastforce
    have next_ok: "emits ?L s s'" if "kill_each w cx oper reason og d rest t' s1 = (s', r)" for t'
      using Cons.IH [OF that y] e1 by (rule emits_trans [rotated])
    show ?thesis
    proof (cases r1)
      case (Inl e)
      with Cons.prems(1) ir False k e1 next_ok show ?thesis by (cases e) auto
    next
      case (Inr rep)
      with Cons.prems(1) ir False k next_ok show ?thesis by auto
    qed
  qed
qed

lemma bound_auth [simp]: "cx_auth (fst (bind_body_operator cx v)) = cx_auth cx"
  by (auto simp: bind_body_operator_def split: option.splits)

lemma guarded_auth:
  "guarded w action q = Inr (cx, oper) \<Longrightarrow> kw_auth w action = Inr (cx_auth cx)"
proof -
  assume "guarded w action q = Inr (cx, oper)"
  then obtain a where a: "kw_auth w action = Inr a" "bind_body_operator (context_of a) (kq_operator q) = (cx, oper)"
    by (auto simp: guarded_def split: sum.splits)
  from a(2) have "cx_auth cx = cx_auth (context_of a)" by (metis bound_auth fst_conv)
  with a(1) show ?thesis by (simp add: context_of_def)
qed

text \<open>The action a route is guarded with, and the origin header the request carried.\<close>

fun action_of :: "ks_request \<Rightarrow> string" where
  "action_of (Revive i q) = ''revive''"
| "action_of (Drill i q og) = ''drill''"
| "action_of r = ''kill''"

fun origin_of :: "ks_request \<Rightarrow> string option" where
  "origin_of (KillAgent i q og) = og"
| "origin_of (KillDomain d q og) = og"
| "origin_of (Drill i q og) = og"
| "origin_of r = None"

text \<open>What a request may do: reads and notes, and with the identity its guard proved every call by the rule.\<close>

definition acts :: "ks_call \<Rightarrow> bool" where
  "acts c = (case c of SetStatus _ _ _ \<Rightarrow> True | Signal _ _ _ \<Rightarrow> True | _ \<Rightarrow> False)"

definition by_the_rule :: "ks_world \<Rightarrow> string \<Rightarrow> string option \<Rightarrow> halt_state \<Rightarrow> halt_state \<Rightarrow> bool" where
  "by_the_rule w action og s s' =
     emits (\<lambda>t c. acts c \<longrightarrow> (\<exists>a. kw_auth w action = Inr a \<and> lawful w a og (kh_calls s) t c)) s s'"

lemma by_the_rule_none: "kh_calls s' = kh_calls s \<Longrightarrow> by_the_rule w action og s s'"
  by (auto simp: by_the_rule_def intro: emits_none)

lemma by_the_rule_reads:
  assumes "emits (\<lambda>t c. \<not> acts c) s s'"
  shows "by_the_rule w action og s s'"
  unfolding by_the_rule_def using assms by (rule emits_mono [rotated]) simp

lemma by_the_rule_auth:
  assumes "kw_auth w action = Inr a" "emits (lawful w a og (kh_calls s)) s s'"
  shows "by_the_rule w action og s s'"
  unfolding by_the_rule_def using assms(2) by (rule emits_mono [rotated]) (use assms(1) in auto)

lemma kill_agent_by_the_rule: "by_the_rule w ''kill'' og s (fst (kill_agent w i q og s))"
proof (cases "guarded w ''kill'' q")
  case (Inr b)
  obtain cx oper where b: "b = (cx, oper)" by (cases b)
  obtain s' r where k: "kill_one w cx i oper (kq_reason q) og [] s = (s', r)"
    by (cases "kill_one w cx i oper (kq_reason q) og [] s")
  have "fst (kill_agent w i q og s) = s'"
    using Inr b k by (auto simp: kill_agent_def split: sum.splits)
  with by_the_rule_auth [OF guarded_auth kill_one_lawful [OF k, of "kh_calls s" "[]"]] Inr b show ?thesis by simp
qed (simp add: kill_agent_def by_the_rule_none)

lemma kill_domain_by_the_rule: "by_the_rule w ''kill'' og s (fst (kill_domain w d q og s))"
proof (cases "guarded w ''kill'' q")
  case (Inr b)
  obtain cx oper where b: "b = (cx, oper)" by (cases b)
  let ?L = "lawful w (cx_auth cx) og (kh_calls s)" and ?s1 = "made (ListAgents (Some d) None) s"
  have e1: "emits ?L s ?s1" by (rule emits_made) simp
  have "emits ?L ?s1 (fst (kill_domain w d q og s))"
  proof (cases "kw_list w (kh_calls s) (Some d) None = None \<or> kw_list w (kh_calls s) (Some d) None = Some []")
    case True
    with Inr b show ?thesis by (auto simp: kill_domain_def Let_def intro: emits_none)
  next
    case False
    then obtain x xs where l: "kw_list w (kh_calls s) (Some d) None = Some (x # xs)" by (auto simp: neq_Nil_conv)
    obtain s2 r2 where k: "kill_each w cx oper (kq_reason q) og d (x # xs) no_tally ?s1 = (s2, r2)"
      by (cases "kill_each w cx oper (kq_reason q) og d (x # xs) no_tally ?s1")
    have e2: "emits ?L ?s1 s2" by (rule kill_each_lawful [OF k]) simp
    have "emits ?L s2 (fst (kill_domain w d q og s))"
      using Inr b l k
      by (cases r2) (simp_all add: kill_domain_def Let_def finish_domain_def emits_none note_lawful del: kill_each.simps)
    with e2 show ?thesis by (rule emits_trans)
  qed
  with e1 have "emits ?L s (fst (kill_domain w d q og s))" by (rule emits_trans)
  with by_the_rule_auth [OF guarded_auth] Inr b show ?thesis by blast
qed (simp add: kill_domain_def by_the_rule_none)

lemma revive_by_the_rule: "by_the_rule w ''revive'' og s (fst (revive w i q s))"
proof (cases "guarded w ''revive'' q")
  case (Inr b)
  obtain cx oper where b: "b = (cx, oper)" by (cases b)
  let ?L = "lawful w (cx_auth cx) og (kh_calls s)"
  obtain s1 r1 where rd: "read_agent w i s = (s1, r1)" by (cases "read_agent w i s")
  have e1: "emits ?L s s1" by (rule read_agent_lawful [OF rd])
  have "emits ?L s1 (fst (revive w i q s))"
  proof (cases "\<exists>rc. r1 = Inr rc \<and> may_act_on w cx rc s1 = Inr () \<and> ra_status rc \<noteq> Some ''retired''")
    case True
    then obtain rc where rc: "r1 = Inr rc" "may_act_on w cx rc s1 = Inr ()" "ra_status rc \<noteq> Some ''retired''" by blast
    have cl: "cleared w (cx_auth cx) (kh_calls s) (kh_calls s1) i"
      by (rule clearance [of _ _ _ _ rc _ _ "[]"]) (use rd rc in auto)
    obtain s2 r2 where st: "set_status w cx i ''active'' s1 = (s2, r2)" by (cases "set_status w cx i ''active'' s1")
    have e2: "emits ?L s1 s2" by (rule set_status_lawful [OF st cl])
    have "emits ?L s2 (fst (revive w i q s))"
      using Inr b rd rc st by (cases r2) (auto simp: revive_def Let_def intro: emits_none note_lawful)
    with e2 show ?thesis by (rule emits_trans)
  next
    case False
    with Inr b rd show ?thesis
      by (auto simp: revive_def intro: emits_none split: sum.splits)
  qed
  with e1 have "emits ?L s (fst (revive w i q s))" by (rule emits_trans)
  with by_the_rule_auth [OF guarded_auth] Inr b show ?thesis by blast
qed (simp add: revive_def by_the_rule_none)

lemma confirm_kill_lawful: "confirm_kill n w i s = (s', r) \<Longrightarrow> emits (lawful w a og t0) s s'"
proof (induction n arbitrary: s)
  case (Suc n)
  obtain s1 r1 where rd: "read_agent w i s = (s1, r1)" by (cases "read_agent w i s")
  have "emits (lawful w a og t0) s1 s'"
    using Suc rd by (cases r1) (auto intro: emits_none split: if_splits)
  with read_agent_lawful [OF rd] show ?case by (rule emits_trans)
qed (auto intro: emits_none)

lemma heartbeat_for_reads: "heartbeat_for w i s = (s', r) \<Longrightarrow> kh_calls s' = kh_calls s @ [GetAgent i]
    \<and> kh_beats s' = kh_beats s \<and> kh_gaps s' = kh_gaps s"
  by (auto simp: heartbeat_for_def read_agent_def made_def Let_def split: sum.splits)

lemma emits_one: "kh_calls s' = kh_calls s @ [c] \<Longrightarrow> P (kh_calls s) c \<Longrightarrow> emits P s s'"
  by (rule emitsI [where new = "[c]"]) (auto simp: append_eq_Cons_conv Cons_eq_append_conv)

lemma heartbeat_for_lawful: "heartbeat_for w i s = (s', r) \<Longrightarrow> emits (lawful w a og t0) s s'"
  by (drule heartbeat_for_reads) (auto intro: emits_one)

text \<open>The body of a drill starts with its write, which halts the agent before the signal.\<close>

lemma drill_body_lawful:
  assumes "drill_body w cx i rc oper reason og t1 s = (s', r)" "cleared w a t0 (kh_calls s) i" "kh_calls s = t0 @ x"
  shows "emits (lawful w a og t0) s s'"
proof -
  let ?L = "lawful w a og t0"
  obtain s1 r1 where st: "set_status w cx i ''killed'' s = (s1, r1)" by (cases "set_status w cx i ''killed'' s")
  have e1: "emits ?L s s1" by (rule set_status_lawful [OF st assms(2)])
  obtain s2 r2 where cf: "confirm_kill 100 w i s1 = (s2, r2)" by (cases "confirm_kill 100 w i s1")
  have e2: "emits ?L s1 s2" by (rule confirm_kill_lawful [OF cf])
  obtain s3 r3 where hb: "heartbeat_for w i s2 = (s3, r3)" by (cases "heartbeat_for w i s2")
  have e3: "emits ?L s2 s3" by (rule heartbeat_for_lawful [OF hb])
  let ?b = "[(''operator'', JStr oper), (''reason'', JStr reason), (''drill'', JBool True)]"
  obtain s4 r4 where sg: "signal_and_ledger w cx i rc og reason ?b s3 = (s4, r4)"
    by (cases "signal_and_ledger w cx i rc og reason ?b s3")
  have e4: "emits ?L s3 s4" if "r1 = Inr ()"
  proof (rule signal_and_ledger_lawful [OF sg])
    show "cleared w a t0 (kh_calls s3) i"
      using e1 e2 e3 assms(2) by (blast intro: emits_cleared)
    have "kh_calls s1 = t0 @ x @ SetStatus i ''killed'' (on_behalf cx) # []"
      "get_agent (kw_patch w (t0 @ x) i ''killed'') \<in> range Inr"
      using set_status_writes [OF st] assms(3) that by auto
    then have "halted w t0 (kh_calls s1) i" unfolding halted_def by blast
    then show "halted w t0 (kh_calls s3) i"
      using e2 e3 by (blast intro: emits_halted)
  qed
  have "s' \<in> {s1, s2, s3} \<or> (s' = s4 \<and> r1 = Inr ())"
    using assms(1) st cf hb sg by (auto simp: drill_body_def Let_def split: sum.splits bool.splits if_splits)
  then show ?thesis
    using e1 e2 e3 e4 by (blast intro: emits_trans)
qed

lemma restore_status_lawful:
  assumes "restore_status text_of w cx i oper previous s = (s', r)" "cleared w a t0 (kh_calls s) i"
  shows "emits (lawful w a og t0) s s'"
proof -
  let ?L = "lawful w a og t0"
  obtain s1 r1 where st: "set_status w cx i previous s = (s1, r1)" by (cases "set_status w cx i previous s")
  have e1: "emits ?L s s1" by (rule set_status_lawful [OF st assms(2)])
  obtain s2 r2 where rd: "read_agent w i s1 = (s2, r2)" by (cases "read_agent w i s1")
  have e2: "emits ?L s1 s2" by (rule read_agent_lawful [OF rd])
  have "emits ?L s1 s' \<or> emits ?L s2 s'"
    using assms(1) st rd
    by (cases r1; cases r2) (auto simp: restore_status_def restore_failed_def intro: note_lawful emits_none)
  with e1 e2 show ?thesis by (blast intro: emits_trans)
qed

lemma drill_by_the_rule: "by_the_rule w ''drill'' og s (fst (drill text_of w i q og s))"
proof (cases "guarded w ''drill'' q")
  case (Inr b)
  obtain cx oper where b: "b = (cx, oper)" by (cases b)
  let ?L = "lawful w (cx_auth cx) og (kh_calls s)" and ?last = "fst (drill text_of w i q og s)"
  obtain s1 r1 where rd: "read_agent w i s = (s1, r1)" by (cases "read_agent w i s")
  have e1: "emits ?L s s1" by (rule read_agent_lawful [OF rd])
  have "emits ?L s1 ?last"
  proof (cases "\<exists>rc. r1 = Inr rc \<and> may_act_on w cx rc s1 = Inr () \<and> status_or ''active'' rc \<noteq> ''retired''")
    case True
    then obtain rc where rc: "r1 = Inr rc" "may_act_on w cx rc s1 = Inr ()" "status_or ''active'' rc \<noteq> ''retired''" by blast
    let ?s2 = "note_event w cx ''kill.drill.start'' [(''operator'', JStr oper), (''reason'', JStr (kq_reason q))] (Some i) s1"
    have cl: "cleared w (cx_auth cx) (kh_calls s) (kh_calls s1) i"
      by (rule clearance [of _ _ _ _ rc _ _ "[]"]) (use rd rc status_or_retired in auto)
    have e2: "emits ?L s1 ?s2" by (rule note_lawful)
    obtain s3 r3 where bd: "drill_body w cx i rc oper (kq_reason q) og (kh_calls s) ?s2 = (s3, r3)"
      by (cases "drill_body w cx i rc oper (kq_reason q) og (kh_calls s) ?s2")
    have e3: "emits ?L ?s2 s3"
      by (rule drill_body_lawful [OF bd emits_cleared [OF e2 cl]]) (use read_agent_reads [OF rd] in simp)
    obtain s4 r4 where rs: "restore_status text_of w cx i oper (status_or ''active'' rc) s3 = (s4, r4)"
      by (cases "restore_status text_of w cx i oper (status_or ''active'' rc) s3")
    have e4: "emits ?L s3 s4"
      by (rule restore_status_lawful [OF rs emits_cleared [OF e3 emits_cleared [OF e2 cl]]])
    have "emits ?L s4 ?last"
      using Inr b rd rc bd rs
      by (cases r3) (auto simp: drill_def Let_def finish_drill_def intro: emits_none note_lawful)
    with e2 e3 e4 show ?thesis by (blast intro: emits_trans)
  next
    case False
    with Inr b rd show ?thesis
      by (auto simp: drill_def Let_def intro: emits_none split: sum.splits)
  qed
  with e1 have "emits ?L s ?last" by (rule emits_trans)
  with by_the_rule_auth [OF guarded_auth] Inr b show ?thesis by blast
qed (simp add: drill_def by_the_rule_none)

lemma reads_by_the_rule:
  "by_the_rule w act og s (fst (heartbeat w i s))" "by_the_rule w act og s (fst (checkin w i s))"
  "by_the_rule w act og s (fst (liveness w x s))"
proof -
  obtain s1 r1 where h: "heartbeat_for w i s = (s1, r1)" by (cases "heartbeat_for w i s")
  have "emits (\<lambda>t c. \<not> acts c) s (fst (heartbeat w i s))"
    using h heartbeat_for_reads [OF h] by (cases r1) (auto simp: heartbeat_def acts_def intro: emits_one)
  then show "by_the_rule w act og s (fst (heartbeat w i s))" by (rule by_the_rule_reads)
  have "emits (\<lambda>t c. \<not> acts c) s (fst (checkin w i s))"
    using h heartbeat_for_reads [OF h]
    by (cases r1) (auto simp: checkin_def acts_def Let_def intro: emits_one emits_none)
  then show "by_the_rule w act og s (fst (checkin w i s))" by (rule by_the_rule_reads)
  have "emits (\<lambda>t c. \<not> acts c) s (fst (liveness w x s))"
    by (auto simp: liveness_def acts_def Let_def intro: emits_one emits_none split: option.splits)
  then show "by_the_rule w act og s (fst (liveness w x s))" by (rule by_the_rule_reads)
qed

lemma serve_by_the_rule:
  "serve_ks text_of w r s = (s', out) \<Longrightarrow> by_the_rule w (action_of r) (origin_of r) s s'"
  using kill_agent_by_the_rule kill_domain_by_the_rule revive_by_the_rule drill_by_the_rule reads_by_the_rule
  by (cases r) (auto simp: serve_ks_def answer_as_def)

lemma serve_act_lawful:
  assumes "serve_ks text_of w r s = (s', out)" "kh_calls s' = kh_calls s @ pre @ c # post" "acts c"
  obtains a where "kw_auth w (action_of r) = Inr a" "lawful w a (origin_of r) (kh_calls s) (kh_calls s @ pre) c"
proof -
  have "acts c \<longrightarrow> (\<exists>a. kw_auth w (action_of r) = Inr a
      \<and> lawful w a (origin_of r) (kh_calls s) (kh_calls s @ pre) c)"
    using emitsD [OF serve_by_the_rule [OF assms(1), unfolded by_the_rule_def] assms(2)] .
  with assms(3) that show thesis by blast
qed

text \<open>no route of the kill switch writes a status it may not write. Whatever is answered, in between and in
  whatever order, every status write of a request (kill, domain halt, revive, drill and its restore) is for an
  agent that the same request read before it, whose record was then not retired, and whose manifest authorised the
  identity the route's guard proved.\<close>

lemma status_writes_are_cleared:
  assumes "serve_ks text_of w r s = (s', out)"
    and "kh_calls s' = kh_calls s @ pre @ SetStatus i st who # post"
  shows "\<exists>a p q rc. kw_auth w (action_of r) = Inr a \<and> pre = p @ GetAgent i # q
    \<and> get_agent (kw_agent w (kh_calls s @ p) i) = Inr rc \<and> ra_status rc \<noteq> Some ''retired''
    \<and> check_record_authorized a (kw_manifest w (kh_calls s @ p @ [GetAgent i]) (ra_manifest_ref rc)) = Inr ()"
proof -
  obtain a where "kw_auth w (action_of r) = Inr a" "cleared w a (kh_calls s) (kh_calls s @ pre) i"
    using serve_act_lawful [OF assms] by (auto simp: acts_def)
  then show ?thesis unfolding cleared_def by auto
qed

text \<open>C27: the halt signal follows the halt and stays where the guards let it. A signal leaves only for a request
  that did not carry the service's own origin header, with a known method, to an http or https URL whose exact host
  is on the allowlist at that moment and whose path is none of the service's own; and before it, in the same
  request, the registry acknowledged the agent's killed status or answered that it already had it.\<close>

theorem signals_follow_the_halt:
  assumes "serve_ks text_of w r s = (s', out)"
    and "kh_calls s' = kh_calls s @ pre @ Signal meth url hs # post"
  shows "\<exists>i parts h. \<not> from_us (origin_of r) \<and> meth \<in> set KNOWN_METHODS
    \<and> urlsplit (kw_ip_ok w) url = Some parts \<and> up_scheme parts \<in> {''http'', ''https''} \<and> hostname parts = Some h
    \<and> h \<in> set (allowlist (kw_allow w (kh_calls s @ pre))) \<and> \<not> is_self_endpoint (up_path parts) i
    \<and> halted w (kh_calls s) (kh_calls s @ pre) i"
proof -
  obtain i where "signal_allowed w (origin_of r) (kh_calls s @ pre) i meth url" "halted w (kh_calls s) (kh_calls s @ pre) i"
    using serve_act_lawful [OF assms] by (auto simp: acts_def lawful_def)
  then show ?thesis unfolding signal_allowed_def by blast
qed

section \<open>The ledger decides nothing\<close>

definition same :: "halt_state \<Rightarrow> halt_state \<Rightarrow> bool" where
  "same s t = (kh_calls s = kh_calls t \<and> kh_beats s = kh_beats t)"

definition same_out :: "halt_state \<times> 'a \<Rightarrow> halt_state \<times> 'a \<Rightarrow> bool" where
  "same_out p q = (same (fst p) (fst q) \<and> snd p = snd q)"

named_theorems same_intros

lemma same_refl [simp]: "same s s"
  by (simp add: same_def)

lemma same_ret [same_intros]: "same s t \<Longrightarrow> same_out (s, x) (t, x)"
  by (simp add: same_out_def)

lemma same_bind:
  "same_out p q \<Longrightarrow> (\<And>s t x. same s t \<Longrightarrow> same_out (k s x) (l t x))
    \<Longrightarrow> same_out (case p of (s, x) \<Rightarrow> k s x) (case q of (s, x) \<Rightarrow> l s x)"
  by (cases p; cases q) (auto simp: same_out_def)

lemma same_sum:
  "(\<And>e. x = Inl e \<Longrightarrow> same_out (k e) (k' e)) \<Longrightarrow> (\<And>y. x = Inr y \<Longrightarrow> same_out (l y) (l' y))
    \<Longrightarrow> same_out (case x of Inl e \<Rightarrow> k e | Inr y \<Rightarrow> l y) (case x of Inl e \<Rightarrow> k' e | Inr y \<Rightarrow> l' y)"
  by (cases x) auto

lemma same_if:
  "(b \<Longrightarrow> same_out x x') \<Longrightarrow> (\<not> b \<Longrightarrow> same_out y y') \<Longrightarrow> same_out (if b then x else y) (if b then x' else y')"
  by simp

lemma same_made [same_intros]: "same s t \<Longrightarrow> same (made c s) (made c t)"
  by (simp add: same_def made_def)

lemma same_note [same_intros]: "same s t \<Longrightarrow> same (note_event (w\<lparr>kw_ledger := f\<rparr>) cx e p a s) (note_event w cx e p a t)"
  by (simp add: same_def note_event_def made_def Let_def)

lemma same_read [same_intros]: "same s t \<Longrightarrow> same_out (read_agent (w\<lparr>kw_ledger := f\<rparr>) i s) (read_agent w i t)"
  by (simp add: same_out_def read_agent_def same_def made_def)

lemma same_write [same_intros]: "same s t \<Longrightarrow> same_out (set_status (w\<lparr>kw_ledger := f\<rparr>) cx i st s) (set_status w cx i st t)"
  by (simp add: same_out_def set_status_def same_def made_def)

lemma same_calls: "same s t \<Longrightarrow> kh_calls s = kh_calls t"
  by (simp add: same_def)

lemma same_signal [same_intros]:
  "same s t \<Longrightarrow> same_out (signal_endpoint (w\<lparr>kw_ledger := f\<rparr>) i rc og reason s) (signal_endpoint w i rc og reason t)"
  by (auto simp: signal_endpoint_def same_calls Let_def intro!: same_intros split: signal_plan.split)

lemmas same_steps = same_intros same_bind same_sum same_if

lemma same_signal_ledger [same_intros]: "same s t \<Longrightarrow> same_out (signal_and_ledger (w\<lparr>kw_ledger := f\<rparr>) cx i rc og reason b s)
    (signal_and_ledger w cx i rc og reason b t)"
  unfolding signal_and_ledger_def by (intro same_steps) assumption+

lemma same_may [simp]: "same s t \<Longrightarrow> may_act_on (w\<lparr>kw_ledger := f\<rparr>) cx rc s = may_act_on w cx rc t"
  by (simp add: may_act_on_def same_calls)

lemma same_flip [same_intros]:
  "same s t \<Longrightarrow> same_out (flip_to_killed (w\<lparr>kw_ledger := f\<rparr>) cx i st s) (flip_to_killed w cx i st t)"
  unfolding flip_to_killed_def by (intro same_steps) assumption+

lemma same_finish_kill: "same s t \<Longrightarrow> same_out (finish_kill (w\<lparr>kw_ledger := f\<rparr>) cx i oper reason st x t0 er s)
    (finish_kill w cx i oper reason st x t0 er t)"
  unfolding finish_kill_def by (auto simp: same_calls Let_def intro!: same_intros)

lemma same_kill_one [same_intros]: "same s t \<Longrightarrow> same_out (kill_one (w\<lparr>kw_ledger := f\<rparr>) cx i oper reason og x s)
    (kill_one w cx i oper reason og x t)"
proof -
  assume st: "same s t"
  note fin = same_bind [OF same_finish_kill]
  show ?thesis
    unfolding kill_one_def Let_def same_calls [OF st]
    by (rule same_bind, rule same_read [OF st], rule same_sum, erule same_ret,
        simp only: same_may, rule same_sum, erule same_ret, rule same_if, erule same_ret,
        rule same_bind, erule same_flip, rule same_sum, erule same_ret,
        rule same_bind, erule same_signal_ledger, rule same_sum, erule same_ret, rule fin, assumption, erule same_ret)
qed

lemma same_kill_each [same_intros]:
  "same s t \<Longrightarrow> same_out (kill_each (w\<lparr>kw_ledger := f\<rparr>) cx oper reason og d agents x s)
    (kill_each w cx oper reason og d agents x t)"
proof (induction agents arbitrary: x s t)
  case Nil
  then show ?case by (simp add: same_ret)
next
  case (Cons ir rest)
  obtain i rc where ir: "ir = (i, rc)" by (cases ir)
  show ?case
    unfolding ir kill_each.simps
    by (rule same_if, rule Cons.IH [OF Cons.prems], rule same_bind, rule same_kill_one [OF Cons.prems], rule same_sum)
      (auto split: kill_stop.splits intro: Cons.IH same_ret)
qed

lemma same_confirm [same_intros]:
  "same s t \<Longrightarrow> same_out (confirm_kill n (w\<lparr>kw_ledger := f\<rparr>) i s) (confirm_kill n w i t)"
proof (induction n arbitrary: s t)
  case (Suc n)
  show ?case
    unfolding confirm_kill.simps
    by (rule same_bind, rule same_read [OF Suc.prems], rule same_sum, erule same_ret, rule same_if, erule same_ret,
        erule Suc.IH)
qed (simp add: same_ret)

lemma same_heartbeat [same_intros]:
  assumes "same s t"
  shows "same_out (heartbeat_for (w\<lparr>kw_ledger := f\<rparr>) i s) (heartbeat_for w i t)"
  unfolding heartbeat_for_def Let_def same_calls [OF assms]
  by (rule same_bind, rule same_read [OF assms], rule same_sum) (auto intro: same_ret)

lemma same_drill_body [same_intros]:
  assumes "same s t"
  shows "same_out (drill_body (w\<lparr>kw_ledger := f\<rparr>) cx i rc oper reason og t0 s) (drill_body w cx i rc oper reason og t0 t)"
  unfolding drill_body_def
  apply (rule same_bind, rule same_write [OF assms], rule same_sum, erule same_ret)
  apply (rule same_bind, erule same_confirm, rule same_sum, erule same_ret)
  subgoal for s1 t1 x1 y1 s2 t2 x2 b
    apply (cases b)
     apply simp_all
     apply (rule same_bind, erule same_heartbeat, rule same_sum, erule same_ret)
    subgoal for s3 t3 x3 hb
      apply (cases hb)
      apply (simp only: prod.case)
      apply (rule same_if, erule same_ret, rule same_bind, erule same_signal_ledger, rule same_sum, erule same_ret)
      apply (simp add: same_calls same_out_def)
      done
    apply (erule same_ret)
    done
  done

lemma same_restore [same_intros]:
  assumes "same s t"
  shows "same_out (restore_status text_of (w\<lparr>kw_ledger := f\<rparr>) cx i oper st s) (restore_status text_of w cx i oper st t)"
  unfolding restore_status_def restore_failed_def
  by (rule same_bind, rule same_write [OF assms], rule same_sum, rule same_ret, erule same_note,
      rule same_bind, erule same_read, rule same_sum, rule same_ret, erule same_note, erule same_ret)

lemma same_guarded [simp]: "guarded (w\<lparr>kw_ledger := f\<rparr>) act q = guarded w act q"
  by (simp add: guarded_def)

lemma same_prod:
  "(\<And>a b. x = (a, b) \<Longrightarrow> same_out (k a b) (l a b)) \<Longrightarrow> same_out (case x of (a, b) \<Rightarrow> k a b) (case x of (a, b) \<Rightarrow> l a b)"
  by (cases x) auto

lemma same_kill_agent:
  "same_out (kill_agent (w\<lparr>kw_ledger := f\<rparr>) i q og s) (kill_agent w i q og s)"
  unfolding kill_agent_def same_guarded
  by (rule same_sum, rule same_ret, simp, rule same_prod, rule same_bind, rule same_kill_one, simp,
      rule same_sum, erule same_ret, erule same_ret)

lemma same_finish_domain:
  "same s t \<Longrightarrow> same_out (finish_domain (w\<lparr>kw_ledger := f\<rparr>) cx oper reason d t0 x s) (finish_domain w cx oper reason d t0 x t)"
  unfolding finish_domain_def by (auto simp: same_calls Let_def intro!: same_intros)

lemma same_kill_domain:
  "same_out (kill_domain (w\<lparr>kw_ledger := f\<rparr>) d q og s) (kill_domain w d q og s)"
proof (cases "guarded w ''kill'' q")
  case (Inr b)
  obtain cx oper where b: "b = (cx, oper)" by (cases b)
  have *: "same_out (case kill_each (w\<lparr>kw_ledger := f\<rparr>) cx oper (kq_reason q) og d agents no_tally s1 of
        (s2, Inl e) \<Rightarrow> (s2, Inl (Stopped (KillRaised e)))
      | (s2, Inr t) \<Rightarrow> finish_domain (w\<lparr>kw_ledger := f\<rparr>) cx oper (kq_reason q) d (kh_calls s) t s2)
     (case kill_each w cx oper (kq_reason q) og d agents no_tally s1 of
        (s2, Inl e) \<Rightarrow> (s2, Inl (Stopped (KillRaised e)))
      | (s2, Inr t) \<Rightarrow> finish_domain w cx oper (kq_reason q) d (kh_calls s) t s2)" for agents s1
    by (rule same_bind, rule same_kill_each, simp, rule same_sum, erule same_ret, erule same_finish_domain)
  show ?thesis
    using Inr b by (auto simp: kill_domain_def Let_def intro!: * same_ret simp del: kill_each.simps
        split: option.split list.split)
qed (auto simp: kill_domain_def intro: same_ret)

lemma same_revive: "same_out (revive (w\<lparr>kw_ledger := f\<rparr>) i q s) (revive w i q s)"
  unfolding revive_def same_guarded Let_def
  apply (rule same_sum, rule same_ret, simp, rule same_prod, rule same_bind, rule same_read, simp,
      rule same_sum, erule same_ret, simp only: same_may, rule same_sum, erule same_ret, rule same_if, erule same_ret,
      rule same_bind, erule same_write, rule same_sum, erule same_ret)
  by (simp add: same_calls same_out_def same_note)

lemma same_finish_drill:
  "same s t \<Longrightarrow> same_out (finish_drill (w\<lparr>kw_ledger := f\<rparr>) cx i oper t0 x b s) (finish_drill w cx i oper t0 x b t)"
  unfolding finish_drill_def by (auto simp: same_calls Let_def intro!: same_intros)

lemma same_drill: "same_out (drill text_of (w\<lparr>kw_ledger := f\<rparr>) i q og s) (drill text_of w i q og s)"
  unfolding drill_def same_guarded Let_def
  by (rule same_sum, rule same_ret, simp, rule same_prod, rule same_bind, rule same_read, simp,
      rule same_sum, erule same_ret, simp only: same_may, rule same_sum, erule same_ret, rule same_if, erule same_ret,
      rule same_bind, erule same_drill_body [OF same_note], rule same_bind, erule same_restore,
      rule same_sum, erule same_ret, erule same_finish_drill)

lemma same_answer: "same_out p q \<Longrightarrow> same_out (answer_as k p) (answer_as k q)"
  by (simp add: same_out_def answer_as_def)

lemma same_beat: "same_out (heartbeat (w\<lparr>kw_ledger := f\<rparr>) i s) (heartbeat w i s)"
  unfolding heartbeat_def by (rule same_bind, rule same_heartbeat, simp, rule same_sum) (auto intro: same_ret)

lemma same_checkin: "same_out (checkin (w\<lparr>kw_ledger := f\<rparr>) i s) (checkin w i s)"
  unfolding checkin_def Let_def
  by (rule same_if, rule same_ret, simp, rule same_bind, rule same_heartbeat, simp, rule same_sum)
    (auto simp: same_def intro!: same_ret)

lemma same_liveness: "same_out (liveness (w\<lparr>kw_ledger := f\<rparr>) x s) (liveness w x s)"
  by (auto simp: liveness_def same_out_def Let_def split: option.split)

text \<open>C28: a halt never waits on the audit. Whatever the ledger answers to the notes of a request (and however that
  changes from one note to the next), the request makes the same calls in the same order, leaves the same check-ins
  and gives the same answer; only the counter of lost notes can differ.\<close>

theorem ledger_never_decides:
  "snd (serve_ks text_of (w\<lparr>kw_ledger := f\<rparr>) r s) = snd (serve_ks text_of w r s)
   \<and> kh_calls (fst (serve_ks text_of (w\<lparr>kw_ledger := f\<rparr>) r s)) = kh_calls (fst (serve_ks text_of w r s))
   \<and> kh_beats (fst (serve_ks text_of (w\<lparr>kw_ledger := f\<rparr>) r s)) = kh_beats (fst (serve_ks text_of w r s))"
proof -
  have "same_out (serve_ks text_of (w\<lparr>kw_ledger := f\<rparr>) r s) (serve_ks text_of w r s)"
    by (cases r) (simp_all add: serve_ks_def same_answer same_kill_agent same_kill_domain same_revive same_drill same_beat
        same_checkin same_liveness)
  then show ?thesis by (simp add: same_out_def same_def)
qed

section \<open>The halt of a domain accounts for every agent\<close>

lemma signal_and_ledger_extends:
  "signal_and_ledger w cx i rc og reason b s = (s', r) \<Longrightarrow> \<exists>y. kh_calls s' = kh_calls s @ y"
  by (auto simp: signal_and_ledger_def signal_endpoint_def Let_def split: sum.splits prod.splits signal_plan.splits)

lemma kill_one_halts:
  assumes "kill_one w cx i oper reason og extra s = (s', Inr rep)" "kh_calls s = t0 @ x"
  shows "halted w t0 (kh_calls s') i"
proof -
  obtain s1 rc where rd: "read_agent w i s = (s1, Inr rc)"
    using assms(1) by (cases "read_agent w i s") (auto simp: kill_one_def split: sum.splits)
  obtain s2 u where fl: "flip_to_killed w cx i (status_or ''<unknown>'' rc) s1 = (s2, Inr u)"
    using assms(1) rd by (cases "flip_to_killed w cx i (status_or ''<unknown>'' rc) s1")
      (auto simp: kill_one_def Let_def split: sum.splits if_splits)
  have h: "halted w t0 (kh_calls s2) i"
    using flip_halts [OF rd _ assms(2), of cx "''<unknown>''" s2] fl by simp
  let ?b = "[(''operator'', JStr oper), (''reason'', JStr reason)]"
  obtain s3 er where sg: "signal_and_ledger w cx i rc og reason ?b s2 = (s3, Inr er)"
    using assms(1) rd fl by (cases "signal_and_ledger w cx i rc og reason ?b s2")
      (auto simp: kill_one_def Let_def split: sum.splits if_splits)
  have "\<exists>y. kh_calls s3 = kh_calls s2 @ y" by (rule signal_and_ledger_extends [OF sg])
  moreover have "\<exists>y. kh_calls s' = kh_calls s3 @ y"
    using assms(1) rd fl sg by (auto simp: kill_one_def Let_def finish_kill_def split: sum.splits if_splits)
  ultimately show ?thesis using h halted_later by (metis append.assoc)
qed

text \<open>What an entry of the report says of an agent the registry listed.\<close>

definition accounted :: "ks_world \<Rightarrow> ks_calls \<Rightarrow> ks_calls \<Rightarrow> string \<times> reg_agent \<Rightarrow> domain_agent_result \<Rightarrow> bool" where
  "accounted w t0 t a x = (case a of (i, rc) \<Rightarrow> da_agent x = i \<and>
     (case da_outcome x of
        DSkippedRetired \<Rightarrow> ra_status rc = Some ''retired''
      | DError \<Rightarrow> ra_status rc \<noteq> Some ''retired'' \<and> da_error x \<noteq> None
      | DAlreadyKilled \<Rightarrow> ra_status rc = Some ''killed'' \<and> halted w t0 t i
      | DKilled \<Rightarrow> ra_status rc \<noteq> Some ''retired'' \<and> ra_status rc \<noteq> Some ''killed'' \<and> halted w t0 t i))"

lemma accounted_later: "accounted w t0 t a x \<Longrightarrow> accounted w t0 (t @ y) a x"
  by (auto simp: accounted_def halted_later split: domain_outcome.splits)

lemma kill_each_accounts:
  "kill_each w cx oper reason og d agents t s = (s', Inr t') \<Longrightarrow> kh_calls s = t0 @ x
    \<Longrightarrow> \<exists>res. dt_results t' = dt_results t @ res \<and> list_all2 (accounted w t0 (kh_calls s')) agents res
      \<and> dt_killed t' = dt_killed t @ map da_agent (filter (\<lambda>r. da_outcome r = DKilled) res)
      \<and> dt_already t' = dt_already t @ map da_agent (filter (\<lambda>r. da_outcome r = DAlreadyKilled) res)
      \<and> dt_retired t' = dt_retired t @ map da_agent (filter (\<lambda>r. da_outcome r = DSkippedRetired) res)"
proof (induction agents arbitrary: t s x)
  case (Cons ir rest)
  let ?all = "\<lambda>t1 agents res. dt_results t' = dt_results t1 @ res \<and> list_all2 (accounted w t0 (kh_calls s')) agents res
      \<and> dt_killed t' = dt_killed t1 @ map da_agent (filter (\<lambda>r. da_outcome r = DKilled) res)
      \<and> dt_already t' = dt_already t1 @ map da_agent (filter (\<lambda>r. da_outcome r = DAlreadyKilled) res)
      \<and> dt_retired t' = dt_retired t1 @ map da_agent (filter (\<lambda>r. da_outcome r = DSkippedRetired) res)"
  obtain i rc where ir: "ir = (i, rc)" by (cases ir)
  show ?case
  proof (cases "ra_status rc = Some ''retired''")
    case True
    with Cons.prems(1) ir have "kill_each w cx oper reason og d rest (tally_retired i t) s = (s', Inr t')" by simp
    then obtain res where "?all (tally_retired i t) rest res" using Cons.IH Cons.prems(2) by blast
    then have "?all t (ir # rest) (\<lparr>da_agent = i, da_outcome = DSkippedRetired, da_previous = Some ''retired'',
        da_error = None, da_endpoint = None\<rparr> # res)"
      using True ir by (simp add: tally_retired_def accounted_def)
    then show ?thesis by blast
  next
    case False
    obtain s1 r1 where k: "kill_one w cx i oper reason og [(''domain'', JStr d)] s = (s1, r1)"
      by (cases "kill_one w cx i oper reason og [(''domain'', JStr d)] s")
    from kill_one_lawful [OF k Cons.prems(2)] obtain y where y: "kh_calls s1 = t0 @ x @ y"
      using emits_prefix Cons.prems(2) by fastforce
    show ?thesis
    proof (cases r1)
      case (Inl e)
      with Cons.prems(1) ir False k obtain code why where e: "e = KillHttp code why"
        and rest: "kill_each w cx oper reason og d rest (tally_error i (ra_status rc) code why t) s1 = (s', Inr t')"
        by (cases e) auto
      obtain res where "?all (tally_error i (ra_status rc) code why t) rest res" using Cons.IH [OF rest y] by blast
      then have "?all t (ir # rest) (\<lparr>da_agent = i, da_outcome = DError, da_previous = ra_status rc,
        da_error = Some (code, why), da_endpoint = None\<rparr> # res)"
        using False ir by (simp add: tally_error_def accounted_def)
      then show ?thesis by blast
    next
      case (Inr rep)
      let ?was = "ra_status rc = Some ''killed''"
      from Cons.prems(1) ir False k Inr
      have rest: "kill_each w cx oper reason og d rest (tally_kill i ?was rep t) s1 = (s', Inr t')" by simp
      obtain z where "kh_calls s' = kh_calls s1 @ z"
        using emits_prefix [OF kill_each_lawful [OF rest y]] by blast
      with kill_one_halts [OF k [unfolded Inr] Cons.prems(2)] have h: "halted w t0 (kh_calls s') i"
        by (simp add: halted_later)
      obtain res where "?all (tally_kill i ?was rep t) rest res" using Cons.IH [OF rest y] by blast
      then have "?all t (ir # rest) (\<lparr>da_agent = i, da_outcome = (if ?was then DAlreadyKilled else DKilled),
        da_previous = Some (kr_previous rep), da_error = None, da_endpoint = Some (kr_endpoint rep)\<rparr> # res)"
        using False ir h by (auto simp: tally_kill_def Let_def accounted_def)
      then show ?thesis by blast
    qed
  qed
qed simp

text \<open>a domain halt that answers accounts for every agent the registry listed, in order and once each, also when
  its answer is the 502 of a halt in which every attempt failed: an agent reported killed (or already killed) was
  acknowledged as killed in this request, a skipped one was listed retired, every other one carries its error, and
  the three lists of the report are those outcomes.\<close>

lemma domain_halt_accounts_for_all:
  assumes "kill_domain w d q og s = (s', out)" and "kw_list w (kh_calls s) (Some d) None = Some agents"
    and "out = Inr rep \<or> out = Inl (DomainFailed rep)"
  shows "list_all2 (accounted w (kh_calls s) (kh_calls s')) agents (dt_results (dr_tally rep))
    \<and> dt_killed (dr_tally rep) = map da_agent (filter (\<lambda>r. da_outcome r = DKilled) (dt_results (dr_tally rep)))
    \<and> dt_already (dr_tally rep) = map da_agent (filter (\<lambda>r. da_outcome r = DAlreadyKilled) (dt_results (dr_tally rep)))
    \<and> dt_retired (dr_tally rep) = map da_agent (filter (\<lambda>r. da_outcome r = DSkippedRetired) (dt_results (dr_tally rep)))
    \<and> (out = Inl (DomainFailed rep) \<longleftrightarrow> all_attempts_failed (dr_tally rep))"
proof -
  obtain cx oper where g: "guarded w ''kill'' q = Inr (cx, oper)"
    using assms(1,3) by (auto simp: kill_domain_def guarded_def split: sum.splits)
  let ?s1 = "made (ListAgents (Some d) None) s"
  obtain s2 r2 where k: "kill_each w cx oper (kq_reason q) og d agents no_tally ?s1 = (s2, r2)"
    by (cases "kill_each w cx oper (kq_reason q) og d agents no_tally ?s1")
  have ne: "agents \<noteq> []" using assms g by (auto simp: kill_domain_def Let_def)
  with assms g k have *: "(case r2 of Inl e \<Rightarrow> (s2, Inl (Stopped (KillRaised e)))
      | Inr t \<Rightarrow> finish_domain w cx oper (kq_reason q) d (kh_calls s) t s2) = (s', out)"
    by (cases agents) (auto simp: kill_domain_def Let_def simp del: kill_each.simps)
  with assms(3) obtain t where t: "r2 = Inr t" by (cases r2) auto
  with * assms(3) have f: "dr_tally rep = t" "out = Inl (DomainFailed rep) \<longleftrightarrow> all_attempts_failed t"
    and "\<exists>y. kh_calls s' = kh_calls s2 @ y"
    by (auto simp: finish_domain_def Let_def split: if_splits)
  then obtain y where y: "kh_calls s' = kh_calls s2 @ y" by blast
  have "\<exists>res. dt_results t = dt_results no_tally @ res \<and> list_all2 (accounted w (kh_calls s) (kh_calls s2)) agents res
      \<and> dt_killed t = dt_killed no_tally @ map da_agent (filter (\<lambda>r. da_outcome r = DKilled) res)
      \<and> dt_already t = dt_already no_tally @ map da_agent (filter (\<lambda>r. da_outcome r = DAlreadyKilled) res)
      \<and> dt_retired t = dt_retired no_tally @ map da_agent (filter (\<lambda>r. da_outcome r = DSkippedRetired) res)"
    by (rule kill_each_accounts [OF k [unfolded t]]) simp
  then show ?thesis
    using f y by (auto simp: no_tally_def intro: list_all2_mono [OF _ accounted_later])
qed

lemma urlsplit_blank: "urlsplit ip_ok [] \<noteq> None"
  by (simp add: urlsplit_def split_scheme_def before_def Let_def)

lemma kill_each_append:
  "kill_each w cx oper reason og d pre t s = (s', Inr t')
    \<Longrightarrow> kill_each w cx oper reason og d (pre @ rest) t s = kill_each w cx oper reason og d rest t' s'"
proof (induction pre arbitrary: t s)
  case (Cons ir pre)
  then show ?case by (cases ir) (auto split: sum.splits kill_stop.splits prod.splits if_splits)
qed simp

text \<open>C30: one malformed endpoint aborts the halt of the rest of a domain. The halt has passed the agents before it in
  the listing, whatever came of them (the state \<open>s2\<close>), and the manifest of the next one that is not retired, which the
  operator may act on and whose status write, where one is needed, is acknowledged, names an endpoint
  \<open>urlsplit\<close> raises on (unbalanced brackets in the host): its status is flipped, then the exception leaves the route.
  The calls after \<open>s2\<close> are that agent's read and its status write: no agent after it is halted or even read, and
  neither its own note nor the one of the whole halt is attempted; only the notes of the agents before it were.\<close>

theorem malformed_endpoint_aborts_domain_halt:
  assumes "guarded w ''kill'' q = Inr (cx, oper)"
    and "kw_list w (kh_calls s) (Some d) None = Some (pre @ (i, listed) # rest)" "ra_status listed \<noteq> Some ''retired''"
    and "kill_each w cx oper (kq_reason q) og d pre no_tally (made (ListAgents (Some d) None) s) = (s2, Inr tally)"
    and "get_agent (kw_agent w (kh_calls s2) i) = Inr rc" and t: "t = kh_calls s2 @ [GetAgent i]"
    and "previous = status_or ''<unknown>'' rc" "previous \<noteq> ''retired''"
    and "check_record_authorized (cx_auth cx) (kw_manifest w t (ra_manifest_ref rc)) = Inr ()"
    and "previous = ''killed'' \<or> get_agent (kw_patch w t i ''killed'') = Inr rc'" "\<not> from_us og"
    and u: "u = t @ (if previous = ''killed'' then [] else [SetStatus i ''killed'' (on_behalf cx)])"
    and "kw_manifest w u (ra_manifest_ref rc) = (Some m, why)"
    and "urlsplit (kw_ip_ok w) (ks_endpoint (en_kill_switch (mf_enforcement m))) = None"
  shows "kh_calls (fst (kill_domain w d q og s)) = u
    \<and> snd (kill_domain w d q og s) = Inl (Stopped (KillRaised UrlError))"
proof -
  have ne: "ks_endpoint (en_kill_switch (mf_enforcement m)) \<noteq> []"
    using assms(14) urlsplit_blank by metis
  let ?s1 = "made (ListAgents (Some d) None) s"
  obtain s3 where s3: "flip_to_killed w cx i previous (made (GetAgent i) s2) = (s3, Inr ())" "kh_calls s3 = u"
    using assms(10) by (cases "previous = ''killed''") (auto simp: flip_to_killed_def set_status_def t u)
  have "signal_endpoint w i rc og (kq_reason q) s3 = (s3, Inl UrlError)"
    using assms ne s3(2) by (simp add: signal_endpoint_def plan_signal_def Let_def)
  then have one: "kill_one w cx i oper (kq_reason q) og [(''domain'', JStr d)] s2 = (s3, Inl (KillRaised UrlError))"
    using assms(5,8,9) s3(1)
    by (simp add: kill_one_def read_agent_def may_act_on_def Let_def signal_and_ledger_def flip: assms(7) t)
  have "kill_each w cx oper (kq_reason q) og d (pre @ (i, listed) # rest) no_tally ?s1 = (s3, Inl UrlError)"
    unfolding kill_each_append [OF assms(4)] using one assms(3) by simp
  then show ?thesis
    using assms(1,2) s3(2) by (cases pre) (simp_all add: kill_domain_def Let_def del: kill_each.simps)
qed

section \<open>The drill writes the status back\<close>

definition writes_status :: "ks_call \<Rightarrow> bool" where
  "writes_status c = (case c of SetStatus _ _ _ \<Rightarrow> True | _ \<Rightarrow> False)"

lemma confirm_kill_extends: "confirm_kill n w i s = (s', r) \<Longrightarrow> \<exists>y. kh_calls s' = kh_calls s @ y"
  by (rule emits_prefix [OF confirm_kill_lawful])

lemma drill_body_starts:
  assumes "drill_body w cx i rc oper reason og t1 s = (s', r)"
  shows "\<exists>y. kh_calls s' = kh_calls s @ SetStatus i ''killed'' (on_behalf cx) # y"
proof -
  obtain s1 r1 where st: "set_status w cx i ''killed'' s = (s1, r1)" by (cases "set_status w cx i ''killed'' s")
  obtain s2 r2 where cf: "confirm_kill 100 w i s1 = (s2, r2)" by (cases "confirm_kill 100 w i s1")
  obtain s3 r3 where hb: "heartbeat_for w i s2 = (s3, r3)" by (cases "heartbeat_for w i s2")
  let ?b = "[(''operator'', JStr oper), (''reason'', JStr reason), (''drill'', JBool True)]"
  obtain s4 r4 where sg: "signal_and_ledger w cx i rc og reason ?b s3 = (s4, r4)"
    by (cases "signal_and_ledger w cx i rc og reason ?b s3")
  have "s' \<in> {s1, s2, s3, s4}"
    using assms st cf hb sg by (auto simp: drill_body_def Let_def split: sum.splits bool.splits if_splits)
  then show ?thesis
    using set_status_writes [OF st] confirm_kill_extends [OF cf] heartbeat_for_reads [OF hb] signal_and_ledger_extends [OF sg]
    by auto
qed

lemma restore_status_writes_last:
  assumes "restore_status text_of w cx i oper previous s = (s', b, shown)"
  shows "\<exists>post. kh_calls s' = kh_calls s @ SetStatus i previous (on_behalf cx) # post \<and> \<not> list_ex writes_status post
    \<and> (b \<longrightarrow> (\<exists>rc. post = [GetAgent i] \<and> get_agent (kw_agent w (kh_calls s @ [SetStatus i previous (on_behalf cx)]) i) = Inr rc
        \<and> status_shown rc = previous))"
proof -
  obtain s1 r1 where st: "set_status w cx i previous s = (s1, r1)" by (cases "set_status w cx i previous s")
  obtain s2 r2 where rd: "read_agent w i s1 = (s2, r2)" by (cases "read_agent w i s1")
  from set_status_writes [OF st] read_agent_reads [OF rd] have c:
    "kh_calls s1 = kh_calls s @ [SetStatus i previous (on_behalf cx)]"
    "kh_calls s2 = kh_calls s @ [SetStatus i previous (on_behalf cx), GetAgent i]"
    "r2 = get_agent (kw_agent w (kh_calls s @ [SetStatus i previous (on_behalf cx)]) i)" by auto
  show ?thesis
    using assms st rd c
    by (cases r1) (auto simp: restore_status_def restore_failed_def writes_status_def split: sum.splits)
qed

text \<open>C29: a drill always writes the agent's status back. Once a drill has written a status at all, whatever fails
  after that (the confirmation, the heartbeat, an exception of the signal), its last status write puts back the
  status it read first, after the write of \<open>killed\<close>; and a drill that answers with success read that status back from
  the registry after the restore.\<close>

theorem drill_always_restores:
  assumes "drill text_of w i q og s = (s', out)" "kh_calls s' = kh_calls s @ new" "list_ex writes_status new"
  shows "\<exists>rc who pre post. get_agent (kw_agent w (kh_calls s) i) = Inr rc
    \<and> new = GetAgent i # pre @ SetStatus i (status_or ''active'' rc) who # post
    \<and> SetStatus i ''killed'' who \<in> set pre \<and> \<not> list_ex writes_status post
    \<and> (out \<in> range Inr \<longrightarrow> (\<exists>rc' q. post = GetAgent i # q
        \<and> get_agent (kw_agent w (kh_calls s @ GetAgent i # pre @ [SetStatus i (status_or ''active'' rc) who]) i) = Inr rc'
        \<and> status_shown rc' = status_or ''active'' rc))"
proof -
  obtain cx oper where g: "guarded w ''drill'' q = Inr (cx, oper)"
    using assms by (auto simp: drill_def split: sum.splits)
  obtain s1 r1 where rd: "read_agent w i s = (s1, r1)" by (cases "read_agent w i s")
  have c1: "kh_calls s1 = kh_calls s @ [GetAgent i]" "r1 = get_agent (kw_agent w (kh_calls s) i)"
    using read_agent_reads [OF rd] by auto
  have "\<exists>rc. r1 = Inr rc \<and> may_act_on w cx rc s1 = Inr () \<and> status_or ''active'' rc \<noteq> ''retired''"
    using assms g rd c1(1)
    by (auto simp: drill_def Let_def writes_status_def split: sum.splits if_splits)
  then obtain rc where rc: "r1 = Inr rc" "may_act_on w cx rc s1 = Inr ()" "status_or ''active'' rc \<noteq> ''retired''" by blast
  let ?note = "[(''operator'', JStr oper), (''reason'', JStr (kq_reason q))]"
  let ?s2 = "note_event w cx ''kill.drill.start'' ?note (Some i) s1"
  obtain s3 r3 where bd: "drill_body w cx i rc oper (kq_reason q) og (kh_calls s) ?s2 = (s3, r3)"
    by (cases "drill_body w cx i rc oper (kq_reason q) og (kh_calls s) ?s2")
  obtain s4 b shown where rs: "restore_status text_of w cx i oper (status_or ''active'' rc) s3 = (s4, b, shown)"
    by (cases "restore_status text_of w cx i oper (status_or ''active'' rc) s3") auto
  let ?who = "on_behalf cx" and ?start = "LedgerNote ''kill.drill.start'' (merge_payload (kw_env w) cx ?note) (Some i)"
  obtain y where y: "kh_calls s3 = kh_calls ?s2 @ SetStatus i ''killed'' ?who # y"
    using drill_body_starts [OF bd] by blast
  let ?pre = "?start # SetStatus i ''killed'' ?who # y"
  have c3: "kh_calls s3 = kh_calls s @ GetAgent i # ?pre" using y c1(1) by simp
  obtain post where post: "kh_calls s4 = kh_calls s3 @ SetStatus i (status_or ''active'' rc) ?who # post"
    "\<not> list_ex writes_status post"
    "b \<longrightarrow> (\<exists>rc'. post = [GetAgent i] \<and> status_shown rc' = status_or ''active'' rc
       \<and> get_agent (kw_agent w (kh_calls s3 @ [SetStatus i (status_or ''active'' rc) ?who]) i) = Inr rc')"
    using restore_status_writes_last [OF rs] by blast
  have fin: "\<exists>z. kh_calls s' = kh_calls s4 @ z \<and> \<not> list_ex writes_status z" and ok: "out \<in> range Inr \<longrightarrow> b"
    using assms(1) g rd rc bd rs
    by (cases r3; auto simp: drill_def Let_def finish_drill_def writes_status_def split: if_splits)+
  then obtain z where z: "kh_calls s' = kh_calls s4 @ z" "\<not> list_ex writes_status z" by blast
  have "new = GetAgent i # ?pre @ SetStatus i (status_or ''active'' rc) ?who # (post @ z)"
    using assms(2) z(1) post(1) c3 by simp
  moreover have "get_agent (kw_agent w (kh_calls s) i) = Inr rc" using c1 rc by simp
  moreover have "\<not> list_ex writes_status (post @ z)" using post(2) z(2) by simp
  moreover have "out \<in> range Inr \<longrightarrow> (\<exists>rc' q. post @ z = GetAgent i # q
      \<and> get_agent (kw_agent w (kh_calls s @ GetAgent i # ?pre @ [SetStatus i (status_or ''active'' rc) ?who]) i) = Inr rc'
      \<and> status_shown rc' = status_or ''active'' rc)"
    using ok post(3) c3 by auto
  moreover have "SetStatus i ''killed'' ?who \<in> set ?pre" by simp
  ultimately show ?thesis
    by - (rule exI [of _ rc], rule exI [of _ ?who], rule exI [of _ ?pre], rule exI [of _ "post @ z"], intro conjI)
qed

section \<open>A service that shows the hypotheses can hold\<close>

text \<open>Two active agents of one domain, a registry that takes every write (and then answers \<open>killed\<close> until the
  status is written again), a manifest with the given endpoint, and a ledger that never answers.\<close>

fun last_status :: "ks_calls \<Rightarrow> string" where
  "last_status [] = ''active''"
| "last_status (SetStatus i st who # t) = st"
| "last_status (c # t) = last_status t"

definition demo_halt_world :: "string \<Rightarrow> ks_world" where
  "demo_halt_world endpoint = \<lparr>kw_env = \<lparr>env_require = [], env_registry = []\<rparr>, kw_auth = (\<lambda>_. Inr NO_AUTH),
     kw_agent = (\<lambda>t i. RegistryAgent \<lparr>ra_status = Some (last_status (rev t)), ra_manifest_ref = Some ''m''\<rparr>),
     kw_list = (\<lambda>t d st. Some [(''a1'', \<lparr>ra_status = Some ''active'', ra_manifest_ref = Some ''m''\<rparr>),
       (''a2'', \<lparr>ra_status = Some ''retired'', ra_manifest_ref = None\<rparr>)]),
     kw_patch = (\<lambda>t i st. RegistryAgent \<lparr>ra_status = Some st, ra_manifest_ref = Some ''m''\<rparr>),
     kw_manifest = (\<lambda>t r. (Some ((demo_manifest [])\<lparr>mf_enforcement := (mf_enforcement (demo_manifest []))\<lparr>en_kill_switch :=
       (en_kill_switch (mf_enforcement (demo_manifest [])))\<lparr>ks_endpoint := endpoint\<rparr>\<rparr>\<rparr>), RR_ok)),
     kw_signal = (\<lambda>t u. Answered (Some 204)), kw_ledger = (\<lambda>_. False), kw_allow = (\<lambda>_. ''Ops.example''),
     kw_ip_ok = (\<lambda>_. False), kw_now = (\<lambda>_. epoch), kw_elapsed = (\<lambda>t0 t. ''0.5'')\<rparr>"

definition demo_kill_request :: kill_request where
  "demo_kill_request = \<lparr>kq_operator = ''don'', kq_reason = ''x3-7''\<rparr>"

definition demo_halt_state :: halt_state where
  "demo_halt_state = \<lparr>kh_calls = [], kh_gaps = 0, kh_beats = []\<rparr>"

definition demo_kill :: "halt_state \<times> (ks_stop + ks_answer)" where
  "demo_kill = serve_ks (\<lambda>_. []) (demo_halt_world ''http://ops.example/stop'') (KillAgent ''a1'' demo_kill_request None)
     demo_halt_state"

abbreviation demo_url :: string where "demo_url \<equiv> ''http://ops.example/stop''"

lemma demo_kill_calls:
  "kh_calls (fst demo_kill) = [GetAgent ''a1'', SetStatus ''a1'' ''killed'' None,
     Signal ''POST'' demo_url [(''x-field-kill-origin'', ''kill-switch''), (''x-field-kill-reason'', ''x3-7'')],
     LedgerNote ''kill.endpoint_called''
       [(''operator'', JStr ''don''), (''reason'', JStr ''x3-7''), (''outcome'', JStr ''called''),
        (''endpoint_host'', JStr ''ops.example''), (''method'', JStr ''POST''), (''http_status'', JInt 204),
        (''elapsed_ms'', JFloat ''0.5'')] (Some ''a1''),
     LedgerNote ''kill.agent'' [(''operator'', JStr ''don''), (''reason'', JStr ''x3-7''),
        (''previous_status'', JStr ''active''), (''elapsed_ms'', JFloat ''0.5'')] (Some ''a1'')]"
  by code_simp

lemma demo_kill_run:
  "serve_ks (\<lambda>_. []) (demo_halt_world demo_url) (KillAgent ''a1'' demo_kill_request None) demo_halt_state
     = (fst demo_kill, snd demo_kill)"
  by (simp add: demo_kill_def)

lemma status_writes_are_cleared_witness:
  "\<exists>p q. [GetAgent ''a1''] = p @ GetAgent ''a1'' # q"
proof -
  have "kh_calls (fst demo_kill) = kh_calls demo_halt_state @ [GetAgent ''a1''] @ SetStatus ''a1'' ''killed'' None
      # tl (tl (kh_calls (fst demo_kill)))"
    unfolding demo_kill_calls by (simp add: demo_halt_state_def)
  from status_writes_are_cleared [OF demo_kill_run this] show ?thesis by blast
qed

lemma signals_follow_the_halt_witness:
  "\<exists>i. halted (demo_halt_world demo_url) [] [GetAgent ''a1'', SetStatus ''a1'' ''killed'' None] i"
proof -
  have "kh_calls (fst demo_kill) = kh_calls demo_halt_state @ [GetAgent ''a1'', SetStatus ''a1'' ''killed'' None]
      @ Signal ''POST'' demo_url [(''x-field-kill-origin'', ''kill-switch''), (''x-field-kill-reason'', ''x3-7'')]
      # tl (tl (tl (kh_calls (fst demo_kill))))"
    unfolding demo_kill_calls by (simp add: demo_halt_state_def)
  from signals_follow_the_halt [OF demo_kill_run this] obtain i where
    "halted (demo_halt_world demo_url) (kh_calls demo_halt_state)
       (kh_calls demo_halt_state @ [GetAgent ''a1'', SetStatus ''a1'' ''killed'' None]) i" by blast
  then show ?thesis unfolding demo_halt_state_def by auto
qed

definition demo_domain_halt :: "halt_state \<times> (ks_stop + domain_report)" where
  "demo_domain_halt = kill_domain (demo_halt_world demo_url) ''d'' demo_kill_request None demo_halt_state"

lemma demo_domain_answers: "case snd demo_domain_halt of Inr rep \<Rightarrow> dt_killed (dr_tally rep) = [''a1''] | Inl e \<Rightarrow> False"
  by code_simp

lemma domain_halt_accounts_for_all_witness:
  "\<exists>rep :: domain_report. list_all2 (accounted (demo_halt_world demo_url) [] (kh_calls (fst demo_domain_halt)))
     [(''a1'', \<lparr>ra_status = Some ''active'', ra_manifest_ref = Some ''m''\<rparr>),
      (''a2'', \<lparr>ra_status = Some ''retired'', ra_manifest_ref = None\<rparr>)] (dt_results (dr_tally rep))"
proof -
  obtain rep where rep: "snd demo_domain_halt = Inr rep"
    using demo_domain_answers by (auto split: sum.splits)
  have run: "kill_domain (demo_halt_world demo_url) ''d'' demo_kill_request None demo_halt_state
      = (fst demo_domain_halt, Inr rep)"
    using rep by (metis demo_domain_halt_def prod.collapse)
  have l: "kw_list (demo_halt_world demo_url) (kh_calls demo_halt_state) (Some ''d'') None
      = Some [(''a1'', \<lparr>ra_status = Some ''active'', ra_manifest_ref = Some ''m''\<rparr>),
        (''a2'', \<lparr>ra_status = Some ''retired'', ra_manifest_ref = None\<rparr>)]"
    by (simp add: demo_halt_world_def)
  from domain_halt_accounts_for_all [OF run l, of rep]
  have "list_all2 (accounted (demo_halt_world demo_url) (kh_calls demo_halt_state) (kh_calls (fst demo_domain_halt)))
     [(''a1'', \<lparr>ra_status = Some ''active'', ra_manifest_ref = Some ''m''\<rparr>),
      (''a2'', \<lparr>ra_status = Some ''retired'', ra_manifest_ref = None\<rparr>)] (dt_results (dr_tally rep))" by simp
  then show ?thesis by (simp only: demo_halt_state_def halt_state.simps) (rule exI)
qed

lemma demo_malformed: "urlsplit (\<lambda>_. False) ''http://[x'' = None"
  by code_simp

lemma demo_bound: "guarded (demo_halt_world u) ''kill'' demo_kill_request = Inr (context_of NO_AUTH, ''don'')"
  by (simp add: guarded_def demo_halt_world_def demo_kill_request_def bind_body_operator_def context_of_def NO_AUTH_def
      unproven_def)

text \<open>A domain of three: the first has no manifest, the second's endpoint is malformed, the third is never read.\<close>

definition demo_domain_world :: ks_world where
  "demo_domain_world = (let w = demo_halt_world ''http://[x'' in w
     \<lparr>kw_list := (\<lambda>_ _ _. Some
        [(''a0'', \<lparr>ra_status = Some ''active'', ra_manifest_ref = None\<rparr>),
         (''a1'', \<lparr>ra_status = Some ''active'', ra_manifest_ref = Some ''m''\<rparr>),
         (''a2'', \<lparr>ra_status = Some ''active'', ra_manifest_ref = Some ''m''\<rparr>)]),
      kw_agent := (\<lambda>_ i. RegistryAgent
        \<lparr>ra_status = Some ''active'', ra_manifest_ref = if i = ''a0'' then None else Some ''m''\<rparr>),
      kw_manifest := (\<lambda>t r. if r = None then (None, RR_no_ref) else kw_manifest w t r)\<rparr>)"

definition demo_first :: "halt_state \<times> (ks_exception + domain_tally)" where
  "demo_first = kill_each demo_domain_world (context_of NO_AUTH) ''don'' (kq_reason demo_kill_request) None ''d''
     [(''a0'', \<lparr>ra_status = Some ''active'', ra_manifest_ref = None\<rparr>)] no_tally
     (made (ListAgents (Some ''d'') None) demo_halt_state)"

lemma demo_first_passes: "case snd demo_first of Inr t \<Rightarrow> dt_killed t = [''a0''] | Inl _ \<Rightarrow> False"
  by code_simp

lemma malformed_endpoint_aborts_domain_halt_witness:
  "\<exists>t. kh_calls (fst (kill_domain demo_domain_world ''d'' demo_kill_request None demo_halt_state))
       = t @ [GetAgent ''a1'', SetStatus ''a1'' ''killed'' None]
     \<and> snd (kill_domain demo_domain_world ''d'' demo_kill_request None demo_halt_state) = Inl (Stopped (KillRaised UrlError))"
proof -
  obtain tally where "snd demo_first = Inr tally" using demo_first_passes by (auto split: sum.splits)
  then have pre: "kill_each demo_domain_world (context_of NO_AUTH) ''don'' (kq_reason demo_kill_request) None ''d''
     [(''a0'', \<lparr>ra_status = Some ''active'', ra_manifest_ref = None\<rparr>)] no_tally
     (made (ListAgents (Some ''d'') None) demo_halt_state) = (fst demo_first, Inr tally)"
    by (metis demo_first_def prod.collapse)
  have bound: "guarded demo_domain_world ''kill'' demo_kill_request = Inr (context_of NO_AUTH, ''don'')"
    by (simp add: guarded_def demo_domain_world_def demo_halt_world_def demo_kill_request_def bind_body_operator_def
        context_of_def NO_AUTH_def unproven_def Let_def)
  have "kh_calls (fst (kill_domain demo_domain_world ''d'' demo_kill_request None demo_halt_state))
      = (kh_calls (fst demo_first) @ [GetAgent ''a1'']) @ (if ''active'' = ''killed'' then []
          else [SetStatus ''a1'' ''killed'' (on_behalf (context_of NO_AUTH))])
    \<and> snd (kill_domain demo_domain_world ''d'' demo_kill_request None demo_halt_state) = Inl (Stopped (KillRaised UrlError))"
    by (rule malformed_endpoint_aborts_domain_halt [OF bound _ _ pre _ refl _ _ _ _ _ refl])
      (auto simp: demo_domain_world_def demo_halt_world_def demo_halt_state_def get_agent_def from_us_def demo_malformed
        context_of_def NO_AUTH_def unproven_def check_record_authorized_def status_or_def Let_def)
  then show ?thesis by (simp add: on_behalf_def context_of_def NO_AUTH_def unproven_def)
qed

definition demo_drill :: "halt_state \<times> (ks_stop + drill_report)" where
  "demo_drill = drill (\<lambda>_. []) (demo_halt_world demo_url) ''a1'' demo_kill_request None demo_halt_state"

lemma demo_drill_writes: "list_ex writes_status (kh_calls (fst demo_drill))"
  by code_simp

lemma drill_always_restores_witness:
  "\<exists>who pre post. kh_calls (fst demo_drill) = GetAgent ''a1'' # pre @ SetStatus ''a1'' ''active'' who # post
     \<and> SetStatus ''a1'' ''killed'' who \<in> set pre \<and> \<not> list_ex writes_status post"
proof -
  have run: "drill (\<lambda>_. []) (demo_halt_world demo_url) ''a1'' demo_kill_request None demo_halt_state
      = (fst demo_drill, snd demo_drill)"
    by (simp add: demo_drill_def)
  have "kh_calls (fst demo_drill) = kh_calls demo_halt_state @ kh_calls (fst demo_drill)"
    by (simp add: demo_halt_state_def)
  from drill_always_restores [OF run this demo_drill_writes] obtain rc who pre post where
    "get_agent (kw_agent (demo_halt_world demo_url) (kh_calls demo_halt_state) ''a1'') = Inr rc"
    "kh_calls (fst demo_drill) = GetAgent ''a1'' # pre @ SetStatus ''a1'' (status_or ''active'' rc) who # post"
    "SetStatus ''a1'' ''killed'' who \<in> set pre" "\<not> list_ex writes_status post" by blast
  moreover from this(1) have "status_or ''active'' rc = ''active''"
    by (auto simp: demo_halt_world_def demo_halt_state_def get_agent_def status_or_def)
  ultimately show ?thesis by (metis (no_types))
qed

end
