(* ===== verification/Federation_Broker.thy ===== *)
theory Federation_Broker
  imports Sentinel Clients Step_Systems
begin

text \<open>
  \<open>services/federation-broker/src/federation_broker/engine.py\<close> and the contract routes of \<open>api.py\<close>: the contract
  table with its one-active-per-organisation rule, and the decision of a crossing in either direction. Schema
  validation of a presented manifest, the loading of a PEM and the Ed25519 verification are arguments; so is
  \<open>str()\<close> of a JSON value that is no text. Reasons keep their kind, not their wording. Names are Latin-1: the second
  NFKC of \<open>normalize_org\<close> changes nothing there, and the soft hyphen is the only invisible character.
\<close>

section \<open>Contracts\<close>

definition DEFAULT_HOME_ORG :: string where "DEFAULT_HOME_ORG = ''Spin State Labs''"

definition home_org :: "string option \<Rightarrow> string" where
  "home_org env = (case env of None \<Rightarrow> DEFAULT_HOME_ORG | Some v \<Rightarrow> v)"

definition PRIVATE_KEY_MARKER :: string where "PRIVATE_KEY_MARKER = ''PRIVATE KEY''"

definition WITHHELD_KEY :: string where
  "WITHHELD_KEY = ''<withheld: this stored contract key held private-key material; '' @
     ''re-register the counterparty's public key only>''"

datatype pem_fault = EmptyKey | HoldsPrivateKey | NotAnEd25519Key | OtherText

text \<open>\<open>"".join(pem.split())\<close>\<close>

definition squeeze :: "string \<Rightarrow> string" where
  "squeeze s = filter (\<lambda>c. \<not> py_isspace c) s"

text \<open>\<open>load\<close> is the canonical PEM of the first block of a text, None where the loader refuses it.\<close>

definition ed25519_public_pem :: "(string \<Rightarrow> string option) \<Rightarrow> string \<Rightarrow> pem_fault + string" where
  "ed25519_public_pem load pem =
     (if py_strip pem = [] then Inl EmptyKey
      else if str_in PRIVATE_KEY_MARKER pem then Inl HoldsPrivateKey
      else case load pem of None \<Rightarrow> Inl NotAnEd25519Key
      | Some canonical \<Rightarrow> if squeeze pem \<noteq> squeeze canonical then Inl OtherText else Inr canonical)"

record contract =
  fc_id :: string
  fc_org :: string
  fc_scopes :: "string list"
  fc_classes :: "string list"
  fc_ref :: "string option"
  fc_pem :: "string option"
  fc_active :: bool

definition contract_fields_ok :: "contract \<Rightarrow> bool" where
  "contract_fields_ok c = (fc_id c \<noteq> [] \<and> fc_org c \<noteq> [] \<and> fc_scopes c \<noteq> [] \<and> fc_classes c \<noteq> [])"

text \<open>A request body: every field checked, the key stored in its canonical form.\<close>

datatype contract_fault = InvalidContract | UnusableKey pem_fault

definition parse_contract :: "(string \<Rightarrow> string option) \<Rightarrow> contract \<Rightarrow> contract_fault + contract" where
  "parse_contract load c =
     (if \<not> contract_fields_ok c then Inl InvalidContract
      else case fc_pem c of None \<Rightarrow> Inr c
      | Some pem \<Rightarrow> (case ed25519_public_pem load pem of Inl e \<Rightarrow> Inl (UnusableKey e)
          | Inr canonical \<Rightarrow> Inr (c\<lparr>fc_pem := Some canonical\<rparr>)))"

definition normalize_org :: "string \<Rightarrow> string" where
  "normalize_org org = join_spaces (py_split (casefold (drop_invisible (nfkc org))))"

section \<open>The contract table\<close>

text \<open>A row holds what was registered and the column \<open>org_key\<close>; the lists are JSON texts read back as they were.\<close>

record contract_row =
  cw_contract :: contract
  cw_key :: "string option"

record contract_store =
  cs_rows :: "contract_row list"
  cs_index :: bool

definition row_id_of :: "contract_row \<Rightarrow> string" where "row_id_of r = fc_id (cw_contract r)"

definition active_rows :: "contract_row list \<Rightarrow> contract_row list" where
  "active_rows rows = filter (\<lambda>r. fc_active (cw_contract r)) rows"

text \<open>A row read back: private-key material is withheld; a row that fails the other checks raises.\<close>

definition contract_from_row :: "contract_row \<Rightarrow> contract_fault + contract" where
  "contract_from_row r =
     (let c = cw_contract r in
      if \<not> contract_fields_ok c then Inl InvalidContract
      else Inr (case fc_pem c of None \<Rightarrow> c
        | Some pem \<Rightarrow> if str_in PRIVATE_KEY_MARKER pem then c\<lparr>fc_pem := Some WITHHELD_KEY\<rparr> else c))"

text \<open>\<open>_migrate_org_key\<close>, at every opening of the file.\<close>

definition fill_key :: "contract_row \<Rightarrow> contract_row" where
  "fill_key r = (if cw_key r = None then r\<lparr>cw_key := Some (normalize_org (fc_org (cw_contract r)))\<rparr> else r)"

definition migrate_org_key :: "contract_store \<Rightarrow> contract_store" where
  "migrate_org_key st =
     (let rows = map fill_key (cs_rows st) in
      \<lparr>cs_rows = rows, cs_index = (cs_index st \<or> distinct (map cw_key (active_rows rows)))\<rparr>)"

datatype save_fault = ContractConflict

definition same_org :: "string \<Rightarrow> contract_row \<Rightarrow> bool" where
  "same_org key r = (normalize_org (fc_org (cw_contract r)) = key)"

definition other_active :: "string \<Rightarrow> contract_row list \<Rightarrow> contract_row list" where
  "other_active i rows = filter (\<lambda>r. row_id_of r \<noteq> i) (active_rows rows)"

definition upsert_contract :: "contract_row \<Rightarrow> contract_row list \<Rightarrow> contract_row list" where
  "upsert_contract r rows =
     (if row_get row_id_of rows (row_id_of r) = None then rows @ [r]
      else row_update (\<lambda>x. row_id_of x = row_id_of r) (\<lambda>_. r) rows)"

text \<open>\<open>save\<close>: one write transaction; the partial unique index is the backstop.\<close>

definition save_contract :: "contract \<Rightarrow> contract_store \<Rightarrow> contract_store \<times> (save_fault + contract)" where
  "save_contract c st =
     (let key = normalize_org (fc_org c); others = other_active (fc_id c) (cs_rows st);
          row = \<lparr>cw_contract = c, cw_key = Some key\<rparr>
      in if fc_active c \<and> list_ex (same_org key) others then (st, Inl ContractConflict)
         else if fc_active c \<and> cs_index st \<and> list_ex (\<lambda>r. cw_key r = Some key) others then (st, Inl ContractConflict)
         else (st\<lparr>cs_rows := upsert_contract row (cs_rows st)\<rparr>, Inr c))"

definition by_id :: "contract_row list \<Rightarrow> contract_row list" where
  "by_id rows = sort_key row_id_of rows"

definition for_org :: "contract_store \<Rightarrow> string \<Rightarrow> contract_fault + contract option" where
  "for_org st org =
     (let key = normalize_org org in
      if key = [] then Inr None
      else case filter (same_org key) (by_id (active_rows (cs_rows st))) of
        [] \<Rightarrow> Inr None
      | r # _ \<Rightarrow> (case contract_from_row r of Inl e \<Rightarrow> Inl e | Inr c \<Rightarrow> Inr (Some c)))"

fun all_read :: "(contract_fault + contract) list \<Rightarrow> contract_fault + contract list" where
  "all_read [] = Inr []"
| "all_read (Inl e # xs) = Inl e"
| "all_read (Inr c # xs) = (case all_read xs of Inl e \<Rightarrow> Inl e | Inr cs \<Rightarrow> Inr (c # cs))"

definition list_contracts :: "contract_store \<Rightarrow> contract_fault + contract list" where
  "list_contracts st = all_read (map contract_from_row (by_id (cs_rows st)))"

text \<open>\<open>PUT /contracts/{contract_id}\<close> after its guard.\<close>

datatype put_refusal = PutInvalid contract_fault | PutIdMismatch | PutConflict | PutRefused nat refusal_detail

definition put_contract :: "(string \<Rightarrow> string option) \<Rightarrow> operator_refused + operator_auth \<Rightarrow> string \<Rightarrow> contract
    \<Rightarrow> contract_store \<Rightarrow> contract_store \<times> (put_refusal + contract)" where
  "put_contract load guard path_id body st =
     (case guard of Inl (OperatorRefused code d) \<Rightarrow> (st, Inl (PutRefused code d))
      | Inr _ \<Rightarrow>
        (case parse_contract load body of Inl e \<Rightarrow> (st, Inl (PutInvalid e))
         | Inr c \<Rightarrow>
           if fc_id c \<noteq> path_id then (st, Inl PutIdMismatch)
           else case save_contract c st of (st', Inl _) \<Rightarrow> (st', Inl PutConflict) | (st', Inr c') \<Rightarrow> (st', Inr c')))"

section \<open>Crossing requests\<close>

datatype direction = Inbound | Outbound

record crossing_request =
  cr_direction :: direction
  cr_org :: string
  cr_peer_agent :: "string option"
  cr_peer_manifest :: "json option"
  cr_agent :: "string option"
  cr_manifest :: "json option"
  cr_signature :: "string option"
  cr_scope :: string
  cr_class :: string

definition nonempty_name :: "string option \<Rightarrow> bool" where "nonempty_name x = (x \<noteq> Some [])"

definition valid_crossing :: "crossing_request \<Rightarrow> bool" where
  "valid_crossing q =
     (cr_org q \<noteq> [] \<and> cr_scope q \<noteq> [] \<and> cr_class q \<noteq> [] \<and> nonempty_name (cr_peer_agent q) \<and> nonempty_name (cr_agent q)
      \<and> (case cr_direction q of
           Inbound \<Rightarrow> cr_peer_agent q \<noteq> None \<and> cr_peer_manifest q \<noteq> None \<and> cr_agent q = None \<and> cr_manifest q = None
         | Outbound \<Rightarrow> cr_agent q \<noteq> None \<and> cr_manifest q \<noteq> None \<and> cr_peer_manifest q = None \<and> cr_signature q = None))"

section \<open>The decision\<close>

datatype crossing_reason =
    ManifestInvalid | DeclaresIsolated | NotAPeer string | NoContract string | NoContractKey string
  | ContractKeyUnusable string pem_fault | SignatureMissing string | SignatureInvalid | ScopeOutside string
  | ClassOutside string | WithinContract string | SignatureSkipped

record crossing_verdict =
  cv_decision :: decision
  cv_agent :: string
  cv_action :: string
  cv_clause :: "string option"
  cv_reasons :: "crossing_reason list"
  cv_checked :: instant
  cv_peer_agent :: "string option"
  cv_home :: string

record crossing_event =
  ce_type :: string
  ce_direction :: direction
  ce_org :: string
  ce_scope :: string
  ce_class :: string
  ce_clause :: "string option"
  ce_reasons :: "crossing_reason list"
  ce_agent :: string

record broker_world =
  bw_home :: "string option"
  bw_valid :: "json \<Rightarrow> bool"
  bw_str :: "json \<Rightarrow> string"
  bw_load :: "string \<Rightarrow> string option"
  bw_verify :: "json \<Rightarrow> string \<Rightarrow> string \<Rightarrow> bool"
  bw_ledger :: "ledger_reply option"
  bw_now :: instant

record broker =
  bk_store :: contract_store
  bk_ledger :: "crossing_event list"
  bk_dropped :: nat

definition text_of_json :: "(json \<Rightarrow> string) \<Rightarrow> json option \<Rightarrow> string" where
  "text_of_json str v = (case v of None \<Rightarrow> [] | Some (JStr s) \<Rightarrow> s | Some j \<Rightarrow> str j)"

definition lists_org :: "(json \<Rightarrow> string) \<Rightarrow> json \<Rightarrow> string \<Rightarrow> bool" where
  "lists_org str peers org =
     (case peers of
        JArr ps \<Rightarrow> let needle = normalize_org org in
          needle \<noteq> [] \<and> list_ex (\<lambda>p. case p of
            JObj kvs \<Rightarrow> str_in needle (normalize_org (text_of_json str (map_of kvs ''org''))) | _ \<Rightarrow> False) ps
      | _ \<Rightarrow> False)"

text \<open>\<open>x or y\<close> on a JSON value.\<close>

definition falsy :: "json \<Rightarrow> bool" where
  "falsy j = (case j of JNull \<Rightarrow> True | JBool b \<Rightarrow> \<not> b | JInt n \<Rightarrow> n = 0 | JStr s \<Rightarrow> s = [] | JArr xs \<Rightarrow> xs = []
     | JObj kvs \<Rightarrow> kvs = [] | JFloat t \<Rightarrow> t \<in> {''0.0'', ''-0.0''})"

definition or_json :: "json option \<Rightarrow> json \<Rightarrow> json" where
  "or_json v d = (case v of None \<Rightarrow> d | Some j \<Rightarrow> if falsy j then d else j)"

datatype crossing_raised = FederatedNotADict | ContractRow contract_fault

type_synonym judgement = "decision \<times> string option \<times> crossing_reason list"

definition block_for :: "string \<Rightarrow> crossing_reason \<Rightarrow> judgement" where
  "block_for clause why = (BLOCK, Some clause, [why])"

definition outside_contract :: "crossing_request \<Rightarrow> contract \<Rightarrow> judgement option" where
  "outside_contract q c =
     (if cr_scope q \<notin> set (fc_scopes c) then Some (block_for ''F.peer'' (ScopeOutside (fc_id c)))
      else if cr_class q \<notin> set (fc_classes c) then Some (block_for ''F.peer'' (ClassOutside (fc_id c)))
      else None)"

definition signature_step :: "broker_world \<Rightarrow> json \<Rightarrow> string option \<Rightarrow> contract \<Rightarrow> judgement option" where
  "signature_step w doc sig c =
     (case fc_pem c of None \<Rightarrow> Some (block_for ''F.peer'' (NoContractKey (fc_id c)))
      | Some pem \<Rightarrow>
        (case ed25519_public_pem (bw_load w) pem of Inl e \<Rightarrow> Some (block_for ''F.peer'' (ContractKeyUnusable (fc_id c) e))
         | Inr _ \<Rightarrow>
           if sig = None \<or> sig = Some [] then Some (block_for ''F.peer'' (SignatureMissing (fc_id c)))
           else if \<not> bw_verify w doc (the sig) pem then Some (block_for ''F.peer'' SignatureInvalid)
           else None))"

definition judge_inbound :: "broker_world \<Rightarrow> contract_store \<Rightarrow> crossing_request \<Rightarrow> crossing_raised + judgement" where
  "judge_inbound w st q =
     (let doc = the (cr_peer_manifest q) in
      if \<not> bw_valid w doc then Inr (block_for ''I.manifest'' ManifestInvalid)
      else case or_json (jget doc ''federated'') (JObj []) of
        JObj fed \<Rightarrow>
          if map_of fed ''isolated'' \<noteq> Some (JBool False) then Inr (block_for ''F.isolated'' DeclaresIsolated)
          else if \<not> lists_org (bw_str w) (or_json (map_of fed ''allowed_peers'') (JArr [])) (home_org (bw_home w))
          then Inr (block_for ''F.peer'' (NotAPeer (home_org (bw_home w))))
          else (case for_org st (cr_org q) of
            Inl e \<Rightarrow> Inl (ContractRow e)
          | Inr None \<Rightarrow> Inr (block_for ''F.peer'' (NoContract (cr_org q)))
          | Inr (Some c) \<Rightarrow>
            (case signature_step w doc (cr_signature q) c of Some j \<Rightarrow> Inr j
             | None \<Rightarrow> (case outside_contract q c of Some j \<Rightarrow> Inr j
                 | None \<Rightarrow> Inr (ALLOW, None, [WithinContract (fc_id c)]))))
      | _ \<Rightarrow> Inl FederatedNotADict)"

definition judge_outbound :: "broker_world \<Rightarrow> contract_store \<Rightarrow> crossing_request \<Rightarrow> crossing_raised + judgement" where
  "judge_outbound w st q =
     (let ours = the (cr_manifest q) in
      if \<not> bw_valid w ours then Inr (block_for ''I.manifest'' ManifestInvalid)
      else case jget ours ''federated'' of
        Some (JObj fed) \<Rightarrow>
          if map_of fed ''isolated'' \<noteq> Some (JBool False) then Inr (block_for ''F.isolated'' DeclaresIsolated)
          else if \<not> lists_org (bw_str w) (or_json (map_of fed ''allowed_peers'') (JArr [])) (cr_org q)
          then Inr (block_for ''F.peer'' (NotAPeer (cr_org q)))
          else (case for_org st (cr_org q) of
            Inl e \<Rightarrow> Inl (ContractRow e)
          | Inr None \<Rightarrow> Inr (block_for ''F.peer'' (NoContract (cr_org q)))
          | Inr (Some c) \<Rightarrow>
            (case outside_contract q c of Some j \<Rightarrow> Inr j
             | None \<Rightarrow> Inr (ALLOW, None,
                 WithinContract (fc_id c) # (if fc_pem c \<noteq> None then [SignatureSkipped] else []))))
      | _ \<Rightarrow> Inr (block_for ''F.isolated'' DeclaresIsolated))"

definition crossing_agent :: "broker_world \<Rightarrow> crossing_request \<Rightarrow> string" where
  "crossing_agent w q = (case cr_direction q of
     Outbound \<Rightarrow> home_org (bw_home w) @ ''/'' @ the (cr_agent q)
   | Inbound \<Rightarrow> cr_org q @ ''/'' @ the (cr_peer_agent q))"

definition event_type_of :: "decision \<Rightarrow> string" where
  "event_type_of d = ''federation.'' @ (case d of ALLOW \<Rightarrow> ''allow'' | BLOCK \<Rightarrow> ''block'' | ESCALATE \<Rightarrow> ''escalate'')"

text \<open>\<open>_verdict\<close>: the verdict stands whatever the ledger answers; a lost record is counted.\<close>

definition record_verdict :: "broker_world \<Rightarrow> crossing_request \<Rightarrow> judgement \<Rightarrow> broker \<Rightarrow> broker \<times> crossing_verdict" where
  "record_verdict w q j b =
     (case j of (d, clause, reasons) \<Rightarrow>
        let v = \<lparr>cv_decision = d, cv_agent = crossing_agent w q, cv_action = cr_scope q, cv_clause = clause,
              cv_reasons = reasons, cv_checked = bw_now w,
              cv_peer_agent = (if cr_direction q = Outbound then cr_peer_agent q else None),
              cv_home = home_org (bw_home w)\<rparr>;
            e = \<lparr>ce_type = event_type_of d, ce_direction = cr_direction q, ce_org = cr_org q, ce_scope = cr_scope q,
              ce_class = cr_class q, ce_clause = clause, ce_reasons = reasons, ce_agent = cv_agent v\<rparr>
        in case bw_ledger w of None \<Rightarrow> (b, v)
           | Some reply \<Rightarrow> (case ledger_append reply e (bk_ledger b) of
               (ledger, Inr _) \<Rightarrow> (b\<lparr>bk_ledger := ledger\<rparr>, v)
             | (ledger, Inl _) \<Rightarrow> (b\<lparr>bk_ledger := ledger, bk_dropped := bk_dropped b + 1\<rparr>, v)))"

definition decide_crossing :: "broker_world \<Rightarrow> crossing_request \<Rightarrow> broker \<Rightarrow> broker \<times> (crossing_raised + crossing_verdict)" where
  "decide_crossing w q b =
     (case (if cr_direction q = Outbound then judge_outbound w (bk_store b) q else judge_inbound w (bk_store b) q) of
        Inl e \<Rightarrow> (b, Inl e)
      | Inr j \<Rightarrow> (case record_verdict w q j b of (b', v) \<Rightarrow> (b', Inr v)))"

section \<open>One active contract per organisation\<close>

definition one_active :: "contract_row list \<Rightarrow> bool" where
  "one_active rows = (\<forall>r \<in> set (active_rows rows). \<forall>r' \<in> set (active_rows rows).
     normalize_org (fc_org (cw_contract r)) = normalize_org (fc_org (cw_contract r')) \<longrightarrow> row_id_of r = row_id_of r')"

definition contracts_ok :: "contract_store \<Rightarrow> bool" where
  "contracts_ok st = (unique_keys row_id_of (cs_rows st) \<and> one_active (cs_rows st)
     \<and> (\<forall>r \<in> set (cs_rows st). cw_key r = Some (normalize_org (fc_org (cw_contract r)))))"

datatype contract_op = SaveContract contract | ReopenStore

definition contract_step :: "contract_op \<Rightarrow> contract_store \<Rightarrow> contract_store" where
  "contract_step x st = (case x of SaveContract c \<Rightarrow> fst (save_contract c st) | ReopenStore \<Rightarrow> migrate_org_key st)"

definition fresh_contracts :: contract_store where
  "fresh_contracts = migrate_org_key \<lparr>cs_rows = [], cs_index = False\<rparr>"

lemma active_in [simp]: "r \<in> set (active_rows rows) \<longleftrightarrow> r \<in> set rows \<and> fc_active (cw_contract r)"
  by (auto simp: active_rows_def)

lemma other_in [simp]: "r \<in> set (other_active i rows) \<longleftrightarrow> r \<in> set rows \<and> fc_active (cw_contract r) \<and> row_id_of r \<noteq> i"
  by (auto simp: other_active_def)

lemma one_activeD:
  assumes "one_active rows" "r \<in> set rows" "fc_active (cw_contract r)" "r' \<in> set rows" "fc_active (cw_contract r')"
    and "normalize_org (fc_org (cw_contract r)) = normalize_org (fc_org (cw_contract r'))"
  shows "row_id_of r = row_id_of r'"
proof -
  have "r \<in> set (active_rows rows)" "r' \<in> set (active_rows rows)" by (simp_all only: active_in assms simp_thms)
  then show ?thesis by (rule assms(1) [unfolded one_active_def, rule_format, OF _ _ assms(6)])
qed

lemma upsert_rows: "set (upsert_contract r rows) = insert r {x \<in> set rows. row_id_of x \<noteq> row_id_of r}"
proof (cases "row_get row_id_of rows (row_id_of r)")
  case None
  then have "x \<in> set rows \<Longrightarrow> row_id_of x \<noteq> row_id_of r" for x by (metis image_eqI row_get_None_iff)
  with None show ?thesis by (auto simp: upsert_contract_def)
next
  case (Some x)
  then have "\<exists>x \<in> set rows. row_id_of x = row_id_of r" using row_get_key by fastforce
  then show ?thesis using Some by (auto simp: upsert_contract_def row_update_def)
qed

lemma upsert_unique:
  assumes "unique_keys row_id_of rows"
  shows "unique_keys row_id_of (upsert_contract r rows)"
proof (cases "row_get row_id_of rows (row_id_of r)")
  case None
  with assms show ?thesis by (auto simp: upsert_contract_def unique_keys_def row_get_None_iff)
next
  case (Some x)
  have "map row_id_of (row_update (\<lambda>x. row_id_of x = row_id_of r) (\<lambda>_. r) rows) = map row_id_of rows"
    by (induction rows) (auto simp: row_update_def)
  with Some assms show ?thesis by (simp add: upsert_contract_def unique_keys_def)
qed

lemma save_refused: "save_contract c st = (st', Inl e) \<Longrightarrow> st' = st"
  by (auto simp: save_contract_def Let_def split: if_splits)

lemma save_stored:
  assumes "save_contract c st = (st', Inr c')"
  shows "c' = c" "st' = st\<lparr>cs_rows := upsert_contract \<lparr>cw_contract = c, cw_key = Some (normalize_org (fc_org c))\<rparr> (cs_rows st)\<rparr>"
    "fc_active c \<Longrightarrow> r \<in> set (cs_rows st) \<Longrightarrow> fc_active (cw_contract r) \<Longrightarrow> row_id_of r \<noteq> fc_id c
      \<Longrightarrow> normalize_org (fc_org (cw_contract r)) \<noteq> normalize_org (fc_org c)"
  using assms by (auto simp: save_contract_def Let_def list_ex_iff same_org_def split: if_splits)

lemma save_keeps_ok:
  assumes "contracts_ok st" "save_contract c st = (st', out)"
  shows "contracts_ok st'"
proof (cases out)
  case (Inl e)
  with assms save_refused show ?thesis by metis
next
  case (Inr c')
  note s = save_stored [OF assms(2) [unfolded Inr]]
  let ?row = "\<lparr>cw_contract = c, cw_key = Some (normalize_org (fc_org c))\<rparr>"
  have id: "row_id_of ?row = fc_id c" by (simp add: row_id_of_def)
  have old: "one_active (cs_rows st)" using assms(1) by (simp add: contracts_ok_def)
  have new: "normalize_org (fc_org (cw_contract r)) \<noteq> normalize_org (fc_org c)"
    if "fc_active c" "r \<in> set (cs_rows st)" "fc_active (cw_contract r)" "row_id_of r \<noteq> fc_id c" for r
    by (rule s(3) [OF that])
  have "one_active (upsert_contract ?row (cs_rows st))"
    unfolding one_active_def
  proof (intro ballI impI)
    fix r r' assume r: "r \<in> set (active_rows (upsert_contract ?row (cs_rows st)))"
      "r' \<in> set (active_rows (upsert_contract ?row (cs_rows st)))"
      "normalize_org (fc_org (cw_contract r)) = normalize_org (fc_org (cw_contract r'))"
    from r(1,2) consider "r = ?row" "r' = ?row"
      | "r = ?row" "fc_active c" "r' \<in> set (cs_rows st)" "fc_active (cw_contract r')" "row_id_of r' \<noteq> fc_id c"
      | "r' = ?row" "fc_active c" "r \<in> set (cs_rows st)" "fc_active (cw_contract r)" "row_id_of r \<noteq> fc_id c"
      | "r \<in> set (cs_rows st)" "fc_active (cw_contract r)" "r' \<in> set (cs_rows st)" "fc_active (cw_contract r')"
      by (auto simp: upsert_rows id)
    then show "row_id_of r = row_id_of r'"
    proof cases
      case 2
      with new [of r'] r(3) show ?thesis by simp
    next
      case 3
      with new [of r] r(3) show ?thesis by simp
    next
      case 4
      from one_activeD [OF old 4 r(3)] show ?thesis .
    qed simp
  qed
  moreover have "unique_keys row_id_of (upsert_contract ?row (cs_rows st))"
    using assms(1) by (simp add: contracts_ok_def upsert_unique)
  ultimately show ?thesis
    using assms(1) s(2) by (auto simp: contracts_ok_def upsert_rows)
qed

lemma reopen_keeps_ok: "contracts_ok st \<Longrightarrow> contracts_ok (migrate_org_key st)"
proof -
  assume ok: "contracts_ok st"
  have "map fill_key (cs_rows st) = cs_rows st"
    using ok by (intro map_idI) (auto simp: contracts_ok_def fill_key_def)
  with ok show ?thesis by (simp add: migrate_org_key_def contracts_ok_def Let_def)
qed

interpretation contract_table: service contract_step "\<lambda>x st. True" contracts_ok
  by unfold_locales (auto simp: contract_step_def split: contract_op.splits
    intro: save_keeps_ok [OF _ surjective_pairing] reopen_keeps_ok)

lemma fresh_ok: "contracts_ok fresh_contracts"
  by (simp add: fresh_contracts_def migrate_org_key_def contracts_ok_def unique_keys_def one_active_def active_rows_def)

lemma ok_run_always: "ok_run (\<lambda>x st. True) step xs s"
  by (induction xs arbitrary: s) auto

text \<open>What \<open>for_org\<close> reads: the active row of the organisation, however its name is spelled.\<close>

lemma for_org_hit:
  assumes "one_active (cs_rows st)" "unique_keys row_id_of (cs_rows st)" "r \<in> set (cs_rows st)" "fc_active (cw_contract r)"
    and "normalize_org (fc_org (cw_contract r)) = normalize_org org" "normalize_org org \<noteq> []"
  shows "for_org st org = map_sum id Some (contract_from_row r)"
proof -
  let ?hits = "filter (same_org (normalize_org org)) (by_id (active_rows (cs_rows st)))"
  have one: "x = r" if "x \<in> set ?hits" for x
  proof -
    from that have x: "x \<in> set (cs_rows st)" "fc_active (cw_contract x)"
      "normalize_org (fc_org (cw_contract x)) = normalize_org org"
      by (auto simp: by_id_def same_org_def)
    have "row_id_of x = row_id_of r"
      by (rule one_activeD [OF assms(1) x(1,2) assms(3,4)]) (simp only: x(3) assms(5))
    then have "Some x = Some r" using unique_keys_get [OF assms(2) x(1)] unique_keys_get [OF assms(2,3)] by metis
    then show ?thesis by blast
  qed
  have "r \<in> set ?hits" by (simp add: by_id_def same_org_def assms(3,4,5))
  then obtain rest where "?hits = r # rest" using one by (cases ?hits) auto
  with assms(6) show ?thesis
    by (auto simp: for_org_def Let_def split: sum.splits)
qed

lemma for_org_reads:
  assumes "for_org st org = Inr (Some c)"
  obtains r where "r \<in> set (cs_rows st)" "fc_active (cw_contract r)" "contract_from_row r = Inr c"
    "normalize_org (fc_org (cw_contract r)) = normalize_org org" "normalize_org org \<noteq> []"
proof -
  let ?hits = "filter (same_org (normalize_org org)) (by_id (active_rows (cs_rows st)))"
  have ne: "normalize_org org \<noteq> []" using assms by (auto simp: for_org_def Let_def)
  obtain r rest where h: "?hits = r # rest" "contract_from_row r = Inr c"
    using assms by (auto simp: for_org_def Let_def split: if_splits list.splits sum.splits)
  then have "r \<in> set ?hits" by simp
  then show thesis using that [OF _ _ h(2) _ ne] by (auto simp: by_id_def same_org_def)
qed

text \<open>C31: there is one contract per organisation. Whatever contracts are registered, replaced, deactivated or
  refused, in any order and across restarts, two active contracts of the table never name the same organisation,
  however its name is spelled.\<close>

theorem one_contract_per_org:
  "\<not> (\<exists>r r'. r \<in> set (cs_rows (fold contract_step ops fresh_contracts))
    \<and> r' \<in> set (cs_rows (fold contract_step ops fresh_contracts)) \<and> r \<noteq> r' \<and> fc_active (cw_contract r)
    \<and> fc_active (cw_contract r') \<and> normalize_org (fc_org (cw_contract r)) = normalize_org (fc_org (cw_contract r')))"
proof -
  have "contracts_ok (fold contract_step ops fresh_contracts)"
    by (rule contract_table.run_inv [OF fresh_ok ok_run_always])
  then have one: "one_active (cs_rows (fold contract_step ops fresh_contracts))"
    and uniq: "unique_keys row_id_of (cs_rows (fold contract_step ops fresh_contracts))"
    by (simp_all add: contracts_ok_def)
  show ?thesis
    using one_activeD [OF one] unique_keys_get [OF uniq] by (metis option.inject)
qed

text \<open>A registered contract is the one its organisation's crossings are decided by: in a table of one active
  contract per organisation, once an active contract is saved, every spelling of the organisation's name that
  normalises alike finds exactly the contract that was saved, key included.\<close>

lemma saved_contract_answers_every_spelling:
  assumes "save_contract c st = (st', Inr c')" "contracts_ok st" "fc_active c" "contract_fields_ok c"
    and "fc_pem c = None \<or> ed25519_public_pem load (the (fc_pem c)) = Inr (the (fc_pem c))"
    and "normalize_org org = normalize_org (fc_org c)" "normalize_org org \<noteq> []"
  shows "for_org st' org = Inr (Some c)"
proof -
  let ?row = "\<lparr>cw_contract = c, cw_key = Some (normalize_org (fc_org c))\<rparr>"
  have ok: "contracts_ok st'" by (rule save_keeps_ok [OF assms(2,1)])
  have in_row: "?row \<in> set (cs_rows st')"
    using save_stored(2) [OF assms(1)] by (simp add: upsert_rows)
  have "contract_from_row ?row = Inr c"
    using assms(4,5) by (auto simp: contract_from_row_def ed25519_public_pem_def split: option.splits if_splits)
  with for_org_hit [of st' ?row org] ok in_row assms(3,6,7) show ?thesis
    by (simp add: contracts_ok_def)
qed

section \<open>Which crossings are allowed\<close>

lemma decide_allows:
  "(\<exists>b' v. decide_crossing w q b = (b', Inr v) \<and> cv_decision v = ALLOW)
   \<longleftrightarrow> (\<exists>clause why. (if cr_direction q = Outbound then judge_outbound w (bk_store b) q
        else judge_inbound w (bk_store b) q) = Inr (ALLOW, clause, why))"
  by (auto simp: decide_crossing_def record_verdict_def Let_def split: sum.splits prod.splits option.splits)

lemma block_never_allows [simp]: "block_for clause why \<noteq> (ALLOW, c, r)" "(ALLOW, c, r) \<noteq> block_for clause why"
  by (simp_all add: block_for_def)

lemma outside_iff: "outside_contract q c = None \<longleftrightarrow> cr_scope q \<in> set (fc_scopes c) \<and> cr_class q \<in> set (fc_classes c)"
  by (simp add: outside_contract_def)

lemma outside_blocks: "outside_contract q c = Some j \<Longrightarrow> j \<noteq> (ALLOW, cl, r)"
  by (auto simp: outside_contract_def split: if_splits)

lemma signature_blocks: "signature_step w doc sig c = Some j \<Longrightarrow> j \<noteq> (ALLOW, cl, r)"
  by (auto simp: signature_step_def split: option.splits sum.splits if_splits)

lemma signature_iff:
  "signature_step w doc sig c = None \<longleftrightarrow> (\<exists>pem canonical text. fc_pem c = Some pem
     \<and> ed25519_public_pem (bw_load w) pem = Inr canonical \<and> sig = Some text \<and> text \<noteq> [] \<and> bw_verify w doc text pem)"
  by (auto simp: signature_step_def block_for_def split: option.splits sum.splits)

lemma or_json_peers:
  "lists_org str (or_json v (JArr [])) org \<longleftrightarrow> (\<exists>ps. v = Some (JArr ps) \<and> lists_org str (JArr ps) org)"
  by (auto simp: or_json_def lists_org_def Let_def falsy_def split: option.splits json.splits if_splits)

lemma or_json_fed: "or_json v (JObj []) = JObj fed \<and> map_of fed k = Some x \<longleftrightarrow> v = Some (JObj fed) \<and> map_of fed k = Some x"
  by (auto simp: or_json_def falsy_def split: option.splits json.splits if_splits)

text \<open>an inbound crossing is allowed exactly when every clause holds: the presented manifest is valid, declares
  \<open>isolated: false\<close> and lists our organisation as a peer; an active contract for the counterparty's organisation is
  held, with a usable Ed25519 key, under which the presented manifest carries a valid signature; and scope and data
  class are inside that contract. In every other case the answer is a block or an exception.\<close>

lemma inbound_allowed_iff:
  assumes "cr_direction q = Inbound" "cr_peer_manifest q = Some doc"
  shows "(\<exists>b' v. decide_crossing w q b = (b', Inr v) \<and> cv_decision v = ALLOW)
    \<longleftrightarrow> bw_valid w doc
      \<and> (\<exists>fed peers. jget doc ''federated'' = Some (JObj fed) \<and> map_of fed ''isolated'' = Some (JBool False)
          \<and> map_of fed ''allowed_peers'' = Some (JArr peers) \<and> lists_org (bw_str w) (JArr peers) (home_org (bw_home w)))
      \<and> (\<exists>c pem canonical sig. for_org (bk_store b) (cr_org q) = Inr (Some c) \<and> fc_pem c = Some pem
          \<and> ed25519_public_pem (bw_load w) pem = Inr canonical \<and> cr_signature q = Some sig \<and> sig \<noteq> []
          \<and> bw_verify w doc sig pem \<and> cr_scope q \<in> set (fc_scopes c) \<and> cr_class q \<in> set (fc_classes c))"
    (is "?L \<longleftrightarrow> ?R")
proof -
  let ?fed = "or_json (jget doc ''federated'') (JObj [])"
  have inner: "(case for_org (bk_store b) (cr_org q) of
            Inl e \<Rightarrow> Inl (ContractRow e)
          | Inr None \<Rightarrow> Inr (block_for ''F.peer'' (NoContract (cr_org q)))
          | Inr (Some c) \<Rightarrow>
            (case signature_step w doc (cr_signature q) c of Some j \<Rightarrow> Inr j
             | None \<Rightarrow> (case outside_contract q c of Some j \<Rightarrow> Inr j
                 | None \<Rightarrow> Inr (ALLOW, None, [WithinContract (fc_id c)])))) = Inr (ALLOW, clause, why)
      \<longleftrightarrow> (\<exists>c. for_org (bk_store b) (cr_org q) = Inr (Some c) \<and> signature_step w doc (cr_signature q) c = None
            \<and> outside_contract q c = None \<and> clause = None \<and> why = [WithinContract (fc_id c)])" for clause why
    using outside_blocks signature_blocks by (fastforce split: sum.splits option.splits)
  have "?L \<longleftrightarrow> (\<exists>clause why. judge_inbound w (bk_store b) q = Inr (ALLOW, clause, why))"
    by (simp add: decide_allows assms(1))
  also have "\<dots> \<longleftrightarrow> bw_valid w doc \<and> (\<exists>fed. ?fed = JObj fed \<and> map_of fed ''isolated'' = Some (JBool False)
      \<and> lists_org (bw_str w) (or_json (map_of fed ''allowed_peers'') (JArr [])) (home_org (bw_home w)))
      \<and> (\<exists>c. for_org (bk_store b) (cr_org q) = Inr (Some c) \<and> signature_step w doc (cr_signature q) c = None
            \<and> outside_contract q c = None)"
    unfolding judge_inbound_def assms(2) option.sel Let_def
    by (cases ?fed) (auto simp: inner)
  also have "\<dots> \<longleftrightarrow> ?R"
    unfolding or_json_peers signature_iff outside_iff
    using or_json_fed [of "jget doc ''federated''" _ "''isolated''" "JBool False"] by blast
  finally show ?thesis .
qed

text \<open>A contract with Acme, found under another spelling, and a presented manifest that passes every clause.\<close>

definition demo_contract :: contract where
  "demo_contract = \<lparr>fc_id = ''c1'', fc_org = ''Acme  Corp'', fc_scopes = [''invoice.read''], fc_classes = [''invoice''],
     fc_ref = None, fc_pem = Some ''PEM'', fc_active = True\<rparr>"

definition demo_presented :: json where
  "demo_presented = JObj [(''federated'', JObj [(''isolated'', JBool False),
     (''allowed_peers'', JArr [JObj [(''org'', JStr ''SPIN STATE LABS Inc'')]])])]"

definition demo_crossing :: crossing_request where
  "demo_crossing = \<lparr>cr_direction = Inbound, cr_org = ''ACME corp '', cr_peer_agent = Some ''a1'',
     cr_peer_manifest = Some demo_presented, cr_agent = None, cr_manifest = None, cr_signature = Some ''sig'',
     cr_scope = ''invoice.read'', cr_class = ''invoice''\<rparr>"

definition demo_broker_world :: broker_world where
  "demo_broker_world = \<lparr>bw_home = None, bw_valid = (\<lambda>_. True), bw_str = (\<lambda>_. []), bw_load = Some,
     bw_verify = (\<lambda>d s p. s = ''sig'' \<and> p = ''PEM''), bw_ledger = None, bw_now = epoch\<rparr>"

definition demo_broker :: broker where
  "demo_broker = \<lparr>bk_store = fst (save_contract demo_contract fresh_contracts), bk_ledger = [], bk_dropped = 0\<rparr>"

lemma demo_contract_found: "for_org (bk_store demo_broker) (cr_org demo_crossing) = Inr (Some demo_contract)"
  by code_simp

lemma demo_peer: "lists_org (\<lambda>_. []) (JArr [JObj [(''org'', JStr ''SPIN STATE LABS Inc'')]]) (home_org None)"
  by code_simp

lemma demo_key: "ed25519_public_pem Some ''PEM'' = Inr ''PEM''"
  by code_simp

lemma inbound_allowed_iff_witness:
  "\<exists>b' v. decide_crossing demo_broker_world demo_crossing demo_broker = (b', Inr v) \<and> cv_decision v = ALLOW"
proof -
  have q: "cr_direction demo_crossing = Inbound" "cr_peer_manifest demo_crossing = Some demo_presented"
    by (simp_all add: demo_crossing_def)
  show ?thesis
    unfolding inbound_allowed_iff [OF q] demo_contract_found
    using demo_peer demo_key
    by (simp add: demo_broker_world_def demo_presented_def demo_crossing_def demo_contract_def jget_def)
qed

text \<open>Every verdict is one record sent to the ledger, and it stands when the record is lost.\<close>

lemma verdict_recorded:
  assumes "bw_ledger w = Some reply" "decide_crossing w q b = (b', Inr v)"
  shows "\<exists>e. ce_type e = event_type_of (cv_decision v) \<and> ce_clause e = cv_clause v \<and> ce_agent e = cv_agent v
    \<and> bk_ledger b' = fst (ledger_append reply e (bk_ledger b))
    \<and> bk_dropped b' = (if snd (ledger_append reply e (bk_ledger b)) = Inr () then bk_dropped b else bk_dropped b + 1)"
proof -
  obtain j where j: "(if cr_direction q = Outbound then judge_outbound w (bk_store b) q else judge_inbound w (bk_store b) q)
      = Inr j" and r: "record_verdict w q j b = (b', v)"
    using assms(2) by (auto simp: decide_crossing_def split: sum.splits prod.splits)
  obtain d clause why where c: "j = (d, clause, why)" by (cases j) auto
  let ?e = "\<lparr>ce_type = event_type_of d, ce_direction = cr_direction q, ce_org = cr_org q, ce_scope = cr_scope q,
              ce_class = cr_class q, ce_clause = clause, ce_reasons = why, ce_agent = crossing_agent w q\<rparr>"
  have "bk_ledger b' = fst (ledger_append reply ?e (bk_ledger b))
    \<and> bk_dropped b' = (if snd (ledger_append reply ?e (bk_ledger b)) = Inr () then bk_dropped b else bk_dropped b + 1)
    \<and> cv_decision v = d \<and> cv_clause v = clause \<and> cv_agent v = crossing_agent w q"
    using r assms(1) c by (auto simp: record_verdict_def Let_def split: prod.splits sum.splits)
  then show ?thesis by (intro exI [of _ ?e]) simp
qed

end
