(* ===== verification/Delegation_Token.thy ===== *)
theory Delegation_Token
  imports Complex_Main Utc_Time "HOL-Library.Multiset"
begin

text \<open>
  Delegation tokens: the model of \<open>packages/field-core/src/field_core/delegation.py\<close> and the SQLite
  store of \<open>services/delegation-authority/src/delegation_authority/store.py\<close>. A datetime is its
  instant (the zone a client wrote it in is not kept); a row holds its ISO text, as the table does. A
  row's scope is the list that its JSON text stands for. A Python float is a rational.
\<close>

section \<open>The token\<close>

datatype token_status = TS_active | TS_expired | TS_revoked

record delegation_token =
  token_id :: string
  tk_agent_id :: string
  tk_granted_by :: string
  tk_scope :: "string list"
  issued_at :: instant
  expires_at :: instant
  revoked :: bool
  revocation_id :: "string option"
  revoked_at :: "instant option"
  max_spend_usd :: "rat option"

definition status_at :: "delegation_token \<Rightarrow> instant \<Rightarrow> token_status" where
  "status_at t now = (if revoked t then TS_revoked else if expires_at t \<le> now then TS_expired else TS_active)"

definition is_active :: "delegation_token \<Rightarrow> instant \<Rightarrow> bool" where
  "is_active t now = (status_at t now = TS_active)"

text \<open>\<open>revoke\<close>: a revoked copy with a fresh revocation id.\<close>

definition revoke_token :: "delegation_token \<Rightarrow> string \<Rightarrow> instant \<Rightarrow> delegation_token" where
  "revoke_token t fresh_id now =
     t\<lparr>revoked := True, revocation_id := Some fresh_id, revoked_at := Some now\<rparr>"

definition covers :: "delegation_token \<Rightarrow> string \<Rightarrow> bool" where
  "covers t action = (action \<in> set (tk_scope t))"

section \<open>The store\<close>

record token_row =
  tr_token_id :: string
  tr_agent_id :: string
  tr_granted_by :: string
  tr_scope :: "string list"
  tr_issued_at :: string
  tr_expires_at :: string
  tr_revoked :: bool
  tr_revocation_id :: "string option"
  tr_revoked_at :: "string option"

record token_store =
  tokens :: "token_row list"
  token_spend_ceilings :: "(string \<times> rat) list"

definition empty_store :: token_store where
  "empty_store = \<lparr>tokens = [], token_spend_ceilings = []\<rparr>"

definition token_to_row :: "delegation_token \<Rightarrow> token_row" where
  "token_to_row t = \<lparr>tr_token_id = token_id t, tr_agent_id = tk_agent_id t, tr_granted_by = tk_granted_by t,
     tr_scope = tk_scope t, tr_issued_at = iso_utc (issued_at t), tr_expires_at = iso_utc (expires_at t),
     tr_revoked = revoked t, tr_revocation_id = revocation_id t, tr_revoked_at = map_option iso_utc (revoked_at t)\<rparr>"

text \<open>\<open>_row_to_token\<close>: None where \<open>fromisoformat\<close> raises.\<close>

definition opt_iso :: "string option \<Rightarrow> instant option option" where
  "opt_iso x = (case x of None \<Rightarrow> Some None
     | Some s \<Rightarrow> if s = [] then Some None else map_option Some (parse_iso s))"

definition row_to_token :: "(string \<times> rat) list \<Rightarrow> token_row \<Rightarrow> delegation_token option" where
  "row_to_token ceilings r =
     (case parse_iso (tr_issued_at r) of None \<Rightarrow> None | Some i \<Rightarrow>
     (case parse_iso (tr_expires_at r) of None \<Rightarrow> None | Some e \<Rightarrow>
     (case opt_iso (tr_revoked_at r) of None \<Rightarrow> None | Some rv \<Rightarrow>
      Some \<lparr>token_id = tr_token_id r, tk_agent_id = tr_agent_id r, tk_granted_by = tr_granted_by r,
             tk_scope = tr_scope r, issued_at = i, expires_at = e, revoked = tr_revoked r,
             revocation_id = tr_revocation_id r, revoked_at = rv,
             max_spend_usd = map_option snd (row_get fst ceilings (tr_token_id r))\<rparr>)))"

definition save_token :: "token_store \<Rightarrow> delegation_token \<Rightarrow> token_store \<times> delegation_token" where
  "save_token s t =
     (let rows = row_put tr_token_id (token_to_row t) (tokens s);
          ceilings = (case max_spend_usd t of None \<Rightarrow> token_spend_ceilings s
             | Some c \<Rightarrow> row_insert_or_ignore fst (token_id t, c) (token_spend_ceilings s));
          stored = map_option snd (row_get fst ceilings (token_id t))
      in (\<lparr>tokens = rows, token_spend_ceilings = ceilings\<rparr>,
          if stored = max_spend_usd t then t else t\<lparr>max_spend_usd := stored\<rparr>))"

datatype store_error = TokenNotFound | RowUndecodable

definition row_lookup :: "token_store \<Rightarrow> string \<Rightarrow> store_error + delegation_token" where
  "row_lookup s k = (case row_get tr_token_id (tokens s) k of None \<Rightarrow> Inl TokenNotFound
     | Some r \<Rightarrow> (case row_to_token (token_spend_ceilings s) r of None \<Rightarrow> Inl RowUndecodable | Some t \<Rightarrow> Inr t))"

definition save_revoked :: "token_store \<Rightarrow> delegation_token \<Rightarrow> token_store \<times> (store_error + delegation_token)" where
  "save_revoked s t =
     (let s' = s\<lparr>tokens := row_update (\<lambda>r. tr_token_id r = token_id t \<and> \<not> tr_revoked r)
          (\<lambda>r. r\<lparr>tr_revoked := True, tr_revocation_id := revocation_id t,
                 tr_revoked_at := map_option iso_utc (revoked_at t)\<rparr>) (tokens s)\<rparr>
      in (s', row_lookup s' (token_id t)))"

definition get_token :: "token_store \<Rightarrow> string \<Rightarrow> store_error + delegation_token" where
  "get_token s k = row_lookup s k"

definition count_tokens :: "token_store \<Rightarrow> nat" where
  "count_tokens s = length (tokens s)"

text \<open>
  \<open>list\<close>: the SQL orders by the text of \<open>issued_at\<close>, Python re-sorts by the instant (stable). None
  where a row cannot be decoded.
\<close>

fun decode_rows :: "(string \<times> rat) list \<Rightarrow> token_row list \<Rightarrow> delegation_token list option" where
  "decode_rows cs [] = Some []"
| "decode_rows cs (r # rs) = (case row_to_token cs r of None \<Rightarrow> None
     | Some t \<Rightarrow> map_option (\<lambda>ts. t # ts) (decode_rows cs rs))"

definition list_tokens :: "token_store \<Rightarrow> string option \<Rightarrow> delegation_token list option" where
  "list_tokens s agent =
     (let rows = (case agent of Some a \<Rightarrow> filter (\<lambda>r. tr_agent_id r = a) (tokens s) | None \<Rightarrow> tokens s)
      in map_option (sort_key issued_at) (decode_rows (token_spend_ceilings s) (sort_key tr_issued_at rows)))"

definition active_tokens_for :: "token_store \<Rightarrow> string \<Rightarrow> instant \<Rightarrow> delegation_token list option" where
  "active_tokens_for s agent now = map_option (filter (\<lambda>t. is_active t now)) (list_tokens s (Some agent))"

section \<open>Well-formed stores\<close>

lemma save_token_tokens_of: "tokens (fst (save_token s t)) = row_put tr_token_id (token_to_row t) (tokens s)"
  by (simp add: save_token_def Let_def)

text \<open>A token whose instants are datetimes, and a store every row of which decodes.\<close>

definition token_times :: "delegation_token \<Rightarrow> bool" where
  "token_times t = (valid_instant (issued_at t) \<and> valid_instant (expires_at t)
     \<and> (case revoked_at t of None \<Rightarrow> True | Some i \<Rightarrow> valid_instant i))"

definition row_ok :: "token_row \<Rightarrow> bool" where
  "row_ok r = (row_to_token [] r \<noteq> None)"

definition store_ok :: "token_store \<Rightarrow> bool" where
  "store_ok s = (unique_keys tr_token_id (tokens s) \<and> unique_keys fst (token_spend_ceilings s)
     \<and> (\<forall>r \<in> set (tokens s). row_ok r))"

lemma iso_utc_not_Nil [simp]: "iso_utc t \<noteq> []"
  by (simp add: iso_utc_def)

lemma opt_iso_print:
  "(case x of None \<Rightarrow> True | Some i \<Rightarrow> valid_instant i) \<Longrightarrow> opt_iso (map_option iso_utc x) = Some x"
  by (cases x) (simp_all add: opt_iso_def parse_iso_utc)

lemma row_to_token_of_row:
  assumes "token_times t"
  shows "row_to_token cs (token_to_row t) = Some (t\<lparr>max_spend_usd := map_option snd (row_get fst cs (token_id t))\<rparr>)"
  using assms by (simp add: row_to_token_def token_to_row_def token_times_def parse_iso_utc opt_iso_print)

lemma row_to_token_ceilings:
  "row_to_token cs r = map_option (\<lambda>t. t\<lparr>max_spend_usd := map_option snd (row_get fst cs (tr_token_id r))\<rparr>) (row_to_token [] r)"
  by (simp add: row_to_token_def split: option.split)

lemma row_ok_decodes: "row_ok r \<Longrightarrow> \<exists>t. row_to_token cs r = Some t"
  by (auto simp: row_ok_def row_to_token_ceilings [of cs])

lemma row_to_token_fields:
  assumes "row_to_token cs r = Some t"
  shows "token_id t = tr_token_id r" "tk_agent_id t = tr_agent_id r" "revoked t = tr_revoked r"
    "revocation_id t = tr_revocation_id r" "tk_scope t = tr_scope r" "tk_granted_by t = tr_granted_by r"
    "parse_iso (tr_issued_at r) = Some (issued_at t)" "parse_iso (tr_expires_at r) = Some (expires_at t)"
    "max_spend_usd t = map_option snd (row_get fst cs (tr_token_id r))"
  using assms by (auto simp: row_to_token_def split: option.splits)

lemma empty_store_ok [simp]: "store_ok empty_store"
  by (simp add: store_ok_def empty_store_def unique_keys_def)

lemma save_token_ok:
  assumes "store_ok s" "token_times t"
  shows "store_ok (fst (save_token s t))"
proof -
  have row: "row_ok (token_to_row t)"
    using assms(2) by (simp add: row_ok_def row_to_token_of_row)
  have "unique_keys fst (case max_spend_usd t of None \<Rightarrow> token_spend_ceilings s
             | Some c \<Rightarrow> row_insert_or_ignore fst (token_id t, c) (token_spend_ceilings s))"
    using assms(1) by (auto simp: store_ok_def unique_keys_insert_or_ignore split: option.split)
  moreover have "\<forall>r \<in> set (row_put tr_token_id (token_to_row t) (tokens s)). row_ok r"
    using assms(1) row by (auto simp: store_ok_def row_put_def)
  ultimately show ?thesis
    using assms(1) by (simp add: save_token_def Let_def store_ok_def unique_keys_put)
qed

lemma save_revoked_ok:
  assumes "store_ok s" "case revoked_at t of None \<Rightarrow> True | Some i \<Rightarrow> valid_instant i"
  shows "store_ok (fst (save_revoked s t))"
proof -
  let ?f = "\<lambda>r. r\<lparr>tr_revoked := True, tr_revocation_id := revocation_id t,
                 tr_revoked_at := map_option iso_utc (revoked_at t)\<rparr>"
  have "row_ok r \<Longrightarrow> row_ok (?f r)" for r
    using opt_iso_print [OF assms(2)] by (auto simp: row_ok_def row_to_token_def split: option.splits)
  then show ?thesis
    using assms(1)
    by (auto simp: save_revoked_def Let_def store_ok_def row_update_def
        intro: unique_keys_update [unfolded row_update_def])
qed

section \<open>Listing\<close>

lemma decode_rows_total: "\<forall>r \<in> set rs. row_ok r \<Longrightarrow> \<exists>ts. decode_rows cs rs = Some ts"
proof (induction rs)
  case (Cons r rs)
  then obtain t ts where "row_to_token cs r = Some t" "decode_rows cs rs = Some ts"
    using row_ok_decodes [of r cs] by auto
  then show ?case by simp
qed simp

lemma decode_rows_nth:
  "decode_rows cs rs = Some ts \<Longrightarrow> length ts = length rs \<and> (\<forall>i < length rs. row_to_token cs (rs ! i) = Some (ts ! i))"
proof (induction rs arbitrary: ts)
  case (Cons r rs)
  from Cons.prems obtain t us where u: "row_to_token cs r = Some t" "decode_rows cs rs = Some us" "ts = t # us"
    by (auto split: option.splits)
  with Cons.IH [OF u(2)] show ?case by (auto simp: nth_Cons split: nat.split)
qed simp

lemma decode_rows_mset:
  "decode_rows cs rs = Some ts \<Longrightarrow> image_mset Some (mset ts) = image_mset (row_to_token cs) (mset rs)"
  by (induction rs arbitrary: ts) (auto split: option.splits)

lemma parse_iso_mono:
  "parse_iso s = Some i \<Longrightarrow> parse_iso s' = Some i' \<Longrightarrow> s \<le> s' \<longleftrightarrow> i \<le> i'"
  using parse_iso_Some [of s i] parse_iso_Some [of s' i'] iso_utc_le_iff [of i i'] by auto

text \<open>The order the SQL gives is already the order of the instants, so the second sort moves nothing.\<close>

lemma decode_sorted:
  assumes "decode_rows cs (sort_key tr_issued_at rs) = Some ts"
  shows "sorted (map issued_at ts)"
proof -
  let ?rs = "sort_key tr_issued_at rs"
  note d = decode_rows_nth [OF assms]
  have rows: "i \<le> j \<Longrightarrow> j < length ?rs \<Longrightarrow> tr_issued_at (?rs ! i) \<le> tr_issued_at (?rs ! j)" for i j
    using sorted_sort_key [of tr_issued_at rs] by (auto simp: sorted_iff_nth_mono)
  show ?thesis
    unfolding sorted_iff_nth_mono
  proof (intro allI impI)
    fix i j assume ij: "i \<le> j" "j < length (map issued_at ts)"
    have "parse_iso (tr_issued_at (?rs ! i)) = Some (issued_at (ts ! i))"
      "parse_iso (tr_issued_at (?rs ! j)) = Some (issued_at (ts ! j))"
      by (rule row_to_token_fields(7) [of cs]; use d ij in simp)+
    from parse_iso_mono [OF this] rows [of i j] d ij show "map issued_at ts ! i \<le> map issued_at ts ! j" by simp
  qed
qed

lemma sort_key_sorted_id: "sorted (map f xs) \<Longrightarrow> sort_key f xs = xs"
  by (simp add: sort_key_id_if_sorted)

text \<open>a listing of a well-formed store always answers; it holds each stored token of the agent (of
  every agent, without the filter) exactly once, in the order of the instants they were issued, and the
  order by ISO text that the SQL gives is that order already.\<close>

lemma list_tokens_sorted:
  assumes "store_ok s"
  shows "\<exists>ts. list_tokens s agent = Some ts \<and> sorted (map issued_at ts)
    \<and> image_mset Some (mset ts) = image_mset (row_to_token (token_spend_ceilings s))
        (filter_mset (\<lambda>r. agent = None \<or> agent = Some (tr_agent_id r)) (mset (tokens s)))
    \<and> decode_rows (token_spend_ceilings s) (sort_key tr_issued_at
        (filter (\<lambda>r. agent = None \<or> agent = Some (tr_agent_id r)) (tokens s))) = Some ts"
proof -
  let ?rows = "filter (\<lambda>r. agent = None \<or> agent = Some (tr_agent_id r)) (tokens s)"
  have rows: "(case agent of Some a \<Rightarrow> filter (\<lambda>r. tr_agent_id r = a) (tokens s) | None \<Rightarrow> tokens s) = ?rows"
    by (cases agent) (auto intro: filter_cong)
  have "\<forall>r \<in> set (sort_key tr_issued_at ?rows). row_ok r" using assms by (auto simp: store_ok_def)
  from decode_rows_total [OF this] obtain ts where
    ts: "decode_rows (token_spend_ceilings s) (sort_key tr_issued_at ?rows) = Some ts" by blast
  have "list_tokens s agent = Some ts"
    unfolding list_tokens_def rows Let_def ts by (simp add: sort_key_sorted_id [OF decode_sorted [OF ts]])
  moreover have "image_mset Some (mset ts) = image_mset (row_to_token (token_spend_ceilings s))
        (filter_mset (\<lambda>r. agent = None \<or> agent = Some (tr_agent_id r)) (mset (tokens s)))"
    using decode_rows_mset [OF ts] by (simp add: mset_filter)
  ultimately show ?thesis using decode_sorted [OF ts] ts by blast
qed

definition demo_issue :: "string \<Rightarrow> instant \<Rightarrow> delegation_token" where
  "demo_issue i t = \<lparr>token_id = i, tk_agent_id = ''a'', tk_granted_by = ''don'', tk_scope = [''read''], issued_at = t,
     expires_at = t, revoked = False, revocation_id = None, revoked_at = None, max_spend_usd = None\<rparr>"

definition demo_store :: token_store where
  "demo_store = fst (save_token (fst (save_token empty_store (demo_issue ''late'' 2000000))) (demo_issue ''early'' 5))"

lemma list_tokens_sorted_witness:
  "\<exists>ts. list_tokens demo_store (Some ''a'') = Some ts \<and> sorted (map issued_at ts) \<and> length ts = 2"
proof -
  have "store_ok demo_store"
    unfolding demo_store_def
    by (intro save_token_ok empty_store_ok) (simp_all add: token_times_def demo_issue_def valid_instant_def day_us_def second_def)
  from list_tokens_sorted [OF this, of "Some ''a''"] obtain ts where
    ts: "list_tokens demo_store (Some ''a'') = Some ts" "sorted (map issued_at ts)"
    and m: "image_mset Some (mset ts) = image_mset (row_to_token (token_spend_ceilings demo_store))
        (filter_mset (\<lambda>r. Some ''a'' = None \<or> Some ''a'' = Some (tr_agent_id r)) (mset (tokens demo_store)))" by blast
  from arg_cong [OF m, of size] have "length ts = 2"
    by (simp add: demo_store_def save_token_tokens_of row_put_def token_to_row_def demo_issue_def empty_store_def)
  with ts show ?thesis by blast
qed

end
