(* ===== verification/Delegation_Authority.thy ===== *)
theory Delegation_Authority
  imports Delegation_Token Clients
begin

text \<open>
  \<open>services/delegation-authority/src/delegation_authority\<close>: the DOA roster (\<open>doa.py\<close>) and the handlers
  (\<open>api.py\<close>). A handler takes what the outside answered it: the operator the guard bound, the
  registry's and the ledger's replies, what the manifest resolver and the roster file hold, the clock
  and a fresh uuid. A refusal is an HTTP status with its clause or cause.

  Minting and revoking call the ledger first and write the store second; the two halves of each are
  definitions of their own, and the service's steps interleave them (several requests in flight, and
  requests that die between the halves).
\<close>

section \<open>The DOA roster\<close>

definition MAX_TTL_DAYS :: int where "MAX_TTL_DAYS = 3650"

record grantor_row =
  gr_grantor :: string
  gr_allowed_scope :: "string list"
  gr_max_ttl_days :: int
  gr_max_spend_usd :: "rat option"
  gr_active :: bool

definition valid_grantor_row :: "grantor_row \<Rightarrow> bool" where
  "valid_grantor_row r = (gr_grantor r \<noteq> [] \<and> gr_allowed_scope r \<noteq> [] \<and> 0 < gr_max_ttl_days r
     \<and> gr_max_ttl_days r \<le> MAX_TTL_DAYS
     \<and> (case gr_max_spend_usd r of None \<Rightarrow> True | Some x \<Rightarrow> 0 \<le> x))"

text \<open>The scopes of a request a grantor may not delegate.\<close>

definition may_delegate :: "grantor_row \<Rightarrow> string list \<Rightarrow> string list" where
  "may_delegate r scope = filter (\<lambda>s. s \<notin> set (gr_allowed_scope r)) scope"

record doa_ledger_row =
  dl_grantor :: string
  dl_max_ttl_days :: int
  dl_max_spend_usd :: "rat option"

definition ledger_row :: "grantor_row \<Rightarrow> doa_ledger_row" where
  "ledger_row r = \<lparr>dl_grantor = gr_grantor r, dl_max_ttl_days = gr_max_ttl_days r, dl_max_spend_usd = gr_max_spend_usd r\<rparr>"

definition grantors_are_unique :: "grantor_row list \<Rightarrow> bool" where
  "grantors_are_unique rows = distinct (map gr_grantor rows)"

definition find_grantor :: "grantor_row list \<Rightarrow> string \<Rightarrow> grantor_row option" where
  "find_grantor rows g = find (\<lambda>r. gr_grantor r = g) rows"

text \<open>What the roster file holds: the outcome of reading it and of \<open>yaml.safe_load\<close>, then its rows.\<close>

datatype roster_file =
    RosterUnreadable | RosterNotYaml | RosterEmpty | RosterNotMapping | RosterMalformed | RosterRows "grantor_row list"
datatype roster_error = RE_unreadable | RE_not_yaml | RE_empty | RE_not_mapping | RE_invalid

definition load_roster :: "roster_file \<Rightarrow> roster_error + grantor_row list" where
  "load_roster f = (case f of RosterUnreadable \<Rightarrow> Inl RE_unreadable | RosterNotYaml \<Rightarrow> Inl RE_not_yaml
     | RosterEmpty \<Rightarrow> Inl RE_empty | RosterNotMapping \<Rightarrow> Inl RE_not_mapping | RosterMalformed \<Rightarrow> Inl RE_invalid
     | RosterRows rows \<Rightarrow> if list_all valid_grantor_row rows \<and> grantors_are_unique rows
         then Inr rows else Inl RE_invalid)"

definition roster_path :: "string \<Rightarrow> string option" where
  "roster_path env = (let v = py_strip env in if v = [] then None else Some v)"

section \<open>Requests and refusals\<close>

record mint_request =
  mr_agent_id :: string
  mr_granted_by :: string
  mr_scope :: "string list"
  mr_ttl_seconds :: "int option"
  mr_expires_at :: "instant option"

definition valid_mint_request :: "mint_request \<Rightarrow> bool" where
  "valid_mint_request q = (mr_agent_id q \<noteq> [] \<and> mr_granted_by q \<noteq> [] \<and> mr_scope q \<noteq> []
     \<and> (case mr_ttl_seconds q of None \<Rightarrow> True | Some n \<Rightarrow> 0 < n)
     \<and> (case mr_expires_at q of None \<Rightarrow> True | Some t \<Rightarrow> valid_instant t)
     \<and> \<not> ((mr_ttl_seconds q = None) = (mr_expires_at q = None)))"

datatype clause_cause =
    NotOnRoster | GrantorInactive | ScopeNotDelegable "string list" | LifetimeTooLong int
  | NoManifest resolve_reason | OutsideManifest "string list"
  | ManifestExpiryUnparseable | ManifestLapsed | OutlivesManifest

datatype da_refusal =
    Clause string clause_cause
  | OperatorLayer refusal_detail
  | RequestInvalid
  | AgentUnknown | AgentInactive string | RegistryDown
  | TtlOutOfRange | ExpiryInPast
  | RosterUnavailable roster_error
  | LedgerDown | LedgerRefused nat
  | TokenUnknown | TokenUndecodable

datatype http_error = Http nat da_refusal

definition MANIFEST_EXPIRED :: string where "MANIFEST_EXPIRED = ''D.manifest_expired''"

definition refusal_of :: "operator_refused \<Rightarrow> http_error" where
  "refusal_of e = (case e of OperatorRefused st d \<Rightarrow> Http st (OperatorLayer d))"

section \<open>State and events\<close>

datatype da_event =
    MintEvent string string "string list" instant bool "doa_ledger_row option" string
  | RevokeEvent string string string

record authority =
  au_store :: token_store
  au_ledger :: "da_event list"
  au_minting :: "delegation_token list"
  au_revoking :: "delegation_token list"

text \<open>What a request meets outside.\<close>

record world =
  wd_operator :: operator_auth
  wd_registry :: registry_reply
  wd_manifest :: "string option \<Rightarrow> resolved"
  wd_roster_env :: string
  wd_roster :: roster_file
  wd_now :: instant
  wd_fresh_id :: string
  wd_ledger :: ledger_reply

section \<open>Mint\<close>

definition registry_refusal :: "registry_error \<Rightarrow> http_error" where
  "registry_refusal e = (case e of AgentNotRegistered \<Rightarrow> Http 404 AgentUnknown
     | AgentNotActive st \<Rightarrow> Http 409 (AgentInactive st) | RegistryUnreachable \<Rightarrow> Http 502 RegistryDown)"

definition op_check :: "operator_refused + 'a \<Rightarrow> http_error + 'a" where
  "op_check c = (case c of Inl e \<Rightarrow> Inl (refusal_of e) | Inr x \<Rightarrow> Inr x)"

text \<open>\<open>req.expires_at or now + timedelta(seconds=req.ttl_seconds)\<close>; outside the datetimes it is a 422.\<close>

definition mint_expiry :: "mint_request \<Rightarrow> instant \<Rightarrow> http_error + instant" where
  "mint_expiry q now = (case mr_expires_at q of Some t \<Rightarrow> Inr t
     | None \<Rightarrow> (case mr_ttl_seconds q of None \<Rightarrow> Inl (Http 422 TtlOutOfRange)
        | Some n \<Rightarrow> if valid_instant (now + n * second) then Inr (now + n * second)
            else Inl (Http 422 TtlOutOfRange)))"

text \<open>The DOA gate, in the order of the handler; \<open>Inr (doa_checked, doa_row, ceiling)\<close> when it passes.\<close>

definition doa_gate :: "world \<Rightarrow> mint_request \<Rightarrow> reg_agent \<Rightarrow> instant
    \<Rightarrow> http_error + bool \<times> doa_ledger_row option \<times> rat option" where
  "doa_gate w q agent expires =
     (case roster_path (wd_roster_env w) of None \<Rightarrow> Inr (False, None, None)
      | Some _ \<Rightarrow>
     (case load_roster (wd_roster w) of Inl e \<Rightarrow> Inl (Http 503 (RosterUnavailable e))
      | Inr roster \<Rightarrow>
     (case find_grantor roster (mr_granted_by q) of None \<Rightarrow> Inl (Http 403 (Clause ''D.grantor'' NotOnRoster))
      | Some row \<Rightarrow>
        if \<not> gr_active row then Inl (Http 403 (Clause ''D.grantor'' GrantorInactive))
        else if may_delegate row (mr_scope q) \<noteq> []
          then Inl (Http 403 (Clause ''D.grantor'' (ScopeNotDelegable (may_delegate row (mr_scope q)))))
        else
     (case wd_manifest w (ra_manifest_ref agent) of
        (None, why) \<Rightarrow> Inl (Http 422 (Clause ''D.scope'' (NoManifest why)))
      | (Some m, _) \<Rightarrow>
        let outside = filter (\<lambda>s. s \<notin> set (md_scope (mf_delegation_section m))) (mr_scope q) in
        if outside \<noteq> [] then Inl (Http 422 (Clause ''D.scope'' (OutsideManifest outside)))
        else
     (case parse_expiry (md_expiry (mf_delegation_section m)) of
        None \<Rightarrow> Inl (Http 422 (Clause MANIFEST_EXPIRED ManifestExpiryUnparseable))
      | Some mexp \<Rightarrow>
        if mexp \<le> wd_now w then Inl (Http 422 (Clause MANIFEST_EXPIRED ManifestLapsed))
        else if gr_max_ttl_days row * day_us < expires - wd_now w
          then Inl (Http 403 (Clause ''D.grantor'' (LifetimeTooLong (gr_max_ttl_days row))))
        else if mexp < expires then Inl (Http 422 (Clause MANIFEST_EXPIRED OutlivesManifest))
        else Inr (True, Some (ledger_row row), gr_max_spend_usd row))))))"

text \<open>Everything \<open>mint\<close> checks before it calls the ledger; \<open>Inr\<close> the token and its DOA record.\<close>

definition mint_checks :: "world \<Rightarrow> mint_request \<Rightarrow> http_error + delegation_token \<times> bool \<times> doa_ledger_row option" where
  "mint_checks w q =
     bindE (op_check (check_granted_by (wd_operator w) (mr_granted_by q))) (\<lambda>via_alias.
     bindE (case require_active_agent (wd_registry w) of Inl e \<Rightarrow> Inl (registry_refusal e) | Inr a \<Rightarrow> Inr a) (\<lambda>agent.
     bindE (if via_alias
            then op_check (check_explicitly_listed (wd_operator w) (wd_manifest w (ra_manifest_ref agent)))
            else Inr ()) (\<lambda>_.
     bindE (mint_expiry q (wd_now w)) (\<lambda>expires.
     if expires \<le> wd_now w then Inl (Http 422 ExpiryInPast) else
     bindE (doa_gate w q agent expires) (\<lambda>(doa_checked, doa_row, ceiling).
     bindE (if \<not> via_alias
            then op_check (check_list_bound_reach (wd_operator w) (wd_manifest w (ra_manifest_ref agent)))
            else Inr ()) (\<lambda>_.
     Inr (\<lparr>token_id = wd_fresh_id w, tk_agent_id = mr_agent_id q, tk_granted_by = mr_granted_by q,
           tk_scope = mr_scope q, issued_at = wd_now w, expires_at = expires, revoked = False,
           revocation_id = None, revoked_at = None, max_spend_usd = ceiling\<rparr>, doa_checked, doa_row)))))))"

definition mint_event :: "delegation_token \<Rightarrow> bool \<Rightarrow> doa_ledger_row option \<Rightarrow> da_event" where
  "mint_event t checked row =
     MintEvent (token_id t) (tk_granted_by t) (tk_scope t) (expires_at t) checked row (tk_agent_id t)"

text \<open>The half before the store: checks, then the ledger.\<close>

definition mint_begin :: "world \<Rightarrow> mint_request \<Rightarrow> da_event list \<Rightarrow> da_event list \<times> (http_error + delegation_token)" where
  "mint_begin w q ledger =
     (case mint_checks w q of Inl e \<Rightarrow> (ledger, Inl e)
      | Inr (t, checked, row) \<Rightarrow>
        (case ledger_append (wd_ledger w) (mint_event t checked row) ledger of
           (ledger', Inl _) \<Rightarrow> (ledger', Inl (Http 502 LedgerDown))
         | (ledger', Inr _) \<Rightarrow> (ledger', Inr t)))"

text \<open>The whole handler.\<close>

definition mint :: "world \<Rightarrow> mint_request \<Rightarrow> authority \<Rightarrow> authority \<times> (http_error + delegation_token)" where
  "mint w q s =
     (case mint_begin w q (au_ledger s) of
        (ledger, Inl e) \<Rightarrow> (s\<lparr>au_ledger := ledger\<rparr>, Inl e)
      | (ledger, Inr t) \<Rightarrow> (let (store, t') = save_token (au_store s) t
           in (s\<lparr>au_ledger := ledger, au_store := store\<rparr>, Inr t')))"

definition post_tokens :: "(operator_refused + operator_auth) \<Rightarrow> world \<Rightarrow> mint_request \<Rightarrow> authority
    \<Rightarrow> authority \<times> (http_error + delegation_token)" where
  "post_tokens guarded w q s =
     (case guarded of Inl e \<Rightarrow> (s, Inl (refusal_of e))
      | Inr a \<Rightarrow> if \<not> valid_mint_request q then (s, Inl (Http 422 RequestInvalid))
          else mint (w\<lparr>wd_operator := a\<rparr>) q s)"

section \<open>Revoke\<close>

definition stable_revocation_id :: "(string \<Rightarrow> string) \<Rightarrow> string \<Rightarrow> string" where
  "stable_revocation_id uuid5 tid = uuid5 (''field:delegation-revoke:'' @ tid)"

definition store_refusal :: "store_error + 'a \<Rightarrow> http_error + 'a" where
  "store_refusal r = (case r of Inl TokenNotFound \<Rightarrow> Inl (Http 404 TokenUnknown)
     | Inl RowUndecodable \<Rightarrow> Inl (Http 500 TokenUndecodable) | Inr x \<Rightarrow> Inr x)"

text \<open>Who may revoke: a list-bound identity only the tokens of an agent whose manifest names it.\<close>

definition revoke_allowed :: "world \<Rightarrow> token_store \<Rightarrow> string \<Rightarrow> http_error + unit" where
  "revoke_allowed w s tid =
     (let a = wd_operator w in
      case get_token s tid of
        Inl TokenNotFound \<Rightarrow> if list_bound_applies a then Inl (Http 403 (OperatorLayer FORBIDDEN_DETAIL))
          else Inl (Http 404 TokenUnknown)
      | Inl RowUndecodable \<Rightarrow> Inl (Http 500 TokenUndecodable)
      | Inr t \<Rightarrow>
        if \<not> list_bound_applies a then Inr ()
        else (case get_agent (wd_registry w) of
            Inl RegistryUnreachable \<Rightarrow> Inl (Http 502 RegistryDown)
          | Inl _ \<Rightarrow> op_check (check_list_bound_reach a (wd_manifest w None))
          | Inr agent \<Rightarrow> op_check (check_list_bound_reach a (wd_manifest w (ra_manifest_ref agent)))))"

text \<open>
  Under the token's lock, up to the ledger's answer: \<open>Inl\<close> what is answered at once, \<open>Inr\<close> the
  revoked copy still to be written.
\<close>

definition revoke_begin :: "(string \<Rightarrow> string) \<Rightarrow> world \<Rightarrow> token_store \<Rightarrow> string \<Rightarrow> da_event list
    \<Rightarrow> da_event list \<times> ((http_error + delegation_token) + delegation_token)" where
  "revoke_begin uuid5 w s tid ledger =
     (case store_refusal (get_token s tid) of Inl e \<Rightarrow> (ledger, Inl (Inl e))
      | Inr t \<Rightarrow>
        if revoked t then (ledger, Inl (Inr t))
        else
          let rv = (revoke_token t (wd_fresh_id w) (wd_now w))\<lparr>revocation_id := Some (stable_revocation_id uuid5 (token_id t))\<rparr> in
          (case ledger_append (wd_ledger w)
              (RevokeEvent (token_id t) (stable_revocation_id uuid5 (token_id t)) (tk_agent_id t)) ledger of
             (ledger', Inl (LedgerUnreachable (Some st))) \<Rightarrow> (ledger', Inl (Inl (Http 502 (LedgerRefused st))))
           | (ledger', Inl (LedgerUnreachable None)) \<Rightarrow> (ledger', Inl (Inl (Http 502 LedgerDown)))
           | (ledger', Inr _) \<Rightarrow> (ledger', Inr rv)))"

definition revoke :: "(string \<Rightarrow> string) \<Rightarrow> world \<Rightarrow> string \<Rightarrow> authority \<Rightarrow> authority \<times> (http_error + delegation_token)" where
  "revoke uuid5 w tid s =
     (case revoke_allowed w (au_store s) tid of Inl e \<Rightarrow> (s, Inl e)
      | Inr _ \<Rightarrow>
        (case revoke_begin uuid5 w (au_store s) tid (au_ledger s) of
           (ledger, Inl answer) \<Rightarrow> (s\<lparr>au_ledger := ledger\<rparr>, answer)
         | (ledger, Inr rv) \<Rightarrow> (let (store, answer) = save_revoked (au_store s) rv
              in (s\<lparr>au_ledger := ledger, au_store := store\<rparr>, store_refusal answer))))"

section \<open>Introspection\<close>

record introspection =
  in_token_id :: string
  in_active :: bool
  in_status :: token_status
  in_agent_id :: "string option"
  in_scope :: "string list"
  in_expires_at :: "instant option"
  in_unknown :: bool
  in_issued_at :: "instant option"
  in_max_spend_usd :: "rat option"

definition introspect :: "token_store \<Rightarrow> string \<Rightarrow> instant \<Rightarrow> http_error + introspection" where
  "introspect s tid now =
     (case get_token s tid of
        Inl TokenNotFound \<Rightarrow> Inr \<lparr>in_token_id = tid, in_active = False, in_status = TS_revoked, in_agent_id = None,
          in_scope = [], in_expires_at = None, in_unknown = True, in_issued_at = None, in_max_spend_usd = None\<rparr>
      | Inl RowUndecodable \<Rightarrow> Inl (Http 500 TokenUndecodable)
      | Inr t \<Rightarrow> Inr \<lparr>in_token_id = token_id t, in_active = (status_at t now = TS_active), in_status = status_at t now,
          in_agent_id = Some (tk_agent_id t), in_scope = tk_scope t, in_expires_at = Some (expires_at t),
          in_unknown = False, in_issued_at = Some (issued_at t), in_max_spend_usd = max_spend_usd t\<rparr>)"

text \<open>\<open>_epoch\<close>: whole seconds since 1970 (\<open>int()\<close> truncates towards zero).\<close>

definition epoch_seconds :: "instant \<Rightarrow> int" where
  "epoch_seconds t = (let d = t - epoch in if 0 \<le> d then d div second else - ((- d) div second))"

datatype oauth_answer = OAuthInactive
  | OAuthActive string "string list" int int string

text \<open>The form field is the first \<open>token\<close> value of the parsed body, or the empty string.\<close>

definition oauth_introspect :: "token_store \<Rightarrow> string \<Rightarrow> instant \<Rightarrow> http_error + oauth_answer" where
  "oauth_introspect s field now =
     (if py_strip field = [] then Inl (Http 400 RequestInvalid)
      else case get_token s field of
        Inl TokenNotFound \<Rightarrow> Inr OAuthInactive
      | Inl RowUndecodable \<Rightarrow> Inl (Http 500 TokenUndecodable)
      | Inr t \<Rightarrow> if status_at t now \<noteq> TS_active then Inr OAuthInactive
          else Inr (OAuthActive (join_spaces (tk_scope t)) (tk_scope t) (epoch_seconds (expires_at t))
            (epoch_seconds (issued_at t)) (tk_agent_id t)))"

section \<open>The service as a state machine\<close>

text \<open>
  Requests interleave at the ledger call: a mint or a revoke begins (checks, ledger) and is written
  later, in any order, or never (the process dies and what was in flight is gone).
\<close>

datatype da_op =
    BeginMint world mint_request
  | SaveMint nat
  | BeginRevoke world string
  | SaveRevoke nat
  | Crash

definition drop_nth :: "nat \<Rightarrow> 'a list \<Rightarrow> 'a list" where
  "drop_nth i xs = take i xs @ drop (Suc i) xs"

definition da_step :: "(string \<Rightarrow> string) \<Rightarrow> da_op \<Rightarrow> authority \<Rightarrow> authority" where
  "da_step uuid5 x s =
     (case x of
        BeginMint w q \<Rightarrow>
          (case mint_begin w q (au_ledger s) of
             (ledger, Inl _) \<Rightarrow> s\<lparr>au_ledger := ledger\<rparr>
           | (ledger, Inr t) \<Rightarrow> s\<lparr>au_ledger := ledger, au_minting := au_minting s @ [t]\<rparr>)
      | SaveMint i \<Rightarrow> if i < length (au_minting s)
          then s\<lparr>au_store := fst (save_token (au_store s) (au_minting s ! i)), au_minting := drop_nth i (au_minting s)\<rparr>
          else s
      | BeginRevoke w tid \<Rightarrow>
          (case revoke_allowed w (au_store s) tid of Inl _ \<Rightarrow> s
           | Inr _ \<Rightarrow> (case revoke_begin uuid5 w (au_store s) tid (au_ledger s) of
                (ledger, Inl _) \<Rightarrow> s\<lparr>au_ledger := ledger\<rparr>
              | (ledger, Inr rv) \<Rightarrow> s\<lparr>au_ledger := ledger, au_revoking := au_revoking s @ [rv]\<rparr>))
      | SaveRevoke i \<Rightarrow> if i < length (au_revoking s)
          then s\<lparr>au_store := fst (save_revoked (au_store s) (au_revoking s ! i)), au_revoking := drop_nth i (au_revoking s)\<rparr>
          else s
      | Crash \<Rightarrow> s\<lparr>au_minting := [], au_revoking := []\<rparr>)"

text \<open>The clock is a datetime, a request is one the model accepts, and a fresh uuid is fresh.\<close>

definition da_ok :: "da_op \<Rightarrow> authority \<Rightarrow> bool" where
  "da_ok x s =
     (case x of
        BeginMint w q \<Rightarrow> valid_mint_request q \<and> valid_instant (wd_now w)
          \<and> wd_fresh_id w \<notin> tr_token_id ` set (tokens (au_store s))
          \<and> wd_fresh_id w \<notin> token_id ` set (au_minting s)
      | BeginRevoke w tid \<Rightarrow> valid_instant (wd_now w)
      | _ \<Rightarrow> True)"

definition new_authority :: authority where
  "new_authority = \<lparr>au_store = empty_store, au_ledger = [], au_minting = [], au_revoking = []\<rparr>"

text \<open>What holds of the row of a token, of a token in flight and of the log.\<close>

definition minted :: "da_event list \<Rightarrow> string \<Rightarrow> string \<Rightarrow> string list \<Rightarrow> string \<Rightarrow> bool" where
  "minted ledger tid grantor scope agent =
     list_ex (\<lambda>e. case e of MintEvent i g sc _ _ _ a \<Rightarrow> i = tid \<and> g = grantor \<and> sc = scope \<and> a = agent
                 | RevokeEvent _ _ _ \<Rightarrow> False) ledger"

definition token_row_sound :: "(string \<Rightarrow> string) \<Rightarrow> da_event list \<Rightarrow> token_row \<Rightarrow> bool" where
  "token_row_sound uuid5 ledger r =
     (minted ledger (tr_token_id r) (tr_granted_by r) (tr_scope r) (tr_agent_id r)
      \<and> (if tr_revoked r
         then tr_revocation_id r = Some (stable_revocation_id uuid5 (tr_token_id r))
           \<and> RevokeEvent (tr_token_id r) (stable_revocation_id uuid5 (tr_token_id r)) (tr_agent_id r) \<in> set ledger
         else tr_revocation_id r = None))"

definition minting_sound :: "authority \<Rightarrow> delegation_token \<Rightarrow> bool" where
  "minting_sound s t =
     (token_times t \<and> \<not> revoked t \<and> revocation_id t = None
      \<and> minted (au_ledger s) (token_id t) (tk_granted_by t) (tk_scope t) (tk_agent_id t)
      \<and> token_id t \<notin> tr_token_id ` set (tokens (au_store s)))"

definition revoking_sound :: "(string \<Rightarrow> string) \<Rightarrow> authority \<Rightarrow> delegation_token \<Rightarrow> bool" where
  "revoking_sound uuid5 s t =
     (revocation_id t = Some (stable_revocation_id uuid5 (token_id t))
      \<and> (case revoked_at t of None \<Rightarrow> False | Some i \<Rightarrow> valid_instant i)
      \<and> RevokeEvent (token_id t) (stable_revocation_id uuid5 (token_id t)) (tk_agent_id t) \<in> set (au_ledger s)
      \<and> (\<exists>r \<in> set (tokens (au_store s)). tr_token_id r = token_id t \<and> tr_agent_id r = tk_agent_id t))"

definition da_inv :: "(string \<Rightarrow> string) \<Rightarrow> authority \<Rightarrow> bool" where
  "da_inv uuid5 s =
     (store_ok (au_store s)
      \<and> (\<forall>r \<in> set (tokens (au_store s)). token_row_sound uuid5 (au_ledger s) r)
      \<and> (\<forall>t \<in> set (au_minting s). minting_sound s t) \<and> distinct (map token_id (au_minting s))
      \<and> (\<forall>t \<in> set (au_revoking s). revoking_sound uuid5 s t)
      \<and> (\<forall>tid rid a. RevokeEvent tid rid a \<in> set (au_ledger s) \<longrightarrow> rid = stable_revocation_id uuid5 tid))"

lemma minted_mono: "minted ledger i g sc a \<Longrightarrow> minted (ledger @ es) i g sc a"
  by (auto simp: minted_def list_ex_iff)

lemma token_row_sound_mono: "token_row_sound uuid5 ledger r \<Longrightarrow> token_row_sound uuid5 (ledger @ es) r"
  by (auto simp: token_row_sound_def minted_mono)

lemma set_drop_nth: "set (drop_nth i xs) \<subseteq> set xs"
  by (auto simp: drop_nth_def dest: in_set_takeD in_set_dropD)

lemma map_drop_nth: "map f (drop_nth i xs) = drop_nth i (map f xs)"
  by (simp add: drop_nth_def take_map drop_map)

lemma distinct_drop_nth:
  assumes "distinct xs"
  shows "distinct (drop_nth i xs) \<and> (i < length xs \<longrightarrow> xs ! i \<notin> set (drop_nth i xs))"
proof -
  have "distinct (take i xs @ drop i xs)" using assms by simp
  moreover have "i < length xs \<Longrightarrow> drop i xs = xs ! i # drop (Suc i) xs" by (simp add: Cons_nth_drop_Suc)
  ultimately show ?thesis
    by (cases "i < length xs") (auto simp: drop_nth_def simp del: append_take_drop_id)
qed


section \<open>The invariant is kept\<close>

lemma mint_begin_ledger:
  assumes "mint_begin w q ledger = (ledger', r)"
  shows "\<exists>es. ledger' = ledger @ es \<and> (\<forall>e \<in> set es. \<forall>a b c. e \<noteq> RevokeEvent a b c)"
  using assms
  by (auto simp: mint_begin_def ledger_append_def mint_event_def split: sum.splits prod.splits ledger_reply.splits if_splits)

lemma mint_checks_token:
  assumes "mint_checks w q = Inr (t, checked, row)"
  shows "token_id t = wd_fresh_id w \<and> \<not> revoked t \<and> revocation_id t = None \<and> revoked_at t = None
    \<and> issued_at t = wd_now w \<and> tk_agent_id t = mr_agent_id q \<and> tk_granted_by t = mr_granted_by q
    \<and> tk_scope t = mr_scope q \<and> mint_expiry q (wd_now w) = Inr (expires_at t) \<and> wd_now w < expires_at t"
  using assms by (auto simp: mint_checks_def bindE_Inr_iff not_le split: if_splits)

lemma mint_expiry_valid:
  "mint_expiry q now = Inr t \<Longrightarrow> valid_mint_request q \<Longrightarrow> valid_instant t"
  by (auto simp: mint_expiry_def valid_mint_request_def split: option.splits if_splits)

lemma mint_begin_token:
  assumes "mint_begin w q ledger = (ledger', Inr t)" "valid_mint_request q" "valid_instant (wd_now w)"
  shows "token_times t \<and> \<not> revoked t \<and> revocation_id t = None \<and> token_id t = wd_fresh_id w
    \<and> minted ledger' (token_id t) (tk_granted_by t) (tk_scope t) (tk_agent_id t)"
proof -
  from assms(1) obtain checked row where c: "mint_checks w q = Inr (t, checked, row)"
    and l: "ledger_append (wd_ledger w) (mint_event t checked row) ledger = (ledger', Inr ())"
    by (auto simp: mint_begin_def split: sum.splits prod.splits)
  note t = mint_checks_token [OF c]
  with assms(2,3) mint_expiry_valid have "token_times t" by (auto simp: token_times_def)
  moreover have "minted ledger' (token_id t) (tk_granted_by t) (tk_scope t) (tk_agent_id t)"
    using ledger_append_acked [OF l] by (simp add: minted_def mint_event_def)
  ultimately show ?thesis using t by simp
qed

lemma revoke_begin_ledger:
  assumes "revoke_begin uuid5 w s tid ledger = (ledger', r)"
  shows "\<exists>es. ledger' = ledger @ es \<and> (\<forall>e \<in> set es. \<exists>i a. e = RevokeEvent i (stable_revocation_id uuid5 i) a)"
  using assms
  by (auto simp: revoke_begin_def ledger_append_def Let_def
      split: sum.splits prod.splits ledger_reply.splits if_splits ledger_error.splits option.splits)

lemma get_token_row:
  "get_token s tid = Inr t \<longleftrightarrow> (\<exists>r. row_get tr_token_id (tokens s) tid = Some r
     \<and> row_to_token (token_spend_ceilings s) r = Some t)"
  by (auto simp: get_token_def row_lookup_def split: option.splits)

lemma revoke_begin_token:
  assumes "revoke_begin uuid5 w s tid ledger = (ledger', Inr rv)" "valid_instant (wd_now w)"
  shows "revocation_id rv = Some (stable_revocation_id uuid5 (token_id rv))
    \<and> revoked_at rv = Some (wd_now w)
    \<and> RevokeEvent (token_id rv) (stable_revocation_id uuid5 (token_id rv)) (tk_agent_id rv) \<in> set ledger'
    \<and> (\<exists>r \<in> set (tokens s). tr_token_id r = token_id rv \<and> tr_agent_id r = tk_agent_id rv)"
proof -
  from assms(1) obtain t where t: "get_token s tid = Inr t"
    and rv: "rv = (revoke_token t (wd_fresh_id w) (wd_now w))\<lparr>revocation_id := Some (stable_revocation_id uuid5 (token_id t))\<rparr>"
    and l: "ledger_append (wd_ledger w)
              (RevokeEvent (token_id t) (stable_revocation_id uuid5 (token_id t)) (tk_agent_id t)) ledger = (ledger', Inr ())"
    by (auto simp: revoke_begin_def store_refusal_def Let_def
        split: sum.splits prod.splits if_splits ledger_error.splits option.splits store_error.splits)
  from t obtain r where r: "row_get tr_token_id (tokens s) tid = Some r" "row_to_token (token_spend_ceilings s) r = Some t"
    by (auto simp: get_token_row)
  have "r \<in> set (tokens s)" using row_get_key [OF r(1)] by simp
  with row_to_token_fields(1,2) [OF r(2)] show ?thesis
    using ledger_append_acked [OF l] by (auto simp: rv revoke_token_def)
qed


text \<open>A longer log keeps what was in flight and stored sound.\<close>

lemma in_flight_mono:
  assumes "da_inv uuid5 s" and "\<forall>e \<in> set es. \<forall>i r a. e = RevokeEvent i r a \<longrightarrow> r = stable_revocation_id uuid5 i"
  shows "da_inv uuid5 (s\<lparr>au_ledger := au_ledger s @ es\<rparr>)"
  using assms by (auto simp: da_inv_def token_row_sound_mono minting_sound_def minted_mono revoking_sound_def)

lemma save_token_tokens: "tokens (fst (save_token s t)) = row_put tr_token_id (token_to_row t) (tokens s)"
  by (simp add: save_token_def Let_def)

lemma save_revoked_tokens:
  "tokens (fst (save_revoked s t)) = row_update (\<lambda>r. tr_token_id r = token_id t \<and> \<not> tr_revoked r)
          (\<lambda>r. r\<lparr>tr_revoked := True, tr_revocation_id := revocation_id t,
                 tr_revoked_at := map_option iso_utc (revoked_at t)\<rparr>) (tokens s)"
  by (simp add: save_revoked_def Let_def)

lemma step_save_mint:
  assumes inv: "da_inv uuid5 s" and i: "i < length (au_minting s)"
  shows "da_inv uuid5 (da_step uuid5 (SaveMint i) s)"
proof -
  let ?t = "au_minting s ! i" and ?m = "drop_nth i (au_minting s)"
  let ?store = "fst (save_token (au_store s) ?t)"
  have t: "minting_sound s ?t" using inv i by (auto simp: da_inv_def)
  have rows: "set (tokens ?store) = insert (token_to_row ?t) (set (tokens (au_store s)))"
    using t by (force simp: save_token_tokens row_put_def minting_sound_def token_to_row_def)
  have d: "distinct (map token_id ?m)" "token_id ?t \<notin> token_id ` set ?m"
    using distinct_drop_nth [of "map token_id (au_minting s)" i] inv i
    by (auto simp: da_inv_def map_drop_nth [symmetric])
  have row: "token_row_sound uuid5 (au_ledger s) (token_to_row ?t)"
    using t by (simp add: minting_sound_def token_row_sound_def token_to_row_def)
  have minting: "\<forall>t \<in> set ?m. minting_sound (s\<lparr>au_store := ?store, au_minting := ?m\<rparr>) t"
  proof
    fix u assume u: "u \<in> set ?m"
    then have "minting_sound s u" using inv set_drop_nth [of i "au_minting s"] by (auto simp: da_inv_def)
    moreover have "token_id u \<noteq> token_id ?t" using u d(2) by (metis image_eqI)
    ultimately show "minting_sound (s\<lparr>au_store := ?store, au_minting := ?m\<rparr>) u"
      by (auto simp: minting_sound_def rows token_to_row_def)
  qed
  have "store_ok ?store"
    using inv t by (intro save_token_ok) (auto simp: da_inv_def minting_sound_def)
  with inv i d(1) row minting show ?thesis
    by (auto simp: da_step_def da_inv_def rows revoking_sound_def)
qed

lemma step_save_revoke:
  assumes inv: "da_inv uuid5 s" and i: "i < length (au_revoking s)"
  shows "da_inv uuid5 (da_step uuid5 (SaveRevoke i) s)"
proof -
  let ?t = "au_revoking s ! i"
  let ?store = "fst (save_revoked (au_store s) ?t)"
  have t: "revoking_sound uuid5 s ?t" using inv i by (auto simp: da_inv_def)
  then obtain r0 where r0: "r0 \<in> set (tokens (au_store s))" "tr_token_id r0 = token_id ?t" "tr_agent_id r0 = tk_agent_id ?t"
    by (auto simp: revoking_sound_def)
  have keys: "unique_keys tr_token_id (tokens (au_store s))" using inv by (simp add: da_inv_def store_ok_def)
  have agent: "tr_agent_id r = tk_agent_id ?t" if "r \<in> set (tokens (au_store s))" "tr_token_id r = token_id ?t" for r
    using unique_keys_get [OF keys r0(1)] unique_keys_get [OF keys that(1)] r0 that by simp
  have rows: "\<forall>r \<in> set (tokens ?store). token_row_sound uuid5 (au_ledger s) r"
  proof
    fix r' assume "r' \<in> set (tokens ?store)"
    then obtain r where r: "r \<in> set (tokens (au_store s))" and r': "r' = (if tr_token_id r = token_id ?t \<and> \<not> tr_revoked r
        then r\<lparr>tr_revoked := True, tr_revocation_id := revocation_id ?t,
               tr_revoked_at := map_option iso_utc (revoked_at ?t)\<rparr> else r)"
      by (auto simp: save_revoked_tokens row_update_def)
    have "token_row_sound uuid5 (au_ledger s) r" using inv r by (simp add: da_inv_def)
    then show "token_row_sound uuid5 (au_ledger s) r'"
      using t agent [OF r] by (auto simp: r' token_row_sound_def revoking_sound_def)
  qed
  have same: "(\<lambda>r. (tr_token_id r, tr_agent_id r)) ` set (tokens ?store)
      = (\<lambda>r. (tr_token_id r, tr_agent_id r)) ` set (tokens (au_store s))"
  proof -
    have "map (\<lambda>r. (tr_token_id r, tr_agent_id r)) (tokens ?store)
        = map (\<lambda>r. (tr_token_id r, tr_agent_id r)) (tokens (au_store s))"
      by (simp add: save_revoked_tokens row_update_def)
    then show ?thesis by (simp only: list.set_map [symmetric])
  qed
  have ids: "tr_token_id ` set (tokens ?store) = tr_token_id ` set (tokens (au_store s))"
  proof -
    have "map tr_token_id (tokens ?store) = map tr_token_id (tokens (au_store s))"
      by (simp add: save_revoked_tokens row_update_def)
    then show ?thesis by (simp only: list.set_map [symmetric])
  qed
  have found: "(\<exists>r \<in> set (tokens ?store). tr_token_id r = i \<and> tr_agent_id r = a)
      \<longleftrightarrow> (\<exists>r \<in> set (tokens (au_store s)). tr_token_id r = i \<and> tr_agent_id r = a)" for i a
  proof -
    have image: "(\<exists>r \<in> S. tr_token_id r = i \<and> tr_agent_id r = a) \<longleftrightarrow> (i, a) \<in> (\<lambda>r. (tr_token_id r, tr_agent_id r)) ` S" for S
      by auto
    show ?thesis by (simp only: image same)
  qed
  have "store_ok ?store"
    using inv t by (intro save_revoked_ok) (auto simp: da_inv_def revoking_sound_def split: option.splits)
  let ?s = "s\<lparr>au_store := ?store, au_revoking := drop_nth i (au_revoking s)\<rparr>"
  have flight: "minting_sound ?s u = minting_sound s u" "revoking_sound uuid5 ?s u = revoking_sound uuid5 s u" for u
    by (simp_all add: minting_sound_def revoking_sound_def ids found)
  have "set (drop_nth i (au_revoking s)) \<subseteq> set (au_revoking s)" by (rule set_drop_nth)
  then have "da_inv uuid5 ?s"
    using inv rows \<open>store_ok ?store\<close> unfolding da_inv_def flight by auto
  with i show ?thesis by (simp add: da_step_def)
qed


lemma da_step_inv:
  assumes inv: "da_inv uuid5 s" and ok: "da_ok x s"
  shows "da_inv uuid5 (da_step uuid5 x s)"
proof (cases x)
  case (BeginMint w q)
  obtain ledger r where m: "mint_begin w q (au_ledger s) = (ledger, r)" by fastforce
  from mint_begin_ledger [OF m] obtain es where es: "ledger = au_ledger s @ es" "\<forall>e \<in> set es. \<forall>a b c. e \<noteq> RevokeEvent a b c"
    by blast
  then have inv': "da_inv uuid5 (s\<lparr>au_ledger := ledger\<rparr>)" using in_flight_mono [OF inv, of es] by auto
  show ?thesis
  proof (cases r)
    case (Inr t)
    have t: "token_times t \<and> \<not> revoked t \<and> revocation_id t = None \<and> token_id t = wd_fresh_id w
        \<and> minted ledger (token_id t) (tk_granted_by t) (tk_scope t) (tk_agent_id t)"
      by (rule mint_begin_token [OF m [unfolded Inr]]) (use ok in \<open>simp_all add: BeginMint da_ok_def\<close>)
    have "minting_sound (s\<lparr>au_ledger := ledger, au_minting := au_minting s @ [t]\<rparr>) u
        \<longleftrightarrow> minting_sound (s\<lparr>au_ledger := ledger\<rparr>) u" for u by (simp add: minting_sound_def)
    moreover have "revoking_sound uuid5 (s\<lparr>au_ledger := ledger, au_minting := au_minting s @ [t]\<rparr>) u
        \<longleftrightarrow> revoking_sound uuid5 (s\<lparr>au_ledger := ledger\<rparr>) u" for u by (simp add: revoking_sound_def)
    moreover have "minting_sound (s\<lparr>au_ledger := ledger\<rparr>) t"
      using t ok unfolding minting_sound_def BeginMint da_ok_def by (elim conjE) simp
    ultimately show ?thesis
      using inv' t ok by (auto simp: da_step_def BeginMint m Inr da_inv_def da_ok_def)
  qed (use inv' m in \<open>simp add: da_step_def BeginMint\<close>)
next
  case (BeginRevoke w tid)
  show ?thesis
  proof (cases "revoke_allowed w (au_store s) tid")
    case (Inl e)
    with inv show ?thesis by (simp add: da_step_def BeginRevoke)
  next
    case (Inr u)
    obtain ledger r where m: "revoke_begin uuid5 w (au_store s) tid (au_ledger s) = (ledger, r)" by fastforce
    from revoke_begin_ledger [OF m] obtain es where es: "ledger = au_ledger s @ es"
      "\<forall>e \<in> set es. \<exists>i a. e = RevokeEvent i (stable_revocation_id uuid5 i) a" by blast
    then have inv': "da_inv uuid5 (s\<lparr>au_ledger := ledger\<rparr>)" using in_flight_mono [OF inv, of es] by auto
    show ?thesis
    proof (cases r)
      case right: (Inr rv)
      have "valid_instant (wd_now w)" using ok by (simp add: da_ok_def BeginRevoke)
      from revoke_begin_token [OF m [unfolded right] this] this
      have "revoking_sound uuid5 (s\<lparr>au_ledger := ledger, au_revoking := au_revoking s @ [rv]\<rparr>) rv"
        by (auto simp: revoking_sound_def)
      then show ?thesis
        using inv' by (auto simp: da_step_def BeginRevoke Inr m right da_inv_def minting_sound_def revoking_sound_def)
    qed (use inv' m Inr in \<open>simp add: da_step_def BeginRevoke\<close>)
  qed
next
  case (SaveMint i)
  with inv step_save_mint [OF inv, of i] show ?thesis by (cases "i < length (au_minting s)") (auto simp: da_step_def)
next
  case (SaveRevoke i)
  with inv step_save_revoke [OF inv, of i] show ?thesis by (cases "i < length (au_revoking s)") (auto simp: da_step_def)
next
  case Crash
  with inv show ?thesis by (simp add: da_step_def da_inv_def minting_sound_def revoking_sound_def)
qed

lemma new_authority_inv: "da_inv uuid5 new_authority"
  by (simp add: da_inv_def new_authority_def empty_store_def store_ok_def unique_keys_def)


section \<open>The contracts the service keeps\<close>

text \<open>A token's revocation id once it is revoked, and a token's ceiling once it is stamped.\<close>

definition revocation_latch :: "string \<Rightarrow> authority \<Rightarrow> string option" where
  "revocation_latch tid s = (case row_get tr_token_id (tokens (au_store s)) tid of None \<Rightarrow> None
     | Some r \<Rightarrow> if tr_revoked r then tr_revocation_id r else None)"

definition ceiling_latch :: "string \<Rightarrow> authority \<Rightarrow> rat option" where
  "ceiling_latch tid s = map_option snd (row_get fst (token_spend_ceilings (au_store s)) tid)"

lemma da_step_store:
  "(\<exists>i. x = SaveMint i \<and> i < length (au_minting s)
      \<and> au_store (da_step uuid5 x s) = fst (save_token (au_store s) (au_minting s ! i)))
   \<or> (\<exists>i. x = SaveRevoke i \<and> i < length (au_revoking s)
      \<and> au_store (da_step uuid5 x s) = fst (save_revoked (au_store s) (au_revoking s ! i)))
   \<or> au_store (da_step uuid5 x s) = au_store s"
  by (cases x) (auto simp: da_step_def split: sum.splits prod.splits)

lemma row_get_save_revoked:
  "row_get tr_token_id (tokens (fst (save_revoked s t))) k =
     map_option (\<lambda>r. if tr_token_id r = token_id t \<and> \<not> tr_revoked r
       then r\<lparr>tr_revoked := True, tr_revocation_id := revocation_id t,
              tr_revoked_at := map_option iso_utc (revoked_at t)\<rparr> else r) (row_get tr_token_id (tokens s) k)"
  by (simp add: save_revoked_tokens row_get_update)

interpretation token_table: keyed_store "row_get tr_token_id" "row_put tr_token_id" tr_token_id
  by unfold_locales (simp add: row_get_put)

interpretation da_log: logging_service "da_step uuid5" au_ledger for uuid5
proof unfold_locales
  fix x s
  show "\<exists>new. au_ledger (da_step uuid5 x s) = au_ledger s @ new"
    by (cases x) (auto simp: da_step_def split: sum.splits prod.splits dest: mint_begin_ledger revoke_begin_ledger)
qed

lemma revocation_latch_step:
  assumes "da_inv uuid5 s" "da_ok x s" "revocation_latch tid s = Some v"
  shows "revocation_latch tid (da_step uuid5 x s) = Some v"
  using da_step_store [of x s uuid5]
proof (elim disjE exE conjE)
  fix i assume i: "i < length (au_minting s)"
    and st: "au_store (da_step uuid5 x s) = fst (save_token (au_store s) (au_minting s ! i))"
  have "minting_sound s (au_minting s ! i)" using assms(1) i by (simp add: da_inv_def)
  moreover obtain r where r: "row_get tr_token_id (tokens (au_store s)) tid = Some r"
    using assms(3) by (auto simp: revocation_latch_def split: option.splits)
  moreover have "tid \<in> tr_token_id ` set (tokens (au_store s))"
    using row_get_key [OF r] by (metis image_eqI)
  ultimately have "tid \<noteq> token_id (au_minting s ! i)"
    unfolding minting_sound_def by metis
  with assms(3) show ?thesis
    by (simp add: revocation_latch_def st save_token_tokens token_table.lookup_put token_to_row_def)
next
  fix i assume "au_store (da_step uuid5 x s) = fst (save_revoked (au_store s) (au_revoking s ! i))"
  with assms(3) show ?thesis
    by (auto simp: revocation_latch_def row_get_save_revoked split: option.splits if_splits)
next
  assume "au_store (da_step uuid5 x s) = au_store s"
  with assms(3) show ?thesis by (simp add: revocation_latch_def)
qed

lemma ceiling_latch_step:
  assumes "ceiling_latch tid s = Some v"
  shows "ceiling_latch tid (da_step uuid5 x s) = Some v"
  using da_step_store [of x s uuid5] assms
  by (elim disjE exE conjE)
    (auto simp: ceiling_latch_def save_token_def save_revoked_def Let_def row_get_insert_or_ignore split: option.splits)

interpretation da_revocations: latched_service "da_step uuid5" da_ok "da_inv uuid5" revocation_latch for uuid5
  by unfold_locales (auto intro: da_step_inv revocation_latch_step)

interpretation da_ceilings: latched_service "da_step uuid5" da_ok "da_inv uuid5" ceiling_latch for uuid5
  by unfold_locales (auto intro: ceiling_latch_step)

text \<open>The state after a run of the service from the empty store.\<close>

definition da_run :: "(string \<Rightarrow> string) \<Rightarrow> da_op list \<Rightarrow> authority" where
  "da_run uuid5 xs = fold (da_step uuid5) xs new_authority"

definition da_reachable :: "(string \<Rightarrow> string) \<Rightarrow> da_op list \<Rightarrow> bool" where
  "da_reachable uuid5 xs = ok_run da_ok (da_step uuid5) xs new_authority"

lemma da_run_inv: "da_reachable uuid5 xs \<Longrightarrow> da_inv uuid5 (da_run uuid5 xs)"
  unfolding da_reachable_def da_run_def by (rule da_revocations.run_inv [OF new_authority_inv])


lemma get_token_total:
  assumes "store_ok s"
  shows "get_token s tid \<noteq> Inl RowUndecodable"
proof (cases "row_get tr_token_id (tokens s) tid")
  case (Some r)
  then have "row_ok r" using assms row_get_key [OF Some] by (simp add: store_ok_def)
  with Some show ?thesis
    using row_ok_decodes [of r "token_spend_ceilings s"] by (auto simp: get_token_def row_lookup_def)
qed (simp add: get_token_def row_lookup_def)

lemma latched_introspects_revoked:
  assumes "da_inv uuid5 s" "revocation_latch tid s = Some v"
  shows "v = stable_revocation_id uuid5 tid
    \<and> (\<exists>i. introspect (au_store s) tid now = Inr i \<and> \<not> in_active i \<and> in_status i = TS_revoked)"
proof -
  from assms(2) obtain r where r: "row_get tr_token_id (tokens (au_store s)) tid = Some r" "tr_revoked r"
    "tr_revocation_id r = Some v" by (auto simp: revocation_latch_def split: option.splits if_splits)
  have row: "r \<in> set (tokens (au_store s))" "tr_token_id r = tid" using row_get_key [OF r(1)] by auto
  with assms(1) have "token_row_sound uuid5 (au_ledger s) r" "row_ok r" by (auto simp: da_inv_def store_ok_def)
  with row r(2,3) have v: "v = stable_revocation_id uuid5 tid" by (simp add: token_row_sound_def)
  from row_ok_decodes [OF \<open>row_ok r\<close>, of "token_spend_ceilings (au_store s)"] obtain t where
    t: "row_to_token (token_spend_ceilings (au_store s)) r = Some t" ..
  then have "get_token (au_store s) tid = Inr t" "revoked t"
    using r row_to_token_fields(3) [OF t] by (auto simp: get_token_row)
  with v show ?thesis by (simp add: introspect_def status_at_def)
qed

section \<open>A run to evaluate\<close>

definition demo_world :: world where
  "demo_world = \<lparr>wd_operator = NO_AUTH,
     wd_registry = RegistryAgent \<lparr>ra_status = Some ''active'', ra_manifest_ref = Some ''m''\<rparr>,
     wd_manifest = (\<lambda>_. (Some (demo_manifest []), RR_ok)), wd_roster_env = ''doa.yaml'',
     wd_roster = RosterRows [\<lparr>gr_grantor = ''don'', gr_allowed_scope = [''read''], gr_max_ttl_days = 1,
        gr_max_spend_usd = Some 5, gr_active = True\<rparr>],
     wd_now = 63900000000 * second, wd_fresh_id = ''t1'', wd_ledger = LR_created\<rparr>"

definition demo_request :: mint_request where
  "demo_request = \<lparr>mr_agent_id = ''a1'', mr_granted_by = ''don'', mr_scope = [''read''], mr_ttl_seconds = Some 60,
     mr_expires_at = None\<rparr>"

definition demo_token :: delegation_token where
  "demo_token = \<lparr>token_id = ''t1'', tk_agent_id = ''a1'', tk_granted_by = ''don'', tk_scope = [''read''],
     issued_at = 63900000000 * second, expires_at = 63900000060 * second, revoked = False, revocation_id = None,
     revoked_at = None, max_spend_usd = Some 5\<rparr>"

lemma demo_manifest_expiry: "parse_expiry ''2027-01-01'' = Some (739981 * day_us)"
  by (simp add: parse_expiry_def expiry_shape_def is_digit_def dec_val_def digit_val_def hh_mm_def valid_date_def
      is_leap_def ymd2ord_def days_before_def month_lengths_def Let_def)

lemma demo_checks: "mint_checks demo_world demo_request
    = Inr (demo_token, True, Some \<lparr>dl_grantor = ''don'', dl_max_ttl_days = 1, dl_max_spend_usd = Some 5\<rparr>)"
  by (simp add: mint_checks_def demo_world_def demo_request_def op_check_def check_granted_by_def NO_AUTH_def unproven_def
      require_active_agent_def get_agent_def mint_expiry_def valid_instant_def day_us_def second_def doa_gate_def
      roster_path_def py_strip_def py_isspace_def load_roster_def valid_grantor_row_def MAX_TTL_DAYS_def
      grantors_are_unique_def find_grantor_def may_delegate_def demo_manifest_def demo_manifest_expiry ledger_row_def
      check_list_bound_reach_def list_bound_applies_def demo_token_def Let_def)


definition demo_mint_ops :: "da_op list" where
  "demo_mint_ops = [BeginMint demo_world demo_request, SaveMint 0]"

definition demo_revoke_ops :: "da_op list" where
  "demo_revoke_ops = [BeginRevoke demo_world ''t1'', SaveRevoke 0]"

definition demo_minted :: authority where
  "demo_minted = \<lparr>au_store = \<lparr>tokens = [token_to_row demo_token], token_spend_ceilings = [(''t1'', 5)]\<rparr>,
     au_ledger = [mint_event demo_token True (Some \<lparr>dl_grantor = ''don'', dl_max_ttl_days = 1, dl_max_spend_usd = Some 5\<rparr>)],
     au_minting = [], au_revoking = []\<rparr>"

lemma demo_request_ok: "valid_mint_request demo_request" "valid_instant (63900000000 * second)"
    "valid_instant (63900000060 * second)"
  by (simp_all add: valid_mint_request_def demo_request_def valid_instant_def day_us_def second_def)

lemma demo_mint_run: "da_run uuid5 demo_mint_ops = demo_minted" "da_reachable uuid5 demo_mint_ops"
proof -
  have b: "mint_begin demo_world demo_request [] = (au_ledger demo_minted, Inr demo_token)"
    by (simp add: mint_begin_def demo_checks ledger_append_def demo_minted_def) (simp add: demo_world_def)
  show "da_run uuid5 demo_mint_ops = demo_minted"
    by (simp add: da_run_def demo_mint_ops_def da_step_def new_authority_def b drop_nth_def save_token_def
        demo_minted_def empty_store_def Let_def row_put_def row_insert_or_ignore_def)
      (simp add: demo_token_def row_insert_or_ignore_def)
  show "da_reachable uuid5 demo_mint_ops"
    using demo_request_ok
    by (simp add: da_reachable_def demo_mint_ops_def da_ok_def new_authority_def empty_store_def)
      (simp add: demo_world_def)
qed

lemma demo_get: "get_token (au_store demo_minted) ''t1'' = Inr demo_token"
proof -
  have "token_times demo_token" using demo_request_ok by (simp add: token_times_def demo_token_def)
  from row_to_token_of_row [OF this, of "[(''t1'', 5)]"] show ?thesis
    by (simp add: get_token_row demo_minted_def row_get_def token_to_row_def demo_token_def)
qed

lemma demo_revoke_run:
  "revocation_latch ''t1'' (da_run uuid5 (demo_mint_ops @ demo_revoke_ops)) = Some (stable_revocation_id uuid5 ''t1'')"
  "da_reachable uuid5 (demo_mint_ops @ demo_revoke_ops)"
  "RevokeEvent ''t1'' (stable_revocation_id uuid5 ''t1'') ''a1'' \<in> set (au_ledger (da_run uuid5 (demo_mint_ops @ demo_revoke_ops)))"
proof -
  let ?rv = "(revoke_token demo_token ''t1'' (63900000000 * second))\<lparr>revocation_id := Some (stable_revocation_id uuid5 ''t1'')\<rparr>"
  let ?e = "RevokeEvent ''t1'' (stable_revocation_id uuid5 ''t1'') ''a1''"
  have allowed: "revoke_allowed demo_world (au_store demo_minted) ''t1'' = Inr ()"
    by (simp add: revoke_allowed_def demo_get list_bound_applies_def demo_world_def NO_AUTH_def unproven_def Let_def)
  have "revoke_begin uuid5 demo_world (au_store demo_minted) ''t1'' l = (l @ [?e], Inr ?rv)" for l
    by (simp add: revoke_begin_def demo_get store_refusal_def ledger_append_def Let_def)
      (simp add: demo_token_def demo_world_def)
  then have run: "da_run uuid5 (demo_mint_ops @ demo_revoke_ops) = demo_minted\<lparr>au_ledger := au_ledger demo_minted @ [?e],
      au_store := fst (save_revoked (au_store demo_minted) ?rv)\<rparr>"
    using demo_mint_run(1) [of uuid5] allowed
    by (simp add: da_run_def demo_revoke_ops_def da_step_def drop_nth_def) (simp add: demo_minted_def)
  show "RevokeEvent ''t1'' (stable_revocation_id uuid5 ''t1'') ''a1'' \<in> set (au_ledger (da_run uuid5 (demo_mint_ops @ demo_revoke_ops)))"
    by (simp add: run)
  from run show "revocation_latch ''t1'' (da_run uuid5 (demo_mint_ops @ demo_revoke_ops)) = Some (stable_revocation_id uuid5 ''t1'')"
    by (simp add: revocation_latch_def row_get_save_revoked)
      (simp add: demo_minted_def row_get_def token_to_row_def demo_token_def revoke_token_def)
  show "da_reachable uuid5 (demo_mint_ops @ demo_revoke_ops)"
    using demo_mint_run(2) [of uuid5] demo_request_ok
    by (simp add: da_reachable_def ok_run_append demo_revoke_ops_def da_ok_def) (simp add: demo_world_def)
qed


section \<open>Properties\<close>

text \<open>C9: an armed roster bounds every mint: when \<open>FIELD_DOA_ROSTER\<close> names a file and a mint passes the
  checks, the file holds a valid roster with an active row for the grantor, every requested scope is in
  that row and in the manifest's \<open>delegation.scope\<close>, the token outlives neither the row's
  \<open>max_ttl_days\<close> nor the manifest's expiry, it expires in the future and carries the row's ceiling.\<close>

theorem armed_mint_is_bounded:
  assumes "mint_checks w q = Inr (t, checked, row)" and "roster_path (wd_roster_env w) \<noteq> None"
  shows "checked \<and> (\<exists>rows g agent m mexp.
     load_roster (wd_roster w) = Inr rows \<and> g \<in> set rows \<and> gr_grantor g = tk_granted_by t \<and> gr_active g
     \<and> set (tk_scope t) \<subseteq> set (gr_allowed_scope g) \<and> require_active_agent (wd_registry w) = Inr agent
     \<and> fst (wd_manifest w (ra_manifest_ref agent)) = Some m
     \<and> set (tk_scope t) \<subseteq> set (md_scope (mf_delegation_section m))
     \<and> parse_expiry (md_expiry (mf_delegation_section m)) = Some mexp \<and> expires_at t \<le> mexp
     \<and> wd_now w < expires_at t \<and> expires_at t - wd_now w \<le> gr_max_ttl_days g * day_us
     \<and> max_spend_usd t = gr_max_spend_usd g)"
proof -
  from assms(1) obtain via agent expires where
    agent: "require_active_agent (wd_registry w) = Inr agent" and future: "wd_now w < expires"
    and gate: "doa_gate w q agent expires = Inr (checked, row, max_spend_usd t)"
    and t: "tk_granted_by t = mr_granted_by q" "tk_scope t = mr_scope q" "expires_at t = expires"
    unfolding mint_checks_def
    by (auto simp: bindE_Inr_iff not_le split: if_splits sum.splits)
  from gate assms(2) obtain rows g m why mexp where
    f: "load_roster (wd_roster w) = Inr rows" "find_grantor rows (mr_granted_by q) = Some g" "gr_active g"
      "may_delegate g (mr_scope q) = []" "wd_manifest w (ra_manifest_ref agent) = (Some m, why)"
      "filter (\<lambda>s. s \<notin> set (md_scope (mf_delegation_section m))) (mr_scope q) = []"
      "parse_expiry (md_expiry (mf_delegation_section m)) = Some mexp"
      "expires - wd_now w \<le> gr_max_ttl_days g * day_us" "expires \<le> mexp" "checked"
      "max_spend_usd t = gr_max_spend_usd g"
    unfolding doa_gate_def
    by (auto simp: Let_def not_less split: option.splits sum.splits prod.splits if_splits)
  have g: "g \<in> set rows" "gr_grantor g = mr_granted_by q"
    using find_SomeD [OF f(2) [unfolded find_grantor_def]] by auto
  show ?thesis
    using f g agent future t
    by (intro conjI exI [of _ rows] exI [of _ g] exI [of _ agent] exI [of _ m] exI [of _ mexp])
      (auto simp: may_delegate_def filter_empty_conv)
qed

lemma armed_mint_is_bounded_witness:
  "\<exists>g. load_roster (wd_roster demo_world) = Inr [g] \<and> gr_active g \<and> max_spend_usd demo_token = gr_max_spend_usd g"
proof -
  have "roster_path (wd_roster_env demo_world) \<noteq> None"
    by (simp add: demo_world_def roster_path_def py_strip_def py_isspace_def)
  from armed_mint_is_bounded [OF demo_checks this] obtain rows g where
    "load_roster (wd_roster demo_world) = Inr rows" "g \<in> set rows" "gr_active g"
    "max_spend_usd demo_token = gr_max_spend_usd g" by metis
  then show ?thesis
    by (auto simp: demo_world_def load_roster_def split: if_splits)
qed

text \<open>C10: a mint that is refused leaves no authority behind: the store is unchanged, and so is the ledger
  unless its answer was lost on the way back (502, the event without a token); a mint that succeeds
  was acknowledged by the ledger first and the token it returns is the one the store gives back.\<close>

theorem mint_ledger_first:
  assumes "mint w q s = (s', r)" and "valid_mint_request q" and "valid_instant (wd_now w)"
  shows "case r of
      Inl e \<Rightarrow> au_store s' = au_store s \<and> (au_ledger s' = au_ledger s \<or> wd_ledger w = LR_lost True \<and> e = Http 502 LedgerDown)
    | Inr t \<Rightarrow> (\<exists>checked row. au_ledger s' = au_ledger s @ [mint_event t checked row])
        \<and> get_token (au_store s') (wd_fresh_id w) = Inr t"
proof (cases "mint_begin w q (au_ledger s)")
  case (Pair ledger b)
  show ?thesis
  proof (cases b)
    case (Inl e)
    with Pair assms(1) show ?thesis
      by (auto simp: mint_def mint_begin_def ledger_append_def split: sum.splits prod.splits ledger_reply.splits if_splits)
  next
    case (Inr t0)
    have t0: "token_times t0" "token_id t0 = wd_fresh_id w"
      using mint_begin_token [OF Pair [unfolded Inr] assms(2,3)] by auto
    obtain store t where st: "save_token (au_store s) t0 = (store, t)" by fastforce
    have r: "r = Inr t" "au_store s' = store" "au_ledger s' = ledger"
      using assms(1) Pair Inr st by (auto simp: mint_def Let_def)
    have t: "t = t0\<lparr>max_spend_usd := max_spend_usd t\<rparr>"
      using st by (auto simp: save_token_def Let_def split: if_splits)
    from Pair Inr obtain checked row where "ledger_append (wd_ledger w) (mint_event t0 checked row) (au_ledger s) = (ledger, Inr ())"
      by (auto simp: mint_begin_def split: sum.splits prod.splits)
    then have "ledger = au_ledger s @ [mint_event t checked row]"
      using ledger_append_acked [of "wd_ledger w" "mint_event t0 checked row" "au_ledger s" ledger]
      by (subst t) (simp add: mint_event_def)
    moreover have "get_token store (wd_fresh_id w) = Inr t"
      using st t0 row_to_token_of_row [OF t0(1)]
      by (auto simp: get_token_row save_token_def Let_def row_get_put token_to_row_def split: if_splits)
    ultimately show ?thesis using r by auto
  qed
qed

lemma mint_ledger_first_witness:
  "get_token (au_store (fst (mint demo_world demo_request new_authority))) ''t1''
     = Inr (projr (snd (mint demo_world demo_request new_authority)))"
proof -
  have b: "mint_begin demo_world demo_request [] = (au_ledger demo_minted, Inr demo_token)"
    by (simp add: mint_begin_def demo_checks ledger_append_def demo_minted_def) (simp add: demo_world_def)
  obtain s' r where m: "mint demo_world demo_request new_authority = (s', r)" by fastforce
  then have "\<exists>t. r = Inr t" by (auto simp: mint_def b new_authority_def Let_def split: prod.splits)
  moreover have "valid_instant (wd_now demo_world)" using demo_request_ok by (simp add: demo_world_def)
  moreover have "wd_fresh_id demo_world = ''t1''" by (simp add: demo_world_def)
  ultimately show ?thesis
    using mint_ledger_first [OF m demo_request_ok(1)] m by auto
qed


text \<open>C11: a revocation is permanent and has one id: once a token's revocation is written, whatever the
  service does next (further mints, racing or repeated revokes, crashes), its revocation id stays the
  uuid5 of the token id and introspection answers inactive and revoked at every time.\<close>

theorem revocation_is_permanent:
  assumes "da_reachable uuid5 (xs @ ys)" and "revocation_latch tid (da_run uuid5 xs) = Some v"
  shows "revocation_latch tid (da_run uuid5 (xs @ ys)) = Some v \<and> v = stable_revocation_id uuid5 tid
    \<and> (\<exists>i. introspect (au_store (da_run uuid5 (xs @ ys))) tid now = Inr i \<and> \<not> in_active i \<and> in_status i = TS_revoked)"
proof -
  have ys: "ok_run da_ok (da_step uuid5) ys (da_run uuid5 xs)" and xs: "da_reachable uuid5 xs"
    using assms(1) by (auto simp: da_reachable_def da_run_def ok_run_append)
  have run: "da_run uuid5 (xs @ ys) = fold (da_step uuid5) ys (da_run uuid5 xs)" by (simp add: da_run_def)
  have "revocation_latch tid (da_run uuid5 (xs @ ys)) = Some v"
    unfolding run by (rule da_revocations.run_latch [OF da_run_inv [OF xs] ys assms(2)])
  with latched_introspects_revoked [OF da_run_inv [OF assms(1)] this] show ?thesis by blast
qed

lemma revocation_is_permanent_witness:
  "revocation_latch ''t1'' (da_run (\<lambda>n. n) ((demo_mint_ops @ demo_revoke_ops) @ [Crash, BeginRevoke demo_world ''t1'']))
     = Some ''field:delegation-revoke:t1''"
proof -
  have "da_reachable (\<lambda>n. n) ((demo_mint_ops @ demo_revoke_ops) @ [Crash, BeginRevoke demo_world ''t1''])"
    using demo_revoke_run(2) [of "\<lambda>n. n"] demo_request_ok
    by (simp add: da_reachable_def ok_run_append da_ok_def) (simp add: demo_world_def)
  from revocation_is_permanent [OF this demo_revoke_run(1)] show ?thesis
    by (simp add: stable_revocation_id_def)
qed

text \<open>no authority without an audit record: in every state the service can reach, each token that
  can be read has a \<open>delegation.mint\<close> event with its id, grantor, scope and agent in the ledger, and if it
  is revoked a \<open>delegation.revoke\<close> event with the revocation id it stores.\<close>

lemma stored_tokens_are_audited:
  assumes "da_reachable uuid5 xs" and "get_token (au_store (da_run uuid5 xs)) tid = Inr t"
  shows "minted (au_ledger (da_run uuid5 xs)) tid (tk_granted_by t) (tk_scope t) (tk_agent_id t)
    \<and> (if revoked t
       then \<exists>rid. revocation_id t = Some rid \<and> RevokeEvent tid rid (tk_agent_id t) \<in> set (au_ledger (da_run uuid5 xs))
       else revocation_id t = None)"
proof -
  from assms(2) obtain r where r: "row_get tr_token_id (tokens (au_store (da_run uuid5 xs))) tid = Some r"
    "row_to_token (token_spend_ceilings (au_store (da_run uuid5 xs))) r = Some t" by (auto simp: get_token_row)
  have "token_row_sound uuid5 (au_ledger (da_run uuid5 xs)) r" "tr_token_id r = tid"
    using da_run_inv [OF assms(1)] row_get_key [OF r(1)] by (auto simp: da_inv_def)
  with row_to_token_fields [OF r(2)] show ?thesis by (auto simp: token_row_sound_def split: if_splits)
qed

lemma stored_tokens_are_audited_witness:
  "minted (au_ledger demo_minted) ''t1'' ''don'' [''read''] ''a1''"
  using stored_tokens_are_audited [OF demo_mint_run(2) [of "\<lambda>n. n"], of "''t1''" demo_token] demo_get
  by (simp add: demo_mint_run(1)) (simp add: demo_token_def)

text \<open>the ledger never holds two revocation ids for a token: in every reachable state all
  \<open>delegation.revoke\<close> events of one token carry one id, the one the token stores when it is revoked,
  however requests raced, retried or died between the ledger and the store.\<close>

lemma one_revocation_id:
  assumes "da_reachable uuid5 xs"
    and "RevokeEvent tid rid a \<in> set (au_ledger (da_run uuid5 xs))"
  shows "rid = stable_revocation_id uuid5 tid
    \<and> (revocation_latch tid (da_run uuid5 xs) = None \<or> revocation_latch tid (da_run uuid5 xs) = Some rid)"
proof -
  note inv = da_run_inv [OF assms(1)]
  have "rid = stable_revocation_id uuid5 tid" using inv assms(2) unfolding da_inv_def by blast
  with latched_introspects_revoked [OF inv, of tid _ 0] show ?thesis
    by (cases "revocation_latch tid (da_run uuid5 xs)") auto
qed


lemma one_revocation_id_witness:
  "revocation_latch ''t1'' (da_run (\<lambda>n. n) (demo_mint_ops @ demo_revoke_ops)) = None
   \<or> revocation_latch ''t1'' (da_run (\<lambda>n. n) (demo_mint_ops @ demo_revoke_ops)) = Some ''field:delegation-revoke:t1''"
  using one_revocation_id [OF demo_revoke_run(2,3)] by (simp add: stable_revocation_id_def)

text \<open>introspection answers active exactly for a stored token that is not revoked and not past its
  expiry, with the token's own agent, scope and ceiling; an unknown id is answered as revoked, and the
  OAuth form says active exactly when introspection does and otherwise says nothing but inactive.\<close>

lemma introspect_active_iff:
  assumes "store_ok s"
  shows "\<exists>i. introspect s tid now = Inr i
    \<and> (in_active i \<longleftrightarrow> (\<exists>t. get_token s tid = Inr t \<and> \<not> revoked t \<and> now < expires_at t
          \<and> in_agent_id i = Some (tk_agent_id t) \<and> in_scope i = tk_scope t \<and> in_max_spend_usd i = max_spend_usd t))
    \<and> (get_token s tid = Inl TokenNotFound \<longrightarrow> in_status i = TS_revoked)
    \<and> (py_strip tid \<noteq> [] \<longrightarrow> (\<exists>a. oauth_introspect s tid now = Inr a \<and> (a = OAuthInactive \<longleftrightarrow> \<not> in_active i)))"
  using get_token_total [OF assms, of tid]
  by (cases "get_token s tid" rule: sum.exhaust)
    (auto simp: introspect_def oauth_introspect_def status_at_def split: store_error.splits)

lemma introspect_active_iff_witness:
  "\<exists>i. introspect (au_store demo_minted) ''t1'' (63900000030 * second) = Inr i \<and> in_active i"
proof -
  have "store_ok (au_store demo_minted)"
    using da_run_inv [OF demo_mint_run(2) [of "\<lambda>n. n"]] by (simp add: demo_mint_run(1) da_inv_def)
  from introspect_active_iff [OF this, of "''t1''" "63900000030 * second"] obtain i where
    i: "introspect (au_store demo_minted) ''t1'' (63900000030 * second) = Inr i"
    "in_active i \<longleftrightarrow> (\<exists>t. get_token (au_store demo_minted) ''t1'' = Inr t \<and> \<not> revoked t \<and> 63900000030 * second < expires_at t
          \<and> in_agent_id i = Some (tk_agent_id t) \<and> in_scope i = tk_scope t \<and> in_max_spend_usd i = max_spend_usd t)"
    by blast
  have "in_agent_id i = Some (tk_agent_id demo_token) \<and> in_scope i = tk_scope demo_token \<and> in_max_spend_usd i = max_spend_usd demo_token"
    using i(1) by (auto simp: introspect_def demo_get)
  with i demo_get show ?thesis by (auto simp: demo_token_def second_def)
qed

text \<open>a ceiling is stamped once: whatever the service does after a token's spend ceiling is recorded,
  the ceiling it reads back stays the one recorded first.\<close>

lemma ceiling_never_changes:
  assumes "da_reachable uuid5 (xs @ ys)" and "ceiling_latch tid (da_run uuid5 xs) = Some c"
    and "get_token (au_store (da_run uuid5 (xs @ ys))) tid = Inr t"
  shows "max_spend_usd t = Some c"
proof -
  have ys: "ok_run da_ok (da_step uuid5) ys (da_run uuid5 xs)" and xs: "da_reachable uuid5 xs"
    using assms(1) by (auto simp: da_reachable_def da_run_def ok_run_append)
  have run: "da_run uuid5 (xs @ ys) = fold (da_step uuid5) ys (da_run uuid5 xs)" by (simp add: da_run_def)
  have "ceiling_latch tid (da_run uuid5 (xs @ ys)) = Some c"
    unfolding run by (rule da_ceilings.run_latch [OF da_run_inv [OF xs] ys assms(2)])
  moreover obtain r where "row_get tr_token_id (tokens (au_store (da_run uuid5 (xs @ ys)))) tid = Some r"
    and t: "row_to_token (token_spend_ceilings (au_store (da_run uuid5 (xs @ ys)))) r = Some t"
    using assms(3) by (auto simp: get_token_row)
  moreover from this(1) have "tr_token_id r = tid" using row_get_key by metis
  ultimately show ?thesis
    using row_to_token_fields(9) [OF t] by (simp add: ceiling_latch_def)
qed

lemma ceiling_never_changes_witness: "max_spend_usd demo_token = Some 5"
proof -
  have "da_reachable (\<lambda>n. n) (demo_mint_ops @ [Crash])"
    using demo_mint_run(2) [of "\<lambda>n. n"] by (simp add: da_reachable_def ok_run_append da_ok_def)
  moreover have "ceiling_latch ''t1'' (da_run (\<lambda>n. n) demo_mint_ops) = Some 5"
    by (simp add: demo_mint_run(1) ceiling_latch_def demo_minted_def row_get_def)
  moreover have "da_run (\<lambda>n. n) (demo_mint_ops @ [Crash]) = demo_minted"
    using demo_mint_run(1) [of "\<lambda>n. n"] by (simp add: da_run_def da_step_def demo_minted_def)
  then have "get_token (au_store (da_run (\<lambda>n. n) (demo_mint_ops @ [Crash]))) ''t1'' = Inr demo_token"
    by (simp add: demo_get)
  ultimately show ?thesis by (rule ceiling_never_changes)
qed

end
