(* ===== verification/Spend_Core.thy ===== *)
theory Spend_Core
  imports Operator_Auth "HOL-Library.Multiset"
begin

text \<open>
  \<open>services/spend-governor/src/spend_governor/core.py\<close>, the parts without a database: configuration
  values and their validation, the period grammar, the overflow-safe SQL sums, counting of actions
  that two sides report, the rolling-window arithmetic and the cap decision.
\<close>

unbundle bit_operations_syntax

section \<open>Bounds and periods\<close>

definition MAX_AMOUNT :: int where "MAX_AMOUNT = 10 ^ 12"
definition MAX_RATE_PERIOD_SECONDS :: int where "MAX_RATE_PERIOD_SECONDS = 366 * 86400"
definition DEFAULT_ESCALATE_AT_PCT :: int where "DEFAULT_ESCALATE_AT_PCT = 80"

datatype spend_state = SS_ok | SS_escalate | SS_throttled | SS_block

definition SUPPORTED_CAP_PERIODS :: "string list" where
  "SUPPORTED_CAP_PERIODS = [''daily'', ''monthly'', ''total'']"

definition DECLARED_UNENFORCED_PERIODS :: "string list" where
  "DECLARED_UNENFORCED_PERIODS = [''session'']"

definition NAMED_RATE_PERIODS :: "(string \<times> int) list" where
  "NAMED_RATE_PERIODS = [(''hourly'', 3600), (''daily'', 86400), (''monthly'', 30 * 86400)]"

definition RATE_UNIT_SECONDS :: "(char \<times> int) list" where
  "RATE_UNIT_SECONDS = [(CHR ''s'', 1), (CHR ''m'', 60), (CHR ''h'', 3600), (CHR ''d'', 86400)]"

datatype rate_error = UnknownRatePeriod | RatePeriodTooLong | DuplicateRateLimit | RateEntryInvalid

text \<open>\<open>([1-9][0-9]{0,8})([smhd])\<close>, matched in full: the digits and the seconds of the unit.\<close>

definition match_rate_period :: "string \<Rightarrow> (string \<times> int) option" where
  "match_rate_period p =
     (if p = [] then None
      else let ds = butlast p in
        if ds \<noteq> [] \<and> length ds \<le> 9 \<and> list_all is_digit ds \<and> hd ds \<noteq> CHR ''0''
        then map_option (\<lambda>u. (ds, u)) (map_of RATE_UNIT_SECONDS (last p)) else None)"

definition parse_rate_period :: "string \<Rightarrow> rate_error + int option" where
  "parse_rate_period p =
     (if p \<in> set DECLARED_UNENFORCED_PERIODS then Inr None
      else case map_of NAMED_RATE_PERIODS p of Some n \<Rightarrow> Inr (Some n)
      | None \<Rightarrow> (case match_rate_period p of None \<Rightarrow> Inl UnknownRatePeriod
        | Some (ds, unit) \<Rightarrow> (let seconds = int (dec_val ds) * unit in
            if MAX_RATE_PERIOD_SECONDS < seconds then Inl RatePeriodTooLong else Inr (Some seconds))))"

text \<open>\<open>now\<close> less a rolling window, not before the first representable instant.\<close>

definition rolling_window_start :: "instant \<Rightarrow> int \<Rightarrow> instant" where
  "rolling_window_start now seconds =
     (if valid_instant (now - seconds * second) then now - seconds * second else 0)"

text \<open>The start of a cap's window, as the ISO text the store compares with.\<close>

definition window_start :: "string \<Rightarrow> instant \<Rightarrow> string" where
  "window_start period now =
     (let date = iso_date (nat (now div day_us) + 1) in
      if period = ''daily'' then date @ ''T00:00:00+00:00''
      else if period = ''monthly'' then take 8 date @ ''01T00:00:00+00:00''
      else ''1970-01-01T00:00:00+00:00'')"

section \<open>Caps and rate limits as configured\<close>

record cap_config =
  cap_agent :: string
  cap_currency :: string
  limit_cents :: "int option"
  token_limit :: "int option"
  action_limit :: "int option"
  cap_period :: string
  escalate_at_pct :: int
  cap_on_breach :: string

definition valid_limit :: "int option \<Rightarrow> bool" where
  "valid_limit x = (case x of None \<Rightarrow> True | Some n \<Rightarrow> 0 < n \<and> n \<le> MAX_AMOUNT)"

definition valid_cap :: "cap_config \<Rightarrow> bool" where
  "valid_cap c = (cap_agent c \<noteq> [] \<and> valid_limit (limit_cents c) \<and> valid_limit (token_limit c)
     \<and> valid_limit (action_limit c) \<and> cap_period c \<in> set SUPPORTED_CAP_PERIODS
     \<and> 1 \<le> escalate_at_pct c \<and> escalate_at_pct c \<le> 100
     \<and> \<not> (limit_cents c = None \<and> token_limit c = None \<and> action_limit c = None))"

datatype cap_refusal = NoSpendCap | SubCentLimit | UnsupportedCapPeriod string | CapInvalid

text \<open>Python's \<open>round\<close>: halves go to the even neighbour.\<close>

definition py_round :: "rat \<Rightarrow> int" where
  "py_round x = (let f = floor x; d = x - of_int f in
     if d < 1 / 2 then f else if 1 / 2 < d then f + 1 else if even f then f else f + 1)"

definition cap_from_manifest :: "field_manifest \<Rightarrow> string \<Rightarrow> cap_refusal + cap_config" where
  "cap_from_manifest m agent =
     (case en_spend_cap (mf_enforcement m) of None \<Rightarrow> Inl NoSpendCap
      | Some cap \<Rightarrow>
        let cents = py_round (sc_limit cap * 100) in
        if 1 / 10 ^ 9 < \<bar>of_int cents - sc_limit cap * 100\<bar> then Inl SubCentLimit
        else if sc_period cap \<notin> set SUPPORTED_CAP_PERIODS then Inl (UnsupportedCapPeriod (sc_period cap))
        else let c = \<lparr>cap_agent = agent, cap_currency = sc_currency cap, limit_cents = Some cents,
               token_limit = None, action_limit = None, cap_period = sc_period cap,
               escalate_at_pct = DEFAULT_ESCALATE_AT_PCT,
               cap_on_breach = (case on_breach cap of Some b \<Rightarrow> if b = [] then ''halt'' else b | None \<Rightarrow> ''halt'')\<rparr>
          in if valid_cap c then Inr c else Inl CapInvalid)"

record rate_entry =
  re_action :: string
  re_max :: int
  re_period :: string

definition valid_rate_entry :: "rate_entry \<Rightarrow> bool" where
  "valid_rate_entry e = (re_action e \<noteq> [] \<and> 1 \<le> re_max e \<and> re_max e \<le> MAX_AMOUNT \<and> re_period e \<noteq> [])"

record rate_limit_set =
  rs_agent :: string
  rs_limits :: "rate_entry list"

text \<open>Known periods and no duplicates: the loop of the validator, with what it has seen.\<close>

definition check_rate_entry :: "nat \<Rightarrow> (string \<times> string) list \<Rightarrow> rate_entry \<Rightarrow> rate_error + (string \<times> string) list" where
  "check_rate_entry i seen e =
     bindE (parse_rate_period (re_period e)) (\<lambda>_.
       if (re_action e, re_period e) \<in> set seen then Inl DuplicateRateLimit
       else Inr ((re_action e, re_period e) # seen))"

definition make_rate_set :: "string \<Rightarrow> rate_entry list \<Rightarrow> rate_error + rate_limit_set" where
  "make_rate_set agent es =
     (if agent = [] \<or> \<not> list_all valid_rate_entry es then Inl RateEntryInvalid
      else bindE (loopE check_rate_entry 1 [] es) (\<lambda>_. Inr \<lparr>rs_agent = agent, rs_limits = es\<rparr>))"

definition rates_from_manifest :: "field_manifest \<Rightarrow> string \<Rightarrow> rate_error + rate_limit_set" where
  "rates_from_manifest m agent =
     make_rate_set agent (map (\<lambda>r. \<lparr>re_action = rl_action r, re_max = rl_max r, re_period = rl_period r\<rparr>)
       (case rate_limits (mf_enforcement m) of None \<Rightarrow> [] | Some rs \<Rightarrow> rs))"

section \<open>Sums in 64-bit SQL\<close>

definition int64 :: "int \<Rightarrow> bool" where
  "int64 v = (- (2 ^ 63) \<le> v \<and> v < 2 ^ 63)"

text \<open>\<open>COALESCE(SUM(col),0)\<close>: an integer sum that leaves 64 bits is an error, None.\<close>

fun sql_sum_from :: "int \<Rightarrow> int list \<Rightarrow> int option" where
  "sql_sum_from acc [] = Some acc"
| "sql_sum_from acc (x # xs) = (if int64 (acc + x) then sql_sum_from (acc + x) xs else None)"

definition sql_sum :: "int list \<Rightarrow> int option" where
  "sql_sum xs = sql_sum_from 0 xs"

definition split_sum :: "int list \<Rightarrow> (int \<times> int) option" where
  "split_sum xs =
     (case (sql_sum (map (drop_bit 32) xs), sql_sum (map (\<lambda>v. v AND 4294967295) xs)) of
        (Some hi, Some lo) \<Rightarrow> Some (hi, lo) | _ \<Rightarrow> None)"

definition join_sum :: "int \<times> int \<Rightarrow> int" where
  "join_sum r = push_bit 32 (fst r) + snd r"

definition sum_column :: "int list \<Rightarrow> int option" where
  "sum_column xs = map_option join_sum (split_sum xs)"

section \<open>Counting actions\<close>

type_synonym action_group = "string option \<times> string \<times> int"

record action_tally =
  self_by :: "(string \<times> int) list"
  metered_by :: "(string \<times> int) list"
  self_total :: int
  metered_total :: int
  unattributed :: int

definition get0 :: "(string \<times> int) list \<Rightarrow> string \<Rightarrow> int" where
  "get0 al a = (case map_of al a of None \<Rightarrow> 0 | Some n \<Rightarrow> n)"

definition tally_group :: "action_group \<Rightarrow> action_tally \<Rightarrow> action_tally" where
  "tally_group g t = (case g of (action, source, n) \<Rightarrow>
     let sentinel = (source = ''sentinel'');
         t1 = (if sentinel then t\<lparr>metered_total := metered_total t + n\<rparr> else t\<lparr>self_total := self_total t + n\<rparr>)
     in case action of
          None \<Rightarrow> t1\<lparr>unattributed := unattributed t1 + n\<rparr>
        | Some a \<Rightarrow> if sentinel then t1\<lparr>metered_by := AList.update a (get0 (metered_by t1) a + n) (metered_by t1)\<rparr>
            else t1\<lparr>self_by := AList.update a (get0 (self_by t1) a + n) (self_by t1)\<rparr>)"

definition no_actions :: action_tally where
  "no_actions = \<lparr>self_by = [], metered_by = [], self_total = 0, metered_total = 0, unattributed = 0\<rparr>"

definition action_totals :: "action_group list \<Rightarrow> int \<times> int \<times> int" where
  "action_totals groups =
     (let t = fold tally_group groups no_actions in
      (self_total t, metered_total t, unattributed t
        + sum_list (map (\<lambda>a. max (get0 (self_by t) a) (get0 (metered_by t) a))
            (remdups (map fst (self_by t) @ map fst (metered_by t))))))"

definition window_action_rows :: "(string \<times> string \<times> int) list \<Rightarrow> (string \<times> int) list" where
  "window_action_rows rows =
     (let metered = map (\<lambda>(ts, src, n). (ts, n)) (filter (\<lambda>(ts, src, n). src = ''sentinel'') rows)
      in if metered \<noteq> [] then metered
         else map (\<lambda>(ts, src, n). (ts, n)) (filter (\<lambda>(ts, src, n). src \<noteq> ''sentinel'') rows))"

section \<open>The rolling window\<close>

definition MAX_RETRY_PERIOD_SECONDS :: int where "MAX_RETRY_PERIOD_SECONDS = 10 ^ 10"

text \<open>\<open>-((-remaining) // one_second)\<close>: whole seconds, rounded up.\<close>

definition ceil_seconds :: "int \<Rightarrow> int" where
  "ceil_seconds d = - ((- d) div second)"

text \<open>\<open>WE_time\<close>: a stored time that does not parse, or an instant past the last one; \<open>WE_unreachable\<close>
  the assertion after the loop.\<close>

datatype window_error = WE_time | WE_unreachable

fun shed_loop :: "int \<Rightarrow> int \<Rightarrow> instant \<Rightarrow> int \<Rightarrow> (instant \<times> int) list \<Rightarrow> window_error + int" where
  "shed_loop must period now shed [] = Inl WE_unreachable"
| "shed_loop must period now shed ((ts, amount) # rows) =
     (if must \<le> shed + amount
      then if valid_instant (ts + period) then Inr (max 1 (ceil_seconds (ts + period - now))) else Inl WE_time
      else shed_loop must period now (shed + amount) rows)"

definition retry_after :: "(instant \<times> int) list \<Rightarrow> int \<Rightarrow> int \<Rightarrow> instant \<Rightarrow> window_error + int \<times> int option" where
  "retry_after rows limit period_seconds now =
     (let ordered = sort_key fst rows; count = sum_list (map snd ordered) in
      if count < limit then Inr (count, None)
      else bindE (shed_loop (count - limit + 1) (min period_seconds MAX_RETRY_PERIOD_SECONDS * second) now 0 ordered)
        (\<lambda>w. Inr (count, Some w)))"

text \<open>The rows as they come from the store, with their ISO times.\<close>

definition parse_rows :: "(string \<times> int) list \<Rightarrow> (instant \<times> int) list option" where
  "parse_rows rows = those (map (\<lambda>(ts, n). map_option (\<lambda>t. (t, n)) (parse_iso ts)) rows)"

definition window_retry_after :: "(string \<times> int) list \<Rightarrow> int \<Rightarrow> int \<Rightarrow> instant \<Rightarrow> window_error + int \<times> int option" where
  "window_retry_after rows limit period_seconds now =
     (case parse_rows rows of None \<Rightarrow> Inl WE_time | Some rs \<Rightarrow> retry_after rs limit period_seconds now)"

section \<open>The cap decision\<close>

datatype cap_detail =
    CapReached string int int
  | ThresholdCrossed string int int int
  | Unresolved nat
  | WithinLimits

type_synonym limit_pair = "string \<times> int \<times> int option"

definition limit_reached :: "limit_pair \<Rightarrow> bool" where
  "limit_reached p = (case p of (_, spent, limit) \<Rightarrow> case limit of None \<Rightarrow> False | Some l \<Rightarrow> l \<le> spent)"

definition threshold_crossed :: "int \<Rightarrow> limit_pair \<Rightarrow> bool" where
  "threshold_crossed pct p = (case p of (_, spent, limit) \<Rightarrow>
     case limit of None \<Rightarrow> False | Some l \<Rightarrow> l * pct \<le> spent * 100)"

definition evaluate :: "cap_config \<Rightarrow> int \<Rightarrow> int \<Rightarrow> int \<Rightarrow> nat \<Rightarrow> spend_state \<times> cap_detail" where
  "evaluate cap cents tokens actions open_escs =
     (let pairs = [(''cents'', cents, limit_cents cap), (''tokens'', tokens, token_limit cap),
                   (''actions'', actions, action_limit cap)] in
      case find limit_reached pairs of
        Some (kind, spent, limit) \<Rightarrow> (SS_block, CapReached kind spent (the limit))
      | None \<Rightarrow>
        (case find (threshold_crossed (escalate_at_pct cap)) pairs of
           Some (kind, spent, limit) \<Rightarrow> (SS_escalate, ThresholdCrossed kind spent (the limit) (escalate_at_pct cap))
         | None \<Rightarrow> if open_escs \<noteq> 0 then (SS_escalate, Unresolved open_escs) else (SS_ok, WithinLimits)))"

text \<open>\<open>detail.split(" ", 1)[0]\<close>.\<close>

definition detail_word :: "cap_detail \<Rightarrow> string" where
  "detail_word d = (case d of CapReached k _ _ \<Rightarrow> k | ThresholdCrossed k _ _ _ \<Rightarrow> k
     | Unresolved n \<Rightarrow> dec_nat n | WithinLimits \<Rightarrow> ''within'')"

section \<open>The split sum is the sum\<close>

lemma sql_sum_from_exact:
  assumes "\<And>x. x \<in> set xs \<Longrightarrow> 0 \<le> x" and "0 \<le> acc" and "acc + sum_list xs < 2 ^ 63"
  shows "sql_sum_from acc xs = Some (acc + sum_list xs)"
  using assms
proof (induction xs arbitrary: acc)
  case (Cons x xs)
  have "0 \<le> sum_list xs" by (rule sum_list_nonneg) (use Cons.prems(1) in simp)
  moreover have "0 \<le> x" using Cons.prems(1) by simp
  ultimately have "int64 (acc + x)" using Cons.prems(2,3) by (simp add: int64_def)
  moreover have "sql_sum_from (acc + x) xs = Some (acc + x + sum_list xs)"
    by (rule Cons.IH) (use Cons.prems in auto)
  ultimately show ?case by simp
qed simp

lemma sum_list_le: "(\<And>x. x \<in> set xs \<Longrightarrow> x \<le> b) \<Longrightarrow> sum_list xs \<le> int (length xs) * b"
  by (induction xs) (auto simp: algebra_simps intro: add_mono)

lemma sql_sum_exact:
  assumes "\<And>x. x \<in> set xs \<Longrightarrow> 0 \<le> x \<and> x \<le> b" and "0 \<le> b" and "int (length xs) * b < 2 ^ 63"
  shows "sql_sum xs = Some (sum_list xs)"
  using sql_sum_from_exact [of xs 0] sum_list_le [of xs b] assms by (force simp: sql_sum_def)

lemma low_word: "v AND 4294967295 = v mod 2 ^ 32" for v :: int
proof -
  have "v AND 4294967295 = v AND mask 32" by (simp add: mask_eq_exp_minus_1)
  then show ?thesis by (simp only: take_bit_eq_mask [symmetric] take_bit_eq_mod)
qed

lemma sum_column_exact:
  assumes "\<And>x. x \<in> set xs \<Longrightarrow> 0 \<le> x \<and> int64 x" and "length xs \<le> 2 ^ 31"
  shows "sum_column xs = Some (sum_list xs)"
proof -
  have hi: "sql_sum (map (drop_bit 32) xs) = Some (sum_list (map (drop_bit 32) xs))"
  proof (rule sql_sum_exact [where b = "2 ^ 31 - 1"])
    fix x assume "x \<in> set (map (drop_bit 32) xs)"
    then obtain y where "x = y div 2 ^ 32" "0 \<le> y" "y < 2 ^ 63"
      using assms(1) by (auto simp: drop_bit_eq_div int64_def)
    then show "0 \<le> x \<and> x \<le> 2 ^ 31 - 1" by auto
  qed (use assms(2) in auto)
  have lo: "sql_sum (map (\<lambda>v. v AND 4294967295) xs) = Some (sum_list (map (\<lambda>v. v AND 4294967295) xs))"
  proof (rule sql_sum_exact [where b = "2 ^ 32 - 1"])
    fix x :: int assume "x \<in> set (map (\<lambda>v. v AND 4294967295) xs)"
    then obtain y where "x = y mod 2 ^ 32" by (auto simp: low_word)
    then show "0 \<le> x \<and> x \<le> 2 ^ 32 - 1" by simp
  qed (use assms(2) in auto)
  have "push_bit 32 (sum_list (map (drop_bit 32) xs)) + sum_list (map (\<lambda>v. v AND 4294967295) xs) = sum_list xs"
  proof (induction xs)
    case (Cons y ys)
    have "push_bit 32 (drop_bit 32 y) + (y AND 4294967295) = y"
      by (simp add: low_word push_bit_eq_mult drop_bit_eq_div)
    moreover have "push_bit 32 (a + b) = push_bit 32 a + push_bit 32 b" for a b :: int
      by (simp add: push_bit_eq_mult algebra_simps)
    ultimately show ?case using Cons.IH by simp
  qed simp
  with hi lo show ?thesis by (simp add: sum_column_def split_sum_def join_sum_def)
qed

text \<open>C13: For up to 2^31 stored amounts of any 64-bit size the split sum is the exact total; the plain
  SQL sum it replaces fails on two rows.\<close>

theorem split_sum_exact:
  assumes "\<And>x. x \<in> set xs \<Longrightarrow> 0 \<le> x \<and> int64 x" and "length xs \<le> 2 ^ 31"
  shows "sum_column xs = Some (sum_list xs)"
  by (rule sum_column_exact [OF assms])

lemma split_sum_exact_witness:
  "sum_column [2 ^ 62, 2 ^ 62, 5] = Some (2 ^ 63 + 5) \<and> sql_sum [2 ^ 62, 2 ^ 62] = None"
proof -
  have "sum_column [2 ^ 62, 2 ^ 62, 5] = Some (sum_list [2 ^ 62, 2 ^ 62, 5])"
    by (rule split_sum_exact) (auto simp: int64_def)
  then show ?thesis by (simp add: sql_sum_def int64_def)
qed

section \<open>Rate periods\<close>

lemma length_dec_nat: "n < 10 ^ w \<Longrightarrow> 0 < w \<Longrightarrow> length (dec_nat n) \<le> w"
proof (induction w arbitrary: n)
  case (Suc w)
  show ?case
  proof (cases "n < 10")
    case False
    with Suc.prems have "0 < w" "n div 10 < 10 ^ w" by (auto intro: gr0I)
    with Suc.IH False show ?thesis by (simp add: dec_nat.simps [of n])
  qed (simp add: dec_nat.simps [of n])
qed simp

lemma digit_0: "digit 0 = CHR ''0''"
  by code_simp

lemma hd_dec_nat: "0 < n \<Longrightarrow> hd (dec_nat n) \<noteq> CHR ''0''"
proof (induction n rule: dec_nat.induct)
  case (1 n)
  have zero: "digit m = CHR ''0'' \<longleftrightarrow> m = 0" if "m < 10" for m
    using digit_eq_iff [OF that, of 0] digit_0 by simp
  show ?case
  proof (cases "n < 10")
    case True
    with 1 zero show ?thesis by (simp add: dec_nat.simps [of n])
  next
    case False
    with "1.IH" show ?thesis by (simp add: dec_nat.simps [of n])
  qed
qed

lemma named_period_head:
  "p \<in> set (DECLARED_UNENFORCED_PERIODS @ map fst NAMED_RATE_PERIODS) \<Longrightarrow> p \<noteq> [] \<and> \<not> is_digit (hd p)"
  by (auto simp: DECLARED_UNENFORCED_PERIODS_def NAMED_RATE_PERIODS_def is_digit_def)

lemma dec_nat_not_named:
  "dec_nat n @ s \<notin> set (DECLARED_UNENFORCED_PERIODS @ map fst NAMED_RATE_PERIODS)"
proof
  assume "dec_nat n @ s \<in> set (DECLARED_UNENFORCED_PERIODS @ map fst NAMED_RATE_PERIODS)"
  then have "\<not> is_digit (hd (dec_nat n @ s))" using named_period_head by blast
  moreover have "is_digit (hd (dec_nat n))"
    using digits_dec_nat [of n] dec_nat_not_Nil [of n] by (cases "dec_nat n") auto
  ultimately show False by simp
qed

lemma dec_val_pos:
  assumes "s \<noteq> []" "list_all is_digit s" "hd s \<noteq> CHR ''0''"
  shows "0 < dec_val s"
proof -
  obtain c cs where c: "s = c # cs" using assms(1) by (cases s) auto
  have mono: "a \<le> foldl (\<lambda>a c. 10 * a + digit_val c) a xs" for a xs
  proof (induction xs arbitrary: a)
    case (Cons x xs)
    have "a \<le> 10 * a + digit_val x" by simp
    also have "\<dots> \<le> foldl (\<lambda>a c. 10 * a + digit_val c) (10 * a + digit_val x) xs" by (rule Cons.IH)
    finally show ?case by simp
  qed simp
  have "of_char c \<noteq> (48 :: nat)"
  proof (rule notI)
    assume "of_char c = (48 :: nat)"
    then have "char_of (of_char c :: nat) = digit 0" by (simp only: digit_def add_0_right)
    with assms(3) c digit_0 show False by simp
  qed
  then have "0 < digit_val c" using assms(2) c by (auto simp: digit_val_def is_digit_def Let_def)
  with mono [of "digit_val c" cs] show ?thesis by (simp add: dec_val_def c)
qed

text \<open>The text of a whole number of units parses back to its seconds, and every window the parser
  accepts is between one second and 366 days.\<close>

lemma rate_period_roundtrip:
  "(0 < n \<and> map_of RATE_UNIT_SECONDS u = Some k \<and> int n * k \<le> MAX_RATE_PERIOD_SECONDS
      \<longrightarrow> parse_rate_period (dec_nat n @ [u]) = Inr (Some (int n * k)))
   \<and> (parse_rate_period p = Inr (Some s) \<longrightarrow> 1 \<le> s \<and> s \<le> MAX_RATE_PERIOD_SECONDS)"
proof (rule conjI; rule impI)
  assume a: "0 < n \<and> map_of RATE_UNIT_SECONDS u = Some k \<and> int n * k \<le> MAX_RATE_PERIOD_SECONDS"
  then have "1 \<le> k" by (auto simp: RATE_UNIT_SECONDS_def split: if_splits)
  then have "int n * 1 \<le> int n * k" by (intro mult_left_mono) auto
  with a have "int n \<le> MAX_RATE_PERIOD_SECONDS" by linarith
  then have "n < 10 ^ 9" by (simp add: MAX_RATE_PERIOD_SECONDS_def)
  then have "length (dec_nat n) \<le> 9" by (rule length_dec_nat) simp
  then have m: "match_rate_period (dec_nat n @ [u]) = Some (dec_nat n, k)"
    using a by (simp add: match_rate_period_def digits_dec_nat hd_dec_nat)
  have named: "dec_nat n @ [u] \<notin> set DECLARED_UNENFORCED_PERIODS" "map_of NAMED_RATE_PERIODS (dec_nat n @ [u]) = None"
    using dec_nat_not_named [of n "[u]"] by (auto simp: map_of_eq_None_iff)
  show "parse_rate_period (dec_nat n @ [u]) = Inr (Some (int n * k))"
    using a by (simp add: parse_rate_period_def named m)
next
  assume p: "parse_rate_period p = Inr (Some s)"
  show "1 \<le> s \<and> s \<le> MAX_RATE_PERIOD_SECONDS"
  proof (cases "map_of NAMED_RATE_PERIODS p")
    case (Some v)
    then have "(p, v) \<in> set NAMED_RATE_PERIODS" by (rule map_of_SomeD)
    then have "1 \<le> v \<and> v \<le> MAX_RATE_PERIOD_SECONDS"
      by (auto simp: NAMED_RATE_PERIODS_def MAX_RATE_PERIOD_SECONDS_def)
    with Some p show ?thesis by (auto simp: parse_rate_period_def split: if_splits)
  next
    case None
    with p obtain ds k where m: "match_rate_period p = Some (ds, k)" and s: "s = int (dec_val ds) * k"
      "s \<le> MAX_RATE_PERIOD_SECONDS"
      by (auto simp: parse_rate_period_def Let_def split: if_splits option.splits)
    from m have ds: "ds \<noteq> []" "list_all is_digit ds" "hd ds \<noteq> CHR ''0''" and k: "1 \<le> k"
      by (auto simp: match_rate_period_def Let_def RATE_UNIT_SECONDS_def split: if_splits)
    have "0 < dec_val ds" by (rule dec_val_pos [OF ds])
    then have "1 * 1 \<le> int (dec_val ds) * k" using k by (intro mult_mono) auto
    with s show ?thesis by simp
  qed
qed

lemma rate_period_roundtrip_witness:
  "parse_rate_period (dec_nat 15 @ [CHR ''m'']) = Inr (Some 900) \<and> (1 :: int) \<le> 3600"
  using rate_period_roundtrip [of 15 "CHR ''m''" 60 "''hourly''" 3600]
  by (simp add: RATE_UNIT_SECONDS_def MAX_RATE_PERIOD_SECONDS_def parse_rate_period_def
      DECLARED_UNENFORCED_PERIODS_def NAMED_RATE_PERIODS_def)

section \<open>Actions are counted once\<close>

definition group_count :: "action_group \<Rightarrow> int" where
  "group_count g = snd (snd g)"

text \<open>What one side reports for an action.\<close>

definition side_sum :: "bool \<Rightarrow> string option \<Rightarrow> action_group list \<Rightarrow> int" where
  "side_sum sentinel a gs =
     sum_list (map group_count (filter (\<lambda>g. fst g = a \<and> (fst (snd g) = ''sentinel'') = sentinel) gs))"

definition source_sum :: "bool \<Rightarrow> action_group list \<Rightarrow> int" where
  "source_sum sentinel gs = sum_list (map group_count (filter (\<lambda>g. (fst (snd g) = ''sentinel'') = sentinel) gs))"

definition named_actions :: "action_group list \<Rightarrow> string set" where
  "named_actions gs = {a. Some a \<in> fst ` set gs}"

lemma finite_named_actions [simp]: "finite (named_actions gs)"
proof -
  have "named_actions gs = the ` (fst ` set gs - {None})"
    by (force simp: named_actions_def)
  then show ?thesis by simp
qed

lemma get0_update: "get0 (AList.update k v al) a = (if a = k then v else get0 al a)"
  by (simp add: get0_def update_conv')

text \<open>The loop over the groups adds each side's counts to what it started with.\<close>

lemma tally_fold:
  "get0 (self_by (fold tally_group gs t)) a = get0 (self_by t) a + side_sum False (Some a) gs"
  "get0 (metered_by (fold tally_group gs t)) a = get0 (metered_by t) a + side_sum True (Some a) gs"
  "self_total (fold tally_group gs t) = self_total t + source_sum False gs"
  "metered_total (fold tally_group gs t) = metered_total t + source_sum True gs"
  "unattributed (fold tally_group gs t) = unattributed t + side_sum False None gs + side_sum True None gs"
  "fst ` set (self_by (fold tally_group gs t)) \<union> fst ` set (metered_by (fold tally_group gs t))
     = fst ` set (self_by t) \<union> fst ` set (metered_by t) \<union> named_actions gs"
proof (induction gs arbitrary: t)
  case (Cons g gs)
  obtain act src n where g: "g = (act, src, n)" by (cases g)
  note defs = g tally_group_def side_sum_def source_sum_def group_count_def Let_def
  case 1 show ?case using Cons.IH(1) [of "tally_group g t"]
    by (auto simp: defs get0_update split: option.split)
  case 2 show ?case using Cons.IH(2) [of "tally_group g t"]
    by (auto simp: defs get0_update split: option.split)
  case 3 show ?case using Cons.IH(3) [of "tally_group g t"]
    by (auto simp: defs split: option.split)
  case 4 show ?case using Cons.IH(4) [of "tally_group g t"]
    by (auto simp: defs split: option.split)
  case 5 show ?case using Cons.IH(5) [of "tally_group g t"]
    by (auto simp: defs split: option.split)
  case 6
  have "named_actions (g # gs) = (case act of None \<Rightarrow> {} | Some a \<Rightarrow> {a}) \<union> named_actions gs"
    by (auto simp: named_actions_def g split: option.split)
  moreover have "fst ` set (self_by (tally_group g t)) \<union> fst ` set (metered_by (tally_group g t))
      = fst ` set (self_by t) \<union> fst ` set (metered_by t) \<union> (case act of None \<Rightarrow> {} | Some a \<Rightarrow> {a})"
    by (auto simp: g tally_group_def Let_def dom_update split: option.split)
  ultimately show ?case using Cons.IH(6) [of "tally_group g t"] by (simp add: Un_assoc)
qed (simp_all add: side_sum_def source_sum_def named_actions_def)

lemma action_totals_eq:
  "action_totals gs = (source_sum False gs, source_sum True gs, side_sum False None gs + side_sum True None gs
     + (\<Sum>a \<in> named_actions gs. max (side_sum False (Some a) gs) (side_sum True (Some a) gs)))"
proof -
  have zero: "get0 [] a = 0" for a by (simp add: get0_def)
  let ?t = "fold tally_group gs no_actions"
  let ?ks = "map fst (self_by ?t) @ map fst (metered_by ?t)"
  have ks: "set ?ks = named_actions gs"
    by (simp only: set_append set_map tally_fold(6)) (simp add: no_actions_def)
  have max: "max (get0 (self_by ?t) a) (get0 (metered_by ?t) a)
      = max (side_sum False (Some a) gs) (side_sum True (Some a) gs)" for a
    unfolding tally_fold(1,2) by (simp add: no_actions_def zero)
  show ?thesis
    unfolding action_totals_def Let_def max sum_code [symmetric] ks tally_fold(3-5)
    by (simp add: no_actions_def)
qed

lemma source_sum_parts:
  "source_sum b gs = side_sum b None gs + (\<Sum>a \<in> named_actions gs. side_sum b (Some a) gs)"
proof -
  have "source_sum b gs = side_sum b None gs + (\<Sum>a \<in> K. side_sum b (Some a) gs)"
    if "finite K" "named_actions gs \<subseteq> K" for K
    using that(2)
  proof (induction gs)
    case (Cons g gs)
    then have sub: "named_actions gs \<subseteq> K" by (auto simp: named_actions_def)
    define c where "c = (if (fst (snd g) = ''sentinel'') = b then group_count g else 0)"
    have head: "side_sum b x (g # gs) = (if fst g = x then c else 0) + side_sum b x gs" for x
      by (simp add: side_sum_def c_def)
    have src: "source_sum b (g # gs) = c + source_sum b gs"
      by (simp add: source_sum_def c_def)
    have "(\<Sum>a \<in> K. if fst g = Some a then c else 0) = (case fst g of None \<Rightarrow> 0 | Some a \<Rightarrow> c)"
    proof (cases "fst g")
      case (Some a)
      then have "a \<in> K" using Cons.prems by (auto simp: named_actions_def)
      with Some that(1) show ?thesis by simp
    qed simp
    then show ?case
      by (simp add: head src Cons.IH [OF sub] sum.distrib split: option.split)
  qed (simp add: side_sum_def source_sum_def)
  then show ?thesis by simp
qed

text \<open>An action that the agent reports and the sentinel meters is counted once, at the larger of the
  two counts, and an unattributed one always: the count compared with the cap is never below either
  side's total and never above their sum.\<close>

lemma actions_counted_once:
  assumes "list_all (\<lambda>(action, source, n). 0 \<le> n) gs"
    and "action_totals gs = (reported, metered, counted)"
  shows "counted = side_sum False None gs + side_sum True None gs
      + (\<Sum>a \<in> named_actions gs. max (side_sum False (Some a) gs) (side_sum True (Some a) gs))
    \<and> max reported metered \<le> counted \<and> counted \<le> reported + metered"
proof -
  have eq: "reported = source_sum False gs" "metered = source_sum True gs"
    "counted = side_sum False None gs + side_sum True None gs
      + (\<Sum>a \<in> named_actions gs. max (side_sum False (Some a) gs) (side_sum True (Some a) gs))"
    using assms(2) by (simp_all add: action_totals_eq)
  have nonneg: "0 \<le> side_sum b x gs" for b x
    unfolding side_sum_def
    by (rule sum_list_nonneg) (use assms(1) in \<open>auto simp: list_all_iff group_count_def\<close>)
  let ?S = "\<lambda>b. \<Sum>a \<in> named_actions gs. side_sum b (Some a) gs"
  let ?M = "\<Sum>a \<in> named_actions gs. max (side_sum False (Some a) gs) (side_sum True (Some a) gs)"
  have le: "?S b \<le> ?M" for b by (rule sum_mono) (cases b, simp_all)
  have "?M \<le> ?S False + ?S True"
    unfolding sum.distrib [symmetric] by (rule sum_mono) (use nonneg in auto)
  then show ?thesis
    using le [of False] le [of True] nonneg [of False None] nonneg [of True None]
    unfolding eq source_sum_parts by simp
qed

lemma actions_counted_once_witness:
  "action_totals [(Some ''send'', ''self'', 3), (Some ''send'', ''sentinel'', 5), (None, ''self'', 2)] = (5, 5, 7)
   \<and> max 5 5 \<le> (7 :: int) \<and> (7 :: int) \<le> 5 + 5"
proof -
  have *: "action_totals [(Some ''send'', ''self'', 3), (Some ''send'', ''sentinel'', 5), (None, ''self'', 2)]
      = (5, 5, 7)" by code_simp
  show ?thesis using actions_counted_once [OF _ *] * by simp
qed

section \<open>The wait quoted to a throttled caller\<close>

text \<open>What is still in, and what has left, a window of \<open>period\<close> microseconds at an instant.\<close>

definition in_window :: "(instant \<times> int) list \<Rightarrow> int \<Rightarrow> instant \<Rightarrow> int" where
  "in_window rows period t = sum_list (map snd (filter (\<lambda>r. t < fst r + period) rows))"

definition left_window :: "(instant \<times> int) list \<Rightarrow> int \<Rightarrow> instant \<Rightarrow> int" where
  "left_window rows period t = sum_list (map snd (filter (\<lambda>r. fst r + period \<le> t) rows))"

lemma in_and_left: "in_window rows period t + left_window rows period t = sum_list (map snd rows)"
  by (induction rows) (auto simp: in_window_def left_window_def)

lemma left_window_Cons:
  "left_window (r # rows) period t = (if fst r + period \<le> t then snd r else 0) + left_window rows period t"
  by (simp add: left_window_def)

lemma left_window_nonneg: "list_all (\<lambda>r. 0 \<le> snd r) rows \<Longrightarrow> 0 \<le> left_window rows period t"
  unfolding left_window_def by (rule sum_list_nonneg) (auto simp: list_all_iff)

text \<open>In a sorted list nothing has left before its first row has.\<close>

lemma left_window_sorted:
  assumes "sorted (map fst (r # rows))" and "t < fst r + period"
  shows "left_window (r # rows) period t = 0"
proof -
  have "filter (\<lambda>x. fst x + period \<le> t) (r # rows) = []"
    using assms by (fastforce simp: filter_empty_conv)
  then show ?thesis by (simp add: left_window_def)
qed

lemma ceil_seconds_le: "d \<le> ceil_seconds d * second"
proof -
  have "(- d) div second * second \<le> - d" by (simp add: second_def)
  then show ?thesis by (simp add: ceil_seconds_def algebra_simps)
qed

lemma below_ceil_seconds: "v < ceil_seconds d \<Longrightarrow> v * second < d"
proof -
  assume "v < ceil_seconds d"
  then have "(- d) div second + 1 \<le> - v" by (simp add: ceil_seconds_def)
  moreover have "- d < ((- d) div second + 1) * second" by (simp add: second_def)
  moreover have "((- d) div second + 1) * second \<le> - v * second"
    by (rule mult_right_mono) (use calculation in \<open>simp_all add: second_def\<close>)
  ultimately show ?thesis by simp
qed

lemma shed_loop_least:
  assumes "sorted (map fst rows)" and "list_all (\<lambda>r. 0 \<le> snd r \<and> valid_instant (fst r + period)) rows"
    and "shed < must" and "must \<le> shed + sum_list (map snd rows)"
  shows "\<exists>w. shed_loop must period now shed rows = Inr w \<and> 1 \<le> w
    \<and> must \<le> shed + left_window rows period (now + w * second)
    \<and> (\<forall>v. 1 \<le> v \<longrightarrow> v < w \<longrightarrow> shed + left_window rows period (now + v * second) < must)"
  using assms
proof (induction rows arbitrary: shed)
  case (Cons r rows)
  obtain ts n where r: "r = (ts, n)" by (cases r)
  have n: "0 \<le> n" and valid: "valid_instant (ts + period)" and rest: "list_all (\<lambda>r. 0 \<le> snd r) rows"
    using Cons.prems(2) by (auto simp: r list_all_iff)
  show ?case
  proof (cases "must \<le> shed + n")
    case True
    define w where "w = max 1 (ceil_seconds (ts + period - now))"
    have "ts + period - now \<le> w * second"
      using ceil_seconds_le [of "ts + period - now"] mult_right_mono [of "ceil_seconds (ts + period - now)" w second]
      by (simp add: w_def second_def)
    then have "must \<le> shed + left_window (r # rows) period (now + w * second)"
      using True left_window_nonneg [OF rest] by (simp add: left_window_Cons r add.assoc [symmetric] add_increasing2)
    moreover have "shed + left_window (r # rows) period (now + v * second) < must" if "1 \<le> v" "v < w" for v
    proof -
      have "v < ceil_seconds (ts + period - now)" using that by (simp add: w_def)
      then have "now + v * second < ts + period" using below_ceil_seconds by fastforce
      then have "left_window (r # rows) period (now + v * second) = 0"
        using left_window_sorted [OF Cons.prems(1)] by (simp add: r)
      with Cons.prems(3) show ?thesis by simp
    qed
    ultimately show ?thesis using True valid by (auto simp: r w_def)
  next
    case False
    then have "\<exists>w. shed_loop must period now (shed + n) rows = Inr w \<and> 1 \<le> w
      \<and> must \<le> shed + n + left_window rows period (now + w * second)
      \<and> (\<forall>v. 1 \<le> v \<longrightarrow> v < w \<longrightarrow> shed + n + left_window rows period (now + v * second) < must)"
      by (intro Cons.IH) (use Cons.prems in \<open>simp_all add: r\<close>)
    then obtain w where w: "shed_loop must period now (shed + n) rows = Inr w" "1 \<le> w"
      "must \<le> shed + n + left_window rows period (now + w * second)"
      and least: "\<And>v. 1 \<le> v \<Longrightarrow> v < w \<Longrightarrow> shed + n + left_window rows period (now + v * second) < must"
      by blast
    have "left_window (r # rows) period (now + w * second) \<noteq> 0"
    proof
      assume "left_window (r # rows) period (now + w * second) = 0"
      with n left_window_nonneg [OF rest, of period "now + w * second"]
      have "left_window rows period (now + w * second) = 0"
        by (simp add: left_window_Cons r split: if_splits)
      with w(3) False show False by simp
    qed
    then have "ts + period \<le> now + w * second"
      using left_window_sorted [OF Cons.prems(1)] by (force simp: r)
    then have "must \<le> shed + left_window (r # rows) period (now + w * second)"
      using w(3) by (simp add: left_window_Cons r)
    moreover have "shed + left_window (r # rows) period (now + v * second) < must" if "1 \<le> v" "v < w" for v
      using least [OF that] n by (simp add: left_window_Cons r)
    ultimately show ?thesis using w False by (auto simp: r)
  qed
qed simp

lemma in_window_sort: "in_window (sort_key fst rows) period t = in_window rows period t"
proof -
  have "mset (map snd (filter P (sort_key fst rows))) = mset (map snd (filter P rows))" for P
    by simp
  then show ?thesis unfolding in_window_def by (metis sum_mset_sum_list)
qed

lemma sum_sort: "sum_list (map snd (sort_key fst rows)) = sum_list (map snd (rows :: (instant \<times> int) list))"
proof -
  have "mset (map snd (sort_key fst rows)) = mset (map snd rows)" by simp
  then show ?thesis by (metis sum_mset_sum_list)
qed

lemma retry_after_least:
  assumes "1 \<le> limit"
    and "period = min period_seconds MAX_RETRY_PERIOD_SECONDS * second"
    and "list_all (\<lambda>r. 0 \<le> snd r \<and> valid_instant (fst r + period)) rows"
  shows "\<exists>wait. retry_after rows limit period_seconds now = Inr (sum_list (map snd rows), wait)
    \<and> (wait = None \<longleftrightarrow> sum_list (map snd rows) < limit)
    \<and> (\<forall>w. wait = Some w \<longrightarrow> 1 \<le> w \<and> in_window rows period (now + w * second) < limit
        \<and> (\<forall>v. 1 \<le> v \<longrightarrow> v < w \<longrightarrow> limit \<le> in_window rows period (now + v * second)))"
proof (cases "sum_list (map snd rows) < limit")
  case True
  then show ?thesis by (simp add: retry_after_def sum_sort)
next
  case False
  let ?count = "sum_list (map snd rows)" and ?o = "sort_key fst rows"
  have all: "list_all (\<lambda>r. 0 \<le> snd r \<and> valid_instant (fst r + period)) ?o"
    using assms(3) by (simp add: list_all_iff)
  have "\<exists>w. shed_loop (?count - limit + 1) period now 0 ?o = Inr w \<and> 1 \<le> w
    \<and> ?count - limit + 1 \<le> 0 + left_window ?o period (now + w * second)
    \<and> (\<forall>v. 1 \<le> v \<longrightarrow> v < w \<longrightarrow> 0 + left_window ?o period (now + v * second) < ?count - limit + 1)"
    by (rule shed_loop_least [OF _ all]) (use False assms(1) in \<open>simp_all add: sum_sort\<close>)
  then obtain w where w: "shed_loop (?count - limit + 1) period now 0 ?o = Inr w" "1 \<le> w"
    "?count - limit + 1 \<le> left_window ?o period (now + w * second)"
    and least: "\<And>v. 1 \<le> v \<Longrightarrow> v < w \<Longrightarrow> left_window ?o period (now + v * second) < ?count - limit + 1"
    by auto
  have split: "in_window rows period t = ?count - left_window ?o period t" for t
    using in_and_left [of ?o period t] by (simp add: in_window_sort sum_sort)
  have "retry_after rows limit period_seconds now = Inr (?count, Some w)"
    using False w(1) by (simp add: retry_after_def sum_sort assms(2))
  moreover have "in_window rows period (now + w * second) < limit" using w(3) by (simp add: split)
  moreover have "limit \<le> in_window rows period (now + v * second)" if "1 \<le> v" "v < w" for v
    using least [OF that] by (simp add: split)
  ultimately show ?thesis using False w(2) by auto
qed

lemma parse_rows_iso:
  assumes "list_all (\<lambda>r. valid_instant (fst r)) rs"
  shows "parse_rows (map (\<lambda>(t, n). (iso_utc t, n)) rs) = Some rs"
  using assms by (induction rs) (auto simp: parse_rows_def parse_iso_utc)

lemma window_retry_after_iso:
  "list_all (\<lambda>r. valid_instant (fst r)) rs
    \<Longrightarrow> window_retry_after (map (\<lambda>(t, n). (iso_utc t, n)) rs) limit p now = retry_after rs limit p now"
  by (simp add: window_retry_after_def parse_rows_iso)


text \<open>For a positive limit the throttle arithmetic always answers: the amount in the window, no wait
  while it is below the limit, and otherwise the least whole number of seconds, at least one, after
  which the rows still inside the window are below the limit.\<close>

lemma retry_after_is_least:
  assumes "1 \<le> limit"
    and "period = min period_seconds MAX_RETRY_PERIOD_SECONDS * second"
    and "list_all (\<lambda>r. 0 \<le> snd r \<and> valid_instant (fst r + period)) rows"
  shows "\<exists>wait. retry_after rows limit period_seconds now = Inr (sum_list (map snd rows), wait)
    \<and> (wait = None \<longleftrightarrow> sum_list (map snd rows) < limit)
    \<and> (\<forall>w. wait = Some w \<longrightarrow> 1 \<le> w \<and> in_window rows period (now + w * second) < limit
        \<and> (\<forall>v. 1 \<le> v \<longrightarrow> v < w \<longrightarrow> limit \<le> in_window rows period (now + v * second)))"
  by (rule retry_after_least [OF assms])

lemma retry_after_is_least_witness:
  "\<exists>wait. retry_after [(0, 3), (5 * second, 4)] 4 10 (6 * second) = Inr (7, wait) \<and> wait \<noteq> None"
proof -
  have *: "min 10 MAX_RETRY_PERIOD_SECONDS = 10" by (simp add: MAX_RETRY_PERIOD_SECONDS_def)
  have "list_all (\<lambda>r. 0 \<le> snd r \<and> valid_instant (fst r + 10 * second)) [(0, 3 :: int), (5 * second, 4)]"
    by (simp add: valid_instant_def day_us_def second_def)
  then obtain wait where
    "retry_after [(0, 3), (5 * second, 4)] 4 10 (6 * second) = Inr (sum_list (map snd [(0 :: int, 3), (5 * second, 4)]), wait)"
    "wait = None \<longleftrightarrow> sum_list (map snd [(0 :: int, 3), (5 * second, 4)]) < (4 :: int)"
    using retry_after_is_least [of 4 "10 * second" 10 "[(0, 3), (5 * second, 4)]" "6 * second"] *
    by (auto simp only: one_le_numeral)
  then show ?thesis by auto
qed

section \<open>The start of the total window\<close>

lemma zpad_numeral: "zpad (numeral w) n = zpad (pred_numeral w) (n div 10) @ [digit (n mod 10)]"
  by (subst numeral_eq_Suc) (rule zpad.simps)

lemma iso_utc_epoch: "iso_utc epoch = ''1970-01-01T00:00:00+00:00''"
proof -
  have day: "nat (epoch div day_us) + 1 = 719163" "epoch mod day_us = 0" "epoch mod second = 0"
    by (simp_all add: epoch_def day_us_def second_def)
  have ord: "ord2ymd 719163 = (1970, 1, 1)"
    by (simp add: ord2ymd_def Let_def is_leap_def month_lengths_def)
  have digits: "digit 0 = CHR ''0''" "digit (Suc 0) = CHR ''1''" "digit 9 = CHR ''9''" "digit 7 = CHR ''7''"
    by (rule of_char_eq_iff [where 'a = nat, THEN iffD1], simp)+
  have "zpad 4 1970 = ''1970''" "zpad 2 (Suc 0) = ''01''" "zpad 2 0 = ''00''"
    by (simp_all add: zpad_numeral digits)
  then show ?thesis
    unfolding iso_utc_def day iso_date_def ord by (simp add: iso_time_def iso_micro_def)
qed

lemma window_start_total: "window_start ''total'' now = iso_utc epoch"
  by (simp add: window_start_def iso_utc_epoch Let_def)

section \<open>Caps from a manifest\<close>

text \<open>A cap derived from a manifest is the declared limit in cents, exact to a billionth of a cent, in the
  declared period, which is one of the three the service meters; a limit with whole cents is accepted
  as it is, and no period is widened.\<close>

lemma manifest_cap_is_declared:
  "(cap_from_manifest m agent = Inr c \<longrightarrow>
      (\<exists>sc n. en_spend_cap (mf_enforcement m) = Some sc \<and> limit_cents c = Some n
        \<and> \<bar>of_int n - sc_limit sc * 100\<bar> \<le> 1 / 10 ^ 9 \<and> 0 < n \<and> n \<le> MAX_AMOUNT
        \<and> cap_period c = sc_period sc \<and> sc_period sc \<in> set SUPPORTED_CAP_PERIODS))
   \<and> (en_spend_cap (mf_enforcement m) = Some sc \<and> sc_limit sc = of_int n / 100 \<and> 0 < n \<and> n \<le> MAX_AMOUNT
        \<and> sc_period sc \<in> set SUPPORTED_CAP_PERIODS \<and> agent \<noteq> []
      \<longrightarrow> (\<exists>c. cap_from_manifest m agent = Inr c \<and> limit_cents c = Some n \<and> cap_period c = sc_period sc))"
proof (rule conjI; rule impI)
  assume "cap_from_manifest m agent = Inr c"
  then show "\<exists>sc n. en_spend_cap (mf_enforcement m) = Some sc \<and> limit_cents c = Some n
        \<and> \<bar>of_int n - sc_limit sc * 100\<bar> \<le> 1 / 10 ^ 9 \<and> 0 < n \<and> n \<le> MAX_AMOUNT
        \<and> cap_period c = sc_period sc \<and> sc_period sc \<in> set SUPPORTED_CAP_PERIODS"
    by (auto simp: cap_from_manifest_def Let_def valid_cap_def valid_limit_def not_less
        split: option.splits if_splits)
next
  assume a: "en_spend_cap (mf_enforcement m) = Some sc \<and> sc_limit sc = of_int n / 100 \<and> 0 < n \<and> n \<le> MAX_AMOUNT
        \<and> sc_period sc \<in> set SUPPORTED_CAP_PERIODS \<and> agent \<noteq> []"
  then have "py_round (sc_limit sc * 100) = n" by (simp add: py_round_def)
  with a show "\<exists>c. cap_from_manifest m agent = Inr c \<and> limit_cents c = Some n \<and> cap_period c = sc_period sc"
    by (simp add: cap_from_manifest_def valid_cap_def valid_limit_def DEFAULT_ESCALATE_AT_PCT_def)
qed


definition capped_manifest :: field_manifest where
  "capped_manifest = (demo_manifest [''canary''])\<lparr>mf_enforcement :=
     (mf_enforcement (demo_manifest [''canary'']))\<lparr>en_spend_cap :=
       Some \<lparr>sc_currency = ''USD'', sc_limit = 1250 / 100, sc_period = ''daily'', on_breach = None\<rparr>\<rparr>\<rparr>"

lemma manifest_cap_is_declared_witness:
  "\<exists>c. cap_from_manifest capped_manifest ''canary'' = Inr c \<and> limit_cents c = Some 1250
    \<and> cap_period c = ''daily''"
proof -
  have "en_spend_cap (mf_enforcement capped_manifest)
      = Some \<lparr>sc_currency = ''USD'', sc_limit = 1250 / 100, sc_period = ''daily'', on_breach = None\<rparr>"
    by (simp add: capped_manifest_def)
  then show ?thesis
    using manifest_cap_is_declared [of capped_manifest "''canary''" undefined
      "\<lparr>sc_currency = ''USD'', sc_limit = 1250 / 100, sc_period = ''daily'', on_breach = None\<rparr>" 1250]
    by (simp add: MAX_AMOUNT_def SUPPORTED_CAP_PERIODS_def)
qed


section \<open>The verdict on a cap\<close>

definition severity :: "spend_state \<Rightarrow> nat" where
  "severity s = (case s of SS_ok \<Rightarrow> 0 | SS_escalate \<Rightarrow> 1 | SS_throttled \<Rightarrow> 2 | SS_block \<Rightarrow> 3)"

definition cap_pairs :: "cap_config \<Rightarrow> int \<Rightarrow> int \<Rightarrow> int \<Rightarrow> limit_pair list" where
  "cap_pairs cap cents tokens actions = [(''cents'', cents, limit_cents cap), (''tokens'', tokens, token_limit cap),
     (''actions'', actions, action_limit cap)]"

lemma evaluate_state:
  "fst (evaluate cap cents tokens actions n) =
     (if list_ex limit_reached (cap_pairs cap cents tokens actions) then SS_block
      else if list_ex (threshold_crossed (escalate_at_pct cap)) (cap_pairs cap cents tokens actions) \<or> n \<noteq> 0
      then SS_escalate else SS_ok)"
  by (auto simp: evaluate_def cap_pairs_def split: option.splits)

lemma limit_reached_mono: "a \<le> b \<Longrightarrow> limit_reached (k, a, l) \<Longrightarrow> limit_reached (k, b, l)"
  by (auto simp: limit_reached_def split: option.splits)

lemma threshold_crossed_mono: "a \<le> b \<Longrightarrow> threshold_crossed p (k, a, l) \<Longrightarrow> threshold_crossed p (k, b, l)"
  by (auto simp: threshold_crossed_def split: option.splits)

lemma evaluate_mono:
  assumes "c \<le> c'" "t \<le> t'" "a \<le> a'" "n \<le> n'"
  shows "severity (fst (evaluate cap c t a n)) \<le> severity (fst (evaluate cap c' t' a' n'))"
  using assms limit_reached_mono threshold_crossed_mono
  unfolding evaluate_state cap_pairs_def by (auto simp: severity_def)

text \<open>The verdict on a valid cap is BLOCK exactly when a configured limit is reached and OK only while
  every configured limit is below its escalation threshold and no escalation is open; more spend, or one
  more open escalation, never makes it milder.\<close>

lemma cap_verdict:
  assumes "valid_cap cap"
  shows "(fst (evaluate cap c t a n) = SS_block
        \<longleftrightarrow> list_ex (\<lambda>(spent, limit). \<exists>l. limit = Some l \<and> l \<le> spent)
              [(c, limit_cents cap), (t, token_limit cap), (a, action_limit cap)])
    \<and> (fst (evaluate cap c t a n) = SS_ok
        \<longleftrightarrow> n = 0 \<and> list_all (\<lambda>(spent, limit). \<forall>l. limit = Some l \<longrightarrow> spent * 100 < l * escalate_at_pct cap)
              [(c, limit_cents cap), (t, token_limit cap), (a, action_limit cap)])
    \<and> (c \<le> c' \<and> t \<le> t' \<and> a \<le> a' \<and> n \<le> n'
        \<longrightarrow> severity (fst (evaluate cap c t a n)) \<le> severity (fst (evaluate cap c' t' a' n')))"
proof -
  have early: "threshold_crossed (escalate_at_pct cap) p" if h: "limit_reached p" and v: "valid_limit (snd (snd p))" for p
  proof -
    obtain kind spent l where p: "p = (kind, spent, Some l)" "l \<le> spent"
      using h by (cases p) (auto simp: limit_reached_def split: option.splits)
    then have "l * escalate_at_pct cap \<le> spent * 100"
      using v assms by (intro mult_mono) (auto simp: valid_limit_def valid_cap_def)
    with p show ?thesis by (simp add: threshold_crossed_def)
  qed
  let ?ps = "cap_pairs cap c t a"
  have "list_all (\<lambda>p. limit_reached p \<longrightarrow> threshold_crossed (escalate_at_pct cap) p) ?ps"
    using early assms by (simp add: cap_pairs_def valid_cap_def)
  then have ok: "fst (evaluate cap c t a n) = SS_ok
      \<longleftrightarrow> n = 0 \<and> \<not> list_ex (threshold_crossed (escalate_at_pct cap)) ?ps"
    by (auto simp: evaluate_state list_ex_iff list_all_iff)
  have block: "fst (evaluate cap c t a n) = SS_block \<longleftrightarrow> list_ex limit_reached ?ps"
    by (simp add: evaluate_state)
  show ?thesis
    unfolding ok block
    by (auto simp: cap_pairs_def limit_reached_def threshold_crossed_def not_le
        intro!: evaluate_mono split: option.splits)
qed

lemma cap_verdict_witness:
  "\<exists>cap. valid_cap cap \<and> fst (evaluate cap 1000 0 0 0) = SS_block \<and> fst (evaluate cap 799 0 0 0) = SS_ok"
proof -
  define cap where "cap = \<lparr>cap_agent = ''canary'', cap_currency = ''USD'', limit_cents = Some 1000, token_limit = None,
    action_limit = None, cap_period = ''daily'', escalate_at_pct = 80, cap_on_breach = ''halt''\<rparr>"
  have v: "valid_cap cap"
    by (simp add: cap_def valid_cap_def valid_limit_def MAX_AMOUNT_def SUPPORTED_CAP_PERIODS_def)
  have "fst (evaluate cap 1000 0 0 0) = SS_block" "fst (evaluate cap 799 0 0 0) = SS_ok"
    using cap_verdict [OF v, of 1000 0 0 0 1000 0 0 0] cap_verdict [OF v, of 799 0 0 0 799 0 0 0] by (simp_all add: cap_def)
  with v show ?thesis by blast
qed

end
