(* ===== verification/Spend_Store.thy ===== *)
theory Spend_Store
  imports Spend_Core
begin

text \<open>
  \<open>services/spend-governor/src/spend_governor/core.py\<close>, \<open>GovernorStore\<close>: the SQLite tables of caps, spend,
  rate limits, escalations, usage policies and usage, one definition per method. Each method holds the
  store's lock for its whole use of the connection, so a method is one atomic step. The migration of
  the \<open>spend\<close> columns of a database older than them is not modelled; logging is not modelled, but the
  memory that bounds it is.
\<close>

section \<open>Rows\<close>

record spend_event =
  se_id :: string
  se_agent :: string
  se_ts :: string
  se_cents :: int
  se_tokens :: int
  se_actions :: int
  se_note :: "string option"
  se_action :: "string option"
  se_source :: string

record rate_db_row =
  rt_agent :: string
  rt_action :: string
  rt_max :: int
  rt_period :: string
  rt_seconds :: "int option"

record escalation =
  esc_id :: string
  esc_agent :: string
  esc_ts :: string
  esc_kind :: string
  esc_spent :: int
  esc_limit :: int
  esc_pct :: int
  esc_resolved :: bool
  esc_resolved_by :: "string option"

record usage_policy =
  up_agent :: string
  up_models :: "string list"
  up_rate_limit :: "int option"
  up_window :: int

record usage_record =
  us_id :: string
  us_agent :: string
  us_ts :: string
  us_model :: string
  us_in :: int
  us_out :: int
  us_cache :: int
  us_cost :: "int option"
  us_priced :: bool
  us_note :: "string option"

record gov_store =
  gs_caps :: "cap_config list"
  gs_spend :: "spend_event list"
  gs_escs :: "escalation list"
  gs_usage :: "usage_record list"
  gs_policies :: "usage_policy list"
  gs_rates :: "rate_db_row list"
  gs_open_index :: bool

text \<open>What SQLite or the validation of a stored row raises.\<close>

datatype store_fault = SF_integrity | SF_overflow | SF_row_invalid | SF_unknown | SF_not_open

text \<open>\<open>INSERT\<close> into a table whose key is already there raises.\<close>

definition row_insert :: "('r \<Rightarrow> 'k) \<Rightarrow> 'r \<Rightarrow> 'r list \<Rightarrow> store_fault + 'r list" where
  "row_insert key r rows = (if key r \<in> set (map key rows) then Inl SF_integrity else Inr (rows @ [r]))"

definition sql_result :: "'a option \<Rightarrow> store_fault + 'a" where
  "sql_result x = (case x of None \<Rightarrow> Inl SF_overflow | Some v \<Rightarrow> Inr v)"

section \<open>Opening the store\<close>

definition open_escs :: "escalation list \<Rightarrow> escalation list" where
  "open_escs es = filter (\<lambda>e. \<not> esc_resolved e) es"

definition esc_pair :: "escalation \<Rightarrow> string \<times> string" where
  "esc_pair e = (esc_agent e, esc_kind e)"

definition open_unique :: "escalation list \<Rightarrow> bool" where
  "open_unique es = distinct (map esc_pair (open_escs es))"

text \<open>The unique index appears at an open that finds no duplicates, and stays.\<close>

definition migrate_open_escalation_index :: "gov_store \<Rightarrow> gov_store" where
  "migrate_open_escalation_index s = s\<lparr>gs_open_index := gs_open_index s \<or> open_unique (gs_escs s)\<rparr>"

section \<open>Caps\<close>

definition set_cap_row :: "cap_config \<Rightarrow> gov_store \<Rightarrow> gov_store" where
  "set_cap_row c s = s\<lparr>gs_caps := row_put cap_agent c (gs_caps s)\<rparr>"

definition over_bound :: "int option \<Rightarrow> bool" where
  "over_bound x = (case x of None \<Rightarrow> False | Some n \<Rightarrow> MAX_AMOUNT < n)"

definition cap_over_bound :: "cap_config \<Rightarrow> bool" where
  "cap_over_bound c = (over_bound (limit_cents c) \<or> over_bound (token_limit c) \<or> over_bound (action_limit c))"

definition count_caps_over_bound :: "gov_store \<Rightarrow> nat" where
  "count_caps_over_bound s = length (filter cap_over_bound (gs_caps s))"

definition clamp_limit :: "int option \<Rightarrow> int option" where
  "clamp_limit x = (if over_bound x then Some MAX_AMOUNT else x)"

text \<open>A row above the bound is served clamped; the row is then validated like any other.\<close>

definition get_cap_row :: "gov_store \<Rightarrow> string \<Rightarrow> store_fault + cap_config option" where
  "get_cap_row s agent =
     (case row_get cap_agent (gs_caps s) agent of None \<Rightarrow> Inr None
      | Some r \<Rightarrow>
        let c = r\<lparr>limit_cents := clamp_limit (limit_cents r), token_limit := clamp_limit (token_limit r),
                  action_limit := clamp_limit (action_limit r)\<rparr>
        in if valid_cap c then Inr (Some c) else Inl SF_row_invalid)"

section \<open>Spend\<close>

definition record_row :: "spend_event \<Rightarrow> gov_store \<Rightarrow> store_fault + gov_store" where
  "record_row e s = bindE (row_insert se_id e (gs_spend s)) (\<lambda>rows. Inr (s\<lparr>gs_spend := rows\<rparr>))"

definition spend_since :: "gov_store \<Rightarrow> string \<Rightarrow> string \<Rightarrow> spend_event list" where
  "spend_since s agent since = filter (\<lambda>e. se_agent e = agent \<and> since \<le> se_ts e) (gs_spend s)"

text \<open>
  The rows of a \<open>GROUP BY\<close> come in an order SQLite chooses; the order of first appearance stands for it
  (\<^term>\<open>action_totals\<close> does not depend on the order of its groups).
\<close>

definition action_counts_since :: "gov_store \<Rightarrow> string \<Rightarrow> string \<Rightarrow> store_fault + action_group list" where
  "action_counts_since s agent since =
     (let rows = spend_since s agent since in
      sql_result (those (map (\<lambda>(a, src). map_option (\<lambda>n. (a, src, n))
          (sum_column (map se_actions (filter (\<lambda>e. se_action e = a \<and> se_source e = src) rows))))
        (remdups (map (\<lambda>e. (se_action e, se_source e)) rows)))))"

definition action_rows_after :: "gov_store \<Rightarrow> string \<Rightarrow> string \<Rightarrow> string \<Rightarrow> (string \<times> string \<times> int) list" where
  "action_rows_after s agent action after =
     map (\<lambda>e. (se_ts e, se_source e, se_actions e))
       (sort_key se_ts (sort_key se_id
         (filter (\<lambda>e. se_agent e = agent \<and> se_action e = Some action \<and> after < se_ts e \<and> 0 < se_actions e)
           (gs_spend s))))"

definition totals_since :: "gov_store \<Rightarrow> string \<Rightarrow> string \<Rightarrow> store_fault + int \<times> int \<times> int" where
  "totals_since s agent since =
     (let rows = spend_since s agent since in
      bindE (sql_result (sum_column (map se_cents rows))) (\<lambda>c.
      bindE (sql_result (sum_column (map se_tokens rows))) (\<lambda>t.
      bindE (sql_result (sum_column (map se_actions rows))) (\<lambda>a. Inr (c, t, a)))))"

section \<open>Rate limits\<close>

definition rate_key :: "rate_db_row \<Rightarrow> string \<times> string \<times> string" where
  "rate_key r = (rt_agent r, rt_action r, rt_period r)"

definition enforced :: "rate_db_row \<Rightarrow> bool" where
  "enforced r = (rt_seconds r \<noteq> None)"

definition rate_rows :: "rate_limit_set \<Rightarrow> rate_error + rate_db_row list" where
  "rate_rows ls = loopE (\<lambda>i rows e. bindE (parse_rate_period (re_period e)) (\<lambda>secs.
     Inr (rows @ [\<lparr>rt_agent = rs_agent ls, rt_action = re_action e, rt_max = re_max e, rt_period = re_period e,
       rt_seconds = secs\<rparr>]))) 1 [] (rs_limits ls)"

text \<open>Delete and insert in one transaction: a key that repeats rolls both back.\<close>

definition set_rate_limits_rows :: "rate_limit_set \<Rightarrow> gov_store \<Rightarrow> store_fault + gov_store" where
  "set_rate_limits_rows ls s =
     (case rate_rows ls of Inl _ \<Rightarrow> Inl SF_row_invalid
      | Inr rows \<Rightarrow>
        if distinct (map rate_key rows)
        then Inr (s\<lparr>gs_rates := filter (\<lambda>r. rt_agent r \<noteq> rs_agent ls) (gs_rates s) @ rows\<rparr>)
        else Inl SF_integrity)"

definition get_rate_limits_rows :: "gov_store \<Rightarrow> string \<Rightarrow> rate_db_row list" where
  "get_rate_limits_rows s agent =
     sort_key rt_action (sort_key rt_period (filter (\<lambda>r. rt_agent r = agent) (gs_rates s)))"

section \<open>Escalations\<close>

text \<open>The unique index over open escalations, when it is there, refuses a second open row.\<close>

definition insert_escalation :: "escalation \<Rightarrow> gov_store \<Rightarrow> store_fault + gov_store" where
  "insert_escalation e s =
     (if gs_open_index s \<and> \<not> esc_resolved e \<and> esc_pair e \<in> set (map esc_pair (open_escs (gs_escs s)))
      then Inl SF_integrity
      else bindE (row_insert esc_id e (gs_escs s)) (\<lambda>rows. Inr (s\<lparr>gs_escs := rows\<rparr>)))"

definition add_escalation :: "escalation \<Rightarrow> gov_store \<Rightarrow> store_fault + gov_store" where
  "add_escalation e s = insert_escalation e s"

definition open_of_kind :: "gov_store \<Rightarrow> string \<Rightarrow> string \<Rightarrow> escalation list" where
  "open_of_kind s agent kind = sort_key esc_ts (sort_key esc_id
     (filter (\<lambda>e. esc_agent e = agent \<and> esc_kind e = kind \<and> \<not> esc_resolved e) (gs_escs s)))"

definition add_escalation_if_none_open :: "escalation \<Rightarrow> gov_store \<Rightarrow> store_fault + gov_store \<times> escalation \<times> bool" where
  "add_escalation_if_none_open e s =
     (if esc_resolved e then Inl SF_not_open
      else case open_of_kind s (esc_agent e) (esc_kind e) of
        r # _ \<Rightarrow> Inr (s, r, False)
      | [] \<Rightarrow> bindE (insert_escalation (e\<lparr>esc_resolved := False, esc_resolved_by := None\<rparr>) s) (\<lambda>s'. Inr (s', e, True)))"

definition open_escalations :: "gov_store \<Rightarrow> string option \<Rightarrow> escalation list" where
  "open_escalations s agent = sort_key esc_ts
     (filter (\<lambda>e. \<not> esc_resolved e \<and> (case agent of None \<Rightarrow> True | Some a \<Rightarrow> esc_agent e = a)) (gs_escs s))"

definition has_open_escalation :: "gov_store \<Rightarrow> string \<Rightarrow> string \<Rightarrow> bool" where
  "has_open_escalation s agent kind =
     list_ex (\<lambda>e. esc_agent e = agent \<and> esc_kind e = kind \<and> \<not> esc_resolved e) (gs_escs s)"

text \<open>The update matches open rows only; the row is read back as stored.\<close>

definition resolve_escalation_once :: "string \<Rightarrow> string \<Rightarrow> gov_store \<Rightarrow> gov_store \<times> (store_fault + escalation \<times> bool)" where
  "resolve_escalation_once eid who s =
     (let hit = (\<lambda>e. esc_id e = eid \<and> \<not> esc_resolved e);
          rows = row_update hit (\<lambda>e. e\<lparr>esc_resolved := True, esc_resolved_by := Some who\<rparr>) (gs_escs s);
          now_resolved = (length (filter hit (gs_escs s)) = 1)
      in (s\<lparr>gs_escs := rows\<rparr>,
          case row_get esc_id rows eid of None \<Rightarrow> Inl SF_unknown | Some r \<Rightarrow> Inr (r, now_resolved)))"

definition resolve_escalation :: "string \<Rightarrow> string \<Rightarrow> gov_store \<Rightarrow> gov_store \<times> (store_fault + escalation)" where
  "resolve_escalation eid who s =
     (case resolve_escalation_once eid who s of (s', r) \<Rightarrow>
        (s', case r of Inl e \<Rightarrow> Inl e | Inr (row, _) \<Rightarrow> Inr row))"

section \<open>Usage policies\<close>

definition set_policy_row :: "usage_policy \<Rightarrow> gov_store \<Rightarrow> gov_store" where
  "set_policy_row p s = s\<lparr>gs_policies := row_put up_agent p (gs_policies s)\<rparr>"

definition policy_fields_over_bound :: "int option \<Rightarrow> int \<Rightarrow> string list" where
  "policy_fields_over_bound rate window =
     (if over_bound rate then [''token_rate_limit''] else [])
     @ (if MAX_RATE_PERIOD_SECONDS < window then [''rate_window_seconds''] else [])"

definition valid_policy :: "usage_policy \<Rightarrow> bool" where
  "valid_policy p = (up_agent p \<noteq> [] \<and> valid_limit (up_rate_limit p)
     \<and> 0 < up_window p \<and> up_window p \<le> MAX_RATE_PERIOD_SECONDS)"

text \<open>A row above a bound is served unvalidated, its token limit lowered and its window as stored.\<close>

definition get_policy_row :: "gov_store \<Rightarrow> string \<Rightarrow> store_fault + usage_policy option" where
  "get_policy_row s agent =
     (case row_get up_agent (gs_policies s) agent of None \<Rightarrow> Inr None
      | Some r \<Rightarrow>
        if policy_fields_over_bound (up_rate_limit r) (up_window r) = []
        then (if valid_policy r then Inr (Some r) else Inl SF_row_invalid)
        else Inr (Some (if over_bound (up_rate_limit r) then r\<lparr>up_rate_limit := Some MAX_AMOUNT\<rparr> else r)))"

definition count_policies_over_bound :: "gov_store \<Rightarrow> nat" where
  "count_policies_over_bound s =
     length (filter (\<lambda>r. over_bound (up_rate_limit r) \<or> MAX_RATE_PERIOD_SECONDS < up_window r) (gs_policies s))"

section \<open>Usage\<close>

text \<open>Binding a cost that does not fit 64 bits raises before the row is written.\<close>

definition record_usage_row :: "usage_record \<Rightarrow> gov_store \<Rightarrow> store_fault + gov_store" where
  "record_usage_row r s =
     (if \<not> (case us_cost r of None \<Rightarrow> True | Some c \<Rightarrow> int64 c) then Inl SF_overflow
      else bindE (row_insert us_id r (gs_usage s)) (\<lambda>rows. Inr (s\<lparr>gs_usage := rows\<rparr>)))"

definition usage_since :: "gov_store \<Rightarrow> string \<Rightarrow> string \<Rightarrow> usage_record list" where
  "usage_since s agent since = filter (\<lambda>r. us_agent r = agent \<and> since \<le> us_ts r) (gs_usage s)"

definition token_rows_after :: "gov_store \<Rightarrow> string \<Rightarrow> string \<Rightarrow> (string \<times> int) list" where
  "token_rows_after s agent after =
     map (\<lambda>r. (us_ts r, us_in r + us_out r))
       (sort_key us_ts (sort_key us_id (filter (\<lambda>r. us_agent r = agent \<and> after < us_ts r) (gs_usage s))))"

definition window_tokens :: "gov_store \<Rightarrow> string \<Rightarrow> string \<Rightarrow> store_fault + int" where
  "window_tokens s agent since = sql_result (sql_sum (map (\<lambda>r. us_in r + us_out r) (usage_since s agent since)))"

record model_totals =
  mt_model :: string
  mt_in :: int
  mt_out :: int
  mt_cost :: int
  mt_priced :: bool

definition model_row :: "usage_record list \<Rightarrow> string \<Rightarrow> model_totals option" where
  "model_row rows m =
     (let rs = filter (\<lambda>r. us_model r = m) rows in
      case (sum_column (map us_in rs), sum_column (map us_out rs), sum_column (List.map_filter us_cost rs)) of
        (Some i, Some out, Some c) \<Rightarrow>
          Some \<lparr>mt_model = m, mt_in = i, mt_out = out, mt_cost = c, mt_priced = list_all us_priced rs\<rparr>
      | _ \<Rightarrow> None)"

text \<open>\<open>GROUP BY model ORDER BY model\<close>; only models whose every row is priced add to the cost.\<close>

definition usage_totals_since :: "gov_store \<Rightarrow> string \<Rightarrow> string \<Rightarrow> store_fault + int \<times> int \<times> int \<times> model_totals list" where
  "usage_totals_since s agent since =
     (let rows = usage_since s agent since in
      bindE (sql_result (those (map (model_row rows) (sort (remdups (map us_model rows)))))) (\<lambda>ms.
      Inr (sum_list (map mt_in ms), sum_list (map mt_out ms), sum_list (map mt_cost (filter mt_priced ms)), ms)))"

section \<open>Warnings said once\<close>

text \<open>\<open>_WarnOnce.first\<close> over the remembered keys, oldest first.\<close>

definition warn_first :: "nat \<Rightarrow> 'k \<Rightarrow> 'k list \<Rightarrow> 'k list \<times> bool" where
  "warn_first limit key seen =
     (if key \<in> set seen then (seen, False)
      else ((if limit \<le> length seen then tl seen else seen) @ [key], True))"


section \<open>The store as a state machine\<close>

text \<open>
  Every method that writes is one step; a step that raises leaves the store as it was. The requests of
  the service interleave between these steps.
\<close>

datatype gov_op =
    OpSetCap cap_config
  | OpRecord spend_event
  | OpSetRates rate_limit_set
  | OpOpen escalation
  | OpResolve string string
  | OpSetPolicy usage_policy
  | OpUsage usage_record
  | OpReopen

definition keep_on_fault :: "'a \<Rightarrow> 'e + 'a \<Rightarrow> 'a" where
  "keep_on_fault s r = (case r of Inl _ \<Rightarrow> s | Inr t \<Rightarrow> t)"

fun gov_step :: "gov_op \<Rightarrow> gov_store \<Rightarrow> gov_store" where
  "gov_step (OpSetCap c) s = set_cap_row c s"
| "gov_step (OpRecord e) s = keep_on_fault s (record_row e s)"
| "gov_step (OpSetRates ls) s = keep_on_fault s (set_rate_limits_rows ls s)"
| "gov_step (OpOpen e) s = (case add_escalation_if_none_open e s of Inl _ \<Rightarrow> s | Inr (t, _) \<Rightarrow> t)"
| "gov_step (OpResolve eid who) s = fst (resolve_escalation_once eid who s)"
| "gov_step (OpSetPolicy p) s = set_policy_row p s"
| "gov_step (OpUsage r) s = keep_on_fault s (record_usage_row r s)"
| "gov_step OpReopen s = migrate_open_escalation_index s"

definition escs_inv :: "gov_store \<Rightarrow> bool" where
  "escs_inv s = (unique_keys esc_id (gs_escs s) \<and> open_unique (gs_escs s))"

definition resolver_of :: "string \<Rightarrow> gov_store \<Rightarrow> string option option" where
  "resolver_of eid s = (case row_get esc_id (gs_escs s) eid of None \<Rightarrow> None
     | Some r \<Rightarrow> if esc_resolved r then Some (esc_resolved_by r) else None)"

text \<open>Only opening and resolving touch the escalations.\<close>

lemma gov_step_escs:
  "(\<And>e. x \<noteq> OpOpen e) \<Longrightarrow> (\<And>i w. x \<noteq> OpResolve i w) \<Longrightarrow> gs_escs (gov_step x s) = gs_escs s"
  by (cases x) (auto simp: set_cap_row_def record_row_def set_rate_limits_rows_def set_policy_row_def
      record_usage_row_def migrate_open_escalation_index_def keep_on_fault_def bindE_def split: sum.splits)

lemma gov_step_spend:
  "gs_spend (gov_step x s) = gs_spend s \<or> (\<exists>e. x = OpRecord e \<and> gs_spend (gov_step x s) = gs_spend s @ [e])"
  by (cases x) (auto simp: set_cap_row_def record_row_def row_insert_def set_rate_limits_rows_def set_policy_row_def
      record_usage_row_def migrate_open_escalation_index_def keep_on_fault_def bindE_def
      add_escalation_if_none_open_def insert_escalation_def resolve_escalation_once_def Let_def
      split: sum.splits list.splits if_splits)

lemma set_open_of_kind:
  "x \<in> set (open_of_kind s a k) \<longleftrightarrow> x \<in> set (open_escs (gs_escs s)) \<and> esc_pair x = (a, k)"
  by (auto simp: open_of_kind_def open_escs_def esc_pair_def)

text \<open>What opening does: nothing, or one more open row with a fresh id for a pair that had none.\<close>

lemma add_if_none_open_cases:
  assumes "add_escalation_if_none_open e s = Inr (t, r, created)"
  shows "t = s \<and> \<not> created \<and> r \<in> set (gs_escs s) \<and> \<not> esc_resolved r \<and> esc_pair r = esc_pair e
    \<or> t = s\<lparr>gs_escs := gs_escs s @ [e\<lparr>esc_resolved := False, esc_resolved_by := None\<rparr>]\<rparr> \<and> created \<and> r = e
      \<and> esc_id e \<notin> esc_id ` set (gs_escs s) \<and> esc_pair e \<notin> esc_pair ` set (open_escs (gs_escs s))"
proof (cases "open_of_kind s (esc_agent e) (esc_kind e)")
  case Nil
  have none: "esc_pair e \<notin> esc_pair ` set (open_escs (gs_escs s))"
  proof
    assume "esc_pair e \<in> esc_pair ` set (open_escs (gs_escs s))"
    then obtain x where "x \<in> set (open_of_kind s (esc_agent e) (esc_kind e))"
      unfolding set_open_of_kind esc_pair_def by force
    with Nil show False by simp
  qed
  then have "insert_escalation f s = bindE (row_insert esc_id f (gs_escs s)) (\<lambda>rows. Inr (s\<lparr>gs_escs := rows\<rparr>))"
    if "esc_pair f = esc_pair e" for f
    by (simp add: insert_escalation_def that)
  then have "insert_escalation (e\<lparr>esc_resolved := False, esc_resolved_by := None\<rparr>) s
      = bindE (row_insert esc_id (e\<lparr>esc_resolved := False, esc_resolved_by := None\<rparr>) (gs_escs s))
          (\<lambda>rows. Inr (s\<lparr>gs_escs := rows\<rparr>))"
    by (simp add: esc_pair_def)
  with assms Nil none show ?thesis
    by (auto simp: add_escalation_if_none_open_def row_insert_def split: if_splits)
next
  case (Cons x xs)
  then have "x \<in> set (open_of_kind s (esc_agent e) (esc_kind e))" by simp
  then have "x \<in> set (gs_escs s) \<and> \<not> esc_resolved x \<and> esc_pair x = esc_pair e"
    by (simp add: set_open_of_kind open_escs_def esc_pair_def)
  with assms Cons show ?thesis
    by (simp add: add_escalation_if_none_open_def split: if_splits)
qed

lemma open_unique_resolve:
  assumes "open_unique es"
  shows "open_unique (row_update (\<lambda>e. esc_id e = eid \<and> \<not> esc_resolved e)
    (\<lambda>e. e\<lparr>esc_resolved := True, esc_resolved_by := Some who\<rparr>) es)"
proof -
  have "open_escs (row_update (\<lambda>e. esc_id e = eid \<and> \<not> esc_resolved e)
      (\<lambda>e. e\<lparr>esc_resolved := True, esc_resolved_by := Some who\<rparr>) es)
    = filter (\<lambda>e. esc_id e \<noteq> eid) (open_escs es)"
    by (induction es) (auto simp: open_escs_def row_update_def)
  with assms show ?thesis by (simp add: open_unique_def distinct_map_filter)
qed

lemma escs_inv_open:
  assumes "escs_inv s" shows "escs_inv (gov_step (OpOpen e) s)"
proof (cases "add_escalation_if_none_open e s")
  case (Inr a)
  obtain t r c where a: "a = (t, r, c)" by (cases a)
  from add_if_none_open_cases [OF Inr [unfolded a]] assms show ?thesis
    by (auto simp: Inr a escs_inv_def unique_keys_def open_unique_def open_escs_def esc_pair_def)
qed (use assms in simp)

lemma escs_inv_resolve:
  assumes "escs_inv s" shows "escs_inv (gov_step (OpResolve eid who) s)"
  using assms by (simp add: escs_inv_def resolve_escalation_once_def Let_def unique_keys_update open_unique_resolve)

lemma resolver_open:
  assumes "resolver_of k s = Some v" shows "resolver_of k (gov_step (OpOpen e) s) = Some v"
proof (cases "add_escalation_if_none_open e s")
  case (Inr a)
  obtain t r c where a: "a = (t, r, c)" by (cases a)
  from add_if_none_open_cases [OF Inr [unfolded a]] assms show ?thesis
    by (auto simp: Inr a resolver_of_def row_get_def find_append split: option.splits if_splits)
qed (use assms in simp)

lemma resolver_resolve:
  assumes "resolver_of k s = Some v" shows "resolver_of k (gov_step (OpResolve eid who) s) = Some v"
proof -
  obtain r where "row_get esc_id (gs_escs s) k = Some r" "esc_resolved r" "v = esc_resolved_by r"
    using assms by (auto simp: resolver_of_def split: option.splits if_splits)
  then show ?thesis
    by (simp add: resolver_of_def resolve_escalation_once_def Let_def row_get_update)
qed

interpretation gov_escalations: latched_service gov_step "\<lambda>_ _. True" escs_inv resolver_of
proof
  fix x s
  assume "escs_inv s"
  then show "escs_inv (gov_step x s)"
    using gov_step_escs [of x s] escs_inv_open escs_inv_resolve
    by (cases x) (auto simp: escs_inv_def simp del: gov_step.simps)
next
  fix x s k v
  assume "resolver_of k s = Some v"
  then show "resolver_of k (gov_step x s) = Some v"
    using gov_step_escs [of x s] resolver_open resolver_resolve
    by (cases x) (auto simp: resolver_of_def simp del: gov_step.simps)
qed

interpretation gov_spend_log: logging_service gov_step gs_spend
proof
  fix x s
  show "\<exists>new. gs_spend (gov_step x s) = gs_spend s @ new"
    using gov_step_spend [of x s] by auto
qed

interpretation caps_table: keyed_store "\<lambda>s k. row_get cap_agent (gs_caps s) k" set_cap_row cap_agent
  by unfold_locales (simp add: set_cap_row_def row_get_put)

interpretation policy_table: keyed_store "\<lambda>s k. row_get up_agent (gs_policies s) k" set_policy_row up_agent
  by unfold_locales (simp add: set_policy_row_def row_get_put)


text \<open>Whatever sequence of store operations runs, of any number of requests interleaved, at most one
  escalation is open for an agent and kind, and opening answers the one that is open.\<close>

lemma one_open_escalation:
  assumes "escs_inv s"
  shows "open_unique (gs_escs (fold gov_step xs s))
    \<and> (\<forall>e t r created. add_escalation_if_none_open e (fold gov_step xs s) = Inr (t, r, created)
        \<longrightarrow> map esc_pair (filter (\<lambda>x. esc_pair x = esc_pair e) (open_escs (gs_escs t))) = [esc_pair e])"
proof -
  have run: "ok_run (\<lambda>_ _. True) gov_step ys u" for ys u
    by (induction ys arbitrary: u) auto
  have inv: "escs_inv (fold gov_step xs s)"
    by (rule gov_escalations.run_inv [OF assms run])
  moreover have "map esc_pair (filter (\<lambda>x. esc_pair x = esc_pair e) (open_escs (gs_escs t))) = [esc_pair e]"
    if a: "add_escalation_if_none_open e (fold gov_step xs s) = Inr (t, r, created)" for e t r created
  proof -
    have "escs_inv t"
      using escs_inv_open [OF inv, of e] a by simp
    then have d: "distinct (map esc_pair (open_escs (gs_escs t)))"
      by (simp add: escs_inv_def open_unique_def)
    have "esc_pair e \<in> set (map esc_pair (open_escs (gs_escs t)))"
      using add_if_none_open_cases [OF a]
      by (auto simp: open_escs_def esc_pair_def intro: rev_image_eqI)
    moreover have "filter (\<lambda>p. p = q) ps = (if q \<in> set ps then [q] else [])"
      if "distinct ps" for ps and q :: "string \<times> string"
      using that by (induction ps) auto
    ultimately have "filter (\<lambda>p. p = esc_pair e) (map esc_pair (open_escs (gs_escs t))) = [esc_pair e]"
      using d by presburger
    then show ?thesis by (simp add: filter_map comp_def)
  qed
  ultimately show ?thesis by (auto simp: escs_inv_def)
qed

definition empty_store :: gov_store where
  "empty_store = \<lparr>gs_caps = [], gs_spend = [], gs_escs = [], gs_usage = [], gs_policies = [], gs_rates = [],
     gs_open_index = True\<rparr>"

definition demo_esc :: "string \<Rightarrow> escalation" where
  "demo_esc i = \<lparr>esc_id = i, esc_agent = ''canary'', esc_ts = ''t'', esc_kind = ''cents'', esc_spent = 80, esc_limit = 100,
     esc_pct = 80, esc_resolved = False, esc_resolved_by = None\<rparr>"

lemma one_open_escalation_witness:
  "open_unique (gs_escs (fold gov_step [OpOpen (demo_esc ''a''), OpOpen (demo_esc ''b'')] empty_store))
   \<and> gs_escs (fold gov_step [OpOpen (demo_esc ''a''), OpOpen (demo_esc ''b'')] empty_store) = [demo_esc ''a'']"
proof -
  have "escs_inv empty_store" by (simp add: escs_inv_def empty_store_def unique_keys_def open_unique_def open_escs_def)
  from one_open_escalation [OF this, of "[OpOpen (demo_esc ''a''), OpOpen (demo_esc ''b'')]"]
  have "open_unique (gs_escs (fold gov_step [OpOpen (demo_esc ''a''), OpOpen (demo_esc ''b'')] empty_store))" ..
  moreover have "gs_escs (fold gov_step [OpOpen (demo_esc ''a''), OpOpen (demo_esc ''b'')] empty_store) = [demo_esc ''a'']"
    by (simp add: empty_store_def demo_esc_def add_escalation_if_none_open_def open_of_kind_def insert_escalation_def
        row_insert_def open_escs_def)
  ultimately show ?thesis ..
qed

text \<open>The first human to resolve an escalation stays its resolver: no later operation rewrites it, a
  second resolve answers the stored row and says it resolved nothing, and no recorded spend is lost.\<close>

lemma first_resolver_wins:
  assumes "escs_inv s" and "resolver_of eid (fold gov_step xs s) = Some who"
  shows "resolver_of eid (fold gov_step (xs @ ys) s) = Some who
    \<and> (\<exists>r. resolve_escalation_once eid other (fold gov_step (xs @ ys) s)
          = (fold gov_step (xs @ ys) s, Inr (r, False)) \<and> esc_resolved_by r = who)
    \<and> (\<exists>new. gs_spend (fold gov_step (xs @ ys) s) = gs_spend (fold gov_step xs s) @ new)"
proof -
  let ?t = "fold gov_step (xs @ ys) s"
  have run: "ok_run (\<lambda>_ _. True) gov_step zs u" for zs u
    by (induction zs arbitrary: u) auto
  have inv: "escs_inv (fold gov_step xs s)" "escs_inv ?t"
    using gov_escalations.run_inv [OF assms(1) run] by blast+
  have latch: "resolver_of eid ?t = Some who"
    using gov_escalations.run_latch [OF inv(1) run assms(2), of ys] by simp
  then obtain r where r: "row_get esc_id (gs_escs ?t) eid = Some r" "esc_resolved r" "esc_resolved_by r = who"
    by (auto simp: resolver_of_def split: option.splits if_splits)
  have no_hit: "filter (\<lambda>e. esc_id e = eid \<and> \<not> esc_resolved e) (gs_escs ?t) = []"
  proof -
    have "e = r" if "e \<in> set (gs_escs ?t)" "esc_id e = eid" for e
      using unique_keys_get [of esc_id "gs_escs ?t" e] that r(1) inv(2) by (simp add: escs_inv_def)
    with r(2) show ?thesis by (auto simp: filter_empty_conv)
  qed
  then have "row_update (\<lambda>e. esc_id e = eid \<and> \<not> esc_resolved e) f (gs_escs ?t) = gs_escs ?t" for f
    unfolding row_update_def by (intro map_idI) (auto simp: filter_empty_conv)
  then have "resolve_escalation_once eid other ?t = (?t, Inr (r, False))"
    using no_hit r(1) by (simp add: resolve_escalation_once_def Let_def)
  with latch r(3) gov_spend_log.run_log [of ys "fold gov_step xs s"] show ?thesis by auto
qed

lemma first_resolver_wins_witness:
  "resolver_of ''a'' (fold gov_step ([OpOpen (demo_esc ''a''), OpResolve ''a'' ''don''] @ [OpResolve ''a'' ''eve'']) empty_store)
     = Some (Some ''don'')"
proof -
  have i: "escs_inv empty_store" by (simp add: escs_inv_def empty_store_def unique_keys_def open_unique_def open_escs_def)
  have "resolver_of ''a'' (fold gov_step [OpOpen (demo_esc ''a''), OpResolve ''a'' ''don''] empty_store) = Some (Some ''don'')"
    by (simp add: empty_store_def demo_esc_def add_escalation_if_none_open_def open_of_kind_def insert_escalation_def
        row_insert_def open_escs_def resolver_of_def resolve_escalation_once_def row_get_def row_update_def)
  from first_resolver_wins [OF i this] show ?thesis by blast
qed

text \<open>A warning is said once per key while the keys in use fit the memory, and the memory never
  holds more than its bound.\<close>

lemma warn_memory_bounded:
  assumes "0 < limit" and "length seen \<le> limit" and "distinct seen"
  shows "case warn_first limit key seen of (seen', first) \<Rightarrow>
      length seen' \<le> limit \<and> distinct seen' \<and> key \<in> set seen'
      \<and> (first \<longleftrightarrow> key \<notin> set seen) \<and> snd (warn_first limit key seen') = False
      \<and> (length seen < limit \<longrightarrow> set seen \<subseteq> set seen')"
  using assms by (cases seen) (auto simp: warn_first_def distinct_tl)

lemma warn_memory_bounded_witness:
  "warn_first 2 ''c'' [''a'', ''b''] = ([''b'', ''c''], True) \<and> snd (warn_first 2 ''c'' [''b'', ''c'']) = False"
  using warn_memory_bounded [of 2 "[''a'', ''b'']" "''c''"] by (simp add: warn_first_def)

end
