(* ===== verification/Pricing.thy ===== *)
theory Pricing
  imports Field_Prelude "HOL-Library.While_Combinator"
begin

text \<open>
  \<open>packages/field-core/src/field_core/pricing.py\<close>: model names, the price book and integer token cost.
  Prices and costs are in units of 1e-7 USD.
\<close>

section \<open>The default price list\<close>

definition USD_UNITS :: int where "USD_UNITS = 10000000"
definition CENT_UNITS :: int where "CENT_UNITS = 100000"

record model_price =
  input_units :: int
  output_units :: int
  cache_read_units :: int

text \<open>\<open>_p\<close> for whole dollars per million tokens.\<close>

definition price_p :: "int \<Rightarrow> int \<Rightarrow> int \<Rightarrow> model_price" where
  "price_p i out c = \<lparr>input_units = i * 10, output_units = out * 10, cache_read_units = c\<rparr>"

definition units_price :: "int \<Rightarrow> int \<Rightarrow> int \<Rightarrow> model_price" where
  "units_price i out c = \<lparr>input_units = i, output_units = out, cache_read_units = c\<rparr>"

definition DEFAULT_PRICES :: "(string \<times> model_price) list" where
  "DEFAULT_PRICES =
    [(''claude-fable-5-1'', units_price 100 500 3), (''claude-mythos-5-1'', units_price 100 500 3),
     (''claude-opus-5-5'', units_price 40 200 2), (''claude-sonnet-5-5'', units_price 20 100 1),
     (''claude-haiku-5-5'', units_price 5 25 1),
     (''claude-fable-5'', price_p 10 50 10), (''claude-mythos-5'', price_p 10 50 10),
     (''claude-opus-5'', price_p 5 25 5), (''claude-opus-4-8'', price_p 5 25 5),
     (''claude-opus-4-7'', price_p 5 25 5), (''claude-opus-4-6'', price_p 5 25 5),
     (''claude-opus-4-5'', price_p 5 25 5), (''claude-sonnet-5'', price_p 2 10 2),
     (''claude-sonnet-4-6'', price_p 3 15 3), (''claude-sonnet-4-5'', price_p 3 15 3),
     (''claude-haiku-4-5'', price_p 1 5 1)]"

definition ALIASES :: "(string \<times> string) list" where
  "ALIASES =
    [(''opus'', ''claude-opus-4-8''), (''opus-4.8'', ''claude-opus-4-8''),
     (''claude-opus-4.8'', ''claude-opus-4-8''), (''opus-5'', ''claude-opus-5''),
     (''sonnet'', ''claude-sonnet-5''), (''sonnet-5'', ''claude-sonnet-5''),
     (''haiku'', ''claude-haiku-4-5''), (''haiku-4.5'', ''claude-haiku-4-5''),
     (''fable'', ''claude-fable-5''), (''fable-5'', ''claude-fable-5'')]"

section \<open>Model names\<close>

definition replace_char :: "char \<Rightarrow> string \<Rightarrow> string" where
  "replace_char x s = map (\<lambda>c. if c = x then CHR ''-'' else c) s"

text \<open>\<open>key.replace("--", "-")\<close>, and the loop that repeats it.\<close>

fun replace_dashes :: "string \<Rightarrow> string" where
  "replace_dashes (a # b # s) =
     (if a = CHR ''-'' \<and> b = CHR ''-'' then CHR ''-'' # replace_dashes s else a # replace_dashes (b # s))"
| "replace_dashes s = s"

definition collapse_loop :: "string \<Rightarrow> string option" where
  "collapse_loop key = while_option (\<lambda>k. str_in ''--'' k) replace_dashes key"

definition collapse :: "string \<Rightarrow> string" where
  "collapse key = (case collapse_loop key of Some k \<Rightarrow> k | None \<Rightarrow> key)"

definition clean_key :: "string \<Rightarrow> string" where
  "clean_key m = collapse (fold replace_char ''._ /'' (py_lower (py_strip m)))"

definition is_default :: "string \<Rightarrow> bool" where
  "is_default key = (key \<in> set (map fst DEFAULT_PRICES))"

text \<open>The base of \<open>(.+)-(\d{8})\<close>; a dot does not match a line feed.\<close>

definition dated_base :: "string \<Rightarrow> string option" where
  "dated_base key =
     (let n = length key - 9; b = take n key in
      if 10 \<le> length key \<and> key ! n = CHR ''-'' \<and> list_all is_digit (drop (n + 1) key) \<and> CHR 0x0A \<notin> set b
      then Some b else None)"

lemma replace_dashes_length: "length (replace_dashes s) \<le> length s"
  by (induction s rule: replace_dashes.induct) auto

lemma replace_dashes_shrinks: "str_in ''--'' s \<Longrightarrow> length (replace_dashes s) < length s"
proof (induction s rule: replace_dashes.induct)
  case (1 a b s)
  then show ?case using replace_dashes_length [of s]
    by (auto simp: less_Suc_eq_le split: if_splits)
qed auto

lemma collapse_loop_ends: "\<exists>k. collapse_loop key = Some k"
  unfolding collapse_loop_def
  by (rule measure_while_option_Some [where P = "\<lambda>_. True" and f = length, simplified])
    (simp add: replace_dashes_shrinks)

lemma collapse_no_dashes: "\<not> str_in ''--'' (collapse key)"
proof -
  obtain k where k: "collapse_loop key = Some k" using collapse_loop_ends ..
  then have "\<not> str_in ''--'' k"
    unfolding collapse_loop_def by (rule while_option_stop)
  with k show ?thesis by (simp add: collapse_def)
qed

lemma collapse_id: "\<not> str_in ''--'' key \<Longrightarrow> collapse key = key"
  by (simp add: collapse_def collapse_loop_def while_option_unfold)

lemma collapse_inv:
  assumes "P key" and "\<And>k. P k \<Longrightarrow> P (replace_dashes k)"
  shows "P (collapse key)"
proof -
  obtain k where k: "collapse_loop key = Some k" using collapse_loop_ends ..
  then have "P k"
    unfolding collapse_loop_def
    by (rule while_option_rule [where P = P, rotated]) (use assms in auto)
  with k show ?thesis by (simp add: collapse_def)
qed

lemma collapse_length: "length (collapse key) \<le> length key"
  by (rule collapse_inv) (use replace_dashes_length le_trans in blast)+

lemma py_strip_length: "length (py_strip s) \<le> length s"
proof -
  have "length (dropWhile p xs) \<le> length xs" for p and xs :: "char list"
    by (induction xs) auto
  then show ?thesis by (metis length_rev order_trans py_strip_def)
qed

lemma clean_key_length: "length (clean_key m) \<le> length m"
proof -
  have "length (fold replace_char ''._ /'' (py_lower (py_strip m))) \<le> length m"
    by (simp add: replace_char_def py_lower_def py_strip_length)
  then show ?thesis
    unfolding clean_key_def using collapse_length le_trans by blast
qed

lemma dated_base_length: "dated_base key = Some b \<Longrightarrow> length b < length key"
  by (auto simp: dated_base_def Let_def split: if_splits)

function normalize_model :: "string \<Rightarrow> string" where
  "normalize_model m =
     (let key = clean_key m in
      if is_default key then key
      else case map_of ALIASES key of Some c \<Rightarrow> c
      | None \<Rightarrow>
        if is_default (''claude-'' @ key) then ''claude-'' @ key
        else case dated_base key of None \<Rightarrow> key
        | Some b \<Rightarrow> (let base = normalize_model b in if is_default base then base else key))"
  by pat_completeness auto
termination
  by (relation "measure length")
    (simp, simp, metis clean_key_length dated_base_length order_less_le_trans)

declare normalize_model.simps [simp del]

section \<open>The price book\<close>

record price_book =
  book_id :: string
  prices :: "(string \<times> model_price) list"

definition DEFAULT_BOOK :: price_book where
  "DEFAULT_BOOK = \<lparr>book_id = ''anthropic-list-2026-10-27'', prices = DEFAULT_PRICES\<rparr>"

definition price_for :: "price_book \<Rightarrow> string \<Rightarrow> model_price option" where
  "price_for book model = map_of (prices book) (normalize_model model)"

definition is_priced :: "price_book \<Rightarrow> string \<Rightarrow> bool" where
  "is_priced book model = (price_for book model \<noteq> None)"

definition cost_units :: "price_book \<Rightarrow> string \<Rightarrow> int \<Rightarrow> int \<Rightarrow> int \<Rightarrow> int option" where
  "cost_units book model i out c =
     (case price_for book model of None \<Rightarrow> None
      | Some p \<Rightarrow> Some (i * input_units p + out * output_units p + c * cache_read_units p))"

text \<open>An operator book is what \<open>PriceBook.model_validate\<close> accepts: no negative rate.\<close>

definition valid_price :: "model_price \<Rightarrow> bool" where
  "valid_price p = (0 \<le> input_units p \<and> 0 \<le> output_units p \<and> 0 \<le> cache_read_units p)"

definition valid_price_book :: "price_book \<Rightarrow> bool" where
  "valid_price_book book = list_all (\<lambda>(k, p). valid_price p) (prices book)"

text \<open>What the file named by \<open>FIELD_PRICE_BOOK\<close> holds; no name means the dated list.\<close>

datatype price_source = NoPriceFile | PriceFileBad | PriceFile price_book

definition load_price_book :: "price_source \<Rightarrow> price_book option" where
  "load_price_book src = (case src of NoPriceFile \<Rightarrow> Some DEFAULT_BOOK | PriceFileBad \<Rightarrow> None
     | PriceFile b \<Rightarrow> if valid_price_book b then Some b else None)"

section \<open>Money shown and money counted\<close>

definition rstrip_char :: "char \<Rightarrow> string \<Rightarrow> string" where
  "rstrip_char c s = rev (dropWhile (\<lambda>x. x = c) (rev s))"

definition units_to_usd_str :: "int \<Rightarrow> string" where
  "units_to_usd_str u =
     (if CENT_UNITS \<le> u
      then ''$'' @ dec_int (u div USD_UNITS) @ ''.'' @ zpad 2 (nat (u mod USD_UNITS div (USD_UNITS div 100)))
      else let a = \<bar>u\<bar> in
        rstrip_char (CHR ''.'') (rstrip_char (CHR ''0'')
          (''$'' @ (if u < 0 then ''-'' else []) @ dec_int (a div USD_UNITS) @ ''.''
             @ zpad 7 (nat (a mod USD_UNITS)))))"

definition units_to_cents :: "int \<Rightarrow> int" where
  "units_to_cents u = u div CENT_UNITS"

section \<open>Model names have one normal form\<close>

definition norm_char :: "char \<Rightarrow> bool" where
  "norm_char c = (lower_char c = c \<and> c \<notin> set ''._ /'')"

text \<open>The texts \<^const>\<open>clean_key\<close> leaves alone.\<close>

definition clean_form :: "string \<Rightarrow> bool" where
  "clean_form k = (list_all norm_char k \<and> \<not> str_in ''--'' k
     \<and> (k = [] \<or> \<not> py_isspace (hd k) \<and> \<not> py_isspace (last k)))"

lemma lower_char_idem: "lower_char (lower_char c) = lower_char c"
proof (cases "(65 \<le> (of_char c :: nat) \<and> (of_char c :: nat) \<le> 90)
    \<or> (192 \<le> (of_char c :: nat) \<and> (of_char c :: nat) \<le> 222 \<and> (of_char c :: nat) \<noteq> 215)")
  case True
  then have "(of_char (lower_char c) :: nat) = of_char c + 32"
    by (auto simp: lower_char_def Let_def)
  with True show ?thesis by (auto simp: lower_char_def [of "lower_char c"] Let_def)
next
  case False
  then have "lower_char c = c" unfolding lower_char_def Let_def by (simp only: if_False)
  then show ?thesis by simp
qed

lemma isspace_lower: "py_isspace (lower_char c) = py_isspace c"
proof (cases "(65 \<le> (of_char c :: nat) \<and> (of_char c :: nat) \<le> 90)
    \<or> (192 \<le> (of_char c :: nat) \<and> (of_char c :: nat) \<le> 222 \<and> (of_char c :: nat) \<noteq> 215)")
  case True
  then have "(of_char (lower_char c) :: nat) = of_char c + 32"
    by (auto simp: lower_char_def Let_def)
  with True show ?thesis by (auto simp: py_isspace_def Let_def)
next
  case False
  then have "lower_char c = c" unfolding lower_char_def Let_def by (simp only: if_False)
  then show ?thesis by simp
qed

lemma replace_all: "fold replace_char ''._ /'' s = map (\<lambda>c. if c \<in> set ''._ /'' then CHR ''-'' else c) s"
  by (simp add: replace_char_def)

lemma replace_dashes_ends:
  "replace_dashes s = [] \<longleftrightarrow> s = []" "hd (replace_dashes s) = hd s" "last (replace_dashes s) = last s"
  by (induction s rule: replace_dashes.induct) auto

lemma set_replace_dashes: "set (replace_dashes s) \<subseteq> set s"
  by (induction s rule: replace_dashes.induct) auto

lemma clean_form_id:
  assumes "clean_form k" shows "clean_key k = k"
proof -
  have norm: "\<And>c. c \<in> set k \<Longrightarrow> lower_char c = c \<and> c \<notin> set ''._ /''"
    using assms by (simp add: clean_form_def list_all_iff norm_char_def)
  have "py_strip k = k" by (rule py_strip_id) (use assms in \<open>simp add: clean_form_def\<close>)
  moreover have "py_lower k = k"
    unfolding py_lower_def by (rule map_idI) (use norm in blast)
  moreover have "fold replace_char ''._ /'' k = k"
    unfolding replace_all by (rule map_idI) (use norm in metis)
  moreover have "collapse k = k" by (rule collapse_id) (use assms in \<open>simp add: clean_form_def\<close>)
  ultimately show ?thesis by (simp add: clean_key_def)
qed

lemma clean_key_form: "clean_form (clean_key m)"
proof -
  define f where "f c = (if c \<in> set ''._ /'' then CHR ''-'' else c)" for c
  define P where "P k = (list_all norm_char k \<and> (k = [] \<or> \<not> py_isspace (hd k) \<and> \<not> py_isspace (last k)))" for k
  have key: "clean_key m = collapse (map f (map lower_char (py_strip m)))"
    unfolding clean_key_def replace_all py_lower_def f_def ..
  have norm: "norm_char (f (lower_char c))" for c
  proof -
    have "lower_char CHR ''-'' = CHR ''-''" by (simp add: lower_char_def)
    then show ?thesis by (auto simp: f_def norm_char_def lower_char_idem)
  qed
  have space: "py_isspace (f (lower_char c)) \<Longrightarrow> py_isspace c" for c
    by (auto simp: f_def isspace_lower py_isspace_def [of "CHR ''-''"] split: if_splits)
  have "P (map f (map lower_char (py_strip m)))"
    unfolding P_def using norm space py_strip_ends [of m]
    by (auto simp: list_all_iff hd_map last_map)
  moreover have "P (replace_dashes k)" if "P k" for k
    using that set_replace_dashes [of k] unfolding P_def replace_dashes_ends list_all_iff by blast
  ultimately have "P (clean_key m)"
    unfolding key by (rule collapse_inv)
  moreover have "\<not> str_in ''--'' (clean_key m)"
    unfolding key by (rule collapse_no_dashes)
  ultimately show ?thesis by (simp add: P_def clean_form_def)
qed

lemma clean_key_idem [simp]: "clean_key (clean_key m) = clean_key m"
  by (rule clean_form_id [OF clean_key_form])

lemma default_clean: "is_default k \<Longrightarrow> clean_key k = k"
proof -
  have all: "list_all clean_form (map fst DEFAULT_PRICES)" by code_simp
  show "is_default k \<Longrightarrow> clean_key k = k"
    using all by (simp only: is_default_def list_all_iff) (rule clean_form_id, blast)
qed

lemma alias_default: "map_of ALIASES k = Some c \<Longrightarrow> is_default c"
proof -
  have all: "list_all is_default (map snd ALIASES)" by code_simp
  show "map_of ALIASES k = Some c \<Longrightarrow> is_default c"
    using all map_of_SomeD [of ALIASES k c] by (force simp: list_all_iff)
qed

lemma normalize_default: "is_default k \<Longrightarrow> normalize_model k = k"
  by (subst normalize_model.simps) (simp add: default_clean)

text \<open>The outcome is a priced name of the list or the cleaned key, which no rule rewrites.\<close>

lemma normalize_cases:
  "is_default (normalize_model m)
   \<or> normalize_model m = clean_key m \<and> map_of ALIASES (clean_key m) = None
     \<and> \<not> is_default (''claude-'' @ clean_key m)
     \<and> (\<forall>b. dated_base (clean_key m) = Some b \<longrightarrow> \<not> is_default (normalize_model b))"
  by (subst (1 2) normalize_model.simps)
    (auto simp: Let_def alias_default split: option.splits)

text \<open>Normalising a model name is idempotent, so the price looked up for the stored name is the
  price of the name the agent reported.\<close>

lemma normalize_model_idem:
  "normalize_model (normalize_model m) = normalize_model m
   \<and> price_for book (normalize_model m) = price_for book m"
proof -
  have "normalize_model (normalize_model m) = normalize_model m"
    using normalize_cases [of m]
  proof (elim disjE conjE)
    assume k: "normalize_model m = clean_key m" "map_of ALIASES (clean_key m) = None"
      "\<not> is_default (''claude-'' @ clean_key m)"
      "\<forall>b. dated_base (clean_key m) = Some b \<longrightarrow> \<not> is_default (normalize_model b)"
    show ?thesis
      unfolding k(1) by (subst normalize_model.simps) (use k in \<open>auto simp: Let_def split: option.splits\<close>)
  qed (rule normalize_default)
  then show ?thesis by (simp add: price_for_def)
qed

text \<open>Repeating \<open>replace("--", "-")\<close> ends for every key, and no double dash is left.\<close>

lemma dash_loop_terminates: "\<exists>k. collapse_loop key = Some k \<and> \<not> str_in ''--'' k"
  using collapse_loop_ends [of key] collapse_no_dashes [of key] by (auto simp: collapse_def)

text \<open>A cost under the dated list fits the 64-bit column for every request the service accepts.\<close>

lemma default_rates_bounded:
  assumes "price_for DEFAULT_BOOK model = Some p"
  shows "0 \<le> input_units p \<and> input_units p \<le> 100 \<and> 0 \<le> output_units p \<and> output_units p \<le> 500
    \<and> 0 \<le> cache_read_units p \<and> cache_read_units p \<le> 10"
proof -
  have all: "list_all (\<lambda>(k, p). 0 \<le> input_units p \<and> input_units p \<le> 100 \<and> 0 \<le> output_units p
      \<and> output_units p \<le> 500 \<and> 0 \<le> cache_read_units p \<and> cache_read_units p \<le> 10) DEFAULT_PRICES"
    by code_simp
  have "(normalize_model model, p) \<in> set DEFAULT_PRICES"
    using assms by (auto simp: price_for_def DEFAULT_BOOK_def dest: map_of_SomeD)
  with all show ?thesis by (fastforce simp only: list_all_iff split_beta fst_conv snd_conv)
qed

lemma default_cost_bounded:
  assumes "cost_units DEFAULT_BOOK model i out c = Some u"
    and "0 \<le> i" "i \<le> n" "0 \<le> out" "out \<le> n" "0 \<le> c" "c \<le> n"
  shows "0 \<le> u \<and> u \<le> 610 * n"
proof -
  obtain p where p: "price_for DEFAULT_BOOK model = Some p"
    and u: "u = i * input_units p + out * output_units p + c * cache_read_units p"
    using assms(1) by (auto simp: cost_units_def split: option.splits)
  note b = default_rates_bounded [OF p]
  have "i * input_units p \<le> n * 100" "out * output_units p \<le> n * 500" "c * cache_read_units p \<le> n * 10"
    using assms b by (auto intro!: mult_mono)
  moreover have "0 \<le> i * input_units p" "0 \<le> out * output_units p" "0 \<le> c * cache_read_units p"
    using assms b by auto
  ultimately show ?thesis using u by linarith
qed

end
