(* ===== verification/Spend_Governor.thy ===== *)
theory Spend_Governor
  imports Spend_Store Pricing Ledger_Context Clients
begin

text \<open>
  \<open>services/spend-governor/src/spend_governor\<close>: the rogue-usage rules (\<open>usage.py\<close>) and the handlers
  (\<open>api.py\<close>). A handler takes what the outside answers it: the clock, the fresh uuids in the order it
  draws them, the ledger's reply to each append in the order it makes them. A ledger that is not
  configured is None.
\<close>

section \<open>Rogue usage\<close>

datatype rogue_kind = RogueModel | RogueBurst | Unpriced

definition rogue_text :: "rogue_kind \<Rightarrow> string" where
  "rogue_text k = (case k of RogueModel \<Rightarrow> ''rogue_model'' | RogueBurst \<Rightarrow> ''rogue_burst'' | Unpriced \<Rightarrow> ''unpriced'')"

definition evaluate_rogue :: "usage_policy option \<Rightarrow> string \<Rightarrow> bool \<Rightarrow> int \<Rightarrow> rogue_kind list" where
  "evaluate_rogue policy model priced after =
     (if priced then [] else [Unpriced])
     @ (case policy of None \<Rightarrow> []
        | Some p \<Rightarrow>
          (if up_models p \<noteq> [] \<and> model \<notin> set (up_models p) then [RogueModel] else [])
          @ (case up_rate_limit p of None \<Rightarrow> [] | Some l \<Rightarrow> if l \<le> after then [RogueBurst] else []))"

section \<open>State, requests, answers\<close>

datatype gov_note =
    SpendRecorded string string int int int "string option" "string option"
  | SpendEscalated string string string int int
  | CapReachedNote string cap_detail
  | RatesUnenforced string "(string \<times> int \<times> string) list"
  | EscalationResolved string string string
  | UsageRecorded string string string int int "int option" string "string option"
  | UsageFinding string rogue_kind string string

record governor =
  gv_store :: gov_store
  gv_ledger :: "gov_note list option"
  gv_dropped :: nat
  gv_book :: price_book

record gov_world =
  gw_now :: instant
  gw_ids :: "nat \<Rightarrow> string"
  gw_replies :: "nat \<Rightarrow> ledger_reply"

datatype gov_cause =
    GC_operator refusal_detail | GC_body | GC_path_mismatch | GC_no_cap | GC_sentinel_needs_action
  | GC_shadowed_self | GC_since | GC_escalation_unknown | GC_no_policy
  | GC_store store_fault | GC_window window_error | GC_time_overflow

datatype gov_error = GovHttp nat gov_cause

definition store_error :: "store_fault + 'a \<Rightarrow> gov_error + 'a" where
  "store_error r = (case r of Inl f \<Rightarrow> Inl (GovHttp 500 (GC_store f)) | Inr x \<Rightarrow> Inr x)"

definition require_cap :: "gov_store \<Rightarrow> string \<Rightarrow> gov_error + cap_config" where
  "require_cap s agent = bindE (store_error (get_cap_row s agent)) (\<lambda>c.
     case c of None \<Rightarrow> Inl (GovHttp 404 GC_no_cap) | Some cap \<Rightarrow> Inr cap)"

text \<open>\<open>_ledger_note\<close>: a note the ledger refuses or loses is counted, and never undoes anything.\<close>

definition note_ledger :: "ledger_reply \<Rightarrow> gov_note \<Rightarrow> governor \<Rightarrow> governor" where
  "note_ledger reply n g =
     (case gv_ledger g of None \<Rightarrow> g
      | Some l \<Rightarrow> (case ledger_append reply n l of
          (l', Inr _) \<Rightarrow> g\<lparr>gv_ledger := Some l'\<rparr>
        | (l', Inl _) \<Rightarrow> g\<lparr>gv_ledger := Some l', gv_dropped := gv_dropped g + 1\<rparr>))"

section \<open>Throttling\<close>

datatype throttle_kind = TK_action | TK_tokens

record throttle_info =
  ti_kind :: throttle_kind
  ti_action :: "string option"
  ti_count :: int
  ti_max :: int
  ti_period :: string
  ti_seconds :: int

type_synonym exhausted = "(int \<times> throttle_info) list"

definition window_result :: "window_error + 'a \<Rightarrow> gov_error + 'a" where
  "window_result r = (case r of Inl f \<Rightarrow> Inl (GovHttp 500 (GC_window f)) | Inr x \<Rightarrow> Inr x)"

definition throttle_rate :: "gov_store \<Rightarrow> string \<Rightarrow> instant \<Rightarrow> string \<Rightarrow> nat \<Rightarrow> exhausted \<Rightarrow> rate_db_row
    \<Rightarrow> gov_error + exhausted" where
  "throttle_rate s agent now action i found lm =
     (case (if rt_action lm \<noteq> action then None else rt_seconds lm) of None \<Rightarrow> Inr found
      | Some secs \<Rightarrow>
        if \<not> valid_instant (now - secs * second) then Inl (GovHttp 500 GC_time_overflow)
        else
          let rows = window_action_rows (action_rows_after s agent action (iso_utc (now - secs * second))) in
          bindE (window_result (window_retry_after rows (rt_max lm) secs now)) (\<lambda>(count, retry).
            case retry of None \<Rightarrow> Inr found
            | Some r \<Rightarrow> Inr (found @ [(r, \<lparr>ti_kind = TK_action, ti_action = Some action, ti_count = count,
                ti_max = rt_max lm, ti_period = rt_period lm, ti_seconds = secs\<rparr>)])))"

definition throttle_tokens :: "gov_store \<Rightarrow> string \<Rightarrow> instant \<Rightarrow> exhausted \<Rightarrow> gov_error + exhausted" where
  "throttle_tokens s agent now found =
     bindE (store_error (get_policy_row s agent)) (\<lambda>policy.
       case policy of None \<Rightarrow> Inr found
       | Some p \<Rightarrow> (case up_rate_limit p of None \<Rightarrow> Inr found
         | Some lm \<Rightarrow>
           let rows = token_rows_after s agent (iso_utc (rolling_window_start now (up_window p))) in
           bindE (window_result (window_retry_after rows lm (up_window p) now)) (\<lambda>(count, retry).
             case retry of None \<Rightarrow> Inr found
             | Some r \<Rightarrow> Inr (found @ [(r, \<lparr>ti_kind = TK_tokens, ti_action = None, ti_count = count, ti_max = lm,
                 ti_period = dec_int (up_window p) @ ''s'', ti_seconds = up_window p\<rparr>)]))))"

text \<open>\<open>max(..., key=...)\<close>: the first of the greatest.\<close>

fun longest_wait :: "int \<times> throttle_info \<Rightarrow> exhausted \<Rightarrow> int \<times> throttle_info" where
  "longest_wait best [] = best"
| "longest_wait best (x # xs) = longest_wait (if fst best < fst x then x else best) xs"

definition throttle :: "gov_store \<Rightarrow> string \<Rightarrow> instant \<Rightarrow> string option \<Rightarrow> gov_error + (int \<times> throttle_info) option" where
  "throttle s agent now action =
     bindE (case action of None \<Rightarrow> Inr []
            | Some a \<Rightarrow> loopE (throttle_rate s agent now a) 1 [] (get_rate_limits_rows s agent)) (\<lambda>found.
     bindE (throttle_tokens s agent now found) (\<lambda>found.
     Inr (case found of [] \<Rightarrow> None | x # xs \<Rightarrow> Some (longest_wait x xs))))"

section \<open>Status\<close>

datatype status_detail = CapDetail cap_detail | RateDetail throttle_info int

record spend_status =
  st_agent :: string
  st_state :: spend_state
  st_period :: string
  st_window_start :: string
  st_currency :: string
  st_cents :: int
  st_limit_cents :: "int option"
  st_tokens :: int
  st_token_limit :: "int option"
  st_actions :: int
  st_action_limit :: "int option"
  st_open_escalations :: nat
  st_detail :: status_detail
  st_cost_units :: int
  st_cost_display :: string
  st_actions_self :: int
  st_actions_metered :: int
  st_retry_after :: "int option"
  st_throttled :: "throttle_info option"

definition status_full :: "gov_store \<Rightarrow> string \<Rightarrow> instant \<Rightarrow> string option
    \<Rightarrow> gov_error + spend_status \<times> spend_state \<times> cap_detail" where
  "status_full s agent now action =
     bindE (require_cap s agent) (\<lambda>cap.
     let start = window_start (cap_period cap) now in
     bindE (store_error (totals_since s agent start)) (\<lambda>(cents, tokens, _).
     bindE (store_error (usage_totals_since s agent start)) (\<lambda>(u_in, u_out, cost, _).
     bindE (store_error (action_counts_since s agent start)) (\<lambda>groups.
     let cents_total = cents + units_to_cents cost;
         tokens_total = tokens + u_in + u_out;
         (a_self, a_metered, actions) = action_totals groups;
         open_n = length (open_escalations s (Some agent));
         (cap_state, cap_detail) = evaluate cap cents_total tokens_total actions open_n
     in bindE (if cap_state = SS_block then Inr None else throttle s agent now action) (\<lambda>found.
        Inr (\<lparr>st_agent = agent,
              st_state = (case found of None \<Rightarrow> cap_state | Some _ \<Rightarrow> SS_throttled),
              st_period = cap_period cap, st_window_start = start, st_currency = cap_currency cap,
              st_cents = cents_total, st_limit_cents = limit_cents cap,
              st_tokens = tokens_total, st_token_limit = token_limit cap,
              st_actions = actions, st_action_limit = action_limit cap,
              st_open_escalations = open_n,
              st_detail = (case found of None \<Rightarrow> CapDetail cap_detail | Some (r, i) \<Rightarrow> RateDetail i r),
              st_cost_units = cost, st_cost_display = units_to_usd_str cost,
              st_actions_self = a_self, st_actions_metered = a_metered,
              st_retry_after = map_option fst found, st_throttled = map_option snd found\<rparr>,
             cap_state, cap_detail))))))"

definition get_status :: "gov_store \<Rightarrow> string \<Rightarrow> instant \<Rightarrow> string option \<Rightarrow> gov_error + spend_status" where
  "get_status s agent now action = bindE (status_full s agent now action) (\<lambda>(st, _). Inr st)"

section \<open>Configuration routes\<close>

definition guard_error :: "operator_refused \<Rightarrow> gov_error" where
  "guard_error e = (case e of OperatorRefused st d \<Rightarrow> GovHttp st (GC_operator d))"

definition put_cap :: "(operator_refused + operator_auth) \<Rightarrow> string \<Rightarrow> cap_config \<Rightarrow> governor
    \<Rightarrow> governor \<times> (gov_error + cap_config)" where
  "put_cap guarded agent cap g =
     (case guarded of Inl e \<Rightarrow> (g, Inl (guard_error e))
      | Inr _ \<Rightarrow>
        if \<not> valid_cap cap then (g, Inl (GovHttp 422 GC_body))
        else if cap_agent cap \<noteq> agent then (g, Inl (GovHttp 422 GC_path_mismatch))
        else (g\<lparr>gv_store := set_cap_row cap (gv_store g)\<rparr>, Inr cap))"

definition put_rate_limits :: "(operator_refused + operator_auth) \<Rightarrow> gov_world \<Rightarrow> string \<Rightarrow> string \<Rightarrow> rate_entry list
    \<Rightarrow> governor \<Rightarrow> governor \<times> (gov_error + rate_db_row list)" where
  "put_rate_limits guarded w agent body_agent entries g =
     (case guarded of Inl e \<Rightarrow> (g, Inl (guard_error e))
      | Inr _ \<Rightarrow>
     (case make_rate_set body_agent entries of Inl _ \<Rightarrow> (g, Inl (GovHttp 422 GC_body))
      | Inr body \<Rightarrow>
        if rs_agent body \<noteq> agent then (g, Inl (GovHttp 422 GC_path_mismatch))
        else
     (case require_cap (gv_store g) agent of Inl e \<Rightarrow> (g, Inl e)
      | Inr _ \<Rightarrow>
     (case store_error (set_rate_limits_rows body (gv_store g)) of Inl e \<Rightarrow> (g, Inl e)
      | Inr s \<Rightarrow>
        let rows = get_rate_limits_rows s agent;
            unenforced = filter (\<lambda>r. \<not> enforced r) rows;
            g1 = g\<lparr>gv_store := s\<rparr>
        in (if unenforced = [] then g1
            else note_ledger (gw_replies w 0)
              (RatesUnenforced agent (map (\<lambda>r. (rt_action r, rt_max r, rt_period r)) unenforced)) g1,
            Inr rows)))))"

definition get_rate_limits :: "gov_store \<Rightarrow> string \<Rightarrow> gov_error + rate_db_row list" where
  "get_rate_limits s agent = bindE (require_cap s agent) (\<lambda>_. Inr (get_rate_limits_rows s agent))"

definition put_policy :: "(operator_refused + operator_auth) \<Rightarrow> string \<Rightarrow> usage_policy \<Rightarrow> governor
    \<Rightarrow> governor \<times> (gov_error + usage_policy)" where
  "put_policy guarded agent p g =
     (case guarded of Inl e \<Rightarrow> (g, Inl (guard_error e))
      | Inr _ \<Rightarrow>
        if \<not> valid_policy p then (g, Inl (GovHttp 422 GC_body))
        else if up_agent p \<noteq> agent then (g, Inl (GovHttp 422 GC_path_mismatch))
        else let q = p\<lparr>up_models := map normalize_model (up_models p)\<rparr>
             in (g\<lparr>gv_store := set_policy_row q (gv_store g)\<rparr>, Inr q))"

definition get_policy :: "gov_store \<Rightarrow> string \<Rightarrow> gov_error + usage_policy" where
  "get_policy s agent = bindE (store_error (get_policy_row s agent)) (\<lambda>p.
     case p of None \<Rightarrow> Inl (GovHttp 404 GC_no_policy) | Some q \<Rightarrow> Inr q)"

section \<open>Recording spend\<close>

record spend_request =
  sq_agent :: string
  sq_cents :: int
  sq_tokens :: int
  sq_actions :: int
  sq_note :: "string option"
  sq_action :: "string option"
  sq_source :: string
  sq_shadowed :: bool

definition valid_amount :: "int \<Rightarrow> bool" where
  "valid_amount n = (0 \<le> n \<and> n \<le> MAX_AMOUNT)"

definition valid_spend_request :: "spend_request \<Rightarrow> bool" where
  "valid_spend_request q = (sq_agent q \<noteq> [] \<and> valid_amount (sq_cents q) \<and> valid_amount (sq_tokens q)
     \<and> valid_amount (sq_actions q) \<and> sq_action q \<noteq> Some [] \<and> sq_source q \<in> {''self'', ''sentinel''})"

definition spend_note :: "spend_request \<Rightarrow> string option" where
  "spend_note q =
     (if sq_source q = ''sentinel'' \<and> sq_note q = None
      then Some (if sq_shadowed q then ''sentinel-metered ALLOW (log-only shadow)'' else ''sentinel-metered ALLOW'')
      else sq_note q)"

definition spend_event_of :: "gov_world \<Rightarrow> spend_request \<Rightarrow> spend_event" where
  "spend_event_of w q = \<lparr>se_id = gw_ids w 0, se_agent = sq_agent q, se_ts = iso_utc (gw_now w),
     se_cents = sq_cents q, se_tokens = sq_tokens q, se_actions = sq_actions q, se_note = spend_note q,
     se_action = sq_action q, se_source = sq_source q\<rparr>"

text \<open>The spent amount and the limit of the kind that crossed its threshold.\<close>

definition crossed_amounts :: "spend_status \<Rightarrow> string \<Rightarrow> int \<times> int option" where
  "crossed_amounts st kind =
     (if kind = ''cents'' then (st_cents st, st_limit_cents st)
      else if kind = ''tokens'' then (st_tokens st, st_token_limit st)
      else (st_actions st, st_action_limit st))"

definition open_for_crossing :: "gov_world \<Rightarrow> cap_config \<Rightarrow> string \<Rightarrow> spend_status \<Rightarrow> governor \<Rightarrow> governor \<times> (gov_error + spend_status)" where
  "open_for_crossing w cap kind st g =
     (case crossed_amounts st kind of
        (_, None) \<Rightarrow> (g, Inl (GovHttp 500 (GC_store SF_row_invalid)))
      | (spent, Some limit) \<Rightarrow>
        (case store_error (add_escalation_if_none_open
            \<lparr>esc_id = gw_ids w 1, esc_agent = st_agent st, esc_ts = iso_utc (gw_now w), esc_kind = kind,
             esc_spent = spent, esc_limit = limit, esc_pct = escalate_at_pct cap, esc_resolved = False,
             esc_resolved_by = None\<rparr> (gv_store g)) of
           Inl e \<Rightarrow> (g, Inl e)
         | Inr (s, esc, opened) \<Rightarrow>
             (if opened then note_ledger (gw_replies w 1) (SpendEscalated (st_agent st) (esc_id esc) kind spent limit)
                (g\<lparr>gv_store := s\<rparr>)
              else g\<lparr>gv_store := s\<rparr>, Inr st)))"

text \<open>The row is stored: the ledger note of a self-reported one, then the verdict and what it opens.\<close>

definition ledger_spend :: "gov_world \<Rightarrow> spend_request \<Rightarrow> governor \<Rightarrow> governor" where
  "ledger_spend w q g =
     (if sq_source q = ''self''
      then note_ledger (gw_replies w 0) (SpendRecorded (sq_agent q) (gw_ids w 0) (sq_cents q) (sq_tokens q)
             (sq_actions q) (sq_action q) (ledger_note (sq_note q))) g
      else g)"

definition answer_spend :: "gov_world \<Rightarrow> cap_config \<Rightarrow> spend_request \<Rightarrow> governor \<Rightarrow> governor \<times> (gov_error + spend_status)" where
  "answer_spend w cap q g =
     (case status_full (gv_store g) (sq_agent q) (gw_now w) (sq_action q) of Inl e \<Rightarrow> (g, Inl e)
      | Inr (st, cap_state, cap_detail) \<Rightarrow>
        if cap_state = SS_escalate
        then (if detail_word cap_detail \<in> {''cents'', ''tokens'', ''actions''}
              then open_for_crossing w cap (detail_word cap_detail) st g else (g, Inr st))
        else if st_state st = SS_block
        then (note_ledger (gw_replies w 1) (CapReachedNote (sq_agent q) cap_detail) g, Inr st)
        else (g, Inr st))"

definition spend_checks :: "spend_request \<Rightarrow> gov_store \<Rightarrow> gov_error + cap_config" where
  "spend_checks q s =
     (if \<not> valid_spend_request q then Inl (GovHttp 422 GC_body)
      else bindE (require_cap s (sq_agent q)) (\<lambda>cap.
        if sq_source q = ''sentinel'' \<and> sq_action q = None then Inl (GovHttp 422 GC_sentinel_needs_action)
        else if sq_shadowed q \<and> sq_source q \<noteq> ''sentinel'' then Inl (GovHttp 422 GC_shadowed_self)
        else Inr cap))"

definition record_spend :: "gov_world \<Rightarrow> spend_request \<Rightarrow> governor \<Rightarrow> governor \<times> (gov_error + spend_status)" where
  "record_spend w q g =
     (case spend_checks q (gv_store g) of Inl e \<Rightarrow> (g, Inl e)
      | Inr cap \<Rightarrow>
        (case store_error (record_row (spend_event_of w q) (gv_store g)) of Inl e \<Rightarrow> (g, Inl e)
         | Inr s \<Rightarrow> answer_spend w cap q (ledger_spend w q (g\<lparr>gv_store := s\<rparr>))))"

section \<open>Totals and escalations\<close>

text \<open>\<open>since\<close> is the instant its text names in UTC, None when the text is not ISO 8601.\<close>

definition totals :: "gov_store \<Rightarrow> string \<Rightarrow> int option \<Rightarrow> gov_error + string \<times> string \<times> int \<times> int" where
  "totals s agent since =
     bindE (require_cap s agent) (\<lambda>cap.
     case since of None \<Rightarrow> Inl (GovHttp 422 GC_since)
     | Some t \<Rightarrow>
       if \<not> valid_instant t then Inl (GovHttp 422 GC_since)
       else bindE (store_error (totals_since s agent (iso_utc t))) (\<lambda>(cents, _, _).
            bindE (store_error (usage_totals_since s agent (iso_utc t))) (\<lambda>(_, _, cost, _).
            Inr (iso_utc t, cap_currency cap, cents + units_to_cents cost, cost))))"

datatype resolve_answer = Resolved escalation | AlreadyResolved escalation

definition resolve :: "(operator_refused + op_context) \<Rightarrow> gov_world \<Rightarrow> string \<Rightarrow> string \<Rightarrow> governor
    \<Rightarrow> governor \<times> (gov_error + resolve_answer)" where
  "resolve guarded w eid resolved_by g =
     (case guarded of Inl e \<Rightarrow> (g, Inl (guard_error e))
      | Inr cx \<Rightarrow>
        if resolved_by = [] then (g, Inl (GovHttp 422 GC_body))
        else
          let who = snd (bind_body_operator cx resolved_by);
              (s, r) = resolve_escalation_once eid who (gv_store g);
              g1 = g\<lparr>gv_store := s\<rparr>
          in (case r of Inl _ \<Rightarrow> (g1, Inl (GovHttp 404 GC_escalation_unknown))
              | Inr (esc, now_resolved) \<Rightarrow>
                if now_resolved
                then (note_ledger (gw_replies w 0) (EscalationResolved (esc_agent esc) eid who) g1, Inr (Resolved esc))
                else if esc_resolved_by esc \<noteq> Some who then (g1, Inr (AlreadyResolved esc))
                else (g1, Inr (Resolved esc))))"

section \<open>Recording usage\<close>

record usage_request =
  uq_agent :: string
  uq_model :: string
  uq_in :: int
  uq_out :: int
  uq_cache :: int
  uq_note :: "string option"

definition valid_usage_request :: "usage_request \<Rightarrow> bool" where
  "valid_usage_request q = (uq_agent q \<noteq> [] \<and> uq_model q \<noteq> [] \<and> valid_amount (uq_in q)
     \<and> valid_amount (uq_out q) \<and> valid_amount (uq_cache q))"

definition usage_record_of :: "gov_world \<Rightarrow> price_book \<Rightarrow> usage_request \<Rightarrow> usage_record" where
  "usage_record_of w book q =
     (let canonical = normalize_model (uq_model q);
          cost = cost_units book canonical (uq_in q) (uq_out q) (uq_cache q)
      in \<lparr>us_id = gw_ids w 0, us_agent = uq_agent q, us_ts = iso_utc (gw_now w), us_model = canonical,
          us_in = uq_in q, us_out = uq_out q, us_cache = uq_cache q, us_cost = cost, us_priced = (cost \<noteq> None),
          us_note = uq_note q\<rparr>)"

text \<open>Each finding opens at most one escalation; \<open>i\<close> numbers the uuids and the appends.\<close>

definition raise_finding :: "gov_world \<Rightarrow> cap_config \<Rightarrow> usage_policy option \<Rightarrow> usage_record \<Rightarrow> int \<Rightarrow> nat \<Rightarrow> governor
    \<Rightarrow> rogue_kind \<Rightarrow> governor \<times> (gov_error + unit)" where
  "raise_finding w cap policy r after i g f =
     (case store_error (add_escalation_if_none_open
        \<lparr>esc_id = gw_ids w i, esc_agent = us_agent r, esc_ts = us_ts r, esc_kind = ''usage:'' @ rogue_text f,
         esc_spent = after,
         esc_limit = (case policy of None \<Rightarrow> 0 | Some p \<Rightarrow> (case up_rate_limit p of None \<Rightarrow> 0 | Some l \<Rightarrow> l)),
         esc_pct = escalate_at_pct cap, esc_resolved = False, esc_resolved_by = None\<rparr> (gv_store g)) of
        Inl e \<Rightarrow> (g, Inl e)
      | Inr (s, esc, opened) \<Rightarrow>
          (if opened then note_ledger (gw_replies w i) (UsageFinding (us_agent r) f (us_model r) (esc_id esc)) (g\<lparr>gv_store := s\<rparr>)
           else g\<lparr>gv_store := s\<rparr>, Inr ()))"

fun raise_findings :: "gov_world \<Rightarrow> cap_config \<Rightarrow> usage_policy option \<Rightarrow> usage_record \<Rightarrow> int \<Rightarrow> nat \<Rightarrow> governor
    \<Rightarrow> rogue_kind list \<Rightarrow> governor \<times> (gov_error + unit)" where
  "raise_findings w cap policy r after i g [] = (g, Inr ())"
| "raise_findings w cap policy r after i g (f # fs) =
     (case raise_finding w cap policy r after i g f of (g', Inl e) \<Rightarrow> (g', Inl e)
      | (g', Inr _) \<Rightarrow> raise_findings w cap policy r after (i + 1) g' fs)"

text \<open>The row is stored: its ledger note, the rogue findings, then the status.\<close>

definition ledger_usage :: "gov_world \<Rightarrow> usage_request \<Rightarrow> usage_record \<Rightarrow> governor \<Rightarrow> governor" where
  "ledger_usage w q r g = note_ledger (gw_replies w 0) (UsageRecorded (uq_agent q) (us_id r) (us_model r) (uq_in q) (uq_out q)
     (us_cost r) (book_id (gv_book g)) (ledger_note (uq_note q))) g"

definition answer_usage :: "gov_world \<Rightarrow> usage_record \<Rightarrow> rogue_kind list \<Rightarrow> governor
    \<Rightarrow> governor \<times> (gov_error + usage_record \<times> rogue_kind list \<times> spend_status)" where
  "answer_usage w r findings g =
     (case status_full (gv_store g) (us_agent r) (gw_now w) None of Inl e \<Rightarrow> (g, Inl e)
      | Inr (st, _, cap_detail) \<Rightarrow>
        (if st_state st = SS_block
         then note_ledger (gw_replies w 4) (CapReachedNote (us_agent r) cap_detail) g else g,
         Inr (r, findings, st)))"

definition usage_findings :: "gov_world \<Rightarrow> usage_record \<Rightarrow> gov_store \<Rightarrow> gov_error + usage_policy option \<times> int \<times> rogue_kind list" where
  "usage_findings w r s =
     bindE (store_error (get_policy_row s (us_agent r))) (\<lambda>policy.
     bindE (store_error (window_tokens s (us_agent r) (iso_utc
         (case policy of None \<Rightarrow> gw_now w | Some p \<Rightarrow> rolling_window_start (gw_now w) (up_window p))))) (\<lambda>after.
     Inr (policy, after, evaluate_rogue policy (us_model r) (us_priced r) after)))"

definition judge_usage :: "gov_world \<Rightarrow> cap_config \<Rightarrow> usage_record \<Rightarrow> governor
    \<Rightarrow> governor \<times> (gov_error + usage_record \<times> rogue_kind list \<times> spend_status)" where
  "judge_usage w cap r g =
     (case usage_findings w r (gv_store g) of Inl e \<Rightarrow> (g, Inl e)
      | Inr (policy, after, findings) \<Rightarrow>
        (case raise_findings w cap policy r after 1 g findings of (g', Inl e) \<Rightarrow> (g', Inl e)
         | (g', Inr _) \<Rightarrow> answer_usage w r findings g'))"

definition record_usage :: "gov_world \<Rightarrow> usage_request \<Rightarrow> governor
    \<Rightarrow> governor \<times> (gov_error + usage_record \<times> rogue_kind list \<times> spend_status)" where
  "record_usage w q g =
     (if \<not> valid_usage_request q then (g, Inl (GovHttp 422 GC_body)) else
      case require_cap (gv_store g) (uq_agent q) of Inl e \<Rightarrow> (g, Inl e)
      | Inr cap \<Rightarrow>
        let r = usage_record_of w (gv_book g) q in
        (case store_error (record_usage_row r (gv_store g)) of Inl e \<Rightarrow> (g, Inl e)
         | Inr s \<Rightarrow> judge_usage w cap r (ledger_usage w q r (g\<lparr>gv_store := s\<rparr>))))"

record model_breakdown =
  mb_model :: string
  mb_in :: int
  mb_out :: int
  mb_cost :: "int option"
  mb_priced :: bool
  mb_allowed :: bool

text \<open>\<open>usage_status\<close>: the seconds the window covers, the totals, the cost display, the breakdown by model and the open rogue flags.\<close>

definition usage_status :: "gov_store \<Rightarrow> string \<Rightarrow> instant
    \<Rightarrow> gov_error + int \<times> int \<times> int \<times> int \<times> string \<times> int option \<times> string list \<times> model_breakdown list \<times> nat" where
  "usage_status s agent now =
     bindE (require_cap s agent) (\<lambda>cap.
     bindE (store_error (usage_totals_since s agent (window_start (cap_period cap) now))) (\<lambda>(i, out, cost, rows).
     bindE (store_error (get_policy_row s agent)) (\<lambda>policy.
     let allowed = (case policy of None \<Rightarrow> [] | Some p \<Rightarrow> up_models p) in
     Inr ((case parse_iso (window_start (cap_period cap) now) of None \<Rightarrow> 0 | Some t \<Rightarrow> max 0 ((now - t) div second)),
       i, out, cost, units_to_usd_str cost, (case policy of None \<Rightarrow> None | Some p \<Rightarrow> up_rate_limit p), allowed,
       map (\<lambda>r. \<lparr>mb_model = mt_model r, mb_in = mt_in r, mb_out = mt_out r,
           mb_cost = (if mt_priced r then Some (mt_cost r) else None), mb_priced = mt_priced r,
           mb_allowed = (allowed = [] \<or> mt_model r \<in> set allowed)\<rparr>) rows,
       length (filter (\<lambda>e. starts_with ''usage:'' (esc_kind e)) (open_escalations s (Some agent)))))))"


section \<open>An audit outage does not change metering\<close>

lemma note_ledger_store [simp]: "gv_store (note_ledger r n g) = gv_store g" "gv_book (note_ledger r n g) = gv_book g"
  by (auto simp: note_ledger_def split: option.splits prod.splits sum.splits)

text \<open>Two worlds that differ only in the ledger's replies, two services that differ only in their ledger.\<close>

definition same_meter :: "governor \<Rightarrow> governor \<Rightarrow> bool" where
  "same_meter g h = (gv_store g = gv_store h \<and> gv_book g = gv_book h)"

definition same_clock :: "gov_world \<Rightarrow> gov_world \<Rightarrow> bool" where
  "same_clock w v = (gw_now w = gw_now v \<and> gw_ids w = gw_ids v)"

lemma same_meter_note [simp]:
  "same_meter (note_ledger r n g) h = same_meter g h" "same_meter h (note_ledger r n g) = same_meter h g"
  by (simp_all add: same_meter_def)

lemma open_for_crossing_same:
  assumes "same_meter g h" "same_clock w v"
  shows "same_meter (fst (open_for_crossing w cap k st g)) (fst (open_for_crossing v cap k st h))
    \<and> snd (open_for_crossing w cap k st g) = snd (open_for_crossing v cap k st h)"
  using assms
  by (auto simp: open_for_crossing_def same_clock_def same_meter_def Let_def split: prod.splits option.splits sum.splits)

lemma answer_spend_same:
  assumes m: "same_meter g h" and c: "same_clock w v"
  shows "same_meter (fst (answer_spend w cap q g)) (fst (answer_spend v cap q h))
    \<and> snd (answer_spend w cap q g) = snd (answer_spend v cap q h)"
proof -
  have st: "gv_store h = gv_store g" "gw_now v = gw_now w"
    using assms by (simp_all add: same_meter_def same_clock_def)
  show ?thesis
    using m open_for_crossing_same [OF m c]
    unfolding answer_spend_def st by (auto split: sum.split prod.split)
qed

lemma ledger_spend_store [simp]: "gv_store (ledger_spend w q g) = gv_store g" "gv_book (ledger_spend w q g) = gv_book g"
  by (simp_all add: ledger_spend_def)

lemma record_spend_same:
  assumes m: "same_meter g h" and c: "same_clock w v"
  shows "same_meter (fst (record_spend w q g)) (fst (record_spend v q h))
    \<and> snd (record_spend w q g) = snd (record_spend v q h)"
proof -
  have st: "gv_store h = gv_store g" "spend_event_of v q = spend_event_of w q"
    using assms by (simp_all add: same_meter_def spend_event_of_def same_clock_def)
  have tail: "same_meter (fst (answer_spend w cap q (ledger_spend w q (g\<lparr>gv_store := s\<rparr>))))
        (fst (answer_spend v cap q (ledger_spend v q (h\<lparr>gv_store := s\<rparr>))))
      \<and> snd (answer_spend w cap q (ledger_spend w q (g\<lparr>gv_store := s\<rparr>)))
        = snd (answer_spend v cap q (ledger_spend v q (h\<lparr>gv_store := s\<rparr>)))" for cap s
    by (rule answer_spend_same [OF _ c]) (use m in \<open>simp add: same_meter_def\<close>)
  show ?thesis
    unfolding record_spend_def st using m tail by (simp split: sum.split)
qed

lemma raise_finding_same:
  assumes "same_meter g h" "same_clock w v"
  shows "same_meter (fst (raise_finding w cap p r after i g f)) (fst (raise_finding v cap p r after i h f))
    \<and> snd (raise_finding w cap p r after i g f) = snd (raise_finding v cap p r after i h f)"
  using assms
  by (auto simp: raise_finding_def same_clock_def same_meter_def split: prod.splits sum.splits)

lemma raise_findings_same:
  assumes "same_meter g h" "same_clock w v"
  shows "same_meter (fst (raise_findings w cap p r after i g fs)) (fst (raise_findings v cap p r after i h fs))
    \<and> snd (raise_findings w cap p r after i g fs) = snd (raise_findings v cap p r after i h fs)"
  using assms(1)
proof (induction fs arbitrary: g h i)
  case (Cons f fs)
  obtain g' a where g': "raise_finding w cap p r after i g f = (g', a)" by fastforce
  obtain h' b where h': "raise_finding v cap p r after i h f = (h', b)" by fastforce
  have "same_meter g' h'" "a = b"
    using raise_finding_same [OF Cons.prems assms(2), of cap p r after i f] by (simp_all add: g' h')
  with Cons.IH show ?case by (cases b) (auto simp: g' h')
qed simp

lemma answer_usage_same:
  assumes m: "same_meter g h" and c: "same_clock w v"
  shows "same_meter (fst (answer_usage w r fs g)) (fst (answer_usage v r fs h))
    \<and> snd (answer_usage w r fs g) = snd (answer_usage v r fs h)"
proof -
  have st: "gv_store h = gv_store g" "gw_now v = gw_now w"
    using assms by (simp_all add: same_meter_def same_clock_def)
  show ?thesis
    using m unfolding answer_usage_def st by (auto split: sum.split prod.split)
qed

lemma judge_usage_same:
  assumes m: "same_meter g h" and c: "same_clock w v"
  shows "same_meter (fst (judge_usage w cap r g)) (fst (judge_usage v cap r h))
    \<and> snd (judge_usage w cap r g) = snd (judge_usage v cap r h)"
proof -
  have now: "gw_now v = gw_now w" using c by (simp add: same_clock_def)
  have st: "gv_store h = gv_store g" using m by (simp add: same_meter_def)
  have fn: "usage_findings v r s = usage_findings w r s" for s
    unfolding usage_findings_def now ..
  show ?thesis
  proof (cases "usage_findings w r (gv_store g)")
    case (Inr x)
    obtain p n fs where x: "x = (p, n, fs)" by (cases x)
    obtain g' a where g': "raise_findings w cap p r n 1 g fs = (g', a)" by fastforce
    obtain h' b where h': "raise_findings v cap p r n 1 h fs = (h', b)" by fastforce
    have f: "same_meter g' h'" "b = a"
      using raise_findings_same [OF m c, of cap p r n 1 fs] unfolding g' h' by simp_all
    show ?thesis
      unfolding judge_usage_def st fn using answer_usage_same [OF f(1) c, of r fs] f
      by (cases a) (simp_all add: Inr x g' h' del: One_nat_def)
  qed (use m in \<open>simp add: judge_usage_def st fn\<close>)
qed

lemma ledger_usage_store [simp]: "gv_store (ledger_usage w q r g) = gv_store g" "gv_book (ledger_usage w q r g) = gv_book g"
  by (simp_all add: ledger_usage_def)

lemma record_usage_same:
  assumes m: "same_meter g h" and c: "same_clock w v"
  shows "same_meter (fst (record_usage w q g)) (fst (record_usage v q h))
    \<and> snd (record_usage w q g) = snd (record_usage v q h)"
proof -
  have st: "gv_store h = gv_store g" "usage_record_of v (gv_book h) q = usage_record_of w (gv_book g) q"
    using assms by (simp_all add: same_meter_def usage_record_of_def same_clock_def)
  have tail: "same_meter (fst (judge_usage w cap r (ledger_usage w q r (g\<lparr>gv_store := s\<rparr>))))
        (fst (judge_usage v cap r (ledger_usage v q r (h\<lparr>gv_store := s\<rparr>))))
      \<and> snd (judge_usage w cap r (ledger_usage w q r (g\<lparr>gv_store := s\<rparr>)))
        = snd (judge_usage v cap r (ledger_usage v q r (h\<lparr>gv_store := s\<rparr>)))" for cap r s
    by (rule judge_usage_same [OF _ c]) (use m in \<open>simp add: same_meter_def\<close>)
  show ?thesis
    unfolding record_usage_def st Let_def using m tail by (simp split: sum.split)
qed

text \<open>What a spend or a usage report stores, opens and answers does not depend on the ledger: with the
  same clock and ids, and whatever the ledger replies or whether one is configured at all, the tables
  and the answer are the same.\<close>

lemma audit_outage_keeps_metering:
  assumes "same_meter g h" and "same_clock w v"
  shows "gv_store (fst (record_spend w q g)) = gv_store (fst (record_spend v q h))
    \<and> snd (record_spend w q g) = snd (record_spend v q h)
    \<and> gv_store (fst (record_usage w u g)) = gv_store (fst (record_usage v u h))
    \<and> snd (record_usage w u g) = snd (record_usage v u h)"
  using record_spend_same [OF assms, of q] record_usage_same [OF assms, of u]
  by (simp add: same_meter_def)


section \<open>The service refines its store\<close>

text \<open>A request, and what it does to the service.\<close>

datatype gov_request =
    PutCap "operator_refused + operator_auth" string cap_config
  | PutRates "operator_refused + operator_auth" string string "rate_entry list"
  | PutPolicy "operator_refused + operator_auth" string usage_policy
  | PostSpend spend_request
  | PostUsage usage_request
  | PostResolve "operator_refused + op_context" string string

fun serve :: "gov_world \<times> gov_request \<Rightarrow> governor \<Rightarrow> governor" where
  "serve (w, PutCap op agent cap) g = fst (put_cap op agent cap g)"
| "serve (w, PutRates op agent body es) g = fst (put_rate_limits op w agent body es g)"
| "serve (w, PutPolicy op agent p) g = fst (put_policy op agent p g)"
| "serve (w, PostSpend q) g = fst (record_spend w q g)"
| "serve (w, PostUsage q) g = fst (record_usage w q g)"
| "serve (w, PostResolve cx eid who) g = fst (resolve cx w eid who g)"

text \<open>Reached in the store by its own operations, none of which sets a cap.\<close>

definition by_ops :: "gov_store \<Rightarrow> gov_store \<Rightarrow> bool" where
  "by_ops s t = (\<exists>ops. t = fold gov_step ops s \<and> (\<forall>c. OpSetCap c \<notin> set ops))"

lemma by_ops_refl [intro]: "by_ops s s"
  by (auto simp: by_ops_def intro: exI [of _ "[]"])

lemma by_ops_step [intro]: "(\<And>c. x \<noteq> OpSetCap c) \<Longrightarrow> by_ops s (gov_step x s)"
  unfolding by_ops_def by (rule exI [of _ "[x]"]) auto

lemma by_ops_trans:
  assumes "by_ops s t" "by_ops t u" shows "by_ops s u"
proof -
  obtain xs ys where "t = fold gov_step xs s" "u = fold gov_step ys t"
    "\<forall>c. OpSetCap c \<notin> set xs" "\<forall>c. OpSetCap c \<notin> set ys"
    using assms by (auto simp: by_ops_def)
  then have "u = fold gov_step (xs @ ys) s \<and> (\<forall>c. OpSetCap c \<notin> set (xs @ ys))" by simp
  then show ?thesis unfolding by_ops_def by blast
qed

lemma store_error_Inr [simp]: "store_error r = Inr x \<longleftrightarrow> r = Inr x"
  by (auto simp: store_error_def split: sum.splits)

lemma by_ops_record: "record_row e s = Inr t \<Longrightarrow> by_ops s t"
  using by_ops_step [of "OpRecord e" s] by (simp add: keep_on_fault_def)

lemma by_ops_usage: "record_usage_row r s = Inr t \<Longrightarrow> by_ops s t"
  using by_ops_step [of "OpUsage r" s] by (simp add: keep_on_fault_def)

lemma by_ops_rates: "set_rate_limits_rows ls s = Inr t \<Longrightarrow> by_ops s t"
  using by_ops_step [of "OpSetRates ls" s] by (simp add: keep_on_fault_def)

lemma by_ops_open: "add_escalation_if_none_open e s = Inr (t, r) \<Longrightarrow> by_ops s t"
  using by_ops_step [of "OpOpen e" s] by simp

lemma by_ops_crossing: "by_ops (gv_store g) (gv_store (fst (open_for_crossing w cap k st g)))"
  by (auto simp: open_for_crossing_def intro: by_ops_open split: prod.split option.split sum.split)

lemma by_ops_answer: "by_ops (gv_store g) (gv_store (fst (answer_spend w cap q g)))"
  by (auto simp: answer_spend_def intro: by_ops_crossing split: prod.split sum.split)

lemma by_ops_spend: "by_ops (gv_store g) (gv_store (fst (record_spend w q g)))"
proof (cases "spend_checks q (gv_store g)")
  case (Inr cap)
  show ?thesis
  proof (cases "store_error (record_row (spend_event_of w q) (gv_store g))")
    case (Inr s)
    then have "by_ops (gv_store g) s" by (simp add: by_ops_record)
    moreover have "by_ops s (gv_store (fst (answer_spend w cap q (ledger_spend w q (g\<lparr>gv_store := s\<rparr>)))))"
      using by_ops_answer [of "ledger_spend w q (g\<lparr>gv_store := s\<rparr>)"] by simp
    ultimately show ?thesis
      using by_ops_trans by (simp add: record_spend_def \<open>spend_checks q (gv_store g) = Inr cap\<close> Inr)
  qed (auto simp: record_spend_def Inr)
qed (auto simp: record_spend_def)

lemma by_ops_finding: "by_ops (gv_store g) (gv_store (fst (raise_finding w cap p r n i g f)))"
  by (auto simp: raise_finding_def intro: by_ops_open split: prod.split sum.split)

lemma by_ops_findings: "by_ops (gv_store g) (gv_store (fst (raise_findings w cap p r n i g fs)))"
proof (induction fs arbitrary: g i)
  case (Cons f fs)
  obtain g' a where g': "raise_finding w cap p r n i g f = (g', a)" by fastforce
  have "by_ops (gv_store g) (gv_store g')" using by_ops_finding [of g w cap p r n i f] by (simp add: g')
  with Cons.IH [of g' "i + 1"] show ?case by (cases a) (auto simp: g' intro: by_ops_trans)
qed auto

lemma by_ops_judge: "by_ops (gv_store g) (gv_store (fst (judge_usage w cap r g)))"
proof (cases "usage_findings w r (gv_store g)")
  case (Inr x)
  obtain p n fs where x: "x = (p, n, fs)" by (cases x)
  obtain g' a where g': "raise_findings w cap p r n 1 g fs = (g', a)" by fastforce
  have "gv_store (fst (answer_usage w r fs g')) = gv_store g'"
    by (auto simp: answer_usage_def split: sum.split prod.split)
  with by_ops_findings [of g w cap p r n 1 fs] show ?thesis
    by (cases a) (simp_all add: judge_usage_def Inr x g' del: One_nat_def)
qed (auto simp: judge_usage_def)

lemma by_ops_post_usage: "by_ops (gv_store g) (gv_store (fst (record_usage w q g)))"
proof (cases "valid_usage_request q \<and> (\<exists>cap. require_cap (gv_store g) (uq_agent q) = Inr cap)")
  case True
  then obtain cap where cap: "valid_usage_request q" "require_cap (gv_store g) (uq_agent q) = Inr cap" by blast
  define r where "r = usage_record_of w (gv_book g) q"
  show ?thesis
  proof (cases "store_error (record_usage_row r (gv_store g))")
    case (Inr s)
    then have "by_ops (gv_store g) s" by (simp add: by_ops_usage)
    moreover have "by_ops s (gv_store (fst (judge_usage w cap r (ledger_usage w q r (g\<lparr>gv_store := s\<rparr>)))))"
      using by_ops_judge [of "ledger_usage w q r (g\<lparr>gv_store := s\<rparr>)"] by simp
    ultimately show ?thesis
      using by_ops_trans by (simp add: record_usage_def cap r_def [symmetric] Inr Let_def)
  qed (auto simp: record_usage_def cap r_def [symmetric] Let_def)
qed (auto simp: record_usage_def split: sum.split)

lemma by_ops_config:
  "by_ops (gv_store g) (gv_store (fst (put_policy op agent p g)))"
  "by_ops (gv_store g) (gv_store (fst (put_rate_limits op w agent body es g)))"
  "by_ops (gv_store g) (gv_store (fst (resolve cx w eid who g)))"
proof -
  show "by_ops (gv_store g) (gv_store (fst (put_policy op agent p g)))"
    using by_ops_step [of "OpSetPolicy (p\<lparr>up_models := map normalize_model (up_models p)\<rparr>)" "gv_store g"]
    by (auto simp: put_policy_def Let_def split: sum.split)
  show "by_ops (gv_store g) (gv_store (fst (put_rate_limits op w agent body es g)))"
    by (auto simp: put_rate_limits_def Let_def intro: by_ops_rates split: sum.split)
  show "by_ops (gv_store g) (gv_store (fst (resolve cx w eid who g)))"
  proof (cases cx)
    case (Inr c)
    define s' where "s' = fst (resolve_escalation_once eid (snd (bind_body_operator c who)) (gv_store g))"
    have "by_ops (gv_store g) s'"
      using by_ops_step [of "OpResolve eid (snd (bind_body_operator c who))" "gv_store g"] by (simp add: s'_def)
    moreover have "gv_store (fst (resolve cx w eid who g)) \<in> {gv_store g, s'}"
      by (auto simp: resolve_def Inr s'_def Let_def split: sum.split prod.split)
    ultimately show ?thesis by auto
  qed (auto simp: resolve_def)
qed

lemma serve_by_ops: "(\<And>op agent cap. x \<noteq> PutCap op agent cap) \<Longrightarrow> by_ops (gv_store g) (gv_store (serve (w, x) g))"
  by (cases x) (auto simp: by_ops_config by_ops_spend by_ops_post_usage)

lemma serve_put_cap:
  "gv_store (serve (w, PutCap op agent cap) g) = gv_store g
   \<or> cap_agent cap = agent \<and> valid_cap cap \<and> gv_store (serve (w, PutCap op agent cap) g) = gov_step (OpSetCap cap) (gv_store g)"
  by (auto simp: put_cap_def split: sum.split)

lemma serve_ops: "\<exists>ops. gv_store (serve (w, x) g) = fold gov_step ops (gv_store g)"
proof (cases "\<exists>op agent cap. x = PutCap op agent cap")
  case True
  then obtain op agent cap where "x = PutCap op agent cap" by blast
  then have "gv_store (serve (w, x) g) \<in> {gv_store g, fold gov_step [OpSetCap cap] (gv_store g)}"
    using serve_put_cap [of w op agent cap g] by auto
  moreover have "gv_store g = fold gov_step [] (gv_store g)" by simp
  ultimately show ?thesis by (metis insert_iff singletonD)
next
  case False
  then show ?thesis using serve_by_ops [of x g w] by (auto simp: by_ops_def)
qed

lemma serve_all_ops: "\<exists>ops. gv_store (fold serve xs g) = fold gov_step ops (gv_store g)"
proof (induction xs arbitrary: g)
  case (Cons x xs)
  obtain w y where x: "x = (w, y)" by (cases x)
  obtain a where "gv_store (serve x g) = fold gov_step a (gv_store g)" using serve_ops [of w y g] x by blast
  moreover obtain b where "gv_store (fold serve xs (serve x g)) = fold gov_step b (gv_store (serve x g))"
    using Cons [of "serve x g"] by blast
  ultimately have "gv_store (fold serve (x # xs) g) = fold gov_step (a @ b) (gv_store g)" by simp
  then show ?case by blast
qed (auto intro: exI [of _ "[]"])

text \<open>C12: The service refines its store: whatever requests it serves, its tables are reached by a sequence of
  the store's atomic operations, so one escalation is open per agent and kind, the first resolver
  stays, and no recorded spend is lost, for the handlers as for the operations.\<close>

theorem service_refines_store:
  "\<exists>ops. gv_store (fold serve xs g) = fold gov_step ops (gv_store g)
    \<and> (escs_inv (gv_store g) \<longrightarrow> open_unique (gs_escs (gv_store (fold serve xs g))))
    \<and> (escs_inv (gv_store g) \<and> resolver_of eid (gv_store g) = Some who
        \<longrightarrow> resolver_of eid (gv_store (fold serve xs g)) = Some who)
    \<and> set (gs_spend (gv_store g)) \<subseteq> set (gs_spend (gv_store (fold serve xs g)))"
proof -
  obtain ops where ops: "gv_store (fold serve xs g) = fold gov_step ops (gv_store g)"
    using serve_all_ops by blast
  have run: "ok_run (\<lambda>_ _. True) gov_step zs u" for zs u
    by (induction zs arbitrary: u) auto
  have "escs_inv (gv_store g) \<Longrightarrow> open_unique (gs_escs (gv_store (fold serve xs g)))"
    unfolding ops using gov_escalations.run_inv [OF _ run] by (simp add: escs_inv_def)
  moreover have "escs_inv (gv_store g) \<Longrightarrow> resolver_of eid (gv_store g) = Some who
      \<Longrightarrow> resolver_of eid (gv_store (fold serve xs g)) = Some who"
    unfolding ops by (rule gov_escalations.run_latch [OF _ run])
  moreover have "set (gs_spend (gv_store g)) \<subseteq> set (gs_spend (gv_store (fold serve xs g)))"
    unfolding ops using gov_spend_log.logged_stays by blast
  ultimately show ?thesis using ops by blast
qed


section \<open>The status counts everything and always answers\<close>

text \<open>
  Stored rows as the handlers write them, seen at a time \<open>now\<close>: amounts within the request bound, times not
  after \<open>now\<close>, at most 2^20 rows of each kind, rate limits with a positive maximum and a window the
  parser gives.
\<close>

definition stored_time :: "instant \<Rightarrow> string \<Rightarrow> bool" where
  "stored_time now ts = (case parse_iso ts of None \<Rightarrow> False | Some t \<Rightarrow> t \<le> now)"

definition spend_row_ok :: "instant \<Rightarrow> spend_event \<Rightarrow> bool" where
  "spend_row_ok now e = (valid_amount (se_cents e) \<and> valid_amount (se_tokens e) \<and> valid_amount (se_actions e)
     \<and> stored_time now (se_ts e))"

definition usage_row_ok :: "instant \<Rightarrow> usage_record \<Rightarrow> bool" where
  "usage_row_ok now r = (valid_amount (us_in r) \<and> valid_amount (us_out r) \<and> stored_time now (us_ts r)
     \<and> (case us_cost r of None \<Rightarrow> True | Some c \<Rightarrow> 0 \<le> c \<and> int64 c))"

definition rate_row_ok :: "rate_db_row \<Rightarrow> bool" where
  "rate_row_ok r = (1 \<le> rt_max r \<and> (case rt_seconds r of None \<Rightarrow> True
     | Some k \<Rightarrow> 1 \<le> k \<and> k \<le> MAX_RATE_PERIOD_SECONDS))"

definition policy_row_ok :: "usage_policy \<Rightarrow> bool" where
  "policy_row_ok p = (up_agent p \<noteq> [] \<and> 0 < up_window p
     \<and> (case up_rate_limit p of None \<Rightarrow> True | Some n \<Rightarrow> 0 < n))"

definition store_ok :: "instant \<Rightarrow> gov_store \<Rightarrow> bool" where
  "store_ok now s = (list_all (spend_row_ok now) (gs_spend s) \<and> list_all (usage_row_ok now) (gs_usage s)
     \<and> list_all rate_row_ok (gs_rates s) \<and> list_all policy_row_ok (gs_policies s)
     \<and> length (gs_spend s) \<le> 2 ^ 20 \<and> length (gs_usage s) \<le> 2 ^ 20)"

text \<open>The clock is more than the longest rate window after the first instant and more than the longest
  wait before the last one.\<close>

definition clock_ok :: "instant \<Rightarrow> bool" where
  "clock_ok now = (MAX_RATE_PERIOD_SECONDS * second \<le> now \<and> valid_instant (now + MAX_RETRY_PERIOD_SECONDS * second))"

lemma sum_column_amounts:
  assumes "\<And>x. x \<in> set xs \<Longrightarrow> 0 \<le> x \<and> int64 x" and "length xs \<le> 2 ^ 20"
  shows "sum_column xs = Some (sum_list xs)"
  by (rule sum_column_exact) (use assms in auto)


lemma valid_amount_int64: "valid_amount n \<Longrightarrow> 0 \<le> n \<and> int64 n"
  by (simp add: valid_amount_def int64_def MAX_AMOUNT_def)

lemma those_map_Some: "(\<And>x. x \<in> set xs \<Longrightarrow> f x = Some (g x)) \<Longrightarrow> those (map f xs) = Some (map g xs)"
  by (induction xs) auto

lemma spend_since_ok:
  assumes "store_ok now s"
  shows "e \<in> set (spend_since s agent since) \<Longrightarrow> spend_row_ok now e"
    and "length (filter P (spend_since s agent since)) \<le> 2 ^ 20"
proof -
  show "e \<in> set (spend_since s agent since) \<Longrightarrow> spend_row_ok now e"
    using assms by (auto simp: spend_since_def store_ok_def list_all_iff)
  have "length (filter P (spend_since s agent since)) \<le> length (gs_spend s)"
    unfolding spend_since_def by (meson length_filter_le order_trans)
  with assms show "length (filter P (spend_since s agent since)) \<le> 2 ^ 20" by (simp add: store_ok_def)
qed

lemma spend_column:
  assumes "store_ok now s" and "\<And>e. spend_row_ok now e \<Longrightarrow> valid_amount (f e)"
  shows "sum_column (map f (filter P (spend_since s agent since)))
    = Some (sum_list (map f (filter P (spend_since s agent since))))"
  by (rule sum_column_amounts)
    (use spend_since_ok [OF assms(1), of _ agent since] assms(2) valid_amount_int64 in auto)

lemma totals_since_exact:
  assumes "store_ok now s"
  shows "totals_since s agent since = Inr (sum_list (map se_cents (spend_since s agent since)),
    sum_list (map se_tokens (spend_since s agent since)), sum_list (map se_actions (spend_since s agent since)))"
  using spend_column [OF assms, of se_cents "\<lambda>_. True"] spend_column [OF assms, of se_tokens "\<lambda>_. True"]
    spend_column [OF assms, of se_actions "\<lambda>_. True"]
  by (simp add: totals_since_def Let_def sql_result_def spend_row_ok_def)

definition exact_groups :: "gov_store \<Rightarrow> string \<Rightarrow> string \<Rightarrow> action_group list" where
  "exact_groups s agent since = (let rows = spend_since s agent since in
     map (\<lambda>(a, src). (a, src, sum_list (map se_actions (filter (\<lambda>e. se_action e = a \<and> se_source e = src) rows))))
       (remdups (map (\<lambda>e. (se_action e, se_source e)) rows)))"

lemma action_counts_exact:
  assumes "store_ok now s"
  shows "action_counts_since s agent since = Inr (exact_groups s agent since)"
proof -
  have col: "sum_column (map se_actions (filter P (spend_since s agent since)))
      = Some (sum_list (map se_actions (filter P (spend_since s agent since))))" for P
    by (rule spend_column [OF assms]) (simp add: spend_row_ok_def)
  have "those (map (\<lambda>(a, src). map_option (\<lambda>n. (a, src, n))
          (sum_column (map se_actions (filter (\<lambda>e. se_action e = a \<and> se_source e = src) (spend_since s agent since)))))
        (remdups (map (\<lambda>e. (se_action e, se_source e)) (spend_since s agent since))))
      = Some (exact_groups s agent since)"
    unfolding exact_groups_def Let_def
    by (rule those_map_Some) (auto simp: col)
  then show ?thesis by (simp add: action_counts_since_def Let_def sql_result_def)
qed

definition exact_model :: "usage_record list \<Rightarrow> string \<Rightarrow> model_totals" where
  "exact_model rows m = (let rs = filter (\<lambda>r. us_model r = m) rows in
     \<lparr>mt_model = m, mt_in = sum_list (map us_in rs), mt_out = sum_list (map us_out rs),
      mt_cost = sum_list (List.map_filter us_cost rs), mt_priced = list_all us_priced rs\<rparr>)"

lemma usage_column:
  assumes "store_ok now s"
  shows "model_row (usage_since s agent since) m = Some (exact_model (usage_since s agent since) m)"
proof -
  define rs where "rs = filter (\<lambda>r. us_model r = m) (usage_since s agent since)"
  have ok: "usage_row_ok now r" if "r \<in> set rs" for r
    using that assms by (auto simp: rs_def usage_since_def store_ok_def list_all_iff)
  have "length rs \<le> length (gs_usage s)"
    unfolding rs_def usage_since_def by (meson length_filter_le order_trans)
  then have len: "length rs \<le> 2 ^ 20" using assms by (simp add: store_ok_def)
  have flen: "length (List.map_filter us_cost rs) \<le> length rs"
    by (simp add: List.map_filter_def)
  have cost: "0 \<le> c \<and> int64 c" if "r \<in> set rs" "us_cost r = Some c" for r c
    using ok [OF that(1)] that(2) by (simp add: usage_row_ok_def)
  have "sum_column (map us_in rs) = Some (sum_list (map us_in rs))"
    "sum_column (map us_out rs) = Some (sum_list (map us_out rs))"
    by (rule sum_column_amounts; use ok len valid_amount_int64 in \<open>auto simp: usage_row_ok_def\<close>)+
  moreover have "sum_column (List.map_filter us_cost rs) = Some (sum_list (List.map_filter us_cost rs))"
    by (rule sum_column_amounts) (use cost len flen in \<open>auto simp: set_map_filter\<close>)
  ultimately show ?thesis
    by (simp add: model_row_def exact_model_def rs_def [symmetric])
qed

definition exact_models :: "gov_store \<Rightarrow> string \<Rightarrow> string \<Rightarrow> model_totals list" where
  "exact_models s agent since = map (exact_model (usage_since s agent since))
     (sort (remdups (map us_model (usage_since s agent since))))"

lemma usage_totals_exact:
  assumes "store_ok now s"
  shows "usage_totals_since s agent since = Inr (sum_list (map mt_in (exact_models s agent since)),
    sum_list (map mt_out (exact_models s agent since)),
    sum_list (map mt_cost (filter mt_priced (exact_models s agent since))), exact_models s agent since)"
proof -
  have "those (map (model_row (usage_since s agent since)) (sort (remdups (map us_model (usage_since s agent since)))))
      = Some (exact_models s agent since)"
    unfolding exact_models_def by (rule those_map_Some) (rule usage_column [OF assms])
  then show ?thesis by (simp add: usage_totals_since_def Let_def sql_result_def)
qed

text \<open>Grouping by model adds up to the sum over the rows.\<close>

lemma sum_by_group:
  "sum_list (map f rows) = sum_list (map (\<lambda>k. sum_list (map f (filter (\<lambda>r. g r = k) rows))) (remdups (map g rows)))"
  for f :: "'a \<Rightarrow> int"
proof -
  have "sum_list (map f rows) = (\<Sum>k \<in> K. sum_list (map f (filter (\<lambda>r. g r = k) rows)))"
    if "finite K" "g ` set rows \<subseteq> K" for K
    using that(2)
  proof (induction rows)
    case (Cons r rows)
    then have "(\<Sum>k \<in> K. if g r = k then f r else 0) = f r" using that(1) by simp
    moreover have "sum_list (map f (filter (\<lambda>r. g r = k) (r # rows)))
        = (if g r = k then f r else 0) + sum_list (map f (filter (\<lambda>r. g r = k) rows))" for k
      by simp
    ultimately show ?case using Cons by (simp add: sum.distrib)
  qed simp
  from this [of "set (map g rows)"] show ?thesis unfolding sum_code by simp
qed

lemma sum_sorted: "sum_list (map f (sort xs)) = sum_list (map f xs)" for f :: "'a::linorder \<Rightarrow> int"
proof -
  have "mset (map f (sort xs)) = mset (map f xs)" by simp
  then show ?thesis by (metis sum_mset_sum_list)
qed

lemma exact_models_sums:
  "sum_list (map mt_in (exact_models s agent since)) = sum_list (map us_in (usage_since s agent since))"
  "sum_list (map mt_out (exact_models s agent since)) = sum_list (map us_out (usage_since s agent since))"
  using sum_by_group [of us_in "usage_since s agent since" us_model]
    sum_by_group [of us_out "usage_since s agent since" us_model]
  by (simp_all add: exact_models_def exact_model_def comp_def sum_sorted Let_def)


text \<open>The throttle arithmetic on stored rows never fails and quotes at least one second.\<close>

lemma window_retry_total:
  assumes "list_all (\<lambda>(ts, n). 0 \<le> n \<and> stored_time now ts) rows" and "1 \<le> limit" and "0 \<le> p" and "clock_ok now"
  shows "\<exists>r. window_retry_after rows limit p now = Inr r"
proof -
  have "those (map (\<lambda>(ts, n). map_option (\<lambda>t. (t, n)) (parse_iso ts)) rows)
      = Some (map (\<lambda>(ts, n). (the (parse_iso ts), n)) rows)"
    by (rule those_map_Some) (use assms(1) in \<open>auto simp: list_all_iff stored_time_def split: option.splits\<close>)
  then have parse: "parse_rows rows = Some (map (\<lambda>(ts, n). (the (parse_iso ts), n)) rows)"
    by (simp add: parse_rows_def)
  have valid: "valid_instant (t + min p MAX_RETRY_PERIOD_SECONDS * second)" if "valid_instant t" "t \<le> now" for t
  proof -
    have "min p MAX_RETRY_PERIOD_SECONDS * second \<le> MAX_RETRY_PERIOD_SECONDS * second"
      "0 \<le> min p MAX_RETRY_PERIOD_SECONDS * second"
      using assms(3) by (simp_all add: second_def MAX_RETRY_PERIOD_SECONDS_def)
    with that assms(4) show ?thesis by (simp add: valid_instant_def clock_ok_def)
  qed
  have time: "0 \<le> n \<and> valid_instant (the (parse_iso ts)) \<and> the (parse_iso ts) \<le> now" if "(ts, n) \<in> set rows" for ts n
  proof -
    have "0 \<le> n" "stored_time now ts" using assms(1) that by (auto simp: list_all_iff)
    then show ?thesis by (auto simp: stored_time_def dest: parse_iso_Some split: option.splits)
  qed
  have "list_all (\<lambda>r. 0 \<le> snd r \<and> valid_instant (fst r + min p MAX_RETRY_PERIOD_SECONDS * second))
      (map (\<lambda>(ts, n). (the (parse_iso ts), n)) rows)"
    using time by (auto simp: list_all_iff intro!: valid)
  then have "\<exists>c r. retry_after (map (\<lambda>(ts, n). (the (parse_iso ts), n)) rows) limit p now = Inr (c, r)"
    using retry_after_least [OF assms(2) refl, of p _ now] by blast
  then show ?thesis by (auto simp: window_retry_after_def parse)
qed

lemma window_action_rows_subset: "set (window_action_rows rows) \<subseteq> (\<lambda>(ts, src, n). (ts, n)) ` set rows"
  by (auto simp: window_action_rows_def Let_def intro!: image_mono)

lemma throttle_rate_total:
  assumes "store_ok now s" "clock_ok now" "rate_row_ok lm"
  shows "\<exists>r. throttle_rate s agent now action i found lm = Inr r"
proof (cases "if rt_action lm \<noteq> action then None else rt_seconds lm")
  case (Some secs)
  then have k: "1 \<le> secs" "secs \<le> MAX_RATE_PERIOD_SECONDS" and mx: "1 \<le> rt_max lm"
    using assms(3) by (auto simp: rate_row_ok_def split: if_splits)
  have le: "secs * second \<le> MAX_RATE_PERIOD_SECONDS * second" "0 \<le> secs * second"
    "0 \<le> MAX_RETRY_PERIOD_SECONDS * second"
    using k by (simp_all add: second_def MAX_RETRY_PERIOD_SECONDS_def)
  with assms(2) have v: "valid_instant (now - secs * second)"
    by (simp add: clock_ok_def valid_instant_def)
  define rows where "rows = window_action_rows (action_rows_after s agent action (iso_utc (now - secs * second)))"
  have "list_all (\<lambda>(ts, n). 0 \<le> n \<and> stored_time now ts) rows"
    using window_action_rows_subset [of "action_rows_after s agent action (iso_utc (now - secs * second))"] assms(1)
    unfolding rows_def
    by (fastforce simp: list_all_iff action_rows_after_def store_ok_def spend_row_ok_def valid_amount_def)
  with window_retry_total [of now rows "rt_max lm" secs] k mx assms(2)
  obtain c r where "window_retry_after rows (rt_max lm) secs now = Inr (c, r)" by fastforce
  with Some v show ?thesis
    by (cases r) (simp_all add: throttle_rate_def rows_def window_result_def)
qed (simp add: throttle_rate_def)

lemma throttle_rates_total:
  assumes "store_ok now s" "clock_ok now" "list_all rate_row_ok rs"
  shows "\<exists>r. loopE (throttle_rate s agent now action) i found rs = Inr r"
  using assms(3)
proof (induction rs arbitrary: i found)
  case (Cons x rs)
  then obtain r where "throttle_rate s agent now action i found x = Inr r"
    using throttle_rate_total [OF assms(1,2), of x] by fastforce
  with Cons show ?case by simp
qed simp

lemma policy_row_answers:
  assumes "store_ok now s"
  shows "\<exists>p. get_policy_row s agent = Inr p
    \<and> (\<forall>q n. p = Some q \<longrightarrow> up_rate_limit q = Some n \<longrightarrow> 1 \<le> n \<and> 0 < up_window q)"
proof (cases "row_get up_agent (gs_policies s) agent")
  case (Some r)
  then have r: "policy_row_ok r"
    using row_get_key [OF Some] assms by (simp add: store_ok_def list_all_iff)
  show ?thesis
  proof (cases "policy_fields_over_bound (up_rate_limit r) (up_window r) = []")
    case True
    then have "\<not> over_bound (up_rate_limit r)" "up_window r \<le> MAX_RATE_PERIOD_SECONDS"
      by (simp_all add: policy_fields_over_bound_def split: if_splits)
    then have "valid_policy r"
      using r by (auto simp: valid_policy_def policy_row_ok_def valid_limit_def over_bound_def split: option.splits)
    with True Some r show ?thesis by (auto simp: get_policy_row_def policy_row_ok_def)
  next
    case False
    with Some r show ?thesis by (auto simp: get_policy_row_def policy_row_ok_def MAX_AMOUNT_def)
  qed
qed (simp add: get_policy_row_def)

lemma throttle_tokens_total:
  assumes "store_ok now s" "clock_ok now"
  shows "\<exists>r. throttle_tokens s agent now found = Inr r"
proof -
  obtain p where p: "get_policy_row s agent = Inr p"
    and ok: "\<And>q n. p = Some q \<Longrightarrow> up_rate_limit q = Some n \<Longrightarrow> 1 \<le> n \<and> 0 < up_window q"
    using policy_row_answers [OF assms(1), of agent] by blast
  show ?thesis
  proof (cases "\<exists>q n. p = Some q \<and> up_rate_limit q = Some n")
    case True
    then obtain q n where q: "p = Some q" "up_rate_limit q = Some n" by blast
    define rows where "rows = token_rows_after s agent (iso_utc (rolling_window_start now (up_window q)))"
    have "list_all (\<lambda>(ts, n). 0 \<le> n \<and> stored_time now ts) rows"
      unfolding rows_def using assms(1)
      by (auto simp: list_all_iff token_rows_after_def store_ok_def usage_row_ok_def valid_amount_def)
    with window_retry_total [of now rows n "up_window q"] ok [OF q] assms(2)
    obtain c r where "window_retry_after rows n (up_window q) now = Inr (c, r)" by fastforce
    with p q show ?thesis
      by (cases r) (simp_all add: throttle_tokens_def rows_def store_error_def window_result_def)
  next
    case False
    with p show ?thesis by (cases p) (auto simp: throttle_tokens_def store_error_def split: option.split)
  qed
qed

lemma throttle_total:
  assumes "store_ok now s" "clock_ok now"
  shows "\<exists>r. throttle s agent now action = Inr r"
proof -
  have "list_all rate_row_ok (get_rate_limits_rows s agent)"
    using assms(1) by (auto simp: get_rate_limits_rows_def store_ok_def list_all_iff)
  then obtain found where found: "(case action of None \<Rightarrow> Inr [] | Some a \<Rightarrow>
      loopE (throttle_rate s agent now a) 1 [] (get_rate_limits_rows s agent)) = Inr found"
    using throttle_rates_total [OF assms, of "get_rate_limits_rows s agent" agent "the action" 1 "[]"]
    by (cases action) (auto simp del: One_nat_def)
  obtain r where "throttle_tokens s agent now found = Inr r"
    using throttle_tokens_total [OF assms] by blast
  with found show ?thesis by (simp add: throttle_def del: One_nat_def)
qed


lemma open_count: "length (open_escalations s (Some agent))
  = length (filter (\<lambda>e. esc_agent e = agent) (open_escs (gs_escs s)))"
  by (simp add: open_escalations_def open_escs_def conj_commute)

text \<open>For a capped agent whose rows the handlers wrote, the status always answers, and what it compares
  with the cap is everything recorded since the window began: the cents plus the floored priced token
  cost, the tokens of both tables, and each action once. It is BLOCK exactly when a limit is reached,
  THROTTLED exactly when it is not and some rate window is exhausted, and then it quotes the wait.\<close>

lemma status_answers_exactly:
  assumes "store_ok now s" and "clock_ok now" and "get_cap_row s agent = Inr (Some cap)"
  shows "\<exists>st cap_state detail found.
    status_full s agent now action = Inr (st, cap_state, detail)
    \<and> (let since = window_start (cap_period cap) now in
       st_cents st = sum_list (map se_cents (spend_since s agent since))
         + units_to_cents (sum_list (map mt_cost (filter mt_priced (exact_models s agent since))))
       \<and> st_tokens st = sum_list (map se_tokens (spend_since s agent since))
         + sum_list (map us_in (usage_since s agent since)) + sum_list (map us_out (usage_since s agent since))
       \<and> st_actions st = snd (snd (action_totals (exact_groups s agent since))))
    \<and> (cap_state, detail) = evaluate cap (st_cents st) (st_tokens st) (st_actions st)
         (length (filter (\<lambda>e. esc_agent e = agent) (open_escs (gs_escs s))))
    \<and> (cap_state \<noteq> SS_block \<longrightarrow> throttle s agent now action = Inr found)
    \<and> st_state st = (if cap_state = SS_block then SS_block else if found = None then cap_state else SS_throttled)
    \<and> st_retry_after st = (if cap_state = SS_block then None else map_option fst found)"
proof -
  define since where "since = window_start (cap_period cap) now"
  define cost where "cost = sum_list (map mt_cost (filter mt_priced (exact_models s agent since)))"
  define cents where "cents = sum_list (map se_cents (spend_since s agent since)) + units_to_cents cost"
  define tokens where "tokens = sum_list (map se_tokens (spend_since s agent since))
    + sum_list (map us_in (usage_since s agent since)) + sum_list (map us_out (usage_since s agent since))"
  obtain a_self a_metered actions where acts: "action_totals (exact_groups s agent since) = (a_self, a_metered, actions)"
    by (cases "action_totals (exact_groups s agent since)")
  obtain cap_state detail where ev: "evaluate cap cents tokens actions (length (open_escalations s (Some agent)))
      = (cap_state, detail)" by fastforce
  obtain found where found: "throttle s agent now action = Inr found"
    using throttle_total [OF assms(1,2)] by blast
  have cap: "require_cap s agent = Inr cap"
    by (simp add: require_cap_def assms(3) store_error_def)
  let ?f = "if cap_state = SS_block then None else found"
  have "\<exists>st. status_full s agent now action = Inr (st, cap_state, detail)
    \<and> st_cents st = cents \<and> st_tokens st = tokens \<and> st_actions st = actions
    \<and> st_state st = (case ?f of None \<Rightarrow> cap_state | Some _ \<Rightarrow> SS_throttled)
    \<and> st_retry_after st = map_option fst ?f"
    unfolding status_full_def cap bindE_simps Let_def since_def [symmetric]
      totals_since_exact [OF assms(1)] usage_totals_exact [OF assms(1)] action_counts_exact [OF assms(1)]
      store_error_def sum.case prod.case acts exact_models_sums cost_def [symmetric] cents_def [symmetric]
      add.assoc [symmetric] tokens_def [symmetric] ev found
    by simp
  then obtain st where st: "status_full s agent now action = Inr (st, cap_state, detail)"
    "st_cents st = cents" "st_tokens st = tokens" "st_actions st = actions"
    "st_state st = (case ?f of None \<Rightarrow> cap_state | Some _ \<Rightarrow> SS_throttled)"
    "st_retry_after st = map_option fst ?f" by blast
  show ?thesis
    by (rule exI [of _ st], rule exI [of _ cap_state], rule exI [of _ detail], rule exI [of _ found])
      (use st found acts ev in \<open>simp add: Let_def since_def [symmetric] cost_def [symmetric] cents_def tokens_def
        open_count [symmetric] split: option.split\<close>)
qed


section \<open>A reached limit stays reached\<close>

lemma gov_step_caps: "(\<And>c. x \<noteq> OpSetCap c) \<Longrightarrow> gs_caps (gov_step x s) = gs_caps s"
  by (cases x) (auto simp: record_row_def set_rate_limits_rows_def set_policy_row_def
      record_usage_row_def migrate_open_escalation_index_def keep_on_fault_def bindE_def
      add_escalation_if_none_open_def insert_escalation_def resolve_escalation_once_def Let_def
      split: sum.splits list.splits if_splits)

lemma by_ops_caps: "by_ops s t \<Longrightarrow> gs_caps t = gs_caps s"
proof -
  have "\<forall>c. OpSetCap c \<notin> set ops \<Longrightarrow> gs_caps (fold gov_step ops s) = gs_caps s" for ops
  proof (induction ops arbitrary: s)
    case (Cons x ops)
    then have "gs_caps (gov_step x s) = gs_caps s" by (intro gov_step_caps) auto
    with Cons show ?case by simp
  qed simp
  then show "by_ops s t \<Longrightarrow> gs_caps t = gs_caps s" by (auto simp: by_ops_def)
qed

definition sets_cap_of :: "string \<Rightarrow> gov_world \<times> gov_request \<Rightarrow> bool" where
  "sets_cap_of agent x = (case snd x of PutCap _ a _ \<Rightarrow> a = agent | _ \<Rightarrow> False)"

lemma serve_other_cap:
  assumes "\<not> sets_cap_of agent x"
  shows "get_cap_row (gv_store (serve x g)) agent = get_cap_row (gv_store g) agent"
proof -
  obtain w y where x: "x = (w, y)" by (cases x)
  show ?thesis
  proof (cases "\<exists>op a cap. y = PutCap op a cap")
    case True
    then obtain op a cap where y: "y = PutCap op a cap" by blast
    with assms x have "a \<noteq> agent" by (simp add: sets_cap_of_def)
    then show ?thesis
      using serve_put_cap [of w op a cap g] caps_table.lookup_put_other [of agent cap "gv_store g"]
      by (auto simp: x y get_cap_row_def)
  next
    case False
    then have "by_ops (gv_store g) (gv_store (serve x g))" unfolding x by (intro serve_by_ops) auto
    from by_ops_caps [OF this] show ?thesis by (simp add: get_cap_row_def)
  qed
qed

lemma serves_other_cap:
  "list_all (\<lambda>x. \<not> sets_cap_of agent x) xs
    \<Longrightarrow> get_cap_row (gv_store (fold serve xs g)) agent = get_cap_row (gv_store g) agent"
  by (induction xs arbitrary: g) (auto simp: serve_other_cap)

lemma spend_grows: "\<exists>new. gs_spend (gv_store (fold serve xs g)) = gs_spend (gv_store g) @ new"
  using serve_all_ops [of xs g] gov_spend_log.run_log by (metis (no_types))

lemma spent_cents_grow:
  assumes "gs_spend t = gs_spend s @ new" and "list_all (spend_row_ok now) (gs_spend t)"
  shows "sum_list (map se_cents (spend_since s agent since)) \<le> sum_list (map se_cents (spend_since t agent since))"
proof -
  have "0 \<le> sum_list (map se_cents (filter (\<lambda>e. se_agent e = agent \<and> since \<le> se_ts e) new))"
    by (rule sum_list_nonneg) (use assms in \<open>auto simp: list_all_iff spend_row_ok_def valid_amount_def\<close>)
  then show ?thesis by (simp add: spend_since_def assms(1))
qed

lemma block_when_cents_reached:
  assumes "store_ok now s" and "clock_ok now" and "get_cap_row s agent = Inr (Some cap)"
    and "limit_cents cap = Some l" and "l \<le> sum_list (map se_cents (spend_since s agent (window_start (cap_period cap) now)))"
  shows "\<exists>st detail. status_full s agent now action = Inr (st, SS_block, detail) \<and> st_state st = SS_block"
proof -
  let ?since = "window_start (cap_period cap) now"
  obtain a b c where acts: "action_totals (exact_groups s agent ?since) = (a, b, c)"
    by (cases "action_totals (exact_groups s agent ?since)")
  have cost: "0 \<le> units_to_cents (sum_list (map mt_cost (filter mt_priced (exact_models s agent ?since))))"
  proof -
    have "0 \<le> mt_cost m" if "m \<in> set (exact_models s agent ?since)" for m
    proof -
      obtain n where m: "m = exact_model (usage_since s agent ?since) n"
        using \<open>m \<in> set (exact_models s agent ?since)\<close> by (auto simp: exact_models_def)
      show ?thesis
        unfolding m exact_model_def Let_def model_totals.simps
      proof (rule sum_list_nonneg)
        fix x assume "x \<in> set (List.map_filter us_cost (filter (\<lambda>r. us_model r = n) (usage_since s agent ?since)))"
        then obtain r where "r \<in> set (gs_usage s)" "us_cost r = Some x"
          by (auto simp: set_map_filter usage_since_def)
        with assms(1) have "usage_row_ok now r" by (simp add: store_ok_def list_all_iff)
        with \<open>us_cost r = Some x\<close> show "0 \<le> x" by (simp add: usage_row_ok_def)
      qed
    qed
    then have "0 \<le> sum_list (map mt_cost (filter mt_priced (exact_models s agent ?since)))"
      by (intro sum_list_nonneg) auto
    then show ?thesis by (simp add: units_to_cents_def CENT_UNITS_def)
  qed
  have ev: "\<exists>d. evaluate cap (sum_list (map se_cents (spend_since s agent ?since))
      + units_to_cents (sum_list (map mt_cost (filter mt_priced (exact_models s agent ?since))))) t u n = (SS_block, d)" for t u n
    using assms(4,5) cost by (simp add: evaluate_def limit_reached_def)
  show ?thesis
    unfolding status_full_def require_cap_def assms(3) store_error_def sum.case option.case bindE_simps Let_def
      totals_since_exact [OF assms(1)] usage_totals_exact [OF assms(1)] action_counts_exact [OF assms(1)] prod.case acts
    using ev by (auto split: prod.split) (metis Pair_inject)+
qed

text \<open>Once an agent's recorded cents reach its limit, its status is BLOCK for the rest of the window,
  whatever requests are served meanwhile by any number of callers, unless an operator sets its cap.\<close>

lemma reached_cap_stays_blocked:
  assumes "get_cap_row (gv_store g) agent = Inr (Some cap)" and "limit_cents cap = Some l"
    and "l \<le> sum_list (map se_cents (spend_since (gv_store g) agent (window_start (cap_period cap) now)))"
    and "list_all (\<lambda>x. \<not> sets_cap_of agent x) xs"
    and "window_start (cap_period cap) later = window_start (cap_period cap) now"
    and "store_ok later (gv_store (fold serve xs g))" and "clock_ok later"
  shows "\<exists>st detail. status_full (gv_store (fold serve xs g)) agent later action = Inr (st, SS_block, detail)
    \<and> st_state st = SS_block"
proof (rule block_when_cents_reached [OF assms(6,7)])
  show "get_cap_row (gv_store (fold serve xs g)) agent = Inr (Some cap)"
    using serves_other_cap [OF assms(4)] assms(1) by simp
  obtain new where "gs_spend (gv_store (fold serve xs g)) = gs_spend (gv_store g) @ new"
    using spend_grows by blast
  moreover have "list_all (spend_row_ok later) (gs_spend (gv_store (fold serve xs g)))"
    using assms(6) by (simp add: store_ok_def)
  ultimately have "sum_list (map se_cents (spend_since (gv_store g) agent since))
      \<le> sum_list (map se_cents (spend_since (gv_store (fold serve xs g)) agent since))" for since
    by (rule spent_cents_grow)
  with assms(3,5) show "l \<le> sum_list (map se_cents (spend_since (gv_store (fold serve xs g)) agent (window_start (cap_period cap) later)))"
    by (metis order_trans)
qed (rule assms(2))


section \<open>A service at work\<close>

definition demo_cap :: cap_config where
  "demo_cap = \<lparr>cap_agent = ''canary'', cap_currency = ''USD'', limit_cents = Some 1000, token_limit = None,
     action_limit = None, cap_period = ''total'', escalate_at_pct = 80, cap_on_breach = ''halt''\<rparr>"

definition spent_row :: spend_event where
  "spent_row = \<lparr>se_id = ''e0'', se_agent = ''canary'', se_ts = iso_utc epoch, se_cents = 1000, se_tokens = 0,
     se_actions = 0, se_note = None, se_action = None, se_source = ''self''\<rparr>"

definition demo_store :: gov_store where
  "demo_store = empty_store\<lparr>gs_caps := [demo_cap], gs_spend := [spent_row]\<rparr>"

definition demo_governor :: governor where
  "demo_governor = \<lparr>gv_store = demo_store, gv_ledger = Some [], gv_dropped = 0, gv_book = DEFAULT_BOOK\<rparr>"

definition demo_now :: instant where "demo_now = epoch + day_us"

definition demo_world :: "ledger_reply \<Rightarrow> gov_world" where
  "demo_world reply = \<lparr>gw_now = demo_now, gw_ids = (\<lambda>n. ''id'' @ dec_nat n), gw_replies = (\<lambda>_. reply)\<rparr>"

definition demo_policy_put :: gov_request where
  "demo_policy_put = PutPolicy (Inr NO_AUTH) ''canary''
     \<lparr>up_agent = ''canary'', up_models = [], up_rate_limit = Some 500, up_window = 3600\<rparr>"

lemma demo_cap_row: "get_cap_row demo_store ''canary'' = Inr (Some demo_cap)"
  by (simp add: get_cap_row_def demo_store_def empty_store_def demo_cap_def row_get_def clamp_limit_def over_bound_def
      valid_cap_def valid_limit_def MAX_AMOUNT_def SUPPORTED_CAP_PERIODS_def)

lemma demo_clock: "clock_ok demo_now"
  by (simp add: clock_ok_def demo_now_def epoch_def MAX_RATE_PERIOD_SECONDS_def MAX_RETRY_PERIOD_SECONDS_def
      valid_instant_def day_us_def second_def)

lemma spent_row_ok: "spend_row_ok demo_now spent_row"
proof -
  have "valid_instant epoch" by (simp add: valid_instant_def epoch_def day_us_def second_def)
  then show ?thesis
    by (simp add: spend_row_ok_def spent_row_def valid_amount_def MAX_AMOUNT_def stored_time_def parse_iso_utc
        demo_now_def day_us_def second_def)
qed

lemma demo_store_ok: "store_ok demo_now demo_store"
  using spent_row_ok by (simp add: store_ok_def demo_store_def empty_store_def)

lemma demo_after_policy:
  "gv_store (fold serve [(demo_world LR_created, demo_policy_put)] demo_governor)
    = demo_store\<lparr>gs_policies := [\<lparr>up_agent = ''canary'', up_models = [], up_rate_limit = Some 500, up_window = 3600\<rparr>]\<rparr>"
  by (simp add: demo_policy_put_def put_policy_def demo_governor_def demo_store_def empty_store_def valid_policy_def
      valid_limit_def MAX_AMOUNT_def MAX_RATE_PERIOD_SECONDS_def set_policy_row_def row_put_def Let_def)

lemma audit_outage_keeps_metering_witness:
  "\<exists>q u. snd (record_spend (demo_world LR_created) q demo_governor)
      = snd (record_spend (demo_world (LR_lost False)) q (demo_governor\<lparr>gv_ledger := None\<rparr>))
    \<and> snd (record_usage (demo_world LR_created) u demo_governor)
      = snd (record_usage (demo_world (LR_lost False)) u (demo_governor\<lparr>gv_ledger := None\<rparr>))
    \<and> valid_spend_request q \<and> valid_usage_request u"
proof -
  define q where "q = \<lparr>sq_agent = ''canary'', sq_cents = 5, sq_tokens = 0, sq_actions = 0, sq_note = None, sq_action = None,
    sq_source = ''self'', sq_shadowed = False\<rparr>"
  define u where "u = \<lparr>uq_agent = ''canary'', uq_model = ''opus'', uq_in = 5, uq_out = 6, uq_cache = 0, uq_note = None\<rparr>"
  have "same_meter demo_governor (demo_governor\<lparr>gv_ledger := None\<rparr>)"
    "same_clock (demo_world LR_created) (demo_world (LR_lost False))"
    by (simp_all add: same_meter_def same_clock_def demo_world_def)
  from audit_outage_keeps_metering [OF this, of q u]
  have "snd (record_spend (demo_world LR_created) q demo_governor)
      = snd (record_spend (demo_world (LR_lost False)) q (demo_governor\<lparr>gv_ledger := None\<rparr>))"
    "snd (record_usage (demo_world LR_created) u demo_governor)
      = snd (record_usage (demo_world (LR_lost False)) u (demo_governor\<lparr>gv_ledger := None\<rparr>))" by simp_all
  moreover have "valid_spend_request q" "valid_usage_request u"
    by (simp_all add: valid_spend_request_def valid_usage_request_def q_def u_def valid_amount_def MAX_AMOUNT_def)
  ultimately show ?thesis by blast
qed

lemma service_refines_store_witness:
  "open_unique (gs_escs (gv_store (fold serve [(demo_world LR_created, demo_policy_put)] demo_governor)))
   \<and> spent_row \<in> set (gs_spend (gv_store (fold serve [(demo_world LR_created, demo_policy_put)] demo_governor)))"
proof -
  have "escs_inv (gv_store demo_governor)"
    by (simp add: demo_governor_def demo_store_def empty_store_def escs_inv_def unique_keys_def open_unique_def open_escs_def)
  moreover have "spent_row \<in> set (gs_spend (gv_store demo_governor))"
    by (simp add: demo_governor_def demo_store_def)
  ultimately show ?thesis
    using service_refines_store [of "[(demo_world LR_created, demo_policy_put)]" demo_governor] by blast
qed

lemma status_answers_exactly_witness:
  "\<exists>st detail. status_full demo_store ''canary'' demo_now None = Inr (st, SS_block, detail) \<and> st_cents st = 1000"
proof -
  obtain st cap_state detail where st: "status_full demo_store ''canary'' demo_now None = Inr (st, cap_state, detail)"
    and cents: "st_cents st = sum_list (map se_cents (spend_since demo_store ''canary'' (window_start ''total'' demo_now)))
      + units_to_cents (sum_list (map mt_cost (filter mt_priced (exact_models demo_store ''canary'' (window_start ''total'' demo_now)))))"
    and ev: "(cap_state, detail) = evaluate demo_cap (st_cents st) (st_tokens st) (st_actions st)
      (length (filter (\<lambda>e. esc_agent e = ''canary'') (open_escs (gs_escs demo_store))))"
    using status_answers_exactly [OF demo_store_ok demo_clock demo_cap_row, of None]
    by (auto simp: Let_def demo_cap_def)
  have "st_cents st = 1000"
    unfolding cents window_start_total
    by (simp add: spend_since_def exact_models_def usage_since_def demo_store_def empty_store_def spent_row_def
        units_to_cents_def)
  moreover from this ev have "cap_state = SS_block"
    by (simp add: evaluate_def demo_cap_def limit_reached_def)
  ultimately show ?thesis using st by blast
qed

lemma reached_cap_stays_blocked_witness:
  "\<exists>st detail. status_full (gv_store (fold serve [(demo_world LR_created, demo_policy_put)] demo_governor))
      ''canary'' demo_now None = Inr (st, SS_block, detail) \<and> st_state st = SS_block"
proof (rule reached_cap_stays_blocked)
  show "get_cap_row (gv_store demo_governor) ''canary'' = Inr (Some demo_cap)"
    using demo_cap_row by (simp add: demo_governor_def)
  show "limit_cents demo_cap = Some 1000" by (simp add: demo_cap_def)
  show "1000 \<le> sum_list (map se_cents (spend_since (gv_store demo_governor) ''canary''
      (window_start (cap_period demo_cap) demo_now)))"
    by (simp add: demo_governor_def demo_cap_def window_start_total spend_since_def demo_store_def spent_row_def)
  show "list_all (\<lambda>x. \<not> sets_cap_of ''canary'' x) [(demo_world LR_created, demo_policy_put)]"
    by (simp add: sets_cap_of_def demo_policy_put_def)
  show "store_ok demo_now (gv_store (fold serve [(demo_world LR_created, demo_policy_put)] demo_governor))"
    unfolding demo_after_policy using demo_store_ok by (simp add: store_ok_def demo_store_def policy_row_ok_def)
qed (rule refl demo_clock)+


section \<open>Two behaviours worth knowing\<close>

text \<open>
  The cost of a model counts only while every row of the model in the window is priced: one row recorded
  unpriced, e.g. under an earlier price book, takes the recorded cost of all the others out of the
  total the cap is compared with.
\<close>

definition priced_row :: usage_record where
  "priced_row = \<lparr>us_id = ''u0'', us_agent = ''canary'', us_ts = ''t1'', us_model = ''m'', us_in = 10, us_out = 10,
     us_cache = 0, us_cost = Some 50000000, us_priced = True, us_note = None\<rparr>"

definition unpriced_row :: usage_record where
  "unpriced_row = priced_row\<lparr>us_id := ''u1'', us_cost := None, us_priced := False\<rparr>"

lemma unpriced_row_hides_cost:
  "\<exists>ms ms'. usage_totals_since (empty_store\<lparr>gs_usage := [priced_row]\<rparr>) ''canary'' ''t0'' = Inr (10, 10, 50000000, ms)
    \<and> usage_totals_since (empty_store\<lparr>gs_usage := [unpriced_row, priced_row]\<rparr>) ''canary'' ''t0'' = Inr (20, 20, 0, ms')"
proof -
  have sums: "sum_column [10] = Some 10" "sum_column [50000000] = Some 50000000" "sum_column [10, 10] = Some 20"
    by code_simp+
  show ?thesis
    by (simp add: usage_totals_since_def usage_since_def priced_row_def unpriced_row_def empty_store_def model_row_def
        List.map_filter_def sums sql_result_def)
qed

text \<open>
  While metered rows of an action are in its window the self-reported ones are not counted, so when
  the metered ones leave, older self-reports start to count: a caller that waits exactly as long as it
  was told can still be throttled, with nothing recorded in between.
\<close>

lemma wait_can_fall_short:
  "let rows = [(''a'', ''sentinel'', 2), (''b'', ''self'', 3)]
   in window_action_rows rows = [(''a'', 2)]
    \<and> window_action_rows (filter (\<lambda>(ts, _). ts \<noteq> ''a'') rows) = [(''b'', 3)]
    \<and> retry_after [(0, 2)] 2 10 (5 * second) = Inr (2, Some 5)
    \<and> retry_after [(4 * second, 3)] 2 10 (10 * second) = Inr (3, Some 4)"
  by (simp add: window_action_rows_def retry_after_def MAX_RETRY_PERIOD_SECONDS_def ceil_seconds_def second_def
      valid_instant_def day_us_def)

end
