(* ===== verification/Csv_Roster.thy ===== *)
theory Csv_Roster
  imports Field_Prelude "HOL-Library.AList"
begin

text \<open>
  The CSV reader of Python's \<open>csv\<close> module in its default dialect, character by character, \<open>DictReader\<close> on top
  of it, and the roster of humans that \<open>services/lifecycle-manager/src/lifecycle_manager/engine.py\<close> reads from
  \<open>owners.csv\<close>. A text is read as \<open>io.StringIO\<close> gives it: lines end at LF only. Characters are Latin-1.
\<close>

section \<open>The reader\<close>

datatype csv_state = StartRecord | StartField | InField | InQuoted | QuoteInQuoted | EatCrnl
datatype csv_error = NewlineInUnquoted | FieldTooLong

record csv_parser =
  cp_state :: csv_state
  cp_field :: string
  cp_fields :: "string list"

definition FIELD_LIMIT :: nat where "FIELD_LIMIT = 131072"

definition fresh_parser :: csv_parser where
  "fresh_parser = \<lparr>cp_state = StartRecord, cp_field = [], cp_fields = []\<rparr>"

definition save_field :: "csv_state \<Rightarrow> csv_parser \<Rightarrow> csv_parser" where
  "save_field st p = \<lparr>cp_state = st, cp_field = [], cp_fields = cp_fields p @ [cp_field p]\<rparr>"

definition add_char :: "csv_state \<Rightarrow> char \<Rightarrow> csv_parser \<Rightarrow> csv_error + csv_parser" where
  "add_char st c p = (if FIELD_LIMIT \<le> length (cp_field p) then Inl FieldTooLong
     else Inr (p\<lparr>cp_state := st, cp_field := cp_field p @ [c]\<rparr>))"

abbreviation LF :: char where "LF \<equiv> CHR 0x0A"
abbreviation CR :: char where "CR \<equiv> CHR 0x0D"
abbreviation DQ :: char where "DQ \<equiv> CHR 0x22"

definition csv_start_field :: "bool \<Rightarrow> char \<Rightarrow> csv_parser \<Rightarrow> csv_error + csv_parser" where
  "csv_start_field skip c p =
     (if c = LF \<or> c = CR then Inr (save_field EatCrnl p)
      else if c = DQ then Inr (p\<lparr>cp_state := InQuoted\<rparr>)
      else if c = CHR '' '' \<and> skip then Inr (p\<lparr>cp_state := StartField\<rparr>)
      else if c = CHR '','' then Inr (save_field StartField p)
      else add_char InField c p)"

definition csv_char :: "bool \<Rightarrow> char \<Rightarrow> csv_parser \<Rightarrow> csv_error + csv_parser" where
  "csv_char skip c p = (case cp_state p of
     StartRecord \<Rightarrow> if c = LF \<or> c = CR then Inr (p\<lparr>cp_state := EatCrnl\<rparr>) else csv_start_field skip c p
   | StartField \<Rightarrow> csv_start_field skip c p
   | InField \<Rightarrow> if c = LF \<or> c = CR then Inr (save_field EatCrnl p)
       else if c = CHR '','' then Inr (save_field StartField p) else add_char InField c p
   | InQuoted \<Rightarrow> if c = DQ then Inr (p\<lparr>cp_state := QuoteInQuoted\<rparr>) else add_char InQuoted c p
   | QuoteInQuoted \<Rightarrow> if c = DQ then add_char InQuoted DQ p
       else if c = CHR '','' then Inr (save_field StartField p)
       else if c = LF \<or> c = CR then Inr (save_field EatCrnl p)
       else add_char InField c p
   | EatCrnl \<Rightarrow> if c = LF \<or> c = CR then Inr p else Inl NewlineInUnquoted)"

text \<open>The end of a line, after its characters.\<close>

definition csv_eol :: "csv_parser \<Rightarrow> csv_parser" where
  "csv_eol p = (case cp_state p of
     StartRecord \<Rightarrow> p
   | StartField \<Rightarrow> save_field StartRecord p
   | InField \<Rightarrow> save_field StartRecord p
   | InQuoted \<Rightarrow> p
   | QuoteInQuoted \<Rightarrow> save_field StartRecord p
   | EatCrnl \<Rightarrow> p\<lparr>cp_state := StartRecord\<rparr>)"

text \<open>The rows with the number of the line each ends on, and the error that stopped the reading.\<close>

type_synonym csv_rows = "(string list \<times> nat) list \<times> csv_error option"

definition add_row :: "string list \<times> nat \<Rightarrow> csv_rows \<Rightarrow> csv_rows" where
  "add_row r x = (r # fst x, snd x)"

fun csv_read :: "bool \<Rightarrow> nat \<Rightarrow> bool \<Rightarrow> csv_parser \<Rightarrow> string \<Rightarrow> csv_rows" where
  "csv_read skip n begun p [] =
     (let q = (if begun then csv_eol p else p); m = (if begun then n + 1 else n) in
      if begun \<and> cp_state q = StartRecord then ([(cp_fields q, m)], None)
      else if cp_field q \<noteq> [] \<or> cp_state q = InQuoted then ([(cp_fields q @ [cp_field q], m)], None)
      else ([], None))"
| "csv_read skip n begun p (c # s) =
     (case csv_char skip c p of
        Inl e \<Rightarrow> ([], Some e)
      | Inr p' \<Rightarrow>
        if c = LF then
          let q = csv_eol p' in
          if cp_state q = StartRecord then add_row (cp_fields q, n + 1) (csv_read skip (n + 1) False fresh_parser s)
          else csv_read skip (n + 1) False q s
        else csv_read skip n True p' s)"

definition csv_reader :: "bool \<Rightarrow> string \<Rightarrow> csv_rows" where
  "csv_reader skip text = csv_read skip 0 False fresh_parser text"

section \<open>The roster\<close>

record roster_entry =
  ro_owner :: string
  ro_aliases :: "string list"

datatype owners_error = CsvError csv_error | MoreFields nat | SpacedComma nat

definition match_strings :: "roster_entry \<Rightarrow> string list" where
  "match_strings e = py_lower (ro_owner e) # map py_lower (ro_aliases e)"

definition blank_out :: "string \<Rightarrow> string" where
  "blank_out s = map (\<lambda>c. if py_isspace c \<and> c \<noteq> CR \<and> c \<noteq> LF then CHR '' '' else c) s"

definition spaced_row :: "string list \<Rightarrow> string list \<Rightarrow> bool" where
  "spaced_row row skipped = list_ex (\<lambda>(a, b). a \<noteq> b \<and> py_strip a \<noteq> []) (zip row skipped)"

text \<open>The two readers in step; the first row is the header.\<close>

fun spaced_lines :: "bool \<Rightarrow> csv_rows \<Rightarrow> csv_rows \<Rightarrow> csv_error + nat list" where
  "spaced_lines header ([], Some e) ys = Inl e"
| "spaced_lines header ([], None) ys = Inr []"
| "spaced_lines header (x # xs, ex) ([], Some e) = Inl e"
| "spaced_lines header (x # xs, ex) ([], None) = Inr []"
| "spaced_lines header ((row, line) # xs, ex) ((skipped, _) # ys, ey) =
     bindE (spaced_lines False (xs, ex) (ys, ey)) (\<lambda>ls.
       Inr (if \<not> header \<and> spaced_row row skipped then line # ls else ls))"

definition lines_with_a_space :: "string \<Rightarrow> csv_error + nat list" where
  "lines_with_a_space text = (let b = blank_out text in spaced_lines True (csv_reader False b) (csv_reader True b))"

text \<open>\<open>dict(zip(fieldnames, row))\<close>, with None for the missing ones; a later duplicate keeps the first place.\<close>

definition dict_of :: "('k \<times> 'v) list \<Rightarrow> ('k \<times> 'v) list" where
  "dict_of kvs = fold (\<lambda>(k, v). AList.update k v) kvs []"

definition dict_row :: "string list \<Rightarrow> string list \<Rightarrow> (string \<times> string option) list" where
  "dict_row names row = fold (\<lambda>k. AList.update k None) (drop (length row) names)
     (dict_of (zip names (map Some row)))"

definition clean_row :: "(string \<times> string option) list \<Rightarrow> (string \<times> string) list" where
  "clean_row d = dict_of (map (\<lambda>(k, v). (py_lower (py_strip k), py_strip (case v of None \<Rightarrow> [] | Some s \<Rightarrow> s))) d)"

fun split_at :: "char \<Rightarrow> string \<Rightarrow> string \<Rightarrow> string list" where
  "split_at d acc [] = [acc]"
| "split_at d acc (c # s) = (if c = d then acc # split_at d [] s else split_at d (acc @ [c]) s)"

definition aliases_of :: "string \<Rightarrow> string list" where
  "aliases_of s = filter (\<lambda>a. a \<noteq> []) (map py_strip (split_at (CHR '';'') [] s))"

definition or_empty :: "string option \<Rightarrow> string" where
  "or_empty x = (case x of None \<Rightarrow> [] | Some s \<Rightarrow> s)"

definition row_owner :: "(string \<times> string) list \<Rightarrow> string" where
  "row_owner d = (let own = or_empty (map_of d ''owner'') in if own = [] then or_empty (map_of d ''name'') else own)"

definition entry_of :: "string list \<Rightarrow> string list \<Rightarrow> roster_entry option" where
  "entry_of names row =
     (let d = clean_row (dict_row names row); owner = row_owner d in
      if owner = [] then None
      else Some \<lparr>ro_owner = owner, ro_aliases = aliases_of (or_empty (map_of d ''aliases''))\<rparr>)"

text \<open>The loop over the data rows; a blank line is skipped.\<close>

fun read_entries :: "string list \<Rightarrow> csv_rows \<Rightarrow> owners_error + roster_entry list" where
  "read_entries names ([], Some e) = Inl (CsvError e)"
| "read_entries names ([], None) = Inr []"
| "read_entries names ((row, line) # rows, e) =
     (if row = [] then read_entries names (rows, e)
      else if length names < length row then Inl (MoreFields line)
      else bindE (read_entries names (rows, e)) (\<lambda>es.
        Inr (case entry_of names row of None \<Rightarrow> es | Some x \<Rightarrow> x # es)))"

definition csv_entries :: "csv_rows \<Rightarrow> owners_error + roster_entry list" where
  "csv_entries r = (case r of
     ([], Some e) \<Rightarrow> Inl (CsvError e) | ([], None) \<Rightarrow> Inr []
   | ((names, _) # rows, e) \<Rightarrow> read_entries names (rows, e))"

definition parse_roster_entries :: "string \<Rightarrow> owners_error + roster_entry list" where
  "parse_roster_entries text =
     (case lines_with_a_space text of Inl e \<Rightarrow> Inl (CsvError e)
      | Inr spaced \<Rightarrow> bindE (csv_entries (csv_reader False text)) (\<lambda>es.
          if spaced \<noteq> [] then Inl (SpacedComma (Min (set spaced))) else Inr es))"

definition parse_roster :: "string \<Rightarrow> owners_error + string list" where
  "parse_roster text = bindE (parse_roster_entries text) (\<lambda>es. Inr (concat (map match_strings es)))"


section \<open>A quoted roster reads back\<close>

text \<open>How a roster is written with every value in quotes, as the refusals advise.\<close>

definition quote_value :: "string \<Rightarrow> string" where
  "quote_value v = DQ # concat (map (\<lambda>c. if c = DQ then [DQ, DQ] else [c]) v) @ [DQ]"

fun join_with :: "char \<Rightarrow> string list \<Rightarrow> string" where
  "join_with d [] = []"
| "join_with d [x] = x"
| "join_with d (x # xs) = x @ d # join_with d xs"

definition roster_line :: "roster_entry \<Rightarrow> string" where
  "roster_line e = quote_value (ro_owner e) @ '','' @ quote_value (join_with (CHR '';'') (ro_aliases e)) @ [LF]"

definition print_roster :: "roster_entry list \<Rightarrow> string" where
  "print_roster es = ''owner,aliases'' @ [LF] @ concat (map roster_line es)"

definition printable_entry :: "roster_entry \<Rightarrow> bool" where
  "printable_entry e = (ro_owner e \<noteq> [] \<and> py_strip (ro_owner e) = ro_owner e \<and> length (ro_owner e) \<le> FIELD_LIMIT
     \<and> (\<forall>a \<in> set (ro_aliases e). a \<noteq> [] \<and> py_strip a = a \<and> CHR '';'' \<notin> set a)
     \<and> length (join_with (CHR '';'') (ro_aliases e)) \<le> FIELD_LIMIT)"

lemma read_quoted:
  assumes "length acc + length v \<le> FIELD_LIMIT"
  shows "\<exists>m. csv_read skip n b \<lparr>cp_state = InQuoted, cp_field = acc, cp_fields = fs\<rparr>
      (concat (map (\<lambda>c. if c = DQ then [DQ, DQ] else [c]) v) @ DQ # s)
    = csv_read skip m True \<lparr>cp_state = QuoteInQuoted, cp_field = acc @ v, cp_fields = fs\<rparr> s"
  using assms
proof (induction v arbitrary: acc n b)
  case Nil
  then show ?case by (auto simp: csv_char_def)
next
  case (Cons c v)
  have len: "length acc < FIELD_LIMIT" "length (acc @ [c]) + length v \<le> FIELD_LIMIT" using Cons.prems by auto
  show ?case
  proof (cases "c = DQ")
    case True
    then show ?thesis using Cons.IH [of "acc @ [c]" n True] len by (auto simp: csv_char_def add_char_def)
  next
    case False
    then show ?thesis
      using Cons.IH [of "acc @ [c]" "n + 1" False] Cons.IH [of "acc @ [c]" n True] len
      by (auto simp: csv_char_def add_char_def csv_eol_def Let_def)
  qed
qed

lemma read_quote_value:
  assumes "cp_state p \<in> {StartRecord, StartField}" "cp_field p = []" "length v \<le> FIELD_LIMIT"
  shows "\<exists>m. csv_read skip n b p (quote_value v @ s)
    = csv_read skip m True \<lparr>cp_state = QuoteInQuoted, cp_field = v, cp_fields = cp_fields p\<rparr> s"
proof -
  have "csv_char skip DQ p = Inr \<lparr>cp_state = InQuoted, cp_field = [], cp_fields = cp_fields p\<rparr>"
    using assms(1,2) by (cases p) (auto simp: csv_char_def csv_start_field_def)
  then show ?thesis
    using read_quoted [of "[]" v skip n True "cp_fields p" s] assms(3) by (simp add: quote_value_def)
qed

lemma read_quoted_row:
  assumes "length u \<le> FIELD_LIMIT" "length v \<le> FIELD_LIMIT"
  shows "\<exists>m. csv_read skip n False fresh_parser (quote_value u @ '','' @ quote_value v @ LF # s)
    = add_row ([u, v], m) (csv_read skip m False fresh_parser s)"
proof -
  from read_quote_value [of fresh_parser u skip n False "'','' @ quote_value v @ LF # s"] assms(1)
  obtain m1 where 1: "csv_read skip n False fresh_parser (quote_value u @ '','' @ quote_value v @ LF # s)
      = csv_read skip m1 True \<lparr>cp_state = QuoteInQuoted, cp_field = u, cp_fields = []\<rparr> ('','' @ quote_value v @ LF # s)"
    by (auto simp: fresh_parser_def)
  have 2: "csv_read skip m1 True \<lparr>cp_state = QuoteInQuoted, cp_field = u, cp_fields = []\<rparr> ('','' @ quote_value v @ LF # s)
      = csv_read skip m1 True \<lparr>cp_state = StartField, cp_field = [], cp_fields = [u]\<rparr> (quote_value v @ LF # s)"
    by (simp add: csv_char_def save_field_def)
  from read_quote_value [of "\<lparr>cp_state = StartField, cp_field = [], cp_fields = [u]\<rparr>" v skip m1 True "LF # s"] assms(2)
  obtain m2 where 3: "csv_read skip m1 True \<lparr>cp_state = StartField, cp_field = [], cp_fields = [u]\<rparr> (quote_value v @ LF # s)
      = csv_read skip m2 True \<lparr>cp_state = QuoteInQuoted, cp_field = v, cp_fields = [u]\<rparr> (LF # s)" by auto
  have 4: "csv_read skip m2 True \<lparr>cp_state = QuoteInQuoted, cp_field = v, cp_fields = [u]\<rparr> (LF # s)
      = add_row ([u, v], m2 + 1) (csv_read skip (m2 + 1) False fresh_parser s)"
    by (simp add: csv_char_def save_field_def csv_eol_def)
  from 1 2 3 4 show ?thesis by metis
qed

lemma read_quoted_rows:
  assumes "\<forall>(u, v) \<in> set rows. length u \<le> FIELD_LIMIT \<and> length v \<le> FIELD_LIMIT"
  shows "\<exists>ms. length ms = length rows \<and> csv_read skip n False fresh_parser
      (concat (map (\<lambda>(u, v). quote_value u @ '','' @ quote_value v @ [LF]) rows))
    = (map (\<lambda>((u, v), m). ([u, v], m)) (zip rows ms), None)"
  using assms
proof (induction rows arbitrary: n)
  case Nil
  then show ?case by (simp add: fresh_parser_def)
next
  case (Cons r rows)
  obtain u v where r: "r = (u, v)" by fastforce
  let ?s = "concat (map (\<lambda>(u, v). quote_value u @ '','' @ quote_value v @ [LF]) rows)"
  from read_quoted_row [of u v skip n ?s] Cons.prems r
  obtain m where m: "csv_read skip n False fresh_parser (quote_value u @ '','' @ quote_value v @ LF # ?s)
      = add_row ([u, v], m) (csv_read skip m False fresh_parser ?s)" by auto
  from Cons.IH [of m] Cons.prems obtain ms where "length ms = length rows"
    "csv_read skip m False fresh_parser ?s = (map (\<lambda>((u, v), m). ([u, v], m)) (zip rows ms), None)" by auto
  with m r show ?case by (intro exI [of _ "m # ms"]) (simp add: add_row_def)
qed

lemma read_header: "\<exists>m. csv_read skip 0 False fresh_parser (''owner,aliases'' @ LF # s)
    = add_row ([''owner'', ''aliases''], m) (csv_read skip m False fresh_parser s)"
  by (rule exI [of _ 1]) (simp add: csv_char_def csv_start_field_def add_char_def save_field_def csv_eol_def fresh_parser_def
      FIELD_LIMIT_def Let_def)

definition roster_rows :: "roster_entry list \<Rightarrow> (string \<times> string) list" where
  "roster_rows es = map (\<lambda>e. (ro_owner e, join_with (CHR '';'') (ro_aliases e))) es"

lemma print_roster_rows:
  "print_roster es = ''owner,aliases'' @ LF # concat (map (\<lambda>(u, v). quote_value u @ '','' @ quote_value v @ [LF]) (roster_rows es))"
  by (simp add: print_roster_def roster_rows_def roster_line_def [abs_def] comp_def)

lemma reader_of_rows:
  assumes "\<forall>(u, v) \<in> set rows. length u \<le> FIELD_LIMIT \<and> length v \<le> FIELD_LIMIT"
  obtains m ms where "length ms = length rows"
    "csv_reader skip (''owner,aliases'' @ LF # concat (map (\<lambda>(u, v). quote_value u @ '','' @ quote_value v @ [LF]) rows))
      = (([''owner'', ''aliases''], m) # map (\<lambda>((u, v), m). ([u, v], m)) (zip rows ms), None)"
proof -
  let ?s = "concat (map (\<lambda>(u, v). quote_value u @ '','' @ quote_value v @ [LF]) rows)"
  from read_header [of skip ?s] obtain m where m: "csv_read skip 0 False fresh_parser (''owner,aliases'' @ LF # ?s)
    = add_row ([''owner'', ''aliases''], m) (csv_read skip m False fresh_parser ?s)" by blast
  from read_quoted_rows [OF assms, of skip m] m that show thesis
    unfolding csv_reader_def by (auto simp: add_row_def)
qed

lemma blank_quote: "blank_out (quote_value v) = quote_value (blank_out v)"
proof -
  have "blank_out [DQ] = [DQ]" "blank_out [DQ, DQ] = [DQ, DQ]" by (simp_all add: blank_out_def py_isspace_def)
  moreover have "(if py_isspace c \<and> c \<noteq> CR \<and> c \<noteq> LF then CHR '' '' else c) = DQ \<longleftrightarrow> c = DQ" for c
    by (auto simp: py_isspace_def)
  ultimately show ?thesis
    by (induction v) (auto simp: quote_value_def blank_out_def split: if_splits)
qed


lemma length_blank [simp]: "length (blank_out v) = length v"
  by (simp add: blank_out_def)

lemma blank_append [simp]: "blank_out (a @ b) = blank_out a @ blank_out b"
  by (simp add: blank_out_def)

lemma blank_printed:
  "blank_out (''owner,aliases'' @ LF # concat (map (\<lambda>(u, v). quote_value u @ '','' @ quote_value v @ [LF]) rows))
    = ''owner,aliases'' @ LF # concat (map (\<lambda>(u, v). quote_value u @ '','' @ quote_value v @ [LF])
        (map (\<lambda>(u, v). (blank_out u, blank_out v)) rows))"
proof -
  have lf: "blank_out [LF] = [LF]" "blank_out '','' = '',''" by (simp_all add: blank_out_def py_isspace_def)
  have rows: "blank_out (concat (map (\<lambda>(u, v). quote_value u @ '','' @ quote_value v @ [LF]) rows))
      = concat (map (\<lambda>(u, v). quote_value u @ '','' @ quote_value v @ [LF]) (map (\<lambda>(u, v). (blank_out u, blank_out v)) rows))"
    using lf by (induction rows) (auto simp: blank_quote [symmetric], simp_all add: blank_out_def)
  have "blank_out ''owner,aliases'' = ''owner,aliases''" by (simp add: blank_out_def py_isspace_def)
  moreover have "blank_out (LF # x) = LF # blank_out x" for x by (simp add: blank_out_def)
  ultimately show ?thesis by (simp only: blank_append rows)
qed

lemma spaced_same:
  "map fst xs = map fst ys \<Longrightarrow> spaced_lines h (xs, None) (ys, None) = Inr []"
proof (induction xs arbitrary: ys h)
  case (Cons x xs)
  then obtain y ys' where ys: "ys = y # ys'" "fst x = fst y" "map fst xs = map fst ys'" by (cases ys) auto
  have "\<not> spaced_row (fst x) (fst y)" using ys(2) by (auto simp: spaced_row_def list_ex_iff set_zip)
  with ys Cons.IH [of ys' False] show ?case by (cases x; cases y) simp
qed simp

lemma join_edges:
  assumes "xs \<noteq> []" "\<forall>a \<in> set xs. a \<noteq> []"
  shows "join_with d xs \<noteq> [] \<and> hd (join_with d xs) = hd (hd xs) \<and> last (join_with d xs) = last (last xs)"
  using assms by (induction d xs rule: join_with.induct) auto

lemma split_plain: "d \<notin> set a \<Longrightarrow> split_at d acc (a @ d # s) = (acc @ a) # split_at d [] s"
  by (induction a arbitrary: acc) auto

lemma split_last: "d \<notin> set a \<Longrightarrow> split_at d acc a = [acc @ a]"
  by (induction a arbitrary: acc) auto

lemma split_join: "xs \<noteq> [] \<Longrightarrow> \<forall>a \<in> set xs. d \<notin> set a \<Longrightarrow> split_at d [] (join_with d xs) = xs"
  by (induction d xs rule: join_with.induct) (auto simp: split_plain split_last)

lemma aliases_of_join:
  assumes "\<forall>a \<in> set xs. a \<noteq> [] \<and> py_strip a = a \<and> CHR '';'' \<notin> set a"
  shows "aliases_of (join_with (CHR '';'') xs) = xs"
proof (cases "xs = []")
  case False
  have "map py_strip xs = xs" using assms by (intro map_idI) auto
  moreover have "filter (\<lambda>a. a \<noteq> []) xs = xs" using assms by (intro filter_True) auto
  ultimately show ?thesis using assms split_join [OF False, of "CHR '';''"] by (simp add: aliases_of_def)
qed (simp add: aliases_of_def py_strip_def)

lemma strip_join:
  assumes "\<forall>a \<in> set xs. a \<noteq> [] \<and> py_strip a = a"
  shows "py_strip (join_with d xs) = join_with d xs"
proof (cases "xs = []")
  case False
  with assms have "\<forall>a \<in> set xs. a \<noteq> []" by blast
  from join_edges [OF False this, of d] py_strip_ends [of "hd xs"] py_strip_ends [of "last xs"] assms False
  show ?thesis by (intro py_strip_id) auto
qed (simp add: py_strip_def)

lemma entry_of_printed:
  assumes "printable_entry e"
  shows "entry_of [''owner'', ''aliases''] [ro_owner e, join_with (CHR '';'') (ro_aliases e)] = Some e"
proof -
  have keys: "py_lower (py_strip ''owner'') = ''owner''" "py_lower (py_strip ''aliases'') = ''aliases''" by code_simp+
  have "clean_row (dict_row [''owner'', ''aliases''] [ro_owner e, join_with (CHR '';'') (ro_aliases e)])
      = [(''owner'', ro_owner e), (''aliases'', join_with (CHR '';'') (ro_aliases e))]"
    using assms strip_join [of "ro_aliases e"]
    by (simp add: clean_row_def dict_row_def dict_of_def keys printable_entry_def)
  then show ?thesis
    using assms aliases_of_join [of "ro_aliases e"]
    by (simp add: entry_of_def Let_def row_owner_def or_empty_def printable_entry_def)
qed

lemma read_printed:
  assumes "list_all printable_entry es" and "length ms = length es"
  shows "read_entries [''owner'', ''aliases''] (map (\<lambda>((u, v), m). ([u, v], m)) (zip (roster_rows es) ms), None) = Inr es"
  using assms
proof (induction es arbitrary: ms)
  case (Cons e es)
  then obtain m ms' where ms: "ms = m # ms'" "length ms' = length es" by (cases ms) auto
  with Cons show ?case by (simp add: roster_rows_def entry_of_printed)
qed (simp add: roster_rows_def)

lemma roster_roundtrip_raw:
  assumes "list_all printable_entry es"
  shows "parse_roster_entries (print_roster es) = Inr es"
proof -
  let ?rows = "roster_rows es" and ?blank = "map (\<lambda>(u, v). (blank_out u, blank_out v)) (roster_rows es)"
  have lim: "\<forall>(u, v) \<in> set ?rows. length u \<le> FIELD_LIMIT \<and> length v \<le> FIELD_LIMIT"
    using assms by (auto simp: roster_rows_def list_all_iff printable_entry_def)
  then have limb: "\<forall>(u, v) \<in> set ?blank. length u \<le> FIELD_LIMIT \<and> length v \<le> FIELD_LIMIT" by auto
  from reader_of_rows [OF limb, of False] obtain m1 ms1 where r1: "length ms1 = length ?blank"
    "csv_reader False (blank_out (print_roster es))
      = (([''owner'', ''aliases''], m1) # map (\<lambda>((u, v), m). ([u, v], m)) (zip ?blank ms1), None)"
    unfolding print_roster_rows blank_printed by metis
  from reader_of_rows [OF limb, of True] obtain m2 ms2 where r2: "length ms2 = length ?blank"
    "csv_reader True (blank_out (print_roster es))
      = (([''owner'', ''aliases''], m2) # map (\<lambda>((u, v), m). ([u, v], m)) (zip ?blank ms2), None)"
    unfolding print_roster_rows blank_printed by metis
  have fsts: "map fst (map (\<lambda>((u, v), m). ([u, v], m)) (zip xs ms)) = map (\<lambda>(u, v). [u, v]) xs"
    if "length ms = length xs" for xs :: "(string \<times> string) list" and ms :: "nat list"
    using that by (induction xs ms rule: list_induct2') auto
  have "lines_with_a_space (print_roster es) = Inr []"
    unfolding lines_with_a_space_def Let_def r1(2) r2(2)
    by (rule spaced_same) (simp only: list.map fsts [OF r1(1)] fsts [OF r2(1)] fst_conv)
  moreover from reader_of_rows [OF lim, of False] obtain m ms where "length ms = length ?rows"
    "csv_reader False (print_roster es)
      = (([''owner'', ''aliases''], m) # map (\<lambda>((u, v), m). ([u, v], m)) (zip ?rows ms), None)"
    unfolding print_roster_rows by metis
  ultimately show ?thesis
    using read_printed [OF assms, of ms] by (simp add: parse_roster_entries_def csv_entries_def roster_rows_def)
qed


text \<open>C17: A roster written with every value in quotes reads back as the same humans with the same aliases,
  whatever commas, quotes and line breaks their names hold.\<close>

theorem roster_roundtrip:
  assumes "list_all printable_entry es"
  shows "parse_roster_entries (print_roster es) = Inr es"
  by (rule roster_roundtrip_raw [OF assms])

definition sample_roster :: "roster_entry list" where
  "sample_roster = [\<lparr>ro_owner = ''Don Hagell, Spin State Labs'', ro_aliases = [''don'', ''Don \"H\" Hagell'']\<rparr>]"

lemma sample_roster_printable: "list_all printable_entry sample_roster"
  by (simp add: sample_roster_def printable_entry_def py_strip_def py_isspace_def FIELD_LIMIT_def)

theorem roster_roundtrip_witness: "parse_roster_entries (print_roster sample_roster) = Inr sample_roster"
  by (rule roster_roundtrip [OF sample_roster_printable])

end
