(* ===== verification/Lifecycle.thy ===== *)
theory Lifecycle
  imports Csv_Roster Spend_Core Delegation_Authority "HOL-Library.Sublist"
begin

text \<open>
  \<open>services/lifecycle-manager/src/lifecycle_manager/engine.py\<close>: the sweep, provisioning and decommissioning;
  and \<open>services/spend-governor/src/spend_governor/provisioning.py\<close>, the loader of a manifest's rate limits that
  provisioning uses. What the other services answer is an argument, and each transition returns the
  calls it made, in order. The wording of details and reasons is not modelled.
\<close>

section \<open>The witness watch\<close>

definition WITNESS_STALE_FACTOR :: int where "WITNESS_STALE_FACTOR = 3"
definition MAX_WITNESS_EVERY_SECONDS :: nat where "MAX_WITNESS_EVERY_SECONDS = 10 ^ 9"
definition WITNESS_EVENT_TYPE :: string where "WITNESS_EVENT_TYPE = ''anchor.remote''"

record witness_watch =
  ww_every :: "nat option"
  ww_estate :: string

definition or_blank :: "string option \<Rightarrow> string" where
  "or_blank x = py_strip (case x of None \<Rightarrow> [] | Some s \<Rightarrow> s)"

definition witness_every :: "string \<Rightarrow> nat option" where
  "witness_every raw =
     (let digits = dropWhile (\<lambda>c. c = CHR ''0'') raw in
      if list_all is_digit raw \<and> length digits \<le> 10 \<and> 0 < dec_val digits
        \<and> dec_val digits \<le> MAX_WITNESS_EVERY_SECONDS
      then Some (dec_val digits) else None)"

definition witness_watch_from_env :: "string option \<Rightarrow> string option \<Rightarrow> witness_watch option" where
  "witness_watch_from_env every estate =
     (let raw = or_blank every in
      if raw = [] then None
      else Some \<lparr>ww_every = witness_every raw,
        ww_estate = (let e = or_blank estate in if e = [] then ''fly'' else e)\<rparr>)"

text \<open>\<open>_parse_ts\<close>: the texts the services print, with \<open>Z\<close> or \<open>+00:00\<close>.\<close>

definition zulu :: "string \<Rightarrow> string" where
  "zulu s = concat (map (\<lambda>c. if c = CHR ''Z'' then ''+00:00'' else [c]) s)"

definition parse_ts :: "string \<Rightarrow> instant option" where
  "parse_ts s = parse_iso (zulu s)"

datatype witness_status = WStale | WNone | WUnavailable | WMisconfigured

record anchor_event =
  ae_type :: string
  ae_estate :: "string option"
  ae_ts :: string

text \<open>What \<open>events(event_type=...)\<close> answers: no reader, an exception, not a list, or the events.\<close>

datatype events_reply = NoReader | ReaderFailed | NotAList | Events "anchor_event list"

record witness_finding =
  wf_status :: witness_status
  wf_age :: "int option"
  wf_seen :: nat

definition witness_finding :: "witness_watch option \<Rightarrow> events_reply \<Rightarrow> instant \<Rightarrow> witness_finding option" where
  "witness_finding watch reply now =
     (case watch of None \<Rightarrow> None
      | Some w \<Rightarrow>
        (case ww_every w of None \<Rightarrow> Some \<lparr>wf_status = WMisconfigured, wf_age = None, wf_seen = 0\<rparr>
         | Some every \<Rightarrow>
           (case reply of
              Events es \<Rightarrow>
                let matching = filter (\<lambda>e. ae_type e = WITNESS_EVENT_TYPE \<and> ae_estate e = Some (ww_estate w)) es in
                if matching = [] then Some \<lparr>wf_status = WNone, wf_age = None, wf_seen = 0\<rparr>
                else (case parse_ts (ae_ts (last matching)) of
                    None \<Rightarrow> Some \<lparr>wf_status = WUnavailable, wf_age = None, wf_seen = length matching\<rparr>
                  | Some t \<Rightarrow>
                    let d = now - t; age = (if 0 \<le> d then d div second else - ((- d) div second)) in
                    if WITNESS_STALE_FACTOR * int every < age
                    then Some \<lparr>wf_status = WStale, wf_age = Some age, wf_seen = length matching\<rparr> else None)
            | _ \<Rightarrow> Some \<lparr>wf_status = WUnavailable, wf_age = None, wf_seen = 0\<rparr>)))"

section \<open>Retention\<close>

datatype retention_status = RViolation | RNoEstatePolicy | RUnresolvable | RUnavailable

text \<open>The answer of \<open>retention_check\<close>: not configured, an exception or not a dict, or \<open>ok\<close> and \<open>status\<close>.\<close>

datatype retention_reply = NoRetention | RetentionFailed | RetentionAnswer "bool option" "string option" bool

definition RETENTION_FINDING_STATUSES :: "(string \<times> retention_status) list" where
  "RETENTION_FINDING_STATUSES = [(''violation'', RViolation), (''no_estate_policy'', RNoEstatePolicy),
     (''unresolvable'', RUnresolvable), (''unavailable'', RUnavailable)]"

text \<open>The last component of an answer says whether its lists and numbers read as such.\<close>

definition retention_finding :: "retention_reply \<Rightarrow> retention_status option" where
  "retention_finding r = (case r of NoRetention \<Rightarrow> None | RetentionFailed \<Rightarrow> Some RUnavailable
     | RetentionAnswer ok st readable \<Rightarrow>
       if ok = Some True \<and> st = Some ''ok'' then None
       else case st of None \<Rightarrow> Some RUnavailable
         | Some s \<Rightarrow> (case map_of RETENTION_FINDING_STATUSES s of None \<Rightarrow> Some RUnavailable
             | Some f \<Rightarrow> Some (if readable then f else RUnavailable)))"

section \<open>The sweep\<close>

record sweep_config =
  expiry_horizon_days :: int
  reattestation_days :: int
  auto_kill_orphans :: bool
  sweep_operator :: string

definition valid_sweep_config :: "sweep_config \<Rightarrow> bool" where
  "valid_sweep_config c = (1 \<le> expiry_horizon_days c \<and> 1 \<le> reattestation_days c)"

text \<open>The dictionaries of the registry and of the delegation authority, with the keys those always send.\<close>

record sweep_agent =
  sa_id :: string
  sa_owner :: string
  sa_status :: string
  sa_created :: string
  sa_attested_at :: "string option"
  sa_attested_by :: "string option"

record sweep_token =
  st_id :: string
  st_agent :: string
  st_granted_by :: string
  st_scope :: "string list"
  st_expires :: string
  st_revoked :: bool

datatype sweep_event =
    ExpiringEvent string string int string
  | ReattestEvent string string int string "string option"
  | OrphanEvent string string bool

record expiring_authority =
  ex_token :: string
  ex_agent :: string
  ex_granted_by :: string
  ex_days_left :: int
  ex_scope :: "string list"

record reattestation_due =
  rd_agent :: string
  rd_owner :: string
  rd_measured :: string
  rd_days :: int
  rd_basis :: string
  rd_attested_by :: "string option"

record orphan =
  or_agent :: string
  or_owner :: string
  or_status :: string
  or_killed :: bool

datatype sweep_error = OwnersRefused owners_error | NoOwners | BadTime | OutOfRange | KillCallFailed

record sweep_world =
  sw_agents :: "sweep_agent list"
  sw_tokens :: "sweep_token list"
  sw_ledger :: "(nat \<Rightarrow> ledger_reply) option"
  sw_kill :: "(string \<Rightarrow> nat option) option"
  sw_retention :: retention_reply
  sw_watch :: "witness_watch option"
  sw_events :: events_reply

record sweep_run =
  sr_ledger :: "sweep_event list"
  sr_appends :: nat
  sr_kills :: "string list"
  sr_written :: nat

definition new_run :: sweep_run where
  "new_run = \<lparr>sr_ledger = [], sr_appends = 0, sr_kills = [], sr_written = 0\<rparr>"

definition sweep_note :: "sweep_world \<Rightarrow> sweep_event \<Rightarrow> sweep_run \<Rightarrow> sweep_run" where
  "sweep_note w e r = (case sw_ledger w of None \<Rightarrow> r
     | Some reply \<Rightarrow> (case ledger_append (reply (sr_appends r)) e (sr_ledger r) of
         (l, Inr _) \<Rightarrow> r\<lparr>sr_ledger := l, sr_appends := sr_appends r + 1, sr_written := sr_written r + 1\<rparr>
       | (l, Inl _) \<Rightarrow> r\<lparr>sr_ledger := l, sr_appends := sr_appends r + 1\<rparr>))"

text \<open>A pass: findings in order, with the state so far even where it stops.\<close>

fun sweep_pass :: "('x \<Rightarrow> sweep_run \<Rightarrow> sweep_run \<times> (sweep_error + 'f option)) \<Rightarrow> 'x list \<Rightarrow> sweep_run
    \<Rightarrow> sweep_run \<times> (sweep_error + 'f list)" where
  "sweep_pass f [] r = (r, Inr [])"
| "sweep_pass f (x # xs) r = (case f x r of (r1, Inl e) \<Rightarrow> (r1, Inl e)
     | (r1, Inr found) \<Rightarrow> (case sweep_pass f xs r1 of (r2, Inl e) \<Rightarrow> (r2, Inl e)
         | (r2, Inr fs) \<Rightarrow> (r2, Inr (case found of None \<Rightarrow> fs | Some x \<Rightarrow> x # fs))))"

definition days_of :: "int \<Rightarrow> int" where
  "days_of d = d div day_us"

definition expiring_step :: "sweep_world \<Rightarrow> instant \<Rightarrow> instant \<Rightarrow> sweep_token \<Rightarrow> sweep_run
    \<Rightarrow> sweep_run \<times> (sweep_error + expiring_authority option)" where
  "expiring_step w now horizon t r =
     (if st_revoked t then (r, Inr None)
      else case parse_ts (st_expires t) of None \<Rightarrow> (r, Inl BadTime)
      | Some ex \<Rightarrow>
        if now \<le> ex \<and> ex \<le> horizon
        then (sweep_note w (ExpiringEvent (st_id t) (st_agent t) (days_of (ex - now)) (st_granted_by t)) r,
              Inr (Some \<lparr>ex_token = st_id t, ex_agent = st_agent t, ex_granted_by = st_granted_by t,
                ex_days_left = days_of (ex - now), ex_scope = st_scope t\<rparr>))
        else (r, Inr None))"

text \<open>\<open>attested_at\<close>, else \<open>created_at\<close>: an empty attestation is none.\<close>

definition attested_basis :: "sweep_agent \<Rightarrow> string \<times> string" where
  "attested_basis a = (case sa_attested_at a of None \<Rightarrow> (''created_at'', sa_created a)
     | Some s \<Rightarrow> if s = [] then (''created_at'', sa_created a) else (''attested_at'', s))"

definition reattest_step :: "sweep_world \<Rightarrow> instant \<Rightarrow> instant \<Rightarrow> sweep_agent \<Rightarrow> sweep_run
    \<Rightarrow> sweep_run \<times> (sweep_error + reattestation_due option)" where
  "reattest_step w now stale_before a r =
     (if sa_status a \<noteq> ''active'' then (r, Inr None)
      else case attested_basis a of (basis, raw) \<Rightarrow>
        (case parse_ts raw of None \<Rightarrow> (r, Inl BadTime)
         | Some since \<Rightarrow>
           if since < stale_before
           then (sweep_note w (ReattestEvent (sa_id a) (sa_owner a) (days_of (now - since)) basis (sa_attested_by a)) r,
                 Inr (Some \<lparr>rd_agent = sa_id a, rd_owner = sa_owner a, rd_measured = raw, rd_days = days_of (now - since),
                   rd_basis = basis, rd_attested_by = sa_attested_by a\<rparr>))
           else (r, Inr None)))"

definition on_roster :: "string list \<Rightarrow> sweep_agent \<Rightarrow> bool" where
  "on_roster roster a = (py_lower (sa_owner a) \<in> set roster)"

definition orphan_step :: "sweep_config \<Rightarrow> sweep_world \<Rightarrow> string list \<Rightarrow> sweep_agent \<Rightarrow> sweep_run
    \<Rightarrow> sweep_run \<times> (sweep_error + orphan option)" where
  "orphan_step cfg w roster a r =
     (if sa_status a = ''retired'' \<or> on_roster roster a then (r, Inr None)
      else
        let r1 = sweep_note w (OrphanEvent (sa_id a) (sa_owner a) (auto_kill_orphans cfg)) r;
            found = (\<lambda>killed. Some \<lparr>or_agent = sa_id a, or_owner = sa_owner a, or_status = sa_status a, or_killed = killed\<rparr>)
        in case sw_kill w of
             Some kill \<Rightarrow>
               if auto_kill_orphans cfg \<and> sa_status a = ''active'' then
                 let r2 = r1\<lparr>sr_kills := sr_kills r1 @ [sa_id a]\<rparr> in
                 (case kill (sa_id a) of None \<Rightarrow> (r2, Inl KillCallFailed) | Some st \<Rightarrow> (r2, Inr (found (st = 200))))
               else (r1, Inr (found False))
           | None \<Rightarrow> (r1, Inr (found False)))"

record sweep_report =
  rp_agents :: nat
  rp_tokens :: nat
  rp_roster_size :: nat
  rp_expiring :: "expiring_authority list"
  rp_reattest :: "reattestation_due list"
  rp_orphans :: "orphan list"
  rp_escalations :: nat
  rp_retention :: "retention_status option"
  rp_witness :: "witness_finding option"

definition roster_strings :: "roster_entry list \<Rightarrow> string list" where
  "roster_strings es = concat (map match_strings es)"

definition sweep :: "sweep_config \<Rightarrow> sweep_world \<Rightarrow> string \<Rightarrow> instant \<Rightarrow> sweep_run \<times> (sweep_error + sweep_report)" where
  "sweep cfg w csv now =
     (case parse_roster_entries csv of Inl e \<Rightarrow> (new_run, Inl (OwnersRefused e))
      | Inr entries \<Rightarrow>
        if entries = [] then (new_run, Inl NoOwners)
        else
          let horizon = now + expiry_horizon_days cfg * day_us; stale_before = now - reattestation_days cfg * day_us in
          if \<not> valid_instant horizon then (new_run, Inl OutOfRange)
          else (case sweep_pass (expiring_step w now horizon) (sw_tokens w) new_run of
             (r1, Inl e) \<Rightarrow> (r1, Inl e)
           | (r1, Inr expiring) \<Rightarrow>
             if \<not> valid_instant stale_before then (r1, Inl OutOfRange)
             else (case sweep_pass (reattest_step w now stale_before) (sw_agents w) r1 of
               (r2, Inl e) \<Rightarrow> (r2, Inl e)
             | (r2, Inr reattest) \<Rightarrow>
               (case sweep_pass (orphan_step cfg w (roster_strings entries)) (sw_agents w) r2 of
                 (r3, Inl e) \<Rightarrow> (r3, Inl e)
               | (r3, Inr orphans) \<Rightarrow>
                 (r3, Inr \<lparr>rp_agents = length (sw_agents w), rp_tokens = length (sw_tokens w),
                   rp_roster_size = card ((\<lambda>e. py_lower (ro_owner e)) ` set entries),
                   rp_expiring = expiring, rp_reattest = reattest, rp_orphans = orphans, rp_escalations = sr_written r3,
                   rp_retention = retention_finding (sw_retention w),
                   rp_witness = witness_finding (sw_watch w) (sw_events w) now\<rparr>)))))"


section \<open>Loading rate limits\<close>

text \<open>A call that raised, or an answer: its status, and the rows of its body where they read as rows.\<close>

datatype rates_reply = RatesRaised | RatesAnswer nat "string option list option"

datatype rate_outcome = RateLoaded nat nat | RateUnchanged | RateFailed

record rate_load =
  rl_outcome :: rate_outcome
  rl_status :: "nat option"

datatype rates_call = GetRates | PutRates rate_limit_set

datatype rates_refusal = NoSpendCapForRates | RatesRefused rate_error

definition rate_limits_from_manifest :: "field_manifest \<Rightarrow> string \<Rightarrow> rates_refusal + rate_limit_set" where
  "rate_limits_from_manifest m agent =
     (if rate_limits (mf_enforcement m) \<notin> {None, Some []} \<and> en_spend_cap (mf_enforcement m) = None
      then Inl NoSpendCapForRates
      else case rates_from_manifest m agent of Inl e \<Rightarrow> Inl (RatesRefused e) | Inr s \<Rightarrow> Inr s)"

definition put_rates :: "rates_reply \<Rightarrow> rate_load option" where
  "put_rates put = (case put of RatesRaised \<Rightarrow> None
     | RatesAnswer st rows \<Rightarrow>
       if st \<noteq> 200 then Some \<lparr>rl_outcome = RateFailed, rl_status = Some st\<rparr>
       else case rows of None \<Rightarrow> Some \<lparr>rl_outcome = RateFailed, rl_status = Some st\<rparr>
       | Some rs \<Rightarrow> Some \<lparr>rl_outcome = RateLoaded (length (filter (\<lambda>s. s = Some ''enforced'') rs))
             (length (filter (\<lambda>s. s = Some ''declared_unenforced'') rs)), rl_status = Some st\<rparr>)"

definition load_rate_limits :: "rates_reply \<Rightarrow> rates_reply \<Rightarrow> rate_limit_set \<Rightarrow> rates_call list \<times> rate_load option" where
  "load_rate_limits get put limits =
     (if rs_limits limits \<noteq> [] then ([PutRates limits], put_rates put)
      else case get of RatesRaised \<Rightarrow> ([GetRates], None)
      | RatesAnswer st rows \<Rightarrow>
        if st \<noteq> 200 then ([GetRates], Some \<lparr>rl_outcome = RateUnchanged, rl_status = Some st\<rparr>)
        else case rows of None \<Rightarrow> ([GetRates], Some \<lparr>rl_outcome = RateFailed, rl_status = Some st\<rparr>)
        | Some held \<Rightarrow>
          if held = [] then ([GetRates], Some \<lparr>rl_outcome = RateUnchanged, rl_status = Some st\<rparr>)
          else ([GetRates, PutRates limits], put_rates put))"

section \<open>Provisioning\<close>

datatype step_outcome = StepOk | StepFailed | StepSkipped

record transition_step =
  ts_step :: string
  ts_outcome :: step_outcome
  ts_http :: "nat option"

definition step_of :: "string \<Rightarrow> step_outcome \<Rightarrow> nat option \<Rightarrow> transition_step" where
  "step_of s out st = \<lparr>ts_step = s, ts_outcome = out, ts_http = st\<rparr>"

datatype registry_outcome = ROregistered | ROupdated | ROunchanged | ROedit_refused

datatype lifecycle_call =
    PostAgent string string string string string
  | GetAgent string
  | PatchAgent string string string
  | PutCap cap_config
  | RatesCall rates_call
  | MintToken string string "string list" int
  | RevokeToken string
  | KillAgent string
  | RetireAgent string

datatype lifecycle_error =
    ManifestInvalid | RateLimitsRefused rates_refusal | ManifestExpiry | ProvisionOverflow
  | NotRegisteredHere | RegistryDownHere | TokensNotAList

record stored_agent =
  sg_status :: "string option"
  sg_owner :: "string option"
  sg_manifest :: "string option"

record provision_world =
  pv_manifest :: "field_manifest option"
  pv_now :: instant
  pv_post :: "nat option"
  pv_get :: "(nat \<times> stored_agent option) option"
  pv_patch :: "nat option"
  pv_cap :: "nat option"
  pv_rates_get :: rates_reply
  pv_rates_put :: rates_reply
  pv_mint :: "(nat \<times> string option) option"

record provision_request =
  pq_path :: string
  pq_owner :: string
  pq_domain :: string
  pq_grantor :: string
  pq_ttl_days :: int
  pq_name :: "string option"
  pq_ref :: "string option"

record provision_report =
  pr_agent :: string
  pr_ref :: string
  pr_registry :: "registry_outcome option"
  pr_cap :: "cap_config option"
  pr_token :: "string option"
  pr_steps :: "transition_step list"
  pr_ok :: bool

definition py_or_text :: "string option \<Rightarrow> string \<Rightarrow> string" where
  "py_or_text x d = (case x of None \<Rightarrow> d | Some s \<Rightarrow> if s = [] then d else s)"

text \<open>The gate before any side effect: an invalid manifest, refused rate limits, an expiry the mint would refuse.\<close>

definition provision_gate :: "provision_world \<Rightarrow> provision_request
    \<Rightarrow> lifecycle_error + field_manifest \<times> rate_limit_set" where
  "provision_gate w q =
     (case pv_manifest w of None \<Rightarrow> Inl ManifestInvalid
      | Some m \<Rightarrow>
        (case rate_limits_from_manifest m (ag_name (mf_agent_section m)) of Inl e \<Rightarrow> Inl (RateLimitsRefused e)
         | Inr limits \<Rightarrow>
           (case parse_expiry (md_expiry (mf_delegation_section m)) of None \<Rightarrow> Inl ManifestExpiry
            | Some ex \<Rightarrow>
              if ex \<le> pv_now w then Inl ManifestExpiry
              else if \<not> valid_instant (pv_now w + pq_ttl_days q * day_us) then Inl ProvisionOverflow
              else if ex < pv_now w + pq_ttl_days q * day_us then Inl ManifestExpiry
              else Inr (m, limits))))"

definition failed_step :: "string \<Rightarrow> nat option \<Rightarrow> provision_report \<Rightarrow> provision_report" where
  "failed_step s st r = r\<lparr>pr_steps := pr_steps r @ [step_of s StepFailed st]\<rparr>"

definition ok_step :: "string \<Rightarrow> nat option \<Rightarrow> provision_report \<Rightarrow> provision_report" where
  "ok_step s st r = r\<lparr>pr_steps := pr_steps r @ [step_of s StepOk st]\<rparr>"

text \<open>A step: the calls it makes, and the report, \<open>Inl\<close> when the run stops there.\<close>

type_synonym provisioning = "lifecycle_call list \<times> (provision_report + provision_report)"

definition then_step :: "provisioning \<Rightarrow> (provision_report \<Rightarrow> provisioning) \<Rightarrow> provisioning" where
  "then_step x f = (case x of (cs, Inl r) \<Rightarrow> (cs, Inl r) | (cs, Inr r) \<Rightarrow> (case f r of (ds, y) \<Rightarrow> (cs @ ds, y)))"

definition patch_step :: "provision_world \<Rightarrow> provision_request \<Rightarrow> provision_report \<Rightarrow> provisioning" where
  "patch_step w q r =
     ([PatchAgent (pr_agent r) (pq_owner q) (pr_ref r)],
      if pv_patch w \<noteq> Some 200
      then Inl (failed_step ''register'' (pv_patch w)
             (if pv_patch w = Some 403 then r\<lparr>pr_registry := Some ROedit_refused\<rparr> else r))
      else Inr (ok_step ''register'' (pv_patch w) (r\<lparr>pr_registry := Some ROupdated\<rparr>)))"

definition existing_step :: "provision_world \<Rightarrow> provision_request \<Rightarrow> provision_report \<Rightarrow> provisioning" where
  "existing_step w q r =
     (case pv_get w of
        Some (st, Some a) \<Rightarrow>
          if st \<noteq> 200 then patch_step w q r
          else if sg_status a = Some ''retired'' then ([], Inl (failed_step ''register'' (Some 409) r))
          else if sg_owner a = Some (pq_owner q) \<and> sg_manifest a = Some (pr_ref r)
          then ([], Inr (ok_step ''register'' (Some st) (r\<lparr>pr_registry := Some ROunchanged\<rparr>)))
          else patch_step w q r
      | _ \<Rightarrow> patch_step w q r)"

definition register_step :: "provision_world \<Rightarrow> provision_request \<Rightarrow> provision_report \<Rightarrow> provisioning" where
  "register_step w q r =
     (let post = PostAgent (pr_agent r) (py_or_text (pq_name q) (pr_agent r)) (pq_owner q) (pq_domain q) (pr_ref r) in
      if pv_post w = Some 201
      then ([post], Inr (ok_step ''register'' (pv_post w) (r\<lparr>pr_registry := Some ROregistered\<rparr>)))
      else if pv_post w = Some 409
      then (case existing_step w q r of (cs, x) \<Rightarrow> (post # GetAgent (pr_agent r) # cs, x))
      else ([post], Inl (failed_step ''register'' (pv_post w) r)))"

definition cap_step :: "provision_world \<Rightarrow> field_manifest \<Rightarrow> provision_report \<Rightarrow> provisioning" where
  "cap_step w m r =
     (case cap_from_manifest m (pr_agent r) of Inl _ \<Rightarrow> ([], Inl (failed_step ''cap'' None r))
      | Inr cap \<Rightarrow> ([PutCap cap],
          if pv_cap w \<noteq> Some 200 then Inl (failed_step ''cap'' (pv_cap w) r)
          else Inr (ok_step ''cap'' (pv_cap w) (r\<lparr>pr_cap := Some cap\<rparr>))))"

definition rates_step :: "provision_world \<Rightarrow> rate_limit_set \<Rightarrow> provision_report \<Rightarrow> provisioning" where
  "rates_step w limits r =
     (case load_rate_limits (pv_rates_get w) (pv_rates_put w) limits of (calls, loaded) \<Rightarrow>
        (map RatesCall calls,
         case loaded of None \<Rightarrow> Inl (failed_step ''rate_limits'' None r)
         | Some l \<Rightarrow> (case rl_outcome l of RateFailed \<Rightarrow> Inl (failed_step ''rate_limits'' (rl_status l) r)
             | RateLoaded _ _ \<Rightarrow> Inr (ok_step ''rate_limits'' (rl_status l) r)
             | RateUnchanged \<Rightarrow> Inr r)))"

definition mint_step :: "provision_world \<Rightarrow> provision_request \<Rightarrow> field_manifest \<Rightarrow> provision_report \<Rightarrow> provisioning" where
  "mint_step w q m r =
     ([MintToken (pr_agent r) (pq_grantor q) (md_scope (mf_delegation_section m)) (pq_ttl_days q * 86400)],
      case pv_mint w of
        Some (st, token) \<Rightarrow>
          if st \<noteq> 201 then Inl (failed_step ''mint'' (Some st) r)
          else Inr (ok_step ''mint'' (Some st) (r\<lparr>pr_token := token, pr_ok := True\<rparr>))
      | None \<Rightarrow> Inl (failed_step ''mint'' None r))"

definition first_report :: "provision_request \<Rightarrow> field_manifest \<Rightarrow> provision_report" where
  "first_report q m = \<lparr>pr_agent = ag_name (mf_agent_section m), pr_ref = py_or_text (pq_ref q) (pq_path q),
     pr_registry = None, pr_cap = None, pr_token = None, pr_steps = [step_of ''validate'' StepOk None], pr_ok = False\<rparr>"

definition provision :: "provision_world \<Rightarrow> provision_request
    \<Rightarrow> lifecycle_call list \<times> (lifecycle_error + provision_report)" where
  "provision w q =
     (case provision_gate w q of Inl e \<Rightarrow> ([], Inl e)
      | Inr (m, limits) \<Rightarrow>
        (case then_step (register_step w q (first_report q m)) (\<lambda>r. then_step (cap_step w m r) (\<lambda>r.
               then_step (rates_step w limits r) (mint_step w q m))) of
           (cs, Inl r) \<Rightarrow> (cs, Inr r) | (cs, Inr r) \<Rightarrow> (cs, Inr r)))"

section \<open>Decommissioning\<close>

datatype lifecycle_event =
    DecommissionedNoop string string string
  | Decommissioned string string string "string list" bool bool

text \<open>
  The listing of tokens: an exception of the call; the tokens with their revoked flags; or a body that is
  not a list of objects (an error document, whatever its status), on which the loop raises.
\<close>

datatype tokens_reply = TokensUnreachable | TokensList "(string \<times> bool) list" | TokensUnreadable

record decommission_world =
  dw_registry :: registry_reply
  dw_tokens :: tokens_reply
  dw_revoke :: "string \<Rightarrow> nat option"
  dw_kill :: "nat option option"
  dw_retire :: bool
  dw_ledger :: "ledger_reply option"

record decommission_report =
  dr_previous :: string
  dr_noop :: bool
  dr_revoked :: "string list"
  dr_failures :: nat
  dr_killed :: bool
  dr_retired :: bool
  dr_steps :: "transition_step list"
  dr_ok :: bool

definition lifecycle_note :: "ledger_reply option \<Rightarrow> lifecycle_event \<Rightarrow> lifecycle_event list \<Rightarrow> lifecycle_event list \<times> bool" where
  "lifecycle_note reply e ledger = (case reply of None \<Rightarrow> (ledger, False)
     | Some rp \<Rightarrow> (case ledger_append rp e ledger of (l, Inr _) \<Rightarrow> (l, True) | (l, Inl _) \<Rightarrow> (l, False)))"

definition live_tokens :: "decommission_world \<Rightarrow> string list" where
  "live_tokens w = (case dw_tokens w of TokensList ts \<Rightarrow> map fst (filter (\<lambda>(i, revoked). \<not> revoked) ts) | _ \<Rightarrow> [])"

definition decommission :: "decommission_world \<Rightarrow> string \<Rightarrow> string \<Rightarrow> string \<Rightarrow> lifecycle_event list
    \<Rightarrow> lifecycle_event list \<times> lifecycle_call list \<times> (lifecycle_error + decommission_report)" where
  "decommission w i operator reason ledger =
     (case get_agent (dw_registry w) of
        Inl e \<Rightarrow> (ledger, [], Inl (if e = AgentNotRegistered then NotRegisteredHere else RegistryDownHere))
      | Inr a \<Rightarrow>
        let previous = (case ra_status a of None \<Rightarrow> ''<unknown>'' | Some s \<Rightarrow> s) in
        if previous = ''retired'' then
          (fst (lifecycle_note (dw_ledger w) (DecommissionedNoop i operator reason) ledger), [],
           Inr \<lparr>dr_previous = previous, dr_noop = True, dr_revoked = [], dr_failures = 0, dr_killed = False,
             dr_retired = False, dr_steps = [step_of ''decommission'' StepSkipped None], dr_ok = True\<rparr>)
        else if dw_tokens w = TokensUnreadable then (ledger, [], Inl TokensNotAList)
        else
          let live = live_tokens w;
              revoked = filter (\<lambda>t. dw_revoke w t = Some 200) live;
              failures = length (filter (\<lambda>t. dw_revoke w t \<noteq> Some 200) live) + (if dw_tokens w = TokensUnreachable then 1 else 0);
              active = (previous = ''active'');
              killed = (active \<and> dw_kill w = Some (Some 200));
              (ledger', wrote) = lifecycle_note (dw_ledger w)
                (Decommissioned i operator previous revoked killed (dw_retire w)) ledger
          in (ledger',
              map RevokeToken live @ (if active \<and> dw_kill w \<noteq> None then [KillAgent i] else []) @ [RetireAgent i],
              Inr \<lparr>dr_previous = previous, dr_noop = False, dr_revoked = revoked, dr_failures = failures,
                dr_killed = killed, dr_retired = dw_retire w,
                dr_steps =
                  [step_of ''revoke'' (if failures = 0 then StepOk else StepFailed) None,
                   (if \<not> active then step_of ''kill'' StepSkipped None
                    else case dw_kill w of None \<Rightarrow> step_of ''kill'' StepFailed None
                      | Some st \<Rightarrow> step_of ''kill'' (if killed then StepOk else StepFailed) st),
                   step_of ''retire'' (if dw_retire w then StepOk else StepFailed) None,
                   step_of ''ledger'' (if wrote then StepOk else StepFailed) None],
                dr_ok = (failures = 0 \<and> (active \<longrightarrow> killed) \<and> dw_retire w \<and> wrote)\<rparr>))"


section \<open>What the sweep finds and does\<close>

lemma sweep_note_kills [simp]: "sr_kills (sweep_note w e r) = sr_kills r"
  by (auto simp: sweep_note_def split: option.splits prod.splits sum.splits)

text \<open>An invariant of the steps is one of the pass; two passes whose steps agree agree.\<close>

lemma sweep_pass_Cons:
  "sweep_pass f (x # xs) r = (let r1 = fst (f x r); rest = sweep_pass f xs r1 in
     case snd (f x r) of Inl e \<Rightarrow> (r1, Inl e)
     | Inr found \<Rightarrow> (fst rest, case snd rest of Inl e \<Rightarrow> Inl e
         | Inr fs \<Rightarrow> Inr (case found of None \<Rightarrow> fs | Some y \<Rightarrow> y # fs)))"
  by (auto simp: Let_def split: prod.splits sum.splits)

declare sweep_pass.simps(2) [simp del]

lemma sweep_pass_keeps:
  assumes "\<And>x r. x \<in> set xs \<Longrightarrow> g (fst (f x r)) = g r"
  shows "g (fst (sweep_pass f xs r)) = g r"
  using assms by (induction xs arbitrary: r) (auto simp: sweep_pass_Cons Let_def split: sum.splits)

lemma sweep_pass_agrees:
  assumes "\<And>x r s. R r s \<Longrightarrow> R (fst (f x r)) (fst (g x s)) \<and> snd (f x r) = snd (g x s)" and "R r s"
  shows "R (fst (sweep_pass f xs r)) (fst (sweep_pass g xs s)) \<and> snd (sweep_pass f xs r) = snd (sweep_pass g xs s)"
  using assms(2)
proof (induction xs arbitrary: r s)
  case (Cons x xs)
  note step = assms(1) [OF Cons.prems, of x]
  from Cons.IH [of "fst (f x r)" "fst (g x s)"] step show ?case
    by (auto simp: sweep_pass_Cons Let_def split: sum.splits)
qed simp

text \<open>What a pass found, where what a step finds does not depend on the state.\<close>

lemma sweep_pass_found:
  assumes "\<And>x r. snd (f x r) = v x" and "snd (sweep_pass f xs r) = Inr fs"
  shows "y \<in> set fs \<longleftrightarrow> (\<exists>x \<in> set xs. v x = Inr (Some y))"
  using assms(2)
proof (induction xs arbitrary: r fs)
  case (Cons x xs)
  from Cons.prems obtain found gs where a: "v x = Inr found" "snd (sweep_pass f xs (fst (f x r))) = Inr gs"
    "fs = (case found of None \<Rightarrow> gs | Some y \<Rightarrow> y # gs)"
    by (auto simp: sweep_pass_Cons Let_def assms(1) split: sum.splits)
  from Cons.IH [OF a(2)] a(1,3) show ?case by (auto split: option.splits)
qed simp

lemma sweep_pass_ends:
  assumes "\<And>x r. snd (f x r) = v x" and "snd (sweep_pass f xs r) = Inr fs" and "x \<in> set xs"
  shows "\<not> isl (v x)"
  using assms(2,3)
  by (induction xs arbitrary: r fs) (auto simp: sweep_pass_Cons Let_def assms(1) split: sum.splits)

lemma expiring_step_kills [simp]: "sr_kills (fst (expiring_step w now h t r)) = sr_kills r"
  by (auto simp: expiring_step_def split: option.splits)

lemma reattest_step_kills [simp]: "sr_kills (fst (reattest_step w now b a r)) = sr_kills r"
  by (auto simp: reattest_step_def split: option.splits prod.splits)

definition to_kill :: "sweep_config \<Rightarrow> sweep_world \<Rightarrow> string list \<Rightarrow> sweep_agent \<Rightarrow> bool" where
  "to_kill cfg w roster a = (auto_kill_orphans cfg \<and> sw_kill w \<noteq> None \<and> sa_status a = ''active'' \<and> \<not> on_roster roster a)"

lemma orphan_step_kills:
  "sr_kills (fst (orphan_step cfg w roster a r)) = sr_kills r @ (if to_kill cfg w roster a then [sa_id a] else [])"
  by (auto simp: orphan_step_def to_kill_def Let_def split: option.splits)

lemma orphan_pass_kills:
  "\<exists>rest. sr_kills (fst (sweep_pass (orphan_step cfg w roster) as r)) @ rest
      = sr_kills r @ map sa_id (filter (to_kill cfg w roster) as)
    \<and> (isl (snd (sweep_pass (orphan_step cfg w roster) as r)) \<or> rest = [])"
proof (induction as arbitrary: r)
  case (Cons a as)
  obtain r1 x where f: "orphan_step cfg w roster a r = (r1, x)" by fastforce
  have k: "sr_kills r1 = sr_kills r @ (if to_kill cfg w roster a then [sa_id a] else [])"
    using orphan_step_kills [of cfg w roster a r] by (simp add: f)
  show ?case
  proof (cases x)
    case (Inl e)
    then show ?thesis by (intro exI [of _ "map sa_id (filter (to_kill cfg w roster) as)"]) (simp add: f k sweep_pass_Cons)
  next
    case (Inr found)
    from Cons.IH [of r1] show ?thesis
      by (auto simp: f Inr k sweep_pass_Cons Let_def split: sum.splits)
  qed
qed simp

text \<open>The three passes of a sweep that did not stop before them.\<close>

lemma sweep_passes:
  assumes "parse_roster_entries csv = Inr es" and "es \<noteq> []"
    and "sweep_pass (expiring_step w now (now + expiry_horizon_days cfg * day_us)) (sw_tokens w) new_run = (r1, x1)"
    and "sweep_pass (reattest_step w now (now - reattestation_days cfg * day_us)) (sw_agents w) r1 = (r2, x2)"
    and "sweep_pass (orphan_step cfg w (roster_strings es)) (sw_agents w) r2 = (r3, x3)"
  shows "sr_kills r2 = []"
    and "fst (sweep cfg w csv now) \<in> {new_run, r1, r2, r3}"
    and "snd (sweep cfg w csv now) = Inr rep \<Longrightarrow> \<exists>ex re orp. x1 = Inr ex \<and> x2 = Inr re \<and> x3 = Inr orp
      \<and> fst (sweep cfg w csv now) = r3 \<and> rp_expiring rep = ex \<and> rp_reattest rep = re \<and> rp_orphans rep = orp
      \<and> valid_instant (now + expiry_horizon_days cfg * day_us) \<and> valid_instant (now - reattestation_days cfg * day_us)"
    and "fst (sweep cfg w csv now) = r3 \<or> sr_kills (fst (sweep cfg w csv now)) = []"
proof -
  have k1: "sr_kills r1 = []"
    using sweep_pass_keeps [of "sw_tokens w" sr_kills "expiring_step w now (now + expiry_horizon_days cfg * day_us)" new_run] assms(3)
    by (simp add: new_run_def)
  have k2: "sr_kills r2 = []"
    using sweep_pass_keeps [of "sw_agents w" sr_kills "reattest_step w now (now - reattestation_days cfg * day_us)" r1] assms(4) k1
    by simp
  then show "sr_kills r2 = []" .
  show "fst (sweep cfg w csv now) \<in> {new_run, r1, r2, r3}"
    by (simp add: sweep_def assms Let_def split: sum.split)
  then show "fst (sweep cfg w csv now) = r3 \<or> sr_kills (fst (sweep cfg w csv now)) = []"
    using k1 k2 by (auto simp: new_run_def)
  show "\<exists>ex re orp. x1 = Inr ex \<and> x2 = Inr re \<and> x3 = Inr orp
      \<and> fst (sweep cfg w csv now) = r3 \<and> rp_expiring rep = ex \<and> rp_reattest rep = re \<and> rp_orphans rep = orp
      \<and> valid_instant (now + expiry_horizon_days cfg * day_us) \<and> valid_instant (now - reattestation_days cfg * day_us)"
    if "snd (sweep cfg w csv now) = Inr rep"
    using that by (auto simp: sweep_def assms Let_def split: sum.splits if_splits)
qed


text \<open>C18: A sweep posts kills only under the flag, with a kill-switch, for active agents whose owner is no
  owner and no alias on the roster it could read; in the order of the registry, each listed agent at most
  once, and all of them when the sweep ends. An unreadable or owner-less roster kills nobody and writes nothing.\<close>

theorem sweep_kills_only_orphans:
  "(case parse_roster_entries csv of
      Inr (e # es) \<Rightarrow>
        let orphans = map sa_id (filter (to_kill cfg w (roster_strings (e # es))) (sw_agents w)) in
        prefix (sr_kills (fst (sweep cfg w csv now))) orphans
        \<and> (isl (snd (sweep cfg w csv now)) \<or> sr_kills (fst (sweep cfg w csv now)) = orphans)
    | _ \<Rightarrow> fst (sweep cfg w csv now) = new_run \<and> isl (snd (sweep cfg w csv now)))"
proof (cases "parse_roster_entries csv")
  case (Inl e)
  then show ?thesis by (simp add: sweep_def)
next
  case es: (Inr es)
  show ?thesis
  proof (cases es)
    case Nil
    then show ?thesis by (simp add: sweep_def es)
  next
    case (Cons e es')
    obtain r1 x1 where 1: "sweep_pass (expiring_step w now (now + expiry_horizon_days cfg * day_us)) (sw_tokens w) new_run = (r1, x1)"
      by fastforce
    obtain r2 x2 where 2: "sweep_pass (reattest_step w now (now - reattestation_days cfg * day_us)) (sw_agents w) r1 = (r2, x2)"
      by fastforce
    obtain r3 x3 where 3: "sweep_pass (orphan_step cfg w (roster_strings es)) (sw_agents w) r2 = (r3, x3)"
      by fastforce
    have ne: "es \<noteq> []" using Cons by simp
    note p = sweep_passes [OF es ne 1 2 3]
    from orphan_pass_kills [of cfg w "roster_strings es" "sw_agents w" r2]
    obtain rest where k: "sr_kills r3 @ rest = map sa_id (filter (to_kill cfg w (roster_strings es)) (sw_agents w))"
      "isl x3 \<or> rest = []" by (auto simp: 3 p(1))
    have pre: "prefix (sr_kills (fst (sweep cfg w csv now))) (map sa_id (filter (to_kill cfg w (roster_strings es)) (sw_agents w)))"
      using p(4) k(1) [symmetric] by auto
    have "isl (snd (sweep cfg w csv now)) \<or> sr_kills (fst (sweep cfg w csv now)) = map sa_id (filter (to_kill cfg w (roster_strings es)) (sw_agents w))"
    proof (cases "snd (sweep cfg w csv now)")
      case (Inr rep)
      from p(3) [OF this] k show ?thesis by auto
    qed simp
    with pre show ?thesis unfolding es Cons by (simp add: Let_def)
  qed
qed

lemma note_without_ledger: "sr_kills r = sr_kills s \<Longrightarrow> sr_kills (sweep_note w e r) = sr_kills (sweep_note w' e' s)"
  by simp

lemma steps_ledger_free:
  assumes "sr_kills r = sr_kills s"
  shows "sr_kills (fst (expiring_step w now h t r)) = sr_kills (fst (expiring_step (w\<lparr>sw_ledger := l\<rparr>) now h t s))
      \<and> snd (expiring_step w now h t r) = snd (expiring_step (w\<lparr>sw_ledger := l\<rparr>) now h t s)"
    and "sr_kills (fst (reattest_step w now b a r)) = sr_kills (fst (reattest_step (w\<lparr>sw_ledger := l\<rparr>) now b a s))
      \<and> snd (reattest_step w now b a r) = snd (reattest_step (w\<lparr>sw_ledger := l\<rparr>) now b a s)"
    and "sr_kills (fst (orphan_step cfg w roster a r)) = sr_kills (fst (orphan_step cfg (w\<lparr>sw_ledger := l\<rparr>) roster a s))
      \<and> snd (orphan_step cfg w roster a r) = snd (orphan_step cfg (w\<lparr>sw_ledger := l\<rparr>) roster a s)"
  using assms
  by (auto simp: expiring_step_def reattest_step_def orphan_step_def Let_def split: option.split prod.split)

text \<open>A sweep finds and kills the same whatever the ledger answers to its notes, and with no ledger at all;
  only the number of escalations written differs.\<close>

lemma sweep_does_not_need_the_ledger:
  "sr_kills (fst (sweep cfg (w\<lparr>sw_ledger := l\<rparr>) csv now)) = sr_kills (fst (sweep cfg w csv now))
   \<and> map_sum id (\<lambda>rep. rep\<lparr>rp_escalations := 0\<rparr>) (snd (sweep cfg (w\<lparr>sw_ledger := l\<rparr>) csv now))
     = map_sum id (\<lambda>rep. rep\<lparr>rp_escalations := 0\<rparr>) (snd (sweep cfg w csv now))"
proof -
  let ?w = "w\<lparr>sw_ledger := l\<rparr>"
  have sel: "sw_tokens ?w = sw_tokens w" "sw_agents ?w = sw_agents w" "sw_retention ?w = sw_retention w"
    "sw_watch ?w = sw_watch w" "sw_events ?w = sw_events w" by simp_all
  have 1: "sr_kills (fst (sweep_pass (expiring_step w now h) xs r)) = sr_kills (fst (sweep_pass (expiring_step ?w now h) xs s))
      \<and> snd (sweep_pass (expiring_step w now h) xs r) = snd (sweep_pass (expiring_step ?w now h) xs s)"
    if "sr_kills r = sr_kills s" for h xs r s
    by (rule sweep_pass_agrees [where R = "\<lambda>r s. sr_kills r = sr_kills s", OF steps_ledger_free(1) that])
  have 2: "sr_kills (fst (sweep_pass (reattest_step w now b) xs r)) = sr_kills (fst (sweep_pass (reattest_step ?w now b) xs s))
      \<and> snd (sweep_pass (reattest_step w now b) xs r) = snd (sweep_pass (reattest_step ?w now b) xs s)"
    if "sr_kills r = sr_kills s" for b xs r s
    by (rule sweep_pass_agrees [where R = "\<lambda>r s. sr_kills r = sr_kills s", OF steps_ledger_free(2) that])
  have 3: "sr_kills (fst (sweep_pass (orphan_step cfg w ros) xs r)) = sr_kills (fst (sweep_pass (orphan_step cfg ?w ros) xs s))
      \<and> snd (sweep_pass (orphan_step cfg w ros) xs r) = snd (sweep_pass (orphan_step cfg ?w ros) xs s)"
    if "sr_kills r = sr_kills s" for ros xs r s
    by (rule sweep_pass_agrees [where R = "\<lambda>r s. sr_kills r = sr_kills s", OF steps_ledger_free(3) that])
  show ?thesis
  proof (cases "parse_roster_entries csv")
    case (Inr es)
    obtain r1 x1 where p1: "sweep_pass (expiring_step w now (now + expiry_horizon_days cfg * day_us)) (sw_tokens w) new_run = (r1, x1)"
      by fastforce
    obtain s1 y1 where q1: "sweep_pass (expiring_step ?w now (now + expiry_horizon_days cfg * day_us)) (sw_tokens w) new_run = (s1, y1)"
      by fastforce
    obtain r2 x2 where p2: "sweep_pass (reattest_step w now (now - reattestation_days cfg * day_us)) (sw_agents w) r1 = (r2, x2)"
      by fastforce
    obtain s2 y2 where q2: "sweep_pass (reattest_step ?w now (now - reattestation_days cfg * day_us)) (sw_agents w) s1 = (s2, y2)"
      by fastforce
    obtain r3 x3 where p3: "sweep_pass (orphan_step cfg w (roster_strings es)) (sw_agents w) r2 = (r3, x3)"
      by fastforce
    obtain s3 y3 where q3: "sweep_pass (orphan_step cfg ?w (roster_strings es)) (sw_agents w) s2 = (s3, y3)"
      by fastforce
    have e1: "sr_kills r1 = sr_kills s1" "x1 = y1" using 1 [of new_run new_run "now + expiry_horizon_days cfg * day_us" "sw_tokens w"] p1 q1 by auto
    have e2: "sr_kills r2 = sr_kills s2" "x2 = y2" using 2 [OF e1(1), of "now - reattestation_days cfg * day_us" "sw_agents w"] p2 q2 by auto
    have e3: "sr_kills r3 = sr_kills s3" "x3 = y3" using 3 [OF e2(1), of "roster_strings es" "sw_agents w"] p3 q3 by auto
    show ?thesis
      unfolding sweep_def Inr sel by (simp add: Let_def p1 q1 p2 q2 p3 q3 e1 e2 e3 split: sum.split)
  qed (simp add: sweep_def)
qed

lemma step_results:
  "snd (expiring_step w now h t r) = snd (expiring_step w now h t new_run)"
  "snd (reattest_step w now b a r) = snd (reattest_step w now b a new_run)"
  "snd (orphan_step cfg w roster a r) = snd (orphan_step cfg w roster a new_run)"
  by (auto simp: expiring_step_def reattest_step_def orphan_step_def Let_def split: option.split prod.split)

text \<open>A sweep that ends reports exactly what there is to report: the unrevoked tokens that expire from now
  to the horizon, with the whole days left; the active agents last attested, or registered when nobody
  ever attested, longer ago than the period; the agents not retired whose owner is not on the roster.\<close>

lemma sweep_findings_are_exact:
  assumes "snd (sweep cfg w csv now) = Inr rep" and "parse_roster_entries csv = Inr es"
  shows "((i, d) \<in> (\<lambda>x. (ex_token x, ex_days_left x)) ` set (rp_expiring rep) \<longleftrightarrow>
        (\<exists>t \<in> set (sw_tokens w). \<exists>ex. st_id t = i \<and> \<not> st_revoked t \<and> parse_ts (st_expires t) = Some ex
           \<and> now \<le> ex \<and> ex \<le> now + expiry_horizon_days cfg * day_us \<and> d = (ex - now) div day_us))
    \<and> (j \<in> rd_agent ` set (rp_reattest rep) \<longleftrightarrow>
        (\<exists>a \<in> set (sw_agents w). \<exists>since. sa_id a = j \<and> sa_status a = ''active''
           \<and> parse_ts (case sa_attested_at a of Some (c # s) \<Rightarrow> c # s | _ \<Rightarrow> sa_created a) = Some since
           \<and> since < now - reattestation_days cfg * day_us))
    \<and> (k \<in> or_agent ` set (rp_orphans rep) \<longleftrightarrow>
        (\<exists>a \<in> set (sw_agents w). sa_id a = k \<and> sa_status a \<noteq> ''retired''
           \<and> (\<forall>e \<in> set es. py_lower (sa_owner a) \<noteq> py_lower (ro_owner e)
                \<and> py_lower (sa_owner a) \<notin> py_lower ` set (ro_aliases e))))"
proof -
  let ?h = "now + expiry_horizon_days cfg * day_us" and ?b = "now - reattestation_days cfg * day_us"
  have ne: "es \<noteq> []" using assms by (auto simp: sweep_def)
  obtain r1 x1 where 1: "sweep_pass (expiring_step w now ?h) (sw_tokens w) new_run = (r1, x1)" by fastforce
  obtain r2 x2 where 2: "sweep_pass (reattest_step w now ?b) (sw_agents w) r1 = (r2, x2)" by fastforce
  obtain r3 x3 where 3: "sweep_pass (orphan_step cfg w (roster_strings es)) (sw_agents w) r2 = (r3, x3)" by fastforce
  from sweep_passes(3) [OF assms(2) ne 1 2 3 assms(1)]
  have x: "x1 = Inr (rp_expiring rep)" "x2 = Inr (rp_reattest rep)" "x3 = Inr (rp_orphans rep)" by auto
  have f1: "y \<in> set (rp_expiring rep) \<longleftrightarrow> (\<exists>t \<in> set (sw_tokens w). snd (expiring_step w now ?h t new_run) = Inr (Some y))" for y
    using sweep_pass_found [where f = "expiring_step w now ?h" and v = "\<lambda>t. snd (expiring_step w now ?h t new_run)" and r = new_run]
      step_results(1) 1 x(1) by simp
  have f2: "y \<in> set (rp_reattest rep) \<longleftrightarrow> (\<exists>a \<in> set (sw_agents w). snd (reattest_step w now ?b a new_run) = Inr (Some y))" for y
    using sweep_pass_found [where f = "reattest_step w now ?b" and v = "\<lambda>a. snd (reattest_step w now ?b a new_run)" and r = r1]
      step_results(2) 2 x(2) by simp
  have f3: "y \<in> set (rp_orphans rep) \<longleftrightarrow> (\<exists>a \<in> set (sw_agents w). snd (orphan_step cfg w (roster_strings es) a new_run) = Inr (Some y))" for y
    using sweep_pass_found [where f = "orphan_step cfg w (roster_strings es)" and
        v = "\<lambda>a. snd (orphan_step cfg w (roster_strings es) a new_run)" and r = r2]
      step_results(3) 3 x(3) by simp
  have all3: "\<not> isl (snd (orphan_step cfg w (roster_strings es) a new_run))" if "a \<in> set (sw_agents w)" for a
  proof -
    have "snd (sweep_pass (orphan_step cfg w (roster_strings es)) (sw_agents w) r2) = Inr (rp_orphans rep)" using 3 x(3) by simp
    from sweep_pass_ends [OF step_results(3) this that] show ?thesis .
  qed
  have s1: "snd (expiring_step w now ?h t new_run) = Inr (Some y) \<longleftrightarrow> \<not> st_revoked t
      \<and> (\<exists>ex. parse_ts (st_expires t) = Some ex \<and> now \<le> ex \<and> ex \<le> ?h \<and> y = \<lparr>ex_token = st_id t, ex_agent = st_agent t,
            ex_granted_by = st_granted_by t, ex_days_left = (ex - now) div day_us, ex_scope = st_scope t\<rparr>)" for t y
    by (auto simp: expiring_step_def days_of_def split: option.splits)
  have s2: "snd (reattest_step w now ?b a new_run) = Inr (Some y) \<longleftrightarrow> sa_status a = ''active''
      \<and> (\<exists>since. parse_ts (snd (attested_basis a)) = Some since \<and> since < ?b
           \<and> y = \<lparr>rd_agent = sa_id a, rd_owner = sa_owner a, rd_measured = snd (attested_basis a),
                 rd_days = days_of (now - since), rd_basis = fst (attested_basis a), rd_attested_by = sa_attested_by a\<rparr>)" for a y
    by (auto simp: reattest_step_def split: option.splits prod.splits)
  have basis: "snd (attested_basis a) = (case sa_attested_at a of Some (c # s) \<Rightarrow> c # s | _ \<Rightarrow> sa_created a)" for a
    by (auto simp: attested_basis_def split: option.splits list.splits)
  have s3: "(\<exists>y. snd (orphan_step cfg w (roster_strings es) a new_run) = Inr (Some y) \<and> or_agent y = k)
      \<longleftrightarrow> sa_id a = k \<and> sa_status a \<noteq> ''retired'' \<and> \<not> on_roster (roster_strings es) a" if "a \<in> set (sw_agents w)" for a
    using all3 [OF that] by (auto simp: orphan_step_def Let_def isl_def split: option.splits if_splits)
  have ros: "\<not> on_roster (roster_strings es) a \<longleftrightarrow> (\<forall>e \<in> set es. py_lower (sa_owner a) \<noteq> py_lower (ro_owner e)
      \<and> py_lower (sa_owner a) \<notin> py_lower ` set (ro_aliases e))" for a
    by (auto simp: on_roster_def roster_strings_def match_strings_def)
  have "(i, d) \<in> (\<lambda>x. (ex_token x, ex_days_left x)) ` set (rp_expiring rep) \<longleftrightarrow>
        (\<exists>t \<in> set (sw_tokens w). \<exists>ex. st_id t = i \<and> \<not> st_revoked t \<and> parse_ts (st_expires t) = Some ex
           \<and> now \<le> ex \<and> ex \<le> ?h \<and> d = (ex - now) div day_us)"
    unfolding image_iff f1 Bex_def s1 by fastforce
  moreover have "j \<in> rd_agent ` set (rp_reattest rep) \<longleftrightarrow>
        (\<exists>a \<in> set (sw_agents w). \<exists>since. sa_id a = j \<and> sa_status a = ''active''
           \<and> parse_ts (case sa_attested_at a of Some (c # s) \<Rightarrow> c # s | _ \<Rightarrow> sa_created a) = Some since \<and> since < ?b)"
    unfolding image_iff f2 Bex_def s2 basis by fastforce
  moreover have "k \<in> or_agent ` set (rp_orphans rep) \<longleftrightarrow>
        (\<exists>a \<in> set (sw_agents w). sa_id a = k \<and> sa_status a \<noteq> ''retired''
           \<and> (\<forall>e \<in> set es. py_lower (sa_owner a) \<noteq> py_lower (ro_owner e)
                \<and> py_lower (sa_owner a) \<notin> py_lower ` set (ro_aliases e)))"
  proof -
    have "k \<in> or_agent ` set (rp_orphans rep) \<longleftrightarrow> (\<exists>y \<in> set (rp_orphans rep). or_agent y = k)" by (simp only: image_iff eq_commute)
    also have "\<dots> \<longleftrightarrow> (\<exists>a \<in> set (sw_agents w). \<exists>y. snd (orphan_step cfg w (roster_strings es) a new_run) = Inr (Some y) \<and> or_agent y = k)"
      unfolding Bex_def f3 by iprover
    also have "\<dots> \<longleftrightarrow> (\<exists>a \<in> set (sw_agents w). sa_id a = k \<and> sa_status a \<noteq> ''retired'' \<and> \<not> on_roster (roster_strings es) a)"
      by (rule bex_cong [OF refl], rule s3)
    finally show ?thesis unfolding ros .
  qed
  ultimately show ?thesis by (intro conjI)
qed


section \<open>Decommissioning acts first\<close>

lemma lifecycle_note_wrote:
  "lifecycle_note reply e ledger = (l, True) \<Longrightarrow> l = ledger @ [e]"
  by (auto simp: lifecycle_note_def ledger_append_def split: option.splits ledger_reply.splits if_splits)

text \<open>Decommissioning a registered, not retired agent goes all the way whatever is refused on the way: every
  unrevoked token of a readable listing is sent its revoke, the kill is sent once, exactly for an active
  agent, and then the retire; it reports success only if every revoke, the kill, the retire and the ledger
  event were answered with success, and then the event is on the ledger.\<close>

lemma decommission_acts_first:
  assumes "dw_registry w = RegistryAgent a" and "ra_status a \<noteq> Some ''retired''" and "dw_tokens w \<noteq> TokensUnreadable"
    and "decommission w i operator reason ledger = (ledger', calls, res)"
  shows "\<exists>r. res = Inr r
    \<and> (\<forall>t. RevokeToken t \<in> set calls \<longleftrightarrow> (\<exists>ts. dw_tokens w = TokensList ts \<and> (t, False) \<in> set ts))
    \<and> count_list calls (KillAgent i) = (if ra_status a = Some ''active'' \<and> dw_kill w \<noteq> None then 1 else 0)
    \<and> last calls = RetireAgent i
    \<and> (dr_ok r \<longleftrightarrow> (\<exists>ts. dw_tokens w = TokensList ts \<and> (\<forall>t. (t, False) \<in> set ts \<longrightarrow> dw_revoke w t = Some 200))
        \<and> (ra_status a = Some ''active'' \<longrightarrow> dw_kill w = Some (Some 200)) \<and> dw_retire w
        \<and> ledger' = ledger @ [Decommissioned i operator (dr_previous r) (dr_revoked r) (dr_killed r) True]
        \<and> dw_ledger w \<in> {Some LR_created, Some (LR_status 201)})"
proof -
  obtain l wrote where nt: "lifecycle_note (dw_ledger w) (Decommissioned i operator (case ra_status a of None \<Rightarrow> ''<unknown>'' | Some s \<Rightarrow> s)
      (filter (\<lambda>t. dw_revoke w t = Some 200) (live_tokens w))
      ((case ra_status a of None \<Rightarrow> ''<unknown>'' | Some s \<Rightarrow> s) = ''active'' \<and> dw_kill w = Some (Some 200)) (dw_retire w)) ledger = (l, wrote)"
    by fastforce
  have active: "(case ra_status a of None \<Rightarrow> ''<unknown>'' | Some s \<Rightarrow> s) = ''active'' \<longleftrightarrow> ra_status a = Some ''active''"
    "(case ra_status a of None \<Rightarrow> ''<unknown>'' | Some s \<Rightarrow> s) \<noteq> ''retired''"
    using assms(2) by (auto split: option.splits)
  have wrote: "wrote \<longleftrightarrow> dw_ledger w \<in> {Some LR_created, Some (LR_status 201)}"
    using nt by (auto simp: lifecycle_note_def ledger_append_def split: option.splits ledger_reply.splits if_splits)
  have live: "t \<in> set (live_tokens w) \<longleftrightarrow> (\<exists>ts. dw_tokens w = TokensList ts \<and> (t, False) \<in> set ts)" for t
    by (cases "dw_tokens w") (auto simp: live_tokens_def intro!: image_eqI [of _ fst "(t, False)"])
  have list: "dw_tokens w = TokensUnreachable \<or> (\<exists>ts. dw_tokens w = TokensList ts)"
    using assms(3) by (cases "dw_tokens w") auto
  have none: "count_list (map RevokeToken xs) (KillAgent i) = 0" for xs by (induction xs) auto
  let ?r = "\<lparr>dr_previous = (case ra_status a of None \<Rightarrow> ''<unknown>'' | Some s \<Rightarrow> s), dr_noop = False,
      dr_revoked = filter (\<lambda>t. dw_revoke w t = Some 200) (live_tokens w),
      dr_failures = length (filter (\<lambda>t. dw_revoke w t \<noteq> Some 200) (live_tokens w)) + (if dw_tokens w = TokensUnreachable then 1 else 0),
      dr_killed = (ra_status a = Some ''active'' \<and> dw_kill w = Some (Some 200)), dr_retired = dw_retire w,
      dr_steps = dr_steps (case res of Inr r \<Rightarrow> r),
      dr_ok = (length (filter (\<lambda>t. dw_revoke w t \<noteq> Some 200) (live_tokens w)) + (if dw_tokens w = TokensUnreachable then 1 else 0) = 0
        \<and> (ra_status a = Some ''active'' \<longrightarrow> ra_status a = Some ''active'' \<and> dw_kill w = Some (Some 200)) \<and> dw_retire w \<and> wrote)\<rparr>"
  have d: "ledger' = l" "calls = map RevokeToken (live_tokens w)
      @ (if ra_status a = Some ''active'' \<and> dw_kill w \<noteq> None then [KillAgent i] else []) @ [RetireAgent i]" "res = Inr ?r"
    using assms(4) unfolding decommission_def assms(1) get_agent_def
    by (auto simp: active assms(3) nt [simplified active] Let_def)
  have ok: "dr_ok ?r \<longleftrightarrow> (\<exists>ts. dw_tokens w = TokensList ts \<and> (\<forall>t. (t, False) \<in> set ts \<longrightarrow> dw_revoke w t = Some 200))
      \<and> (ra_status a = Some ''active'' \<longrightarrow> dw_kill w = Some (Some 200)) \<and> dw_retire w \<and> wrote"
    using list by (auto simp: filter_empty_conv live)
  have led: "wrote \<Longrightarrow> dw_retire w \<Longrightarrow> l = ledger @ [Decommissioned i operator (dr_previous ?r) (dr_revoked ?r) (dr_killed ?r) True]"
    using nt lifecycle_note_wrote by (auto simp: active)
  have calls: "RevokeToken t \<in> set calls \<longleftrightarrow> (\<exists>ts. dw_tokens w = TokensList ts \<and> (t, False) \<in> set ts)" for t
    unfolding d(2) by (auto simp: live)
  show ?thesis
  proof (intro exI [of _ ?r] conjI allI)
    show "count_list calls (KillAgent i) = (if ra_status a = Some ''active'' \<and> dw_kill w \<noteq> None then 1 else 0)"
      unfolding d(2) by (simp add: none)
    show "last calls = RetireAgent i" unfolding d(2) by simp
    show "dr_ok ?r \<longleftrightarrow> (\<exists>ts. dw_tokens w = TokensList ts \<and> (\<forall>t. (t, False) \<in> set ts \<longrightarrow> dw_revoke w t = Some 200))
        \<and> (ra_status a = Some ''active'' \<longrightarrow> dw_kill w = Some (Some 200)) \<and> dw_retire w
        \<and> ledger' = ledger @ [Decommissioned i operator (dr_previous ?r) (dr_revoked ?r) (dr_killed ?r) True]
        \<and> dw_ledger w \<in> {Some LR_created, Some (LR_status 201)}"
      unfolding ok d(1) wrote [symmetric] using led by blast
  qed (use d(3) calls in simp_all)
qed

text \<open>
  The listing is read without looking at its status: an error document that is not a list of tokens stops the
  run before the halt, so the agent is neither killed nor retired, where an unreachable authority would
  not have stopped it.
\<close>

lemma error_document_stops_decommission:
  assumes "dw_registry w = RegistryAgent a" and "ra_status a \<noteq> Some ''retired''" and "dw_tokens w = TokensUnreadable"
  shows "decommission w i operator reason ledger = (ledger, [], Inl TokensNotAList)"
  using assms by (auto simp: decommission_def get_agent_def Let_def split: option.splits)

text \<open>Decommissioning twice is a recorded no-op; an unknown agent is no event at all.\<close>

lemma decommission_again:
  "dw_registry w = RegistryAgent a \<Longrightarrow> ra_status a = Some ''retired'' \<Longrightarrow> fst (snd (decommission w i operator reason ledger)) = []"
  "get_agent (dw_registry w) = Inl e \<Longrightarrow> decommission w i operator reason ledger
     = (ledger, [], Inl (if e = AgentNotRegistered then NotRegisteredHere else RegistryDownHere))"
  by (simp_all add: decommission_def get_agent_def Let_def)


section \<open>Provisioning stops at the first failure\<close>

definition is_mint :: "lifecycle_call \<Rightarrow> bool" where
  "is_mint c = (case c of MintToken _ _ _ _ \<Rightarrow> True | _ \<Rightarrow> False)"

lemma mint_calls [simp]:
  "is_mint (MintToken a g s t)" "\<not> is_mint (PostAgent a b c d e)" "\<not> is_mint (GetAgent a)" "\<not> is_mint (PatchAgent a b c)"
  "\<not> is_mint (PutCap cap)" "\<not> is_mint (RatesCall x)"
  by (simp_all add: is_mint_def)

text \<open>What each step guarantees: its calls hold no mint, its report keeps the agent, and a stop is a failed step.\<close>

definition step_sound :: "provisioning \<Rightarrow> provision_report \<Rightarrow> bool" where
  "step_sound x r = (list_all (\<lambda>c. \<not> is_mint c) (fst x)
     \<and> (case snd x of Inl r' \<Rightarrow> \<not> pr_ok r' \<and> ts_outcome (last (pr_steps r')) = StepFailed \<and> pr_steps r' \<noteq> []
        | Inr r' \<Rightarrow> \<not> pr_ok r' \<and> pr_agent r' = pr_agent r \<and> pr_ref r' = pr_ref r))"

lemma step_soundI:
  assumes "\<not> pr_ok r"
  shows "step_sound (register_step w q r) r" and "step_sound (cap_step w m r) r" and "step_sound (rates_step w limits r) r"
  using assms
  by (auto simp: step_sound_def register_step_def existing_step_def patch_step_def cap_step_def rates_step_def
      load_rate_limits_def failed_step_def ok_step_def step_of_def Let_def list_all_iff
      split: option.splits sum.splits prod.splits rates_reply.splits rate_outcome.splits if_splits)

lemma then_step_cases:
  assumes "then_step x f = (cs, y)"
  obtains (stopped) r where "x = (cs, Inl r)" "y = Inl r"
  | (went_on) r ds es where "x = (ds, Inr r)" "f r = (es, y)" "cs = ds @ es"
  using assms by (cases x; cases "snd x") (auto simp: then_step_def split: prod.splits)

lemma cap_step_Inr: "cap_step w m r = (cs, Inr r') \<Longrightarrow> pv_cap w = Some 200 \<and> (\<exists>cap. cap_from_manifest m (pr_agent r) = Inr cap
    \<and> cs = [PutCap cap] \<and> pr_cap r' = Some cap)"
  by (auto simp: cap_step_def ok_step_def split: sum.splits if_splits)

text \<open>Provisioning has no effect at all unless the gate passes: a valid manifest, loadable rate limits, an
  expiry that is still ahead and covers the token's life. Then it stops at the first failure, saying so in
  its last step; a token is asked for only last, after the governor took the manifest's own cap and did
  not refuse its rate limits, with the manifest's scope; and the run is reported as a success exactly when
  that token was minted.\<close>

lemma provision_mints_last:
  assumes "provision w q = (cs, res)"
  shows "(case res of
      Inl e \<Rightarrow> cs = []
    | Inr r \<Rightarrow> (\<exists>m limits ex. pv_manifest w = Some m \<and> provision_gate w q = Inr (m, limits)
          \<and> parse_expiry (md_expiry (mf_delegation_section m)) = Some ex \<and> pv_now w < ex
          \<and> pv_now w + pq_ttl_days q * day_us \<le> ex
          \<and> (pr_ok r \<longleftrightarrow> (\<exists>tok. pv_mint w = Some (201, tok)) \<and> list_ex is_mint cs)
          \<and> (\<not> pr_ok r \<longrightarrow> ts_outcome (last (pr_steps r)) = StepFailed)
          \<and> (list_ex is_mint cs \<longrightarrow> (\<exists>cap before. cs = before
                @ [MintToken (pr_agent r) (pq_grantor q) (md_scope (mf_delegation_section m)) (pq_ttl_days q * 86400)]
              \<and> list_all (\<lambda>c. \<not> is_mint c) before \<and> cap_from_manifest m (pr_agent r) = Inr cap
              \<and> PutCap cap \<in> set before \<and> pv_cap w = Some 200))))"
proof (cases "provision_gate w q")
  case (Inl e)
  with assms show ?thesis by (auto simp: provision_def)
next
  case (Inr ml)
  obtain m limits where ml: "ml = (m, limits)" by (cases ml)
  from Inr ml obtain ex where gate: "pv_manifest w = Some m" "parse_expiry (md_expiry (mf_delegation_section m)) = Some ex"
      "pv_now w < ex" "pv_now w + pq_ttl_days q * day_us \<le> ex"
    by (auto simp: provision_gate_def not_le not_less split: option.splits sum.splits if_splits)
  define r0 where "r0 = first_report q m"
  have r0: "\<not> pr_ok r0" by (simp add: r0_def first_report_def)
  obtain cs' y where t: "then_step (register_step w q r0) (\<lambda>r. then_step (cap_step w m r) (\<lambda>r.
      then_step (rates_step w limits r) (mint_step w q m))) = (cs', y)" by fastforce
  have "cs' = cs" "res = Inr (case y of Inl r \<Rightarrow> r | Inr r \<Rightarrow> r)"
    using assms t Inr ml unfolding provision_def r0_def by (auto split: sum.splits)
  with t have run: "then_step (register_step w q r0) (\<lambda>r. then_step (cap_step w m r) (\<lambda>r.
      then_step (rates_step w limits r) (mint_step w q m))) = (cs, y)" "res = Inr (case y of Inl r \<Rightarrow> r | Inr r \<Rightarrow> r)"
    by simp_all
  have nomint: "\<not> list_ex is_mint xs" if "list_all (\<lambda>c. \<not> is_mint c) xs" for xs
    using that by (auto simp: list_ex_iff list_all_iff)
  have "(pr_ok r \<longleftrightarrow> (\<exists>tok. pv_mint w = Some (201, tok)) \<and> list_ex is_mint cs)
      \<and> (\<not> pr_ok r \<longrightarrow> ts_outcome (last (pr_steps r)) = StepFailed)
      \<and> (list_ex is_mint cs \<longrightarrow> (\<exists>cap before. cs = before
            @ [MintToken (pr_agent r) (pq_grantor q) (md_scope (mf_delegation_section m)) (pq_ttl_days q * 86400)]
          \<and> list_all (\<lambda>c. \<not> is_mint c) before \<and> cap_from_manifest m (pr_agent r) = Inr cap
          \<and> PutCap cap \<in> set before \<and> pv_cap w = Some 200))" if r: "r = (case y of Inl r \<Rightarrow> r | Inr r \<Rightarrow> r)" for r
    using run(1)
  proof (cases rule: then_step_cases)
    case (stopped r1)
    with step_soundI(1) [OF r0, of w q] r show ?thesis by (auto simp: step_sound_def nomint)
  next
    case reg: (went_on r1 c1 d1)
    have s1: "\<not> pr_ok r1" "list_all (\<lambda>c. \<not> is_mint c) c1" "pr_agent r1 = pr_agent r0"
      using step_soundI(1) [OF r0, of w q] reg(1) by (auto simp: step_sound_def)
    from reg(2) show ?thesis
    proof (cases rule: then_step_cases)
      case (stopped r2)
      with step_soundI(2) [OF s1(1), of w m] r reg(3) s1(2) show ?thesis by (auto simp: step_sound_def nomint)
    next
      case cap: (went_on r2 c2 d2)
      have s2: "\<not> pr_ok r2" "list_all (\<lambda>c. \<not> is_mint c) c2" "pr_agent r2 = pr_agent r1"
        using step_soundI(2) [OF s1(1), of w m] cap(1) by (auto simp: step_sound_def)
      from cap_step_Inr [OF cap(1)] obtain cc where cc: "pv_cap w = Some 200" "cap_from_manifest m (pr_agent r1) = Inr cc"
        "c2 = [PutCap cc]" by blast
      from cap(2) show ?thesis
      proof (cases rule: then_step_cases)
        case (stopped r3)
        with step_soundI(3) [OF s2(1), of w limits] r reg(3) cap(3) s1(2) s2(2) show ?thesis
          by (auto simp: step_sound_def nomint)
      next
        case rates: (went_on r3 c3 d3)
        have s3: "\<not> pr_ok r3" "list_all (\<lambda>c. \<not> is_mint c) c3" "pr_agent r3 = pr_agent r2"
          using step_soundI(3) [OF s2(1), of w limits] rates(1) by (auto simp: step_sound_def)
        have d3: "d3 = [MintToken (pr_agent r3) (pq_grantor q) (md_scope (mf_delegation_section m)) (pq_ttl_days q * 86400)]"
          using rates(2) by (simp add: mint_step_def)
        have m: "pr_agent r = pr_agent r3" "pr_ok r \<longleftrightarrow> (\<exists>tok. pv_mint w = Some (201, tok))"
          "\<not> pr_ok r \<Longrightarrow> ts_outcome (last (pr_steps r)) = StepFailed"
          using rates(2) r s3(1)
          by (auto simp: mint_step_def failed_step_def ok_step_def step_of_def split: option.splits prod.splits if_splits)
        show ?thesis
          using m cc s1 s2 s3 unfolding reg(3) cap(3) rates(3) d3
          by (auto intro!: exI [of _ "c1 @ c2 @ c3"])
      qed
    qed
  qed
  with run(2) gate Inr ml show ?thesis by auto
qed

text \<open>An agent the registry knows as retired is not provisioned again: nothing is sent but the registration it
  refused and the look at its record, and the run fails.\<close>

lemma retired_agent_not_provisioned:
  assumes "pv_post w = Some 409" and "pv_get w = Some (200, Some a)" and "sg_status a = Some ''retired''"
    and "provision w q = (cs, Inr r)"
  shows "\<not> pr_ok r \<and> cs = [PostAgent (pr_agent r) (py_or_text (pq_name q) (pr_agent r)) (pq_owner q) (pq_domain q) (pr_ref r),
    GetAgent (pr_agent r)]"
  using assms
  by (auto simp: provision_def then_step_def register_step_def existing_step_def first_report_def failed_step_def Let_def
      split: sum.splits prod.splits)


section \<open>Concrete runs\<close>

definition sample_sweep_world :: sweep_world where
  "sample_sweep_world = \<lparr>sw_agents = [\<lparr>sa_id = ''a1'', sa_owner = ''ghost'', sa_status = ''killed'', sa_created = [],
     sa_attested_at = None, sa_attested_by = None\<rparr>], sw_tokens = [], sw_ledger = None, sw_kill = None,
     sw_retention = NoRetention, sw_watch = None, sw_events = NoReader\<rparr>"

definition sample_sweep_config :: sweep_config where
  "sample_sweep_config = \<lparr>expiry_horizon_days = 30, reattestation_days = 90, auto_kill_orphans = True,
     sweep_operator = ''lifecycle-manager (scheduled)''\<rparr>"

lemma sample_off_roster: "\<not> on_roster (roster_strings sample_roster) \<lparr>sa_id = ''a1'', sa_owner = ''ghost'',
    sa_status = ''killed'', sa_created = [], sa_attested_at = None, sa_attested_by = None\<rparr>"
  by (simp add: on_roster_def roster_strings_def sample_roster_def match_strings_def py_lower_def lower_char_def)

lemma sample_roster_entries: "parse_roster_entries (print_roster sample_roster) = Inr sample_roster" "sample_roster \<noteq> []"
  by (rule roster_roundtrip_raw [OF sample_roster_printable]) (simp add: sample_roster_def)

lemma sweep_findings_are_exact_witness:
  "\<exists>rep. snd (sweep sample_sweep_config sample_sweep_world (print_roster sample_roster) (63900000000 * second)) = Inr rep
    \<and> ''a1'' \<in> or_agent ` set (rp_orphans rep)"
proof -
  have "\<exists>rep. snd (sweep sample_sweep_config sample_sweep_world (print_roster sample_roster) (63900000000 * second)) = Inr rep"
    using sample_off_roster
    by (simp add: sweep_def sample_roster_entries sample_sweep_world_def sample_sweep_config_def sweep_pass_Cons
        reattest_step_def orphan_step_def valid_instant_def day_us_def second_def Let_def)
  then obtain rep where rep: "snd (sweep sample_sweep_config sample_sweep_world (print_roster sample_roster) (63900000000 * second)) = Inr rep"
    by blast
  have "''a1'' \<in> or_agent ` set (rp_orphans rep)"
    by (rule sweep_findings_are_exact [OF rep sample_roster_entries(1), THEN conjunct2, THEN conjunct2, THEN iffD2])
      (simp add: sample_sweep_world_def sample_roster_def py_lower_def lower_char_def)
  with rep show ?thesis by blast
qed

definition sample_halt :: decommission_world where
  "sample_halt = \<lparr>dw_registry = RegistryAgent \<lparr>ra_status = Some ''active'', ra_manifest_ref = None\<rparr>,
     dw_tokens = TokensList [(''t1'', False), (''t2'', True)], dw_revoke = (\<lambda>_. Some 502), dw_kill = Some (Some 200),
     dw_retire = True, dw_ledger = Some LR_created\<rparr>"

lemma decommission_acts_first_witness:
  "RevokeToken ''t1'' \<in> set (fst (snd (decommission sample_halt ''a1'' ''don'' ''leaving'' [])))
   \<and> last (fst (snd (decommission sample_halt ''a1'' ''don'' ''leaving'' []))) = RetireAgent ''a1''"
proof -
  have w: "dw_registry sample_halt = RegistryAgent \<lparr>ra_status = Some ''active'', ra_manifest_ref = None\<rparr>"
    "ra_status \<lparr>ra_status = Some ''active'', ra_manifest_ref = None\<rparr> \<noteq> Some ''retired''"
    "dw_tokens sample_halt \<noteq> TokensUnreadable" by (simp_all add: sample_halt_def)
  obtain l cs res where d: "decommission sample_halt ''a1'' ''don'' ''leaving'' [] = (l, cs, res)" by (metis surj_pair)
  from decommission_acts_first [OF w d] obtain r where
    f: "\<forall>t. RevokeToken t \<in> set cs \<longleftrightarrow> (\<exists>ts. dw_tokens sample_halt = TokensList ts \<and> (t, False) \<in> set ts)"
      "last cs = RetireAgent ''a1''" by iprover
  have "RevokeToken ''t1'' \<in> set cs" unfolding f(1) [rule_format] by (simp add: sample_halt_def)
  with f(2) show ?thesis by (simp add: d)
qed

definition sample_provision_world :: "nat option \<Rightarrow> provision_world" where
  "sample_provision_world post = \<lparr>pv_manifest = Some (demo_manifest []), pv_now = 63900000000 * second, pv_post = post,
     pv_get = Some (200, Some \<lparr>sg_status = Some ''retired'', sg_owner = None, sg_manifest = None\<rparr>), pv_patch = None,
     pv_cap = None, pv_rates_get = RatesRaised, pv_rates_put = RatesRaised, pv_mint = None\<rparr>"

definition sample_provision :: provision_request where
  "sample_provision = \<lparr>pq_path = ''m.yaml'', pq_owner = ''don'', pq_domain = ''general'', pq_grantor = ''don'',
     pq_ttl_days = 1, pq_name = None, pq_ref = None\<rparr>"

lemma sample_gate: "provision_gate (sample_provision_world post) sample_provision
    = Inr (demo_manifest [], \<lparr>rs_agent = ''canary'', rs_limits = []\<rparr>)"
  by (simp add: provision_gate_def sample_provision_world_def sample_provision_def rate_limits_from_manifest_def
      demo_manifest_def rates_from_manifest_def make_rate_set_def demo_manifest_expiry valid_instant_def day_us_def second_def)

lemma provision_mints_last_witness:
  "\<exists>cs r. provision (sample_provision_world None) sample_provision = (cs, Inr r) \<and> \<not> list_ex is_mint cs"
proof -
  obtain cs res where p: "provision (sample_provision_world None) sample_provision = (cs, res)" by fastforce
  obtain r where r: "res = Inr r" using p by (auto simp: provision_def sample_gate split: prod.splits sum.splits)
  from provision_mints_last [OF p] have "list_ex is_mint cs \<longrightarrow> pv_cap (sample_provision_world None) = Some 200"
    unfolding r by auto
  then show ?thesis using p r by (auto simp: sample_provision_world_def)
qed

lemma retired_agent_not_provisioned_witness:
  "\<exists>cs r. provision (sample_provision_world (Some 409)) sample_provision = (cs, Inr r) \<and> \<not> pr_ok r \<and> length cs = 2"
proof -
  obtain cs res where p: "provision (sample_provision_world (Some 409)) sample_provision = (cs, res)" by fastforce
  obtain r where r: "res = Inr r" using p by (auto simp: provision_def sample_gate split: prod.splits sum.splits)
  have w: "pv_post (sample_provision_world (Some 409)) = Some 409"
    "pv_get (sample_provision_world (Some 409)) = Some (200, Some \<lparr>sg_status = Some ''retired'', sg_owner = None, sg_manifest = None\<rparr>)"
    "sg_status \<lparr>sg_status = Some ''retired'', sg_owner = None, sg_manifest = None\<rparr> = Some ''retired''"
    by (simp_all add: sample_provision_world_def)
  from retired_agent_not_provisioned [OF w p [unfolded r]] p r show ?thesis by auto
qed

end
