(* ===== verification/Spec2Isabelle.thy ===== *)
theory Spec2Isabelle
  imports Archive_Safety Anchor_Safety Approver_Safety Kill_Safety Federation_Broker Ledger_Chain Utc_Time Delegation_Authority Spend_Governor Sentinel Agent_Registry Lifecycle Append_Policy Ledger_Writer
begin

text \<open>
  A verification library for the FIELD platform: services that register agents, delegate authority to them, check
  every action they take, meter what they spend, stop them, and seal what happened in a hash-chained ledger. All the
  code is Python: the library \<open>packages/field-core\<close> and one package per service under \<open>services/\<close>.

  \<^bold>\<open>How the parts interact.\<close> An agent is registered (agent registry) and given a token with a scope, a ceiling and
  an expiry (delegation authority). Before an action the conformance sentinel is asked: it reads the agent's status
  from the registry, the token from the authority, the spend from the spend governor and the manifest, decides ALLOW,
  BLOCK or ESCALATE, and meters and records the check. The kill switch sets an agent (or a domain of them) to killed
  and signals its endpoint; the lifecycle manager provisions, sweeps and decommissions agents by calling the others;
  the federation broker judges crossings between organisations; the Claude approver asks the sentinel about every
  tool call of a hosted session and posts its usage to the governor. Every service appends to the sealed ledger, whose
  store rotates segments and whose heads are anchored and witnessed from outside. Operators prove who they are to the
  guarded routes with the operators file.

  \<^bold>\<open>How the model reads.\<close> A class or row is a \<open>record\<close>, an enum or a set of failures a \<open>datatype\<close> with the source's
  cases, a handler a function from its state and what the outside world answered to its new state and answer; a raise
  is the \<open>Inl\<close> of a sum or a None, as the definition says. What is not in the repository or is not pure is an
  argument: SHA-256 and Ed25519 (no property of them is assumed, collisions and genesis preimages are named where they
  matter), \<open>json.loads\<close>, pydantic's lax readings, clocks, fresh ids, the bytes of files and the answers of other
  services. A loop whose calls can be answered differently each time takes the answers as a function of the calls made
  before. Integers are unbounded as in Python, except SQLite's 64-bit columns in the governor, whose overflow is an
  error value. Floats are never computed with: money is integer cents or exact rationals read from decimal texts.
  A \<open>str\<close> is a list of characters up to Latin-1.

  \<^bold>\<open>Prelude.\<close> \<open>Field_Prelude\<close>: Python strings, numerals, keyed tables, the error monad, and the contracts several
  services keep, as locales: \<open>keyed_store\<close> (a table with one row per key), \<open>service\<close>, \<open>latched_service\<close> (a value that is
  set once) and \<open>logging_service\<close> (a log that only grows). \<open>Step_Systems\<close>: the same for step relations. Each is
  interpreted on the components that keep it: the token table, revocations, ceilings and log of the authority, the
  caps, policies, escalations and spend log of the governor, the contract table of the broker, the sentinel's log, the
  registry's retired agents, the ledger store, the sessions and ticks of the approver. \<open>Utc_Time\<close> is
  \<open>datetime\<close> in UTC with its calendar and ISO texts; \<open>Canonical_Json\<close> the bytes that are hashed and signed, with the
  theorem that equal bytes are equal values up to key order.

  \<^bold>\<open>Theories and code\<close> (under \<open>packages/field-core/src/field_core\<close> or the service's own package):

  \<^item> \<open>Ledger_Chain\<close>: \<open>ledger.py\<close>, events, hashes, \<open>verify_chain\<close>. A verification reports exactly the first
    break, and a head hash commits to the whole history.
  \<^item> \<open>Append_Policy\<close>, \<open>Segment_Journal\<close>, \<open>Ledger_Store\<close>: \<open>sealed_ledger/store.py\<close> and \<open>filters.py\<close>: signing and caller
    policy (a stop always gets in), the journal of segments, layout and verification, the writer's cache, appends, rotations and repairs as
    lists of disk writes. \<open>Ledger_Crashes\<close> and \<open>Ledger_Writer\<close> prove, for payloads without NaN or infinite numbers
    (those are written as null and break the chain, \<open>nonfinite_payload_breaks_chain\<close>), what a crash at any write
    leaves: after any write of a repair or a rotation, torn or not, and after an append with the event's line whole or
    absent, a recoverable ledger; after an append with part of the event's line, a half line, which no repair removes,
    at which every writer without a current cache refuses, and before which every acknowledged event can be read.
    Left out of those runs (the condition \<open>noticed\<close>) is the one tear that is the whole line without its line break: it
    is not noticed, the next append joins it, and \<open>unterminated_line_ruins_segment\<close> says what comes of that. A
    rotation is atomic, a repair ends in a repaired ledger or a refusal that changes nothing more, and the store refines
    the list of events acknowledged.
  \<^item> \<open>Ledger_Archive\<close>, \<open>Archive_Safety\<close>: \<open>store.py\<close>, legal holds and the archiving of old segments as lists of writes:
    it ends, a hold stops it, no hold is lifted without its event, and wherever a run stops no segment is lost, as long
    as no archive destination names a file of the ledger directory. Paths are resolved by a parameter, so that one can;
    the code then removes a segment's only copy (\<open>self_move_removes_only_copy\<close>).
  \<^item> \<open>Ledger_Anchors\<close>, \<open>Anchor_Safety\<close>: \<open>sealed_ledger/anchors.py\<close> and \<open>witness.py\<close>: anchored or witnessed history is
    still there when both states verify as a chain and the anchors check passes, and a witness signs only what it read.
  \<^item> \<open>Operator_Registry\<close>, \<open>Operator_Auth\<close>: \<open>operator_auth.py\<close>: both file formats with every row rule, retired keys,
    authentication, attribution and admission of ledger events: an accepted file has the rows the file gives, each within
    the rules of its format, and what enforce mode admits was proven.
  \<^item> \<open>Manifest\<close>: \<open>manifest.py\<close> and the resolver of \<open>clients.py\<close>; \<open>Clients\<close>: what a caller makes of the answers of
    the ledger and the registry; \<open>Ledger_Context\<close>: \<open>ledger_context.py\<close>.
  \<^item> \<open>Delegation_Token\<close>, \<open>Delegation_Authority\<close>: \<open>delegation.py\<close>, \<open>delegation_authority/store.py\<close>, \<open>doa.py\<close> and
    \<open>api.py\<close>: mint and revoke split at the ledger call, so that requests interleave and die between their halves;
    a revocation is permanent, a mint is ledgered before the token exists, an armed mint is bounded by its grantor.
  \<^item> \<open>Pricing\<close>, \<open>Spend_Core\<close>, \<open>Spend_Store\<close>, \<open>Spend_Governor\<close>: \<open>pricing.py\<close> and \<open>spend_governor\<close>: windows, caps, rate
    limits, escalations and usage; the store refines a book of rows and the service refines the store.
  \<^item> \<open>Sentinel\<close>: \<open>conformance_sentinel\<close> (\<open>mode.py\<close>, \<open>routing.py\<close>, \<open>judge.py\<close>, \<open>engine.py\<close>, \<open>governed.py\<close>): the eight
    decision steps and the metering; an enforced ALLOW holds exactly when every clause does.
  \<^item> \<open>Agent_Registry\<close>: \<open>agent_registry\<close> (\<open>models.py\<close>, \<open>store.py\<close>, \<open>api.py\<close>), requests as a step relation: retired is
    terminal, edits are authorised, the notes in the ledger replay to the statuses, stored claims were verified.
  \<^item> \<open>Csv_Roster\<close>, \<open>Lifecycle\<close>: \<open>lifecycle_manager/engine.py\<close>: the roster's CSV, the sweep, provisioning and
    decommissioning: a sweep kills only orphans.
  \<^item> \<open>Halt_Endpoint\<close>, \<open>Kill_Switch\<close>, \<open>Kill_Safety\<close>: \<open>kill_switch/api.py\<close> and \<open>store.py\<close>: the guards of the outbound
    signal and every handler, as functions of the calls made so far.
  \<^item> \<open>Federation_Broker\<close>: \<open>federation_broker/engine.py\<close>: contracts with the one-active rule and migration, and the
    two decisions.
  \<^item> \<open>Approver_Config\<close>, \<open>Approver\<close>, \<open>Approver_Safety\<close>: \<open>claude_approver/config.py\<close> and \<open>core.py\<close>: the maps, a tick over
    the sessions, usage and the halt: an allow is the sentinel's, a settled ask is never sent again, usage is accounted.
  \<^item> this theory: properties that span services, over what one service's answer is to another: a revoked token, a
    retired agent and a spent budget stop an agent at the sentinel whatever happens elsewhere in between.

  \<^bold>\<open>Bounds and fuel.\<close> Definitions are structural or have a measure, but for two loops. The approver polls a halted
  session: with the clock moving at least a poll interval per retrieve, \<open>poll_fuel\<close> steps are enough. A retention run
  archives segment by segment: as many rounds as there are live closed segments, and five, are enough, unless a journaled
  destination names the journal itself (then some other number is). Both are proved. The
  governor's split sum is exact for as many 64-bit amounts as it can meet; ledgers, tables and lists have no bound.

  \<^bold>\<open>Not modelled.\<close> Network and framework glue (FastAPI routes around a handler, HTTP clients, threads, log lines,
  command lines), SQL text and migrations of old columns, the wording of messages (constructors carry what they
  quote), key files and PEM parsing with the keyring's cache of them, the ledger store's export bundles, and the
  components that only read and report (incident replay, attestation reporter, compliance crosswalk, operations
  console) or scan and proxy (discovery, force gateway), the client-side agent package and the operator tools.
\<close>

section \<open>What one service's answer is to another\<close>

text \<open>
  A service reads another's answer as JSON. These are the answers of the delegation authority's
  introspection, the registry's \<open>GET /agents/{agent_id}\<close> and the governor's status, as the callers see them.
\<close>

definition token_status_text :: "token_status \<Rightarrow> string" where
  "token_status_text st = (case st of TS_active \<Rightarrow> ''active'' | TS_expired \<Rightarrow> ''expired'' | TS_revoked \<Rightarrow> ''revoked'')"

text \<open>Pydantic prints a UTC time with a \<open>Z\<close> where \<open>isoformat\<close> has \<open>+00:00\<close>.\<close>

definition json_time :: "instant \<Rightarrow> string" where
  "json_time t = take (length (iso_utc t) - 6) (iso_utc t) @ ''Z''"

definition introspect_reply :: "http_error + introspection \<Rightarrow> intro_body reply" where
  "introspect_reply r = (case r of Inl (Http st _) \<Rightarrow> Status st
     | Inr i \<Rightarrow> Body \<lparr>ib_active = in_active i, ib_status = Some (token_status_text (in_status i)),
         ib_agent = in_agent_id i, ib_scope = in_scope i, ib_ceiling = map_option Amount (in_max_spend_usd i),
         ib_issued = map_option json_time (in_issued_at i)\<rparr>)"

definition agent_reply :: "registry_store_error + agent_record \<Rightarrow> registry_reply" where
  "agent_reply r = (case r of Inl AgentNotFoundError \<Rightarrow> RegistryStatus 404 | Inl _ \<Rightarrow> RegistryStatus 500
     | Inr rc \<Rightarrow> RegistryAgent \<lparr>ra_status = Some (status_value (rc_status rc)), ra_manifest_ref = rc_manifest rc\<rparr>)"

definition spend_state_text :: "spend_state \<Rightarrow> string" where
  "spend_state_text st = (case st of SS_ok \<Rightarrow> ''OK'' | SS_escalate \<Rightarrow> ''ESCALATE'' | SS_throttled \<Rightarrow> ''THROTTLED''
     | SS_block \<Rightarrow> ''BLOCK'')"

definition spend_reply :: "gov_error + spend_status \<times> spend_state \<times> cap_detail \<Rightarrow> spend_body reply" where
  "spend_reply r = (case r of Inl (GovHttp st _) \<Rightarrow> Status st
     | Inr (st, _, _) \<Rightarrow> Body \<lparr>sb_state = Some (spend_state_text (st_state st)), sb_retry = st_retry_after st\<rparr>)"

section \<open>A stop anywhere stops the agent\<close>

lemma refused_unless_clauses_hold:
  "sn_mode cfg = Enforce \<Longrightarrow> \<not> all_clauses_hold cfg w q \<Longrightarrow> vd_decision (snd (check cfg w q s)) \<noteq> ALLOW"
  by (simp add: check_decision first_verdict_enforce)

text \<open>C1: A revoked token never acts again: in whatever order mints, revokes and crashes of the delegation
  authority follow its revocation, an enforcing sentinel that asks the authority about the token never
  answers ALLOW to a check that presents it.\<close>

theorem revoked_token_never_acts:
  assumes "da_reachable uuid5 (xs @ ys)" and "revocation_latch tid (da_run uuid5 xs) = Some v"
    and "cw_introspect w tid = introspect_reply (introspect (au_store (da_run uuid5 (xs @ ys))) tid now)"
    and "sn_mode cfg = Enforce" and "cq_token q = Some tid"
  shows "vd_decision (snd (check cfg w q s)) \<noteq> ALLOW"
proof -
  have ys: "ok_run da_ok (da_step uuid5) ys (da_run uuid5 xs)" and xs: "da_reachable uuid5 xs"
    using assms(1) by (auto simp: da_reachable_def da_run_def ok_run_append)
  have run: "da_run uuid5 (xs @ ys) = fold (da_step uuid5) ys (da_run uuid5 xs)" by (simp add: da_run_def)
  have "revocation_latch tid (da_run uuid5 (xs @ ys)) = Some v"
    unfolding run by (rule da_revocations.run_latch [OF da_run_inv [OF xs] ys assms(2)])
  from latched_introspects_revoked [OF da_run_inv [OF assms(1)] this] obtain i where
    "introspect (au_store (da_run uuid5 (xs @ ys))) tid now = Inr i" "\<not> in_active i" by blast
  with assms(3,5) have "\<not> all_clauses_hold cfg w q"
    by (auto simp: all_clauses_hold_def introspect_reply_def)
  with assms(4) show ?thesis by (rule refused_unless_clauses_hold)
qed

text \<open>C2: A retired agent is out of the platform for good: after any further history of the registry, an
  enforcing sentinel that looks the agent up never answers ALLOW to it, and the delegation authority mints no
  token for it and changes nothing.\<close>

theorem retired_agent_stays_out:
  assumes "reg_step\<^sup>*\<^sup>* s t" and "reg_inv s" and "read_row (rg_agents s) i = Inr rc" and "rc_status rc = Retired"
    and "sn_mode cfg = Enforce" and "cw_registry w = agent_reply (read_row (rg_agents t) i)"
    and "wd_registry dw = agent_reply (read_row (rg_agents t) i)"
  shows "vd_decision (snd (check cfg w q sn)) \<noteq> ALLOW \<and> (\<exists>e. mint dw mq auth = (auth, Inl e))"
proof -
  have "retired_facts i (rg_agents s) = Some (rc_owner rc, rc_domain rc, rc_manifest rc, rc_attested_at rc, rc_attested_by rc)"
    using assms(3,4) by (simp add: retired_facts_def)
  from retired_facts_Some [OF agent_registry.reach_latches [OF assms(1,2) this]] obtain rc' where
    "read_row (rg_agents t) i = Inr rc'" "rc_status rc' = Retired" by blast
  then have reply: "agent_reply (read_row (rg_agents t) i)
      = RegistryAgent \<lparr>ra_status = Some ''retired'', ra_manifest_ref = rc_manifest rc'\<rparr>"
    by (simp add: agent_reply_def status_value_def)
  then have "\<not> all_clauses_hold cfg w q" using assms(6) by (simp add: all_clauses_hold_def)
  with assms(5) have "vd_decision (snd (check cfg w q sn)) \<noteq> ALLOW" by (rule refused_unless_clauses_hold)
  moreover obtain e where "mint_checks dw mq = Inl e"
  proof (cases "mint_checks dw mq")
    case (Inr r)
    then have False by (auto simp: mint_checks_def bindE_Inr_iff assms(7) reply require_active_agent_def get_agent_def
        split: if_splits)
    then show ?thesis ..
  qed blast
  ultimately show ?thesis by (simp add: mint_def mint_begin_def)
qed

text \<open>C3: A spent budget stops the agent: when the cents recorded for an agent since the window began reach the
  limit of its cap, an enforcing sentinel that reads the governor's status never answers ALLOW to it.\<close>

theorem spent_budget_stops_agent:
  assumes "Spend_Governor.store_ok now g" and "clock_ok now" and "get_cap_row g (cq_agent q) = Inr (Some cap)"
    and "limit_cents cap = Some l"
    and "l \<le> sum_list (map se_cents (spend_since g (cq_agent q) (window_start (cap_period cap) now)))"
    and "sn_mode cfg = Enforce" and "cw_spend w = spend_reply (status_full g (cq_agent q) now (Some (cq_action q)))"
  shows "vd_decision (snd (check cfg w q s)) \<noteq> ALLOW"
proof -
  from block_when_cents_reached [OF assms(1-5)] obtain st d where
    "status_full g (cq_agent q) now (Some (cq_action q)) = Inr (st, SS_block, d)" "st_state st = SS_block" by blast
  then have "cw_spend w = Body \<lparr>sb_state = Some ''BLOCK'', sb_retry = st_retry_after st\<rparr>"
    using assms(7) by (simp add: spend_reply_def spend_state_text_def)
  then have "\<not> all_clauses_hold cfg w q" by (auto simp: all_clauses_hold_def within_budget_def)
  with assms(6) show ?thesis by (rule refused_unless_clauses_hold)
qed

section \<open>The three stops at work\<close>

text \<open>The token of the delegation demo, revoked; the agent of the registry demo, retired; a spent cap.\<close>

theorem revoked_token_never_acts_witness:
  "vd_decision (snd (check \<lparr>sn_mode = Enforce, sn_judge = False, sn_floor = 1\<rparr>
     (demo_check_world\<lparr>cw_introspect := (\<lambda>_. introspect_reply (introspect (au_store (da_run (\<lambda>n. n)
        ((demo_mint_ops @ demo_revoke_ops) @ [Crash]))) ''t1'' epoch))\<rparr>) demo_check_request demo_sentinel)) \<noteq> ALLOW"
proof -
  have "da_reachable (\<lambda>n. n) ((demo_mint_ops @ demo_revoke_ops) @ [Crash])"
    using demo_revoke_run(2) [of "\<lambda>n. n"] by (simp add: da_reachable_def ok_run_append da_ok_def)
  from revoked_token_never_acts [OF this demo_revoke_run(1), of _ epoch "\<lparr>sn_mode = Enforce, sn_judge = False, sn_floor = 1\<rparr>"
      demo_check_request demo_sentinel]
  show ?thesis by (simp add: demo_check_request_def)
qed

theorem retired_agent_stays_out_witness:
  "\<exists>e. mint (Delegation_Authority.demo_world\<lparr>wd_registry := agent_reply (read_row (rg_agents sample_retired) ''a1'')\<rparr>)
     demo_request new_authority = (new_authority, Inl e)"
proof -
  have reads: "read_row (rg_agents sample_retired) ''a1'' = Inr (sample_record Retired)"
    by (simp add: sample_retired_def sample_read_row)
  have inv: "reg_inv sample_retired"
    by (simp add: reg_inv_def agents_ok_def unique_keys_def sample_retired_def sample_reads)
  have st: "rc_status (sample_record Retired) = Retired" by (simp add: sample_record_def)
  from retired_agent_stays_out [OF rtranclp.rtrancl_refl inv reads st, of "\<lparr>sn_mode = Enforce, sn_judge = False, sn_floor = 1\<rparr>"
      "demo_check_world\<lparr>cw_registry := agent_reply (read_row (rg_agents sample_retired) ''a1'')\<rparr>"
      "Delegation_Authority.demo_world\<lparr>wd_registry := agent_reply (read_row (rg_agents sample_retired) ''a1'')\<rparr>"
      demo_check_request demo_sentinel demo_request new_authority]
  show ?thesis by simp
qed

theorem spent_budget_stops_agent_witness:
  "vd_decision (snd (check \<lparr>sn_mode = Enforce, sn_judge = False, sn_floor = 1\<rparr>
     (demo_check_world\<lparr>cw_spend := spend_reply (status_full (gv_store demo_governor) ''canary'' demo_now (Some ''read''))\<rparr>)
     (demo_check_request\<lparr>cq_agent := ''canary''\<rparr>) demo_sentinel)) \<noteq> ALLOW"
proof (rule spent_budget_stops_agent)
  show "Spend_Governor.store_ok demo_now (gv_store demo_governor)"
    using demo_store_ok by (simp add: demo_governor_def)
  show "clock_ok demo_now" by (rule demo_clock)
  show "get_cap_row (gv_store demo_governor) (cq_agent (demo_check_request\<lparr>cq_agent := ''canary''\<rparr>)) = Inr (Some demo_cap)"
    using demo_cap_row by (simp add: demo_governor_def)
  show "limit_cents demo_cap = Some 1000" by (simp add: demo_cap_def)
  show "1000 \<le> sum_list (map se_cents (spend_since (gv_store demo_governor)
      (cq_agent (demo_check_request\<lparr>cq_agent := ''canary''\<rparr>)) (window_start (cap_period demo_cap) demo_now)))"
    by (simp add: demo_governor_def demo_cap_def window_start_total spend_since_def Spend_Governor.demo_store_def spent_row_def)
qed (simp_all add: demo_check_request_def)

end
